(* ===== verification/Prelude.thy ===== *)
theory Prelude
  imports Main "HOL-Library.Monad_Syntax"
begin

text \<open>
  Shared vocabulary of the development: SQL-shaped operations on tables (a table is the list of
  its rows in insertion order), the interfaces of a guarded UPDATE and of a compare-and-set
  UPDATE, error results, and transition systems with invariants.  Nothing in this theory is
  specific to one package of the repository.
\<close>

named_theorems table_simps \<open>rewrites for the table operations\<close>
named_theorems inv_intros \<open>preservation of invariants by the operations\<close>

subsection \<open>Results\<close>

text \<open>A Python exception is the left summand; the host rolls the session back when it escapes.\<close>

datatype py_exn =
    ValueError string
  | TypeErrorExn string
  | LookupErrorExn string
  | KeyErrorExn string
  | RuntimeErrorExn string
  | IntegrityError
  | EngineError string string
  | HTTPException nat string
  | HostExn string string

type_synonym 'a result = "py_exn + 'a"

definition rbind :: "'a result \<Rightarrow> ('a \<Rightarrow> 'b result) \<Rightarrow> 'b result" where
  "rbind r f = (case r of Inl e \<Rightarrow> Inl e | Inr x \<Rightarrow> f x)"

lemma rbind_simps [simp]:
  "rbind (Inl e) f = Inl e"
  "rbind (Inr x) f = f x"
  by (simp_all add: rbind_def)

lemma rbind_Inr_iff: "rbind r f = Inr y \<longleftrightarrow> (\<exists>x. r = Inr x \<and> f x = Inr y)"
  by (cases r) simp_all

lemma rbind_InrE:
  assumes "rbind r f = Inr y"
  obtains x where "r = Inr x" "f x = Inr y"
  using assms by (auto simp: rbind_Inr_iff)

definition guard_r :: "bool \<Rightarrow> py_exn \<Rightarrow> unit result" where
  "guard_r ok e = (if ok then Inr () else Inl e)"

lemma guard_r_simps [simp]:
  "guard_r True e = Inr ()"
  "guard_r False e = Inl e"
  "guard_r b e = Inr u \<longleftrightarrow> b"
  "guard_r b e = Inl e' \<longleftrightarrow> \<not> b \<and> e' = e"
  by (auto simp: guard_r_def)

text \<open>Accumulating a list over a loop whose body may raise.\<close>

fun concat_r :: "('a \<Rightarrow> 'b list result) \<Rightarrow> 'a list \<Rightarrow> 'b list result" where
  "concat_r f [] = Inr []"
| "concat_r f (x # xs) = rbind (f x) (\<lambda>ys. rbind (concat_r f xs) (\<lambda>zs. Inr (ys @ zs)))"

lemma concat_r_Inr_iff:
  "concat_r f xs = Inr ys \<longleftrightarrow>
     (\<exists>yss. list_all2 (\<lambda>x zs. f x = Inr zs) xs yss \<and> ys = concat yss)"
proof (induction xs arbitrary: ys)
  case Nil
  then show ?case by auto
next
  case (Cons x xs)
  show ?case
    by (auto simp: rbind_Inr_iff Cons.IH list_all2_Cons1) (metis concat.simps(2))
qed

lemma concat_r_Nil:
  "concat_r f xs = Inr [] \<Longrightarrow> x \<in> set xs \<Longrightarrow> f x = Inr []"
  by (induction xs) (auto simp: rbind_Inr_iff)

subsection \<open>Tables\<close>

definition update_where :: "('r \<Rightarrow> bool) \<Rightarrow> ('r \<Rightarrow> 'r) \<Rightarrow> 'r list \<Rightarrow> 'r list" where
  "update_where P f rows = map (\<lambda>r. if P r then f r else r) rows"

definition rowcount :: "('r \<Rightarrow> bool) \<Rightarrow> 'r list \<Rightarrow> nat" where
  "rowcount P rows = length (filter P rows)"

definition row_by :: "('r \<Rightarrow> 'k) \<Rightarrow> 'k \<Rightarrow> 'r list \<Rightarrow> 'r option" where
  "row_by key k rows = find (\<lambda>r. key r = k) rows"

definition first_where :: "('r \<Rightarrow> bool) \<Rightarrow> 'r list \<Rightarrow> 'r option" where
  "first_where P rows = find P rows"

definition exists_where :: "('r \<Rightarrow> bool) \<Rightarrow> 'r list \<Rightarrow> bool" where
  "exists_where P rows = list_ex P rows"

text \<open>\<open>ORDER BY f LIMIT 1\<close>: the first row, in table order, whose value is least.\<close>

fun least_by :: "('r \<Rightarrow> 'v::linorder) \<Rightarrow> 'r list \<Rightarrow> 'r option" where
  "least_by f [] = None"
| "least_by f (r # rs) =
     (case least_by f rs of
        None \<Rightarrow> Some r
      | Some m \<Rightarrow> if f r \<le> f m then Some r else Some m)"

lemma least_by_None [simp]: "least_by f rs = None \<longleftrightarrow> rs = []"
  by (cases rs) (auto split: option.splits)

lemma least_by_Some:
  "least_by f rs = Some m \<Longrightarrow> m \<in> set rs \<and> (\<forall>r\<in>set rs. f m \<le> f r)"
proof (induction rs arbitrary: m)
  case Nil
  then show ?case by simp
next
  case (Cons r rs)
  show ?case
  proof (cases "least_by f rs")
    case None
    with Cons.prems show ?thesis by simp
  next
    case (Some n)
    with Cons.IH have "n \<in> set rs" "\<forall>r\<in>set rs. f n \<le> f r" by auto
    with Some Cons.prems show ?thesis
      by (auto split: if_splits intro: order_trans)
  qed
qed

lemma update_where_simps [table_simps, simp]:
  "update_where P f [] = []"
  "update_where P f (r # rs) = (if P r then f r else r) # update_where P f rs"
  "update_where P f (xs @ ys) = update_where P f xs @ update_where P f ys"
  "length (update_where P f rs) = length rs"
  by (simp_all add: update_where_def)

lemma set_update_where [table_simps]:
  "set (update_where P f rs) = (\<lambda>r. if P r then f r else r) ` set rs"
  by (simp add: update_where_def)

lemma ball_update_where:
  "(\<forall>r\<in>set (update_where P f rs). Q r) \<longleftrightarrow> (\<forall>r\<in>set rs. if P r then Q (f r) else Q r)"
  by (induction rs) auto

lemma update_where_none [table_simps]:
  "(\<And>r. r \<in> set rs \<Longrightarrow> \<not> P r) \<Longrightarrow> update_where P f rs = rs"
  by (induction rs) auto

lemma rowcount_0_iff: "rowcount P rs = 0 \<longleftrightarrow> (\<forall>r\<in>set rs. \<not> P r)"
  by (auto simp: rowcount_def filter_empty_conv)

lemma update_where_rowcount_0: "rowcount P rs = 0 \<Longrightarrow> update_where P f rs = rs"
  by (simp add: rowcount_0_iff update_where_none)

lemma rowcount_simps [table_simps, simp]:
  "rowcount P [] = 0"
  "rowcount P (r # rs) = (if P r then Suc (rowcount P rs) else rowcount P rs)"
  "rowcount P (xs @ ys) = rowcount P xs + rowcount P ys"
  by (simp_all add: rowcount_def)

lemma rowcount_update_same:
  "(\<And>r. Q r \<Longrightarrow> P (g r) = P r) \<Longrightarrow> rowcount P (update_where Q g rs) = rowcount P rs"
  by (induction rs) auto

lemma row_by_Some_iff:
  "row_by key k rs = Some r \<Longrightarrow> r \<in> set rs \<and> key r = k"
  by (auto simp: row_by_def find_Some_iff in_set_conv_nth)

lemma row_by_None_iff: "row_by key k rs = None \<longleftrightarrow> k \<notin> key ` set rs"
  by (auto simp: row_by_def find_None_iff)

lemma row_by_distinct:
  "distinct (map key rs) \<Longrightarrow> r \<in> set rs \<Longrightarrow> row_by key (key r) rs = Some r"
  by (induction rs) (auto simp: row_by_def)

lemma row_by_append [table_simps]:
  "row_by key k (xs @ ys) =
     (case row_by key k xs of None \<Rightarrow> row_by key k ys | Some r \<Rightarrow> Some r)"
  by (induction xs) (auto simp: row_by_def)

lemma row_by_simps [table_simps, simp]:
  "row_by key k [] = None"
  "row_by key k (r # rs) = (if key r = k then Some r else row_by key k rs)"
  by (simp_all add: row_by_def)

lemma first_where_Some: "first_where P rs = Some r \<Longrightarrow> r \<in> set rs \<and> P r"
  by (auto simp: first_where_def find_Some_iff in_set_conv_nth)

lemma first_where_None: "first_where P rs = None \<longleftrightarrow> (\<forall>r\<in>set rs. \<not> P r)"
  by (auto simp: first_where_def find_None_iff)

lemma first_where_simps [table_simps, simp]:
  "first_where P [] = None"
  "first_where P (r # rs) = (if P r then Some r else first_where P rs)"
  by (simp_all add: first_where_def)

lemma exists_where_iff: "exists_where P rs \<longleftrightarrow> (\<exists>r\<in>set rs. P r)"
  by (auto simp: exists_where_def list_ex_iff)

text \<open>A (partial) unique index over the rows that satisfy \<open>P\<close>, one row at a time.\<close>

lemma distinct_index_Cons:
  "distinct (map g (filter P (r # rs))) \<longleftrightarrow>
     (P r \<longrightarrow> (\<forall>s\<in>set rs. P s \<longrightarrow> g s \<noteq> g r)) \<and> distinct (map g (filter P rs))"
  by (auto simp: image_iff)

subsection \<open>The interface of an UPDATE statement\<close>

text \<open>
  An UPDATE that leaves the key column alone keeps the key list of the table, so that rows can
  still be found by key; the CAS form is one whose guard names one key and which disarms its own
  guard.  Both job claims, job settles, schedule ticks and outbox claims are of this shape.
\<close>

locale row_update =
  fixes key :: "'r \<Rightarrow> 'k"
    and P :: "'r \<Rightarrow> bool"
    and f :: "'r \<Rightarrow> 'r"
  assumes key_stable: "P r \<Longrightarrow> key (f r) = key r"
begin

lemma keys_kept: "map key (update_where P f rows) = map key rows"
  by (induction rows) (auto simp: key_stable)

lemma row_after:
  "row_by key k (update_where P f rows) =
     map_option (\<lambda>r. if P r then f r else r) (row_by key k rows)"
  by (induction rows) (auto simp: key_stable)

end

locale cas_update = row_update +
  fixes target :: 'k
  assumes guard_target: "P r \<Longrightarrow> key r = target"
    and disarms: "P r \<Longrightarrow> \<not> P (f r)"
begin

lemma at_most_one: "distinct (map key rows) \<Longrightarrow> rowcount P rows \<le> 1"
proof (induction rows)
  case Nil
  then show ?case by simp
next
  case (Cons r rs)
  show ?case
  proof (cases "P r")
    case True
    with Cons.prems guard_target have "\<forall>s\<in>set rs. \<not> P s" by (auto simp: image_iff)
    then have "rowcount P rs = 0" by (simp add: rowcount_0_iff)
    with True show ?thesis by simp
  next
    case False
    with Cons show ?thesis by simp
  qed
qed

lemma loser_sees_nothing: "rowcount P (update_where P f rows) = 0"
  by (induction rows) (auto simp: disarms)

lemma other_rows_kept:
  assumes "k \<noteq> target"
  shows "row_by key k (update_where P f rows) = row_by key k rows"
proof (cases "row_by key k rows")
  case None
  then show ?thesis by (simp add: row_after)
next
  case (Some r)
  then have "key r = k" by (auto dest: row_by_Some_iff)
  with assms guard_target have "\<not> P r" by auto
  with Some show ?thesis by (simp add: row_after)
qed

lemma winner_row:
  assumes "distinct (map key rows)" and "rowcount P rows = 1"
  shows "\<exists>r. row_by key target rows = Some r \<and> P r \<and>
             row_by key target (update_where P f rows) = Some (f r)"
proof -
  from assms(2) have "\<not> (\<forall>r\<in>set rows. \<not> P r)" by (metis rowcount_0_iff zero_neq_one)
  then obtain r where r: "r \<in> set rows" "P r" by blast
  with guard_target have "key r = target" by simp
  with r assms(1) have "row_by key target rows = Some r" by (metis row_by_distinct)
  with r show ?thesis by (simp add: row_after)
qed

end

subsection \<open>Transition systems\<close>

inductive reachable :: "('s \<Rightarrow> bool) \<Rightarrow> ('s \<Rightarrow> 's \<Rightarrow> bool) \<Rightarrow> 's \<Rightarrow> bool"
  for initial step where
  reach_start: "initial s \<Longrightarrow> reachable initial step s"
| reach_step: "reachable initial step s \<Longrightarrow> step s t \<Longrightarrow> reachable initial step t"

lemma reachable_steps:
  "step\<^sup>*\<^sup>* s t \<Longrightarrow> reachable initial step s \<Longrightarrow> reachable initial step t"
  by (induction rule: rtranclp_induct) (auto intro: reach_step)

locale invariant_system =
  fixes initial :: "'s \<Rightarrow> bool"
    and step :: "'s \<Rightarrow> 's \<Rightarrow> bool"
    and inv :: "'s \<Rightarrow> bool"
  assumes inv_initial: "initial s \<Longrightarrow> inv s"
    and inv_step: "inv s \<Longrightarrow> step s t \<Longrightarrow> inv t"
begin

lemma inv_reachable: "reachable initial step s \<Longrightarrow> inv s"
  by (induction rule: reachable.induct) (auto intro: inv_initial inv_step)

lemma inv_steps: "step\<^sup>*\<^sup>* s t \<Longrightarrow> inv s \<Longrightarrow> inv t"
  by (induction rule: rtranclp_induct) (auto intro: inv_step)

end

end
