(* ===== verification/PyValue.thy ===== *)
theory PyValue
  imports Prelude Complex_Main "HOL-Library.Char_ord" "HOL-Library.List_Lexorder"
    "HOL-Library.Product_Lexorder"
begin

text \<open>
  The Python values the packages store in JSON columns and compare in rules: \<open>None\<close>, booleans,
  integers, finite floats (exact rationals: Python compares int with float exactly), strings
  (lists of code points below 256, so that \<open>len\<close> and the order of strings agree), lists and
  dicts (association lists in insertion order, keys distinct when \<open>wf_val\<close> holds).  Equality,
  ordering and truth follow the language reference: \<open>True == 1\<close>, an ordering of incomparable
  types raises \<open>TypeError\<close> (\<open>None\<close> below), empty containers are false.
\<close>

type_synonym instant = int  \<comment> \<open>naive UTC datetimes, in microseconds\<close>

definition seconds :: "int \<Rightarrow> int" where
  "seconds n = n * 1000000"

lemma seconds_mono [simp]: "seconds a \<le> seconds b \<longleftrightarrow> a \<le> b" "seconds a < seconds b \<longleftrightarrow> a < b"
  by (simp_all add: seconds_def)

lemma seconds_pos [simp]: "0 < seconds a \<longleftrightarrow> 0 < a" "0 \<le> seconds a \<longleftrightarrow> 0 \<le> a"
  by (simp_all add: seconds_def zero_less_mult_iff zero_le_mult_iff)

datatype pyval =
    PNone
  | PBool bool
  | PInt int
  | PFloat rat
  | PStr string
  | PList "pyval list"
  | PDict "(string \<times> pyval) list"

text \<open>Floats with the infinities and NaN; a finite one is its exact rational value.\<close>

datatype flt = Fin rat | PInf | NInf | NaN

subsection \<open>Truth, equality, ordering\<close>

fun truthy :: "pyval \<Rightarrow> bool" where
  "truthy PNone = False"
| "truthy (PBool b) = b"
| "truthy (PInt i) = (i \<noteq> 0)"
| "truthy (PFloat q) = (q \<noteq> 0)"
| "truthy (PStr s) = (s \<noteq> [])"
| "truthy (PList xs) = (xs \<noteq> [])"
| "truthy (PDict ds) = (ds \<noteq> [])"

fun py_num :: "pyval \<Rightarrow> rat option" where
  "py_num (PBool b) = Some (if b then 1 else 0)"
| "py_num (PInt i) = Some (of_int i)"
| "py_num (PFloat q) = Some q"
| "py_num _ = None"

fun py_eq :: "pyval \<Rightarrow> pyval \<Rightarrow> bool" where
  "py_eq PNone y = (case y of PNone \<Rightarrow> True | _ \<Rightarrow> False)"
| "py_eq (PBool a) y = (py_num y = Some (if a then 1 else 0))"
| "py_eq (PInt a) y = (py_num y = Some (of_int a))"
| "py_eq (PFloat a) y = (py_num y = Some a)"
| "py_eq (PStr s) y = (case y of PStr t \<Rightarrow> s = t | _ \<Rightarrow> False)"
| "py_eq (PList xs) y = (case y of PList ys \<Rightarrow> list_all2 py_eq xs ys | _ \<Rightarrow> False)"
| "py_eq (PDict ds) y =
     (case y of
        PDict es \<Rightarrow> length ds = length es \<and>
          list_all (\<lambda>kv. case map_of es (fst kv) of None \<Rightarrow> False | Some w \<Rightarrow> py_eq (snd kv) w) ds
      | _ \<Rightarrow> False)"

text \<open>Every key of every dict inside the value occurs once.\<close>

fun wf_val :: "pyval \<Rightarrow> bool" where
  "wf_val (PList xs) = list_all wf_val xs"
| "wf_val (PDict ds) = (distinct (map fst ds) \<and> list_all (\<lambda>kv. wf_val (snd kv)) ds)"
| "wf_val _ = True"

lemma py_eq_refl: "wf_val v \<Longrightarrow> py_eq v v"
proof (induction v)
  case (PList xs)
  then show ?case by (auto simp: list_all2_same list_all_iff)
next
  case (PDict ds)
  then show ?case by (auto simp: list_all_iff map_of_eq_Some_iff)
qed simp_all

text \<open>
  \<open>x < y\<close>: numbers with numbers, strings with strings, lists lexicographically at the first
  position where the elements differ; \<open>None\<close> stands for the \<open>TypeError\<close>.
\<close>

fun py_lt :: "pyval \<Rightarrow> pyval \<Rightarrow> bool option" where
  "py_lt (PStr s) (PStr t) = Some (s < t)"
| "py_lt (PList []) (PList []) = Some False"
| "py_lt (PList []) (PList (y # ys)) = Some True"
| "py_lt (PList (x # xs)) (PList []) = Some False"
| "py_lt (PList (x # xs)) (PList (y # ys)) =
     (if py_eq x y then py_lt (PList xs) (PList ys) else py_lt x y)"
| "py_lt x y =
     (case (py_num x, py_num y) of (Some a, Some b) \<Rightarrow> Some (a < b) | _ \<Rightarrow> None)"

definition py_gt :: "pyval \<Rightarrow> pyval \<Rightarrow> bool option" where
  "py_gt x y = py_lt y x"

definition py_le :: "pyval \<Rightarrow> pyval \<Rightarrow> bool option" where
  "py_le x y = map_option (\<lambda>b. b \<or> py_eq x y) (py_lt x y)"

definition py_ge :: "pyval \<Rightarrow> pyval \<Rightarrow> bool option" where
  "py_ge x y = map_option (\<lambda>b. b \<or> py_eq x y) (py_lt y x)"

subsection \<open>Strings\<close>

definition py_space :: "char \<Rightarrow> bool" where
  "py_space c = (of_char c \<in> {9, 10, 11, 12, 13, 28, 29, 30, 31, 32, 133, 160 :: nat})"

definition py_strip :: "string \<Rightarrow> string" where
  "py_strip s = rev (dropWhile py_space (rev (dropWhile py_space s)))"

definition blank :: "string \<Rightarrow> bool" where
  "blank s = (py_strip s = [])"

lemma blank_iff: "blank s \<longleftrightarrow> (\<forall>c\<in>set s. py_space c)"
proof -
  have "blank s \<longleftrightarrow> dropWhile py_space s = []"
  proof (cases "dropWhile py_space s")
    case Nil
    then show ?thesis by (simp add: blank_def py_strip_def del: dropWhile_eq_Nil_conv)
  next
    case (Cons c cs)
    then have "\<not> py_space c" by (metis dropWhile_eq_Cons_conv)
    then have "dropWhile py_space (rev cs @ [c]) \<noteq> []"
      by (simp add: dropWhile_eq_Nil_conv)
    with Cons show ?thesis by (simp add: blank_def py_strip_def)
  qed
  then show ?thesis by (simp add: dropWhile_eq_Nil_conv)
qed

text \<open>\<open>s.split(c)\<close> on one separator character, and \<open>s.split(c, 1)\<close>.\<close>

fun split_on :: "char \<Rightarrow> string \<Rightarrow> string list" where
  "split_on c [] = [[]]"
| "split_on c (x # xs) =
     (if x = c then [] # split_on c xs
      else (case split_on c xs of [] \<Rightarrow> [[x]] | p # ps \<Rightarrow> (x # p) # ps))"

fun split_first :: "char \<Rightarrow> string \<Rightarrow> (string \<times> string) option" where
  "split_first c [] = None"
| "split_first c (x # xs) =
     (if x = c then Some ([], xs)
      else map_option (\<lambda>(a, b). (x # a, b)) (split_first c xs))"

definition join :: "char \<Rightarrow> string list \<Rightarrow> string" where
  "join c ps = (case ps of [] \<Rightarrow> [] | p # qs \<Rightarrow> p @ concat (map (\<lambda>q. c # q) qs))"

lemma split_on_nonempty [simp]: "split_on c s \<noteq> []"
  by (cases s) (auto split: list.splits)

lemma split_on_no_sep: "p \<in> set (split_on c s) \<Longrightarrow> c \<notin> set p"
proof (induction s arbitrary: p)
  case Nil
  then show ?case by simp
next
  case (Cons x xs)
  obtain q qs where q: "split_on c xs = q # qs" by (cases "split_on c xs") auto
  with Cons.IH have "c \<notin> set q" "\<And>r. r \<in> set qs \<Longrightarrow> c \<notin> set r" by auto
  with Cons.prems q show ?case by (auto split: if_splits)
qed

lemma join_split_on: "join c (split_on c s) = s"
proof (induction s)
  case Nil
  then show ?case by (simp add: join_def)
next
  case (Cons x xs)
  obtain q qs where q: "split_on c xs = q # qs" by (cases "split_on c xs") auto
  with Cons show ?case by (auto simp: join_def)
qed

lemma split_first_Some:
  "split_first c s = Some (a, b) \<longleftrightarrow> s = a @ c # b \<and> c \<notin> set a"
proof (induction s arbitrary: a)
  case Nil
  then show ?case by simp
next
  case (Cons x xs)
  show ?case
  proof (cases a)
    case Nil
    then show ?thesis by auto
  next
    case (Cons y ys)
    then show ?thesis using Cons.IH [of ys] by auto
  qed
qed

lemma split_first_None: "split_first c s = None \<longleftrightarrow> c \<notin> set s"
  by (induction s) auto

definition is_infix :: "string \<Rightarrow> string \<Rightarrow> bool" where
  "is_infix t s = list_ex (\<lambda>n. take (length t) (drop n s) = t) [0..<Suc (length s)]"

lemma is_infix_iff: "is_infix t s \<longleftrightarrow> (\<exists>a b. s = a @ t @ b)"
proof
  assume "is_infix t s"
  then obtain n where n: "take (length t) (drop n s) = t" by (auto simp: is_infix_def list_ex_iff)
  have "s = take n s @ take (length t) (drop n s) @ drop (length t) (drop n s)"
    by (metis append_take_drop_id)
  with n show "\<exists>a b. s = a @ t @ b" by metis
next
  assume "\<exists>a b. s = a @ t @ b"
  then obtain a b where s: "s = a @ t @ b" by blast
  then have "length a \<in> set [0..<Suc (length s)]" "take (length t) (drop (length a) s) = t"
    by auto
  then show "is_infix t s" unfolding is_infix_def list_ex_iff by blast
qed

text \<open>\<open>repr(s)\<close> of a string: the quote is a double one when the text holds only single ones.\<close>

definition hex_digit :: "nat \<Rightarrow> char" where
  "hex_digit n = (if n < 10 then char_of (48 + n) else char_of (87 + n))"

definition repr_char :: "char \<Rightarrow> char \<Rightarrow> string" where
  "repr_char q c =
     (let n = of_char c :: nat in
      if c = q \<or> n = 92 then [char_of (92::nat), c]
      else if n = 9 then [char_of (92::nat), CHR ''t'']
      else if n = 10 then [char_of (92::nat), CHR ''n'']
      else if n = 13 then [char_of (92::nat), CHR ''r'']
      else if n < 32 \<or> (127 \<le> n \<and> n \<le> 160) \<or> n = 173
      then [char_of (92::nat), CHR ''x'', hex_digit (n div 16), hex_digit (n mod 16)]
      else [c])"

definition py_repr :: "string \<Rightarrow> string" where
  "py_repr s =
     (let q = char_of (if char_of (39::nat) \<in> set s \<and> char_of (34::nat) \<notin> set s
                       then 34 else 39 :: nat)
      in [q] @ concat (map (repr_char q) s) @ [q])"

definition quoted :: "string \<Rightarrow> string" where
  "quoted s = [char_of (39 :: nat)] @ s @ [char_of (39 :: nat)]"

subsection \<open>Membership\<close>

text \<open>\<open>x in y\<close>; \<open>None\<close> stands for the \<open>TypeError\<close> (an unhashable key or a non-container).\<close>

definition py_in :: "pyval \<Rightarrow> pyval \<Rightarrow> bool option" where
  "py_in x y =
     (case y of
        PList ys \<Rightarrow> Some (list_ex (\<lambda>z. py_eq z x) ys)
      | PStr s \<Rightarrow> (case x of PStr t \<Rightarrow> Some (is_infix t s) | _ \<Rightarrow> None)
      | PDict es \<Rightarrow>
          (case x of
             PStr t \<Rightarrow> Some (t \<in> set (map fst es))
           | PList _ \<Rightarrow> None
           | PDict _ \<Rightarrow> None
           | _ \<Rightarrow> Some False)
      | _ \<Rightarrow> None)"

subsection \<open>Dicts\<close>

text \<open>
  \<open>d.get(k)\<close> and \<open>d[k] = v\<close>: an existing key keeps its place, a new one goes to the end.
\<close>

fun dget :: "(string \<times> 'v) list \<Rightarrow> string \<Rightarrow> 'v option" where
  "dget [] k = None"
| "dget ((j, v) # ds) k = (if j = k then Some v else dget ds k)"

fun dset :: "(string \<times> 'v) list \<Rightarrow> string \<Rightarrow> 'v \<Rightarrow> (string \<times> 'v) list" where
  "dset [] k v = [(k, v)]"
| "dset ((j, w) # ds) k v = (if j = k then (k, v) # ds else (j, w) # dset ds k v)"

definition dmerge :: "(string \<times> 'v) list \<Rightarrow> (string \<times> 'v) list \<Rightarrow> (string \<times> 'v) list" where
  "dmerge ds es = fold (\<lambda>kv acc. dset acc (fst kv) (snd kv)) es ds"

lemma dget_map_of: "dget ds k = map_of ds k"
  by (induction ds) auto

lemma dget_dset [simp]: "dget (dset ds k v) j = (if j = k then Some v else dget ds j)"
  by (induction ds) auto

lemma keys_dset: "fst ` set (dset ds k v) = insert k (fst ` set ds)"
  by (induction ds k v rule: dset.induct) (simp_all add: insert_commute)

lemma distinct_dset: "distinct (map fst ds) \<Longrightarrow> distinct (map fst (dset ds k v))"
  by (induction ds) (auto, metis fst_conv image_eqI insertE keys_dset)

lemma dget_dmerge:
  "dget (dmerge ds es) k =
     (case dget (rev es) k of None \<Rightarrow> dget ds k | Some v \<Rightarrow> Some v)"
proof (induction es arbitrary: ds)
  case Nil
  then show ?case by (simp add: dmerge_def)
next
  case (Cons e es)
  obtain j w where e: "e = (j, w)" by (cases e)
  have *: "dget (xs @ ys) k = (case dget xs k of None \<Rightarrow> dget ys k | Some v \<Rightarrow> Some v)"
    for xs ys :: "(string \<times> 'a) list" by (induction xs) auto
  have "dmerge ds (e # es) = dmerge (dset ds j w) es" by (simp add: dmerge_def e)
  then show ?case using Cons.IH [of "dset ds j w"] by (auto simp: * e split: option.splits)
qed

text \<open>\<open>payload or {}\<close>: an absent or empty dict reads as the empty dict.\<close>

definition or_empty :: "pyval option \<Rightarrow> pyval" where
  "or_empty p = (case p of Some v \<Rightarrow> if truthy v then v else PDict [] | None \<Rightarrow> PDict [])"

end
