(* ===== verification/JobsModel.thy ===== *)
theory JobsModel
  imports PyValue
begin

text \<open>
  Tables of \<^verbatim>\<open>asas_jobs/models.py\<close>: \<open>background_job\<close> and \<open>job_schedule\<close>, their partial
  unique indexes as executable checks on the row list, and the row invariants the queue keeps.
  Row ids are assigned by the database from a counter.
\<close>

datatype job_status = Queued | Running | Succeeded | Failed | Canceled

record background_job =
  job_id :: nat
  job_org_id :: "int option"
  job_kind :: string
  job_payload :: pyval
  job_state :: job_status
  job_run_at :: instant
  job_attempts :: int
  job_max_attempts :: int
  job_claimed_by :: "string option"
  job_lease_expires_at :: "instant option"
  job_last_error :: "string option"
  job_schedule_id :: "nat option"
  job_dedupe_key :: "string option"
  job_created_at :: instant
  job_started_at :: "instant option"
  job_finished_at :: "instant option"

record job_schedule =
  sched_id :: nat
  sched_org_id :: "int option"
  sched_kind :: string
  sched_payload :: pyval
  sched_every_seconds :: int
  sched_enabled :: bool
  sched_no_overlap :: bool
  sched_next_run_at :: instant
  sched_last_enqueued_at :: "instant option"
  sched_created_at :: instant

record jobs_db =
  db_jobs :: "background_job list"
  db_next_job :: nat
  db_schedules :: "job_schedule list"
  db_next_sched :: nat

definition empty_jobs_db :: jobs_db where
  "empty_jobs_db = \<lparr>db_jobs = [], db_next_job = 1, db_schedules = [], db_next_sched = 1\<rparr>"

text \<open>The default-filled row the ORM builds; the id is assigned by the INSERT.\<close>

definition new_job ::
  "instant \<Rightarrow> string \<Rightarrow> pyval \<Rightarrow> int option \<Rightarrow> instant \<Rightarrow> nat option \<Rightarrow> int \<Rightarrow> string option
    \<Rightarrow> background_job" where
  "new_job utcnow kind payload org run_at sid max_att dedupe =
     \<lparr>job_id = 0, job_org_id = org, job_kind = kind, job_payload = payload, job_state = Queued,
      job_run_at = run_at, job_attempts = 0, job_max_attempts = max_att, job_claimed_by = None,
      job_lease_expires_at = None, job_last_error = None, job_schedule_id = sid,
      job_dedupe_key = dedupe, job_created_at = utcnow, job_started_at = None,
      job_finished_at = None\<rparr>"

subsection \<open>Unique indexes\<close>

definition active :: "background_job \<Rightarrow> bool" where
  "active j = (job_state j = Queued \<or> job_state j = Running)"

text \<open>\<open>ux_background_job_org_dedupe\<close> and \<open>ux_background_job_global_dedupe\<close>.\<close>

definition dedupe_org_ix :: "background_job list \<Rightarrow> bool" where
  "dedupe_org_ix rows =
     distinct (map (\<lambda>j. (job_org_id j, job_kind j, job_dedupe_key j))
       (filter (\<lambda>j. active j \<and> job_dedupe_key j \<noteq> None \<and> job_org_id j \<noteq> None) rows))"

definition dedupe_global_ix :: "background_job list \<Rightarrow> bool" where
  "dedupe_global_ix rows =
     distinct (map (\<lambda>j. (job_kind j, job_dedupe_key j))
       (filter (\<lambda>j. active j \<and> job_dedupe_key j \<noteq> None \<and> job_org_id j = None) rows))"

definition job_indexes_ok :: "background_job list \<Rightarrow> bool" where
  "job_indexes_ok rows = (dedupe_org_ix rows \<and> dedupe_global_ix rows)"

text \<open>\<open>ux_job_schedule_org_kind\<close> and \<open>ux_job_schedule_global_kind\<close>.\<close>

definition sched_indexes_ok :: "job_schedule list \<Rightarrow> bool" where
  "sched_indexes_ok rows =
     (distinct (map (\<lambda>s. (sched_org_id s, sched_kind s)) (filter (\<lambda>s. sched_org_id s \<noteq> None) rows)) \<and>
      distinct (map sched_kind (filter (\<lambda>s. sched_org_id s = None) rows)))"

text \<open>INSERTs: \<open>None\<close> is the \<open>IntegrityError\<close> of a violated index.\<close>

definition insert_job :: "background_job \<Rightarrow> jobs_db \<Rightarrow> (background_job \<times> jobs_db) option" where
  "insert_job j db =
     (let row = j\<lparr>job_id := db_next_job db\<rparr>; rows = db_jobs db @ [row]
      in if job_indexes_ok rows
         then Some (row, db\<lparr>db_jobs := rows, db_next_job := Suc (db_next_job db)\<rparr>)
         else None)"

definition insert_sched :: "job_schedule \<Rightarrow> jobs_db \<Rightarrow> (job_schedule \<times> jobs_db) option" where
  "insert_sched s db =
     (let row = s\<lparr>sched_id := db_next_sched db\<rparr>; rows = db_schedules db @ [row]
      in if sched_indexes_ok rows
         then Some (row, db\<lparr>db_schedules := rows, db_next_sched := Suc (db_next_sched db)\<rparr>)
         else None)"

subsection \<open>The idempotency slot of a job, and the indexes as one statement\<close>

definition job_slot :: "background_job \<Rightarrow> int option \<times> string \<times> string option" where
  "job_slot j = (job_org_id j, job_kind j, job_dedupe_key j)"

definition occupies :: "background_job \<Rightarrow> bool" where
  "occupies j = (active j \<and> job_dedupe_key j \<noteq> None)"

definition slots_unique :: "background_job list \<Rightarrow> bool" where
  "slots_unique rows = distinct (map job_slot (filter occupies rows))"

lemma slots_unique_simps [simp]:
  "slots_unique []"
  "slots_unique (j # rows) \<longleftrightarrow>
     (occupies j \<longrightarrow> (\<forall>k\<in>set rows. occupies k \<longrightarrow> job_slot k \<noteq> job_slot j)) \<and> slots_unique rows"
  by (simp add: slots_unique_def) (simp only: slots_unique_def distinct_index_Cons)

lemma dedupe_org_ix_Cons:
  "dedupe_org_ix (j # rows) \<longleftrightarrow>
     (occupies j \<and> job_org_id j \<noteq> None \<longrightarrow>
        (\<forall>k\<in>set rows. occupies k \<and> job_org_id k \<noteq> None \<longrightarrow> job_slot k \<noteq> job_slot j)) \<and>
     dedupe_org_ix rows"
  unfolding dedupe_org_ix_def distinct_index_Cons occupies_def job_slot_def by blast

lemma dedupe_global_ix_Cons:
  "dedupe_global_ix (j # rows) \<longleftrightarrow>
     (occupies j \<and> job_org_id j = None \<longrightarrow>
        (\<forall>k\<in>set rows. occupies k \<and> job_org_id k = None \<longrightarrow> job_slot k \<noteq> job_slot j)) \<and>
     dedupe_global_ix rows"
  unfolding dedupe_global_ix_def distinct_index_Cons occupies_def job_slot_def by auto

lemma job_indexes_ok_iff: "job_indexes_ok rows = slots_unique rows"
proof (induction rows)
  case Nil
  then show ?case by (simp add: job_indexes_ok_def dedupe_org_ix_def dedupe_global_ix_def)
next
  case (Cons j rows)
  have "\<And>k. job_slot k = job_slot j \<Longrightarrow> job_org_id k = None \<longleftrightarrow> job_org_id j = None"
    by (simp add: job_slot_def)
  then have "job_indexes_ok (j # rows) \<longleftrightarrow>
      (occupies j \<longrightarrow> (\<forall>k\<in>set rows. occupies k \<longrightarrow> job_slot k \<noteq> job_slot j)) \<and>
      job_indexes_ok rows"
    unfolding job_indexes_ok_def dedupe_org_ix_Cons dedupe_global_ix_Cons by blast
  with Cons.IH show ?case by simp
qed

definition sched_slot :: "job_schedule \<Rightarrow> int option \<times> string" where
  "sched_slot s = (sched_org_id s, sched_kind s)"

lemma sched_indexes_ok_Cons:
  "sched_indexes_ok (s # rows) \<longleftrightarrow>
     (\<forall>t\<in>set rows. sched_slot t \<noteq> sched_slot s) \<and> sched_indexes_ok rows"
  unfolding sched_indexes_ok_def sched_slot_def distinct_index_Cons by auto

lemma sched_indexes_ok_iff: "sched_indexes_ok rows = distinct (map sched_slot rows)"
proof (induction rows)
  case Nil
  then show ?case by (simp add: sched_indexes_ok_def)
next
  case (Cons s rows)
  then show ?case by (auto simp: sched_indexes_ok_Cons image_iff)
qed

lemma slots_unique_append:
  "slots_unique (xs @ [j]) \<longleftrightarrow>
     slots_unique xs \<and> (occupies j \<longrightarrow> (\<forall>k\<in>set xs. occupies k \<longrightarrow> job_slot k \<noteq> job_slot j))"
  by (induction xs) (simp, auto)

text \<open>
  An UPDATE that keeps the slot columns and never turns a row that holds no slot into one that
  does cannot violate the indexes.
\<close>

lemma slots_unique_update:
  assumes "\<And>j. P j \<Longrightarrow> job_slot (f j) = job_slot j"
    and "\<And>j. P j \<Longrightarrow> occupies (f j) \<Longrightarrow> occupies j"
    and "slots_unique rows"
  shows "slots_unique (update_where P f rows)"
  using assms(3)
proof (induction rows)
  case Nil
  then show ?case by simp
next
  case (Cons j rows)
  then show ?case
    by (auto simp: set_update_where assms(1) split: if_splits)
       (metis assms(1) assms(2))+
qed

subsection \<open>Row invariants\<close>

definition job_row_ok :: "background_job \<Rightarrow> bool" where
  "job_row_ok j =
     (0 \<le> job_attempts j \<and> job_attempts j \<le> job_max_attempts j \<and> 0 < job_max_attempts j \<and>
      (case job_state j of
         Queued \<Rightarrow> job_attempts j < job_max_attempts j \<and> job_claimed_by j = None \<and>
                   job_lease_expires_at j = None \<and> job_finished_at j = None
       | Running \<Rightarrow> 0 < job_attempts j \<and> job_claimed_by j \<noteq> None \<and>
                    job_lease_expires_at j \<noteq> None \<and> job_started_at j \<noteq> None \<and>
                    job_finished_at j = None
       | _ \<Rightarrow> job_claimed_by j = None \<and> job_lease_expires_at j = None \<and> job_finished_at j \<noteq> None))"

definition jobs_inv :: "jobs_db \<Rightarrow> bool" where
  "jobs_inv db =
     (distinct (map job_id (db_jobs db)) \<and>
      (\<forall>j\<in>set (db_jobs db). job_id j < db_next_job db \<and> job_row_ok j) \<and>
      slots_unique (db_jobs db) \<and>
      distinct (map sched_id (db_schedules db)) \<and>
      (\<forall>s\<in>set (db_schedules db). sched_id s < db_next_sched db \<and> 0 < sched_every_seconds s) \<and>
      distinct (map sched_slot (db_schedules db)))"

lemma jobs_inv_empty: "jobs_inv empty_jobs_db"
  by (simp add: jobs_inv_def empty_jobs_db_def)

lemma jobs_invD:
  assumes "jobs_inv db"
  shows "distinct (map job_id (db_jobs db))"
    and "j \<in> set (db_jobs db) \<Longrightarrow> job_row_ok j"
    and "j \<in> set (db_jobs db) \<Longrightarrow> job_id j < db_next_job db"
    and "slots_unique (db_jobs db)"
    and "distinct (map sched_id (db_schedules db))"
    and "s \<in> set (db_schedules db) \<Longrightarrow> 0 < sched_every_seconds s"
    and "distinct (map sched_slot (db_schedules db))"
  using assms by (auto simp: jobs_inv_def)

lemma jobs_inv_insert_job:
  assumes "jobs_inv db" and "insert_job j db = Some (row, db')" and "job_row_ok j"
  shows "jobs_inv db'"
proof -
  have row: "row = j\<lparr>job_id := db_next_job db\<rparr>"
    and db': "db' = db\<lparr>db_jobs := db_jobs db @ [row], db_next_job := Suc (db_next_job db)\<rparr>"
    and ix: "slots_unique (db_jobs db @ [row])"
    using assms(2) by (auto simp: insert_job_def Let_def job_indexes_ok_iff split: if_splits)
  have "job_row_ok row" using assms(3) by (simp add: row job_row_ok_def split: job_status.splits)
  with assms(1) ix show ?thesis by (fastforce simp: jobs_inv_def db' row)
qed

lemma jobs_inv_update_jobs:
  assumes "jobs_inv db"
    and "\<And>j. P j \<Longrightarrow> job_id (f j) = job_id j"
    and "\<And>j. P j \<Longrightarrow> job_slot (f j) = job_slot j"
    and "\<And>j. P j \<Longrightarrow> occupies (f j) \<Longrightarrow> occupies j"
    and "\<And>j. P j \<Longrightarrow> j \<in> set (db_jobs db) \<Longrightarrow> job_row_ok j \<Longrightarrow> job_row_ok (f j)"
  shows "jobs_inv (db\<lparr>db_jobs := update_where P f (db_jobs db)\<rparr>)"
proof -
  have keys: "map job_id (update_where P f (db_jobs db)) = map job_id (db_jobs db)"
    by (rule row_update.keys_kept, unfold_locales) (rule assms(2))
  have "slots_unique (update_where P f (db_jobs db))"
    using assms(1,3,4) by (intro slots_unique_update) (auto simp: jobs_inv_def)
  with assms(1,2,5) show ?thesis
    by (auto simp: jobs_inv_def keys set_update_where)
qed

end
