(* ===== verification/JobsQueue.thy ===== *)
theory JobsQueue
  imports JobsModel
begin

text \<open>
  The queue primitives of \<^verbatim>\<open>asas_jobs/queue.py\<close>.  Every function commits its own
  transaction, so an operation maps the committed tables to the committed tables.  Between two
  statements of one operation other workers may commit: \<open>env n\<close> is what they did at the \<open>n\<close>-th
  such point of the operation, \<open>skip n\<close> the rows whose locks they hold there
  (\<open>FOR UPDATE SKIP LOCKED\<close> on Postgres; empty on SQLite).  \<open>utcnow\<close> is the reading of the
  clock an operation takes.
\<close>

type_synonym env = "nat \<Rightarrow> jobs_db \<Rightarrow> jobs_db"

definition backoff_base_seconds :: int where "backoff_base_seconds = 30"
definition backoff_cap_seconds :: int where "backoff_cap_seconds = 3600"

subsection \<open>Enqueue\<close>

definition active_duplicate ::
  "string \<Rightarrow> string \<Rightarrow> int option \<Rightarrow> jobs_db \<Rightarrow> background_job option" where
  "active_duplicate kind dedupe org db =
     first_where (\<lambda>j. job_kind j = kind \<and> job_dedupe_key j = Some dedupe \<and> job_org_id j = org \<and>
                      active j) (db_jobs db)"

definition enqueue ::
  "env \<Rightarrow> instant \<Rightarrow> string \<Rightarrow> pyval option \<Rightarrow> int option \<Rightarrow> instant option \<Rightarrow> nat option \<Rightarrow> int
    \<Rightarrow> string option \<Rightarrow> jobs_db \<Rightarrow> background_job result \<times> jobs_db" where
  "enqueue env utcnow kind payload org run_at sid max_att dedupe db =
     (if max_att \<le> 0 then (Inl (ValueError ''max_attempts must be positive''), db)
      else case Option.bind dedupe (\<lambda>dk. active_duplicate kind dk org db) of
        Some existing \<Rightarrow> (Inr existing, db)
      | None \<Rightarrow>
          (let j = new_job utcnow kind (or_empty payload) org
                     (case run_at of None \<Rightarrow> utcnow | Some t \<Rightarrow> t) sid max_att dedupe;
               db1 = env 0 db
           in case insert_job j db1 of
                Some (row, db2) \<Rightarrow> (Inr row, db2)
              | None \<Rightarrow>
                  (case dedupe of
                     None \<Rightarrow> (Inl IntegrityError, db1)
                   | Some dk \<Rightarrow>
                       (let db2 = env 1 db1
                        in case active_duplicate kind dk org db2 of
                             None \<Rightarrow> (Inl IntegrityError, db2)
                           | Some existing \<Rightarrow> (Inr existing, db2)))))"

subsection \<open>Claim\<close>

definition due_job :: "instant \<Rightarrow> (nat \<Rightarrow> bool) \<Rightarrow> background_job \<Rightarrow> bool" where
  "due_job now skip j = (job_state j = Queued \<and> job_run_at j \<le> now \<and> \<not> skip (job_id j))"

definition claim_candidate :: "instant \<Rightarrow> (nat \<Rightarrow> bool) \<Rightarrow> jobs_db \<Rightarrow> nat option" where
  "claim_candidate now skip db =
     map_option job_id (least_by job_run_at (filter (due_job now skip) (db_jobs db)))"

definition claim_guard :: "nat \<Rightarrow> background_job \<Rightarrow> bool" where
  "claim_guard jid j = (job_id j = jid \<and> job_state j = Queued)"

definition claim_set :: "string \<Rightarrow> int \<Rightarrow> instant \<Rightarrow> background_job \<Rightarrow> background_job" where
  "claim_set wid lease_seconds now j =
     j\<lparr>job_state := Running, job_claimed_by := Some wid,
       job_lease_expires_at := Some (now + seconds lease_seconds),
       job_attempts := job_attempts j + 1, job_started_at := Some now\<rparr>"

definition claim_cas :: "nat \<Rightarrow> string \<Rightarrow> int \<Rightarrow> instant \<Rightarrow> jobs_db \<Rightarrow> nat \<times> jobs_db" where
  "claim_cas jid wid lease_seconds now db =
     (rowcount (claim_guard jid) (db_jobs db),
      db\<lparr>db_jobs := update_where (claim_guard jid) (claim_set wid lease_seconds now) (db_jobs db)\<rparr>)"

fun claim_loop ::
  "env \<Rightarrow> (nat \<Rightarrow> nat \<Rightarrow> bool) \<Rightarrow> string \<Rightarrow> int \<Rightarrow> instant \<Rightarrow> nat \<Rightarrow> jobs_db
    \<Rightarrow> background_job option \<times> jobs_db" where
  "claim_loop env skip wid lease_seconds now 0 db = (None, db)"
| "claim_loop env skip wid lease_seconds now (Suc n) db =
     (case claim_candidate now (skip n) db of
        None \<Rightarrow> (None, db)
      | Some jid \<Rightarrow>
          (case claim_cas jid wid lease_seconds now (env n db) of
             (rc, db') \<Rightarrow>
               if rc = 1 then (row_by job_id jid (db_jobs db'), db')
               else claim_loop env skip wid lease_seconds now n db'))"

definition claim_next ::
  "env \<Rightarrow> (nat \<Rightarrow> nat \<Rightarrow> bool) \<Rightarrow> string \<Rightarrow> int \<Rightarrow> instant \<Rightarrow> jobs_db
    \<Rightarrow> background_job option \<times> jobs_db" where
  "claim_next env skip wid lease_seconds now db = claim_loop env skip wid lease_seconds now 5 db"

subsection \<open>Settle\<close>

definition settle_guard :: "nat \<Rightarrow> string option \<Rightarrow> background_job \<Rightarrow> bool" where
  "settle_guard jid claimant j =
     (job_id j = jid \<and> job_state j = Running \<and> job_claimed_by j = claimant)"

definition settle ::
  "nat \<Rightarrow> string option \<Rightarrow> (background_job \<Rightarrow> background_job) \<Rightarrow> jobs_db \<Rightarrow> bool \<times> jobs_db" where
  "settle jid claimant f db =
     (rowcount (settle_guard jid claimant) (db_jobs db) = 1,
      db\<lparr>db_jobs := update_where (settle_guard jid claimant) f (db_jobs db)\<rparr>)"

definition claimant_of :: "background_job \<Rightarrow> string option \<Rightarrow> string option" where
  "claimant_of j claimed_by = (case claimed_by of Some c \<Rightarrow> Some c | None \<Rightarrow> job_claimed_by j)"

definition succeed_set :: "instant \<Rightarrow> background_job \<Rightarrow> background_job" where
  "succeed_set utcnow j =
     j\<lparr>job_state := Succeeded, job_finished_at := Some utcnow, job_claimed_by := None,
       job_lease_expires_at := None\<rparr>"

definition mark_succeeded ::
  "instant \<Rightarrow> background_job \<Rightarrow> string option \<Rightarrow> jobs_db \<Rightarrow> bool \<times> jobs_db" where
  "mark_succeeded utcnow job claimed_by db =
     settle (job_id job) (claimant_of job claimed_by) (succeed_set utcnow) db"

text \<open>
  \<open>min(30 * 2 ** (attempts - 1), 3600)\<close> seconds.  A claimed job has at least one attempt; with
  none, Python's negative power halves the base.
\<close>

definition backoff :: "int \<Rightarrow> int" where
  "backoff attempts =
     (if 1 \<le> attempts
      then seconds (min (backoff_base_seconds * 2 ^ nat (attempts - 1)) backoff_cap_seconds)
      else seconds backoff_base_seconds div 2 ^ nat (1 - attempts))"

definition fail_set ::
  "instant \<Rightarrow> background_job \<Rightarrow> string \<Rightarrow> bool \<Rightarrow> background_job \<Rightarrow> background_job" where
  "fail_set utcnow job error dead j =
     (let k = j\<lparr>job_last_error := Some (take 2000 error), job_claimed_by := None,
                job_lease_expires_at := None\<rparr>
      in if dead \<or> job_max_attempts job \<le> job_attempts job
         then k\<lparr>job_state := Failed, job_finished_at := Some utcnow\<rparr>
         else k\<lparr>job_state := Queued, job_run_at := utcnow + backoff (job_attempts job)\<rparr>)"

definition mark_failed ::
  "instant \<Rightarrow> background_job \<Rightarrow> string \<Rightarrow> string option \<Rightarrow> bool \<Rightarrow> jobs_db \<Rightarrow> bool \<times> jobs_db" where
  "mark_failed utcnow job error claimed_by dead db =
     settle (job_id job) (claimant_of job claimed_by) (fail_set utcnow job error dead) db"

subsection \<open>Lease reclaim\<close>

definition lease_expired :: "instant \<Rightarrow> background_job \<Rightarrow> bool" where
  "lease_expired now j =
     (job_state j = Running \<and>
      (case job_lease_expires_at j of None \<Rightarrow> False | Some t \<Rightarrow> t < now))"

definition dead_guard :: "instant \<Rightarrow> background_job \<Rightarrow> bool" where
  "dead_guard now j = (lease_expired now j \<and> job_max_attempts j \<le> job_attempts j)"

definition dead_set :: "instant \<Rightarrow> background_job \<Rightarrow> background_job" where
  "dead_set now j =
     j\<lparr>job_state := Failed, job_finished_at := Some now, job_claimed_by := None,
       job_lease_expires_at := None,
       job_last_error := Some ''lease expired on final attempt (worker died mid-run)''\<rparr>"

definition requeue_set :: "instant \<Rightarrow> background_job \<Rightarrow> background_job" where
  "requeue_set now j =
     j\<lparr>job_state := Queued, job_run_at := now, job_claimed_by := None,
       job_lease_expires_at := None,
       job_last_error := Some ''lease expired (worker died mid-run); re-queued''\<rparr>"

definition reclaim_expired :: "instant \<Rightarrow> jobs_db \<Rightarrow> nat \<times> jobs_db" where
  "reclaim_expired now db =
     (if \<not> exists_where (lease_expired now) (db_jobs db) then (0, db)
      else let dead = rowcount (dead_guard now) (db_jobs db);
               rows1 = update_where (dead_guard now) (dead_set now) (db_jobs db);
               requeued = rowcount (lease_expired now) rows1;
               rows2 = update_where (lease_expired now) (requeue_set now) rows1
           in (dead + requeued, db\<lparr>db_jobs := rows2\<rparr>))"

definition has_active :: "nat \<Rightarrow> jobs_db \<Rightarrow> bool" where
  "has_active sid db =
     exists_where (\<lambda>j. job_schedule_id j = Some sid \<and> active j) (db_jobs db)"

subsection \<open>The compare-and-set statements are instances of the interface\<close>

interpretation claim: cas_update job_id "claim_guard jid" "claim_set wid lease_seconds now" jid
  for jid wid lease_seconds now
  by unfold_locales (auto simp: claim_guard_def claim_set_def)

lemma settle_cas:
  assumes "\<And>j. job_id (f j) = job_id j" and "\<And>j. job_state (f j) \<noteq> Running"
  shows "cas_update job_id (settle_guard jid claimant) f jid"
  by unfold_locales (auto simp: settle_guard_def assms)

interpretation settle_ok: cas_update job_id "settle_guard jid claimant" "succeed_set utcnow" jid
  for jid claimant utcnow
  by (rule settle_cas) (auto simp: succeed_set_def)

interpretation settle_bad:
  cas_update job_id "settle_guard jid claimant" "fail_set utcnow job error dead" jid
  for jid claimant utcnow job error dead
  by (rule settle_cas) (auto simp: fail_set_def Let_def)

subsection \<open>Every operation keeps the invariant of the tables\<close>

lemma jobs_inv_claim [inv_intros]:
  "jobs_inv db \<Longrightarrow> jobs_inv (snd (claim_cas jid wid lease now db))"
  unfolding claim_cas_def snd_conv
  by (erule jobs_inv_update_jobs)
     (auto simp: claim_guard_def claim_set_def job_slot_def occupies_def active_def job_row_ok_def)

lemma jobs_inv_succeeded [inv_intros]:
  "jobs_inv db \<Longrightarrow> jobs_inv (snd (mark_succeeded utcnow job c db))"
  unfolding mark_succeeded_def settle_def snd_conv
  by (erule jobs_inv_update_jobs)
     (auto simp: settle_guard_def succeed_set_def job_slot_def occupies_def active_def job_row_ok_def)

text \<open>The settle reads \<open>attempts\<close> off the ORM object, which shows the row's current values.\<close>

lemma jobs_inv_failed [inv_intros]:
  assumes "jobs_inv db" and "job \<in> set (db_jobs db)"
  shows "jobs_inv (snd (mark_failed utcnow job error c dead db))"
proof -
  have same: "j = job" if "j \<in> set (db_jobs db)" "job_id j = job_id job" for j
    using that assms jobs_invD(1) [OF assms(1)] by (auto simp: distinct_map inj_on_def)
  have row: "job_row_ok (fail_set utcnow job error dead j)"
    if "settle_guard (job_id job) cl j" "j \<in> set (db_jobs db)" "job_row_ok j" for j cl
  proof -
    from that same have "j = job" by (simp add: settle_guard_def)
    with that show ?thesis
      by (auto simp: settle_guard_def fail_set_def Let_def job_row_ok_def)
  qed
  show ?thesis
    unfolding mark_failed_def settle_def snd_conv
    by (rule jobs_inv_update_jobs [OF assms(1)])
       (use row in \<open>auto simp: settle_guard_def fail_set_def Let_def job_slot_def occupies_def
          active_def split: if_splits\<close>)
qed

lemma jobs_inv_reclaim [inv_intros]:
  assumes "jobs_inv db"
  shows "jobs_inv (snd (reclaim_expired now db))"
proof -
  let ?db1 = "db\<lparr>db_jobs := update_where (dead_guard now) (dead_set now) (db_jobs db)\<rparr>"
  have 1: "jobs_inv ?db1"
    by (rule jobs_inv_update_jobs [OF assms])
       (auto simp: dead_guard_def lease_expired_def dead_set_def job_slot_def occupies_def
          active_def job_row_ok_def)
  have alive: "job_attempts j < job_max_attempts j"
    if "j \<in> set (db_jobs ?db1)" "lease_expired now j" for j
    using that by (auto simp: set_update_where dead_guard_def dead_set_def lease_expired_def
        split: if_splits)
  have "jobs_inv (?db1\<lparr>db_jobs := update_where (lease_expired now) (requeue_set now)
          (db_jobs ?db1)\<rparr>)"
    by (rule jobs_inv_update_jobs [OF 1])
       (use alive in \<open>auto simp: lease_expired_def requeue_set_def job_slot_def occupies_def
          active_def job_row_ok_def\<close>)
  with assms show ?thesis by (simp add: reclaim_expired_def Let_def)
qed

end
