(* ===== verification/JobsScheduler.thy ===== *)
theory JobsScheduler
  imports JobsQueue
begin

text \<open>
  The interval scheduler of \<^verbatim>\<open>asas_jobs/scheduler.py\<close>: one tick over the due schedules, each
  claimed with a compare-and-set on the \<open>next_run_at\<close> value read before any commit, and the
  idempotent seeding of a schedule.
\<close>

definition due_schedules :: "instant \<Rightarrow> jobs_db \<Rightarrow> job_schedule list" where
  "due_schedules now db =
     filter (\<lambda>s. sched_enabled s \<and> sched_next_run_at s \<le> now) (db_schedules db)"

definition tick_guard :: "job_schedule \<Rightarrow> job_schedule \<Rightarrow> bool" where
  "tick_guard snap s = (sched_id s = sched_id snap \<and> sched_next_run_at s = sched_next_run_at snap)"

definition tick_advance :: "instant \<Rightarrow> job_schedule \<Rightarrow> job_schedule \<Rightarrow> job_schedule" where
  "tick_advance now snap s =
     s\<lparr>sched_next_run_at := now + seconds (sched_every_seconds snap)\<rparr>"

definition stamp_enqueued :: "instant \<Rightarrow> nat \<Rightarrow> jobs_db \<Rightarrow> jobs_db" where
  "stamp_enqueued now sid db =
     db\<lparr>db_schedules := update_where (\<lambda>s. sched_id s = sid)
          (\<lambda>s. s\<lparr>sched_last_enqueued_at := Some now\<rparr>) (db_schedules db)\<rparr>"

text \<open>
  One schedule's transaction: advance by CAS, then either skip (overlap), or insert the job and
  stamp the schedule; everything commits together.  The job has no idempotency key, so its
  INSERT cannot violate an index; the model still takes the branch the database would take.
\<close>

definition tick_one :: "instant \<Rightarrow> instant \<Rightarrow> job_schedule \<Rightarrow> jobs_db \<Rightarrow> bool \<times> jobs_db" where
  "tick_one utcnow now snap db =
     (let rc = rowcount (tick_guard snap) (db_schedules db);
          db1 = db\<lparr>db_schedules := update_where (tick_guard snap) (tick_advance now snap)
                                      (db_schedules db)\<rparr>
      in if rc \<noteq> 1 then (False, db)
         else if sched_no_overlap snap \<and> has_active (sched_id snap) db1 then (False, db1)
         else case insert_job
                (new_job utcnow (sched_kind snap) (or_empty (Some (sched_payload snap)))
                   (sched_org_id snap) now (Some (sched_id snap)) 5 None) db1 of
           None \<Rightarrow> (False, db)
         | Some (row, db2) \<Rightarrow> (True, stamp_enqueued now (sched_id snap) db2))"

fun tick_loop ::
  "env \<Rightarrow> instant \<Rightarrow> instant \<Rightarrow> job_schedule list \<Rightarrow> jobs_db \<Rightarrow> nat \<times> jobs_db" where
  "tick_loop env utcnow now [] db = (0, db)"
| "tick_loop env utcnow now (s # ss) db =
     (case tick_one utcnow now s (env (length ss) db) of
        (fired, db1) \<Rightarrow>
          (case tick_loop env utcnow now ss db1 of
             (n, db2) \<Rightarrow> ((if fired then Suc n else n), db2)))"

definition tick_schedules :: "env \<Rightarrow> instant \<Rightarrow> instant \<Rightarrow> jobs_db \<Rightarrow> nat \<times> jobs_db" where
  "tick_schedules env utcnow now db = tick_loop env utcnow now (due_schedules now db) db"

definition existing_schedule :: "string \<Rightarrow> int option \<Rightarrow> jobs_db \<Rightarrow> job_schedule option" where
  "existing_schedule kind org db =
     first_where (\<lambda>s. sched_kind s = kind \<and> sched_org_id s = org) (db_schedules db)"

definition new_sched ::
  "instant \<Rightarrow> string \<Rightarrow> int \<Rightarrow> pyval \<Rightarrow> int option \<Rightarrow> bool \<Rightarrow> job_schedule" where
  "new_sched utcnow kind every payload org no_overlap =
     \<lparr>sched_id = 0, sched_org_id = org, sched_kind = kind, sched_payload = payload,
      sched_every_seconds = every, sched_enabled = True, sched_no_overlap = no_overlap,
      sched_next_run_at = utcnow, sched_last_enqueued_at = None, sched_created_at = utcnow\<rparr>"

definition set_cadence :: "nat \<Rightarrow> int \<Rightarrow> bool \<Rightarrow> jobs_db \<Rightarrow> jobs_db" where
  "set_cadence sid every no_overlap db =
     db\<lparr>db_schedules := update_where (\<lambda>s. sched_id s = sid)
          (\<lambda>s. s\<lparr>sched_every_seconds := every, sched_no_overlap := no_overlap\<rparr>) (db_schedules db)\<rparr>"

definition converge_schedule ::
  "int \<Rightarrow> bool \<Rightarrow> job_schedule \<Rightarrow> jobs_db \<Rightarrow> job_schedule \<times> jobs_db" where
  "converge_schedule every no_overlap s db =
     (if sched_every_seconds s \<noteq> every \<or> sched_no_overlap s \<noteq> no_overlap
      then (s\<lparr>sched_every_seconds := every, sched_no_overlap := no_overlap\<rparr>,
            set_cadence (sched_id s) every no_overlap db)
      else (s, db))"

definition ensure_schedule ::
  "env \<Rightarrow> instant \<Rightarrow> string \<Rightarrow> int \<Rightarrow> pyval option \<Rightarrow> int option \<Rightarrow> bool \<Rightarrow> jobs_db
    \<Rightarrow> job_schedule result \<times> jobs_db" where
  "ensure_schedule env utcnow kind every payload org no_overlap db =
     (if every \<le> 0 then (Inl (ValueError ''every_seconds must be positive''), db)
      else case existing_schedule kind org db of
        Some s \<Rightarrow> map_prod Inr id (converge_schedule every no_overlap s db)
      | None \<Rightarrow>
          (let db1 = env 0 db
           in case insert_sched (new_sched utcnow kind every (or_empty payload) org no_overlap) db1 of
                Some (row, db2) \<Rightarrow> (Inr row, db2)
              | None \<Rightarrow>
                  (let db2 = env 1 db1
                   in case existing_schedule kind org db2 of
                        None \<Rightarrow> (Inl IntegrityError, db2)
                      | Some s \<Rightarrow> map_prod Inr id (converge_schedule every no_overlap s db2))))"

subsection \<open>Invariant preservation\<close>

lemma jobs_inv_update_scheds:
  assumes "jobs_inv db"
    and "\<And>s. P s \<Longrightarrow> sched_id (f s) = sched_id s"
    and "\<And>s. P s \<Longrightarrow> sched_slot (f s) = sched_slot s"
    and "\<And>s. P s \<Longrightarrow> s \<in> set (db_schedules db) \<Longrightarrow> 0 < sched_every_seconds s
              \<Longrightarrow> 0 < sched_every_seconds (f s)"
  shows "jobs_inv (db\<lparr>db_schedules := update_where P f (db_schedules db)\<rparr>)"
proof -
  have ids: "map sched_id (update_where P f (db_schedules db)) = map sched_id (db_schedules db)"
    by (rule row_update.keys_kept, unfold_locales) (rule assms(2))
  have slots: "map sched_slot (update_where P f (db_schedules db)) = map sched_slot (db_schedules db)"
    by (rule row_update.keys_kept, unfold_locales) (rule assms(3))
  from assms(1,2,4) show ?thesis
    by (auto simp: jobs_inv_def ids slots set_update_where)
qed

lemma new_job_row_ok: "0 < max_att \<Longrightarrow> job_row_ok (new_job u k p ou r si max_att d)"
  by (simp add: new_job_def job_row_ok_def)

lemma jobs_inv_stamp [inv_intros]: "jobs_inv db \<Longrightarrow> jobs_inv (stamp_enqueued now sid db)"
  unfolding stamp_enqueued_def by (rule jobs_inv_update_scheds) (auto simp: sched_slot_def)

lemma jobs_inv_cadence [inv_intros]:
  "jobs_inv db \<Longrightarrow> 0 < every \<Longrightarrow> jobs_inv (set_cadence sid every no db)"
  unfolding set_cadence_def by (rule jobs_inv_update_scheds) (auto simp: sched_slot_def)

lemma jobs_inv_tick [inv_intros]:
  assumes "jobs_inv db"
  shows "jobs_inv (snd (tick_one utcnow now snap db))"
proof -
  define db1 where "db1 = db\<lparr>db_schedules := update_where (tick_guard snap)
    (tick_advance now snap) (db_schedules db)\<rparr>"
  have 1: "jobs_inv db1"
    unfolding db1_def by (rule jobs_inv_update_scheds [OF assms])
      (auto simp: tick_advance_def tick_guard_def sched_slot_def)
  show ?thesis
    unfolding tick_one_def Let_def db1_def [symmetric]
    using assms 1
    by (auto split: option.splits intro!: jobs_inv_stamp
        elim!: jobs_inv_insert_job [OF 1] intro: new_job_row_ok)
qed

lemma jobs_inv_insert_sched:
  assumes "jobs_inv db" and "insert_sched s db = Some (row, db')" and "0 < sched_every_seconds s"
  shows "jobs_inv db'"
  using assms
  by (fastforce simp: insert_sched_def Let_def sched_indexes_ok_iff jobs_inv_def split: if_splits)

subsection \<open>The tick's compare-and-set\<close>

lemma tick_cas:
  assumes "sched_next_run_at snap \<le> now" and "0 < sched_every_seconds snap"
  shows "cas_update sched_id (tick_guard snap) (tick_advance now snap) (sched_id snap)"
proof
  have "sched_next_run_at snap < now + seconds (sched_every_seconds snap)"
    using assms by (simp add: add_strict_increasing2 [of "0" _ _ ] seconds_def)
  then show "tick_guard snap s \<Longrightarrow> \<not> tick_guard snap (tick_advance now snap s)" for s
    by (auto simp: tick_guard_def tick_advance_def)
qed (auto simp: tick_guard_def tick_advance_def)

end
