(* ===== verification/JobsRunner.thy ===== *)
theory JobsRunner
  imports JobsScheduler
begin

text \<open>
  The handler registry and the worker pass of \<^verbatim>\<open>asas_jobs/registry.py\<close> and
  \<^verbatim>\<open>asas_jobs/runner.py\<close>.  Handlers and the context binder are host code: they are arguments.
  A handler gets the context its session is bound to, the payload and the tables, and either
  returns (its own work, and what other workers committed meanwhile, is in the tables) or raises
  (what survives the rollback is in the tables).
\<close>

datatype handler_result = Returned jobs_db | Raised string jobs_db

type_synonym 'c handler = "'c \<Rightarrow> pyval \<Rightarrow> jobs_db \<Rightarrow> handler_result"

definition register_handler ::
  "string \<Rightarrow> 'c handler \<Rightarrow> (string \<rightharpoonup> 'c handler) \<Rightarrow> (string \<rightharpoonup> 'c handler)" where
  "register_handler kind fn reg = reg(kind \<mapsto> fn)"

definition get_handler :: "(string \<rightharpoonup> 'c handler) \<Rightarrow> string \<Rightarrow> 'c handler option" where
  "get_handler reg kind = reg kind"

definition bind_job_context ::
  "(int \<Rightarrow> string + 'c) option \<Rightarrow> 'c \<Rightarrow> int option \<Rightarrow> string + 'c" where
  "bind_job_context binder bare org =
     (case (org, binder) of (Some o', Some b) \<Rightarrow> b o' | _ \<Rightarrow> Inr bare)"

record 'c runner =
  rn_worker_id :: string
  rn_lease_seconds :: int
  rn_registry :: "string \<rightharpoonup> 'c handler"
  rn_binder :: "(int \<Rightarrow> string + 'c) option"
  rn_bare :: 'c
  rn_stop :: "nat \<Rightarrow> bool"
  rn_now :: "nat \<Rightarrow> instant"
  rn_env :: "nat \<Rightarrow> env"
  rn_skip :: "nat \<Rightarrow> nat \<Rightarrow> nat \<Rightarrow> bool"

definition max_jobs_per_pass :: nat where "max_jobs_per_pass = 50"

text \<open>After a commit or rollback the ORM object shows the row's current values.\<close>

definition refresh :: "background_job \<Rightarrow> jobs_db \<Rightarrow> background_job" where
  "refresh job db = (case row_by job_id (job_id job) (db_jobs db) of Some r \<Rightarrow> r | None \<Rightarrow> job)"

definition execute_job ::
  "(string \<rightharpoonup> 'c handler) \<Rightarrow> (int \<Rightarrow> string + 'c) option \<Rightarrow> 'c \<Rightarrow> instant \<Rightarrow> background_job
    \<Rightarrow> string \<Rightarrow> jobs_db \<Rightarrow> bool \<times> jobs_db" where
  "execute_job reg binder bare utcnow job claimant db =
     (case get_handler reg (job_kind job) of
        None \<Rightarrow>
          mark_failed utcnow job (''no handler registered for kind '' @ py_repr (job_kind job))
            (Some claimant) True db
      | Some h \<Rightarrow>
          (case bind_job_context binder bare (job_org_id job) of
             Inl err \<Rightarrow> mark_failed utcnow (refresh job db) err (Some claimant) False db
           | Inr ctx \<Rightarrow>
               (case h ctx (or_empty (Some (job_payload job))) db of
                  Raised err db1 \<Rightarrow>
                    mark_failed utcnow (refresh job db1) err (Some claimant) False db1
                | Returned db1 \<Rightarrow> mark_succeeded utcnow (refresh job db1) (Some claimant) db1)))"

text \<open>The drain loop: \<open>n\<close> claims are left of the pass's budget.\<close>

fun drain :: "'c runner \<Rightarrow> nat \<Rightarrow> jobs_db \<Rightarrow> nat \<times> jobs_db" where
  "drain rn 0 db = (0, db)"
| "drain rn (Suc n) db =
     (if rn_stop rn n then (0, db)
      else case claim_next (rn_env rn n) (rn_skip rn n) (rn_worker_id rn) (rn_lease_seconds rn)
                  (rn_now rn n) db of
        (None, db1) \<Rightarrow> (0, db1)
      | (Some job, db1) \<Rightarrow>
          (case execute_job (rn_registry rn) (rn_binder rn) (rn_bare rn) (rn_now rn n) job
                  (rn_worker_id rn) db1 of
             (_, db2) \<Rightarrow> (case drain rn n db2 of (m, db3) \<Rightarrow> (Suc m, db3))))"

definition run_once :: "'c runner \<Rightarrow> jobs_db \<Rightarrow> nat \<times> jobs_db" where
  "run_once rn db =
     (let now = rn_now rn (Suc max_jobs_per_pass);
          db1 = snd (reclaim_expired now db);
          db2 = snd (tick_schedules (rn_env rn (Suc max_jobs_per_pass)) now now db1)
      in drain rn max_jobs_per_pass db2)"

subsection \<open>The atomic steps of the system\<close>

text \<open>
  One committed transaction of one worker.  The label is the job a step delivered to a worker
  (a claim that won its compare-and-set).
\<close>

inductive job_lstep :: "jobs_db \<Rightarrow> nat option \<Rightarrow> jobs_db \<Rightarrow> bool" where
  st_insert: "0 < max_att \<Longrightarrow> insert_job (new_job u k p org r sid max_att d) db = Some (row, db')
    \<Longrightarrow> job_lstep db None db'"
| st_claim: "claim_cas jid wid lease now db = (rc, db')
    \<Longrightarrow> job_lstep db (if rc = 1 then Some jid else None) db'"
| st_succeed: "job_lstep db None (snd (mark_succeeded u job c db))"
| st_fail: "job \<in> set (db_jobs db) \<Longrightarrow> job_lstep db None (snd (mark_failed u job err c dead db))"
| st_reclaim: "job_lstep db None (snd (reclaim_expired now db))"
| st_tick: "job_lstep db None (snd (tick_one u now snap db))"
| st_insert_sched: "0 < sched_every_seconds s \<Longrightarrow> insert_sched s db = Some (row, db')
    \<Longrightarrow> job_lstep db None db'"
| st_cadence: "0 < every \<Longrightarrow> job_lstep db None (set_cadence sid every no db)"

definition job_step :: "jobs_db \<Rightarrow> jobs_db \<Rightarrow> bool" where
  "job_step db db' \<longleftrightarrow> (\<exists>l. job_lstep db l db')"

lemma job_stepI [intro]: "job_lstep db l db' \<Longrightarrow> job_step db db'"
  by (auto simp: job_step_def)

lemma job_lstep_inv: "job_lstep db l db' \<Longrightarrow> jobs_inv db \<Longrightarrow> jobs_inv db'"
proof (induction rule: job_lstep.induct)
  case (st_claim jid wid lease now db rc db')
  then show ?case using jobs_inv_claim [of db jid wid lease now] by simp
next
  case (st_insert max_att u k p org r sid d db row db')
  then show ?case by (blast intro: jobs_inv_insert_job new_job_row_ok)
next
  case (st_insert_sched s db row db')
  then show ?case by (blast intro: jobs_inv_insert_sched)
qed (auto intro: inv_intros)

interpretation jobs: invariant_system "\<lambda>db. db = empty_jobs_db" job_step jobs_inv
  by unfold_locales (auto simp: jobs_inv_empty job_step_def intro: job_lstep_inv)

subsection \<open>The operations are made of atomic steps\<close>

definition peers :: "env \<Rightarrow> bool" where
  "peers env \<longleftrightarrow> (\<forall>n db. job_step\<^sup>*\<^sup>* db (env n db))"

lemma peersD: "peers env \<Longrightarrow> job_step\<^sup>*\<^sup>* db (env n db)"
  by (simp add: peers_def)

lemma peers_quiet: "peers (\<lambda>n db. db)"
  by (simp add: peers_def)

lemma steps_then: "job_step\<^sup>*\<^sup>* a b \<Longrightarrow> job_step b c \<Longrightarrow> job_step\<^sup>*\<^sup>* a c"
  by (rule rtranclp.rtrancl_into_rtrancl)

lemmas step_intros =
  st_succeed [THEN job_stepI] st_reclaim [THEN job_stepI] st_tick [THEN job_stepI]
  st_insert [THEN job_stepI] st_insert_sched [THEN job_stepI] st_cadence [THEN job_stepI]
  st_fail [THEN job_stepI]

lemma enqueue_steps:
  assumes "peers env"
  shows "job_step\<^sup>*\<^sup>* db (snd (enqueue env u kind p org r sid max_att dk db))"
proof -
  have 0: "job_step\<^sup>*\<^sup>* db (env 0 db)" and 1: "job_step\<^sup>*\<^sup>* db (env (Suc 0) (env 0 db))"
    using peersD [OF assms] by (blast intro: rtranclp_trans)+
  have ins: "job_step\<^sup>*\<^sup>* db db'"
    if "insert_job (new_job u kind q org t sid max_att dk) (env 0 db) = Some (row, db')"
      and "\<not> max_att \<le> 0" for q t row db'
    using that by (blast intro: steps_then [OF 0] st_insert [THEN job_stepI] linorder_not_le [THEN iffD1])
  show ?thesis
    unfolding enqueue_def Let_def
    using 0 1 ins by (auto split: option.splits)
qed

lemma claim_loop_steps:
  "peers env \<Longrightarrow> job_step\<^sup>*\<^sup>* db (snd (claim_loop env skip wid lease now n db))"
proof (induction n arbitrary: db)
  case 0
  then show ?case by simp
next
  case (Suc n)
  show ?case
  proof (cases "claim_candidate now (skip n) db")
    case None
    then show ?thesis by simp
  next
    case (Some jid)
    obtain rc db' where c: "claim_cas jid wid lease now (env n db) = (rc, db')"
      by (cases "claim_cas jid wid lease now (env n db)")
    have "job_step\<^sup>*\<^sup>* db db'"
      using peersD [OF Suc.prems] st_claim [OF c] by (blast intro: steps_then)
    with Suc.IH [OF Suc.prems, of db'] Some c show ?thesis
      by (auto intro: rtranclp_trans)
  qed
qed

lemma claim_next_steps:
  "peers env \<Longrightarrow> job_step\<^sup>*\<^sup>* db (snd (claim_next env skip wid lease now db))"
  by (simp add: claim_next_def claim_loop_steps)

lemma tick_loop_steps:
  "peers env \<Longrightarrow> job_step\<^sup>*\<^sup>* db (snd (tick_loop env u now ss db))"
proof (induction ss arbitrary: db)
  case Nil
  then show ?case by simp
next
  case (Cons s ss)
  let ?db1 = "snd (tick_one u now s (env (length ss) db))"
  have "job_step\<^sup>*\<^sup>* db ?db1"
    using peersD [OF Cons.prems] by (blast intro: steps_then step_intros)
  moreover have "job_step\<^sup>*\<^sup>* ?db1 (snd (tick_loop env u now ss ?db1))"
    using Cons by blast
  ultimately show ?case by (auto simp: split_beta intro: rtranclp_trans)
qed

lemma converge_steps:
  "0 < every \<Longrightarrow> job_step\<^sup>*\<^sup>* db (snd (converge_schedule every no s db))"
  by (auto simp: converge_schedule_def intro: step_intros)

lemma ensure_schedule_steps:
  assumes "peers env"
  shows "job_step\<^sup>*\<^sup>* db (snd (ensure_schedule env u kind every p org no db))"
proof -
  have 0: "job_step\<^sup>*\<^sup>* db (env 0 db)" and 1: "job_step\<^sup>*\<^sup>* db (env (Suc 0) (env 0 db))"
    using peersD [OF assms] by (blast intro: rtranclp_trans)+
  have ins: "job_step\<^sup>*\<^sup>* db db'"
    if "insert_sched (new_sched u kind every q org no) (env 0 db) = Some (row, db')" and "0 < every"
    for q row db'
    using that by (auto intro!: steps_then [OF 0] st_insert_sched [THEN job_stepI] simp: new_sched_def)
  have conv: "job_step\<^sup>*\<^sup>* db (snd (converge_schedule every no s (env (Suc 0) (env 0 db))))"
    if "0 < every" for s
    by (rule rtranclp_trans [OF 1 converge_steps [OF that]])
  show ?thesis
    unfolding ensure_schedule_def Let_def
    using 1 ins conv by (auto split: option.splits intro: converge_steps)
qed

subsection \<open>Rows are never deleted, and a delivery is an attempt\<close>

definition rows_evolve :: "nat option \<Rightarrow> background_job list \<Rightarrow> background_job list \<Rightarrow> bool" where
  "rows_evolve l rows rows' \<longleftrightarrow>
     (\<forall>jid. case row_by job_id jid rows of
        Some r \<Rightarrow> (\<exists>r'. row_by job_id jid rows' = Some r' \<and>
                        job_attempts r' = job_attempts r + (if l = Some jid then 1 else 0))
      | None \<Rightarrow> l \<noteq> Some jid \<and>
                (\<forall>r'. row_by job_id jid rows' = Some r' \<longrightarrow> job_attempts r' = 0))"

lemma rows_evolve_refl [simp]: "rows_evolve None rows rows"
  by (auto simp: rows_evolve_def split: option.splits)

lemma rows_evolve_trans:
  assumes "rows_evolve None a b" and "rows_evolve None b c"
  shows "rows_evolve None a c"
proof -
  have "case row_by job_id jid a of
        Some r \<Rightarrow> \<exists>r'. row_by job_id jid c = Some r' \<and> job_attempts r' = job_attempts r
      | None \<Rightarrow> \<forall>r'. row_by job_id jid c = Some r' \<longrightarrow> job_attempts r' = 0" for jid
    using assms [unfolded rows_evolve_def, rule_format, of jid]
    by (cases "row_by job_id jid a"; cases "row_by job_id jid b") auto
  then show ?thesis unfolding rows_evolve_def by (fastforce split: option.splits)
qed

lemma rows_evolve_update:
  assumes "\<And>j. P j \<Longrightarrow> job_id (f j) = job_id j"
    and "\<And>j. P j \<Longrightarrow> job_attempts (f j) = job_attempts j"
  shows "rows_evolve None rows (update_where P f rows)"
proof -
  have "row_by job_id jid (update_where P f rows) =
      map_option (\<lambda>r. if P r then f r else r) (row_by job_id jid rows)" for jid
    by (rule row_update.row_after, unfold_locales) (rule assms(1))
  then show ?thesis by (auto simp: rows_evolve_def assms(2) split: option.splits)
qed

lemma rows_evolve_claim:
  assumes "distinct (map job_id (db_jobs db))"
    and "claim_cas jid wid lease now db = (rc, db')"
  shows "rows_evolve (if rc = 1 then Some jid else None) (db_jobs db) (db_jobs db')"
proof (cases "rc = 1")
  case True
  with assms(2) have rc: "rowcount (claim_guard jid) (db_jobs db) = 1"
    and db': "db_jobs db' = update_where (claim_guard jid) (claim_set wid lease now) (db_jobs db)"
    by (auto simp: claim_cas_def)
  from claim.winner_row [OF assms(1) rc] obtain r
    where "row_by job_id jid (db_jobs db) = Some r"
      and "row_by job_id jid (db_jobs db') = Some (claim_set wid lease now r)"
    unfolding db' by blast
  moreover have "row_by job_id k (db_jobs db') = row_by job_id k (db_jobs db)" if "k \<noteq> jid" for k
    unfolding db' by (rule claim.other_rows_kept [OF that])
  moreover have "job_attempts (claim_set wid lease now r) = job_attempts r + 1"
    by (simp add: claim_set_def)
  ultimately show ?thesis
    using True by (auto simp: rows_evolve_def dest: row_by_Some_iff split: option.splits)
next
  case False
  with claim.at_most_one [OF assms(1), of jid] assms(2)
  have "rowcount (claim_guard jid) (db_jobs db) = 0" by (auto simp: claim_cas_def)
  with assms(2) False show ?thesis by (auto simp: claim_cas_def update_where_rowcount_0)
qed

lemma rows_evolve_append:
  "job_attempts row = 0 \<Longrightarrow> rows_evolve None rows (rows @ [row])"
  by (auto simp: rows_evolve_def row_by_append split: option.splits)

lemma rows_evolve_insert:
  "insert_job (new_job u k p org r sid max_att d) db = Some (row, db') \<Longrightarrow>
     rows_evolve None (db_jobs db) (db_jobs db')"
  by (auto simp: insert_job_def new_job_def Let_def split: if_splits intro!: rows_evolve_append)

lemma job_lstep_evolve:
  "job_lstep db l db' \<Longrightarrow> jobs_inv db \<Longrightarrow> rows_evolve l (db_jobs db) (db_jobs db')"
proof (induction rule: job_lstep.induct)
  case (st_claim jid wid lease now db rc db')
  then show ?case using rows_evolve_claim [OF jobs_invD(1)] by blast
next
  case (st_succeed db u job c)
  then show ?case
    by (auto simp: mark_succeeded_def settle_def succeed_set_def intro!: rows_evolve_update)
next
  case (st_fail job db u err c dead)
  then show ?case
    by (auto simp: mark_failed_def settle_def fail_set_def Let_def intro!: rows_evolve_update)
next
  case (st_reclaim db now)
  show ?case
    by (auto simp: reclaim_expired_def Let_def dead_set_def requeue_set_def
        intro!: rows_evolve_trans [OF rows_evolve_update rows_evolve_update])
next
  case (st_tick db u now snap)
  show ?case
    by (auto simp: tick_one_def Let_def stamp_enqueued_def
        dest!: rows_evolve_insert split: option.splits)
next
  case (st_insert max_att u k p org r sid d db row db')
  then show ?case by (blast intro: rows_evolve_insert)
qed (auto simp: insert_sched_def set_cadence_def Let_def split: if_splits)

lemma rows_kept:
  assumes "rows_evolve l rows rows'" and "row_by job_id jid rows = Some r"
  shows "row_by job_id jid rows' \<noteq> None"
  using assms by (force simp: rows_evolve_def split: option.splits dest: spec [of _ jid])

text \<open>A run with the deliveries it made, in order.\<close>

inductive job_trace :: "jobs_db \<Rightarrow> nat option list \<Rightarrow> jobs_db \<Rightarrow> bool" where
  tr_start: "job_trace db [] db"
| tr_step: "job_trace db ls db1 \<Longrightarrow> job_lstep db1 l db2 \<Longrightarrow> job_trace db (ls @ [l]) db2"

lemma job_trace_inv: "job_trace db ls db' \<Longrightarrow> jobs_inv db \<Longrightarrow> jobs_inv db'"
  by (induction rule: job_trace.induct) (auto intro: job_lstep_inv)

lemma job_trace_counts:
  assumes "job_trace db ls db'" and "db = empty_jobs_db"
  shows "case row_by job_id jid (db_jobs db') of
           Some r \<Rightarrow> int (count_list ls (Some jid)) = job_attempts r
         | None \<Rightarrow> count_list ls (Some jid) = 0"
  using assms
proof (induction rule: job_trace.induct)
  case (tr_start db)
  then show ?case by (simp add: empty_jobs_db_def)
next
  case (tr_step db ls db1 l db2)
  then have "jobs_inv db1" by (auto intro: job_trace_inv jobs_inv_empty)
  then have "rows_evolve l (db_jobs db1) (db_jobs db2)"
    using tr_step.hyps by (blast intro: job_lstep_evolve)
  with tr_step.IH [OF tr_step.prems] show ?case
    by (auto simp: rows_evolve_def split: option.splits dest!: spec [of _ jid])
qed

end
