(* ===== verification/JobsProps.thy ===== *)
theory JobsProps
  imports JobsRunner
begin

text \<open>
  The properties of the jobs package: what every reachable state of any number of workers
  satisfies, what one operation does, and what one worker pass does.
\<close>

subsection \<open>The worker pass is made of atomic steps\<close>

definition result_db :: "handler_result \<Rightarrow> jobs_db" where
  "result_db r = (case r of Returned db \<Rightarrow> db | Raised e db \<Rightarrow> db)"

text \<open>What the code relies on: a handler touches the queue tables through the package only.\<close>

definition handlers_ok :: "(string \<rightharpoonup> 'c handler) \<Rightarrow> bool" where
  "handlers_ok reg \<longleftrightarrow>
     (\<forall>kind h. reg kind = Some h \<longrightarrow> (\<forall>c p db. job_step\<^sup>*\<^sup>* db (result_db (h c p db))))"

lemma job_steps_evolve_keeps:
  "job_step\<^sup>*\<^sup>* db db' \<Longrightarrow> jobs_inv db \<Longrightarrow> row_by job_id jid (db_jobs db) \<noteq> None
     \<Longrightarrow> row_by job_id jid (db_jobs db') \<noteq> None"
proof (induction rule: rtranclp_induct)
  case (step a b)
  then have "jobs_inv a" by (blast intro: jobs.inv_steps)
  moreover from step.hyps obtain l where "job_lstep a l b" by (auto simp: job_step_def)
  ultimately have "rows_evolve l (db_jobs a) (db_jobs b)" by (blast intro: job_lstep_evolve)
  with step show ?case by (blast dest: rows_kept)
qed simp

lemma refresh_in:
  assumes "row_by job_id (job_id job) (db_jobs db) \<noteq> None"
  shows "refresh job db \<in> set (db_jobs db)"
  using assms by (auto simp: refresh_def dest: row_by_Some_iff split: option.splits)

lemma execute_job_steps:
  assumes inv: "jobs_inv db" and job: "job \<in> set (db_jobs db)" and ok: "handlers_ok reg"
  shows "job_step\<^sup>*\<^sup>* db (snd (execute_job reg binder bare u job claimant db))"
proof -
  have here: "row_by job_id (job_id job) (db_jobs db) \<noteq> None"
    using job row_by_distinct [OF jobs_invD(1) [OF inv]] by fastforce
  show ?thesis
  proof (cases "get_handler reg (job_kind job)")
    case None
    with job show ?thesis by (auto simp: execute_job_def intro: step_intros)
  next
    case (Some h)
    then have h: "job_step\<^sup>*\<^sup>* db (result_db (h c p db))" for c p
      using ok by (auto simp: handlers_ok_def get_handler_def)
    have there: "refresh job (result_db (h c p db)) \<in> set (db_jobs (result_db (h c p db)))" for c p
      by (rule refresh_in) (rule job_steps_evolve_keeps [OF h inv here])
    show ?thesis
    proof (cases "bind_job_context binder bare (job_org_id job)")
      case (Inl err)
      with Some refresh_in [OF here] show ?thesis
        by (auto simp: execute_job_def intro: step_intros)
    next
      case (Inr ctx)
      let ?r = "h ctx (or_empty (Some (job_payload job))) db"
      note hr = h [of ctx "or_empty (Some (job_payload job))"]
        and tr = there [of ctx "or_empty (Some (job_payload job))"]
      show ?thesis
        using Some Inr hr tr
        by (cases ?r) (auto simp: execute_job_def result_db_def intro: steps_then step_intros)
    qed
  qed
qed

lemma claim_loop_row:
  "claim_loop env skip wid lease now n db = (Some job, db') \<Longrightarrow> job \<in> set (db_jobs db')"
  by (induction n arbitrary: db)
     (auto split: option.splits prod.splits if_splits dest: row_by_Some_iff)

lemma drain_steps:
  assumes "\<And>n. peers (rn_env rn n)" and "handlers_ok (rn_registry rn)"
  shows "jobs_inv db \<Longrightarrow> job_step\<^sup>*\<^sup>* db (snd (drain rn n db))"
proof (induction n arbitrary: db)
  case 0
  then show ?case by simp
next
  case (Suc n)
  obtain oj db1 where c: "claim_next (rn_env rn n) (rn_skip rn n) (rn_worker_id rn)
      (rn_lease_seconds rn) (rn_now rn n) db = (oj, db1)" by (metis surj_pair)
  then have 1: "job_step\<^sup>*\<^sup>* db db1" by (metis assms(1) claim_next_steps snd_conv)
  with Suc.prems have inv1: "jobs_inv db1" by (blast intro: jobs.inv_steps)
  show ?case
  proof (cases oj)
    case None
    with c 1 show ?thesis by simp
  next
    case (Some job)
    with c have job: "job \<in> set (db_jobs db1)" by (auto simp: claim_next_def dest: claim_loop_row)
    let ?db2 = "snd (execute_job (rn_registry rn) (rn_binder rn) (rn_bare rn) (rn_now rn n) job
                  (rn_worker_id rn) db1)"
    have 2: "job_step\<^sup>*\<^sup>* db1 ?db2" by (rule execute_job_steps [OF inv1 job assms(2)])
    with inv1 have "jobs_inv ?db2" by (auto intro: jobs.inv_steps)
    then have "job_step\<^sup>*\<^sup>* ?db2 (snd (drain rn n ?db2))" by (rule Suc.IH)
    with 1 2 c Some show ?thesis by (auto simp: split_beta intro: rtranclp_trans)
  qed
qed

lemma run_once_steps:
  assumes "\<And>n. peers (rn_env rn n)" and "handlers_ok (rn_registry rn)" and "jobs_inv db"
  shows "job_step\<^sup>*\<^sup>* db (snd (run_once rn db))"
proof -
  let ?now = "rn_now rn (Suc max_jobs_per_pass)"
  let ?db1 = "snd (reclaim_expired ?now db)"
  let ?db2 = "snd (tick_schedules (rn_env rn (Suc max_jobs_per_pass)) ?now ?now ?db1)"
  have 1: "job_step\<^sup>*\<^sup>* db ?db1" by (auto intro: step_intros)
  have 2: "job_step\<^sup>*\<^sup>* ?db1 ?db2" by (simp add: tick_schedules_def tick_loop_steps assms(1))
  from 1 2 have 12: "job_step\<^sup>*\<^sup>* db ?db2" by (rule rtranclp_trans)
  with assms(3) have "jobs_inv ?db2" by (auto intro: jobs.inv_steps)
  from drain_steps [OF assms(1,2) this] 12 show ?thesis
    by (simp add: run_once_def Let_def rtranclp_trans [OF 12])
qed

lemma drain_budget: "fst (drain rn n db) \<le> n"
  by (induction rn n db rule: drain.induct) (auto split: prod.splits option.splits)

lemma slots_uniqueD:
  "slots_unique rows \<Longrightarrow> j \<in> set rows \<Longrightarrow> k \<in> set rows \<Longrightarrow> occupies j \<Longrightarrow> occupies k
     \<Longrightarrow> job_slot j = job_slot k \<Longrightarrow> j = k"
  by (induction rows) auto

subsection \<open>Reachable states\<close>

text \<open>C1: In every state that any interleaving of committed transactions of any number of workers
  can reach from empty tables: job ids are unique; at most one active (queued or running) job
  holds a given (org, kind, dedupe_key); every row's attempt count is within its maximum, a
  queued job always has an attempt left, a running job has a claimant and a lease, and a settled
  job has neither; and there is at most one schedule per (org, kind).\<close>

theorem jobs_reachable_consistent:
  assumes "reachable (\<lambda>db. db = empty_jobs_db) job_step db"
  shows "distinct (map job_id (db_jobs db)) \<and>
    (\<forall>j\<in>set (db_jobs db). \<forall>k\<in>set (db_jobs db).
       active j \<and> active k \<and> job_dedupe_key j \<noteq> None \<and> job_slot j = job_slot k \<longrightarrow> j = k) \<and>
    (\<forall>j\<in>set (db_jobs db). job_row_ok j) \<and>
    distinct (map sched_slot (db_schedules db))"
proof -
  have inv: "jobs_inv db" using assms by (rule jobs.inv_reachable)
  have "j = k" if "j \<in> set (db_jobs db)" "k \<in> set (db_jobs db)" "active j" "active k"
    "job_dedupe_key j \<noteq> None" "job_slot j = job_slot k" for j k
    using that by (intro slots_uniqueD [OF jobs_invD(4) [OF inv]])
      (auto simp: occupies_def job_slot_def)
  with inv show ?thesis by (auto simp: jobs_inv_def)
qed

text \<open>C18: A poison job cannot loop forever: along any run of the system from empty tables, the
  number of times a job was delivered to a worker equals its attempt count, which never exceeds
  its \<open>max_attempts\<close>.\<close>

theorem job_deliveries_bounded:
  assumes "job_trace empty_jobs_db ls db" and "row_by job_id jid (db_jobs db) = Some r"
  shows "int (count_list ls (Some jid)) = job_attempts r \<and>
         int (count_list ls (Some jid)) \<le> job_max_attempts r"
proof -
  have "jobs_inv db" using assms(1) jobs_inv_empty by (rule job_trace_inv)
  with assms(2) have "job_row_ok r" by (auto dest: row_by_Some_iff jobs_invD)
  with job_trace_counts [OF assms(1) refl, of jid] assms(2) show ?thesis
    by (simp add: job_row_ok_def)
qed

subsection \<open>Single operations\<close>

lemma claim_guard_of_row:
  assumes "distinct (map job_id rows)" and "j \<in> set rows" and "job_state j = Queued"
  shows "rowcount (claim_guard (job_id j)) rows = 1"
proof -
  have "rowcount (claim_guard (job_id j)) rows \<noteq> 0"
    using assms(2,3) by (auto simp: rowcount_0_iff claim_guard_def)
  with claim.at_most_one [OF assms(1), of "job_id j"] show ?thesis by simp
qed

text \<open>With no other worker interfering, \<open>claim_next\<close> returns nothing and changes nothing when
  no queued job is due; otherwise it returns the due job with the least \<open>run_at\<close>, now running
  under this worker with a lease and one more attempt, and no other row changes.\<close>

theorem claim_next_takes_oldest_due:
  assumes "jobs_inv db"
  shows "case claim_next (\<lambda>n d. d) (\<lambda>n i. False) wid lease now db of
      (None, db') \<Rightarrow> db' = db \<and> (\<forall>j\<in>set (db_jobs db). \<not> due_job now (\<lambda>i. False) j)
    | (Some job, db') \<Rightarrow>
        (\<exists>j\<in>set (db_jobs db). due_job now (\<lambda>i. False) j \<and>
           (\<forall>k\<in>set (db_jobs db). due_job now (\<lambda>i. False) k \<longrightarrow> job_run_at j \<le> job_run_at k) \<and>
           job = claim_set wid lease now j \<and> row_by job_id (job_id j) (db_jobs db') = Some job \<and>
           (\<forall>k. k \<noteq> job_id j \<longrightarrow> row_by job_id k (db_jobs db') = row_by job_id k (db_jobs db)))"
proof -
  let ?due = "filter (due_job now (\<lambda>i. False)) (db_jobs db)"
  show ?thesis
  proof (cases "least_by job_run_at ?due")
    case None
    then have none: "claim_candidate now (\<lambda>i. False) db = None" by (simp add: claim_candidate_def)
    have "claim_next (\<lambda>n d. d) (\<lambda>n i. False) wid lease now db = (None, db)"
      by (simp add: claim_next_def numeral_eq_Suc none)
    with None show ?thesis by (simp add: filter_empty_conv)
  next
    case (Some j)
    then have j: "j \<in> set (db_jobs db)" "due_job now (\<lambda>i. False) j"
      and least: "\<forall>k\<in>set (db_jobs db). due_job now (\<lambda>i. False) k \<longrightarrow> job_run_at j \<le> job_run_at k"
      by (auto dest: least_by_Some)
    from Some have cand: "claim_candidate now (\<lambda>i. False) db = Some (job_id j)"
      by (simp add: claim_candidate_def)
    have d: "distinct (map job_id (db_jobs db))" using assms by (rule jobs_invD)
    have rc: "rowcount (claim_guard (job_id j)) (db_jobs db) = 1"
      using j by (intro claim_guard_of_row [OF d]) (auto simp: due_job_def)
    let ?rows = "update_where (claim_guard (job_id j)) (claim_set wid lease now) (db_jobs db)"
    from claim.winner_row [OF d rc] row_by_distinct [OF d j(1)]
    have row: "row_by job_id (job_id j) ?rows = Some (claim_set wid lease now j)" by auto
    have "claim_next (\<lambda>n d. d) (\<lambda>n i. False) wid lease now db =
        (Some (claim_set wid lease now j), db\<lparr>db_jobs := ?rows\<rparr>)"
      by (simp add: claim_next_def numeral_eq_Suc cand claim_cas_def rc [simplified] row)
    with j least row claim.other_rows_kept show ?thesis by auto
  qed
qed

lemma claim_set_claimed: "job_claimed_by (claim_set wid lease now j) = Some wid"
  by (simp add: claim_set_def)

text \<open>C12: Once a worker has won the claim of a job, a settle by any other claimant (the slow run of
  a worker whose lease lapsed) returns \<open>False\<close> and changes nothing, a second claim of the job
  fails, and the winner's own settle succeeds.\<close>

theorem stale_lineage_cannot_settle:
  assumes "jobs_inv db" and "claim_cas jid wid lease now db = (1, db')"
    and "job_id job = jid" and "other \<noteq> wid"
  shows "mark_succeeded u job (Some other) db' = (False, db') \<and>
    mark_failed u job err (Some other) dead db' = (False, db') \<and>
    fst (claim_cas jid other lease' now' db') = 0 \<and>
    fst (mark_succeeded u job (Some wid) db')"
proof -
  have d: "distinct (map job_id (db_jobs db))" using assms(1) by (rule jobs_invD)
  have db': "db' = db\<lparr>db_jobs := update_where (claim_guard jid) (claim_set wid lease now) (db_jobs db)\<rparr>"
    and rc: "rowcount (claim_guard jid) (db_jobs db) = 1"
    using assms(2) by (auto simp: claim_cas_def)
  obtain r where r: "row_by job_id jid (db_jobs db') = Some (claim_set wid lease now r)"
    using claim.winner_row [OF d rc, of wid lease now] by (auto simp: db')
  have d': "distinct (map job_id (db_jobs db'))"
    by (simp add: db' claim.keys_kept d)
  have only: "j = claim_set wid lease now r" if "j \<in> set (db_jobs db')" "job_id j = jid" for j
    using that row_by_distinct [OF d', of j] r by simp
  then have mine: "job_claimed_by j = Some wid" if "j \<in> set (db_jobs db')" "job_id j = jid" for j
    using that by (metis claim_set_claimed)
  have 0: "rowcount (settle_guard jid (Some other)) (db_jobs db') = 0"
    using mine assms(4) by (auto simp: rowcount_0_iff settle_guard_def)
  have "rowcount (settle_guard jid (Some wid)) (db_jobs db') \<noteq> 0"
    using row_by_Some_iff [OF r]
    by (auto simp: rowcount_0_iff settle_guard_def claim_set_def intro!: bexI [of _ "claim_set wid lease now r"])
  with settle_ok.at_most_one [OF d', of jid "Some wid"]
  have 1: "rowcount (settle_guard jid (Some wid)) (db_jobs db') = 1" by simp
  have "mark_succeeded u job (Some other) db' = (False, db')"
    "mark_failed u job err (Some other) dead db' = (False, db')"
    using 0 assms(3)
    by (simp_all add: mark_succeeded_def mark_failed_def settle_def claimant_of_def update_where_rowcount_0)
  moreover have "fst (claim_cas jid other lease' now' db') = 0"
    by (simp add: claim_cas_def db' claim.loser_sees_nothing)
  moreover have "fst (mark_succeeded u job (Some wid) db')"
    using 1 assms(3) by (simp add: mark_succeeded_def settle_def claimant_of_def)
  ultimately show ?thesis by blast
qed

lemma active_duplicate_Some:
  "active_duplicate kind dk org db = Some j \<Longrightarrow>
     j \<in> set (db_jobs db) \<and> active j \<and> job_slot j = (org, kind, Some dk)"
  by (auto simp: active_duplicate_def job_slot_def dest: first_where_Some)

text \<open>C19: \<open>enqueue\<close> with an idempotency key, while any other workers run between its statements:
  if it returns a job, that job is in the tables, active, holds exactly this (org, kind, key),
  and is the only active job that does, whether this call inserted it, found it, or lost the
  insert race to it.\<close>

theorem enqueue_returns_the_only_active:
  assumes "jobs_inv db" and "peers env"
    and "enqueue env u kind payload org run_at sid max_att (Some dk) db = (Inr row, db')"
  shows "row \<in> set (db_jobs db') \<and> active row \<and> job_slot row = (org, kind, Some dk) \<and>
    (\<forall>k\<in>set (db_jobs db'). active k \<and> job_slot k = (org, kind, Some dk) \<longrightarrow> k = row)"
proof -
  have "job_step\<^sup>*\<^sup>* db db'"
    using enqueue_steps [OF assms(2), of db u kind payload org run_at sid max_att "Some dk"] assms(3)
    by simp
  with assms(1) have inv: "jobs_inv db'" by (blast intro: jobs.inv_steps)
  have ins: "j \<in> set (db_jobs d') \<and> active j \<and> job_slot j = (org, kind, Some dk)"
    if "insert_job (new_job u kind p org t sid m (Some dk)) d = Some (j, d')" for j d d' p t m
    using that by (auto simp: insert_job_def new_job_def Let_def active_def job_slot_def split: if_splits)
  have row: "row \<in> set (db_jobs db') \<and> active row \<and> job_slot row = (org, kind, Some dk)"
    using assms(3)
    by (auto simp: enqueue_def Let_def split: if_splits option.splits
        dest: active_duplicate_Some ins)
  have "k = row" if "k \<in> set (db_jobs db')" "active k" "job_slot k = (org, kind, Some dk)" for k
    using that row by (intro slots_uniqueD [OF jobs_invD(4) [OF inv]])
      (auto simp: occupies_def job_slot_def)
  with row show ?thesis by blast
qed

lemma pow_le_64: "a \<le> 7 \<Longrightarrow> (2::int) ^ nat (a - 1) \<le> 2 ^ 6"
  by (intro power_increasing) auto

lemma pow_ge_128: "8 \<le> a \<Longrightarrow> (2::int) ^ 7 \<le> 2 ^ nat (a - 1)"
  by (intro power_increasing) auto

lemma backoff_closed:
  assumes "1 \<le> a"
  shows "backoff a = (if a \<le> 7 then seconds (30 * 2 ^ nat (a - 1)) else seconds 3600)"
  using assms pow_le_64 [of a] pow_ge_128 [of a]
  by (auto simp: backoff_def backoff_base_seconds_def backoff_cap_seconds_def min_def)

text \<open>The retry delay after the \<open>a\<close>-th attempt is at least 30 seconds and at most one hour,
  never shrinks with more attempts, and doubles from each attempt to the next up to the seventh.\<close>

theorem backoff_bounds:
  assumes "1 \<le> a" and "a \<le> b"
  shows "seconds 30 \<le> backoff a \<and> backoff a \<le> backoff b \<and> backoff b \<le> seconds 3600 \<and>
         (a < 7 \<longrightarrow> backoff (a + 1) = 2 * backoff a)"
proof -
  define p :: int where "p = 2 ^ nat (a - 1)"
  define q :: int where "q = 2 ^ nat (b - 1)"
  have p: "1 \<le> p" "a \<le> 7 \<Longrightarrow> p \<le> 64" and q: "b \<le> 7 \<Longrightarrow> q \<le> 64"
    using pow_le_64 [of a] pow_le_64 [of b] by (auto simp: p_def q_def)
  have pq: "p \<le> q" unfolding p_def q_def using assms by (intro power_increasing) auto
  have a: "backoff a = (if a \<le> 7 then 30000000 * p else 3600000000)"
    and b: "backoff b = (if b \<le> 7 then 30000000 * q else 3600000000)"
    using assms by (simp_all add: backoff_closed seconds_def p_def q_def)
  have "(2::int) ^ nat a = 2 * p"
    using assms(1) by (simp add: p_def flip: power_Suc)
  with assms(1) have a1: "a < 7 \<Longrightarrow> backoff (a + 1) = 60000000 * p"
    by (simp add: backoff_closed seconds_def)
  show ?thesis
    using assms p q pq a1 by (auto simp: a b seconds_def)
qed

text \<open>C20: The schedule tick is at-most-once: when two instances process the same snapshot of a due
  schedule one after the other, the second neither enqueues nor changes anything.\<close>

theorem tick_at_most_once:
  assumes "jobs_inv db" and "snap \<in> set (due_schedules now db)"
  shows "tick_one u' now' snap (snd (tick_one u now snap db)) =
           (False, snd (tick_one u now snap db))"
proof -
  have snap: "snap \<in> set (db_schedules db)" "sched_next_run_at snap \<le> now"
    using assms(2) by (auto simp: due_schedules_def)
  have cas: "cas_update sched_id (tick_guard snap) (tick_advance now snap) (sched_id snap)"
    using snap jobs_invD(6) [OF assms(1)] by (blast intro: tick_cas)
  let ?adv = "update_where (tick_guard snap) (tick_advance now snap) (db_schedules db)"
  have gone: "rowcount (tick_guard snap) ?adv = 0"
    by (rule cas_update.loser_sees_nothing [OF cas])
  then have gone': "rowcount (tick_guard snap)
      (update_where (\<lambda>s. sched_id s = sched_id snap) (\<lambda>s. s\<lparr>sched_last_enqueued_at := Some now\<rparr>) ?adv) = 0"
    by (simp add: rowcount_update_same tick_guard_def)
  have lost: "tick_one u' now' snap d = (False, d)"
    if "rowcount (tick_guard snap) (db_schedules d) = 0" for d
    using that by (simp add: tick_one_def Let_def)
  have rc: "rowcount (tick_guard snap) (db_schedules db) = 1"
  proof -
    have "rowcount (tick_guard snap) (db_schedules db) \<noteq> 0"
      using snap by (auto simp: rowcount_0_iff tick_guard_def)
    with cas_update.at_most_one [OF cas jobs_invD(5) [OF assms(1)]] show ?thesis by simp
  qed
  show ?thesis
  proof (cases "insert_job (new_job u (sched_kind snap) (or_empty (Some (sched_payload snap)))
      (sched_org_id snap) now (Some (sched_id snap)) 5 None) (db\<lparr>db_schedules := ?adv\<rparr>)")
    case None
    have "slots_unique (db_jobs db)" using assms(1) by (rule jobs_invD)
    with None have False
      by (auto simp: insert_job_def Let_def job_indexes_ok_iff slots_unique_append occupies_def new_job_def)
    then show ?thesis ..
  next
    case (Some p)
    obtain row d2 where p: "p = (row, d2)" by (cases p)
    with Some have d2: "db_schedules d2 = ?adv"
      by (auto simp: insert_job_def Let_def split: if_splits)
    show ?thesis
      by (cases "sched_no_overlap snap \<and> has_active (sched_id snap) (db\<lparr>db_schedules := ?adv\<rparr>)")
         (simp_all add: tick_one_def [of u now] Let_def rc Some p lost gone gone' stamp_enqueued_def d2
            del: update_where_simps)
  qed
qed

text \<open>After \<open>reclaim_expired\<close> no lease is lapsed any more: every job whose lease had lapsed is
  queued and due now if it has an attempt left and dead-lettered otherwise, with no claimant, and
  every other job is untouched.\<close>

theorem reclaim_expired_settles_lapsed:
  assumes "jobs_inv db"
  shows "db_jobs (snd (reclaim_expired now db)) =
      map (\<lambda>j. if lease_expired now j
               then if job_attempts j < job_max_attempts j then requeue_set now j else dead_set now j
               else j) (db_jobs db) \<and>
    (\<forall>j\<in>set (db_jobs (snd (reclaim_expired now db))). \<not> lease_expired now j) \<and>
    fst (reclaim_expired now db) = rowcount (lease_expired now) (db_jobs db)"
proof -
  have eq: "update_where (lease_expired now) (requeue_set now)
        (update_where (dead_guard now) (dead_set now) rows) =
      map (\<lambda>j. if lease_expired now j
               then if job_attempts j < job_max_attempts j then requeue_set now j else dead_set now j
               else j) rows" for rows
    by (induction rows) (auto simp: dead_guard_def lease_expired_def dead_set_def)
  have cnt: "rowcount (dead_guard now) rows +
        rowcount (lease_expired now) (update_where (dead_guard now) (dead_set now) rows) =
      rowcount (lease_expired now) rows" for rows
    by (induction rows) (auto simp: dead_guard_def lease_expired_def dead_set_def)
  show ?thesis
  proof (cases "exists_where (lease_expired now) (db_jobs db)")
    case True
    then show ?thesis
      by (auto simp: reclaim_expired_def Let_def eq cnt)
         (auto simp: lease_expired_def requeue_set_def dead_set_def split: if_splits)
  next
    case False
    then have none: "\<forall>j\<in>set (db_jobs db). \<not> lease_expired now j" by (simp add: exists_where_iff)
    then have "rowcount (lease_expired now) (db_jobs db) = 0" by (simp add: rowcount_0_iff)
    with False none show ?thesis
      by (auto simp: reclaim_expired_def intro!: map_idI [symmetric])
  qed
qed

text \<open>A whole worker pass (reclaim, tick, drain), with handlers that touch the queue only through
  the package and with other workers running between its statements, keeps every invariant of
  the tables and executes at most fifty jobs.\<close>

theorem run_once_safe:
  assumes "\<And>n. peers (rn_env rn n)" and "handlers_ok (rn_registry rn)" and "jobs_inv db"
  shows "jobs_inv (snd (run_once rn db)) \<and> fst (run_once rn db) \<le> 50"
proof -
  have "jobs_inv (snd (run_once rn db))"
    using run_once_steps [OF assms] assms(3) by (rule jobs.inv_steps)
  moreover have "fst (run_once rn db) \<le> max_jobs_per_pass"
    by (simp add: run_once_def Let_def drain_budget)
  ultimately show ?thesis by (simp add: max_jobs_per_pass_def)
qed

subsection \<open>Witnesses\<close>

text \<open>
  A concrete history: a keyed job is enqueued, worker \<open>w1\<close> claims it; and a schedule that is due.
\<close>

definition demo_job :: background_job where
  "demo_job = new_job 0 ''mail'' (PDict []) (Some 7) 0 None 5 (Some ''k'')"

definition demo_db1 :: jobs_db where
  "demo_db1 = empty_jobs_db\<lparr>db_jobs := [demo_job\<lparr>job_id := 1\<rparr>], db_next_job := 2\<rparr>"

definition demo_db2 :: jobs_db where
  "demo_db2 = demo_db1\<lparr>db_jobs := [claim_set ''w1'' 600 10 (demo_job\<lparr>job_id := 1\<rparr>)]\<rparr>"

definition demo_sched :: job_schedule where
  "demo_sched = (new_sched 0 ''scan'' 60 (PDict []) None True)\<lparr>sched_id := 1\<rparr>"

definition demo_db3 :: jobs_db where
  "demo_db3 = empty_jobs_db\<lparr>db_schedules := [demo_sched], db_next_sched := 2\<rparr>"

lemmas demo_defs = demo_job_def demo_db1_def demo_db2_def demo_sched_def demo_db3_def
  empty_jobs_db_def new_job_def new_sched_def claim_set_def

lemma demo_insert: "insert_job demo_job empty_jobs_db = Some (demo_job\<lparr>job_id := 1\<rparr>, demo_db1)"
  by (simp add: insert_job_def job_indexes_ok_iff demo_db1_def empty_jobs_db_def Let_def
      numeral_2_eq_2)

lemma demo_claim: "claim_cas 1 ''w1'' 600 10 demo_db1 = (1, demo_db2)"
  by (simp add: claim_cas_def demo_defs claim_guard_def)

lemma demo_steps:
  "job_lstep empty_jobs_db None demo_db1" "job_lstep demo_db1 (Some 1) demo_db2"
proof -
  show "job_lstep empty_jobs_db None demo_db1"
    by (rule st_insert [OF _ demo_insert [unfolded demo_job_def]]) simp
  show "job_lstep demo_db1 (Some 1) demo_db2"
    using st_claim [OF demo_claim] by simp
qed

lemma jobs_demo_reachable: "reachable (\<lambda>db. db = empty_jobs_db) job_step demo_db2"
  using demo_steps by (blast intro: reach_start reach_step)

lemma demo_inv: "jobs_inv demo_db1" "jobs_inv demo_db2" "jobs_inv demo_db3"
proof -
  show "jobs_inv demo_db2" using jobs_demo_reachable by (rule jobs.inv_reachable)
  show "jobs_inv demo_db1" using demo_steps(1) jobs_inv_empty by (rule job_lstep_inv)
  show "jobs_inv demo_db3" by (simp add: jobs_inv_def demo_defs)
qed

theorem jobs_reachable_consistent_witness:
  "reachable (\<lambda>db. db = empty_jobs_db) job_step demo_db2 \<and> distinct (map job_id (db_jobs demo_db2)) \<and>
   job_row_ok (claim_set ''w1'' 600 10 (demo_job\<lparr>job_id := 1\<rparr>))"
  using jobs_demo_reachable jobs_reachable_consistent [OF jobs_demo_reachable]
  by (simp add: demo_db2_def)

theorem job_deliveries_bounded_witness:
  "job_trace empty_jobs_db [None, Some 1] demo_db2 \<and>
   int (count_list [None, Some (1::nat)] (Some 1)) \<le> job_max_attempts (claim_set ''w1'' 600 10 demo_job)"
proof -
  have tr: "job_trace empty_jobs_db [None, Some 1] demo_db2"
    using tr_step [OF tr_step [OF tr_start demo_steps(1)] demo_steps(2)] by simp
  have row: "row_by job_id 1 (db_jobs demo_db2) = Some (claim_set ''w1'' 600 10 (demo_job\<lparr>job_id := 1\<rparr>))"
    by (simp add: demo_defs)
  show ?thesis using tr job_deliveries_bounded [OF tr row] by (simp add: claim_set_def)
qed

theorem claim_next_takes_oldest_due_witness:
  "case claim_next (\<lambda>n d. d) (\<lambda>n i. False) ''w1'' 600 10 demo_db1 of
     (None, db') \<Rightarrow> False
   | (Some job, db') \<Rightarrow> row_by job_id 1 (db_jobs db') = Some job \<and> job_claimed_by job = Some ''w1''"
proof -
  have due: "due_job 10 (\<lambda>i. False) j" "job_id j = 1" if "j \<in> set (db_jobs demo_db1)" for j
    using that by (auto simp: due_job_def demo_defs)
  have "\<exists>j. j \<in> set (db_jobs demo_db1)" by (simp add: demo_defs)
  then show ?thesis
    using claim_next_takes_oldest_due [OF demo_inv(1), where wid = "''w1''" and lease = 600 and now = 10] due
    by (auto simp: claim_set_def split: prod.splits option.splits)
qed

theorem stale_lineage_cannot_settle_witness:
  "claim_cas 1 ''w1'' 600 10 demo_db1 = (1, demo_db2) \<and>
   mark_succeeded 99 (demo_job\<lparr>job_id := 1\<rparr>) (Some ''w0'') demo_db2 = (False, demo_db2) \<and>
   fst (mark_succeeded 99 (demo_job\<lparr>job_id := 1\<rparr>) (Some ''w1'') demo_db2)"
  using demo_claim stale_lineage_cannot_settle [OF demo_inv(1) demo_claim,
      where job = "demo_job\<lparr>job_id := 1\<rparr>" and other = "''w0''" and u = 99]
  by auto

theorem enqueue_returns_the_only_active_witness:
  "enqueue (\<lambda>n d. d) 5 ''mail'' None (Some 7) None None 5 (Some ''k'') demo_db1
     = (Inr (demo_job\<lparr>job_id := 1\<rparr>), demo_db1) \<and> active (demo_job\<lparr>job_id := 1\<rparr>)"
proof -
  have e: "enqueue (\<lambda>n d. d) 5 ''mail'' None (Some 7) None None 5 (Some ''k'') demo_db1
     = (Inr (demo_job\<lparr>job_id := 1\<rparr>), demo_db1)"
    by (simp add: enqueue_def active_duplicate_def active_def demo_defs)
  show ?thesis using e enqueue_returns_the_only_active [OF demo_inv(1) peers_quiet e] by blast
qed

theorem backoff_bounds_witness:
  "seconds 30 \<le> backoff 3 \<and> backoff 3 \<le> backoff 9 \<and> backoff (3 + 1) = 2 * backoff 3"
  using backoff_bounds [of 3 9] by simp

theorem tick_at_most_once_witness:
  "demo_sched \<in> set (due_schedules 5 demo_db3) \<and> fst (tick_one 5 5 demo_sched demo_db3) \<and>
   \<not> fst (tick_one 6 6 demo_sched (snd (tick_one 5 5 demo_sched demo_db3)))"
proof -
  have due: "demo_sched \<in> set (due_schedules 5 demo_db3)"
    by (simp add: due_schedules_def demo_defs)
  have "fst (tick_one 5 5 demo_sched demo_db3)"
    by (simp add: tick_one_def Let_def tick_guard_def has_active_def exists_where_def demo_defs
        insert_job_def job_indexes_ok_iff)
  with due tick_at_most_once [OF demo_inv(3) due, where u' = 6 and now' = 6 and u = 5] show ?thesis by simp
qed

theorem reclaim_expired_settles_lapsed_witness:
  "jobs_inv demo_db2 \<and>
   db_jobs (snd (reclaim_expired (seconds 700) demo_db2)) =
     [requeue_set (seconds 700) (claim_set ''w1'' 600 10 (demo_job\<lparr>job_id := 1\<rparr>))]"
  using demo_inv(2) reclaim_expired_settles_lapsed [OF demo_inv(2), where now = "seconds 700"]
  by (simp add: demo_defs lease_expired_def seconds_def)

definition demo_runner :: "unit runner" where
  "demo_runner = \<lparr>rn_worker_id = ''w1'', rn_lease_seconds = 600,
     rn_registry = register_handler ''mail'' (\<lambda>c p db. Returned db) Map.empty,
     rn_binder = None, rn_bare = (), rn_stop = (\<lambda>n. False), rn_now = (\<lambda>n. 10),
     rn_env = (\<lambda>n k d. d), rn_skip = (\<lambda>n k i. False)\<rparr>"

theorem run_once_safe_witness:
  "jobs_inv (snd (run_once demo_runner demo_db1)) \<and> fst (run_once demo_runner demo_db1) \<le> 50"
proof (rule run_once_safe)
  show "peers (rn_env demo_runner n)" for n by (simp add: demo_runner_def peers_quiet)
  show "handlers_ok (rn_registry demo_runner)"
    by (auto simp: handlers_ok_def demo_runner_def register_handler_def result_db_def split: if_splits)
  show "jobs_inv demo_db1" by (rule demo_inv)
qed

end
