(* ===== verification/PyText.thy ===== *)
theory PyText
  imports PyValue
begin

text \<open>\<open>str(n)\<close> of an integer, with the facts that it is readable and unambiguous.\<close>

definition digit :: "nat \<Rightarrow> char" where
  "digit n = char_of (48 + n)"

fun nat_text :: "nat \<Rightarrow> string" where
  "nat_text n = (if n < 10 then [digit n] else nat_text (n div 10) @ [digit (n mod 10)])"

declare nat_text.simps [simp del]

definition int_text :: "int \<Rightarrow> string" where
  "int_text i = (if i < 0 then CHR ''-'' # nat_text (nat (- i)) else nat_text (nat i))"

definition int_char :: "char \<Rightarrow> bool" where
  "int_char c = (c \<in> set ''0123456789-'')"

definition digits_val :: "string \<Rightarrow> nat" where
  "digits_val s = foldl (\<lambda>a c. 10 * a + (of_char c - 48)) 0 s"

lemma digits_val_nat_text: "digits_val (nat_text n) = n"
proof (induction n rule: less_induct)
  case (less n)
  have d: "(of_char (digit k) :: nat) = 48 + k" if "k < 10" for k
    using that by (simp add: digit_def)
  show ?case
  proof (cases "n < 10")
    case True
    then show ?thesis by (simp add: nat_text.simps [of n] digits_val_def d)
  next
    case False
    then have "digits_val (nat_text (n div 10)) = n div 10" using less by simp
    with False show ?thesis
      by (simp add: nat_text.simps [of n] digits_val_def d)
  qed
qed

lemma digit_char: "n < 10 \<Longrightarrow> int_char (digit n) \<and> digit n \<noteq> CHR ''-''"
proof -
  have "list_all (\<lambda>n. int_char (digit n) \<and> digit n \<noteq> CHR ''-'') [0..<10]" by code_simp
  then show "n < 10 \<Longrightarrow> ?thesis" by (simp add: list_all_iff)
qed

lemma nat_text_chars: "c \<in> set (nat_text n) \<Longrightarrow> int_char c \<and> c \<noteq> CHR ''-''"
proof (induction n rule: less_induct)
  case (less n)
  show ?case
  proof (cases "n < 10")
    case True
    then show ?thesis using less.prems digit_char [of n] by (simp add: nat_text.simps [of n])
  next
    case False
    then have "c \<in> set (nat_text (n div 10)) \<Longrightarrow> int_char c \<and> c \<noteq> CHR ''-''"
      by (intro less.IH) simp_all
    moreover have "int_char (digit (n mod 10)) \<and> digit (n mod 10) \<noteq> CHR ''-''"
      by (rule digit_char) simp
    ultimately show ?thesis using False less.prems
      by (auto simp: nat_text.simps [of n])
  qed
qed

lemma nat_text_nonempty: "nat_text n \<noteq> []"
  by (simp add: nat_text.simps [of n])

lemma minus_int_char: "int_char (CHR ''-'')"
  by code_simp

lemma int_text_chars: "c \<in> set (int_text i) \<Longrightarrow> int_char c"
  using nat_text_chars [of c "nat i"] nat_text_chars [of c "nat (- i)"] minus_int_char
  by (simp add: int_text_def split: if_splits) auto

lemma int_text_nonempty: "int_text i \<noteq> []"
  by (simp add: int_text_def nat_text_nonempty)

lemma nat_text_no_minus: "nat_text n \<noteq> CHR ''-'' # s"
  using nat_text_chars [of "CHR ''-''" n] by (metis list.set_intros(1))

lemma int_text_inj: "int_text i = int_text j \<Longrightarrow> i = j"
proof (cases "i < 0"; cases "j < 0")
  assume "int_text i = int_text j" "i < 0" "j < 0"
  then have "nat_text (nat (- i)) = nat_text (nat (- j))" by (simp add: int_text_def)
  then have "nat (- i) = nat (- j)" by (metis digits_val_nat_text)
  with \<open>i < 0\<close> \<open>j < 0\<close> show "i = j" by simp
next
  assume "int_text i = int_text j" "\<not> i < 0" "\<not> j < 0"
  then have "nat_text (nat i) = nat_text (nat j)" by (simp add: int_text_def)
  then have "nat i = nat j" by (metis digits_val_nat_text)
  with \<open>\<not> i < 0\<close> \<open>\<not> j < 0\<close> show "i = j" by simp
next
  assume "int_text i = int_text j" "i < 0" "\<not> j < 0"
  then show "i = j" using nat_text_no_minus [of "nat j"] by (simp add: int_text_def) metis
next
  assume "int_text i = int_text j" "\<not> i < 0" "j < 0"
  then show "i = j" using nat_text_no_minus [of "nat i"] by (simp add: int_text_def)
qed

end
