(* ===== verification/WfModel.thy ===== *)
theory WfModel
  imports PyText
begin

text \<open>
  Data of the workflow package: the enums and tables of \<^verbatim>\<open>asas_workflow/models.py\<close>, the dotted
  paths into an instance's data, and the structured conditions of
  \<^verbatim>\<open>asas_workflow/conditions.py\<close>.  A condition is the JSON value stored with a transition;
  \<open>PNone\<close> is the default/else branch.
\<close>

datatype definition_status = DefDraft | DefActive | DefArchived
datatype node_type = NStart | NApproval | NSystem | NNotify | NRequestInfo | NEnd
datatype instance_status = InRunning | InCompleted | InCanceled | InError
datatype execution_status = ExActive | ExCompleted | ExError
datatype assignee_status = AsRequested | AsDecided | AsNotRequired
datatype verdict = VPositive | VNegative | VRequestInfo
datatype info_status = IrPending | IrAnswered | IrWithdrawn

type_synonym dict = "(string \<times> pyval) list"

record process_node =
  pn_key :: string
  pn_name :: string
  pn_type :: node_type
  pn_config :: dict

record process_transition =
  pt_from :: string
  pt_to :: string
  pt_sort :: nat
  pt_condition :: pyval

record process_definition =
  pd_id :: nat
  pd_key :: string
  pd_version :: nat
  pd_name :: string
  pd_entity_type :: string
  pd_purpose :: string
  pd_status :: definition_status
  pd_data_fields :: "string list"
  pd_spec_hash :: string
  pd_nodes :: "process_node list"
  pd_transitions :: "process_transition list"
  pd_published_at :: "instant option"

record process_binding =
  pb_entity_type :: string
  pb_entity_id :: int
  pb_purpose :: string
  pb_definition_key :: string

record process_instance =
  pi_id :: nat
  pi_org_id :: "int option"
  pi_definition_id :: nat
  pi_entity_type :: string
  pi_entity_id :: int
  pi_subject_snapshot :: dict
  pi_data :: dict
  pi_status :: instance_status
  pi_outcome :: "pyval option"
  pi_current :: "string option"
  pi_error :: "string option"
  pi_initiated_by :: "int option"
  pi_supersedes_id :: "nat option"
  pi_completed_at :: "instant option"

record node_execution =
  ne_id :: nat
  ne_instance_id :: nat
  ne_node_key :: string
  ne_node_type :: node_type
  ne_seq :: nat
  ne_status :: execution_status
  ne_result :: dict
  ne_error :: "string option"
  ne_completed_at :: "instant option"

record node_assignee =
  na_id :: nat
  na_execution_id :: nat
  na_member_id :: int
  na_via :: pyval
  na_status :: assignee_status
  na_reassigned_from :: "int option"

record node_decision =
  nd_id :: nat
  nd_execution_id :: nat
  nd_actor_id :: int
  nd_on_behalf_of :: "int option"
  nd_verdict :: verdict
  nd_comment :: "string option"

record info_request =
  ir_id :: nat
  ir_execution_id :: nat
  ir_asked_by :: int
  ir_asked_of :: int
  ir_question :: pyval
  ir_answer :: "string option"
  ir_status :: info_status
  ir_answered_at :: "instant option"

definition final_verdict :: "verdict \<Rightarrow> bool" where
  "final_verdict v = (v = VPositive \<or> v = VNegative)"

fun verdict_value :: "verdict \<Rightarrow> string" where
  "verdict_value VPositive = ''positive''"
| "verdict_value VNegative = ''negative''"
| "verdict_value VRequestInfo = ''request_info''"

fun node_type_value :: "node_type \<Rightarrow> string" where
  "node_type_value NStart = ''start''"
| "node_type_value NApproval = ''approval''"
| "node_type_value NSystem = ''system''"
| "node_type_value NNotify = ''notify''"
| "node_type_value NRequestInfo = ''request_info''"
| "node_type_value NEnd = ''end''"

fun instance_status_value :: "instance_status \<Rightarrow> string" where
  "instance_status_value InRunning = ''running''"
| "instance_status_value InCompleted = ''completed''"
| "instance_status_value InCanceled = ''canceled''"
| "instance_status_value InError = ''error''"

fun assignee_status_value :: "assignee_status \<Rightarrow> string" where
  "assignee_status_value AsRequested = ''requested''"
| "assignee_status_value AsDecided = ''decided''"
| "assignee_status_value AsNotRequired = ''not_required''"

fun info_status_value :: "info_status \<Rightarrow> string" where
  "info_status_value IrPending = ''pending''"
| "info_status_value IrAnswered = ''answered''"
| "info_status_value IrWithdrawn = ''withdrawn''"

text \<open>\<open>str(exc) or exc.__class__.__name__\<close>\<close>

definition exn_message :: "py_exn \<Rightarrow> string" where
  "exn_message e =
     (let name_msg =
        (case e of
           ValueError m \<Rightarrow> (''ValueError'', m)
         | TypeErrorExn m \<Rightarrow> (''TypeError'', m)
         | LookupErrorExn m \<Rightarrow> (''LookupError'', m)
         | KeyErrorExn k \<Rightarrow> (''KeyError'', py_repr k)
         | RuntimeErrorExn m \<Rightarrow> (''RuntimeError'', m)
         | IntegrityError \<Rightarrow> (''IntegrityError'', [])
         | EngineError c m \<Rightarrow> (''EngineError'', m)
         | HTTPException n d \<Rightarrow> (''HTTPException'', nat_text n @ '': '' @ d)
         | HostExn c m \<Rightarrow> (c, m))
      in if snd name_msg = [] then fst name_msg else snd name_msg)"

subsection \<open>Process data\<close>

text \<open>\<open>dict(data.get("nodes") or {})\<close>: falsy reads as empty, a non-mapping raises.\<close>

definition as_dict :: "pyval option \<Rightarrow> dict result" where
  "as_dict v =
     (case v of
        None \<Rightarrow> Inr []
      | Some (PDict ds) \<Rightarrow> Inr ds
      | Some w \<Rightarrow> if truthy w then Inl (TypeErrorExn ''not a mapping'') else Inr [])"

definition merge_result :: "dict \<Rightarrow> string \<Rightarrow> dict \<Rightarrow> dict result" where
  "merge_result data node_key res =
     rbind (as_dict (dget data ''nodes''))
       (\<lambda>nodes. Inr (dset data ''nodes'' (PDict (dset nodes node_key (PDict res)))))"

fun walk_path :: "pyval \<Rightarrow> string list \<Rightarrow> pyval" where
  "walk_path cur [] = cur"
| "walk_path cur (p # ps) =
     (case cur of
        PDict ds \<Rightarrow> (case dget ds p of None \<Rightarrow> PNone | Some v \<Rightarrow> walk_path v ps)
      | _ \<Rightarrow> PNone)"

definition get_path :: "dict \<Rightarrow> string \<Rightarrow> pyval" where
  "get_path data path = walk_path (PDict data) (split_on (CHR ''.'') path)"

subsection \<open>Conditions\<close>

definition ops :: "string list" where
  "ops = [''eq'', ''ne'', ''gt'', ''gte'', ''lt'', ''lte'', ''in'', ''contains'', ''is_null'']"

definition truth_or_false :: "bool option \<Rightarrow> bool" where
  "truth_or_false b = (b = Some True)"

text \<open>The comparison of one clause; a \<open>TypeError\<close> of the comparison is a non-match.\<close>

definition clause_op :: "pyval \<Rightarrow> pyval \<Rightarrow> pyval \<Rightarrow> bool" where
  "clause_op opr actual expected =
     (if opr = PStr ''is_null''
      then (actual = PNone) = (if expected = PNone then True else truthy expected)
      else if actual = PNone then False
      else if opr = PStr ''eq'' then py_eq actual expected
      else if opr = PStr ''ne'' then \<not> py_eq actual expected
      else if opr = PStr ''gt'' then truth_or_false (py_gt actual expected)
      else if opr = PStr ''gte'' then truth_or_false (py_ge actual expected)
      else if opr = PStr ''lt'' then truth_or_false (py_lt actual expected)
      else if opr = PStr ''lte'' then truth_or_false (py_le actual expected)
      else if opr = PStr ''in''
      then truth_or_false (py_in actual (if truthy expected then expected else PList []))
      else if opr = PStr ''contains'' then truth_or_false (py_in expected actual)
      else False)"

definition dget_or_none :: "dict \<Rightarrow> string \<Rightarrow> pyval" where
  "dget_or_none ds k = (case dget ds k of None \<Rightarrow> PNone | Some v \<Rightarrow> v)"

definition clause :: "dict \<Rightarrow> pyval \<Rightarrow> bool result" where
  "clause data c =
     (case c of
        PDict ds \<Rightarrow>
          (case dget ds ''field'' of
             None \<Rightarrow> Inl (KeyErrorExn ''field'')
           | Some field \<Rightarrow>
               (case dget ds ''op'' of
                  None \<Rightarrow> Inl (KeyErrorExn ''op'')
                | Some opr \<Rightarrow>
                    (case field of
                       PStr f \<Rightarrow> Inr (clause_op opr (get_path data f) (dget_or_none ds ''value''))
                     | _ \<Rightarrow> Inl (HostExn ''AttributeError'' ''split''))))
      | _ \<Rightarrow> Inl (TypeErrorExn ''clause is not a mapping''))"

text \<open>Iterating a value: list items, the characters of a string, the keys of a dict.\<close>

definition py_iter :: "pyval \<Rightarrow> pyval list result" where
  "py_iter v =
     (case v of
        PList xs \<Rightarrow> Inr xs
      | PStr s \<Rightarrow> Inr (map (\<lambda>c. PStr [c]) s)
      | PDict ds \<Rightarrow> Inr (map (\<lambda>kv. PStr (fst kv)) ds)
      | _ \<Rightarrow> Inl (TypeErrorExn ''not iterable''))"

text \<open>\<open>all(...)\<close> and \<open>any(...)\<close> over a generator: they stop at the first deciding clause.\<close>

fun all_r :: "('a \<Rightarrow> bool result) \<Rightarrow> 'a list \<Rightarrow> bool result" where
  "all_r f [] = Inr True"
| "all_r f (x # xs) = rbind (f x) (\<lambda>b. if b then all_r f xs else Inr False)"

fun any_r :: "('a \<Rightarrow> bool result) \<Rightarrow> 'a list \<Rightarrow> bool result" where
  "any_r f [] = Inr False"
| "any_r f (x # xs) = rbind (f x) (\<lambda>b. if b then Inr True else any_r f xs)"

definition evaluate_condition :: "pyval \<Rightarrow> dict \<Rightarrow> bool result" where
  "evaluate_condition condition data =
     (case condition of
        PNone \<Rightarrow> Inr True
      | PDict ds \<Rightarrow>
          (case dget ds ''all'' of
             Some cs \<Rightarrow> rbind (py_iter cs) (all_r (clause data))
           | None \<Rightarrow>
               (case dget ds ''any'' of
                  Some cs \<Rightarrow> rbind (py_iter cs) (any_r (clause data))
                | None \<Rightarrow> clause data condition))
      | _ \<Rightarrow> clause data condition)"

text \<open>
  \<open>condition_fields\<close>: the values under \<open>"field"\<close> of the clauses, in clause order (the code
  collects them in a set, so an unhashable one raises).
\<close>

definition hashable :: "pyval \<Rightarrow> bool" where
  "hashable v = (case v of PList _ \<Rightarrow> False | PDict _ \<Rightarrow> False | _ \<Rightarrow> True)"

definition clause_field :: "pyval \<Rightarrow> pyval list" where
  "clause_field c =
     (case c of PDict ds \<Rightarrow> (case dget ds ''field'' of None \<Rightarrow> [] | Some f \<Rightarrow> [f]) | _ \<Rightarrow> [])"

definition condition_fields :: "pyval \<Rightarrow> pyval list result" where
  "condition_fields condition =
     (case condition of
        PNone \<Rightarrow> Inr []
      | PDict ds \<Rightarrow>
          (let grp = (if truthy (dget_or_none ds ''all'') then dget_or_none ds ''all''
                      else dget_or_none ds ''any'')
           in rbind (if grp = PNone then Inr [condition] else py_iter grp)
                (\<lambda>cs. let fs = concat (map clause_field cs)
                      in if list_all hashable fs then Inr fs
                         else Inl (TypeErrorExn ''unhashable type'')))
      | _ \<Rightarrow> Inl (HostExn ''AttributeError'' ''get''))"

datatype shape_problem =
  ConditionNotDict | GroupNotList string | ClauseNotDict | ClauseNoField | ClauseBadOp pyval

definition clause_shape :: "pyval \<Rightarrow> shape_problem list" where
  "clause_shape c =
     (case c of
        PDict ds \<Rightarrow>
          (case dget_or_none ds ''field'' of
             PStr f \<Rightarrow> if f = [] then [ClauseNoField] else []
           | _ \<Rightarrow> [ClauseNoField]) @
          (case dget_or_none ds ''op'' of
             PStr p \<Rightarrow> if p \<in> set ops then [] else [ClauseBadOp (PStr p)]
           | v \<Rightarrow> [ClauseBadOp v])
      | _ \<Rightarrow> [ClauseNotDict])"

definition check_condition_shape :: "pyval \<Rightarrow> shape_problem list" where
  "check_condition_shape condition =
     (case condition of
        PNone \<Rightarrow> []
      | PDict ds \<Rightarrow>
          (let has = (\<lambda>k. dget ds k \<noteq> None) in
           if has ''all'' \<or> has ''any'' then
             (let group_key = (if has ''all'' then ''all'' else ''any'')
              in case dget_or_none ds group_key of
                   PList (c # cs) \<Rightarrow> concat (map clause_shape (c # cs))
                 | _ \<Rightarrow> [GroupNotList group_key])
           else clause_shape condition)
      | _ \<Rightarrow> [ConditionNotDict])"

subsection \<open>A well-shaped condition never raises\<close>

lemma clause_shape_ok:
  assumes "clause_shape c = []"
  shows "\<exists>b. clause data c = Inr b" and "\<exists>f. clause_field c = [PStr f]"
proof -
  obtain ds f p where ds: "c = PDict ds" and f: "dget_or_none ds ''field'' = PStr f"
    and p: "dget_or_none ds ''op'' = PStr p"
    using assms
    by (cases c) (auto simp: clause_shape_def split: pyval.splits if_splits)
  then have "dget ds ''field'' = Some (PStr f)" "dget ds ''op'' = Some (PStr p)"
    by (auto simp: dget_or_none_def split: option.splits)
  with ds show "\<exists>b. clause data c = Inr b" "\<exists>f. clause_field c = [PStr f]"
    by (auto simp: clause_def clause_field_def)
qed

lemma all_r_total: "(\<And>x. x \<in> set xs \<Longrightarrow> \<exists>b. f x = Inr b) \<Longrightarrow> \<exists>b. all_r f xs = Inr b"
  by (induction xs) force+

lemma any_r_total: "(\<And>x. x \<in> set xs \<Longrightarrow> \<exists>b. f x = Inr b) \<Longrightarrow> \<exists>b. any_r f xs = Inr b"
  by (induction xs) force+

lemma condition_shape_cases:
  assumes "check_condition_shape c = []"
  obtains (default) "c = PNone"
  | (all) ds x xs where "c = PDict ds" "dget ds ''all'' = Some (PList (x # xs))"
      "\<forall>y\<in>set (x # xs). clause_shape y = []"
  | (any) ds x xs where "c = PDict ds" "dget ds ''all'' = None" "dget ds ''any'' = Some (PList (x # xs))"
      "\<forall>y\<in>set (x # xs). clause_shape y = []"
  | (bare) ds where "c = PDict ds" "dget ds ''all'' = None" "dget ds ''any'' = None"
      "clause_shape c = []"
proof (cases c)
  case PNone
  then show ?thesis by (rule default)
next
  case (PDict ds)
  show ?thesis
  proof (cases "dget ds ''all''")
    case (Some a)
    with PDict assms obtain x xs where "a = PList (x # xs)" "\<forall>y\<in>set (x # xs). clause_shape y = []"
      by (auto simp: check_condition_shape_def dget_or_none_def Let_def
          split: pyval.splits list.splits)
    with PDict Some show ?thesis by (intro all [of ds x xs]) auto
  next
    case None
    show ?thesis
    proof (cases "dget ds ''any''")
      case (Some a)
      with PDict None assms obtain x xs
        where "a = PList (x # xs)" "\<forall>y\<in>set (x # xs). clause_shape y = []"
        by (auto simp: check_condition_shape_def dget_or_none_def Let_def
            split: pyval.splits list.splits)
      with PDict None Some show ?thesis by (intro any [of ds x xs]) auto
    next
      case None': None
      with PDict None assms show ?thesis
        by (intro bare [of ds]) (auto simp: check_condition_shape_def Let_def)
    qed
  qed
qed (use assms in \<open>auto simp: check_condition_shape_def\<close>)

lemma evaluate_total_if_shaped:
  assumes "check_condition_shape c = []"
  shows "\<exists>b. evaluate_condition c data = Inr b"
  using assms
proof (cases rule: condition_shape_cases)
  case default
  then show ?thesis by (auto simp: evaluate_condition_def)
next
  case (all ds x xs)
  then have "\<exists>b. all_r (clause data) (x # xs) = Inr b"
    by (intro all_r_total clause_shape_ok(1)) auto
  with all show ?thesis by (simp add: evaluate_condition_def py_iter_def)
next
  case (any ds x xs)
  then have "\<exists>b. any_r (clause data) (x # xs) = Inr b"
    by (intro any_r_total clause_shape_ok(1)) auto
  with any show ?thesis by (simp add: evaluate_condition_def py_iter_def)
next
  case (bare ds)
  with clause_shape_ok(1) [OF bare(4)] show ?thesis by (auto simp: evaluate_condition_def)
qed

end
