(* ===== verification/WfDefinitions.thy ===== *)
theory WfDefinitions
  imports WfModel
begin

text \<open>
  The registration seams of \<^verbatim>\<open>asas_workflow/registry.py\<close>, the events of \<^verbatim>\<open>events.py\<close>, and the
  definition side of \<^verbatim>\<open>definitions.py\<close>: specs, graph validation, versioning, purposes and
  bindings.  Host code (handlers, callbacks, resolvers, subscribers, the digest of a canonical
  spec) is an argument; it reads the whole state and changes only the host's part of it.
\<close>

subsection \<open>The session's state\<close>

record 'h wf_state =
  ws_defs :: "process_definition list"
  ws_next_def :: nat
  ws_bindings :: "process_binding list"
  ws_instances :: "process_instance list"
  ws_next_instance :: nat
  ws_execs :: "node_execution list"
  ws_next_exec :: nat
  ws_assignees :: "node_assignee list"
  ws_next_assignee :: nat
  ws_decisions :: "node_decision list"
  ws_next_decision :: nat
  ws_infos :: "info_request list"
  ws_next_info :: nat
  ws_host :: 'h

definition empty_wf_state :: "'h \<Rightarrow> 'h wf_state" where
  "empty_wf_state h =
     \<lparr>ws_defs = [], ws_next_def = 1, ws_bindings = [], ws_instances = [], ws_next_instance = 1,
      ws_execs = [], ws_next_exec = 1, ws_assignees = [], ws_next_assignee = 1,
      ws_decisions = [], ws_next_decision = 1, ws_infos = [], ws_next_info = 1, ws_host = h\<rparr>"

subsection \<open>Registries\<close>

type_synonym 'h system_handler = "process_instance \<Rightarrow> 'h wf_state \<Rightarrow> pyval result \<times> 'h"
type_synonym 'h completion_callback = "process_instance \<Rightarrow> pyval \<Rightarrow> 'h wf_state \<Rightarrow> 'h result"
type_synonym 'h assignee_resolver = "string \<Rightarrow> int \<Rightarrow> 'h wf_state \<Rightarrow> int list result"
type_synonym 'h namespaced_resolver =
  "string \<Rightarrow> int \<Rightarrow> string \<Rightarrow> 'h wf_state \<Rightarrow> int list result"
type_synonym 'h param_check = "string \<Rightarrow> 'h wf_state \<Rightarrow> string option result"
type_synonym 'h subscriber = "pyval \<Rightarrow> dict \<Rightarrow> 'h wf_state \<Rightarrow> py_exn option \<times> 'h"

record 'h wf_registry =
  rg_handlers :: "string \<rightharpoonup> 'h system_handler"
  rg_callbacks :: "string \<rightharpoonup> 'h completion_callback"
  rg_resolvers :: "string \<rightharpoonup> 'h assignee_resolver"
  rg_namespaces :: "string \<rightharpoonup> 'h namespaced_resolver \<times> 'h param_check option"
  rg_floor :: "(int option \<Rightarrow> 'h wf_state \<Rightarrow> int list result) option"
  rg_bindable :: "string \<rightharpoonup> string list"
  rg_org :: "('h wf_state \<Rightarrow> int option) option"
  rg_subscribers :: "'h subscriber list"

definition empty_registry :: "'h wf_registry" where
  "empty_registry =
     \<lparr>rg_handlers = Map.empty, rg_callbacks = Map.empty, rg_resolvers = Map.empty,
      rg_namespaces = Map.empty, rg_floor = None, rg_bindable = Map.empty, rg_org = None,
      rg_subscribers = []\<rparr>"

definition bindable_purposes :: "'h wf_registry \<Rightarrow> string \<Rightarrow> string list" where
  "bindable_purposes reg etype = (case rg_bindable reg etype of None \<Rightarrow> [] | Some ps \<Rightarrow> ps)"

definition register_bindable_purpose ::
  "string \<Rightarrow> string \<Rightarrow> 'h wf_registry \<Rightarrow> 'h wf_registry" where
  "register_bindable_purpose etype purpose reg =
     (let purposes = bindable_purposes reg etype
      in reg\<lparr>rg_bindable := (rg_bindable reg)
          (etype \<mapsto> (if purpose \<in> set purposes then purposes else purposes @ [purpose]))\<rparr>)"

definition register_system_handler ::
  "string \<Rightarrow> 'h system_handler \<Rightarrow> 'h wf_registry \<Rightarrow> 'h wf_registry" where
  "register_system_handler k fn reg = reg\<lparr>rg_handlers := (rg_handlers reg)(k \<mapsto> fn)\<rparr>"

definition register_completion_callback ::
  "string \<Rightarrow> 'h completion_callback \<Rightarrow> 'h wf_registry \<Rightarrow> 'h wf_registry" where
  "register_completion_callback k fn reg = reg\<lparr>rg_callbacks := (rg_callbacks reg)(k \<mapsto> fn)\<rparr>"

definition register_assignee_resolver ::
  "string \<Rightarrow> 'h assignee_resolver \<Rightarrow> 'h wf_registry \<Rightarrow> 'h wf_registry" where
  "register_assignee_resolver k fn reg = reg\<lparr>rg_resolvers := (rg_resolvers reg)(k \<mapsto> fn)\<rparr>"

definition register_assignee_resolver_namespace ::
  "string \<Rightarrow> 'h namespaced_resolver \<Rightarrow> 'h param_check option \<Rightarrow> 'h wf_registry
    \<Rightarrow> 'h wf_registry" where
  "register_assignee_resolver_namespace ns fn chk reg =
     reg\<lparr>rg_namespaces := (rg_namespaces reg)(ns \<mapsto> (fn, chk))\<rparr>"

definition register_floor_resolver ::
  "(int option \<Rightarrow> 'h wf_state \<Rightarrow> int list result) \<Rightarrow> 'h wf_registry \<Rightarrow> 'h wf_registry" where
  "register_floor_resolver fn reg = reg\<lparr>rg_floor := Some fn\<rparr>"

text \<open>\<open>split_principal\<close>: a principal is a string with at most one namespace prefix.\<close>

definition split_principal :: "string \<Rightarrow> string \<times> string option" where
  "split_principal p =
     (case split_first (CHR '':'') p of
        Some (ns, param) \<Rightarrow> (ns, Some param)
      | None \<Rightarrow> (p, None))"

definition principal_name :: "pyval \<Rightarrow> string result" where
  "principal_name v =
     (case v of PStr p \<Rightarrow> Inr p | _ \<Rightarrow> Inl (TypeErrorExn ''principal is not a string''))"

definition get_system_handler :: "'h wf_registry \<Rightarrow> pyval \<Rightarrow> 'h system_handler result" where
  "get_system_handler reg key =
     (if \<not> hashable key then Inl (TypeErrorExn ''unhashable type'')
      else case key of
             PStr k \<Rightarrow> (case rg_handlers reg k of Some h \<Rightarrow> Inr h | None \<Rightarrow> Inl (KeyErrorExn k))
           | _ \<Rightarrow> Inl (KeyErrorExn ''handler_key''))"

definition has_system_handler :: "'h wf_registry \<Rightarrow> pyval \<Rightarrow> bool result" where
  "has_system_handler reg key =
     (if \<not> hashable key then Inl (TypeErrorExn ''unhashable type'')
      else Inr (case key of PStr k \<Rightarrow> rg_handlers reg k \<noteq> None | _ \<Rightarrow> False))"

definition completion_callback :: "'h wf_registry \<Rightarrow> string \<Rightarrow> 'h completion_callback option" where
  "completion_callback reg k = rg_callbacks reg k"

definition has_resolver :: "'h wf_registry \<Rightarrow> string \<Rightarrow> bool" where
  "has_resolver reg p =
     (rg_resolvers reg p \<noteq> None \<or>
      (case split_principal p of
         (ns, Some param) \<Rightarrow> param \<noteq> [] \<and> rg_namespaces reg ns \<noteq> None
       | _ \<Rightarrow> False))"

definition has_assignee_resolver :: "'h wf_registry \<Rightarrow> pyval \<Rightarrow> bool result" where
  "has_assignee_resolver reg v = rbind (principal_name v) (\<lambda>p. Inr (has_resolver reg p))"

definition check_principal_param ::
  "'h wf_registry \<Rightarrow> 'h wf_state \<Rightarrow> pyval \<Rightarrow> string option result" where
  "check_principal_param reg s v =
     rbind (principal_name v) (\<lambda>p.
       case split_principal p of
         (ns, None) \<Rightarrow> Inr None
       | (ns, Some param) \<Rightarrow>
           (case rg_namespaces reg ns of
              None \<Rightarrow> Inr None
            | Some (fn, None) \<Rightarrow> Inr None
            | Some (fn, Some chk) \<Rightarrow> chk param s))"

text \<open>Resolvers return sets: the model keeps the iteration order and drops duplicates.\<close>

definition resolve_assignees ::
  "'h wf_registry \<Rightarrow> 'h wf_state \<Rightarrow> pyval \<Rightarrow> string \<Rightarrow> int \<Rightarrow> int list result" where
  "resolve_assignees reg s v etype eid =
     rbind (principal_name v) (\<lambda>p.
       case rg_resolvers reg p of
         Some fn \<Rightarrow> map_sum id remdups (fn etype eid s)
       | None \<Rightarrow>
           (case split_principal p of
              (ns, Some param) \<Rightarrow>
                (case rg_namespaces reg ns of
                   Some (fn, chk) \<Rightarrow> map_sum id remdups (fn etype eid param s)
                 | None \<Rightarrow> Inl (KeyErrorExn p))
            | (ns, None) \<Rightarrow> Inl (KeyErrorExn p)))"

definition resolve_floor :: "'h wf_registry \<Rightarrow> 'h wf_state \<Rightarrow> int option \<Rightarrow> int list result" where
  "resolve_floor reg s org =
     (case rg_floor reg of
        None \<Rightarrow> Inl (RuntimeErrorExn ''No admin-floor resolver registered'')
      | Some fn \<Rightarrow> map_sum id remdups (fn org s))"

subsection \<open>Events\<close>

text \<open>\<open>emit\<close>: every subscriber runs, in order; one that raises is logged and passed over.\<close>

definition subscribe :: "'h subscriber \<Rightarrow> 'h wf_registry \<Rightarrow> 'h wf_registry" where
  "subscribe fn reg = reg\<lparr>rg_subscribers := rg_subscribers reg @ [fn]\<rparr>"

definition emit :: "'h wf_registry \<Rightarrow> pyval \<Rightarrow> dict \<Rightarrow> 'h wf_state \<Rightarrow> 'h wf_state" where
  "emit reg kind payload s =
     fold (\<lambda>fn st. st\<lparr>ws_host := snd (fn kind payload st)\<rparr>) (rg_subscribers reg) s"

lemma emit_host_only: "\<exists>h. emit reg kind payload s = s\<lparr>ws_host := h\<rparr>"
proof -
  have "\<exists>h. fold (\<lambda>fn st. st\<lparr>ws_host := snd (fn kind payload st)\<rparr>) fs s = s\<lparr>ws_host := h\<rparr>"
    for fs :: "'h subscriber list" and s :: "'h wf_state"
  proof (induction fs arbitrary: s)
    case Nil
    have "s = s\<lparr>ws_host := ws_host s\<rparr>" by simp
    then show ?case by (metis fold_Nil id_apply)
  next
    case (Cons fn fs)
    from Cons.IH [of "s\<lparr>ws_host := snd (fn kind payload s)\<rparr>"] show ?case by auto
  qed
  then show ?thesis by (simp add: emit_def)
qed

lemma emit_tables [simp]:
  "ws_defs (emit reg k p s) = ws_defs s"
  "ws_next_def (emit reg k p s) = ws_next_def s"
  "ws_bindings (emit reg k p s) = ws_bindings s"
  "ws_instances (emit reg k p s) = ws_instances s"
  "ws_next_instance (emit reg k p s) = ws_next_instance s"
  "ws_execs (emit reg k p s) = ws_execs s"
  "ws_next_exec (emit reg k p s) = ws_next_exec s"
  "ws_assignees (emit reg k p s) = ws_assignees s"
  "ws_next_assignee (emit reg k p s) = ws_next_assignee s"
  "ws_decisions (emit reg k p s) = ws_decisions s"
  "ws_next_decision (emit reg k p s) = ws_next_decision s"
  "ws_infos (emit reg k p s) = ws_infos s"
  "ws_next_info (emit reg k p s) = ws_next_info s"
  using emit_host_only [of reg k p s] by auto

end
