(* ===== verification/WfValidate.thy ===== *)
theory WfValidate
  imports WfDefinitions
begin

text \<open>
  \<open>validate_definition\<close> of \<^verbatim>\<open>asas_workflow/definitions.py\<close>: the problems of a definition spec in
  the order the code lists them, the graph closure it uses, and what an accepted spec guarantees.
\<close>

record node_spec =
  ns_key :: string
  ns_name :: string
  ns_type :: node_type
  ns_config :: dict

record transition_spec =
  ts_from :: string
  ts_to :: string
  ts_condition :: pyval

record definition_spec =
  ds_key :: string
  ds_name :: string
  ds_entity_type :: string
  ds_nodes :: "node_spec list"
  ds_transitions :: "transition_spec list"
  ds_data_fields :: "string list"
  ds_purpose :: "string option"

definition resolved_purpose :: "definition_spec \<Rightarrow> string" where
  "resolved_purpose spec =
     (case ds_purpose spec of Some (c # cs) \<Rightarrow> c # cs | _ \<Rightarrow> ds_key spec)"

definition quorums :: "string list" where
  "quorums = [''any'', ''all'']"

datatype problem =
    DuplicateKeys
  | StartCount nat
  | NoEnd
  | NoPrincipals string
  | UnknownPrincipal string pyval
  | BadParam string pyval string
  | BadQuorum string
  | UnknownHandler string pyval
  | NoPrompt string
  | NoEvent string
  | NoOutcome string
  | UnknownTransitionNode string string
  | EndHasOut string
  | ConditionShape string string shape_problem
  | UndeclaredField string string string
  | DeadEnd string
  | NoDefault string
  | DefaultNotLast string
  | ManyDefaults string
  | Unreachable "string list"
  | NoEndReachable "string list"
  | VariantType string string

subsection \<open>Node configuration\<close>

definition spec_starts :: "definition_spec \<Rightarrow> node_spec list" where
  "spec_starts spec = filter (\<lambda>n. ns_type n = NStart) (ds_nodes spec)"

definition spec_ends :: "definition_spec \<Rightarrow> node_spec list" where
  "spec_ends spec = filter (\<lambda>n. ns_type n = NEnd) (ds_nodes spec)"

definition spec_keys :: "definition_spec \<Rightarrow> string list" where
  "spec_keys spec = map ns_key (ds_nodes spec)"

definition count_problems :: "definition_spec \<Rightarrow> problem list" where
  "count_problems spec =
     (if distinct (spec_keys spec) then [] else [DuplicateKeys]) @
     (if length (spec_starts spec) = 1 then [] else [StartCount (length (spec_starts spec))]) @
     (if spec_ends spec = [] then [NoEnd] else [])"

text \<open>The parameter of a namespaced principal is checked only when a session is at hand.\<close>

definition param_problems ::
  "'h wf_registry \<Rightarrow> 'h wf_state option \<Rightarrow> string \<Rightarrow> pyval \<Rightarrow> problem list result" where
  "param_problems reg session nkey p =
     (case session of
        None \<Rightarrow> Inr []
      | Some s \<Rightarrow>
          rbind (check_principal_param reg s p) (\<lambda>prob.
            Inr (case prob of Some (c # cs) \<Rightarrow> [BadParam nkey p (c # cs)] | _ \<Rightarrow> [])))"

definition principal_problems ::
  "'h wf_registry \<Rightarrow> 'h wf_state option \<Rightarrow> string \<Rightarrow> pyval \<Rightarrow> problem list result" where
  "principal_problems reg session nkey p =
     rbind (has_assignee_resolver reg p) (\<lambda>known.
       if known then param_problems reg session nkey p else Inr [UnknownPrincipal nkey p])"

definition config_get :: "dict \<Rightarrow> string \<Rightarrow> pyval \<Rightarrow> pyval" where
  "config_get cfg k d = (case dget cfg k of Some v \<Rightarrow> v | None \<Rightarrow> d)"

definition approval_problems ::
  "'h wf_registry \<Rightarrow> 'h wf_state option \<Rightarrow> node_spec \<Rightarrow> problem list result" where
  "approval_problems reg session n =
     rbind
       (case dget_or_none (ns_config n) ''principals'' of
          PList (p # ps) \<Rightarrow> concat_r (principal_problems reg session (ns_key n)) (p # ps)
        | _ \<Rightarrow> Inr [NoPrincipals (ns_key n)])
       (\<lambda>probs. Inr (probs @
          (if config_get (ns_config n) ''quorum'' (PStr ''any'') \<in> PStr ` set quorums
           then [] else [BadQuorum (ns_key n)])))"

definition system_problems :: "'h wf_registry \<Rightarrow> node_spec \<Rightarrow> problem list result" where
  "system_problems reg n =
     (let h = dget_or_none (ns_config n) ''handler_key'' in
      if \<not> truthy h then Inr [UnknownHandler (ns_key n) h]
      else rbind (has_system_handler reg h)
             (\<lambda>known. Inr (if known then [] else [UnknownHandler (ns_key n) h])))"

definition request_info_problems ::
  "'h wf_registry \<Rightarrow> 'h wf_state option \<Rightarrow> node_spec \<Rightarrow> problem list result" where
  "request_info_problems reg session n =
     (let p = dget_or_none (ns_config n) ''principal'' in
      rbind
        (if truthy p then principal_problems reg session (ns_key n) p
         else Inr [UnknownPrincipal (ns_key n) p])
        (\<lambda>probs. Inr
           ((if truthy (dget_or_none (ns_config n) ''prompt'') then [] else [NoPrompt (ns_key n)])
            @ probs)))"

definition node_problems ::
  "'h wf_registry \<Rightarrow> 'h wf_state option \<Rightarrow> node_spec \<Rightarrow> problem list result" where
  "node_problems reg session n =
     (case ns_type n of
        NApproval \<Rightarrow> approval_problems reg session n
      | NSystem \<Rightarrow> system_problems reg n
      | NRequestInfo \<Rightarrow> request_info_problems reg session n
      | NNotify \<Rightarrow>
          Inr (if truthy (dget_or_none (ns_config n) ''event'') then [] else [NoEvent (ns_key n)])
      | NEnd \<Rightarrow>
          Inr (if truthy (dget_or_none (ns_config n) ''outcome'') then [] else [NoOutcome (ns_key n)])
      | NStart \<Rightarrow> Inr [])"

subsection \<open>Transitions\<close>

text \<open>\<open>by_key[k]\<close>: of nodes with the same key the last one counts.\<close>

definition spec_node :: "definition_spec \<Rightarrow> string \<Rightarrow> node_spec option" where
  "spec_node spec k = row_by ns_key k (rev (ds_nodes spec))"

definition field_unknown :: "definition_spec \<Rightarrow> pyval \<Rightarrow> string list result" where
  "field_unknown spec v =
     (case v of
        PStr f \<Rightarrow>
          Inr (if f \<in> set (ds_data_fields spec) then []
               else case split_on (CHR ''.'') f of
                      p # k # q # r \<Rightarrow>
                        if p = ''nodes'' \<and> k \<in> set (spec_keys spec) then [] else [f]
                    | _ \<Rightarrow> [f])
      | _ \<Rightarrow> Inl (HostExn ''AttributeError'' ''split''))"

definition unknown_condition_fields :: "pyval \<Rightarrow> definition_spec \<Rightarrow> string list result" where
  "unknown_condition_fields condition spec =
     rbind (condition_fields condition) (\<lambda>fs.
       rbind (concat_r (field_unknown spec) fs) (\<lambda>us. Inr (sort (remdups us))))"

definition transition_counts :: "definition_spec \<Rightarrow> transition_spec \<Rightarrow> bool" where
  "transition_counts spec t =
     (case (spec_node spec (ts_from t), spec_node spec (ts_to t)) of
        (Some a, Some b) \<Rightarrow> ns_type a \<noteq> NEnd
      | _ \<Rightarrow> False)"

definition transition_problems :: "definition_spec \<Rightarrow> transition_spec \<Rightarrow> problem list result" where
  "transition_problems spec t =
     (case (spec_node spec (ts_from t), spec_node spec (ts_to t)) of
        (Some a, Some b) \<Rightarrow>
          if ns_type a = NEnd then Inr [EndHasOut (ts_from t)]
          else rbind (unknown_condition_fields (ts_condition t) spec) (\<lambda>us.
                 Inr (map (ConditionShape (ts_from t) (ts_to t))
                        (check_condition_shape (ts_condition t)) @
                      map (UndeclaredField (ts_from t) (ts_to t)) us))
      | _ \<Rightarrow> Inr [UnknownTransitionNode (ts_from t) (ts_to t)])"

definition outs_of :: "definition_spec \<Rightarrow> string \<Rightarrow> transition_spec list" where
  "outs_of spec k = filter (\<lambda>t. transition_counts spec t \<and> ts_from t = k) (ds_transitions spec)"

definition out_problems :: "definition_spec \<Rightarrow> node_spec \<Rightarrow> problem list" where
  "out_problems spec n =
     (let outs = outs_of spec (ns_key n);
          conditional = filter (\<lambda>t. ts_condition t \<noteq> PNone) outs;
          defaults = filter (\<lambda>t. ts_condition t = PNone) outs
      in if ns_type n = NEnd then []
         else if outs = [] then [DeadEnd (ns_key n)]
         else
           (if conditional \<noteq> [] \<and> defaults = [] \<and> ns_type n \<noteq> NApproval
            then [NoDefault (ns_key n)] else []) @
           (if defaults \<noteq> [] \<and> ts_condition (last outs) \<noteq> PNone
            then [DefaultNotLast (ns_key n)] else []) @
           (if 1 < length defaults then [ManyDefaults (ns_key n)] else []))"

subsection \<open>Graph closure\<close>

text \<open>
  \<open>_closure\<close>: \<open>frontier\<close> is a stack, its top at the head; the inner loop pushes the unseen
  targets of the popped node one by one.
\<close>

definition targets :: "(string \<times> string) list \<Rightarrow> string \<Rightarrow> string list" where
  "targets es x = remdups (map snd (filter (\<lambda>e. fst e = x) es))"

definition push_new :: "string \<Rightarrow> string list \<times> string list \<Rightarrow> string list \<times> string list" where
  "push_new nxt st =
     (if nxt \<in> set (fst st) then st else (fst st @ [nxt], nxt # snd st))"

definition fresh_targets :: "(string \<times> string) list \<Rightarrow> string list \<Rightarrow> nat" where
  "fresh_targets es seen = card (snd ` set es - set seen)"

lemma push_all:
  "set (fst (fold push_new ns (seen, fr))) = set seen \<union> set ns"
  "set (snd (fold push_new ns (seen, fr))) = set fr \<union> (set ns - set seen)"
  "(\<forall>x\<in>set ns. x \<in> set seen) \<Longrightarrow> fold push_new ns (seen, fr) = (seen, fr)"
  by (induction ns arbitrary: seen fr) (auto simp: push_new_def)

lemma push_all_measure:
  assumes "set ns \<subseteq> snd ` set es"
  shows "fresh_targets es (fst (fold push_new ns (seen, fr))) < fresh_targets es seen \<or>
         fold push_new ns (seen, fr) = (seen, fr)"
proof (cases "\<forall>x\<in>set ns. x \<in> set seen")
  case True
  then show ?thesis by (simp add: push_all(3))
next
  case False
  then have "snd ` set es - (set seen \<union> set ns) \<subset> snd ` set es - set seen" using assms by blast
  then show ?thesis
    unfolding fresh_targets_def push_all(1) by (auto intro: psubset_card_mono)
qed

function closure_loop ::
  "(string \<times> string) list \<Rightarrow> string list \<times> string list \<Rightarrow> string list" where
  "closure_loop es (seen, []) = seen"
| "closure_loop es (seen, x # fr) = closure_loop es (fold push_new (targets es x) (seen, fr))"
  by pat_completeness auto

termination closure_loop
proof (relation "measures [\<lambda>(es, st). fresh_targets es (fst st), \<lambda>(es, st). length (snd st)]")
  show "wf (measures [\<lambda>(es, st). fresh_targets es (fst st), \<lambda>(es, st). length (snd st)])"
    by simp
next
  fix es :: "(string \<times> string) list" and seen x fr
  have "set (targets es x) \<subseteq> snd ` set es" by (auto simp: targets_def)
  from push_all_measure [OF this, of seen fr]
  show "((es, fold push_new (targets es x) (seen, fr)), (es, seen, x # fr))
        \<in> measures [\<lambda>(es, st). fresh_targets es (fst st), \<lambda>(es, st). length (snd st)]"
    by auto
qed

definition closure :: "(string \<times> string) list \<Rightarrow> string list \<Rightarrow> string list" where
  "closure es seeds = closure_loop es (remdups seeds, rev (remdups seeds))"

lemma closure_loop_sound:
  "set fr \<subseteq> set seen \<Longrightarrow>
   set seen \<subseteq> set (closure_loop es (seen, fr)) \<and>
   set (closure_loop es (seen, fr)) \<subseteq> (set es)\<^sup>* `` set seen"
proof (induction es "(seen, fr)" arbitrary: seen fr rule: closure_loop.induct)
  case (1 es seen)
  then show ?case by auto
next
  case (2 es seen x fr)
  obtain seen' fr' where st: "fold push_new (targets es x) (seen, fr) = (seen', fr')"
    by (cases "fold push_new (targets es x) (seen, fr)") auto
  then have sets: "set seen' = set seen \<union> set (targets es x)"
    "set fr' = set fr \<union> (set (targets es x) - set seen)"
    using push_all(1,2) [of "targets es x" seen fr] by simp_all
  with "2.prems" have "set fr' \<subseteq> set seen'" by auto
  from "2.hyps" [OF st this] st
  have IH: "set seen' \<subseteq> set (closure_loop es (seen, x # fr))"
    "set (closure_loop es (seen, x # fr)) \<subseteq> (set es)\<^sup>* `` set seen'" by auto
  have "set (targets es x) \<subseteq> (set es)\<^sup>* `` set seen"
    using "2.prems" by (auto simp: targets_def intro!: ImageI [of x] r_into_rtrancl)
  then have "set seen' \<subseteq> (set es)\<^sup>* `` set seen" unfolding sets by auto
  then have "(set es)\<^sup>* `` set seen' \<subseteq> (set es)\<^sup>* `` set seen"
    by (auto intro: rtrancl_trans)
  with IH show ?case unfolding sets by auto
qed

lemma closure_loop_complete:
  assumes "set fr \<subseteq> set seen" "\<And>a b. a \<in> set seen - set fr \<Longrightarrow> (a, b) \<in> set es \<Longrightarrow> b \<in> set seen"
    "(a, b) \<in> set es" "a \<in> set (closure_loop es (seen, fr))"
  shows "b \<in> set (closure_loop es (seen, fr))"
  using assms
proof (induction es "(seen, fr)" arbitrary: seen fr rule: closure_loop.induct)
  case (1 es seen)
  then show ?case by auto
next
  case (2 es seen x fr)
  obtain seen' fr' where st: "fold push_new (targets es x) (seen, fr) = (seen', fr')"
    by (cases "fold push_new (targets es x) (seen, fr)") auto
  then have sets: "set seen' = set seen \<union> set (targets es x)"
    "set fr' = set fr \<union> (set (targets es x) - set seen)"
    using push_all(1,2) [of "targets es x" seen fr] by simp_all
  have sub: "set fr' \<subseteq> set seen'" using sets "2.prems"(1) by auto
  have closed: "b \<in> set seen'" if "a \<in> set seen' - set fr'" "(a, b) \<in> set es" for a b
  proof (cases "a = x")
    case True
    with that(2) show ?thesis unfolding sets by (force simp: targets_def)
  next
    case False
    with that(1) have "a \<in> set seen - set (x # fr)" unfolding sets by auto
    with "2.prems"(2) that(2) show ?thesis unfolding sets by blast
  qed
  from "2.hyps" [OF st sub closed "2.prems"(3)] "2.prems"(4) st
  show ?case by simp
qed

lemma closure_correct: "set (closure es seeds) = (set es)\<^sup>* `` set seeds"
proof
  show "set (closure es seeds) \<subseteq> (set es)\<^sup>* `` set seeds"
    using closure_loop_sound [of "rev (remdups seeds)" "remdups seeds" es]
    by (simp add: closure_def)
next
  show "(set es)\<^sup>* `` set seeds \<subseteq> set (closure es seeds)"
  proof
    fix b assume "b \<in> (set es)\<^sup>* `` set seeds"
    then obtain a where a: "a \<in> set seeds" "(a, b) \<in> (set es)\<^sup>*" by blast
    from a(2) show "b \<in> set (closure es seeds)"
    proof (induction rule: rtrancl_induct)
      case base
      with a(1) closure_loop_sound [of "rev (remdups seeds)" "remdups seeds" es]
      show ?case by (auto simp: closure_def)
    next
      case (step c d)
      then show ?case unfolding closure_def
        by (rule_tac closure_loop_complete [of _ _ _ c d]) auto
    qed
  qed
qed

subsection \<open>The whole validation\<close>

text \<open>\<open>get_active_definition\<close>: the active row of the key with the highest version.\<close>

definition get_active_definition :: "'h wf_state \<Rightarrow> string \<Rightarrow> process_definition option" where
  "get_active_definition s key =
     least_by (\<lambda>d. - int (pd_version d))
       (filter (\<lambda>d. pd_key d = key \<and> pd_status d = DefActive) (ws_defs s))"

definition spec_edges :: "definition_spec \<Rightarrow> (string \<times> string) list" where
  "spec_edges spec = map (\<lambda>t. (ts_from t, ts_to t)) (ds_transitions spec)"

definition reach_problems :: "definition_spec \<Rightarrow> problem list" where
  "reach_problems spec =
     (let keys = remdups (spec_keys spec);
          edges = spec_edges spec;
          reachable = closure edges [ns_key (hd (spec_starts spec))];
          unreachable = filter (\<lambda>k. k \<notin> set reachable) keys;
          can_finish = closure (map (\<lambda>(a, b). (b, a)) edges) (map ns_key (spec_ends spec)) @
            map ns_key (filter (\<lambda>n. ns_type n = NApproval) (ds_nodes spec));
          stuck = filter (\<lambda>k. k \<notin> set can_finish) reachable
      in (if unreachable = [] then [] else [Unreachable (sort unreachable)]) @
         (if stuck = [] then [] else [NoEndReachable (sort stuck)]))"

definition variant_problems ::
  "'h wf_state option \<Rightarrow> definition_spec \<Rightarrow> problem list" where
  "variant_problems session spec =
     (case session of
        None \<Rightarrow> []
      | Some s \<Rightarrow>
          if resolved_purpose spec = ds_key spec then []
          else case get_active_definition s (resolved_purpose spec) of
                 None \<Rightarrow> []
               | Some d \<Rightarrow>
                   if pd_entity_type d = ds_entity_type spec then []
                   else [VariantType (ds_entity_type spec) (pd_entity_type d)])"

definition definition_problems ::
  "'h wf_registry \<Rightarrow> 'h wf_state option \<Rightarrow> definition_spec \<Rightarrow> problem list result" where
  "definition_problems reg session spec =
     rbind (concat_r (node_problems reg session) (ds_nodes spec)) (\<lambda>p1.
     rbind (concat_r (transition_problems spec) (ds_transitions spec)) (\<lambda>p2.
       let ps = count_problems spec @ p1 @ p2 @ concat (map (out_problems spec) (ds_nodes spec));
           ps' = (if spec_starts spec \<noteq> [] \<and> ps = [] then reach_problems spec else ps)
       in Inr (ps' @ variant_problems session spec)))"

definition validate_definition ::
  "'h wf_registry \<Rightarrow> 'h wf_state option \<Rightarrow> definition_spec \<Rightarrow> unit result" where
  "validate_definition reg session spec =
     rbind (definition_problems reg session spec) (\<lambda>ps.
       guard_r (ps = []) (ValueError (''invalid process definition '' @ ds_key spec)))"

subsection \<open>What an accepted spec guarantees\<close>

text \<open>The graph laws, as one predicate over the spec.\<close>

definition well_formed_spec :: "definition_spec \<Rightarrow> bool" where
  "well_formed_spec spec \<longleftrightarrow>
     distinct (spec_keys spec) \<and> length (spec_starts spec) = 1 \<and> spec_ends spec \<noteq> [] \<and>
     (\<forall>t\<in>set (ds_transitions spec).
        transition_counts spec t \<and> check_condition_shape (ts_condition t) = []) \<and>
     (\<forall>n\<in>set (ds_nodes spec). ns_type n \<noteq> NEnd \<longrightarrow>
        (let outs = outs_of spec (ns_key n) in
         outs \<noteq> [] \<and>
         length (filter (\<lambda>t. ts_condition t = PNone) outs) \<le> 1 \<and>
         ((\<exists>t\<in>set outs. ts_condition t = PNone) \<longrightarrow> ts_condition (last outs) = PNone) \<and>
         (ns_type n \<noteq> NApproval \<longrightarrow> ts_condition (last outs) = PNone))) \<and>
     (\<forall>n\<in>set (ds_nodes spec).
        (ns_key (hd (spec_starts spec)), ns_key n) \<in> (set (spec_edges spec))\<^sup>* \<and>
        (ns_type n = NApproval \<or>
         (\<exists>e\<in>set (spec_ends spec). (ns_key n, ns_key e) \<in> (set (spec_edges spec))\<^sup>*)))"

lemma spec_node_distinct:
  assumes "distinct (spec_keys spec)" "n \<in> set (ds_nodes spec)"
  shows "spec_node spec (ns_key n) = Some n"
  using assms unfolding spec_node_def spec_keys_def
  by (intro row_by_distinct) (simp_all add: rev_map [symmetric])

lemma transition_problems_Nil:
  assumes "transition_problems spec t = Inr []"
  shows "transition_counts spec t \<and> check_condition_shape (ts_condition t) = []"
  using assms
  by (auto simp: transition_problems_def transition_counts_def rbind_Inr_iff
      split: option.splits if_splits)

lemma out_problems_Nil:
  assumes "out_problems spec n = []" "ns_type n \<noteq> NEnd"
  shows "let outs = outs_of spec (ns_key n) in
         outs \<noteq> [] \<and>
         length (filter (\<lambda>t. ts_condition t = PNone) outs) \<le> 1 \<and>
         ((\<exists>t\<in>set outs. ts_condition t = PNone) \<longrightarrow> ts_condition (last outs) = PNone) \<and>
         (ns_type n \<noteq> NApproval \<longrightarrow> ts_condition (last outs) = PNone)"
proof -
  define outs where "outs = outs_of spec (ns_key n)"
  from assms have outs: "outs \<noteq> []"
    and dl: "filter (\<lambda>t. ts_condition t = PNone) outs \<noteq> [] \<longrightarrow> ts_condition (last outs) = PNone"
    and nd: "filter (\<lambda>t. ts_condition t \<noteq> PNone) outs \<noteq> [] \<longrightarrow>
       filter (\<lambda>t. ts_condition t = PNone) outs \<noteq> [] \<or> ns_type n = NApproval"
    and one: "length (filter (\<lambda>t. ts_condition t = PNone) outs) \<le> 1"
    by (auto simp: out_problems_def Let_def outs_def split: if_splits)
  have ex: "(\<exists>t\<in>set outs. ts_condition t = PNone) \<longrightarrow> ts_condition (last outs) = PNone"
    using dl by (auto simp: filter_empty_conv)
  have "ts_condition (last outs) = PNone" if "ns_type n \<noteq> NApproval"
  proof (rule ccontr)
    assume c: "ts_condition (last outs) \<noteq> PNone"
    with outs have "filter (\<lambda>t. ts_condition t \<noteq> PNone) outs \<noteq> []"
      by (auto simp: filter_empty_conv intro: last_in_set)
    with nd that dl c show False by blast
  qed
  with outs one ex show ?thesis by (simp add: outs_def Let_def)
qed

lemma reach_problems_Nil:
  assumes "reach_problems spec = []" "n \<in> set (ds_nodes spec)"
  shows "(ns_key (hd (spec_starts spec)), ns_key n) \<in> (set (spec_edges spec))\<^sup>*"
    and "ns_key n \<in> ns_key ` {m \<in> set (ds_nodes spec). ns_type m = NApproval} \<or>
         (\<exists>e\<in>set (spec_ends spec). (ns_key n, ns_key e) \<in> (set (spec_edges spec))\<^sup>*)"
proof -
  let ?E = "set (spec_edges spec)"
  let ?s = "ns_key (hd (spec_starts spec))"
  have rev: "set (map (\<lambda>(a, b). (b, a)) (spec_edges spec)) = ?E\<inverse>" by auto
  have "filter (\<lambda>k. k \<notin> set (closure (spec_edges spec) [?s])) (remdups (spec_keys spec)) = []"
    using assms(1) by (simp add: reach_problems_def Let_def split: if_splits)
  with assms(2) have in_reach: "ns_key n \<in> set (closure (spec_edges spec) [?s])"
    by (auto simp: filter_empty_conv spec_keys_def)
  then show "(?s, ns_key n) \<in> ?E\<^sup>*" by (simp add: closure_correct)
  from assms(1) in_reach
  have "ns_key n \<in> set (closure (map (\<lambda>(a, b). (b, a)) (spec_edges spec))
           (map ns_key (spec_ends spec))) \<or>
        ns_key n \<in> ns_key ` {m \<in> set (ds_nodes spec). ns_type m = NApproval}"
    by (auto simp: reach_problems_def Let_def filter_empty_conv split: if_splits)
  then show "ns_key n \<in> ns_key ` {m \<in> set (ds_nodes spec). ns_type m = NApproval} \<or>
         (\<exists>e\<in>set (spec_ends spec). (ns_key n, ns_key e) \<in> ?E\<^sup>*)"
    unfolding closure_correct rev by (auto simp: rtrancl_converse)
qed

lemma definition_problems_Nil:
  assumes "definition_problems reg session spec = Inr []"
  shows "count_problems spec = []" "n \<in> set (ds_nodes spec) \<Longrightarrow> node_problems reg session n = Inr []"
    "t \<in> set (ds_transitions spec) \<Longrightarrow> transition_problems spec t = Inr []"
    "n \<in> set (ds_nodes spec) \<Longrightarrow> out_problems spec n = []"
    "reach_problems spec = []" "variant_problems session spec = []"
proof -
  obtain p1 p2 where p1: "concat_r (node_problems reg session) (ds_nodes spec) = Inr p1"
    and p2: "concat_r (transition_problems spec) (ds_transitions spec) = Inr p2"
    using assms by (auto simp: definition_problems_def rbind_Inr_iff)
  let ?ps = "count_problems spec @ p1 @ p2 @ concat (map (out_problems spec) (ds_nodes spec))"
  have ps: "?ps = []" and v: "variant_problems session spec = []"
    and r: "spec_starts spec \<noteq> [] \<longrightarrow> reach_problems spec = []"
    using assms p1 p2 by (auto simp: definition_problems_def Let_def split: if_splits)
  then have "spec_starts spec \<noteq> []" by (auto simp: count_problems_def split: if_splits)
  with r show "reach_problems spec = []" by simp
  show "variant_problems session spec = []" by (rule v)
  show "count_problems spec = []" using ps by simp
  show "n \<in> set (ds_nodes spec) \<Longrightarrow> out_problems spec n = []" using ps by simp
  show "n \<in> set (ds_nodes spec) \<Longrightarrow> node_problems reg session n = Inr []"
    using ps p1 by (auto intro: concat_r_Nil)
  show "t \<in> set (ds_transitions spec) \<Longrightarrow> transition_problems spec t = Inr []"
    using ps p2 by (auto intro: concat_r_Nil)
qed

lemma no_problems_well_formed:
  assumes "definition_problems reg session spec = Inr []"
  shows "well_formed_spec spec"
proof -
  note facts = definition_problems_Nil [OF assms]
  have count: "distinct (spec_keys spec)" "length (spec_starts spec) = 1" "spec_ends spec \<noteq> []"
    using facts(1) by (auto simp: count_problems_def split: if_splits)
  have kind: "ns_type n = NApproval"
    if "n \<in> set (ds_nodes spec)"
      "ns_key n \<in> ns_key ` {m \<in> set (ds_nodes spec). ns_type m = NApproval}" for n
  proof -
    from that(2) obtain m where "m \<in> set (ds_nodes spec)" "ns_type m = NApproval" "ns_key n = ns_key m"
      by auto
    with that(1) spec_node_distinct [OF count(1)] show ?thesis by (metis option.inject)
  qed
  have trans: "\<forall>t\<in>set (ds_transitions spec).
        transition_counts spec t \<and> check_condition_shape (ts_condition t) = []"
    using facts(3) transition_problems_Nil by blast
  have outs: "\<forall>n\<in>set (ds_nodes spec). ns_type n \<noteq> NEnd \<longrightarrow>
        (let outs = outs_of spec (ns_key n) in
         outs \<noteq> [] \<and>
         length (filter (\<lambda>t. ts_condition t = PNone) outs) \<le> 1 \<and>
         ((\<exists>t\<in>set outs. ts_condition t = PNone) \<longrightarrow> ts_condition (last outs) = PNone) \<and>
         (ns_type n \<noteq> NApproval \<longrightarrow> ts_condition (last outs) = PNone))"
    using facts(4) out_problems_Nil by blast
  have reach: "\<forall>n\<in>set (ds_nodes spec).
        (ns_key (hd (spec_starts spec)), ns_key n) \<in> (set (spec_edges spec))\<^sup>* \<and>
        (ns_type n = NApproval \<or>
         (\<exists>e\<in>set (spec_ends spec). (ns_key n, ns_key e) \<in> (set (spec_edges spec))\<^sup>*))"
    using reach_problems_Nil [OF facts(5)] kind by blast
  show ?thesis unfolding well_formed_spec_def using count trans outs reach by blast
qed

end
