(* ===== verification/WfCatalog.thy ===== *)
theory WfCatalog
  imports WfValidate
begin

text \<open>
  Versioned definitions, purposes and subject bindings of \<^verbatim>\<open>asas_workflow/definitions.py\<close>
  (\<open>ensure_definition\<close>, \<open>resolve_definition\<close>, \<open>set_binding\<close>) and the seed loader.  The digest of
  a canonical spec (\<open>json.dumps\<close> with sorted keys, then SHA-256) is the argument \<open>digest\<close>.
\<close>

subsection \<open>Registered specs\<close>

type_synonym spec_table = "(string \<times> definition_spec) list"

definition register_definition :: "definition_spec \<Rightarrow> spec_table \<Rightarrow> spec_table" where
  "register_definition spec specs = dset specs (ds_key spec) spec"

definition registered_specs :: "spec_table \<Rightarrow> definition_spec list" where
  "registered_specs specs = map snd specs"

subsection \<open>The canonical value of a spec\<close>

definition opt_str :: "string option \<Rightarrow> pyval" where
  "opt_str v = (case v of None \<Rightarrow> PNone | Some s \<Rightarrow> PStr s)"

definition spec_canonical :: "definition_spec \<Rightarrow> pyval" where
  "spec_canonical spec =
     PDict
       [(''key'', PStr (ds_key spec)),
        (''name'', PStr (ds_name spec)),
        (''entity_type'', PStr (ds_entity_type spec)),
        (''purpose'', PStr (resolved_purpose spec)),
        (''data_fields'', PList (map PStr (ds_data_fields spec))),
        (''nodes'', PList (map (\<lambda>n. PDict
            [(''key'', PStr (ns_key n)), (''name'', PStr (ns_name n)),
             (''type'', PStr (node_type_value (ns_type n))), (''config'', PDict (ns_config n))])
          (ds_nodes spec))),
        (''transitions'', PList (map (\<lambda>t. PDict
            [(''from'', PStr (ts_from t)), (''to'', PStr (ts_to t)),
             (''condition'', ts_condition t)])
          (ds_transitions spec)))]"

definition spec_hash :: "(pyval \<Rightarrow> string) \<Rightarrow> definition_spec \<Rightarrow> string" where
  "spec_hash digest spec = digest (spec_canonical spec)"

subsection \<open>Purposes and bindings\<close>

definition active_definitions_for_purpose ::
  "'h wf_state \<Rightarrow> string \<Rightarrow> process_definition list" where
  "active_definitions_for_purpose s purpose =
     sort_key (\<lambda>d. (pd_key d \<noteq> purpose, pd_key d))
       (sort_key pd_key
         (filter (\<lambda>d. pd_purpose d = purpose \<and> pd_status d = DefActive) (ws_defs s)))"

definition binding_matches :: "string \<Rightarrow> int \<Rightarrow> string \<Rightarrow> process_binding \<Rightarrow> bool" where
  "binding_matches etype eid purpose b =
     (pb_entity_type b = etype \<and> pb_entity_id b = eid \<and> pb_purpose b = purpose)"

definition get_binding ::
  "'h wf_state \<Rightarrow> string \<Rightarrow> int \<Rightarrow> string \<Rightarrow> process_binding option" where
  "get_binding s etype eid purpose = first_where (binding_matches etype eid purpose) (ws_bindings s)"

definition set_binding ::
  "string \<Rightarrow> int \<Rightarrow> string \<Rightarrow> string option \<Rightarrow> 'h wf_state
    \<Rightarrow> (process_binding option \<times> 'h wf_state) result" where
  "set_binding etype eid purpose key s =
     rbind
       (case key of
          None \<Rightarrow> Inr ()
        | Some k \<Rightarrow>
            (case get_active_definition s k of
               None \<Rightarrow> Inl (ValueError (''No active definition '' @ py_repr k))
             | Some d \<Rightarrow> guard_r (pd_purpose d = purpose)
                 (ValueError (''Definition '' @ py_repr k @ '' serves purpose '' @
                    py_repr (pd_purpose d) @ '', not '' @ py_repr purpose))))
       (\<lambda>_. Inr
          (case (key, get_binding s etype eid purpose) of
             (None, None) \<Rightarrow> (None, s)
           | (None, Some _) \<Rightarrow>
               (None, s\<lparr>ws_bindings :=
                  filter (\<lambda>b. \<not> binding_matches etype eid purpose b) (ws_bindings s)\<rparr>)
           | (Some k, None) \<Rightarrow>
               (let b = \<lparr>pb_entity_type = etype, pb_entity_id = eid, pb_purpose = purpose,
                         pb_definition_key = k\<rparr>
                in (Some b, s\<lparr>ws_bindings := ws_bindings s @ [b]\<rparr>))
           | (Some k, Some b) \<Rightarrow>
               (Some (b\<lparr>pb_definition_key := k\<rparr>),
                s\<lparr>ws_bindings := update_where (binding_matches etype eid purpose)
                    (\<lambda>r. r\<lparr>pb_definition_key := k\<rparr>) (ws_bindings s)\<rparr>)))"

definition resolve_definition ::
  "'h wf_state \<Rightarrow> string \<Rightarrow> (string \<times> int) option \<Rightarrow> process_definition option" where
  "resolve_definition s purpose bound_to =
     (let default = get_active_definition s purpose in
      case bound_to of
        None \<Rightarrow> default
      | Some (etype, eid) \<Rightarrow>
          (case get_binding s etype eid purpose of
             None \<Rightarrow> default
           | Some b \<Rightarrow>
               (case get_active_definition s (pb_definition_key b) of
                  None \<Rightarrow> default
                | Some d \<Rightarrow> if pd_purpose d = purpose then Some d else default)))"

subsection \<open>Versioning\<close>

definition latest_version :: "'h wf_state \<Rightarrow> string \<Rightarrow> nat" where
  "latest_version s key =
     (case least_by (\<lambda>d. - int (pd_version d)) (filter (\<lambda>d. pd_key d = key) (ws_defs s)) of
        None \<Rightarrow> 0
      | Some d \<Rightarrow> pd_version d)"

definition definition_row ::
  "nat \<Rightarrow> nat \<Rightarrow> string \<Rightarrow> instant \<Rightarrow> definition_spec \<Rightarrow> process_definition" where
  "definition_row did version digest now spec =
     \<lparr>pd_id = did, pd_key = ds_key spec, pd_version = version, pd_name = ds_name spec,
      pd_entity_type = ds_entity_type spec, pd_purpose = resolved_purpose spec,
      pd_status = DefActive, pd_data_fields = ds_data_fields spec, pd_spec_hash = digest,
      pd_nodes = map (\<lambda>n. \<lparr>pn_key = ns_key n, pn_name = ns_name n, pn_type = ns_type n,
                           pn_config = ns_config n\<rparr>) (ds_nodes spec),
      pd_transitions = map (\<lambda>(i, t). \<lparr>pt_from = ts_from t, pt_to = ts_to t, pt_sort = i,
                                      pt_condition = ts_condition t\<rparr>)
                         (enumerate 0 (ds_transitions spec)),
      pd_published_at = Some now\<rparr>"

definition archive_row :: "process_definition option \<Rightarrow> process_definition \<Rightarrow> process_definition" where
  "archive_row active d =
     (if map_option pd_id active = Some (pd_id d) then d\<lparr>pd_status := DefArchived\<rparr> else d)"

definition ensure_definition ::
  "(pyval \<Rightarrow> string) \<Rightarrow> 'h wf_registry \<Rightarrow> instant \<Rightarrow> definition_spec \<Rightarrow> 'h wf_state
    \<Rightarrow> (process_definition \<times> 'h wf_state) result" where
  "ensure_definition digest reg now spec s =
     (let h = spec_hash digest spec; active = get_active_definition s (ds_key spec) in
      case active of
        Some d \<Rightarrow> if pd_spec_hash d = h then Inr (d, s) else
          rbind (validate_definition reg (Some s) spec) (\<lambda>_.
            let row = definition_row (ws_next_def s) (Suc (latest_version s (ds_key spec))) h now spec
            in Inr (row, s\<lparr>ws_defs := map (archive_row active) (ws_defs s) @ [row],
                           ws_next_def := Suc (ws_next_def s)\<rparr>))
      | None \<Rightarrow>
          rbind (validate_definition reg (Some s) spec) (\<lambda>_.
            let row = definition_row (ws_next_def s) (Suc (latest_version s (ds_key spec))) h now spec
            in Inr (row, s\<lparr>ws_defs := ws_defs s @ [row], ws_next_def := Suc (ws_next_def s)\<rparr>)))"

fun seed_loop ::
  "(pyval \<Rightarrow> string) \<Rightarrow> 'h wf_registry \<Rightarrow> instant \<Rightarrow> definition_spec list \<Rightarrow> 'h wf_state
    \<Rightarrow> 'h wf_state result" where
  "seed_loop digest reg now [] s = Inr s"
| "seed_loop digest reg now (spec # specs) s =
     rbind (ensure_definition digest reg now spec s)
       (\<lambda>(d, s'). seed_loop digest reg now specs s')"

definition seed_definitions ::
  "(pyval \<Rightarrow> string) \<Rightarrow> 'h wf_registry \<Rightarrow> instant \<Rightarrow> spec_table \<Rightarrow> 'h wf_state
    \<Rightarrow> 'h wf_state result" where
  "seed_definitions digest reg now specs s = seed_loop digest reg now (registered_specs specs) s"

subsection \<open>One active version per key\<close>

text \<open>
  Ids are handed out by the counter, versions are unique within a key, and at most one version of
  a key is active.
\<close>

definition active_def :: "process_definition \<Rightarrow> bool" where
  "active_def d = (pd_status d = DefActive)"

definition catalog_inv :: "'h wf_state \<Rightarrow> bool" where
  "catalog_inv s \<longleftrightarrow>
     distinct (map pd_id (ws_defs s)) \<and> (\<forall>d\<in>set (ws_defs s). pd_id d < ws_next_def s) \<and>
     distinct (map (\<lambda>d. (pd_key d, pd_version d)) (ws_defs s)) \<and>
     distinct (map pd_key (filter active_def (ws_defs s)))"

lemma get_active_Some:
  assumes "get_active_definition s k = Some d"
  shows "d \<in> set (ws_defs s)" "pd_key d = k" "active_def d"
  using least_by_Some [OF assms [unfolded get_active_definition_def]]
  by (auto simp: active_def_def)

lemma distinct_map_filter_unique:
  "distinct (map g (filter P xs)) \<Longrightarrow> x \<in> set xs \<Longrightarrow> y \<in> set xs \<Longrightarrow> P x \<Longrightarrow> P y
    \<Longrightarrow> g x = g y \<Longrightarrow> x = y"
  by (auto simp: distinct_map inj_on_def)

lemma get_active_iff:
  assumes "catalog_inv s"
  shows "get_active_definition s k = Some d \<longleftrightarrow>
     d \<in> set (ws_defs s) \<and> pd_key d = k \<and> active_def d"
proof
  assume "d \<in> set (ws_defs s) \<and> pd_key d = k \<and> active_def d"
  moreover from this have "get_active_definition s k \<noteq> None"
    by (auto simp: get_active_definition_def filter_empty_conv active_def_def)
  then obtain e where e: "get_active_definition s k = Some e" by auto
  moreover note get_active_Some [OF e]
  ultimately show "get_active_definition s k = Some d"
    using assms distinct_map_filter_unique [of pd_key active_def "ws_defs s" d e]
    by (auto simp: catalog_inv_def)
qed (use get_active_Some in blast)

lemma latest_version_max:
  "d \<in> set (ws_defs s) \<Longrightarrow> pd_key d = k \<Longrightarrow> pd_version d \<le> latest_version s k"
  by (auto simp: latest_version_def filter_empty_conv split: option.splits dest: least_by_Some)

lemma catalog_inv_empty: "catalog_inv (empty_wf_state h)"
  by (simp add: catalog_inv_def empty_wf_state_def)

lemma archive_row_simps [simp]:
  "pd_id (archive_row a d) = pd_id d" "pd_key (archive_row a d) = pd_key d"
  "pd_version (archive_row a d) = pd_version d"
  "active_def (archive_row a d) \<longleftrightarrow> active_def d \<and> map_option pd_id a \<noteq> Some (pd_id d)"
  "archive_row None d = d"
  by (auto simp: archive_row_def active_def_def)

lemma definition_row_simps [simp]:
  "pd_id (definition_row i v h now spec) = i" "pd_key (definition_row i v h now spec) = ds_key spec"
  "pd_version (definition_row i v h now spec) = v" "active_def (definition_row i v h now spec)"
  "pd_spec_hash (definition_row i v h now spec) = h"
  by (simp_all add: definition_row_def active_def_def)

text \<open>Both branches that insert are one shape.\<close>

lemma ensure_definition_cases:
  assumes "ensure_definition digest reg now spec s = Inr (d, t)"
  obtains (unchanged) "get_active_definition s (ds_key spec) = Some d"
      "pd_spec_hash d = spec_hash digest spec" "t = s"
  | (inserted) "validate_definition reg (Some s) spec = Inr ()"
      "d = definition_row (ws_next_def s) (Suc (latest_version s (ds_key spec)))
             (spec_hash digest spec) now spec"
      "t = s\<lparr>ws_defs := map (archive_row (get_active_definition s (ds_key spec))) (ws_defs s) @ [d],
             ws_next_def := Suc (ws_next_def s)\<rparr>"
proof (cases "get_active_definition s (ds_key spec)")
  case None
  have "map (archive_row None) (ws_defs s) = ws_defs s" by (simp add: map_idI)
  with assms None show ?thesis
    by (intro inserted) (auto simp: ensure_definition_def Let_def rbind_Inr_iff)
next
  case (Some a)
  show ?thesis
  proof (cases "pd_spec_hash a = spec_hash digest spec")
    case True
    with assms Some show ?thesis by (intro unchanged) (auto simp: ensure_definition_def)
  next
    case False
    with assms Some show ?thesis
      by (intro inserted) (auto simp: ensure_definition_def Let_def rbind_Inr_iff)
  qed
qed

lemma filter_active_archive:
  assumes "catalog_inv s"
  shows "filter active_def (map (archive_row (get_active_definition s k)) (ws_defs s)) =
         filter (\<lambda>d. active_def d \<and> pd_key d \<noteq> k) (ws_defs s)"
proof -
  have "active_def (archive_row (get_active_definition s k) d) \<longleftrightarrow> active_def d \<and> pd_key d \<noteq> k"
    if "d \<in> set (ws_defs s)" for d
  proof (cases "get_active_definition s k")
    case None
    then show ?thesis using that
      by (auto simp: get_active_definition_def filter_empty_conv active_def_def)
  next
    case (Some e)
    note e = get_active_Some [OF Some]
    have "d = e" if "pd_id d = pd_id e"
      using assms e(1) \<open>d \<in> set (ws_defs s)\<close> that
      by (auto simp: catalog_inv_def distinct_map dest: inj_onD)
    moreover have "d = e" if "active_def d" "pd_key d = k"
      using get_active_iff [OF assms, of k d] that \<open>d \<in> set (ws_defs s)\<close> Some by simp
    ultimately show ?thesis using Some e by auto
  qed
  moreover have "archive_row (get_active_definition s k) d = d"
    if "active_def (archive_row (get_active_definition s k) d)" for d
    using that by (auto simp: archive_row_def active_def_def split: if_splits)
  ultimately show ?thesis
    by (simp add: filter_map comp_def) (rule map_idI [THEN trans]; auto intro!: filter_cong)
qed

lemma catalog_inv_ensure:
  assumes "catalog_inv s" "ensure_definition digest reg now spec s = Inr (d, t)"
  shows "catalog_inv t"
  using assms(2)
proof (cases rule: ensure_definition_cases)
  case unchanged
  with assms(1) show ?thesis by simp
next
  case inserted
  let ?f = "archive_row (get_active_definition s (ds_key spec))"
  have ids: "map pd_id (map ?f (ws_defs s)) = map pd_id (ws_defs s)"
    "map (\<lambda>d. (pd_key d, pd_version d)) (map ?f (ws_defs s)) =
       map (\<lambda>d. (pd_key d, pd_version d)) (ws_defs s)" by simp_all
  have "distinct (map pd_key (filter (\<lambda>d. active_def d \<and> pd_key d \<noteq> ds_key spec) (ws_defs s)))"
    using assms(1) distinct_filter [of "map pd_key (filter active_def (ws_defs s))"
      "\<lambda>k. k \<noteq> ds_key spec"]
    by (simp add: catalog_inv_def filter_map comp_def conj_commute)
  then have act: "distinct (map pd_key (filter active_def (map ?f (ws_defs s) @ [d])))"
    unfolding filter_append filter_active_archive [OF assms(1)] by (auto simp: inserted(2))
  have ver: "Suc (latest_version s (ds_key spec)) \<noteq> pd_version e"
    if "e \<in> set (ws_defs s)" "pd_key e = ds_key spec" for e
    using latest_version_max [OF that] by simp
  from assms(1) act ver show ?thesis
    unfolding catalog_inv_def inserted(3)
    by (simp add: ids del: map_map filter_append) (auto simp: inserted(2))
qed

lemma ensure_definition_active:
  assumes "catalog_inv s" "ensure_definition digest reg now spec s = Inr (d, t)"
  shows "get_active_definition t (ds_key spec) = Some d" "pd_spec_hash d = spec_hash digest spec"
proof -
  note t = catalog_inv_ensure [OF assms]
  from assms(2) show "get_active_definition t (ds_key spec) = Some d"
  proof (cases rule: ensure_definition_cases)
    case unchanged
    then show ?thesis by simp
  next
    case inserted
    then show ?thesis unfolding get_active_iff [OF t] by simp
  qed
  from assms(2) show "pd_spec_hash d = spec_hash digest spec"
    by (cases rule: ensure_definition_cases) simp_all
qed

end
