(* ===== verification/WfEngine.thy ===== *)
theory WfEngine
  imports WfCatalog
begin

text \<open>
  The executor of \<^verbatim>\<open>asas_workflow/engine.py\<close>: opening an instance, the walk over automatic
  nodes, parking at approval and request-info nodes, and the operations on a parked instance.
  An ORM object is its row: operations take row ids and read the current row.  The walk may not
  end (a cycle of automatic nodes), so it takes fuel: \<open>None\<close> is out of fuel, and otherwise a
  result, whose left values are the exceptions that make the host roll the transaction back.
\<close>

definition rejected_outcome :: string where
  "rejected_outcome = ''rejected''"

definition admin_floor :: string where
  "admin_floor = ''admin_floor''"

subsection \<open>Rows\<close>

definition missing_row :: py_exn where
  "missing_row = HostExn ''ObjectDeletedError'' ''row not found''"

definition load_instance :: "nat \<Rightarrow> 'h wf_state \<Rightarrow> process_instance result" where
  "load_instance iid s =
     (case row_by pi_id iid (ws_instances s) of Some i \<Rightarrow> Inr i | None \<Rightarrow> Inl missing_row)"

definition load_execution :: "nat \<Rightarrow> 'h wf_state \<Rightarrow> node_execution result" where
  "load_execution eid s =
     (case row_by ne_id eid (ws_execs s) of Some e \<Rightarrow> Inr e | None \<Rightarrow> Inl missing_row)"

definition definition_of :: "'h wf_state \<Rightarrow> process_instance \<Rightarrow> process_definition result" where
  "definition_of s i =
     (case row_by pd_id (pi_definition_id i) (ws_defs s) of
        Some d \<Rightarrow> Inr d
      | None \<Rightarrow> Inl missing_row)"

definition set_instance ::
  "nat \<Rightarrow> (process_instance \<Rightarrow> process_instance) \<Rightarrow> 'h wf_state \<Rightarrow> 'h wf_state" where
  "set_instance iid f s =
     s\<lparr>ws_instances := update_where (\<lambda>r. pi_id r = iid) f (ws_instances s)\<rparr>"

definition set_execution ::
  "nat \<Rightarrow> (node_execution \<Rightarrow> node_execution) \<Rightarrow> 'h wf_state \<Rightarrow> 'h wf_state" where
  "set_execution eid f s =
     s\<lparr>ws_execs := update_where (\<lambda>r. ne_id r = eid) f (ws_execs s)\<rparr>"

text \<open>\<open>nodes_by_key[k]\<close>: the last node with the key.\<close>

definition node_by_key :: "process_definition \<Rightarrow> string \<Rightarrow> process_node option" where
  "node_by_key d k = row_by pn_key k (rev (pd_nodes d))"

definition transitions_from :: "process_definition \<Rightarrow> string \<Rightarrow> process_transition list" where
  "transitions_from d k = sort_key pt_sort (filter (\<lambda>t. pt_from t = k) (pd_transitions d))"

fun first_match ::
  "process_transition list \<Rightarrow> dict \<Rightarrow> bool \<Rightarrow> string option result" where
  "first_match [] data include_default = Inr None"
| "first_match (t # ts) data include_default =
     (if pt_condition t = PNone \<and> \<not> include_default then first_match ts data include_default
      else rbind (evaluate_condition (pt_condition t) data) (\<lambda>b.
             if b then Inr (Some (pt_to t)) else first_match ts data include_default))"

definition select_next ::
  "process_definition \<Rightarrow> string \<Rightarrow> dict \<Rightarrow> bool \<Rightarrow> string option result" where
  "select_next d k data include_default = first_match (transitions_from d k) data include_default"

subsection \<open>Steps of the walk\<close>

definition new_execution ::
  "process_instance \<Rightarrow> process_node \<Rightarrow> 'h wf_state \<Rightarrow> node_execution \<times> 'h wf_state" where
  "new_execution i n s =
     (let prior = least_by (\<lambda>e. - int (ne_seq e))
            (filter (\<lambda>e. ne_instance_id e = pi_id i \<and> ne_node_key e = pn_key n) (ws_execs s));
          e = \<lparr>ne_id = ws_next_exec s, ne_instance_id = pi_id i, ne_node_key = pn_key n,
               ne_node_type = pn_type n,
               ne_seq = (case prior of None \<Rightarrow> 1 | Some p \<Rightarrow> Suc (ne_seq p)),
               ne_status = ExActive, ne_result = [], ne_error = None, ne_completed_at = None\<rparr>
      in (e, s\<lparr>ws_execs := ws_execs s @ [e], ws_next_exec := Suc (ws_next_exec s)\<rparr>))"

definition complete_execution ::
  "instant \<Rightarrow> nat \<Rightarrow> dict \<Rightarrow> 'h wf_state \<Rightarrow> 'h wf_state" where
  "complete_execution now eid res s =
     (set_execution eid
        (\<lambda>e. e\<lparr>ne_status := ExCompleted, ne_result := res, ne_completed_at := Some now\<rparr>) s)
       \<lparr>ws_assignees := update_where
          (\<lambda>a. na_execution_id a = eid \<and> na_status a = AsRequested)
          (\<lambda>a. a\<lparr>na_status := AsNotRequired\<rparr>) (ws_assignees s),
        ws_infos := update_where
          (\<lambda>r. ir_execution_id r = eid \<and> ir_status r = IrPending)
          (\<lambda>r. r\<lparr>ir_status := IrWithdrawn\<rparr>) (ws_infos s)\<rparr>"

definition fail_instance ::
  "'h wf_registry \<Rightarrow> instant \<Rightarrow> nat \<Rightarrow> nat option \<Rightarrow> py_exn \<Rightarrow> 'h wf_state \<Rightarrow> 'h wf_state" where
  "fail_instance reg now iid exec exc s =
     (let msg = exn_message exc;
          s1 = (case exec of
                  None \<Rightarrow> s
                | Some eid \<Rightarrow> set_execution eid
                    (\<lambda>e. e\<lparr>ne_status := ExError, ne_error := Some msg,
                           ne_completed_at := Some now\<rparr>) s);
          s2 = set_instance iid (\<lambda>i. i\<lparr>pi_status := InError, pi_error := Some msg\<rparr>) s1
      in emit reg (PStr ''process.error'')
           [(''instance_id'', PInt (int iid)), (''error'', PStr msg)] s2)"

definition callback_key :: "process_definition \<Rightarrow> string" where
  "callback_key d = (if pd_purpose d = [] then pd_key d else pd_purpose d)"

definition complete_instance ::
  "'h wf_registry \<Rightarrow> instant \<Rightarrow> nat \<Rightarrow> process_definition \<Rightarrow> pyval \<Rightarrow> 'h wf_state
    \<Rightarrow> 'h wf_state result" where
  "complete_instance reg now iid d outcome s =
     (let s1 = set_instance iid
            (\<lambda>i. i\<lparr>pi_status := InCompleted, pi_outcome := Some outcome,
                   pi_completed_at := Some now, pi_current := None\<rparr>) s
      in rbind
           (case completion_callback reg (callback_key d) of
              None \<Rightarrow> Inr s1
            | Some cb \<Rightarrow>
                rbind (load_instance iid s1) (\<lambda>i.
                  rbind (cb i outcome s1) (\<lambda>h. Inr (s1\<lparr>ws_host := h\<rparr>))))
           (\<lambda>s2. Inr (emit reg (PStr ''process.completed'')
              [(''instance_id'', PInt (int iid)), (''process_key'', PStr (pd_key d)),
               (''outcome'', outcome)] s2)))"

text \<open>The next node, or the end of the walk: rejection, or an error.\<close>

definition advance_or_fail ::
  "'h wf_registry \<Rightarrow> instant \<Rightarrow> nat \<Rightarrow> process_definition \<Rightarrow> process_node \<Rightarrow> bool
    \<Rightarrow> 'h wf_state \<Rightarrow> (string option \<times> 'h wf_state) result" where
  "advance_or_fail reg now iid d n positive s =
     rbind (load_instance iid s) (\<lambda>i.
     rbind (select_next d (pn_key n) (pi_data i) positive) (\<lambda>nxt.
       case nxt of
         Some k \<Rightarrow> Inr (Some k, s)
       | None \<Rightarrow>
           if \<not> positive
           then rbind (complete_instance reg now iid d (PStr rejected_outcome) s)
                  (\<lambda>s'. Inr (None, s'))
           else Inr (None, fail_instance reg now iid None
                  (EngineError ''no_transition''
                     (''No transition matched from node '' @ quoted (pn_key n))) s)))"

subsection \<open>Approval and request-info nodes\<close>

definition setdefault_all :: "pyval \<Rightarrow> int list \<Rightarrow> (int \<times> pyval) list \<Rightarrow> (int \<times> pyval) list" where
  "setdefault_all via ms acc =
     fold (\<lambda>m acc. if m \<in> set (map fst acc) then acc else acc @ [(m, via)]) ms acc"

fun resolve_principals ::
  "'h wf_registry \<Rightarrow> 'h wf_state \<Rightarrow> process_instance \<Rightarrow> pyval list \<Rightarrow> (int \<times> pyval) list
    \<Rightarrow> (int \<times> pyval) list result" where
  "resolve_principals reg s i [] acc = Inr acc"
| "resolve_principals reg s i (p # ps) acc =
     rbind (resolve_assignees reg s p (pi_entity_type i) (pi_entity_id i)) (\<lambda>ms.
       resolve_principals reg s i ps (setdefault_all p ms acc))"

text \<open>Who is asked: the resolved members but the initiator, else the floor but the initiator.\<close>

definition approvers ::
  "'h wf_registry \<Rightarrow> 'h wf_state \<Rightarrow> process_instance \<Rightarrow> process_node
    \<Rightarrow> (int \<times> pyval) list result" where
  "approvers reg s i n =
     rbind (py_iter (config_get (pn_config n) ''principals'' (PList []))) (\<lambda>ps.
     rbind (resolve_principals reg s i ps []) (\<lambda>resolved.
       let others = filter (\<lambda>mv. Some (fst mv) \<noteq> pi_initiated_by i) resolved in
       if others \<noteq> [] then Inr others
       else rbind (resolve_floor reg s (pi_org_id i)) (\<lambda>floor.
              Inr (map (\<lambda>m. (m, PStr admin_floor))
                     (filter (\<lambda>m. Some m \<noteq> pi_initiated_by i) floor)))))"

definition add_assignee ::
  "nat \<Rightarrow> int \<times> pyval \<Rightarrow> int option \<Rightarrow> 'h wf_state \<Rightarrow> 'h wf_state" where
  "add_assignee eid mv from s =
     s\<lparr>ws_assignees := ws_assignees s @
         [\<lparr>na_id = ws_next_assignee s, na_execution_id = eid, na_member_id = fst mv,
           na_via = snd mv, na_status = AsRequested, na_reassigned_from = from\<rparr>],
       ws_next_assignee := Suc (ws_next_assignee s)\<rparr>"

definition add_info :: "nat \<Rightarrow> int \<Rightarrow> int \<Rightarrow> pyval \<Rightarrow> 'h wf_state \<Rightarrow> 'h wf_state" where
  "add_info eid asker askee question s =
     s\<lparr>ws_infos := ws_infos s @
         [\<lparr>ir_id = ws_next_info s, ir_execution_id = eid, ir_asked_by = asker, ir_asked_of = askee,
           ir_question = question, ir_answer = None, ir_status = IrPending,
           ir_answered_at = None\<rparr>],
       ws_next_info := Suc (ws_next_info s)\<rparr>"

definition activate_approval ::
  "'h wf_registry \<Rightarrow> instant \<Rightarrow> nat \<Rightarrow> nat \<Rightarrow> process_node \<Rightarrow> 'h wf_state
    \<Rightarrow> 'h wf_state result" where
  "activate_approval reg now iid eid n s =
     rbind (load_instance iid s) (\<lambda>i.
     rbind (approvers reg s i n) (\<lambda>resolved.
       if resolved = []
       then Inr (fail_instance reg now iid (Some eid)
              (EngineError ''empty_resolution''
                 (''No approver resolvable for node '' @ quoted (pn_key n))) s)
       else
         let sorted = sort_key fst resolved;
             s1 = fold (\<lambda>mv st. add_assignee eid mv None st) sorted s
         in Inr (emit reg (PStr ''approval.activated'')
              [(''instance_id'', PInt (int iid)), (''node_key'', PStr (pn_key n)),
               (''execution_id'', PInt (int eid)),
               (''assignee_member_ids'', PList (map (PInt \<circ> fst) sorted))] s1)))"

definition activate_request_info ::
  "'h wf_registry \<Rightarrow> instant \<Rightarrow> nat \<Rightarrow> nat \<Rightarrow> process_node \<Rightarrow> 'h wf_state
    \<Rightarrow> 'h wf_state result" where
  "activate_request_info reg now iid eid n s =
     rbind (load_instance iid s) (\<lambda>i.
     rbind (case dget (pn_config n) ''principal'' of
              None \<Rightarrow> Inl (KeyErrorExn ''principal'') | Some p \<Rightarrow> Inr p) (\<lambda>p.
     rbind (resolve_assignees reg s p (pi_entity_type i) (pi_entity_id i)) (\<lambda>ms.
     rbind (if ms = [] then resolve_floor reg s (pi_org_id i) else Inr ms) (\<lambda>members.
       if members = []
       then Inr (fail_instance reg now iid (Some eid)
              (EngineError ''empty_resolution'' (''Nobody resolvable for node '' @ quoted (pn_key n))) s)
       else
         rbind (case dget (pn_config n) ''prompt'' of
                  None \<Rightarrow> Inl (KeyErrorExn ''prompt'') | Some q \<Rightarrow> Inr q) (\<lambda>q.
           let asker = (case pi_initiated_by i of None \<Rightarrow> 0 | Some m \<Rightarrow> m);
               s1 = fold (\<lambda>m st. add_info eid asker m q (add_assignee eid (m, p) None st))
                      (sort members) s
           in Inr (emit reg (PStr ''info.requested'')
                [(''instance_id'', PInt (int iid)), (''node_key'', PStr (pn_key n))] s1))))))"

subsection \<open>The walk\<close>

definition rbind_fuel :: "'a result \<Rightarrow> ('a \<Rightarrow> 'b result option) \<Rightarrow> 'b result option" where
  "rbind_fuel r f = (case r of Inl e \<Rightarrow> Some (Inl e) | Inr x \<Rightarrow> f x)"

lemma rbind_fuel_simps [simp]:
  "rbind_fuel (Inl e) f = Some (Inl e)"
  "rbind_fuel (Inr x) f = f x"
  by (simp_all add: rbind_fuel_def)

lemma rbind_fuel_Inr_iff:
  "rbind_fuel r f = Some (Inr y) \<longleftrightarrow> (\<exists>x. r = Inr x \<and> f x = Some (Inr y))"
  by (cases r) simp_all

lemma rbind_fuel_None_iff: "rbind_fuel r f = None \<longleftrightarrow> (\<exists>x. r = Inr x \<and> f x = None)"
  by (cases r) simp_all

text \<open>
  What one pass of the loop does: \<open>Walk k\<close> names the next node to activate; \<open>Parked\<close> is a
  return (parked, completed or failed).
\<close>

datatype 'h walk = Walk string "'h wf_state" | Parked "'h wf_state"

definition walk_of :: "string option \<times> 'h wf_state \<Rightarrow> 'h walk" where
  "walk_of r = (case fst r of Some k \<Rightarrow> Walk k (snd r) | None \<Rightarrow> Parked (snd r))"

definition notify_event :: "nat \<Rightarrow> process_node \<Rightarrow> (pyval \<times> dict) result" where
  "notify_event iid n =
     (case or_empty (dget (pn_config n) ''params'') of
        PDict ps \<Rightarrow> Inr (config_get (pn_config n) ''event'' (PStr ''process.notify''),
                      dmerge [(''instance_id'', PInt (int iid))] ps)
      | _ \<Rightarrow> Inl (TypeErrorExn ''not a mapping''))"

text \<open>A system node: its handler's dict is merged into the data; a raise is the error state.\<close>

definition run_system ::
  "'h wf_registry \<Rightarrow> instant \<Rightarrow> nat \<Rightarrow> nat \<Rightarrow> process_definition \<Rightarrow> process_node
    \<Rightarrow> 'h wf_state \<Rightarrow> 'h walk result" where
  "run_system reg now iid eid d n s =
     rbind (get_system_handler reg (dget_or_none (pn_config n) ''handler_key'')) (\<lambda>handler.
     rbind (load_instance iid s) (\<lambda>i.
       case handler i s of
         (Inl exc, h) \<Rightarrow>
           Inr (Parked (fail_instance reg now iid (Some eid) exc (s\<lparr>ws_host := h\<rparr>)))
       | (Inr produced, h) \<Rightarrow>
           (case or_empty (Some produced) of
              PDict ps \<Rightarrow>
                (let s1 = set_instance iid (\<lambda>i. i\<lparr>pi_data := dmerge (pi_data i) ps\<rparr>)
                            (s\<lparr>ws_host := h\<rparr>);
                     s2 = complete_execution now eid
                            [(''produced'', PList (map PStr (sort (map fst ps))))] s1
                 in rbind (advance_or_fail reg now iid d n True s2) (\<lambda>r. Inr (walk_of r)))
            | _ \<Rightarrow> Inl (TypeErrorExn ''not a mapping''))))"

text \<open>The activation every node gets, and the branch on its type.\<close>

definition activate_node ::
  "'h wf_registry \<Rightarrow> nat \<Rightarrow> process_node \<Rightarrow> process_instance \<Rightarrow> 'h wf_state
    \<Rightarrow> nat \<times> 'h wf_state" where
  "activate_node reg iid n i s =
     (let s1 = set_instance iid (\<lambda>i. i\<lparr>pi_current := Some (pn_key n)\<rparr>) s;
          (e, s2) = new_execution i n s1
      in (ne_id e, emit reg (PStr ''node.activated'')
           [(''instance_id'', PInt (int iid)), (''node_key'', PStr (pn_key n)),
            (''type'', PStr (node_type_value (pn_type n))),
            (''execution_id'', PInt (int (ne_id e)))] s2))"

definition run_node ::
  "'h wf_registry \<Rightarrow> instant \<Rightarrow> nat \<Rightarrow> nat \<Rightarrow> process_definition \<Rightarrow> process_node
    \<Rightarrow> 'h wf_state \<Rightarrow> 'h walk result" where
  "run_node reg now iid eid d n s =
     (case pn_type n of
        NStart \<Rightarrow>
          rbind (advance_or_fail reg now iid d n True (complete_execution now eid [] s))
            (\<lambda>r. Inr (walk_of r))
      | NNotify \<Rightarrow>
          rbind (notify_event iid n) (\<lambda>(kind, payload).
            rbind (advance_or_fail reg now iid d n True
                     (complete_execution now eid [] (emit reg kind payload s)))
              (\<lambda>r. Inr (walk_of r)))
      | NSystem \<Rightarrow> run_system reg now iid eid d n s
      | NApproval \<Rightarrow> map_sum id Parked (activate_approval reg now iid eid n s)
      | NRequestInfo \<Rightarrow> map_sum id Parked (activate_request_info reg now iid eid n s)
      | NEnd \<Rightarrow>
          (case dget (pn_config n) ''outcome'' of
             None \<Rightarrow> Inl (KeyErrorExn ''outcome'')
           | Some outcome \<Rightarrow>
               map_sum id Parked
                 (complete_instance reg now iid d outcome (complete_execution now eid [] s))))"

definition walk_step ::
  "'h wf_registry \<Rightarrow> instant \<Rightarrow> nat \<Rightarrow> process_definition \<Rightarrow> string \<Rightarrow> 'h wf_state
    \<Rightarrow> 'h walk result" where
  "walk_step reg now iid d k s =
     (case node_by_key d k of
        None \<Rightarrow> Inl (EngineError ''bad_definition'' (''Unknown node '' @ py_repr k))
      | Some n \<Rightarrow>
          rbind (load_instance iid s) (\<lambda>i.
            let (eid, s1) = activate_node reg iid n i s
            in run_node reg now iid eid d n s1))"

fun run_from ::
  "nat \<Rightarrow> 'h wf_registry \<Rightarrow> instant \<Rightarrow> nat \<Rightarrow> process_definition \<Rightarrow> string \<Rightarrow> 'h wf_state
    \<Rightarrow> 'h wf_state result option" where
  "run_from 0 reg now iid d k s = None"
| "run_from (Suc fuel) reg now iid d k s =
     rbind_fuel (walk_step reg now iid d k s) (\<lambda>w.
       case w of
         Walk k' s' \<Rightarrow> run_from fuel reg now iid d k' s'
       | Parked s' \<Rightarrow> Some (Inr s'))"

definition resume ::
  "nat \<Rightarrow> 'h wf_registry \<Rightarrow> instant \<Rightarrow> nat \<Rightarrow> process_definition \<Rightarrow> string option \<times> 'h wf_state
    \<Rightarrow> 'h wf_state result option" where
  "resume fuel reg now iid d r =
     (case fst r of
        Some k \<Rightarrow> run_from fuel reg now iid d k (snd r)
      | None \<Rightarrow> Some (Inr (snd r)))"

lemma run_from_more_fuel:
  "run_from n reg now iid d k s = Some r \<Longrightarrow> n \<le> m \<Longrightarrow> run_from m reg now iid d k s = Some r"
proof (induction n arbitrary: m k s)
  case 0
  then show ?case by simp
next
  case (Suc n)
  from Suc.prems(2) obtain m' where m: "m = Suc m'" "n \<le> m'" by (cases m) auto
  show ?case
  proof (cases "walk_step reg now iid d k s")
    case (Inl e)
    with Suc.prems(1) m show ?thesis by simp
  next
    case (Inr w)
    with Suc m show ?thesis by (cases w) auto
  qed
qed

end
