(* ===== verification/WfOps.thy ===== *)
theory WfOps
  imports WfEngine
begin

text \<open>
  The operations of \<^verbatim>\<open>asas_workflow/engine.py\<close> a host calls: open, decide, ask, answer, cancel,
  retry and reassign, each one transaction.
\<close>

subsection \<open>Opening\<close>

definition configure_org_resolver ::
  "('h wf_state \<Rightarrow> int option) option \<Rightarrow> 'h wf_registry \<Rightarrow> 'h wf_registry" where
  "configure_org_resolver fn reg = reg\<lparr>rg_org := fn\<rparr>"

text \<open>The keyword arguments of \<open>open_instance\<close>; \<open>oa_org = None\<close> is the not-passed sentinel.\<close>

record open_args =
  oa_process_key :: "string option"
  oa_purpose :: "string option"
  oa_bound_to :: "(string \<times> int) option"
  oa_entity_type :: string
  oa_entity_id :: int
  oa_snapshot :: dict
  oa_data :: dict
  oa_initiated_by :: "int option"
  oa_supersedes :: "nat option"
  oa_org :: "int option option"

text \<open>\<open>process_key or purpose\<close>, as its \<open>repr\<close>.\<close>

definition open_label :: "open_args \<Rightarrow> string" where
  "open_label a =
     (case (oa_process_key a, oa_purpose a) of
        (Some (c # cs), _) \<Rightarrow> py_repr (c # cs)
      | (_, Some p) \<Rightarrow> py_repr p
      | (_, None) \<Rightarrow> ''None'')"

definition pick_definition :: "open_args \<Rightarrow> 'h wf_state \<Rightarrow> process_definition result" where
  "pick_definition a s =
     rbind (guard_r ((oa_process_key a = None) \<noteq> (oa_purpose a = None))
              (EngineError ''unknown_process'' ''Pass exactly one of process_key / purpose'')) (\<lambda>_.
       let found =
             (case oa_purpose a of
                Some p \<Rightarrow> resolve_definition s p (oa_bound_to a)
              | None \<Rightarrow> Option.bind (oa_process_key a) (get_active_definition s))
       in case found of
            None \<Rightarrow> Inl (EngineError ''unknown_process'' (''No active definition for '' @ open_label a))
          | Some d \<Rightarrow>
              rbind (guard_r (pd_entity_type d = oa_entity_type a)
                (EngineError ''entity_mismatch''
                   (''Process '' @ open_label a @ '' runs on '' @ py_repr (pd_entity_type d) @
                    '', got '' @ py_repr (oa_entity_type a))))
                (\<lambda>_. Inr d))"

definition instance_org :: "'h wf_registry \<Rightarrow> open_args \<Rightarrow> 'h wf_state \<Rightarrow> int option" where
  "instance_org reg a s =
     (case oa_org a of
        Some org \<Rightarrow> org
      | None \<Rightarrow> (case rg_org reg of None \<Rightarrow> None | Some f \<Rightarrow> f s))"

definition new_instance ::
  "'h wf_registry \<Rightarrow> open_args \<Rightarrow> process_definition \<Rightarrow> 'h wf_state
    \<Rightarrow> process_instance \<times> 'h wf_state" where
  "new_instance reg a d s =
     (let i = \<lparr>pi_id = ws_next_instance s, pi_org_id = instance_org reg a s,
               pi_definition_id = pd_id d, pi_entity_type = oa_entity_type a,
               pi_entity_id = oa_entity_id a, pi_subject_snapshot = oa_snapshot a,
               pi_data = oa_data a, pi_status = InRunning, pi_outcome = None, pi_current = None,
               pi_error = None, pi_initiated_by = oa_initiated_by a,
               pi_supersedes_id = oa_supersedes a, pi_completed_at = None\<rparr>
      in (i, s\<lparr>ws_instances := ws_instances s @ [i],
               ws_next_instance := Suc (ws_next_instance s)\<rparr>))"

definition opt_int :: "int option \<Rightarrow> pyval" where
  "opt_int v = (case v of None \<Rightarrow> PNone | Some n \<Rightarrow> PInt n)"

definition open_instance ::
  "nat \<Rightarrow> 'h wf_registry \<Rightarrow> instant \<Rightarrow> open_args \<Rightarrow> 'h wf_state
    \<Rightarrow> (nat \<times> 'h wf_state) result option" where
  "open_instance fuel reg now a s =
     rbind_fuel (pick_definition a s) (\<lambda>d.
       let (i, s1) = new_instance reg a d s;
           s2 = emit reg (PStr ''process.opened'')
                  [(''instance_id'', PInt (int (pi_id i))), (''process_key'', PStr (pd_key d)),
                   (''initiated_by'', opt_int (oa_initiated_by a))] s1
       in case first_where (\<lambda>n. pn_type n = NStart) (pd_nodes d) of
            None \<Rightarrow> Some (Inl (HostExn ''StopIteration'' []))
          | Some st \<Rightarrow>
              map_option (map_sum id (Pair (pi_id i)))
                (run_from fuel reg now (pi_id i) d (pn_key st) s2))"

subsection \<open>Deciding\<close>

definition require_running :: "process_instance \<Rightarrow> unit result" where
  "require_running i =
     guard_r (pi_status i = InRunning) (EngineError ''not_running'' (''Instance is '' @ instance_status_value (pi_status i)))"

definition active_of :: "nat \<Rightarrow> node_execution \<Rightarrow> bool" where
  "active_of iid e = (ne_instance_id e = iid \<and> ne_status e = ExActive)"

definition load_active_execution :: "nat \<Rightarrow> 'h wf_state \<Rightarrow> node_execution result" where
  "load_active_execution iid s =
     (case first_where (active_of iid) (ws_execs s) of
        Some e \<Rightarrow> Inr e
      | None \<Rightarrow> Inl (EngineError ''not_pending'' ''Instance has no active step awaiting action''))"

definition assignee_of :: "'h wf_state \<Rightarrow> nat \<Rightarrow> int \<Rightarrow> node_assignee option" where
  "assignee_of s eid actor =
     first_where (\<lambda>a. na_execution_id a = eid \<and> na_member_id a = actor \<and>
                     na_status a = AsRequested) (ws_assignees s)"

definition decisions_ix :: "node_decision list \<Rightarrow> bool" where
  "decisions_ix rows =
     distinct (map (\<lambda>d. (nd_execution_id d, nd_actor_id d))
       (filter (\<lambda>d. final_verdict (nd_verdict d)) rows))"

definition insert_decision ::
  "nat \<Rightarrow> int \<Rightarrow> verdict \<Rightarrow> string option \<Rightarrow> int option \<Rightarrow> 'h wf_state \<Rightarrow> 'h wf_state result" where
  "insert_decision eid actor v comment behalf s =
     (let row = \<lparr>nd_id = ws_next_decision s, nd_execution_id = eid, nd_actor_id = actor,
                 nd_on_behalf_of = behalf, nd_verdict = v, nd_comment = comment\<rparr>;
          rows = ws_decisions s @ [row]
      in if decisions_ix rows
         then Inr (s\<lparr>ws_decisions := rows, ws_next_decision := Suc (ws_next_decision s)\<rparr>)
         else Inl IntegrityError)"

definition mark_decided :: "node_assignee option \<Rightarrow> 'h wf_state \<Rightarrow> 'h wf_state" where
  "mark_decided asg s =
     (case asg of
        None \<Rightarrow> s
      | Some a \<Rightarrow> s\<lparr>ws_assignees := update_where (\<lambda>r. na_id r = na_id a)
                      (\<lambda>r. r\<lparr>na_status := AsDecided\<rparr>) (ws_assignees s)\<rparr>)"

definition all_assignees_decided_positive :: "'h wf_state \<Rightarrow> nat \<Rightarrow> bool" where
  "all_assignees_decided_positive s eid =
     list_all (\<lambda>a. na_execution_id a = eid \<and> na_status a \<noteq> AsNotRequired \<longrightarrow>
         exists_where (\<lambda>d. nd_execution_id d = eid \<and> nd_verdict d = VPositive \<and>
                           nd_actor_id d = na_member_id a) (ws_decisions s))
       (ws_assignees s)"

text \<open>Everything \<open>decide\<close> checks before it writes, in the code's order.\<close>

definition decide_checks ::
  "nat \<Rightarrow> int \<Rightarrow> verdict \<Rightarrow> string option \<Rightarrow> bool \<Rightarrow> 'h wf_state
    \<Rightarrow> (process_instance \<times> node_execution \<times> node_assignee option) result" where
  "decide_checks iid actor v comment admin s =
     rbind (load_instance iid s) (\<lambda>i.
     rbind (require_running i) (\<lambda>_.
     rbind (load_active_execution iid s) (\<lambda>e.
     rbind (guard_r (ne_node_type e = NApproval)
              (EngineError ''not_approval'' ''The active step is not an approval'')) (\<lambda>_.
     rbind (guard_r (final_verdict v)
              (EngineError ''bad_verdict'' ''decide() takes a final verdict; use request_info()'')) (\<lambda>_.
     rbind (guard_r (pi_initiated_by i \<noteq> Some actor)
              (EngineError ''self_approval'' ''The initiator cannot decide their own request'')) (\<lambda>_.
     rbind (guard_r (assignee_of s (ne_id e) actor \<noteq> None \<or> admin)
              (EngineError ''not_assignee'' ''Not asked to decide this step'')) (\<lambda>_.
     rbind (guard_r (v \<noteq> VNegative \<or> \<not> blank (case comment of None \<Rightarrow> [] | Some c \<Rightarrow> c))
              (EngineError ''comment_required'' ''A comment is required when rejecting'')) (\<lambda>_.
       Inr (i, e, assignee_of s (ne_id e) actor)))))))))"

definition finish_approval ::
  "nat \<Rightarrow> 'h wf_registry \<Rightarrow> instant \<Rightarrow> nat \<Rightarrow> process_definition \<Rightarrow> process_node \<Rightarrow> nat
    \<Rightarrow> verdict \<Rightarrow> int \<Rightarrow> 'h wf_state \<Rightarrow> 'h wf_state result option" where
  "finish_approval fuel reg now iid d n eid v actor s =
     (let res = [(''verdict'', PStr (verdict_value v)), (''decided_by'', PInt actor)];
          s1 = complete_execution now eid res s
      in rbind_fuel (load_instance iid s1) (\<lambda>i.
         rbind_fuel (merge_result (pi_data i) (pn_key n) res) (\<lambda>data.
         rbind_fuel (advance_or_fail reg now iid d n (v = VPositive)
                       (set_instance iid (\<lambda>r. r\<lparr>pi_data := data\<rparr>) s1))
           (resume fuel reg now iid d))))"

definition quorum_any :: "process_node \<Rightarrow> bool" where
  "quorum_any n = (config_get (pn_config n) ''quorum'' (PStr ''any'') = PStr ''any'')"

definition decide ::
  "nat \<Rightarrow> 'h wf_registry \<Rightarrow> instant \<Rightarrow> nat \<Rightarrow> int \<Rightarrow> verdict \<Rightarrow> string option \<Rightarrow> bool
    \<Rightarrow> int option \<Rightarrow> 'h wf_state \<Rightarrow> 'h wf_state result option" where
  "decide fuel reg now iid actor v comment admin behalf s =
     rbind_fuel (decide_checks iid actor v comment admin s) (\<lambda>(i, e, asg).
     rbind_fuel (insert_decision (ne_id e) actor v comment behalf s) (\<lambda>s1.
       let s2 = mark_decided asg s1 in
     rbind_fuel (definition_of s2 i) (\<lambda>d.
       case node_by_key d (ne_node_key e) of
         None \<Rightarrow> Some (Inl (KeyErrorExn (ne_node_key e)))
       | Some n \<Rightarrow>
           if v = VNegative \<or> quorum_any n \<or> all_assignees_decided_positive s2 (ne_id e)
           then finish_approval fuel reg now iid d n (ne_id e) v actor s2
           else Some (Inr s2))))"

text \<open>The latest final verdict recorded on any execution of the instance.\<close>

definition final_decision_of ::
  "'h wf_state \<Rightarrow> nat \<Rightarrow> int option \<times> string option" where
  "final_decision_of s iid =
     (case least_by (\<lambda>d. - int (nd_id d))
             (filter (\<lambda>d. final_verdict (nd_verdict d) \<and>
                exists_where (\<lambda>e. ne_id e = nd_execution_id d \<and> ne_instance_id e = iid)
                  (ws_execs s)) (ws_decisions s)) of
        None \<Rightarrow> (None, None)
      | Some d \<Rightarrow> (Some (nd_actor_id d), nd_comment d))"

subsection \<open>Asking and answering\<close>

definition request_info ::
  "'h wf_registry \<Rightarrow> nat \<Rightarrow> int \<Rightarrow> int \<Rightarrow> string \<Rightarrow> bool \<Rightarrow> 'h wf_state
    \<Rightarrow> (nat \<times> 'h wf_state) result" where
  "request_info reg iid actor askee question admin s =
     rbind (load_instance iid s) (\<lambda>i.
     rbind (require_running i) (\<lambda>_.
     rbind (load_active_execution iid s) (\<lambda>e.
     rbind (guard_r (ne_node_type e = NApproval)
              (EngineError ''not_approval'' ''The active step is not an approval'')) (\<lambda>_.
     rbind (definition_of s i) (\<lambda>d.
     rbind (case node_by_key d (ne_node_key e) of
              None \<Rightarrow> Inl (KeyErrorExn (ne_node_key e)) | Some n \<Rightarrow> Inr n) (\<lambda>n.
     rbind (guard_r (truthy (config_get (pn_config n) ''allow_request_info'' (PBool True)))
              (EngineError ''not_allowed'' ''This step does not allow requesting information'')) (\<lambda>_.
     rbind (guard_r (assignee_of s (ne_id e) actor \<noteq> None \<or> admin)
              (EngineError ''not_assignee'' ''Not asked to decide this step'')) (\<lambda>_.
     rbind (guard_r (\<not> blank question)
              (EngineError ''question_required'' ''A question is required'')) (\<lambda>_.
     rbind (insert_decision (ne_id e) actor VRequestInfo (Some question) None s) (\<lambda>s1.
       let ask = ws_next_info s1;
           s2 = add_info (ne_id e) actor askee (PStr question) s1
       in Inr (ask, emit reg (PStr ''info.requested'')
                [(''instance_id'', PInt (int iid)), (''info_request_id'', PInt (int ask)),
                 (''asked_of'', PInt askee)] s2)))))))))))"

definition load_info :: "nat \<Rightarrow> 'h wf_state \<Rightarrow> info_request result" where
  "load_info aid s =
     (case row_by ir_id aid (ws_infos s) of Some r \<Rightarrow> Inr r | None \<Rightarrow> Inl missing_row)"

definition append_answer ::
  "dict \<Rightarrow> string \<Rightarrow> pyval \<Rightarrow> string \<Rightarrow> int \<Rightarrow> dict result" where
  "append_answer data node_key question answer actor =
     rbind (case dget data ''info_requests'' of
              None \<Rightarrow> Inr []
            | Some v \<Rightarrow> if truthy v then py_iter v else Inr []) (\<lambda>answers.
       Inr (dset data ''info_requests'' (PList (answers @
         [PDict [(''node_key'', PStr node_key), (''question'', question),
                 (''answer'', PStr answer), (''answered_by'', PInt actor)]]))))"

text \<open>The standalone node: the first answer completes it and the walk goes on.\<close>

definition finish_request_info ::
  "nat \<Rightarrow> 'h wf_registry \<Rightarrow> instant \<Rightarrow> nat \<Rightarrow> node_execution \<Rightarrow> string \<Rightarrow> int \<Rightarrow> 'h wf_state
    \<Rightarrow> 'h wf_state result option" where
  "finish_request_info fuel reg now iid e answer actor s =
     rbind_fuel (load_instance iid s) (\<lambda>i.
     rbind_fuel (definition_of s i) (\<lambda>d.
       case node_by_key d (ne_node_key e) of
         None \<Rightarrow> Some (Inl (KeyErrorExn (ne_node_key e)))
       | Some n \<Rightarrow>
           (let res = [(''answer'', PStr answer), (''answered_by'', PInt actor)];
                s1 = complete_execution now (ne_id e) res s
            in rbind_fuel (merge_result (pi_data i) (pn_key n) res) (\<lambda>data.
               rbind_fuel (advance_or_fail reg now iid d n True
                             (set_instance iid (\<lambda>r. r\<lparr>pi_data := data\<rparr>) s1))
                 (resume fuel reg now iid d)))))"

definition answer_info ::
  "nat \<Rightarrow> 'h wf_registry \<Rightarrow> instant \<Rightarrow> nat \<Rightarrow> int \<Rightarrow> string \<Rightarrow> bool \<Rightarrow> 'h wf_state
    \<Rightarrow> 'h wf_state result option" where
  "answer_info fuel reg now aid actor answer admin s =
     rbind_fuel (load_info aid s) (\<lambda>ask.
     rbind_fuel (guard_r (ir_status ask = IrPending)
              (EngineError ''not_pending'' (''Info request is '' @ info_status_value (ir_status ask)))) (\<lambda>_.
     rbind_fuel (guard_r (actor = ir_asked_of ask \<or> admin)
              (EngineError ''not_asked'' ''Only the asked member can answer'')) (\<lambda>_.
     rbind_fuel (guard_r (\<not> blank answer)
              (EngineError ''answer_required'' ''An answer is required'')) (\<lambda>_.
     rbind_fuel (load_execution (ir_execution_id ask) s) (\<lambda>e.
     rbind_fuel (load_instance (ne_instance_id e) s) (\<lambda>i.
     rbind_fuel (require_running i) (\<lambda>_.
     rbind_fuel (append_answer (pi_data i) (ne_node_key e) (ir_question ask) answer actor) (\<lambda>data.
       let s1 = s\<lparr>ws_infos := update_where (\<lambda>r. ir_id r = aid)
                    (\<lambda>r. r\<lparr>ir_answer := Some answer, ir_status := IrAnswered,
                           ir_answered_at := Some now\<rparr>) (ws_infos s)\<rparr>;
           s2 = set_instance (pi_id i) (\<lambda>r. r\<lparr>pi_data := data\<rparr>) s1
       in map_option (map_sum id (emit reg (PStr ''info.answered'')
              [(''instance_id'', PInt (int (pi_id i))), (''info_request_id'', PInt (int aid))]))
            (if ne_node_type e = NRequestInfo
             then finish_request_info fuel reg now (pi_id i) e answer actor s2
             else Some (Inr s2))))))))))"

subsection \<open>Cancel, retry, reassign\<close>

definition cancel ::
  "'h wf_registry \<Rightarrow> instant \<Rightarrow> nat \<Rightarrow> int \<Rightarrow> bool \<Rightarrow> 'h wf_state \<Rightarrow> 'h wf_state result" where
  "cancel reg now iid actor admin s =
     rbind (load_instance iid s) (\<lambda>i.
     rbind (require_running i) (\<lambda>_.
     rbind (guard_r (pi_initiated_by i = Some actor \<or> admin)
              (EngineError ''not_initiator'' ''Only the initiator (or an admin) can cancel'')) (\<lambda>_.
       let act = filter (active_of iid) (ws_execs s);
           s1 = fold (\<lambda>e st. complete_execution now (ne_id e) [(''canceled'', PBool True)] st) act s;
           s2 = set_instance iid (\<lambda>r. r\<lparr>pi_status := InCanceled, pi_completed_at := Some now,
                                        pi_current := None\<rparr>) s1
       in Inr (emit reg (PStr ''process.canceled'')
                 [(''instance_id'', PInt (int iid)), (''by'', PInt actor)] s2))))"

definition retry ::
  "nat \<Rightarrow> 'h wf_registry \<Rightarrow> instant \<Rightarrow> nat \<Rightarrow> 'h wf_state \<Rightarrow> 'h wf_state result option" where
  "retry fuel reg now iid s =
     rbind_fuel (load_instance iid s) (\<lambda>i.
     rbind_fuel (guard_r (pi_status i = InError)
              (EngineError ''not_error''
                 (''Instance is '' @ instance_status_value (pi_status i) @ '', not error''))) (\<lambda>_.
     rbind_fuel (definition_of s i) (\<lambda>d.
       case pi_current i of
         None \<Rightarrow> Some (Inl (EngineError ''no_node'' ''Errored instance has no current node''))
       | Some k \<Rightarrow>
           run_from fuel reg now iid d k
             (set_instance iid (\<lambda>r. r\<lparr>pi_status := InRunning, pi_error := None\<rparr>) s))))"

definition reassign ::
  "nat \<Rightarrow> int \<Rightarrow> 'h wf_state \<Rightarrow> (nat \<times> 'h wf_state) result" where
  "reassign aid new_member s =
     (case row_by na_id aid (ws_assignees s) of
        None \<Rightarrow> Inl missing_row
      | Some a \<Rightarrow>
          rbind (guard_r (na_status a = AsRequested)
                   (EngineError ''not_pending'' (''Assignee is '' @ assignee_status_value (na_status a)))) (\<lambda>_.
          rbind (load_execution (na_execution_id a) s) (\<lambda>e.
          rbind (guard_r (ne_status e = ExActive)
                   (EngineError ''not_pending'' ''The step is no longer active'')) (\<lambda>_.
            let s1 = s\<lparr>ws_assignees := update_where (\<lambda>r. na_id r = aid)
                         (\<lambda>r. r\<lparr>na_status := AsNotRequired\<rparr>) (ws_assignees s)\<rparr>
            in Inr (ws_next_assignee s1,
                    add_assignee (ne_id e) (new_member, na_via a) (Some (na_member_id a)) s1)))))"

end
