(* ===== verification/WfInvariant.thy ===== *)
theory WfInvariant
  imports WfOps
begin

text \<open>
  The consistency of the instance tables, and that every operation of the engine keeps it: ids and
  references, at most one final verdict per actor and execution, no verdict by the initiator,
  a recorded decision behind every decided approval, open asks only on active executions, and one
  active execution, at the current node, for every running instance.
\<close>

named_theorems wf_defs \<open>the invariant's parts\<close>
named_theorems wf_inv_intros \<open>the engine's primitives keep the invariant's parts\<close>

subsection \<open>The invariant\<close>

definition exec_live :: "'h wf_state \<Rightarrow> nat \<Rightarrow> bool" where
  "exec_live s eid = exists_where (\<lambda>e. ne_id e = eid \<and> ne_status e = ExActive) (ws_execs s)"

definition ids_inv :: "'h wf_state \<Rightarrow> bool" where
  "ids_inv s \<longleftrightarrow>
     distinct (map pi_id (ws_instances s)) \<and>
     (\<forall>i\<in>set (ws_instances s). pi_id i < ws_next_instance s) \<and>
     distinct (map ne_id (ws_execs s)) \<and>
     (\<forall>e\<in>set (ws_execs s). ne_id e < ws_next_exec s \<and> ne_instance_id e \<in> pi_id ` set (ws_instances s)) \<and>
     distinct (map na_id (ws_assignees s)) \<and>
     (\<forall>a\<in>set (ws_assignees s). na_id a < ws_next_assignee s \<and> na_execution_id a \<in> ne_id ` set (ws_execs s)) \<and>
     distinct (map nd_id (ws_decisions s)) \<and>
     (\<forall>d\<in>set (ws_decisions s). nd_id d < ws_next_decision s \<and> nd_execution_id d \<in> ne_id ` set (ws_execs s)) \<and>
     distinct (map ir_id (ws_infos s)) \<and>
     (\<forall>r\<in>set (ws_infos s). ir_id r < ws_next_info s \<and> ir_execution_id r \<in> ne_id ` set (ws_execs s))"

definition asks_inv :: "'h wf_state \<Rightarrow> bool" where
  "asks_inv s \<longleftrightarrow>
     (\<forall>a\<in>set (ws_assignees s). na_status a = AsRequested \<longrightarrow> exec_live s (na_execution_id a)) \<and>
     (\<forall>r\<in>set (ws_infos s). ir_status r = IrPending \<longrightarrow> exec_live s (ir_execution_id r))"

definition verdict_inv :: "'h wf_state \<Rightarrow> bool" where
  "verdict_inv s \<longleftrightarrow>
     decisions_ix (ws_decisions s) \<and>
     (\<forall>d\<in>set (ws_decisions s). \<forall>e\<in>set (ws_execs s). \<forall>i\<in>set (ws_instances s).
        final_verdict (nd_verdict d) \<and> ne_id e = nd_execution_id d \<and> pi_id i = ne_instance_id e
        \<longrightarrow> pi_initiated_by i \<noteq> Some (nd_actor_id d) \<and> ne_node_type e = NApproval)"

definition verdict_result :: "verdict \<Rightarrow> int \<Rightarrow> dict" where
  "verdict_result v actor = [(''verdict'', PStr (verdict_value v)), (''decided_by'', PInt actor)]"

definition result_backed :: "'h wf_state \<Rightarrow> nat \<Rightarrow> dict \<Rightarrow> bool" where
  "result_backed s eid res \<longleftrightarrow>
     res = [(''canceled'', PBool True)] \<or>
     (\<exists>d\<in>set (ws_decisions s). nd_execution_id d = eid \<and> final_verdict (nd_verdict d) \<and>
        res = verdict_result (nd_verdict d) (nd_actor_id d))"

definition result_inv :: "'h wf_state \<Rightarrow> bool" where
  "result_inv s \<longleftrightarrow>
     (\<forall>e\<in>set (ws_execs s). ne_status e = ExCompleted \<and> ne_node_type e = NApproval
        \<longrightarrow> result_backed s (ne_id e) (ne_result e))"

definition parkable :: "node_type \<Rightarrow> bool" where
  "parkable t = (t = NApproval \<or> t = NRequestInfo)"

definition parked :: "'h wf_state \<Rightarrow> node_execution \<Rightarrow> bool" where
  "parked s e \<longleftrightarrow> parkable (ne_node_type e) \<and>
     (\<exists>i\<in>set (ws_instances s). pi_id i = ne_instance_id e \<and> pi_status i = InRunning \<and>
        pi_current i = Some (ne_node_key e))"

text \<open>\<open>settled x\<close>: the instances outside \<open>x\<close> are at rest.\<close>

definition settled :: "nat set \<Rightarrow> 'h wf_state \<Rightarrow> bool" where
  "settled x s \<longleftrightarrow>
     (\<forall>i\<in>set (ws_instances s). pi_id i \<notin> x \<and> pi_status i = InRunning \<longrightarrow>
        (\<exists>!e. e \<in> set (ws_execs s) \<and> active_of (pi_id i) e)) \<and>
     (\<forall>e\<in>set (ws_execs s). ne_status e = ExActive \<and> ne_instance_id e \<notin> x \<longrightarrow> parked s e)"

definition tables_inv :: "'h wf_state \<Rightarrow> bool" where
  "tables_inv s \<longleftrightarrow> ids_inv s \<and> asks_inv s \<and> verdict_inv s \<and> result_inv s"

definition wf_inv :: "'h wf_state \<Rightarrow> bool" where
  "wf_inv s \<longleftrightarrow> tables_inv s \<and> settled {} s"

lemmas wf_unfold = ids_inv_def asks_inv_def verdict_inv_def result_inv_def result_backed_def
  settled_def parked_def exec_live_def exists_where_iff active_of_def

text \<open>The host's part of the state does not matter, nor do definitions and bindings.\<close>

lemma inv_host [simp]:
  "ids_inv (s\<lparr>ws_host := h\<rparr>) = ids_inv s" "asks_inv (s\<lparr>ws_host := h\<rparr>) = asks_inv s"
  "verdict_inv (s\<lparr>ws_host := h\<rparr>) = verdict_inv s" "result_inv (s\<lparr>ws_host := h\<rparr>) = result_inv s"
  "settled x (s\<lparr>ws_host := h\<rparr>) = settled x s" "tables_inv (s\<lparr>ws_host := h\<rparr>) = tables_inv s"
  "wf_inv (s\<lparr>ws_host := h\<rparr>) = wf_inv s"
  by (simp_all add: wf_unfold tables_inv_def wf_inv_def)

lemma inv_emit [simp]:
  "tables_inv (emit reg k p s) = tables_inv s" "settled x (emit reg k p s) = settled x s"
  "wf_inv (emit reg k p s) = wf_inv s"
  using emit_host_only [of reg k p s] by auto

subsection \<open>Where the walk of one instance stands\<close>

definition walking :: "nat \<Rightarrow> 'h wf_state \<Rightarrow> bool" where
  "walking x s \<longleftrightarrow> tables_inv s \<and> settled {x} s"

definition the_instance :: "nat \<Rightarrow> (process_instance \<Rightarrow> bool) \<Rightarrow> 'h wf_state \<Rightarrow> bool" where
  "the_instance x P s \<longleftrightarrow> (\<exists>i\<in>set (ws_instances s). pi_id i = x \<and> P i)"

definition no_active :: "nat \<Rightarrow> 'h wf_state \<Rightarrow> bool" where
  "no_active x s \<longleftrightarrow> (\<forall>e\<in>set (ws_execs s). \<not> active_of x e)"

definition idle :: "nat \<Rightarrow> 'h wf_state \<Rightarrow> bool" where
  "idle x s \<longleftrightarrow> the_instance x (\<lambda>i. pi_status i = InRunning) s \<and> no_active x s"

definition stopped :: "nat \<Rightarrow> 'h wf_state \<Rightarrow> bool" where
  "stopped x s \<longleftrightarrow> the_instance x (\<lambda>i. pi_status i \<noteq> InRunning) s \<and> no_active x s"

definition busy :: "nat \<Rightarrow> nat \<Rightarrow> string \<Rightarrow> node_type \<Rightarrow> 'h wf_state \<Rightarrow> bool" where
  "busy x eid k t s \<longleftrightarrow>
     the_instance x (\<lambda>i. pi_status i = InRunning \<and> pi_current i = Some k) s \<and>
     (\<exists>e\<in>set (ws_execs s). ne_id e = eid \<and> active_of x e \<and> ne_node_key e = k \<and> ne_node_type e = t) \<and>
     (\<forall>e\<in>set (ws_execs s). active_of x e \<longrightarrow> ne_id e = eid)"

definition unasked :: "nat \<Rightarrow> 'h wf_state \<Rightarrow> bool" where
  "unasked eid s \<longleftrightarrow>
     (\<forall>a\<in>set (ws_assignees s). na_execution_id a \<noteq> eid) \<and>
     (\<forall>r\<in>set (ws_infos s). ir_execution_id r \<noteq> eid)"

lemmas local_unfold = the_instance_def no_active_def idle_def stopped_def busy_def unasked_def

lemma local_host [simp]:
  "idle x (s\<lparr>ws_host := h\<rparr>) = idle x s" "stopped x (s\<lparr>ws_host := h\<rparr>) = stopped x s"
  "busy x eid k t (s\<lparr>ws_host := h\<rparr>) = busy x eid k t s"
  "unasked eid (s\<lparr>ws_host := h\<rparr>) = unasked eid s" "walking x (s\<lparr>ws_host := h\<rparr>) = walking x s"
  by (simp_all add: local_unfold walking_def)

lemma local_emit [simp]:
  "idle x (emit reg k p s) = idle x s" "stopped x (emit reg k p s) = stopped x s"
  "busy x eid k' t (emit reg k p s) = busy x eid k' t s"
  "unasked eid (emit reg k p s) = unasked eid s" "walking x (emit reg k p s) = walking x s"
  using emit_host_only [of reg k p s] by auto

lemma the_instance_unique:
  assumes "ids_inv s" "i \<in> set (ws_instances s)" "j \<in> set (ws_instances s)" "pi_id i = pi_id j"
  shows "i = j"
  using assms by (auto simp: ids_inv_def distinct_map dest: inj_onD)

lemma the_exec_unique:
  assumes "ids_inv s" "i \<in> set (ws_execs s)" "j \<in> set (ws_execs s)" "ne_id i = ne_id j"
  shows "i = j"
  using assms by (auto simp: ids_inv_def distinct_map dest: inj_onD)

lemma load_instance_Inr:
  assumes "ids_inv s"
  shows "load_instance x s = Inr i \<longleftrightarrow> i \<in> set (ws_instances s) \<and> pi_id i = x"
proof
  assume "load_instance x s = Inr i"
  then show "i \<in> set (ws_instances s) \<and> pi_id i = x"
    by (auto simp: load_instance_def split: option.splits dest: row_by_Some_iff)
next
  assume "i \<in> set (ws_instances s) \<and> pi_id i = x"
  with assms row_by_distinct [of pi_id "ws_instances s" i] show "load_instance x s = Inr i"
    by (auto simp: load_instance_def ids_inv_def)
qed

lemma busyD:
  assumes "busy x eid k t s"
  shows "the_instance x (\<lambda>i. pi_status i = InRunning \<and> pi_current i = Some k) s"
    and "\<exists>e\<in>set (ws_execs s). ne_id e = eid \<and> active_of x e \<and> ne_node_key e = k \<and> ne_node_type e = t"
    and "e \<in> set (ws_execs s) \<Longrightarrow> active_of x e \<Longrightarrow> ne_id e = eid"
proof -
  from assms show "the_instance x (\<lambda>i. pi_status i = InRunning \<and> pi_current i = Some k) s"
    unfolding busy_def by (elim conjE)
  from assms show "\<exists>e\<in>set (ws_execs s). ne_id e = eid \<and> active_of x e \<and> ne_node_key e = k \<and> ne_node_type e = t"
    unfolding busy_def by (elim conjE)
  assume "e \<in> set (ws_execs s)" "active_of x e"
  with assms show "ne_id e = eid" unfolding busy_def by (elim conjE) (drule (1) bspec, drule (1) mp)
qed

lemma settled_all:
  assumes "ids_inv s" "settled {x} s" "stopped x s \<or> (\<exists>eid k t. busy x eid k t s \<and> parkable t)"
  shows "settled {} s"
  unfolding settled_def
proof (intro conjI ballI impI)
  fix i assume i: "i \<in> set (ws_instances s)" "pi_id i \<notin> {} \<and> pi_status i = InRunning"
  show "\<exists>!e. e \<in> set (ws_execs s) \<and> active_of (pi_id i) e"
  proof (cases "pi_id i = x")
    case False
    with assms(2) i show ?thesis by (auto simp: settled_def)
  next
    case True
    have "\<not> stopped x s"
    proof
      assume "stopped x s"
      then obtain j where "j \<in> set (ws_instances s)" "pi_id j = x" "pi_status j \<noteq> InRunning"
        by (auto simp: stopped_def the_instance_def)
      with i True show False by (metis the_instance_unique [OF assms(1)])
    qed
    with assms(3) obtain eid k t where b: "busy x eid k t s" by blast
    from busyD(2) [OF b] obtain e where e: "e \<in> set (ws_execs s)" "ne_id e = eid" "active_of x e"
      by auto
    have uniq: "e' = e" if "e' \<in> set (ws_execs s)" "active_of x e'" for e'
    proof (rule the_exec_unique [OF assms(1) that(1) e(1)])
      show "ne_id e' = ne_id e" using busyD(3) [OF b that] e(2) by simp
    qed
    show ?thesis
    proof (rule ex1I [of _ e])
      show "e \<in> set (ws_execs s) \<and> active_of (pi_id i) e" using e(1,3) True by simp
      fix e' assume "e' \<in> set (ws_execs s) \<and> active_of (pi_id i) e'"
      then show "e' = e" using uniq [of e'] True by simp
    qed
  qed
next
  fix e assume e: "e \<in> set (ws_execs s)" "ne_status e = ExActive \<and> ne_instance_id e \<notin> {}"
  show "parked s e"
  proof (cases "ne_instance_id e = x")
    case False
    with assms(2) e show ?thesis by (auto simp: settled_def)
  next
    case True
    with e have act: "active_of x e" by (simp add: active_of_def)
    with e assms(3) obtain eid k t where b: "busy x eid k t s" "parkable t"
      by (auto simp: stopped_def no_active_def)
    from busyD(2) [OF b(1)] obtain e' where e': "e' \<in> set (ws_execs s)" "ne_id e' = eid"
      "ne_node_key e' = k" "ne_node_type e' = t" by auto
    have "e = e'"
    proof (rule the_exec_unique [OF assms(1) e(1) e'(1)])
      show "ne_id e = ne_id e'" using busyD(3) [OF b(1) e(1) act] e'(2) by simp
    qed
    with busyD(1) [OF b(1)] b(2) e'(3,4) True show ?thesis
      by (auto simp: parked_def the_instance_def)
  qed
qed

lemma walking_rest:
  assumes "walking x s" "stopped x s \<or> (\<exists>eid k t. busy x eid k t s \<and> parkable t)"
  shows "wf_inv s"
  using assms settled_all [of s x] by (simp add: walking_def wf_inv_def tables_inv_def)

lemma wf_inv_walking: "wf_inv s \<Longrightarrow> walking x s"
  by (auto simp: wf_inv_def walking_def settled_def)

lemma wf_inv_idle:
  assumes "wf_inv s" "i \<in> set (ws_instances s)" "pi_status i \<noteq> InRunning"
  shows "stopped (pi_id i) s"
proof -
  have "\<not> active_of (pi_id i) e" if "e \<in> set (ws_execs s)" for e
  proof
    assume "active_of (pi_id i) e"
    with that assms(1) obtain j where "j \<in> set (ws_instances s)" "pi_id j = pi_id i"
      "pi_status j = InRunning"
      by (auto simp: wf_inv_def settled_def parked_def active_of_def)
    with assms show False by (metis the_instance_unique wf_inv_def tables_inv_def)
  qed
  with assms show ?thesis by (auto simp: local_unfold)
qed

lemma wf_inv_busy:
  assumes "wf_inv s" "e \<in> set (ws_execs s)" "active_of x e"
  shows "busy x (ne_id e) (ne_node_key e) (ne_node_type e) s" "parkable (ne_node_type e)"
proof -
  from assms have p: "parked s e" by (auto simp: wf_inv_def settled_def active_of_def)
  then show "parkable (ne_node_type e)" by (simp add: parked_def)
  from p assms(3) obtain i where i: "i \<in> set (ws_instances s)" "pi_id i = x"
    "pi_status i = InRunning" "pi_current i = Some (ne_node_key e)"
    by (auto simp: parked_def active_of_def)
  with assms(1) have "\<exists>!e. e \<in> set (ws_execs s) \<and> active_of x e"
    by (auto simp: wf_inv_def settled_def)
  with assms i show "busy x (ne_id e) (ne_node_key e) (ne_node_type e) s"
    unfolding busy_def the_instance_def by (metis (no_types, lifting))
qed


text \<open>
  The primitives of the walk keep the consistency of the tables while one instance, \<open>x\<close>, is on its
  way (\<open>walking x\<close>), and move it between idle, busy at one execution, and stopped.
\<close>

lemma walkingI:
  "ids_inv s \<Longrightarrow> asks_inv s \<Longrightarrow> verdict_inv s \<Longrightarrow> result_inv s \<Longrightarrow> settled {x} s \<Longrightarrow> walking x s"
  by (simp add: walking_def tables_inv_def)

lemma walkingD:
  assumes "walking x s"
  shows "ids_inv s" "asks_inv s" "verdict_inv s" "result_inv s" "settled {x} s"
  using assms by (simp_all add: walking_def tables_inv_def)

lemma ids_invD:
  assumes "ids_inv s"
  shows "a \<in> set (ws_assignees s) \<Longrightarrow> na_execution_id a \<in> ne_id ` set (ws_execs s)"
    and "r \<in> set (ws_infos s) \<Longrightarrow> ir_execution_id r \<in> ne_id ` set (ws_execs s)"
    and "d \<in> set (ws_decisions s) \<Longrightarrow> nd_execution_id d \<in> ne_id ` set (ws_execs s)"
    and "e \<in> set (ws_execs s) \<Longrightarrow> ne_instance_id e \<in> pi_id ` set (ws_instances s)"
  using assms by (simp_all add: ids_inv_def)

lemma verdict_inv_cong:
  assumes "ws_decisions t = ws_decisions s" "ws_execs t = ws_execs s" "ws_instances t = ws_instances s"
  shows "verdict_inv t = verdict_inv s"
  unfolding verdict_inv_def assms ..

lemma result_inv_cong:
  assumes "ws_decisions t = ws_decisions s" "ws_execs t = ws_execs s"
  shows "result_inv t = result_inv s"
  unfolding result_inv_def result_backed_def assms ..

lemma settled_cong:
  assumes "ws_execs t = ws_execs s" "ws_instances t = ws_instances s"
  shows "settled x t = settled x s"
  unfolding settled_def parked_def assms ..

subsection \<open>The instance row\<close>

definition keeps_identity :: "(process_instance \<Rightarrow> process_instance) \<Rightarrow> bool" where
  "keeps_identity f \<longleftrightarrow>
     (\<forall>i. pi_id (f i) = pi_id i \<and> pi_initiated_by (f i) = pi_initiated_by i)"

lemma set_instance_fields [simp]:
  "ws_execs (set_instance x f s) = ws_execs s" "ws_assignees (set_instance x f s) = ws_assignees s"
  "ws_decisions (set_instance x f s) = ws_decisions s" "ws_infos (set_instance x f s) = ws_infos s"
  "ws_defs (set_instance x f s) = ws_defs s"
  "ws_next_instance (set_instance x f s) = ws_next_instance s"
  "ws_next_exec (set_instance x f s) = ws_next_exec s"
  "ws_next_assignee (set_instance x f s) = ws_next_assignee s"
  "ws_next_decision (set_instance x f s) = ws_next_decision s"
  "ws_next_info (set_instance x f s) = ws_next_info s"
  "ws_instances (set_instance x f s) = update_where (\<lambda>r. pi_id r = x) f (ws_instances s)"
  by (simp_all add: set_instance_def)

lemma instance_ids_kept:
  assumes "keeps_identity f"
  shows "map pi_id (update_where (\<lambda>r. pi_id r = x) f rows) = map pi_id rows"
  by (rule row_update.keys_kept, unfold_locales) (use assms in \<open>simp add: keeps_identity_def\<close>)

lemma walking_set_instance:
  assumes w: "walking x s" and f: "keeps_identity f"
  shows "walking x (set_instance x f s)"
proof (rule walkingI)
  note d = walkingD [OF w]
  have ids: "map pi_id (update_where (\<lambda>r. pi_id r = x) f (ws_instances s)) =
    map pi_id (ws_instances s)" by (rule instance_ids_kept [OF f])
  then have idset: "pi_id ` set (update_where (\<lambda>r. pi_id r = x) f (ws_instances s)) =
    pi_id ` set (ws_instances s)" by (metis list.set_map)
  have below: "(\<forall>i\<in>set rows. pi_id i < n) = (\<forall>k\<in>pi_id ` set rows. k < n)" for rows n by simp
  show "ids_inv (set_instance x f s)"
    using d(1) unfolding ids_inv_def below by (simp add: ids idset)
  show "asks_inv (set_instance x f s)" using d(2) by (simp add: asks_inv_def exec_live_def)
  show "verdict_inv (set_instance x f s)" using d(3) f
    by (auto simp: verdict_inv_def set_update_where keeps_identity_def)
  show "result_inv (set_instance x f s)" using d(4) by (simp add: result_inv_def result_backed_def)
  have keep: "i \<in> set (update_where (\<lambda>r. pi_id r = x) f (ws_instances s)) \<longleftrightarrow> i \<in> set (ws_instances s)"
    if "pi_id i \<noteq> x" for i
    using that f by (auto simp: set_update_where keeps_identity_def image_iff)
  show "settled {x} (set_instance x f s)"
    unfolding settled_def parked_def
  proof (intro conjI ballI impI, goal_cases)
    case (1 i)
    with keep d(5) show ?case by (auto simp: settled_def)
  next
    case (2 e)
    with d(5) show ?case by (auto simp: settled_def parked_def)
  next
    case (3 e)
    with d(5) obtain i where "i \<in> set (ws_instances s)" "pi_id i = ne_instance_id e"
      "pi_status i = InRunning" "pi_current i = Some (ne_node_key e)"
      by (auto simp: settled_def parked_def)
    with 3 keep [of i] show ?case by auto
  qed
qed

lemma the_instance_set:
  assumes "the_instance x (\<lambda>i. P (f i)) s" "keeps_identity f"
  shows "the_instance x P (set_instance x f s)"
  using assms by (force simp: the_instance_def set_update_where keeps_identity_def image_iff)

lemma no_active_set_instance [simp]: "no_active y (set_instance x f s) = no_active y s"
  by (simp add: no_active_def)

lemma unasked_set_instance [simp]: "unasked eid (set_instance x f s) = unasked eid s"
  by (simp add: unasked_def)

lemma busy_set_instance:
  assumes "busy x eid k t s" "keeps_identity f" "\<And>i. pi_status (f i) = pi_status i"
    "\<And>i. pi_current (f i) = pi_current i"
  shows "busy x eid k t (set_instance x f s)"
proof -
  from busyD(1) [OF assms(1)] assms(3,4)
  have "the_instance x (\<lambda>i. pi_status (f i) = InRunning \<and> pi_current (f i) = Some k) s" by simp
  then have "the_instance x (\<lambda>i. pi_status i = InRunning \<and> pi_current i = Some k) (set_instance x f s)"
    by (rule the_instance_set) (rule assms(2))
  with busyD(2,3) [OF assms(1)] show ?thesis unfolding busy_def by simp
qed

lemma idle_set_instance:
  assumes "idle x s" "keeps_identity f" "\<And>i. pi_status (f i) = pi_status i"
  shows "idle x (set_instance x f s)"
  using assms the_instance_set [of x "\<lambda>i. pi_status i = InRunning" f s] by (simp add: idle_def)

lemma stopped_set_instance:
  assumes "no_active x s" "the_instance x P s" "keeps_identity f" "\<And>i. pi_status (f i) \<noteq> InRunning"
  shows "stopped x (set_instance x f s)"
proof -
  have "the_instance x (\<lambda>i. pi_status (f i) \<noteq> InRunning) s"
    using assms(2,4) by (auto simp: the_instance_def)
  then have "the_instance x (\<lambda>i. pi_status i \<noteq> InRunning) (set_instance x f s)"
    by (rule the_instance_set) (rule assms(3))
  with assms(1) show ?thesis by (simp add: stopped_def)
qed

subsection \<open>A new execution\<close>

lemma activate_node_ok:
  assumes w: "walking x s" and idle: "idle x s" and i: "pi_id i = x"
    and act: "activate_node reg x n i s = (eid, t)"
  shows "walking x t" "busy x eid (pn_key n) (pn_type n) t" "unasked eid t"
proof -
  define s1 where "s1 = set_instance x (\<lambda>i. i\<lparr>pi_current := Some (pn_key n)\<rparr>) s"
  obtain e s2 where ne: "new_execution i n s1 = (e, s2)" by force
  have keep: "keeps_identity (\<lambda>i. i\<lparr>pi_current := Some (pn_key n)\<rparr>)"
    by (simp add: keeps_identity_def)
  have w1: "walking x s1" unfolding s1_def by (rule walking_set_instance [OF w keep])
  note d = walkingD [OF w1]
  have run: "the_instance x (\<lambda>i. pi_status i = InRunning \<and> pi_current i = Some (pn_key n)) s1"
    unfolding s1_def by (rule the_instance_set [OF _ keep]) (use idle in \<open>simp add: idle_def the_instance_def\<close>)
  have na: "no_active x s1" unfolding s1_def using idle by (simp add: idle_def)
  have e: "ne_id e = ws_next_exec s1" "ne_instance_id e = x" "ne_node_key e = pn_key n"
    "ne_node_type e = pn_type n" "ne_status e = ExActive"
    and s2: "s2 = s1\<lparr>ws_execs := ws_execs s1 @ [e], ws_next_exec := Suc (ws_next_exec s1)\<rparr>"
    using ne i by (auto simp: new_execution_def Let_def)
  have x: "x \<in> pi_id ` set (ws_instances s1)" using run by (auto simp: the_instance_def)
  have fresh: "\<forall>e'\<in>set (ws_execs s1). ne_id e' \<noteq> ne_id e" using d(1) e(1) by (auto simp: ids_inv_def)
  then have free: "ne_id e \<notin> ne_id ` set (ws_execs s1)" by auto
  have "walking x s2"
  proof (rule walkingI)
    show "ids_inv s2" using d(1) x fresh e(1,2) unfolding ids_inv_def s2
      by (auto simp: less_Suc_eq)
    show "asks_inv s2" using d(2) by (auto simp: asks_inv_def exec_live_def exists_where_iff s2)
    show "verdict_inv s2" using d(1,3) free unfolding verdict_inv_def ids_inv_def s2 by auto
    show "result_inv s2" using d(4) e(5) unfolding result_inv_def result_backed_def s2 by auto
    show "settled {x} s2" using d(5) e(2)
      unfolding settled_def parked_def s2 by (auto simp: active_of_def)
  qed
  moreover have "busy x (ne_id e) (pn_key n) (pn_type n) s2"
    using run na e unfolding busy_def s2 by (auto simp: active_of_def the_instance_def no_active_def)
  moreover have "unasked (ne_id e) s2"
  proof -
    have "na_execution_id a \<noteq> ne_id e" if "a \<in> set (ws_assignees s1)" for a
      using ids_invD(1) [OF d(1) that] free by metis
    moreover have "ir_execution_id r \<noteq> ne_id e" if "r \<in> set (ws_infos s1)" for r
      using ids_invD(2) [OF d(1) that] free by metis
    ultimately show ?thesis by (simp add: unasked_def s2)
  qed
  moreover have "eid = ne_id e" "t = emit reg (PStr ''node.activated'')
           [(''instance_id'', PInt (int x)), (''node_key'', PStr (pn_key n)),
            (''type'', PStr (node_type_value (pn_type n))),
            (''execution_id'', PInt (int (ne_id e)))] s2"
    using act ne by (auto simp: activate_node_def s1_def)
  ultimately show "walking x t" "busy x eid (pn_key n) (pn_type n) t" "unasked eid t" by simp_all
qed

subsection \<open>Settling an execution\<close>

text \<open>The asks that die with an execution, and the status change of its row.\<close>

definition withdraw_asks :: "nat \<Rightarrow> 'h wf_state \<Rightarrow> 'h wf_state" where
  "withdraw_asks eid s =
     s\<lparr>ws_assignees := update_where
          (\<lambda>a. na_execution_id a = eid \<and> na_status a = AsRequested)
          (\<lambda>a. a\<lparr>na_status := AsNotRequired\<rparr>) (ws_assignees s),
        ws_infos := update_where
          (\<lambda>r. ir_execution_id r = eid \<and> ir_status r = IrPending)
          (\<lambda>r. r\<lparr>ir_status := IrWithdrawn\<rparr>) (ws_infos s)\<rparr>"

lemma withdraw_asks_fields [simp]:
  "ws_execs (withdraw_asks eid s) = ws_execs s" "ws_instances (withdraw_asks eid s) = ws_instances s"
  "ws_decisions (withdraw_asks eid s) = ws_decisions s" "ws_defs (withdraw_asks eid s) = ws_defs s"
  by (simp_all add: withdraw_asks_def)

lemma complete_execution_split:
  "complete_execution now eid res s =
     set_execution eid (\<lambda>e. e\<lparr>ne_status := ExCompleted, ne_result := res,
                             ne_completed_at := Some now\<rparr>) (withdraw_asks eid s)"
  by (simp add: complete_execution_def set_execution_def withdraw_asks_def)

lemma update_where_map:
  "(\<And>r. g (f r) = g r) \<Longrightarrow> map g (update_where P f rows) = map g rows"
  by (induction rows) auto

lemma ids_inv_cong:
  assumes "ids_inv s"
    "map pi_id (ws_instances t) = map pi_id (ws_instances s)"
    "ws_next_instance t = ws_next_instance s"
    "map (\<lambda>e. (ne_id e, ne_instance_id e)) (ws_execs t) = map (\<lambda>e. (ne_id e, ne_instance_id e)) (ws_execs s)"
    "ws_next_exec t = ws_next_exec s"
    "map (\<lambda>a. (na_id a, na_execution_id a)) (ws_assignees t) = map (\<lambda>a. (na_id a, na_execution_id a)) (ws_assignees s)"
    "ws_next_assignee t = ws_next_assignee s"
    "map (\<lambda>d. (nd_id d, nd_execution_id d)) (ws_decisions t) = map (\<lambda>d. (nd_id d, nd_execution_id d)) (ws_decisions s)"
    "ws_next_decision t = ws_next_decision s"
    "map (\<lambda>r. (ir_id r, ir_execution_id r)) (ws_infos t) = map (\<lambda>r. (ir_id r, ir_execution_id r)) (ws_infos s)"
    "ws_next_info t = ws_next_info s"
  shows "ids_inv t"
proof -
  have pair: "map f xs = map fst (map (\<lambda>r. (f r, g r)) xs)"
    "(\<forall>r\<in>set xs. f r < n \<and> g r \<in> S) = (\<forall>p\<in>set (map (\<lambda>r. (f r, g r)) xs). fst p < n \<and> snd p \<in> S)"
    for f g xs n S by (auto simp: comp_def)
  have inst: "(\<forall>i\<in>set xs. pi_id i < n) = (\<forall>k\<in>set (map pi_id xs). k < n)"
    "pi_id ` set xs = set (map pi_id xs)" for xs n by auto
  have execs: "ne_id ` set xs = fst ` set (map (\<lambda>e. (ne_id e, ne_instance_id e)) xs)" for xs by force
  show ?thesis using assms(1)
    unfolding ids_inv_def inst execs
      pair(1) [of ne_id _ ne_instance_id] pair(2) [of _ ne_id _ ne_instance_id]
      pair(1) [of na_id _ na_execution_id] pair(2) [of _ na_id _ na_execution_id]
      pair(1) [of nd_id _ nd_execution_id] pair(2) [of _ nd_id _ nd_execution_id]
      pair(1) [of ir_id _ ir_execution_id] pair(2) [of _ ir_id _ ir_execution_id]
      assms(2-11) .
qed

lemma withdraw_asks_ok:
  assumes "walking x s"
  shows "walking x (withdraw_asks eid s)"
    and "\<forall>a\<in>set (ws_assignees (withdraw_asks eid s)).
           na_execution_id a = eid \<longrightarrow> na_status a \<noteq> AsRequested"
    and "\<forall>r\<in>set (ws_infos (withdraw_asks eid s)). ir_execution_id r = eid \<longrightarrow> ir_status r \<noteq> IrPending"
proof -
  note d = walkingD [OF assms]
  show "walking x (withdraw_asks eid s)"
  proof (rule walkingI)
    show "ids_inv (withdraw_asks eid s)"
      by (rule ids_inv_cong [OF d(1)]) (simp_all add: withdraw_asks_def update_where_map)
    show "asks_inv (withdraw_asks eid s)" using d(2)
      by (auto simp: asks_inv_def exec_live_def withdraw_asks_def set_update_where)
    show "verdict_inv (withdraw_asks eid s)" using d(3)
      unfolding verdict_inv_def withdraw_asks_fields .
    show "result_inv (withdraw_asks eid s)" using d(4)
      unfolding result_inv_def result_backed_def withdraw_asks_fields .
    show "settled {x} (withdraw_asks eid s)" using d(5)
      unfolding settled_def parked_def withdraw_asks_fields .
  qed
  show "\<forall>a\<in>set (ws_assignees (withdraw_asks eid s)).
           na_execution_id a = eid \<longrightarrow> na_status a \<noteq> AsRequested"
    by (simp add: withdraw_asks_def ball_update_where)
  show "\<forall>r\<in>set (ws_infos (withdraw_asks eid s)). ir_execution_id r = eid \<longrightarrow> ir_status r \<noteq> IrPending"
    by (simp add: withdraw_asks_def ball_update_where)
qed

lemma set_execution_fields [simp]:
  "ws_instances (set_execution eid f s) = ws_instances s"
  "ws_assignees (set_execution eid f s) = ws_assignees s"
  "ws_decisions (set_execution eid f s) = ws_decisions s"
  "ws_infos (set_execution eid f s) = ws_infos s" "ws_defs (set_execution eid f s) = ws_defs s"
  "ws_next_instance (set_execution eid f s) = ws_next_instance s"
  "ws_next_exec (set_execution eid f s) = ws_next_exec s"
  "ws_next_assignee (set_execution eid f s) = ws_next_assignee s"
  "ws_next_decision (set_execution eid f s) = ws_next_decision s"
  "ws_next_info (set_execution eid f s) = ws_next_info s"
  "ws_execs (set_execution eid f s) = update_where (\<lambda>r. ne_id r = eid) f (ws_execs s)"
  by (simp_all add: set_execution_def)

definition keeps_execution :: "(node_execution \<Rightarrow> node_execution) \<Rightarrow> bool" where
  "keeps_execution f \<longleftrightarrow>
     (\<forall>e. ne_id (f e) = ne_id e \<and> ne_instance_id (f e) = ne_instance_id e \<and>
          ne_node_key (f e) = ne_node_key e \<and> ne_node_type (f e) = ne_node_type e \<and>
          ne_status (f e) \<noteq> ExActive)"

lemma set_execution_ok:
  assumes w: "walking x s" and b: "busy x eid k t s" and f: "keeps_execution f"
    and quiet: "\<forall>a\<in>set (ws_assignees s). na_execution_id a = eid \<longrightarrow> na_status a \<noteq> AsRequested"
      "\<forall>r\<in>set (ws_infos s). ir_execution_id r = eid \<longrightarrow> ir_status r \<noteq> IrPending"
    and backed: "\<And>e. t = NApproval \<Longrightarrow> ne_status (f e) = ExCompleted \<Longrightarrow> result_backed s eid (ne_result (f e))"
  shows "walking x (set_execution eid f s)" "no_active x (set_execution eid f s)"
proof -
  note d = walkingD [OF w]
  let ?t = "set_execution eid f s"
  have fk: "ne_id (f e) = ne_id e" "ne_instance_id (f e) = ne_instance_id e"
    "ne_node_key (f e) = ne_node_key e" "ne_node_type (f e) = ne_node_type e"
    "ne_status (f e) \<noteq> ExActive" for e
    using f by (simp_all add: keeps_execution_def)
  from busyD(2) [OF b] obtain e0 where e0: "e0 \<in> set (ws_execs s)" "ne_id e0 = eid"
    "ne_instance_id e0 = x" "ne_node_type e0 = t" by (auto simp: active_of_def)
  have the: "e = e0" if "e \<in> set (ws_execs s)" "ne_id e = eid" for e
    by (rule the_exec_unique [OF d(1) that(1) e0(1)]) (simp add: that e0)
  have other: "e \<in> set (ws_execs ?t) \<longleftrightarrow> e \<in> set (ws_execs s)" if "ne_id e \<noteq> eid" for e
    using that fk(1) by (auto simp: set_update_where image_iff)
  have mine: "e = f e0" if "e \<in> set (ws_execs ?t)" "ne_id e = eid" for e
    using that fk(1) the by (auto simp: set_update_where)
  have live: "exec_live ?t j" if "exec_live s j" "j \<noteq> eid" for j
    using that other by (auto simp: exec_live_def exists_where_iff)
  show "walking x ?t"
  proof (rule walkingI)
    show "ids_inv ?t"
      by (rule ids_inv_cong [OF d(1)]) (simp_all add: update_where_map fk)
    show "asks_inv ?t" using d(2) quiet live by (fastforce simp: asks_inv_def)
    show "verdict_inv ?t" using d(3) fk
      by (auto simp: verdict_inv_def set_update_where)
    show "result_inv ?t" unfolding result_inv_def
    proof (intro ballI impI)
      fix e assume e: "e \<in> set (ws_execs ?t)" "ne_status e = ExCompleted \<and> ne_node_type e = NApproval"
      show "result_backed ?t (ne_id e) (ne_result e)"
      proof (cases "ne_id e = eid")
        case True
        with mine e have "e = f e0" by blast
        with e fk(4) e0 backed True show ?thesis by (simp add: result_backed_def)
      next
        case False
        with e other d(4) show ?thesis by (simp add: result_inv_def result_backed_def)
      qed
    qed
    show "settled {x} ?t" unfolding settled_def
    proof (intro conjI ballI impI)
      fix i assume i: "i \<in> set (ws_instances ?t)" "pi_id i \<notin> {x} \<and> pi_status i = InRunning"
      have "e \<in> set (ws_execs ?t) \<and> active_of (pi_id i) e \<longleftrightarrow>
            e \<in> set (ws_execs s) \<and> active_of (pi_id i) e" for e
      proof (cases "ne_id e = eid")
        case True
        have "\<not> active_of (pi_id i) (f e0)" "\<not> active_of (pi_id i) e0"
          using i(2) e0(3) fk(2) by (auto simp: active_of_def)
        with True mine the show ?thesis by blast
      next
        case False
        with other show ?thesis by simp
      qed
      with d(5) i show "\<exists>!e. e \<in> set (ws_execs ?t) \<and> active_of (pi_id i) e"
        by (simp add: settled_def)
    next
      fix e assume e: "e \<in> set (ws_execs ?t)" "ne_status e = ExActive \<and> ne_instance_id e \<notin> {x}"
      with mine fk(5) have "ne_id e \<noteq> eid" by metis
      with e other d(5) show "parked ?t e" by (auto simp: settled_def parked_def)
    qed
  qed
  show "no_active x ?t" unfolding no_active_def
  proof
    fix e assume e: "e \<in> set (ws_execs ?t)"
    show "\<not> active_of x e"
    proof (cases "ne_id e = eid")
      case True
      with mine e fk(5) show ?thesis by (metis active_of_def)
    next
      case False
      with e other busyD(3) [OF b] show ?thesis by blast
    qed
  qed
qed

lemma busy_same_tables:
  assumes "ws_instances t = ws_instances s" "ws_execs t = ws_execs s"
  shows "busy x eid k ty t = busy x eid k ty s" "idle x t = idle x s" "stopped x t = stopped x s"
    "the_instance x P t = the_instance x P s" "no_active x t = no_active x s"
  using assms by (simp_all add: local_unfold)

lemma complete_execution_ok:
  assumes w: "walking x s" and b: "busy x eid k t s"
    and res: "t = NApproval \<Longrightarrow> result_backed s eid res"
  shows "walking x (complete_execution now eid res s)" "idle x (complete_execution now eid res s)"
proof -
  let ?f = "\<lambda>e. e\<lparr>ne_status := ExCompleted, ne_result := res, ne_completed_at := Some now\<rparr>"
  note q = withdraw_asks_ok [OF w, of eid]
  have b': "busy x eid k t (withdraw_asks eid s)" using b
    by (simp only: busy_same_tables(1) [OF withdraw_asks_fields(2,1)])
  have f: "keeps_execution ?f" by (simp add: keeps_execution_def)
  have r: "result_backed (withdraw_asks eid s) eid (ne_result (?f e))" if "t = NApproval" for e
    using res [OF that] by (simp add: result_backed_def)
  note ok = set_execution_ok [OF q(1) b' f q(2,3) r]
  show "walking x (complete_execution now eid res s)"
    unfolding complete_execution_split by (rule ok(1))
  have "the_instance x (\<lambda>i. pi_status i = InRunning) s"
    using busyD(1) [OF b] by (auto simp: the_instance_def)
  with ok(2) show "idle x (complete_execution now eid res s)"
    unfolding complete_execution_split by (simp add: idle_def the_instance_def)
qed

lemma complete_execution_instances [simp]:
  "ws_instances (complete_execution now eid res s) = ws_instances s"
  "ws_defs (complete_execution now eid res s) = ws_defs s"
  "ws_decisions (complete_execution now eid res s) = ws_decisions s"
  by (simp_all add: complete_execution_def set_execution_def)

end
