(* ===== verification/WfWalk.thy ===== *)
theory WfWalk
  imports WfInvariant
begin

text \<open>
  The walk keeps the tables consistent: from an idle running instance every step either names the
  next node, with the instance idle again, or comes to rest (parked, completed or failed).
\<close>

subsection \<open>Asks of the busy execution\<close>

lemma busy_live: "busy x eid k t s \<Longrightarrow> exec_live s eid"
  by (drule busyD(2)) (auto simp: exec_live_def exists_where_iff active_of_def)

lemma add_assignee_fields [simp]:
  "ws_instances (add_assignee eid mv from s) = ws_instances s"
  "ws_execs (add_assignee eid mv from s) = ws_execs s"
  "ws_decisions (add_assignee eid mv from s) = ws_decisions s"
  "ws_infos (add_assignee eid mv from s) = ws_infos s"
  "ws_defs (add_assignee eid mv from s) = ws_defs s"
  by (simp_all add: add_assignee_def)

lemma add_info_fields [simp]:
  "ws_instances (add_info eid m n q s) = ws_instances s"
  "ws_execs (add_info eid m n q s) = ws_execs s"
  "ws_decisions (add_info eid m n q s) = ws_decisions s"
  "ws_assignees (add_info eid m n q s) = ws_assignees s"
  "ws_defs (add_info eid m n q s) = ws_defs s"
  by (simp_all add: add_info_def)

lemma exec_live_id: "exec_live s eid \<Longrightarrow> eid \<in> ne_id ` set (ws_execs s)"
  by (auto simp: exec_live_def exists_where_iff)

lemma tables_add_assignee:
  assumes "tables_inv s" "exec_live s eid"
  shows "tables_inv (add_assignee eid mv from s)" "settled y (add_assignee eid mv from s) = settled y s"
proof -
  from assms have d: "ids_inv s" "asks_inv s" "verdict_inv s" "result_inv s"
    by (simp_all add: tables_inv_def)
  have "ids_inv (add_assignee eid mv from s)" using d(1) exec_live_id [OF assms(2)]
    unfolding ids_inv_def add_assignee_def by (auto simp: less_Suc_eq)
  moreover have "asks_inv (add_assignee eid mv from s)" using d(2) assms(2)
    by (auto simp: asks_inv_def exec_live_def add_assignee_def)
  moreover have "verdict_inv (add_assignee eid mv from s)" using d(3)
    unfolding verdict_inv_def add_assignee_fields .
  moreover have "result_inv (add_assignee eid mv from s)" using d(4)
    unfolding result_inv_def result_backed_def add_assignee_fields .
  ultimately show "tables_inv (add_assignee eid mv from s)" by (simp add: tables_inv_def)
  show "settled y (add_assignee eid mv from s) = settled y s"
    unfolding settled_def parked_def add_assignee_fields ..
qed

lemma tables_add_info:
  assumes "tables_inv s" "exec_live s eid"
  shows "tables_inv (add_info eid m n q s)" "settled y (add_info eid m n q s) = settled y s"
proof -
  from assms have d: "ids_inv s" "asks_inv s" "verdict_inv s" "result_inv s"
    by (simp_all add: tables_inv_def)
  have "ids_inv (add_info eid m n q s)" using d(1) exec_live_id [OF assms(2)]
    unfolding ids_inv_def add_info_def by (auto simp: less_Suc_eq)
  moreover have "asks_inv (add_info eid m n q s)" using d(2) assms(2)
    by (auto simp: asks_inv_def exec_live_def add_info_def)
  moreover have "verdict_inv (add_info eid m n q s)" using d(3)
    unfolding verdict_inv_def add_info_fields .
  moreover have "result_inv (add_info eid m n q s)" using d(4)
    unfolding result_inv_def result_backed_def add_info_fields .
  ultimately show "tables_inv (add_info eid m n q s)" by (simp add: tables_inv_def)
  show "settled y (add_info eid m n q s) = settled y s"
    unfolding settled_def parked_def add_info_fields ..
qed

lemma asks_keep_busy [simp]:
  "busy x eid' k t (add_assignee eid mv from s) = busy x eid' k t s"
  "busy x eid' k t (add_info eid m n q s) = busy x eid' k t s"
  "exec_live (add_assignee eid mv from s) j = exec_live s j"
  "exec_live (add_info eid m n q s) j = exec_live s j"
  unfolding busy_def the_instance_def exec_live_def add_assignee_fields add_info_fields by (rule refl)+

lemma add_assignees_ok:
  assumes "walking x s" "busy x eid k t s"
  shows "walking x (fold (\<lambda>mv st. add_assignee eid mv None st) ms s)"
    "busy x eid k t (fold (\<lambda>mv st. add_assignee eid mv None st) ms s)"
  using assms
  by (induction ms arbitrary: s) (simp_all add: walking_def tables_add_assignee busy_live)

lemma add_asks_ok:
  assumes "walking x s" "busy x eid k t s"
  shows "walking x (fold (\<lambda>m st. add_info eid a m q (add_assignee eid (m, p) None st)) ms s)"
    "busy x eid k t (fold (\<lambda>m st. add_info eid a m q (add_assignee eid (m, p) None st)) ms s)"
  using assms
  by (induction ms arbitrary: s)
    (simp_all add: walking_def tables_add_assignee tables_add_info busy_live)

subsection \<open>Failing and completing\<close>

lemma fail_idle_ok:
  assumes "walking x s" "idle x s"
  shows "walking x (fail_instance reg now x None exc s)" "stopped x (fail_instance reg now x None exc s)"
proof -
  let ?f = "\<lambda>i. i\<lparr>pi_status := InError, pi_error := Some (exn_message exc)\<rparr>"
  have f: "keeps_identity ?f" by (simp add: keeps_identity_def)
  have "walking x (set_instance x ?f s)" by (rule walking_set_instance [OF assms(1) f])
  moreover have "stopped x (set_instance x ?f s)"
    by (rule stopped_set_instance [OF _ _ f]) (use assms(2) in \<open>auto simp: idle_def\<close>)
  ultimately show "walking x (fail_instance reg now x None exc s)"
    "stopped x (fail_instance reg now x None exc s)"
    by (simp_all add: fail_instance_def Let_def)
qed

lemma fail_busy_ok:
  assumes w: "walking x s" and b: "busy x eid k t s" and u: "unasked eid s"
  shows "walking x (fail_instance reg now x (Some eid) exc s)"
    "stopped x (fail_instance reg now x (Some eid) exc s)"
proof -
  let ?g = "\<lambda>e. e\<lparr>ne_status := ExError, ne_error := Some (exn_message exc), ne_completed_at := Some now\<rparr>"
  have g: "keeps_execution ?g" by (simp add: keeps_execution_def)
  let ?s = "set_execution eid ?g s"
  have q: "\<forall>a\<in>set (ws_assignees s). na_execution_id a = eid \<longrightarrow> na_status a \<noteq> AsRequested"
    "\<forall>r\<in>set (ws_infos s). ir_execution_id r = eid \<longrightarrow> ir_status r \<noteq> IrPending"
    using u by (simp_all add: unasked_def)
  have ok: "walking x ?s" "no_active x ?s"
    by (rule set_execution_ok [OF w b g q], simp)+
  have "the_instance x (\<lambda>i. pi_status i = InRunning) ?s"
    using busyD(1) [OF b] by (auto simp: the_instance_def)
  with ok(2) have "idle x ?s" by (simp add: idle_def)
  from fail_idle_ok [OF ok(1) this, of reg now exc]
  show "walking x (fail_instance reg now x (Some eid) exc s)"
    "stopped x (fail_instance reg now x (Some eid) exc s)"
    by (simp_all add: fail_instance_def Let_def)
qed

lemma complete_instance_ok:
  assumes "walking x s" "idle x s" "complete_instance reg now x d outcome s = Inr t"
  shows "walking x t" "stopped x t"
proof -
  let ?f = "\<lambda>i. i\<lparr>pi_status := InCompleted, pi_outcome := Some outcome,
                   pi_completed_at := Some now, pi_current := None\<rparr>"
  have f: "keeps_identity ?f" by (simp add: keeps_identity_def)
  let ?s = "set_instance x ?f s"
  have "walking x ?s" by (rule walking_set_instance [OF assms(1) f])
  moreover have "stopped x ?s"
    by (rule stopped_set_instance [OF _ _ f]) (use assms(2) in \<open>auto simp: idle_def\<close>)
  moreover obtain h k p where "t = emit reg k p (?s\<lparr>ws_host := h\<rparr>) \<or> t = emit reg k p ?s"
    using assms(3)
    by (auto simp: complete_instance_def Let_def rbind_Inr_iff split: option.splits)
  ultimately show "walking x t" "stopped x t" by auto
qed

definition walk_ok :: "nat \<Rightarrow> 'h walk \<Rightarrow> bool" where
  "walk_ok x w = (case w of Walk k s \<Rightarrow> walking x s \<and> idle x s | Parked s \<Rightarrow> wf_inv s)"

lemma walk_ok_simps [simp]:
  "walk_ok x (Walk k s) \<longleftrightarrow> walking x s \<and> idle x s"
  "walk_ok x (Parked s) \<longleftrightarrow> wf_inv s"
  by (simp_all add: walk_ok_def)

lemma rest_stopped: "walking x s \<Longrightarrow> stopped x s \<Longrightarrow> wf_inv s"
  by (rule walking_rest) (assumption, rule disjI1)

lemma advance_ok:
  assumes "walking x s" "idle x s" "advance_or_fail reg now x d n positive s = Inr r"
  shows "walk_ok x (walk_of r)"
proof -
  from assms(3) obtain i :: process_instance and nxt where
    "select_next d (pn_key n) (pi_data i) positive = Inr nxt" and
    r: "(case nxt of
         Some k \<Rightarrow> Inr (Some k, s)
       | None \<Rightarrow>
           if \<not> positive
           then rbind (complete_instance reg now x d (PStr rejected_outcome) s)
                  (\<lambda>s'. Inr (None, s'))
           else Inr (None, fail_instance reg now x None
                  (EngineError ''no_transition''
                     (''No transition matched from node '' @ quoted (pn_key n))) s)) = Inr r"
    unfolding advance_or_fail_def by (elim rbind_InrE) (rule that)
  show ?thesis
  proof (cases nxt)
    case (Some k)
    with r assms show ?thesis by (auto simp: walk_of_def)
  next
    case None
    show ?thesis
    proof (cases positive)
      case True
      with r None have "r = (None, fail_instance reg now x None
                  (EngineError ''no_transition''
                     (''No transition matched from node '' @ quoted (pn_key n))) s)" by simp
      with rest_stopped [OF fail_idle_ok [OF assms(1,2)]] show ?thesis by (simp add: walk_of_def)
    next
      case False
      with r None obtain t where t: "complete_instance reg now x d (PStr rejected_outcome) s = Inr t"
        "r = (None, t)" by (auto simp: rbind_Inr_iff)
      with rest_stopped [OF complete_instance_ok [OF assms(1,2) t(1)]] show ?thesis
        by (simp add: walk_of_def)
    qed
  qed
qed

subsection \<open>One node\<close>

lemma map_sum_Inr_iff: "map_sum f g r = Inr y \<longleftrightarrow> (\<exists>x. r = Inr x \<and> y = g x)"
  by (cases r) auto

lemma rest_busy: "walking x s \<Longrightarrow> busy x eid k t s \<Longrightarrow> parkable t \<Longrightarrow> wf_inv s"
  by (rule walking_rest) blast+

lemma activate_approval_ok:
  assumes "walking x s" "busy x eid k NApproval s" "unasked eid s"
    "activate_approval reg now x eid n s = Inr t"
  shows "wf_inv t"
proof -
  from assms(4) have "(\<exists>exc. t = fail_instance reg now x (Some eid) exc s) \<or>
    (\<exists>kd p ms. t = emit reg kd p (fold (\<lambda>mv st. add_assignee eid mv None st) ms s))"
    unfolding activate_approval_def
    by (elim rbind_InrE) (auto simp: Let_def split: if_splits)
  with rest_stopped [OF fail_busy_ok [OF assms(1-3)]] rest_busy [OF add_assignees_ok [OF assms(1,2)]]
  show ?thesis by (auto simp: parkable_def)
qed

lemma activate_request_info_ok:
  assumes "walking x s" "busy x eid k NRequestInfo s" "unasked eid s"
    "activate_request_info reg now x eid n s = Inr t"
  shows "wf_inv t"
proof -
  from assms(4) have "(\<exists>exc. t = fail_instance reg now x (Some eid) exc s) \<or>
    (\<exists>kd pl a q p ms. t = emit reg kd pl
       (fold (\<lambda>m st. add_info eid a m q (add_assignee eid (m, p) None st)) ms s))"
    unfolding activate_request_info_def
    by (elim rbind_InrE) (auto simp: Let_def rbind_Inr_iff split: if_splits, blast+)
  with rest_stopped [OF fail_busy_ok [OF assms(1-3)]] rest_busy [OF add_asks_ok [OF assms(1,2)]]
  show ?thesis by (auto simp: parkable_def)
qed

lemma run_system_cases:
  assumes "run_system reg now x eid d n s = Inr w"
  obtains (failed) h exc where "w = Parked (fail_instance reg now x (Some eid) exc (s\<lparr>ws_host := h\<rparr>))"
  | (produced) h ps r where
      "advance_or_fail reg now x d n True
         (complete_execution now eid [(''produced'', PList (map PStr (sort (map fst ps))))]
            (set_instance x (\<lambda>i. i\<lparr>pi_data := dmerge (pi_data i) ps\<rparr>) (s\<lparr>ws_host := h\<rparr>))) = Inr r"
      "w = walk_of r"
proof -
  from assms obtain handler i where
    w: "(case handler i s of
         (Inl exc, h) \<Rightarrow>
           Inr (Parked (fail_instance reg now x (Some eid) exc (s\<lparr>ws_host := h\<rparr>)))
       | (Inr produced, h) \<Rightarrow>
           (case or_empty (Some produced) of
              PDict ps \<Rightarrow>
                (let s1 = set_instance x (\<lambda>i. i\<lparr>pi_data := dmerge (pi_data i) ps\<rparr>)
                            (s\<lparr>ws_host := h\<rparr>);
                     s2 = complete_execution now eid
                            [(''produced'', PList (map PStr (sort (map fst ps))))] s1
                 in rbind (advance_or_fail reg now x d n True s2) (\<lambda>r. Inr (walk_of r)))
            | _ \<Rightarrow> Inl (TypeErrorExn ''not a mapping''))) = Inr w"
    and "handler \<in> (UNIV :: (process_instance \<Rightarrow> _) set)"
    unfolding run_system_def by (elim rbind_InrE) (rule that, assumption, rule UNIV_I)
  obtain res h where "handler i s = (res, h)" by force
  with w show ?thesis
    by (cases res) (auto simp: Let_def split: pyval.splits elim!: rbind_InrE intro: failed produced)
qed

lemma run_system_ok:
  assumes "walking x s" "busy x eid k NSystem s" "unasked eid s"
    "run_system reg now x eid d n s = Inr w"
  shows "walk_ok x w"
  using assms(4)
proof (cases rule: run_system_cases)
  case (failed h exc)
  from assms(1-3) have h: "walking x (s\<lparr>ws_host := h\<rparr>)" "busy x eid k NSystem (s\<lparr>ws_host := h\<rparr>)"
    "unasked eid (s\<lparr>ws_host := h\<rparr>)" by simp_all
  from failed rest_stopped [OF fail_busy_ok [OF h]] show ?thesis by simp
next
  case (produced h ps r)
  from assms(1-3) have h: "walking x (s\<lparr>ws_host := h\<rparr>)" "busy x eid k NSystem (s\<lparr>ws_host := h\<rparr>)"
    by simp_all
  let ?f = "\<lambda>i. i\<lparr>pi_data := dmerge (pi_data i) ps\<rparr>"
  have f: "keeps_identity ?f" by (simp add: keeps_identity_def)
  let ?s1 = "set_instance x ?f (s\<lparr>ws_host := h\<rparr>)"
  have w1: "walking x ?s1" by (rule walking_set_instance [OF h(1) f])
  have b1: "busy x eid k NSystem ?s1" by (rule busy_set_instance [OF h(2) f]) simp_all
  let ?s2 = "complete_execution now eid [(''produced'', PList (map PStr (sort (map fst ps))))] ?s1"
  have c: "walking x ?s2" "idle x ?s2" by (rule complete_execution_ok [OF w1 b1], simp)+
  from produced advance_ok [OF c] show ?thesis by simp
qed

lemma run_node_ok:
  assumes "walking x s" "busy x eid k (pn_type n) s" "unasked eid s"
    "run_node reg now x eid d n s = Inr w"
  shows "walk_ok x w"
proof (cases "pn_type n")
  case NStart
  have c: "walking x (complete_execution now eid [] s)" "idle x (complete_execution now eid [] s)"
    by (rule complete_execution_ok [OF assms(1,2)], simp add: NStart)+
  from assms(4) NStart show ?thesis
    by (auto simp: run_node_def rbind_Inr_iff intro: advance_ok [OF c])
next
  case NNotify
  have c: "walking x (complete_execution now eid [] (emit reg kd p s))"
    "idle x (complete_execution now eid [] (emit reg kd p s))" for kd p
    by (rule complete_execution_ok [of x "emit reg kd p s" eid k "pn_type n"], use assms NNotify in simp_all)+
  from assms(4) NNotify show ?thesis
    by (auto simp: run_node_def rbind_Inr_iff intro: advance_ok [OF c])
next
  case NSystem
  with assms show ?thesis by (auto simp: run_node_def intro: run_system_ok)
next
  case NApproval
  with assms show ?thesis
    by (auto simp: run_node_def map_sum_Inr_iff intro: activate_approval_ok)
next
  case NRequestInfo
  with assms show ?thesis
    by (auto simp: run_node_def map_sum_Inr_iff intro: activate_request_info_ok)
next
  case NEnd
  have c: "walking x (complete_execution now eid [] s)" "idle x (complete_execution now eid [] s)"
    by (rule complete_execution_ok [OF assms(1,2)], simp add: NEnd)+
  from assms(4) NEnd obtain outcome t where
    "complete_instance reg now x d outcome (complete_execution now eid [] s) = Inr t" "w = Parked t"
    by (auto simp: run_node_def map_sum_Inr_iff split: option.splits)
  with rest_stopped [OF complete_instance_ok [OF c]] show ?thesis by auto
qed

lemma walk_step_ok:
  assumes "walking x s" "idle x s" "walk_step reg now x d k s = Inr w"
  shows "walk_ok x w"
proof -
  from assms(3) obtain n i where n: "load_instance x s = Inr i"
    and w: "(let (eid, s1) = activate_node reg x n i s in run_node reg now x eid d n s1) = Inr w"
    unfolding walk_step_def by (auto simp: rbind_Inr_iff split: option.splits)
  obtain eid s1 where a: "activate_node reg x n i s = (eid, s1)" by force
  have "pi_id i = x" using n load_instance_Inr [OF walkingD(1) [OF assms(1)]] by simp
  from activate_node_ok [OF assms(1,2) this a] w a show ?thesis
    by (auto intro: run_node_ok)
qed

lemma run_from_ok:
  "walking x s \<Longrightarrow> idle x s \<Longrightarrow> run_from fuel reg now x d k s = Some (Inr t) \<Longrightarrow> wf_inv t"
proof (induction fuel arbitrary: k s)
  case 0
  then show ?case by simp
next
  case (Suc fuel)
  from Suc.prems(3) obtain w where w: "walk_step reg now x d k s = Inr w"
    and t: "(case w of Walk k' s' \<Rightarrow> run_from fuel reg now x d k' s' | Parked s' \<Rightarrow> Some (Inr s'))
            = Some (Inr t)"
    by (auto simp: rbind_fuel_Inr_iff)
  from walk_step_ok [OF Suc.prems(1,2) w] t Suc.IH show ?case by (cases w) auto
qed

lemma resume_ok:
  assumes "walk_ok x (walk_of r)" "resume fuel reg now x d r = Some (Inr t)"
  shows "wf_inv t"
  using assms run_from_ok by (cases "fst r") (auto simp: resume_def walk_of_def)

end
