(* ===== verification/WfConsistent.thy ===== *)
theory WfConsistent
  imports WfWalk
begin

text \<open>
  Every operation of the engine keeps \<open>wf_inv\<close>, so it holds in every reachable state: the
  operations as a step relation, and the invariant as an interpretation of the transition-system
  interface.
\<close>

subsection \<open>Opening\<close>

lemma new_instance_ok:
  assumes inv: "wf_inv s" and new: "new_instance reg a d s = (i, t)"
  shows "walking (pi_id i) t" "idle (pi_id i) t"
proof -
  have d: "ids_inv s" "asks_inv s" "verdict_inv s" "result_inv s" "settled {} s"
    using inv by (simp_all add: wf_inv_def tables_inv_def)
  have i: "pi_id i = ws_next_instance s" "pi_status i = InRunning"
    and t: "t = s\<lparr>ws_instances := ws_instances s @ [i], ws_next_instance := Suc (ws_next_instance s)\<rparr>"
    using new by (auto simp: new_instance_def Let_def)
  have fresh: "pi_id i \<notin> pi_id ` set (ws_instances s)" using d(1) i(1) by (auto simp: ids_inv_def)
  have none: "ne_instance_id e \<noteq> pi_id i" if "e \<in> set (ws_execs s)" for e
    using ids_invD(4) [OF d(1) that] fresh by metis
  have "ids_inv t" using d(1) fresh i(1) unfolding ids_inv_def t by (auto simp: less_Suc_eq)
  moreover have "asks_inv t" using d(2) by (auto simp: asks_inv_def exec_live_def t)
  moreover have "verdict_inv t" unfolding verdict_inv_def
  proof (intro conjI ballI impI)
    show "decisions_ix (ws_decisions t)" using d(3) by (simp add: verdict_inv_def t)
    fix v e j assume v: "v \<in> set (ws_decisions t)" "e \<in> set (ws_execs t)" "j \<in> set (ws_instances t)"
      "final_verdict (nd_verdict v) \<and> ne_id e = nd_execution_id v \<and> pi_id j = ne_instance_id e"
    have "j \<in> set (ws_instances s)" using v none [of e] by (auto simp: t)
    with v d(3) show "pi_initiated_by j \<noteq> Some (nd_actor_id v)" "ne_node_type e = NApproval"
      by (auto simp: verdict_inv_def t)
  qed
  moreover have "result_inv t" using d(4) unfolding result_inv_def result_backed_def t by simp
  moreover have "settled {pi_id i} t" using d(5) unfolding settled_def parked_def t by auto
  ultimately show "walking (pi_id i) t" by (rule walkingI)
  show "idle (pi_id i) t" using none i(2) by (auto simp: local_unfold active_of_def t)
qed

lemma map_option_sum_iff:
  "map_option (map_sum id f) r = Some (Inr y) \<longleftrightarrow> (\<exists>x. r = Some (Inr x) \<and> y = f x)"
  by (cases r) (auto simp: map_sum_Inr_iff)

lemma open_instance_ok:
  assumes "wf_inv s" "open_instance fuel reg now a s = Some (Inr (iid, t))"
  shows "wf_inv t"
proof -
  from assms(2) obtain d where d: "pick_definition a s = Inr d"
    by (auto simp: open_instance_def rbind_fuel_Inr_iff)
  obtain i s1 where n: "new_instance reg a d s = (i, s1)" by force
  from assms(2) d n obtain st k p where
    "run_from fuel reg now (pi_id i) d st (emit reg k p s1) = Some (Inr t)"
    by (auto simp: open_instance_def map_sum_Inr_iff split: option.splits)
  with new_instance_ok [OF assms(1) n] show ?thesis
    by (intro run_from_ok [where s = "emit reg k p s1"]) auto
qed

subsection \<open>Deciding\<close>

lemma load_active_ok:
  assumes "load_active_execution iid s = Inr e"
  shows "e \<in> set (ws_execs s)" "active_of iid e"
  using assms by (auto simp: load_active_execution_def split: option.splits dest: first_where_Some)

lemma decide_checks_ok:
  assumes "decide_checks iid actor v comment admin s = Inr (i, e, asg)"
  shows "load_instance iid s = Inr i" "pi_status i = InRunning"
    "load_active_execution iid s = Inr e" "ne_node_type e = NApproval" "final_verdict v"
    "pi_initiated_by i \<noteq> Some actor" "asg = assignee_of s (ne_id e) actor" "asg \<noteq> None \<or> admin"
    "v = VNegative \<longrightarrow> \<not> blank (case comment of None \<Rightarrow> [] | Some c \<Rightarrow> c)"
  using assms by (auto simp: decide_checks_def rbind_Inr_iff require_running_def)

lemma decisions_ix_snoc:
  assumes "decisions_ix (xs @ [d0])" "final_verdict (nd_verdict d0)" "d \<in> set xs"
    "final_verdict (nd_verdict d)" "nd_execution_id d = nd_execution_id d0"
  shows "nd_actor_id d \<noteq> nd_actor_id d0"
proof
  assume "nd_actor_id d = nd_actor_id d0"
  with assms(3-5) have "(nd_execution_id d0, nd_actor_id d0) \<in>
      (\<lambda>d. (nd_execution_id d, nd_actor_id d)) ` set (filter (\<lambda>d. final_verdict (nd_verdict d)) xs)"
    by (intro rev_image_eqI [of d]) simp_all
  with assms(1,2) show False by (simp add: decisions_ix_def)
qed

lemma insert_decision_Inr:
  "insert_decision eid actor v comment behalf s = Inr t \<longleftrightarrow>
     decisions_ix (ws_decisions s @ [\<lparr>nd_id = ws_next_decision s, nd_execution_id = eid,
       nd_actor_id = actor, nd_on_behalf_of = behalf, nd_verdict = v, nd_comment = comment\<rparr>]) \<and>
     t = s\<lparr>ws_decisions := ws_decisions s @ [\<lparr>nd_id = ws_next_decision s, nd_execution_id = eid,
             nd_actor_id = actor, nd_on_behalf_of = behalf, nd_verdict = v, nd_comment = comment\<rparr>],
           ws_next_decision := Suc (ws_next_decision s)\<rparr>"
  by (auto simp: insert_decision_def Let_def)

lemma insert_decision_ok:
  assumes w: "walking x s" and e: "e \<in> set (ws_execs s)" "ne_instance_id e = x"
    and guard: "final_verdict v \<longrightarrow> ne_node_type e = NApproval \<and>
      (\<forall>i\<in>set (ws_instances s). pi_id i = x \<longrightarrow> pi_initiated_by i \<noteq> Some actor)"
    and ins: "insert_decision (ne_id e) actor v comment behalf s = Inr t"
  shows "walking x t" "final_verdict v \<Longrightarrow> result_backed t (ne_id e) (verdict_result v actor)"
    "ws_instances t = ws_instances s" "ws_execs t = ws_execs s" "ws_assignees t = ws_assignees s"
    "ws_defs t = ws_defs s"
proof -
  note d = walkingD [OF w]
  let ?row = "\<lparr>nd_id = ws_next_decision s, nd_execution_id = ne_id e,
       nd_actor_id = actor, nd_on_behalf_of = behalf, nd_verdict = v, nd_comment = comment\<rparr>"
  from ins have ix: "decisions_ix (ws_decisions s @ [?row])"
    and t: "t = s\<lparr>ws_decisions := ws_decisions s @ [?row], ws_next_decision := Suc (ws_next_decision s)\<rparr>"
    by (simp_all add: insert_decision_Inr)
  show "walking x t"
  proof (rule walkingI)
    show "ids_inv t" using d(1) e unfolding ids_inv_def t by (auto simp: less_Suc_eq)
    show "asks_inv t" using d(2) by (auto simp: asks_inv_def exec_live_def t)
    have "pi_initiated_by j \<noteq> Some (nd_actor_id r) \<and> ne_node_type f = NApproval"
      if r: "r \<in> set (ws_decisions t)" "f \<in> set (ws_execs t)" "j \<in> set (ws_instances t)"
        "final_verdict (nd_verdict r) \<and> ne_id f = nd_execution_id r \<and> pi_id j = ne_instance_id f"
      for r f j
    proof (cases "r \<in> set (ws_decisions s)")
      case True
      with r d(3) show ?thesis by (auto simp: verdict_inv_def t)
    next
      case False
      with r(1) have row: "r = ?row" by (simp add: t)
      with r the_exec_unique [OF d(1) _ e(1), of f] have "f = e" by (simp add: t)
      with r row guard e(2) show ?thesis by (simp add: t)
    qed
    moreover have "decisions_ix (ws_decisions t)" using ix by (simp add: t)
    ultimately show "verdict_inv t" unfolding verdict_inv_def by blast
    show "result_inv t" using d(4) unfolding result_inv_def result_backed_def t by auto
    show "settled {x} t" using d(5) unfolding settled_def parked_def t by simp
  qed
  show "final_verdict v \<Longrightarrow> result_backed t (ne_id e) (verdict_result v actor)"
    by (auto simp: result_backed_def t)
qed (use ins in \<open>simp_all add: insert_decision_Inr\<close>)

lemma mark_decided_fields [simp]:
  "ws_instances (mark_decided asg s) = ws_instances s" "ws_execs (mark_decided asg s) = ws_execs s"
  "ws_decisions (mark_decided asg s) = ws_decisions s" "ws_infos (mark_decided asg s) = ws_infos s"
  "ws_defs (mark_decided asg s) = ws_defs s"
  by (simp_all add: mark_decided_def split: option.splits)

lemma mark_decided_assignees:
  "ws_assignees (mark_decided (Some b) s) =
     map (\<lambda>r. if na_id r = na_id b then r\<lparr>na_status := AsDecided\<rparr> else r) (ws_assignees s)"
  by (simp add: mark_decided_def update_where_def)

lemma mark_decided_ok:
  assumes "walking x s"
  shows "walking x (mark_decided asg s)"
proof (rule walkingI)
  note d = walkingD [OF assms]
  show "ids_inv (mark_decided asg s)"
    by (rule ids_inv_cong [OF d(1)])
      (simp_all add: mark_decided_def update_where_map split: option.splits)
  show "asks_inv (mark_decided asg s)" using d(2)
    by (auto simp: asks_inv_def exec_live_def mark_decided_def set_update_where split: option.splits)
  show "verdict_inv (mark_decided asg s)" using d(3)
    unfolding verdict_inv_def mark_decided_fields .
  show "result_inv (mark_decided asg s)" using d(4)
    unfolding result_inv_def result_backed_def mark_decided_fields .
  show "settled {x} (mark_decided asg s)" using d(5)
    unfolding settled_def parked_def mark_decided_fields .
qed

lemma finish_approval_ok:
  assumes w: "walking x s" and b: "busy x eid k t s"
    and r: "result_backed s eid (verdict_result v actor)"
    and fin: "finish_approval fuel reg now x d n eid v actor s = Some (Inr s')"
  shows "wf_inv s'"
proof -
  let ?s1 = "complete_execution now eid (verdict_result v actor) s"
  note c = complete_execution_ok [OF w b r]
  from fin obtain data q where
    q: "advance_or_fail reg now x d n (v = VPositive)
          (set_instance x (\<lambda>r. r\<lparr>pi_data := data\<rparr>) ?s1) = Inr q"
      "resume fuel reg now x d q = Some (Inr s')"
    by (auto simp: finish_approval_def rbind_fuel_Inr_iff verdict_result_def Let_def)
  have f: "keeps_identity (\<lambda>r. r\<lparr>pi_data := data\<rparr>)" by (simp add: keeps_identity_def)
  have "walking x (set_instance x (\<lambda>r. r\<lparr>pi_data := data\<rparr>) ?s1)"
    by (rule walking_set_instance [OF c(1) f])
  moreover have "idle x (set_instance x (\<lambda>r. r\<lparr>pi_data := data\<rparr>) ?s1)"
    by (rule idle_set_instance [OF c(2) f]) simp
  ultimately show ?thesis using q by (blast intro: resume_ok advance_ok)
qed

lemma decide_parts:
  assumes "decide fuel reg now iid actor v comment admin behalf s = Some (Inr t)"
  obtains i e asg s1 d n where
    "decide_checks iid actor v comment admin s = Inr (i, e, asg)"
    "insert_decision (ne_id e) actor v comment behalf s = Inr s1"
    "definition_of (mark_decided asg s1) i = Inr d" "node_by_key d (ne_node_key e) = Some n"
    "if v = VNegative \<or> quorum_any n \<or> all_assignees_decided_positive (mark_decided asg s1) (ne_id e)
     then finish_approval fuel reg now iid d n (ne_id e) v actor (mark_decided asg s1) = Some (Inr t)
     else t = mark_decided asg s1"
  using assms unfolding decide_def
  by (force simp: rbind_fuel_Inr_iff Let_def split: option.splits if_splits)

lemma decide_ok:
  assumes inv: "wf_inv s" and dec: "decide fuel reg now iid actor v comment admin behalf s = Some (Inr t)"
  shows "wf_inv t"
  using dec
proof (cases rule: decide_parts)
  case (1 i e asg s1 d n)
  note ck = decide_checks_ok [OF 1(1)]
  note e = load_active_ok [OF ck(3)]
  have w: "walking iid s" by (rule wf_inv_walking [OF inv])
  have i: "i \<in> set (ws_instances s)" "pi_id i = iid"
    using load_instance_Inr [OF walkingD(1) [OF w]] ck(1) by auto
  have g: "final_verdict v \<longrightarrow> ne_node_type e = NApproval \<and>
      (\<forall>j\<in>set (ws_instances s). pi_id j = iid \<longrightarrow> pi_initiated_by j \<noteq> Some actor)"
    using ck(4,6) the_instance_unique [OF walkingD(1) [OF w] i(1)] i(2) by metis
  have ei: "ne_instance_id e = iid" using e(2) by (simp add: active_of_def)
  note ins = insert_decision_ok [OF w e(1) ei g 1(2)]
  let ?s2 = "mark_decided asg s1"
  have w2: "walking iid ?s2" by (rule mark_decided_ok [OF ins(1)])
  have "busy iid (ne_id e) (ne_node_key e) (ne_node_type e) s" by (rule wf_inv_busy [OF inv e])
  then have b2: "busy iid (ne_id e) (ne_node_key e) (ne_node_type e) ?s2"
    unfolding busy_def the_instance_def mark_decided_fields ins(3,4) .
  have r2: "result_backed ?s2 (ne_id e) (verdict_result v actor)"
    using ins(2) [OF ck(5)] by (simp add: result_backed_def)
  show ?thesis
    using 1(5) finish_approval_ok [OF w2 b2 r2] rest_busy [OF w2 b2] ck(4)
    by (auto simp: parkable_def split: if_splits)
qed

subsection \<open>Asking and answering\<close>

lemma request_info_ok:
  assumes inv: "wf_inv s" and req: "request_info reg iid actor askee question admin s = Inr (aid, t)"
  shows "wf_inv t"
proof -
  have w: "walking iid s" by (rule wf_inv_walking [OF inv])
  from req obtain e s1 k p where e: "load_active_execution iid s = Inr e" "ne_node_type e = NApproval"
    and ins: "insert_decision (ne_id e) actor VRequestInfo (Some question) None s = Inr s1"
    and t: "t = emit reg k p (add_info (ne_id e) actor askee (PStr question) s1)"
    unfolding request_info_def by (auto simp: rbind_Inr_iff Let_def)
  note le = load_active_ok [OF e(1)]
  have ei: "ne_instance_id e = iid" using le(2) by (simp add: active_of_def)
  have g: "final_verdict VRequestInfo \<longrightarrow> ne_node_type e = NApproval \<and>
      (\<forall>j\<in>set (ws_instances s). pi_id j = iid \<longrightarrow> pi_initiated_by j \<noteq> Some actor)"
    by (simp add: final_verdict_def)
  note ok = insert_decision_ok [OF w le(1) ei g ins]
  have "busy iid (ne_id e) (ne_node_key e) (ne_node_type e) s" by (rule wf_inv_busy [OF inv le])
  then have b1: "busy iid (ne_id e) (ne_node_key e) (ne_node_type e) s1"
    unfolding busy_def the_instance_def ok(3,4) .
  have "walking iid (add_info (ne_id e) actor askee (PStr question) s1)"
    using ok(1) busy_live [OF b1] by (simp add: walking_def tables_add_info)
  from rest_busy [OF this, of "ne_id e"] b1 e(2) show ?thesis
    by (simp add: t parkable_def)
qed

lemma answered_ok:
  assumes "walking x s"
  shows "walking x (s\<lparr>ws_infos := update_where (\<lambda>r. ir_id r = aid)
                    (\<lambda>r. r\<lparr>ir_answer := a, ir_status := IrAnswered,
                           ir_answered_at := w\<rparr>) (ws_infos s)\<rparr>)"
    (is "walking x ?t")
proof (rule walkingI)
  note d = walkingD [OF assms]
  show "ids_inv ?t" by (rule ids_inv_cong [OF d(1)]) (simp_all add: update_where_map)
  show "asks_inv ?t" using d(2) by (auto simp: asks_inv_def exec_live_def ball_update_where)
  show "verdict_inv ?t" using d(3) by (subst verdict_inv_cong [where s = s]) simp_all
  show "result_inv ?t" using d(4) by (subst result_inv_cong [where s = s]) simp_all
  show "settled {x} ?t" using d(5) by (subst settled_cong [where s = s]) simp_all
qed

lemma finish_request_info_ok:
  assumes w: "walking x s" and b: "busy x (ne_id e) k NRequestInfo s"
    and fin: "finish_request_info fuel reg now x e answer actor s = Some (Inr t)"
  shows "wf_inv t"
proof -
  from fin obtain d n q data where
    q: "advance_or_fail reg now x d n True (set_instance x (\<lambda>r. r\<lparr>pi_data := data\<rparr>)
          (complete_execution now (ne_id e)
             [(''answer'', PStr answer), (''answered_by'', PInt actor)] s)) = Inr q"
      "resume fuel reg now x d q = Some (Inr t)"
    by (auto simp: finish_request_info_def rbind_fuel_Inr_iff Let_def split: option.splits)
  let ?s1 = "complete_execution now (ne_id e) [(''answer'', PStr answer), (''answered_by'', PInt actor)] s"
  have c: "walking x ?s1" "idle x ?s1" by (rule complete_execution_ok [OF w b], simp)+
  have f: "keeps_identity (\<lambda>r. r\<lparr>pi_data := data\<rparr>)" by (simp add: keeps_identity_def)
  have "walking x (set_instance x (\<lambda>r. r\<lparr>pi_data := data\<rparr>) ?s1)"
    by (rule walking_set_instance [OF c(1) f])
  moreover have "idle x (set_instance x (\<lambda>r. r\<lparr>pi_data := data\<rparr>) ?s1)"
    by (rule idle_set_instance [OF c(2) f]) simp
  ultimately show ?thesis using q by (blast intro: resume_ok advance_ok)
qed

lemma answer_info_parts:
  assumes "answer_info fuel reg now aid actor answer admin s = Some (Inr t)"
  obtains ask e i data s2 t' k p where
    "load_info aid s = Inr ask" "ir_status ask = IrPending" "actor = ir_asked_of ask \<or> admin"
    "\<not> blank answer" "load_execution (ir_execution_id ask) s = Inr e"
    "load_instance (ne_instance_id e) s = Inr i" "pi_status i = InRunning"
    "append_answer (pi_data i) (ne_node_key e) (ir_question ask) answer actor = Inr data"
    "s2 = set_instance (pi_id i) (\<lambda>r. r\<lparr>pi_data := data\<rparr>)
       (s\<lparr>ws_infos := update_where (\<lambda>r. ir_id r = aid)
                    (\<lambda>r. r\<lparr>ir_answer := Some answer, ir_status := IrAnswered,
                           ir_answered_at := Some now\<rparr>) (ws_infos s)\<rparr>)"
    "if ne_node_type e = NRequestInfo
     then finish_request_info fuel reg now (pi_id i) e answer actor s2 = Some (Inr t') else t' = s2"
    "t = emit reg k p t'"
proof -
  from assms obtain ask e i data where
    p: "load_info aid s = Inr ask" "ir_status ask = IrPending" "actor = ir_asked_of ask \<or> admin"
    "\<not> blank answer" "load_execution (ir_execution_id ask) s = Inr e"
    "load_instance (ne_instance_id e) s = Inr i" "pi_status i = InRunning"
    "append_answer (pi_data i) (ne_node_key e) (ir_question ask) answer actor = Inr data"
    by (auto simp: answer_info_def rbind_fuel_Inr_iff require_running_def)
  let ?s2 = "set_instance (pi_id i) (\<lambda>r. r\<lparr>pi_data := data\<rparr>)
       (s\<lparr>ws_infos := update_where (\<lambda>r. ir_id r = aid)
                    (\<lambda>r. r\<lparr>ir_answer := Some answer, ir_status := IrAnswered,
                           ir_answered_at := Some now\<rparr>) (ws_infos s)\<rparr>)"
  let ?r = "if ne_node_type e = NRequestInfo
            then finish_request_info fuel reg now (pi_id i) e answer actor ?s2 else Some (Inr ?s2)"
  from assms p have "map_option (map_sum id (emit reg (PStr ''info.answered'')
     [(''instance_id'', PInt (int (pi_id i))), (''info_request_id'', PInt (int aid))])) ?r = Some (Inr t)"
    by (simp add: answer_info_def require_running_def Let_def)
  then obtain t' where t': "?r = Some (Inr t')" "t = emit reg (PStr ''info.answered'')
     [(''instance_id'', PInt (int (pi_id i))), (''info_request_id'', PInt (int aid))] t'"
    unfolding map_option_sum_iff by blast
  from t'(1) have "if ne_node_type e = NRequestInfo
     then finish_request_info fuel reg now (pi_id i) e answer actor ?s2 = Some (Inr t') else t' = ?s2"
    by (simp split: if_splits)
  from that [OF p refl this t'(2)] show ?thesis .
qed

lemma answer_info_ok:
  assumes inv: "wf_inv s" and ans: "answer_info fuel reg now aid actor answer admin s = Some (Inr t)"
  shows "wf_inv t"
  using ans
proof (cases rule: answer_info_parts)
  case (1 ask e i data s2 t' k p)
  have d: "ids_inv s" "asks_inv s" using inv by (simp_all add: wf_inv_def tables_inv_def)
  have i: "pi_id i = ne_instance_id e" using load_instance_Inr [OF d(1)] 1(6) by simp
  have ask: "ask \<in> set (ws_infos s)"
    using 1(1) by (auto simp: load_info_def split: option.splits dest: row_by_Some_iff)
  have e: "e \<in> set (ws_execs s)" "ne_id e = ir_execution_id ask"
    using 1(5) by (auto simp: load_execution_def split: option.splits dest: row_by_Some_iff)
  from d(2) ask 1(2) have "exec_live s (ir_execution_id ask)" by (simp add: asks_inv_def)
  then obtain f where f: "f \<in> set (ws_execs s)" "ne_id f = ir_execution_id ask" "ne_status f = ExActive"
    by (auto simp: exec_live_def exists_where_iff)
  with e the_exec_unique [OF d(1) f(1) e(1)] have act: "active_of (pi_id i) e"
    by (simp add: active_of_def i)
  have w: "walking (pi_id i) s" by (rule wf_inv_walking [OF inv])
  note b = wf_inv_busy [OF inv e(1) act]
  let ?s1 = "s\<lparr>ws_infos := update_where (\<lambda>r. ir_id r = aid)
                    (\<lambda>r. r\<lparr>ir_answer := Some answer, ir_status := IrAnswered,
                           ir_answered_at := Some now\<rparr>) (ws_infos s)\<rparr>"
  have f1: "keeps_identity (\<lambda>r. r\<lparr>pi_data := data\<rparr>)" by (simp add: keeps_identity_def)
  have w2: "walking (pi_id i) s2" unfolding 1(9)
    by (rule walking_set_instance [OF answered_ok [OF w] f1])
  have "busy (pi_id i) (ne_id e) (ne_node_key e) (ne_node_type e) ?s1"
    using b(1) by (subst busy_same_tables(1) [where s = s]) simp_all
  then have b2: "busy (pi_id i) (ne_id e) (ne_node_key e) (ne_node_type e) s2" unfolding 1(9)
    by (rule busy_set_instance [OF _ f1]) simp_all
  show ?thesis
  proof (cases "ne_node_type e = NRequestInfo")
    case True
    with 1(10) b2 finish_request_info_ok [OF w2] show ?thesis by (simp add: 1(11))
  next
    case False
    with 1(10) rest_busy [OF w2 b2 b(2)] show ?thesis by (simp add: 1(11))
  qed
qed

subsection \<open>Cancel, retry, reassign\<close>

lemma filter_unique:
  assumes "distinct xs" "e \<in> set xs" "P e" "\<And>f. f \<in> set xs \<Longrightarrow> P f \<Longrightarrow> f = e"
  shows "filter P xs = [e]"
proof -
  from split_list [OF assms(2)] obtain ys zs where xs: "xs = ys @ e # zs" by blast
  have "\<not> P f" if "f \<in> set ys \<union> set zs" for f
    using assms(1) assms(4) [of f] that xs by auto
  then have "filter P ys = []" "filter P zs = []" by (simp_all add: filter_empty_conv)
  with xs assms(3) show ?thesis by simp
qed

text \<open>A running instance has one active execution: it is the one a cancel completes.\<close>

lemma cancel_parts:
  assumes inv: "wf_inv s" and c: "cancel reg now iid actor admin s = Inr t"
  obtains i e k p where "i \<in> set (ws_instances s)" "pi_id i = iid" "pi_status i = InRunning"
    "pi_initiated_by i = Some actor \<or> admin" "e \<in> set (ws_execs s)" "active_of iid e"
    "t = emit reg k p (set_instance iid (\<lambda>r. r\<lparr>pi_status := InCanceled, pi_completed_at := Some now,
                                        pi_current := None\<rparr>)
       (complete_execution now (ne_id e) [(''canceled'', PBool True)] s))"
proof -
  note d = walkingD [OF wf_inv_walking [OF inv, of iid]]
  from c obtain i k p where ck: "load_instance iid s = Inr i" "pi_status i = InRunning"
      "pi_initiated_by i = Some actor \<or> admin"
    and t: "t = emit reg k p (set_instance iid (\<lambda>r. r\<lparr>pi_status := InCanceled, pi_completed_at := Some now,
                                        pi_current := None\<rparr>)
       (fold (\<lambda>e st. complete_execution now (ne_id e) [(''canceled'', PBool True)] st)
          (filter (active_of iid) (ws_execs s)) s))"
    unfolding cancel_def by (auto simp: rbind_Inr_iff require_running_def Let_def)
  have i: "i \<in> set (ws_instances s)" "pi_id i = iid" using load_instance_Inr [OF d(1)] ck(1) by auto
  with inv ck(2) have "\<exists>!e. e \<in> set (ws_execs s) \<and> active_of iid e"
    by (auto simp: wf_inv_def settled_def)
  then obtain e where e: "e \<in> set (ws_execs s)" "active_of iid e"
    and uniq: "\<And>f. f \<in> set (ws_execs s) \<Longrightarrow> active_of iid f \<Longrightarrow> f = e" by auto
  have "distinct (ws_execs s)" using d(1) by (simp add: ids_inv_def distinct_map)
  then have one: "filter (active_of iid) (ws_execs s) = [e]"
    by (rule filter_unique) (use e uniq in blast)+
  from that [OF i ck(2,3) e, of k p] show ?thesis by (simp add: t one)
qed

lemma cancel_ok:
  assumes inv: "wf_inv s" and c: "cancel reg now iid actor admin s = Inr t"
  shows "wf_inv t"
  using inv c
proof (cases rule: cancel_parts)
  case (1 i e k p)
  have w: "walking iid s" by (rule wf_inv_walking [OF inv])
  let ?s1 = "complete_execution now (ne_id e) [(''canceled'', PBool True)] s"
  have b: "busy iid (ne_id e) (ne_node_key e) (ne_node_type e) s" by (rule wf_inv_busy [OF inv 1(5,6)])
  have c1: "walking iid ?s1" "idle iid ?s1"
    by (rule complete_execution_ok [OF w b], simp add: result_backed_def)+
  let ?f = "\<lambda>r. r\<lparr>pi_status := InCanceled, pi_completed_at := Some now, pi_current := None\<rparr>"
  have f: "keeps_identity ?f" by (simp add: keeps_identity_def)
  have "walking iid (set_instance iid ?f ?s1)" by (rule walking_set_instance [OF c1(1) f])
  moreover have "stopped iid (set_instance iid ?f ?s1)"
    by (rule stopped_set_instance [OF _ _ f]) (use c1(2) in \<open>auto simp: idle_def\<close>)
  ultimately show ?thesis unfolding 1(7) by (simp add: rest_stopped)
qed

lemma retry_parts:
  assumes inv: "wf_inv s" and r: "retry fuel reg now iid s = Some (Inr t)"
  obtains d k where
    "run_from fuel reg now iid d k
       (set_instance iid (\<lambda>r. r\<lparr>pi_status := InRunning, pi_error := None\<rparr>) s) = Some (Inr t)"
    "walking iid (set_instance iid (\<lambda>r. r\<lparr>pi_status := InRunning, pi_error := None\<rparr>) s)"
    "idle iid (set_instance iid (\<lambda>r. r\<lparr>pi_status := InRunning, pi_error := None\<rparr>) s)"
proof -
  have w: "walking iid s" by (rule wf_inv_walking [OF inv])
  let ?f = "\<lambda>r. r\<lparr>pi_status := InRunning, pi_error := None\<rparr>"
  from r obtain i d k where ck: "load_instance iid s = Inr i" "pi_status i = InError"
    and run: "run_from fuel reg now iid d k (set_instance iid ?f s) = Some (Inr t)"
    unfolding retry_def by (auto simp: rbind_fuel_Inr_iff split: option.splits)
  have i: "i \<in> set (ws_instances s)" "pi_id i = iid"
    using load_instance_Inr [OF walkingD(1) [OF w]] ck(1) by auto
  then have st: "stopped iid s" using wf_inv_idle [OF inv i(1)] ck(2) by simp
  have f: "keeps_identity ?f" by (simp add: keeps_identity_def)
  have w1: "walking iid (set_instance iid ?f s)" by (rule walking_set_instance [OF w f])
  have "the_instance iid (\<lambda>i. pi_status i = InRunning) (set_instance iid ?f s)"
    by (rule the_instance_set [OF _ f]) (use i in \<open>auto simp: the_instance_def\<close>)
  with st have "idle iid (set_instance iid ?f s)" by (simp add: idle_def stopped_def)
  with that run w1 show ?thesis by blast
qed

lemma retry_ok:
  assumes inv: "wf_inv s" and r: "retry fuel reg now iid s = Some (Inr t)"
  shows "wf_inv t"
  by (rule retry_parts [OF inv r]) (rule run_from_ok)

lemma reassign_ok:
  assumes inv: "wf_inv s" and r: "reassign aid m s = Inr (new, t)"
  shows "wf_inv t"
proof -
  have d: "ids_inv s" "asks_inv s" "verdict_inv s" "result_inv s" "settled {} s"
    using inv by (simp_all add: wf_inv_def tables_inv_def)
  let ?s1 = "s\<lparr>ws_assignees := update_where (\<lambda>r. na_id r = aid)
                         (\<lambda>r. r\<lparr>na_status := AsNotRequired\<rparr>) (ws_assignees s)\<rparr>"
  from r obtain a :: node_assignee and e where e: "load_execution (na_execution_id a) s = Inr e" "ne_status e = ExActive"
    and t: "t = add_assignee (ne_id e) (m, na_via a) (Some (na_member_id a)) ?s1"
    unfolding reassign_def by (auto simp: rbind_Inr_iff Let_def split: option.splits)
  have "ids_inv ?s1" by (rule ids_inv_cong [OF d(1)]) (simp_all add: update_where_map)
  moreover have "asks_inv ?s1" using d(2) by (auto simp: asks_inv_def exec_live_def ball_update_where)
  moreover have "verdict_inv ?s1" using d(3) by (subst verdict_inv_cong [where s = s]) simp_all
  moreover have "result_inv ?s1" using d(4) by (subst result_inv_cong [where s = s]) simp_all
  ultimately have tab: "tables_inv ?s1" by (simp add: tables_inv_def)
  have set: "settled {} ?s1" using d(5) by (subst settled_cong [where s = s]) simp_all
  have "e \<in> set (ws_execs s)"
    using e(1) by (auto simp: load_execution_def split: option.splits dest: row_by_Some_iff)
  with e(2) have "exec_live ?s1 (ne_id e)" by (auto simp: exec_live_def exists_where_iff)
  with tab set show ?thesis by (simp add: wf_inv_def t tables_add_assignee)
qed

end
