(* ===== verification/WfHistory.thy ===== *)
theory WfHistory
  imports WfConsistent
begin

text \<open>
  The audit trail of an instance only grows: decisions are appended, and an execution that is
  completed or in error is never written again.
\<close>

definition extends :: "'h wf_state \<Rightarrow> 'h wf_state \<Rightarrow> bool" where
  "extends s t \<longleftrightarrow>
     (\<exists>ds. ws_decisions t = ws_decisions s @ ds) \<and>
     (\<forall>e\<in>set (ws_execs s). ne_status e \<noteq> ExActive \<longrightarrow> e \<in> set (ws_execs t))"

lemma extends_refl [simp, intro]: "extends s s"
  by (simp add: extends_def)

lemma extends_trans [trans]: "extends s t \<Longrightarrow> extends t u \<Longrightarrow> extends s u"
  by (force simp: extends_def)

lemma extends_same:
  "ws_decisions t = ws_decisions s \<Longrightarrow> ws_execs t = ws_execs s \<Longrightarrow> extends s t"
  by (simp add: extends_def)

lemma extends_host [simp]:
  "extends s (t\<lparr>ws_host := h\<rparr>) = extends s t" "extends (s\<lparr>ws_host := h\<rparr>) t = extends s t"
  "extends s (emit reg k p t) = extends s t" "extends (emit reg k p s) t = extends s t"
  by (simp_all add: extends_def)

lemma extends_set_instance [simp]:
  "extends s (set_instance x f t) = extends s t" "extends (set_instance x f s) t = extends s t"
  by (simp_all add: extends_def)

lemma extends_activate:
  "activate_node reg x n i s = (eid, t) \<Longrightarrow> extends s t"
  by (auto simp: activate_node_def new_execution_def Let_def extends_def)

lemma extends_set_execution:
  assumes ids: "ids_inv s" and b: "busy x eid k t s"
  shows "extends s (set_execution eid f s)"
proof -
  have "ne_id e \<noteq> eid" if "e \<in> set (ws_execs s)" "ne_status e \<noteq> ExActive" for e
  proof
    assume id: "ne_id e = eid"
    from busyD(2) [OF b] obtain f where "f \<in> set (ws_execs s)" "ne_id f = eid" "ne_status f = ExActive"
      by (auto simp: active_of_def)
    with id that the_exec_unique [OF ids] show False by metis
  qed
  then show ?thesis by (force simp: extends_def set_update_where)
qed

lemma extends_complete:
  assumes "ids_inv s" "busy x eid k t s"
  shows "extends s (complete_execution now eid res s)"
proof -
  have "ws_execs (complete_execution now eid res s) = ws_execs (set_execution eid
      (\<lambda>e. e\<lparr>ne_status := ExCompleted, ne_result := res, ne_completed_at := Some now\<rparr>) s)"
    by (simp add: complete_execution_def)
  with extends_set_execution [OF assms] show ?thesis by (simp add: extends_def)
qed

lemma extends_fail:
  assumes "ids_inv s" "busy x eid k t s"
  shows "extends s (fail_instance reg now y (Some eid) exc s)"
  using extends_set_execution [OF assms] by (simp add: fail_instance_def Let_def)

lemma extends_fail_none: "extends s (fail_instance reg now y None exc s)"
  by (auto simp: fail_instance_def Let_def)

lemma extends_complete_instance:
  assumes "complete_instance reg now x d outcome s = Inr t"
  shows "extends s t"
proof -
  from assms obtain h k p f where "t = emit reg k p ((set_instance x f s)\<lparr>ws_host := h\<rparr>) \<or>
      t = emit reg k p (set_instance x f s)"
    by (auto simp: complete_instance_def Let_def rbind_Inr_iff split: option.splits)
  then show ?thesis by auto
qed

definition walk_state :: "'h walk \<Rightarrow> 'h wf_state" where
  "walk_state w = (case w of Walk k s \<Rightarrow> s | Parked s \<Rightarrow> s)"

lemma walk_state_simps [simp]:
  "walk_state (Walk k s) = s" "walk_state (Parked s) = s" "walk_state (walk_of r) = snd r"
  by (simp_all add: walk_state_def walk_of_def split: option.splits)

lemma extends_advance:
  assumes "advance_or_fail reg now x d n positive s = Inr r"
  shows "extends s (snd r)"
  using assms extends_complete_instance
  by (auto simp: advance_or_fail_def rbind_Inr_iff extends_fail_none split: option.splits if_splits)

lemma extends_advance_pair:
  "advance_or_fail reg now x d n positive s = Inr (k, t) \<Longrightarrow> extends s t"
  using extends_advance by fastforce

lemma extends_asks:
  "extends s (fold (\<lambda>mv st. add_assignee eid mv None st) ms s)"
  "extends s (fold (\<lambda>m st. add_info eid a m q (add_assignee eid (m, p) None st)) ns s)"
proof -
  have "ws_decisions (fold (\<lambda>mv st. add_assignee eid mv None st) ms s) = ws_decisions s \<and>
        ws_execs (fold (\<lambda>mv st. add_assignee eid mv None st) ms s) = ws_execs s"
    by (induction ms arbitrary: s) simp_all
  then show "extends s (fold (\<lambda>mv st. add_assignee eid mv None st) ms s)"
    by (simp add: extends_same)
  have "ws_decisions (fold (\<lambda>m st. add_info eid a m q (add_assignee eid (m, p) None st)) ns s) =
          ws_decisions s \<and>
        ws_execs (fold (\<lambda>m st. add_info eid a m q (add_assignee eid (m, p) None st)) ns s) =
          ws_execs s"
    by (induction ns arbitrary: s) simp_all
  then show "extends s (fold (\<lambda>m st. add_info eid a m q (add_assignee eid (m, p) None st)) ns s)"
    by (simp add: extends_same)
qed

lemma extends_activate_approval:
  assumes "ids_inv s" "busy x eid k t s" "activate_approval reg now x eid n s = Inr u"
  shows "extends s u"
proof -
  from assms(3) have "(\<exists>exc. u = fail_instance reg now x (Some eid) exc s) \<or>
    (\<exists>kd p ms. u = emit reg kd p (fold (\<lambda>mv st. add_assignee eid mv None st) ms s))"
    unfolding activate_approval_def
    by (elim rbind_InrE) (auto simp: Let_def split: if_splits)
  with extends_fail [OF assms(1,2)] extends_asks show ?thesis by auto
qed

lemma extends_activate_request_info:
  assumes "ids_inv s" "busy x eid k t s" "activate_request_info reg now x eid n s = Inr u"
  shows "extends s u"
proof -
  from assms(3) have "(\<exists>exc. u = fail_instance reg now x (Some eid) exc s) \<or>
    (\<exists>kd pl a q p ms. u = emit reg kd pl
       (fold (\<lambda>m st. add_info eid a m q (add_assignee eid (m, p) None st)) ms s))"
    unfolding activate_request_info_def
    by (elim rbind_InrE) (auto simp: Let_def rbind_Inr_iff split: if_splits, blast+)
  with extends_fail [OF assms(1,2)] extends_asks show ?thesis by auto
qed

lemma extends_run_system:
  assumes "ids_inv s" "busy x eid k t s" "run_system reg now x eid d n s = Inr w"
  shows "extends s (walk_state w)"
  using assms(3)
proof (cases rule: run_system_cases)
  case (failed h exc)
  have "ids_inv (s\<lparr>ws_host := h\<rparr>)" "busy x eid k t (s\<lparr>ws_host := h\<rparr>)" using assms(1,2) by simp_all
  from extends_fail [OF this] failed show ?thesis by simp
next
  case (produced h ps r)
  let ?f = "\<lambda>i. i\<lparr>pi_data := dmerge (pi_data i) ps\<rparr>"
  let ?s = "set_instance x ?f (s\<lparr>ws_host := h\<rparr>)"
  have "map pi_id (ws_instances ?s) = map pi_id (ws_instances s)"
    by (simp add: instance_ids_kept keeps_identity_def)
  then have ids: "ids_inv ?s" by (intro ids_inv_cong [OF assms(1)]) simp_all
  have b: "busy x eid k t ?s"
    by (rule busy_set_instance) (use assms(2) in \<open>simp_all add: keeps_identity_def\<close>)
  let ?c = "complete_execution now eid [(''produced'', PList (map PStr (sort (map fst ps))))] ?s"
  have "extends s ?c" using extends_complete [OF ids b] by simp
  also have "extends ?c (snd r)" by (rule extends_advance [OF produced(1)])
  finally show ?thesis by (simp add: produced(2))
qed

lemma extends_run_node:
  assumes "ids_inv s" "busy x eid k t s" "run_node reg now x eid d n s = Inr w"
  shows "extends s (walk_state w)"
proof -
  note c = extends_complete [OF assms(1,2)]
  have c': "extends s (complete_execution now eid res (emit reg kd p s))" for res kd p
    using extends_complete [of "emit reg kd p s" x eid k t] assms(1,2) emit_host_only [of reg kd p s]
    by auto
  from assms(3) show ?thesis
    by (auto simp: run_node_def rbind_Inr_iff map_sum_Inr_iff split: node_type.splits option.splits
        intro: extends_run_system [OF assms(1,2)] extends_activate_approval [OF assms(1,2)]
          extends_activate_request_info [OF assms(1,2)] extends_trans [OF c extends_advance_pair]
          extends_trans [OF c' extends_advance_pair] extends_trans [OF c extends_complete_instance])
qed

lemma extends_walk_step:
  assumes "walking x s" "idle x s" "walk_step reg now x d k s = Inr w"
  shows "extends s (walk_state w)"
proof -
  from assms(3) obtain n i where n: "load_instance x s = Inr i"
    and w: "(let (eid, s1) = activate_node reg x n i s in run_node reg now x eid d n s1) = Inr w"
    unfolding walk_step_def by (auto simp: rbind_Inr_iff split: option.splits)
  obtain eid s1 where a: "activate_node reg x n i s = (eid, s1)" by force
  have "pi_id i = x" using n load_instance_Inr [OF walkingD(1) [OF assms(1)]] by simp
  note ok = activate_node_ok [OF assms(1,2) this a]
  from w a have "run_node reg now x eid d n s1 = Inr w" by simp
  with extends_trans [OF extends_activate [OF a] extends_run_node [OF walkingD(1) [OF ok(1)] ok(2)]]
  show ?thesis by blast
qed

lemma extends_run_from:
  "walking x s \<Longrightarrow> idle x s \<Longrightarrow> run_from fuel reg now x d k s = Some (Inr t) \<Longrightarrow> extends s t"
proof (induction fuel arbitrary: k s)
  case 0
  then show ?case by simp
next
  case (Suc fuel)
  from Suc.prems(3) obtain w where w: "walk_step reg now x d k s = Inr w"
    and t: "(case w of Walk k' s' \<Rightarrow> run_from fuel reg now x d k' s' | Parked s' \<Rightarrow> Some (Inr s'))
            = Some (Inr t)"
    by (auto simp: rbind_fuel_Inr_iff)
  from extends_walk_step [OF Suc.prems(1,2) w] walk_step_ok [OF Suc.prems(1,2) w] t Suc.IH
  show ?case by (cases w) (auto intro: extends_trans)
qed

lemma extends_resume:
  assumes "walk_ok x (walk_of r)" "resume fuel reg now x d r = Some (Inr t)"
  shows "extends (snd r) t"
  using assms extends_run_from by (cases "fst r") (auto simp: resume_def walk_of_def)

text \<open>Completing the parked execution of an approval, and what the rest of the walk keeps of it.\<close>

lemma finish_approval_extends:
  assumes w: "walking x s" and b: "busy x eid k t s"
    and r: "result_backed s eid (verdict_result v actor)"
    and fin: "finish_approval fuel reg now x d n eid v actor s = Some (Inr s')"
  shows "extends (complete_execution now eid (verdict_result v actor) s) s'"
proof -
  let ?s1 = "complete_execution now eid (verdict_result v actor) s"
  note c = complete_execution_ok [OF w b r]
  from fin obtain data q where
    q: "advance_or_fail reg now x d n (v = VPositive)
          (set_instance x (\<lambda>r. r\<lparr>pi_data := data\<rparr>) ?s1) = Inr q"
      "resume fuel reg now x d q = Some (Inr s')"
    by (auto simp: finish_approval_def rbind_fuel_Inr_iff verdict_result_def Let_def)
  have f: "keeps_identity (\<lambda>r. r\<lparr>pi_data := data\<rparr>)" by (simp add: keeps_identity_def)
  have "walking x (set_instance x (\<lambda>r. r\<lparr>pi_data := data\<rparr>) ?s1)"
    by (rule walking_set_instance [OF c(1) f])
  moreover have "idle x (set_instance x (\<lambda>r. r\<lparr>pi_data := data\<rparr>) ?s1)"
    by (rule idle_set_instance [OF c(2) f]) simp
  ultimately have "extends (snd q) s'" using q by (blast intro: extends_resume advance_ok)
  with extends_advance [OF q(1)] show ?thesis by (auto intro: extends_trans)
qed

subsection \<open>The operations\<close>

lemma extends_open:
  assumes "wf_inv s" "open_instance fuel reg now a s = Some (Inr (iid, t))"
  shows "extends s t"
proof -
  from assms(2) obtain d where d: "pick_definition a s = Inr d"
    by (auto simp: open_instance_def rbind_fuel_Inr_iff)
  obtain i s1 where n: "new_instance reg a d s = (i, s1)" by force
  from assms(2) d n obtain st k p where
    "run_from fuel reg now (pi_id i) d st (emit reg k p s1) = Some (Inr t)"
    by (auto simp: open_instance_def map_sum_Inr_iff split: option.splits)
  with new_instance_ok [OF assms(1) n] have "extends (emit reg k p s1) t"
    by (intro extends_run_from) auto
  moreover have "extends s s1" using n by (auto simp: new_instance_def Let_def extends_def)
  ultimately show ?thesis by (auto intro: extends_trans)
qed

text \<open>A decision is recorded, and where it settles the step, the step carries its verdict.\<close>

lemma decide_outcome:
  assumes inv: "wf_inv s" and dec: "decide fuel reg now iid actor v comment admin behalf s = Some (Inr t)"
  obtains i e asg s1 d n where
    "decide_checks iid actor v comment admin s = Inr (i, e, asg)"
    "insert_decision (ne_id e) actor v comment behalf s = Inr s1"
    "definition_of s i = Inr d" "node_by_key d (ne_node_key e) = Some n"
    "extends s1 t" "extends s t"
    "if v = VNegative \<or> quorum_any n \<or> all_assignees_decided_positive (mark_decided asg s1) (ne_id e)
     then extends (complete_execution now (ne_id e) (verdict_result v actor) (mark_decided asg s1)) t
     else t = mark_decided asg s1"
  using dec
proof (cases rule: decide_parts)
  case (1 i e asg s1 d n)
  note ck = decide_checks_ok [OF 1(1)]
  note e = load_active_ok [OF ck(3)]
  have w: "walking iid s" by (rule wf_inv_walking [OF inv])
  have i: "i \<in> set (ws_instances s)" "pi_id i = iid"
    using load_instance_Inr [OF walkingD(1) [OF w]] ck(1) by auto
  have g: "final_verdict v \<longrightarrow> ne_node_type e = NApproval \<and>
      (\<forall>j\<in>set (ws_instances s). pi_id j = iid \<longrightarrow> pi_initiated_by j \<noteq> Some actor)"
    using ck(4,6) the_instance_unique [OF walkingD(1) [OF w] i(1)] i(2) by metis
  have ei: "ne_instance_id e = iid" using e(2) by (simp add: active_of_def)
  note ins = insert_decision_ok [OF w e(1) ei g 1(2)]
  let ?s2 = "mark_decided asg s1"
  have w2: "walking iid ?s2" by (rule mark_decided_ok [OF ins(1)])
  have "busy iid (ne_id e) (ne_node_key e) (ne_node_type e) s" by (rule wf_inv_busy [OF inv e])
  then have b2: "busy iid (ne_id e) (ne_node_key e) (ne_node_type e) ?s2"
    unfolding busy_def the_instance_def mark_decided_fields ins(3,4) .
  have r2: "result_backed ?s2 (ne_id e) (verdict_result v actor)"
    using ins(2) [OF ck(5)] by (simp add: result_backed_def)
  have e12: "extends s1 ?s2" by (rule extends_same) simp_all
  have es1: "extends s s1" using 1(2) by (auto simp: insert_decision_Inr extends_def)
  have fin: "if v = VNegative \<or> quorum_any n \<or> all_assignees_decided_positive ?s2 (ne_id e)
     then extends (complete_execution now (ne_id e) (verdict_result v actor) ?s2) t
     else t = ?s2"
  proof (cases "v = VNegative \<or> quorum_any n \<or> all_assignees_decided_positive ?s2 (ne_id e)")
    case True
    with 1(5) have "finish_approval fuel reg now iid d n (ne_id e) v actor ?s2 = Some (Inr t)"
      by (simp only: if_True)
    from finish_approval_extends [OF w2 b2 r2 this] True show ?thesis by (simp only: if_True)
  next
    case False
    with 1(5) show ?thesis by (simp only: if_False)
  qed
  have ext: "extends s1 t"
    using fin e12 extends_trans [OF e12 extends_trans [OF extends_complete [OF walkingD(1) [OF w2] b2]]]
    by (simp split: if_splits)
  have d: "definition_of s i = Inr d" using 1(3) ins(6) by (simp add: definition_of_def)
  from that [OF 1(1,2) d 1(4) ext extends_trans [OF es1 ext] fin] show ?thesis .
qed

lemma extends_answer:
  assumes inv: "wf_inv s" and ans: "answer_info fuel reg now aid actor answer admin s = Some (Inr t)"
  shows "extends s t"
  using ans
proof (cases rule: answer_info_parts)
  case (1 ask e i data s2 t' k p)
  have w: "walking (pi_id i) s" by (rule wf_inv_walking [OF inv])
  have ids: "ids_inv s" using walkingD(1) [OF w] .
  have same: "extends s s2" unfolding 1(9) by (simp add: extends_def)
  show ?thesis
  proof (cases "ne_node_type e = NRequestInfo")
    case False
    with 1(10) same show ?thesis by (simp add: 1(11))
  next
    case True
    have i: "pi_id i = ne_instance_id e" using load_instance_Inr [OF ids] 1(6) by simp
    have e: "e \<in> set (ws_execs s)" "ne_id e = ir_execution_id ask"
      using 1(5) by (auto simp: load_execution_def split: option.splits dest: row_by_Some_iff)
    have "ask \<in> set (ws_infos s)"
      using 1(1) by (auto simp: load_info_def split: option.splits dest: row_by_Some_iff)
    with inv 1(2) have "exec_live s (ir_execution_id ask)"
      by (simp add: wf_inv_def tables_inv_def asks_inv_def)
    then obtain f where f: "f \<in> set (ws_execs s)" "ne_id f = ir_execution_id ask" "ne_status f = ExActive"
      by (auto simp: exec_live_def exists_where_iff)
    with e the_exec_unique [OF ids f(1) e(1)] have act: "active_of (pi_id i) e"
      by (simp add: active_of_def i)
    note b = wf_inv_busy(1) [OF inv e(1) act]
    have f1: "keeps_identity (\<lambda>r. r\<lparr>pi_data := x\<rparr>)" for x by (simp add: keeps_identity_def)
    have w2: "walking (pi_id i) s2" unfolding 1(9)
      by (rule walking_set_instance [OF answered_ok [OF w] f1])
    have b2: "busy (pi_id i) (ne_id e) (ne_node_key e) (ne_node_type e) s2" unfolding 1(9)
      by (rule busy_set_instance [OF _ f1])
        (use b in \<open>simp_all add: busy_def the_instance_def\<close>)
    from 1(10) True have fin: "finish_request_info fuel reg now (pi_id i) e answer actor s2 = Some (Inr t')"
      by simp
    then obtain d n q data' where
      q: "advance_or_fail reg now (pi_id i) d n True (set_instance (pi_id i) (\<lambda>r. r\<lparr>pi_data := data'\<rparr>)
          (complete_execution now (ne_id e)
             [(''answer'', PStr answer), (''answered_by'', PInt actor)] s2)) = Inr q"
        "resume fuel reg now (pi_id i) d q = Some (Inr t')"
      by (auto simp: finish_request_info_def rbind_fuel_Inr_iff Let_def split: option.splits)
    let ?c = "complete_execution now (ne_id e) [(''answer'', PStr answer), (''answered_by'', PInt actor)] s2"
    have c: "walking (pi_id i) ?c" "idle (pi_id i) ?c"
      by (rule complete_execution_ok [OF w2 b2], simp add: True)+
    have "walk_ok (pi_id i) (walk_of q)"
      by (rule advance_ok [OF walking_set_instance [OF c(1) f1] idle_set_instance [OF c(2) f1] q(1)]) simp
    from extends_resume [OF this q(2)] have "extends (snd q) t'" .
    moreover have "extends ?c (snd q)" using extends_advance [OF q(1)] by simp
    moreover have "extends s2 ?c" by (rule extends_complete [OF walkingD(1) [OF w2] b2])
    ultimately show ?thesis using same by (simp add: 1(11)) (blast intro: extends_trans)
  qed
qed

lemma extends_cancel:
  assumes inv: "wf_inv s" and c: "cancel reg now iid actor admin s = Inr t"
  shows "extends s t"
  using inv c
proof (cases rule: cancel_parts)
  case (1 i e k p)
  have "extends s (complete_execution now (ne_id e) [(''canceled'', PBool True)] s)"
    by (rule extends_complete [OF walkingD(1) [OF wf_inv_walking [OF inv]] wf_inv_busy(1) [OF inv 1(5,6)]])
  then show ?thesis by (simp add: 1(7))
qed

lemma extends_retry:
  assumes inv: "wf_inv s" and r: "retry fuel reg now iid s = Some (Inr t)"
  shows "extends s t"
proof (rule retry_parts [OF inv r])
  fix d k
  let ?s = "set_instance iid (\<lambda>r. r\<lparr>pi_status := InRunning, pi_error := None\<rparr>) s"
  assume "run_from fuel reg now iid d k ?s = Some (Inr t)" "walking iid ?s" "idle iid ?s"
  from extends_run_from [OF this(2,3,1)] show ?thesis by simp
qed

lemma extends_ops:
  "request_info reg iid actor askee question admin s = Inr (aid, t) \<Longrightarrow> extends s t"
  "reassign a m s = Inr (new, t) \<Longrightarrow> extends s t"
  by (auto simp: request_info_def rbind_Inr_iff Let_def insert_decision_Inr extends_def
      reassign_def split: option.splits)

end
