(* ===== verification/WfFlow.thy ===== *)
theory WfFlow
  imports WfWalk
begin

text \<open>
  What validation buys the walk: in a definition published from an accepted spec every automatic
  node has a next node, and conditions never raise; and how much fuel a walk needs.
\<close>

subsection \<open>Published transitions are the spec's, in declared order\<close>

lemma transitions_from_row:
  "map (\<lambda>t. (pt_to t, pt_condition t)) (transitions_from (definition_row i v h now spec) k) =
   map (\<lambda>t. (ts_to t, ts_condition t)) (filter (\<lambda>t. ts_from t = k) (ds_transitions spec))"
proof -
  let ?f = "\<lambda>(i, t). \<lparr>pt_from = ts_from t, pt_to = ts_to t, pt_sort = i, pt_condition = ts_condition t\<rparr>"
  let ?ts = "map ?f (enumerate 0 (ds_transitions spec))"
  have "map pt_sort ?ts = [0..<length (ds_transitions spec)]"
    by (simp add: case_prod_beta comp_def map_fst_enumerate [unfolded fst_def] fst_def [symmetric])
  then have "sorted (map pt_sort ?ts)" by (metis sorted_upt)
  then have "sorted (map pt_sort (filter (\<lambda>t. pt_from t = k) ?ts))" by (rule sorted_filter)
  then have ts: "transitions_from (definition_row i v h now spec) k = filter (\<lambda>t. pt_from t = k) ?ts"
    by (simp add: transitions_from_def definition_row_def sort_key_id_if_sorted)
  have "map (\<lambda>t. (pt_to t, pt_condition t)) (filter (\<lambda>t. pt_from t = k) (map ?f (enumerate m xs))) =
        map (\<lambda>t. (ts_to t, ts_condition t)) (filter (\<lambda>t. ts_from t = k) xs)" for m xs
    by (induction xs arbitrary: m) auto
  with ts show ?thesis by simp
qed

lemma node_by_key_row:
  "node_by_key (definition_row i v h now spec) k =
   map_option (\<lambda>n. \<lparr>pn_key = ns_key n, pn_name = ns_name n, pn_type = ns_type n,
                    pn_config = ns_config n\<rparr>) (spec_node spec k)"
proof -
  have "row_by pn_key k (map (\<lambda>n. \<lparr>pn_key = ns_key n, pn_name = ns_name n, pn_type = ns_type n,
                    pn_config = ns_config n\<rparr>) ns) =
        map_option (\<lambda>n. \<lparr>pn_key = ns_key n, pn_name = ns_name n, pn_type = ns_type n,
                    pn_config = ns_config n\<rparr>) (row_by ns_key k ns)" for ns
    by (induction ns) auto
  then show ?thesis by (simp add: node_by_key_def spec_node_def definition_row_def rev_map)
qed

subsection \<open>A default branch decides\<close>

lemma first_match_default:
  assumes "ts \<noteq> []" "pt_condition (last ts) = PNone"
    "\<And>t. t \<in> set ts \<Longrightarrow> check_condition_shape (pt_condition t) = []"
  shows "\<exists>t\<in>set ts. first_match ts data True = Inr (Some (pt_to t))"
  using assms
proof (induction ts)
  case Nil
  then show ?case by simp
next
  case (Cons t ts)
  obtain b where b: "evaluate_condition (pt_condition t) data = Inr b"
    using evaluate_total_if_shaped Cons.prems(3) by (metis list.set_intros(1))
  show ?case
  proof (cases b)
    case True
    with b show ?thesis by auto
  next
    case False
    have "ts \<noteq> []"
    proof
      assume "ts = []"
      with Cons.prems(2) b False show False by (simp add: evaluate_condition_def)
    qed
    with Cons.IH Cons.prems b False show ?thesis by auto
  qed
qed

lemma well_formed_next:
  assumes wf: "well_formed_spec spec" and n: "n \<in> set (ds_nodes spec)" "ns_type n \<noteq> NEnd"
    and default: "ts_condition (last (outs_of spec (ns_key n))) = PNone"
  shows "\<exists>k m. select_next (definition_row i v h now spec) (ns_key n) data True = Inr (Some k) \<and>
            node_by_key (definition_row i v h now spec) k = Some m"
proof -
  let ?d = "definition_row i v h now spec"
  let ?ts = "transitions_from ?d (ns_key n)"
  have counts: "\<forall>t\<in>set (ds_transitions spec).
      transition_counts spec t \<and> check_condition_shape (ts_condition t) = []"
    using wf by (simp add: well_formed_spec_def)
  then have outs: "outs_of spec (ns_key n) = filter (\<lambda>t. ts_from t = ns_key n) (ds_transitions spec)"
    by (auto simp: outs_of_def intro!: filter_cong)
  have ne: "outs_of spec (ns_key n) \<noteq> []"
    using wf n by (auto simp: well_formed_spec_def Let_def)
  have same: "map (\<lambda>t. (pt_to t, pt_condition t)) ?ts =
      map (\<lambda>t. (ts_to t, ts_condition t)) (outs_of spec (ns_key n))"
    unfolding outs by (rule transitions_from_row)
  with ne have "?ts \<noteq> []" by (metis map_is_Nil_conv)
  have "map snd (map (\<lambda>t. (pt_to t, pt_condition t)) ?ts) =
        map snd (map (\<lambda>t. (ts_to t, ts_condition t)) (outs_of spec (ns_key n)))"
    unfolding same ..
  then have conds: "map pt_condition ?ts = map ts_condition (outs_of spec (ns_key n))"
    by (simp add: comp_def)
  have last: "pt_condition (last ?ts) = PNone"
    using conds default ne \<open>?ts \<noteq> []\<close> by (metis last_map)
  have shaped: "check_condition_shape (pt_condition t) = []" if "t \<in> set ?ts" for t
  proof -
    have "pt_condition t \<in> set (map pt_condition ?ts)" using that by simp
    with conds counts show ?thesis by (auto simp: outs)
  qed
  from first_match_default [OF \<open>?ts \<noteq> []\<close> last shaped, of data]
  obtain t where t: "t \<in> set ?ts" "first_match ?ts data True = Inr (Some (pt_to t))" by blast
  have "(pt_to t, pt_condition t) \<in> set (map (\<lambda>t. (ts_to t, ts_condition t)) (outs_of spec (ns_key n)))"
    using t(1) unfolding same [symmetric] by simp
  then obtain u where u: "u \<in> set (ds_transitions spec)" "ts_to u = pt_to t" by (auto simp: outs)
  with counts have "transition_counts spec u" by blast
  with u(2) have "spec_node spec (pt_to t) \<noteq> None"
    by (cases "spec_node spec (pt_to t)") (auto simp: transition_counts_def split: option.splits)
  then show ?thesis using t(2) by (auto simp: select_next_def node_by_key_row)
qed

subsection \<open>Fuel\<close>

definition automatic :: "node_type \<Rightarrow> bool" where
  "automatic t = (t = NStart \<or> t = NNotify \<or> t = NSystem)"

text \<open>A rank of the nodes that every transition out of an automatic node lowers.\<close>

definition auto_ranked :: "process_definition \<Rightarrow> (string \<Rightarrow> nat) \<Rightarrow> bool" where
  "auto_ranked d rank =
     list_all (\<lambda>t. case node_by_key d (pt_from t) of
                     Some n \<Rightarrow> automatic (pn_type n) \<longrightarrow> rank (pt_to t) < rank (pt_from t)
                   | None \<Rightarrow> True) (pd_transitions d)"

lemma first_match_in:
  "first_match ts data b = Inr (Some k) \<Longrightarrow> \<exists>t\<in>set ts. pt_to t = k"
  by (induction ts) (auto simp: rbind_Inr_iff split: if_splits)

lemma advance_walk:
  assumes "advance_or_fail reg now x d n True s = Inr r" "walk_of r = Walk k s'"
  shows "\<exists>t\<in>set (pd_transitions d). pt_from t = pn_key n \<and> pt_to t = k"
proof -
  from assms obtain i :: process_instance
    where "select_next d (pn_key n) (pi_data i) True = Inr (Some k)"
    by (auto simp: advance_or_fail_def walk_of_def rbind_Inr_iff split: option.splits)
  then show ?thesis
    by (auto simp: select_next_def transitions_from_def dest!: first_match_in)
qed

lemma run_node_walk:
  assumes "run_node reg now x eid d n s = Inr (Walk k s')"
  shows "automatic (pn_type n) \<and> (\<exists>t\<in>set (pd_transitions d). pt_from t = pn_key n \<and> pt_to t = k)"
proof (cases "pn_type n")
  case NSystem
  with assms have "run_system reg now x eid d n s = Inr (Walk k s')" by (simp add: run_node_def)
  then have "\<exists>s2 r. advance_or_fail reg now x d n True s2 = Inr r \<and> walk_of r = Walk k s'"
  proof (cases rule: run_system_cases)
    case (produced h ps r)
    from produced(1) produced(2) [symmetric] show ?thesis by blast
  qed simp
  with NSystem show ?thesis by (auto simp: automatic_def dest: advance_walk)
next
  case NStart
  with assms have "\<exists>s2 r. advance_or_fail reg now x d n True s2 = Inr r \<and> walk_of r = Walk k s'"
    by (auto simp: run_node_def rbind_Inr_iff)
  with NStart show ?thesis by (auto simp: automatic_def dest: advance_walk)
next
  case NNotify
  with assms have "\<exists>s2 r. advance_or_fail reg now x d n True s2 = Inr r \<and> walk_of r = Walk k s'"
    by (auto simp: run_node_def rbind_Inr_iff)
  with NNotify show ?thesis by (auto simp: automatic_def dest: advance_walk)
qed (use assms in \<open>auto simp: run_node_def map_sum_def split: sum.splits option.splits\<close>)

lemma node_by_key_Some: "node_by_key d k = Some n \<Longrightarrow> pn_key n = k"
  by (auto simp: node_by_key_def dest: row_by_Some_iff)

lemma walk_step_ranked:
  assumes "auto_ranked d rank" "walk_step reg now x d k s = Inr (Walk k' s')"
  shows "rank k' < rank k"
proof -
  from assms(2) obtain n eid s1 where n: "node_by_key d k = Some n"
    and r: "run_node reg now x eid d n s1 = Inr (Walk k' s')"
    unfolding walk_step_def
    by (cases "node_by_key d k") (auto simp: Let_def case_prod_beta elim!: rbind_InrE)
  from run_node_walk [OF r] node_by_key_Some [OF n] obtain t where
    "automatic (pn_type n)" "t \<in> set (pd_transitions d)" "pt_from t = k" "pt_to t = k'" by auto
  with assms(1) n show ?thesis by (force simp: auto_ranked_def list_all_iff)
qed

lemma run_from_fuel:
  assumes "auto_ranked d rank" "rank k < fuel"
  shows "run_from fuel reg now x d k s \<noteq> None"
  using assms(2)
proof (induction fuel arbitrary: k s)
  case 0
  then show ?case by simp
next
  case (Suc fuel)
  show ?case
  proof (cases "walk_step reg now x d k s")
    case (Inr w)
    show ?thesis
    proof (cases w)
      case (Walk k' s')
      with Inr walk_step_ranked [OF assms(1)] Suc.prems have "rank k' < fuel" by fastforce
      with Suc.IH Inr Walk show ?thesis by simp
    qed (simp add: Inr)
  qed simp
qed

subsection \<open>A definition that validates and never returns\<close>

text \<open>
  A notify node whose default branch leads back to itself: the end is reachable along the
  conditional branch, so the reachability check passes.
\<close>

definition loop_spec :: definition_spec where
  "loop_spec =
     \<lparr>ds_key = ''poll'', ds_name = ''Poll'', ds_entity_type = ''req'',
      ds_nodes =
        [\<lparr>ns_key = ''start'', ns_name = ''Start'', ns_type = NStart, ns_config = []\<rparr>,
         \<lparr>ns_key = ''wait'', ns_name = ''Wait'', ns_type = NNotify,
          ns_config = [(''event'', PStr ''poll.tick'')]\<rparr>,
         \<lparr>ns_key = ''end'', ns_name = ''End'', ns_type = NEnd,
          ns_config = [(''outcome'', PStr ''done'')]\<rparr>],
      ds_transitions =
        [\<lparr>ts_from = ''start'', ts_to = ''wait'', ts_condition = PNone\<rparr>,
         \<lparr>ts_from = ''wait'', ts_to = ''end'', ts_condition =
            PDict [(''field'', PStr ''ready''), (''op'', PStr ''eq''), (''value'', PBool True)]\<rparr>,
         \<lparr>ts_from = ''wait'', ts_to = ''wait'', ts_condition = PNone\<rparr>],
      ds_data_fields = [''ready''], ds_purpose = None\<rparr>"

lemma loop_spec_valid: "validate_definition empty_registry None loop_spec = Inr ()"
  by code_simp

lemma walk_step_loop:
  assumes d: "d = definition_row i v h now0 loop_spec"
    and load: "load_instance x s = Inr inst" "pi_data inst = []"
  shows "\<exists>s' inst'. walk_step empty_registry now x d ''wait'' s = Inr (Walk ''wait'' s') \<and>
           load_instance x s' = Inr inst' \<and> pi_data inst' = []"
proof -
  let ?n = "\<lparr>pn_key = ''wait'', pn_name = ''Wait'', pn_type = NNotify,
          pn_config = [(''event'', PStr ''poll.tick'')]\<rparr>"
  have n: "node_by_key d ''wait'' = Some ?n"
    by (simp add: d node_by_key_row spec_node_def loop_spec_def)
  obtain eid s1 where a: "activate_node empty_registry x ?n inst s = (eid, s1)" by force
  have emit: "emit empty_registry k p t = t" for k p and t :: "'a wf_state"
    by (simp add: emit_def empty_registry_def)
  let ?s2 = "complete_execution now eid [] s1"
  have x: "row_by pi_id x (ws_instances s) = Some inst"
    using load(1) by (auto simp: load_instance_def split: option.splits)
  have s1: "ws_instances s1 = update_where (\<lambda>r. pi_id r = x) (\<lambda>i. i\<lparr>pi_current := Some ''wait''\<rparr>)
       (ws_instances s)"
    using a by (auto simp: activate_node_def new_execution_def Let_def emit set_instance_def)
  have upd: "row_update pi_id (\<lambda>r. pi_id r = x) (\<lambda>i. i\<lparr>pi_current := Some ''wait''\<rparr>)"
    by unfold_locales simp
  have inst2: "load_instance x ?s2 = Inr (inst\<lparr>pi_current := Some ''wait''\<rparr>)"
    using x row_by_Some_iff [OF x]
    by (simp add: load_instance_def complete_execution_def set_execution_def s1
        row_update.row_after [OF upd])
  have sel: "select_next d ''wait'' [] True = Inr (Some ''wait'')"
  proof -
    have "map (\<lambda>t. (pt_to t, pt_condition t)) (transitions_from d ''wait'') =
        [(''end'', PDict [(''field'', PStr ''ready''), (''op'', PStr ''eq''), (''value'', PBool True)]),
         (''wait'', PNone)]"
      unfolding d transitions_from_row by (simp add: loop_spec_def)
    then obtain t1 t2 where "transitions_from d ''wait'' = [t1, t2]" "pt_to t2 = ''wait''"
      "pt_condition t1 = PDict [(''field'', PStr ''ready''), (''op'', PStr ''eq''), (''value'', PBool True)]"
      "pt_condition t2 = PNone" by auto
    then show ?thesis
      by (simp add: select_next_def evaluate_condition_def clause_def clause_op_def get_path_def
          dget_or_none_def)
  qed
  have "advance_or_fail empty_registry now x d ?n True ?s2 = Inr (Some ''wait'', ?s2)"
    using inst2 load(2) sel by (simp add: advance_or_fail_def)
  then have "run_node empty_registry now x eid d ?n s1 = Inr (Walk ''wait'' ?s2)"
    by (simp add: run_node_def notify_event_def or_empty_def emit walk_of_def)
  with n a load inst2 show ?thesis by (auto simp: walk_step_def)
qed

lemma run_from_loop:
  assumes "d = definition_row i v h now0 loop_spec" "load_instance x s = Inr inst" "pi_data inst = []"
  shows "run_from fuel empty_registry now x d ''wait'' s = None"
  using assms(2,3)
proof (induction fuel arbitrary: s inst)
  case 0
  then show ?case by simp
next
  case (Suc fuel)
  from walk_step_loop [OF assms(1) Suc.prems, of now] Suc.IH show ?case by auto
qed

end
