(* ===== verification/WfTheorems.thy ===== *)
theory WfTheorems
  imports WfHistory WfFlow
begin

text \<open>
  The engine as a transition system and what holds of it: the properties of the workflow package,
  with witnesses on a two-node approval process.
\<close>

subsection \<open>The operations as steps\<close>

text \<open>
  One committed transaction of a host that runs the registry \<open>reg\<close>; a raised exception rolls
  back and is no step.  Between transactions the host may change its own part of the state.
\<close>

inductive wf_step :: "'h wf_registry \<Rightarrow> 'h wf_state \<Rightarrow> 'h wf_state \<Rightarrow> bool" for reg where
  wf_open: "open_instance fuel reg now a s = Some (Inr (iid, t)) \<Longrightarrow> wf_step reg s t"
| wf_decide: "decide fuel reg now iid actor v comment admin behalf s = Some (Inr t) \<Longrightarrow> wf_step reg s t"
| wf_request: "request_info reg iid actor askee question admin s = Inr (aid, t) \<Longrightarrow> wf_step reg s t"
| wf_answer: "answer_info fuel reg now aid actor answer admin s = Some (Inr t) \<Longrightarrow> wf_step reg s t"
| wf_cancel: "cancel reg now iid actor admin s = Inr t \<Longrightarrow> wf_step reg s t"
| wf_retry: "retry fuel reg now iid s = Some (Inr t) \<Longrightarrow> wf_step reg s t"
| wf_reassign: "reassign aid m s = Inr (new, t) \<Longrightarrow> wf_step reg s t"
| wf_ensure: "ensure_definition digest reg now spec s = Inr (d, t) \<Longrightarrow> wf_step reg s t"
| wf_binding: "set_binding etype eid purpose key s = Inr (b, t) \<Longrightarrow> wf_step reg s t"
| wf_host: "wf_step reg s (s\<lparr>ws_host := h\<rparr>)"

definition wf_initial :: "'h wf_state \<Rightarrow> bool" where
  "wf_initial s \<longleftrightarrow> (\<exists>h. s = empty_wf_state h)"

lemma wf_inv_empty: "wf_inv (empty_wf_state h)"
  by (simp add: wf_inv_def tables_inv_def wf_unfold decisions_ix_def empty_wf_state_def)

lemma wf_inv_same_tables:
  assumes "wf_inv s" "ws_instances t = ws_instances s" "ws_next_instance t = ws_next_instance s"
    "ws_execs t = ws_execs s" "ws_next_exec t = ws_next_exec s"
    "ws_assignees t = ws_assignees s" "ws_next_assignee t = ws_next_assignee s"
    "ws_decisions t = ws_decisions s" "ws_next_decision t = ws_next_decision s"
    "ws_infos t = ws_infos s" "ws_next_info t = ws_next_info s"
  shows "wf_inv t"
proof -
  from assms(1) have d: "ids_inv s" "asks_inv s" "verdict_inv s" "result_inv s" "settled {} s"
    by (simp_all add: wf_inv_def tables_inv_def)
  have "ids_inv t" by (rule ids_inv_cong [OF d(1)]) (simp_all only: assms(2-11))
  moreover have "asks_inv t" using d(2) unfolding asks_inv_def exec_live_def assms(2-11) .
  moreover have "verdict_inv t" using d(3) unfolding verdict_inv_def assms(2-11) .
  moreover have "result_inv t" using d(4) unfolding result_inv_def result_backed_def assms(2-11) .
  moreover have "settled {} t" using d(5) unfolding settled_def parked_def assms(2-11) .
  ultimately show ?thesis by (simp add: wf_inv_def tables_inv_def)
qed

lemma ensure_tables:
  assumes "ensure_definition digest reg now spec s = Inr (d, t)"
  obtains ds n where "t = s\<lparr>ws_defs := ds, ws_next_def := n\<rparr>"
  using assms
proof (cases rule: ensure_definition_cases)
  case unchanged
  then show ?thesis by (intro that [where ds = "ws_defs s" and n = "ws_next_def s"]) simp
next
  case inserted
  then show ?thesis using that by blast
qed

lemma set_binding_tables:
  assumes "set_binding etype eid purpose key s = Inr (b, t)"
  obtains bs where "t = s\<lparr>ws_bindings := bs\<rparr>"
proof -
  from assms have "\<exists>bs. t = s\<lparr>ws_bindings := bs\<rparr>"
    by (auto simp: set_binding_def rbind_Inr_iff Let_def split: option.splits)
      (metis wf_state.surjective wf_state.update_convs(3))+
  with that show ?thesis by blast
qed

lemma wf_step_inv: "wf_step reg s t \<Longrightarrow> wf_inv s \<Longrightarrow> wf_inv t"
proof (induction rule: wf_step.induct)
  case (wf_ensure digest now spec s d t)
  from wf_ensure.hyps obtain ds n where "t = s\<lparr>ws_defs := ds, ws_next_def := n\<rparr>"
    by (rule ensure_tables)
  with wf_ensure.prems show ?case by (auto intro: wf_inv_same_tables [where s = s])
next
  case (wf_binding etype eid purpose key s b t)
  from wf_binding.hyps obtain bs where "t = s\<lparr>ws_bindings := bs\<rparr>" by (rule set_binding_tables)
  with wf_binding.prems show ?case by (auto intro: wf_inv_same_tables [where s = s])
qed (auto intro: open_instance_ok decide_ok request_info_ok answer_info_ok cancel_ok retry_ok
      reassign_ok)

lemma wf_initial_inv: "wf_initial s \<Longrightarrow> wf_inv s"
  by (auto simp: wf_initial_def wf_inv_empty)

interpretation wf: invariant_system wf_initial "wf_step reg" wf_inv
  by unfold_locales (auto intro: wf_initial_inv wf_step_inv)

lemma reachable_wf_inv: "reachable wf_initial (wf_step reg) s \<Longrightarrow> wf_inv s"
  by (rule wf.inv_reachable)

lemma wf_step_extends: "wf_step reg s t \<Longrightarrow> wf_inv s \<Longrightarrow> extends s t"
proof (induction rule: wf_step.induct)
  case (wf_decide fuel now iid actor v comment admin behalf s t)
  from decide_outcome [OF wf_decide.prems wf_decide.hyps] show ?case by blast
next
  case (wf_ensure digest now spec s d t)
  from wf_ensure.hyps obtain ds n where "t = s\<lparr>ws_defs := ds, ws_next_def := n\<rparr>"
    by (rule ensure_tables)
  then show ?case by (simp add: extends_same)
next
  case (wf_binding etype eid purpose key s b t)
  from wf_binding.hyps obtain bs where "t = s\<lparr>ws_bindings := bs\<rparr>" by (rule set_binding_tables)
  then show ?case by (simp add: extends_same)
qed (auto intro: extends_open extends_answer extends_cancel extends_retry extends_ops)

subsection \<open>A process for the witnesses\<close>

definition demo_spec :: definition_spec where
  "demo_spec =
     \<lparr>ds_key = ''leave'', ds_name = ''Leave'', ds_entity_type = ''req'',
      ds_nodes =
        [\<lparr>ns_key = ''start'', ns_name = ''Start'', ns_type = NStart, ns_config = []\<rparr>,
         \<lparr>ns_key = ''review'', ns_name = ''Review'', ns_type = NApproval,
          ns_config = [(''principals'', PList [PStr ''lead'']), (''quorum'', PStr ''all'')]\<rparr>,
         \<lparr>ns_key = ''end'', ns_name = ''End'', ns_type = NEnd,
          ns_config = [(''outcome'', PStr ''approved'')]\<rparr>],
      ds_transitions =
        [\<lparr>ts_from = ''start'', ts_to = ''review'', ts_condition = PNone\<rparr>,
         \<lparr>ts_from = ''review'', ts_to = ''end'', ts_condition = PNone\<rparr>],
      ds_data_fields = [], ds_purpose = None\<rparr>"

definition demo_reg :: "unit wf_registry" where
  "demo_reg = empty_registry\<lparr>rg_resolvers := [''lead'' \<mapsto> (\<lambda>_ _ _. Inr [2, 3, 4])]\<rparr>"

definition demo_args :: open_args where
  "demo_args =
     \<lparr>oa_process_key = Some ''leave'', oa_purpose = None, oa_bound_to = None,
      oa_entity_type = ''req'', oa_entity_id = 7, oa_snapshot = [], oa_data = [],
      oa_initiated_by = Some 2, oa_supersedes = None, oa_org = None\<rparr>"

definition demo_ok :: "'h wf_state \<Rightarrow> 'h wf_state result option \<Rightarrow> 'h wf_state" where
  "demo_ok s r = (case r of Some (Inr t) \<Rightarrow> t | _ \<Rightarrow> s)"

definition demo_published :: "unit wf_state" where
  "demo_published =
     (case ensure_definition (\<lambda>_. ''h'') demo_reg 0 demo_spec (empty_wf_state ()) of
        Inr (d, t) \<Rightarrow> t | _ \<Rightarrow> empty_wf_state ())"

definition demo_opened :: "unit wf_state" where
  "demo_opened =
     demo_ok demo_published (map_option (map_sum id snd) (open_instance 5 demo_reg 0 demo_args demo_published))"

definition demo_one_yes :: "unit wf_state" where
  "demo_one_yes = demo_ok demo_opened (decide 5 demo_reg 0 1 3 VPositive None False None demo_opened)"

definition demo_vetoed :: "unit wf_state" where
  "demo_vetoed =
     demo_ok demo_opened (decide 5 demo_reg 0 1 4 VNegative (Some ''no'') False None demo_one_yes)"

definition is_ok :: "'a result option \<Rightarrow> bool" where
  "is_ok r = (case r of Some (Inr t) \<Rightarrow> True | _ \<Rightarrow> False)"

lemma demo_ok_Some: "is_ok r \<Longrightarrow> r = Some (Inr (demo_ok s r))"
  by (auto simp: is_ok_def demo_ok_def split: option.splits sum.splits)

lemma demo_runs:
  "is_ok (Some (ensure_definition (\<lambda>_. ''h'') demo_reg 0 demo_spec (empty_wf_state ())))"
  "is_ok (open_instance 5 demo_reg 0 demo_args demo_published)"
  "is_ok (decide 5 demo_reg 0 1 3 VPositive None False None demo_opened)"
  "is_ok (decide 5 demo_reg 0 1 4 VNegative (Some ''no'') False None demo_one_yes)"
  by code_simp+

lemma demo_decides:
  "decide 5 demo_reg 0 1 3 VPositive None False None demo_opened = Some (Inr demo_one_yes)"
  "decide 5 demo_reg 0 1 4 VNegative (Some ''no'') False None demo_one_yes = Some (Inr demo_vetoed)"
proof -
  show "decide 5 demo_reg 0 1 3 VPositive None False None demo_opened = Some (Inr demo_one_yes)"
    unfolding demo_one_yes_def by (rule demo_ok_Some [OF demo_runs(3)])
  show "decide 5 demo_reg 0 1 4 VNegative (Some ''no'') False None demo_one_yes = Some (Inr demo_vetoed)"
    unfolding demo_vetoed_def by (rule demo_ok_Some [OF demo_runs(4)])
qed

lemma demo_opens: "\<exists>iid. open_instance 5 demo_reg 0 demo_args demo_published = Some (Inr (iid, demo_opened))"
proof -
  obtain iid t where "open_instance 5 demo_reg 0 demo_args demo_published = Some (Inr (iid, t))"
    using demo_runs(2) by (auto simp: is_ok_def split: option.splits sum.splits)
  then show ?thesis by (simp add: demo_opened_def demo_ok_def)
qed

lemma demo_publishes:
  "\<exists>d. ensure_definition (\<lambda>_. ''h'') demo_reg 0 demo_spec (empty_wf_state ()) = Inr (d, demo_published)"
proof -
  obtain d t where "ensure_definition (\<lambda>_. ''h'') demo_reg 0 demo_spec (empty_wf_state ()) = Inr (d, t)"
    using demo_runs(1) by (auto simp: is_ok_def split: sum.splits)
  then show ?thesis by (simp add: demo_published_def)
qed

lemma demo_reachable:
  "reachable wf_initial (wf_step demo_reg) demo_opened"
  "reachable wf_initial (wf_step demo_reg) demo_one_yes"
  "reachable wf_initial (wf_step demo_reg) demo_vetoed"
proof -
  have "reachable wf_initial (wf_step demo_reg) (empty_wf_state ())"
    by (rule reach_start) (auto simp: wf_initial_def)
  then have "reachable wf_initial (wf_step demo_reg) demo_published"
    using demo_publishes by (blast intro: reach_step wf_ensure)
  then show o: "reachable wf_initial (wf_step demo_reg) demo_opened"
    using demo_opens by (blast intro: reach_step wf_open)
  then show y: "reachable wf_initial (wf_step demo_reg) demo_one_yes"
    by (rule reach_step) (rule wf_decide [OF demo_decides(1)])
  then show "reachable wf_initial (wf_step demo_reg) demo_vetoed"
    by (rule reach_step) (rule wf_decide [OF demo_decides(2)])
qed


text \<open>The properties of the workflow package, each with a witness on a concrete process.\<close>

text \<open>C2: Whatever sequence of operations ran, every running instance has exactly one active
  execution, that execution is an approval or request-info node and the instance's current node,
  nobody gave two final verdicts on one execution, and open asks belong to active executions.\<close>

theorem wf_reachable_consistent:
  assumes "reachable wf_initial (wf_step reg) s"
  shows "(\<forall>i\<in>set (ws_instances s). pi_status i = InRunning \<longrightarrow>
            (\<exists>!e. e \<in> set (ws_execs s) \<and> active_of (pi_id i) e)) \<and>
         (\<forall>e\<in>set (ws_execs s). ne_status e = ExActive \<longrightarrow> parked s e) \<and>
         decisions_ix (ws_decisions s) \<and> asks_inv s"
  using reachable_wf_inv [OF assms]
  by (auto simp: wf_inv_def tables_inv_def settled_def verdict_inv_def)

theorem wf_reachable_consistent_witness:
  "decisions_ix (ws_decisions demo_one_yes) \<and> length (ws_decisions demo_one_yes) = 1 \<and>
   (\<exists>!e. e \<in> set (ws_execs demo_one_yes) \<and> active_of 1 e)"
proof -
  note c = wf_reachable_consistent [OF demo_reachable(2)]
  have "map (\<lambda>i. (pi_id i, pi_status i)) (ws_instances demo_one_yes) = [(1, InRunning)]" by code_simp
  then obtain i where "i \<in> set (ws_instances demo_one_yes)" "pi_id i = 1" "pi_status i = InRunning"
    by auto
  with c have "\<exists>!e. e \<in> set (ws_execs demo_one_yes) \<and> active_of 1 e" by (metis (no_types, lifting))
  moreover have "length (ws_decisions demo_one_yes) = 1" by code_simp
  ultimately show ?thesis using c by simp
qed

text \<open>C11: A completed approval step was either canceled or carries the verdict of a decision on
  record, taken by somebody other than the initiator of the request: nothing is approved
  silently or by its own initiator.\<close>

theorem approvals_decided_by_others:
  assumes "reachable wf_initial (wf_step reg) s" "e \<in> set (ws_execs s)"
    "ne_status e = ExCompleted" "ne_node_type e = NApproval"
    "i \<in> set (ws_instances s)" "pi_id i = ne_instance_id e"
  shows "ne_result e = [(''canceled'', PBool True)] \<or>
    (\<exists>d\<in>set (ws_decisions s). nd_execution_id d = ne_id e \<and> final_verdict (nd_verdict d) \<and>
       ne_result e = verdict_result (nd_verdict d) (nd_actor_id d) \<and>
       pi_initiated_by i \<noteq> Some (nd_actor_id d))"
proof -
  from reachable_wf_inv [OF assms(1)] have inv: "verdict_inv s" "result_inv s"
    by (simp_all add: wf_inv_def tables_inv_def)
  from inv(2) assms(2-4) have "result_backed s (ne_id e) (ne_result e)" by (simp add: result_inv_def)
  then consider "ne_result e = [(''canceled'', PBool True)]"
    | d where "d \<in> set (ws_decisions s)" "nd_execution_id d = ne_id e" "final_verdict (nd_verdict d)"
      "ne_result e = verdict_result (nd_verdict d) (nd_actor_id d)"
    by (auto simp: result_backed_def)
  then show ?thesis
  proof cases
    case (2 d)
    with inv(1) assms(2,5,6) have "pi_initiated_by i \<noteq> Some (nd_actor_id d)"
      by (simp add: verdict_inv_def)
    with 2 show ?thesis by blast
  qed simp
qed

theorem approvals_decided_by_others_witness:
  "\<exists>e\<in>set (ws_execs demo_vetoed). ne_node_key e = ''review'' \<and>
     (\<exists>d\<in>set (ws_decisions demo_vetoed). nd_verdict d = VNegative \<and> nd_actor_id d \<noteq> 2 \<and>
        ne_result e = verdict_result VNegative (nd_actor_id d))"
proof -
  let ?e = "ws_execs demo_vetoed ! 1"
  let ?i = "ws_instances demo_vetoed ! 0"
  have l: "length (ws_execs demo_vetoed) = 2" "length (ws_instances demo_vetoed) = 1" by code_simp+
  have e: "?e \<in> set (ws_execs demo_vetoed)" "?i \<in> set (ws_instances demo_vetoed)" using l by simp_all
  have st: "ne_status ?e = ExCompleted" "ne_node_type ?e = NApproval" "pi_id ?i = ne_instance_id ?e"
    "ne_result ?e = verdict_result VNegative 4" "ne_node_key ?e = ''review''" "pi_initiated_by ?i = Some 2"
    by code_simp+
  from approvals_decided_by_others [OF demo_reachable(3) e(1) st(1,2) e(2) st(3)] st(4,6)
  obtain d where d: "d \<in> set (ws_decisions demo_vetoed)" "nd_actor_id d \<noteq> 2"
    "verdict_result VNegative 4 = verdict_result (nd_verdict d) (nd_actor_id d)"
    by (auto simp: verdict_result_def)
  then have "nd_verdict d = VNegative" by (cases "nd_verdict d") (auto simp: verdict_result_def)
  with d e(1) st(4,5) show ?thesis by metis
qed

text \<open>Decisions are only ever appended, and an execution that left the active status is never
  written again, whatever operation runs.\<close>

theorem audit_trail_only_grows:
  assumes "reachable wf_initial (wf_step reg) s" "wf_step reg s t"
  shows "(\<exists>ds. ws_decisions t = ws_decisions s @ ds) \<and>
         (\<forall>e\<in>set (ws_execs s). ne_status e \<noteq> ExActive \<longrightarrow> e \<in> set (ws_execs t))"
  using wf_step_extends [OF assms(2) reachable_wf_inv [OF assms(1)]] by (simp add: extends_def)

theorem audit_trail_only_grows_witness:
  "\<exists>ds. ws_decisions demo_vetoed = ws_decisions demo_one_yes @ ds"
  using audit_trail_only_grows [OF demo_reachable(2) wf_decide [OF demo_decides(2)]] by (rule conjunct1)

text \<open>A decision that goes through was allowed: the instance ran, the active step is an
  approval, the actor is asked for it (or an admin) and is not the initiator, gave no final verdict
  on it before, and commented a rejection; the decision is appended.\<close>

theorem decide_needs_authority:
  assumes "decide fuel reg now iid actor v comment admin behalf s = Some (Inr t)"
    and "reachable wf_initial (wf_step reg) s"
  shows "\<exists>i e. load_instance iid s = Inr i \<and> pi_status i = InRunning \<and>
     load_active_execution iid s = Inr e \<and> ne_node_type e = NApproval \<and> final_verdict v \<and>
     pi_initiated_by i \<noteq> Some actor \<and> (assignee_of s (ne_id e) actor \<noteq> None \<or> admin) \<and>
     (v = VNegative \<longrightarrow> (\<exists>c. comment = Some c \<and> \<not> blank c)) \<and>
     (\<forall>d\<in>set (ws_decisions s). nd_execution_id d = ne_id e \<and> final_verdict (nd_verdict d)
        \<longrightarrow> nd_actor_id d \<noteq> actor) \<and>
     (\<exists>d ds. ws_decisions t = ws_decisions s @ d # ds \<and> nd_execution_id d = ne_id e \<and>
        nd_actor_id d = actor \<and> nd_verdict d = v)"
  using reachable_wf_inv [OF assms(2)] assms(1)
proof (cases rule: decide_outcome)
  case (1 i e asg s1 d n)
  note ck = decide_checks_ok [OF 1(1)]
  from 1(2) have ix: "decisions_ix (ws_decisions s1)"
    and app: "\<exists>d. ws_decisions s1 = ws_decisions s @ [d] \<and> nd_execution_id d = ne_id e \<and>
        nd_actor_id d = actor \<and> nd_verdict d = v"
    by (auto simp: insert_decision_Inr)
  have fresh: "\<forall>d\<in>set (ws_decisions s). nd_execution_id d = ne_id e \<and> final_verdict (nd_verdict d)
        \<longrightarrow> nd_actor_id d \<noteq> actor"
  proof (intro ballI impI notI)
    fix d assume d: "d \<in> set (ws_decisions s)" "nd_execution_id d = ne_id e \<and> final_verdict (nd_verdict d)"
      "nd_actor_id d = actor"
    from app obtain d0 where d0: "ws_decisions s1 = ws_decisions s @ [d0]" "nd_execution_id d0 = ne_id e"
      "nd_actor_id d0 = actor" "nd_verdict d0 = v" by blast
    from decisions_ix_snoc [OF ix [unfolded d0(1)], of d] ck(5) d0(2-4) d show False by simp
  qed
  have comm: "v = VNegative \<longrightarrow> (\<exists>c. comment = Some c \<and> \<not> blank c)"
    using ck(9) by (cases comment) (auto simp: blank_iff)
  from 1(5) app have "\<exists>d ds. ws_decisions t = ws_decisions s @ d # ds \<and> nd_execution_id d = ne_id e \<and>
        nd_actor_id d = actor \<and> nd_verdict d = v"
    by (auto simp: extends_def)
  with ck fresh comm show ?thesis by blast
qed

theorem decide_needs_authority_witness:
  "\<exists>d ds. ws_decisions demo_one_yes = ws_decisions demo_opened @ d # ds \<and> nd_actor_id d = 3"
  using decide_needs_authority [OF demo_decides(1) demo_reachable(1)] by blast

text \<open>One negative verdict is a veto: the step is completed at once with that verdict, whatever
  the quorum and whoever else was asked.\<close>

theorem negative_verdict_vetoes:
  assumes "decide fuel reg now iid actor VNegative comment admin behalf s = Some (Inr t)"
    and "reachable wf_initial (wf_step reg) s" and "load_active_execution iid s = Inr e"
  shows "\<exists>e'\<in>set (ws_execs t). ne_id e' = ne_id e \<and> ne_status e' = ExCompleted \<and>
     ne_result e' = verdict_result VNegative actor"
  using reachable_wf_inv [OF assms(2)] assms(1)
proof (cases rule: decide_outcome)
  case (1 i f asg s1 d n)
  have f: "f = e" using decide_checks_ok(3) [OF 1(1)] assms(3) by simp
  let ?c = "complete_execution now (ne_id e) (verdict_result VNegative actor) (mark_decided asg s1)"
  let ?r = "e\<lparr>ne_status := ExCompleted, ne_result := verdict_result VNegative actor,
      ne_completed_at := Some now\<rparr>"
  from 1(7) f have ext: "extends ?c t" by simp
  have "e \<in> set (ws_execs s1)"
    using load_active_ok(1) [OF assms(3)] 1(2) by (auto simp: insert_decision_Inr)
  then have "?r \<in> set (ws_execs ?c)"
    by (simp add: complete_execution_def set_update_where image_iff) (rule bexI [of _ e], simp_all)
  moreover have "ne_status ?r \<noteq> ExActive" by simp
  ultimately have "?r \<in> set (ws_execs t)" using ext unfolding extends_def by blast
  then show ?thesis by (rule bexI [rotated]) simp
qed

theorem negative_verdict_vetoes_witness:
  "\<exists>e'\<in>set (ws_execs demo_vetoed). ne_id e' = 2 \<and> ne_status e' = ExCompleted \<and>
     ne_result e' = verdict_result VNegative 4"
proof -
  have "map_sum (\<lambda>_. ()) ne_id (load_active_execution 1 demo_one_yes) = Inr 2" by code_simp
  then obtain e where "load_active_execution 1 demo_one_yes = Inr e" "ne_id e = 2"
    by (auto simp: map_sum_Inr_iff)
  with negative_verdict_vetoes [OF demo_decides(2) demo_reachable(2)] show ?thesis by metis
qed

text \<open>Under quorum "all" a positive verdict settles nothing while somebody who is still asked
  has not approved: the step stays active and the instance where it is.\<close>

theorem quorum_all_waits:
  assumes "decide fuel reg now iid actor VPositive comment admin behalf s = Some (Inr t)"
    and "reachable wf_initial (wf_step reg) s"
    and "load_instance iid s = Inr i" "load_active_execution iid s = Inr e"
    and "definition_of s i = Inr d" "node_by_key d (ne_node_key e) = Some n" "\<not> quorum_any n"
    and "a \<in> set (ws_assignees s)" "na_execution_id a = ne_id e" "na_status a \<noteq> AsNotRequired"
    and "na_member_id a \<noteq> actor"
    and "\<not> exists_where (\<lambda>x. nd_execution_id x = ne_id e \<and> nd_verdict x = VPositive \<and>
           nd_actor_id x = na_member_id a) (ws_decisions s)"
  shows "ws_execs t = ws_execs s \<and> ws_instances t = ws_instances s"
  using reachable_wf_inv [OF assms(2)] assms(1)
proof (cases rule: decide_outcome)
  case (1 j f asg s1 d' n')
  note ck = decide_checks_ok [OF 1(1)]
  have same: "j = i" "f = e" using ck(1,3) assms(3,4) by simp_all
  with 1(3,4) assms(5,6) have n: "n' = n" by simp
  have s1: "ws_execs s1 = ws_execs s" "ws_instances s1 = ws_instances s"
    "ws_assignees s1 = ws_assignees s"
    "\<exists>x. ws_decisions s1 = ws_decisions s @ [x] \<and> nd_actor_id x = actor"
    using 1(2) by (auto simp: insert_decision_Inr)
  have asked: "\<exists>b\<in>set (ws_assignees (mark_decided asg s1)). na_execution_id b = ne_id e \<and>
      na_status b \<noteq> AsNotRequired \<and> na_member_id b = na_member_id a"
  proof (cases asg)
    case None
    with assms(8-10) s1(3) show ?thesis by (auto simp: mark_decided_def)
  next
    case (Some b)
    let ?r = "if na_id a = na_id b then a\<lparr>na_status := AsDecided\<rparr> else a"
    have "?r \<in> (\<lambda>r. if na_id r = na_id b then r\<lparr>na_status := AsDecided\<rparr> else r) ` set (ws_assignees s)"
      using assms(8) by (rule imageI)
    then have "?r \<in> set (ws_assignees (mark_decided asg s1))"
      unfolding Some mark_decided_assignees s1(3) set_map .
    then show ?thesis by (rule bexI [rotated]) (use assms(9,10) in simp)
  qed
  have "\<not> all_assignees_decided_positive (mark_decided asg s1) (ne_id e)"
  proof
    assume "all_assignees_decided_positive (mark_decided asg s1) (ne_id e)"
    then have all: "exists_where (\<lambda>x. nd_execution_id x = ne_id e \<and> nd_verdict x = VPositive \<and>
           nd_actor_id x = na_member_id b) (ws_decisions s1)"
      if "b \<in> set (ws_assignees (mark_decided asg s1))" "na_execution_id b = ne_id e"
        "na_status b \<noteq> AsNotRequired" for b
      using that by (simp add: all_assignees_decided_positive_def list_all_iff)
    from asked obtain b where "b \<in> set (ws_assignees (mark_decided asg s1))"
      "na_execution_id b = ne_id e" "na_status b \<noteq> AsNotRequired" "na_member_id b = na_member_id a"
      by (elim bexE conjE)
    with all [of b] have "exists_where (\<lambda>x. nd_execution_id x = ne_id e \<and> nd_verdict x = VPositive \<and>
           nd_actor_id x = na_member_id a) (ws_decisions s1)" by simp
    with s1(4) assms(11,12) show False by (auto simp: exists_where_iff)
  qed
  with 1(7) n assms(7) same have "t = mark_decided asg s1" by simp
  with s1 show ?thesis by simp
qed

theorem quorum_all_waits_witness:
  "ws_execs demo_one_yes = ws_execs demo_opened \<and> ws_instances demo_one_yes = ws_instances demo_opened"
proof -
  let ?i = "ws_instances demo_opened ! 0" and ?e = "ws_execs demo_opened ! 1"
    and ?d = "ws_defs demo_opened ! 0" and ?a = "ws_assignees demo_opened ! 1"
  have "length (ws_assignees demo_opened) = 2" by code_simp
  then have a: "?a \<in> set (ws_assignees demo_opened)" by simp
  have l: "load_instance 1 demo_opened = Inr ?i" "load_active_execution 1 demo_opened = Inr ?e"
    "definition_of demo_opened ?i = Inr ?d"
    "node_by_key ?d (ne_node_key ?e) = Some (pd_nodes ?d ! 1)" "\<not> quorum_any (pd_nodes ?d ! 1)"
    "na_execution_id ?a = ne_id ?e" "na_status ?a \<noteq> AsNotRequired" "na_member_id ?a \<noteq> 3"
    "\<not> exists_where (\<lambda>x. nd_execution_id x = ne_id ?e \<and> nd_verdict x = VPositive \<and>
           nd_actor_id x = na_member_id ?a) (ws_decisions demo_opened)"
    by code_simp+
  show ?thesis
    by (rule quorum_all_waits [OF demo_decides(1) demo_reachable(1) l(1-5) a l(6-9)])
qed

subsection \<open>Where the engine does less than it says\<close>

text \<open>The demo process with a conditional transition only out of its approval node.\<close>

definition partial_spec :: definition_spec where
  "partial_spec = demo_spec\<lparr>ds_transitions :=
     [\<lparr>ts_from = ''start'', ts_to = ''review'', ts_condition = PNone\<rparr>,
      \<lparr>ts_from = ''review'', ts_to = ''end'', ts_condition =
         PDict [(''field'', PStr ''nodes.review.verdict''), (''op'', PStr ''eq''),
                (''value'', PStr ''negative'')]\<rparr>]\<rparr>"

definition partial_published :: "unit wf_state" where
  "partial_published =
     (case ensure_definition (\<lambda>_. ''h'') demo_reg 0 partial_spec (empty_wf_state ()) of
        Inr (d, t) \<Rightarrow> t | _ \<Rightarrow> empty_wf_state ())"

definition partial_opened :: "unit wf_state" where
  "partial_opened =
     demo_ok partial_published (map_option (map_sum id snd) (open_instance 5 demo_reg 0 demo_args partial_published))"

definition partial_one_yes :: "unit wf_state" where
  "partial_one_yes = demo_ok partial_opened (decide 5 demo_reg 0 1 3 VPositive None False None partial_opened)"

text \<open>An approval node whose transitions are all conditional passes validation, and a step
  that everybody approved then ends in the error state instead of going on.\<close>

theorem approval_without_default_errors:
  "validate_definition demo_reg None partial_spec = Inr () \<and>
   (\<exists>t. decide 5 demo_reg 0 1 4 VPositive None False None partial_one_yes = Some (Inr t) \<and>
        map pi_status (ws_instances t) = [InError] \<and>
        map ne_result (ws_execs t) = [[], verdict_result VPositive 4])"
proof
  show "validate_definition demo_reg None partial_spec = Inr ()" by code_simp
  have "map_option (map_sum id (\<lambda>t. (map pi_status (ws_instances t), map ne_result (ws_execs t))))
      (decide 5 demo_reg 0 1 4 VPositive None False None partial_one_yes)
      = Some (Inr ([InError], [[], verdict_result VPositive 4]))" by code_simp
  then show "\<exists>t. decide 5 demo_reg 0 1 4 VPositive None False None partial_one_yes = Some (Inr t) \<and>
        map pi_status (ws_instances t) = [InError] \<and>
        map ne_result (ws_execs t) = [[], verdict_result VPositive 4]"
    unfolding map_option_sum_iff by (elim exE conjE) (intro exI conjI, assumption, simp_all)
qed

definition demo_stalled :: "unit wf_state" where
  "demo_stalled = demo_ok demo_one_yes (map_option (map_sum id snd) (Some (reassign 2 3 demo_one_yes)))"

text \<open>Reassigning the last open ask to a member who already approved strands the step: everybody
  asked has approved and the instance still runs, but no member's decision can finish it (only an
  admin's).\<close>

theorem reassign_to_decided_member_stalls:
  "is_ok (Some (reassign 2 3 demo_one_yes)) \<and> map pi_status (ws_instances demo_stalled) = [InRunning] \<and>
   all_assignees_decided_positive demo_stalled 2 \<and>
   decide fuel demo_reg now 1 actor v comment False behalf demo_stalled \<noteq> Some (Inr t)"
proof (intro conjI notI)
  show "is_ok (Some (reassign 2 3 demo_one_yes))" by code_simp
  show "map pi_status (ws_instances demo_stalled) = [InRunning]" by code_simp
  show "all_assignees_decided_positive demo_stalled 2" by code_simp
  assume "decide fuel demo_reg now 1 actor v comment False behalf demo_stalled = Some (Inr t)"
  then show False
  proof (cases rule: decide_parts)
    case (1 i e asg s1 d n)
    note ck = decide_checks_ok [OF 1(1)]
    have "map_sum (\<lambda>_. ()) ne_id (load_active_execution 1 demo_stalled) = Inr 2" by code_simp
    with ck(3) have e: "ne_id e = 2" by simp
    have asked: "map na_member_id (filter (\<lambda>a. na_status a = AsRequested) (ws_assignees demo_stalled)) = [3]"
      by code_simp
    from ck(7,8) e obtain a where "assignee_of demo_stalled 2 actor = Some a" by auto
    then have "a \<in> set (filter (\<lambda>a. na_status a = AsRequested) (ws_assignees demo_stalled))"
      "na_member_id a = actor"
      by (auto simp: assignee_of_def dest: first_where_Some)
    then have "actor \<in> set (map na_member_id
        (filter (\<lambda>a. na_status a = AsRequested) (ws_assignees demo_stalled)))" by auto
    with asked have actor: "actor = 3" by simp
    have "map (\<lambda>d. (nd_execution_id d, nd_actor_id d, nd_verdict d)) (ws_decisions demo_stalled)
        = [(2, 3, VPositive)]" by code_simp
    then obtain d0 where d0: "ws_decisions demo_stalled = [d0]" "nd_execution_id d0 = 2"
      "nd_actor_id d0 = 3" "nd_verdict d0 = VPositive" by auto
    from 1(2) e actor ck(5) show False
      by (simp add: insert_decision_Inr d0 decisions_ix_def final_verdict_def)
  qed
qed

end
