(* ===== verification/WfGuarantees.thy ===== *)
theory WfGuarantees
  imports WfTheorems
begin

text \<open>
  The properties of definitions: what validation guarantees of a spec and of the walk over it,
  where it does not, publishing, binding, and who is asked to approve.
\<close>

text \<open>The closure used by validation is graph reachability: the result holds exactly the nodes
  reachable from the seeds.\<close>

theorem closure_is_reachability: "set (closure es seeds) = (set es)\<^sup>* `` set seeds"
  by (rule closure_correct)

text \<open>C17: A spec that validates has distinct node keys and one start; every node is reachable from
  it, every node but an approval reaches an end, every transition joins known nodes and its
  condition is well-shaped.\<close>

theorem validated_graph:
  assumes "validate_definition reg session spec = Inr ()"
  shows "distinct (spec_keys spec) \<and>
    (\<exists>st. spec_starts spec = [st] \<and>
      (\<forall>n\<in>set (ds_nodes spec).
         (ns_key st, ns_key n) \<in> (set (spec_edges spec))\<^sup>* \<and>
         (ns_type n = NApproval \<or>
          (\<exists>e\<in>set (spec_ends spec). (ns_key n, ns_key e) \<in> (set (spec_edges spec))\<^sup>*)))) \<and>
    (\<forall>t\<in>set (ds_transitions spec).
       transition_counts spec t \<and> (\<forall>data. \<exists>b. evaluate_condition (ts_condition t) data = Inr b))"
proof -
  have "definition_problems reg session spec = Inr []"
    using assms by (auto simp: validate_definition_def rbind_Inr_iff)
  then have wf: "well_formed_spec spec" by (rule no_problems_well_formed)
  then obtain st where "spec_starts spec = [st]"
    by (auto simp: well_formed_spec_def length_Suc_conv)
  with wf show ?thesis
    unfolding well_formed_spec_def using evaluate_total_if_shaped by simp
qed

theorem validated_graph_witness:
  "(''start'', ''end'') \<in> (set (spec_edges demo_spec))\<^sup>*"
proof -
  have v: "validate_definition demo_reg None demo_spec = Inr ()" by code_simp
  from validated_graph [OF v] obtain st where "spec_starts demo_spec = [st]"
    "\<forall>n\<in>set (ds_nodes demo_spec). (ns_key st, ns_key n) \<in> (set (spec_edges demo_spec))\<^sup>*" by blast
  then show ?thesis by (auto simp: spec_starts_def demo_spec_def)
qed

text \<open>In a definition published from a spec that validates, a start, system, notify or
  request-info node always has a next node, on any data, and no condition raises: the walk never
  ends there in the no-transition error.\<close>

theorem validated_nodes_advance:
  assumes "validate_definition reg session spec = Inr ()"
    and "n \<in> set (ds_nodes spec)" "ns_type n \<noteq> NEnd" "ns_type n \<noteq> NApproval"
  shows "\<exists>k m. select_next (definition_row i v h now spec) (ns_key n) data True = Inr (Some k) \<and>
           node_by_key (definition_row i v h now spec) k = Some m"
proof -
  have "definition_problems reg session spec = Inr []"
    using assms(1) by (auto simp: validate_definition_def rbind_Inr_iff)
  then have wf: "well_formed_spec spec" by (rule no_problems_well_formed)
  with assms(2-4) have "ts_condition (last (outs_of spec (ns_key n))) = PNone"
    by (auto simp: well_formed_spec_def Let_def)
  with wf assms(2,3) show ?thesis by (intro well_formed_next)
qed

theorem validated_nodes_advance_witness:
  "\<exists>k m. select_next (definition_row 1 1 ''h'' 0 loop_spec) ''wait'' [(''ready'', PInt 0)] True
      = Inr (Some k) \<and> node_by_key (definition_row 1 1 ''h'' 0 loop_spec) k = Some m"
proof -
  let ?n = "ds_nodes loop_spec ! 1"
  have n: "?n \<in> set (ds_nodes loop_spec)" "ns_type ?n \<noteq> NEnd" "ns_type ?n \<noteq> NApproval"
    "ns_key ?n = ''wait''" by (simp_all add: loop_spec_def)
  from validated_nodes_advance [OF loop_spec_valid n(1-3)] show ?thesis by (simp only: n(4))
qed

text \<open>C29: When some rank falls along every transition out of an automatic node (no cycle of
  automatic nodes), the walk from a node returns with any fuel above the node's rank.\<close>

theorem ranked_walk_returns:
  assumes "auto_ranked d rank" "rank k < fuel"
  shows "\<exists>r. run_from fuel reg now x d k s = Some r"
  using run_from_fuel [OF assms] by blast

theorem ranked_walk_returns_witness:
  "\<exists>r. run_from 3 demo_reg 0 1 (definition_row 1 1 ''h'' 0 demo_spec) ''start'' demo_published = Some r"
proof (rule ranked_walk_returns)
  let ?rank = "\<lambda>k. if k = ''start'' then 2 else if k = ''review'' then 1 else 0 :: nat"
  show "auto_ranked (definition_row 1 1 ''h'' 0 demo_spec) ?rank" by code_simp
  show "?rank ''start'' < 3" by simp
qed

text \<open>Validation does not rule such a cycle out: a spec passes it whose instances never
  return from the walk, however long it runs.\<close>

theorem validated_loop_never_returns:
  "validate_definition (empty_registry :: 'h wf_registry) None loop_spec = Inr () \<and>
   run_from fuel (empty_registry :: 'h wf_registry) now 1 (definition_row 1 1 h t loop_spec) ''wait''
     (snd (new_instance empty_registry demo_args (definition_row 1 1 h t loop_spec) (empty_wf_state e)))
   = None"
proof
  show "validate_definition (empty_registry :: 'h wf_registry) None loop_spec = Inr ()"
    by (rule loop_spec_valid)
  let ?s = "snd (new_instance empty_registry demo_args (definition_row 1 1 h t loop_spec)
      (empty_wf_state e)) :: 'h wf_state"
  obtain i where "load_instance 1 ?s = Inr i" "pi_data i = []"
    by (simp add: new_instance_def empty_wf_state_def load_instance_def demo_args_def Let_def)
  then show "run_from fuel empty_registry now 1 (definition_row 1 1 h t loop_spec) ''wait'' ?s = None"
    by (rule run_from_loop [OF refl])
qed

text \<open>C25: Publishing a spec leaves one active version per key, makes the spec's version the active
  one, and is idempotent: doing it again changes nothing.\<close>

theorem ensure_definition_publishes:
  assumes "catalog_inv s" "ensure_definition digest reg now spec s = Inr (d, t)"
  shows "catalog_inv t \<and> get_active_definition t (ds_key spec) = Some d \<and>
         pd_spec_hash d = spec_hash digest spec \<and>
         ensure_definition digest reg' now' spec t = Inr (d, t)"
proof -
  note a = ensure_definition_active [OF assms]
  have "ensure_definition digest reg' now' spec t = Inr (d, t)"
    by (simp add: ensure_definition_def a)
  with a catalog_inv_ensure [OF assms] show ?thesis by blast
qed

theorem ensure_definition_publishes_witness:
  "\<exists>d. get_active_definition demo_published ''leave'' = Some d \<and>
     ensure_definition (\<lambda>_. ''h'') demo_reg 5 demo_spec demo_published = Inr (d, demo_published)"
proof -
  obtain d where "ensure_definition (\<lambda>_. ''h'') demo_reg 0 demo_spec (empty_wf_state ())
      = Inr (d, demo_published)" using demo_publishes by blast
  from ensure_definition_publishes [OF catalog_inv_empty this] show ?thesis
    by (auto simp: demo_spec_def)
qed

text \<open>Binding resolution fails safe: what it finds is active and either serves the purpose or
  is the purpose's default; a binding to a retired or repurposed definition reads as the default.\<close>

theorem resolve_definition_fails_safe:
  assumes "resolve_definition s purpose bound_to = Some d"
  shows "d \<in> set (ws_defs s) \<and> active_def d \<and> (pd_key d = purpose \<or> pd_purpose d = purpose) \<and>
    (\<forall>et eid b. bound_to = Some (et, eid) \<and> get_binding s et eid purpose = Some b \<and>
       (\<forall>x\<in>set (ws_defs s). pd_key x = pb_definition_key b \<and> active_def x \<longrightarrow> pd_purpose x \<noteq> purpose)
       \<longrightarrow> get_active_definition s purpose = Some d)"
proof -
  from assms have "get_active_definition s purpose = Some d \<or>
      (\<exists>k. get_active_definition s k = Some d \<and> pd_purpose d = purpose)"
    by (auto simp: resolve_definition_def Let_def split: option.splits prod.splits if_splits)
  then have "d \<in> set (ws_defs s) \<and> active_def d \<and> (pd_key d = purpose \<or> pd_purpose d = purpose)"
    using get_active_Some by blast
  moreover have "get_active_definition s purpose = Some d"
    if "bound_to = Some (et, eid)" "get_binding s et eid purpose = Some b"
      "\<forall>x\<in>set (ws_defs s). pd_key x = pb_definition_key b \<and> active_def x \<longrightarrow> pd_purpose x \<noteq> purpose"
    for et eid b
    using assms that get_active_Some [of s "pb_definition_key b"]
    by (auto simp: resolve_definition_def Let_def split: option.splits if_splits)
  ultimately show ?thesis by blast
qed

theorem resolve_definition_fails_safe_witness:
  "\<exists>d. resolve_definition
       (demo_published\<lparr>ws_bindings := [\<lparr>pb_entity_type = ''req'', pb_entity_id = 7,
          pb_purpose = ''leave'', pb_definition_key = ''gone''\<rparr>]\<rparr>) ''leave'' (Some (''req'', 7)) = Some d \<and>
     active_def d \<and> pd_key d = ''leave''"
proof -
  let ?s = "demo_published\<lparr>ws_bindings := [\<lparr>pb_entity_type = ''req'', pb_entity_id = 7,
          pb_purpose = ''leave'', pb_definition_key = ''gone''\<rparr>]\<rparr>"
  have "map_option pd_key (resolve_definition ?s ''leave'' (Some (''req'', 7))) = Some ''leave''"
    by code_simp
  then obtain d where "resolve_definition ?s ''leave'' (Some (''req'', 7)) = Some d" "pd_key d = ''leave''"
    by auto
  with resolve_definition_fails_safe [OF this(1)] show ?thesis by blast
qed

lemma setdefault_all_fst: "fst ` set (setdefault_all via ms acc) = set ms \<union> fst ` set acc"
proof -
  have "fst ` set (fold (\<lambda>m acc. if m \<in> set (map fst acc) then acc else acc @ [(m, via)]) ms acc) =
      set ms \<union> fst ` set acc"
    by (induction ms arbitrary: acc) auto
  then show ?thesis by (simp add: setdefault_all_def)
qed

lemma resolve_principals_from:
  "resolve_principals reg s i ps acc = Inr res \<Longrightarrow> m \<in> fst ` set res \<Longrightarrow>
   m \<in> fst ` set acc \<or>
   (\<exists>p\<in>set ps. \<exists>ms. resolve_assignees reg s p (pi_entity_type i) (pi_entity_id i) = Inr ms \<and> m \<in> set ms)"
proof (induction ps arbitrary: acc)
  case Nil
  then show ?case by simp
next
  case (Cons p ps)
  from Cons.prems(1) obtain ms where
    ms: "resolve_assignees reg s p (pi_entity_type i) (pi_entity_id i) = Inr ms"
    and r: "resolve_principals reg s i ps (setdefault_all p ms acc) = Inr res"
    by (auto simp: rbind_Inr_iff)
  from Cons.IH [OF r Cons.prems(2)] ms show ?case by (auto simp: setdefault_all_fst)
qed

text \<open>Nobody is asked to approve their own request, not even through the floor, and everybody
  asked comes from a principal of the node or, when those give nobody else, from the floor.\<close>

theorem approvers_exclude_initiator:
  assumes "approvers reg s i n = Inr asked" "m \<in> fst ` set asked"
  shows "pi_initiated_by i \<noteq> Some m \<and>
    ((\<exists>p ms. resolve_assignees reg s p (pi_entity_type i) (pi_entity_id i) = Inr ms \<and> m \<in> set ms) \<or>
     (\<exists>ms. resolve_floor reg s (pi_org_id i) = Inr ms \<and> m \<in> set ms))"
proof -
  from assms(1) obtain ps resolved where r: "resolve_principals reg s i ps [] = Inr resolved"
    and cases: "asked = filter (\<lambda>mv. Some (fst mv) \<noteq> pi_initiated_by i) resolved \<or>
      (\<exists>ms. resolve_floor reg s (pi_org_id i) = Inr ms \<and>
         asked = map (\<lambda>m. (m, PStr admin_floor)) (filter (\<lambda>m. Some m \<noteq> pi_initiated_by i) ms))"
    unfolding approvers_def by (fastforce simp: rbind_Inr_iff Let_def split: if_splits)
  from cases show ?thesis
  proof
    assume a: "asked = filter (\<lambda>mv. Some (fst mv) \<noteq> pi_initiated_by i) resolved"
    with assms(2) have "m \<in> fst ` set resolved" "pi_initiated_by i \<noteq> Some m" by auto
    with resolve_principals_from [OF r] show ?thesis by fastforce
  qed (use assms(2) in auto)
qed

theorem approvers_exclude_initiator_witness:
  "approvers demo_reg demo_opened (ws_instances demo_opened ! 0)
     (pd_nodes (definition_row 1 1 ''h'' 0 demo_spec) ! 1) = Inr [(3, PStr ''lead''), (4, PStr ''lead'')] \<and>
   pi_initiated_by (ws_instances demo_opened ! 0) \<noteq> Some 3"
proof -
  have a: "approvers demo_reg demo_opened (ws_instances demo_opened ! 0)
     (pd_nodes (definition_row 1 1 ''h'' 0 demo_spec) ! 1) = Inr [(3, PStr ''lead''), (4, PStr ''lead'')]"
    by code_simp
  from approvers_exclude_initiator [OF a, of 3] a show ?thesis by simp
qed

end
