(* ===== verification/AccessModel.thy ===== *)
theory AccessModel
  imports PyValue
begin

text \<open>
  The access package's tables (\<^verbatim>\<open>asas_access/models.py\<close>), the host's wiring, the principals a
  user holds (\<^verbatim>\<open>principals.py\<close>, \<^verbatim>\<open>catalog.py\<close>, \<^verbatim>\<open>groups.py\<close>), and the process-wide caches of
  grants and clearance levels, as read-through slots over the tables.  Resolvers and sources are
  host code: arguments that return a value or raise.  Surrogate row ids are left out.
\<close>

subsection \<open>Tables\<close>

record field_permission =
  fp_org :: "int option"
  fp_entity :: string
  fp_field :: string
  fp_action :: string
  fp_principal :: string

record action_permission =
  ap_org :: "int option"
  ap_permission :: string
  ap_principal :: string

record access_group =
  ag_org :: int
  ag_key :: string
  ag_name :: string
  ag_system :: bool

record clearance_level =
  cl_org :: int
  cl_code :: string
  cl_name :: string
  cl_rank :: int

record record_marking =
  rm_org :: int
  rm_entity :: string
  rm_record :: int
  rm_code :: string

record access_db =
  ad_fields :: "field_permission list"
  ad_actions :: "action_permission list"
  ad_groups :: "access_group list"
  ad_levels :: "clearance_level list"
  ad_markings :: "record_marking list"

subsection \<open>Subjects and records\<close>

text \<open>What the package reads off a request user and off a record (\<open>getattr\<close>, enums by value).\<close>

record user =
  us_role :: "string option"
  us_org :: "int option"
  us_id :: int

record entity_record =
  er_id :: "int option"
  er_org :: "int option"
  er_classification :: "string option"
  er_visibility :: "string option"
  er_attrs :: "(string \<times> pyval) list"

record 'x access_wiring =
  aw_resolvers :: "((string \<times> string) \<times> (user \<Rightarrow> entity_record option \<Rightarrow> 'x \<Rightarrow> bool result)) list"
  aw_global_sources :: "(user \<Rightarrow> 'x \<Rightarrow> string list result) list"
  aw_record_sources :: "string \<rightharpoonup> (user \<Rightarrow> entity_record \<Rightarrow> 'x \<Rightarrow> string list result) list"
  aw_fields :: "string \<rightharpoonup> string set"
  aw_actions :: "string set"
  aw_record_actions :: "string set"
  aw_reserved :: "string set"
  aw_private_viewers :: "string \<rightharpoonup> string set"
  aw_classified :: "string set"
  aw_subject_source :: "(user \<Rightarrow> 'x \<Rightarrow> (string option \<times> string set) result) option"

definition empty_wiring :: "'x access_wiring" where
  "empty_wiring =
     \<lparr>aw_resolvers = [], aw_global_sources = [], aw_record_sources = Map.empty,
      aw_fields = Map.empty, aw_actions = {}, aw_record_actions = {}, aw_reserved = {},
      aw_private_viewers = Map.empty, aw_classified = {}, aw_subject_source = None\<rparr>"

definition register_fields :: "string \<Rightarrow> string set \<Rightarrow> 'x access_wiring \<Rightarrow> 'x access_wiring" where
  "register_fields et fs w =
     w\<lparr>aw_fields := (aw_fields w)
        (et \<mapsto> (case aw_fields w et of None \<Rightarrow> {} | Some old \<Rightarrow> old) \<union> fs)\<rparr>"

definition is_known :: "'x access_wiring \<Rightarrow> string \<Rightarrow> string \<Rightarrow> bool" where
  "is_known w et f = (case aw_fields w et of None \<Rightarrow> True | Some fs \<Rightarrow> f \<in> fs)"

definition register_actions :: "string set \<Rightarrow> bool \<Rightarrow> 'x access_wiring \<Rightarrow> 'x access_wiring" where
  "register_actions verbs record_scoped w =
     w\<lparr>aw_actions := aw_actions w \<union> verbs,
       aw_record_actions := (if record_scoped then aw_record_actions w \<union> verbs
                             else aw_record_actions w)\<rparr>"

definition register_private_viewers ::
  "string \<Rightarrow> string set \<Rightarrow> 'x access_wiring \<Rightarrow> 'x access_wiring" where
  "register_private_viewers et ps w =
     w\<lparr>aw_private_viewers := (aw_private_viewers w)
        (et \<mapsto> (case aw_private_viewers w et of None \<Rightarrow> {} | Some old \<Rightarrow> old) \<union> ps)\<rparr>"

definition register_classified_entity :: "string \<Rightarrow> 'x access_wiring \<Rightarrow> 'x access_wiring" where
  "register_classified_entity et w = w\<lparr>aw_classified := insert et (aw_classified w)\<rparr>"

definition register_subject_source ::
  "(user \<Rightarrow> 'x \<Rightarrow> (string option \<times> string set) result) \<Rightarrow> 'x access_wiring \<Rightarrow> 'x access_wiring" where
  "register_subject_source fn w = w\<lparr>aw_subject_source := Some fn\<rparr>"

subsection \<open>Principals\<close>

definition role_admin :: string where "role_admin = ''admin''"

definition base_reserved :: "string list" where
  "base_reserved =
     [''admin'', ''member'', ''viewer'', ''self'', ''supervisor'', ''team_lead'', ''team_member'',
      ''project_lead'', ''change_approver'']"

text \<open>A source that raises adds nothing; a resolver that raises or says no adds nothing.\<close>

definition source_principals :: "string list result \<Rightarrow> string set" where
  "source_principals r = (case r of Inl e \<Rightarrow> {} | Inr ps \<Rightarrow> set ps)"

definition held_principals ::
  "'x access_wiring \<Rightarrow> user option \<Rightarrow> string \<Rightarrow> entity_record option \<Rightarrow> 'x \<Rightarrow> string set" where
  "held_principals w usr et rec x =
     (case usr of
        None \<Rightarrow> {}
      | Some u \<Rightarrow>
          (case us_role u of None \<Rightarrow> {} | Some r \<Rightarrow> {r}) \<union>
          (\<Union>src\<in>set (aw_global_sources w). source_principals (src u x)) \<union>
          (snd \<circ> fst) ` set (filter (\<lambda>((e, p), fn). e = et \<and> fn u rec x = Inr True) (aw_resolvers w)) \<union>
          (case rec of
             None \<Rightarrow> {}
           | Some r \<Rightarrow>
               (\<Union>src\<in>set (case aw_record_sources w et of None \<Rightarrow> [] | Some ss \<Rightarrow> ss).
                  source_principals (src u r x))))"

lemma held_anonymous [simp]: "held_principals w None et rec x = {}"
  by (simp add: held_principals_def)

subsection \<open>Groups\<close>

definition lower_letter :: "char \<Rightarrow> bool" where
  "lower_letter c = (of_char c \<in> {97..122 :: nat})"

definition key_char :: "char \<Rightarrow> bool" where
  "key_char c = (of_char c \<in> {97..122 :: nat} \<or> of_char c \<in> {48..57 :: nat} \<or> c = CHR ''_'')"

text \<open>
  \<open>re.match(r"^[a-z][a-z0-9_]{1,63}$", key)\<close>: \<open>$\<close> also matches before a newline at the very end.
\<close>

definition key_body :: "string \<Rightarrow> bool" where
  "key_body k = (case k of [] \<Rightarrow> False
     | c # cs \<Rightarrow> lower_letter c \<and> list_all key_char cs \<and> 1 \<le> length cs \<and> length cs \<le> 63)"

definition key_re :: "string \<Rightarrow> bool" where
  "key_re k = (key_body k \<or> (k \<noteq> [] \<and> last k = char_of (10 :: nat) \<and> key_body (butlast k)))"

definition reserved_principals :: "'x access_wiring \<Rightarrow> string set" where
  "reserved_principals w = set base_reserved \<union> aw_reserved w"

definition reserve_principals :: "string set \<Rightarrow> 'x access_wiring \<Rightarrow> 'x access_wiring" where
  "reserve_principals extra w = w\<lparr>aw_reserved := aw_reserved w \<union> extra\<rparr>"

definition validate_group_key :: "'x access_wiring \<Rightarrow> string \<Rightarrow> string result" where
  "validate_group_key w key =
     (if \<not> key_re key then Inl (ValueError (''invalid group key '' @ py_repr key))
      else if key \<in> reserved_principals w
      then Inl (ValueError (''group key '' @ py_repr key @ '' collides with a reserved principal''))
      else Inr key)"

definition group_by_key :: "access_db \<Rightarrow> int \<Rightarrow> string \<Rightarrow> access_group option" where
  "group_by_key db org key = first_where (\<lambda>g. ag_org g = org \<and> ag_key g = key) (ad_groups db)"

fun ensure_system_groups ::
  "'x access_wiring \<Rightarrow> int \<Rightarrow> (string \<times> string) list \<Rightarrow> access_db \<Rightarrow> access_db result" where
  "ensure_system_groups w org [] db = Inr db"
| "ensure_system_groups w org ((key, name) # gs) db =
     rbind (validate_group_key w key) (\<lambda>_.
       ensure_system_groups w org gs
         (if group_by_key db org key = None
          then db\<lparr>ad_groups := ad_groups db @
                    [\<lparr>ag_org = org, ag_key = key, ag_name = name, ag_system = True\<rparr>]\<rparr>
          else db))"

subsection \<open>Read-through caches\<close>

text \<open>\<open>cache.setdefault(key, set()).add(v)\<close>, keys in order of their first row.\<close>

fun multi_add :: "'k \<Rightarrow> 'v \<Rightarrow> ('k \<times> 'v list) list \<Rightarrow> ('k \<times> 'v list) list" where
  "multi_add k v [] = [(k, [v])]"
| "multi_add k v ((j, vs) # m) =
     (if j = k then (j, List.insert v vs) # m else (j, vs) # multi_add k v m)"

definition multi_of :: "('r \<Rightarrow> 'k) \<Rightarrow> ('r \<Rightarrow> 'v) \<Rightarrow> 'r list \<Rightarrow> ('k \<times> 'v list) list" where
  "multi_of key val rows = fold (\<lambda>r m. multi_add (key r) (val r) m) rows []"

lemma multi_add_lookup:
  "map_of (multi_add k v m) j =
     (if j = k then Some (case map_of m k of None \<Rightarrow> [v] | Some vs \<Rightarrow> List.insert v vs) else map_of m j)"
  by (induction k v m rule: multi_add.induct) auto

lemma multi_of_fold:
  "map_option set (map_of (fold (\<lambda>r m. multi_add (key r) (val r) m) rows m) k) =
     (let vs = val ` {r \<in> set rows. key r = k} in
      case map_of m k of None \<Rightarrow> if vs = {} then None else Some vs | Some us \<Rightarrow> Some (set us \<union> vs))"
proof (induction rows arbitrary: m)
  case Nil
  then show ?case by (simp add: Let_def split: option.splits)
next
  case (Cons r rows)
  have "{s. (s = r \<or> s \<in> set rows) \<and> key s = k} =
        (if key r = k then insert r {s \<in> set rows. key s = k} else {s \<in> set rows. key s = k})"
    by auto
  with Cons.IH [of "multi_add (key r) (val r) m"] show ?case
    by (auto simp: Let_def multi_add_lookup split: option.splits)
qed

lemma multi_of_lookup:
  "map_option set (map_of (multi_of key val rows) k) =
     (let vs = val ` {r \<in> set rows. key r = k} in if vs = {} then None else Some vs)"
  using multi_of_fold [of key val rows "[]" k] by (simp add: multi_of_def)

lemma multi_of_keys: "k \<in> fst ` set (multi_of key val rows) \<longleftrightarrow> k \<in> key ` set rows"
proof -
  have "k \<in> fst ` set (multi_of key val rows) \<longleftrightarrow> map_of (multi_of key val rows) k \<noteq> None"
    by (simp add: map_of_eq_None_iff)
  also have "\<dots> \<longleftrightarrow> map_option set (map_of (multi_of key val rows) k) \<noteq> None" by simp
  finally show ?thesis unfolding multi_of_lookup by (auto simp: Let_def)
qed

type_synonym 'k grant_cache = "('k \<times> (string \<times> int option) list) list"

record access_state =
  as_db :: access_db
  as_policy :: "(string \<times> string \<times> string) grant_cache option"
  as_actions :: "string grant_cache option"
  as_levels :: "(int \<times> (string \<times> int) list) list option"
  as_levels_pending :: bool

definition through :: "'v option \<Rightarrow> 'v \<Rightarrow> 'v" where
  "through slot v = (case slot of Some c \<Rightarrow> c | None \<Rightarrow> v)"

definition build_policy :: "access_db \<Rightarrow> (string \<times> string \<times> string) grant_cache" where
  "build_policy db =
     multi_of (\<lambda>fp. (fp_entity fp, fp_field fp, fp_action fp))
       (\<lambda>fp. (fp_principal fp, fp_org fp)) (ad_fields db)"

definition build_actions :: "access_db \<Rightarrow> string grant_cache" where
  "build_actions db = multi_of ap_permission (\<lambda>ap. (ap_principal ap, ap_org ap)) (ad_actions db)"

text \<open>\<open>{org: {code: rank}}\<close>: of rows with the same code the last one counts.\<close>

fun level_add :: "int \<Rightarrow> string \<Rightarrow> int \<Rightarrow> (int \<times> (string \<times> int) list) list \<Rightarrow> (int \<times> (string \<times> int) list) list" where
  "level_add org code rank [] = [(org, [(code, rank)])]"
| "level_add org code rank ((o', ls) # m) =
     (if o' = org then (o', dset ls code rank) # m else (o', ls) # level_add org code rank m)"

definition build_levels :: "access_db \<Rightarrow> (int \<times> (string \<times> int) list) list" where
  "build_levels db = fold (\<lambda>l m. level_add (cl_org l) (cl_code l) (cl_rank l) m) (ad_levels db) []"

definition policy :: "access_state \<Rightarrow> (string \<times> string \<times> string) grant_cache" where
  "policy s = through (as_policy s) (build_policy (as_db s))"

definition grants :: "access_state \<Rightarrow> string grant_cache" where
  "grants s = through (as_actions s) (build_actions (as_db s))"

definition levels :: "access_state \<Rightarrow> (int \<times> (string \<times> int) list) list" where
  "levels s = through (as_levels s) (build_levels (as_db s))"

text \<open>A read fills its slot; an invalidation empties it.\<close>

definition fill_policy :: "access_state \<Rightarrow> access_state" where
  "fill_policy s = s\<lparr>as_policy := Some (policy s)\<rparr>"

definition fill_actions :: "access_state \<Rightarrow> access_state" where
  "fill_actions s = s\<lparr>as_actions := Some (grants s)\<rparr>"

definition fill_levels :: "access_state \<Rightarrow> access_state" where
  "fill_levels s = s\<lparr>as_levels := Some (levels s)\<rparr>"

definition invalidate_cache :: "access_state \<Rightarrow> access_state" where
  "invalidate_cache s = s\<lparr>as_policy := None\<rparr>"

definition invalidate_action_cache :: "access_state \<Rightarrow> access_state" where
  "invalidate_action_cache s = s\<lparr>as_actions := None\<rparr>"

definition invalidate_mac_cache :: "access_state \<Rightarrow> access_state" where
  "invalidate_mac_cache s = s\<lparr>as_levels := None\<rparr>"

locale read_through =
  fixes slot :: "'s \<Rightarrow> 'v option"
    and current :: "'s \<Rightarrow> 'v"
    and fill :: "'s \<Rightarrow> 's"
    and drop_slot :: "'s \<Rightarrow> 's"
  assumes fill_slot: "slot (fill s) = Some (through (slot s) (current s))"
    and fill_current: "current (fill s) = current s"
    and dropped: "slot (drop_slot s) = None"
    and drop_current: "current (drop_slot s) = current s"
begin

lemma read_after_fill: "through (slot (fill s)) (current (fill s)) = through (slot s) (current s)"
  by (simp add: fill_slot through_def)

lemma read_after_drop: "through (slot (drop_slot s)) (current (drop_slot s)) = current s"
  by (simp add: dropped drop_current through_def)

lemma fill_keeps_coherent:
  "slot s \<in> {None, Some (current s)} \<Longrightarrow> slot (fill s) = Some (current (fill s))"
  by (auto simp: fill_slot fill_current through_def)

lemma coherent_read:
  "slot s \<in> {None, Some (current s)} \<Longrightarrow> through (slot s) (current s) = current s"
  by (auto simp: through_def)

end

interpretation policy_cache:
  read_through as_policy "\<lambda>s. build_policy (as_db s)" fill_policy invalidate_cache
  by unfold_locales (simp_all add: fill_policy_def policy_def invalidate_cache_def)

interpretation action_cache:
  read_through as_actions "\<lambda>s. build_actions (as_db s)" fill_actions invalidate_action_cache
  by unfold_locales (simp_all add: fill_actions_def grants_def invalidate_action_cache_def)

interpretation level_cache:
  read_through as_levels "\<lambda>s. build_levels (as_db s)" fill_levels invalidate_mac_cache
  by unfold_locales (simp_all add: fill_levels_def levels_def invalidate_mac_cache_def)

end
