(* ===== verification/AccessPolicy.thy ===== *)
theory AccessPolicy
  imports AccessModel
begin

text \<open>
  The discretionary layer: field permissions and redaction (\<^verbatim>\<open>asas_access/policy.py\<close>), action
  verbs (\<^verbatim>\<open>actions.py\<close>) and the seeding of grant rows (\<^verbatim>\<open>seeding.py\<close>).
\<close>

subsection \<open>Field permissions\<close>

definition user_org :: "user option \<Rightarrow> int option" where
  "user_org usr = Option.bind usr us_org"

text \<open>The principals granted to a caller of an organisation: platform rows and the org's own.\<close>

definition granted_in :: "(string \<times> int option) list \<Rightarrow> int option \<Rightarrow> string set" where
  "granted_in rows org = fst ` set (filter (\<lambda>(p, o'). o' = None \<or> o' = org) rows)"

definition field_allowed ::
  "'x access_wiring \<Rightarrow> access_state \<Rightarrow> user option \<Rightarrow> string \<Rightarrow> string \<Rightarrow> string
    \<Rightarrow> entity_record option \<Rightarrow> 'x \<Rightarrow> bool" where
  "field_allowed w s usr et f action rec x =
     (case map_of (policy s) (et, f, action) of
        None \<Rightarrow> True
      | Some rows \<Rightarrow>
          (let allowed = granted_in rows (user_org usr) in
           if allowed = {} then True
           else let held = held_principals w usr et rec x
                in role_admin \<in> held \<or> allowed \<inter> held \<noteq> {}))"

definition can_edit_field ::
  "'x access_wiring \<Rightarrow> access_state \<Rightarrow> user option \<Rightarrow> string \<Rightarrow> string \<Rightarrow> entity_record option
    \<Rightarrow> 'x \<Rightarrow> bool" where
  "can_edit_field w s usr et f rec x = field_allowed w s usr et f ''edit'' rec x"

definition can_view_field ::
  "'x access_wiring \<Rightarrow> access_state \<Rightarrow> user option \<Rightarrow> string \<Rightarrow> string \<Rightarrow> entity_record option
    \<Rightarrow> 'x \<Rightarrow> bool" where
  "can_view_field w s usr et f rec x = field_allowed w s usr et f ''view'' rec x"

definition attr_of :: "entity_record option \<Rightarrow> string \<Rightarrow> pyval" where
  "attr_of rec f =
     (case rec of None \<Rightarrow> PNone
      | Some r \<Rightarrow> (case dget (er_attrs r) f of None \<Rightarrow> PNone | Some v \<Rightarrow> v))"

definition forbidden_edits ::
  "'x access_wiring \<Rightarrow> access_state \<Rightarrow> user option \<Rightarrow> string \<Rightarrow> entity_record option
    \<Rightarrow> (string \<times> pyval) list \<Rightarrow> 'x \<Rightarrow> string list" where
  "forbidden_edits w s usr et rec changes x =
     map fst (filter (\<lambda>(f, v). \<not> py_eq (attr_of rec f) v \<and> \<not> can_edit_field w s usr et f rec x) changes)"

definition view_restricted_fields :: "access_state \<Rightarrow> string \<Rightarrow> string list" where
  "view_restricted_fields s et =
     remdups (map (\<lambda>((e, f, a), rows). f)
       (filter (\<lambda>((e, f, a), rows). e = et \<and> a = ''view'') (policy s)))"

subsection \<open>Redaction\<close>

datatype read_model =
    ReadMapping "(string \<times> pyval) list"
  | ReadObject "(string \<times> pyval) list"
  | ReadOpaque string

text \<open>Nulling a key or attribute the read model carries; one it lacks is skipped.\<close>

definition null_target :: "string \<Rightarrow> (string \<times> pyval) list \<Rightarrow> (string \<times> pyval) list" where
  "null_target t ds = (if dget ds t = None then ds else dset ds t PNone)"

definition null_targets ::
  "(string \<times> string list) list \<Rightarrow> string \<Rightarrow> (string \<times> pyval) list \<Rightarrow> (string \<times> pyval) list" where
  "null_targets also_null f ds =
     fold null_target (f # (case map_of also_null f of None \<Rightarrow> [] | Some ts \<Rightarrow> ts)) ds"

definition redact_fields ::
  "'x access_wiring \<Rightarrow> access_state \<Rightarrow> user option \<Rightarrow> string \<Rightarrow> entity_record option
    \<Rightarrow> (string \<times> string list) list \<Rightarrow> 'x \<Rightarrow> (string \<times> pyval) list \<Rightarrow> (string \<times> pyval) list" where
  "redact_fields w s usr et rec also_null x ds =
     fold (\<lambda>f acc. if can_view_field w s usr et f rec x then acc else null_targets also_null f acc)
       (view_restricted_fields s et) ds"

definition redact_view ::
  "'x access_wiring \<Rightarrow> access_state \<Rightarrow> user option \<Rightarrow> string \<Rightarrow> read_model \<Rightarrow> entity_record option
    \<Rightarrow> (string \<times> string list) list \<Rightarrow> 'x \<Rightarrow> read_model result" where
  "redact_view w s usr et rm rec also_null x =
     (if view_restricted_fields s et = [] then Inr rm
      else case rm of
             ReadMapping ds \<Rightarrow> Inr (ReadMapping (redact_fields w s usr et rec also_null x ds))
           | ReadObject ds \<Rightarrow> Inr (ReadObject (redact_fields w s usr et rec also_null x ds))
           | ReadOpaque t \<Rightarrow> Inl (TypeErrorExn (''redact_view cannot redact a '' @ t)))"

subsection \<open>Action verbs\<close>

definition action_scope :: string where "action_scope = ''__action__''"

definition verb_rows :: "access_state \<Rightarrow> string \<Rightarrow> (string \<times> int option) list" where
  "verb_rows s verb = (case map_of (grants s) verb of None \<Rightarrow> [] | Some rows \<Rightarrow> rows)"

definition unknown_verb :: "string \<Rightarrow> py_exn" where
  "unknown_verb verb = ValueError (''unknown action permission '' @ py_repr verb)"

definition granted_principals ::
  "'x access_wiring \<Rightarrow> access_state \<Rightarrow> string \<Rightarrow> int option \<Rightarrow> string set result" where
  "granted_principals w s verb org =
     rbind (guard_r (verb \<in> aw_actions w) (unknown_verb verb)) (\<lambda>_.
       Inr (fst ` set (filter (\<lambda>(p, o'). o' = None \<or> (org \<noteq> None \<and> o' = org)) (verb_rows s verb))))"

definition verb_held ::
  "access_state \<Rightarrow> user option \<Rightarrow> string \<Rightarrow> string set \<Rightarrow> bool" where
  "verb_held s usr verb held =
     (role_admin \<in> held \<or> granted_in (verb_rows s verb) (user_org usr) \<inter> held \<noteq> {})"

definition action_allowed ::
  "'x access_wiring \<Rightarrow> access_state \<Rightarrow> user option \<Rightarrow> string \<Rightarrow> 'x \<Rightarrow> bool result" where
  "action_allowed w s usr verb x =
     rbind (guard_r (verb \<in> aw_actions w) (unknown_verb verb)) (\<lambda>_.
     rbind (guard_r (verb \<notin> aw_record_actions w)
              (ValueError (''action permission '' @ py_repr verb @ '' is record-scoped''))) (\<lambda>_.
       Inr (verb_held s usr verb (held_principals w usr action_scope None x))))"

definition action_allowed_for ::
  "'x access_wiring \<Rightarrow> access_state \<Rightarrow> user option \<Rightarrow> string \<Rightarrow> string \<Rightarrow> entity_record option
    \<Rightarrow> 'x \<Rightarrow> bool result" where
  "action_allowed_for w s usr verb et rec x =
     rbind (guard_r (verb \<in> aw_actions w) (unknown_verb verb)) (\<lambda>_.
       Inr (verb_held s usr verb (held_principals w usr et rec x)))"

subsection \<open>Seeding\<close>

text \<open>Rows added so far are in the session; the commit and the invalidation come at the end.\<close>

fun seed_field_rows ::
  "'x access_wiring \<Rightarrow> (string \<times> string \<times> string \<times> string) list \<Rightarrow> access_db \<Rightarrow> nat
    \<Rightarrow> (access_db \<times> nat) result" where
  "seed_field_rows w [] db added = Inr (db, added)"
| "seed_field_rows w ((et, f, action, p) # ds) db added =
     rbind (guard_r (is_known w et f)
              (ValueError (''field_permission seed references unknown field '' @ et @ ''.'' @ f))) (\<lambda>_.
       if exists_where (\<lambda>r. fp_entity r = et \<and> fp_field r = f \<and> fp_action r = action \<and>
                            fp_principal r = p \<and> fp_org r = None) (ad_fields db)
       then seed_field_rows w ds db added
       else seed_field_rows w ds
              (db\<lparr>ad_fields := ad_fields db @
                   [\<lparr>fp_org = None, fp_entity = et, fp_field = f, fp_action = action,
                     fp_principal = p\<rparr>]\<rparr>) (Suc added))"

definition seed_field_permissions ::
  "'x access_wiring \<Rightarrow> (string \<times> string \<times> string \<times> string) list \<Rightarrow> access_state
    \<Rightarrow> access_state result" where
  "seed_field_permissions w defaults s =
     rbind (seed_field_rows w defaults (as_db s) 0) (\<lambda>(db, added).
       let s' = s\<lparr>as_db := db\<rparr> in Inr (if 0 < added then invalidate_cache s' else s'))"

fun seed_action_rows ::
  "'x access_wiring \<Rightarrow> (string \<times> string) list \<Rightarrow> access_db \<Rightarrow> nat \<Rightarrow> (access_db \<times> nat) result" where
  "seed_action_rows w [] db added = Inr (db, added)"
| "seed_action_rows w ((verb, p) # ds) db added =
     rbind (guard_r (verb \<in> aw_actions w)
              (ValueError (''action_permission seed references unknown verb '' @ py_repr verb))) (\<lambda>_.
       if exists_where (\<lambda>r. ap_permission r = verb \<and> ap_principal r = p \<and> ap_org r = None) (ad_actions db)
       then seed_action_rows w ds db added
       else seed_action_rows w ds
              (db\<lparr>ad_actions := ad_actions db @
                   [\<lparr>ap_org = None, ap_permission = verb, ap_principal = p\<rparr>]\<rparr>) (Suc added))"

definition seed_action_permissions ::
  "'x access_wiring \<Rightarrow> (string \<times> string) list \<Rightarrow> access_state \<Rightarrow> access_state result" where
  "seed_action_permissions w defaults s =
     rbind (seed_action_rows w defaults (as_db s) 0) (\<lambda>(db, added).
       let s' = s\<lparr>as_db := db\<rparr> in Inr (if 0 < added then invalidate_action_cache s' else s'))"

subsection \<open>Coherent caches\<close>

text \<open>A slot is coherent when it is empty or holds what its table says.\<close>

definition coherent :: "access_state \<Rightarrow> bool" where
  "coherent s \<longleftrightarrow>
     as_policy s \<in> {None, Some (build_policy (as_db s))} \<and>
     as_actions s \<in> {None, Some (build_actions (as_db s))} \<and>
     (as_levels_pending s \<or> as_levels s \<in> {None, Some (build_levels (as_db s))})"

lemma coherent_policy: "coherent s \<Longrightarrow> policy s = build_policy (as_db s)"
  unfolding policy_def coherent_def by (blast intro: policy_cache.coherent_read)

lemma coherent_grants: "coherent s \<Longrightarrow> grants s = build_actions (as_db s)"
  unfolding grants_def coherent_def by (blast intro: action_cache.coherent_read)

text \<open>Which rows count for a field, once the cache is coherent.\<close>

definition field_rows :: "access_db \<Rightarrow> string \<Rightarrow> string \<Rightarrow> string \<Rightarrow> field_permission list" where
  "field_rows db et f action =
     filter (\<lambda>r. fp_entity r = et \<and> fp_field r = f \<and> fp_action r = action) (ad_fields db)"

lemma policy_rows:
  assumes "coherent s"
  shows "map_option set (map_of (policy s) (et, f, action)) =
     (let vs = (\<lambda>r. (fp_principal r, fp_org r)) ` set (field_rows (as_db s) et f action)
      in if vs = {} then None else Some vs)"
proof -
  have "{r \<in> set (ad_fields (as_db s)). (fp_entity r, fp_field r, fp_action r) = (et, f, action)} =
        set (field_rows (as_db s) et f action)" by (auto simp: field_rows_def)
  then show ?thesis
    unfolding coherent_policy [OF assms] build_policy_def multi_of_lookup by simp
qed

lemma field_allowed_rows:
  assumes "coherent s"
  shows "field_allowed w s usr et f action rec x \<longleftrightarrow>
     (let rows = field_rows (as_db s) et f action;
          counted = filter (\<lambda>r. fp_org r = None \<or> fp_org r = user_org usr) rows;
          held = held_principals w usr et rec x
      in counted = [] \<or> role_admin \<in> held \<or> (\<exists>r\<in>set counted. fp_principal r \<in> held))"
proof -
  let ?rows = "field_rows (as_db s) et f action"
  let ?vs = "(\<lambda>r. (fp_principal r, fp_org r)) ` set ?rows"
  have g: "granted_in vs org = fst ` {v \<in> set vs. snd v = None \<or> snd v = org}" for vs org
    by (auto simp: granted_in_def)
  show ?thesis
  proof (cases "map_of (policy s) (et, f, action)")
    case None
    with policy_rows [OF assms, of et f action] have "?rows = []" by (auto simp: Let_def split: if_splits)
    with None show ?thesis by (simp add: field_allowed_def)
  next
    case (Some vs)
    with policy_rows [OF assms, of et f action] have vs: "set vs = ?vs"
      by (auto simp: Let_def split: if_splits)
    have gr: "granted_in vs (user_org usr) =
        fp_principal ` set (filter (\<lambda>r. fp_org r = None \<or> fp_org r = user_org usr) ?rows)"
      unfolding g vs by force
    show ?thesis
      by (auto simp: field_allowed_def Some gr Let_def filter_empty_conv)
  qed
qed

lemma verb_rows_set:
  assumes "coherent s"
  shows "set (verb_rows s verb) =
     (\<lambda>r. (ap_principal r, ap_org r)) ` {r \<in> set (ad_actions (as_db s)). ap_permission r = verb}"
proof -
  have "map_option set (map_of (grants s) verb) =
     (let vs = (\<lambda>r. (ap_principal r, ap_org r)) ` {r \<in> set (ad_actions (as_db s)). ap_permission r = verb}
      in if vs = {} then None else Some vs)"
    unfolding coherent_grants [OF assms] build_actions_def multi_of_lookup by simp
  then show ?thesis
    by (cases "map_of (grants s) verb") (auto simp: verb_rows_def Let_def split: if_splits)
qed

end
