(* ===== verification/AccessMac.thy ===== *)
theory AccessMac
  imports AccessPolicy
begin

text \<open>
  The mandatory layer (\<^verbatim>\<open>asas_access/mac.py\<close>): clearance levels and markings, checked before the
  discretionary layer of \<^verbatim>\<open>visibility.py\<close>.  The per-request cache of record markings is left out:
  the stamps are read from the table.
\<close>

definition record_markings :: "access_state \<Rightarrow> int \<Rightarrow> string \<Rightarrow> int \<Rightarrow> string set" where
  "record_markings s org et rid =
     rm_code ` set (filter (\<lambda>m. rm_org m = org \<and> rm_entity m = et \<and> rm_record m = rid)
       (ad_markings (as_db s)))"

text \<open>\<open>subject_access_profile\<close>: nobody, no source or a raising source is the empty profile.\<close>

definition subject_access_profile ::
  "'x access_wiring \<Rightarrow> user option \<Rightarrow> 'x \<Rightarrow> string option \<times> string set" where
  "subject_access_profile w usr x =
     (case (usr, aw_subject_source w) of
        (Some u, Some src) \<Rightarrow> (case src u x of Inr p \<Rightarrow> p | Inl e \<Rightarrow> (None, {}))
      | _ \<Rightarrow> (None, {}))"

definition record_org :: "entity_record \<Rightarrow> int option \<Rightarrow> int option" where
  "record_org r explicit = (case er_org r of None \<Rightarrow> explicit | Some o' \<Rightarrow> Some o')"

definition stamps_of ::
  "access_state \<Rightarrow> string \<Rightarrow> entity_record \<Rightarrow> int option \<Rightarrow> string set" where
  "stamps_of s et r explicit =
     (case er_id r of
        None \<Rightarrow> {}
      | Some rid \<Rightarrow>
          (case record_org r explicit of
             Some org \<Rightarrow> record_markings s org et rid
           | None \<Rightarrow> rm_code ` set (filter (\<lambda>m. rm_entity m = et \<and> rm_record m = rid)
                        (ad_markings (as_db s)))))"

definition org_ranks :: "access_state \<Rightarrow> int \<Rightarrow> (string \<times> int) list" where
  "org_ranks s org = (case map_of (levels s) org of None \<Rightarrow> [] | Some rs \<Rightarrow> rs)"

text \<open>Rank comparison; a code missing from the catalog denies, no clearance is the least rank.\<close>

definition clears :: "(string \<times> int) list \<Rightarrow> string \<Rightarrow> string option \<Rightarrow> bool" where
  "clears ranks code level =
     (case dget ranks code of
        None \<Rightarrow> False
      | Some record_rank \<Rightarrow>
          (case level of
             None \<Rightarrow> record_rank \<le> Min (snd ` set ranks)
           | Some l \<Rightarrow> (case dget ranks l of None \<Rightarrow> False | Some r \<Rightarrow> record_rank \<le> r)))"

definition mac_allows ::
  "'x access_wiring \<Rightarrow> access_state \<Rightarrow> user option \<Rightarrow> string \<Rightarrow> entity_record option \<Rightarrow> int option
    \<Rightarrow> 'x \<Rightarrow> bool" where
  "mac_allows w s usr et rec explicit x =
     (case rec of
        None \<Rightarrow> True
      | Some r \<Rightarrow>
          if et \<notin> aw_classified w then True
          else
            let marks = stamps_of s et r explicit in
            if er_classification r = None \<and> marks = {} then True
            else if usr = None then False
            else
              let (level, held) = subject_access_profile w usr x in
              if marks \<noteq> {} \<and> \<not> marks \<subseteq> held then False
              else case er_classification r of
                     None \<Rightarrow> True
                   | Some code \<Rightarrow>
                       (case record_org r explicit of
                          None \<Rightarrow> False
                        | Some org \<Rightarrow> clears (org_ranks s org) code level))"

fun ensure_level_rows ::
  "int \<Rightarrow> string set \<Rightarrow> (string \<times> string \<times> int) list \<Rightarrow> access_db \<Rightarrow> access_db \<times> bool" where
  "ensure_level_rows org existing [] db = (db, False)"
| "ensure_level_rows org existing ((code, name, rank) # ls) db =
     (if code \<in> existing then ensure_level_rows org existing ls db
      else (fst (ensure_level_rows org existing ls
                  (db\<lparr>ad_levels := ad_levels db @
                       [\<lparr>cl_org = org, cl_code = code, cl_name = name, cl_rank = rank\<rparr>]\<rparr>)), True))"

text \<open>The invalidation waits for the commit.\<close>

definition ensure_clearance_levels ::
  "int \<Rightarrow> (string \<times> string \<times> int) list \<Rightarrow> access_state \<Rightarrow> access_state" where
  "ensure_clearance_levels org ls s =
     (let existing = cl_code ` set (filter (\<lambda>l. cl_org l = org) (ad_levels (as_db s)));
          (db, added) = ensure_level_rows org existing ls (as_db s)
      in s\<lparr>as_db := db, as_levels_pending := as_levels_pending s \<or> added\<rparr>)"

definition commit :: "access_state \<Rightarrow> access_state" where
  "commit s =
     (if as_levels_pending s then (invalidate_mac_cache s)\<lparr>as_levels_pending := False\<rparr> else s)"

subsection \<open>Record visibility\<close>

definition view_private :: string where "view_private = ''record.view_private''"

definition can_view_record ::
  "'x access_wiring \<Rightarrow> access_state \<Rightarrow> user option \<Rightarrow> string \<Rightarrow> entity_record option \<Rightarrow> int option
    \<Rightarrow> 'x \<Rightarrow> bool result" where
  "can_view_record w s usr et rec explicit x =
     (if \<not> mac_allows w s usr et rec explicit x then Inr False
      else if Option.bind rec er_visibility \<noteq> Some ''private'' then Inr True
      else
        let held = held_principals w usr et rec x in
        if role_admin \<in> held then Inr True
        else if (case aw_private_viewers w et of None \<Rightarrow> {} | Some ps \<Rightarrow> ps) \<inter> held \<noteq> {} then Inr True
        else action_allowed w s usr view_private x)"

subsection \<open>Facts\<close>

lemma ensure_level_rows_facts:
  "let r = ensure_level_rows org ex ls db in
     ad_fields (fst r) = ad_fields db \<and> ad_actions (fst r) = ad_actions db \<and>
     ad_markings (fst r) = ad_markings db \<and> (\<not> snd r \<longrightarrow> fst r = db)"
  by (induction org ex ls db rule: ensure_level_rows.induct) (auto simp: Let_def)

lemma coherent_ensure_levels:
  "coherent s \<Longrightarrow> coherent (ensure_clearance_levels org ls s)"
  using ensure_level_rows_facts [of org "cl_code ` set (filter (\<lambda>l. cl_org l = org) (ad_levels (as_db s)))" ls "as_db s"]
  by (auto simp: ensure_clearance_levels_def coherent_def Let_def build_policy_def build_actions_def
      split: prod.splits)

lemma coherent_commit: "coherent s \<Longrightarrow> coherent (commit s) \<and> \<not> as_levels_pending (commit s)"
  by (auto simp: commit_def coherent_def invalidate_mac_cache_def)

lemma coherent_fills:
  "coherent s \<Longrightarrow> coherent (fill_policy s)"
  "coherent s \<Longrightarrow> coherent (fill_actions s)"
  "coherent s \<Longrightarrow> coherent (fill_levels s)"
  by (auto simp: coherent_def fill_policy_def fill_actions_def fill_levels_def policy_def grants_def
      levels_def through_def)

lemma seed_field_rows_facts:
  "seed_field_rows w ds db n = Inr (db', m) \<Longrightarrow>
     n \<le> m \<and> ad_actions db' = ad_actions db \<and> ad_levels db' = ad_levels db \<and>
     (m = n \<longrightarrow> ad_fields db' = ad_fields db) \<and> set (ad_fields db) \<subseteq> set (ad_fields db')"
  by (induction w ds db n rule: seed_field_rows.induct)
    (fastforce simp: rbind_Inr_iff split: if_splits)+

lemma seed_action_rows_facts:
  "seed_action_rows w ds db n = Inr (db', m) \<Longrightarrow>
     n \<le> m \<and> ad_fields db' = ad_fields db \<and> ad_levels db' = ad_levels db \<and>
     (m = n \<longrightarrow> ad_actions db' = ad_actions db) \<and> set (ad_actions db) \<subseteq> set (ad_actions db')"
  by (induction w ds db n rule: seed_action_rows.induct)
    (fastforce simp: rbind_Inr_iff split: if_splits)+

lemma coherent_seed_fields:
  assumes "coherent s" "seed_field_permissions w ds s = Inr t"
  shows "coherent t"
proof -
  obtain db m where r: "seed_field_rows w ds (as_db s) 0 = Inr (db, m)"
    and t: "t = (if 0 < m then invalidate_cache (s\<lparr>as_db := db\<rparr>) else s\<lparr>as_db := db\<rparr>)"
    using assms(2) by (auto simp: seed_field_permissions_def rbind_Inr_iff Let_def)
  from seed_field_rows_facts [OF r] assms(1) show ?thesis
    by (auto simp: t coherent_def invalidate_cache_def build_policy_def build_actions_def build_levels_def)
qed

lemma coherent_seed_actions:
  assumes "coherent s" "seed_action_permissions w ds s = Inr t"
  shows "coherent t"
proof -
  obtain db m where r: "seed_action_rows w ds (as_db s) 0 = Inr (db, m)"
    and t: "t = (if 0 < m then invalidate_action_cache (s\<lparr>as_db := db\<rparr>) else s\<lparr>as_db := db\<rparr>)"
    using assms(2) by (auto simp: seed_action_permissions_def rbind_Inr_iff Let_def)
  from seed_action_rows_facts [OF r] assms(1) show ?thesis
    by (auto simp: t coherent_def invalidate_action_cache_def build_policy_def build_actions_def
        build_levels_def)
qed

text \<open>A seeded row is there afterwards, so seeding again adds nothing.\<close>

lemma seed_field_rows_present:
  "seed_field_rows w ds db n = Inr (db', m) \<Longrightarrow> (et, f, action, p) \<in> set ds \<Longrightarrow>
   \<lparr>fp_org = None, fp_entity = et, fp_field = f, fp_action = action, fp_principal = p\<rparr> \<in> set (ad_fields db')"
proof (induction w ds db n rule: seed_field_rows.induct)
  case (2 w et' f' action' p' ds db added)
  let ?row = "\<lparr>fp_org = None, fp_entity = et', fp_field = f', fp_action = action', fp_principal = p'\<rparr>"
  show ?case
  proof (cases "exists_where (\<lambda>r. fp_entity r = et' \<and> fp_field r = f' \<and> fp_action r = action' \<and>
                            fp_principal r = p' \<and> fp_org r = None) (ad_fields db)")
    case True
    then obtain r where r: "r \<in> set (ad_fields db)" "fp_entity r = et'" "fp_field r = f'"
      "fp_action r = action'" "fp_principal r = p'" "fp_org r = None" by (auto simp: exists_where_iff)
    from r(2-6) have "r = ?row" by (intro field_permission.equality) simp_all
    with r have row: "?row \<in> set (ad_fields db)" by simp
    from True "2.prems"(1) have rest: "seed_field_rows w ds db added = Inr (db', m)"
      by (auto simp: rbind_Inr_iff)
    with True "2.IH"(1) "2.prems" seed_field_rows_facts [OF rest] row show ?thesis
      by (auto simp: rbind_Inr_iff)
  next
    case False
    from False "2.prems"(1) have rest: "seed_field_rows w ds (db\<lparr>ad_fields := ad_fields db @ [?row]\<rparr>)
        (Suc added) = Inr (db', m)" by (auto simp: rbind_Inr_iff)
    with False "2.IH"(2) "2.prems" seed_field_rows_facts [OF rest] show ?thesis
      by (auto simp: rbind_Inr_iff)
  qed
qed simp

lemma seed_field_rows_again:
  assumes "\<And>et f action p. (et, f, action, p) \<in> set ds \<Longrightarrow> is_known w et f \<and>
     \<lparr>fp_org = None, fp_entity = et, fp_field = f, fp_action = action, fp_principal = p\<rparr> \<in> set (ad_fields db)"
  shows "seed_field_rows w ds db n = Inr (db, n)"
  using assms
proof (induction ds)
  case Nil
  then show ?case by simp
next
  case (Cons d ds)
  obtain et f action p where d: "d = (et, f, action, p)" by (cases d) auto
  with Cons.prems [of et f action p] have "is_known w et f"
    "exists_where (\<lambda>r. fp_entity r = et \<and> fp_field r = f \<and> fp_action r = action \<and>
        fp_principal r = p \<and> fp_org r = None) (ad_fields db)"
    by (force simp: exists_where_iff)+
  moreover have "seed_field_rows w ds db n = Inr (db, n)"
    by (rule Cons.IH, rule Cons.prems) simp
  ultimately show ?case using d by simp
qed

lemma seed_field_rows_known:
  "seed_field_rows w ds db n = Inr r \<Longrightarrow> (et, f, action, p) \<in> set ds \<Longrightarrow> is_known w et f"
  by (induction w ds db n rule: seed_field_rows.induct) (auto simp: rbind_Inr_iff split: if_splits)

end
