(* ===== verification/AccessProps.thy ===== *)
theory AccessProps
  imports AccessMac
begin

text \<open>The properties of the access package, with witnesses on a small organisation.\<close>

subsection \<open>Redaction\<close>

lemma dget_null_target:
  "dget (null_target t ds) k = (if k = t \<and> dget ds t \<noteq> None then Some PNone else dget ds k)"
  by (auto simp: null_target_def)

lemma dget_null_fold:
  "dget (fold null_target ts ds) k =
     (if k \<in> set ts \<and> dget ds k \<noteq> None then Some PNone else dget ds k)"
  by (induction ts arbitrary: ds) (auto simp: dget_null_target)

definition targets_of :: "(string \<times> string list) list \<Rightarrow> string \<Rightarrow> string set" where
  "targets_of also_null f = insert f (set (case map_of also_null f of None \<Rightarrow> [] | Some ts \<Rightarrow> ts))"

lemma dget_null_targets:
  "dget (null_targets also_null f ds) k =
     (if k \<in> targets_of also_null f \<and> dget ds k \<noteq> None then Some PNone else dget ds k)"
  by (simp only: null_targets_def dget_null_fold targets_of_def list.set)

lemma dget_redact_fold:
  "dget (fold (\<lambda>f acc. if ok f then acc else null_targets also_null f acc) fs ds) k =
     (if (\<exists>f\<in>set fs. \<not> ok f \<and> k \<in> targets_of also_null f) \<and> dget ds k \<noteq> None then Some PNone
      else dget ds k)"
  by (induction fs arbitrary: ds) (auto simp: dget_null_targets)

fun payload_of :: "read_model \<Rightarrow> (string \<times> pyval) list" where
  "payload_of (ReadMapping ds) = ds"
| "payload_of (ReadObject ds) = ds"
| "payload_of (ReadOpaque t) = []"

text \<open>
  Who may not view a field, read off the tables: some view row of the platform or of the caller's
  organisation names the field, and the caller is no admin and holds no principal of those rows.
\<close>

definition view_rows :: "access_db \<Rightarrow> user option \<Rightarrow> string \<Rightarrow> string \<Rightarrow> field_permission list" where
  "view_rows db usr et f =
     filter (\<lambda>g. fp_entity g = et \<and> fp_field g = f \<and> fp_action g = ''view'' \<and>
                 (fp_org g = None \<or> (\<exists>u\<in>set_option usr. fp_org g = us_org u))) (ad_fields db)"

definition hidden_from ::
  "'x access_wiring \<Rightarrow> access_db \<Rightarrow> user option \<Rightarrow> string \<Rightarrow> entity_record option \<Rightarrow> 'x \<Rightarrow> string \<Rightarrow> bool" where
  "hidden_from w db usr et rec x f =
     (view_rows db usr et f \<noteq> [] \<and> ''admin'' \<notin> held_principals w usr et rec x \<and>
      (\<forall>g\<in>set (view_rows db usr et f). fp_principal g \<notin> held_principals w usr et rec x))"

lemma view_rows_counted:
  "view_rows db usr et f =
     filter (\<lambda>r. fp_org r = None \<or> fp_org r = user_org usr) (field_rows db et f ''view'')"
  by (cases usr) (auto simp: view_rows_def field_rows_def user_org_def intro!: filter_cong)

lemma can_view_hidden:
  assumes "coherent s"
  shows "can_view_field w s usr et f rec x \<longleftrightarrow> \<not> hidden_from w (as_db s) usr et rec x f"
  unfolding can_view_field_def field_allowed_rows [OF assms] hidden_from_def view_rows_counted role_admin_def
  by (simp add: Let_def)

text \<open>A field the caller may not view has a view row, so the sweep over the restricted fields meets it.\<close>

lemma unviewable_is_restricted:
  assumes "\<not> can_view_field w s usr et f rec x"
  shows "f \<in> set (view_restricted_fields s et)"
proof -
  from assms obtain rows where "map_of (policy s) (et, f, ''view'') = Some rows"
    by (auto simp: can_view_field_def field_allowed_def split: option.splits)
  then have "((et, f, ''view''), rows) \<in> set (policy s)" by (rule map_of_SomeD)
  then show ?thesis unfolding view_restricted_fields_def by force
qed

lemma redact_view_payload:
  assumes "redact_view w s usr et rm rec also_null x = Inr out"
  shows "dget (payload_of out) k =
     (if (\<exists>f\<in>set (view_restricted_fields s et). \<not> can_view_field w s usr et f rec x \<and>
            k \<in> targets_of also_null f) \<and> dget (payload_of rm) k \<noteq> None
      then Some PNone else dget (payload_of rm) k) \<and>
     (view_restricted_fields s et \<noteq> [] \<longrightarrow> (\<forall>t. rm \<noteq> ReadOpaque t))"
  using assms
  by (cases rm) (auto simp: redact_view_def redact_fields_def dget_redact_fold split: if_splits)

text \<open>C30: Redaction hides exactly what it must.  Every field the caller may not view by the grant
  rows of the platform and of its own organisation, and every companion of it, comes back null or
  absent; every other key keeps its value; no key appears or disappears; and when there is such a
  field a read model that is neither a mapping nor an object is an error, never returned as it is.
  The policy cache agrees with its table (\<open>coherent\<close>); attributes of a read model can be assigned.\<close>

theorem redact_view_hides:
  assumes "coherent s" and "redact_view w s usr et rm rec also_null x = Inr out"
  shows "(\<forall>f k. hidden_from w (as_db s) usr et rec x f \<longrightarrow> k \<in> targets_of also_null f \<longrightarrow>
            dget (payload_of out) k \<in> {None, Some PNone}) \<and>
         (\<forall>k. (\<forall>f. hidden_from w (as_db s) usr et rec x f \<longrightarrow> k \<notin> targets_of also_null f) \<longrightarrow>
            dget (payload_of out) k = dget (payload_of rm) k) \<and>
         (\<forall>k. dget (payload_of out) k = None \<longleftrightarrow> dget (payload_of rm) k = None) \<and>
         ((\<exists>f. hidden_from w (as_db s) usr et rec x f) \<longrightarrow> (\<forall>t. rm \<noteq> ReadOpaque t))"
proof -
  note payload = redact_view_payload [OF assms(2)]
  have hidden: "f \<in> set (view_restricted_fields s et) \<and> \<not> can_view_field w s usr et f rec x"
    if "hidden_from w (as_db s) usr et rec x f" for f
    using that unviewable_is_restricted [of w s usr et f rec x] can_view_hidden [OF assms(1), of w usr et f rec x] by blast
  have shown: "\<not> can_view_field w s usr et f rec x \<Longrightarrow> hidden_from w (as_db s) usr et rec x f" for f
    using can_view_hidden [OF assms(1), of w usr et f rec x] by blast
  show ?thesis
  proof (intro conjI allI impI)
    fix f k assume "hidden_from w (as_db s) usr et rec x f" "k \<in> targets_of also_null f"
    with payload [of k] hidden show "dget (payload_of out) k \<in> {None, Some PNone}" by auto
  next
    fix k assume "\<forall>f. hidden_from w (as_db s) usr et rec x f \<longrightarrow> k \<notin> targets_of also_null f"
    with payload [of k] shown show "dget (payload_of out) k = dget (payload_of rm) k" by auto
  next
    fix k show "dget (payload_of out) k = None \<longleftrightarrow> dget (payload_of rm) k = None"
      using payload [of k] by (simp split: if_splits)
  next
    fix t assume "\<exists>f. hidden_from w (as_db s) usr et rec x f"
    with hidden payload [of undefined] show "rm \<noteq> ReadOpaque t" by fastforce
  qed
qed

subsection \<open>A small organisation\<close>

definition acme_wiring :: "unit access_wiring" where
  "acme_wiring =
     register_actions {''team.create'', ''record.view_private''} False
       (register_classified_entity ''doc''
         (register_subject_source (\<lambda>u x. if us_id u = 9 then Inl (HostExn ''DBError'' ''down'')
             else Inr (if us_id u = 1 then Some ''secret'' else None, if us_id u = 1 then {''alpha''} else {}))
           empty_wiring))"

definition acme_db :: access_db where
  "acme_db =
     \<lparr>ad_fields = [\<lparr>fp_org = None, fp_entity = ''member'', fp_field = ''salary'', fp_action = ''view'',
                    fp_principal = ''hr''\<rparr>],
      ad_actions = [\<lparr>ap_org = None, ap_permission = ''team.create'', ap_principal = ''leads''\<rparr>],
      ad_groups = [],
      ad_levels = [\<lparr>cl_org = 5, cl_code = ''open'', cl_name = ''Open'', cl_rank = 0\<rparr>,
                   \<lparr>cl_org = 5, cl_code = ''secret'', cl_name = ''Secret'', cl_rank = 2\<rparr>],
      ad_markings = [\<lparr>rm_org = 5, rm_entity = ''doc'', rm_record = 3, rm_code = ''alpha''\<rparr>]\<rparr>"

definition acme :: access_state where
  "acme = \<lparr>as_db = acme_db, as_policy = None, as_actions = None, as_levels = None,
           as_levels_pending = False\<rparr>"

definition acme_user :: "int \<Rightarrow> string \<Rightarrow> user option" where
  "acme_user i role = Some \<lparr>us_role = Some role, us_org = Some 5, us_id = i\<rparr>"

definition acme_doc :: "int \<Rightarrow> string \<Rightarrow> entity_record option" where
  "acme_doc rid level = Some \<lparr>er_id = Some rid, er_org = Some 5, er_classification = Some level,
     er_visibility = None, er_attrs = []\<rparr>"

lemma acme_coherent: "coherent acme"
  by (simp add: coherent_def acme_def)

theorem redact_view_hides_witness:
  "\<exists>out. redact_view acme_wiring acme (acme_user 2 ''member'') ''member''
       (ReadMapping [(''name'', PStr ''Al''), (''salary'', PInt 9)]) None [] () = Inr out \<and>
     dget (payload_of out) ''salary'' = Some PNone \<and> dget (payload_of out) ''name'' = Some (PStr ''Al'')"
proof -
  let ?rm = "ReadMapping [(''name'', PStr ''Al''), (''salary'', PInt 9)]"
  let ?r = "redact_view acme_wiring acme (acme_user 2 ''member'') ''member'' ?rm None [] ()"
  have hidden: "hidden_from acme_wiring (as_db acme) (acme_user 2 ''member'') ''member'' None () ''salary''"
    by code_simp
  have only: "f = ''salary''"
    if "hidden_from acme_wiring (as_db acme) (acme_user 2 ''member'') ''member'' None () f" for f
    using that by (auto simp: hidden_from_def view_rows_def acme_def acme_db_def split: if_splits)
  obtain out where out: "?r = Inr out"
    by (cases "view_restricted_fields acme ''member'' = []") (auto simp: redact_view_def)
  note r = redact_view_hides [OF acme_coherent out]
  have "dget (payload_of out) ''salary'' \<in> {None, Some PNone}"
    by (rule r [THEN conjunct1, rule_format, OF hidden]) (simp add: targets_of_def)
  moreover have "dget (payload_of out) ''salary'' \<noteq> None"
    using r [THEN conjunct2, THEN conjunct2, THEN conjunct1] by simp
  moreover have "dget (payload_of out) ''name'' = dget (payload_of ?rm) ''name''"
    by (rule r [THEN conjunct2, THEN conjunct1, rule_format]) (auto dest!: only simp: targets_of_def)
  ultimately show ?thesis using out by auto
qed

text \<open>
  What need-to-know asks for, read off the tables: the marking rows that stamp a record, the rank an
  organisation's catalog gives a level (of rows with one code the last counts), and the profile the
  host's source vouches for.
\<close>

definition owner_of :: "entity_record \<Rightarrow> int option \<Rightarrow> int option" where
  "owner_of r explicit = (if er_org r = None then explicit else er_org r)"

definition stamps :: "string \<Rightarrow> entity_record \<Rightarrow> int option \<Rightarrow> record_marking \<Rightarrow> bool" where
  "stamps et r explicit m =
     (rm_entity m = et \<and> er_id r = Some (rm_record m) \<and> owner_of r explicit \<in> {None, Some (rm_org m)})"

definition level_rank :: "access_db \<Rightarrow> int \<Rightarrow> string \<Rightarrow> int option" where
  "level_rank db org code =
     map_option cl_rank (find (\<lambda>l. cl_org l = org \<and> cl_code l = code) (rev (ad_levels db)))"

definition vouched :: "'x access_wiring \<Rightarrow> user \<Rightarrow> 'x \<Rightarrow> string option \<times> string set" where
  "vouched w u x =
     (case map_option (\<lambda>src. src u x) (aw_subject_source w) of Some (Inr p) \<Rightarrow> p | _ \<Rightarrow> (None, {}))"

definition outranked :: "access_db \<Rightarrow> int \<Rightarrow> string \<Rightarrow> string option \<Rightarrow> bool" where
  "outranked db org code level =
     (\<exists>need. level_rank db org code = Some need \<and>
        (case level of
           Some l \<Rightarrow> (\<exists>rank. level_rank db org l = Some rank \<and> need \<le> rank)
         | None \<Rightarrow> (\<forall>l\<in>set (ad_levels db). cl_org l = org \<longrightarrow>
             (\<exists>rank. level_rank db org (cl_code l) = Some rank \<and> need \<le> rank))))"

lemma level_add_lookup:
  "Option.bind (map_of (level_add org code rank m) org') (\<lambda>ls. dget ls code') =
     (if org = org' \<and> code = code' then Some rank else Option.bind (map_of m org') (\<lambda>ls. dget ls code'))"
  by (induction org code rank m rule: level_add.induct) auto

lemma level_add_distinct:
  "\<forall>ls\<in>snd ` set m. distinct (map fst ls) \<Longrightarrow> \<forall>ls\<in>snd ` set (level_add org code rank m). distinct (map fst ls)"
  by (induction org code rank m rule: level_add.induct) (auto simp: distinct_dset)

lemma build_levels_lookup:
  "Option.bind (map_of (build_levels db) org) (\<lambda>ls. dget ls code) = level_rank db org code \<and>
   (\<forall>ls\<in>snd ` set (build_levels db). distinct (map fst ls))"
proof -
  let ?add = "\<lambda>l. level_add (cl_org l) (cl_code l) (cl_rank l)"
  have "Option.bind (map_of (fold ?add ls []) org) (\<lambda>ls. dget ls code) =
      map_option cl_rank (find (\<lambda>l. cl_org l = org \<and> cl_code l = code) (rev ls)) \<and>
    (\<forall>ms\<in>snd ` set (fold ?add ls []). distinct (map fst ms))" for ls
  proof (induction ls rule: rev_induct)
    case (snoc l ls)
    then show ?case
      using level_add_distinct [of "fold ?add ls []" "cl_org l" "cl_code l" "cl_rank l"]
      by (simp add: level_add_lookup)
  qed simp
  then show ?thesis by (simp add: build_levels_def level_rank_def)
qed

lemma org_ranks_rows:
  assumes "coherent s" and "\<not> as_levels_pending s"
  shows "dget (org_ranks s org) code = level_rank (as_db s) org code"
    and "distinct (map fst (org_ranks s org))"
proof -
  have levels: "levels s = build_levels (as_db s)"
    using assms unfolding levels_def coherent_def by (blast intro: level_cache.coherent_read)
  note build = build_levels_lookup [of "as_db s" org code]
  show "dget (org_ranks s org) code = level_rank (as_db s) org code"
    using build by (auto simp: org_ranks_def levels split: option.splits)
  show "distinct (map fst (org_ranks s org))"
    using build by (fastforce simp: org_ranks_def levels dest: map_of_SomeD split: option.splits)
qed

lemma clears_outranked:
  assumes "coherent s" and "\<not> as_levels_pending s" and "clears (org_ranks s org) code level"
  shows "outranked (as_db s) org code level"
proof -
  note ranks = org_ranks_rows [OF assms(1,2)]
  obtain need where need: "level_rank (as_db s) org code = Some need"
    using assms(3) by (auto simp: clears_def ranks(1) split: option.splits)
  show ?thesis
  proof (cases level)
    case (Some l)
    then show ?thesis
      using assms(3) need by (auto simp: clears_def ranks(1) outranked_def split: option.splits)
  next
    case None
    have "\<exists>rank. level_rank (as_db s) org (cl_code l) = Some rank \<and> need \<le> rank"
      if "l \<in> set (ad_levels (as_db s))" "cl_org l = org" for l
    proof -
      have "level_rank (as_db s) org (cl_code l) \<noteq> None"
        using that by (auto simp: level_rank_def find_None_iff)
      then obtain rank where rank: "level_rank (as_db s) org (cl_code l) = Some rank" by blast
      then have "(cl_code l, rank) \<in> set (org_ranks s org)" 
        using ranks(1) by (metis dget_map_of map_of_SomeD)
      then have "Min (snd ` set (org_ranks s org)) \<le> rank" by (intro Min_le) force+
      then show ?thesis
        using assms(3) need rank by (auto simp: clears_def ranks(1) None)
    qed
    with need None show ?thesis by (simp add: outranked_def)
  qed
qed

text \<open>C13: Need-to-know comes first and has no admin floor.  Whoever may see a record of a classified
  entity type that carries a marking row or a level is a known user; the host's source vouches for
  every marking of the record; and the catalog of the record's organisation (its own, else the one
  the caller names) ranks the user's level no lower than the record's, a user without a level
  counting as the lowest, whatever role, group or grant they hold.  The level cache agrees with its
  table and no seed waits for its commit.\<close>

theorem stamped_record_needs_clearance:
  assumes "can_view_record w s usr et (Some r) explicit x = Inr True"
    and "et \<in> aw_classified w" and "coherent s" and "\<not> as_levels_pending s"
    and "(\<exists>m\<in>set (ad_markings (as_db s)). stamps et r explicit m) \<or> er_classification r \<noteq> None"
  shows "\<exists>u level held. usr = Some u \<and> vouched w u x = (level, held) \<and>
     (\<forall>m\<in>set (ad_markings (as_db s)). stamps et r explicit m \<longrightarrow> rm_code m \<in> held) \<and>
     (\<forall>code. er_classification r = Some code \<longrightarrow>
        (\<exists>org. owner_of r explicit = Some org \<and> outranked (as_db s) org code level))"
proof -
  have marks: "stamps_of s et r explicit = rm_code ` {m \<in> set (ad_markings (as_db s)). stamps et r explicit m}"
    by (auto simp: stamps_of_def record_markings_def stamps_def owner_of_def record_org_def split: option.splits)
  have profile: "subject_access_profile w (Some u) x = vouched w u x" for u
    by (simp add: subject_access_profile_def vouched_def split: option.splits)
  have owner: "record_org r explicit = owner_of r explicit"
    by (simp add: record_org_def owner_of_def split: option.splits)
  have "mac_allows w s usr et (Some r) explicit x"
    using assms(1) by (auto simp: can_view_record_def split: if_splits)
  moreover have "er_classification r \<noteq> None \<or> stamps_of s et r explicit \<noteq> {}"
    using assms(5) marks by auto
  ultimately obtain u where u: "usr = Some u" and allowed: "mac_allows w s (Some u) et (Some r) explicit x"
    and stamped: "er_classification r \<noteq> None \<or> stamps_of s et r explicit \<noteq> {}"
    using assms(2) by (cases usr) (auto simp: mac_allows_def Let_def split: if_splits)
  obtain level held where v: "vouched w u x = (level, held)" by fastforce
  have "stamps_of s et r explicit \<subseteq> held"
    using allowed stamped assms(2) by (auto simp: mac_allows_def Let_def profile v split: if_splits)
  moreover have "\<exists>org. record_org r explicit = Some org \<and> clears (org_ranks s org) code level"
    if "er_classification r = Some code" for code
    using allowed assms(2) that
    by (auto simp: mac_allows_def Let_def profile v split: if_splits option.splits)
  ultimately have "(\<forall>m\<in>set (ad_markings (as_db s)). stamps et r explicit m \<longrightarrow> rm_code m \<in> held) \<and>
     (\<forall>code. er_classification r = Some code \<longrightarrow>
        (\<exists>org. owner_of r explicit = Some org \<and> outranked (as_db s) org code level))"
    using clears_outranked [OF assms(3,4)] unfolding marks owner by fast
  with u v show ?thesis by blast
qed

theorem stamped_record_needs_clearance_witness:
  "can_view_record acme_wiring acme (acme_user 1 ''member'') ''doc'' (acme_doc 3 ''secret'') None () = Inr True \<and>
   can_view_record acme_wiring acme (acme_user 2 ''admin'') ''doc'' (acme_doc 3 ''open'') None () = Inr False \<and>
   can_view_record acme_wiring acme (acme_user 3 ''admin'') ''doc'' (acme_doc 4 ''secret'') None () \<noteq> Inr True \<and>
   outranked (as_db acme) 5 ''secret'' (Some ''secret'')"
proof (intro conjI)
  let ?r = "\<lambda>i. \<lparr>er_id = Some i, er_org = Some 5, er_classification = Some ''secret'',
     er_visibility = None, er_attrs = []\<rparr>"
  have c: "''doc'' \<in> aw_classified acme_wiring" by code_simp
  have p: "\<not> as_levels_pending acme" by (simp add: acme_def)
  have owner: "owner_of (?r i) None = Some 5" for i by (simp add: owner_of_def)
  show a: "can_view_record acme_wiring acme (acme_user 1 ''member'') ''doc'' (acme_doc 3 ''secret'') None () = Inr True"
    by code_simp
  show "can_view_record acme_wiring acme (acme_user 2 ''admin'') ''doc'' (acme_doc 3 ''open'') None () = Inr False"
    by code_simp
  have "vouched acme_wiring \<lparr>us_role = Some ''member'', us_org = Some 5, us_id = 1\<rparr> () = (Some ''secret'', {''alpha''})"
    by code_simp
  with stamped_record_needs_clearance [OF a [unfolded acme_doc_def] c acme_coherent p]
  show "outranked (as_db acme) 5 ''secret'' (Some ''secret'')"
    by (auto simp: owner acme_user_def)
  show "can_view_record acme_wiring acme (acme_user 3 ''admin'') ''doc'' (acme_doc 4 ''secret'') None () \<noteq> Inr True"
  proof
    assume v: "can_view_record acme_wiring acme (acme_user 3 ''admin'') ''doc'' (acme_doc 4 ''secret'') None () = Inr True"
    have "vouched acme_wiring \<lparr>us_role = Some ''admin'', us_org = Some 5, us_id = 3\<rparr> () = (None, {})"
      by code_simp
    moreover have "\<not> outranked (as_db acme) 5 ''secret'' None"
      by (simp add: outranked_def level_rank_def acme_def acme_db_def)
    ultimately show False
      using stamped_record_needs_clearance [OF v [unfolded acme_doc_def] c acme_coherent p]
      by (auto simp: owner acme_user_def)
  qed
qed

text \<open>A subject source that fails does not hide everything stamped: the empty profile reads as
  the lowest clearance, so a record stamped at the catalog's lowest level stays visible to a user
  whose clearance could not be resolved.\<close>

theorem failed_source_clears_lowest_level:
  "subject_access_profile acme_wiring (acme_user 9 ''member'') () = (None, {}) \<and>
   mac_allows acme_wiring acme (acme_user 9 ''member'') ''doc'' (acme_doc 4 ''open'') None () \<and>
   \<not> mac_allows acme_wiring acme (acme_user 9 ''member'') ''doc'' (acme_doc 4 ''secret'') None () \<and>
   \<not> mac_allows acme_wiring acme None ''doc'' (acme_doc 4 ''open'') None ()"
  by code_simp

subsection \<open>Grants\<close>

definition add_field_grant :: "field_permission \<Rightarrow> access_state \<Rightarrow> access_state" where
  "add_field_grant row s =
     invalidate_cache (s\<lparr>as_db := (as_db s)\<lparr>ad_fields := ad_fields (as_db s) @ [row]\<rparr>\<rparr>)"

definition add_action_grant :: "action_permission \<Rightarrow> access_state \<Rightarrow> access_state" where
  "add_action_grant row s =
     invalidate_action_cache (s\<lparr>as_db := (as_db s)\<lparr>ad_actions := ad_actions (as_db s) @ [row]\<rparr>\<rparr>)"

lemma coherent_add_grants:
  "coherent s \<Longrightarrow> coherent (add_field_grant row s)"
  "coherent s \<Longrightarrow> coherent (add_action_grant arow s)"
  by (auto simp: coherent_def add_field_grant_def add_action_grant_def invalidate_cache_def
      invalidate_action_cache_def build_policy_def build_actions_def build_levels_def)

text \<open>C26: An organisation's grants never leak: with coherent caches a field grant scoped to another
  organisation changes no answer of \<open>field_allowed\<close> for this caller (so none of \<open>can_view_field\<close> or
  \<open>can_edit_field\<close>), even on a field nobody configured before, and an action grant scoped to another
  organisation changes no answer of \<open>action_allowed\<close> or \<open>action_allowed_for\<close>.\<close>

theorem other_org_grants_are_inert:
  assumes "coherent s" "fp_org row = Some k" "ap_org arow = Some k" "user_org usr \<noteq> Some k"
  shows "field_allowed w (add_field_grant row s) usr et f action rec x =
           field_allowed w s usr et f action rec x \<and>
         action_allowed w (add_action_grant arow s) usr verb x = action_allowed w s usr verb x \<and>
         action_allowed_for w (add_action_grant arow s) usr verb et rec x =
           action_allowed_for w s usr verb et rec x"
proof -
  let ?t = "add_field_grant row s" and ?u = "add_action_grant arow s"
  have rows: "field_rows (as_db ?t) et f action = field_rows (as_db s) et f action @
      (if fp_entity row = et \<and> fp_field row = f \<and> fp_action row = action then [row] else [])"
    by (simp add: field_rows_def add_field_grant_def invalidate_cache_def)
  have "filter (\<lambda>r. fp_org r = None \<or> fp_org r = user_org usr) (field_rows (as_db ?t) et f action) =
        filter (\<lambda>r. fp_org r = None \<or> fp_org r = user_org usr) (field_rows (as_db s) et f action)"
    unfolding rows using assms(2,4) by auto
  then have field: "field_allowed w ?t usr et f action rec x = field_allowed w s usr et f action rec x"
    unfolding field_allowed_rows [OF assms(1)] field_allowed_rows [OF coherent_add_grants(1) [OF assms(1)]]
    by (simp only: Let_def)
  have "granted_in (verb_rows ?u verb) (user_org usr) = granted_in (verb_rows s verb) (user_org usr)"
    using assms(3,4)
    unfolding granted_in_def set_filter verb_rows_set [OF assms(1)]
      verb_rows_set [OF coherent_add_grants(2) [OF assms(1)]]
    by (force simp: add_action_grant_def invalidate_action_cache_def)
  then have "verb_held ?u usr verb held = verb_held s usr verb held" for held
    by (simp add: verb_held_def)
  with field show ?thesis by (simp add: action_allowed_def action_allowed_for_def)
qed

theorem other_org_grants_are_inert_witness:
  "field_allowed acme_wiring
     (add_field_grant \<lparr>fp_org = Some 6, fp_entity = ''member'', fp_field = ''salary'',
        fp_action = ''view'', fp_principal = ''member''\<rparr> acme)
     (acme_user 2 ''member'') ''member'' ''salary'' ''view'' None () = False \<and>
   action_allowed acme_wiring
     (add_action_grant \<lparr>ap_org = Some 6, ap_permission = ''team.create'', ap_principal = ''member''\<rparr> acme)
     (acme_user 2 ''member'') ''team.create'' () = Inr False"
proof -
  let ?row = "\<lparr>fp_org = Some 6, fp_entity = ''member'', fp_field = ''salary'',
        fp_action = ''view'', fp_principal = ''member''\<rparr>"
  let ?arow = "\<lparr>ap_org = Some 6, ap_permission = ''team.create'', ap_principal = ''member''\<rparr>"
  have o: "fp_org ?row = Some 6" "ap_org ?arow = Some 6" "user_org (acme_user 2 ''member'') \<noteq> Some 6"
    by (simp_all add: user_org_def acme_user_def)
  have "\<not> field_allowed acme_wiring acme (acme_user 2 ''member'') ''member'' ''salary'' ''view'' None ()"
    "action_allowed acme_wiring acme (acme_user 2 ''member'') ''team.create'' () = Inr False"
    by code_simp+
  then show ?thesis
    using other_org_grants_are_inert [OF acme_coherent o, of acme_wiring "''member''" "''salary''" "''view''" None "()" "''team.create''"]
    by simp
qed

text \<open>Action grants are union-only: adding any grant row takes no verb away from anybody; an
  admin holds every verb and an anonymous caller none, whatever the rows say.\<close>

theorem action_grants_union_only:
  assumes "coherent s" "action_allowed w s usr verb x = Inr b"
  shows "(b \<longrightarrow> action_allowed w (add_action_grant row s) usr verb x = Inr True) \<and>
         (\<forall>u. usr = Some u \<and> us_role u = Some role_admin \<longrightarrow> b) \<and> (usr = None \<longrightarrow> \<not> b)"
proof -
  let ?t = "add_action_grant row s"
  from assms(2) have verb: "verb \<in> aw_actions w" "verb \<notin> aw_record_actions w"
    and b: "b = verb_held s usr verb (held_principals w usr action_scope None x)"
    by (auto simp: action_allowed_def rbind_Inr_iff)
  have "set (verb_rows s verb) \<subseteq> set (verb_rows ?t verb)"
    unfolding verb_rows_set [OF assms(1)] verb_rows_set [OF coherent_add_grants(2) [OF assms(1)]]
    by (auto simp: add_action_grant_def invalidate_action_cache_def)
  then have "granted_in (verb_rows s verb) org \<subseteq> granted_in (verb_rows ?t verb) org" for org
    by (auto simp: granted_in_def)
  then have mono: "b \<Longrightarrow> verb_held ?t usr verb (held_principals w usr action_scope None x)"
    unfolding b verb_held_def by blast
  have "b" if "usr = Some u" "us_role u = Some role_admin" for u
    using that by (auto simp: b verb_held_def held_principals_def)
  moreover have "\<not> b" if "usr = None" using that by (simp add: b verb_held_def)
  ultimately show ?thesis using mono verb by (auto simp: action_allowed_def)
qed

theorem action_grants_union_only_witness:
  "action_allowed acme_wiring
     (add_action_grant \<lparr>ap_org = Some 5, ap_permission = ''team.create'', ap_principal = ''qa''\<rparr> acme)
     (acme_user 2 ''leads'') ''team.create'' () = Inr True"
proof -
  have "action_allowed acme_wiring acme (acme_user 2 ''leads'') ''team.create'' () = Inr True"
    by code_simp
  from action_grants_union_only [OF acme_coherent this] show ?thesis by blast
qed

text \<open>Seeding field grants is idempotent and leaves no stale cache: afterwards every default has
  its platform row, a second run changes nothing, and decisions read the new rows.\<close>

theorem seed_field_permissions_idempotent:
  assumes "coherent s" "seed_field_permissions w ds s = Inr t"
  shows "coherent t \<and> seed_field_permissions w ds t = Inr t \<and>
    (\<forall>et f action p. (et, f, action, p) \<in> set ds \<longrightarrow>
       \<lparr>fp_org = None, fp_entity = et, fp_field = f, fp_action = action, fp_principal = p\<rparr>
         \<in> set (ad_fields (as_db t)) \<and>
       (\<forall>usr rec x. p \<in> held_principals w usr et rec x \<longrightarrow> field_allowed w t usr et f action rec x))"
proof -
  obtain db m where r: "seed_field_rows w ds (as_db s) 0 = Inr (db, m)" and db: "as_db t = db"
    using assms(2)
    by (auto simp: seed_field_permissions_def rbind_Inr_iff Let_def invalidate_cache_def split: if_splits)
  have coh: "coherent t" by (rule coherent_seed_fields [OF assms])
  have present: "\<lparr>fp_org = None, fp_entity = et, fp_field = f, fp_action = action, fp_principal = p\<rparr>
      \<in> set (ad_fields (as_db t))" if "(et, f, action, p) \<in> set ds" for et f action p
    using seed_field_rows_present [OF r that] db by simp
  have "seed_field_rows w ds (as_db t) 0 = Inr (as_db t, 0)"
    by (rule seed_field_rows_again) (use present seed_field_rows_known [OF r] in blast)
  then have again: "seed_field_permissions w ds t = Inr t"
    by (simp add: seed_field_permissions_def)
  have "field_allowed w t usr et f action rec x"
    if d: "(et, f, action, p) \<in> set ds" and held: "p \<in> held_principals w usr et rec x"
    for et f action p usr rec x
  proof -
    let ?row = "\<lparr>fp_org = None, fp_entity = et, fp_field = f, fp_action = action, fp_principal = p\<rparr>"
    have "?row \<in> set (field_rows (as_db t) et f action)"
      using present [OF d] by (simp add: field_rows_def)
    with held show ?thesis unfolding field_allowed_rows [OF coh] Let_def by force
  qed
  with coh again present show ?thesis by blast
qed

theorem seed_field_permissions_idempotent_witness:
  "\<exists>t. seed_field_permissions acme_wiring [(''member'', ''phone'', ''view'', ''self'')] acme = Inr t \<and>
     seed_field_permissions acme_wiring [(''member'', ''phone'', ''view'', ''self'')] t = Inr t"
proof -
  obtain t where t: "seed_field_permissions acme_wiring [(''member'', ''phone'', ''view'', ''self'')] acme = Inr t"
    by (simp add: seed_field_permissions_def acme_def acme_db_def acme_wiring_def empty_wiring_def
        register_actions_def register_classified_entity_def register_subject_source_def is_known_def
        exists_where_def Let_def)
  with seed_field_permissions_idempotent [OF acme_coherent t] show ?thesis by blast
qed

text \<open>A group key that validates names no reserved principal; but the pattern lets a trailing
  newline through, so the key of a principal plus a newline is accepted.\<close>

theorem group_key_newline_accepted:
  "validate_group_key empty_wiring (role_admin @ [char_of (10 :: nat)]) = Inr (role_admin @ [char_of (10 :: nat)]) \<and>
   (\<forall>k. validate_group_key empty_wiring k \<noteq> Inr role_admin)"
proof
  show "validate_group_key empty_wiring (role_admin @ [char_of (10 :: nat)]) =
      Inr (role_admin @ [char_of (10 :: nat)])"
    by code_simp
  show "\<forall>k. validate_group_key empty_wiring k \<noteq> Inr role_admin"
    by (auto simp: validate_group_key_def reserved_principals_def base_reserved_def role_admin_def)
qed

end
