(* ===== verification/AuditJson.thy ===== *)
theory AuditJson
  imports PyText
begin

text \<open>
  \<open>asas_audit/chain.py\<close>: the canonical JSON text that the audit chain hashes.  \<open>json_text\<close> is
  \<open>json.dumps\<close> with tight separators and \<open>ensure_ascii\<close>, \<open>norm_val\<close> the effect of
  \<open>sort_keys\<close>, \<open>normalize_payload\<close> the round trip that \<open>append\<close> makes before it stores a payload.
  The text of a float is a parameter (\<open>repr\<close> of a float, which is exact).  The second half proves
  that the encoding loses nothing: two values with one text are the same value up to the order of
  their keys.
\<close>

subsection \<open>Strings\<close>

definition backslash :: char where
  "backslash = char_of (92 :: nat)"

definition dquote :: char where
  "dquote = char_of (34 :: nat)"

definition json_char :: "char \<Rightarrow> string" where
  "json_char c =
     (let n = of_char c :: nat in
      if n = 34 then [backslash, dquote]
      else if n = 92 then [backslash, backslash]
      else if n = 8 then [backslash, CHR ''b'']
      else if n = 9 then [backslash, CHR ''t'']
      else if n = 10 then [backslash, CHR ''n'']
      else if n = 12 then [backslash, CHR ''f'']
      else if n = 13 then [backslash, CHR ''r'']
      else if n < 32 \<or> 126 < n
      then [backslash, CHR ''u'', CHR ''0'', CHR ''0'', hex_digit (n div 16), hex_digit (n mod 16)]
      else [c])"

definition json_string :: "string \<Rightarrow> string" where
  "json_string s = dquote # concat (map json_char s) @ [dquote]"

subsection \<open>Values\<close>

fun json_text :: "(rat \<Rightarrow> string) \<Rightarrow> pyval \<Rightarrow> string" where
  "json_text ft PNone = ''null''"
| "json_text ft (PBool b) = (if b then ''true'' else ''false'')"
| "json_text ft (PInt i) = int_text i"
| "json_text ft (PFloat q) = ft q"
| "json_text ft (PStr s) = json_string s"
| "json_text ft (PList xs) = CHR ''['' # join CHR '','' (map (json_text ft) xs) @ '']''"
| "json_text ft (PDict ds) =
     CHR ''{'' # join CHR '','' (map (\<lambda>kv. json_string (fst kv) @ CHR '':'' # json_text ft (snd kv)) ds)
       @ ''}''"

fun norm_val :: "pyval \<Rightarrow> pyval" where
  "norm_val (PList xs) = PList (map norm_val xs)"
| "norm_val (PDict ds) = PDict (sort_key fst (map (\<lambda>kv. (fst kv, norm_val (snd kv))) ds))"
| "norm_val v = v"

definition canonical_bytes :: "(rat \<Rightarrow> string) \<Rightarrow> pyval \<Rightarrow> string" where
  "canonical_bytes ft v = json_text ft (norm_val v)"

subsection \<open>Payloads a host passes in\<close>

text \<open>
  The host's dict may have keys that are not strings, tuples, and objects JSON does not know
  (\<open>HObj\<close> carries what \<open>str\<close> makes of it).
\<close>

datatype pykey = KStr string | KInt int | KBool bool | KNone | KFloat rat

datatype hostval =
    HNone | HBool bool | HInt int | HFloat rat | HStr string | HObj string
  | HList "hostval list" | HTuple "hostval list" | HDict "(pykey \<times> hostval) list"

fun key_str :: "(rat \<Rightarrow> string) \<Rightarrow> pykey \<Rightarrow> string" where
  "key_str ft (KStr s) = s"
| "key_str ft (KInt i) = int_text i"
| "key_str ft (KBool b) = (if b then ''True'' else ''False'')"
| "key_str ft KNone = ''None''"
| "key_str ft (KFloat q) = ft q"

fun str_keys :: "(rat \<Rightarrow> string) \<Rightarrow> hostval \<Rightarrow> pyval" where
  "str_keys ft HNone = PNone"
| "str_keys ft (HBool b) = PBool b"
| "str_keys ft (HInt i) = PInt i"
| "str_keys ft (HFloat q) = PFloat q"
| "str_keys ft (HStr s) = PStr s"
| "str_keys ft (HObj s) = PStr s"
| "str_keys ft (HList xs) = PList (map (str_keys ft) xs)"
| "str_keys ft (HTuple xs) = PList (map (str_keys ft) xs)"
| "str_keys ft (HDict ds) =
     PDict (dmerge [] (map (\<lambda>kv. (key_str ft (fst kv), str_keys ft (snd kv))) ds))"

definition normalize_payload :: "(rat \<Rightarrow> string) \<Rightarrow> (pykey \<times> hostval) list \<Rightarrow> pyval" where
  "normalize_payload ft payload = norm_val (str_keys ft (HDict payload))"

subsection \<open>Normal forms\<close>

lemma dmerge_wf:
  assumes "distinct (map fst ds)"
  shows "distinct (map fst (dmerge ds es))"
  using assms by (induction es arbitrary: ds) (simp_all add: dmerge_def distinct_dset)

lemma dset_values: "snd ` set (dset ds k v) \<subseteq> insert v (snd ` set ds)"
  by (induction ds k v rule: dset.induct) auto

lemma dmerge_values: "snd ` set (dmerge ds es) \<subseteq> snd ` set ds \<union> snd ` set es"
proof (induction es arbitrary: ds)
  case Nil
  then show ?case by (simp add: dmerge_def)
next
  case (Cons e es)
  have "dmerge ds (e # es) = dmerge (dset ds (fst e) (snd e)) es" by (simp add: dmerge_def)
  then show ?case using Cons.IH [of "dset ds (fst e) (snd e)"] dset_values [of ds "fst e" "snd e"]
    by auto
qed

lemma str_keys_wf: "wf_val (str_keys ft v)"
proof (induction v)
  case (HDict ds)
  let ?es = "map (\<lambda>kv. (key_str ft (fst kv), str_keys ft (snd kv))) ds"
  have "list_all wf_val (map snd (dmerge [] ?es))"
    using dmerge_values [of "[]" ?es] HDict by (fastforce simp: list_all_iff)
  then show ?case by (auto simp: dmerge_wf list_all_iff)
qed (auto simp: list_all_iff)

fun sorted_val :: "pyval \<Rightarrow> bool" where
  "sorted_val (PList xs) = list_all sorted_val xs"
| "sorted_val (PDict ds) = (sorted (map fst ds) \<and> list_all (\<lambda>kv. sorted_val (snd kv)) ds)"
| "sorted_val _ = True"

lemma norm_val_sorted: "sorted_val (norm_val v)"
proof (induction v)
  case (PDict ds)
  then show ?case by (fastforce simp: list_all_iff)
qed (auto simp: list_all_iff)

lemma sort_key_sorted: "sorted (map f xs) \<Longrightarrow> sort_key f xs = xs"
  by (induction xs) (auto simp: insort_is_Cons)

lemma norm_val_id: "sorted_val v \<Longrightarrow> norm_val v = v"
proof (induction v)
  case (PList xs)
  then show ?case by (auto simp: list_all_iff intro: map_idI)
next
  case (PDict ds)
  have "map (\<lambda>kv. (fst kv, norm_val (snd kv))) ds = ds"
    using PDict by (intro map_idI) (force simp: list_all_iff)
  with PDict.prems show ?case by (simp add: sort_key_sorted)
qed auto

lemma norm_val_idem [simp]: "norm_val (norm_val v) = norm_val v"
  by (simp add: norm_val_id norm_val_sorted)

lemma normalize_payload_canonical:
  "canonical_bytes ft (normalize_payload ft p) = json_text ft (normalize_payload ft p)"
  unfolding canonical_bytes_def normalize_payload_def norm_val_idem by simp

subsection \<open>The encoding loses nothing\<close>

text \<open>
  What the proofs need of the text of a float: it is not empty, uses the characters of numbers, is
  never the text of an integer, and differs for different floats.
\<close>

definition num_char :: "char \<Rightarrow> bool" where
  "num_char c = (c \<in> set ''0123456789-+.e'')"

definition float_text_ok :: "(rat \<Rightarrow> string) \<Rightarrow> bool" where
  "float_text_ok ft =
     (inj ft \<and> (\<forall>q. (\<forall>c\<in>set (ft q). num_char c) \<and> (\<exists>c\<in>set (ft q). \<not> int_char c)))"

lemma token_split:
  assumes "\<forall>c\<in>set a. P c" "\<forall>c\<in>set b. P c" "s = [] \<or> \<not> P (hd s)" "t = [] \<or> \<not> P (hd t)"
    and "a @ s = b @ t"
  shows "a = b \<and> s = t"
proof -
  have tw: "takeWhile P (u @ w) = u" if "\<forall>c\<in>set u. P c" "w = [] \<or> \<not> P (hd w)" for u w :: "'a list"
    using that by (cases w) (auto simp: takeWhile_append)
  have "a = b" using tw [of a s] tw [of b t] assms by metis
  with assms show ?thesis by simp
qed

text \<open>Reading back one character of a string, with the code point it stands for.\<close>

definition hex_val :: "char \<Rightarrow> nat" where
  "hex_val c = (if of_char c < (58 :: nat) then of_char c - 48 else of_char c - 87)"

definition unescape :: "string \<Rightarrow> nat \<times> string" where
  "unescape s =
     (let a = s ! 0; b = s ! 1 in
      if a \<noteq> backslash then (of_char a, drop 1 s)
      else if b = CHR ''u'' then (16 * hex_val (s ! 4) + hex_val (s ! 5), drop 6 s)
      else (if b = CHR ''b'' then 8 else if b = CHR ''t'' then 9 else if b = CHR ''n'' then 10
            else if b = CHR ''f'' then 12 else if b = CHR ''r'' then 13 else of_char b, drop 2 s))"

lemma hex_val_digit: "n < 16 \<Longrightarrow> hex_val (hex_digit n) = n"
  by (cases "n < 10") (simp_all add: hex_val_def hex_digit_def)

lemma char_codes:
  "backslash = CHR 0x5C" "dquote = CHR 0x22"
  by code_simp+

lemma json_char_cases:
  obtains (quote) "of_char c = (34::nat)" "json_char c = [backslash, dquote]"
  | (bslash) "of_char c = (92::nat)" "json_char c = [backslash, backslash]"
  | (b) "of_char c = (8::nat)" "json_char c = [backslash, CHR ''b'']"
  | (t) "of_char c = (9::nat)" "json_char c = [backslash, CHR ''t'']"
  | (n) "of_char c = (10::nat)" "json_char c = [backslash, CHR ''n'']"
  | (f) "of_char c = (12::nat)" "json_char c = [backslash, CHR ''f'']"
  | (r) "of_char c = (13::nat)" "json_char c = [backslash, CHR ''r'']"
  | (u) "json_char c = [backslash, CHR ''u'', CHR ''0'', CHR ''0'',
           hex_digit (of_char c div 16), hex_digit (of_char c mod 16)]"
  | (plain) "of_char c \<noteq> (34::nat)" "of_char c \<noteq> (92::nat)" "json_char c = [c]"
  unfolding json_char_def Let_def by (cases "of_char c < (32 :: nat) \<or> 126 < (of_char c :: nat)") presburger+

lemma unescape_json_char: "unescape (json_char c @ x) = (of_char c, x)"
proof (cases c rule: json_char_cases)
  case u
  have "(of_char c :: nat) div 16 < 16"
    by (rule less_mult_imp_div_less) (use nat_of_char_less_256 [of c] in simp)
  then show ?thesis using u by (simp add: unescape_def Let_def hex_val_digit)
next
  case plain
  then have "c \<noteq> backslash" by (auto simp: backslash_def)
  with plain show ?thesis by (simp add: unescape_def)
qed (simp_all add: unescape_def char_codes)

lemma json_char_prefix:
  assumes "json_char c @ x = json_char d @ y"
  shows "c = d \<and> x = y"
  using unescape_json_char [of c x] unescape_json_char [of d y] assms
  by (metis of_char_eq_iff prod.inject)

lemma json_char_no_quote: "json_char c @ x \<noteq> dquote # y"
  by (cases c rule: json_char_cases) (auto simp: backslash_def dquote_def)

lemma json_string_prefix:
  "json_string s @ x = json_string t @ y \<Longrightarrow> s = t \<and> x = y"
proof (induction s arbitrary: t)
  case Nil
  then show ?case using json_char_no_quote
    by (cases t) (simp_all add: json_string_def, metis)
next
  case (Cons c s)
  show ?case
  proof (cases t)
    case Nil
    with Cons.prems have "json_char c @ concat (map json_char s) @ dquote # x = dquote # y"
      by (simp add: json_string_def)
    with json_char_no_quote show ?thesis by blast
  next
    case (Cons d u)
    with Cons.prems have "json_char c @ (concat (map json_char s) @ dquote # x) =
        json_char d @ (concat (map json_char u) @ dquote # y)"
      by (simp add: json_string_def)
    then have "c = d" "concat (map json_char s) @ dquote # x = concat (map json_char u) @ dquote # y"
      using json_char_prefix by blast+
    with Cons.IH [of u] Cons show ?thesis by (simp add: json_string_def)
  qed
qed

text \<open>
  Texts that stand between delimiters.  \<open>closes\<close> is what may follow a value: the end, a comma or
  a closing bracket.
\<close>

definition closes :: "string \<Rightarrow> bool" where
  "closes s = (s = [] \<or> hd s \<in> {CHR '','', CHR '']'', CHR ''}''})"

definition reads_back :: "('a \<Rightarrow> string) \<Rightarrow> 'a \<Rightarrow> bool" where
  "reads_back f v \<longleftrightarrow>
     (\<forall>w s t. closes s \<longrightarrow> closes t \<longrightarrow> f v @ s = f w @ t \<longrightarrow> v = w \<and> s = t)"

lemma closes_simps [simp]:
  "closes []" "closes (CHR '','' # s)" "closes (CHR '']'' # s)" "closes (CHR ''}'' # s)"
  by (simp_all add: closes_def)

lemma reads_backD:
  "reads_back f v \<Longrightarrow> f v @ s = f w @ t \<Longrightarrow> closes s \<Longrightarrow> closes t \<Longrightarrow> v = w \<and> s = t"
  unfolding reads_back_def by blast

lemma tail_prefix:
  assumes "\<forall>x\<in>set xs. reads_back f x" and "e = CHR '']'' \<or> e = CHR ''}''"
    and "concat (map (\<lambda>q. CHR '','' # q) (map f xs)) @ e # s =
         concat (map (\<lambda>q. CHR '','' # q) (map f ys)) @ e # t"
  shows "xs = ys \<and> s = t"
  using assms(1,3)
proof (induction xs arbitrary: ys)
  case Nil
  then show ?case using assms(2) by (cases ys) auto
next
  case (Cons x xs)
  have closes: "closes (concat (map (\<lambda>q. CHR '','' # q) (map f zs)) @ e # u)" for zs u
    using assms(2) by (cases zs) (auto simp: closes_def)
  show ?case
  proof (cases ys)
    case Nil
    with Cons.prems assms(2) show ?thesis by auto
  next
    case (Cons y zs)
    with Cons.prems have "f x @ (concat (map (\<lambda>q. CHR '','' # q) (map f xs)) @ e # s) =
        f y @ (concat (map (\<lambda>q. CHR '','' # q) (map f zs)) @ e # t)" by simp
    then have "x = y" "concat (map (\<lambda>q. CHR '','' # q) (map f xs)) @ e # s =
        concat (map (\<lambda>q. CHR '','' # q) (map f zs)) @ e # t"
      using reads_backD [of f x _ y] Cons.prems(1) closes by auto
    with Cons.IH [of zs] Cons.prems(1) Cons show ?thesis by simp
  qed
qed

lemma join_prefix:
  assumes "\<forall>x\<in>set xs. reads_back f x" and "e = CHR '']'' \<or> e = CHR ''}''"
    and "\<And>x. f x \<noteq> [] \<and> hd (f x) \<noteq> e"
    and "join CHR '','' (map f xs) @ e # s = join CHR '','' (map f ys) @ e # t"
  shows "xs = ys \<and> s = t"
proof (cases xs; cases ys)
  fix x xs' y ys'
  assume xs: "xs = x # xs'" and ys: "ys = y # ys'"
  have "concat (map (\<lambda>q. CHR '','' # q) (map f (x # xs'))) @ e # s =
      concat (map (\<lambda>q. CHR '','' # q) (map f (y # ys'))) @ e # t"
    using assms(4) by (simp add: xs ys join_def)
  then show ?thesis using tail_prefix [of xs f e s ys t] assms(1,2) xs ys by simp
next
  fix y ys'
  assume "xs = []" "ys = y # ys'"
  with assms(3) [of y] assms(4) show ?thesis by (cases "f y") (auto simp: join_def)
next
  fix x xs'
  assume "ys = []" "xs = x # xs'"
  with assms(3) [of x] assms(4) show ?thesis by (cases "f x") (auto simp: join_def)
qed (use assms in \<open>auto simp: join_def\<close>)

text \<open>The first character of a text tells the kind of the value.\<close>

fun kind_of :: "pyval \<Rightarrow> nat" where
  "kind_of PNone = 0"
| "kind_of (PBool b) = (if b then 1 else 2)"
| "kind_of (PInt i) = 3"
| "kind_of (PFloat q) = 3"
| "kind_of (PStr s) = 4"
| "kind_of (PList xs) = 5"
| "kind_of (PDict ds) = 6"

definition kind_char :: "char \<Rightarrow> nat" where
  "kind_char c =
     (if c = CHR ''n'' then 0 else if c = CHR ''t'' then 1 else if c = CHR ''f'' then 2
      else if c = dquote then 4 else if c = CHR ''['' then 5 else if c = CHR ''{'' then 6
      else if c = CHR '']'' then 7 else 3)"

lemma num_kind: "num_char c \<Longrightarrow> kind_char c = 3 \<and> c \<notin> {CHR '','', CHR '']'', CHR ''}''}"
proof -
  have "list_all (\<lambda>c. kind_char c = 3 \<and> c \<noteq> CHR '','' \<and> c \<noteq> CHR '']'' \<and> c \<noteq> CHR ''}'')
      ''0123456789-+.e''" by code_simp
  then show "num_char c \<Longrightarrow> ?thesis" unfolding list_all_iff num_char_def by blast
qed

lemma int_num_char: "int_char c \<Longrightarrow> num_char c"
  by (auto simp: num_char_def int_char_def)

lemma closes_num: "closes s \<Longrightarrow> s = [] \<or> \<not> num_char (hd s)"
  unfolding closes_def using num_kind by blast

lemma float_textD:
  assumes "float_text_ok ft"
  shows "\<forall>c\<in>set (ft q). num_char c" "ft q \<noteq> []" "ft q = ft r \<Longrightarrow> q = r" "ft q \<noteq> int_text i"
proof -
  show "\<forall>c\<in>set (ft q). num_char c" "ft q = ft r \<Longrightarrow> q = r"
    using assms by (auto simp: float_text_ok_def dest: injD)
  from assms obtain c where "c \<in> set (ft q)" "\<not> int_char c" by (auto simp: float_text_ok_def)
  then show "ft q \<noteq> []" "ft q \<noteq> int_text i" using int_text_chars by auto
qed

lemma int_text_num: "\<forall>c\<in>set (int_text i). num_char c"
  using int_text_chars int_num_char by blast

lemma json_text_head:
  assumes "float_text_ok ft"
  shows "json_text ft v \<noteq> [] \<and> kind_char (hd (json_text ft v)) = kind_of v"
proof (cases v)
  case (PInt i)
  then show ?thesis using num_kind int_text_num [of i] int_text_nonempty [of i] by simp
next
  case (PFloat q)
  then show ?thesis using num_kind float_textD(1,2) [OF assms, of q] by simp
qed (simp_all add: kind_char_def json_string_def char_codes)

lemma json_text_kind:
  assumes "float_text_ok ft" "json_text ft v @ s = json_text ft w @ t"
  shows "kind_of v = kind_of w"
  using json_text_head [OF assms(1), of v] json_text_head [OF assms(1), of w] assms(2)
  by (metis hd_append2)

lemma num_text_prefix:
  assumes ft: "float_text_ok ft" and "kind_of v = 3" "kind_of w = 3" "closes s" "closes t"
    and "json_text ft v @ s = json_text ft w @ t"
  shows "v = w \<and> s = t"
proof -
  have num: "\<forall>c\<in>set (json_text ft u). num_char c" if "kind_of u = 3" for u
    using that int_text_num float_textD(1) [OF ft] by (cases u) (auto split: if_splits)
  have "json_text ft v = json_text ft w \<and> s = t"
    by (rule token_split [where P = num_char]) (use assms num closes_num in auto)
  then show ?thesis using assms(2,3) float_textD(3,4) [OF ft] int_text_inj
    by (cases v; cases w) (auto split: if_splits dest: sym)
qed

lemma num_reads_back:
  assumes ft: "float_text_ok ft" and v: "kind_of v = 3"
  shows "reads_back (json_text ft) v"
  unfolding reads_back_def
proof (intro allI impI)
  fix w s t
  assume h: "closes s" "closes t" "json_text ft v @ s = json_text ft w @ t"
  then have "kind_of w = 3" using json_text_kind [OF ft h(3)] v by simp
  with num_text_prefix [OF ft v] h show "v = w \<and> s = t" by blast
qed

definition member_text :: "(rat \<Rightarrow> string) \<Rightarrow> string \<times> pyval \<Rightarrow> string" where
  "member_text ft kv = json_string (fst kv) @ CHR '':'' # json_text ft (snd kv)"

lemma json_text_dict:
  "json_text ft (PDict ds) = CHR ''{'' # join CHR '','' (map (member_text ft) ds) @ ''}''"
  by (simp add: member_text_def [abs_def])

lemma member_head: "member_text ft kv \<noteq> [] \<and> hd (member_text ft kv) \<noteq> CHR ''}''"
  by (simp add: member_text_def json_string_def char_codes)

lemma member_reads_back:
  assumes "reads_back (json_text ft) (snd kv)"
  shows "reads_back (member_text ft) kv"
  unfolding reads_back_def
proof (intro allI impI)
  fix w s t
  assume "closes s" "closes t" "member_text ft kv @ s = member_text ft w @ t"
  then have "fst kv = fst w" "json_text ft (snd kv) @ s = json_text ft (snd w) @ t"
    using json_string_prefix [of "fst kv" "CHR '':'' # json_text ft (snd kv) @ s" "fst w"]
    by (auto simp: member_text_def)
  with reads_backD [OF assms] \<open>closes s\<close> \<open>closes t\<close> show "kv = w \<and> s = t"
    by (metis prod.expand)
qed

lemma json_text_reads_back:
  assumes ft: "float_text_ok ft"
  shows "reads_back (json_text ft) v"
proof (induction v)
  case (PList xs)
  show ?case unfolding reads_back_def
  proof (intro allI impI)
    fix w s t
    assume h: "closes s" "closes t" "json_text ft (PList xs) @ s = json_text ft w @ t"
    then obtain ys where w: "w = PList ys"
      using json_text_kind [OF ft h(3)] by (cases w) (auto split: if_splits)
    have "hd (json_text ft x) \<noteq> CHR '']''" for x
    proof
      assume "hd (json_text ft x) = CHR '']''"
      then have "kind_of x = 7" using json_text_head [OF ft, of x]
        by (simp add: kind_char_def char_codes)
      then show False by (cases x) (auto split: if_splits)
    qed
    then have "xs = ys \<and> s = t"
      using PList h(3) json_text_head [OF ft]
      by (intro join_prefix [of xs "json_text ft" "CHR '']''" s ys t]) (auto simp: w)
    then show "PList xs = w \<and> s = t" using w by simp
  qed
next
  case (PDict ds)
  show ?case unfolding reads_back_def
  proof (intro allI impI)
    fix w s t
    assume h: "closes s" "closes t" "json_text ft (PDict ds) @ s = json_text ft w @ t"
    then obtain es where w: "w = PDict es"
      using json_text_kind [OF ft h(3)] by (cases w) (auto split: if_splits)
    have "\<forall>kv\<in>set ds. reads_back (member_text ft) kv"
      using PDict member_reads_back by (metis snds.intros prod.collapse)
    then have "ds = es \<and> s = t"
      using h(3) member_head
      by (intro join_prefix [of ds "member_text ft" "CHR ''}''" s es t])
        (auto simp: w json_text_dict simp del: json_text.simps(7))
    then show "PDict ds = w \<and> s = t" using w by simp
  qed
next
  case (PInt i)
  show ?case by (rule num_reads_back [OF ft]) simp
next
  case (PFloat q)
  show ?case by (rule num_reads_back [OF ft]) simp
next
  case (PStr u)
  show ?case unfolding reads_back_def
  proof (intro allI impI)
    fix w s t
    assume h: "json_text ft (PStr u) @ s = json_text ft w @ t"
    then obtain x where "w = PStr x"
      using json_text_kind [OF ft h] by (cases w) (auto split: if_splits)
    with h json_string_prefix [of u s x t] show "PStr u = w \<and> s = t" by simp
  qed
next
  case PNone
  show ?case unfolding reads_back_def
  proof (intro allI impI)
    fix w s t
    assume h: "json_text ft PNone @ s = json_text ft w @ t"
    then show "PNone = w \<and> s = t"
      using json_text_kind [OF ft h] by (cases w) (auto split: if_splits)
  qed
next
  case (PBool b)
  show ?case unfolding reads_back_def
  proof (intro allI impI)
    fix w s t
    assume h: "json_text ft (PBool b) @ s = json_text ft w @ t"
    then show "PBool b = w \<and> s = t"
      using json_text_kind [OF ft h] by (cases w) (auto split: if_splits)
  qed
qed

lemma json_text_inj:
  assumes "float_text_ok ft" "json_text ft v = json_text ft w"
  shows "v = w"
  using json_text_reads_back [OF assms(1), of v] assms(2)
  unfolding reads_back_def by (metis append_Nil2 closes_simps(1))

lemma canonical_bytes_eq_iff:
  assumes "float_text_ok ft"
  shows "canonical_bytes ft v = canonical_bytes ft w \<longleftrightarrow> norm_val v = norm_val w"
  unfolding canonical_bytes_def using json_text_inj [OF assms] by auto

text \<open>A float text that meets the conditions: numerator, point, denominator.\<close>

definition ratio_text :: "rat \<Rightarrow> string" where
  "ratio_text q = int_text (fst (quotient_of q)) @ CHR ''.'' # int_text (snd (quotient_of q))"

lemma ratio_text_ok: "float_text_ok ratio_text"
proof -
  have point: "\<not> int_char (CHR ''.'')" "num_char (CHR ''.'')" by code_simp+
  have "q = r" if "ratio_text q = ratio_text r" for q r
  proof -
    have "int_text (fst (quotient_of q)) = int_text (fst (quotient_of r)) \<and>
        CHR ''.'' # int_text (snd (quotient_of q)) = CHR ''.'' # int_text (snd (quotient_of r))"
      using that int_text_chars point(1) unfolding ratio_text_def
      by (intro token_split [where P = int_char]) auto
    then have "quotient_of q = quotient_of r" by (auto intro: prod_eqI dest: int_text_inj)
    then show ?thesis by (rule quotient_of_inject)
  qed
  then show ?thesis
    using int_text_num point unfolding float_text_ok_def inj_def ratio_text_def by auto
qed

end
