(* ===== verification/AuditModel.thy ===== *)
theory AuditModel
  imports AuditJson
begin

text \<open>
  \<open>asas_audit\<close>: the rows (\<open>models.py\<close>), the chain arithmetic (\<open>chain.py\<close>) and the operations
  of \<open>service.py\<close>.  SHA-256 and \<open>datetime.isoformat\<close> are parameters (\<open>audit_lib\<close>), with the
  text of a float.  A session is a database transaction of its own: its rows are visible to others
  when it commits.  \<open>append\<close> has two steps, as other sessions run in between: take the lock and
  read the tail (\<open>begin_append\<close>), then write the row (\<open>finish_append\<close>).  On PostgreSQL the lock is
  the tenant's advisory lock, held to the end of the transaction (the default isolation level READ
  COMMITTED: a query sees what is committed when it runs); on SQLite it is the process mutex,
  released when the row has been flushed, and the flush waits for the one writer.
\<close>

subsection \<open>Rows\<close>

record audit_lib =
  lib_sha256 :: "string \<Rightarrow> string"
  lib_iso :: "instant \<Rightarrow> string"
  lib_float :: "rat \<Rightarrow> string"

text \<open>A datetime: its wall clock, and its offset from UTC when it is aware.\<close>

record moment =
  m_wall :: instant
  m_offset :: "int option"

definition to_utc :: "moment \<Rightarrow> instant" where
  "to_utc m = m_wall m - (case m_offset m of None \<Rightarrow> 0 | Some d \<Rightarrow> d)"

definition as_utc :: "moment \<Rightarrow> moment" where
  "as_utc m = \<lparr>m_wall = to_utc m, m_offset = Some 0\<rparr>"

record audit_event =
  ae_seq :: int
  ae_id :: string
  ae_org :: string
  ae_actor :: string
  ae_action :: string
  ae_rtype :: string
  ae_rid :: string
  ae_payload :: pyval
  ae_occurred :: moment
  ae_prev :: "string option"
  ae_current :: string

subsection \<open>The chain\<close>

definition canonical_timestamp :: "audit_lib \<Rightarrow> moment \<Rightarrow> string" where
  "canonical_timestamp L m = lib_iso L (to_utc m)"

definition chain_payload ::
  "audit_lib \<Rightarrow> string \<Rightarrow> string \<Rightarrow> string \<Rightarrow> string \<Rightarrow> string \<Rightarrow> string \<Rightarrow> pyval \<Rightarrow> moment \<Rightarrow> pyval" where
  "chain_payload L event_id org actor action rtype rid payload occurred =
     PDict [(''id'', PStr event_id), (''org_id'', PStr org), (''actor'', PStr actor),
       (''action'', PStr action), (''resource_type'', PStr rtype), (''resource_id'', PStr rid),
       (''payload'', payload), (''occurred_at'', PStr (canonical_timestamp L occurred))]"

definition compute_hash :: "audit_lib \<Rightarrow> string option \<Rightarrow> pyval \<Rightarrow> string" where
  "compute_hash L hash_prev payload =
     lib_sha256 L ((case hash_prev of None \<Rightarrow> [] | Some h \<Rightarrow> h) @ canonical_bytes (lib_float L) payload)"

definition row_payload :: "audit_lib \<Rightarrow> string \<Rightarrow> audit_event \<Rightarrow> pyval" where
  "row_payload L org r =
     chain_payload L (ae_id r) org (ae_actor r) (ae_action r) (ae_rtype r) (ae_rid r)
       (ae_payload r) (ae_occurred r)"

record chain_break =
  cb_event_id :: string
  cb_seq :: int
  cb_action :: string
  cb_expected :: string
  cb_stored :: string
  cb_detail :: string

record verify_report =
  vr_org :: string
  vr_checked :: nat
  vr_breaks :: "chain_break list"

definition is_intact :: "verify_report \<Rightarrow> bool" where
  "is_intact v = (vr_breaks v = [])"

definition first_break :: "verify_report \<Rightarrow> chain_break option" where
  "first_break v = (case vr_breaks v of [] \<Rightarrow> None | b # _ \<Rightarrow> Some b)"

definition hex :: "string \<Rightarrow> string" where
  "hex s = concat (map (\<lambda>c. [hex_digit (of_char c div 16), hex_digit (of_char c mod 16)]) s)"

definition break_at :: "audit_event \<Rightarrow> string \<Rightarrow> string \<Rightarrow> string \<Rightarrow> chain_break" where
  "break_at r expected stored detail =
     \<lparr>cb_event_id = ae_id r, cb_seq = ae_seq r, cb_action = ae_action r,
      cb_expected = hex expected, cb_stored = hex stored, cb_detail = detail\<rparr>"

definition unlinked_detail :: string where
  "unlinked_detail = ''does not link to the previous entry: a row was deleted, inserted, or reordered''"

definition edited_detail :: string where
  "edited_detail =
     ''its own columns no longer hash to its stored fingerprint: the row was edited''"

fun verify_loop :: "audit_lib \<Rightarrow> string \<Rightarrow> string option \<Rightarrow> audit_event list \<Rightarrow> chain_break list" where
  "verify_loop L org prev [] = []"
| "verify_loop L org prev (r # rs) =
     (let expected = compute_hash L prev (row_payload L org r);
          stored = ae_current r;
          rest = verify_loop L org (Some stored) rs in
      if ae_prev r \<noteq> prev then break_at r expected stored unlinked_detail # rest
      else if expected \<noteq> stored then break_at r expected stored edited_detail # rest
      else rest)"

definition verify_rows :: "audit_lib \<Rightarrow> string \<Rightarrow> audit_event list \<Rightarrow> verify_report" where
  "verify_rows L org rows =
     \<lparr>vr_org = org, vr_checked = length rows, vr_breaks = verify_loop L org None rows\<rparr>"

subsection \<open>Sessions and the database\<close>

datatype engine = Postgres | SQLite

record append_args =
  aa_org :: string
  aa_actor :: string
  aa_action :: string
  aa_rtype :: string
  aa_rid :: string
  aa_payload :: "(pykey \<times> hostval) list option"
  aa_occurred :: "moment option"
  aa_id :: string      \<comment> \<open>the uuid the row's default draws\<close>
  aa_now :: instant    \<comment> \<open>the clock, read when no time is given\<close>

record audit_session =
  pending :: "audit_event list"
  inflight :: "(append_args \<times> string option) option"

record audit_db =
  committed :: "audit_event list"
  sessions :: "nat \<Rightarrow> audit_session"
  chain_lock :: "string \<Rightarrow> nat option"   \<comment> \<open>advisory locks (PostgreSQL)\<close>
  append_mutex :: "nat option"            \<comment> \<open>\<open>_SQLITE_APPEND_MUTEX\<close>\<close>
  writer :: "nat option"                  \<comment> \<open>the write lock of SQLite\<close>
  next_seq :: int

definition idle :: audit_session where
  "idle = \<lparr>pending = [], inflight = None\<rparr>"

definition empty_audit_db :: audit_db where
  "empty_audit_db = \<lparr>committed = [], sessions = (\<lambda>_. idle), chain_lock = (\<lambda>_. None),
     append_mutex = None, writer = None, next_seq = 1\<rparr>"

definition org_rows :: "string \<Rightarrow> audit_event list \<Rightarrow> audit_event list" where
  "org_rows org rows = filter (\<lambda>r. ae_org r = org) rows"

definition visible :: "nat \<Rightarrow> audit_db \<Rightarrow> audit_event list" where
  "visible s db = committed db @ pending (sessions db s)"

definition tail_row :: "string \<Rightarrow> audit_event list \<Rightarrow> audit_event option" where
  "tail_row org rows = least_by (\<lambda>r. - ae_seq r) (org_rows org rows)"

definition tail_hash :: "string \<Rightarrow> audit_event list \<Rightarrow> string option" where
  "tail_hash org rows = map_option ae_current (tail_row org rows)"

definition upd_session :: "nat \<Rightarrow> (audit_session \<Rightarrow> audit_session) \<Rightarrow> audit_db \<Rightarrow> audit_db" where
  "upd_session s f db = db\<lparr>sessions := (sessions db)(s := f (sessions db s))\<rparr>"

subsection \<open>append\<close>

text \<open>\<open>None\<close>: the session waits.\<close>

definition lock_chain :: "engine \<Rightarrow> nat \<Rightarrow> string \<Rightarrow> audit_db \<Rightarrow> audit_db option" where
  "lock_chain e s org db =
     (case e of
        Postgres \<Rightarrow>
          if chain_lock db org = None \<or> chain_lock db org = Some s
          then Some (db\<lparr>chain_lock := (chain_lock db)(org := Some s)\<rparr>) else None
      | SQLite \<Rightarrow>
          if append_mutex db = None then Some (db\<lparr>append_mutex := Some s\<rparr>) else None)"

definition begin_append :: "engine \<Rightarrow> nat \<Rightarrow> append_args \<Rightarrow> audit_db \<Rightarrow> audit_db option" where
  "begin_append e s a db =
     (if inflight (sessions db s) \<noteq> None then None
      else case lock_chain e s (aa_org a) db of
        None \<Rightarrow> None
      | Some db' \<Rightarrow>
          Some (upd_session s
            (\<lambda>ses. ses\<lparr>inflight := Some (a, tail_hash (aa_org a) (visible s db'))\<rparr>) db'))"

definition new_event :: "audit_lib \<Rightarrow> append_args \<Rightarrow> string option \<Rightarrow> int \<Rightarrow> audit_event" where
  "new_event L a hash_prev n =
     (let when = as_utc (case aa_occurred a of Some m \<Rightarrow> m
                         | None \<Rightarrow> \<lparr>m_wall = aa_now a, m_offset = Some 0\<rparr>);
          payload = normalize_payload (lib_float L) (case aa_payload a of None \<Rightarrow> [] | Some p \<Rightarrow> p) in
      \<lparr>ae_seq = n, ae_id = aa_id a, ae_org = aa_org a, ae_actor = aa_actor a,
       ae_action = aa_action a, ae_rtype = aa_rtype a, ae_rid = aa_rid a, ae_payload = payload,
       ae_occurred = when, ae_prev = hash_prev,
       ae_current = compute_hash L hash_prev
         (chain_payload L (aa_id a) (aa_org a) (aa_actor a) (aa_action a) (aa_rtype a) (aa_rid a)
           payload when)\<rparr>)"

text \<open>The unique indexes, \<open>id\<close> and \<open>(org_id, hash_prev)\<close>; NULLs are distinct.\<close>

definition index_conflict :: "audit_event \<Rightarrow> audit_event \<Rightarrow> bool" where
  "index_conflict r q \<longleftrightarrow>
     ae_id q = ae_id r \<or> (ae_org q = ae_org r \<and> ae_prev r \<noteq> None \<and> ae_prev q = ae_prev r)"

definition end_transaction :: "nat \<Rightarrow> audit_db \<Rightarrow> audit_db" where
  "end_transaction s db =
     (upd_session s (\<lambda>_. idle) db)
       \<lparr>chain_lock := (\<lambda>org. if chain_lock db org = Some s then None else chain_lock db org),
        append_mutex := (if append_mutex db = Some s then None else append_mutex db),
        writer := (if writer db = Some s then None else writer db)\<rparr>"

text \<open>
  The INSERT: an index conflict with a committed row or one of the session's own is an
  \<open>IntegrityError\<close>, on which the host rolls back.
\<close>

definition finish_append :: "audit_lib \<Rightarrow> engine \<Rightarrow> nat \<Rightarrow> audit_db \<Rightarrow> audit_db option" where
  "finish_append L e s db =
     (case inflight (sessions db s) of
        None \<Rightarrow> None
      | Some (a, hash_prev) \<Rightarrow>
          let r = new_event L a hash_prev (next_seq db) in
          if e = SQLite \<and> writer db \<noteq> None \<and> writer db \<noteq> Some s then None
          else if list_ex (index_conflict r) (visible s db)
          then Some (end_transaction s (db\<lparr>next_seq := next_seq db + 1\<rparr>))
          else Some ((upd_session s (\<lambda>ses. \<lparr>pending = pending ses @ [r], inflight = None\<rparr>) db)
             \<lparr>next_seq := next_seq db + 1,
              append_mutex := (if e = SQLite then None else append_mutex db),
              writer := (if e = SQLite then Some s else writer db)\<rparr>))"

definition commit_session :: "nat \<Rightarrow> audit_db \<Rightarrow> audit_db option" where
  "commit_session s db =
     (if inflight (sessions db s) \<noteq> None then None
      else Some ((end_transaction s db)\<lparr>committed := visible s db\<rparr>))"

datatype audit_action = Begin nat append_args | Finish nat | Commit nat | Rollback nat

fun audit_exec :: "audit_lib \<Rightarrow> engine \<Rightarrow> audit_action \<Rightarrow> audit_db \<Rightarrow> audit_db option" where
  "audit_exec L e (Begin s a) db = begin_append e s a db"
| "audit_exec L e (Finish s) db = finish_append L e s db"
| "audit_exec L e (Commit s) db = commit_session s db"
| "audit_exec L e (Rollback s) db = Some (end_transaction s db)"

fun audit_run :: "audit_lib \<Rightarrow> engine \<Rightarrow> audit_action list \<Rightarrow> audit_db \<Rightarrow> audit_db option" where
  "audit_run L e [] db = Some db"
| "audit_run L e (a # as) db =
     (case audit_exec L e a db of None \<Rightarrow> None | Some db' \<Rightarrow> audit_run L e as db')"

inductive audit_step :: "audit_lib \<Rightarrow> engine \<Rightarrow> audit_db \<Rightarrow> audit_db \<Rightarrow> bool"
  for L e where
  act: "audit_exec L e a db = Some db' \<Longrightarrow> audit_step L e db db'"

subsection \<open>Reads\<close>

definition verify :: "audit_lib \<Rightarrow> audit_event list \<Rightarrow> string \<Rightarrow> verify_report" where
  "verify L rows org = verify_rows L org (sort_key ae_seq (org_rows org rows))"

definition opt_holds :: "('a \<Rightarrow> bool) \<Rightarrow> 'a option \<Rightarrow> bool" where
  "opt_holds P x = (case x of None \<Rightarrow> True | Some v \<Rightarrow> P v)"

definition history ::
  "audit_event list \<Rightarrow> string \<Rightarrow> string option \<Rightarrow> string option \<Rightarrow> string option \<Rightarrow> string option
    \<Rightarrow> moment option \<Rightarrow> moment option \<Rightarrow> nat \<Rightarrow> nat \<Rightarrow> audit_event list result" where
  "history rows org rtype rid actor action since until limit offset =
     (if rid \<noteq> None \<and> rtype = None
      then Inl (ValueError ''resource_id needs resource_type: an id is unique only within a type, so filtering on the id alone can match another type's record.'')
      else
        let picked = filter (\<lambda>r. ae_org r = org
              \<and> opt_holds (\<lambda>t. ae_rtype r = t) rtype
              \<and> opt_holds (\<lambda>i. ae_rid r = i) rid
              \<and> opt_holds (\<lambda>a. ae_actor r = a) actor
              \<and> opt_holds (\<lambda>a. ae_action r = a) action
              \<and> opt_holds (\<lambda>m. to_utc m \<le> to_utc (ae_occurred r)) since
              \<and> opt_holds (\<lambda>m. to_utc (ae_occurred r) \<le> to_utc m) until) rows in
        Inr (take limit (drop offset (rev (sort_key ae_seq picked)))))"


text \<open>
  \<open>asas_audit/router.py\<close>: the two read routes.  A response is an HTTP error (status and detail) or
  the body; the tenant is what the host's dependency returns, \<open>None\<close> standing for a dependency
  that raises because no tenant is bound.
\<close>

type_synonym 'a response = "nat \<times> string + 'a"

record audit_event_read =
  er_id :: string
  er_seq :: int
  er_actor :: string
  er_action :: string
  er_rtype :: string
  er_rid :: string
  er_payload :: pyval
  er_occurred :: moment
  er_hash :: string

record chain_break_read =
  br_event_id :: string
  br_seq :: int
  br_action :: string
  br_expected :: string
  br_stored :: string
  br_detail :: string

record verify_report_read =
  rr_checked :: nat
  rr_intact :: bool
  rr_breaks :: "chain_break_read list"

definition event_read :: "audit_event \<Rightarrow> audit_event_read" where
  "event_read r = \<lparr>er_id = ae_id r, er_seq = ae_seq r, er_actor = ae_actor r, er_action = ae_action r,
     er_rtype = ae_rtype r, er_rid = ae_rid r, er_payload = ae_payload r, er_occurred = ae_occurred r,
     er_hash = hex (ae_current r)\<rparr>"

definition list_events ::
  "audit_event list \<Rightarrow> string option \<Rightarrow> string option \<Rightarrow> string option \<Rightarrow> string option \<Rightarrow> string option
    \<Rightarrow> moment option \<Rightarrow> moment option \<Rightarrow> int \<Rightarrow> int \<Rightarrow> audit_event_read list response" where
  "list_events rows tenant rtype rid actor action since until limit offset =
     (case tenant of
        None \<Rightarrow> Inl (500, ''no tenant is bound'')
      | Some org \<Rightarrow>
          if limit < 1 \<or> 500 < limit \<or> offset < 0 then Inl (422, ''validation error'')
          else if rid \<noteq> None \<and> rtype = None then Inl (400, ''resource_id requires resource_type'')
          else (case history rows org rtype rid actor action since until (nat limit) (nat offset) of
                  Inl e \<Rightarrow> Inl (500, ''Internal Server Error'')
                | Inr found \<Rightarrow> Inr (map event_read found)))"

definition break_read :: "chain_break \<Rightarrow> chain_break_read" where
  "break_read b = \<lparr>br_event_id = cb_event_id b, br_seq = cb_seq b, br_action = cb_action b,
     br_expected = cb_expected b, br_stored = cb_stored b, br_detail = cb_detail b\<rparr>"

definition verify_chain ::
  "audit_lib \<Rightarrow> audit_event list \<Rightarrow> string option \<Rightarrow> verify_report_read response" where
  "verify_chain L rows tenant =
     (case tenant of
        None \<Rightarrow> Inl (500, ''no tenant is bound'')
      | Some org \<Rightarrow>
          let report = verify L rows org in
          Inr \<lparr>rr_checked = vr_checked report, rr_intact = is_intact report,
               rr_breaks = map break_read (vr_breaks report)\<rparr>)"

text \<open>
  The service's \<open>ValueError\<close> never reaches the client as a 500, a page holds at most 500 entries, and
  only the caller's tenant's entries leave.
\<close>

lemma history_Inr:
  assumes "\<not> (rid \<noteq> None \<and> rtype = None)"
  shows "\<exists>found. history rows org rtype rid actor action since until limit offset = Inr found
           \<and> length found \<le> limit \<and> (\<forall>r\<in>set found. r \<in> set rows \<and> ae_org r = org)"
  using assms unfolding history_def Let_def
  by (auto dest!: in_set_takeD in_set_dropD)

lemma list_events_tenant:
  assumes "list_events rows tenant rtype rid actor action since until limit offset = Inr page"
  shows "length page \<le> 500 \<and> (\<exists>org. tenant = Some org \<and>
           (\<forall>e\<in>set page. \<exists>r\<in>set rows. ae_org r = org \<and> e = event_read r))"
proof -
  from assms obtain org where t: "tenant = Some org" "\<not> (rid \<noteq> None \<and> rtype = None)"
      "1 \<le> limit" "limit \<le> 500"
    by (auto simp: list_events_def split: option.splits if_splits)
  from history_Inr [OF t(2)] obtain found where
    f: "history rows org rtype rid actor action since until (nat limit) (nat offset) = Inr found"
       "length found \<le> nat limit" "\<forall>r\<in>set found. r \<in> set rows \<and> ae_org r = org" by blast
  with assms t have "page = map event_read found"
    by (simp add: list_events_def split: if_splits)
  with f t show ?thesis by auto
qed

end
