(* ===== verification/AuditChain.thy ===== *)
theory AuditChain
  imports AuditModel
begin

text \<open>
  What a well-linked chain is (\<open>linked\<close>), that \<open>verify_rows\<close> reports nothing exactly on those, and
  the invariants of the audit table under concurrent sessions: with the advisory lock of
  PostgreSQL always, on SQLite for every tenant that has an entry already.
\<close>

subsection \<open>Linked rows\<close>

definition row_hash :: "audit_lib \<Rightarrow> string \<Rightarrow> string option \<Rightarrow> audit_event \<Rightarrow> string" where
  "row_hash L org prev r = compute_hash L prev (row_payload L org r)"

fun linked :: "audit_lib \<Rightarrow> string \<Rightarrow> string option \<Rightarrow> audit_event list \<Rightarrow> bool" where
  "linked L org prev [] = True"
| "linked L org prev (r # rs) \<longleftrightarrow>
     ae_prev r = prev \<and> ae_current r = row_hash L org prev r \<and> linked L org (Some (ae_current r)) rs"

lemma verify_loop_Nil_iff: "verify_loop L org prev rows = [] \<longleftrightarrow> linked L org prev rows"
  by (induction rows arbitrary: prev) (auto simp: Let_def row_hash_def)

lemma is_intact_iff: "is_intact (verify_rows L org rows) \<longleftrightarrow> linked L org None rows"
  by (simp add: is_intact_def verify_rows_def verify_loop_Nil_iff)

definition last_hash :: "string option \<Rightarrow> audit_event list \<Rightarrow> string option" where
  "last_hash prev rows = (if rows = [] then prev else Some (ae_current (last rows)))"

lemma last_hash_simps [simp]:
  "last_hash prev [] = prev"
  "last_hash prev (r # rs) = last_hash (Some (ae_current r)) rs"
  "last_hash prev (rs @ [r]) = Some (ae_current r)"
  by (simp_all add: last_hash_def)

lemma linked_append:
  "linked L org prev (xs @ ys) \<longleftrightarrow> linked L org prev xs \<and> linked L org (last_hash prev xs) ys"
  by (induction xs arbitrary: prev) auto

lemma linked_prev_of: "linked L org prev (xs @ r # ys) \<Longrightarrow> ae_prev r = last_hash prev xs"
  by (simp add: linked_append)

subsection \<open>What a fingerprint covers\<close>

lemma map_of_sort_key:
  assumes "distinct (map fst ds)"
  shows "map_of (sort_key fst ds) = map_of ds"
proof -
  have "distinct (map fst (sort_key fst ds))"
    using assms by (simp add: distinct_map)
  with assms show ?thesis by (simp add: map_of_inject_set)
qed

lemma norm_dict_eqD:
  assumes "norm_val (PDict ds) = norm_val (PDict es)" "distinct (map fst ds)" "distinct (map fst es)"
  shows "map_option norm_val (map_of ds k) = map_option norm_val (map_of es k)"
proof -
  have *: "map_of (sort_key fst (map (\<lambda>kv. (fst kv, norm_val (snd kv))) xs)) k =
      map_option norm_val (map_of xs k)" if "distinct (map fst xs)" for xs
  proof -
    have "map_of (map (\<lambda>kv. (fst kv, norm_val (snd kv))) xs) k = map_option norm_val (map_of xs k)"
      by (induction xs) auto
    moreover have "distinct (map fst (map (\<lambda>kv. (fst kv, norm_val (snd kv))) xs))"
      using that by (simp add: comp_def)
    ultimately show ?thesis by (simp only: map_of_sort_key)
  qed
  from assms(1) show ?thesis using * [OF assms(2)] * [OF assms(3)] by simp
qed

text \<open>Two rows that tell the same: the order of keys apart, every column but the sequence number.\<close>

definition same_entry :: "audit_lib \<Rightarrow> audit_event \<Rightarrow> audit_event \<Rightarrow> bool" where
  "same_entry L r q \<longleftrightarrow>
     ae_id r = ae_id q \<and> ae_actor r = ae_actor q \<and> ae_action r = ae_action q \<and> ae_rtype r = ae_rtype q
   \<and> ae_rid r = ae_rid q \<and> norm_val (ae_payload r) = norm_val (ae_payload q)
   \<and> canonical_timestamp L (ae_occurred r) = canonical_timestamp L (ae_occurred q)
   \<and> ae_prev r = ae_prev q \<and> ae_current r = ae_current q"

definition row_bytes :: "audit_lib \<Rightarrow> string \<Rightarrow> audit_event \<Rightarrow> string" where
  "row_bytes L org r = canonical_bytes (lib_float L) (row_payload L org r)"

lemma row_bytes_same_entry:
  assumes ft: "float_text_ok (lib_float L)" and "row_bytes L org r = row_bytes L org q"
    and "ae_prev r = ae_prev q" "ae_current r = ae_current q"
  shows "same_entry L r q"
proof -
  have "norm_val (row_payload L org r) = norm_val (row_payload L org q)"
    using assms(2) canonical_bytes_eq_iff [OF ft] by (simp add: row_bytes_def)
  note eq = norm_dict_eqD [OF this [unfolded row_payload_def chain_payload_def]]
  show ?thesis
    unfolding same_entry_def
    using eq [of "''id''"] eq [of "''actor''"] eq [of "''action''"] eq [of "''resource_type''"]
      eq [of "''resource_id''"] eq [of "''payload''"] eq [of "''occurred_at''"] assms(3,4)
    by simp
qed

subsection \<open>Tables whose chains are in order\<close>

definition org_ok :: "audit_lib \<Rightarrow> string \<Rightarrow> audit_event list \<Rightarrow> bool" where
  "org_ok L org rows \<longleftrightarrow>
     linked L org None (org_rows org rows) \<and> sorted_wrt (<) (map ae_seq (org_rows org rows))"

definition below :: "int \<Rightarrow> audit_event list \<Rightarrow> bool" where
  "below n rows \<longleftrightarrow> (\<forall>r\<in>set rows. ae_seq r < n)"

lemma org_rows_simps [simp]:
  "org_rows org [] = []"
  "org_rows org (r # rs) = (if ae_org r = org then r # org_rows org rs else org_rows org rs)"
  "org_rows org (xs @ ys) = org_rows org xs @ org_rows org ys"
  by (simp_all add: org_rows_def)

lemma below_simps [simp]:
  "below n []"
  "below n (r # rs) \<longleftrightarrow> ae_seq r < n \<and> below n rs"
  "below n (xs @ ys) \<longleftrightarrow> below n xs \<and> below n ys"
  by (auto simp: below_def)

lemma below_mono: "below n rows \<Longrightarrow> n \<le> m \<Longrightarrow> below m rows"
  by (force simp: below_def)

lemma org_ok_prefix: "org_ok L org (xs @ ys) \<Longrightarrow> org_ok L org xs"
  by (auto simp: org_ok_def linked_append sorted_wrt_append)

lemma org_ok_cong: "org_rows org xs = org_rows org ys \<Longrightarrow> org_ok L org xs = org_ok L org ys"
  by (simp add: org_ok_def)

lemma least_by_last:
  "sorted_wrt (<) (map ae_seq rows) \<Longrightarrow> rows \<noteq> [] \<Longrightarrow>
     least_by (\<lambda>r. - ae_seq r) rows = Some (last rows)"
proof (induction rows)
  case Nil
  then show ?case by simp
next
  case (Cons r rs)
  show ?case
  proof (cases "rs = []")
    case False
    then have "ae_seq r < ae_seq (last rs)" using Cons.prems(1) by simp
    then have "\<not> ae_seq (last rs) \<le> ae_seq r" by simp
    with Cons False show ?thesis by simp
  qed simp
qed

lemma tail_hash_last: "org_ok L org rows \<Longrightarrow> tail_hash org rows = last_hash None (org_rows org rows)"
  by (cases "org_rows org rows = []")
    (simp_all add: tail_hash_def tail_row_def last_hash_def least_by_last org_ok_def)

lemma tail_hash_cong: "org_rows org xs = org_rows org ys \<Longrightarrow> tail_hash org xs = tail_hash org ys"
  by (simp add: tail_hash_def tail_row_def)

lemma new_event_simps [simp]:
  "ae_seq (new_event L a h n) = n" "ae_org (new_event L a h n) = aa_org a"
  "ae_prev (new_event L a h n) = h" "ae_id (new_event L a h n) = aa_id a"
  by (simp_all add: new_event_def Let_def)

lemma to_utc_as_utc [simp]: "to_utc (as_utc m) = to_utc m"
  by (simp add: as_utc_def to_utc_def)

lemma new_event_hash:
  "ae_current (new_event L a h n) = row_hash L (aa_org a) h (new_event L a h n)"
  by (simp add: new_event_def Let_def row_hash_def row_payload_def)

lemma org_ok_new_event:
  assumes "org_ok L org rows" "below n rows" "aa_org a = org \<Longrightarrow> h = last_hash None (org_rows org rows)"
  shows "org_ok L org (rows @ [new_event L a h n])"
proof (cases "aa_org a = org")
  case True
  have "\<forall>r\<in>set (org_rows org rows). ae_seq r < n" using assms(2) by (auto simp: below_def org_rows_def)
  with True assms show ?thesis
    by (auto simp: org_ok_def linked_append sorted_wrt_append new_event_hash)
next
  case False
  with assms(1) show ?thesis by (simp add: org_ok_def)
qed

lemma verify_org_ok: "org_ok L org rows \<Longrightarrow> is_intact (verify L rows org)"
proof -
  assume ok: "org_ok L org rows"
  then have "sorted (map ae_seq (org_rows org rows))"
    unfolding org_ok_def by (metis strict_sorted_imp_sorted)
  with ok show ?thesis by (simp add: verify_def is_intact_iff org_ok_def sort_key_sorted)
qed

subsection \<open>Sessions\<close>

lemma upd_session_simps [simp]:
  "sessions (upd_session s f db) t = (if t = s then f (sessions db s) else sessions db t)"
  "committed (upd_session s f db) = committed db"
  "chain_lock (upd_session s f db) = chain_lock db"
  "append_mutex (upd_session s f db) = append_mutex db"
  "writer (upd_session s f db) = writer db"
  "next_seq (upd_session s f db) = next_seq db"
  by (simp_all add: upd_session_def)

lemma idle_simps [simp]: "pending idle = []" "inflight idle = None"
  by (simp_all add: idle_def)

lemma end_transaction_simps [simp]:
  "sessions (end_transaction s db) t = (if t = s then idle else sessions db t)"
  "committed (end_transaction s db) = committed db"
  "chain_lock (end_transaction s db) org = (if chain_lock db org = Some s then None else chain_lock db org)"
  "writer (end_transaction s db) = (if writer db = Some s then None else writer db)"
  "next_seq (end_transaction s db) = next_seq db"
  by (simp_all add: end_transaction_def)

text \<open>Every step is one of six: take the lock and read, insert, lose to the index, commit, roll back.\<close>

lemma audit_exec_cases:
  assumes "audit_exec L e act db = Some db'"
  obtains (start) s a d where "act = Begin s a" "inflight (sessions db s) = None"
      "lock_chain e s (aa_org a) db = Some d"
      "db' = upd_session s (\<lambda>ses. ses\<lparr>inflight := Some (a, tail_hash (aa_org a) (visible s d))\<rparr>) d"
  | (insert) s a h where "act = Finish s" "inflight (sessions db s) = Some (a, h)"
      "e = SQLite \<Longrightarrow> writer db = None \<or> writer db = Some s"
      "\<not> list_ex (index_conflict (new_event L a h (next_seq db))) (visible s db)"
      "db' = (upd_session s (\<lambda>ses. \<lparr>pending = pending ses @ [new_event L a h (next_seq db)],
                inflight = None\<rparr>) db)
             \<lparr>next_seq := next_seq db + 1,
              append_mutex := (if e = SQLite then None else append_mutex db),
              writer := (if e = SQLite then Some s else writer db)\<rparr>"
  | (lose) s where "act = Finish s" "db' = end_transaction s (db\<lparr>next_seq := next_seq db + 1\<rparr>)"
  | (commit) s where "act = Commit s" "inflight (sessions db s) = None"
      "db' = (end_transaction s db)\<lparr>committed := visible s db\<rparr>"
  | (rollback) s where "act = Rollback s" "db' = end_transaction s db"
proof (cases act)
  case (Begin s a)
  with assms obtain d where "inflight (sessions db s) = None" "lock_chain e s (aa_org a) db = Some d"
      "db' = upd_session s (\<lambda>ses. ses\<lparr>inflight := Some (a, tail_hash (aa_org a) (visible s d))\<rparr>) d"
    by (cases "inflight (sessions db s)") (auto simp: begin_append_def split: option.splits)
  with Begin show ?thesis by (rule that(1))
next
  case (Finish s)
  with assms that(2,3) show ?thesis
    by (auto simp: finish_append_def Let_def split: option.splits if_splits)
next
  case (Commit s)
  with assms that(4) show ?thesis
    by (cases "inflight (sessions db s)") (auto simp: commit_session_def)
next
  case (Rollback s)
  with assms that(5) show ?thesis by auto
qed

lemma lock_chain_kept:
  assumes "lock_chain e s org db = Some d"
  shows "sessions d = sessions db" "committed d = committed db" "writer d = writer db"
    "next_seq d = next_seq db" "visible t d = visible t db"
  using assms by (auto simp: lock_chain_def visible_def split: engine.splits if_splits)

lemma visible_kept [simp]:
  "visible t (upd_session s (\<lambda>ses. ses\<lparr>inflight := x\<rparr>) db) = visible t db"
  "visible t (db\<lparr>chain_lock := l\<rparr>) = visible t db"
  "visible t (db\<lparr>append_mutex := m\<rparr>) = visible t db"
  "visible t (db\<lparr>next_seq := n\<rparr>) = visible t db"
  by (simp_all add: visible_def)

subsection \<open>The invariant with advisory locks\<close>

definition pg_inv :: "audit_lib \<Rightarrow> audit_db \<Rightarrow> bool" where
  "pg_inv L db \<longleftrightarrow>
     (\<forall>s. below (next_seq db) (visible s db) \<and> (\<forall>org. org_ok L org (visible s db)))
   \<and> (\<forall>s org. org_rows org (pending (sessions db s)) \<noteq> [] \<longrightarrow> chain_lock db org = Some s)
   \<and> (\<forall>s a h. inflight (sessions db s) = Some (a, h) \<longrightarrow>
        chain_lock db (aa_org a) = Some s \<and> h = tail_hash (aa_org a) (visible s db))"

lemma pg_invD:
  assumes "pg_inv L db"
  shows "below (next_seq db) (visible s db)" "org_ok L org (visible s db)"
    "chain_lock db org \<noteq> Some s \<Longrightarrow> org_rows org (pending (sessions db s)) = []"
    "inflight (sessions db s) = Some (a, h) \<Longrightarrow>
       chain_lock db (aa_org a) = Some s \<and> h = tail_hash (aa_org a) (visible s db)"
  using assms unfolding pg_inv_def by blast+

lemma pg_invI:
  assumes "\<And>s. below (next_seq db) (visible s db)"
    and "\<And>s org. org_ok L org (visible s db)"
    and "\<And>s org. org_rows org (pending (sessions db s)) \<noteq> [] \<Longrightarrow> chain_lock db org = Some s"
    and "\<And>s a h. inflight (sessions db s) = Some (a, h) \<Longrightarrow>
           chain_lock db (aa_org a) = Some s \<and> h = tail_hash (aa_org a) (visible s db)"
  shows "pg_inv L db"
  using assms unfolding pg_inv_def by blast

lemma pg_inv_empty: "pg_inv L empty_audit_db"
  by (simp add: pg_inv_def empty_audit_db_def visible_def org_ok_def)

lemma pg_inv_begin:
  assumes inv: "pg_inv L db" and lock: "lock_chain Postgres s (aa_org a) db = Some d"
  shows "pg_inv L (upd_session s
           (\<lambda>ses. ses\<lparr>inflight := Some (a, tail_hash (aa_org a) (visible s d))\<rparr>) d)"
proof -
  from lock have d: "d = db\<lparr>chain_lock := (chain_lock db)(aa_org a := Some s)\<rparr>"
    and free: "chain_lock db (aa_org a) = None \<or> chain_lock db (aa_org a) = Some s"
    by (auto simp: lock_chain_def split: if_splits)
  let ?db = "upd_session s
    (\<lambda>ses. ses\<lparr>inflight := Some (a, tail_hash (aa_org a) (visible s d))\<rparr>) d"
  note D = pg_invD [OF inv]
  show ?thesis
  proof (rule pg_invI)
    fix t org
    show "below (next_seq ?db) (visible t ?db)" "org_ok L org (visible t ?db)"
      using D(1,2) by (simp_all add: d)
    show "chain_lock ?db org = Some t" if "org_rows org (pending (sessions ?db t)) \<noteq> []"
      using that D(3) [of org t] free by (auto simp: d split: if_splits)
    show "chain_lock ?db (aa_org b) = Some t \<and> k = tail_hash (aa_org b) (visible t ?db)"
      if "inflight (sessions ?db t) = Some (b, k)" for b k
      using that D(4) [of t b k] free by (auto simp: d split: if_splits)
  qed
qed

lemma pg_inv_insert:
  assumes inv: "pg_inv L db" and fl: "inflight (sessions db s) = Some (a, h)"
  shows "pg_inv L ((upd_session s (\<lambda>ses. \<lparr>pending = pending ses @ [new_event L a h (next_seq db)],
            inflight = None\<rparr>) db)\<lparr>next_seq := next_seq db + 1, append_mutex := m, writer := w\<rparr>)"
proof (rule pg_invI)
  let ?db = "(upd_session s (\<lambda>ses. \<lparr>pending = pending ses @ [new_event L a h (next_seq db)],
            inflight = None\<rparr>) db)\<lparr>next_seq := next_seq db + 1, append_mutex := m, writer := w\<rparr>"
  note D = pg_invD [OF inv]
  have vis: "visible t ?db = (if t = s then visible s db @ [new_event L a h (next_seq db)]
      else visible t db)" for t
    by (simp add: visible_def)
  fix t org
  show "below (next_seq ?db) (visible t ?db)"
    unfolding vis using below_mono [OF D(1), of "next_seq db + 1"] by simp
  have "h = last_hash None (org_rows (aa_org a) (visible s db))"
    using D(4) [OF fl] tail_hash_last [OF D(2)] by simp
  then show "org_ok L org (visible t ?db)"
    unfolding vis using org_ok_new_event [OF D(2) D(1)] D(2) by auto
  show "chain_lock ?db org = Some t" if "org_rows org (pending (sessions ?db t)) \<noteq> []"
    using that D(3) [of org t] D(4) [OF fl] by (auto split: if_splits)
  show "chain_lock ?db (aa_org b) = Some t \<and> k = tail_hash (aa_org b) (visible t ?db)"
    if "inflight (sessions ?db t) = Some (b, k)" for b k
    using that D(4) [of t b k] unfolding vis by (auto split: if_splits)
qed

lemma pg_inv_end:
  assumes inv: "pg_inv L db"
  shows "pg_inv L (end_transaction s db)"
proof (rule pg_invI)
  note D = pg_invD [OF inv]
  fix t org
  have vis: "visible t (end_transaction s db) = (if t = s then committed db else visible t db)" for t
    by (simp add: visible_def)
  have sub: "visible s db = committed db @ pending (sessions db s)" by (simp add: visible_def)
  show "below (next_seq (end_transaction s db)) (visible t (end_transaction s db))"
    unfolding vis using D(1) [of t] D(1) [of s] by (auto simp: sub)
  show "org_ok L org (visible t (end_transaction s db))"
    unfolding vis using D(2) [of org t] D(2) [of org s] org_ok_prefix by (auto simp: sub)
  show "chain_lock (end_transaction s db) org = Some t"
    if "org_rows org (pending (sessions (end_transaction s db) t)) \<noteq> []"
    using that D(3) [of org t] by (auto split: if_splits)
  show "chain_lock (end_transaction s db) (aa_org b) = Some t \<and>
      k = tail_hash (aa_org b) (visible t (end_transaction s db))"
    if "inflight (sessions (end_transaction s db) t) = Some (b, k)" for b k
    using that D(4) [of t b k] unfolding vis by (auto split: if_splits)
qed

text \<open>A commit makes one session's rows visible to the others: they have none of the same chain.\<close>

lemma pg_commit_rows:
  assumes inv: "pg_inv L db" and "t \<noteq> s"
  shows "org_rows org (committed db @ pending (sessions db s) @ pending (sessions db t)) =
     org_rows org (visible (if chain_lock db org = Some s then s else t) db)"
  using pg_invD(3) [OF inv, of org s] pg_invD(3) [OF inv, of org t] assms(2)
  by (auto simp: visible_def)

lemma pg_inv_commit:
  assumes inv: "pg_inv L db"
  shows "pg_inv L ((end_transaction s db)\<lparr>committed := visible s db\<rparr>)"
proof (rule pg_invI)
  let ?db = "(end_transaction s db)\<lparr>committed := visible s db\<rparr>"
  note D = pg_invD [OF inv]
  have vis: "visible t ?db = (if t = s then visible s db
      else committed db @ pending (sessions db s) @ pending (sessions db t))" for t
    by (simp add: visible_def)
  fix t org
  show "below (next_seq ?db) (visible t ?db)"
    using D(1) [of t] D(1) [of s] by (auto simp: visible_def)
  show "org_ok L org (visible t ?db)"
    unfolding vis using D(2) org_ok_cong [OF pg_commit_rows [OF inv, of t s]] by simp
  show "chain_lock ?db org = Some t" if "org_rows org (pending (sessions ?db t)) \<noteq> []"
    using that D(3) [of org t] by (auto split: if_splits)
  show "chain_lock ?db (aa_org b) = Some t \<and> k = tail_hash (aa_org b) (visible t ?db)"
    if fl: "inflight (sessions ?db t) = Some (b, k)" for b k
  proof -
    from fl have "t \<noteq> s" "inflight (sessions db t) = Some (b, k)" by (auto split: if_splits)
    with D(4) [of t b k] tail_hash_cong [OF pg_commit_rows [OF inv, of t s "aa_org b"]]
    show ?thesis unfolding vis by simp
  qed
qed

lemma pg_inv_step:
  assumes "pg_inv L db" "audit_step L Postgres db db'"
  shows "pg_inv L db'"
proof -
  from assms(2) obtain act where "audit_exec L Postgres act db = Some db'"
    by (auto elim: audit_step.cases)
  then show ?thesis
  proof (cases rule: audit_exec_cases)
    case (start s a d)
    then show ?thesis using pg_inv_begin [OF assms(1)] by simp
  next
    case (insert s a h)
    then show ?thesis using pg_inv_insert [OF assms(1)] by simp
  next
    case (lose s)
    have "pg_inv L (db\<lparr>next_seq := next_seq db + 1\<rparr>)"
      using assms(1) below_mono [of "next_seq db" _ "next_seq db + 1"]
      by (simp add: pg_inv_def)
    with lose pg_inv_end show ?thesis by simp
  next
    case (commit s)
    then show ?thesis using pg_inv_commit [OF assms(1)] by simp
  next
    case (rollback s)
    then show ?thesis using pg_inv_end [OF assms(1)] by simp
  qed
qed

subsection \<open>The invariant of SQLite, for a tenant that has an entry\<close>

definition sq_inv :: "audit_lib \<Rightarrow> string \<Rightarrow> audit_db \<Rightarrow> bool" where
  "sq_inv L org db \<longleftrightarrow>
     org_rows org (committed db) \<noteq> []
   \<and> (\<forall>s. below (next_seq db) (visible s db) \<and> org_ok L org (visible s db))
   \<and> (\<forall>s. pending (sessions db s) \<noteq> [] \<longrightarrow> writer db = Some s)
   \<and> (\<forall>s a h. inflight (sessions db s) = Some (a, h) \<longrightarrow> aa_org a = org \<longrightarrow>
        h \<in> (Some \<circ> ae_current) ` set (org_rows org (visible s db)))"

lemma sq_invD:
  assumes "sq_inv L org db"
  shows "org_rows org (committed db) \<noteq> []" "below (next_seq db) (visible s db)"
    "org_ok L org (visible s db)" "writer db \<noteq> Some s \<Longrightarrow> pending (sessions db s) = []"
    "inflight (sessions db s) = Some (a, h) \<Longrightarrow> aa_org a = org \<Longrightarrow>
       h \<in> (Some \<circ> ae_current) ` set (org_rows org (visible s db))"
  using assms unfolding sq_inv_def by blast+

lemma sq_invI:
  assumes "org_rows org (committed db) \<noteq> []"
    and "\<And>s. below (next_seq db) (visible s db)" "\<And>s. org_ok L org (visible s db)"
    and "\<And>s. pending (sessions db s) \<noteq> [] \<Longrightarrow> writer db = Some s"
    and "\<And>s a h. inflight (sessions db s) = Some (a, h) \<Longrightarrow> aa_org a = org \<Longrightarrow>
           h \<in> (Some \<circ> ae_current) ` set (org_rows org (visible s db))"
  shows "sq_inv L org db"
  using assms unfolding sq_inv_def by blast

text \<open>A hash that some row carries and that no row links to is the last one.\<close>

lemma unused_hash_is_last:
  assumes "linked L org prev rows" "h \<in> (Some \<circ> ae_current) ` set rows" "\<forall>q\<in>set rows. ae_prev q \<noteq> h"
  shows "h = last_hash prev rows"
proof -
  from assms(2) obtain r where r: "r \<in> set rows" "h = Some (ae_current r)" by auto
  then obtain xs ys where rows: "rows = xs @ r # ys" by (auto dest: split_list)
  have "ys = []"
  proof (rule ccontr)
    assume "ys \<noteq> []"
    then obtain y zs where "rows = (xs @ [r]) @ y # zs" using rows by (cases ys) auto
    then have "ae_prev y = h" "y \<in> set rows"
      using assms(1) r linked_prev_of [of L org prev "xs @ [r]" y zs] by simp_all
    with assms(3) show False by blast
  qed
  with rows r show ?thesis by simp
qed

lemma sq_inv_begin:
  assumes inv: "sq_inv L org db" and lock: "lock_chain SQLite s (aa_org a) db = Some d"
  shows "sq_inv L org (upd_session s
           (\<lambda>ses. ses\<lparr>inflight := Some (a, tail_hash (aa_org a) (visible s d))\<rparr>) d)"
proof -
  from lock have d: "d = db\<lparr>append_mutex := Some s\<rparr>"
    by (auto simp: lock_chain_def split: if_splits)
  note D = sq_invD [OF inv]
  let ?db = "upd_session s
    (\<lambda>ses. ses\<lparr>inflight := Some (a, tail_hash (aa_org a) (visible s d))\<rparr>) d"
  have ne: "org_rows org (visible s db) \<noteq> []" using D(1) by (simp add: visible_def)
  then have "tail_hash org (visible s db) \<in> (Some \<circ> ae_current) ` set (org_rows org (visible s db))"
    using tail_hash_last [OF D(3)] by (simp add: last_hash_def)
  then show ?thesis
    using D by (intro sq_invI) (auto simp: d split: if_splits)
qed

lemma sq_inv_insert:
  assumes inv: "sq_inv L org db" and fl: "inflight (sessions db s) = Some (a, h)"
    and w: "writer db = None \<or> writer db = Some s"
    and ix: "\<not> list_ex (index_conflict (new_event L a h (next_seq db))) (visible s db)"
  shows "sq_inv L org ((upd_session s (\<lambda>ses. \<lparr>pending = pending ses @ [new_event L a h (next_seq db)],
            inflight = None\<rparr>) db)\<lparr>next_seq := next_seq db + 1, append_mutex := m, writer := Some s\<rparr>)"
proof -
  let ?db = "(upd_session s (\<lambda>ses. \<lparr>pending = pending ses @ [new_event L a h (next_seq db)],
            inflight = None\<rparr>) db)\<lparr>next_seq := next_seq db + 1, append_mutex := m, writer := Some s\<rparr>"
  note D = sq_invD [OF inv]
  have vis: "visible t ?db = (if t = s then visible s db @ [new_event L a h (next_seq db)]
      else visible t db)" for t
    by (simp add: visible_def)
  have last: "h = last_hash None (org_rows org (visible s db))" if "aa_org a = org"
  proof (rule unused_hash_is_last)
    show "linked L org None (org_rows org (visible s db))" using D(3) by (simp add: org_ok_def)
    show mem: "h \<in> (Some \<circ> ae_current) ` set (org_rows org (visible s db))" using D(5) fl that by blast
    then show "\<forall>q\<in>set (org_rows org (visible s db)). ae_prev q \<noteq> h"
      using ix that by (auto simp: list_ex_iff index_conflict_def org_rows_def)
  qed
  show ?thesis
  proof (rule sq_invI)
    fix t
    show "org_rows org (committed ?db) \<noteq> []" using D(1) by simp
    show "below (next_seq ?db) (visible t ?db)"
      unfolding vis using below_mono [OF D(2), of "next_seq db + 1"] by simp
    show "org_ok L org (visible t ?db)"
      unfolding vis using org_ok_new_event [OF D(3) D(2), of a h s] last D(3) by auto
    show "writer ?db = Some t" if "pending (sessions ?db t) \<noteq> []"
      using that D(4) [of t] w by (auto split: if_splits)
    show "k \<in> (Some \<circ> ae_current) ` set (org_rows org (visible t ?db))"
      if "inflight (sessions ?db t) = Some (b, k)" "aa_org b = org" for b k
      using that D(5) [of t b k] unfolding vis by (auto split: if_splits)
  qed
qed

lemma sq_inv_end:
  assumes inv: "sq_inv L org db"
  shows "sq_inv L org (end_transaction s db)"
proof (rule sq_invI)
  note D = sq_invD [OF inv]
  fix t
  have vis: "visible t (end_transaction s db) = (if t = s then committed db else visible t db)" for t
    by (simp add: visible_def)
  have sub: "visible s db = committed db @ pending (sessions db s)" by (simp add: visible_def)
  show "org_rows org (committed (end_transaction s db)) \<noteq> []" using D(1) by simp
  show "below (next_seq (end_transaction s db)) (visible t (end_transaction s db))"
    unfolding vis using D(2) [of t] D(2) [of s] by (auto simp: sub)
  show "org_ok L org (visible t (end_transaction s db))"
    unfolding vis using D(3) [of t] D(3) [of s] org_ok_prefix by (auto simp: sub)
  show "writer (end_transaction s db) = Some t"
    if "pending (sessions (end_transaction s db) t) \<noteq> []"
    using that D(4) [of t] by (auto split: if_splits)
  show "k \<in> (Some \<circ> ae_current) ` set (org_rows org (visible t (end_transaction s db)))"
    if "inflight (sessions (end_transaction s db) t) = Some (b, k)" "aa_org b = org" for b k
    using that D(5) [of t b k] unfolding vis by (auto split: if_splits)
qed

lemma sq_inv_commit:
  assumes inv: "sq_inv L org db"
  shows "sq_inv L org ((end_transaction s db)\<lparr>committed := visible s db\<rparr>)"
proof (rule sq_invI)
  let ?db = "(end_transaction s db)\<lparr>committed := visible s db\<rparr>"
  note D = sq_invD [OF inv]
  fix t
  have alone: "pending (sessions db s) = [] \<or> pending (sessions db t) = []" if "t \<noteq> s" for t
    using D(4) [of s] D(4) [of t] that by (cases "writer db = Some s") auto
  have vis: "visible t ?db = (if t = s \<or> pending (sessions db t) = [] then visible s db
      else visible t db)" for t
    using alone [of t] by (auto simp: visible_def)
  show "org_rows org (committed ?db) \<noteq> []" using D(1) by (simp add: visible_def)
  show "below (next_seq ?db) (visible t ?db)" unfolding vis using D(2) by simp
  show "org_ok L org (visible t ?db)" unfolding vis using D(3) by simp
  show "writer ?db = Some t" if "pending (sessions ?db t) \<noteq> []"
    using that D(4) [of t] by (auto split: if_splits)
  show "k \<in> (Some \<circ> ae_current) ` set (org_rows org (visible t ?db))"
    if "inflight (sessions ?db t) = Some (b, k)" "aa_org b = org" for b k
    using that D(5) [of t b k] unfolding vis by (auto simp: visible_def split: if_splits)
qed

lemma sq_inv_step:
  assumes "sq_inv L org db" "audit_step L SQLite db db'"
  shows "sq_inv L org db'"
proof -
  from assms(2) obtain act where "audit_exec L SQLite act db = Some db'"
    by (auto elim: audit_step.cases)
  then show ?thesis
  proof (cases rule: audit_exec_cases)
    case (start s a d)
    then show ?thesis using sq_inv_begin [OF assms(1)] by simp
  next
    case (insert s a h)
    then show ?thesis using sq_inv_insert [OF assms(1)] by simp
  next
    case (lose s)
    have "sq_inv L org (db\<lparr>next_seq := next_seq db + 1\<rparr>)"
      using assms(1) below_mono [of "next_seq db" _ "next_seq db + 1"]
      by (simp add: sq_inv_def)
    with lose sq_inv_end show ?thesis by simp
  next
    case (commit s)
    then show ?thesis using sq_inv_commit [OF assms(1)] by simp
  next
    case (rollback s)
    then show ?thesis using sq_inv_end [OF assms(1)] by simp
  qed
qed

subsection \<open>Interpretations\<close>

interpretation pg: invariant_system "\<lambda>db. db = empty_audit_db" "audit_step L Postgres" "pg_inv L" for L
  by unfold_locales (use pg_inv_empty pg_inv_step in auto)

definition settled :: "audit_lib \<Rightarrow> string \<Rightarrow> audit_db \<Rightarrow> bool" where
  "settled L org db \<longleftrightarrow>
     (\<forall>s. sessions db s = idle) \<and> writer db = None \<and> org_rows org (committed db) \<noteq> []
   \<and> below (next_seq db) (committed db) \<and> org_ok L org (committed db)"

lemma sq_inv_settled: "settled L org db \<Longrightarrow> sq_inv L org db"
  by (simp add: settled_def sq_inv_def visible_def)

interpretation sq: invariant_system "settled L org" "audit_step L SQLite" "sq_inv L org" for L org
  by unfold_locales (use sq_inv_settled sq_inv_step in auto)

text \<open>The table only grows, on either engine.\<close>

lemma audit_step_grows:
  assumes "audit_step L e db db'"
  shows "\<exists>new. committed db' = committed db @ new"
proof -
  from assms obtain act where "audit_exec L e act db = Some db'" by (auto elim: audit_step.cases)
  then show ?thesis by (cases rule: audit_exec_cases) (auto simp: lock_chain_kept visible_def)
qed

lemma audit_steps_grow:
  "(audit_step L e)\<^sup>*\<^sup>* db db' \<Longrightarrow> \<exists>new. committed db' = committed db @ new"
proof (induction rule: rtranclp_induct)
  case (step y z)
  then show ?case using audit_step_grows [of L e y z] by auto
qed simp

lemma audit_run_steps:
  "audit_run L e acts db = Some db' \<Longrightarrow> (audit_step L e)\<^sup>*\<^sup>* db db'"
proof (induction acts arbitrary: db)
  case (Cons a as)
  then show ?case
    by (auto split: option.splits intro: audit_step.act converse_rtranclp_into_rtranclp)
qed simp

end
