(* ===== verification/AuditProps.thy ===== *)
theory AuditProps
  imports AuditChain
begin

text \<open>
  The properties of the audit log: the encoding determines the content, chains stay intact under
  concurrent sessions, what tampering is reported and what is not.
\<close>

definition demo_lib :: audit_lib where
  "demo_lib = \<lparr>lib_sha256 = (\<lambda>s. take 32 (rev s)), lib_iso = int_text, lib_float = ratio_text\<rparr>"

definition demo_args :: "string \<Rightarrow> string \<Rightarrow> append_args" where
  "demo_args i action = \<lparr>aa_org = ''7'', aa_actor = ''amal'', aa_action = action,
     aa_rtype = ''invoice'', aa_rid = ''1'', aa_payload = Some [(KInt 1, HTuple [HInt 5, HNone])],
     aa_occurred = None, aa_id = i, aa_now = 0\<rparr>"

lemma demo_args_org: "aa_org (demo_args i action) = ''7''"
  by (simp add: demo_args_def)

subsection \<open>The encoding\<close>

text \<open>
  C27: Two payloads have the same canonical bytes exactly when they are the same value up to the
  order of the keys of their dicts, so that a fingerprint covers every field of every entry; what
  \<open>append\<close> stores reads back to the bytes it hashed.
\<close>

theorem canonical_encoding_faithful:
  assumes "float_text_ok ft"
  shows "(canonical_bytes ft v = canonical_bytes ft w \<longleftrightarrow> norm_val v = norm_val w) \<and>
    canonical_bytes ft (normalize_payload ft p) = json_text ft (normalize_payload ft p)"
  using canonical_bytes_eq_iff [OF assms] normalize_payload_canonical by blast

theorem canonical_encoding_faithful_witness:
  "canonical_bytes ratio_text (PDict [(''b'', PInt 1), (''a'', PNone)]) =
     canonical_bytes ratio_text (PDict [(''a'', PNone), (''b'', PInt 1)])"
proof -
  have "norm_val (PDict [(''b'', PInt 1), (''a'', PNone)]) =
      norm_val (PDict [(''a'', PNone), (''b'', PInt 1)])"
    by code_simp
  then show ?thesis
    using canonical_encoding_faithful [OF ratio_text_ok] by blast
qed

subsection \<open>Concurrent sessions\<close>

text \<open>
  C8: On PostgreSQL, whatever the interleaving of sessions that append, commit, roll back or lose
  to an index, every tenant's chain verifies, and entries that were committed stay as they were.
\<close>

theorem audit_chain_intact:
  assumes "reachable (\<lambda>db. db = empty_audit_db) (audit_step L Postgres) db"
    and "(audit_step L Postgres)\<^sup>*\<^sup>* db db'"
  shows "is_intact (verify L (committed db') org) \<and> (\<exists>new. committed db' = committed db @ new)"
proof -
  have "pg_inv L db'" using pg.inv_steps [OF assms(2)] pg.inv_reachable [OF assms(1)] by blast
  then have "org_ok L org (visible 0 db')" by (rule pg_invD)
  then have "is_intact (verify L (committed db') org)"
    unfolding visible_def by (intro verify_org_ok) (rule org_ok_prefix)
  with audit_steps_grow [OF assms(2)] show ?thesis by blast
qed

definition demo_interleaving :: "audit_action list" where
  "demo_interleaving =
     [Begin 0 (demo_args ''u1'' ''created''), Begin 1 ((demo_args ''u2'' ''created'')\<lparr>aa_org := ''8''\<rparr>),
      Finish 1, Finish 0, Begin 0 (demo_args ''u3'' ''approved''), Finish 0, Commit 1, Commit 0]"

theorem audit_chain_intact_witness:
  "\<exists>db. audit_run demo_lib Postgres demo_interleaving empty_audit_db = Some db
      \<and> map ae_seq (committed db) = [1, 2, 3] \<and> is_intact (verify demo_lib (committed db) ''7'')"
proof -
  have "map_option (map ae_seq \<circ> committed)
      (audit_run demo_lib Postgres demo_interleaving empty_audit_db) = Some [1, 2, 3]"
    by code_simp
  then obtain db where db: "audit_run demo_lib Postgres demo_interleaving empty_audit_db = Some db"
      "map ae_seq (committed db) = [1, 2, 3]" by auto
  have "reachable (\<lambda>db. db = empty_audit_db) (audit_step demo_lib Postgres) empty_audit_db"
    by (rule reach_start) simp
  from audit_chain_intact [OF this audit_run_steps [OF db(1)]]
  have "is_intact (verify demo_lib (committed db) ''7'')" by (rule conjunct1)
  with db show ?thesis by (intro exI [of _ db] conjI)
qed

text \<open>The state after a first entry is at rest.\<close>

definition first_entry :: "audit_lib \<Rightarrow> append_args \<Rightarrow> audit_db" where
  "first_entry L a = empty_audit_db\<lparr>committed := [new_event L a None 1], next_seq := 2\<rparr>"

lemma first_entry_settled: "settled L (aa_org a) (first_entry L a)"
  by (simp add: first_entry_def settled_def empty_audit_db_def org_ok_def new_event_hash)

text \<open>
  On SQLite, from a state at rest in which a tenant has an entry, no interleaving forks that
  tenant's chain: a session that chained off a stale tail loses to the unique index.
\<close>

theorem sqlite_chain_never_forks:
  assumes "settled L org db" and "(audit_step L SQLite)\<^sup>*\<^sup>* db db'"
  shows "is_intact (verify L (committed db') org)"
proof -
  have "sq_inv L org db'" using sq.inv_steps [OF assms(2)] sq_inv_settled [OF assms(1)] by blast
  then have "org_ok L org (visible 0 db')" by (rule sq_invD)
  then show ?thesis unfolding visible_def by (intro verify_org_ok) (rule org_ok_prefix)
qed

theorem sqlite_chain_never_forks_witness:
  "\<exists>db. audit_run demo_lib SQLite
        [Begin 0 (demo_args ''u2'' ''sent''), Finish 0, Begin 1 (demo_args ''u3'' ''paid''), Commit 0, Finish 1]
        (first_entry demo_lib (demo_args ''u1'' ''created'')) = Some db
      \<and> map ae_seq (committed db) = [1, 2] \<and> is_intact (verify demo_lib (committed db) ''7'')"
  (is "\<exists>db. ?run = Some db \<and> _")
proof -
  have "map_option (map ae_seq \<circ> committed) ?run = Some [1, 2]" by code_simp
  then obtain db where db: "?run = Some db" "map ae_seq (committed db) = [1, 2]" by auto
  have "settled demo_lib ''7'' (first_entry demo_lib (demo_args ''u1'' ''created''))"
    using first_entry_settled [of demo_lib "demo_args ''u1'' ''created''"] unfolding demo_args_org .
  from sqlite_chain_never_forks [OF this audit_run_steps [OF db(1)]]
  have "is_intact (verify demo_lib (committed db) ''7'')" .
  with db show ?thesis by (intro exI [of _ db] conjI)
qed

lemmas audit_ops =
  begin_append_def lock_chain_def finish_append_def commit_session_def end_transaction_def
  upd_session_def visible_def empty_audit_db_def idle_def Let_def

definition forked :: "audit_lib \<Rightarrow> append_args \<Rightarrow> append_args \<Rightarrow> audit_event list" where
  "forked L a b = [new_event L a None 1, new_event L b None 2]"

lemma fork_run:
  assumes "aa_id b \<noteq> aa_id a"
  shows "map_option committed (audit_run L SQLite
     [Begin 0 a, Finish 0, Begin 1 b, Commit 0, Finish 1, Commit 1] empty_audit_db) = Some (forked L a b)"
  using assms
  by (simp add: audit_ops forked_def tail_hash_def tail_row_def index_conflict_def eq_commute)

lemma fork_break:
  assumes "aa_org b = aa_org a"
  shows "map_option cb_detail (first_break (verify L (forked L a b) (aa_org a))) = Some unlinked_detail"
    "map_option cb_event_id (first_break (verify L (forked L a b) (aa_org a))) = Some (aa_id b)"
  using assms new_event_hash [of L a None 1]
  by (simp_all add: verify_def verify_rows_def first_break_def forked_def Let_def break_at_def row_hash_def)

text \<open>
  The first two entries of a tenant can fork on SQLite: the mutex is released when the row is
  flushed, before the transaction commits, so that a second session still reads an empty chain;
  both rows carry a NULL \<open>hash_prev\<close>, which the unique index does not compare, and
  verification then reports the second as tampered with.  On PostgreSQL the second session waits.
\<close>

theorem sqlite_first_entries_fork:
  assumes "aa_org b = aa_org a" and "aa_id b \<noteq> aa_id a"
  shows "(\<exists>db. audit_run L SQLite [Begin 0 a, Finish 0, Begin 1 b, Commit 0, Finish 1, Commit 1]
              empty_audit_db = Some db
            \<and> map_option cb_detail (first_break (verify L (committed db) (aa_org a))) = Some unlinked_detail
            \<and> map_option cb_event_id (first_break (verify L (committed db) (aa_org a))) = Some (aa_id b))
       \<and> audit_run L Postgres [Begin 0 a, Finish 0, Begin 1 b] empty_audit_db = None"
proof -
  have "audit_run L Postgres [Begin 0 a, Finish 0, Begin 1 b] empty_audit_db = None"
    using assms(1) by (simp add: audit_ops)
  moreover obtain db where "audit_run L SQLite
      [Begin 0 a, Finish 0, Begin 1 b, Commit 0, Finish 1, Commit 1] empty_audit_db = Some db"
      "committed db = forked L a b"
    using fork_run [OF assms(2), of L] by auto
  ultimately show ?thesis using fork_break [OF assms(1)] by auto
qed

theorem sqlite_first_entries_fork_witness:
  "\<exists>db. audit_run demo_lib SQLite
      [Begin 0 (demo_args ''u1'' ''created''), Finish 0, Begin 1 (demo_args ''u2'' ''sent''), Commit 0,
       Finish 1, Commit 1] empty_audit_db = Some db
    \<and> map_option cb_event_id (first_break (verify demo_lib (committed db) ''7'')) = Some ''u2''"
proof -
  have "aa_org (demo_args ''u2'' ''sent'') = aa_org (demo_args ''u1'' ''created'')"
    "aa_id (demo_args ''u2'' ''sent'') \<noteq> aa_id (demo_args ''u1'' ''created'')"
    "aa_id (demo_args ''u2'' ''sent'') = ''u2''"
    by (simp_all add: demo_args_def)
  then show ?thesis
    using sqlite_first_entries_fork [of "demo_args ''u2'' ''sent''" "demo_args ''u1'' ''created''" demo_lib]
    unfolding demo_args_org by auto
qed

subsection \<open>Tampering\<close>

text \<open>Two rows with one fingerprint although their links or their bytes differ.\<close>

definition collide :: "audit_lib \<Rightarrow> string \<Rightarrow> audit_event \<Rightarrow> audit_event \<Rightarrow> bool" where
  "collide L org r q \<longleftrightarrow>
     ae_current r = ae_current q \<and> (ae_prev r, row_bytes L org r) \<noteq> (ae_prev q, row_bytes L org q)"

lemma chains_agree:
  assumes ft: "float_text_ok (lib_float L)"
  shows "linked L org None rows \<Longrightarrow> linked L org None rows' \<Longrightarrow>
     last_hash None rows = last_hash None rows' \<Longrightarrow>
     list_all2 (same_entry L) rows rows' \<or> (\<exists>r\<in>set rows. \<exists>q\<in>set rows'. collide L org r q)"
proof (induction rows arbitrary: rows' rule: rev_induct)
  case Nil
  then show ?case by (auto simp: last_hash_def split: if_splits)
next
  case (snoc r xs)
  then obtain q ys where rows': "rows' = ys @ [q]" and cur: "ae_current r = ae_current q"
    by (cases rows' rule: rev_cases) auto
  show ?case
  proof (cases "collide L org r q")
    case True
    then show ?thesis unfolding rows' by auto
  next
    case False
    with cur have eq: "ae_prev r = ae_prev q" "row_bytes L org r = row_bytes L org q"
      by (auto simp: collide_def)
    then have "last_hash None xs = last_hash None ys"
      using linked_prev_of [of L org None xs r "[]"] linked_prev_of [of L org None ys q "[]"]
        snoc.prems rows' by simp
    then have "list_all2 (same_entry L) xs ys \<or> (\<exists>r\<in>set xs. \<exists>q\<in>set ys. collide L org r q)"
      using snoc.prems by (intro snoc.IH) (simp_all add: rows' linked_append)
    moreover have "same_entry L r q" by (rule row_bytes_same_entry [OF ft eq(2,1) cur])
    ultimately show ?thesis unfolding rows' by (auto intro: list_all2_appendI)
  qed
qed

text \<open>
  C6: Whoever has noted the newest fingerprint of a tenant's log can trust the whole log: two
  histories that both verify and end in the same fingerprint tell the same entry by entry, in every
  column that is hashed, unless they exhibit two rows whose different contents have the same
  SHA-256.  Editing, deleting, inserting and reordering are all covered.
\<close>

theorem tamper_evident:
  assumes "float_text_ok (lib_float L)"
    and "is_intact (verify_rows L org rows)" and "is_intact (verify_rows L org rows')"
    and "last_hash None rows = last_hash None rows'"
  shows "list_all2 (same_entry L) rows rows' \<or> (\<exists>r\<in>set rows. \<exists>q\<in>set rows'. collide L org r q)"
  using chains_agree assms unfolding is_intact_iff by blast

definition demo_event :: audit_event where
  "demo_event = new_event demo_lib (demo_args ''u1'' ''created'') None 1"

lemma demo_event_linked: "linked demo_lib ''7'' None [demo_event]"
  using new_event_hash [of demo_lib "demo_args ''u1'' ''created''" None 1]
  by (simp add: demo_event_def demo_args_org)

theorem tamper_evident_witness:
  "list_all2 (same_entry demo_lib) [demo_event] [demo_event\<lparr>ae_seq := 9\<rparr>]
     \<or> collide demo_lib ''7'' demo_event (demo_event\<lparr>ae_seq := 9\<rparr>)"
proof -
  have "row_hash demo_lib ''7'' None (demo_event\<lparr>ae_seq := 9\<rparr>) = row_hash demo_lib ''7'' None demo_event"
    by (simp add: row_hash_def row_payload_def)
  then have "linked demo_lib ''7'' None [demo_event\<lparr>ae_seq := 9\<rparr>]"
    using demo_event_linked by simp
  moreover have "float_text_ok (lib_float demo_lib)" by (simp add: demo_lib_def ratio_text_ok)
  ultimately show ?thesis
    using tamper_evident [of demo_lib "''7''" "[demo_event]" "[demo_event\<lparr>ae_seq := 9\<rparr>]"] demo_event_linked
    unfolding is_intact_iff by auto
qed

lemma verify_loop_append:
  "verify_loop L org prev (xs @ ys) =
     verify_loop L org prev xs @ verify_loop L org (last_hash prev xs) ys"
  by (induction xs arbitrary: prev) (auto simp: Let_def)

lemma linked_no_breaks: "linked L org prev rows \<Longrightarrow> verify_loop L org prev rows = []"
  by (simp add: verify_loop_Nil_iff)

text \<open>
  In an intact log, one row whose columns were changed behind its fingerprint makes exactly
  one break, at that row, with the words that it was edited; one row taken out of the middle makes
  exactly one, at the row after it, with the words that the link does not meet.  (Unless the new
  fingerprints are those of the old content.)
\<close>

theorem tampering_is_localised:
  assumes "is_intact (verify_rows L org (xs @ r # y # ys))"
  shows "(ae_prev r' = ae_prev r \<and> ae_current r' = ae_current r
           \<and> row_hash L org (ae_prev r) r' \<noteq> ae_current r \<longrightarrow>
         vr_breaks (verify_rows L org (xs @ r' # y # ys)) =
           [break_at r' (row_hash L org (ae_prev r) r') (ae_current r) edited_detail])
    \<and> (last_hash None xs \<noteq> Some (ae_current r) \<longrightarrow>
         vr_breaks (verify_rows L org (xs @ y # ys)) =
           [break_at y (row_hash L org (last_hash None xs) y) (ae_current y) unlinked_detail])"
  using assms unfolding is_intact_iff
  by (auto simp: verify_rows_def verify_loop_append linked_append Let_def row_hash_def
      linked_no_breaks)

definition demo_second :: audit_event where
  "demo_second = new_event demo_lib (demo_args ''u2'' ''sent'') (Some (ae_current demo_event)) 2"

definition demo_forged :: audit_event where
  "demo_forged = demo_event\<lparr>ae_rtype := ''receipt''\<rparr>"

lemma demo_log_linked: "linked demo_lib ''7'' None [demo_event, demo_second]"
  using demo_event_linked
    new_event_hash [of demo_lib "demo_args ''u2'' ''sent''" "Some (ae_current demo_event)" 2]
  by (simp add: demo_second_def demo_args_org)

theorem tampering_is_localised_witness:
  "vr_breaks (verify_rows demo_lib ''7'' [demo_forged, demo_second]) =
     [break_at demo_forged (row_hash demo_lib ''7'' None demo_forged) (ae_current demo_event) edited_detail]"
proof -
  have "row_hash demo_lib ''7'' None demo_forged \<noteq> ae_current demo_event" by code_simp
  moreover have "ae_prev demo_event = None" "ae_prev demo_forged = ae_prev demo_event"
    "ae_current demo_forged = ae_current demo_event"
    by (simp_all add: demo_event_def demo_forged_def)
  ultimately show ?thesis
    using tampering_is_localised [of demo_lib "''7''" "[]" demo_event demo_second "[]" demo_forged]
      demo_log_linked unfolding is_intact_iff by simp
qed

lemma sorted_filter_prefix:
  "sorted (map f xs) \<Longrightarrow> \<exists>ys. xs = filter (\<lambda>x. f x \<le> n) xs @ ys"
proof (induction xs)
  case Nil
  then show ?case by simp
next
  case (Cons x xs)
  show ?case
  proof (cases "f x \<le> n")
    case True
    with Cons show ?thesis by auto
  next
    case False
    with Cons.prems have "filter (\<lambda>x. f x \<le> n) (x # xs) = []" by (auto simp: filter_empty_conv)
    then show ?thesis by simp
  qed
qed

text \<open>
  Entries taken off the end of a tenant's log are not reported: whatever the sequence number
  above which its entries are deleted, and even when all are, verification passes.
\<close>

theorem truncation_is_not_reported:
  assumes "is_intact (verify L rows org)"
  shows "is_intact (verify L (filter (\<lambda>r. ae_org r \<noteq> org \<or> ae_seq r \<le> n) rows) org)"
proof -
  have "org_rows org (filter (\<lambda>r. ae_org r \<noteq> org \<or> ae_seq r \<le> n) rows) =
      filter (\<lambda>r. ae_seq r \<le> n) (org_rows org rows)"
    unfolding org_rows_def filter_filter by (rule filter_cong) auto
  then have *: "sort_key ae_seq (org_rows org (filter (\<lambda>r. ae_org r \<noteq> org \<or> ae_seq r \<le> n) rows)) =
      filter (\<lambda>r. ae_seq r \<le> n) (sort_key ae_seq (org_rows org rows))"
    by (simp add: filter_sort)
  have "sorted (map ae_seq (sort_key ae_seq (org_rows org rows)))" by simp
  then obtain ys where "sort_key ae_seq (org_rows org rows) =
      filter (\<lambda>r. ae_seq r \<le> n) (sort_key ae_seq (org_rows org rows)) @ ys"
    using sorted_filter_prefix by blast
  then have "linked L org None (filter (\<lambda>r. ae_seq r \<le> n) (sort_key ae_seq (org_rows org rows)))"
    using assms unfolding verify_def is_intact_iff by (metis linked_append)
  then show ?thesis unfolding verify_def is_intact_iff * .
qed

theorem truncation_is_not_reported_witness:
  "is_intact (verify demo_lib (filter (\<lambda>r. ae_org r \<noteq> ''7'' \<or> ae_seq r \<le> 1) [demo_event, demo_second]) ''7'')"
proof -
  have "ae_org demo_event = ''7''" "ae_org demo_second = ''7''" "ae_seq demo_event = 1" "ae_seq demo_second = 2"
    by (simp_all add: demo_event_def demo_second_def demo_args_org)
  then have "org_ok demo_lib ''7'' [demo_event, demo_second]"
    using demo_log_linked by (simp add: org_ok_def)
  then show ?thesis by (intro truncation_is_not_reported verify_org_ok)
qed

end
