(* ===== verification/RateLimit.thy ===== *)
theory RateLimit
  imports PyValue
begin

text \<open>
  \<open>asas_ratelimit/__init__.py\<close>: token buckets.  Floats are exact rationals with the two infinities
  and NaN (rounding is not modelled); \<open>float(s)\<close> is a parameter of \<open>parse_overrides\<close>.  The module's
  globals are the record \<open>limiter\<close>; the clock is read once per call, its reading is an argument.
  The bound on the number of buckets is an argument of the functions that consult it.
\<close>

subsection \<open>Floats and rules\<close>

definition flt_le_0 :: "flt \<Rightarrow> bool" where
  "flt_le_0 x = (case x of Fin q \<Rightarrow> q \<le> 0 | PInf \<Rightarrow> False | NInf \<Rightarrow> True | NaN \<Rightarrow> False)"

record rule =
  r_name :: string
  r_limit :: int
  r_window :: flt
  r_burst :: "int option"

definition capacity :: "rule \<Rightarrow> int" where
  "capacity r = (case r_burst r of Some b \<Rightarrow> b | None \<Rightarrow> r_limit r)"

text \<open>\<open>limit / window_seconds\<close>, for a window that is not zero.\<close>

definition refill_per_second :: "rule \<Rightarrow> flt" where
  "refill_per_second r =
     (case r_window r of
        Fin w \<Rightarrow> Fin (of_int (r_limit r) / w)
      | PInf \<Rightarrow> Fin 0
      | NInf \<Rightarrow> Fin 0
      | NaN \<Rightarrow> NaN)"

type_synonym bucket_key = "string \<times> string"

datatype clock = Monotonic | Injected nat

record limiter =
  lm_rules :: "(string \<times> rule) list"
  lm_buckets :: "(bucket_key \<times> (rat \<times> rat)) list"   \<comment> \<open>tokens and stamp\<close>
  lm_enabled :: bool
  lm_clock :: clock

definition boot :: limiter where
  "boot = \<lparr>lm_rules = [], lm_buckets = [], lm_enabled = True, lm_clock = Monotonic\<rparr>"

subsection \<open>Configuration\<close>

datatype clock_arg = ClockUnset | ClockNone | ClockFn clock

definition configure :: "bool \<Rightarrow> clock_arg \<Rightarrow> limiter \<Rightarrow> limiter" where
  "configure enabled c st =
     (let st' = st\<lparr>lm_enabled := enabled\<rparr> in
      case c of ClockUnset \<Rightarrow> st'
      | ClockNone \<Rightarrow> st'\<lparr>lm_clock := Monotonic\<rparr>
      | ClockFn f \<Rightarrow> st'\<lparr>lm_clock := f\<rparr>)"

definition declare_rule :: "rule \<Rightarrow> limiter \<Rightarrow> limiter result" where
  "declare_rule r st =
     (if flt_le_0 (r_window r)
      then Inl (ValueError (''rule '' @ py_repr (r_name r) @ '': window_seconds must be > 0''))
      else if r_limit r < 0
      then Inl (ValueError (''rule '' @ py_repr (r_name r) @ '': limit must be >= 0''))
      else Inr (st\<lparr>lm_rules := dset (lm_rules st) (r_name r) r\<rparr>))"

definition reset :: "limiter \<Rightarrow> limiter" where
  "reset st = st\<lparr>lm_buckets := [], lm_rules := []\<rparr>"

definition clear_counters :: "limiter \<Rightarrow> limiter" where
  "clear_counters st = st\<lparr>lm_buckets := []\<rparr>"

subsection \<open>Overrides\<close>

text \<open>\<open>int(s)\<close>: surrounding space, a sign, digits with single underscores between them.\<close>

definition ascii_digit :: "char \<Rightarrow> bool" where
  "ascii_digit c = (48 \<le> (of_char c :: nat) \<and> (of_char c :: nat) \<le> 57)"

fun digits_value :: "string \<Rightarrow> nat option \<Rightarrow> nat option" where
  "digits_value [] acc = acc"
| "digits_value (c # cs) acc =
     (if ascii_digit c
      then digits_value cs (Some (10 * (case acc of None \<Rightarrow> 0 | Some n \<Rightarrow> n) + (of_char c - 48)))
      else if c = CHR ''_'' \<and> acc \<noteq> None \<and> cs \<noteq> [] \<and> ascii_digit (hd cs) then digits_value cs acc
      else None)"

definition py_int :: "string \<Rightarrow> int option" where
  "py_int s =
     (case py_strip s of
        [] \<Rightarrow> None
      | c # cs \<Rightarrow>
          if c = CHR ''-'' then map_option (\<lambda>n. - int n) (digits_value cs None)
          else if c = CHR ''+'' then map_option int (digits_value cs None)
          else map_option int (digits_value (c # cs) None))"

definition parse_entry :: "(string \<Rightarrow> flt option) \<Rightarrow> string \<Rightarrow> (string \<times> int \<times> flt) option" where
  "parse_entry py_float part =
     (case split_first CHR ''='' part of
        None \<Rightarrow> None
      | Some (name, spec) \<Rightarrow>
          (case split_first CHR ''/'' spec of
             None \<Rightarrow> None
           | Some (count, window) \<Rightarrow>
               (case (py_int count, py_float window) of
                  (Some n, Some w) \<Rightarrow>
                    if flt_le_0 w \<or> n < 0 then None else Some (py_strip name, n, w)
                | _ \<Rightarrow> None)))"

fun apply_overrides ::
  "(string \<Rightarrow> flt option) \<Rightarrow> string list \<Rightarrow> (string \<times> (int \<times> flt)) list \<Rightarrow> (string \<times> (int \<times> flt)) list" where
  "apply_overrides py_float [] acc = acc"
| "apply_overrides py_float (p # ps) acc =
     (case parse_entry py_float p of
        None \<Rightarrow> apply_overrides py_float ps acc
      | Some (name, v) \<Rightarrow> apply_overrides py_float ps (dset acc name v))"

definition parse_overrides :: "(string \<Rightarrow> flt option) \<Rightarrow> string \<Rightarrow> (string \<times> (int \<times> flt)) list" where
  "parse_overrides py_float raw =
     apply_overrides py_float (filter (\<lambda>p. p \<noteq> []) (map py_strip (split_on CHR '','' raw))) []"

subsection \<open>Buckets\<close>

fun bget :: "(bucket_key \<times> 'v) list \<Rightarrow> bucket_key \<Rightarrow> 'v option" where
  "bget [] k = None"
| "bget ((j, v) # bs) k = (if j = k then Some v else bget bs k)"

fun bset :: "(bucket_key \<times> 'v) list \<Rightarrow> bucket_key \<Rightarrow> 'v \<Rightarrow> (bucket_key \<times> 'v) list" where
  "bset [] k v = [(k, v)]"
| "bset ((j, w) # bs) k v = (if j = k then (k, v) # bs else (j, w) # bset bs k v)"

definition max_buckets :: nat where
  "max_buckets = 50000"

text \<open>\<open>tokens + (now - stamp) * refill >= capacity\<close>; a comparison with NaN is false.\<close>

definition refilled :: "rule \<Rightarrow> rat \<Rightarrow> rat \<times> rat \<Rightarrow> bool" where
  "refilled r now b =
     (case refill_per_second r of
        Fin q \<Rightarrow> of_int (capacity r) \<le> fst b + (now - snd b) * q
      | _ \<Rightarrow> False)"

definition prune :: "nat \<Rightarrow> rat \<Rightarrow> limiter \<Rightarrow> limiter" where
  "prune bound now st =
     (if length (lm_buckets st) \<le> bound then st
      else st\<lparr>lm_buckets := filter (\<lambda>kb.
             \<not> (case dget (lm_rules st) (fst (fst kb)) of None \<Rightarrow> True
                | Some r \<Rightarrow> refilled r now (snd kb)))
           (lm_buckets st)\<rparr>)"

text \<open>
  \<open>min(capacity, tokens + elapsed * refill)\<close>: \<open>min\<close> keeps its first argument when the second is NaN.
\<close>

definition top_up :: "rule \<Rightarrow> rat \<Rightarrow> (rat \<times> rat) option \<Rightarrow> rat" where
  "top_up r now b =
     (case b of
        None \<Rightarrow> of_int (capacity r)
      | Some (tokens, stamp) \<Rightarrow>
          (case refill_per_second r of
             Fin q \<Rightarrow> min (of_int (capacity r)) (tokens + (now - stamp) * q)
           | _ \<Rightarrow> of_int (capacity r)))"

definition retry_after :: "rule \<Rightarrow> rat \<Rightarrow> flt result" where
  "retry_after r tokens =
     (case refill_per_second r of
        Fin q \<Rightarrow> if q = 0 then Inl (HostExn ''ZeroDivisionError'' ''float division by zero'')
                 else Inr (Fin ((1 - tokens) / q))
      | _ \<Rightarrow> Inr NaN)"

definition allow ::
  "nat \<Rightarrow> rat \<Rightarrow> string \<Rightarrow> string \<Rightarrow> limiter \<Rightarrow> (bool \<times> flt) result \<times> limiter" where
  "allow bound now name key st =
     (if \<not> lm_enabled st then (Inr (True, Fin 0), st)
      else case dget (lm_rules st) name of
        None \<Rightarrow> (Inr (True, Fin 0), st)
      | Some r \<Rightarrow>
          if r_limit r \<le> 0 \<or> capacity r \<le> 0 then (Inr (False, r_window r), st)
          else
            let tokens = top_up r now (bget (lm_buckets st) (name, key)) in
            if 1 \<le> tokens
            then (Inr (True, Fin 0),
                  prune bound now (st\<lparr>lm_buckets := bset (lm_buckets st) (name, key) (tokens - 1, now)\<rparr>))
            else (rbind (retry_after r tokens) (\<lambda>w. Inr (False, w)),
                  st\<lparr>lm_buckets := bset (lm_buckets st) (name, key) (tokens, now)\<rparr>))"

text \<open>\<open>Inr None\<close>: the call passes; \<open>Inr (Some n)\<close>: a 429 with \<open>Retry-After: n\<close>.\<close>

definition ceil_flt :: "flt \<Rightarrow> int result" where
  "ceil_flt x =
     (case x of
        Fin q \<Rightarrow> Inr (ceiling q)
      | NaN \<Rightarrow> Inl (ValueError ''cannot convert float NaN to integer'')
      | _ \<Rightarrow> Inl (HostExn ''OverflowError'' ''cannot convert float infinity to integer''))"

definition check ::
  "nat \<Rightarrow> rat \<Rightarrow> string \<Rightarrow> string \<Rightarrow> limiter \<Rightarrow> int option result \<times> limiter" where
  "check bound now name key st =
     (case allow bound now name key st of
        (Inl e, st') \<Rightarrow> (Inl e, st')
      | (Inr (True, _), st') \<Rightarrow> (Inr None, st')
      | (Inr (False, w), st') \<Rightarrow> (rbind (ceil_flt w) (\<lambda>n. Inr (Some (max 1 n))), st'))"

text \<open>A sequence of calls, each with its clock reading.\<close>

type_synonym rl_call = "rat \<times> string \<times> string"

fun rl_run :: "nat \<Rightarrow> rl_call list \<Rightarrow> limiter \<Rightarrow> (bool \<times> flt) result list \<times> limiter" where
  "rl_run bound [] st = ([], st)"
| "rl_run bound ((now, name, key) # cs) st =
     (let (r, st') = allow bound now name key st; (rs, st'') = rl_run bound cs st' in (r # rs, st''))"

subsection \<open>Lookups\<close>

lemma bget_bset [simp]: "bget (bset bs k v) j = (if j = k then Some v else bget bs j)"
  by (induction bs k v rule: bset.induct) auto

lemma bget_none: "j \<notin> fst ` set bs \<Longrightarrow> bget bs j = None"
  by (induction bs) auto

lemma bget_filter:
  assumes "distinct (map fst bs)"
  shows "bget (filter (\<lambda>kb. P (fst kb) (snd kb)) bs) j =
     (case bget bs j of None \<Rightarrow> None | Some b \<Rightarrow> if P j b then Some b else None)"
  using assms
proof (induction bs)
  case Nil
  then show ?case by simp
next
  case (Cons kb bs)
  obtain k b where kb: "kb = (k, b)" by (cases kb)
  show ?case
  proof (cases "k = j")
    case True
    with Cons.prems have "bget bs j = None" by (intro bget_none) (simp add: kb)
    with True Cons show ?thesis by (simp add: kb)
  next
    case False
    with Cons show ?thesis by (simp add: kb)
  qed
qed

lemma keys_bset: "fst ` set (bset bs k v) = insert k (fst ` set bs)"
  by (induction bs k v rule: bset.induct) auto

lemma distinct_bset: "distinct (map fst bs) \<Longrightarrow> distinct (map fst (bset bs k v))"
proof (induction bs)
  case (Cons kb bs)
  have "fst kb \<notin> fst ` set (bset bs k v)" if "fst kb \<noteq> k"
    using that Cons.prems unfolding keys_bset by simp
  with Cons show ?case by (cases kb) auto
qed simp

end
