(* ===== verification/RateProps.thy ===== *)
theory RateProps
  imports RateLimit
begin

text \<open>
  What the buckets promise: a bound on the calls that pass, an honest \<open>Retry-After\<close>, pruning that
  no caller can observe; and the two windows \<open>declare\<close> lets through that break them.
\<close>

subsection \<open>Levels\<close>

definition declared_ok :: "rule \<Rightarrow> bool" where
  "declared_ok r \<longleftrightarrow> \<not> flt_le_0 (r_window r) \<and> 0 \<le> r_limit r"

definition rules_ok :: "limiter \<Rightarrow> bool" where
  "rules_ok st \<longleftrightarrow>
     (\<forall>r\<in>snd ` set (lm_rules st). declared_ok r) \<and> distinct (map fst (lm_buckets st))"

lemma dget_in: "dget ds k = Some v \<Longrightarrow> v \<in> snd ` set ds"
  by (induction ds) (auto split: if_splits)

lemma rules_okD: "rules_ok st \<Longrightarrow> dget (lm_rules st) name = Some r \<Longrightarrow> declared_ok r"
  using dget_in [of "lm_rules st" name r] by (auto simp: rules_ok_def)

lemma refill_nonneg: "declared_ok r \<Longrightarrow> refill_per_second r = Fin q \<Longrightarrow> 0 \<le> q"
  by (auto simp: declared_ok_def refill_per_second_def flt_le_0_def split: flt.splits)

definition level :: "rule \<Rightarrow> rat \<Rightarrow> limiter \<Rightarrow> string \<Rightarrow> string \<Rightarrow> rat" where
  "level r t st name key = top_up r t (bget (lm_buckets st) (name, key))"

lemma top_up_le: "top_up r t b \<le> of_int (capacity r)"
  by (auto simp: top_up_def split: option.splits flt.splits)

lemma top_up_now:
  assumes "refill_per_second r = Fin q" "x \<le> of_int (capacity r)"
  shows "top_up r now (Some (x, now)) = x"
  using assms by (simp add: top_up_def)

lemma top_up_later:
  assumes "declared_ok r" "t \<le> u" "refill_per_second r = Fin q"
  shows "top_up r u b \<le> top_up r t b + (u - t) * q"
proof -
  have "0 \<le> (u - t) * q" using assms refill_nonneg [of r q] by simp
  then show ?thesis using assms(3)
    by (cases b) (auto simp: top_up_def algebra_simps min_def)
qed

lemma prune_level:
  assumes ok: "rules_ok st" and r: "dget (lm_rules st) name = Some r" and t: "now \<le> t"
  shows "level r t (prune bound now st) name key = level r t st name key"
proof (cases "length (lm_buckets st) \<le> bound")
  case True
  then show ?thesis by (simp add: prune_def)
next
  case False
  have d: "distinct (map fst (lm_buckets st))" using ok by (simp add: rules_ok_def)
  show ?thesis
  proof (cases "bget (lm_buckets st) (name, key)")
    case None
    with False show ?thesis
      by (simp add: level_def prune_def bget_filter [OF d, where P = "\<lambda>k b. \<not> (case dget (lm_rules st) (fst k) of None \<Rightarrow> True | Some r \<Rightarrow> refilled r now b)"])
  next
    case (Some b)
    have "top_up r t (Some b) = of_int (capacity r)" if "refilled r now b"
    proof -
      from that obtain q where q: "refill_per_second r = Fin q"
          "of_int (capacity r) \<le> fst b + (now - snd b) * q"
        by (auto simp: refilled_def split: flt.splits)
      have "(now - snd b) * q \<le> (t - snd b) * q"
        using t refill_nonneg [OF rules_okD [OF ok r] q(1)] by (intro mult_right_mono) auto
      with q show ?thesis by (cases b) (simp add: top_up_def)
    qed
    with Some False r show ?thesis
      by (simp add: level_def prune_def top_up_def [of r t None]
          bget_filter [OF d, where P = "\<lambda>k b. \<not> (case dget (lm_rules st) (fst k) of None \<Rightarrow> True | Some r \<Rightarrow> refilled r now b)"])
  qed
qed

lemma prune_kept [simp]:
  "lm_rules (prune bound now st) = lm_rules st" "lm_enabled (prune bound now st) = lm_enabled st"
  by (simp_all add: prune_def)

lemma prune_ok: "rules_ok st \<Longrightarrow> rules_ok (prune bound now st)"
  by (auto simp: rules_ok_def prune_def distinct_map_filter)

lemma set_bucket_ok: "rules_ok st \<Longrightarrow> rules_ok (st\<lparr>lm_buckets := bset (lm_buckets st) k v\<rparr>)"
  by (simp add: rules_ok_def distinct_bset)

subsection \<open>One call\<close>

definition live :: "limiter \<Rightarrow> string \<Rightarrow> rule \<Rightarrow> bool" where
  "live st name r \<longleftrightarrow>
     lm_enabled st \<and> dget (lm_rules st) name = Some r \<and> 0 < r_limit r \<and> 0 < capacity r"

definition passed :: "(bool \<times> flt) result \<Rightarrow> bool" where
  "passed res = (case res of Inr (ok, _) \<Rightarrow> ok | Inl _ \<Rightarrow> False)"

lemma live_declared: "rules_ok st \<Longrightarrow> live st name r \<Longrightarrow> declared_ok r"
  using rules_okD [of st name r] by (simp add: live_def)

lemma passed_simps [simp]: "passed (Inl e) = False" "passed (Inr (ok, w)) = ok"
  by (simp_all add: passed_def)

lemma allow_kept:
  assumes "allow bound now name key st = (res, st')"
  shows "lm_rules st' = lm_rules st" "lm_enabled st' = lm_enabled st" "rules_ok st \<Longrightarrow> rules_ok st'"
  using assms by (auto simp: allow_def Let_def prune_ok set_bucket_ok split: if_splits option.splits)

lemma allow_live:
  assumes "live st name r" and a: "allow bound now name key st = (res, st')"
  shows "passed res \<longleftrightarrow> 1 \<le> level r now st name key"
  using assms unfolding allow_def live_def level_def
  by (auto simp: Let_def retry_after_def split: if_splits flt.splits)

text \<open>The level after a call: one token less when it passed; other keys keep theirs.\<close>

lemma allow_level:
  assumes ok: "rules_ok st" and r: "live st name r" and t: "now \<le> t"
    and a: "allow bound now n k st = (res, st')"
  shows "level r t st' name key =
     (if n = name \<and> k = key
      then top_up r t (Some (level r now st name key - (if passed res then 1 else 0), now))
      else level r t st name key)"
proof (cases "lm_enabled st \<and> (\<exists>r'. dget (lm_rules st) n = Some r' \<and> 0 < r_limit r' \<and> 0 < capacity r')")
  case False
  with a have "st' = st"
    by (auto simp: allow_def split: if_splits option.splits)
  moreover from False r have "n \<noteq> name" by (auto simp: live_def)
  ultimately show ?thesis by simp
next
  case True
  then obtain r' where r': "live st n r'" by (auto simp: live_def)
  let ?tok = "top_up r' now (bget (lm_buckets st) (n, k))"
  let ?st = "\<lambda>v. st\<lparr>lm_buckets := bset (lm_buckets st) (n, k) (v, now)\<rparr>"
  have st': "st' = (if passed res then prune bound now (?st (?tok - 1)) else ?st ?tok)"
    using r' a allow_live [OF r' a] unfolding level_def
    by (auto simp: allow_def live_def Let_def split: if_splits)
  have pr: "level r t (prune bound now (?st v)) name key = level r t (?st v) name key" for v
    using r by (intro prune_level set_bucket_ok ok t) (simp add: live_def)
  have eq: "r' = r" if "n = name" using r r' that by (simp add: live_def)
  have "level r t st' name key =
      level r t (?st (?tok - (if passed res then 1 else 0))) name key"
    using pr by (simp add: st')
  then show ?thesis using eq by (auto simp: level_def)
qed

subsection \<open>Runs\<close>

definition timely :: "rat \<Rightarrow> rl_call list \<Rightarrow> rat \<Rightarrow> bool" where
  "timely start calls stop \<longleftrightarrow> sorted_wrt (\<le>) (start # map fst calls @ [stop])"

lemma timely_simps [simp]:
  "timely s [] e \<longleftrightarrow> s \<le> e"
  "timely s (c # cs) e \<longleftrightarrow> s \<le> fst c \<and> timely (fst c) cs e"
  by (auto simp: timely_def intro: order_trans)

text \<open>How many calls on one rule and key passed.\<close>

fun passed_count :: "string \<Rightarrow> string \<Rightarrow> rl_call list \<Rightarrow> (bool \<times> flt) result list \<Rightarrow> nat" where
  "passed_count name key ((t, n, k) # cs) (r # rs) =
     (if n = name \<and> k = key \<and> passed r then 1 else 0) + passed_count name key cs rs"
| "passed_count name key _ _ = 0"

lemma timely_le: "timely s cs e \<Longrightarrow> s \<le> e"
  by (induction cs arbitrary: s) (auto intro: order_trans)

lemma level_grows:
  assumes "declared_ok r" and "live st name r" and "t \<le> u" and "refill_per_second r = Fin q"
    and "0 \<le> level r t st name key"
  shows "0 \<le> level r u st name key"
proof -
  have "0 \<le> (u - t) * q" using assms(3) refill_nonneg [OF assms(1,4)] by simp
  moreover have "0 \<le> capacity r" using assms(2) by (simp add: live_def)
  ultimately show ?thesis
    using assms(4,5) unfolding level_def top_up_def by (auto simp: algebra_simps split: option.splits)
qed

lemma level_after:
  assumes "rules_ok st" and "live st name r" and "refill_per_second r = Fin q"
    and a: "allow bound now n k st = (res, st')"
  shows "level r now st' name key =
    level r now st name key - of_nat (if n = name \<and> k = key \<and> passed res then 1 else 0)"
proof (cases "n = name \<and> k = key")
  case True
  let ?left = "level r now st name key - (if passed res then 1 else 0)"
  have "?left \<le> of_int (capacity r)"
    using top_up_le [of r now "bget (lm_buckets st) (name, key)"] unfolding level_def by simp
  with True show ?thesis
    using allow_level [OF assms(1,2) order_refl a, of key] top_up_now [OF assms(3), of ?left now]
    by (cases "passed res") simp_all
next
  case False
  then show ?thesis using allow_level [OF assms(1,2) order_refl a, of key] by auto
qed

lemma level_stays:
  assumes "rules_ok st" and "live st name r" and "refill_per_second r = Fin q"
    and "allow bound now n k st = (res, st')" and "0 \<le> level r now st name key"
  shows "0 \<le> level r now st' name key"
  using level_after [OF assms(1-4), of key] allow_live [OF _ assms(4)] assms(2,5) by (auto split: if_splits)

lemma run_level:
  assumes q: "refill_per_second r = Fin q" and dec: "declared_ok r"
  shows "rules_ok st \<Longrightarrow> live st name r \<Longrightarrow> timely t cs e \<Longrightarrow> 0 \<le> level r t st name key \<Longrightarrow>
     rules_ok (snd (rl_run bound cs st)) \<and> live (snd (rl_run bound cs st)) name r \<and>
     0 \<le> level r e (snd (rl_run bound cs st)) name key"
proof (induction cs arbitrary: st t)
  case Nil
  then show ?case using level_grows [OF dec _ _ q] by simp
next
  case (Cons c cs)
  obtain now n k where c: "c = (now, n, k)" by (cases c)
  obtain res st' where a: "allow bound now n k st = (res, st')" by fastforce
  have t: "t \<le> now" "timely now cs e" using Cons.prems(3) c by auto
  have "0 \<le> level r now st' name key"
    by (rule level_stays [OF Cons.prems(1,2) q a level_grows [OF dec Cons.prems(2) t(1) q Cons.prems(4)]])
  then show ?case
    using Cons.IH [of st' now] t(2) allow_kept [OF a] Cons.prems(1,2) by (simp add: c a live_def split_beta)
qed

lemma passed_count_level:
  assumes q: "refill_per_second r = Fin q" and dec: "declared_ok r"
  shows "rules_ok st \<Longrightarrow> live st name r \<Longrightarrow> timely t cs e \<Longrightarrow> 0 \<le> level r t st name key \<Longrightarrow>
     of_nat (passed_count name key cs (fst (rl_run bound cs st))) \<le> level r t st name key + (e - t) * q"
proof (induction cs arbitrary: st t)
  case Nil
  then show ?case using refill_nonneg [OF dec q] by simp
next
  case (Cons c cs)
  obtain now n k where c: "c = (now, n, k)" by (cases c)
  obtain res st' where a: "allow bound now n k st = (res, st')" by fastforce
  have t: "t \<le> now" "timely now cs e" using Cons.prems(3) c by auto
  have live': "live st' name r" using Cons.prems(2) allow_kept [OF a] by (simp add: live_def)
  have ok': "rules_ok st'" using allow_kept(3) [OF a] Cons.prems(1) by blast
  have up: "level r now st name key \<le> level r t st name key + (now - t) * q"
    unfolding level_def by (rule top_up_later [OF dec t(1) q])
  have "0 \<le> level r now st' name key"
    by (rule level_stays [OF Cons.prems(1,2) q a level_grows [OF dec Cons.prems(2) t(1) q Cons.prems(4)]])
  then have "of_nat (passed_count name key cs (fst (rl_run bound cs st'))) \<le>
      level r now st' name key + (e - now) * q"
    by (intro Cons.IH ok' live' t(2))
  moreover have "fst (rl_run bound (c # cs) st) = res # fst (rl_run bound cs st')"
    by (simp add: c a split_beta)
  moreover have "(now - t) * q + (e - now) * q = (e - t) * q" by (simp add: algebra_simps)
  ultimately show ?case using up level_after [OF Cons.prems(1,2) q a, of key] by (simp add: c)
qed

subsection \<open>Pruning\<close>

definition same_answers :: "rat \<Rightarrow> limiter \<Rightarrow> limiter \<Rightarrow> bool" where
  "same_answers t st st' \<longleftrightarrow>
     lm_rules st = lm_rules st' \<and> lm_enabled st = lm_enabled st'
   \<and> (\<forall>name key r u. live st name r \<longrightarrow> t \<le> u \<longrightarrow> level r u st name key = level r u st' name key)"

lemma same_answersD:
  "same_answers t st st' \<Longrightarrow> live st name r \<Longrightarrow> t \<le> u \<Longrightarrow>
     level r u st name key = level r u st' name key"
  unfolding same_answers_def by blast

lemma allow_same:
  assumes "same_answers t st st'" "t \<le> now" "rules_ok st" "rules_ok st'"
    and a: "allow m now n k st = (res, st1)" and a': "allow m' now n k st' = (res', st1')"
  shows "res = res' \<and> same_answers now st1 st1'"
proof -
  have eq: "lm_rules st = lm_rules st'" "lm_enabled st = lm_enabled st'"
    using assms(1) by (auto simp: same_answers_def)
  have live_eq: "live st name r \<longleftrightarrow> live st' name r" for name r by (simp add: live_def eq)
  have res: "res = res'"
  proof (cases "\<exists>r. live st n r")
    case True
    then obtain r where r: "live st n r" ..
    have "top_up r now (bget (lm_buckets st) (n, k)) = top_up r now (bget (lm_buckets st') (n, k))"
      using same_answersD [OF assms(1) r assms(2)] unfolding level_def .
    then show ?thesis using a a' r by (auto simp: allow_def live_def eq Let_def split: if_splits)
  next
    case False
    then show ?thesis using a a'
      by (auto simp: allow_def live_def eq split: if_splits option.splits)
  qed
  have "level r u st1 name key = level r u st1' name key" if "live st1 name r" "now \<le> u" for name key r u
  proof -
    from that(1) have r: "live st name r" using allow_kept [OF a] by (simp add: live_def)
    have now: "level r now st name key = level r now st' name key"
      and u: "level r u st name key = level r u st' name key"
      using same_answersD [OF assms(1) r] assms(2) that(2) by auto
    show ?thesis
      using allow_level [OF assms(3) r that(2) a, of key]
        allow_level [OF assms(4) r [unfolded live_eq] that(2) a', of key] res now u
      by simp
  qed
  then show ?thesis using res allow_kept [OF a] allow_kept [OF a'] eq by (simp add: same_answers_def)
qed

lemma rl_run_same:
  "same_answers t st st' \<Longrightarrow> rules_ok st \<Longrightarrow> rules_ok st' \<Longrightarrow> timely t cs e \<Longrightarrow>
     fst (rl_run m cs st) = fst (rl_run m' cs st')"
proof (induction cs arbitrary: t st st')
  case (Cons c cs)
  obtain now n k where c: "c = (now, n, k)" by (cases c)
  obtain res st1 where a: "allow m now n k st = (res, st1)" by fastforce
  obtain res' st1' where a': "allow m' now n k st' = (res', st1')" by fastforce
  have "t \<le> now" "timely now cs e" using Cons.prems(4) by (auto simp: c)
  then have "res = res'" "same_answers now st1 st1'"
    using allow_same [OF Cons.prems(1) _ Cons.prems(2,3) a a'] by auto
  moreover have "rules_ok st1" "rules_ok st1'"
    using allow_kept(3) [OF a] allow_kept(3) [OF a'] Cons.prems(2,3) by auto
  ultimately show ?case
    using Cons.IH [of now st1 st1'] \<open>timely now cs e\<close> by (simp add: c a a' split_beta)
qed simp

subsection \<open>Properties\<close>

definition login_rule :: rule where
  "login_rule = \<lparr>r_name = ''login'', r_limit = 2, r_window = Fin 60, r_burst = None\<rparr>"

definition login_limiter :: limiter where
  "login_limiter = boot\<lparr>lm_rules := [(''login'', login_rule)]\<rparr>"

definition login_calls :: "rl_call list" where
  "login_calls = [(0, ''login'', ''ip1''), (1, ''login'', ''ip1''), (2, ''login'', ''ip2''), (3, ''login'', ''ip1'')]"

lemma login_ok: "rules_ok login_limiter" "live login_limiter ''login'' login_rule"
  "refill_per_second login_rule = Fin (1 / 30)" "declared_ok login_rule"
  by (simp_all add: rules_ok_def login_limiter_def login_rule_def boot_def declared_ok_def flt_le_0_def
      live_def capacity_def refill_per_second_def)

text \<open>
  C14: The rate bound, over any span of any run from a limiter with empty buckets: whatever calls
  came \<open>before\<close> the span, on whatever keys, and whatever is pruned, of the calls on one rule and key
  within the span at most the capacity plus what the span refills can pass.
\<close>

theorem calls_passed_bounded:
  assumes "rules_ok st" and "lm_buckets st = []" and "live st name r" and "r_window r = Fin w"
    and "timely boot_time before start" and "timely start calls stop"
  shows "of_nat (passed_count name key calls (fst (rl_run bound calls (snd (rl_run bound before st)))))
    \<le> of_int (case r_burst r of None \<Rightarrow> r_limit r | Some b \<Rightarrow> b) +
      (stop - start) * (of_int (r_limit r) / w)"
proof -
  let ?q = "of_int (r_limit r) / w" and ?st = "snd (rl_run bound before st)"
  have dec: "declared_ok r" by (rule live_declared [OF assms(1,3)])
  have q: "refill_per_second r = Fin ?q" using assms(4) by (simp add: refill_per_second_def)
  have "level r boot_time st name key = of_int (capacity r)"
    using assms(2) by (simp add: level_def top_up_def)
  moreover have "0 < capacity r" using assms(3) by (simp add: live_def)
  ultimately have "rules_ok ?st" "live ?st name r" "0 \<le> level r start ?st name key"
    using run_level [OF q dec assms(1,3,5), of key bound] by simp_all
  from passed_count_level [OF q dec this(1,2) assms(6) this(3), of bound]
    top_up_le [of r start "bget (lm_buckets ?st) (name, key)"]
  have "of_nat (passed_count name key calls (fst (rl_run bound calls ?st)))
      \<le> of_int (capacity r) + (stop - start) * ?q"
    unfolding level_def by linarith
  then show ?thesis by (simp add: capacity_def split: option.splits)
qed

definition late_calls :: "rl_call list" where
  "late_calls = [(1000, ''login'', ''ip1''), (1000, ''login'', ''ip1''), (1001, ''login'', ''ip1'')]"

theorem calls_passed_bounded_witness:
  "passed_count ''login'' ''ip1'' late_calls
       (fst (rl_run max_buckets late_calls (snd (rl_run max_buckets login_calls login_limiter)))) = 2 \<and>
   of_nat (passed_count ''login'' ''ip1'' late_calls
       (fst (rl_run max_buckets late_calls (snd (rl_run max_buckets login_calls login_limiter)))))
     \<le> of_int 2 + (1002 - 999) * (of_int (r_limit login_rule) / (60 :: rat))"
proof
  show "passed_count ''login'' ''ip1'' late_calls
       (fst (rl_run max_buckets late_calls (snd (rl_run max_buckets login_calls login_limiter)))) = 2"
    by (simp add: late_calls_def login_calls_def login_limiter_def boot_def login_rule_def allow_def
        top_up_def prune_def max_buckets_def capacity_def refill_per_second_def retry_after_def)
  show "of_nat (passed_count ''login'' ''ip1'' late_calls
       (fst (rl_run max_buckets late_calls (snd (rl_run max_buckets login_calls login_limiter)))))
     \<le> of_int 2 + (1002 - 999) * (of_int (r_limit login_rule) / (60 :: rat))"
  proof -
    have "r_limit login_rule = 2" "r_burst login_rule = None" by (simp_all add: login_rule_def)
    moreover have "lm_buckets login_limiter = []" by (simp add: login_limiter_def boot_def)
    moreover have "r_window login_rule = Fin 60" by (simp add: login_rule_def)
    moreover have "timely 0 login_calls 999" "timely 999 late_calls 1002"
      by (simp_all add: login_calls_def late_calls_def)
    ultimately show ?thesis
      using calls_passed_bounded [OF login_ok(1) _ login_ok(2), of 60 0 login_calls 999 late_calls 1002 "''ip1''"
          max_buckets] by simp
  qed
qed

text \<open>
  C28: Pruning is unobservable: with any two bounds on the number of buckets the same calls get the
  same answers, refused ones with the same time to wait.
\<close>

theorem pruning_unobservable:
  assumes "rules_ok st" and "timely start calls stop"
  shows "fst (rl_run bound calls st) = fst (rl_run bound' calls st)"
  using rl_run_same [of start st st calls stop bound bound'] assms by (simp add: same_answers_def)

theorem pruning_unobservable_witness:
  "fst (rl_run 0 login_calls login_limiter) = fst (rl_run max_buckets login_calls login_limiter)"
  by (rule pruning_unobservable [OF login_ok(1), of 0 _ 10]) (simp add: login_calls_def)

text \<open>
  \<open>Retry-After\<close> is honest: after a refusal that names a time, with no other call on the key,
  the next call passes exactly when that time is over.
\<close>

theorem retry_after_honest:
  assumes "rules_ok st" and "live st name r" and "r_window r = Fin w"
    and "allow bound now name key st = (Inr (False, Fin d), st')" and "now \<le> t"
  shows "passed (fst (allow bound' t name key st')) \<longleftrightarrow> now + d \<le> t"
proof -
  note a = assms(4)
  have "0 < w" using live_declared [OF assms(1,2)] assms(3)
    by (simp add: declared_ok_def flt_le_0_def)
  define q where "q = of_int (r_limit r) / w"
  have q: "refill_per_second r = Fin q" "0 < q"
    using assms(2,3) \<open>0 < w\<close> by (simp_all add: refill_per_second_def q_def live_def)
  have d: "d = (1 - level r now st name key) / q"
    using a assms(2) q by (auto simp: allow_def live_def level_def Let_def retry_after_def split: if_splits)
  have "1 \<le> capacity r" using assms(2) by (simp add: live_def)
  then have cap: "(1 :: rat) \<le> of_int (capacity r)" by simp
  have live': "live st' name r" using allow_kept [OF a] assms(2) by (simp add: live_def)
  obtain res st'' where a': "allow bound' t name key st' = (res, st'')" by fastforce
  have "passed res \<longleftrightarrow> 1 \<le> level r t st' name key" by (rule allow_live [OF live' a'])
  also have "level r t st' name key = min (of_int (capacity r)) (level r now st name key + (t - now) * q)"
    using allow_level [OF assms(1,2,5) a, of key] q by (simp add: top_up_def)
  also have "1 \<le> \<dots> \<longleftrightarrow> now + d \<le> t"
    using cap q(2) unfolding d by (auto simp: field_simps)
  finally show ?thesis using a' by simp
qed

theorem retry_after_honest_witness:
  "passed (fst (allow max_buckets 30 ''login'' ''ip1'' (snd (rl_run max_buckets login_calls login_limiter))))"
proof -
  define st where "st = snd (rl_run max_buckets (take 3 login_calls) login_limiter)"
  have b: "lm_buckets st = [((''login'', ''ip1''), (31 / 30 - 1, 1)), ((''login'', ''ip2''), (1, 2))]"
    "lm_rules st = lm_rules login_limiter" "lm_enabled st"
    by (simp_all add: st_def login_calls_def login_limiter_def boot_def login_rule_def allow_def top_up_def
        prune_def max_buckets_def capacity_def refill_per_second_def)
  have ok: "rules_ok st" "live st ''login'' login_rule"
    using login_ok b by (simp_all add: rules_ok_def live_def)
  have a: "allow max_buckets 3 ''login'' ''ip1'' st =
      (Inr (False, Fin 27), snd (rl_run max_buckets login_calls login_limiter))"
    by (simp add: st_def login_calls_def login_limiter_def boot_def login_rule_def allow_def top_up_def
        prune_def max_buckets_def capacity_def refill_per_second_def retry_after_def)
  have "passed (fst (allow max_buckets 30 ''login'' ''ip1'' (snd (rl_run max_buckets login_calls login_limiter))))
      \<longleftrightarrow> 3 + 27 \<le> (30 :: rat)"
    by (rule retry_after_honest [OF ok _ a]) (simp_all add: login_rule_def)
  then show ?thesis by simp
qed

text \<open>
  A window of \<open>inf\<close> seconds passes \<open>parse_overrides\<close> and \<open>declare\<close>, and the first call over the
  limit ends in a division by zero; with a window of NaN seconds no call is ever refused.
\<close>

theorem unbounded_windows_accepted:
  assumes "py_float ''inf'' = Some PInf" and "py_float ''nan'' = Some NaN"
  shows "parse_overrides py_float ''a=1/inf, b=1/nan'' = [(''a'', (1, PInf)), (''b'', (1, NaN))]
    \<and> (\<exists>st. declare_rule \<lparr>r_name = ''a'', r_limit = 1, r_window = PInf, r_burst = None\<rparr> boot = Inr st
          \<and> fst (rl_run max_buckets [(0, ''a'', key), (now, ''a'', key)] st) =
              [Inr (True, Fin 0), Inl (HostExn ''ZeroDivisionError'' ''float division by zero'')])
    \<and> (\<exists>st. declare_rule \<lparr>r_name = ''b'', r_limit = 1, r_window = NaN, r_burst = None\<rparr> boot = Inr st
          \<and> passed (fst (allow bound now ''b'' key (st\<lparr>lm_buckets := buckets\<rparr>))))"
proof (intro conjI)
  have "map py_strip (split_on CHR '','' ''a=1/inf, b=1/nan'') = [''a=1/inf'', ''b=1/nan'']"
    "py_int ''1'' = Some 1" "py_strip ''a'' = ''a''" "py_strip ''b'' = ''b''"
    by code_simp+
  with assms show "parse_overrides py_float ''a=1/inf, b=1/nan'' = [(''a'', (1, PInf)), (''b'', (1, NaN))]"
    by (simp add: parse_overrides_def parse_entry_def flt_le_0_def)
qed (simp_all add: declare_rule_def flt_le_0_def boot_def allow_def capacity_def top_up_def
    refill_per_second_def retry_after_def prune_def max_buckets_def split: option.splits)

definition two_floats :: "string \<Rightarrow> flt option" where
  "two_floats s = (if s = ''inf'' then Some PInf else if s = ''nan'' then Some NaN else None)"

theorem unbounded_windows_accepted_witness:
  "parse_overrides two_floats ''a=1/inf, b=1/nan'' = [(''a'', (1, PInf)), (''b'', (1, NaN))]"
  using unbounded_windows_accepted [of two_floats] by (simp add: two_floats_def)

end
