(* ===== verification/TenancyModel.thy ===== *)
theory TenancyModel
  imports PyValue
begin

text \<open>
  \<open>asas_tenancy\<close>: the tenant context (\<open>context.py\<close>), the session variable (\<open>guc.py\<close>), the policy
  helpers (\<open>policy.py\<close>), the pinned pool (\<open>engine.py\<close>), over a model of what PostgreSQL documents
  of the statements they send: \<open>set_config\<close>/\<open>current_setting\<close> with their transaction scope, the
  row security switches, policies with \<open>USING\<close> and \<open>WITH CHECK\<close>, and who is exempt.  Tenant ids are
  of a type \<open>'v\<close>; \<open>str\<close> of one and the SQL cast back are the record \<open>tenant_lib\<close>.  Unquoted
  identifiers are taken to be lower case already.
\<close>

record 'v tenant_lib =
  tl_str :: "'v \<Rightarrow> string"
  tl_cast :: "string \<Rightarrow> string \<Rightarrow> 'v option"   \<comment> \<open>type, text; \<open>None\<close>: invalid input syntax\<close>

subsection \<open>The context\<close>

definition tenant_context_error :: "string \<Rightarrow> py_exn" where
  "tenant_context_error m = HostExn ''TenantContextError'' m"

text \<open>The context variable holds the tenant; a token holds what was there before.\<close>

definition bind_tenant :: "'v option \<Rightarrow> 'v option \<Rightarrow> ('v option \<times> 'v option) result" where
  "bind_tenant tenant cur =
     (case tenant of
        None \<Rightarrow> Inl (tenant_context_error ''bind_tenant(None) is not a way to clear the tenant'')
      | Some t \<Rightarrow> Inr (cur, Some t))"

definition clear_tenant :: "'v option \<Rightarrow> 'v option" where
  "clear_tenant cur = None"

definition reset_tenant :: "'v option \<Rightarrow> 'v option \<Rightarrow> 'v option" where
  "reset_tenant token cur = token"

definition current_tenant_id :: "'v option \<Rightarrow> 'v result" where
  "current_tenant_id cur =
     (case cur of
        None \<Rightarrow> Inl (tenant_context_error ''No tenant bound to this context.'')
      | Some t \<Rightarrow> Inr t)"

definition maybe_tenant_id :: "'v option \<Rightarrow> 'v option" where
  "maybe_tenant_id cur = cur"

text \<open>The block is what runs inside \<open>with\<close>: its outcome, and the context it leaves.\<close>

definition tenant_scope ::
  "'v option \<Rightarrow> ('v option \<Rightarrow> 'b result \<times> 'v option) \<Rightarrow> 'v option \<Rightarrow> 'b result \<times> 'v option" where
  "tenant_scope tenant block cur =
     (case bind_tenant tenant cur of
        Inl e \<Rightarrow> (Inl e, cur)
      | Inr (token, inner) \<Rightarrow> let (r, left) = block inner in (r, reset_tenant token left))"

subsection \<open>Names\<close>

definition py_alnum :: "char \<Rightarrow> bool" where
  "py_alnum c =
     (let n = of_char c :: nat in
      (48 \<le> n \<and> n \<le> 57) \<or> (65 \<le> n \<and> n \<le> 90) \<or> (97 \<le> n \<and> n \<le> 122)
      \<or> n \<in> {170, 178, 179, 181, 185, 186, 188, 189, 190} \<or> (192 \<le> n \<and> n \<noteq> 215 \<and> n \<noteq> 247))"

definition py_isdigit :: "char \<Rightarrow> bool" where
  "py_isdigit c = (let n = of_char c :: nat in (48 \<le> n \<and> n \<le> 57) \<or> n \<in> {178, 179, 185})"

definition isalnum :: "string \<Rightarrow> bool" where
  "isalnum s = (s \<noteq> [] \<and> list_all py_alnum s)"

definition plain_name :: "string \<Rightarrow> bool" where
  "plain_name s = (s \<noteq> [] \<and> isalnum (filter (\<lambda>c. c \<noteq> CHR ''_'') s) \<and> \<not> py_isdigit (hd s))"

definition checked_identifier :: "string \<Rightarrow> string \<Rightarrow> string result" where
  "checked_identifier name what =
     (if plain_name name then Inr name
      else Inl (ValueError (''Not a usable '' @ what @ '' name for a policy: '' @ py_repr name)))"

definition ascii_letter :: "char \<Rightarrow> bool" where
  "ascii_letter c = (let n = of_char c :: nat in (65 \<le> n \<and> n \<le> 90) \<or> (97 \<le> n \<and> n \<le> 122))"

definition type_char :: "char \<Rightarrow> bool" where
  "type_char c =
     (ascii_letter c \<or> (48 \<le> (of_char c :: nat) \<and> (of_char c :: nat) \<le> 57) \<or> c = CHR ''_'' \<or> c = CHR '' '')"

definition type_name :: "string \<Rightarrow> string result" where
  "type_name name =
     (if name \<noteq> [] \<and> ascii_letter (hd name) \<and> list_all type_char name then Inr name
      else Inl (ValueError (''Not a usable SQL type for a policy cast: '' @ py_repr name)))"

definition validate_guc_name :: "string \<Rightarrow> unit result" where
  "validate_guc_name guc =
     (let parts = split_on CHR ''.'' guc in
      if length parts = 2 \<and> list_all plain_name parts then Inr ()
      else Inl (ValueError (''Not a usable GUC name: '' @ py_repr guc)))"

definition default_guc :: string where
  "default_guc = ''app.tenant_id''"

definition has_rls :: "string \<Rightarrow> bool" where
  "has_rls dialect = (dialect = ''postgresql'')"

text \<open>\<open>None\<close>: the object names no dialect, and counts as capable.\<close>

definition supports_guc :: "string option \<Rightarrow> bool" where
  "supports_guc dialect = (case dialect of None \<Rightarrow> True | Some d \<Rightarrow> d = ''postgresql'')"

subsection \<open>Connections and settings\<close>

type_synonym settings = "string \<Rightarrow> string option"

text \<open>Outside a transaction there is no \<open>cn_txn\<close>; inside, the session settings so far and the local ones.\<close>

record pg_conn =
  cn_session :: settings
  cn_txn :: "(settings \<times> settings) option"

definition fresh_conn :: pg_conn where
  "fresh_conn = \<lparr>cn_session = (\<lambda>_. None), cn_txn = None\<rparr>"

definition begin_txn :: "pg_conn \<Rightarrow> pg_conn" where
  "begin_txn c = (case cn_txn c of None \<Rightarrow> c\<lparr>cn_txn := Some (cn_session c, \<lambda>_. None)\<rparr> | Some _ \<Rightarrow> c)"

text \<open>A custom variable that was only set locally reads as the empty string afterwards.\<close>

definition leave_locals :: "settings \<Rightarrow> settings \<Rightarrow> settings" where
  "leave_locals locals ses = (\<lambda>g. if ses g = None \<and> locals g \<noteq> None then Some [] else ses g)"

definition commit_txn :: "pg_conn \<Rightarrow> pg_conn" where
  "commit_txn c =
     (case cn_txn c of
        None \<Rightarrow> c
      | Some (ses, locals) \<Rightarrow> \<lparr>cn_session = leave_locals locals ses, cn_txn = None\<rparr>)"

definition rollback_txn :: "pg_conn \<Rightarrow> pg_conn" where
  "rollback_txn c =
     (case cn_txn c of
        None \<Rightarrow> c
      | Some (ses, locals) \<Rightarrow> \<lparr>cn_session = leave_locals locals (cn_session c), cn_txn = None\<rparr>)"

definition current_setting :: "string \<Rightarrow> pg_conn \<Rightarrow> string option" where
  "current_setting g c =
     (case cn_txn c of
        None \<Rightarrow> cn_session c g
      | Some (ses, locals) \<Rightarrow> (case locals g of None \<Rightarrow> ses g | Some v \<Rightarrow> Some v))"

definition set_config :: "string \<Rightarrow> string \<Rightarrow> bool \<Rightarrow> pg_conn \<Rightarrow> pg_conn" where
  "set_config g v local c =
     (case cn_txn c of
        None \<Rightarrow> if local then c else c\<lparr>cn_session := (cn_session c)(g \<mapsto> v)\<rparr>
      | Some (ses, locals) \<Rightarrow>
          if local then c\<lparr>cn_txn := Some (ses, locals(g \<mapsto> v))\<rparr>
          else c\<lparr>cn_txn := Some (ses(g \<mapsto> v), locals(g := None))\<rparr>)"

definition set_tenant_guc ::
  "'v tenant_lib \<Rightarrow> string option \<Rightarrow> 'v \<Rightarrow> string \<Rightarrow> bool \<Rightarrow> pg_conn \<Rightarrow> pg_conn result" where
  "set_tenant_guc T dialect tenant guc local c =
     (if \<not> supports_guc dialect then Inr c
      else rbind (validate_guc_name guc) (\<lambda>_. Inr (set_config guc (tl_str T tenant) local c)))"

definition read_tenant_guc :: "string option \<Rightarrow> string \<Rightarrow> pg_conn \<Rightarrow> string option result" where
  "read_tenant_guc dialect guc c =
     (if \<not> supports_guc dialect then Inr None
      else rbind (validate_guc_name guc) (\<lambda>_.
        Inr (case current_setting guc c of None \<Rightarrow> None | Some s \<Rightarrow> if s = [] then None else Some s)))"

end
