(* ===== verification/TenancyPolicy.thy ===== *)
theory TenancyPolicy
  imports TenancyModel
begin

text \<open>
  Tables with row security and the migration helpers of \<open>policy.py\<close>, the pinned engine of
  \<open>engine.py\<close> and the checks of \<open>conformance.py\<close>.  A role is exempt from policies when it is a
  superuser, has BYPASSRLS, or owns a table that is not forced; a table with row security and no
  policy shows nothing.
\<close>

subsection \<open>Rows, policies, roles\<close>

record 'v rls_row =
  rw_key :: int
  rw_cells :: "(string \<times> 'v option) list"   \<comment> \<open>column, value or NULL\<close>

datatype policy_expr =
    Matches string string string      \<comment> \<open>column, variable, type of the cast\<close>
  | IsNullOr string policy_expr
  | Always

record pg_policy =
  pol_name :: string
  pol_using :: policy_expr
  pol_check :: policy_expr

record 'v pg_table =
  pt_columns :: "string list"
  pt_rows :: "'v rls_row list"
  pt_owner :: string
  pt_enabled :: bool
  pt_forced :: bool
  pt_policies :: "pg_policy list"

record pg_role =
  role_name :: string
  role_super :: bool
  role_bypass :: bool

type_synonym 'v pg_db = "string \<Rightarrow> 'v pg_table option"

definition cell :: "string \<Rightarrow> 'v rls_row \<Rightarrow> 'v option" where
  "cell col r = (case dget (rw_cells r) col of None \<Rightarrow> None | Some v \<Rightarrow> v)"

text \<open>
  \<open>Inr None\<close> is SQL's NULL.  \<open>NULLIF(current_setting(guc, true), '')::type\<close> raises on text the type
  does not read.
\<close>

fun eval_policy :: "'v tenant_lib \<Rightarrow> pg_conn \<Rightarrow> policy_expr \<Rightarrow> 'v rls_row \<Rightarrow> bool option result" where
  "eval_policy T c (Matches col guc ty) r =
     (case current_setting guc c of
        None \<Rightarrow> Inr None
      | Some s \<Rightarrow>
          if s = [] then Inr None
          else (case tl_cast T ty s of
                  None \<Rightarrow> Inl (HostExn ''DataError'' ''invalid input syntax'')
                | Some v \<Rightarrow> Inr (map_option (\<lambda>x. x = v) (cell col r))))"
| "eval_policy T c (IsNullOr col e) r =
     (if cell col r = None then Inr (Some True) else eval_policy T c e r)"
| "eval_policy T c Always r = Inr (Some True)"

text \<open>Permissive policies are joined by OR.\<close>

fun permitted :: "'v tenant_lib \<Rightarrow> pg_conn \<Rightarrow> policy_expr list \<Rightarrow> 'v rls_row \<Rightarrow> bool result" where
  "permitted T c [] r = Inr False"
| "permitted T c (e # es) r =
     rbind (eval_policy T c e r) (\<lambda>b.
       if b = Some True then Inr True else permitted T c es r)"

definition subject :: "pg_role \<Rightarrow> 'v pg_table \<Rightarrow> bool" where
  "subject role t \<longleftrightarrow>
     pt_enabled t \<and> \<not> role_super role \<and> \<not> role_bypass role
   \<and> (pt_forced t \<or> pt_owner t \<noteq> role_name role)"

definition row_visible :: "'v tenant_lib \<Rightarrow> pg_role \<Rightarrow> pg_conn \<Rightarrow> 'v pg_table \<Rightarrow> 'v rls_row \<Rightarrow> bool result" where
  "row_visible T role c t r =
     (if subject role t then permitted T c (map pol_using (pt_policies t)) r else Inr True)"

definition row_writable :: "'v tenant_lib \<Rightarrow> pg_role \<Rightarrow> pg_conn \<Rightarrow> 'v pg_table \<Rightarrow> 'v rls_row \<Rightarrow> bool result" where
  "row_writable T role c t r =
     (if subject role t then permitted T c (map pol_check (pt_policies t)) r else Inr True)"

subsection \<open>Statements\<close>

fun filter_r :: "('a \<Rightarrow> bool result) \<Rightarrow> 'a list \<Rightarrow> 'a list result" where
  "filter_r f [] = Inr []"
| "filter_r f (x # xs) =
     rbind (f x) (\<lambda>b. rbind (filter_r f xs) (\<lambda>ys. Inr (if b then x # ys else ys)))"

fun map_r :: "('a \<Rightarrow> 'b result) \<Rightarrow> 'a list \<Rightarrow> 'b list result" where
  "map_r f [] = Inr []"
| "map_r f (x # xs) = rbind (f x) (\<lambda>y. rbind (map_r f xs) (\<lambda>ys. Inr (y # ys)))"

definition denied :: py_exn where
  "denied = HostExn ''InsufficientPrivilege'' ''new row violates row-level security policy''"

definition sql_select ::
  "'v tenant_lib \<Rightarrow> pg_role \<Rightarrow> pg_conn \<Rightarrow> 'v pg_table \<Rightarrow> 'v rls_row list result" where
  "sql_select T role c t = filter_r (row_visible T role c t) (pt_rows t)"

definition sql_insert ::
  "'v tenant_lib \<Rightarrow> pg_role \<Rightarrow> pg_conn \<Rightarrow> 'v rls_row \<Rightarrow> 'v pg_table \<Rightarrow> 'v pg_table result" where
  "sql_insert T role c r t =
     rbind (row_writable T role c t r) (\<lambda>ok.
       if ok then Inr (t\<lparr>pt_rows := pt_rows t @ [r]\<rparr>) else Inl denied)"

definition update_row ::
  "'v tenant_lib \<Rightarrow> pg_role \<Rightarrow> pg_conn \<Rightarrow> 'v pg_table \<Rightarrow> ('v rls_row \<Rightarrow> bool) \<Rightarrow> ('v rls_row \<Rightarrow> 'v rls_row)
    \<Rightarrow> 'v rls_row \<Rightarrow> 'v rls_row result" where
  "update_row T role c t P f r =
     rbind (row_visible T role c t r) (\<lambda>seen.
       if \<not> (seen \<and> P r) then Inr r
       else rbind (row_writable T role c t (f r)) (\<lambda>ok. if ok then Inr (f r) else Inl denied))"

definition sql_update ::
  "'v tenant_lib \<Rightarrow> pg_role \<Rightarrow> pg_conn \<Rightarrow> ('v rls_row \<Rightarrow> bool) \<Rightarrow> ('v rls_row \<Rightarrow> 'v rls_row)
    \<Rightarrow> 'v pg_table \<Rightarrow> 'v pg_table result" where
  "sql_update T role c P f t =
     rbind (map_r (update_row T role c t P f) (pt_rows t)) (\<lambda>rows. Inr (t\<lparr>pt_rows := rows\<rparr>))"

definition sql_delete ::
  "'v tenant_lib \<Rightarrow> pg_role \<Rightarrow> pg_conn \<Rightarrow> ('v rls_row \<Rightarrow> bool) \<Rightarrow> 'v pg_table \<Rightarrow> 'v pg_table result" where
  "sql_delete T role c P t =
     rbind (filter_r (\<lambda>r. rbind (row_visible T role c t r) (\<lambda>seen. Inr (\<not> (seen \<and> P r)))) (pt_rows t))
       (\<lambda>rows. Inr (t\<lparr>pt_rows := rows\<rparr>))"

subsection \<open>Migration helpers\<close>

definition alter_table :: "string \<Rightarrow> ('v pg_table \<Rightarrow> 'v pg_table result) \<Rightarrow> 'v pg_db \<Rightarrow> 'v pg_db result" where
  "alter_table table f db =
     (case db table of
        None \<Rightarrow> Inl (HostExn ''ProgrammingError'' ''relation does not exist'')
      | Some t \<Rightarrow> rbind (f t) (\<lambda>t'. Inr (db(table \<mapsto> t'))))"

definition policy_name :: "string \<Rightarrow> string" where
  "policy_name table = table @ ''_tenant_isolation''"

definition tenant_policy :: "string \<Rightarrow> string \<Rightarrow> string \<Rightarrow> string \<Rightarrow> bool \<Rightarrow> pg_policy" where
  "tenant_policy table column ty guc shared =
     \<lparr>pol_name = policy_name table,
      pol_using = (if shared then IsNullOr column (Matches column guc ty) else Matches column guc ty),
      pol_check = Matches column guc ty\<rparr>"

definition create_policy :: "string \<Rightarrow> pg_policy \<Rightarrow> 'v pg_table \<Rightarrow> 'v pg_table result" where
  "create_policy column p t =
     (if column \<notin> set (pt_columns t) then Inl (HostExn ''ProgrammingError'' ''column does not exist'')
      else if pol_name p \<in> pol_name ` set (pt_policies t)
      then Inl (HostExn ''ProgrammingError'' ''policy already exists'')
      else Inr (t\<lparr>pt_policies := pt_policies t @ [p]\<rparr>))"

definition enable_rls ::
  "string \<Rightarrow> string \<Rightarrow> string \<Rightarrow> string \<Rightarrow> string \<Rightarrow> bool \<Rightarrow> 'v pg_db \<Rightarrow> 'v pg_db result" where
  "enable_rls dialect table column ty guc shared db =
     (if \<not> has_rls dialect then Inr db
      else
        rbind (checked_identifier table ''table'') (\<lambda>table.
        rbind (checked_identifier column ''column'') (\<lambda>column.
        rbind (type_name ty) (\<lambda>ty.
        rbind (validate_guc_name guc) (\<lambda>_.
        rbind (alter_table table (\<lambda>t. Inr (t\<lparr>pt_enabled := True\<rparr>)) db) (\<lambda>db.
        rbind (alter_table table (\<lambda>t. Inr (t\<lparr>pt_forced := True\<rparr>)) db) (\<lambda>db.
          alter_table table (create_policy column (tenant_policy table column ty guc shared)) db)))))))"

definition disable_rls :: "string \<Rightarrow> string \<Rightarrow> 'v pg_db \<Rightarrow> 'v pg_db result" where
  "disable_rls dialect table db =
     (if \<not> has_rls dialect then Inr db
      else
        rbind (checked_identifier table ''table'') (\<lambda>table.
        rbind (alter_table table
          (\<lambda>t. Inr (t\<lparr>pt_policies := filter (\<lambda>p. pol_name p \<noteq> policy_name table) (pt_policies t)\<rparr>)) db) (\<lambda>db.
        rbind (alter_table table (\<lambda>t. Inr (t\<lparr>pt_forced := False\<rparr>)) db) (\<lambda>db.
          alter_table table (\<lambda>t. Inr (t\<lparr>pt_enabled := False\<rparr>)) db))))"

text \<open>
  \<open>with without_force(table): block\<close>, outside a transaction that would undo everything.  Whatever
  the block raises comes through, and a failure to restore is swallowed only then.
\<close>

definition force_table :: "string \<Rightarrow> bool \<Rightarrow> 'v pg_db \<Rightarrow> 'v pg_db result" where
  "force_table table b db = alter_table table (\<lambda>t. Inr (t\<lparr>pt_forced := b\<rparr>)) db"

definition without_force ::
  "string \<Rightarrow> string \<Rightarrow> ('v pg_db \<Rightarrow> 'b result \<times> 'v pg_db) \<Rightarrow> 'v pg_db \<Rightarrow> 'b result \<times> 'v pg_db" where
  "without_force dialect table block db =
     (if \<not> has_rls dialect then block db
      else case checked_identifier table ''table'' of
        Inl e \<Rightarrow> (Inl e, db)
      | Inr table \<Rightarrow>
          (case force_table table False db of
             Inl e \<Rightarrow> (Inl e, db)
           | Inr db1 \<Rightarrow>
               (case block db1 of
                  (Inl e, db2) \<Rightarrow>
                    (Inl e, case force_table table True db2 of Inl _ \<Rightarrow> db2 | Inr db3 \<Rightarrow> db3)
                | (Inr x, db2) \<Rightarrow>
                    (case force_table table True db2 of Inl e \<Rightarrow> (Inl e, db2) | Inr db3 \<Rightarrow> (Inr x, db3)))))"

text \<open>
  \<open>add_tenant_scoped_column\<close>: the value comes from the column's definition.  Dropping the default
  is a statement SQLite does not have.
\<close>

definition add_column :: "string \<Rightarrow> 'v option \<Rightarrow> 'v pg_table \<Rightarrow> 'v pg_table result" where
  "add_column column dflt t =
     (if column \<in> set (pt_columns t) then Inl (HostExn ''ProgrammingError'' ''column already exists'')
      else Inr (t\<lparr>pt_columns := pt_columns t @ [column],
                  pt_rows := map (\<lambda>r. r\<lparr>rw_cells := rw_cells r @ [(column, dflt)]\<rparr>) (pt_rows t)\<rparr>))"

definition drop_default :: "string \<Rightarrow> unit result" where
  "drop_default dialect =
     (if dialect = ''sqlite'' then Inl (HostExn ''OperationalError'' ''near ALTER: syntax error'') else Inr ())"

definition add_tenant_scoped_column ::
  "string \<Rightarrow> string \<Rightarrow> string \<Rightarrow> 'v \<Rightarrow> bool \<Rightarrow> 'v pg_db \<Rightarrow> 'v pg_db result" where
  "add_tenant_scoped_column dialect table column dflt keep_default db =
     rbind (checked_identifier table ''table'') (\<lambda>table.
     rbind (checked_identifier column ''column'') (\<lambda>column.
     rbind (alter_table table (add_column column (Some dflt)) db) (\<lambda>db.
       if keep_default then Inr db else rbind (drop_default dialect) (\<lambda>_. Inr db))))"

end
