(* ===== verification/TenancyConformance.thy ===== *)
theory TenancyConformance
  imports TenancyPolicy
begin

text \<open>
  \<open>engine.py\<close>: connections that belong to one tenant; \<open>conformance.py\<close>: the checks a host runs
  against a live database.
\<close>

subsection \<open>The pinned engine\<close>

text \<open>What the connect hook makes of a fresh connection: pinned in a transaction that it commits.\<close>

definition pin_connection :: "'v tenant_lib \<Rightarrow> 'v \<Rightarrow> string \<Rightarrow> pg_conn" where
  "pin_connection T tenant guc =
     commit_txn (set_config guc (tl_str T tenant) False (begin_txn fresh_conn))"

definition pin_engine :: "'v tenant_lib \<Rightarrow> string option \<Rightarrow> 'v \<Rightarrow> string \<Rightarrow> pg_conn result" where
  "pin_engine T dialect tenant guc =
     (if \<not> supports_guc dialect then Inr fresh_conn
      else rbind (validate_guc_name guc) (\<lambda>_. Inr (pin_connection T tenant guc)))"

datatype conn_op = OpBegin | OpCommit | OpRollback | OpSet string string bool

fun conn_step :: "conn_op \<Rightarrow> pg_conn \<Rightarrow> pg_conn" where
  "conn_step OpBegin c = begin_txn c"
| "conn_step OpCommit c = commit_txn c"
| "conn_step OpRollback c = rollback_txn c"
| "conn_step (OpSet g v local) c = set_config g v local c"

text \<open>A pool: a checkout reuses the connection last returned, or opens one; a return rolls back.\<close>

definition checkout :: "pg_conn \<Rightarrow> pg_conn list \<Rightarrow> pg_conn \<times> pg_conn list" where
  "checkout opened pool = (case pool of [] \<Rightarrow> (opened, []) | c # cs \<Rightarrow> (c, cs))"

definition checkin :: "pg_conn \<Rightarrow> pg_conn list \<Rightarrow> pg_conn list" where
  "checkin c pool = rollback_txn c # pool"

text \<open>Each unit of work is the operations it runs on the connection it is handed.\<close>

fun pool_run :: "pg_conn \<Rightarrow> conn_op list list \<Rightarrow> pg_conn list \<Rightarrow> pg_conn list \<times> pg_conn list" where
  "pool_run opened [] pool = ([], pool)"
| "pool_run opened (w # ws) pool =
     (let (c, rest) = checkout opened pool;
          (seen, left) = pool_run opened ws (checkin (fold conn_step w c) rest)
      in (c # seen, left))"

text \<open>
  The block of \<open>tenant_engine\<close>: a fresh pool of connections opened by the pinned engine, and the
  connections as the units of work are handed them, one unit after the other.  The pool is local to
  the block (\<open>engine.dispose()\<close> closes it at the end), so nothing of it is returned.
\<close>

definition tenant_engine ::
  "'v tenant_lib \<Rightarrow> string option \<Rightarrow> 'v \<Rightarrow> string \<Rightarrow> conn_op list list \<Rightarrow> pg_conn list result" where
  "tenant_engine T dialect tenant guc work =
     rbind (pin_engine T dialect tenant guc) (\<lambda>opened. Inr (fst (pool_run opened work [])))"

subsection \<open>Conformance\<close>

definition off_words :: "string list" where
  "off_words = ['''', ''0'', ''false'', ''no'']"

definition ascii_lower :: "char \<Rightarrow> char" where
  "ascii_lower c =
     (let n = of_char c :: nat in
      if (65 \<le> n \<and> n \<le> 90) \<or> (192 \<le> n \<and> n \<le> 222 \<and> n \<noteq> 215) then char_of (n + 32) else c)"

definition is_required :: "string option \<Rightarrow> bool" where
  "is_required env =
     (map ascii_lower (py_strip (case env of None \<Rightarrow> [] | Some v \<Rightarrow> v)) \<notin> set off_words)"

record 'v tn_engine =
  en_dialect :: string
  en_role :: pg_role
  en_db :: "'v pg_db"

record enforcement =
  ef_dialect :: string
  ef_role :: "string option"
  ef_super :: bool
  ef_bypass :: bool

definition supported :: "enforcement \<Rightarrow> bool" where
  "supported e = has_rls (ef_dialect e)"

definition enforced :: "enforcement \<Rightarrow> bool" where
  "enforced e = (supported e \<and> \<not> ef_super e \<and> \<not> ef_bypass e)"

definition enforcement_status :: "'v tn_engine \<Rightarrow> enforcement" where
  "enforcement_status en =
     (if \<not> has_rls (en_dialect en)
      then \<lparr>ef_dialect = en_dialect en, ef_role = None, ef_super = False, ef_bypass = False\<rparr>
      else \<lparr>ef_dialect = en_dialect en, ef_role = Some (role_name (en_role en)),
            ef_super = role_super (en_role en), ef_bypass = role_bypass (en_role en)\<rparr>)"

definition role_text :: "enforcement \<Rightarrow> string" where
  "role_text e = (case ef_role e of None \<Rightarrow> ''None'' | Some r \<Rightarrow> r)"

definition unenforced_reason :: "'v tn_engine \<Rightarrow> string option" where
  "unenforced_reason en =
     (let st = enforcement_status en in
      if \<not> supported st then Some (ef_dialect st @ '' has no row-level security'')
      else if ef_super st then Some (''the connected role '' @ py_repr (role_text st) @ '' is a SUPERUSER'')
      else if ef_bypass st then Some (''the connected role '' @ py_repr (role_text st) @ '' has BYPASSRLS'')
      else None)"

definition require_enforced :: "'v tn_engine \<Rightarrow> unit result" where
  "require_enforced en =
     (case unenforced_reason en of
        None \<Rightarrow> Inr ()
      | Some r \<Rightarrow> Inl (RuntimeErrorExn (''Tenant isolation is not enforced here: '' @ r)))"

record table_protection =
  tp_table :: string
  tp_exists :: bool
  tp_enabled :: bool
  tp_forced :: bool
  tp_policies :: "string list"

definition protected :: "table_protection \<Rightarrow> bool" where
  "protected p = (tp_exists p \<and> tp_enabled p \<and> tp_forced p \<and> tp_policies p \<noteq> [])"

definition complaint :: "table_protection \<Rightarrow> string list option" where
  "complaint p =
     (if \<not> tp_exists p then Some [''no such table'']
      else
        let missing =
          (if tp_enabled p then [] else [''RLS not enabled'']) @
          (if tp_forced p then [] else [''RLS enabled but NOT FORCED (the table owner is exempt)'']) @
          (if tp_policies p \<noteq> [] then [] else [''no policy (RLS with no policy denies everything)''])
        in if missing = [] then None else Some missing)"

definition table_protection_of :: "'v tn_engine \<Rightarrow> string \<Rightarrow> table_protection" where
  "table_protection_of en t =
     (case (if has_rls (en_dialect en) then en_db en t else None) of
        None \<Rightarrow> \<lparr>tp_table = t, tp_exists = False, tp_enabled = False, tp_forced = False, tp_policies = []\<rparr>
      | Some tb \<Rightarrow> \<lparr>tp_table = t, tp_exists = True, tp_enabled = pt_enabled tb, tp_forced = pt_forced tb,
                    tp_policies = map pol_name (pt_policies tb)\<rparr>)"

definition protection_report :: "'v tn_engine \<Rightarrow> string list \<Rightarrow> table_protection list" where
  "protection_report en tables = map (table_protection_of en) tables"

definition assertion_error :: "string \<Rightarrow> py_exn" where
  "assertion_error m = HostExn ''AssertionError'' m"

definition assert_tables_protected :: "'v tn_engine \<Rightarrow> string list \<Rightarrow> unit result" where
  "assert_tables_protected en tables =
     rbind (require_enforced en) (\<lambda>_.
       if list_all (\<lambda>p. complaint p = None) (protection_report en tables) then Inr ()
       else Inl (assertion_error ''Tables are not protected by tenant isolation''))"

text \<open>A SELECT inside a transaction on a connection that carries nothing else.\<close>

definition select_table ::
  "'v tenant_lib \<Rightarrow> 'v tn_engine \<Rightarrow> string \<Rightarrow> pg_conn \<Rightarrow> 'v rls_row list result" where
  "select_table T en table c =
     (case en_db en table of
        None \<Rightarrow> Inl (HostExn ''ProgrammingError'' ''relation does not exist'')
      | Some t \<Rightarrow> sql_select T (en_role en) c t)"

definition visible_keys ::
  "'v tenant_lib \<Rightarrow> 'v tn_engine \<Rightarrow> string \<Rightarrow> 'v \<Rightarrow> string \<Rightarrow> string \<Rightarrow> int set result" where
  "visible_keys T en table tenant key guc =
     rbind (set_tenant_guc T (Some (en_dialect en)) tenant guc True (begin_txn fresh_conn)) (\<lambda>c.
     rbind (checked_identifier key ''column'') (\<lambda>_.
     rbind (checked_identifier table ''table'') (\<lambda>table.
     rbind (select_table T en table c) (\<lambda>rows. Inr (rw_key ` set rows)))))"

definition assert_isolated ::
  "'v tenant_lib \<Rightarrow> 'v tn_engine \<Rightarrow> string \<Rightarrow> 'v \<Rightarrow> 'v \<Rightarrow> string \<Rightarrow> string \<Rightarrow> unit result" where
  "assert_isolated T en table tenant_a tenant_b key guc =
     rbind (require_enforced en) (\<lambda>_.
     rbind (visible_keys T en table tenant_a key guc) (\<lambda>a.
     rbind (visible_keys T en table tenant_b key guc) (\<lambda>b.
       if a = {} \<and> b = {} then Inl (assertion_error ''Vacuous isolation check'')
       else if a \<inter> b \<noteq> {} then Inl (assertion_error ''Tenant isolation is broken'')
       else Inr ())))"

definition assert_unpinned_sees_nothing :: "'v tenant_lib \<Rightarrow> 'v tn_engine \<Rightarrow> string \<Rightarrow> unit result" where
  "assert_unpinned_sees_nothing T en table =
     rbind (require_enforced en) (\<lambda>_.
     rbind (checked_identifier table ''table'') (\<lambda>table.
     rbind (select_table T en table (begin_txn fresh_conn)) (\<lambda>rows.
       if rows \<noteq> [] then Inl (assertion_error ''rows with no tenant pinned'') else Inr ())))"

end
