(* ===== verification/TenancyProps.thy ===== *)
theory TenancyProps
  imports TenancyConformance
begin

text \<open>
  What the policy \<open>enable_rls\<close> writes gives a connection with a tenant, one without, and what it does
  not give; the pinned pool; the helpers that lift protection; the conformance checks.
\<close>

subsection \<open>The table after \<open>enable_rls\<close>\<close>

lemma filter_r_Inr: "(\<And>x. x \<in> set xs \<Longrightarrow> f x = Inr (P x)) \<Longrightarrow> filter_r f xs = Inr (filter P xs)"
  by (induction xs) auto

lemma map_r_Inr: "(\<And>x. x \<in> set xs \<Longrightarrow> f x = Inr (g x)) \<Longrightarrow> map_r f xs = Inr (map g xs)"
  by (induction xs) auto

lemma map_r_list_all2: "map_r f xs = Inr ys \<Longrightarrow> list_all2 (\<lambda>x y. f x = Inr y) xs ys"
  by (induction xs arbitrary: ys) (auto elim!: rbind_InrE)

definition rls_table :: "string \<Rightarrow> string \<Rightarrow> string \<Rightarrow> string \<Rightarrow> bool \<Rightarrow> 'v pg_table \<Rightarrow> 'v pg_table" where
  "rls_table table column ty guc shared t =
     t\<lparr>pt_enabled := True, pt_forced := True,
       pt_policies := pt_policies t @ [tenant_policy table column ty guc shared]\<rparr>"

lemma enable_rls_Inr:
  assumes "enable_rls ''postgresql'' table column ty guc shared db = Inr db'"
  shows "\<exists>t. db table = Some t \<and> db' = db(table \<mapsto> rls_table table column ty guc shared t)"
  using assms
  by (auto simp: enable_rls_def has_rls_def checked_identifier_def type_name_def alter_table_def
      create_policy_def rls_table_def elim!: rbind_InrE split: option.splits if_splits)

text \<open>What a connection reads: \<open>Some v\<close> when it is pinned to \<open>v\<close>, \<open>None\<close> when it is pinned to nobody.\<close>

definition pinned :: "'v tenant_lib \<Rightarrow> string \<Rightarrow> string \<Rightarrow> pg_conn \<Rightarrow> 'v option \<Rightarrow> bool" where
  "pinned T guc ty c who =
     (case who of
        None \<Rightarrow> current_setting guc c = None \<or> current_setting guc c = Some []
      | Some v \<Rightarrow> current_setting guc c = Some (tl_str T v) \<and> tl_str T v \<noteq> []
                  \<and> tl_cast T ty (tl_str T v) = Some v)"

definition may_read :: "bool \<Rightarrow> string \<Rightarrow> 'v option \<Rightarrow> 'v rls_row \<Rightarrow> bool" where
  "may_read shared column who r \<longleftrightarrow>
     (case cell column r of None \<Rightarrow> shared | Some v \<Rightarrow> who = Some v)"

definition may_write :: "string \<Rightarrow> 'v option \<Rightarrow> 'v rls_row \<Rightarrow> bool" where
  "may_write column who r \<longleftrightarrow> cell column r \<noteq> None \<and> cell column r = who"

lemma permitted_policy:
  assumes "pinned T guc ty c who"
  shows "permitted T c [Matches column guc ty] r = Inr (may_write column who r)"
    and "permitted T c [IsNullOr column (Matches column guc ty)] r = Inr (may_read True column who r)"
  using assms unfolding pinned_def may_read_def may_write_def
  by (cases who; cases "cell column r"; auto split: option.splits)+

lemma may_read_private: "may_read False column who r = may_write column who r"
  by (auto simp: may_read_def may_write_def split: option.splits)

lemma may_read_nobody: "may_read shared column None r \<longleftrightarrow> shared \<and> cell column r = None"
  by (auto simp: may_read_def split: option.splits)

definition ordinary :: "pg_role \<Rightarrow> bool" where
  "ordinary role \<longleftrightarrow> \<not> role_super role \<and> \<not> role_bypass role"

lemma rls_row_access:
  assumes "pinned T guc ty c who" "ordinary role" "pt_policies t = []"
  shows "row_visible T role c (rls_table table column ty guc shared t) r = Inr (may_read shared column who r)"
    and "row_writable T role c (rls_table table column ty guc shared t) r = Inr (may_write column who r)"
  using assms permitted_policy [OF assms(1)]
  by (auto simp: row_visible_def row_writable_def rls_table_def subject_def ordinary_def tenant_policy_def
      may_read_private)

lemma rls_table_rows [simp]: "pt_rows (rls_table table column ty guc shared t) = pt_rows t"
  by (simp add: rls_table_def)

lemma rls_select:
  assumes "pinned T guc ty c who" "ordinary role" "pt_policies t = []"
  shows "sql_select T role c (rls_table table column ty guc shared t) =
    Inr (filter (may_read shared column who) (pt_rows t))"
  unfolding sql_select_def by (simp add: filter_r_Inr rls_row_access [OF assms])

lemma rls_insert:
  assumes "pinned T guc ty c who" "ordinary role" "pt_policies t = []"
  shows "sql_insert T role c r (rls_table table column ty guc shared t) =
    (if may_write column who r
     then Inr ((rls_table table column ty guc shared t)\<lparr>pt_rows := pt_rows t @ [r]\<rparr>) else Inl denied)"
  unfolding sql_insert_def by (simp add: rls_row_access [OF assms])

lemma rls_delete:
  assumes "pinned T guc ty c who" "ordinary role" "pt_policies t = []"
  shows "sql_delete T role c P (rls_table table column ty guc shared t) =
    Inr ((rls_table table column ty guc shared t)
           \<lparr>pt_rows := filter (\<lambda>r. \<not> (may_read shared column who r \<and> P r)) (pt_rows t)\<rparr>)"
  unfolding sql_delete_def
  by (simp add: filter_r_Inr [where P = "\<lambda>r. \<not> (may_read shared column who r \<and> P r)"] rls_row_access [OF assms])

lemma rls_update:
  assumes "pinned T guc ty c who" "ordinary role" "pt_policies t = []"
    and "sql_update T role c P f (rls_table table column ty guc shared t) = Inr t'"
  shows "list_all2 (\<lambda>r r'. if may_read shared column who r \<and> P r then r' = f r \<and> may_write column who (f r)
                            else r' = r) (pt_rows t) (pt_rows t')"
proof -
  from assms(4) obtain rows where
    "map_r (update_row T role c (rls_table table column ty guc shared t) P f) (pt_rows t) = Inr rows"
    "pt_rows t' = rows"
    by (auto simp: sql_update_def elim!: rbind_InrE)
  then show ?thesis
    by (auto dest!: map_r_list_all2 elim!: list_all2_mono
        simp: update_row_def rls_row_access [OF assms(1-3)] split: if_splits)
qed

subsection \<open>Isolation\<close>

lemma foreign_rows_kept:
  "list_all2 (\<lambda>r r'. r' = r \<or> \<not> Q r \<and> \<not> Q r') xs ys \<Longrightarrow> filter Q ys = filter Q xs"
  by (induction rule: list_all2_induct) auto

definition demo_tenants :: "int tenant_lib" where
  "demo_tenants = \<lparr>tl_str = (\<lambda>v. if v = 7 then ''7'' else ''8''),
     tl_cast = (\<lambda>ty s. if s = ''7'' then Some 7 else if s = ''8'' then Some 8 else None)\<rparr>"

definition invoices :: "int pg_table" where
  "invoices = \<lparr>pt_columns = [''id'', ''org_id''],
     pt_rows = [\<lparr>rw_key = 1, rw_cells = [(''org_id'', Some 7)]\<rparr>, \<lparr>rw_key = 2, rw_cells = [(''org_id'', Some 8)]\<rparr>,
                \<lparr>rw_key = 3, rw_cells = [(''org_id'', None)]\<rparr>],
     pt_owner = ''app'', pt_enabled = False, pt_forced = False, pt_policies = []\<rparr>"

definition demo_db :: "int pg_db" where
  "demo_db = [''invoice'' \<mapsto> invoices]"

definition app_role :: pg_role where
  "app_role = \<lparr>role_name = ''app'', role_super = False, role_bypass = False\<rparr>"

definition request_conn :: pg_conn where
  "request_conn = set_config default_guc ''7'' True (begin_txn fresh_conn)"

lemma demo_names:
  "plain_name ''invoice''" "plain_name ''org_id''" "type_name ''bigint'' = Inr ''bigint''"
  "validate_guc_name default_guc = Inr ()" "plain_name ''id''"
  by code_simp+

lemma demo_enable:
  "enable_rls ''postgresql'' ''invoice'' ''org_id'' ''bigint'' default_guc shared demo_db =
     Inr (demo_db(''invoice'' \<mapsto> rls_table ''invoice'' ''org_id'' ''bigint'' default_guc shared invoices))"
  using demo_names
  by (simp add: enable_rls_def has_rls_def checked_identifier_def alter_table_def demo_db_def
      create_policy_def rls_table_def invoices_def)

lemma demo_access: "pt_policies invoices = []" "ordinary app_role"
    "pinned demo_tenants default_guc ''bigint'' request_conn (Some 7)"
  by (simp_all add: invoices_def ordinary_def app_role_def pinned_def demo_tenants_def request_conn_def
      set_config_def begin_txn_def fresh_conn_def current_setting_def)

text \<open>
  C3: Tenant isolation: on a table that had no other policy and is protected by \<open>enable_rls\<close>, a
  connection of an ordinary role (neither superuser nor exempt), the table's owner included, that
  is pinned to a tenant reads exactly that tenant's rows, with the ownerless rows beside them when
  they are declared shared, and one pinned to nobody reads none but those; and whatever INSERT,
  UPDATE or DELETE goes through leaves every row of another tenant as it was and makes none that
  belongs to one.  Without shared rows the same holds of the rows that belong to nobody.
\<close>

theorem tenant_isolation:
  assumes "enable_rls ''postgresql'' table column ty guc shared db = Inr db'"
    and "db table = Some t" and "pt_policies t = []" and "db' table = Some t'"
    and "ordinary role" and "pinned T guc ty c who"
  shows "sql_select T role c t' =
      Inr (filter (\<lambda>x. case cell column x of None \<Rightarrow> shared | Some v \<Rightarrow> who = Some v) (pt_rows t))
    \<and> (\<forall>t2. sql_insert T role c r t' = Inr t2 \<or> sql_update T role c P f t' = Inr t2
               \<or> sql_delete T role c P t' = Inr t2 \<longrightarrow>
          filter (\<lambda>x. cell column x \<noteq> None \<and> cell column x \<noteq> who) (pt_rows t2) =
            filter (\<lambda>x. cell column x \<noteq> None \<and> cell column x \<noteq> who) (pt_rows t) \<and>
          (\<not> shared \<longrightarrow> filter (\<lambda>x. cell column x = None) (pt_rows t2) =
            filter (\<lambda>x. cell column x = None) (pt_rows t)))"
proof -
  let ?foreign = "\<lambda>x. cell column x \<noteq> None \<and> cell column x \<noteq> who" and ?nobody = "\<lambda>x. cell column x = None"
  have t': "t' = rls_table table column ty guc shared t"
    using enable_rls_Inr [OF assms(1)] assms(2,4) by auto
  note access = assms(6,5,3)
  have own: "\<not> ?foreign x \<and> (\<not> shared \<longrightarrow> \<not> ?nobody x)" if "may_read shared column who x" for x
    using that by (auto simp: may_read_def split: option.splits)
  have made: "\<not> ?foreign x \<and> \<not> ?nobody x" if "may_write column who x" for x
    using that by (auto simp: may_write_def)
  have upd: "filter ?foreign (pt_rows t2) = filter ?foreign (pt_rows t) \<and>
      (\<not> shared \<longrightarrow> filter ?nobody (pt_rows t2) = filter ?nobody (pt_rows t))"
    if "sql_update T role c P f t' = Inr t2" for t2
  proof -
    have rows: "list_all2 (\<lambda>r r'. r' = r \<or> may_read shared column who r \<and> may_write column who r') (pt_rows t) (pt_rows t2)"
      using rls_update [OF access that [unfolded t']] by (rule list_all2_mono) (auto split: if_splits)
    have "list_all2 (\<lambda>r r'. r' = r \<or> \<not> ?foreign r \<and> \<not> ?foreign r') (pt_rows t) (pt_rows t2)"
      using rows by (rule list_all2_mono) (use own made in blast)
    moreover have "list_all2 (\<lambda>r r'. r' = r \<or> \<not> ?nobody r \<and> \<not> ?nobody r') (pt_rows t) (pt_rows t2)" if "\<not> shared"
      using rows by (rule list_all2_mono) (use own made that in blast)
    ultimately show ?thesis
      using foreign_rows_kept [of ?foreign] foreign_rows_kept [of ?nobody] by blast
  qed
  have del: "filter Q (filter (\<lambda>x. \<not> (may_read shared column who x \<and> P x)) (pt_rows t)) = filter Q (pt_rows t)"
    if "\<And>x. may_read shared column who x \<Longrightarrow> \<not> Q x" for Q
    unfolding filter_filter by (rule filter_cong) (use that in auto)
  have "filter ?foreign (filter (\<lambda>x. \<not> (may_read shared column who x \<and> P x)) (pt_rows t)) = filter ?foreign (pt_rows t) \<and>
      (\<not> shared \<longrightarrow> filter ?nobody (filter (\<lambda>x. \<not> (may_read shared column who x \<and> P x)) (pt_rows t)) =
         filter ?nobody (pt_rows t))"
    using del [of ?foreign] del [of ?nobody] own by blast
  moreover have "filter ?foreign (pt_rows t @ [r]) = filter ?foreign (pt_rows t) \<and>
      filter ?nobody (pt_rows t @ [r]) = filter ?nobody (pt_rows t)" if "may_write column who r"
    using made [OF that] by auto
  moreover have "may_read shared column who = (\<lambda>x. case cell column x of None \<Rightarrow> shared | Some v \<Rightarrow> who = Some v)"
    by (rule ext) (simp add: may_read_def)
  ultimately show ?thesis using upd unfolding t' rls_select [OF access] rls_insert [OF access] rls_delete [OF access]
    by (auto split: if_splits)
qed

theorem tenant_isolation_witness:
  "sql_select demo_tenants app_role request_conn
      (rls_table ''invoice'' ''org_id'' ''bigint'' default_guc False invoices) =
     Inr [pt_rows invoices ! 0]
   \<and> sql_select demo_tenants app_role request_conn
      (rls_table ''invoice'' ''org_id'' ''bigint'' default_guc True invoices) =
     Inr [pt_rows invoices ! 0, pt_rows invoices ! 2]"
proof -
  have read: "sql_select demo_tenants app_role request_conn
      (rls_table ''invoice'' ''org_id'' ''bigint'' default_guc shared invoices) =
     Inr (filter (\<lambda>x. case cell ''org_id'' x of None \<Rightarrow> shared | Some v \<Rightarrow> Some 7 = Some v) (pt_rows invoices))" for shared
    by (rule tenant_isolation [OF demo_enable _ demo_access(1) _ demo_access(2,3), THEN conjunct1])
      (simp_all add: demo_db_def)
  show ?thesis unfolding read by (simp add: invoices_def cell_def)
qed

text \<open>
  A platform row of a table protected with \<open>shared_rows=True\<close> is not safe from ordinary
  traffic: any connection, pinned or not, can delete it, since DELETE consults only the USING
  clause, and a tenant can take it over by an UPDATE that sets the tenant column to its own.  Only
  making new platform rows is refused.
\<close>

theorem shared_rows_can_be_taken:
  assumes "enable_rls ''postgresql'' table column ty guc True db = Inr db'"
    and "db table = Some t" and "pt_policies t = []" and "db' table = Some t'"
    and "ordinary role" and "pinned T guc ty c who"
    and "r \<in> set (pt_rows t)" and "cell column r = None"
  shows "(\<exists>t2. sql_delete T role c (\<lambda>x. x = r) t' = Inr t2 \<and> r \<notin> set (pt_rows t2))
    \<and> (who \<noteq> None \<and> cell column (f r) = who \<longrightarrow>
         (\<exists>t2. sql_update T role c (\<lambda>x. x = r) f t' = Inr t2 \<and> r \<notin> set (pt_rows t2) \<and> f r \<in> set (pt_rows t2)))
    \<and> sql_insert T role c r t' = Inl denied"
proof -
  have t': "t' = rls_table table column ty guc True t"
    using enable_rls_Inr [OF assms(1)] assms(2,4) by auto
  note access = assms(6,5,3)
  have seen: "may_read True column who r" using assms(8) by (simp add: may_read_def)
  have "\<exists>t2. sql_update T role c (\<lambda>x. x = r) f t' = Inr t2 \<and> r \<notin> set (pt_rows t2) \<and> f r \<in> set (pt_rows t2)"
    if w: "who \<noteq> None" "cell column (f r) = who"
  proof -
    have "map_r (update_row T role c t' (\<lambda>x. x = r) f) (pt_rows t) =
        Inr (map (\<lambda>x. if x = r then f r else x) (pt_rows t))"
      using w seen unfolding t'
      by (intro map_r_Inr) (auto simp: update_row_def rls_row_access [OF access] may_write_def)
    moreover have "f r \<noteq> r" using w assms(8) by auto
    ultimately show ?thesis using assms(7) by (auto simp: sql_update_def t')
  qed
  then show ?thesis
    using seen assms(8) unfolding t' rls_insert [OF access] rls_delete [OF access]
    by (auto simp: may_write_def)
qed

theorem shared_rows_can_be_taken_witness:
  "\<exists>t2. sql_delete demo_tenants app_role request_conn (\<lambda>x. x = pt_rows invoices ! 2)
      (rls_table ''invoice'' ''org_id'' ''bigint'' default_guc True invoices) = Inr t2
    \<and> pt_rows invoices ! 2 \<notin> set (pt_rows t2)"
  using shared_rows_can_be_taken [OF demo_enable _ demo_access(1) _ demo_access(2,3), of _ "pt_rows invoices ! 2"]
  by (simp add: demo_db_def invoices_def cell_def)

subsection \<open>The pinned pool\<close>

text \<open>The setting is the connection's own: in the session, and not shadowed or lost by what is open.\<close>

definition holds_pin :: "string \<Rightarrow> string \<Rightarrow> pg_conn \<Rightarrow> bool" where
  "holds_pin g v c \<longleftrightarrow>
     cn_session c g = Some v
   \<and> (case cn_txn c of None \<Rightarrow> True | Some (ses, locals) \<Rightarrow> ses g = Some v)"

definition leaves_pin :: "string \<Rightarrow> conn_op \<Rightarrow> bool" where
  "leaves_pin g op = (case op of OpSet h _ local \<Rightarrow> h \<noteq> g \<or> local | _ \<Rightarrow> True)"

lemma holds_pin_step: "holds_pin g v c \<Longrightarrow> leaves_pin g op \<Longrightarrow> holds_pin g v (conn_step op c)"
  by (cases op)
    (auto simp: holds_pin_def leaves_pin_def begin_txn_def commit_txn_def rollback_txn_def set_config_def
      leave_locals_def split: option.splits)

lemma holds_pin_work: "holds_pin g v c \<Longrightarrow> list_all (leaves_pin g) w \<Longrightarrow> holds_pin g v (fold conn_step w c)"
  by (induction w arbitrary: c) (auto intro: holds_pin_step)

lemma holds_pin_rollback: "holds_pin g v c \<Longrightarrow> holds_pin g v (rollback_txn c) \<and> cn_txn (rollback_txn c) = None"
  by (auto simp: holds_pin_def rollback_txn_def leave_locals_def split: option.splits)

lemma holds_pin_read: "holds_pin g v c \<Longrightarrow> cn_txn c = None \<Longrightarrow> current_setting g c = Some v"
  by (simp add: holds_pin_def current_setting_def)

lemma pin_connection_holds:
  "holds_pin guc (tl_str T tenant) (pin_connection T tenant guc) \<and> cn_txn (pin_connection T tenant guc) = None"
  by (simp add: pin_connection_def fresh_conn_def begin_txn_def set_config_def commit_txn_def holds_pin_def
      leave_locals_def)

lemma pool_run_pinned:
  assumes opened: "holds_pin g v opened \<and> cn_txn opened = None"
  shows "list_all (list_all (leaves_pin g)) ws \<Longrightarrow>
     (\<forall>c\<in>set pool. holds_pin g v c \<and> cn_txn c = None) \<Longrightarrow>
     \<forall>c\<in>set (fst (pool_run opened ws pool)). current_setting g c = Some v"
proof (induction ws arbitrary: pool)
  case Nil
  then show ?case by simp
next
  case (Cons w ws)
  obtain c rest where co: "checkout opened pool = (c, rest)" by fastforce
  have c: "holds_pin g v c \<and> cn_txn c = None" and rest: "\<forall>c\<in>set rest. holds_pin g v c \<and> cn_txn c = None"
    using co opened Cons.prems(2) by (auto simp: checkout_def split: list.splits)
  have "holds_pin g v (fold conn_step w c)" using c Cons.prems(1) by (intro holds_pin_work) simp_all
  then have "\<forall>x\<in>set (fst (pool_run opened ws (checkin (fold conn_step w c) rest))). current_setting g x = Some v"
    using rest Cons.prems(1) holds_pin_rollback by (intro Cons.IH) (simp_all add: checkin_def)
  then show ?case using c holds_pin_read by (auto simp: co split_beta)
qed

lemma pool_run_count: "length (fst (pool_run opened ws pool)) = length ws"
  by (induction ws arbitrary: pool) (auto simp: split_beta)

text \<open>
  C31: On a tenant's engine every unit of work is handed a connection that reads that tenant, whether
  the units before it committed, rolled back, left a transaction open or set the variable for their
  own transaction.  Excluded is work that sets the variable for the session (\<open>leaves_pin\<close>): the pool
  hands the changed connection on.
\<close>

theorem tenant_engine_stays_pinned:
  assumes "tenant_engine T (Some ''postgresql'') tenant guc work = Inr seen"
    and "list_all (list_all (leaves_pin guc)) work"
  shows "length seen = length work \<and> (\<forall>c\<in>set seen. current_setting guc c = Some (tl_str T tenant))"
proof -
  from assms(1) have "seen = fst (pool_run (pin_connection T tenant guc) work [])"
    by (auto simp: tenant_engine_def pin_engine_def supports_guc_def Let_def split_beta elim!: rbind_InrE)
  with pool_run_pinned [OF pin_connection_holds assms(2), of "[]" T tenant] show ?thesis
    by (simp add: pool_run_count)
qed

theorem tenant_engine_stays_pinned_witness:
  "\<exists>seen. tenant_engine demo_tenants (Some ''postgresql'') 7 default_guc
      [[OpBegin, OpSet default_guc ''8'' True, OpRollback], [OpBegin]] = Inr seen
    \<and> length seen = 2 \<and> (\<forall>c\<in>set seen. current_setting default_guc c = Some ''7'')"
proof -
  let ?work = "[[OpBegin, OpSet default_guc ''8'' True, OpRollback], [OpBegin]]"
  obtain seen where run: "tenant_engine demo_tenants (Some ''postgresql'') 7 default_guc ?work = Inr seen"
    using demo_names(4) by (simp add: tenant_engine_def pin_engine_def supports_guc_def)
  have "list_all (list_all (leaves_pin default_guc)) ?work" by (simp add: leaves_pin_def)
  from tenant_engine_stays_pinned [OF run this] run show ?thesis by (simp add: demo_tenants_def)
qed

text \<open>The exclusion is needed: a unit that sets the variable for the session hands its tenant on.\<close>

lemma session_set_reaches_the_next_unit:
  "\<exists>seen. tenant_engine demo_tenants (Some ''postgresql'') 7 default_guc
      [[OpBegin, OpSet default_guc ''8'' False, OpCommit], [OpBegin]] = Inr seen
    \<and> map (current_setting default_guc) seen = [Some ''7'', Some ''8'']"
  using demo_names(4)
  by (simp add: tenant_engine_def pin_engine_def supports_guc_def pin_connection_def checkout_def checkin_def
      fresh_conn_def begin_txn_def set_config_def commit_txn_def rollback_txn_def leave_locals_def
      current_setting_def demo_tenants_def)

subsection \<open>Lifting the protection\<close>

text \<open>
  After a \<open>without_force\<close> block the table is forced again, whether the block returned or raised,
  and what the block returned or raised is what comes out, as long as the block did not drop the table.
\<close>

theorem without_force_restores:
  assumes "plain_name table" and "db table = Some t"
    and "block (db(table \<mapsto> t\<lparr>pt_forced := False\<rparr>)) = (res, db2)" and "db2 table = Some t2"
  shows "without_force ''postgresql'' table block db = (res, db2(table \<mapsto> t2\<lparr>pt_forced := True\<rparr>))"
  using assms
  by (cases res) (simp_all add: without_force_def has_rls_def checked_identifier_def force_table_def alter_table_def)

theorem without_force_restores_witness:
  "fst (without_force ''postgresql'' ''invoice'' (\<lambda>db. (Inl (RuntimeErrorExn ''boom'') :: unit result, db)) demo_db)
     = Inl (RuntimeErrorExn ''boom'')"
  using without_force_restores [of "''invoice''" demo_db invoices
      "\<lambda>db. (Inl (RuntimeErrorExn ''boom'') :: unit result, db)"] demo_names(1)
  by (simp add: demo_db_def)

text \<open>
  The column helper fills every row whatever the policies are, where the UPDATE of a migration,
  which pins nobody, changes none; on SQLite it fails on dropping the default, which that database
  has no statement for.
\<close>

lemma add_column_beats_update:
  assumes "plain_name table" "plain_name column" "db table = Some t" "column \<notin> set (pt_columns t)"
  shows "\<exists>db' t'. add_tenant_scoped_column ''postgresql'' table column x False db = Inr db' \<and> db' table = Some t'
           \<and> map rw_cells (pt_rows t') = map (\<lambda>r. rw_cells r @ [(column, Some x)]) (pt_rows t)"
    and "pinned T guc ty c None \<Longrightarrow> ordinary role \<Longrightarrow> pt_policies t = [] \<Longrightarrow>
         sql_update T role c (\<lambda>_. True) f (rls_table table column' ty guc False t) =
           Inr (rls_table table column' ty guc False t)"
    and "\<exists>e. add_tenant_scoped_column ''sqlite'' table column x False db = Inl e"
proof -
  show "\<exists>db' t'. add_tenant_scoped_column ''postgresql'' table column x False db = Inr db' \<and> db' table = Some t'
           \<and> map rw_cells (pt_rows t') = map (\<lambda>r. rw_cells r @ [(column, Some x)]) (pt_rows t)"
    "\<exists>e. add_tenant_scoped_column ''sqlite'' table column x False db = Inl e"
    using assms
    by (simp_all add: add_tenant_scoped_column_def checked_identifier_def alter_table_def add_column_def
        drop_default_def comp_def)
  assume access: "pinned T guc ty c None" "ordinary role" "pt_policies t = []"
  have "map_r (update_row T role c (rls_table table column' ty guc False t) (\<lambda>_. True) f) (pt_rows t) =
      Inr (map (\<lambda>r. r) (pt_rows t))"
    by (rule map_r_Inr) (simp add: update_row_def rls_row_access [OF access] may_read_def split: option.splits)
  then show "sql_update T role c (\<lambda>_. True) f (rls_table table column' ty guc False t) =
      Inr (rls_table table column' ty guc False t)"
    by (simp add: sql_update_def rls_table_def)
qed

subsection \<open>The context\<close>

lemma tenant_scope_restores:
  "snd (tenant_scope tenant block cur) = cur"
  "tenant = Some t \<Longrightarrow> fst (tenant_scope tenant block cur) = fst (block (Some t))"
  "\<exists>e. tenant_scope None block cur = (Inl e, cur)"
  by (auto simp: tenant_scope_def bind_tenant_def reset_tenant_def split_beta split: option.splits)

lemma current_tenant_raises_iff: "(\<exists>e. current_tenant_id cur = Inl e) \<longleftrightarrow> maybe_tenant_id cur = None"
  by (simp add: current_tenant_id_def maybe_tenant_id_def split: option.splits)

subsection \<open>Conformance\<close>

lemma complaint_protected: "complaint p = None \<longleftrightarrow> protected p"
  by (auto simp: complaint_def protected_def Let_def)

lemma unenforced_iff:
  "unenforced_reason en = None \<longleftrightarrow> has_rls (en_dialect en) \<and> ordinary (en_role en)"
  by (auto simp: unenforced_reason_def enforcement_status_def supported_def ordinary_def Let_def)

lemma unenforced_enforced: "unenforced_reason en = None \<longleftrightarrow> enforced (enforcement_status en)"
  by (auto simp: unenforced_reason_def enforced_def Let_def)

lemma require_enforced_Inr: "require_enforced en = Inr () \<longleftrightarrow> unenforced_reason en = None"
  by (auto simp: require_enforced_def split: option.splits)

text \<open>A connection that has just been pinned inside its transaction, and one that has not.\<close>

lemma local_pin:
  assumes "tl_str T v \<noteq> []" "tl_cast T ty (tl_str T v) = Some v"
  shows "pinned T guc ty (set_config guc (tl_str T v) True (begin_txn fresh_conn)) (Some v)"
    and "pinned T guc ty (begin_txn fresh_conn) None"
  using assms by (simp_all add: pinned_def set_config_def begin_txn_def fresh_conn_def current_setting_def)

lemma visible_keys_pinned:
  assumes en: "en = \<lparr>en_dialect = ''postgresql'', en_role = role, en_db = db'\<rparr>"
    and db': "db' table = Some (rls_table table column ty guc shared t)"
    and "pt_policies t = []" "ordinary role" "plain_name table" "plain_name key" "validate_guc_name guc = Inr ()"
    and "tl_str T v \<noteq> []" "tl_cast T ty (tl_str T v) = Some v"
  shows "visible_keys T en table v key guc = Inr (rw_key ` {r \<in> set (pt_rows t). may_read shared column (Some v) r})"
  using assms rls_select [OF local_pin(1) [OF assms(8,9)] assms(4,3)]
  by (simp add: visible_keys_def set_tenant_guc_def supports_guc_def select_table_def checked_identifier_def)

text \<open>
  The conformance checks tell the truth: the sweep passes exactly when the role is subject to
  policies and every table named is enabled, forced and carries a policy; on a table that
  \<open>enable_rls\<close> protects, whose keys are unique and where one of two tenants has a row, the isolation
  and the fail-closed check pass for an ordinary role, and every check raises for a role that
  bypasses the policies.
\<close>

theorem conformance_tells_the_truth:
  assumes "enable_rls ''postgresql'' table column ty guc False db = Inr db'"
    and "db table = Some t" and "pt_policies t = []" and "inj_on rw_key (set (pt_rows t))"
    and "plain_name table" and "plain_name key" and "validate_guc_name guc = Inr ()"
    and "\<forall>v\<in>{a, b}. tl_str T v \<noteq> [] \<and> tl_cast T ty (tl_str T v) = Some v" and "a \<noteq> b"
    and "r \<in> set (pt_rows t)" and "cell column r = Some a"
    and "en = \<lparr>en_dialect = ''postgresql'', en_role = role, en_db = db'\<rparr>"
  shows "(assert_tables_protected en tables = Inr () \<longleftrightarrow>
            ordinary role \<and> (\<forall>p\<in>set (protection_report en tables). protected p))
    \<and> (if ordinary role
       then assert_tables_protected en [table] = Inr () \<and> assert_isolated T en table a b key guc = Inr ()
            \<and> assert_unpinned_sees_nothing T en table = Inr ()
       else (\<exists>e. assert_isolated T en table a b key guc = Inl e)
            \<and> (\<exists>e. assert_unpinned_sees_nothing T en table = Inl e))"
proof -
  have db': "db' table = Some (rls_table table column ty guc False t)"
    using enable_rls_Inr [OF assms(1)] assms(2) by auto
  have req: "require_enforced en = Inr () \<longleftrightarrow> ordinary role"
    by (simp add: require_enforced_Inr unenforced_iff assms(12) has_rls_def)
  have sweep: "assert_tables_protected en ts = Inr () \<longleftrightarrow>
      ordinary role \<and> (\<forall>p\<in>set (protection_report en ts). protected p)" for ts
    using req by (auto simp: assert_tables_protected_def complaint_protected list_all_iff rbind_Inr_iff
        split: if_splits)
  show ?thesis
  proof (cases "ordinary role")
    case True
    note keys = visible_keys_pinned [OF assms(12) db' assms(3) True assms(5,6,7)]
    have va: "tl_str T a \<noteq> []" "tl_cast T ty (tl_str T a) = Some a"
      and vb: "tl_str T b \<noteq> []" "tl_cast T ty (tl_str T b) = Some b" using assms(8) by auto
    let ?ka = "rw_key ` {r \<in> set (pt_rows t). may_read False column (Some a) r}"
    let ?kb = "rw_key ` {r \<in> set (pt_rows t). may_read False column (Some b) r}"
    have "?ka \<noteq> {}" using assms(10,11) by (auto simp: may_read_def)
    moreover have "?ka \<inter> ?kb = {}"
      using assms(4,9) by (auto simp: may_read_def inj_on_def split: option.splits)
    ultimately have "assert_isolated T en table a b key guc = Inr ()"
      using True req by (simp add: assert_isolated_def keys [OF va] keys [OF vb])
    moreover have "assert_unpinned_sees_nothing T en table = Inr ()"
      using True req assms(5) rls_select [OF local_pin(2) [OF va] True assms(3)] db'
      by (simp add: assert_unpinned_sees_nothing_def checked_identifier_def select_table_def assms(12)
          may_read_nobody)
    moreover have "assert_tables_protected en [table] = Inr ()"
      unfolding sweep
      by (simp add: True protection_report_def table_protection_of_def protected_def assms(12) has_rls_def db'
          rls_table_def)
    ultimately show ?thesis using True sweep by simp
  next
    case False
    then have "\<exists>e. require_enforced en = Inl e"
      using req by (cases "require_enforced en") auto
    then show ?thesis using False sweep by (auto simp: assert_isolated_def assert_unpinned_sees_nothing_def)
  qed
qed

theorem conformance_tells_the_truth_witness:
  "assert_isolated demo_tenants
     \<lparr>en_dialect = ''postgresql'', en_role = app_role,
      en_db = demo_db(''invoice'' \<mapsto> rls_table ''invoice'' ''org_id'' ''bigint'' default_guc False invoices)\<rparr>
     ''invoice'' 7 8 ''id'' default_guc = Inr ()"
  using conformance_tells_the_truth [OF demo_enable [of False] _ demo_access(1) _ demo_names(1,5,4),
      of 7 8 demo_tenants "pt_rows invoices ! 0" _ app_role] demo_access(2)
  by (simp add: demo_db_def invoices_def demo_tenants_def cell_def)

text \<open>
  The kit has no notion of platform rows: on a table protected with \<open>shared_rows=True\<close> that has one,
  the fail-closed check raises, although nothing is wrong.
\<close>

lemma shared_tables_fail_conformance:
  assumes "enable_rls ''postgresql'' table column ty guc True db = Inr db'"
    and "db table = Some t" "pt_policies t = []" "plain_name table" "ordinary role"
    and "r \<in> set (pt_rows t)" "cell column r = None"
  shows "assert_unpinned_sees_nothing T \<lparr>en_dialect = ''postgresql'', en_role = role, en_db = db'\<rparr> table =
    Inl (assertion_error ''rows with no tenant pinned'')"
proof -
  have db': "db' table = Some (rls_table table column ty guc True t)"
    using enable_rls_Inr [OF assms(1)] assms(2) by auto
  have "pinned T guc ty (begin_txn fresh_conn) None"
    by (simp add: pinned_def begin_txn_def fresh_conn_def current_setting_def)
  from rls_select [OF this assms(5,3), of table column True]
  have "sql_select T role (begin_txn fresh_conn) (rls_table table column ty guc True t) =
      Inr (filter (may_read True column None) (pt_rows t))" .
  moreover have "filter (may_read True column None) (pt_rows t) \<noteq> []"
    using assms(6,7) by (auto simp: filter_empty_conv may_read_nobody)
  moreover have "unenforced_reason \<lparr>en_dialect = ''postgresql'', en_role = role, en_db = db'\<rparr> = None"
    using assms(5) by (simp add: unenforced_iff has_rls_def)
  then have "require_enforced \<lparr>en_dialect = ''postgresql'', en_role = role, en_db = db'\<rparr> = Inr ()"
    by (simp add: require_enforced_Inr)
  ultimately show ?thesis
    using assms(4) db'
    by (simp add: assert_unpinned_sees_nothing_def checked_identifier_def select_table_def)
qed

text \<open>A letter outside ASCII, and a digit form that \<open>str.isdigit\<close> does not count, pass as names.\<close>

lemma names_beyond_ascii:
  "checked_identifier [char_of (233 :: nat)] ''table'' = Inr [char_of (233 :: nat)]"
  "checked_identifier [char_of (189 :: nat), CHR ''x''] ''table'' = Inr [char_of (189 :: nat), CHR ''x'']"
  by code_simp+

end
