(* ===== verification/NotifyModel.thy ===== *)
theory NotifyModel
  imports PyText
begin

text \<open>
  \<open>asas_notifications\<close>: the rows (\<open>models.py\<close>), the host seams, and the cached reads of the
  configuration tables (\<open>service.py\<close>, down to \<open>resolve_channels\<close>).  A host identity is an integer,
  a string, or any other object, of which only its class tag and its \<open>str()\<close> matter.  The readings
  of the clock inside one call are one instant.
\<close>

subsection \<open>Identities\<close>

datatype host_id = IdInt int | IdStr string | IdObj nat string

definition normalize_id :: "host_id option \<Rightarrow> string option" where
  "normalize_id v =
     (case v of
        None \<Rightarrow> None
      | Some (IdInt i) \<Rightarrow> Some (int_text i)
      | Some (IdStr s) \<Rightarrow> Some s
      | Some (IdObj _ s) \<Rightarrow> Some s)"

text \<open>The stored form of an identity that is present.\<close>

definition stored_id :: "host_id \<Rightarrow> string" where
  "stored_id v = (case v of IdInt i \<Rightarrow> int_text i | IdStr s \<Rightarrow> s | IdObj _ s \<Rightarrow> s)"

lemma normalize_id_simps [simp]:
  "normalize_id None = None"
  "normalize_id (Some v) = Some (stored_id v)"
  by (simp_all add: normalize_id_def stored_id_def split: host_id.splits)

lemma normalize_id_None_iff [simp]: "normalize_id v = None \<longleftrightarrow> v = None"
  by (cases v) simp_all

subsection \<open>Rows\<close>

datatype importance = Low | High

definition importance_value :: "importance \<Rightarrow> string" where
  "importance_value i = (case i of Low \<Rightarrow> ''low'' | High \<Rightarrow> ''high'')"

definition retired_urgency :: string where
  "retired_urgency = ''normal''"

datatype delivery_status = Pending | Sending | Sent | Failed | Skipped

record notification =
  n_id :: nat
  n_org :: string
  n_user :: string
  n_action :: "string option"
  n_topic :: "string option"
  n_importance :: string
  n_entity_type :: "string option"
  n_entity_id :: "string option"
  n_title :: string
  n_body :: "string option"
  n_link :: "string option"
  n_template :: "string option"
  n_data :: "pyval option"
  n_read_at :: "instant option"
  n_archived_at :: "instant option"
  n_resolved_at :: "instant option"
  n_locale :: "string option"
  n_created_at :: instant

record delivery =
  d_id :: nat
  d_notification :: nat
  d_org :: "string option"
  d_channel :: string
  d_status :: delivery_status
  d_attempts :: nat
  d_claimed_at :: "instant option"
  d_sent_at :: "instant option"
  d_last_error :: "string option"

record topic_row =
  t_org :: "string option"
  t_key :: string
  t_name :: string
  t_description :: "string option"
  t_user_configurable :: bool
  t_sort_order :: int

record importance_row =
  i_org :: "string option"
  i_key :: string
  i_name :: string
  i_description :: "string option"
  i_emails_by_default :: bool
  i_rank :: int

record policy_row =
  p_id :: nat
  p_org :: "string option"
  p_topic :: "string option"
  p_importance :: "string option"
  p_channel :: string
  p_enabled :: bool
  p_mandatory :: bool

record notify_db =
  nd_notifications :: "notification list"
  nd_deliveries :: "delivery list"
  nd_topics :: "topic_row list"
  nd_importances :: "importance_row list"
  nd_policies :: "policy_row list"
  nd_next_notification :: nat
  nd_next_delivery :: nat

text \<open>The rungs and the topic the migrations seed.\<close>

definition default_topic :: string where
  "default_topic = ''general''"

definition platform_importances :: "(string \<times> string \<times> int \<times> bool) list" where
  "platform_importances = [(''low'', ''Low'', 10, False), (''high'', ''High'', 20, True)]"

subsection \<open>Process state and host seams\<close>

record kind_spec =
  ks_importance :: importance
  ks_topic :: string

record importance_view =
  iv_org :: "string option"
  iv_key :: string
  iv_emails :: bool

record notify_cfg =
  nc_kinds :: "(string \<times> kind_spec) list"
  nc_topics :: "(instant \<times> string list) option"
  nc_importances :: "string option \<Rightarrow> (instant \<times> importance_view list) option"
  nc_policies :: "host_id option \<Rightarrow> (instant \<times> policy_row list) option"
  nc_suppressed :: bool

record notify_host =
  nh_context :: "(host_id option \<times> host_id option) option"
  nh_locale :: "(host_id \<Rightarrow> string option) option"
  nh_filter :: "(host_id list \<Rightarrow> string \<Rightarrow> host_id option \<Rightarrow> nat option \<Rightarrow> host_id list result) option"

definition notify_boot :: notify_cfg where
  "notify_boot =
     \<lparr>nc_kinds = [], nc_topics = None, nc_importances = (\<lambda>_. None), nc_policies = (\<lambda>_. None),
      nc_suppressed = False\<rparr>"

text \<open>\<open>Importance(raw)\<close> raises for any other text.\<close>

definition importance_of_text :: "string \<Rightarrow> importance result" where
  "importance_of_text s =
     (if s = ''low'' then Inr Low else if s = ''high'' then Inr High
      else Inl (ValueError (py_repr s @ '' is not a valid Importance'')))"

definition importance_from_legacy_urgency :: "string \<Rightarrow> importance result" where
  "importance_from_legacy_urgency raw =
     (if raw = retired_urgency then Inr High else importance_of_text raw)"

definition register_kind :: "string \<Rightarrow> string \<Rightarrow> string option \<Rightarrow> notify_cfg \<Rightarrow> notify_cfg result" where
  "register_kind kind urgency topic c =
     rbind (importance_from_legacy_urgency urgency) (\<lambda>i.
       Inr (c\<lparr>nc_kinds := dset (nc_kinds c) kind
                \<lparr>ks_importance = i,
                 ks_topic = (case topic of None \<Rightarrow> default_topic | Some t \<Rightarrow> t)\<rparr>\<rparr>))"

definition current_user_id :: "notify_host \<Rightarrow> host_id option" where
  "current_user_id h = (case nh_context h of None \<Rightarrow> None | Some ctx \<Rightarrow> fst ctx)"

definition current_org_id :: "notify_host \<Rightarrow> host_id option" where
  "current_org_id h = (case nh_context h of None \<Rightarrow> None | Some ctx \<Rightarrow> snd ctx)"

text \<open>Work done inside \<open>with suppressed():\<close>; the flag is put back on every exit.\<close>

definition suppressed :: "(notify_cfg \<Rightarrow> 'a result \<times> notify_cfg) \<Rightarrow> notify_cfg \<Rightarrow> 'a result \<times> notify_cfg" where
  "suppressed work c =
     (case work (c\<lparr>nc_suppressed := True\<rparr>) of
        (r, c') \<Rightarrow> (r, c'\<lparr>nc_suppressed := nc_suppressed c\<rparr>))"

subsection \<open>Cached configuration\<close>

definition config_ttl_seconds :: int where
  "config_ttl_seconds = 60"

definition fresh :: "instant \<Rightarrow> instant \<times> 'v \<Rightarrow> bool" where
  "fresh now entry = (now - fst entry < seconds config_ttl_seconds)"

text \<open>
  The entry a read leaves in its slot: the one it found, when that is fresh and no refresh was
  asked for, otherwise what the table holds now.
\<close>

definition cached_entry :: "bool \<Rightarrow> instant \<Rightarrow> (instant \<times> 'v) option \<Rightarrow> 'v \<Rightarrow> instant \<times> 'v" where
  "cached_entry refresh now slot current =
     (case (if refresh then None else slot) of
        Some e \<Rightarrow> if fresh now e then e else (now, current)
      | None \<Rightarrow> (now, current))"

definition config_cache_clear :: "notify_cfg \<Rightarrow> notify_cfg" where
  "config_cache_clear c =
     c\<lparr>nc_topics := None, nc_policies := (\<lambda>_. None), nc_importances := (\<lambda>_. None)\<rparr>"

definition all_topic_keys :: "bool \<Rightarrow> instant \<Rightarrow> notify_db \<Rightarrow> notify_cfg \<Rightarrow> string list \<times> notify_cfg" where
  "all_topic_keys refresh now db c =
     (let e = cached_entry refresh now (nc_topics c) (map t_key (nd_topics db))
      in (snd e, c\<lparr>nc_topics := Some e\<rparr>))"

definition topic_known :: "instant \<Rightarrow> notify_db \<Rightarrow> string \<Rightarrow> notify_cfg \<Rightarrow> bool \<times> notify_cfg" where
  "topic_known now db topic c =
     (case all_topic_keys False now db c of
        (keys, c1) \<Rightarrow>
          if topic \<in> set keys then (True, c1)
          else (case all_topic_keys True now db c1 of (keys', c2) \<Rightarrow> (topic \<in> set keys', c2)))"

definition view_of :: "importance_row \<Rightarrow> importance_view" where
  "view_of r = \<lparr>iv_org = i_org r, iv_key = i_key r, iv_emails = i_emails_by_default r\<rparr>"

definition catalogue :: "string option \<Rightarrow> notify_db \<Rightarrow> importance_view list" where
  "catalogue org db =
     map view_of (filter (\<lambda>r. org = None \<or> i_org r = None \<or> i_org r = org) (nd_importances db))"

definition importance_rows ::
  "bool \<Rightarrow> string option \<Rightarrow> instant \<Rightarrow> notify_db \<Rightarrow> notify_cfg \<Rightarrow> importance_view list \<times> notify_cfg" where
  "importance_rows refresh org now db c =
     (let e = cached_entry refresh now (nc_importances c org) (catalogue org db)
      in (snd e, c\<lparr>nc_importances := (nc_importances c)(org := Some e)\<rparr>))"

definition importance_known :: "instant \<Rightarrow> notify_db \<Rightarrow> string \<Rightarrow> notify_cfg \<Rightarrow> bool \<times> notify_cfg" where
  "importance_known now db imp c =
     (case importance_rows False None now db c of
        (rows, c1) \<Rightarrow>
          if list_ex (\<lambda>r. iv_key r = imp) rows then (True, c1)
          else (case importance_rows True None now db c1 of
                  (rows', c2) \<Rightarrow> (list_ex (\<lambda>r. iv_key r = imp) rows', c2)))"

text \<open>The verdict on the rows of one rung: the org's row, else the platform's, else quiet.\<close>

definition rung_emails :: "string option \<Rightarrow> importance_view list \<Rightarrow> bool" where
  "rung_emails org rows =
     (case first_where (\<lambda>r. iv_org r \<noteq> None \<and> iv_org r = org) rows of
        Some r \<Rightarrow> iv_emails r
      | None \<Rightarrow>
          (case first_where (\<lambda>r. iv_org r = None) rows of
             Some r \<Rightarrow> iv_emails r
           | None \<Rightarrow> False))"

definition emails_by_default ::
  "instant \<Rightarrow> notify_db \<Rightarrow> host_id option \<Rightarrow> string \<Rightarrow> notify_cfg \<Rightarrow> bool \<times> notify_cfg" where
  "emails_by_default now db org imp c =
     (let org_value = normalize_id org in
      case importance_rows False org_value now db c of
        (rows, c1) \<Rightarrow>
          (case filter (\<lambda>r. iv_key r = imp) rows of
             [] \<Rightarrow>
               (case importance_rows True org_value now db c1 of
                  (rows', c2) \<Rightarrow>
                    (rung_emails org_value (filter (\<lambda>r. iv_key r = imp) rows'), c2))
           | found \<Rightarrow> (rung_emails org_value found, c1)))"

definition policies_for :: "host_id option \<Rightarrow> notify_db \<Rightarrow> policy_row list" where
  "policies_for org db =
     filter (\<lambda>r. p_org r = None \<or> p_org r = normalize_id org) (nd_policies db)"

definition policy_rows ::
  "instant \<Rightarrow> notify_db \<Rightarrow> host_id option \<Rightarrow> notify_cfg \<Rightarrow> policy_row list \<times> notify_cfg" where
  "policy_rows now db org c =
     (let e = cached_entry False now (nc_policies c org) (policies_for org db)
      in (snd e, c\<lparr>nc_policies := (nc_policies c)(org := Some e)\<rparr>))"

subsection \<open>Channel adapters\<close>

text \<open>What one call of an adapter's \<open>send\<close> does; a coroutine yields its own outcome when awaited.\<close>

datatype send_result = SendOk | SendSkip string | SendError string

datatype adapter_reply = Returned send_result | Coroutine send_result

type_synonym 'p adapter = "'p \<Rightarrow> adapter_reply"

definition register_adapter ::
  "string \<Rightarrow> 'p adapter option \<Rightarrow> (string \<Rightarrow> 'p adapter option) \<Rightarrow> (string \<Rightarrow> 'p adapter option)" where
  "register_adapter channel a reg = reg(channel := a)"

definition adapter_for :: "(string \<Rightarrow> 'p adapter option) \<Rightarrow> string \<Rightarrow> 'p adapter option" where
  "adapter_for reg channel = reg channel"

subsection \<open>Facts about the cached reads\<close>

lemma cached_entry_refresh [simp]: "cached_entry True now slot v = (now, v)"
  by (simp add: cached_entry_def)

lemma cached_entry_snd:
  "snd (cached_entry refresh now slot v) = v \<or>
   (\<not> refresh \<and> (\<exists>e. slot = Some e \<and> fresh now e \<and> snd (cached_entry refresh now slot v) = snd e))"
  by (cases slot) (auto simp: cached_entry_def)

text \<open>A slot is coherent when a fresh entry in it says what the table says.\<close>

definition cache_coherent :: "instant \<Rightarrow> (instant \<times> 'v) option \<Rightarrow> 'v \<Rightarrow> bool" where
  "cache_coherent now slot v = (case slot of None \<Rightarrow> True | Some e \<Rightarrow> fresh now e \<longrightarrow> snd e = v)"

lemma coherent_simps [simp]:
  "cache_coherent now None v"
  "cache_coherent now (Some (t, v)) v"
  by (simp_all add: cache_coherent_def)

lemma cached_entry_coherent: "cache_coherent now slot v \<Longrightarrow> snd (cached_entry refresh now slot v) = v"
  by (cases slot) (auto simp: cached_entry_def cache_coherent_def)

text \<open>A key that is in the table is known, whatever the cache says.\<close>

lemma topic_known_complete: "topic \<in> t_key ` set (nd_topics db) \<Longrightarrow> fst (topic_known now db topic c)"
  by (auto simp: topic_known_def all_topic_keys_def Let_def)

lemma importance_known_complete:
  "imp \<in> i_key ` set (nd_importances db) \<Longrightarrow> fst (importance_known now db imp c)"
  by (auto simp: importance_known_def importance_rows_def Let_def catalogue_def view_of_def
      list_ex_iff)

end
