(* ===== verification/NotifyRoute.thy ===== *)
theory NotifyRoute
  imports NotifyModel
begin

text \<open>
  \<open>service.py\<close>: the routing matrix (\<open>resolve_channels\<close>) and the emit (\<open>notify\<close>).  The producer owns
  the transaction, so an emit maps its tables to its tables; an exception leaves them alone.
\<close>

subsection \<open>Routing\<close>

definition in_app :: string where
  "in_app = ''in_app''"

text \<open>\<open>max(rows, key=f)\<close>: the first of the greatest.\<close>

fun greatest_by :: "('r \<Rightarrow> 'v::linorder) \<Rightarrow> 'r list \<Rightarrow> 'r option" where
  "greatest_by f [] = None"
| "greatest_by f (r # rs) =
     (case greatest_by f rs of
        None \<Rightarrow> Some r
      | Some m \<Rightarrow> if f m \<le> f r then Some r else Some m)"

lemma greatest_by_None [simp]: "greatest_by f rs = None \<longleftrightarrow> rs = []"
  by (cases rs) (auto split: option.splits)

lemma greatest_by_Some:
  "greatest_by f rs = Some m \<Longrightarrow> m \<in> set rs \<and> (\<forall>r\<in>set rs. f r \<le> f m)"
proof (induction rs arbitrary: m)
  case Nil
  then show ?case by simp
next
  case (Cons r rs)
  show ?case
  proof (cases "greatest_by f rs")
    case None
    with Cons.prems show ?thesis by simp
  next
    case (Some n)
    with Cons.IH have "n \<in> set rs" "\<forall>r\<in>set rs. f r \<le> f n" by auto
    with Some Cons.prems show ?thesis
      by (auto split: if_splits intro: order_trans)
  qed
qed

definition cell_matches :: "string \<Rightarrow> string \<Rightarrow> string \<Rightarrow> policy_row \<Rightarrow> bool" where
  "cell_matches channel topic imp r =
     (p_channel r = channel \<and> (p_topic r = None \<or> p_topic r = Some topic) \<and>
      (p_importance r = None \<or> p_importance r = Some imp))"

definition specificity :: "policy_row \<Rightarrow> nat \<times> bool \<times> nat" where
  "specificity r =
     ((if p_topic r \<noteq> None then 1 else 0) + (if p_importance r \<noteq> None then 1 else 0),
      p_org r \<noteq> None, p_id r)"

definition pick_cell :: "string \<Rightarrow> string \<Rightarrow> string \<Rightarrow> policy_row list \<Rightarrow> policy_row option" where
  "pick_cell channel topic imp rows =
     greatest_by specificity (filter (cell_matches channel topic imp) rows)"

text \<open>One turn of the loop over the channels: the entry it adds to the result, if any.\<close>

definition resolve_channel ::
  "instant \<Rightarrow> notify_db \<Rightarrow> host_id option \<Rightarrow> string \<Rightarrow> string \<Rightarrow> policy_row list \<Rightarrow> string
    \<Rightarrow> notify_cfg \<Rightarrow> bool option \<times> notify_cfg" where
  "resolve_channel now db org topic imp rows channel c =
     (case pick_cell channel topic imp rows of
        Some r \<Rightarrow> ((if p_enabled r then Some (p_mandatory r) else None), c)
      | None \<Rightarrow>
          if channel = in_app then (Some False, c)
          else if channel = ''email''
          then (case emails_by_default now db org imp c of
                  (b, c1) \<Rightarrow> ((if b then Some False else None), c1))
          else (None, c))"

fun resolve_loop ::
  "instant \<Rightarrow> notify_db \<Rightarrow> host_id option \<Rightarrow> string \<Rightarrow> string \<Rightarrow> policy_row list \<Rightarrow> string list
    \<Rightarrow> notify_cfg \<Rightarrow> (string \<times> bool) list \<times> notify_cfg" where
  "resolve_loop now db org topic imp rows [] c = ([], c)"
| "resolve_loop now db org topic imp rows (ch # chs) c =
     (case resolve_channel now db org topic imp rows ch c of
        (m, c1) \<Rightarrow>
          (case resolve_loop now db org topic imp rows chs c1 of
             (rest, c2) \<Rightarrow>
               ((case m of Some b \<Rightarrow> (ch, b) # rest | None \<Rightarrow> rest), c2)))"

definition resolve_channels ::
  "instant \<Rightarrow> notify_db \<Rightarrow> host_id option \<Rightarrow> string \<Rightarrow> string \<Rightarrow> notify_cfg
    \<Rightarrow> (string \<times> bool) list \<times> notify_cfg" where
  "resolve_channels now db org topic imp c =
     (case policy_rows now db org c of
        (rows, c1) \<Rightarrow>
          resolve_loop now db org topic imp rows
            (remdups ([in_app, ''email''] @ map p_channel rows)) c1)"

subsection \<open>Emit\<close>

datatype importance_arg = Rung importance | RungText string

definition rung_text :: "importance_arg \<Rightarrow> string" where
  "rung_text i = (case i of Rung r \<Rightarrow> importance_value r | RungText s \<Rightarrow> s)"

record emit_call =
  e_recipients :: "host_id option list"
  e_action :: "string option"
  e_topic :: "string option"
  e_importance :: "importance_arg option"
  e_title :: "string option"
  e_body :: "string option"
  e_link :: "string option"
  e_template :: "string option"
  e_data :: "pyval option"
  e_actor :: "host_id option"
  e_entity_type :: "string option"
  e_entity_id :: "host_id option"
  e_org :: "host_id option"
  e_record :: "nat option"
  e_locale :: "string option"
  e_coalesce :: bool
  e_merge_body :: "(string option \<Rightarrow> string option \<Rightarrow> string option) option"
  e_kind :: "string option"

text \<open>The two shims for calls in the vocabulary of 0.15.\<close>

definition shim_emit :: "notify_cfg \<Rightarrow> emit_call \<Rightarrow> emit_call" where
  "shim_emit c e =
     (let act = (case e_action e of Some a \<Rightarrow> Some a | None \<Rightarrow> e_kind e);
          e1 = e\<lparr>e_action := act\<rparr>
      in if e_importance e = None \<and> e_topic e = None
         then (case Option.bind act (dget (nc_kinds c)) of
                 Some spec \<Rightarrow>
                   e1\<lparr>e_importance := Some (Rung (ks_importance spec)), e_topic := Some (ks_topic spec)\<rparr>
               | None \<Rightarrow> e1)
         else e1)"

definition has_text :: "string option \<Rightarrow> bool" where
  "has_text s = (case s of None \<Rightarrow> False | Some t \<Rightarrow> t \<noteq> [])"

text \<open>The checks of the call itself: the rung, the topic and the title it emits with.\<close>

definition checked_axes :: "emit_call \<Rightarrow> (string \<times> string \<times> string) result" where
  "checked_axes e =
     (case e_importance e of
        None \<Rightarrow> Inl (TypeErrorExn ''notify() is missing the importance axis'')
      | Some i \<Rightarrow>
          if e_action e \<noteq> None \<and> e_topic e = None
          then Inl (TypeErrorExn ''notify(action=...) requires topic='')
          else (case e_title e of
                  None \<Rightarrow> Inl (TypeErrorExn ''notify() requires title='')
                | Some ttl \<Rightarrow>
                    Inr (rung_text i, (case e_topic e of None \<Rightarrow> default_topic | Some t \<Rightarrow> t), ttl)))"

text \<open>The recipients: present ones once each, the actor left out, then the host's filter.\<close>

fun dedupe_ids :: "host_id list \<Rightarrow> host_id list \<Rightarrow> host_id list" where
  "dedupe_ids seen [] = []"
| "dedupe_ids seen (x # xs) =
     (if x \<in> set seen then dedupe_ids seen xs else x # dedupe_ids (x # seen) xs)"

definition addressed :: "emit_call \<Rightarrow> host_id list" where
  "addressed e =
     (let ids = dedupe_ids [] (List.map_filter id (e_recipients e))
      in (case e_actor e of
            None \<Rightarrow> ids
          | Some a \<Rightarrow> filter (\<lambda>u. stored_id u \<noteq> stored_id a) ids))"

definition filtered_recipients :: "notify_host \<Rightarrow> emit_call \<Rightarrow> host_id list result" where
  "filtered_recipients h e =
     (case nh_filter h of
        None \<Rightarrow> Inr (addressed e)
      | Some f \<Rightarrow>
          if has_text (e_entity_type e)
          then f (addressed e) (the (e_entity_type e)) (e_entity_id e) (e_record e)
          else if e_record e \<noteq> None
          then Inl (ValueError ''notify(record=...) requires entity_type'')
          else Inr (addressed e))"

definition emit_org :: "notify_host \<Rightarrow> emit_call \<Rightarrow> host_id option" where
  "emit_org h e = (case e_org e of Some v \<Rightarrow> Some v | None \<Rightarrow> current_org_id h)"

subsection \<open>Coalescing\<close>

definition coalesces :: "emit_call \<Rightarrow> string list \<Rightarrow> bool" where
  "coalesces e external =
     (e_coalesce e \<and> external = [] \<and> e_action e \<noteq> None \<and> has_text (e_entity_type e) \<and>
      e_entity_id e \<noteq> None)"

text \<open>The row an emit may fold into: same recipient, org, action and entity, unread, not archived.\<close>

definition foldable :: "emit_call \<Rightarrow> string \<Rightarrow> host_id \<Rightarrow> notification \<Rightarrow> bool" where
  "foldable e org u n =
     (n_user n = stored_id u \<and> n_org n = org \<and> n_action n = e_action e \<and>
      n_entity_type n = e_entity_type e \<and> n_entity_id n = normalize_id (e_entity_id e) \<and>
      n_read_at n = None \<and> n_archived_at n = None)"

definition newest_foldable :: "emit_call \<Rightarrow> string \<Rightarrow> host_id \<Rightarrow> notify_db \<Rightarrow> notification option" where
  "newest_foldable e org u db =
     greatest_by n_created_at (filter (foldable e org u) (nd_notifications db))"

definition fold_into :: "instant \<Rightarrow> emit_call \<Rightarrow> string \<Rightarrow> string \<Rightarrow> notification \<Rightarrow> notification" where
  "fold_into now e topic title n =
     n\<lparr>n_title := title,
       n_body := (case e_merge_body e of None \<Rightarrow> e_body e | Some m \<Rightarrow> m (n_body n) (e_body e)),
       n_data := e_data e, n_topic := Some topic, n_template := e_template e,
       n_created_at := now\<rparr>"

text \<open>The loop over the recipients: the rows folded into, and the recipients still to insert.\<close>

fun coalesce_loop ::
  "instant \<Rightarrow> emit_call \<Rightarrow> string \<Rightarrow> string \<Rightarrow> string \<Rightarrow> host_id list \<Rightarrow> notify_db
    \<Rightarrow> nat list \<times> host_id list \<times> notify_db" where
  "coalesce_loop now e org topic title [] db = ([], [], db)"
| "coalesce_loop now e org topic title (u # us) db =
     (case newest_foldable e org u db of
        None \<Rightarrow>
          (case coalesce_loop now e org topic title us db of
             (upd, rest, db') \<Rightarrow> (upd, u # rest, db'))
      | Some n \<Rightarrow>
          (let db1 = db\<lparr>nd_notifications :=
                 update_where (\<lambda>r. n_id r = n_id n) (fold_into now e topic title)
                   (nd_notifications db)\<rparr>
           in case coalesce_loop now e org topic title us db1 of
                (upd, rest, db') \<Rightarrow> (n_id n # upd, rest, db')))"

subsection \<open>Insertion\<close>

definition locale_for :: "notify_host \<Rightarrow> emit_call \<Rightarrow> host_id \<Rightarrow> string option" where
  "locale_for h e u =
     (case e_locale e of
        Some l \<Rightarrow> Some l
      | None \<Rightarrow> (case nh_locale h of None \<Rightarrow> None | Some f \<Rightarrow> f u))"

definition new_notification ::
  "notify_host \<Rightarrow> instant \<Rightarrow> emit_call \<Rightarrow> string \<Rightarrow> string \<Rightarrow> string \<Rightarrow> string \<Rightarrow> nat \<Rightarrow> host_id
    \<Rightarrow> notification" where
  "new_notification h now e org imp topic title nid u =
     \<lparr>n_id = nid, n_org = org, n_user = stored_id u, n_action = e_action e, n_topic = Some topic,
      n_importance = imp, n_entity_type = e_entity_type e,
      n_entity_id = normalize_id (e_entity_id e), n_title = title, n_body = e_body e,
      n_link = e_link e, n_template = e_template e, n_data = e_data e, n_read_at = None,
      n_archived_at = None, n_resolved_at = None, n_locale = locale_for h e u,
      n_created_at = now\<rparr>"

definition new_delivery :: "notification \<Rightarrow> nat \<Rightarrow> string \<Rightarrow> delivery" where
  "new_delivery n did channel =
     \<lparr>d_id = did, d_notification = n_id n, d_org = Some (n_org n), d_channel = channel,
      d_status = Pending, d_attempts = 0, d_claimed_at = None, d_sent_at = None,
      d_last_error = None\<rparr>"

fun insert_notifications ::
  "(nat \<Rightarrow> host_id \<Rightarrow> notification) \<Rightarrow> host_id list \<Rightarrow> notify_db \<Rightarrow> notification list \<times> notify_db" where
  "insert_notifications mk [] db = ([], db)"
| "insert_notifications mk (u # us) db =
     (let n = mk (nd_next_notification db) u
      in case insert_notifications mk us
                (db\<lparr>nd_notifications := nd_notifications db @ [n],
                    nd_next_notification := Suc (nd_next_notification db)\<rparr>) of
           (ns, db') \<Rightarrow> (n # ns, db'))"

definition insert_delivery :: "notification \<Rightarrow> string \<Rightarrow> notify_db \<Rightarrow> notify_db" where
  "insert_delivery n channel db =
     db\<lparr>nd_deliveries := nd_deliveries db @ [new_delivery n (nd_next_delivery db) channel],
        nd_next_delivery := Suc (nd_next_delivery db)\<rparr>"

definition insert_deliveries :: "string list \<Rightarrow> notification list \<Rightarrow> notify_db \<Rightarrow> notify_db" where
  "insert_deliveries external created db =
     fold (\<lambda>n d. fold (insert_delivery n) external d) created db"

definition insert_all ::
  "notify_host \<Rightarrow> instant \<Rightarrow> emit_call \<Rightarrow> string \<Rightarrow> string \<Rightarrow> string \<Rightarrow> string \<Rightarrow> string list
    \<Rightarrow> host_id list \<Rightarrow> notify_db \<Rightarrow> nat list \<times> notify_db" where
  "insert_all h now e org imp topic title external ids db =
     (case insert_notifications (new_notification h now e org imp topic title) ids db of
        (created, db1) \<Rightarrow> (map n_id created, insert_deliveries external created db1))"

text \<open>The writes of an emit whose recipients and channels are settled; the ids of the rows it returns.\<close>

definition write_emit ::
  "notify_host \<Rightarrow> instant \<Rightarrow> emit_call \<Rightarrow> string \<Rightarrow> string \<Rightarrow> string \<Rightarrow> string \<Rightarrow> string list
    \<Rightarrow> host_id list \<Rightarrow> notify_db \<Rightarrow> nat list \<times> notify_db" where
  "write_emit h now e org imp topic title external ids db =
     (if coalesces e external
      then (case coalesce_loop now e org topic title ids db of
              (upd, rest, db1) \<Rightarrow>
                (case insert_all h now e org imp topic title external rest db1 of
                   (created, db2) \<Rightarrow> (upd @ created, db2)))
      else insert_all h now e org imp topic title external ids db)"

definition external_channels :: "(string \<times> bool) list \<Rightarrow> string list" where
  "external_channels resolved = sort (filter (\<lambda>ch. ch \<noteq> in_app) (map fst resolved))"

text \<open>The emit after its references are checked: org, recipients, channels, writes.\<close>

definition emit_checked ::
  "notify_host \<Rightarrow> instant \<Rightarrow> emit_call \<Rightarrow> string \<Rightarrow> string \<Rightarrow> string \<Rightarrow> notify_db \<Rightarrow> notify_cfg
    \<Rightarrow> nat list result \<times> notify_db \<times> notify_cfg" where
  "emit_checked h now e imp topic title db c =
     (if nc_suppressed c then (Inr [], db, c)
      else (case emit_org h e of
        None \<Rightarrow> (Inl (ValueError ''notify() has no org for this emit''), db, c)
      | Some org \<Rightarrow>
          (case filtered_recipients h e of
             Inl err \<Rightarrow> (Inl err, db, c)
           | Inr [] \<Rightarrow> (Inr [], db, c)
           | Inr (u # us) \<Rightarrow>
               (case resolve_channels now db (Some org) topic imp c of
                  (resolved, c1) \<Rightarrow>
                    if in_app \<notin> set (map fst resolved) then (Inr [], db, c1)
                    else (case write_emit h now e (stored_id org) imp topic title
                                 (external_channels resolved) (u # us) db of
                            (ids, db1) \<Rightarrow> (Inr ids, db1, c1))))))"

definition notify ::
  "notify_host \<Rightarrow> instant \<Rightarrow> emit_call \<Rightarrow> notify_db \<Rightarrow> notify_cfg
    \<Rightarrow> nat list result \<times> notify_db \<times> notify_cfg" where
  "notify h now e0 db c =
     (let e = shim_emit c e0
      in case checked_axes e of
           Inl err \<Rightarrow> (Inl err, db, c)
         | Inr (imp, topic, title) \<Rightarrow>
             (case topic_known now db topic c of
                (False, c1) \<Rightarrow> (Inl (LookupErrorExn (''unknown notification topic '' @ py_repr topic)), db, c1)
              | (True, c1) \<Rightarrow>
                  (case importance_known now db imp c1 of
                     (False, c2) \<Rightarrow>
                       (Inl (LookupErrorExn (''unknown notification importance '' @ py_repr imp)), db, c2)
                   | (True, c2) \<Rightarrow> emit_checked h now e imp topic title db c2)))"

end
