(* ===== verification/NotifyFeed.thy ===== *)
theory NotifyFeed
  imports NotifyRoute "HOL-Library.Product_Lexorder"
begin

text \<open>
  \<open>service.py\<close>, feed and read state, and \<open>router.py\<close>.  Every function commits its own transaction.
  A function that reads a row and then writes it lets others commit in between: \<open>env\<close> is what they
  did.  The UPDATE the ORM sends sets the one column that was assigned, by primary key.
\<close>

type_synonym notify_env = "notify_db \<Rightarrow> notify_db"

definition recipient_conditions :: "notify_host \<Rightarrow> host_id \<Rightarrow> notification \<Rightarrow> bool" where
  "recipient_conditions h u n =
     (n_user n = stored_id u \<and>
      (case current_org_id h of None \<Rightarrow> True | Some org \<Rightarrow> n_org n = stored_id org))"

definition unread_count :: "notify_host \<Rightarrow> host_id \<Rightarrow> notify_db \<Rightarrow> nat" where
  "unread_count h u db =
     rowcount (\<lambda>n. recipient_conditions h u n \<and> n_read_at n = None \<and> n_archived_at n = None)
       (nd_notifications db)"

definition feed_conditions :: "notify_host \<Rightarrow> host_id \<Rightarrow> string \<Rightarrow> bool \<Rightarrow> notification \<Rightarrow> bool" where
  "feed_conditions h u state unread_only n =
     (recipient_conditions h u n \<and>
      (if state = ''open'' then n_archived_at n = None
       else if state = ''archived'' then n_archived_at n \<noteq> None else True) \<and>
      (unread_only \<longrightarrow> n_read_at n = None))"

definition feed_order :: "notification \<Rightarrow> int \<times> int" where
  "feed_order n = (- n_created_at n, - int (n_id n))"

text \<open>\<open>OFFSET\<close> and \<open>LIMIT\<close> as SQLite reads them: a negative offset is 0, a negative limit is none.\<close>

definition offset_limit :: "int \<Rightarrow> int \<Rightarrow> 'r list \<Rightarrow> 'r list" where
  "offset_limit off cnt rows =
     (if cnt < 0 then drop (nat off) rows else take (nat cnt) (drop (nat off) rows))"

text \<open>The COUNT reads \<open>db\<close>, the page \<open>env db\<close>: two statements without a shared snapshot.\<close>

definition list_feed ::
  "notify_host \<Rightarrow> host_id \<Rightarrow> string \<Rightarrow> bool \<Rightarrow> int \<Rightarrow> int \<Rightarrow> notify_env \<Rightarrow> notify_db
    \<Rightarrow> notification list \<times> nat" where
  "list_feed h u state unread_only page page_size env db =
     (offset_limit ((page - 1) * page_size) page_size
        (sort_key feed_order
          (filter (feed_conditions h u state unread_only) (nd_notifications (env db)))),
      rowcount (feed_conditions h u state unread_only) (nd_notifications db))"

definition owned :: "notify_host \<Rightarrow> host_id \<Rightarrow> nat \<Rightarrow> notify_db \<Rightarrow> notification option" where
  "owned h u nid db =
     (case row_by n_id nid (nd_notifications db) of
        None \<Rightarrow> None
      | Some n \<Rightarrow>
          if n_user n \<noteq> stored_id u then None
          else (case current_org_id h of
                  None \<Rightarrow> Some n
                | Some org \<Rightarrow> if n_org n \<noteq> stored_id org then None else Some n))"

definition save_row :: "nat \<Rightarrow> (notification \<Rightarrow> notification) \<Rightarrow> notify_db \<Rightarrow> notify_db" where
  "save_row nid f db =
     db\<lparr>nd_notifications := update_where (\<lambda>n. n_id n = nid) f (nd_notifications db)\<rparr>"

definition mark_read ::
  "notify_host \<Rightarrow> host_id \<Rightarrow> nat \<Rightarrow> instant \<Rightarrow> notify_env \<Rightarrow> notify_db
    \<Rightarrow> notification option \<times> notify_db" where
  "mark_read h u nid now env db =
     (case owned h u nid db of
        None \<Rightarrow> (None, db)
      | Some n \<Rightarrow>
          if n_read_at n = None
          then (let db1 = save_row nid (\<lambda>r. r\<lparr>n_read_at := Some now\<rparr>) (env db)
                in (row_by n_id nid (nd_notifications db1), db1))
          else (Some n, db))"

definition mark_all_read :: "notify_host \<Rightarrow> host_id \<Rightarrow> instant \<Rightarrow> notify_db \<Rightarrow> nat \<times> notify_db" where
  "mark_all_read h u now db =
     (let P = (\<lambda>n. recipient_conditions h u n \<and> n_read_at n = None)
      in (rowcount P (nd_notifications db),
          db\<lparr>nd_notifications := update_where P (\<lambda>r. r\<lparr>n_read_at := Some now\<rparr>) (nd_notifications db)\<rparr>))"

definition archive ::
  "notify_host \<Rightarrow> host_id \<Rightarrow> nat \<Rightarrow> instant \<Rightarrow> notify_env \<Rightarrow> notify_db
    \<Rightarrow> notification option \<times> notify_db" where
  "archive h u nid now env db =
     (case owned h u nid db of
        None \<Rightarrow> (None, db)
      | Some n \<Rightarrow>
          if n_archived_at n = None
          then (let db1 = save_row nid (\<lambda>r. r\<lparr>n_archived_at := Some now\<rparr>) (env db)
                in (row_by n_id nid (nd_notifications db1), db1))
          else (Some n, db))"

definition unarchive ::
  "notify_host \<Rightarrow> host_id \<Rightarrow> nat \<Rightarrow> notify_env \<Rightarrow> notify_db \<Rightarrow> notification option \<times> notify_db" where
  "unarchive h u nid env db =
     (case owned h u nid db of
        None \<Rightarrow> (None, db)
      | Some n \<Rightarrow>
          if n_archived_at n \<noteq> None
          then (let db1 = save_row nid (\<lambda>r. r\<lparr>n_archived_at := None\<rparr>) (env db)
                in (row_by n_id nid (nd_notifications db1), db1))
          else (Some n, db))"

definition archive_read :: "notify_host \<Rightarrow> host_id \<Rightarrow> instant \<Rightarrow> notify_db \<Rightarrow> nat \<times> notify_db" where
  "archive_read h u now db =
     (let P = (\<lambda>n. recipient_conditions h u n \<and> n_read_at n \<noteq> None \<and> n_archived_at n = None)
      in (rowcount P (nd_notifications db),
          db\<lparr>nd_notifications := update_where P (\<lambda>r. r\<lparr>n_archived_at := Some now\<rparr>) (nd_notifications db)\<rparr>))"

subsection \<open>The HTTP routes\<close>

datatype 'a http = Http_ok 'a | Http_error nat string

definition require_recipient :: "notify_host \<Rightarrow> host_id http" where
  "require_recipient h =
     (case current_user_id h of
        None \<Rightarrow> Http_error 401 ''No authenticated user''
      | Some u \<Rightarrow> Http_ok u)"

record notification_list =
  nl_items :: "notification list"
  nl_total :: nat
  nl_unread :: nat

text \<open>
  The query parameters are checked before the handler runs: 422 for a page below 1, a size outside
  1 to 100 and a state other than the three literals.
\<close>

definition get_notifications ::
  "notify_host \<Rightarrow> int \<Rightarrow> int \<Rightarrow> string \<Rightarrow> bool \<Rightarrow> notify_env \<Rightarrow> notify_db \<Rightarrow> notification_list http" where
  "get_notifications h page page_size state unread_only env db =
     (if page < 1 \<or> page_size < 1 \<or> 100 < page_size \<or> state \<notin> {''open'', ''archived'', ''all''}
      then Http_error 422 ''Unprocessable''
      else (case require_recipient h of
              Http_error k m \<Rightarrow> Http_error k m
            | Http_ok u \<Rightarrow>
                (case list_feed h u state unread_only page page_size env db of
                   (rows, cnt) \<Rightarrow>
                     Http_ok \<lparr>nl_items = rows, nl_total = cnt, nl_unread = unread_count h u (env db)\<rparr>)))"

text \<open>The three routes on one row: 401 without a user, 404 for a row that is not the caller's.\<close>

definition on_row ::
  "notify_host \<Rightarrow> (host_id \<Rightarrow> notification option \<times> notify_db) \<Rightarrow> notify_db
    \<Rightarrow> notification http \<times> notify_db" where
  "on_row h act db =
     (case require_recipient h of
        Http_error k m \<Rightarrow> (Http_error k m, db)
      | Http_ok u \<Rightarrow>
          (case act u of
             (None, db') \<Rightarrow> (Http_error 404 ''Notification not found'', db')
           | (Some n, db') \<Rightarrow> (Http_ok n, db')))"

definition post_read ::
  "notify_host \<Rightarrow> nat \<Rightarrow> instant \<Rightarrow> notify_env \<Rightarrow> notify_db \<Rightarrow> notification http \<times> notify_db" where
  "post_read h nid now env db = on_row h (\<lambda>u. mark_read h u nid now env db) db"

definition post_archive ::
  "notify_host \<Rightarrow> nat \<Rightarrow> instant \<Rightarrow> notify_env \<Rightarrow> notify_db \<Rightarrow> notification http \<times> notify_db" where
  "post_archive h nid now env db = on_row h (\<lambda>u. archive h u nid now env db) db"

definition post_unarchive ::
  "notify_host \<Rightarrow> nat \<Rightarrow> notify_env \<Rightarrow> notify_db \<Rightarrow> notification http \<times> notify_db" where
  "post_unarchive h nid env db = on_row h (\<lambda>u. unarchive h u nid env db) db"

definition on_feed ::
  "notify_host \<Rightarrow> (host_id \<Rightarrow> nat \<times> notify_db) \<Rightarrow> notify_db \<Rightarrow> nat http \<times> notify_db" where
  "on_feed h act db =
     (case require_recipient h of
        Http_error k m \<Rightarrow> (Http_error k m, db)
      | Http_ok u \<Rightarrow> (case act u of (n, db') \<Rightarrow> (Http_ok n, db')))"

definition post_read_all :: "notify_host \<Rightarrow> instant \<Rightarrow> notify_db \<Rightarrow> nat http \<times> notify_db" where
  "post_read_all h now db = on_feed h (\<lambda>u. mark_all_read h u now db) db"

definition post_archive_read :: "notify_host \<Rightarrow> instant \<Rightarrow> notify_db \<Rightarrow> nat http \<times> notify_db" where
  "post_archive_read h now db = on_feed h (\<lambda>u. archive_read h u now db) db"

subsection \<open>What the operations write\<close>

text \<open>
  \<open>touches P db db'\<close>: the tables differ at most in the read and archive marks of rows that satisfy
  \<open>P\<close>.
\<close>

definition same_but_marks :: "notification \<Rightarrow> notification \<Rightarrow> bool" where
  "same_but_marks n n' =
     (n' = n\<lparr>n_read_at := n_read_at n', n_archived_at := n_archived_at n'\<rparr>)"

definition touches :: "(notification \<Rightarrow> bool) \<Rightarrow> notify_db \<Rightarrow> notify_db \<Rightarrow> bool" where
  "touches P db db' =
     (db' = db\<lparr>nd_notifications := nd_notifications db'\<rparr> \<and>
      list_all2 (\<lambda>n n'. same_but_marks n n' \<and> (n' = n \<or> P n))
        (nd_notifications db) (nd_notifications db'))"

lemma same_but_marks_refl [simp]: "same_but_marks n n"
  by (simp add: same_but_marks_def)

lemma touches_refl [simp]: "touches P db db"
  by (simp add: touches_def list_all2_same)

lemma touches_update:
  assumes "\<And>n. Q n \<Longrightarrow> same_but_marks n (f n)" and "\<And>n. n \<in> set (nd_notifications db) \<Longrightarrow> Q n \<Longrightarrow> P n"
  shows "touches P db (db\<lparr>nd_notifications := update_where Q f (nd_notifications db)\<rparr>)"
  using assms by (simp add: touches_def update_where_def list_all2_map2 list_all2_same)

lemma same_but_marks_sets [simp]:
  "same_but_marks n (n\<lparr>n_read_at := t\<rparr>)"
  "same_but_marks n (n\<lparr>n_archived_at := t\<rparr>)"
  by (simp_all add: same_but_marks_def)

text \<open>The ownership test in Python is the chokepoint's condition on the row with that key.\<close>

lemma owned_alt:
  "owned h u nid db =
     (case row_by n_id nid (nd_notifications db) of
        None \<Rightarrow> None
      | Some n \<Rightarrow> if recipient_conditions h u n then Some n else None)"
  by (auto simp: owned_def recipient_conditions_def split: option.splits)

lemma owned_Some:
  "owned h u nid db = Some n \<Longrightarrow>
     n \<in> set (nd_notifications db) \<and> n_id n = nid \<and> recipient_conditions h u n"
  by (auto simp: owned_alt split: option.splits if_splits dest: row_by_Some_iff)

lemma owned_None_iff:
  assumes "distinct (map n_id (nd_notifications db))"
  shows "owned h u nid db = None \<longleftrightarrow>
           (\<forall>n\<in>set (nd_notifications db). n_id n = nid \<longrightarrow> \<not> recipient_conditions h u n)"
proof (cases "row_by n_id nid (nd_notifications db)")
  case None
  then have "nid \<notin> n_id ` set (nd_notifications db)" by (simp add: row_by_None_iff)
  with None show ?thesis by (auto simp: owned_alt)
next
  case (Some m)
  then have m: "m \<in> set (nd_notifications db)" "n_id m = nid" by (auto dest: row_by_Some_iff)
  have same: "n = m" if "n \<in> set (nd_notifications db)" "n_id n = nid" for n
    using row_by_distinct [OF assms that(1)] that Some by simp
  have "owned h u nid db = None \<longleftrightarrow> \<not> recipient_conditions h u m"
    by (simp add: owned_alt Some)
  then show ?thesis using same m by blast
qed

text \<open>An environment that keeps rows' identity: it may mark rows, insert rows, fold into rows.\<close>

definition keeps_owner :: "notify_env \<Rightarrow> notify_db \<Rightarrow> bool" where
  "keeps_owner env db =
     (\<forall>n\<in>set (nd_notifications db). \<forall>m\<in>set (nd_notifications (env db)).
        n_id m = n_id n \<longrightarrow> n_user m = n_user n \<and> n_org m = n_org n)"

lemma keeps_owner_conditions:
  assumes "keeps_owner env db" "n \<in> set (nd_notifications db)" "recipient_conditions h u n"
    and "m \<in> set (nd_notifications (env db))" "n_id m = n_id n"
  shows "recipient_conditions h u m"
proof -
  from assms(1) have "n_user m = n_user n \<and> n_org m = n_org n"
    using assms(2,4,5) unfolding keeps_owner_def by blast
  with assms(3) show ?thesis unfolding recipient_conditions_def by (simp split: option.splits)
qed

lemma save_row_touches:
  assumes "owned h u nid db = Some n" "keeps_owner env db"
    and "\<And>r. same_but_marks r (f r)"
  shows "touches (recipient_conditions h u) (env db) (save_row nid f (env db))"
proof -
  have "recipient_conditions h u m" if "m \<in> set (nd_notifications (env db))" "n_id m = nid" for m
    using keeps_owner_conditions assms(1,2) owned_Some that by metis
  then show ?thesis
    unfolding save_row_def by (intro touches_update assms(3)) auto
qed

text \<open>The three operations on one row: nothing, or a mark on a row of the caller in what is committed then.\<close>

lemma row_ops_touch:
  assumes "keeps_owner env db"
  shows "mark_read h u nid now env db = (r, db') \<Longrightarrow> db' = db \<or> touches (recipient_conditions h u) (env db) db'"
    and "archive h u nid now env db = (r, db') \<Longrightarrow> db' = db \<or> touches (recipient_conditions h u) (env db) db'"
    and "unarchive h u nid env db = (r, db') \<Longrightarrow> db' = db \<or> touches (recipient_conditions h u) (env db) db'"
  by (auto simp: mark_read_def archive_def unarchive_def Let_def
      intro!: save_row_touches [OF _ assms] split: option.splits if_splits)

lemma keeps_owner_id: "distinct (map n_id (nd_notifications db)) \<Longrightarrow> keeps_owner (\<lambda>x. x) db"
  unfolding keeps_owner_def by (metis distinct_map inj_onD)

lemma bulk_ops_touch:
  "mark_all_read h u now db = (k, db') \<Longrightarrow> touches (recipient_conditions h u) db db'"
  "archive_read h u now db = (k, db') \<Longrightarrow> touches (recipient_conditions h u) db db'"
  by (auto simp: mark_all_read_def archive_read_def Let_def intro!: touches_update)

end
