(* ===== verification/NotifyDispatch.thy ===== *)
theory NotifyDispatch
  imports NotifyModel
begin

text \<open>
  \<open>service.py\<close>, dispatcher, and its async twin in \<open>aio.py\<close>: the statements of a pass, the outcome of
  one send, and a whole pass with what other processes commit between its transactions.  Under row
  level security a connection sees the rows of the organisations \<open>sees\<close> holds of; \<open>\<lambda>_. True\<close>
  is a role the policies do not apply to.
\<close>

definition max_attempts :: nat where "max_attempts = 5"
definition stale_claim_seconds :: int where "stale_claim_seconds = 300"

definition stale_cutoff :: "instant \<Rightarrow> instant" where
  "stale_cutoff now = now - seconds stale_claim_seconds"

definition stale_claim :: "instant \<Rightarrow> delivery \<Rightarrow> bool" where
  "stale_claim now d =
     (d_status d = Sending \<and>
      (case d_claimed_at d of None \<Rightarrow> False | Some t \<Rightarrow> t < stale_cutoff now))"

definition sendable :: "delivery \<Rightarrow> bool" where
  "sendable d = (d_status d = Pending \<and> d_attempts d < max_attempts)"

definition has_pending :: "(string option \<Rightarrow> bool) \<Rightarrow> instant \<Rightarrow> notify_db \<Rightarrow> bool" where
  "has_pending sees now db =
     exists_where (\<lambda>d. sees (d_org d) \<and> (sendable d \<or> stale_claim now d)) (nd_deliveries db)"

definition refuse_tenant_blind :: "bool \<Rightarrow> bool \<Rightarrow> bool \<Rightarrow> bool \<Rightarrow> unit result" where
  "refuse_tenant_blind bound tenant_pinned postgresql row_security_active =
     guard_r (bound \<or> tenant_pinned \<or> \<not> postgresql \<or> \<not> row_security_active)
       (RuntimeErrorExn ''dispatch_pending() would read the outbox with no tenant bound'')"

subsection \<open>Opening a pass\<close>

text \<open>What a pass keeps of a row: the outbox columns and those of the notification.\<close>

type_synonym snapshot = "delivery \<times> notification"

abbreviation snap_id :: "snapshot \<Rightarrow> nat" where
  "snap_id r \<equiv> d_id (fst r)"

definition reclaim_set :: "delivery \<Rightarrow> delivery" where
  "reclaim_set d = d\<lparr>d_status := Pending, d_claimed_at := None\<rparr>"

definition reclaim :: "(string option \<Rightarrow> bool) \<Rightarrow> instant \<Rightarrow> delivery list \<Rightarrow> delivery list" where
  "reclaim sees now ds =
     update_where (\<lambda>d. sees (d_org d) \<and> stale_claim now d) reclaim_set ds"

definition join_note ::
  "(string option \<Rightarrow> bool) \<Rightarrow> notification list \<Rightarrow> delivery \<Rightarrow> snapshot list" where
  "join_note sees ns d =
     map (\<lambda>n. (d, n)) (filter (\<lambda>n. n_id n = d_notification d \<and> sees (Some (n_org n))) ns)"

definition pending_rows :: "(string option \<Rightarrow> bool) \<Rightarrow> nat \<Rightarrow> notify_db \<Rightarrow> snapshot list" where
  "pending_rows sees cnt db =
     take cnt (concat (map (join_note sees (nd_notifications db))
       (sort_key d_id (filter (\<lambda>d. sees (d_org d) \<and> sendable d) (nd_deliveries db)))))"

definition open_pass ::
  "(string option \<Rightarrow> bool) \<Rightarrow> instant \<Rightarrow> nat \<Rightarrow> notify_db \<Rightarrow> snapshot list \<times> notify_db" where
  "open_pass sees now cnt db =
     (let db1 = db\<lparr>nd_deliveries := reclaim sees now (nd_deliveries db)\<rparr>
      in (pending_rows sees cnt db1, db1))"

subsection \<open>Claim and finish\<close>

definition outbox_guard :: "(string option \<Rightarrow> bool) \<Rightarrow> nat \<Rightarrow> delivery \<Rightarrow> bool" where
  "outbox_guard sees did d = (sees (d_org d) \<and> d_id d = did \<and> d_status d = Pending)"

definition outbox_claimed :: "instant \<Rightarrow> delivery \<Rightarrow> delivery" where
  "outbox_claimed now d = d\<lparr>d_status := Sending, d_claimed_at := Some now\<rparr>"

definition claim :: "(string option \<Rightarrow> bool) \<Rightarrow> instant \<Rightarrow> nat \<Rightarrow> notify_db \<Rightarrow> bool \<times> notify_db" where
  "claim sees now did db =
     (rowcount (outbox_guard sees did) (nd_deliveries db) = 1,
      db\<lparr>nd_deliveries := update_where (outbox_guard sees did) (outbox_claimed now) (nd_deliveries db)\<rparr>)"

interpretation outbox_claim: cas_update d_id "outbox_guard sees did" "outbox_claimed now" did
  for sees did now
  by unfold_locales (auto simp: outbox_guard_def outbox_claimed_def)

record finish_values =
  fv_status :: delivery_status
  fv_attempts :: "nat option"
  fv_sent_at :: "instant option"
  fv_last_error :: "string option"

definition finish_set :: "finish_values \<Rightarrow> delivery \<Rightarrow> delivery" where
  "finish_set v d =
     d\<lparr>d_status := fv_status v,
       d_attempts := (case fv_attempts v of None \<Rightarrow> d_attempts d | Some a \<Rightarrow> a),
       d_sent_at := (case fv_sent_at v of None \<Rightarrow> d_sent_at d | Some t \<Rightarrow> Some t),
       d_last_error := fv_last_error v, d_claimed_at := None\<rparr>"

definition finish_guard :: "(string option \<Rightarrow> bool) \<Rightarrow> nat \<Rightarrow> delivery \<Rightarrow> bool" where
  "finish_guard sees did d = (sees (d_org d) \<and> d_id d = did)"

definition finish :: "(string option \<Rightarrow> bool) \<Rightarrow> nat \<Rightarrow> finish_values \<Rightarrow> notify_db \<Rightarrow> notify_db" where
  "finish sees did v db =
     db\<lparr>nd_deliveries := update_where (finish_guard sees did) (finish_set v) (nd_deliveries db)\<rparr>"

interpretation outbox_finish: row_update d_id "finish_guard sees did" "finish_set v"
  for sees did v
  by unfold_locales (simp add: finish_set_def)

subsection \<open>One send\<close>

record payload =
  pl_delivery_id :: nat
  pl_notification_id :: nat
  pl_channel :: string
  pl_recipient :: string
  pl_org :: string
  pl_action :: "string option"
  pl_topic :: "string option"
  pl_importance :: string
  pl_title :: string
  pl_body :: "string option"
  pl_link :: "string option"
  pl_data :: "pyval option"
  pl_created_at :: instant
  pl_locale :: "string option"

definition delivery_payload :: "snapshot \<Rightarrow> payload" where
  "delivery_payload r =
     (case r of (d, n) \<Rightarrow>
        \<lparr>pl_delivery_id = d_id d, pl_notification_id = d_notification d, pl_channel = d_channel d,
         pl_recipient = n_user n, pl_org = n_org n, pl_action = n_action n, pl_topic = n_topic n,
         pl_importance = n_importance n, pl_title = n_title n, pl_body = n_body n,
         pl_link = n_link n, pl_data = n_data n, pl_created_at = n_created_at n,
         pl_locale = n_locale n\<rparr>)"

definition no_adapter :: finish_values where
  "no_adapter =
     \<lparr>fv_status = Skipped, fv_attempts = None, fv_sent_at = None,
      fv_last_error = Some ''no adapter registered for channel''\<rparr>"

definition outcome :: "instant \<Rightarrow> snapshot \<Rightarrow> send_result \<Rightarrow> finish_values" where
  "outcome now r res =
     (let attempts = d_attempts (fst r) + 1 in
      case res of
        SendOk \<Rightarrow>
          \<lparr>fv_status = Sent, fv_attempts = Some attempts, fv_sent_at = Some now, fv_last_error = None\<rparr>
      | SendSkip why \<Rightarrow>
          \<lparr>fv_status = Skipped, fv_attempts = None, fv_sent_at = None,
           fv_last_error = (if why = [] then None else Some why)\<rparr>
      | SendError why \<Rightarrow>
          \<lparr>fv_status = (if max_attempts \<le> attempts then Failed else Pending),
           fv_attempts = Some attempts, fv_sent_at = None, fv_last_error = Some (take 500 why)\<rparr>)"

text \<open>The adapter's answer as the pass reads it: the sync pass refuses a coroutine.\<close>

definition sync_reply :: "string \<Rightarrow> adapter_reply \<Rightarrow> send_result" where
  "sync_reply channel reply =
     (case reply of
        Returned res \<Rightarrow> res
      | Coroutine _ \<Rightarrow>
          SendError (''the '' @ py_repr channel @
            '' adapter is async; dispatch with asas_notifications.aio.dispatch_pending''))"

definition async_reply :: "adapter_reply \<Rightarrow> send_result" where
  "async_reply reply = (case reply of Returned res \<Rightarrow> res | Coroutine res \<Rightarrow> res)"

type_synonym registry = "string \<Rightarrow> payload adapter option"

definition deliver :: "registry \<Rightarrow> instant \<Rightarrow> snapshot \<Rightarrow> finish_values" where
  "deliver reg now r =
     (case adapter_for reg (d_channel (fst r)) of
        None \<Rightarrow> no_adapter
      | Some send \<Rightarrow> outcome now r (sync_reply (d_channel (fst r)) (send (delivery_payload r))))"

definition deliver_async :: "registry \<Rightarrow> instant \<Rightarrow> snapshot \<Rightarrow> finish_values" where
  "deliver_async reg now r =
     (case adapter_for reg (d_channel (fst r)) of
        None \<Rightarrow> no_adapter
      | Some send \<Rightarrow> outcome now r (async_reply (send (delivery_payload r))))"

subsection \<open>A whole pass\<close>

text \<open>
  \<open>send k\<close> is the k-th delivery of the pass (\<open>deliver\<close> or \<open>deliver_async\<close> with the adapters and the
  clock of that moment); \<open>env k\<close> is what others commit before the k-th transaction after the first,
  \<open>clk k\<close> the clock there.
\<close>

fun dispatch_loop ::
  "(string option \<Rightarrow> bool) \<Rightarrow> (nat \<Rightarrow> snapshot \<Rightarrow> finish_values) \<Rightarrow> (nat \<Rightarrow> notify_db \<Rightarrow> notify_db)
    \<Rightarrow> (nat \<Rightarrow> instant) \<Rightarrow> nat \<Rightarrow> snapshot list \<Rightarrow> notify_db \<Rightarrow> nat \<times> notify_db" where
  "dispatch_loop sees send env clk k [] db = (0, db)"
| "dispatch_loop sees send env clk k (r # rs) db =
     (case claim sees (clk k) (snap_id r) (env k db) of
        (False, db1) \<Rightarrow> dispatch_loop sees send env clk (Suc k) rs db1
      | (True, db1) \<Rightarrow>
          (let db2 = finish sees (snap_id r) (send k r) (env (Suc k) db1)
           in case dispatch_loop sees send env clk (Suc (Suc k)) rs db2 of
                (handled, db3) \<Rightarrow> (Suc handled, db3)))"

definition dispatch_pending ::
  "(string option \<Rightarrow> bool) \<Rightarrow> bool \<Rightarrow> bool \<Rightarrow> bool \<Rightarrow> bool \<Rightarrow> nat \<Rightarrow> (nat \<Rightarrow> snapshot \<Rightarrow> finish_values)
    \<Rightarrow> (nat \<Rightarrow> notify_db \<Rightarrow> notify_db) \<Rightarrow> (nat \<Rightarrow> instant) \<Rightarrow> notify_db \<Rightarrow> nat result \<times> notify_db" where
  "dispatch_pending sees bound tenant_pinned postgresql row_security_active cnt send env clk db =
     (case refuse_tenant_blind bound tenant_pinned postgresql row_security_active of
        Inl e \<Rightarrow> (Inl e, db)
      | Inr _ \<Rightarrow>
          (case open_pass sees (clk 0) cnt db of
             (rows, db1) \<Rightarrow>
               (case dispatch_loop sees send env clk 1 rows db1 of
                  (handled, db2) \<Rightarrow> (Inr handled, db2))))"

subsection \<open>An undisturbed pass\<close>

text \<open>
  The abstract pass: every row picked is replaced by its outcome, all others stay.  \<open>picked k rs\<close>
  pairs each row with the index of its send.
\<close>

fun settle_all ::
  "(nat \<Rightarrow> snapshot \<Rightarrow> finish_values) \<Rightarrow> nat \<Rightarrow> snapshot list \<Rightarrow> delivery list \<Rightarrow> delivery list" where
  "settle_all send k [] ds = ds"
| "settle_all send k (r # rs) ds =
     settle_all send (Suc (Suc k)) rs
       (update_where (\<lambda>d. d_id d = snap_id r) (finish_set (send k r)) ds)"

lemma finish_set_id [simp]: "d_id (finish_set v d) = d_id d"
  by (simp add: finish_set_def)

lemma finish_set_keys: "map d_id (update_where P (finish_set v) ds) = map d_id ds"
  by (induction ds) simp_all

lemma settle_all_keys: "map d_id (settle_all send k rs ds) = map d_id ds"
  by (induction send k rs ds rule: settle_all.induct) (simp_all add: finish_set_keys)

text \<open>A claim that wins, then the mark: together the outcome, on that row alone.\<close>

lemma finish_after_claim:
  assumes "distinct (map d_id ds)" "d \<in> set ds" "sees (d_org d)"
    and "d_id d = did"
  shows "update_where (finish_guard sees did) (finish_set v)
           (update_where (outbox_guard sees did) (outbox_claimed now) ds) =
         update_where (\<lambda>x. d_id x = did) (finish_set v) ds"
proof -
  have same: "x = d" if "x \<in> set ds" "d_id x = did" for x
  proof -
    from that assms(2,4) have "d_id x = d_id d" by simp
    with assms(1,2) that(1) show ?thesis by (metis distinct_map inj_onD)
  qed
  show ?thesis
    unfolding update_where_def map_map
  proof (rule map_cong [OF refl])
    fix x assume x: "x \<in> set ds"
    show "((\<lambda>r. if finish_guard sees did r then finish_set v r else r) \<circ>
            (\<lambda>r. if outbox_guard sees did r then outbox_claimed now r else r)) x =
          (if d_id x = did then finish_set v x else x)"
    proof (cases "d_id x = did")
      case True
      with same x have "x = d" by blast
      with assms(3,4) show ?thesis
        by (simp add: finish_guard_def outbox_guard_def outbox_claimed_def finish_set_def
            split: option.splits)
    next
      case False
      then show ?thesis by (simp add: finish_guard_def outbox_guard_def)
    qed
  qed
qed

lemma claim_wins:
  assumes "distinct (map d_id (nd_deliveries db))" "d \<in> set (nd_deliveries db)"
    and "sees (d_org d)" "d_status d = Pending"
  shows "fst (claim sees now (d_id d) db)"
proof -
  have "rowcount (outbox_guard sees (d_id d)) (nd_deliveries db) \<noteq> 0"
    using assms(2-4) unfolding rowcount_0_iff outbox_guard_def by blast
  with outbox_claim.at_most_one [OF assms(1), of sees "d_id d"]
  show ?thesis by (simp add: claim_def)
qed

lemma dispatch_loop_undisturbed:
  assumes "distinct (map d_id (nd_deliveries db))" "distinct (map snap_id rs)"
    and "\<And>r. r \<in> set rs \<Longrightarrow> fst r \<in> set (nd_deliveries db) \<and> sees (d_org (fst r)) \<and> sendable (fst r)"
  shows "dispatch_loop sees send (\<lambda>_ x. x) clk k rs db =
           (length rs, db\<lparr>nd_deliveries := settle_all send k rs (nd_deliveries db)\<rparr>)"
  using assms
proof (induction rs arbitrary: k db)
  case Nil
  then show ?case by simp
next
  case (Cons r rs)
  let ?ds = "nd_deliveries db"
  let ?ds' = "update_where (\<lambda>d. d_id d = snap_id r) (finish_set (send k r)) ?ds"
  have r: "fst r \<in> set ?ds" "sees (d_org (fst r))" "d_status (fst r) = Pending"
    using Cons.prems(3) [of r] by (auto simp: sendable_def)
  obtain db1 where c: "claim sees (clk k) (snap_id r) db = (True, db1)"
    and db1: "db1 = db\<lparr>nd_deliveries := update_where (outbox_guard sees (snap_id r)) (outbox_claimed (clk k)) ?ds\<rparr>"
    using claim_wins [of db "fst r" sees "clk k"] Cons.prems(1) r by (auto simp: claim_def)
  have fin: "finish sees (snap_id r) (send k r) db1 = db\<lparr>nd_deliveries := ?ds'\<rparr>"
    using finish_after_claim [of ?ds "fst r" sees "snap_id r" "send k r" "clk k"] Cons.prems(1) r db1
    by (simp add: finish_def)
  have keys: "map d_id ?ds' = map d_id ?ds" by (rule finish_set_keys)
  have kept: "x \<in> set ?ds'" if "x \<in> set ?ds" "d_id x \<noteq> snap_id r" for x
    using that by (auto simp: set_update_where)
  have IH: "dispatch_loop sees send (\<lambda>_ x. x) clk (Suc (Suc k)) rs (db\<lparr>nd_deliveries := ?ds'\<rparr>) =
      (length rs, (db\<lparr>nd_deliveries := ?ds'\<rparr>)\<lparr>nd_deliveries := settle_all send (Suc (Suc k)) rs ?ds'\<rparr>)"
  proof (subst Cons.IH)
    show "distinct (map d_id (nd_deliveries (db\<lparr>nd_deliveries := ?ds'\<rparr>)))"
      using Cons.prems(1) keys by simp
    show "distinct (map snap_id rs)" using Cons.prems(2) by simp
    fix q assume q: "q \<in> set rs"
    have "snap_id r \<notin> snap_id ` set rs" using Cons.prems(2) by simp
    with q have "snap_id q \<noteq> snap_id r" by (metis image_eqI)
    with Cons.prems(3) [of q] q kept
    show "fst q \<in> set (nd_deliveries (db\<lparr>nd_deliveries := ?ds'\<rparr>)) \<and> sees (d_org (fst q)) \<and>
          sendable (fst q)" by simp
  qed simp
  show ?case by (simp add: c fin IH)
qed

end
