(* ===== verification/NotifyPasses.thy ===== *)
theory NotifyPasses
  imports NotifyDispatch
begin

text \<open>
  Dispatch passes of any number of processes on one outbox: every transaction of a pass is a step,
  and so are the clock, the adapter's answer (outside any transaction), a crash and what producers
  commit.  The processes read one clock.
\<close>

datatype phase =
    Off
  | Walking "string option \<Rightarrow> bool" "snapshot list"
  | Claimed "string option \<Rightarrow> bool" snapshot instant "snapshot list"
  | Answered "string option \<Rightarrow> bool" snapshot instant "send_result option" "snapshot list"

record outbox =
  ob_db :: notify_db
  ob_now :: instant
  ob_pass :: "nat \<Rightarrow> phase"
  ob_sends :: "(nat \<times> send_result) list"   \<comment> \<open>what adapters answered, for which delivery\<close>

datatype event =
    Tick instant
  | OpenPass nat "string option \<Rightarrow> bool" nat
  | ClaimNext nat
  | Answer nat "send_result option"   \<comment> \<open>\<open>None\<close>: no adapter for the channel\<close>
  | Finish nat
  | ClosePass nat
  | Crash nat
  | Host notify_db

definition fresh_delivery :: "delivery \<Rightarrow> bool" where
  "fresh_delivery d =
     (d_status d = Pending \<and> d_attempts d = 0 \<and> d_claimed_at d = None \<and> d_sent_at d = None)"

text \<open>What producers and readers do to the outbox: they append fresh rows.\<close>

definition host_work :: "notify_db \<Rightarrow> notify_db \<Rightarrow> bool" where
  "host_work db db' =
     (let ds = nd_deliveries db; ds' = nd_deliveries db'
      in take (length ds) ds' = ds \<and> list_all fresh_delivery (drop (length ds) ds') \<and>
         distinct (map d_id ds'))"

definition answer_values :: "instant \<Rightarrow> snapshot \<Rightarrow> send_result option \<Rightarrow> finish_values" where
  "answer_values now r reply = (case reply of None \<Rightarrow> no_adapter | Some res \<Rightarrow> outcome now r res)"

definition set_pass :: "nat \<Rightarrow> phase \<Rightarrow> outbox \<Rightarrow> outbox" where
  "set_pass p ph s = s\<lparr>ob_pass := (ob_pass s)(p := ph)\<rparr>"

definition answered :: "snapshot \<Rightarrow> send_result option \<Rightarrow> (nat \<times> send_result) list" where
  "answered r reply = (case reply of None \<Rightarrow> [] | Some res \<Rightarrow> [(snap_id r, res)])"

fun outbox_step :: "event \<Rightarrow> outbox \<Rightarrow> outbox option" where
  "outbox_step (Tick t) s = (if ob_now s \<le> t then Some (s\<lparr>ob_now := t\<rparr>) else None)"
| "outbox_step (OpenPass p sees cnt) s =
     (case ob_pass s p of
        Off \<Rightarrow>
          (case open_pass sees (ob_now s) cnt (ob_db s) of
             (rows, db) \<Rightarrow> Some (set_pass p (Walking sees rows) (s\<lparr>ob_db := db\<rparr>)))
      | _ \<Rightarrow> None)"
| "outbox_step (ClaimNext p) s =
     (case ob_pass s p of
        Walking sees (r # rs) \<Rightarrow>
          (case claim sees (ob_now s) (snap_id r) (ob_db s) of
             (won, db) \<Rightarrow>
               Some (set_pass p (if won then Claimed sees r (ob_now s) rs else Walking sees rs)
                 (s\<lparr>ob_db := db\<rparr>)))
      | _ \<Rightarrow> None)"
| "outbox_step (Answer p reply) s =
     (case ob_pass s p of
        Claimed sees r c rs \<Rightarrow>
          Some (set_pass p (Answered sees r c reply rs)
            (s\<lparr>ob_sends := ob_sends s @ answered r reply\<rparr>))
      | _ \<Rightarrow> None)"
| "outbox_step (Finish p) s =
     (case ob_pass s p of
        Answered sees r c reply rs \<Rightarrow>
          Some (set_pass p (Walking sees rs)
            (s\<lparr>ob_db := finish sees (snap_id r) (answer_values (ob_now s) r reply) (ob_db s)\<rparr>))
      | _ \<Rightarrow> None)"
| "outbox_step (ClosePass p) s =
     (case ob_pass s p of Walking sees [] \<Rightarrow> Some (set_pass p Off s) | _ \<Rightarrow> None)"
| "outbox_step (Crash p) s = Some (set_pass p Off s)"
| "outbox_step (Host db') s =
     (if host_work (ob_db s) db' then Some (s\<lparr>ob_db := db'\<rparr>) else None)"

fun run_events :: "event list \<Rightarrow> outbox \<Rightarrow> outbox option" where
  "run_events [] s = Some s"
| "run_events (e # es) s = Option.bind (outbox_step e s) (run_events es)"

definition any_step :: "outbox \<Rightarrow> outbox \<Rightarrow> bool" where
  "any_step s t = (\<exists>e. outbox_step e s = Some t)"

text \<open>A row a pass has claimed and not yet marked, with the time of the claim.\<close>

definition holding :: "phase \<Rightarrow> (snapshot \<times> instant) option" where
  "holding ph =
     (case ph of
        Claimed _ r c _ \<Rightarrow> Some (r, c)
      | Answered _ r c _ _ \<Rightarrow> Some (r, c)
      | _ \<Rightarrow> None)"

definition holding_sees :: "phase \<Rightarrow> string option \<Rightarrow> bool" where
  "holding_sees ph =
     (case ph of Walking sees _ \<Rightarrow> sees | Claimed sees _ _ _ \<Rightarrow> sees | Answered sees _ _ _ _ \<Rightarrow> sees
      | Off \<Rightarrow> (\<lambda>_. False))"

fun todo :: "phase \<Rightarrow> snapshot list" where
  "todo Off = []"
| "todo (Walking _ rs) = rs"
| "todo (Claimed _ r _ rs) = r # rs"
| "todo (Answered _ r _ _ rs) = r # rs"

text \<open>No send outlives the stale-claim window.\<close>

definition prompt :: "outbox \<Rightarrow> bool" where
  "prompt s =
     (\<forall>p r c. holding (ob_pass s p) = Some (r, c) \<longrightarrow> ob_now s - c \<le> seconds stale_claim_seconds)"

definition prompt_step :: "outbox \<Rightarrow> outbox \<Rightarrow> bool" where
  "prompt_step s t = (any_step s t \<and> prompt s)"

definition outbox_start :: "outbox \<Rightarrow> bool" where
  "outbox_start s =
     (ob_pass s = (\<lambda>_. Off) \<and> ob_sends s = [] \<and> nd_deliveries (ob_db s) = [])"

lemma holding_simps [simp]:
  "holding Off = None"
  "holding (Walking sees rs) = None"
  "holding (Claimed sees r c rs) = Some (r, c)"
  "holding (Answered sees r c reply rs) = Some (r, c)"
  by (simp_all add: holding_def)

lemma set_pass_simps [simp]:
  "ob_db (set_pass p ph s) = ob_db s"
  "ob_now (set_pass p ph s) = ob_now s"
  "ob_sends (set_pass p ph s) = ob_sends s"
  "ob_pass (set_pass p ph s) = (ob_pass s)(p := ph)"
  by (simp_all add: set_pass_def)

subsection \<open>Bounds that hold whatever the speed of the sends\<close>

text \<open>
  A row waiting or in flight has attempts left, a row in flight carries the time of its claim (so a
  crashed claim is always reclaimed), and every row a pass still holds in hand had attempts left.
\<close>

definition row_ok :: "delivery \<Rightarrow> bool" where
  "row_ok d =
     (d_attempts d \<le> max_attempts \<and>
      (d_status d \<in> {Pending, Sending} \<longrightarrow> d_attempts d < max_attempts) \<and>
      (d_status d = Sending \<longleftrightarrow> d_claimed_at d \<noteq> None))"

definition bounds_inv :: "outbox \<Rightarrow> bool" where
  "bounds_inv s =
     (distinct (map d_id (nd_deliveries (ob_db s))) \<and>
      (\<forall>d\<in>set (nd_deliveries (ob_db s)). row_ok d) \<and>
      (\<forall>p. \<forall>r\<in>set (todo (ob_pass s p)). d_attempts (fst r) < max_attempts))"

lemma row_ok_fresh: "fresh_delivery d \<Longrightarrow> row_ok d"
  by (simp add: fresh_delivery_def row_ok_def max_attempts_def)

lemma row_ok_claim: "row_ok d \<Longrightarrow> outbox_guard sees did d \<Longrightarrow> row_ok (outbox_claimed now d)"
  by (simp add: row_ok_def outbox_claimed_def outbox_guard_def)

lemma row_ok_finish:
  "row_ok d \<Longrightarrow> d_attempts (fst r) < max_attempts \<Longrightarrow> row_ok (finish_set (answer_values now r reply) d)"
  by (auto simp: row_ok_def finish_set_def answer_values_def no_adapter_def outcome_def Let_def
      split: option.splits send_result.splits)

lemma row_ok_reclaim: "row_ok d \<Longrightarrow> stale_claim now d \<Longrightarrow> row_ok (reclaim_set d)"
  by (simp add: row_ok_def stale_claim_def reclaim_set_def)

lemma reclaim_keys: "map d_id (reclaim sees now ds) = map d_id ds"
  unfolding reclaim_def by (induction ds) (simp_all add: reclaim_set_def)

lemma pending_rows_set:
  "r \<in> set (pending_rows sees cnt db) \<Longrightarrow>
     fst r \<in> set (nd_deliveries db) \<and> sees (d_org (fst r)) \<and> sendable (fst r) \<and>
     snd r \<in> set (nd_notifications db) \<and> n_id (snd r) = d_notification (fst r)"
  by (auto simp: pending_rows_def join_note_def dest!: in_set_takeD)

lemma host_work_deliveries:
  assumes "host_work db db'"
  obtains new where "nd_deliveries db' = nd_deliveries db @ new" "list_all fresh_delivery new"
    "distinct (map d_id (nd_deliveries db'))"
proof
  let ?n = "length (nd_deliveries db)"
  show "nd_deliveries db' = nd_deliveries db @ drop ?n (nd_deliveries db')"
    using assms unfolding host_work_def Let_def by (metis append_take_drop_id)
  show "list_all fresh_delivery (drop ?n (nd_deliveries db'))"
    using assms by (simp add: host_work_def Let_def)
  show "distinct (map d_id (nd_deliveries db'))"
    using assms by (simp add: host_work_def Let_def)
qed

lemma bounds_inv_step:
  assumes "bounds_inv s" "outbox_step e s = Some t"
  shows "bounds_inv t"
proof -
  have ids: "distinct (map d_id (nd_deliveries (ob_db s)))"
    and rows: "\<forall>d\<in>set (nd_deliveries (ob_db s)). row_ok d"
    and hand: "\<And>p r. r \<in> set (todo (ob_pass s p)) \<Longrightarrow> d_attempts (fst r) < max_attempts"
    using assms(1) by (auto simp: bounds_inv_def)
  have upd: "bounds_inv (set_pass p ph (s\<lparr>ob_db := db\<rparr>))" "bounds_inv (set_pass p ph (s\<lparr>ob_db := db, ob_sends := l\<rparr>))"
    if "distinct (map d_id (nd_deliveries db))" "\<forall>d\<in>set (nd_deliveries db). row_ok d"
      "\<forall>r\<in>set (todo ph). d_attempts (fst r) < max_attempts" for p ph db l
    using that hand by (auto simp: bounds_inv_def)
  show ?thesis
  proof (cases e)
    case (Tick now)
    with assms(2) have "t = s\<lparr>ob_now := now\<rparr>" by (simp split: if_splits)
    with assms(1) show ?thesis by (simp add: bounds_inv_def)
  next
    case (OpenPass p sees cnt)
    obtain rows' db where o: "open_pass sees (ob_now s) cnt (ob_db s) = (rows', db)" by fastforce
    with OpenPass assms(2) have t: "t = set_pass p (Walking sees rows') (s\<lparr>ob_db := db\<rparr>)"
      by (auto split: phase.splits)
    have ds: "nd_deliveries db = reclaim sees (ob_now s) (nd_deliveries (ob_db s))"
      and rs: "rows' = pending_rows sees cnt db"
      using o by (auto simp: open_pass_def Let_def)
    have "\<forall>d\<in>set (nd_deliveries db). row_ok d"
      unfolding ds reclaim_def ball_update_where using rows row_ok_reclaim by auto
    moreover have "\<forall>r\<in>set rows'. d_attempts (fst r) < max_attempts"
      using pending_rows_set rs by (auto simp: sendable_def)
    ultimately show ?thesis unfolding t using ids by (intro upd) (simp_all add: ds reclaim_keys)
  next
    case (ClaimNext p)
    then obtain sees r rs where ph: "ob_pass s p = Walking sees (r # rs)"
      using assms(2) by (auto split: phase.splits list.splits)
    obtain won db where c: "claim sees (ob_now s) (snap_id r) (ob_db s) = (won, db)" by fastforce
    have t: "t = set_pass p (if won then Claimed sees r (ob_now s) rs else Walking sees rs) (s\<lparr>ob_db := db\<rparr>)"
      using ClaimNext assms(2) ph c by simp
    have ds: "nd_deliveries db =
        update_where (outbox_guard sees (snap_id r)) (outbox_claimed (ob_now s)) (nd_deliveries (ob_db s))"
      using c by (auto simp: claim_def)
    have "\<forall>d\<in>set (nd_deliveries db). row_ok d"
      unfolding ds ball_update_where using rows row_ok_claim by simp
    moreover have "\<forall>q\<in>set (r # rs). d_attempts (fst q) < max_attempts"
      using hand [of _ p] ph by simp
    ultimately show ?thesis
      unfolding t using ids by (intro upd) (simp_all add: ds outbox_claim.keys_kept)
  next
    case (Answer p reply)
    then obtain sees r c rs where ph: "ob_pass s p = Claimed sees r c rs"
      using assms(2) by (auto split: phase.splits)
    have t: "t = set_pass p (Answered sees r c reply rs)
        (s\<lparr>ob_db := ob_db s, ob_sends := ob_sends s @ answered r reply\<rparr>)"
      using Answer assms(2) ph by simp
    have "\<forall>q\<in>set (r # rs). d_attempts (fst q) < max_attempts" using hand [of _ p] ph by simp
    then show ?thesis unfolding t using ids rows by (intro upd) simp_all
  next
    case (Finish p)
    then obtain sees r c reply rs where ph: "ob_pass s p = Answered sees r c reply rs"
      using assms(2) by (auto split: phase.splits)
    let ?v = "answer_values (ob_now s) r reply"
    have t: "t = set_pass p (Walking sees rs) (s\<lparr>ob_db := finish sees (snap_id r) ?v (ob_db s)\<rparr>)"
      using Finish assms(2) ph by simp
    have att: "\<forall>q\<in>set (r # rs). d_attempts (fst q) < max_attempts" using hand [of _ p] ph by simp
    have "\<forall>d\<in>set (nd_deliveries (finish sees (snap_id r) ?v (ob_db s))). row_ok d"
      unfolding finish_def using rows row_ok_finish att by (simp add: ball_update_where)
    then show ?thesis unfolding t using att ids by (intro upd) (simp_all add: finish_def finish_set_keys)
  next
    case (ClosePass p)
    then have "t = set_pass p Off (s\<lparr>ob_db := ob_db s\<rparr>)"
      using assms(2) by (auto split: phase.splits list.splits)
    then show ?thesis using upd(1) [of "ob_db s" Off] ids rows by simp
  next
    case (Crash p)
    then have "t = set_pass p Off (s\<lparr>ob_db := ob_db s\<rparr>)" using assms(2) by simp
    then show ?thesis using upd(1) [of "ob_db s" Off] ids rows by simp
  next
    case (Host db')
    then have h: "host_work (ob_db s) db'" and t: "t = s\<lparr>ob_db := db'\<rparr>"
      using assms(2) by (auto split: if_splits)
    from h obtain new where "nd_deliveries db' = nd_deliveries (ob_db s) @ new"
      "list_all fresh_delivery new" "distinct (map d_id (nd_deliveries db'))"
      by (rule host_work_deliveries)
    then show ?thesis using rows hand row_ok_fresh unfolding t bounds_inv_def
      by (auto simp: list_all_iff)
  qed
qed

lemma bounds_inv_start: "outbox_start s \<Longrightarrow> bounds_inv s"
  by (simp add: outbox_start_def bounds_inv_def)

interpretation bounds: invariant_system outbox_start any_step bounds_inv
  by unfold_locales (auto simp: any_step_def intro: bounds_inv_start bounds_inv_step)

end
