(* ===== verification/NotifyTables.thy ===== *)
theory NotifyTables
  imports NotifyRoute NotifyFeed NotifyPasses
begin

text \<open>
  Facts about routing and emitting: the matrix as a function of the rows it consults, and the writes
  of an emit as new rows after old ones.
\<close>

subsection \<open>The matrix\<close>

text \<open>What routing answers for one channel, from the rows of the org and the rung's verdict.\<close>

definition route_spec :: "string \<Rightarrow> string \<Rightarrow> policy_row list \<Rightarrow> bool \<Rightarrow> string \<Rightarrow> bool option" where
  "route_spec topic imp rows emails ch =
     (case pick_cell ch topic imp rows of
        Some r \<Rightarrow> if p_enabled r then Some (p_mandatory r) else None
      | None \<Rightarrow> if ch = in_app \<or> ch = ''email'' \<and> emails then Some False else None)"

definition org_emails :: "notify_db \<Rightarrow> host_id option \<Rightarrow> string \<Rightarrow> bool" where
  "org_emails db org imp =
     rung_emails (normalize_id org) (filter (\<lambda>r. iv_key r = imp) (catalogue (normalize_id org) db))"

lemma in_app_not_email [simp]: "in_app \<noteq> ''email''" "''email'' \<noteq> in_app"
  by (simp_all add: in_app_def)

lemma importance_rows_coherent:
  assumes "cache_coherent now (nc_importances c org) (catalogue org db)"
    and "importance_rows refresh org now db c = (rows, c')"
  shows "rows = catalogue org db" "cache_coherent now (nc_importances c' org) (catalogue org db)"
    "nc_policies c' = nc_policies c"
  using assms cached_entry_coherent [OF assms(1), of refresh]
  by (auto simp: importance_rows_def Let_def cache_coherent_def)

lemma emails_by_default_coherent:
  assumes "cache_coherent now (nc_importances c (normalize_id org)) (catalogue (normalize_id org) db)"
    and "emails_by_default now db org imp c = (b, c')"
  shows "b = org_emails db org imp"
    "cache_coherent now (nc_importances c' (normalize_id org)) (catalogue (normalize_id org) db)"
proof -
  let ?o = "normalize_id org"
  obtain rows c1 where r1: "importance_rows False ?o now db c = (rows, c1)" by fastforce
  obtain rows' c2 where r2: "importance_rows True ?o now db c1 = (rows', c2)" by fastforce
  note f1 = importance_rows_coherent [OF assms(1) r1]
  note f2 = importance_rows_coherent [OF f1(2) r2]
  show "b = org_emails db org imp" "cache_coherent now (nc_importances c' ?o) (catalogue ?o db)"
    using assms(2) f1 f2
    by (auto simp: emails_by_default_def Let_def r1 r2 org_emails_def split: list.splits)
qed

lemma resolve_channel_coherent:
  assumes "cache_coherent now (nc_importances c (normalize_id org)) (catalogue (normalize_id org) db)"
    and "resolve_channel now db org topic imp rows ch c = (m, c')"
  shows "m = route_spec topic imp rows (org_emails db org imp) ch"
    "cache_coherent now (nc_importances c' (normalize_id org)) (catalogue (normalize_id org) db)"
  using assms emails_by_default_coherent [OF assms(1)]
  by (auto simp: resolve_channel_def route_spec_def split: option.splits if_splits prod.splits)

lemma resolve_loop_coherent:
  assumes "cache_coherent now (nc_importances c (normalize_id org)) (catalogue (normalize_id org) db)"
    and "distinct chs"
  shows "map_of (fst (resolve_loop now db org topic imp rows chs c)) ch =
           (if ch \<in> set chs then route_spec topic imp rows (org_emails db org imp) ch else None)"
  using assms
proof (induction chs arbitrary: c)
  case Nil
  then show ?case by simp
next
  case (Cons x chs)
  obtain m c1 where r: "resolve_channel now db org topic imp rows x c = (m, c1)" by fastforce
  obtain rest c2 where l: "resolve_loop now db org topic imp rows chs c1 = (rest, c2)" by fastforce
  note f = resolve_channel_coherent [OF Cons.prems(1) r]
  have IH: "map_of rest ch = (if ch \<in> set chs then route_spec topic imp rows (org_emails db org imp) ch else None)"
    using Cons.IH [OF f(2)] Cons.prems(2) l by simp
  then show ?case using f(1) Cons.prems(2)
    by (auto simp: r l split: option.splits)
qed

lemma pick_cell_other_channel: "ch \<notin> p_channel ` set rows \<Longrightarrow> pick_cell ch topic imp rows = None"
  by (auto simp: pick_cell_def cell_matches_def filter_empty_conv)

lemma resolve_channels_coherent:
  assumes "cache_coherent now (nc_policies c org) (policies_for org db)"
    and "cache_coherent now (nc_importances c (normalize_id org)) (catalogue (normalize_id org) db)"
  shows "map_of (fst (resolve_channels now db org topic imp c)) ch =
           route_spec topic imp (policies_for org db) (org_emails db org imp) ch"
proof -
  obtain rows c1 where p: "policy_rows now db org c = (rows, c1)" by fastforce
  have rows: "rows = policies_for org db" and i: "nc_importances c1 = nc_importances c"
    using p cached_entry_coherent [OF assms(1)] by (auto simp: policy_rows_def Let_def)
  let ?chs = "remdups ([in_app, ''email''] @ map p_channel rows)"
  have "map_of (fst (resolve_channels now db org topic imp c)) ch =
      (if ch \<in> set ?chs then route_spec topic imp rows (org_emails db org imp) ch else None)"
    unfolding resolve_channels_def p prod.case
    by (rule resolve_loop_coherent) (use assms(2) i in simp_all)
  moreover have "set ?chs = insert in_app (insert ''email'' (p_channel ` set rows))"
    by (simp only: set_remdups set_append list.set set_map) blast
  moreover have "route_spec topic imp rows (org_emails db org imp) ch = None"
    if "ch \<notin> insert in_app (insert ''email'' (p_channel ` set rows))"
    using that pick_cell_other_channel [of ch rows] by (simp add: route_spec_def)
  ultimately show ?thesis unfolding rows by metis
qed

text \<open>Routing reads the tables only through the org's own rows and the platform's.\<close>

lemma resolve_loop_cong:
  assumes "catalogue (normalize_id org) db' = catalogue (normalize_id org) db"
  shows "resolve_loop now db' org topic imp rows chs c = resolve_loop now db org topic imp rows chs c"
proof (induction chs arbitrary: c)
  case Nil
  then show ?case by simp
next
  case (Cons x chs)
  have "importance_rows b (normalize_id org) now db' c = importance_rows b (normalize_id org) now db c" for b c
    by (simp add: importance_rows_def assms)
  then have "emails_by_default now db' org imp c = emails_by_default now db org imp c" for c
    by (simp add: emails_by_default_def Let_def split: prod.split list.split)
  then show ?case by (simp add: Cons.IH resolve_channel_def split: prod.split option.split)
qed

lemma resolve_channels_cong:
  assumes "policies_for org db' = policies_for org db"
    and "catalogue (normalize_id org) db' = catalogue (normalize_id org) db"
  shows "resolve_channels now db' org topic imp c = resolve_channels now db org topic imp c"
  by (simp add: resolve_channels_def policy_rows_def assms(1) resolve_loop_cong [OF assms(2)])

subsection \<open>Recipients\<close>

lemma dedupe_ids_set: "set (dedupe_ids seen xs) = set xs - set seen"
  by (induction seen xs rule: dedupe_ids.induct) auto

lemma dedupe_ids_distinct: "distinct (dedupe_ids seen xs)"
  by (induction seen xs rule: dedupe_ids.induct) (auto simp: dedupe_ids_set)

lemma addressed_set:
  "u \<in> set (addressed e) \<longleftrightarrow>
     Some u \<in> set (e_recipients e) \<and> (\<forall>a. e_actor e = Some a \<longrightarrow> stored_id u \<noteq> stored_id a)"
proof -
  have "u \<in> set (List.map_filter id (e_recipients e)) \<longleftrightarrow> Some u \<in> set (e_recipients e)"
    by (auto simp: List.map_filter_def image_iff)
  then show ?thesis
    by (auto simp: addressed_def Let_def dedupe_ids_set split: option.splits)
qed

text \<open>The host's filter returns some of the recipients it is handed.\<close>

definition filter_narrows :: "notify_host \<Rightarrow> bool" where
  "filter_narrows h =
     (\<forall>f ids t i r out. nh_filter h = Some f \<longrightarrow> f ids t i r = Inr out \<longrightarrow> set out \<subseteq> set ids)"

lemma filtered_subset:
  assumes "filter_narrows h" "filtered_recipients h e = Inr us" "u \<in> set us"
  shows "u \<in> set (addressed e)"
proof (cases "nh_filter h")
  case None
  with assms show ?thesis by (simp add: filtered_recipients_def)
next
  case (Some f)
  show ?thesis
  proof (cases "has_text (e_entity_type e)")
    case True
    with Some assms(2) have "f (addressed e) (the (e_entity_type e)) (e_entity_id e) (e_record e) = Inr us"
      by (simp add: filtered_recipients_def)
    with assms(1) Some have "set us \<subseteq> set (addressed e)" unfolding filter_narrows_def by blast
    with assms(3) show ?thesis by blast
  next
    case False
    with Some assms(2,3) show ?thesis by (simp add: filtered_recipients_def split: if_splits)
  qed
qed

lemma shim_emit_simps [simp]:
  "e_recipients (shim_emit c e) = e_recipients e"
  "e_actor (shim_emit c e) = e_actor e"
  "e_entity_type (shim_emit c e) = e_entity_type e"
  "e_entity_id (shim_emit c e) = e_entity_id e"
  "e_record (shim_emit c e) = e_record e"
  "e_org (shim_emit c e) = e_org e"
  "e_coalesce (shim_emit c e) = e_coalesce e"
  "e_action (shim_emit c e) = (case e_action e of None \<Rightarrow> e_kind e | Some a \<Rightarrow> Some a)"
  by (auto simp: shim_emit_def Let_def split: option.splits)

subsection \<open>Writes\<close>

definition identity_of :: "notification \<Rightarrow> nat \<times> string \<times> string \<times> string option \<times> string option \<times> string option" where
  "identity_of n = (n_id n, n_org n, n_user n, n_action n, n_entity_type n, n_entity_id n)"

text \<open>A row before and after an emit folded into it, perhaps.\<close>

definition folded :: "emit_call \<Rightarrow> string \<Rightarrow> host_id set \<Rightarrow> notification \<Rightarrow> notification \<Rightarrow> bool" where
  "folded e org us n n' =
     (n' = n \<or>
      (\<exists>u\<in>us. foldable e org u n) \<and> identity_of n' = identity_of n \<and> n_read_at n' = None \<and>
      n_archived_at n' = None)"

lemma folded_refl [simp]: "folded e org us n n"
  by (simp add: folded_def)

lemma folded_trans:
  "folded e org us n n' \<Longrightarrow> folded e org us n' n'' \<Longrightarrow> folded e org us n n''"
  by (auto simp: folded_def foldable_def identity_of_def)

lemma folded_mono: "us \<subseteq> us' \<Longrightarrow> folded e org us n n' \<Longrightarrow> folded e org us' n n'"
  by (auto simp: folded_def)

lemma coalesce_loop_spec:
  assumes "coalesce_loop now e org topic title us db = (upd, rest, db')"
    and "distinct (map n_id (nd_notifications db))"
  shows "db' = db\<lparr>nd_notifications := nd_notifications db'\<rparr> \<and>
         list_all2 (folded e org (set us)) (nd_notifications db) (nd_notifications db') \<and>
         set rest \<subseteq> set us"
  using assms
proof (induction us arbitrary: db upd rest db')
  case Nil
  then show ?case by (simp add: list_all2_same)
next
  case (Cons u us)
  show ?case
  proof (cases "newest_foldable e org u db")
    case None
    obtain upd1 rest1 where l: "coalesce_loop now e org topic title us db = (upd1, rest1, db')"
      using Cons.prems(1) None by (auto split: prod.splits)
    with Cons.prems(1) None have rest: "rest = u # rest1" by simp
    note IH = Cons.IH [OF l Cons.prems(2)]
    have "list_all2 (folded e org (set (u # us))) (nd_notifications db) (nd_notifications db')"
      using IH by (auto elim: list_all2_mono intro: folded_mono [of "set us"])
    with IH rest show ?thesis by auto
  next
    case (Some n)
    let ?db = "db\<lparr>nd_notifications := update_where (\<lambda>r. n_id r = n_id n) (fold_into now e topic title) (nd_notifications db)\<rparr>"
    obtain upd1 where l: "coalesce_loop now e org topic title us ?db = (upd1, rest, db')"
      using Cons.prems(1) Some by (auto simp: Let_def split: prod.splits)
    from Some have n: "n \<in> set (nd_notifications db)" "foldable e org u n"
      by (auto simp: newest_foldable_def dest: greatest_by_Some)
    have keys: "map n_id (nd_notifications ?db) = map n_id (nd_notifications db)"
      by (simp add: update_where_def fold_into_def)
    have "distinct (map n_id (nd_notifications ?db))" using Cons.prems(2) unfolding keys .
    note IH = Cons.IH [OF l this]
    have first: "list_all2 (folded e org (set (u # us))) (nd_notifications db) (nd_notifications ?db)"
    proof -
      have "folded e org (set (u # us)) m (fold_into now e topic title m)"
        if "m \<in> set (nd_notifications db)" "n_id m = n_id n" for m
      proof -
        have "m = n" using Cons.prems(2) n(1) that by (metis distinct_map inj_onD)
        with n(2) show ?thesis
          by (auto simp: folded_def identity_of_def fold_into_def foldable_def)
      qed
      then show ?thesis by (simp add: update_where_def list_all2_map2 list_all2_same)
    qed
    have second: "list_all2 (folded e org (set (u # us))) (nd_notifications ?db) (nd_notifications db')"
      using IH by (auto elim: list_all2_mono intro: folded_mono [of "set us"])
    have "list_all2 (folded e org (set (u # us))) (nd_notifications db) (nd_notifications db')"
      using list_all2_trans [OF folded_trans first second] .
    then show ?thesis using IH by auto
  qed
qed

lemma upt_step: "[k..<k + Suc n] = k # [Suc k..<Suc k + n]"
  by (simp add: upt_conv_Cons del: upt_Suc)

lemma insert_notifications_spec:
  "insert_notifications mk us db =
     (let ns = map2 mk [nd_next_notification db..<nd_next_notification db + length us] us
      in (ns, db\<lparr>nd_notifications := nd_notifications db @ ns,
                 nd_next_notification := nd_next_notification db + length us\<rparr>))"
proof (induction us arbitrary: db)
  case Nil
  then show ?case by simp
next
  case (Cons u us)
  have "[k..<k + length (u # us)] = k # [Suc k..<Suc k + length us]" for k
    using upt_step [of k "length us"] by (simp del: upt_Suc)
  then show ?case by (simp add: Let_def Cons.IH del: upt_Suc)
qed

definition outbox_targets :: "string list \<Rightarrow> notification list \<Rightarrow> (notification \<times> string) list" where
  "outbox_targets external created = concat (map (\<lambda>n. map (Pair n) external) created)"

lemma fold_insert_delivery:
  "fold (\<lambda>(n, ch). insert_delivery n ch) ts db =
     db\<lparr>nd_deliveries := nd_deliveries db @
          map2 (\<lambda>i (n, ch). new_delivery n i ch) [nd_next_delivery db..<nd_next_delivery db + length ts] ts,
        nd_next_delivery := nd_next_delivery db + length ts\<rparr>"
proof (induction ts arbitrary: db)
  case Nil
  then show ?case by simp
next
  case (Cons t ts)
  obtain n ch where t: "t = (n, ch)" by (cases t)
  have "[k..<k + length (t # ts)] = k # [Suc k..<Suc k + length ts]" for k
    using upt_step [of k "length ts"] by (simp del: upt_Suc)
  moreover have "insert_delivery n ch db =
      db\<lparr>nd_deliveries := nd_deliveries db @ [new_delivery n (nd_next_delivery db) ch],
         nd_next_delivery := Suc (nd_next_delivery db)\<rparr>" by (simp add: insert_delivery_def)
  ultimately show ?case by (simp add: Cons.IH t del: upt_Suc)
qed

lemma insert_deliveries_spec:
  "insert_deliveries external created db =
     fold (\<lambda>(n, ch). insert_delivery n ch) (outbox_targets external created) db"
proof -
  have "fold (\<lambda>(n, ch). insert_delivery n ch) (map (Pair n) external) db = fold (insert_delivery n) external db"
    for n db by (simp add: fold_map comp_def)
  then show ?thesis
    by (induction created arbitrary: db) (simp_all add: insert_deliveries_def outbox_targets_def)
qed

lemma insert_all_spec:
  assumes "insert_all h now e org imp topic title external us db = (ret, db')"
  defines "new \<equiv> map2 (new_notification h now e org imp topic title)
             [nd_next_notification db..<nd_next_notification db + length us] us"
  defines "ts \<equiv> outbox_targets external new"
  shows "db' = db\<lparr>nd_notifications := nd_notifications db @ new,
                   nd_deliveries := nd_deliveries db @
                     map2 (\<lambda>i (n, ch). new_delivery n i ch)
                       [nd_next_delivery db..<nd_next_delivery db + length ts] ts,
                   nd_next_notification := nd_next_notification db + length us,
                   nd_next_delivery := nd_next_delivery db + length ts\<rparr>"
  using assms(1)
  by (auto simp: insert_all_def insert_notifications_spec Let_def insert_deliveries_spec
      fold_insert_delivery new_def [symmetric] ts_def [symmetric])

lemma write_emit_spec:
  assumes "write_emit h now e org imp topic title external us db = (ret, db')"
    and "distinct (map n_id (nd_notifications db))"
  obtains olds rest new ts where
    "list_all2 (folded e org (set us)) (nd_notifications db) olds"
    "\<not> coalesces e external \<Longrightarrow> olds = nd_notifications db" "set rest \<subseteq> set us"
    "new = map2 (new_notification h now e org imp topic title)
       [nd_next_notification db..<nd_next_notification db + length rest] rest"
    "ts = outbox_targets external new"
    "db' = db\<lparr>nd_notifications := olds @ new,
              nd_deliveries := nd_deliveries db @
                map2 (\<lambda>i (n, ch). new_delivery n i ch)
                  [nd_next_delivery db..<nd_next_delivery db + length ts] ts,
              nd_next_notification := nd_next_notification db + length rest,
              nd_next_delivery := nd_next_delivery db + length ts\<rparr>"
proof (cases "coalesces e external")
  case True
  obtain upd rest db1 where l: "coalesce_loop now e org topic title us db = (upd, rest, db1)"
    by (metis prod_cases3)
  obtain cr where i: "insert_all h now e org imp topic title external rest db1 = (cr, db')"
    using assms(1) True l by (auto simp: write_emit_def split: prod.splits)
  note s = coalesce_loop_spec [OF l assms(2)]
  from s obtain olds where d: "db1 = db\<lparr>nd_notifications := olds\<rparr>" by blast
  show thesis
    by (rule that [OF _ _ _ refl refl]) (use s True insert_all_spec [OF i] in \<open>simp_all add: d\<close>)
next
  case False
  then have i: "insert_all h now e org imp topic title external us db = (ret, db')"
    using assms(1) by (simp add: write_emit_def)
  let ?new = "map2 (new_notification h now e org imp topic title)
       [nd_next_notification db..<nd_next_notification db + length us] us"
  show thesis
    by (rule that [of "nd_notifications db" us ?new "outbox_targets external ?new"])
      (use insert_all_spec [OF i] in \<open>simp_all add: list_all2_same\<close>)
qed

text \<open>The cases of an emit that returns: nothing written, or the writes of its settled recipients.\<close>

lemma notify_cases:
  assumes "notify h now e0 db c = (Inr ids, db', c')"
  obtains "db' = db" "ids = []"
  | org us imp topic title external c1 where
      "checked_axes (shim_emit c e0) = Inr (imp, topic, title)"
      "\<not> nc_suppressed c1" "emit_org h (shim_emit c e0) = Some org"
      "filtered_recipients h (shim_emit c e0) = Inr us" "us \<noteq> []"
      "external = external_channels (fst (resolve_channels now db (Some org) topic imp c1))"
      "write_emit h now (shim_emit c e0) (stored_id org) imp topic title external us db = (ids, db')"
proof -
  obtain imp topic title where ax: "checked_axes (shim_emit c e0) = Inr (imp, topic, title)"
    using assms by (auto simp: notify_def Let_def split: sum.splits)
  obtain b1 c1 where t: "topic_known now db topic c = (b1, c1)" by fastforce
  obtain b2 c2 where i: "importance_known now db imp c1 = (b2, c2)" by fastforce
  have e: "emit_checked h now (shim_emit c e0) imp topic title db c2 = (Inr ids, db', c')"
    using assms by (auto simp: notify_def Let_def ax t i split: if_splits bool.splits)
  show thesis
  proof (cases "nc_suppressed c2")
    case True
    with e that(1) show thesis by (simp add: emit_checked_def)
  next
    case False
    then obtain org us where o: "emit_org h (shim_emit c e0) = Some org"
      "filtered_recipients h (shim_emit c e0) = Inr us"
      using e by (auto simp: emit_checked_def split: option.splits sum.splits)
    show thesis
    proof (cases us)
      case Nil
      with e o False that(1) show thesis by (simp add: emit_checked_def)
    next
      case (Cons u us')
      obtain res c3 where r: "resolve_channels now db (Some org) topic imp c2 = (res, c3)" by fastforce
      show thesis
      proof (cases "in_app \<in> set (map fst res)")
        case True
        then have "write_emit h now (shim_emit c e0) (stored_id org) imp topic title
            (external_channels res) us db = (ids, db')"
          using e o False Cons r by (auto simp: emit_checked_def split: prod.splits)
        with that(2) [OF ax False o(1,2)] r Cons show thesis by simp
      next
        case nin: False
        have "emit_checked h now (shim_emit c e0) imp topic title db c2 = (Inr [], db, c3)"
          using o False Cons r nin by (simp add: emit_checked_def image_iff)
        with e that(1) show thesis by simp
      qed
    qed
  qed
qed

lemma new_notification_simps [simp]:
  "n_id (new_notification h now e org imp topic title nid u) = nid"
  "n_org (new_notification h now e org imp topic title nid u) = org"
  "n_user (new_notification h now e org imp topic title nid u) = stored_id u"
  "n_read_at (new_notification h now e org imp topic title nid u) = None"
  "n_archived_at (new_notification h now e org imp topic title nid u) = None"
  by (simp_all add: new_notification_def)

lemma new_delivery_simps [simp]:
  "d_id (new_delivery n did ch) = did"
  "d_notification (new_delivery n did ch) = n_id n"
  "d_org (new_delivery n did ch) = Some (n_org n)"
  "d_channel (new_delivery n did ch) = ch"
  "d_status (new_delivery n did ch) = Pending"
  "d_attempts (new_delivery n did ch) = 0"
  by (simp_all add: new_delivery_def)


text \<open>
  The tables of \<open>asas_notifications\<close> under every operation of the package: keys are unique, and every
  outbox row stands for a notification of its own organisation.
\<close>

definition tables_wf :: "notify_db \<Rightarrow> bool" where
  "tables_wf db =
     (distinct (map n_id (nd_notifications db)) \<and>
      (\<forall>n\<in>set (nd_notifications db). n_id n < nd_next_notification db) \<and>
      distinct (map d_id (nd_deliveries db)) \<and>
      (\<forall>d\<in>set (nd_deliveries db). d_id d < nd_next_delivery db \<and> d_channel d \<noteq> in_app \<and>
         (\<exists>n\<in>set (nd_notifications db). n_id n = d_notification d \<and> d_org d = Some (n_org n))))"

text \<open>The operations: an emit, the feed, the statements of a dispatch pass, an administrator's writes.\<close>

inductive package_op :: "notify_db \<Rightarrow> notify_db \<Rightarrow> bool" where
  op_emit: "notify h now e db c = (r, db', c') \<Longrightarrow> package_op db db'"
| op_read: "mark_read h u nid now (\<lambda>x. x) db = (r, db') \<Longrightarrow> package_op db db'"
| op_read_all: "mark_all_read h u now db = (k, db') \<Longrightarrow> package_op db db'"
| op_archive: "archive h u nid now (\<lambda>x. x) db = (r, db') \<Longrightarrow> package_op db db'"
| op_unarchive: "unarchive h u nid (\<lambda>x. x) db = (r, db') \<Longrightarrow> package_op db db'"
| op_archive_read: "archive_read h u now db = (k, db') \<Longrightarrow> package_op db db'"
| op_config: "package_op db (db\<lparr>nd_topics := ts, nd_importances := is, nd_policies := ps\<rparr>)"

inductive dispatch_op :: "notify_db \<Rightarrow> notify_db \<Rightarrow> bool" where
  op_open: "open_pass sees now cnt db = (rows, db') \<Longrightarrow> dispatch_op db db'"
| op_claim: "claim sees now did db = (won, db') \<Longrightarrow> dispatch_op db db'"
| op_finish: "dispatch_op db (finish sees did v db)"

definition table_step :: "notify_db \<Rightarrow> notify_db \<Rightarrow> bool" where
  "table_step db db' = (package_op db db' \<or> dispatch_op db db')"

definition empty_notify_db :: notify_db where
  "empty_notify_db =
     \<lparr>nd_notifications = [], nd_deliveries = [], nd_topics = [], nd_importances = [],
      nd_policies = [], nd_next_notification = 0, nd_next_delivery = 0\<rparr>"

lemma marks_fields:
  "n' = n\<lparr>n_read_at := a, n_archived_at := b\<rparr> \<Longrightarrow>
     n_id n' = n_id n \<and> n_org n' = n_org n \<and> n_user n' = n_user n"
  by simp

lemma same_but_marks_fields:
  "same_but_marks n n' \<Longrightarrow> n_id n' = n_id n \<and> n_org n' = n_org n \<and> n_user n' = n_user n"
  unfolding same_but_marks_def by (rule marks_fields)

text \<open>A change of rows in place that keeps key and organisation.\<close>

lemma tables_wf_rows:
  assumes "tables_wf db"
    and "list_all2 (\<lambda>n n'. n_id n' = n_id n \<and> n_org n' = n_org n) (nd_notifications db) ns"
  shows "tables_wf (db\<lparr>nd_notifications := ns\<rparr>)"
proof -
  have ids: "map n_id ns = map n_id (nd_notifications db)"
    using assms(2) by (induction rule: list_all2_induct) auto
  have orgs: "\<exists>n'\<in>set ns. n_id n' = n_id n \<and> n_org n' = n_org n" if "n \<in> set (nd_notifications db)" for n
    using assms(2) that by (induction rule: list_all2_induct) auto
  have prev: "\<exists>n\<in>set (nd_notifications db). n_id n = n_id n'" if "n' \<in> set ns" for n'
    using assms(2) that by (induction rule: list_all2_induct) auto
  have "n_id n' < nd_next_notification db" if "n' \<in> set ns" for n'
    using prev [OF that] assms(1) unfolding tables_wf_def by auto
  moreover have "\<exists>n\<in>set ns. n_id n = d_notification d \<and> d_org d = Some (n_org n)"
    if "d \<in> set (nd_deliveries db)" for d
    using that assms(1) orgs unfolding tables_wf_def by metis
  ultimately show ?thesis using assms(1) ids unfolding tables_wf_def by simp
qed

lemma touches_wf:
  assumes "tables_wf db" "touches P db db'"
  shows "tables_wf db'"
proof -
  have "list_all2 (\<lambda>n n'. same_but_marks n n' \<and> (n' = n \<or> P n))
      (nd_notifications db) (nd_notifications db')"
    using assms(2) by (simp add: touches_def)
  then have "list_all2 (\<lambda>n n'. n_id n' = n_id n \<and> n_org n' = n_org n)
      (nd_notifications db) (nd_notifications db')"
    by (rule list_all2_mono) (simp add: same_but_marks_fields)
  from tables_wf_rows [OF assms(1) this] show ?thesis
    using assms(2) unfolding touches_def by metis
qed

text \<open>A change of outbox rows in place that keeps key, notification, organisation and channel.\<close>

lemma tables_wf_outbox:
  assumes "tables_wf db"
    and "\<And>d. d_id (f d) = d_id d \<and> d_notification (f d) = d_notification d \<and> d_org (f d) = d_org d \<and>
           d_channel (f d) = d_channel d"
  shows "tables_wf (db\<lparr>nd_deliveries := update_where P f (nd_deliveries db)\<rparr>)"
proof -
  have "map d_id (update_where P f (nd_deliveries db)) = map d_id (nd_deliveries db)"
    using assms(2) by (simp add: update_where_def)
  then show ?thesis using assms unfolding tables_wf_def by (auto simp: ball_update_where)
qed

lemma dispatch_op_wf: "dispatch_op db db' \<Longrightarrow> tables_wf db \<Longrightarrow> tables_wf db'"
proof (induction rule: dispatch_op.induct)
  case (op_open sees now cnt db rows db')
  then show ?case
    by (auto simp: open_pass_def Let_def reclaim_def reclaim_set_def intro!: tables_wf_outbox)
next
  case (op_claim sees now did db won db')
  then show ?case by (auto simp: claim_def outbox_claimed_def intro!: tables_wf_outbox)
next
  case (op_finish db sees did v)
  then show ?case by (auto simp: finish_def finish_set_def intro!: tables_wf_outbox)
qed

subsection \<open>Emits\<close>

lemma outbox_targets_set:
  "(n, ch) \<in> set (outbox_targets external new) \<longleftrightarrow> n \<in> set new \<and> ch \<in> set external"
  by (auto simp: outbox_targets_def)

lemma set_map2_upt:
  "x \<in> set (map2 f [k..<k + length ts] ts) \<Longrightarrow> \<exists>i t. k \<le> i \<and> i < k + length ts \<and> t \<in> set ts \<and> x = f i t"
  by (auto simp: set_zip) (metis add_less_cancel_left le_add1 nth_mem)

lemma map_key_map2:
  "(\<And>i t. key (f i t) = i) \<Longrightarrow> map key (map2 f [k..<k + length ts] ts) = [k..<k + length ts]"
  by (rule nth_equalityI) auto

lemma write_emit_wf:
  assumes "write_emit h now e org imp topic title external us db = (ret, db')"
    and "tables_wf db" "in_app \<notin> set external"
  shows "tables_wf db' \<and> host_work db db'"
proof -
  have dn: "distinct (map n_id (nd_notifications db))" using assms(2) by (simp add: tables_wf_def)
  from assms(1) dn obtain olds rest new ts where
    f: "list_all2 (folded e org (set us)) (nd_notifications db) olds"
    and new: "new = map2 (new_notification h now e org imp topic title)
       [nd_next_notification db..<nd_next_notification db + length rest] rest"
    and ts: "ts = outbox_targets external new"
    and db': "db' = db\<lparr>nd_notifications := olds @ new,
              nd_deliveries := nd_deliveries db @
                map2 (\<lambda>i (n, ch). new_delivery n i ch)
                  [nd_next_delivery db..<nd_next_delivery db + length ts] ts,
              nd_next_notification := nd_next_notification db + length rest,
              nd_next_delivery := nd_next_delivery db + length ts\<rparr>"
    by (rule write_emit_spec) blast
  let ?k = "nd_next_delivery db"
  let ?dels = "map2 (\<lambda>i (n, ch). new_delivery n i ch) [?k..<?k + length ts] ts"
  have "list_all2 (\<lambda>n n'. n_id n' = n_id n \<and> n_org n' = n_org n) (nd_notifications db) olds"
    using f by (rule list_all2_mono) (auto simp: folded_def identity_of_def)
  from tables_wf_rows [OF assms(2) this] have old: "tables_wf (db\<lparr>nd_notifications := olds\<rparr>)" .
  have nid: "map n_id new = [nd_next_notification db..<nd_next_notification db + length rest]"
    unfolding new by (rule map_key_map2) simp
  have did: "map d_id ?dels = [?k..<?k + length ts]"
    by (rule map_key_map2) (simp split: prod.split)
  have norg: "n_org n = org" if "n \<in> set new" for n
    using that unfolding new by (auto dest!: set_map2_upt)
  have dels: "\<exists>i n ch. ?k \<le> i \<and> i < ?k + length ts \<and> n \<in> set new \<and> ch \<in> set external \<and> d = new_delivery n i ch"
    if "d \<in> set ?dels" for d
    using set_map2_upt [OF that] by (auto simp: ts outbox_targets_set)
  have in_new: "nd_next_notification db \<le> n_id n \<and> n_id n < nd_next_notification db + length rest"
    if "n \<in> set new" for n
    using that arg_cong [OF nid, of set] by (metis atLeastLessThan_iff image_eqI set_map set_upt)
  have in_dels: "?k \<le> d_id d \<and> d_id d < ?k + length ts" if "d \<in> set ?dels" for d
    using dels [OF that] by auto
  have "tables_wf db'"
    unfolding tables_wf_def
  proof (intro conjI)
    have "distinct (map n_id new)" unfolding nid by simp
    moreover have "set (map n_id olds) \<inter> set (map n_id new) = {}"
      using old in_new unfolding tables_wf_def by fastforce
    ultimately show "distinct (map n_id (nd_notifications db'))"
      using old unfolding tables_wf_def db' by simp
    show "\<forall>n\<in>set (nd_notifications db'). n_id n < nd_next_notification db'"
      using old in_new unfolding tables_wf_def db' by fastforce
    have "distinct (map d_id ?dels)" unfolding did by simp
    moreover have "set (map d_id (nd_deliveries db)) \<inter> set (map d_id ?dels) = {}"
      using assms(2) in_dels unfolding tables_wf_def by fastforce
    ultimately show "distinct (map d_id (nd_deliveries db'))"
      using assms(2) unfolding tables_wf_def db' by simp
    show "\<forall>d\<in>set (nd_deliveries db'). d_id d < nd_next_delivery db' \<and> d_channel d \<noteq> in_app \<and>
         (\<exists>n\<in>set (nd_notifications db'). n_id n = d_notification d \<and> d_org d = Some (n_org n))"
    proof
      fix d assume "d \<in> set (nd_deliveries db')"
      then consider "d \<in> set (nd_deliveries db)" | "d \<in> set ?dels" unfolding db' by fastforce
      then show "d_id d < nd_next_delivery db' \<and> d_channel d \<noteq> in_app \<and>
         (\<exists>n\<in>set (nd_notifications db'). n_id n = d_notification d \<and> d_org d = Some (n_org n))"
      proof cases
        case 1
        then show ?thesis using old unfolding tables_wf_def db' by fastforce
      next
        case 2
        then show ?thesis using dels [OF 2] assms(3) by (auto simp: db')
      qed
    qed
  qed
  moreover have "list_all fresh_delivery ?dels"
    using dels by (auto simp: list_all_iff fresh_delivery_def new_delivery_def)
  ultimately show ?thesis by (simp add: host_work_def Let_def db' tables_wf_def)
qed

subsection \<open>Every operation\<close>

lemma host_work_same:
  "tables_wf db \<Longrightarrow> nd_deliveries db' = nd_deliveries db \<Longrightarrow> host_work db db'"
  by (simp add: host_work_def Let_def tables_wf_def)

lemma touches_op:
  assumes "tables_wf db" "touches P db db'"
  shows "tables_wf db' \<and> host_work db db'"
proof
  show "tables_wf db'" using assms by (rule touches_wf)
  obtain ns where "db' = db\<lparr>nd_notifications := ns\<rparr>" using assms(2) unfolding touches_def by blast
  with assms(1) show "host_work db db'" by (simp add: host_work_same)
qed

lemma notify_op:
  assumes "notify h now e db c = (r, db', c')" "tables_wf db"
  shows "tables_wf db' \<and> host_work db db'"
proof (cases r)
  case (Inl err)
  then have "db' = db" using assms(1)
    by (auto simp: notify_def emit_checked_def Let_def split: sum.splits prod.splits bool.splits
        if_splits option.splits list.splits)
  with assms(2) show ?thesis by (simp add: host_work_same)
next
  case (Inr ids)
  with assms(1) have "notify h now e db c = (Inr ids, db', c')" by simp
  then show ?thesis
  proof (cases rule: notify_cases)
    case 1
    with assms(2) show ?thesis by (simp add: host_work_same)
  next
    case (2 org us imp topic title external c1)
    have "in_app \<notin> set external" unfolding 2(6) by (simp add: external_channels_def)
    with write_emit_wf [OF 2(7) assms(2)] show ?thesis .
  qed
qed

lemma package_op_wf: "package_op db db' \<Longrightarrow> tables_wf db \<Longrightarrow> tables_wf db' \<and> host_work db db'"
proof (induction rule: package_op.induct)
  case (op_emit h now e db c r db' c')
  then show ?case by (rule notify_op)
next
  case (op_read h u nid now db r db')
  then have "keeps_owner (\<lambda>x. x) db" by (simp add: keeps_owner_id tables_wf_def)
  from row_ops_touch(1) [OF this op_read(1)] op_read(2) touches_op show ?case
    by (auto simp: host_work_same)
next
  case (op_read_all h u now db k db')
  then show ?case using bulk_ops_touch(1) touches_op by blast
next
  case (op_archive h u nid now db r db')
  then have "keeps_owner (\<lambda>x. x) db" by (simp add: keeps_owner_id tables_wf_def)
  from row_ops_touch(2) [OF this op_archive(1)] op_archive(2) touches_op show ?case
    by (auto simp: host_work_same)
next
  case (op_unarchive h u nid db r db')
  then have "keeps_owner (\<lambda>x. x) db" by (simp add: keeps_owner_id tables_wf_def)
  from row_ops_touch(3) [OF this op_unarchive(1)] op_unarchive(2) touches_op show ?case
    by (auto simp: host_work_same)
next
  case (op_archive_read h u now db k db')
  then show ?case using bulk_ops_touch(2) touches_op by blast
next
  case (op_config db ts "is" ps)
  then show ?case by (simp add: tables_wf_def host_work_def Let_def)
qed

interpretation tables: invariant_system "\<lambda>db. db = empty_notify_db" table_step tables_wf
proof
  show "tables_wf db" if "db = empty_notify_db" for db
    using that by (simp add: tables_wf_def empty_notify_db_def)
  show "tables_wf db'" if "tables_wf db" "table_step db db'" for db db'
    using that package_op_wf dispatch_op_wf unfolding table_step_def by blast
qed

end
