(* ===== verification/NotifyLive.thy ===== *)
theory NotifyLive
  imports NotifyPasses
begin

text \<open>
  What holds of concurrent passes when no send outlives the stale-claim window: a row in flight is in
  the hands of one pass, a settled row is never touched again, and an adapter accepts a delivery at
  most once unless a process dies between the acceptance and the mark.
\<close>

definition terminal :: "delivery \<Rightarrow> bool" where
  "terminal d = (d_status d \<in> {Sent, Failed, Skipped})"

definition held_ok :: "delivery list \<Rightarrow> phase \<Rightarrow> bool" where
  "held_ok ds ph =
     (case holding ph of
        None \<Rightarrow> True
      | Some (r, c) \<Rightarrow>
          (\<exists>d. row_by d_id (snap_id r) ds = Some d \<and> d_status d = Sending \<and> d_claimed_at d = Some c \<and>
               holding_sees ph (d_org d)))"

definition live_inv :: "outbox \<Rightarrow> bool" where
  "live_inv s =
     (distinct (map d_id (nd_deliveries (ob_db s))) \<and>
      (\<forall>p. held_ok (nd_deliveries (ob_db s)) (ob_pass s p)) \<and>
      (\<forall>p q r c r' c'. p \<noteq> q \<longrightarrow> holding (ob_pass s p) = Some (r, c) \<longrightarrow>
         holding (ob_pass s q) = Some (r', c') \<longrightarrow> snap_id r \<noteq> snap_id r'))"

lemma held_ok_None [simp]: "holding ph = None \<Longrightarrow> held_ok ds ph"
  by (simp add: held_ok_def)

lemma held_ok_Some:
  "holding ph = Some (r, c) \<Longrightarrow>
     held_ok ds ph \<longleftrightarrow>
       (\<exists>d. row_by d_id (snap_id r) ds = Some d \<and> d_status d = Sending \<and> d_claimed_at d = Some c \<and>
            holding_sees ph (d_org d))"
  by (simp add: held_ok_def)

text \<open>A held row stays held when the update leaves its key's row alone.\<close>

lemma held_ok_kept:
  assumes "held_ok ds ph"
    and "\<And>r c d. holding ph = Some (r, c) \<Longrightarrow> row_by d_id (snap_id r) ds = Some d \<Longrightarrow>
           d_status d = Sending \<Longrightarrow> d_claimed_at d = Some c \<Longrightarrow>
           row_by d_id (snap_id r) ds' = Some d"
  shows "held_ok ds' ph"
proof (cases "holding ph")
  case None
  then show ?thesis by simp
next
  case (Some rc)
  obtain r c where rc: "rc = (r, c)" by (cases rc)
  with assms(1) Some obtain d where "row_by d_id (snap_id r) ds = Some d" "d_status d = Sending"
    "d_claimed_at d = Some c" "holding_sees ph (d_org d)"
    by (auto simp: held_ok_Some)
  with assms(2) Some rc show ?thesis by (auto simp: held_ok_Some)
qed

text \<open>A pass that moves on: the others keep what they hold, and it holds nothing of theirs.\<close>

lemma live_inv_upd:
  assumes "live_inv s" "distinct (map d_id (nd_deliveries db))"
    and "held_ok (nd_deliveries db) ph"
    and "\<And>q. q \<noteq> p \<Longrightarrow> held_ok (nd_deliveries db) (ob_pass s q)"
    and "\<And>q r c r' c'. q \<noteq> p \<Longrightarrow> holding ph = Some (r, c) \<Longrightarrow>
           holding (ob_pass s q) = Some (r', c') \<Longrightarrow> snap_id r \<noteq> snap_id r'"
    and "ob_db t = db" "ob_pass t = (ob_pass s)(p := ph)"
  shows "live_inv t"
  unfolding live_inv_def
proof (intro conjI allI impI)
  show "distinct (map d_id (nd_deliveries (ob_db t)))" using assms(2,6) by simp
  show "held_ok (nd_deliveries (ob_db t)) (ob_pass t q)" for q
    using assms(3,4,6,7) by simp
  fix q q' r c r' c'
  assume "q \<noteq> q'" "holding (ob_pass t q) = Some (r, c)" "holding (ob_pass t q') = Some (r', c')"
  moreover have "snap_id r1 \<noteq> snap_id r2"
    if "a \<noteq> b" "holding (ob_pass s a) = Some (r1, c1)" "holding (ob_pass s b) = Some (r2, c2)"
    for a b r1 c1 r2 c2
    using assms(1) that unfolding live_inv_def by blast
  ultimately show "snap_id r \<noteq> snap_id r'"
    using assms(5,7) by (metis fun_upd_apply)
qed

lemma reclaim_held:
  assumes "row_by d_id k ds = Some d" "d_status d = Sending" "d_claimed_at d = Some c"
    and "now - c \<le> seconds stale_claim_seconds"
  shows "row_by d_id k (reclaim sees now ds) = Some d"
proof -
  have "row_by d_id k (reclaim sees now ds) =
      map_option (\<lambda>d. if sees (d_org d) \<and> stale_claim now d then reclaim_set d else d) (row_by d_id k ds)"
    unfolding reclaim_def
    by (rule row_update.row_after, unfold_locales) (simp add: reclaim_set_def)
  then show ?thesis using assms by (simp add: stale_claim_def stale_cutoff_def)
qed

lemma reclaim_terminal: "d \<in> set ds \<Longrightarrow> terminal d \<Longrightarrow> d \<in> set (reclaim sees now ds)"
  by (force simp: reclaim_def set_update_where stale_claim_def terminal_def)

text \<open>The two outcomes of the CAS.\<close>

lemma claim_cases:
  assumes "distinct (map d_id (nd_deliveries db))" "claim sees now k db = (won, db')"
  obtains "\<not> won" "db' = db"
  | d where "won" "row_by d_id k (nd_deliveries db) = Some d" "outbox_guard sees k d"
      "row_by d_id k (nd_deliveries db') = Some (outbox_claimed now d)"
proof (cases won)
  case True
  with assms(2) have one: "rowcount (outbox_guard sees k) (nd_deliveries db) = 1"
    and db': "nd_deliveries db' = update_where (outbox_guard sees k) (outbox_claimed now) (nd_deliveries db)"
    by (auto simp: claim_def)
  from outbox_claim.winner_row [OF assms(1) one, of now] True that(2) db' show thesis by auto
next
  case False
  with assms(2) have "rowcount (outbox_guard sees k) (nd_deliveries db) \<noteq> 1" by (simp add: claim_def)
  with outbox_claim.at_most_one [OF assms(1), of sees k]
  have "rowcount (outbox_guard sees k) (nd_deliveries db) = 0" by linarith
  with assms(2) have "db' = db" by (auto simp: claim_def update_where_rowcount_0)
  with False that(1) show thesis by blast
qed

lemma claim_keys:
  "claim sees now k db = (won, db') \<Longrightarrow>
     map d_id (nd_deliveries db') = map d_id (nd_deliveries db)"
  by (auto simp: claim_def outbox_claim.keys_kept)

lemma claim_other:
  "claim sees now k db = (won, db') \<Longrightarrow> j \<noteq> k \<Longrightarrow>
     row_by d_id j (nd_deliveries db') = row_by d_id j (nd_deliveries db)"
  by (auto simp: claim_def outbox_claim.other_rows_kept)

lemma claim_terminal:
  "claim sees now k db = (won, db') \<Longrightarrow> d \<in> set (nd_deliveries db) \<Longrightarrow> terminal d \<Longrightarrow>
     d \<in> set (nd_deliveries db')"
  by (force simp: claim_def set_update_where outbox_guard_def terminal_def)

lemma finish_row:
  "row_by d_id j (nd_deliveries (finish sees k v db)) =
     map_option (\<lambda>d. if finish_guard sees k d then finish_set v d else d)
       (row_by d_id j (nd_deliveries db))"
  by (simp add: finish_def outbox_finish.row_after)

lemma finish_other:
  "j \<noteq> k \<Longrightarrow> row_by d_id j (nd_deliveries (finish sees k v db)) = row_by d_id j (nd_deliveries db)"
  unfolding finish_row by (cases "row_by d_id j (nd_deliveries db)")
    (auto simp: finish_guard_def dest: row_by_Some_iff)

lemma finish_keys: "map d_id (nd_deliveries (finish sees k v db)) = map d_id (nd_deliveries db)"
  by (simp add: finish_def finish_set_keys)

lemma live_inv_step:
  assumes inv: "live_inv s" and fast: "prompt s" and step: "outbox_step e s = Some t"
  shows "live_inv t"
proof -
  let ?ds = "nd_deliveries (ob_db s)"
  have ids: "distinct (map d_id ?ds)" and held: "\<And>p. held_ok ?ds (ob_pass s p)"
    and apart: "\<And>p q r c r' c'. p \<noteq> q \<Longrightarrow> holding (ob_pass s p) = Some (r, c) \<Longrightarrow>
         holding (ob_pass s q) = Some (r', c') \<Longrightarrow> snap_id r \<noteq> snap_id r'"
    using inv unfolding live_inv_def by blast+
  show ?thesis
  proof (cases e)
    case (Tick now)
    with step have "t = s\<lparr>ob_now := now\<rparr>" by (simp split: if_splits)
    with inv show ?thesis by (simp add: live_inv_def)
  next
    case (OpenPass p sees cnt)
    obtain rows db where o: "open_pass sees (ob_now s) cnt (ob_db s) = (rows, db)" by fastforce
    with OpenPass step have t: "t = set_pass p (Walking sees rows) (s\<lparr>ob_db := db\<rparr>)"
      by (auto split: phase.splits)
    have ds: "nd_deliveries db = reclaim sees (ob_now s) ?ds"
      using o by (auto simp: open_pass_def Let_def)
    have "held_ok (nd_deliveries db) (ob_pass s q)" for q
      using held [of q]
    proof (rule held_ok_kept)
      fix r c d assume "holding (ob_pass s q) = Some (r, c)" and d: "row_by d_id (snap_id r) ?ds = Some d"
        "d_status d = Sending" "d_claimed_at d = Some c"
      with fast have "ob_now s - c \<le> seconds stale_claim_seconds" unfolding prompt_def by blast
      with d show "row_by d_id (snap_id r) (nd_deliveries db) = Some d"
        unfolding ds by (rule reclaim_held)
    qed
    then show ?thesis unfolding t using inv ids
      by - (rule live_inv_upd [where p = p and db = db and ph = "Walking sees rows" and s = s], (simp_all add: ds reclaim_keys))
  next
    case (ClaimNext p)
    then obtain sees r rs where ph: "ob_pass s p = Walking sees (r # rs)"
      using step by (auto split: phase.splits list.splits)
    obtain won db where c: "claim sees (ob_now s) (snap_id r) (ob_db s) = (won, db)" by fastforce
    have t: "t = set_pass p (if won then Claimed sees r (ob_now s) rs else Walking sees rs) (s\<lparr>ob_db := db\<rparr>)"
      using ClaimNext step ph c by simp
    from ids c show ?thesis
    proof (cases rule: claim_cases)
      case 1
      then show ?thesis unfolding t using inv ids held
        by - (rule live_inv_upd [where p = p and db = db and ph = "Walking sees rs" and s = s], simp_all)
    next
      case (2 d)
      then have pend: "d_status d = Pending" "sees (d_org d)" by (simp_all add: outbox_guard_def)
      have ne: "snap_id r' \<noteq> snap_id r" if h: "holding (ob_pass s q) = Some (r', c')" for q r' c'
        using held [of q] 2(2) pend unfolding held_ok_Some [OF h] by auto
      have "held_ok (nd_deliveries db) (ob_pass s q)" for q
        using held [of q] by (rule held_ok_kept) (use claim_other [OF c] ne in auto)
      moreover have "held_ok (nd_deliveries db) (Claimed sees r (ob_now s) rs)"
        using 2(4) pend by (auto simp: held_ok_Some outbox_claimed_def holding_sees_def)
      moreover have "snap_id r \<noteq> snap_id r'" if "holding (ob_pass s q) = Some (r', c')" for q r' c'
        using ne [OF that] by simp
      ultimately show ?thesis unfolding t using inv ids \<open>won\<close>
        by - (rule live_inv_upd [where p = p and db = db and ph = "Claimed sees r (ob_now s) rs" and s = s], (auto simp: claim_keys [OF c]))
    qed
  next
    case (Answer p reply)
    then obtain sees r c rs where ph: "ob_pass s p = Claimed sees r c rs"
      using step by (auto split: phase.splits)
    have t: "t = set_pass p (Answered sees r c reply rs) (s\<lparr>ob_sends := ob_sends s @ answered r reply\<rparr>)"
      using Answer step ph by simp
    have "held_ok ?ds (Answered sees r c reply rs)"
      using held [of p] ph by (simp add: held_ok_Some holding_sees_def)
    moreover have sep: "snap_id r \<noteq> snap_id r'" if "q \<noteq> p" "holding (ob_pass s q) = Some (r', c')" for q r' c'
      using apart [of p q r c r' c'] that ph by simp
    ultimately show ?thesis unfolding t using inv ids held
      by - (rule live_inv_upd [where p = p and db = "ob_db s" and ph = "Answered sees r c reply rs" and s = s],
          simp_all)
  next
    case (Finish p)
    then obtain sees r c reply rs where ph: "ob_pass s p = Answered sees r c reply rs"
      using step by (auto split: phase.splits)
    let ?db = "finish sees (snap_id r) (answer_values (ob_now s) r reply) (ob_db s)"
    have t: "t = set_pass p (Walking sees rs) (s\<lparr>ob_db := ?db\<rparr>)"
      using Finish step ph by simp
    have "held_ok (nd_deliveries ?db) (ob_pass s q)" if "q \<noteq> p" for q
      using held [of q] by (rule held_ok_kept) (use finish_other apart [OF that] ph in auto)
    then show ?thesis unfolding t using inv ids
      by - (rule live_inv_upd [where p = p and db = ?db and ph = "Walking sees rs" and s = s], (simp_all add: finish_keys))
  next
    case (ClosePass p)
    then have "t = set_pass p Off s" using step by (auto split: phase.splits list.splits)
    then show ?thesis using inv ids held
      by - (rule live_inv_upd [where p = p and db = "ob_db s" and ph = Off and s = s], simp_all)
  next
    case (Crash p)
    then have "t = set_pass p Off s" using step by simp
    then show ?thesis using inv ids held
      by - (rule live_inv_upd [where p = p and db = "ob_db s" and ph = Off and s = s], simp_all)
  next
    case (Host db')
    then have h: "host_work (ob_db s) db'" and t: "t = s\<lparr>ob_db := db'\<rparr>"
      using step by (auto split: if_splits)
    from h obtain new where n: "nd_deliveries db' = ?ds @ new"
      and d: "distinct (map d_id (nd_deliveries db'))" by (rule host_work_deliveries)
    have "held_ok (nd_deliveries db') (ob_pass s q)" for q
      using held [of q] by (rule held_ok_kept) (simp add: n row_by_append)
    then show ?thesis unfolding t using d inv by (auto simp: live_inv_def)
  qed
qed

lemma live_inv_start: "outbox_start s \<Longrightarrow> live_inv s"
  by (simp add: outbox_start_def live_inv_def)

interpretation live: invariant_system outbox_start prompt_step live_inv
  by unfold_locales (auto simp: prompt_step_def any_step_def intro: live_inv_start live_inv_step)

subsection \<open>Settled rows\<close>

lemma finish_terminal:
  assumes "live_inv s" "ob_pass s p = Answered sees r c reply rs"
    and "d \<in> set (nd_deliveries (ob_db s))" "terminal d"
  shows "d \<in> set (nd_deliveries (finish sees (snap_id r) v (ob_db s)))"
proof -
  have ids: "distinct (map d_id (nd_deliveries (ob_db s)))"
    and "held_ok (nd_deliveries (ob_db s)) (ob_pass s p)"
    using assms(1) by (auto simp: live_inv_def)
  then obtain d' where "row_by d_id (snap_id r) (nd_deliveries (ob_db s)) = Some d'" "d_status d' = Sending"
    using assms(2) by (auto simp: held_ok_Some)
  with assms(3,4) have "d_id d \<noteq> snap_id r"
    using row_by_distinct [OF ids assms(3)] by (auto simp: terminal_def)
  then have "\<not> finish_guard sees (snap_id r) d" by (simp add: finish_guard_def)
  with assms(3) show ?thesis unfolding finish_def by (force simp: set_update_where)
qed

lemma terminal_kept:
  assumes "live_inv s" "outbox_step e s = Some t"
    and "d \<in> set (nd_deliveries (ob_db s))" "terminal d"
  shows "d \<in> set (nd_deliveries (ob_db t))"
proof (cases e)
  case (OpenPass p sees cnt)
  with assms(2) show ?thesis using reclaim_terminal [OF assms(3,4)]
    by (auto simp: open_pass_def Let_def split: phase.splits)
next
  case (ClaimNext p)
  then obtain sees r rs where ph: "ob_pass s p = Walking sees (r # rs)"
    using assms(2) by (auto split: phase.splits list.splits)
  obtain won db where c: "claim sees (ob_now s) (snap_id r) (ob_db s) = (won, db)" by fastforce
  with ClaimNext assms(2) ph have "ob_db t = db" by auto
  with claim_terminal [OF c assms(3,4)] show ?thesis by simp
next
  case (Finish p)
  then obtain sees r c reply rs where ph: "ob_pass s p = Answered sees r c reply rs"
    using assms(2) by (auto split: phase.splits)
  with Finish assms(2)
  have "ob_db t = finish sees (snap_id r) (answer_values (ob_now s) r reply) (ob_db s)" by auto
  with finish_terminal [OF assms(1) ph assms(3,4)] show ?thesis by simp
next
  case (Host db')
  with assms(2) have "host_work (ob_db s) db'" "ob_db t = db'" by (auto split: if_splits)
  with assms(3) show ?thesis by (auto elim: host_work_deliveries)
qed (use assms in \<open>auto split: phase.splits list.splits if_splits\<close>)

lemma prompt_steps_keep_terminal:
  assumes "prompt_step\<^sup>*\<^sup>* s t" "live_inv s"
    and "d \<in> set (nd_deliveries (ob_db s))" "terminal d"
  shows "d \<in> set (nd_deliveries (ob_db t))"
  using assms
proof (induction rule: rtranclp_induct)
  case base
  then show ?case by simp
next
  case (step u t)
  then have "live_inv u" by (blast intro: live.inv_steps)
  with step terminal_kept show ?case unfolding prompt_step_def any_step_def by blast
qed

subsection \<open>At most one acceptance\<close>

definition accepts :: "outbox \<Rightarrow> nat list" where
  "accepts s = map fst (filter (\<lambda>a. snd a = SendOk) (ob_sends s))"

fun accepted_in_hand :: "phase \<Rightarrow> nat option" where
  "accepted_in_hand (Answered _ r _ (Some SendOk) _) = Some (snap_id r)"
| "accepted_in_hand _ = None"

text \<open>No process dies between an acceptance and its mark.\<close>

definition clean_step :: "outbox \<Rightarrow> outbox \<Rightarrow> bool" where
  "clean_step s t =
     (prompt s \<and> (\<exists>e. outbox_step e s = Some t \<and> (\<forall>p. e = Crash p \<longrightarrow> accepted_in_hand (ob_pass s p) = None)))"

definition once_inv :: "outbox \<Rightarrow> bool" where
  "once_inv s =
     (live_inv s \<and> distinct (accepts s) \<and>
      (\<forall>i\<in>set (accepts s).
         (\<exists>d\<in>set (nd_deliveries (ob_db s)). d_id d = i \<and> d_status d = Sent) \<or>
         (\<exists>p. accepted_in_hand (ob_pass s p) = Some i)))"

lemma accepted_in_hand_Some:
  "accepted_in_hand ph = Some i \<Longrightarrow> \<exists>sees r c rs. ph = Answered sees r c (Some SendOk) rs \<and> snap_id r = i"
  by (induction ph rule: accepted_in_hand.induct) auto

lemma accepted_in_hand_holding:
  "accepted_in_hand ph = Some i \<Longrightarrow> \<exists>r c. holding ph = Some (r, c) \<and> snap_id r = i"
  by (auto dest!: accepted_in_hand_Some)

text \<open>The evidence for an acceptance survives a step that is not a crash in that window.\<close>

lemma evidence_kept:
  assumes "live_inv s" "outbox_step e s = Some t"
    and "\<forall>p. e = Crash p \<longrightarrow> accepted_in_hand (ob_pass s p) = None"
    and "(\<exists>d\<in>set (nd_deliveries (ob_db s)). d_id d = i \<and> d_status d = Sent) \<or>
         (\<exists>p. accepted_in_hand (ob_pass s p) = Some i)"
  shows "(\<exists>d\<in>set (nd_deliveries (ob_db t)). d_id d = i \<and> d_status d = Sent) \<or>
         (\<exists>p. accepted_in_hand (ob_pass t p) = Some i)"
  using assms(4)
proof
  assume "\<exists>d\<in>set (nd_deliveries (ob_db s)). d_id d = i \<and> d_status d = Sent"
  then show ?thesis using terminal_kept [OF assms(1,2)] by (auto simp: terminal_def)
next
  assume "\<exists>p. accepted_in_hand (ob_pass s p) = Some i"
  then obtain p sees r c rs where p: "ob_pass s p = Answered sees r c (Some SendOk) rs" "snap_id r = i"
    by (blast dest: accepted_in_hand_Some)
  show ?thesis
  proof (cases "e = Finish p")
    case True
    have "held_ok (nd_deliveries (ob_db s)) (ob_pass s p)" using assms(1) by (simp add: live_inv_def)
    then obtain d where d: "row_by d_id i (nd_deliveries (ob_db s)) = Some d" "sees (d_org d)"
      using p by (auto simp: held_ok_Some holding_sees_def)
    have "ob_db t = finish sees i (answer_values (ob_now s) r (Some SendOk)) (ob_db s)"
      using assms(2) p True by auto
    then have "row_by d_id i (nd_deliveries (ob_db t)) =
        Some (finish_set (answer_values (ob_now s) r (Some SendOk)) d)"
      using d by (auto simp: finish_row finish_guard_def dest: row_by_Some_iff)
    then have "finish_set (answer_values (ob_now s) r (Some SendOk)) d \<in> set (nd_deliveries (ob_db t))"
      "d_id (finish_set (answer_values (ob_now s) r (Some SendOk)) d) = i"
      by (auto dest: row_by_Some_iff)
    moreover have "d_status (finish_set (answer_values (ob_now s) r (Some SendOk)) d) = Sent"
      by (simp add: finish_set_def answer_values_def outcome_def Let_def)
    ultimately show ?thesis by blast
  next
    case False
    have "e \<noteq> Crash p" using assms(3) p by auto
    with False assms(2) p have "ob_pass t p = ob_pass s p"
      by (cases e) (auto simp: set_pass_def split: phase.splits list.splits if_splits prod.splits)
    then show ?thesis using p by (metis accepted_in_hand.simps(1))
  qed
qed

text \<open>The log grows only by the answer to a pass that holds the row.\<close>

lemma accepts_step:
  assumes "outbox_step e s = Some t"
  shows "accepts t = accepts s \<or>
         (\<exists>p sees r c rs. ob_pass s p = Claimed sees r c rs \<and> accepts t = accepts s @ [snap_id r] \<and>
            ob_pass t p = Answered sees r c (Some SendOk) rs)"
  using assms
  by (cases e) (auto simp: accepts_def answered_def set_pass_def
      split: phase.splits list.splits if_splits prod.splits option.splits)

lemma once_inv_step:
  assumes inv: "once_inv s" and step: "clean_step s t"
  shows "once_inv t"
proof -
  from step obtain e where fast: "prompt s" and e: "outbox_step e s = Some t"
    and cr: "\<forall>p. e = Crash p \<longrightarrow> accepted_in_hand (ob_pass s p) = None"
    unfolding clean_step_def by blast
  from inv have live: "live_inv s" and dist: "distinct (accepts s)"
    and ev: "\<And>i. i \<in> set (accepts s) \<Longrightarrow>
      (\<exists>d\<in>set (nd_deliveries (ob_db s)). d_id d = i \<and> d_status d = Sent) \<or>
      (\<exists>p. accepted_in_hand (ob_pass s p) = Some i)"
    unfolding once_inv_def by blast+
  have "live_inv t" using live_inv_step [OF live fast e] .
  moreover have old: "(\<exists>d\<in>set (nd_deliveries (ob_db t)). d_id d = i \<and> d_status d = Sent) \<or>
      (\<exists>p. accepted_in_hand (ob_pass t p) = Some i)" if "i \<in> set (accepts s)" for i
    using evidence_kept [OF live e cr] ev [OF that] by blast
  moreover have "distinct (accepts t) \<and> (\<forall>i\<in>set (accepts t).
      (\<exists>d\<in>set (nd_deliveries (ob_db t)). d_id d = i \<and> d_status d = Sent) \<or>
      (\<exists>p. accepted_in_hand (ob_pass t p) = Some i))"
    using accepts_step [OF e]
  proof
    assume "accepts t = accepts s"
    with dist old show ?thesis by simp
  next
    assume "\<exists>p sees r c rs. ob_pass s p = Claimed sees r c rs \<and> accepts t = accepts s @ [snap_id r] \<and>
            ob_pass t p = Answered sees r c (Some SendOk) rs"
    then obtain p sees r c rs where p: "ob_pass s p = Claimed sees r c rs"
      and log: "accepts t = accepts s @ [snap_id r]"
      and new: "ob_pass t p = Answered sees r c (Some SendOk) rs" by blast
    have "held_ok (nd_deliveries (ob_db s)) (ob_pass s p)" using live by (simp add: live_inv_def)
    then obtain d where d: "row_by d_id (snap_id r) (nd_deliveries (ob_db s)) = Some d" "d_status d = Sending"
      using p by (auto simp: held_ok_Some)
    have "snap_id r \<notin> set (accepts s)"
    proof
      assume "snap_id r \<in> set (accepts s)"
      with ev consider (sent) d' where "d' \<in> set (nd_deliveries (ob_db s))" "d_id d' = snap_id r"
          "d_status d' = Sent"
        | (hand) q where "accepted_in_hand (ob_pass s q) = Some (snap_id r)" by blast
      then show False
      proof cases
        case sent
        have "distinct (map d_id (nd_deliveries (ob_db s)))" using live by (simp add: live_inv_def)
        from row_by_distinct [OF this sent(1)] sent d show False by auto
      next
        case hand
        then obtain r' c' where q: "holding (ob_pass s q) = Some (r', c')" "snap_id r' = snap_id r"
          by (blast dest: accepted_in_hand_holding)
        have "q \<noteq> p" using hand p by auto
        then show False using live q p unfolding live_inv_def by (metis holding_simps(3))
      qed
    qed
    moreover have "accepted_in_hand (ob_pass t p) = Some (snap_id r)" using new by simp
    ultimately show ?thesis using dist old log by auto
  qed
  ultimately show ?thesis by (simp add: once_inv_def)
qed

lemma once_inv_start: "outbox_start s \<Longrightarrow> once_inv s"
  using live_inv_start by (simp add: once_inv_def outbox_start_def accepts_def)

interpretation once: invariant_system outbox_start clean_step once_inv
  by unfold_locales (auto intro: once_inv_start once_inv_step)

end
