(* ===== verification/NotifyProps.thy ===== *)
theory NotifyProps
  imports NotifyTables NotifyLive "HOL-Library.Multiset"
begin

text \<open>
  The properties of \<open>asas_notifications\<close>: routing, emitting, the feed, and the outbox under concurrent
  dispatch passes.
\<close>

subsection \<open>Concrete tables for the examples\<close>

definition demo_note :: "nat \<Rightarrow> string \<Rightarrow> string \<Rightarrow> instant \<Rightarrow> notification" where
  "demo_note nid org user tm =
     \<lparr>n_id = nid, n_org = org, n_user = user, n_action = Some ''order.approve'',
      n_topic = Some ''orders'', n_importance = ''high'', n_entity_type = Some ''order'',
      n_entity_id = Some ''9'', n_title = ''Approved'', n_body = None, n_link = None,
      n_template = None, n_data = None, n_read_at = None, n_archived_at = None,
      n_resolved_at = None, n_locale = None, n_created_at = tm\<rparr>"

definition demo_delivery :: "nat \<Rightarrow> nat \<Rightarrow> string \<Rightarrow> delivery" where
  "demo_delivery did nid org =
     \<lparr>d_id = did, d_notification = nid, d_org = Some org, d_channel = ''email'', d_status = Pending,
      d_attempts = 0, d_claimed_at = None, d_sent_at = None, d_last_error = None\<rparr>"

definition demo_tables :: notify_db where
  "demo_tables =
     \<lparr>nd_notifications = [demo_note 0 ''acme'' ''7'' 10, demo_note 1 ''acme'' ''8'' 20,
        demo_note 2 ''zeta'' ''7'' 30],
      nd_deliveries = [demo_delivery 0 0 ''acme'', demo_delivery 1 2 ''zeta''],
      nd_topics = [\<lparr>t_org = None, t_key = ''general'', t_name = ''General'', t_description = None,
                    t_user_configurable = True, t_sort_order = 0\<rparr>,
                   \<lparr>t_org = Some ''acme'', t_key = ''orders'', t_name = ''Orders'',
                    t_description = None, t_user_configurable = True, t_sort_order = 1\<rparr>],
      nd_importances =
        [\<lparr>i_org = None, i_key = ''low'', i_name = ''Low'', i_description = None,
          i_emails_by_default = False, i_rank = 10\<rparr>,
         \<lparr>i_org = None, i_key = ''high'', i_name = ''High'', i_description = None,
          i_emails_by_default = True, i_rank = 20\<rparr>],
      nd_policies =
        [\<lparr>p_id = 1, p_org = None, p_topic = Some ''orders'', p_importance = None,
          p_channel = ''email'', p_enabled = False, p_mandatory = False\<rparr>,
         \<lparr>p_id = 2, p_org = Some ''acme'', p_topic = Some ''orders'', p_importance = Some ''high'',
          p_channel = ''teams'', p_enabled = True, p_mandatory = True\<rparr>,
         \<lparr>p_id = 3, p_org = Some ''zeta'', p_topic = Some ''orders'', p_importance = Some ''high'',
          p_channel = ''email'', p_enabled = True, p_mandatory = True\<rparr>],
      nd_next_notification = 3, nd_next_delivery = 2\<rparr>"

definition demo_host :: notify_host where
  "demo_host = \<lparr>nh_context = Some (Some (IdInt 7), Some (IdStr ''acme'')), nh_locale = None, nh_filter = None\<rparr>"

definition demo_emit :: emit_call where
  "demo_emit =
     \<lparr>e_recipients = [Some (IdInt 7), None, Some (IdInt 8), Some (IdInt 9)], e_action = Some ''order.approve'',
      e_topic = Some ''orders'', e_importance = Some (RungText ''low''), e_title = Some ''Changed'',
      e_body = None, e_link = None, e_template = None, e_data = None, e_actor = Some (IdStr ''8''),
      e_entity_type = Some ''order'', e_entity_id = Some (IdInt 9), e_org = None, e_record = None,
      e_locale = None, e_coalesce = True, e_merge_body = None, e_kind = None\<rparr>"

lemma demo_tables_wf: "tables_wf demo_tables"
  unfolding tables_wf_def by code_simp

subsection \<open>Routing\<close>

text \<open>
  What routing promises, written without the program's own key and filters: which rows of the policy
  table speak about an emit, which of two is the stronger, and what a rung of the catalogue says
  about mail.
\<close>

definition speaks_of :: "host_id option \<Rightarrow> string \<Rightarrow> string \<Rightarrow> string \<Rightarrow> policy_row \<Rightarrow> bool" where
  "speaks_of org ch topic imp q =
     (p_channel q = ch \<and> p_org q \<in> {None, normalize_id org} \<and> p_topic q \<in> {None, Some topic} \<and>
      p_importance q \<in> {None, Some imp})"

definition coordinates :: "policy_row \<Rightarrow> nat" where
  "coordinates q = length (filter (\<lambda>x. x \<noteq> None) [p_topic q, p_importance q])"

definition outranks :: "policy_row \<Rightarrow> policy_row \<Rightarrow> bool" where
  "outranks q r =
     (coordinates r < coordinates q \<or>
      coordinates r = coordinates q \<and>
        (p_org q \<noteq> None \<and> p_org r = None \<or>
         (p_org q = None) = (p_org r = None) \<and> p_id r < p_id q))"

definition rung_mails :: "notify_db \<Rightarrow> host_id option \<Rightarrow> string \<Rightarrow> bool" where
  "rung_mails db org imp =
     (let rows = filter (\<lambda>i. i_key i = imp) (nd_importances db);
          own = filter (\<lambda>i. i_org i \<noteq> None \<and> i_org i = normalize_id org) rows;
          platform = filter (\<lambda>i. i_org i = None) rows
      in case own @ platform of [] \<Rightarrow> False | i # _ \<Rightarrow> i_emails_by_default i)"

lemma pick_cell_strongest:
  assumes "pick_cell ch topic imp (policies_for org db) = Some r"
  shows "r \<in> set (nd_policies db) \<and> speaks_of org ch topic imp r \<and>
    (\<forall>q\<in>set (nd_policies db). speaks_of org ch topic imp q \<longrightarrow> \<not> outranks q r)"
proof -
  let ?ms = "filter (cell_matches ch topic imp) (policies_for org db)"
  have best: "r \<in> set ?ms \<and> (\<forall>q\<in>set ?ms. specificity q \<le> specificity r)"
    by (rule greatest_by_Some [OF assms [unfolded pick_cell_def]])
  have "\<not> outranks q r" if "specificity q \<le> specificity r" for q
    using that by (auto simp: outranks_def coordinates_def specificity_def split: if_splits)
  with best show ?thesis
    by (auto simp: speaks_of_def cell_matches_def policies_for_def)
qed

lemma pick_cell_silent:
  assumes "pick_cell ch topic imp (policies_for org db) = None"
  shows "\<forall>q\<in>set (nd_policies db). \<not> speaks_of org ch topic imp q"
  using assms by (auto simp: pick_cell_def policies_for_def cell_matches_def speaks_of_def filter_empty_conv)

lemma first_where_view:
  "first_where P (map view_of rows) = map_option view_of (first_where (P \<circ> view_of) rows)"
  by (induction rows) auto

lemma first_where_filter:
  "first_where P (filter Q rows) = first_where (\<lambda>r. Q r \<and> P r) rows"
  by (induction rows) auto

lemma first_where_hd:
  "first_where P rows = (case filter P rows of [] \<Rightarrow> None | r # _ \<Rightarrow> Some r)"
  by (induction rows) auto

lemma org_emails_rung: "org_emails db org imp = rung_mails db org imp"
proof -
  let ?o = "normalize_id org" and ?is = "nd_importances db"
  have own: "first_where (\<lambda>r. iv_org r \<noteq> None \<and> iv_org r = ?o)
        (filter (\<lambda>r. iv_key r = imp) (catalogue ?o db)) =
      map_option view_of (first_where (\<lambda>i. i_key i = imp \<and> i_org i \<noteq> None \<and> i_org i = ?o) ?is)"
    unfolding catalogue_def filter_map first_where_view first_where_filter
    by (rule arg_cong [where f = "\<lambda>P. map_option view_of (first_where P ?is)"])
      (auto simp: fun_eq_iff view_of_def)
  have platform: "first_where (\<lambda>r. iv_org r = None) (filter (\<lambda>r. iv_key r = imp) (catalogue ?o db)) =
      map_option view_of (first_where (\<lambda>i. i_key i = imp \<and> i_org i = None) ?is)"
    unfolding catalogue_def filter_map first_where_view first_where_filter
    by (rule arg_cong [where f = "\<lambda>P. map_option view_of (first_where P ?is)"])
      (auto simp: fun_eq_iff view_of_def)
  show ?thesis
    unfolding org_emails_def rung_emails_def own platform rung_mails_def
    by (simp add: first_where_hd view_of_def conj_commute split: list.splits)
qed


text \<open>
  An organisation's rule for a topic yields to the platform's rule for the topic and the rung: in
  the second table acme mutes mail about orders, and the platform still sends it for high ones.
\<close>

definition platform_cell :: policy_row where
  "platform_cell =
     \<lparr>p_id = 1, p_org = None, p_topic = Some ''orders'', p_importance = Some ''high'',
      p_channel = ''email'', p_enabled = True, p_mandatory = True\<rparr>"

definition acme_cell :: policy_row where
  "acme_cell =
     \<lparr>p_id = 2, p_org = Some ''acme'', p_topic = Some ''orders'', p_importance = None,
      p_channel = ''email'', p_enabled = False, p_mandatory = False\<rparr>"

definition muted_tables :: notify_db where
  "muted_tables = demo_tables\<lparr>nd_policies := [platform_cell, acme_cell]\<rparr>"


subsection \<open>Emitting\<close>

lemma let_through:
  assumes "filter_narrows h" and "filtered_recipients h (shim_emit c e) = Inr us" and "u \<in> set us"
  shows "Some u \<in> set (e_recipients e) \<and> Some (stored_id u) \<noteq> normalize_id (e_actor e)"
  using filtered_subset [OF assms] by (cases "e_actor e") (auto simp: addressed_set)

lemma folds_reach_only:
  assumes "filter_narrows h" and us: "filtered_recipients h (shim_emit c e) = Inr us"
    and "emit_org h e = Some org"
    and "list_all2 (folded (shim_emit c e) (stored_id org) (set us)) ns olds"
    and "\<not> coalesces (shim_emit c e) external \<Longrightarrow> olds = ns"
  shows "list_all2 (\<lambda>n n'. n' = n \<or>
        emit_org h e \<noteq> None \<and> Some (n_org n) = normalize_id (emit_org h e) \<and> n_read_at n = None \<and>
        n_archived_at n = None \<and> n_entity_type n = e_entity_type e \<and>
        n_entity_id n = normalize_id (e_entity_id e) \<and>
        n_action n = (case e_action e of None \<Rightarrow> e_kind e | Some a \<Rightarrow> Some a) \<and> e_coalesce e \<and>
        (\<exists>u out. filtered_recipients h (shim_emit c e) = Inr out \<and> u \<in> set out \<and>
           n_user n = stored_id u \<and> Some u \<in> set (e_recipients e)) \<and>
        Some (n_user n) \<noteq> normalize_id (e_actor e) \<and> identity_of n' = identity_of n) ns olds"
proof (cases "coalesces (shim_emit c e) external")
  case True
  then have "e_coalesce e" by (simp add: coalesces_def)
  with assms(4) us let_through [OF assms(1) us] assms(3) show ?thesis
    by (elim list_all2_mono) (auto simp: folded_def foldable_def)
next
  case False
  then show ?thesis using assms(5) by (simp add: list_all2_same)
qed

lemma news_reach_only:
  assumes "filter_narrows h" and us: "filtered_recipients h (shim_emit c e) = Inr us"
    and "emit_org h e = Some org" and "set rest \<subseteq> set us"
    and "n \<in> set (map2 (new_notification h now (shim_emit c e) (stored_id org) imp topic title) [k..<m] rest)"
    and "m = k + length rest"
  shows "normalize_id (emit_org h e) = Some (n_org n) \<and>
    (\<exists>u out. filtered_recipients h (shim_emit c e) = Inr out \<and> u \<in> set out \<and> n_user n = stored_id u \<and>
       Some u \<in> set (e_recipients e)) \<and>
    Some (n_user n) \<noteq> normalize_id (e_actor e)"
proof -
  obtain i u where u: "u \<in> set rest" "n = new_notification h now (shim_emit c e) (stored_id org) imp topic title i u"
    using set_map2_upt [OF assms(5) [unfolded assms(6)]] by blast
  with assms(4) have "u \<in> set us" by blast
  with let_through [OF assms(1) us this] u us assms(3) show ?thesis by auto
qed

lemma deliveries_reach_only:
  assumes "d \<in> set (map2 (\<lambda>i (n, ch). new_delivery n i ch) [k..<k + length (outbox_targets external new)]
      (outbox_targets external new))"
  shows "fresh_delivery d \<and> (\<exists>n\<in>set new. d_notification d = n_id n \<and> d_org d = Some (n_org n))"
proof -
  obtain i n ch where "(n, ch) \<in> set (outbox_targets external new)" "d = new_delivery n i ch"
    using set_map2_upt [OF assms] by (metis case_prod_conv surj_pair)
  then show ?thesis by (auto simp: outbox_targets_set fresh_delivery_def new_delivery_def)
qed


lemma demo_filter: "filter_narrows demo_host"
  by (simp add: filter_narrows_def demo_host_def)


lemma topic_known_keeps:
  "topic_known now db topic c = (b, c1) \<Longrightarrow>
     nc_suppressed c1 = nc_suppressed c \<and> nc_importances c1 = nc_importances c"
  by (auto simp: topic_known_def all_topic_keys_def Let_def split: if_splits)

lemma importance_known_keeps:
  "importance_known now db imp c = (b, c1) \<Longrightarrow> nc_suppressed c1 = nc_suppressed c"
  by (auto simp: importance_known_def importance_rows_def Let_def split: if_splits)

lemma topic_known_sound:
  assumes "cache_coherent now (nc_topics c) (map t_key (nd_topics db))"
  shows "fst (topic_known now db topic c) \<longleftrightarrow> topic \<in> t_key ` set (nd_topics db)"
  using cached_entry_coherent [OF assms] by (auto simp: topic_known_def all_topic_keys_def Let_def)

text \<open>A call without a rung, an action without a topic and a missing title raise \<open>TypeError\<close>; a topic
  the table does not hold raises \<open>LookupError\<close> even under \<open>suppressed\<close>, one it does hold never does,
  whatever the cache says; a suppressed or failing call writes nothing; an emit without an
  organisation raises \<open>ValueError\<close>.\<close>

theorem notify_fails_loud:
  assumes "notify h now e db c = (r, db', c')"
  shows "(nc_suppressed c \<or> (\<exists>err. r = Inl err) \<longrightarrow> db' = db) \<and>
    (\<forall>err. checked_axes (shim_emit c e) = Inl err \<longrightarrow> r = Inl err) \<and>
    (\<forall>imp topic title. checked_axes (shim_emit c e) = Inr (imp, topic, title) \<longrightarrow>
       (cache_coherent now (nc_topics c) (map t_key (nd_topics db)) \<and> topic \<notin> t_key ` set (nd_topics db) \<longrightarrow>
          r = Inl (LookupErrorExn (''unknown notification topic '' @ py_repr topic))) \<and>
       (topic \<in> t_key ` set (nd_topics db) \<and> imp \<in> i_key ` set (nd_importances db) \<longrightarrow>
          (nc_suppressed c \<longrightarrow> r = Inr []) \<and>
          (\<not> nc_suppressed c \<and> emit_org h e = None \<longrightarrow>
             r = Inl (ValueError ''notify() has no org for this emit''))))"
proof (cases "checked_axes (shim_emit c e)")
  case (Inl err)
  with assms show ?thesis by (simp add: notify_def Let_def)
next
  case (Inr a)
  obtain imp topic title where a: "a = (imp, topic, title)" by (cases a)
  obtain b1 c1 where t: "topic_known now db topic c = (b1, c1)" by fastforce
  obtain b2 c2 where i: "importance_known now db imp c1 = (b2, c2)" by fastforce
  have keep: "nc_suppressed c2 = nc_suppressed c"
    using topic_known_keeps [OF t] importance_known_keeps [OF i] by simp
  have n: "(r, db', c') =
      (if \<not> b1 then (Inl (LookupErrorExn (''unknown notification topic '' @ py_repr topic)), db, c1)
       else if \<not> b2 then (Inl (LookupErrorExn (''unknown notification importance '' @ py_repr imp)), db, c2)
       else emit_checked h now (shim_emit c e) imp topic title db c2)"
    using assms Inr a t i by (auto simp: notify_def Let_def split: bool.splits)
  have org: "emit_org h (shim_emit c e) = emit_org h e" by (simp add: emit_org_def)
  have quiet: "fst (snd (emit_checked h now (shim_emit c e) imp topic title db c2)) = db"
    if "nc_suppressed c \<or> (\<exists>err. fst (emit_checked h now (shim_emit c e) imp topic title db c2) = Inl err)"
    using that keep
    by (auto simp: emit_checked_def split: option.splits sum.splits list.splits prod.splits if_splits)
  have "db' = db" if "nc_suppressed c \<or> (\<exists>err. r = Inl err)"
    using that quiet n by (auto split: if_splits) (metis fst_conv snd_conv)+
  moreover have "r = Inl (LookupErrorExn (''unknown notification topic '' @ py_repr topic))"
    if "cache_coherent now (nc_topics c) (map t_key (nd_topics db))" "topic \<notin> t_key ` set (nd_topics db)"
    using topic_known_sound [OF that(1), of topic] that(2) t n by simp
  moreover have "b1 \<and> b2" if "topic \<in> t_key ` set (nd_topics db)" "imp \<in> i_key ` set (nd_importances db)"
    using topic_known_complete [OF that(1), of now c] importance_known_complete [OF that(2), of now c1] t i
    by simp
  moreover have "r = Inr []" if "b1 \<and> b2" "nc_suppressed c"
    using that n keep by (simp add: emit_checked_def)
  moreover have "r = Inl (ValueError ''notify() has no org for this emit'')"
    if "b1 \<and> b2" "\<not> nc_suppressed c" "emit_org h e = None"
    using that n keep org by (simp add: emit_checked_def)
  ultimately show ?thesis unfolding Inr a by auto
qed

lemma notify_fails_loud_witness:
  "fst (notify demo_host 50 (demo_emit\<lparr>e_topic := Some ''nope''\<rparr>) demo_tables (notify_boot\<lparr>nc_suppressed := True\<rparr>)) =
     Inl (LookupErrorExn (''unknown notification topic '' @ py_repr ''nope''))"
proof -
  let ?e = "demo_emit\<lparr>e_topic := Some ''nope''\<rparr>" and ?c = "notify_boot\<lparr>nc_suppressed := True\<rparr>"
  obtain r db' c' where n: "notify demo_host 50 ?e demo_tables ?c = (r, db', c')" by (metis prod_cases3)
  have ax: "checked_axes (shim_emit ?c ?e) = Inr (''low'', ''nope'', ''Changed'')" by code_simp
  have no: "''nope'' \<notin> t_key ` set (nd_topics demo_tables)" by (simp add: demo_tables_def)
  have co: "cache_coherent 50 (nc_topics ?c) (map t_key (nd_topics demo_tables))" by (simp add: notify_boot_def)
  show ?thesis using notify_fails_loud [OF n] ax no co n by simp
qed

subsection \<open>The feed\<close>

lemma owned_id: "owned h u nid db = Some n \<Longrightarrow> n_id n = nid \<and> recipient_conditions h u n"
  using owned_Some by blast

lemma row_ops_missing:
  "owned h u nid db = None \<Longrightarrow> mark_read h u nid now env db = (None, db)"
  "owned h u nid db = None \<Longrightarrow> archive h u nid now env db = (None, db)"
  "owned h u nid db = None \<Longrightarrow> unarchive h u nid env db = (None, db)"
  by (simp_all add: mark_read_def archive_def unarchive_def)

text \<open>Through the routes a caller reads and marks rows of its own user and, under an organisation
  context, of its own organisation only, whatever others commit in between; another's id answers 404
  and changes nothing, as a missing one does; without a user every route answers 401.\<close>

theorem feed_confined:
  assumes "keeps_owner env db" "distinct (map n_id (nd_notifications db))"
  shows "(\<forall>u. current_user_id h = Some u \<longrightarrow>
      (\<forall>p k st un l. get_notifications h p k st un env db = Http_ok l \<longrightarrow>
         (\<forall>n\<in>set (nl_items l). n \<in> set (nd_notifications (env db)) \<and> recipient_conditions h u n)) \<and>
      (\<forall>db'\<in>{snd (post_read h nid now env db), snd (post_archive h nid now env db),
            snd (post_unarchive h nid env db)}.
         db' = db \<or> touches (recipient_conditions h u) (env db) db') \<and>
      (\<forall>db'\<in>{snd (post_read_all h now db), snd (post_archive_read h now db)}.
         touches (recipient_conditions h u) db db') \<and>
      ((\<forall>n\<in>set (nd_notifications db). n_id n = nid \<longrightarrow> \<not> recipient_conditions h u n) \<longrightarrow>
         post_read h nid now env db = (Http_error 404 ''Notification not found'', db) \<and>
         post_archive h nid now env db = (Http_error 404 ''Notification not found'', db) \<and>
         post_unarchive h nid env db = (Http_error 404 ''Notification not found'', db))) \<and>
    (current_user_id h = None \<longrightarrow>
      post_read h nid now env db = (Http_error 401 ''No authenticated user'', db) \<and>
      post_read_all h now db = (Http_error 401 ''No authenticated user'', db) \<and>
      post_archive_read h now db = (Http_error 401 ''No authenticated user'', db))"
proof (intro conjI allI impI ballI)
  fix u assume u: "current_user_id h = Some u"
  show "n \<in> set (nd_notifications (env db))" "recipient_conditions h u n"
    if "get_notifications h p k st un env db = Http_ok l" "n \<in> set (nl_items l)" for p k st un l n
    using that u
    by (auto simp: get_notifications_def require_recipient_def list_feed_def offset_limit_def
        feed_conditions_def split: if_splits dest!: in_set_takeD in_set_dropD)
  show "db' = db \<or> touches (recipient_conditions h u) (env db) db'"
    if "db' \<in> {snd (post_read h nid now env db), snd (post_archive h nid now env db),
            snd (post_unarchive h nid env db)}" for db'
  proof -
    have "snd (on_row h act db) = snd (act u)" for act
      using u by (simp add: on_row_def require_recipient_def split: prod.split option.split)
    moreover note row_ops_touch(1) [OF assms(1) prod.collapse [symmetric], where h = h and u = u and nid = nid and now = now]
      row_ops_touch(2) [OF assms(1) prod.collapse [symmetric], where h = h and u = u and nid = nid and now = now]
      row_ops_touch(3) [OF assms(1) prod.collapse [symmetric], where h = h and u = u and nid = nid]
    ultimately show ?thesis using that
      unfolding post_read_def post_archive_def post_unarchive_def by auto
  qed
  show "touches (recipient_conditions h u) db db'"
    if "db' \<in> {snd (post_read_all h now db), snd (post_archive_read h now db)}" for db'
  proof -
    have "snd (on_feed h act db) = snd (act u)" for act
      using u by (simp add: on_feed_def require_recipient_def split: prod.split)
    moreover note bulk_ops_touch(1) [OF prod.collapse [symmetric], where h = h and u = u and now = now and db = db]
      bulk_ops_touch(2) [OF prod.collapse [symmetric], where h = h and u = u and now = now and db = db]
    ultimately show ?thesis using that unfolding post_read_all_def post_archive_read_def by auto
  qed
  assume "\<forall>n\<in>set (nd_notifications db). n_id n = nid \<longrightarrow> \<not> recipient_conditions h u n"
  then have none: "owned h u nid db = None" using owned_None_iff [OF assms(2)] by blast
  show "post_read h nid now env db = (Http_error 404 ''Notification not found'', db)"
    "post_archive h nid now env db = (Http_error 404 ''Notification not found'', db)"
    "post_unarchive h nid env db = (Http_error 404 ''Notification not found'', db)"
    using u none
    by (simp_all add: post_read_def post_archive_def post_unarchive_def on_row_def require_recipient_def
        row_ops_missing)
qed (simp_all add: post_read_def post_read_all_def post_archive_read_def on_row_def on_feed_def
    require_recipient_def)

lemma feed_confined_witness:
  "post_read demo_host 2 40 (\<lambda>x. x) demo_tables = (Http_error 404 ''Notification not found'', demo_tables)"
proof -
  have d: "distinct (map n_id (nd_notifications demo_tables))" by (simp add: demo_tables_def demo_note_def)
  have u: "current_user_id demo_host = Some (IdInt 7)" by (simp add: current_user_id_def demo_host_def)
  have "\<forall>n\<in>set (nd_notifications demo_tables). n_id n = 2 \<longrightarrow> \<not> recipient_conditions demo_host (IdInt 7) n"
    by (simp add: demo_tables_def demo_note_def recipient_conditions_def current_org_id_def demo_host_def
        stored_id_def)
  with feed_confined [OF keeps_owner_id [OF d] d, of demo_host 2 40] u show ?thesis by blast
qed

lemma take_pages:
  "concat (map (\<lambda>p. take s (drop ((p - 1) * s) xs)) [1..<Suc k]) = take (k * s) xs"
proof (induction k)
  case 0
  then show ?case by simp
next
  case (Suc k)
  have "take (k * s) xs @ take s (drop (k * s) xs) = take (k * s + s) xs"
    by (rule take_add [symmetric])
  with Suc show ?case by (simp add: add.commute)
qed

text \<open>The pages of \<open>list_feed\<close>, put one after the other, are the rows of the feed, newest first with
  the id as the tie-break, each once: page p of k cuts the list at multiples of the page size, and the
  total counts the same rows.\<close>

theorem feed_pages:
  assumes "0 < psize"
  shows "concat (map (\<lambda>p. fst (list_feed h u st un (int p) psize (\<lambda>x. x) db)) [1..<Suc k]) =
           take (k * nat psize) (sort_key feed_order (filter (feed_conditions h u st un) (nd_notifications db))) \<and>
         snd (list_feed h u st un p psize (\<lambda>x. x) db) =
           length (sort_key feed_order (filter (feed_conditions h u st un) (nd_notifications db))) \<and>
         sorted (map feed_order (sort_key feed_order (filter (feed_conditions h u st un) (nd_notifications db)))) \<and>
         mset (sort_key feed_order (filter (feed_conditions h u st un) (nd_notifications db))) =
           filter_mset (feed_conditions h u st un) (mset (nd_notifications db))"
proof (intro conjI)
  let ?feed = "sort_key feed_order (filter (feed_conditions h u st un) (nd_notifications db))"
  have "fst (list_feed h u st un (int p) psize (\<lambda>x. x) db) = take (nat psize) (drop ((p - 1) * nat psize) ?feed)"
    if "p \<in> set [1..<Suc k]" for p
  proof -
    have "int p - 1 = int (p - 1)" using that by auto
    then have "nat ((int p - 1) * psize) = (p - 1) * nat psize"
      using assms by (metis nat_int nat_mult_distrib of_nat_0_le_iff)
    then show ?thesis using assms by (simp add: list_feed_def offset_limit_def)
  qed
  then have "map (\<lambda>p. fst (list_feed h u st un (int p) psize (\<lambda>x. x) db)) [1..<Suc k] =
      map (\<lambda>p. take (nat psize) (drop ((p - 1) * nat psize) ?feed)) [1..<Suc k]"
    by (intro map_cong) auto
  then show "concat (map (\<lambda>p. fst (list_feed h u st un (int p) psize (\<lambda>x. x) db)) [1..<Suc k]) =
      take (k * nat psize) ?feed"
    by (simp only: take_pages)
qed (simp_all add: list_feed_def rowcount_def)

lemma feed_pages_witness:
  "concat (map (\<lambda>p. fst (list_feed demo_host (IdInt 7) ''open'' False (int p) 1 (\<lambda>x. x) demo_tables)) [1..<Suc 2]) =
     [demo_note 0 ''acme'' ''7'' 10]"
proof -
  have "filter (feed_conditions demo_host (IdInt 7) ''open'' False) (nd_notifications demo_tables) =
      [demo_note 0 ''acme'' ''7'' 10]"
    by code_simp
  with feed_pages [of 1 demo_host "IdInt 7" "''open''" False demo_tables 2] show ?thesis by simp
qed

text \<open>The badge and the two bulk operations agree: \<open>read-all\<close> leaves it at zero and reports every
  unread row, \<open>archive-read\<close> leaves it as it was, because no unread row is ever archived.\<close>

theorem bulk_operations_keep_the_badge_honest:
  "unread_count h u (snd (mark_all_read h u now db)) = 0 \<and>
   unread_count h u db \<le> fst (mark_all_read h u now db) \<and>
   fst (mark_all_read h u later (snd (mark_all_read h u now db))) = 0 \<and>
   unread_count h u (snd (archive_read h u now db)) = unread_count h u db \<and>
   filter (\<lambda>n. n_read_at n = None) (nd_notifications (snd (archive_read h u now db))) =
     filter (\<lambda>n. n_read_at n = None) (nd_notifications db)"
proof (intro conjI)
  have rc: "recipient_conditions h u (n\<lparr>n_read_at := t\<rparr>) = recipient_conditions h u n"
    "recipient_conditions h u (n\<lparr>n_archived_at := t\<rparr>) = recipient_conditions h u n" for n t
    by (simp_all add: recipient_conditions_def split: option.split)
  show "unread_count h u (snd (mark_all_read h u now db)) = 0"
    by (auto simp: unread_count_def mark_all_read_def Let_def rowcount_0_iff ball_update_where rc)
  show "unread_count h u db \<le> fst (mark_all_read h u now db)"
  proof -
    have "rowcount (\<lambda>n. recipient_conditions h u n \<and> n_read_at n = None \<and> n_archived_at n = None) ns \<le>
        rowcount (\<lambda>n. recipient_conditions h u n \<and> n_read_at n = None) ns" for ns
      by (induction ns) auto
    then show ?thesis by (simp add: unread_count_def mark_all_read_def Let_def)
  qed
  show "fst (mark_all_read h u later (snd (mark_all_read h u now db))) = 0"
    by (auto simp: mark_all_read_def Let_def rowcount_0_iff ball_update_where rc)
  show "unread_count h u (snd (archive_read h u now db)) = unread_count h u db"
    unfolding unread_count_def archive_read_def Let_def snd_conv
    by (simp, rule rowcount_update_same) auto
  show "filter (\<lambda>n. n_read_at n = None) (nd_notifications (snd (archive_read h u now db))) =
      filter (\<lambda>n. n_read_at n = None) (nd_notifications db)"
  proof -
    have "filter (\<lambda>n. n_read_at n = None)
        (update_where (\<lambda>n. recipient_conditions h u n \<and> n_read_at n \<noteq> None \<and> n_archived_at n = None)
          (\<lambda>r. r\<lparr>n_archived_at := Some now\<rparr>) ns) = filter (\<lambda>n. n_read_at n = None) ns" for ns
      by (induction ns) auto
    then show ?thesis by (simp add: archive_read_def Let_def)
  qed
qed

end
