(* ===== verification/NotifyOutbox.thy ===== *)
theory NotifyOutbox
  imports NotifyProps
begin

text \<open>
  The properties of the outbox: what one pass does alone, what concurrent passes keep, and where the
  attempt cap is lost.
\<close>

subsection \<open>The tables and the outbox system fit\<close>

text \<open>From the empty tables every operation of the package (emits, feed, dispatch statements,
  configuration) keeps keys unique and every outbox row attached to a notification of its own
  organisation, off the in-app channel; and what producers and readers do is, to the dispatchers, the
  appending of fresh outbox rows.\<close>

theorem outbox_rows_belong:
  assumes "reachable (\<lambda>db. db = empty_notify_db) table_step db"
  shows "distinct (map n_id (nd_notifications db)) \<and> distinct (map d_id (nd_deliveries db)) \<and>
    (\<forall>d\<in>set (nd_deliveries db). d_channel d \<noteq> in_app \<and>
       (\<exists>n\<in>set (nd_notifications db). n_id n = d_notification d \<and> d_org d = Some (n_org n))) \<and>
    (\<forall>db' s. package_op db db' \<longrightarrow> ob_db s = db \<longrightarrow>
       outbox_step (Host db') s = Some (s\<lparr>ob_db := db'\<rparr>))"
proof -
  have wf: "tables_wf db" using assms by (rule tables.inv_reachable)
  have "host_work db db'" if "package_op db db'" for db'
    using package_op_wf [OF that wf] by blast
  with wf show ?thesis by (auto simp: tables_wf_def)
qed

lemma outbox_rows_belong_witness:
  "\<exists>db. reachable (\<lambda>db. db = empty_notify_db) table_step db \<and> nd_topics db \<noteq> [] \<and>
     distinct (map n_id (nd_notifications db))"
proof -
  let ?db = "empty_notify_db\<lparr>nd_topics := nd_topics demo_tables, nd_importances := [], nd_policies := []\<rparr>"
  have "table_step empty_notify_db ?db" unfolding table_step_def by (blast intro: op_config)
  then have r: "reachable (\<lambda>db. db = empty_notify_db) table_step ?db"
    by (blast intro: reachable.intros)
  moreover have "nd_topics ?db \<noteq> []" by (simp add: demo_tables_def)
  ultimately show ?thesis using outbox_rows_belong [OF r] by blast
qed

subsection \<open>One pass alone\<close>

lemma singleton_list:
  assumes "n \<in> set xs" "distinct xs" and one: "\<And>m. m \<in> set xs \<Longrightarrow> m = n"
  shows "xs = [n]"
proof -
  have "set xs = {n}" using assms(1) one by blast
  with assms(2) have "length xs = 1" using distinct_card [of xs] by simp
  then obtain y where "xs = [y]" by (metis One_nat_def length_0_conv length_Suc_conv)
  with assms(1) show ?thesis by simp
qed

lemma join_note_one:
  assumes "tables_wf db" "d \<in> set (nd_deliveries db)" "sees (d_org d)"
  shows "\<exists>n. join_note sees (nd_notifications db) d = [(d, n)]"
proof -
  let ?P = "\<lambda>n. n_id n = d_notification d \<and> sees (Some (n_org n))"
  obtain n where n: "n \<in> set (nd_notifications db)" "n_id n = d_notification d" "d_org d = Some (n_org n)"
    using assms(1,2) unfolding tables_wf_def by blast
  have dist: "distinct (map n_id (nd_notifications db))" using assms(1) by (simp add: tables_wf_def)
  have same: "m = n" if "m \<in> set (filter ?P (nd_notifications db))" for m
  proof -
    have "m \<in> set (nd_notifications db)" "n_id m = n_id n" using that n by auto
    with dist n(1) show ?thesis by (metis distinct_map inj_onD)
  qed
  have "n \<in> set (filter ?P (nd_notifications db))" using n assms(3) by simp
  moreover have "distinct (filter ?P (nd_notifications db))" using dist by (simp add: distinct_map)
  ultimately have "filter ?P (nd_notifications db) = [n]"
    using same by (intro singleton_list) blast+
  then show ?thesis by (simp add: join_note_def)
qed

lemma pending_rows_fst:
  assumes "tables_wf db"
  shows "map fst (pending_rows sees cnt db) =
           take cnt (sort_key d_id (filter (\<lambda>d. sees (d_org d) \<and> sendable d) (nd_deliveries db)))"
proof -
  have "map fst (concat (map (join_note sees (nd_notifications db)) ds)) = ds"
    if "\<forall>d\<in>set ds. d \<in> set (nd_deliveries db) \<and> sees (d_org d)" for ds
    using that
  proof (induction ds)
    case Nil
    then show ?case by simp
  next
    case (Cons d ds)
    then obtain n where "join_note sees (nd_notifications db) d = [(d, n)]"
      using join_note_one [OF assms, of d] by auto
    with Cons show ?case by simp
  qed
  then show ?thesis by (simp add: pending_rows_def take_map [symmetric])
qed

text \<open>C34: A pass that nobody disturbs settles exactly the first rows by id that are pending with attempts
  left and visible to it, stale claims included: each becomes its outcome, every other row stays, and
  the count it returns is theirs.  A pass that row security would blind raises and touches nothing.\<close>

theorem undisturbed_pass:
  fixes sees :: "string option \<Rightarrow> bool" and clk :: "nat \<Rightarrow> instant" and cnt :: nat
  assumes "tables_wf db"
  defines "ds \<equiv> reclaim sees (clk 0) (nd_deliveries db)"
  defines "rows \<equiv> pending_rows sees cnt (db\<lparr>nd_deliveries := ds\<rparr>)"
  shows "dispatch_pending sees bound pinned pg rls cnt send (\<lambda>_ x. x) clk db =
      (if \<not> bound \<and> \<not> pinned \<and> pg \<and> rls
       then (Inl (RuntimeErrorExn ''dispatch_pending() would read the outbox with no tenant bound''), db)
       else (Inr (length rows), db\<lparr>nd_deliveries := settle_all send 1 rows ds\<rparr>)) \<and>
    map fst rows = take cnt (sort_key d_id (filter (\<lambda>d. sees (d_org d) \<and> sendable d) ds)) \<and>
    (\<forall>d\<in>set ds. d_id d \<notin> set (map snap_id rows) \<longrightarrow> d \<in> set (settle_all send 1 rows ds))"
proof (intro conjI)
  let ?db = "db\<lparr>nd_deliveries := ds\<rparr>"
  have o: "open_pass sees (clk 0) cnt db = (rows, ?db)" by (simp add: open_pass_def Let_def ds_def rows_def)
  have wf: "tables_wf ?db" using dispatch_op_wf [OF op_open [OF o] assms(1)] .
  show fst: "map fst rows = take cnt (sort_key d_id (filter (\<lambda>d. sees (d_org d) \<and> sendable d) ds))"
    using pending_rows_fst [OF wf] by (simp add: rows_def)
  have dist: "distinct (map d_id ds)" using wf by (simp add: tables_wf_def)
  have "distinct (map snap_id rows)"
  proof -
    let ?l = "sort_key d_id (filter (\<lambda>d. sees (d_org d) \<and> sendable d) ds)"
    have "distinct (map d_id ?l)"
      using dist distinct_map_filter by (simp add: distinct_map inj_on_def)
    then have "distinct (map d_id (take cnt ?l))" by (simp add: take_map [symmetric])
    then have "distinct (map d_id (map fst rows))" by (simp only: fst)
    then show ?thesis by (simp add: comp_def)
  qed
  moreover have "fst r \<in> set (nd_deliveries ?db) \<and> sees (d_org (fst r)) \<and> sendable (fst r)"
    if "r \<in> set rows" for r
    using pending_rows_set [OF that [unfolded rows_def]] by blast
  ultimately have "dispatch_loop sees send (\<lambda>_ x. x) clk 1 rows ?db =
      (length rows, ?db\<lparr>nd_deliveries := settle_all send 1 rows ds\<rparr>)"
    using dispatch_loop_undisturbed [of ?db rows sees send clk 1] dist by simp
  then show "dispatch_pending sees bound pinned pg rls cnt send (\<lambda>_ x. x) clk db =
      (if \<not> bound \<and> \<not> pinned \<and> pg \<and> rls
       then (Inl (RuntimeErrorExn ''dispatch_pending() would read the outbox with no tenant bound''), db)
       else (Inr (length rows), db\<lparr>nd_deliveries := settle_all send 1 rows ds\<rparr>))"
    by (auto simp: dispatch_pending_def refuse_tenant_blind_def guard_r_def o)
  show "\<forall>d\<in>set ds. d_id d \<notin> set (map snap_id rows) \<longrightarrow> d \<in> set (settle_all send 1 rows ds)"
  proof -
    have "d \<in> set (settle_all send k rs xs)" if "d \<in> set xs" "d_id d \<notin> set (map snap_id rs)" for d k rs xs
      using that by (induction send k rs xs rule: settle_all.induct) (auto simp: set_update_where)
    then show ?thesis by blast
  qed
qed

lemma undisturbed_pass_witness:
  "dispatch_pending (\<lambda>_. True) False False False False 100
      (\<lambda>_. deliver (\<lambda>_. Some (\<lambda>_. Returned SendOk)) 60) (\<lambda>_ x. x) (\<lambda>_. 60) demo_tables =
     (Inr 2, demo_tables\<lparr>nd_deliveries := map (\<lambda>d. d\<lparr>d_status := Sent, d_attempts := 1, d_sent_at := Some 60\<rparr>)
        (nd_deliveries demo_tables)\<rparr>)"
proof -
  let ?send = "\<lambda>_. deliver (\<lambda>_. Some (\<lambda>_. Returned SendOk)) 60"
  let ?rows = "pending_rows (\<lambda>_. True) 100
      (demo_tables\<lparr>nd_deliveries := reclaim (\<lambda>_. True) 60 (nd_deliveries demo_tables)\<rparr>)"
  have "length ?rows = 2" by code_simp
  moreover have "settle_all ?send 1 ?rows (reclaim (\<lambda>_. True) 60 (nd_deliveries demo_tables)) =
      map (\<lambda>d. d\<lparr>d_status := Sent, d_attempts := 1, d_sent_at := Some 60\<rparr>) (nd_deliveries demo_tables)"
    by code_simp
  ultimately show ?thesis
    using undisturbed_pass [OF demo_tables_wf, of "\<lambda>_. True" False False False False 100 ?send "\<lambda>_. 60"]
    by simp
qed

subsection \<open>Concurrent passes\<close>

text \<open>An outbox with one e-mail waiting, before any pass.\<close>

definition demo_outbox :: outbox where
  "demo_outbox =
     \<lparr>ob_db = empty_notify_db\<lparr>nd_notifications := [demo_note 0 ''acme'' ''7'' 10], nd_next_notification := 1\<rparr>,
      ob_now = 100, ob_pass = (\<lambda>_. Off), ob_sends = []\<rparr>"

definition demo_mail :: notify_db where
  "demo_mail = (ob_db demo_outbox)\<lparr>nd_deliveries := [demo_delivery 0 0 ''acme''], nd_next_delivery := 1\<rparr>"

lemma demo_outbox_start: "outbox_start demo_outbox"
  by (simp add: outbox_start_def demo_outbox_def empty_notify_db_def)

text \<open>While the clock stands still every send is prompt.\<close>

definition at_once :: "outbox \<Rightarrow> bool" where
  "at_once s = (\<forall>p r c. holding (ob_pass s p) = Some (r, c) \<longrightarrow> c = ob_now s)"

lemma at_once_prompt: "at_once s \<Longrightarrow> prompt s"
  by (auto simp: at_once_def prompt_def stale_claim_seconds_def)

lemma at_once_step:
  assumes "outbox_step e s = Some t" "at_once s" "\<And>x. e \<noteq> Tick x"
  shows "at_once t"
proof -
  have "c = ob_now s" if "ob_pass s p = Claimed sees r c rs" for p sees r c rs
    using assms(2) that unfolding at_once_def by (metis holding_simps(3))
  with assms(1,2) show ?thesis
  proof (cases e)
    case (Tick x)
    with assms(3) show ?thesis by blast
  qed (auto simp: at_once_def set_pass_def split: phase.splits list.splits if_splits prod.splits)
qed

definition calm :: "event \<Rightarrow> bool" where
  "calm e = (case e of Tick _ \<Rightarrow> False | Crash _ \<Rightarrow> False | _ \<Rightarrow> True)"

lemma run_calm:
  "run_events es s = Some t \<Longrightarrow> list_all calm es \<Longrightarrow> at_once s \<Longrightarrow> clean_step\<^sup>*\<^sup>* s t \<and> at_once t"
proof (induction es arbitrary: s)
  case Nil
  then show ?case by simp
next
  case (Cons e es)
  from Cons.prems(1) obtain u where u: "outbox_step e s = Some u" "run_events es u = Some t"
    by (auto simp: bind_eq_Some_conv)
  have e: "\<And>x. e \<noteq> Tick x" "\<And>p. e \<noteq> Crash p" using Cons.prems(2) by (auto simp: calm_def)
  have "clean_step s u"
    using u(1) e at_once_prompt [OF Cons.prems(3)] unfolding clean_step_def by blast
  moreover have "at_once u" using at_once_step [OF u(1) Cons.prems(3) e(1)] .
  ultimately show ?case
    using Cons.IH [OF u(2)] Cons.prems(2) by (auto intro: converse_rtranclp_into_rtranclp)
qed

lemma clean_prompt: "clean_step s t \<Longrightarrow> prompt_step s t"
  unfolding clean_step_def prompt_step_def any_step_def by blast

lemma clean_steps_prompt: "clean_step\<^sup>*\<^sup>* s t \<Longrightarrow> prompt_step\<^sup>*\<^sup>* s t"
  by (rule mono_rtranclp [rule_format]) (rule clean_prompt)

text \<open>One good pass over the demo outbox, and a second one that holds the row.\<close>

definition everyone :: "string option \<Rightarrow> bool" where
  "everyone _ = True"

definition demo_send :: "nat \<Rightarrow> send_result \<Rightarrow> event list" where
  "demo_send p res = [OpenPass p everyone 10, ClaimNext p, Answer p (Some res), Finish p, ClosePass p]"

lemma map_option_SomeE:
  assumes "map_option f x = Some y"
  obtains s where "x = Some s" "f s = y"
  using assms by auto

lemma demo_run:
  assumes "run_events es demo_outbox = Some t" "list_all calm es"
  shows "reachable outbox_start clean_step t" "reachable outbox_start prompt_step t"
proof -
  have "at_once demo_outbox" by (simp add: at_once_def demo_outbox_def)
  then have r: "clean_step\<^sup>*\<^sup>* demo_outbox t" using run_calm [OF assms] by blast
  have "reachable outbox_start clean_step demo_outbox" "reachable outbox_start prompt_step demo_outbox"
    using demo_outbox_start by (auto intro: reach_start)
  with r clean_steps_prompt [OF r]
  show "reachable outbox_start clean_step t" "reachable outbox_start prompt_step t"
    by (blast intro: reachable_steps)+
qed

text \<open>C4: As long as no send outlives the stale-claim window, however the transactions of any number of
  passes interleave and wherever processes die: a row a pass is sending is marked so with the time of
  that pass's claim, no two passes are sending one row, and a sent, failed or skipped row is never
  touched again.\<close>

theorem one_pass_per_row:
  assumes "reachable outbox_start prompt_step s"
  shows "(\<forall>p r c. holding (ob_pass s p) = Some (r, c) \<longrightarrow>
       (\<exists>d. row_by d_id (snap_id r) (nd_deliveries (ob_db s)) = Some d \<and> d_status d = Sending \<and>
            d_claimed_at d = Some c)) \<and>
    (\<forall>p q r c r' c'. p \<noteq> q \<longrightarrow> holding (ob_pass s p) = Some (r, c) \<longrightarrow>
       holding (ob_pass s q) = Some (r', c') \<longrightarrow> snap_id r \<noteq> snap_id r') \<and>
    (\<forall>t d. prompt_step\<^sup>*\<^sup>* s t \<longrightarrow> d \<in> set (nd_deliveries (ob_db s)) \<longrightarrow> terminal d \<longrightarrow>
       d \<in> set (nd_deliveries (ob_db t)))"
proof (intro conjI allI impI)
  have inv: "live_inv s" using assms by (rule live.inv_reachable)
  show "\<exists>d. row_by d_id (snap_id r) (nd_deliveries (ob_db s)) = Some d \<and> d_status d = Sending \<and>
            d_claimed_at d = Some c"
    if "holding (ob_pass s p) = Some (r, c)" for p r c
  proof -
    have "held_ok (nd_deliveries (ob_db s)) (ob_pass s p)" using inv by (simp add: live_inv_def)
    then show ?thesis unfolding held_ok_Some [OF that] by blast
  qed
  show "snap_id r \<noteq> snap_id r'"
    if "p \<noteq> q" "holding (ob_pass s p) = Some (r, c)" "holding (ob_pass s q) = Some (r', c')" for p q r c r' c'
    using inv that unfolding live_inv_def by blast
  show "d \<in> set (nd_deliveries (ob_db t))"
    if "prompt_step\<^sup>*\<^sup>* s t" "d \<in> set (nd_deliveries (ob_db s))" "terminal d" for t d
    using prompt_steps_keep_terminal [OF that(1) inv that(2,3)] .
qed

lemma one_pass_per_row_witness:
  "\<exists>s. reachable outbox_start prompt_step s \<and> holding (ob_pass s 1) \<noteq> None \<and>
     (\<forall>r c. holding (ob_pass s 1) = Some (r, c) \<longrightarrow>
       (\<exists>d. row_by d_id (snap_id r) (nd_deliveries (ob_db s)) = Some d \<and> d_status d = Sending))"
proof -
  let ?es = "[Host demo_mail, OpenPass 1 everyone 10, OpenPass 2 everyone 10, ClaimNext 1, ClaimNext 2]"
  have "map_option (\<lambda>s. holding (ob_pass s 1) \<noteq> None) (run_events ?es demo_outbox) = Some True"
    by code_simp
  then obtain s where s: "run_events ?es demo_outbox = Some s" "holding (ob_pass s 1) \<noteq> None"
    by (rule map_option_SomeE) simp
  have r: "reachable outbox_start prompt_step s" using demo_run(2) [OF s(1)] by (simp add: calm_def)
  note conjunct1 [OF one_pass_per_row [OF r]]
  with s(2) r show ?thesis by blast
qed

text \<open>C32: While no send outlives the stale-claim window (\<open>prompt\<close>) and no process dies between an
  adapter's acceptance and the mark, an adapter accepts each delivery at most once, and what it
  accepted is marked sent or about to be.  Both conditions are needed: a slower send is reclaimed and
  sent again, and so is one whose mark was lost.\<close>

theorem accepted_at_most_once:
  assumes "reachable outbox_start clean_step s"
  shows "distinct (accepts s) \<and>
    (\<forall>i\<in>set (accepts s).
       (\<exists>d\<in>set (nd_deliveries (ob_db s)). d_id d = i \<and> d_status d = Sent) \<or>
       (\<exists>p sees r c rs. ob_pass s p = Answered sees r c (Some SendOk) rs \<and> snap_id r = i))"
proof -
  have inv: "once_inv s" using assms by (rule once.inv_reachable)
  then have "\<exists>p sees r c rs. ob_pass s p = Answered sees r c (Some SendOk) rs \<and> snap_id r = i"
    if "i \<in> set (accepts s)" "\<not> (\<exists>d\<in>set (nd_deliveries (ob_db s)). d_id d = i \<and> d_status d = Sent)" for i
    using that accepted_in_hand_Some unfolding once_inv_def by blast
  with inv show ?thesis unfolding once_inv_def by blast
qed

lemma accepted_at_most_once_witness:
  "\<exists>s. reachable outbox_start clean_step s \<and> accepts s = [0] \<and> distinct (accepts s) \<and>
     (\<exists>d\<in>set (nd_deliveries (ob_db s)). d_id d = 0 \<and> d_status d = Sent)"
proof -
  let ?fs = "[Host demo_mail] @ demo_send 1 SendOk @ [OpenPass 2 everyone 10, ClosePass 2]"
  have "map_option accepts (run_events ?fs demo_outbox) = Some [0]"
    by code_simp
  then obtain s where s: "run_events ?fs demo_outbox = Some s" "accepts s = [0]"
    by (rule map_option_SomeE) simp
  have r: "reachable outbox_start clean_step s" using demo_run(1) [OF s(1)] by (simp add: calm_def demo_send_def)
  have "map_option (\<lambda>s. list_ex (\<lambda>d. d_id d = 0 \<and> d_status d = Sent) (nd_deliveries (ob_db s)))
      (run_events ?fs demo_outbox) = Some True" by code_simp
  then have "\<exists>d\<in>set (nd_deliveries (ob_db s)). d_id d = 0 \<and> d_status d = Sent"
    unfolding s(1) by (simp add: list_ex_iff)
  with accepted_at_most_once [OF r] s(2) r show ?thesis by blast
qed

text \<open>C33: However slow the sends are, a row never records more than five attempts, one that waits or is in
  flight has attempts left (so every dispatcher's scan, and \<open>has_pending\<close>, can see it), and one in flight
  carries its claim time (so the sweep reclaims it when its process is gone).\<close>

theorem no_row_is_stranded:
  assumes "reachable outbox_start any_step s" "d \<in> set (nd_deliveries (ob_db s))"
  shows "d_attempts d \<le> 5 \<and>
    (d_status d = Pending \<longrightarrow> sendable d \<and> has_pending (\<lambda>_. True) (ob_now s) (ob_db s)) \<and>
    (d_status d = Sending \<longrightarrow>
       (\<exists>c. d_claimed_at d = Some c \<and>
          (\<forall>later. c + seconds 300 < later \<longrightarrow> stale_claim later d \<and> has_pending (\<lambda>_. True) later (ob_db s))))"
proof -
  have ok: "row_ok d" using bounds.inv_reachable [OF assms(1)] assms(2) by (simp add: bounds_inv_def)
  have pend: "has_pending (\<lambda>_. True) now (ob_db s)" if "sendable d \<or> stale_claim now d" for now
    using assms(2) that unfolding has_pending_def exists_where_iff by blast
  have "d_attempts d \<le> 5" using ok by (simp add: row_ok_def max_attempts_def)
  moreover have "sendable d" if "d_status d = Pending" using ok that by (simp add: row_ok_def sendable_def)
  moreover have "\<exists>c. d_claimed_at d = Some c \<and> (\<forall>later. c + seconds 300 < later \<longrightarrow> stale_claim later d)"
    if "d_status d = Sending"
  proof -
    from ok that obtain c where c: "d_claimed_at d = Some c" by (auto simp: row_ok_def)
    then have "stale_claim later d" if "c + seconds 300 < later" for later
      using that \<open>d_status d = Sending\<close> by (simp add: stale_claim_def stale_cutoff_def stale_claim_seconds_def)
    with c show ?thesis by blast
  qed
  ultimately show ?thesis using pend by blast
qed

lemma no_row_is_stranded_witness:
  "\<exists>s d. reachable outbox_start any_step s \<and> d \<in> set (nd_deliveries (ob_db s)) \<and> d_status d = Sending \<and>
     d_attempts d \<le> 5 \<and> (\<exists>later. has_pending (\<lambda>_. True) later (ob_db s))"
proof -
  let ?es = "[Host demo_mail, OpenPass 1 everyone 10, ClaimNext 1]"
  have "map_option (\<lambda>s. map d_status (nd_deliveries (ob_db s))) (run_events ?es demo_outbox) = Some [Sending]"
    by code_simp
  then obtain s where s: "run_events ?es demo_outbox = Some s" "map d_status (nd_deliveries (ob_db s)) = [Sending]"
    by (rule map_option_SomeE) simp
  have "reachable outbox_start prompt_step s" using demo_run(2) [OF s(1)] by (simp add: calm_def)
  then have r: "reachable outbox_start any_step s"
    by (induction rule: reachable.induct) (auto simp: prompt_step_def intro: reachable.intros)
  from s(2) obtain d where d: "d \<in> set (nd_deliveries (ob_db s))" "d_status d = Sending" by auto
  from no_row_is_stranded [OF r d(1)] d(2) obtain c where "d_attempts d \<le> 5"
    "\<forall>later. c + seconds 300 < later \<longrightarrow> has_pending (\<lambda>_. True) later (ob_db s)" by blast
  moreover have "c + seconds 300 < c + seconds 300 + 1" by simp
  ultimately show ?thesis using r d by blast
qed

text \<open>The attempt cap does not bound the sends: the counter a failure writes is the pass's own snapshot
  plus one, so a pass that opened early and reaches the row late sets it back.  Here every step is
  prompt and nobody dies, one pass opens, four others fail the row, the first fails it and three more
  follow: eight refused sends, four attempts on record, the row still pending.\<close>

theorem attempts_can_be_lost:
  "\<exists>s. reachable outbox_start clean_step s \<and>
     ob_sends s = replicate 8 (0, SendError ''refused'') \<and> max_attempts = 5 \<and>
     map d_attempts (nd_deliveries (ob_db s)) = [4] \<and> map d_status (nd_deliveries (ob_db s)) = [Pending]"
proof -
  let ?bad = "\<lambda>p. demo_send p (SendError ''refused'')"
  let ?es = "Host demo_mail # OpenPass 1 everyone 10 # ?bad 2 @ ?bad 3 @ ?bad 4 @ ?bad 5 @
     tl (?bad 1) @ ?bad 2 @ ?bad 3 @ ?bad 4"
  have "map_option (\<lambda>s. (ob_sends s, map d_attempts (nd_deliveries (ob_db s)), map d_status (nd_deliveries (ob_db s))))
      (run_events ?es demo_outbox) = Some (replicate 8 (0, SendError ''refused''), [4], [Pending])"
    by code_simp
  then obtain s where s: "run_events ?es demo_outbox = Some s"
    "(ob_sends s, map d_attempts (nd_deliveries (ob_db s)), map d_status (nd_deliveries (ob_db s))) =
       (replicate 8 (0, SendError ''refused''), [4], [Pending])"
    by (rule map_option_SomeE) simp
  have "reachable outbox_start clean_step s"
    using demo_run(1) [OF s(1)] by (simp add: calm_def demo_send_def)
  with s(2) show ?thesis by (intro exI [of _ s]) (simp add: max_attempts_def)
qed

text \<open>The two dispatchers settle a row alike, whatever its adapter returns or raises, except that the
  sync one refuses an adapter that answers with a coroutine: that attempt fails, however the coroutine
  would have ended.\<close>

theorem sync_and_async_agree:
  "(\<forall>send. adapter_for reg (d_channel (fst r)) = Some send \<longrightarrow> (\<forall>res. send (delivery_payload r) \<noteq> Coroutine res)) \<longrightarrow>
     deliver reg now r = deliver_async reg now r"
  "adapter_for reg (d_channel (fst r)) = Some send \<Longrightarrow> send (delivery_payload r) = Coroutine res \<Longrightarrow>
     fv_status (deliver reg now r) \<in> {Pending, Failed} \<and> deliver_async reg now r = outcome now r res"
  by (auto simp: deliver_def deliver_async_def sync_reply_def async_reply_def outcome_def Let_def
      split: option.split adapter_reply.split)

end
