(* ===== verification/LookupModel.thy ===== *)
theory LookupModel
  imports PyText
begin

text \<open>
  The tables of asas-lookups (src/packages/asas-lookups/src/asas_lookups/models.py) and the read
  side of service.py: which rows a session may see, how a label is chosen, and the list, resolve
  and metadata queries.  A table is the list of its rows in insertion order; the relationships
  \<open>value.translations\<close> and \<open>value.aliases\<close> are queries on the two child tables.  A session is an
  environment: what the configured organisation resolver answers for it, the clock reading of the
  call and SHA-1 as a function of the text.
\<close>

subsection \<open>Tables\<close>

datatype lookup_status = LsActive | LsDeprecated

datatype sort_mode = SortByLabel | SortByOrder

datatype type_scope = PlatformScope | OrgScope

record lookup_type =
  lt_id :: int
  lt_key :: string
  lt_name :: string
  lt_description :: "string option"
  lt_is_open :: bool
  lt_is_hierarchical :: bool
  lt_code_system :: "string option"
  lt_scope :: type_scope
  lt_default_sort :: sort_mode
  lt_version :: int
  lt_created_at :: instant
  lt_updated_at :: instant

record lookup_value =
  lv_id :: int
  lv_type :: int
  lv_org :: "int option"
  lv_code :: string
  lv_parent :: "int option"
  lv_status :: lookup_status
  lv_is_default :: bool
  lv_sort_order :: int
  lv_valid_from :: "int option"
  lv_valid_to :: "int option"
  lv_superseded :: "int option"
  lv_meta :: "(string \<times> pyval) list option"
  lv_created_at :: instant
  lv_updated_at :: instant

record lookup_translation =
  ltr_id :: int
  ltr_value :: int
  ltr_lang :: string
  ltr_label :: string
  ltr_short :: "string option"

record lookup_alias =
  la_id :: int
  la_value :: int
  la_lang :: "string option"
  la_alias :: string

record lookup_db =
  ld_types :: "lookup_type list"
  ld_values :: "lookup_value list"
  ld_translations :: "lookup_translation list"
  ld_aliases :: "lookup_alias list"

record lookup_env =
  le_resolver :: "int option option"
  le_now :: instant
  le_sha1 :: "string \<Rightarrow> string"

definition default_lang :: string where
  "default_lang = ''en''"

definition status_text :: "lookup_status \<Rightarrow> string" where
  "status_text s = (case s of LsActive \<Rightarrow> ''active'' | LsDeprecated \<Rightarrow> ''deprecated'')"

definition sort_mode_text :: "sort_mode \<Rightarrow> string" where
  "sort_mode_text m = (case m of SortByLabel \<Rightarrow> ''label'' | SortByOrder \<Rightarrow> ''sort_order'')"

definition scope_text :: "type_scope \<Rightarrow> string" where
  "scope_text s = (case s of PlatformScope \<Rightarrow> ''platform'' | OrgScope \<Rightarrow> ''org'')"

subsection \<open>Text and sequences\<close>

text \<open>\<open>s.lower()\<close> on code points below 256.\<close>

definition lower_char :: "char \<Rightarrow> char" where
  "lower_char c =
     (let n = of_char c :: nat in
      if (65 \<le> n \<and> n \<le> 90) \<or> (192 \<le> n \<and> n \<le> 222 \<and> n \<noteq> 215) then char_of (n + 32) else c)"

definition py_lower :: "string \<Rightarrow> string" where
  "py_lower s = map lower_char s"

definition fold_text :: "string \<Rightarrow> string" where
  "fold_text s = py_lower (py_strip s)"

definition head_opt :: "'a list \<Rightarrow> 'a option" where
  "head_opt xs = (case xs of [] \<Rightarrow> None | x # _ \<Rightarrow> Some x)"

text \<open>\<open>xs[a:b]\<close>: negative bounds count from the end, bounds past an end stop there.\<close>

definition slice_bound :: "nat \<Rightarrow> int \<Rightarrow> nat" where
  "slice_bound n i = nat (if i < 0 then max 0 (i + int n) else min i (int n))"

definition py_slice :: "'a list \<Rightarrow> int \<Rightarrow> int \<Rightarrow> 'a list" where
  "py_slice xs a b =
     (let i = slice_bound (length xs) a; j = slice_bound (length xs) b
      in take (j - i) (drop i xs))"

text \<open>\<open>{k: v for ...}\<close>: a repeated key keeps its place and takes the last value.\<close>

definition dict_of :: "(string \<times> 'v) list \<Rightarrow> (string \<times> 'v) list" where
  "dict_of kvs = dmerge [] kvs"

subsection \<open>What a session may see\<close>

definition current_org :: "lookup_env \<Rightarrow> int option" where
  "current_org e = (case le_resolver e of None \<Rightarrow> None | Some answer \<Rightarrow> answer)"

definition org_scoped :: "lookup_env \<Rightarrow> lookup_type option \<Rightarrow> lookup_value \<Rightarrow> bool" where
  "org_scoped e ty v =
     (case ty of
        Some t \<Rightarrow>
          if lt_scope t = OrgScope then lv_org v = current_org e
          else lv_org v = None \<or> (current_org e \<noteq> None \<and> lv_org v = current_org e)
      | None \<Rightarrow> lv_org v = None \<or> (current_org e \<noteq> None \<and> lv_org v = current_org e))"

fun prefer_loop :: "(string \<times> lookup_value) list \<Rightarrow> lookup_value list \<Rightarrow> (string \<times> lookup_value) list" where
  "prefer_loop held [] = held"
| "prefer_loop held (v # vs) =
     prefer_loop
       (case dget held (lv_code v) of
          None \<Rightarrow> dset held (lv_code v) v
        | Some h \<Rightarrow> if lv_org h = None \<and> lv_org v \<noteq> None then dset held (lv_code v) v else held)
       vs"

definition prefer_org :: "lookup_value list \<Rightarrow> lookup_value list" where
  "prefer_org vs = map snd (prefer_loop [] vs)"

definition type_by_key :: "lookup_db \<Rightarrow> string \<Rightarrow> lookup_type option" where
  "type_by_key db key = row_by lt_key key (ld_types db)"

definition get_type :: "lookup_db \<Rightarrow> string \<Rightarrow> lookup_type result" where
  "get_type db key =
     (case type_by_key db key of
        None \<Rightarrow> Inl (HTTPException 404 (''Unknown lookup type '' @ quoted key))
      | Some t \<Rightarrow> Inr t)"

definition visible_values :: "lookup_env \<Rightarrow> lookup_db \<Rightarrow> lookup_type \<Rightarrow> lookup_value list" where
  "visible_values e db t =
     filter (\<lambda>v. lv_type v = lt_id t \<and> org_scoped e (Some t) v) (ld_values db)"

definition value_by_code :: "lookup_env \<Rightarrow> lookup_db \<Rightarrow> lookup_type \<Rightarrow> string \<Rightarrow> lookup_value option" where
  "value_by_code e db t code =
     head_opt (sort_key (\<lambda>v. lv_org v = None)
       (filter (\<lambda>v. lv_code v = code) (visible_values e db t)))"

text \<open>A scoped read by primary key, as \<open>get_value_read\<close> follows its two pointers.\<close>

definition scoped_by_id :: "lookup_env \<Rightarrow> lookup_db \<Rightarrow> lookup_type \<Rightarrow> int \<Rightarrow> lookup_value option" where
  "scoped_by_id e db t i = first_where (\<lambda>v. lv_id v = i \<and> org_scoped e (Some t) v) (ld_values db)"

definition find_org_shadows :: "lookup_db \<Rightarrow> (string \<times> string \<times> int) list" where
  "find_org_shadows db =
     sort (concat (map (\<lambda>v.
       case lv_org v of
         None \<Rightarrow> []
       | Some org \<Rightarrow>
           if exists_where (\<lambda>p. lv_type p = lv_type v \<and> lv_code p = lv_code v \<and> lv_org p = None)
                (ld_values db)
           then map (\<lambda>t. (lt_key t, lv_code v, org))
                  (filter (\<lambda>t. lt_id t = lv_type v) (ld_types db))
           else []) (ld_values db)))"

definition value_exists :: "lookup_env \<Rightarrow> lookup_db \<Rightarrow> string \<Rightarrow> string \<Rightarrow> bool" where
  "value_exists e db key code =
     (case type_by_key db key of None \<Rightarrow> False | Some t \<Rightarrow> value_by_code e db t code \<noteq> None)"

subsection \<open>Labels\<close>

definition translations_of :: "lookup_db \<Rightarrow> lookup_value \<Rightarrow> lookup_translation list" where
  "translations_of db v = filter (\<lambda>t. ltr_value t = lv_id v) (ld_translations db)"

definition aliases_of :: "lookup_db \<Rightarrow> lookup_value \<Rightarrow> lookup_alias list" where
  "aliases_of db v = filter (\<lambda>a. la_value a = lv_id v) (ld_aliases db)"

definition by_lang :: "lookup_translation list \<Rightarrow> string \<Rightarrow> lookup_translation option" where
  "by_lang ts lang = first_where (\<lambda>t. ltr_lang t = lang) (rev ts)"

definition translation_for :: "lookup_db \<Rightarrow> lookup_value \<Rightarrow> string \<Rightarrow> lookup_translation option" where
  "translation_for db v lang =
     (let ts = translations_of db v in
      case by_lang ts lang of
        Some t \<Rightarrow> Some t
      | None \<Rightarrow> (case by_lang ts default_lang of Some t \<Rightarrow> Some t | None \<Rightarrow> head_opt ts))"

definition label_str :: "lookup_db \<Rightarrow> lookup_value \<Rightarrow> string \<Rightarrow> string" where
  "label_str db v lang =
     (case translation_for db v lang of Some t \<Rightarrow> ltr_label t | None \<Rightarrow> lv_code v)"

record value_read =
  vr_code :: string
  vr_label :: string
  vr_short :: "string option"
  vr_lang :: string
  vr_is_default :: bool
  vr_sort_order :: int
  vr_status :: string
  vr_parent_code :: "string option"
  vr_meta :: "(string \<times> pyval) list"
  vr_aliases :: "string list"

definition meta_or_empty :: "(string \<times> pyval) list option \<Rightarrow> (string \<times> pyval) list" where
  "meta_or_empty m = (case m of None \<Rightarrow> [] | Some d \<Rightarrow> d)"

definition serialize_value ::
    "lookup_db \<Rightarrow> lookup_value \<Rightarrow> string \<Rightarrow> (int \<times> string) list option \<Rightarrow> value_read" where
  "serialize_value db v lang code_map =
     (let t = translation_for db v lang in
      \<lparr>vr_code = lv_code v,
       vr_label = (case t of Some r \<Rightarrow> ltr_label r | None \<Rightarrow> lv_code v),
       vr_short = (case t of Some r \<Rightarrow> ltr_short r | None \<Rightarrow> None),
       vr_lang = (case t of Some r \<Rightarrow> ltr_lang r | None \<Rightarrow> default_lang),
       vr_is_default = lv_is_default v,
       vr_sort_order = lv_sort_order v,
       vr_status = status_text (lv_status v),
       vr_parent_code =
         (case (lv_parent v, code_map) of
            (Some p, Some m) \<Rightarrow> map_of (rev m) p
          | _ \<Rightarrow> None),
       vr_meta = meta_or_empty (lv_meta v),
       vr_aliases = sort (map la_alias (aliases_of db v))\<rparr>)"

subsection \<open>Listing and searching\<close>

definition short_texts :: "lookup_translation \<Rightarrow> string list" where
  "short_texts t =
     (case ltr_short t of None \<Rightarrow> [] | Some s \<Rightarrow> if s = [] then [] else [py_lower s])"

definition value_matches :: "lookup_db \<Rightarrow> string \<Rightarrow> lookup_value \<Rightarrow> bool" where
  "value_matches db needle v =
     list_ex (is_infix needle)
       ([py_lower (lv_code v)]
        @ map (\<lambda>t. py_lower (ltr_label t)) (translations_of db v)
        @ concat (map short_texts (translations_of db v))
        @ map (\<lambda>a. py_lower (la_alias a)) (aliases_of db v))"

definition order_values :: "lookup_db \<Rightarrow> lookup_type \<Rightarrow> string \<Rightarrow> lookup_value list \<Rightarrow> lookup_value list" where
  "order_values db t lang vs =
     (if lt_default_sort t = SortByOrder
      then sort_key (\<lambda>v. (lv_sort_order v, py_lower (label_str db v lang))) vs
      else sort_key (\<lambda>v. py_lower (label_str db v lang)) vs)"

definition text_given :: "string option \<Rightarrow> bool" where
  "text_given s = (case s of None \<Rightarrow> False | Some t \<Rightarrow> t \<noteq> [])"

definition parent_filter :: "lookup_env \<Rightarrow> lookup_db \<Rightarrow> lookup_type \<Rightarrow> string option \<Rightarrow> lookup_value \<Rightarrow> bool" where
  "parent_filter e db t parent v =
     (case parent of
        Some p \<Rightarrow>
          if p = [] then True
          else lv_parent v =
            Some (case value_by_code e db t p of Some r \<Rightarrow> lv_id r | None \<Rightarrow> - 1)
      | None \<Rightarrow> True)"

definition selected_values ::
    "lookup_env \<Rightarrow> lookup_db \<Rightarrow> lookup_type \<Rightarrow> bool \<Rightarrow> string option \<Rightarrow> string option \<Rightarrow> lookup_value list" where
  "selected_values e db t active_only q parent =
     (let values = prefer_org (filter (\<lambda>v. (active_only \<longrightarrow> lv_status v = LsActive)
                     \<and> parent_filter e db t parent v) (visible_values e db t))
      in case q of
           Some s \<Rightarrow>
             if s = [] then values else filter (value_matches db (fold_text s)) values
         | None \<Rightarrow> values)"

definition list_values ::
    "lookup_env \<Rightarrow> lookup_db \<Rightarrow> lookup_type \<Rightarrow> string \<Rightarrow> bool \<Rightarrow> string option \<Rightarrow> string option
     \<Rightarrow> int \<Rightarrow> int \<Rightarrow> nat \<times> value_read list" where
  "list_values e db t lang active_only q parent page page_size =
     (let values = order_values db t lang (selected_values e db t active_only q parent);
          start = (page - 1) * page_size;
          window = py_slice values start (start + page_size);
          code_map = map (\<lambda>v. (lv_id v, lv_code v)) (visible_values e db t)
      in (length values, map (\<lambda>v. serialize_value db v lang (Some code_map)) window))"

definition followed :: "lookup_env \<Rightarrow> lookup_db \<Rightarrow> lookup_type \<Rightarrow> bool \<Rightarrow> lookup_value \<Rightarrow> lookup_value" where
  "followed e db t follow v =
     (case lv_superseded v of
        Some s \<Rightarrow>
          if follow then (case scoped_by_id e db t s of Some r \<Rightarrow> r | None \<Rightarrow> v) else v
      | None \<Rightarrow> v)"

definition read_code_map :: "lookup_env \<Rightarrow> lookup_db \<Rightarrow> lookup_type \<Rightarrow> lookup_value \<Rightarrow> (int \<times> string) list" where
  "read_code_map e db t v =
     (lv_id v, lv_code v) #
       (case lv_parent v of
          Some p \<Rightarrow> (case scoped_by_id e db t p of Some r \<Rightarrow> [(lv_id r, lv_code r)] | None \<Rightarrow> [])
        | None \<Rightarrow> [])"

definition get_value_read ::
    "lookup_env \<Rightarrow> lookup_db \<Rightarrow> lookup_type \<Rightarrow> string \<Rightarrow> string \<Rightarrow> bool \<Rightarrow> value_read result" where
  "get_value_read e db t code lang follow =
     (case value_by_code e db t code of
        None \<Rightarrow> Inl (HTTPException 404 (''Unknown code '' @ quoted code @ '' in '' @ quoted (lt_key t)))
      | Some v0 \<Rightarrow>
          let v = followed e db t follow v0
          in Inr (serialize_value db v lang (Some (read_code_map e db t v))))"

subsection \<open>Bulk reads\<close>

text \<open>Platform rows first, so that in a dict built from the rows the organisation's row wins.\<close>

definition org_last :: "lookup_value list \<Rightarrow> lookup_value list" where
  "org_last vs = sort_key (\<lambda>v. lv_org v \<noteq> None) vs"

definition label_map :: "lookup_env \<Rightarrow> lookup_db \<Rightarrow> string \<Rightarrow> string \<Rightarrow> (string \<times> string) list" where
  "label_map e db lang key =
     (case type_by_key db key of
        None \<Rightarrow> []
      | Some t \<Rightarrow>
          dict_of (map (\<lambda>v. (lv_code v, label_str db v lang)) (org_last (visible_values e db t))))"

definition label_maps ::
    "lookup_env \<Rightarrow> lookup_db \<Rightarrow> string list \<Rightarrow> string \<Rightarrow> (string \<times> (string \<times> string) list) list" where
  "label_maps e db keys lang = dict_of (map (\<lambda>k. (k, label_map e db lang k)) keys)"

definition value_meta_map ::
    "lookup_env \<Rightarrow> lookup_db \<Rightarrow> string \<Rightarrow> (string \<times> (string \<times> pyval) list) list" where
  "value_meta_map e db key =
     (case type_by_key db key of
        None \<Rightarrow> []
      | Some t \<Rightarrow>
          dict_of (map (\<lambda>v. (lv_code v, meta_or_empty (lv_meta v))) (org_last (visible_values e db t))))"

definition value_meta :: "lookup_env \<Rightarrow> lookup_db \<Rightarrow> string \<Rightarrow> string option \<Rightarrow> (string \<times> pyval) list" where
  "value_meta e db key code =
     (case code of
        None \<Rightarrow> []
      | Some c \<Rightarrow>
          if c = [] then []
          else (case type_by_key db key of
                  None \<Rightarrow> []
                | Some t \<Rightarrow>
                    (case value_by_code e db t c of Some v \<Rightarrow> meta_or_empty (lv_meta v) | None \<Rightarrow> [])))"

definition find_value_code :: "lookup_env \<Rightarrow> lookup_db \<Rightarrow> string \<Rightarrow> string \<Rightarrow> string option result" where
  "find_value_code e db key code =
     rbind (get_type db key) (\<lambda>t. Inr (map_option lv_code (value_by_code e db t code)))"

definition resolve_codes ::
    "lookup_env \<Rightarrow> lookup_db \<Rightarrow> lookup_type \<Rightarrow> string list \<Rightarrow> string \<Rightarrow> (string \<times> string option) list" where
  "resolve_codes e db t codes lang =
     (let found = dict_of (map (\<lambda>v. (lv_code v, label_str db v lang))
                    (org_last (filter (\<lambda>v. lv_code v \<in> set codes) (visible_values e db t))))
      in dict_of (map (\<lambda>c. (c, dget found c)) codes))"

end
