(* ===== verification/LookupWrite.thy ===== *)
theory LookupWrite
  imports LookupModel
begin

text \<open>
  The admin side of asas-lookups, service.py: slugs, the row a mutation may touch, and the
  mutations with their commits.  An operation returns its result together with the committed
  database: an exception discards what was not committed, so the database beside an error is the
  last commit before it.  \<open>type_\<close> is the row as the caller read it; \<open>_touch_type\<close> writes the
  version of that row plus one.
\<close>

type_synonym 'a lookup_op = "'a result \<times> lookup_db"

subsection \<open>Statements\<close>

fun fold_r :: "('a \<Rightarrow> 's \<Rightarrow> 's result) \<Rightarrow> 'a list \<Rightarrow> 's \<Rightarrow> 's result" where
  "fold_r f [] s = Inr s"
| "fold_r f (x # xs) s = rbind (f x s) (fold_r f xs)"

definition new_id :: "int list \<Rightarrow> int" where
  "new_id ids = foldr max ids 0 + 1"

text \<open>The two partial unique indexes of \<open>lookup_value\<close> together: one row per type, code and owner.\<close>

definition value_index :: "lookup_value \<Rightarrow> int \<times> string \<times> int option" where
  "value_index v = (lv_type v, lv_code v, lv_org v)"

definition insert_value :: "lookup_value \<Rightarrow> lookup_db \<Rightarrow> (lookup_value \<times> lookup_db) result" where
  "insert_value v db =
     (if exists_where (\<lambda>r. value_index r = value_index v) (ld_values db) then Inl IntegrityError
      else let row = v\<lparr>lv_id := new_id (map lv_id (ld_values db))\<rparr>
           in Inr (row, db\<lparr>ld_values := ld_values db @ [row]\<rparr>))"

definition insert_translation ::
    "int \<Rightarrow> string \<Rightarrow> string \<Rightarrow> string option \<Rightarrow> lookup_db \<Rightarrow> lookup_db result" where
  "insert_translation vid lang label short db =
     (if exists_where (\<lambda>t. ltr_value t = vid \<and> ltr_lang t = lang) (ld_translations db)
      then Inl IntegrityError
      else Inr (db\<lparr>ld_translations := ld_translations db @
        [\<lparr>ltr_id = new_id (map ltr_id (ld_translations db)), ltr_value = vid, ltr_lang = lang,
          ltr_label = label, ltr_short = short\<rparr>]\<rparr>))"

definition insert_alias :: "int \<Rightarrow> string \<times> string option \<Rightarrow> lookup_db \<Rightarrow> lookup_db" where
  "insert_alias vid al db =
     db\<lparr>ld_aliases := ld_aliases db @
       [\<lparr>la_id = new_id (map la_id (ld_aliases db)), la_value = vid, la_lang = snd al,
         la_alias = fst al\<rparr>]\<rparr>"

definition put_value :: "lookup_value \<Rightarrow> lookup_db \<Rightarrow> lookup_db" where
  "put_value v db = db\<lparr>ld_values := update_where (\<lambda>r. lv_id r = lv_id v) (\<lambda>_. v) (ld_values db)\<rparr>"

definition value_row :: "lookup_db \<Rightarrow> int \<Rightarrow> lookup_value option" where
  "value_row db i = row_by lv_id i (ld_values db)"

subsection \<open>Slugs\<close>

definition slug_char :: "char \<Rightarrow> bool" where
  "slug_char c =
     (let n = of_char c :: nat in (97 \<le> n \<and> n \<le> 122) \<or> (48 \<le> n \<and> n \<le> 57))"

function slug_sub :: "string \<Rightarrow> string" where
  "slug_sub [] = []"
| "slug_sub (c # cs) =
     (if slug_char c then c # slug_sub cs
      else CHR ''-'' # slug_sub (dropWhile (\<lambda>d. \<not> slug_char d) cs))"
  by pat_completeness auto

termination
  by (relation "measure length") (auto simp: le_imp_less_Suc length_dropWhile_le)

definition strip_dashes :: "string \<Rightarrow> string" where
  "strip_dashes s =
     rev (dropWhile (\<lambda>c. c = CHR ''-'') (rev (dropWhile (\<lambda>c. c = CHR ''-'') s)))"

definition slugify :: "lookup_env \<Rightarrow> string \<Rightarrow> string" where
  "slugify e txt =
     (let slug = strip_dashes (slug_sub (fold_text txt)) in
      if slug \<noteq> [] then slug else CHR ''x'' # take 12 (le_sha1 e (fold_text txt)))"

subsection \<open>Shared steps\<close>

definition touch_type :: "lookup_env \<Rightarrow> lookup_type \<Rightarrow> lookup_db \<Rightarrow> lookup_db" where
  "touch_type e t db =
     db\<lparr>ld_types := update_where (\<lambda>r. lt_id r = lt_id t)
          (\<lambda>r. r\<lparr>lt_version := lt_version t + 1, lt_updated_at := le_now e\<rparr>) (ld_types db)\<rparr>"

record translation_in =
  ti_lang :: string
  ti_label :: string
  ti_short :: "string option"

definition set_translation :: "int \<Rightarrow> translation_in \<Rightarrow> lookup_db \<Rightarrow> lookup_db" where
  "set_translation i incoming db =
     db\<lparr>ld_translations := update_where (\<lambda>r. ltr_id r = i)
          (\<lambda>r. r\<lparr>ltr_label := ti_label incoming, ltr_short := ti_short incoming\<rparr>)
          (ld_translations db)\<rparr>"

definition apply_translation ::
    "lookup_translation list \<Rightarrow> int \<Rightarrow> translation_in \<Rightarrow> lookup_db \<Rightarrow> lookup_db result" where
  "apply_translation held vid incoming db =
     (case by_lang held (ti_lang incoming) of
        Some existing \<Rightarrow> Inr (set_translation (ltr_id existing) incoming db)
      | None \<Rightarrow>
          insert_translation vid (ti_lang incoming) (ti_label incoming) (ti_short incoming) db)"

definition apply_translations ::
    "lookup_value \<Rightarrow> translation_in list \<Rightarrow> lookup_db \<Rightarrow> lookup_db result" where
  "apply_translations v incoming db =
     fold_r (apply_translation (translations_of db v) (lv_id v)) incoming db"

definition platform_write_error :: "lookup_type \<Rightarrow> py_exn" where
  "platform_write_error t =
     HTTPException 403 (quoted (lt_key t) @
       '' is a platform type: its values are read-only for organizations'')"

definition unknown_code :: "string \<Rightarrow> py_exn" where
  "unknown_code code = HTTPException 404 (''Unknown code '' @ quoted code)"

definition owned_row :: "lookup_db \<Rightarrow> lookup_type \<Rightarrow> string \<Rightarrow> int option \<Rightarrow> lookup_value option" where
  "owned_row db t code org =
     first_where (\<lambda>v. lv_type v = lt_id t \<and> lv_code v = code \<and> lv_org v = org) (ld_values db)"

definition value_for_write ::
    "lookup_env \<Rightarrow> lookup_db \<Rightarrow> lookup_type \<Rightarrow> string \<Rightarrow> lookup_value result" where
  "value_for_write e db t code =
     (if current_org e \<noteq> None \<and> lt_scope t = PlatformScope then Inl (platform_write_error t)
      else (case owned_row db t code (current_org e) of
              Some own \<Rightarrow> Inr own
            | None \<Rightarrow> Inl (unknown_code code)))"

fun dedup_loop :: "string list \<Rightarrow> string list \<Rightarrow> string list" where
  "dedup_loop seen [] = []"
| "dedup_loop seen (raw # rest) =
     (let al = py_strip raw in
      if al = [] \<or> py_lower al \<in> set seen then dedup_loop seen rest
      else al # dedup_loop (py_lower al # seen) rest)"

definition dedup_aliases :: "string list \<Rightarrow> string list" where
  "dedup_aliases als = dedup_loop [] als"

definition alias_present :: "lookup_db \<Rightarrow> lookup_value \<Rightarrow> string \<Rightarrow> bool" where
  "alias_present db v al = list_ex (\<lambda>a. fold_text (la_alias a) = fold_text al) (aliases_of db v)"

text \<open>What a function returns after its \<open>session.refresh(value)\<close>.\<close>

definition refreshed :: "lookup_db \<Rightarrow> int \<Rightarrow> lookup_value lookup_op" where
  "refreshed db i =
     (case value_row db i of
        Some row \<Rightarrow> (Inr row, db)
      | None \<Rightarrow> (Inl (HostExn ''InvalidRequestError'' ''Could not refresh instance''), db))"

subsection \<open>Mutations\<close>

definition creation_code :: "lookup_env \<Rightarrow> string option \<Rightarrow> translation_in list \<Rightarrow> string" where
  "creation_code e code translations =
     (if text_given code then the code
      else slugify e
        (case first_where (\<lambda>t. ti_lang t = default_lang) translations of
           Some t \<Rightarrow> ti_label t
         | None \<Rightarrow> (case translations of t # _ \<Rightarrow> ti_label t | [] \<Rightarrow> [])))"

definition creation_parent ::
    "lookup_env \<Rightarrow> lookup_db \<Rightarrow> lookup_type \<Rightarrow> string option \<Rightarrow> int option result" where
  "creation_parent e db t parent_code =
     (case parent_code of
        Some p \<Rightarrow>
          if p = [] then Inr None
          else (case value_by_code e db t p of
                  Some r \<Rightarrow> Inr (Some (lv_id r))
                | None \<Rightarrow> Inl (HTTPException 422 (''Unknown parent '' @ quoted p)))
      | None \<Rightarrow> Inr None)"

definition fresh_value ::
    "lookup_env \<Rightarrow> lookup_type \<Rightarrow> string \<Rightarrow> int option \<Rightarrow> bool \<Rightarrow> int \<Rightarrow> (string \<times> pyval) list \<Rightarrow> lookup_value" where
  "fresh_value e t code parent is_default sort_order meta =
     \<lparr>lv_id = 0, lv_type = lt_id t, lv_org = current_org e, lv_code = code, lv_parent = parent,
      lv_status = LsActive, lv_is_default = is_default, lv_sort_order = sort_order,
      lv_valid_from = None, lv_valid_to = None, lv_superseded = None, lv_meta = Some meta,
      lv_created_at = le_now e, lv_updated_at = le_now e\<rparr>"

text \<open>The checks before the first commit, and the row they let through.\<close>

definition create_checked ::
    "lookup_env \<Rightarrow> lookup_db \<Rightarrow> lookup_type \<Rightarrow> string option \<Rightarrow> translation_in list \<Rightarrow> bool \<Rightarrow> int
     \<Rightarrow> string option \<Rightarrow> (string \<times> pyval) list \<Rightarrow> (lookup_value \<times> lookup_db) result" where
  "create_checked e db t code translations is_default sort_order parent_code meta =
     (if translations = [] then Inl (HTTPException 422 ''At least one translation is required'')
      else if lt_scope t = PlatformScope \<and> current_org e \<noteq> None then Inl (platform_write_error t)
      else let c = creation_code e code translations in
           if value_by_code e db t c \<noteq> None
           then Inl (HTTPException 409
                  (''code '' @ quoted c @ '' already exists in '' @ quoted (lt_key t)))
           else rbind (creation_parent e db t parent_code) (\<lambda>parent.
                  insert_value (fresh_value e t c parent is_default sort_order meta) db))"

text \<open>The second transaction: labels, aliases and the version, which is read again.\<close>

definition create_second ::
    "lookup_env \<Rightarrow> lookup_type \<Rightarrow> lookup_value \<Rightarrow> translation_in list \<Rightarrow> string list \<Rightarrow> lookup_db
     \<Rightarrow> lookup_db result" where
  "create_second e t v translations als db =
     rbind (apply_translations v translations db) (\<lambda>db1.
       let db2 = fold (\<lambda>al. insert_alias (lv_id v) (al, None)) (dedup_aliases als) db1
       in Inr (touch_type e (case row_by lt_id (lt_id t) (ld_types db) of Some r \<Rightarrow> r | None \<Rightarrow> t) db2))"

definition create_value ::
    "lookup_env \<Rightarrow> lookup_db \<Rightarrow> lookup_type \<Rightarrow> string option \<Rightarrow> translation_in list \<Rightarrow> bool \<Rightarrow> int
     \<Rightarrow> string option \<Rightarrow> (string \<times> pyval) list \<Rightarrow> string list \<Rightarrow> lookup_value lookup_op" where
  "create_value e db t code translations is_default sort_order parent_code meta als =
     (case create_checked e db t code translations is_default sort_order parent_code meta of
        Inl x \<Rightarrow> (Inl x, db)
      | Inr (v, db1) \<Rightarrow>
          (case create_second e t v translations als db1 of
             Inl x \<Rightarrow> (Inl x, db1)
           | Inr db2 \<Rightarrow> refreshed db2 (lv_id v)))"

definition get_or_create_value ::
    "lookup_env \<Rightarrow> lookup_db \<Rightarrow> string \<Rightarrow> string \<Rightarrow> string \<Rightarrow> string lookup_op" where
  "get_or_create_value e db key label lang =
     (case get_type db key of
        Inl x \<Rightarrow> (Inl x, db)
      | Inr t \<Rightarrow>
          let l = py_strip label; code = slugify e l in
          (case value_by_code e db t code of
             Some v \<Rightarrow> (Inr (lv_code v), db)
           | None \<Rightarrow>
               (case create_value e db t (Some code) [\<lparr>ti_lang = lang, ti_label = l, ti_short = None\<rparr>]
                       False 0 None [] [] of
                  (r, db1) \<Rightarrow> (rbind r (\<lambda>v. Inr (lv_code v)), db1))))"

definition if_given :: "'a option \<Rightarrow> ('a \<Rightarrow> 's \<Rightarrow> 's) \<Rightarrow> 's \<Rightarrow> 's" where
  "if_given x f s = (case x of None \<Rightarrow> s | Some y \<Rightarrow> f y s)"

definition updated_value ::
    "lookup_env \<Rightarrow> bool option \<Rightarrow> int option \<Rightarrow> (string \<times> pyval) list option \<Rightarrow> lookup_value \<Rightarrow> lookup_value" where
  "updated_value e is_default sort_order meta v =
     (if_given meta (\<lambda>m. lv_meta_update (\<lambda>_. Some m))
       (if_given sort_order (\<lambda>n. lv_sort_order_update (\<lambda>_. n))
         (if_given is_default (\<lambda>b. lv_is_default_update (\<lambda>_. b)) v)))\<lparr>lv_updated_at := le_now e\<rparr>"

definition update_value ::
    "lookup_env \<Rightarrow> lookup_db \<Rightarrow> lookup_type \<Rightarrow> string \<Rightarrow> translation_in list option \<Rightarrow> bool option
     \<Rightarrow> int option \<Rightarrow> (string \<times> pyval) list option \<Rightarrow> lookup_value lookup_op" where
  "update_value e db t code translations is_default sort_order meta =
     (case rbind (value_for_write e db t code) (\<lambda>v.
             rbind (case translations of
                      None \<Rightarrow> Inr db
                    | Some ts \<Rightarrow> apply_translations v ts db) (\<lambda>db1.
               Inr (v, db1))) of
        Inl x \<Rightarrow> (Inl x, db)
      | Inr (v, db1) \<Rightarrow>
          refreshed (touch_type e t (put_value (updated_value e is_default sort_order meta v) db1))
            (lv_id v))"

definition today :: "lookup_env \<Rightarrow> int" where
  "today e = le_now e div seconds 86400"

definition supersede_target ::
    "lookup_env \<Rightarrow> lookup_db \<Rightarrow> lookup_type \<Rightarrow> string option \<Rightarrow> int option \<Rightarrow> int option result" where
  "supersede_target e db t superseded_by held =
     (case superseded_by of
        Some s \<Rightarrow>
          if s = [] then Inr held
          else (case value_by_code e db t s of
                  Some r \<Rightarrow> Inr (Some (lv_id r))
                | None \<Rightarrow> Inl (HTTPException 422 (''Unknown superseded_by '' @ quoted s)))
      | None \<Rightarrow> Inr held)"

definition deprecate_value ::
    "lookup_env \<Rightarrow> lookup_db \<Rightarrow> lookup_type \<Rightarrow> string \<Rightarrow> int option \<Rightarrow> string option
     \<Rightarrow> lookup_value lookup_op" where
  "deprecate_value e db t code valid_to superseded_by =
     (case rbind (value_for_write e db t code) (\<lambda>v.
             rbind (supersede_target e db t superseded_by (lv_superseded v)) (\<lambda>s. Inr (v, s))) of
        Inl x \<Rightarrow> (Inl x, db)
      | Inr (v, s) \<Rightarrow>
          refreshed (touch_type e t (put_value (v\<lparr>lv_status := LsDeprecated,
              lv_valid_to := Some (case valid_to of Some d \<Rightarrow> d | None \<Rightarrow> today e),
              lv_superseded := s, lv_updated_at := le_now e\<rparr>) db)) (lv_id v))"

definition add_alias ::
    "lookup_env \<Rightarrow> lookup_db \<Rightarrow> lookup_type \<Rightarrow> string \<Rightarrow> string \<Rightarrow> string option \<Rightarrow> lookup_value lookup_op" where
  "add_alias e db t code al lang =
     (case value_for_write e db t code of
        Inl x \<Rightarrow> (Inl x, db)
      | Inr v \<Rightarrow>
          let a = py_strip al in
          if a = [] then (Inl (HTTPException 422 ''alias must not be blank''), db)
          else if alias_present db v a then (Inr v, db)
          else refreshed (touch_type e t (insert_alias (lv_id v) (a, lang) db)) (lv_id v))"

definition remove_alias ::
    "lookup_env \<Rightarrow> lookup_db \<Rightarrow> lookup_type \<Rightarrow> string \<Rightarrow> string \<Rightarrow> lookup_value lookup_op" where
  "remove_alias e db t code al =
     (case value_for_write e db t code of
        Inl x \<Rightarrow> (Inl x, db)
      | Inr v \<Rightarrow>
          let doomed = (\<lambda>a. la_value a = lv_id v \<and> fold_text (la_alias a) = fold_text al) in
          if \<not> exists_where doomed (ld_aliases db) then (Inr v, db)
          else refreshed (touch_type e t
                 (db\<lparr>ld_aliases := filter (\<lambda>a. \<not> doomed a) (ld_aliases db)\<rparr>)) (lv_id v))"

text \<open>The labels of the source the target does not know yet, each once.\<close>

fun merge_aliases :: "string list \<Rightarrow> lookup_translation list \<Rightarrow> (string \<times> string option) list" where
  "merge_aliases seen [] = []"
| "merge_aliases seen (t # ts) =
     (let key = fold_text (ltr_label t) in
      if key \<noteq> [] \<and> key \<notin> set seen
      then (ltr_label t, Some (ltr_lang t)) # merge_aliases (key # seen) ts
      else merge_aliases seen ts)"

definition merge_values ::
    "lookup_env \<Rightarrow> lookup_db \<Rightarrow> lookup_type \<Rightarrow> string \<Rightarrow> string \<Rightarrow> lookup_value lookup_op" where
  "merge_values e db t code into =
     (if code = into then (Inl (HTTPException 422 ''Cannot merge a value into itself''), db)
      else case rbind (value_for_write e db t code) (\<lambda>source.
             rbind (value_for_write e db t into) (\<lambda>target. Inr (source, target))) of
        Inl x \<Rightarrow> (Inl x, db)
      | Inr (source, target) \<Rightarrow>
          let seen = map (\<lambda>a. fold_text (la_alias a)) (aliases_of db target);
              db1 = fold (insert_alias (lv_id target))
                      (merge_aliases seen (translations_of db source)) db
          in refreshed (touch_type e t (put_value (source\<lparr>lv_status := LsDeprecated,
               lv_superseded := Some (lv_id target), lv_valid_to := Some (today e),
               lv_updated_at := le_now e\<rparr>) db1)) (lv_id target))"

end
