(* ===== verification/LookupSeed.thy ===== *)
theory LookupSeed
  imports LookupWrite
begin

text \<open>
  Seeding: seeding.py (types, platform values, the per-organisation copy of the templates, the
  pointer pass and the meta backfill) and the writing half of orm_seeding.py.  A seed function
  commits as it goes, so the database beside an exception is the last commit; inside one
  transaction a failing insert discards what the transaction wrote.
\<close>

subsection \<open>ensure_type\<close>

text \<open>\<open>scope\<close> arrives as a member or as its text; \<open>TypeScope(text)\<close> refuses any other text.\<close>

definition scope_of_text :: "string \<Rightarrow> type_scope result" where
  "scope_of_text s =
     (if s = ''platform'' then Inr PlatformScope
      else if s = ''org'' then Inr OrgScope
      else Inl (ValueError (py_repr s @ '' is not a valid TypeScope'')))"

definition insert_type :: "lookup_type \<Rightarrow> lookup_db \<Rightarrow> (lookup_type \<times> lookup_db) result" where
  "insert_type t db =
     (if exists_where (\<lambda>r. lt_key r = lt_key t) (ld_types db) then Inl IntegrityError
      else let row = t\<lparr>lt_id := new_id (map lt_id (ld_types db))\<rparr>
           in Inr (row, db\<lparr>ld_types := ld_types db @ [row]\<rparr>))"

definition effective_scope :: "type_scope option \<Rightarrow> lookup_type option \<Rightarrow> type_scope" where
  "effective_scope explicit found =
     (case explicit of
        Some s \<Rightarrow> s
      | None \<Rightarrow> (case found of Some t \<Rightarrow> lt_scope t | None \<Rightarrow> PlatformScope))"

definition new_type ::
    "lookup_env \<Rightarrow> string \<Rightarrow> string option \<Rightarrow> string option \<Rightarrow> bool \<Rightarrow> bool \<Rightarrow> string option
     \<Rightarrow> sort_mode \<Rightarrow> type_scope \<Rightarrow> lookup_type" where
  "new_type e key name description is_open is_hierarchical code_system default_sort scope =
     \<lparr>lt_id = 0, lt_key = key, lt_name = (case name of Some n \<Rightarrow> n | None \<Rightarrow> key),
      lt_description = description, lt_is_open = is_open, lt_is_hierarchical = is_hierarchical,
      lt_code_system = code_system, lt_scope = scope, lt_default_sort = default_sort,
      lt_version = 1, lt_created_at = le_now e, lt_updated_at = le_now e\<rparr>"

definition ensure_type ::
    "lookup_env \<Rightarrow> lookup_db \<Rightarrow> string \<Rightarrow> string option \<Rightarrow> string option \<Rightarrow> bool \<Rightarrow> bool
     \<Rightarrow> string option \<Rightarrow> sort_mode \<Rightarrow> type_scope option \<Rightarrow> lookup_type lookup_op" where
  "ensure_type e db key name description is_open is_hierarchical code_system default_sort scope =
     (let found = type_by_key db key; effective = effective_scope scope found in
      if is_open \<and> effective \<noteq> OrgScope
      then (Inl (ValueError (''lookup type '' @ py_repr key @ '': is_open=True requires scope=org'')), db)
      else case found of
        Some t \<Rightarrow>
          if scope \<noteq> None \<and> lt_scope t \<noteq> effective
          then (Inl (ValueError (''lookup type '' @ py_repr key @ '' already exists with scope '' @
                  quoted (scope_text (lt_scope t)) @ '', not '' @ quoted (scope_text effective))), db)
          else (Inr t, db)
      | None \<Rightarrow>
          (case insert_type (new_type e key name description is_open is_hierarchical code_system
                   default_sort effective) db of
             Inl x \<Rightarrow> (Inl x, db)
           | Inr (t, db1) \<Rightarrow> (Inr t, db1)))"

definition bump_version :: "lookup_type \<Rightarrow> lookup_db \<Rightarrow> lookup_db" where
  "bump_version t db =
     db\<lparr>ld_types := update_where (\<lambda>r. lt_id r = lt_id t)
          (\<lambda>r. r\<lparr>lt_version := lt_version r + 1\<rparr>) (ld_types db)\<rparr>"

definition bump_version_if :: "lookup_type \<Rightarrow> nat \<Rightarrow> lookup_db \<Rightarrow> lookup_db" where
  "bump_version_if t added db = (if added \<noteq> 0 then bump_version t db else db)"

subsection \<open>The copy of the templates\<close>

definition template_rows :: "lookup_db \<Rightarrow> int \<Rightarrow> lookup_value list" where
  "template_rows db ty = filter (\<lambda>v. lv_type v = ty \<and> lv_org v = None) (ld_values db)"

definition own_rows :: "lookup_db \<Rightarrow> int \<Rightarrow> int \<Rightarrow> lookup_value list" where
  "own_rows db ty org = filter (\<lambda>v. lv_type v = ty \<and> lv_org v = Some org) (ld_values db)"

definition template_copy :: "lookup_env \<Rightarrow> int \<Rightarrow> lookup_value \<Rightarrow> lookup_value" where
  "template_copy e org tmpl =
     \<lparr>lv_id = 0, lv_type = lv_type tmpl, lv_org = Some org, lv_code = lv_code tmpl,
      lv_parent = None, lv_status = lv_status tmpl, lv_is_default = lv_is_default tmpl,
      lv_sort_order = lv_sort_order tmpl, lv_valid_from = lv_valid_from tmpl,
      lv_valid_to = lv_valid_to tmpl, lv_superseded = None,
      lv_meta = Some (meta_or_empty (lv_meta tmpl)),
      lv_created_at = le_now e, lv_updated_at = le_now e\<rparr>"

definition insert_labels ::
    "int \<Rightarrow> (string \<times> string \<times> string option) list \<Rightarrow> lookup_db \<Rightarrow> lookup_db result" where
  "insert_labels vid rows db =
     fold_r (\<lambda>(lang, label, short). insert_translation vid lang label short) rows db"

definition copy_template ::
    "lookup_env \<Rightarrow> int \<Rightarrow> lookup_value \<Rightarrow> lookup_db \<Rightarrow> (lookup_value \<times> lookup_db) result" where
  "copy_template e org tmpl db =
     rbind (insert_value (template_copy e org tmpl) db) (\<lambda>(copy, db1).
     rbind (insert_labels (lv_id copy)
              (map (\<lambda>t. (ltr_lang t, ltr_label t, ltr_short t)) (translations_of db tmpl)) db1) (\<lambda>db2.
       Inr (copy, fold (insert_alias (lv_id copy))
              (map (\<lambda>a. (la_alias a, la_lang a)) (aliases_of db tmpl)) db2)))"

text \<open>The first pass: the copies made, as template id and copy id.\<close>

fun copy_loop ::
    "lookup_env \<Rightarrow> int \<Rightarrow> lookup_value list \<Rightarrow> lookup_value list \<Rightarrow> lookup_db \<times> (int \<times> int) list
     \<Rightarrow> (lookup_db \<times> (int \<times> int) list) result" where
  "copy_loop e org own [] s = Inr s"
| "copy_loop e org own (tmpl # rest) s =
     (if lv_code tmpl \<in> set (map lv_code own) then copy_loop e org own rest s
      else rbind (copy_template e org tmpl (fst s)) (\<lambda>(copy, db1).
             copy_loop e org own rest (db1, snd s @ [(lv_id tmpl, lv_id copy)])))"

definition org_row_for ::
    "lookup_value list \<Rightarrow> lookup_value list \<Rightarrow> (int \<times> int) list \<Rightarrow> int option \<Rightarrow> int option" where
  "org_row_for templates own copies tid =
     (case tid of
        None \<Rightarrow> None
      | Some i \<Rightarrow>
          (case map_of copies i of
             Some c \<Rightarrow> Some c
           | None \<Rightarrow>
               (case row_by lv_id i templates of
                  None \<Rightarrow> None
                | Some ref \<Rightarrow> map_option lv_id (row_by lv_code (lv_code ref) (rev own)))))"

text \<open>The second pass, on the row of one template's copy.\<close>

definition or_held :: "'a option \<Rightarrow> 'a option \<Rightarrow> 'a option" where
  "or_held new held = (case new of Some x \<Rightarrow> Some x | None \<Rightarrow> held)"

definition remap_copy ::
    "lookup_value list \<Rightarrow> lookup_value list \<Rightarrow> (int \<times> int) list \<Rightarrow> lookup_value \<Rightarrow> lookup_db \<Rightarrow> lookup_db" where
  "remap_copy templates own copies tmpl db =
     (case map_of copies (lv_id tmpl) of
        None \<Rightarrow> db
      | Some c \<Rightarrow>
          db\<lparr>ld_values := update_where (\<lambda>r. lv_id r = c)
               (\<lambda>r. r\<lparr>lv_parent := or_held (org_row_for templates own copies (lv_parent tmpl)) (lv_parent r),
                      lv_superseded := or_held (org_row_for templates own copies (lv_superseded tmpl))
                                         (lv_superseded r)\<rparr>)
               (ld_values db)\<rparr>)"

definition seed_org_type ::
    "lookup_env \<Rightarrow> int \<Rightarrow> lookup_type \<Rightarrow> lookup_db \<Rightarrow> (nat \<times> lookup_db) result" where
  "seed_org_type e org t db =
     (let templates = template_rows db (lt_id t); own = own_rows db (lt_id t) org in
      rbind (copy_loop e org own templates (db, [])) (\<lambda>(db1, copies).
        let db2 = fold (remap_copy templates own copies) templates db1
        in Inr (length copies, if copies \<noteq> [] then bump_version t db2 else db2)))"

fun seed_org_loop ::
    "lookup_env \<Rightarrow> int \<Rightarrow> lookup_type list \<Rightarrow> nat \<times> lookup_db \<Rightarrow> (nat \<times> lookup_db) result" where
  "seed_org_loop e org [] s = Inr s"
| "seed_org_loop e org (t # ts) s =
     rbind (seed_org_type e org t (snd s)) (\<lambda>(n, db1). seed_org_loop e org ts (fst s + n, db1))"

definition seed_org_lookups :: "lookup_env \<Rightarrow> lookup_db \<Rightarrow> int \<Rightarrow> nat lookup_op" where
  "seed_org_lookups e db org =
     (case seed_org_loop e org (filter (\<lambda>t. lt_scope t = OrgScope) (ld_types db)) (0, db) of
        Inl x \<Rightarrow> (Inl x, db)
      | Inr (n, db1) \<Rightarrow> (Inr n, db1))"

subsection \<open>Platform values\<close>

datatype alias_spec = BareAlias string | LangAlias string "string option"

definition alias_pair :: "alias_spec \<Rightarrow> string \<times> string option" where
  "alias_pair s = (case s of BareAlias a \<Rightarrow> (a, None) | LangAlias a l \<Rightarrow> (a, l))"

definition alias_pairs :: "alias_spec list option \<Rightarrow> (string \<times> string option) list" where
  "alias_pairs aliases = (case aliases of None \<Rightarrow> [] | Some xs \<Rightarrow> map alias_pair xs)"

definition add_translations ::
    "int \<Rightarrow> (string \<times> string) list \<Rightarrow> (string \<times> string) list option \<Rightarrow> lookup_db \<Rightarrow> lookup_db result" where
  "add_translations vid translations short_labels db =
     insert_labels vid
       (map (\<lambda>(lang, label).
               (lang, label, dget (case short_labels of Some s \<Rightarrow> s | None \<Rightarrow> []) lang)) translations) db"

record seed_row =
  sr_code :: string
  sr_translations :: "(string \<times> string) list"
  sr_sort_order :: int
  sr_aliases :: "alias_spec list option"
  sr_meta :: "(string \<times> pyval) list"
  sr_short_labels :: "(string \<times> string) list option"
  sr_is_default :: bool
  sr_status :: "lookup_status option"
  sr_valid_from :: "int option"
  sr_valid_to :: "int option"

definition platform_row :: "lookup_db \<Rightarrow> int \<Rightarrow> string \<Rightarrow> lookup_value option" where
  "platform_row db ty code =
     first_where (\<lambda>v. lv_type v = ty \<and> lv_code v = code \<and> lv_org v = None) (ld_values db)"

definition seeded_value :: "lookup_env \<Rightarrow> int \<Rightarrow> seed_row \<Rightarrow> lookup_value" where
  "seeded_value e ty s =
     \<lparr>lv_id = 0, lv_type = ty, lv_org = None, lv_code = sr_code s, lv_parent = None,
      lv_status = (case sr_status s of Some x \<Rightarrow> x | None \<Rightarrow> LsActive),
      lv_is_default = sr_is_default s, lv_sort_order = sr_sort_order s,
      lv_valid_from = sr_valid_from s, lv_valid_to = sr_valid_to s, lv_superseded = None,
      lv_meta = Some (sr_meta s), lv_created_at = le_now e, lv_updated_at = le_now e\<rparr>"

text \<open>The label-less leftover of an interrupted seed gets its labels and missing aliases.\<close>

definition heal_value :: "lookup_value \<Rightarrow> seed_row \<Rightarrow> lookup_db \<Rightarrow> lookup_db result" where
  "heal_value v s db =
     rbind (add_translations (lv_id v) (sr_translations s) (sr_short_labels s) db) (\<lambda>db1.
       let present = map la_alias (aliases_of db v)
       in Inr (fold (insert_alias (lv_id v))
                 (filter (\<lambda>p. fst p \<notin> set present) (alias_pairs (sr_aliases s))) db1))"

definition plant_value :: "lookup_env \<Rightarrow> int \<Rightarrow> seed_row \<Rightarrow> lookup_db \<Rightarrow> lookup_db result" where
  "plant_value e ty s db =
     rbind (insert_value (seeded_value e ty s) db) (\<lambda>(v, db1).
     rbind (add_translations (lv_id v) (sr_translations s) (sr_short_labels s) db1) (\<lambda>db2.
       Inr (fold (insert_alias (lv_id v)) (alias_pairs (sr_aliases s)) db2)))"

definition commit_r :: "lookup_db \<Rightarrow> lookup_db result \<Rightarrow> bool lookup_op" where
  "commit_r db r = (case r of Inl x \<Rightarrow> (Inl x, db) | Inr db1 \<Rightarrow> (Inr True, db1))"

definition ensure_value :: "lookup_env \<Rightarrow> lookup_db \<Rightarrow> int \<Rightarrow> seed_row \<Rightarrow> bool lookup_op" where
  "ensure_value e db ty s =
     (case platform_row db ty (sr_code s) of
        Some v \<Rightarrow>
          if translations_of db v \<noteq> [] then (Inr False, db)
          else commit_r db (heal_value v s db)
      | None \<Rightarrow> commit_r db (plant_value e ty s db))"

definition missing_meta ::
    "(string \<times> pyval) list \<Rightarrow> (string \<times> pyval) list \<Rightarrow> (string \<times> pyval) list" where
  "missing_meta current meta = filter (\<lambda>kv. fst kv \<notin> set (map fst current)) meta"

definition backfill_meta :: "lookup_db \<Rightarrow> int \<Rightarrow> string \<Rightarrow> (string \<times> pyval) list \<Rightarrow> nat \<times> lookup_db" where
  "backfill_meta db ty code meta =
     (case platform_row db ty code of
        None \<Rightarrow> (0, db)
      | Some v \<Rightarrow>
          let current = meta_or_empty (lv_meta v); missing = missing_meta current meta in
          if missing = [] then (0, db)
          else (1, put_value (v\<lparr>lv_meta := Some (dmerge current missing)\<rparr>) db))"

subsection \<open>Seeding a type from a file\<close>

text \<open>\<open>SeedValue\<close> and \<open>SeedType\<close>, the validated declarations of data/__init__.py.\<close>

record seed_value =
  sv_code :: string
  sv_translations :: "translation_in list"
  sv_aliases :: "(string \<times> string option) list"
  sv_meta :: "(string \<times> pyval) list"
  sv_status :: "lookup_status option"
  sv_is_default :: bool
  sv_sort_order :: "int option"
  sv_valid_from :: "int option"
  sv_valid_to :: "int option"
  sv_parent_code :: "string option"
  sv_superseded_by :: "string option"

record seed_type_spec =
  st_key :: string
  st_name :: string
  st_description :: "string option"
  st_is_open :: bool
  st_is_hierarchical :: bool
  st_code_system :: "string option"
  st_scope :: "string option"
  st_default_sort :: "string option"
  st_values :: "seed_value list"

definition sort_mode_of_text :: "string option \<Rightarrow> sort_mode result" where
  "sort_mode_of_text s =
     (case s of
        None \<Rightarrow> Inr SortByLabel
      | Some m \<Rightarrow>
          if m = [] \<or> m = ''label'' then Inr SortByLabel
          else if m = ''sort_order'' then Inr SortByOrder
          else Inl (ValueError (py_repr m @ '' is not a valid SortMode'')))"

definition declared_scope :: "string option \<Rightarrow> type_scope option result" where
  "declared_scope s =
     (case s of
        None \<Rightarrow> Inr None
      | Some m \<Rightarrow> if m = [] then Inr None else rbind (scope_of_text m) (\<lambda>x. Inr (Some x)))"

definition seed_row_of :: "bool \<Rightarrow> nat \<Rightarrow> seed_value \<Rightarrow> seed_row" where
  "seed_row_of curated index v =
     \<lparr>sr_code = sv_code v,
      sr_translations = map (\<lambda>t. (ti_lang t, ti_label t)) (sv_translations v),
      sr_sort_order =
        (case sv_sort_order v of Some n \<Rightarrow> n | None \<Rightarrow> if curated then int index else 0),
      sr_aliases = Some (map (\<lambda>(a, l). LangAlias a l) (sv_aliases v)),
      sr_meta = sv_meta v,
      sr_short_labels =
        Some (dict_of (concat (map (\<lambda>t. case ti_short t of
                 Some s \<Rightarrow> if s = [] then [] else [(ti_lang t, s)] | None \<Rightarrow> []) (sv_translations v)))),
      sr_is_default = sv_is_default v,
      sr_status = sv_status v,
      sr_valid_from = sv_valid_from v,
      sr_valid_to = sv_valid_to v\<rparr>"

text \<open>One value of the file: ensured, then topped up; the number of changes and the database.\<close>

definition seed_one ::
    "lookup_env \<Rightarrow> int \<Rightarrow> bool \<Rightarrow> nat \<Rightarrow> seed_value \<Rightarrow> lookup_db \<Rightarrow> nat lookup_op" where
  "seed_one e ty curated index v db =
     (case ensure_value e db ty (seed_row_of curated index v) of
        (Inl x, db1) \<Rightarrow> (Inl x, db1)
      | (Inr wrote, db1) \<Rightarrow>
          if wrote then (Inr 1, db1)
          else if sv_meta v \<noteq> []
          then (let (n, db2) = backfill_meta db1 ty (sv_code v) (sv_meta v) in (Inr n, db2))
          else (Inr 0, db1))"

fun seed_values ::
    "lookup_env \<Rightarrow> int \<Rightarrow> bool \<Rightarrow> nat \<Rightarrow> seed_value list \<Rightarrow> nat \<Rightarrow> lookup_db \<Rightarrow> nat lookup_op" where
  "seed_values e ty curated index [] changed db = (Inr changed, db)"
| "seed_values e ty curated index (v # vs) changed db =
     (case seed_one e ty curated index v db of
        (Inl x, db1) \<Rightarrow> (Inl x, db1)
      | (Inr n, db1) \<Rightarrow> seed_values e ty curated (Suc index) vs (changed + n) db1)"

text \<open>\<open>wanted\<close>: the pointers the file declares, by code.\<close>

definition wanted_pointers :: "seed_type_spec \<Rightarrow> (string \<times> string option \<times> string option) list" where
  "wanted_pointers spec =
     dict_of (map (\<lambda>v. (sv_code v, sv_parent_code v, sv_superseded_by v))
       (filter (\<lambda>v. text_given (sv_parent_code v) \<or> text_given (sv_superseded_by v)) (st_values spec)))"

text \<open>One pointer of one row: skipped when not wanted or already set.\<close>

definition link_target ::
    "(string \<times> int) list \<Rightarrow> string option \<Rightarrow> int option \<Rightarrow> (bool \<times> int option) result" where
  "link_target ids target_code held =
     (case target_code of
        None \<Rightarrow> Inr (False, held)
      | Some c \<Rightarrow>
          if c = [] \<or> held \<noteq> None then Inr (False, held)
          else (case dget ids c of
                  None \<Rightarrow> Inl (ValueError (''points at '' @ py_repr c @
                            '', which this type has no value for''))
                | Some i \<Rightarrow> Inr (True, Some i)))"

definition link_row ::
    "(string \<times> int) list \<Rightarrow> string \<times> string option \<times> string option \<Rightarrow> nat \<times> lookup_db
     \<Rightarrow> (nat \<times> lookup_db) result" where
  "link_row ids want s =
     (case want of
        (code, parent_code, superseded_code) \<Rightarrow>
          (case dget ids code of
             None \<Rightarrow> Inr s
           | Some i \<Rightarrow>
               (case value_row (snd s) i of
                  None \<Rightarrow> Inr s
                | Some row \<Rightarrow>
                    rbind (link_target ids parent_code (lv_parent row)) (\<lambda>(c1, p).
                    rbind (link_target ids superseded_code (lv_superseded row)) (\<lambda>(c2, q).
                      Inr (if c1 \<or> c2 then 1 else fst s,
                           if c1 \<or> c2
                           then put_value (row\<lparr>lv_parent := p, lv_superseded := q\<rparr>) (snd s)
                           else snd s))))))"

definition platform_ids :: "lookup_db \<Rightarrow> int \<Rightarrow> (string \<times> int) list" where
  "platform_ids db ty = dict_of (map (\<lambda>v. (lv_code v, lv_id v)) (template_rows db ty))"

definition link_pass :: "lookup_db \<Rightarrow> int \<Rightarrow> seed_type_spec \<Rightarrow> nat lookup_op" where
  "link_pass db ty spec =
     (case fold_r (link_row (platform_ids db ty)) (wanted_pointers spec) (0, db) of
        Inl x \<Rightarrow> (Inl x, db)
      | Inr (n, db1) \<Rightarrow> (Inr n, db1))"

definition seed_type_values :: "lookup_env \<Rightarrow> lookup_type \<Rightarrow> seed_type_spec \<Rightarrow> lookup_db \<Rightarrow> nat lookup_op" where
  "seed_type_values e t spec db =
     (case seed_values e (lt_id t) (lt_default_sort t = SortByOrder) 0 (st_values spec) 0 db of
        (Inl x, db1) \<Rightarrow> (Inl x, db1)
      | (Inr n, db1) \<Rightarrow>
          (case link_pass db1 (lt_id t) spec of
             (Inl x, db2) \<Rightarrow> (Inl x, db2)
           | (Inr m, db2) \<Rightarrow> (Inr (n + m), db2)))"

definition seed_type_row :: "lookup_env \<Rightarrow> lookup_db \<Rightarrow> seed_type_spec \<Rightarrow> lookup_type lookup_op" where
  "seed_type_row e db spec =
     (case rbind (sort_mode_of_text (st_default_sort spec)) (\<lambda>mode.
             rbind (declared_scope (st_scope spec)) (\<lambda>scope. Inr (mode, scope))) of
        Inl x \<Rightarrow> (Inl x, db)
      | Inr (mode, scope) \<Rightarrow>
          ensure_type e db (st_key spec) (Some (st_name spec)) (st_description spec)
            (st_is_open spec) (st_is_hierarchical spec) (st_code_system spec) mode scope)"

definition seed_type :: "lookup_env \<Rightarrow> lookup_db \<Rightarrow> seed_type_spec \<Rightarrow> unit lookup_op" where
  "seed_type e db spec =
     (case seed_type_row e db spec of
        (Inl x, db1) \<Rightarrow> (Inl x, db1)
      | (Inr t, db1) \<Rightarrow>
          (case seed_type_values e t spec db1 of
             (Inl x, db2) \<Rightarrow> (Inl x, db2)
           | (Inr n, db2) \<Rightarrow> (Inr (), bump_version_if t n db2)))"

text \<open>\<open>seed_lookups\<close> and \<open>seed_file\<close>: every type of a loaded file, in file order.\<close>

fun seed_types :: "lookup_env \<Rightarrow> lookup_db \<Rightarrow> seed_type_spec list \<Rightarrow> unit lookup_op" where
  "seed_types e db [] = (Inr (), db)"
| "seed_types e db (spec # specs) =
     (case seed_type e db spec of
        (Inl x, db1) \<Rightarrow> (Inl x, db1)
      | (Inr u, db1) \<Rightarrow> seed_types e db1 specs)"

end
