(* ===== verification/LookupRouter.thy ===== *)
theory LookupRouter
  imports LookupSeed
begin

text \<open>
  The HTTP surface of asas-lookups, router.py: the read routes with their weak ETag, and the admin
  routes, each of which reads the type, runs the mutation and serves the row back.  SHA-256 is a
  function of the text.
\<close>

subsection \<open>Types\<close>

definition list_types :: "lookup_db \<Rightarrow> lookup_type list" where
  "list_types db = sort_key lt_key (ld_types db)"

record type_create =
  tc_key :: string
  tc_name :: string
  tc_description :: "string option"
  tc_is_open :: bool
  tc_is_hierarchical :: bool
  tc_code_system :: "string option"
  tc_scope :: type_scope
  tc_default_sort :: string

definition sort_member :: "string \<Rightarrow> sort_mode result" where
  "sort_member m =
     (if m = ''label'' then Inr SortByLabel
      else if m = ''sort_order'' then Inr SortByOrder
      else Inl (ValueError (py_repr m @ '' is not a valid SortMode'')))"

definition create_type :: "lookup_env \<Rightarrow> lookup_db \<Rightarrow> type_create \<Rightarrow> lookup_type lookup_op" where
  "create_type e db p =
     (if type_by_key db (tc_key p) \<noteq> None
      then (Inl (HTTPException 409 (''type '' @ quoted (tc_key p) @ '' exists'')), db)
      else if tc_is_open p \<and> tc_scope p \<noteq> OrgScope
      then (Inl (HTTPException 422 ''is_open=true requires scope=org''), db)
      else case rbind (sort_member (tc_default_sort p)) (\<lambda>mode.
             insert_type (new_type e (tc_key p) (Some (tc_name p)) (tc_description p) (tc_is_open p)
               (tc_is_hierarchical p) (tc_code_system p) mode (tc_scope p)) db) of
        Inl x \<Rightarrow> (Inl x, db)
      | Inr (t, db1) \<Rightarrow> (Inr t, db1))"

subsection \<open>The listing and its tag\<close>

record list_query =
  lq_lang :: string
  lq_active :: bool
  lq_q :: "string option"
  lq_parent :: "string option"
  lq_page :: int
  lq_page_size :: int

definition repr_bool :: "bool \<Rightarrow> string" where
  "repr_bool b = (if b then ''True'' else ''False'')"

definition repr_optional :: "string option \<Rightarrow> string" where
  "repr_optional s = (case s of None \<Rightarrow> ''None'' | Some t \<Rightarrow> py_repr t)"

definition shape_text :: "list_query \<Rightarrow> string" where
  "shape_text r =
     ''('' @ repr_bool (lq_active r) @ '', '' @ repr_optional (lq_q r) @ '', '' @
     repr_optional (lq_parent r) @ '', '' @ int_text (lq_page r) @ '', '' @
     int_text (lq_page_size r) @ '')''"

definition list_etag ::
    "(string \<Rightarrow> string) \<Rightarrow> lookup_env \<Rightarrow> lookup_type \<Rightarrow> list_query \<Rightarrow> string" where
  "list_etag sha256 e t r =
     ''W/'' @ [CHR 0x22] @ lt_key t @ ''.v'' @ int_text (lt_version t) @ ''.'' @ lq_lang r @ ''.o'' @
     int_text (case current_org e of Some org \<Rightarrow> org | None \<Rightarrow> 0) @ ''.'' @
     sha256 (shape_text r) @ [CHR 0x22]"

record value_list =
  vl_type :: string
  vl_lang :: string
  vl_version :: int
  vl_total :: nat
  vl_page :: int
  vl_page_size :: int
  vl_items :: "value_read list"

datatype list_reply =
    NotModified string
  | Listing string value_list
  | ListRefused py_exn

definition query_valid :: "list_query \<Rightarrow> bool" where
  "query_valid r = (1 \<le> lq_page r \<and> 1 \<le> lq_page_size r \<and> lq_page_size r \<le> 1000)"

definition list_body :: "lookup_env \<Rightarrow> lookup_db \<Rightarrow> lookup_type \<Rightarrow> list_query \<Rightarrow> value_list" where
  "list_body e db t r =
     (let (n, items) = list_values e db t (lq_lang r) (lq_active r) (lq_q r) (lq_parent r)
                         (lq_page r) (lq_page_size r)
      in \<lparr>vl_type = lt_key t, vl_lang = lq_lang r, vl_version = lt_version t, vl_total = n,
          vl_page = lq_page r, vl_page_size = lq_page_size r, vl_items = items\<rparr>)"

definition get_values ::
    "(string \<Rightarrow> string) \<Rightarrow> lookup_env \<Rightarrow> lookup_db \<Rightarrow> string \<Rightarrow> list_query \<Rightarrow> string option \<Rightarrow> list_reply" where
  "get_values sha256 e db key r if_none_match =
     (if \<not> query_valid r then ListRefused (HTTPException 422 ''page and page_size'')
      else case get_type db key of
        Inl x \<Rightarrow> ListRefused x
      | Inr t \<Rightarrow>
          let etag = list_etag sha256 e t r in
          if if_none_match = Some etag then NotModified etag
          else Listing etag (list_body e db t r))"

definition get_value ::
    "lookup_env \<Rightarrow> lookup_db \<Rightarrow> string \<Rightarrow> string \<Rightarrow> string \<Rightarrow> bool \<Rightarrow> value_read result" where
  "get_value e db key code lang follow =
     rbind (get_type db key) (\<lambda>t. get_value_read e db t code lang follow)"

definition resolve ::
    "lookup_env \<Rightarrow> lookup_db \<Rightarrow> string \<Rightarrow> string list \<Rightarrow> string \<Rightarrow> (string \<times> string option) list result" where
  "resolve e db key codes lang =
     rbind (get_type db key) (\<lambda>t. Inr (resolve_codes e db t codes lang))"

subsection \<open>Admin routes\<close>

text \<open>Every admin route on a value: the type, the mutation, the row read back by its code.\<close>

definition admin_route ::
    "lookup_env \<Rightarrow> lookup_db \<Rightarrow> string \<Rightarrow> (lookup_type \<Rightarrow> lookup_value lookup_op)
     \<Rightarrow> (lookup_value \<Rightarrow> string) \<Rightarrow> value_read lookup_op" where
  "admin_route e db key run code_of =
     (case get_type db key of
        Inl x \<Rightarrow> (Inl x, db)
      | Inr t \<Rightarrow>
          (case run t of
             (Inl x, db1) \<Rightarrow> (Inl x, db1)
           | (Inr v, db1) \<Rightarrow>
               (rbind (get_type db1 key) (\<lambda>t1. get_value_read e db1 t1 (code_of v) ''en'' False), db1)))"

datatype value_call =
    CreateValue "string option" "translation_in list" bool int "string option"
      "(string \<times> pyval) list" "string list"
  | UpdateValue string "translation_in list option" "bool option" "int option"
      "(string \<times> pyval) list option"
  | DeprecateValue string "int option" "string option"
  | AddAlias string string "string option"
  | RemoveAlias string string
  | MergeValues string string

definition run_value_call ::
    "lookup_env \<Rightarrow> lookup_db \<Rightarrow> lookup_type \<Rightarrow> value_call \<Rightarrow> lookup_value lookup_op" where
  "run_value_call e db t c =
     (case c of
        CreateValue code ts d n p m als \<Rightarrow> create_value e db t code ts d n p m als
      | UpdateValue code ts d n m \<Rightarrow> update_value e db t code ts d n m
      | DeprecateValue code vt s \<Rightarrow> deprecate_value e db t code vt s
      | AddAlias code al lang \<Rightarrow> add_alias e db t code al lang
      | RemoveAlias code al \<Rightarrow> remove_alias e db t code al
      | MergeValues code into \<Rightarrow> merge_values e db t code into)"

definition read_back_code :: "value_call \<Rightarrow> lookup_value \<Rightarrow> string" where
  "read_back_code c v =
     (case c of
        DeprecateValue code _ _ \<Rightarrow> code
      | AddAlias code _ _ \<Rightarrow> code
      | RemoveAlias code _ \<Rightarrow> code
      | _ \<Rightarrow> lv_code v)"

definition admin_value ::
    "lookup_env \<Rightarrow> lookup_db \<Rightarrow> string \<Rightarrow> value_call \<Rightarrow> value_read lookup_op" where
  "admin_value e db key c =
     admin_route e db key (\<lambda>t. run_value_call e db t c) (read_back_code c)"

end
