(* ===== verification/LookupInv.thy ===== *)
theory LookupInv
  imports LookupRouter
begin

text \<open>
  The invariant of the lookup tables and the effect of the statements on it.  \<open>edit w ty\<close> is what
  a transaction may do on behalf of owner \<open>w\<close> (an organisation, or the platform) inside type
  \<open>ty\<close>: it keeps the invariant, the type registry and every row, label and alias outside that
  owner's part of that type.  Every operation of the package is a sequence of such edits followed
  by a version bump.
\<close>

subsection \<open>The invariant\<close>

text \<open>A pointer of a row leads to a row of the same type and owner.\<close>

definition home_id :: "int option \<Rightarrow> int \<Rightarrow> int \<Rightarrow> lookup_db \<Rightarrow> bool" where
  "home_id w ty i db =
     list_ex (\<lambda>v. lv_id v = i \<and> lv_org v = w \<and> lv_type v = ty) (ld_values db)"

definition points_home :: "lookup_db \<Rightarrow> lookup_value \<Rightarrow> bool" where
  "points_home db v =
     ((case lv_parent v of None \<Rightarrow> True | Some p \<Rightarrow> home_id (lv_org v) (lv_type v) p db) \<and>
      (case lv_superseded v of None \<Rightarrow> True | Some p \<Rightarrow> home_id (lv_org v) (lv_type v) p db))"

definition typed :: "lookup_db \<Rightarrow> lookup_value \<Rightarrow> bool" where
  "typed db v =
     list_ex (\<lambda>t. lt_id t = lv_type v \<and> (lv_org v = None \<or> lt_scope t = OrgScope)) (ld_types db)"

definition types_ok :: "lookup_db \<Rightarrow> bool" where
  "types_ok db =
     (distinct (map lt_id (ld_types db)) \<and> distinct (map lt_key (ld_types db)) \<and>
      list_all (\<lambda>t. lt_is_open t \<longrightarrow> lt_scope t = OrgScope) (ld_types db))"

definition values_ok :: "lookup_db \<Rightarrow> bool" where
  "values_ok db =
     (distinct (map lv_id (ld_values db)) \<and> distinct (map value_index (ld_values db)) \<and>
      list_all (typed db) (ld_values db) \<and> list_all (points_home db) (ld_values db))"

definition children_ok :: "lookup_db \<Rightarrow> bool" where
  "children_ok db =
     (distinct (map ltr_id (ld_translations db)) \<and>
      distinct (map (\<lambda>t. (ltr_value t, ltr_lang t)) (ld_translations db)) \<and>
      list_all (\<lambda>t. ltr_value t \<in> set (map lv_id (ld_values db))) (ld_translations db) \<and>
      list_all (\<lambda>a. la_value a \<in> set (map lv_id (ld_values db))) (ld_aliases db))"

definition lookup_ok :: "lookup_db \<Rightarrow> bool" where
  "lookup_ok db = (types_ok db \<and> values_ok db \<and> children_ok db)"

lemma home_id_iff:
  "home_id w ty i db \<longleftrightarrow> (\<exists>v\<in>set (ld_values db). lv_id v = i \<and> lv_org v = w \<and> lv_type v = ty)"
  by (auto simp: home_id_def list_ex_iff)

lemma points_home_iff:
  "points_home db v \<longleftrightarrow>
     (\<forall>p. lv_parent v = Some p \<or> lv_superseded v = Some p \<longrightarrow> home_id (lv_org v) (lv_type v) p db)"
  by (auto simp: points_home_def split: option.splits)

lemma lookup_okD:
  assumes "lookup_ok db"
  shows "distinct (map lv_id (ld_values db))" "distinct (map value_index (ld_values db))"
    "distinct (map lt_id (ld_types db))" "distinct (map lt_key (ld_types db))"
    "\<And>t. t \<in> set (ld_translations db) \<Longrightarrow> ltr_value t \<in> lv_id ` set (ld_values db)"
    "\<And>a. a \<in> set (ld_aliases db) \<Longrightarrow> la_value a \<in> lv_id ` set (ld_values db)"
    "\<And>v. v \<in> set (ld_values db) \<Longrightarrow> points_home db v"
    "\<And>v. v \<in> set (ld_values db) \<Longrightarrow> typed db v"
    "distinct (map (\<lambda>t. (ltr_value t, ltr_lang t)) (ld_translations db))"
    "distinct (map ltr_id (ld_translations db))"
  using assms by (auto simp: lookup_ok_def types_ok_def values_ok_def children_ok_def list_all_iff)

lemma same_id_same_row:
  "lookup_ok db \<Longrightarrow> u \<in> set (ld_values db) \<Longrightarrow> v \<in> set (ld_values db) \<Longrightarrow> lv_id u = lv_id v \<Longrightarrow> u = v"
  by (meson lookup_okD(1) distinct_map inj_onD)

lemma new_id_fresh: "i \<in> set ids \<Longrightarrow> i < new_id ids"
proof -
  have "i \<in> set ids \<Longrightarrow> i \<le> foldr max ids 0" by (induction ids) auto
  then show "i \<in> set ids \<Longrightarrow> ?thesis" by (simp add: new_id_def)
qed

lemma new_id_notin: "new_id ids \<notin> set ids"
  using new_id_fresh by blast

subsection \<open>Frames\<close>

definition outside :: "int option \<Rightarrow> int \<Rightarrow> lookup_value \<Rightarrow> bool" where
  "outside w ty v = (lv_org v \<noteq> w \<or> lv_type v \<noteq> ty)"

definition same_children :: "lookup_db \<Rightarrow> lookup_db \<Rightarrow> lookup_value \<Rightarrow> bool" where
  "same_children db db' v =
     (translations_of db' v = translations_of db v \<and> aliases_of db' v = aliases_of db v)"

definition same_where :: "(lookup_value \<Rightarrow> bool) \<Rightarrow> lookup_db \<Rightarrow> lookup_db \<Rightarrow> bool" where
  "same_where P db db' =
     (filter P (ld_values db') = filter P (ld_values db) \<and>
      (\<forall>v\<in>set (filter P (ld_values db)). same_children db db' v))"

lemma same_where_refl [simp]: "same_where P db db"
  by (simp add: same_where_def same_children_def)

lemma same_where_trans: "same_where P a b \<Longrightarrow> same_where P b c \<Longrightarrow> same_where P a c"
  unfolding same_where_def same_children_def by metis

lemma same_where_mono:
  assumes "same_where P db db'" and "\<And>v. Q v \<Longrightarrow> P v"
  shows "same_where Q db db'"
proof -
  have "filter Q xs = filter Q (filter P xs)" for xs
    using assms(2) by (induction xs) auto
  moreover have "same_children db db' v" if "v \<in> set (filter Q (ld_values db))" for v
    using assms that by (simp add: same_where_def)
  ultimately show ?thesis using assms(1) unfolding same_where_def by metis
qed

lemma same_where_types [simp]:
  "same_where P db (db'\<lparr>ld_types := ts\<rparr>) = same_where P db db'"
  "same_where P (db\<lparr>ld_types := ts\<rparr>) db' = same_where P db db'"
  by (simp_all add: same_where_def same_children_def translations_of_def aliases_of_def)

text \<open>What identifies a row for good: its id, type, code and owner.\<close>

definition row_names :: "lookup_db \<Rightarrow> (int \<times> int \<times> string \<times> int option) set" where
  "row_names db = set (map (\<lambda>v. (lv_id v, value_index v)) (ld_values db))"

lemma home_id_names: "home_id w ty i db \<longleftrightarrow> (\<exists>code. (i, ty, code, w) \<in> row_names db)"
  unfolding home_id_iff row_names_def value_index_def by (simp add: image_iff) blast

lemma home_id_mono: "home_id w ty i db \<Longrightarrow> row_names db \<subseteq> row_names db' \<Longrightarrow> home_id w ty i db'"
  by (auto simp: home_id_names)

definition edit :: "int option \<Rightarrow> int \<Rightarrow> lookup_db \<Rightarrow> lookup_db \<Rightarrow> bool" where
  "edit w ty db db' =
     (lookup_ok db \<longrightarrow>
        lookup_ok db' \<and> ld_types db' = ld_types db \<and> same_where (outside w ty) db db' \<and>
        row_names db \<subseteq> row_names db')"

text \<open>What is closed under composition is closed under the loops of the package.\<close>

locale effect =
  fixes R :: "'s \<Rightarrow> 's \<Rightarrow> bool"
  assumes R_refl: "R s s"
    and R_trans: "R a b \<Longrightarrow> R b c \<Longrightarrow> R a c"
begin

lemma fold_effect:
  assumes "\<And>x s. x \<in> set xs \<Longrightarrow> R s0 s \<Longrightarrow> R s (f x s)"
  shows "R s0 (fold f xs s0)"
proof -
  have "R s0 s \<Longrightarrow> R s0 (fold f xs s)" for s
    using assms
  proof (induction xs arbitrary: s)
    case Nil
    then show ?case by simp
  next
    case (Cons x xs)
    then have "R s0 (f x s)" by (meson R_trans list.set_intros(1))
    then show ?case using Cons.IH Cons.prems(2) by simp
  qed
  then show ?thesis using R_refl by blast
qed

lemma fold_r_effect:
  assumes "\<And>x s s'. x \<in> set xs \<Longrightarrow> R s0 s \<Longrightarrow> f x s = Inr s' \<Longrightarrow> R s s'"
    and "fold_r f xs s0 = Inr s1"
  shows "R s0 s1"
proof -
  have "R s0 s \<Longrightarrow> fold_r f xs s = Inr s1 \<Longrightarrow> R s0 s1" for s
    using assms(1)
  proof (induction xs arbitrary: s)
    case Nil
    then show ?case by simp
  next
    case (Cons x xs)
    from Cons.prems(2) obtain s' where s': "f x s = Inr s'" "fold_r f xs s' = Inr s1"
      by (auto elim: rbind_InrE)
    with Cons.prems have "R s0 s'" by (meson R_trans list.set_intros(1))
    with s' show ?case using Cons.IH Cons.prems(3) by (meson list.set_intros(2))
  qed
  then show ?thesis using R_refl assms(2) by blast
qed

lemma fold_r_total:
  assumes "\<And>x s. x \<in> set xs \<Longrightarrow> R s0 s \<Longrightarrow> \<exists>s'. f x s = Inr s' \<and> R s s'"
  shows "\<exists>s1. fold_r f xs s0 = Inr s1 \<and> R s0 s1"
proof -
  have "R s0 s \<Longrightarrow> \<exists>s1. fold_r f xs s = Inr s1 \<and> R s0 s1" for s
    using assms
  proof (induction xs arbitrary: s)
    case Nil
    then show ?case by simp
  next
    case (Cons x xs)
    then obtain s' where s': "f x s = Inr s'" "R s s'" by (meson list.set_intros(1))
    then have "R s0 s'" using Cons.prems(1) R_trans by blast
    with Cons.IH Cons.prems(2) s'(1) show ?case by simp
  qed
  then show ?thesis using R_refl by blast
qed

end

interpretation edits: effect "edit w ty"
proof
  show "edit w ty s s" for s by (simp add: edit_def)
  show "edit w ty a b \<Longrightarrow> edit w ty b c \<Longrightarrow> edit w ty a c" for a b c
    unfolding edit_def by (metis same_where_trans subset_trans)
qed

lemma editD:
  assumes "edit w ty db db'" "lookup_ok db"
  shows "lookup_ok db'" "ld_types db' = ld_types db" "same_where (outside w ty) db db'"
    "\<And>i. home_id w ty i db \<Longrightarrow> home_id w ty i db'" "row_names db \<subseteq> row_names db'"
  using assms home_id_mono by (auto simp: edit_def)


text \<open>
  Each statement of the lookup package is an edit by its owner, and each function of service.py
  that writes is edits followed by \<open>_touch_type\<close>.
\<close>

subsection \<open>Statements as edits\<close>

lemma filter_update_where:
  "(\<And>x. x \<in> set xs \<Longrightarrow> P x \<Longrightarrow> \<not> Q x \<and> \<not> Q (f x)) \<Longrightarrow> filter Q (update_where P f xs) = filter Q xs"
  by (induction xs) auto

lemma map_update_where:
  "(\<And>x. x \<in> set xs \<Longrightarrow> P x \<Longrightarrow> g (f x) = g x) \<Longrightarrow> map g (update_where P f xs) = map g xs"
  by (induction xs) auto

lemma list_ex_update_where:
  "(\<And>x. x \<in> set xs \<Longrightarrow> P x \<Longrightarrow> Q (f x) = Q x) \<Longrightarrow> list_ex Q (update_where P f xs) = list_ex Q xs"
  by (induction xs) auto

lemma typed_db [simp]:
  "typed (db\<lparr>ld_values := vs\<rparr>) v = typed db v"
  "typed (db\<lparr>ld_translations := ts\<rparr>) v = typed db v"
  "typed (db\<lparr>ld_aliases := xs\<rparr>) v = typed db v"
  by (simp_all add: typed_def)

lemma home_id_db [simp]:
  "home_id w ty i (db\<lparr>ld_types := tys\<rparr>) = home_id w ty i db"
  "home_id w ty i (db\<lparr>ld_translations := ts\<rparr>) = home_id w ty i db"
  "home_id w ty i (db\<lparr>ld_aliases := xs\<rparr>) = home_id w ty i db"
  by (simp_all add: home_id_def)

lemma points_home_db [simp]:
  "points_home (db\<lparr>ld_types := tys\<rparr>) v = points_home db v"
  "points_home (db\<lparr>ld_translations := ts\<rparr>) v = points_home db v"
  "points_home (db\<lparr>ld_aliases := xs\<rparr>) v = points_home db v"
  by (simp_all add: points_home_def split: option.splits)

lemma points_home_mono:
  assumes "points_home db v" and "\<And>w ty i. home_id w ty i db \<Longrightarrow> home_id w ty i db'"
  shows "points_home db' v"
  using assms by (auto simp: points_home_def split: option.splits)

lemma outside_not_home:
  assumes "lookup_ok db" "home_id w ty i db" "v \<in> set (ld_values db)" "outside w ty v"
  shows "lv_id v \<noteq> i"
  using assms same_id_same_row [OF assms(1) assms(3)] by (auto simp: home_id_iff outside_def)

lemma insert_value_edit:
  assumes ins: "insert_value v db = Inr (row, db')"
    and ty: "typed db v" and pts: "points_home db v" and ok: "lookup_ok db"
  shows "edit (lv_org v) (lv_type v) db db'"
    and "home_id (lv_org v) (lv_type v) (lv_id row) db'"
    and "row = v\<lparr>lv_id := lv_id row\<rparr>"
    and "translations_of db' row = []" and "aliases_of db' row = []"
    and "db' = db\<lparr>ld_values := ld_values db @ [row]\<rparr>"
    and "value_index row \<notin> value_index ` set (ld_values db)"
    and "lv_id row \<notin> lv_id ` set (ld_values db)"
proof -
  from ins have row: "row = v\<lparr>lv_id := new_id (map lv_id (ld_values db))\<rparr>"
    and db': "db' = db\<lparr>ld_values := ld_values db @ [row]\<rparr>"
    and idx: "value_index v \<notin> value_index ` set (ld_values db)"
    by (auto simp: insert_value_def Let_def exists_where_iff split: if_splits)
  have new: "lv_id row \<notin> lv_id ` set (ld_values db)"
    using new_id_notin [of "map lv_id (ld_values db)"] by (simp add: row)
  have same: "value_index row = value_index v" "lv_org row = lv_org v" "lv_type row = lv_type v"
    "lv_parent row = lv_parent v" "lv_superseded row = lv_superseded v"
    by (simp_all add: row value_index_def)
  have names: "row_names db \<subseteq> row_names db'" by (auto simp: row_names_def db')
  note mono = home_id_mono [OF _ names]
  have "points_home db' row" using points_home_mono [OF pts mono]
    by (simp add: points_home_def same cong: option.case_cong)
  moreover have "typed db row" using ty by (simp add: typed_def same)
  ultimately have "values_ok db'"
    using ok new idx points_home_mono mono
    by (auto simp: lookup_ok_def values_ok_def db' same list_all_iff)
  moreover have "children_ok db'" "types_ok db'"
    using ok by (auto simp: lookup_ok_def children_ok_def types_ok_def db' list_all_iff)
  ultimately have ok': "lookup_ok db'" by (simp add: lookup_ok_def)
  have "same_where (outside (lv_org v) (lv_type v)) db db'"
    by (auto simp: same_where_def same_children_def translations_of_def aliases_of_def db' outside_def same)
  with ok' names show "edit (lv_org v) (lv_type v) db db'" by (simp add: edit_def db')
  show "home_id (lv_org v) (lv_type v) (lv_id row) db'" by (simp add: home_id_def db' same)
  show "row = v\<lparr>lv_id := lv_id row\<rparr>" by (simp add: row)
  show "translations_of db' row = []" "aliases_of db' row = []"
    using lookup_okD(5,6) [OF ok] new
    by (auto simp: translations_of_def aliases_of_def db' filter_empty_conv) metis+
  show "db' = db\<lparr>ld_values := ld_values db @ [row]\<rparr>" by (rule db')
  show "value_index row \<notin> value_index ` set (ld_values db)" by (simp add: same idx)
  show "lv_id row \<notin> lv_id ` set (ld_values db)" by (rule new)
qed

lemma update_values_edit:
  assumes f: "\<And>r. r \<in> set (ld_values db) \<Longrightarrow> P r \<Longrightarrow>
                lv_id (f r) = lv_id r \<and> value_index (f r) = value_index r \<and>
                \<not> outside w ty r \<and> points_home db (f r)"
  shows "edit w ty db (db\<lparr>ld_values := update_where P f (ld_values db)\<rparr>)" (is "edit w ty db ?db'")
  unfolding edit_def
proof (intro impI conjI)
  assume ok: "lookup_ok db"
  have idx: "lv_org (f r) = lv_org r \<and> lv_type (f r) = lv_type r"
    if "r \<in> set (ld_values db)" "P r" for r
    using f [OF that] by (simp add: value_index_def)
  have home: "home_id w' ty' i ?db' = home_id w' ty' i db" for w' ty' i
    using f idx unfolding home_id_def by (simp, intro list_ex_update_where) auto
  have pts: "points_home ?db' v = points_home db v" for v
    by (simp add: points_home_def home split: option.splits)
  have ids: "map lv_id (ld_values ?db') = map lv_id (ld_values db)"
    and idxs: "map value_index (ld_values ?db') = map value_index (ld_values db)"
    using f by (auto intro: map_update_where)
  have "list_all (points_home ?db') (ld_values ?db')"
    using f lookup_okD(7) [OF ok] by (auto simp: list_all_iff pts set_update_where)
  moreover have "list_all (typed ?db') (ld_values ?db')"
    using idx lookup_okD(8) [OF ok] by (auto simp: list_all_iff set_update_where typed_def)
  ultimately have "values_ok ?db'" using ok ids idxs unfolding lookup_ok_def values_ok_def by simp
  moreover have "children_ok ?db'" using ok ids unfolding lookup_ok_def children_ok_def by simp
  ultimately show "lookup_ok ?db'" using ok by (simp add: lookup_ok_def types_ok_def)
  show "ld_types ?db' = ld_types db" by simp
  have "filter (outside w ty) (ld_values ?db') = filter (outside w ty) (ld_values db)"
    using f idx by (auto simp: outside_def intro!: filter_update_where)
  then show "same_where (outside w ty) db ?db'"
    by (simp add: same_where_def same_children_def translations_of_def aliases_of_def)
  have "map (\<lambda>v. (lv_id v, value_index v)) (ld_values ?db') =
        map (\<lambda>v. (lv_id v, value_index v)) (ld_values db)"
    using f by (auto intro: map_update_where)
  then show "row_names db \<subseteq> row_names ?db'" by (simp only: row_names_def order_refl)
qed

lemma put_value_edit:
  assumes ok: "lookup_ok db" and u: "u \<in> set (ld_values db)" and "lv_id v = lv_id u"
    and idx: "value_index v = value_index u" and pts: "points_home db v"
    and "lv_org u = w" "lv_type u = ty"
  shows "edit w ty db (put_value v db)"
  unfolding put_value_def
proof (rule update_values_edit)
  fix r assume "r \<in> set (ld_values db)" "lv_id r = lv_id v"
  with assms have "r = u" by (simp add: same_id_same_row)
  with assms show "lv_id v = lv_id r \<and> value_index v = value_index r \<and> \<not> outside w ty r \<and> points_home db v"
    by (simp add: outside_def)
qed

text \<open>A change of the child tables that touches only children of one owner's rows.\<close>

lemma child_edit:
  assumes ch: "lookup_ok db \<Longrightarrow> children_ok db'"
    and same: "ld_values db' = ld_values db" "ld_types db' = ld_types db"
    and frame: "\<And>v. lookup_ok db \<Longrightarrow> v \<in> set (ld_values db) \<Longrightarrow> outside w ty v \<Longrightarrow> same_children db db' v"
  shows "edit w ty db db'"
proof -
  have "row_names db' = row_names db" by (simp add: row_names_def same)
  moreover have "points_home db' v = points_home db v" "typed db' v = typed db v" for v
    by (simp_all add: points_home_def home_id_def typed_def same split: option.splits)
  ultimately show ?thesis
    using ch frame
    by (auto simp: edit_def lookup_ok_def values_ok_def types_ok_def same same_where_def list_all_iff)
qed

lemma insert_translation_edit:
  assumes ins: "insert_translation i lang label short db = Inr db'" and home: "home_id w ty i db"
  shows "edit w ty db db'"
proof (rule child_edit)
  from ins have db': "db' = db\<lparr>ld_translations := ld_translations db @
      [\<lparr>ltr_id = new_id (map ltr_id (ld_translations db)), ltr_value = i, ltr_lang = lang,
        ltr_label = label, ltr_short = short\<rparr>]\<rparr>"
    and new: "(i, lang) \<notin> (\<lambda>t. (ltr_value t, ltr_lang t)) ` set (ld_translations db)"
    by (auto simp: insert_translation_def exists_where_iff split: if_splits)
  show "ld_values db' = ld_values db" "ld_types db' = ld_types db" by (simp_all add: db')
  from home have i: "i \<in> lv_id ` set (ld_values db)" by (auto simp: home_id_iff)
  show "children_ok db'" if "lookup_ok db"
    using that i new new_id_notin [of "map ltr_id (ld_translations db)"]
    by (auto simp: lookup_ok_def children_ok_def db' list_all_iff)
  show "same_children db db' v"
    if "lookup_ok db" "v \<in> set (ld_values db)" "outside w ty v" for v
    using outside_not_home [OF that(1) home that(2,3)]
    by (simp add: same_children_def translations_of_def aliases_of_def db')
qed

lemma set_translation_edit:
  assumes t: "t \<in> set (ld_translations db)" "home_id w ty (ltr_value t) db" and i: "i = ltr_id t"
  shows "edit w ty db (set_translation i incoming db)" (is "edit w ty db ?db'")
  unfolding i
proof (rule child_edit)
  let ?db' = "set_translation (ltr_id t) incoming db"
  show "ld_values ?db' = ld_values db" "ld_types ?db' = ld_types db"
    by (simp_all add: set_translation_def)
  have "map ltr_id (ld_translations ?db') = map ltr_id (ld_translations db)"
    "map (\<lambda>t. (ltr_value t, ltr_lang t)) (ld_translations ?db') =
     map (\<lambda>t. (ltr_value t, ltr_lang t)) (ld_translations db)"
    by (auto simp: set_translation_def intro: map_update_where)
  then show "children_ok ?db'" if "lookup_ok db"
    using that
    by (auto simp: lookup_ok_def children_ok_def list_all_iff set_translation_def set_update_where)
  show "same_children db ?db' v"
    if "lookup_ok db" "v \<in> set (ld_values db)" "outside w ty v" for v
  proof -
    have "r = t" if "r \<in> set (ld_translations db)" "ltr_id r = ltr_id t" for r
      using that t(1) lookup_okD(10) [OF \<open>lookup_ok db\<close>] by (meson distinct_map inj_onD)
    then have "filter (\<lambda>r. ltr_value r = lv_id v) (ld_translations ?db') =
               filter (\<lambda>r. ltr_value r = lv_id v) (ld_translations db)"
      using outside_not_home [OF that(1) t(2) that(2,3)]
      unfolding set_translation_def by (simp, intro filter_update_where) (simp, metis)
    then show ?thesis
      by (simp add: same_children_def translations_of_def aliases_of_def set_translation_def)
  qed
qed

lemma insert_alias_edit:
  assumes home: "home_id w ty i db"
  shows "edit w ty db (insert_alias i al db)"
proof (rule child_edit)
  show "ld_values (insert_alias i al db) = ld_values db" "ld_types (insert_alias i al db) = ld_types db"
    by (simp_all add: insert_alias_def)
  from home have "i \<in> lv_id ` set (ld_values db)" by (auto simp: home_id_iff)
  then show "children_ok (insert_alias i al db)" if "lookup_ok db"
    using that by (auto simp: lookup_ok_def children_ok_def insert_alias_def list_all_iff)
  show "same_children db (insert_alias i al db) v"
    if "lookup_ok db" "v \<in> set (ld_values db)" "outside w ty v" for v
    using outside_not_home [OF that(1) home that(2,3)]
    by (simp add: same_children_def translations_of_def aliases_of_def insert_alias_def)
qed

lemma delete_aliases_edit:
  assumes home: "home_id w ty i db" and P: "\<And>a. P a \<Longrightarrow> la_value a = i"
  shows "edit w ty db (db\<lparr>ld_aliases := filter (\<lambda>a. \<not> P a) (ld_aliases db)\<rparr>)"
proof (rule child_edit)
  let ?db' = "db\<lparr>ld_aliases := filter (\<lambda>a. \<not> P a) (ld_aliases db)\<rparr>"
  show "ld_values ?db' = ld_values db" "ld_types ?db' = ld_types db" by simp_all
  show "children_ok ?db'" if "lookup_ok db"
    using that by (auto simp: lookup_ok_def children_ok_def list_all_iff)
  show "same_children db ?db' v"
    if "lookup_ok db" "v \<in> set (ld_values db)" "outside w ty v" for v
  proof -
    have "la_value a = lv_id v \<and> \<not> P a \<longleftrightarrow> la_value a = lv_id v" for a
      using outside_not_home [OF that(1) home that(2,3)] P by auto
    then have "\<not> P a \<and> la_value a = lv_id v \<longleftrightarrow> la_value a = lv_id v" for a by blast
    then show ?thesis by (simp add: same_children_def translations_of_def aliases_of_def)
  qed
qed

end
