(* ===== verification/LookupOps.thy ===== *)
theory LookupOps
  imports LookupInv
begin

text \<open>
  The effect of service.py's mutations: a call that returns is edits by its owner followed by one
  \<open>_touch_type\<close> (or nothing at all), a call that raises changes nothing, except that
  \<open>create_value\<close> can raise between its two commits.
\<close>

subsection \<open>Reads\<close>

lemma head_opt_Some: "head_opt xs = Some x \<Longrightarrow> x \<in> set xs"
  by (cases xs) (auto simp: head_opt_def)

lemma head_opt_None [simp]: "head_opt xs = None \<longleftrightarrow> xs = []"
  by (cases xs) (auto simp: head_opt_def)

lemma sort_key_Nil: "sort_key f xs = [] \<longleftrightarrow> xs = []"
  by (metis length_0_conv length_sort)

lemma value_by_code_Some:
  "value_by_code e db t code = Some v \<Longrightarrow>
     v \<in> set (visible_values e db t) \<and> lv_code v = code"
  unfolding value_by_code_def by (drule head_opt_Some) auto

lemma value_by_code_None:
  "value_by_code e db t code = None \<longleftrightarrow> (\<forall>v\<in>set (visible_values e db t). lv_code v \<noteq> code)"
  by (simp add: value_by_code_def sort_key_Nil filter_empty_conv)

definition org_may_write :: "lookup_env \<Rightarrow> lookup_type \<Rightarrow> bool" where
  "org_may_write e t = (current_org e = None \<or> lt_scope t = OrgScope)"

lemma visible_own:
  "org_may_write e t \<Longrightarrow> v \<in> set (visible_values e db t) \<longleftrightarrow>
     v \<in> set (ld_values db) \<and> lv_type v = lt_id t \<and> lv_org v = current_org e"
  by (cases "lt_scope t") (auto simp: org_may_write_def visible_values_def org_scoped_def)

lemma value_by_code_home:
  "org_may_write e t \<Longrightarrow> value_by_code e db t code = Some v \<Longrightarrow>
     home_id (current_org e) (lt_id t) (lv_id v) db"
  by (drule value_by_code_Some) (auto simp: visible_own home_id_iff)

lemma value_for_write_Inr:
  "value_for_write e db t code = Inr v \<longleftrightarrow>
     org_may_write e t \<and> owned_row db t code (current_org e) = Some v"
  by (cases "lt_scope t") (auto simp: value_for_write_def org_may_write_def split: option.splits if_splits)

lemma owned_row_Some:
  "owned_row db t code org = Some v \<Longrightarrow>
     v \<in> set (ld_values db) \<and> lv_type v = lt_id t \<and> lv_code v = code \<and> lv_org v = org"
  unfolding owned_row_def by (drule first_where_Some) auto

lemma value_for_write_home:
  assumes "value_for_write e db t code = Inr v"
  shows "v \<in> set (ld_values db)" "lv_type v = lt_id t" "lv_code v = code"
    "lv_org v = current_org e" "org_may_write e t" "home_id (current_org e) (lt_id t) (lv_id v) db"
  using assms owned_row_Some by (auto simp: value_for_write_Inr home_id_iff)

subsection \<open>Labels\<close>

text \<open>Translations keep their identity while their labels are rewritten.\<close>

definition keeps_labels :: "lookup_db \<Rightarrow> lookup_db \<Rightarrow> bool" where
  "keeps_labels db db' =
     (\<forall>r\<in>set (ld_translations db). \<exists>r'\<in>set (ld_translations db').
        ltr_id r' = ltr_id r \<and> ltr_value r' = ltr_value r)"

interpretation relabels: effect "\<lambda>a b. edit w ty a b \<and> keeps_labels a b"
proof
  show "edit w ty s s \<and> keeps_labels s s" for s
    using edits.R_refl by (auto simp: keeps_labels_def)
  show "edit w ty a b \<and> keeps_labels a b \<Longrightarrow> edit w ty b c \<and> keeps_labels b c \<Longrightarrow>
        edit w ty a c \<and> keeps_labels a c" for a b c
    using edits.R_trans unfolding keeps_labels_def by (metis (no_types, lifting))
qed

lemma apply_translation_edit:
  assumes step: "apply_translation (translations_of db0 v) (lv_id v) x db = Inr db'"
    and home: "home_id w ty (lv_id v) db" and keeps: "keeps_labels db0 db"
  shows "edit w ty db db' \<and> keeps_labels db db'"
proof (cases "by_lang (translations_of db0 v) (ti_lang x)")
  case None
  with step have ins: "insert_translation (lv_id v) (ti_lang x) (ti_label x) (ti_short x) db = Inr db'"
    by (simp add: apply_translation_def)
  then have "keeps_labels db db'"
    by (auto simp: insert_translation_def keeps_labels_def split: if_splits)
  with insert_translation_edit [OF ins home] show ?thesis by simp
next
  case (Some t)
  then have t: "t \<in> set (ld_translations db0)" "ltr_value t = lv_id v"
    unfolding by_lang_def by (auto dest!: first_where_Some simp: translations_of_def)
  with keeps obtain r where r: "r \<in> set (ld_translations db)" "ltr_id r = ltr_id t" "ltr_value r = lv_id v"
    unfolding keeps_labels_def by metis
  from step Some have db': "db' = set_translation (ltr_id t) x db" by (simp add: apply_translation_def)
  have "edit w ty db db'"
    unfolding db' using r home by (intro set_translation_edit [of r]) auto
  moreover have "keeps_labels db db'"
    unfolding keeps_labels_def
  proof
    fix q assume q: "q \<in> set (ld_translations db)"
    let ?f = "\<lambda>r. if ltr_id r = ltr_id t then r\<lparr>ltr_label := ti_label x, ltr_short := ti_short x\<rparr> else r"
    have "?f q \<in> set (ld_translations db')"
      using q by (simp add: db' set_translation_def set_update_where)
    moreover have "ltr_id (?f q) = ltr_id q \<and> ltr_value (?f q) = ltr_value q" by simp
    ultimately show "\<exists>r'\<in>set (ld_translations db'). ltr_id r' = ltr_id q \<and> ltr_value r' = ltr_value q"
      by blast
  qed
  ultimately show ?thesis by simp
qed

lemma apply_translations_edit:
  assumes ok: "lookup_ok db" and home: "home_id w ty (lv_id v) db"
    and run: "apply_translations v ts db = Inr db'"
  shows "edit w ty db db'"
proof -
  have "edit w ty db db' \<and> keeps_labels db db'"
    using run [unfolded apply_translations_def]
  proof (rule relabels.fold_r_effect [rotated])
    fix x s s'
    assume s: "edit w ty db s \<and> keeps_labels db s"
      and step: "apply_translation (translations_of db v) (lv_id v) x s = Inr s'"
    show "edit w ty s s' \<and> keeps_labels s s'"
      using step editD(4) [OF conjunct1 [OF s] ok home] conjunct2 [OF s]
      by (rule apply_translation_edit)
  qed
  then show ?thesis by simp
qed

lemma fold_r_same:
  assumes "\<And>x s s'. f x s = Inr s' \<Longrightarrow> g s' = g s"
  shows "fold_r f xs s = Inr s' \<Longrightarrow> g s' = g s"
proof (induction xs arbitrary: s)
  case Nil
  then show ?case by simp
next
  case (Cons x xs)
  from Cons.prems obtain t where "f x s = Inr t" "fold_r f xs t = Inr s'" by (auto elim: rbind_InrE)
  with Cons.IH [of t] assms [of x s t] show ?case by simp
qed

lemma insert_translation_values:
  "insert_translation i lang label short db = Inr db' \<Longrightarrow> ld_values db' = ld_values db"
  by (auto simp: insert_translation_def split: if_splits)

lemma apply_translations_values:
  "apply_translations v ts db = Inr db' \<Longrightarrow> ld_values db' = ld_values db"
  unfolding apply_translations_def
  by (erule fold_r_same [rotated])
    (auto simp: apply_translation_def set_translation_def dest: insert_translation_values split: option.splits)

lemma insert_aliases_values [simp]: "ld_values (fold (insert_alias i) xs db) = ld_values db"
  by (induction xs arbitrary: db) (simp_all add: insert_alias_def)

lemma insert_aliases_edit:
  assumes ok: "lookup_ok db" and home: "home_id w ty i db"
  shows "edit w ty db (fold (insert_alias i) xs db)"
  by (rule edits.fold_effect) (meson editD(4) home insert_alias_edit ok)

lemma insert_labels_edit:
  assumes ok: "lookup_ok db" and home: "home_id w ty i db" and run: "insert_labels i rows db = Inr db'"
  shows "edit w ty db db'"
  using run [unfolded insert_labels_def]
proof (rule edits.fold_r_effect [rotated])
  fix x s s'
  assume "edit w ty db s" and "(case x of (lang, label, short) \<Rightarrow> insert_translation i lang label short) s = Inr s'"
  then show "edit w ty s s'"
    using insert_translation_edit editD(4) [OF _ ok home] by (auto split: prod.splits)
qed

subsection \<open>The version bump\<close>

lemma typed_types:
  assumes "\<And>t. lt_id (f t) = lt_id t \<and> lt_scope (f t) = lt_scope t"
  shows "typed (db\<lparr>ld_types := update_where P f (ld_types db)\<rparr>) v = typed db v"
  unfolding typed_def using assms by (simp add: list_ex_update_where)

lemma types_update_ok:
  assumes ok: "lookup_ok db"
    and f: "\<And>t. lt_id (f t) = lt_id t \<and> lt_key (f t) = lt_key t \<and> lt_scope (f t) = lt_scope t \<and>
             lt_is_open (f t) = lt_is_open t"
  shows "lookup_ok (db\<lparr>ld_types := update_where P f (ld_types db)\<rparr>)"
proof -
  have "types_ok (db\<lparr>ld_types := update_where P f (ld_types db)\<rparr>)"
    using ok f by (auto simp: lookup_ok_def types_ok_def map_update_where list_all_iff set_update_where)
  moreover have "list_all (typed (db\<lparr>ld_types := update_where P f (ld_types db)\<rparr>)) (ld_values db)"
    using ok f typed_types [of f P] by (simp add: lookup_ok_def values_ok_def list_all_iff)
  ultimately show ?thesis
    using ok by (simp add: lookup_ok_def values_ok_def children_ok_def list_all_iff)
qed

lemma touch_type_ok: "lookup_ok db \<Longrightarrow> lookup_ok (touch_type e t db)"
  unfolding touch_type_def by (rule types_update_ok) simp_all

lemma bump_version_ok: "lookup_ok db \<Longrightarrow> lookup_ok (bump_version t db)"
  unfolding bump_version_def by (rule types_update_ok) simp_all

text \<open>A transaction of service.py: edits by the session's owner, then the version.\<close>

definition wrote :: "lookup_env \<Rightarrow> lookup_type \<Rightarrow> lookup_db \<Rightarrow> lookup_db \<Rightarrow> bool" where
  "wrote e t db db' =
     (org_may_write e t \<and> (\<exists>db1. edit (current_org e) (lt_id t) db db1 \<and> db' = touch_type e t db1))"

lemma wroteI:
  "org_may_write e t \<Longrightarrow> edit (current_org e) (lt_id t) db db1 \<Longrightarrow> wrote e t db (touch_type e t db1)"
  by (auto simp: wrote_def)

lemma refreshed_home:
  assumes "lookup_ok db" "home_id w ty i db"
  obtains row where "refreshed db i = (Inr row, db)" "row \<in> set (ld_values db)" "lv_id row = i"
    "lv_org row = w" "lv_type row = ty"
proof -
  from assms obtain v where v: "v \<in> set (ld_values db)" "lv_id v = i" "lv_org v = w" "lv_type v = ty"
    by (auto simp: home_id_iff)
  then have "value_row db i = Some v"
    using row_by_distinct [OF lookup_okD(1) [OF assms(1)] v(1)] by (simp add: value_row_def)
  with v that show ?thesis by (simp add: refreshed_def)
qed

subsection \<open>The mutations\<close>

text \<open>
  \<open>did e t db out\<close>: an operation either returned after one such transaction, returned without
  touching anything, or raised and touched nothing.
\<close>

definition did :: "lookup_env \<Rightarrow> lookup_type \<Rightarrow> lookup_db \<Rightarrow> 'a lookup_op \<Rightarrow> bool" where
  "did e t db out =
     ((\<exists>r. fst out = Inr r) \<and> wrote e t db (snd out) \<or> snd out = db)"

lemma did_same [simp]: "did e t db (r, db)"
  by (simp add: did_def)

lemma did_refreshed:
  assumes ok: "lookup_ok db" and may: "org_may_write e t"
    and ed: "edit (current_org e) (lt_id t) db db1" and home: "home_id (current_org e) (lt_id t) i db1"
  shows "did e t db (refreshed (touch_type e t db1) i)"
proof -
  have "lookup_ok (touch_type e t db1)" using touch_type_ok editD(1) [OF ed ok] by blast
  moreover have "home_id (current_org e) (lt_id t) i (touch_type e t db1)"
    using home by (simp add: touch_type_def)
  ultimately obtain row where "refreshed (touch_type e t db1) i = (Inr row, touch_type e t db1)"
    by (rule refreshed_home)
  then show ?thesis using wroteI [OF may ed] by (simp add: did_def)
qed

lemma update_value_did:
  assumes ok: "lookup_ok db"
  shows "did e t db (update_value e db t code ts d n m)"
proof (cases "value_for_write e db t code")
  case (Inl x)
  then show ?thesis by (simp add: update_value_def)
next
  case (Inr v)
  note v = value_for_write_home [OF Inr]
  show ?thesis
  proof (cases "case ts of None \<Rightarrow> Inr db | Some xs \<Rightarrow> apply_translations v xs db")
    case (Inl x)
    then show ?thesis by (simp add: update_value_def \<open>value_for_write e db t code = Inr v\<close>)
  next
    case (Inr db1)
    have ed: "edit (current_org e) (lt_id t) db db1"
      using Inr apply_translations_edit [OF ok v(6)] edits.R_refl by (auto split: option.splits)
    have vals: "ld_values db1 = ld_values db"
      using Inr apply_translations_values by (auto split: option.splits)
    let ?v = "updated_value e d n m v"
    have same: "lv_id ?v = lv_id v" "value_index ?v = value_index v" "lv_parent ?v = lv_parent v"
      "lv_superseded ?v = lv_superseded v" "lv_org ?v = lv_org v" "lv_type ?v = lv_type v"
      by (simp_all add: updated_value_def if_given_def value_index_def split: option.splits)
    have pts: "points_home db1 ?v"
      using lookup_okD(7) [OF editD(1) [OF ed ok], of v] v(1) vals
      by (simp add: points_home_def same cong: option.case_cong)
    have "edit (current_org e) (lt_id t) db1 (put_value ?v db1)"
      using editD(1) [OF ed ok] v vals same pts by (intro put_value_edit [where u = v]) auto
    then have ed2: "edit (current_org e) (lt_id t) db (put_value ?v db1)" by (rule edits.R_trans [OF ed])
    then show ?thesis
      using did_refreshed [OF ok v(5) ed2 editD(4) [OF ed2 ok v(6)]] Inr \<open>value_for_write e db t code = Inr v\<close>
      by (simp add: update_value_def)
  qed
qed

lemma deprecate_value_did:
  assumes ok: "lookup_ok db"
  shows "did e t db (deprecate_value e db t code vt s)"
proof (cases "value_for_write e db t code")
  case (Inl x)
  then show ?thesis by (simp add: deprecate_value_def)
next
  case (Inr v)
  note v = value_for_write_home [OF Inr]
  show ?thesis
  proof (cases "supersede_target e db t s (lv_superseded v)")
    case (Inl x)
    then show ?thesis by (simp add: deprecate_value_def Inr)
  next
    case sup: (Inr p)
    let ?v = "v\<lparr>lv_status := LsDeprecated,
              lv_valid_to := Some (case vt of Some d \<Rightarrow> d | None \<Rightarrow> today e),
              lv_superseded := p, lv_updated_at := le_now e\<rparr>"
    have "case p of None \<Rightarrow> True | Some i \<Rightarrow> home_id (lv_org v) (lv_type v) i db"
      using sup lookup_okD(7) [OF ok v(1)] value_by_code_home [OF v(5)] v(2,4)
      by (auto simp: supersede_target_def points_home_def split: option.splits if_splits)
    then have "points_home db ?v"
      using lookup_okD(7) [OF ok v(1)] by (auto simp: points_home_iff)
    then have ed: "edit (current_org e) (lt_id t) db (put_value ?v db)"
      using v ok by (intro put_value_edit [where u = v]) (auto simp: value_index_def)
    show ?thesis
      using did_refreshed [OF ok v(5) ed editD(4) [OF ed ok v(6)]]
      by (simp add: deprecate_value_def Inr sup)
  qed
qed

lemma add_alias_did:
  assumes ok: "lookup_ok db"
  shows "did e t db (add_alias e db t code al lang)"
proof (cases "value_for_write e db t code")
  case (Inl x)
  then show ?thesis by (simp add: add_alias_def)
next
  case (Inr v)
  note v = value_for_write_home [OF Inr]
  note ed = insert_alias_edit [OF v(6), of "(py_strip al, lang)"]
  show ?thesis
    using did_refreshed [OF ok v(5) ed editD(4) [OF ed ok v(6)]] by (simp add: add_alias_def Inr Let_def)
qed

lemma remove_alias_did:
  assumes ok: "lookup_ok db"
  shows "did e t db (remove_alias e db t code al)"
proof (cases "value_for_write e db t code")
  case (Inl x)
  then show ?thesis by (simp add: remove_alias_def)
next
  case (Inr v)
  note v = value_for_write_home [OF Inr]
  let ?P = "\<lambda>a. la_value a = lv_id v \<and> fold_text (la_alias a) = fold_text al"
  note ed = delete_aliases_edit [OF v(6), of ?P, OF conjunct1]
  show ?thesis
    using did_refreshed [OF ok v(5) ed editD(4) [OF ed ok v(6)]]
    by (simp add: remove_alias_def Inr Let_def)
qed

lemma merge_values_did:
  assumes ok: "lookup_ok db"
  shows "did e t db (merge_values e db t code into)"
proof (cases "rbind (value_for_write e db t code) (\<lambda>source.
             rbind (value_for_write e db t into) (\<lambda>target. Inr (source, target)))")
  case (Inl x)
  then show ?thesis by (simp add: merge_values_def)
next
  case (Inr p)
  obtain s g where p: "p = (s, g)" by (cases p)
  with Inr have sg: "value_for_write e db t code = Inr s" "value_for_write e db t into = Inr g"
    by (auto simp: rbind_Inr_iff)
  note s = value_for_write_home [OF sg(1)] and g = value_for_write_home [OF sg(2)]
  let ?db1 = "fold (insert_alias (lv_id g)) (merge_aliases (map (\<lambda>a. fold_text (la_alias a)) (aliases_of db g))
                (translations_of db s)) db"
  let ?s = "s\<lparr>lv_status := LsDeprecated, lv_superseded := Some (lv_id g),
              lv_valid_to := Some (today e), lv_updated_at := le_now e\<rparr>"
  note ed = insert_aliases_edit [OF ok g(6)]
  have vals: "ld_values ?db1 = ld_values db" by (rule insert_aliases_values)
  have "points_home ?db1 ?s"
    using lookup_okD(7) [OF ok s(1)] g(6) s(2,4) vals by (auto simp: points_home_iff home_id_def)
  then have "edit (current_org e) (lt_id t) ?db1 (put_value ?s ?db1)"
    using s editD(1) [OF ed ok] vals by (intro put_value_edit [where u = s]) (auto simp: value_index_def)
  then have ed2: "edit (current_org e) (lt_id t) db (put_value ?s ?db1)" by (rule edits.R_trans [OF ed])
  show ?thesis
    using did_refreshed [OF ok s(5) ed2 editD(4) [OF ed2 ok g(6)]] Inr
    by (simp add: merge_values_def p Let_def)
qed

end
