(* ===== verification/LookupMoves.thy ===== *)
theory LookupMoves
  imports LookupOps
begin

text \<open>
  What every call of the package does to the database: it keeps the invariant, the rows of every
  other owner, the identity of every row, and it moves the version of a type whenever anything a
  read of that type depends on changes.
\<close>

subsection \<open>Versions track contents\<close>

definition same_type :: "int \<Rightarrow> lookup_db \<Rightarrow> lookup_db \<Rightarrow> bool" where
  "same_type ty db db' = same_where (\<lambda>v. lv_type v = ty) db db'"

definition type_after :: "lookup_db \<Rightarrow> lookup_db \<Rightarrow> lookup_type \<Rightarrow> lookup_type \<Rightarrow> bool" where
  "type_after db db' t t' =
     (lt_id t' = lt_id t \<and> lt_key t' = lt_key t \<and> lt_scope t' = lt_scope t \<and>
      lt_default_sort t' = lt_default_sort t \<and> lt_version t \<le> lt_version t' \<and>
      (lt_version t' = lt_version t \<longrightarrow> same_type (lt_id t) db db'))"

definition tracked :: "lookup_db \<Rightarrow> lookup_db \<Rightarrow> bool" where
  "tracked db db' = (\<forall>t\<in>set (ld_types db). \<exists>t'\<in>set (ld_types db'). type_after db db' t t')"

definition moved :: "int option \<Rightarrow> lookup_db \<Rightarrow> lookup_db \<Rightarrow> bool" where
  "moved w db db' =
     (lookup_ok db \<longrightarrow>
        lookup_ok db' \<and> same_where (\<lambda>v. lv_org v \<noteq> w) db db' \<and> row_names db \<subseteq> row_names db' \<and>
        tracked db db')"

lemma tracked_refl: "tracked db db"
  by (auto simp: tracked_def type_after_def same_type_def)

lemma tracked_trans:
  assumes "tracked a b" "tracked b c"
  shows "tracked a c"
  unfolding tracked_def
proof
  fix t assume "t \<in> set (ld_types a)"
  then obtain t' where t': "t' \<in> set (ld_types b)" "type_after a b t t'"
    using assms(1) by (auto simp: tracked_def)
  then obtain t'' where t'': "t'' \<in> set (ld_types c)" "type_after b c t' t''"
    using assms(2) by (auto simp: tracked_def)
  have "same_type (lt_id t) a c" if "lt_version t'' = lt_version t"
  proof -
    from that t'(2) t''(2) have "lt_version t' = lt_version t" "lt_version t'' = lt_version t'"
      by (auto simp: type_after_def)
    with t'(2) t''(2) show ?thesis
      by (auto simp: type_after_def same_type_def intro: same_where_trans)
  qed
  then have "type_after a c t t''" using t'(2) t''(2) by (auto simp: type_after_def)
  with t''(1) show "\<exists>t''\<in>set (ld_types c). type_after a c t t''" by blast
qed

interpretation moves: effect "moved w"
proof
  show "moved w s s" for s by (simp add: moved_def tracked_refl)
  show "moved w a b \<Longrightarrow> moved w b c \<Longrightarrow> moved w a c" for a b c
    unfolding moved_def using same_where_trans tracked_trans subset_trans by (intro impI conjI) blast+
qed

lemma movedD:
  assumes "moved w db db'" "lookup_ok db"
  shows "lookup_ok db'" "same_where (\<lambda>v. lv_org v \<noteq> w) db db'" "tracked db db'"
    "row_names db \<subseteq> row_names db'"
  using assms by (auto simp: moved_def)

text \<open>Edits inside one type followed by a rewrite of that type's row that raises its version.\<close>

lemma edit_then_bump:
  assumes ok: "lookup_ok db" and ed: "edit w ty db db1"
    and f: "\<And>t. lt_id (f t) = lt_id t \<and> lt_key (f t) = lt_key t \<and> lt_scope (f t) = lt_scope t \<and>
             lt_is_open (f t) = lt_is_open t \<and> lt_default_sort (f t) = lt_default_sort t"
    and up: "\<And>t. t \<in> set (ld_types db) \<Longrightarrow> lt_id t = ty \<Longrightarrow> lt_version t < lt_version (f t)"
    and db': "db' = db1\<lparr>ld_types := update_where (\<lambda>r. lt_id r = ty) f (ld_types db1)\<rparr>"
  shows "moved w db db'"
proof -
  note ed = editD [OF ed ok]
  have "lookup_ok db'" unfolding db' using ed(1) f by (intro types_update_ok) auto
  moreover have "same_where (\<lambda>v. lv_org v \<noteq> w) db db'"
    unfolding db' using ed(3) by (simp add: same_where_mono outside_def)
  moreover have "row_names db \<subseteq> row_names db'" using ed(5) by (simp add: db' row_names_def)
  moreover have "tracked db db'"
    unfolding tracked_def
  proof
    fix t assume t: "t \<in> set (ld_types db)"
    let ?t = "if lt_id t = ty then f t else t"
    have "?t \<in> set (ld_types db')" using t by (simp add: db' set_update_where ed(2))
    moreover have "type_after db db' t ?t"
    proof (cases "lt_id t = ty")
      case True
      then show ?thesis using up [OF t] f [of t] by (simp add: type_after_def)
    next
      case False
      then have "same_type (lt_id t) db db'"
        unfolding db' same_type_def using ed(3) by (auto intro: same_where_mono simp: outside_def)
      with False show ?thesis by (simp add: type_after_def)
    qed
    ultimately show "\<exists>t'\<in>set (ld_types db'). type_after db db' t t'" by blast
  qed
  ultimately show ?thesis by (simp add: moved_def)
qed

lemma wrote_moved:
  assumes "lookup_ok db" "t \<in> set (ld_types db)" "wrote e t db db'"
  shows "moved (current_org e) db db'"
proof -
  from assms(3) obtain db1 where ed: "edit (current_org e) (lt_id t) db db1"
    and db': "db' = touch_type e t db1" by (auto simp: wrote_def)
  show ?thesis
  proof (rule edit_then_bump [OF assms(1) ed _ _ db' [unfolded touch_type_def]])
    fix r assume "r \<in> set (ld_types db)" "lt_id r = lt_id t"
    with assms(1,2) have "r = t" using lookup_okD(3) by (meson distinct_map inj_onD)
    then show "lt_version r < lt_version (r\<lparr>lt_version := lt_version t + 1, lt_updated_at := le_now e\<rparr>)"
      by simp
  qed simp
qed

lemma bumped_moved:
  assumes "lookup_ok db" "edit w (lt_id t) db db1"
  shows "moved w db (bump_version t db1)"
  by (rule edit_then_bump [OF assms, where f = "\<lambda>r. r\<lparr>lt_version := lt_version r + 1\<rparr>"])
    (simp_all add: bump_version_def)

lemma did_moved:
  assumes "lookup_ok db" "t \<in> set (ld_types db)" "did e t db out"
  shows "moved (current_org e) db (snd out)"
  using assms wrote_moved moves.R_refl unfolding did_def by metis

subsection \<open>Creating a value\<close>

lemma insert_labels_total:
  assumes "distinct (map fst rows)"
    and "\<forall>t\<in>set (ld_translations db). ltr_value t = i \<longrightarrow> ltr_lang t \<notin> fst ` set rows"
  shows "\<exists>db'. insert_labels i rows db = Inr db'"
  using assms
proof (induction rows arbitrary: db)
  case Nil
  then show ?case by (simp add: insert_labels_def)
next
  case (Cons r rows)
  obtain lang label short where r: "r = (lang, label, short)" by (cases r)
  have no: "\<not> exists_where (\<lambda>t. ltr_value t = i \<and> ltr_lang t = lang) (ld_translations db)"
    using Cons.prems(2) by (auto simp: exists_where_iff r)
  then obtain db1 where db1: "insert_translation i lang label short db = Inr db1"
    by (simp add: insert_translation_def)
  then have "ld_translations db1 = ld_translations db @
      [\<lparr>ltr_id = new_id (map ltr_id (ld_translations db)), ltr_value = i, ltr_lang = lang,
        ltr_label = label, ltr_short = short\<rparr>]"
    using no by (auto simp: insert_translation_def)
  with Cons.prems have "\<exists>db'. insert_labels i rows db1 = Inr db'"
    by (intro Cons.IH) (auto simp: r)
  with db1 show ?case by (simp add: insert_labels_def r)
qed

lemma apply_translations_fresh:
  "translations_of db v = [] \<Longrightarrow>
     apply_translations v ts db =
       insert_labels (lv_id v) (map (\<lambda>t. (ti_lang t, ti_label t, ti_short t)) ts) db"
proof -
  have "fold_r (apply_translation [] i) ts s =
        fold_r (\<lambda>(lang, label, short). insert_translation i lang label short)
          (map (\<lambda>t. (ti_lang t, ti_label t, ti_short t)) ts) s" for i s
    by (induction ts arbitrary: s) (simp_all add: apply_translation_def by_lang_def rbind_def split: sum.splits)
  then show "translations_of db v = [] \<Longrightarrow> ?thesis"
    by (simp add: apply_translations_def insert_labels_def)
qed

lemma fresh_labels_total:
  assumes ok: "lookup_ok db" and none: "translations_of db v = []" and "distinct (map fst rows)"
  shows "\<exists>db'. insert_labels (lv_id v) rows db = Inr db'"
  using assms(3) by (rule insert_labels_total) (use none in \<open>auto simp: translations_of_def filter_empty_conv\<close>)

lemma creation_parent_home:
  "org_may_write e t \<Longrightarrow> creation_parent e db t p = Inr (Some i) \<Longrightarrow>
     home_id (current_org e) (lt_id t) i db"
  using value_by_code_home by (auto simp: creation_parent_def split: option.splits if_splits)

lemma create_checked_Inr:
  assumes "create_checked e db t code ts d n p m = Inr (v, db1)"
  obtains parent where "org_may_write e t" "ts \<noteq> []"
    "value_by_code e db t (creation_code e code ts) = None"
    "creation_parent e db t p = Inr parent"
    "insert_value (fresh_value e t (creation_code e code ts) parent d n m) db = Inr (v, db1)"
  using assms
  by (cases "lt_scope t")
    (auto simp: create_checked_def org_may_write_def Let_def rbind_Inr_iff split: if_splits)

lemma create_first:
  assumes ok: "lookup_ok db" and t: "t \<in> set (ld_types db)"
    and run: "create_checked e db t code ts d n p m = Inr (v, db1)"
  shows "org_may_write e t" "edit (current_org e) (lt_id t) db db1"
    "home_id (current_org e) (lt_id t) (lv_id v) db1" "translations_of db1 v = []"
    "aliases_of db1 v = []" "lv_code v = creation_code e code ts" "lv_org v = current_org e"
    "lv_type v = lt_id t"
proof -
  from run obtain parent where may: "org_may_write e t"
    and parent: "creation_parent e db t p = Inr parent"
    and ins: "insert_value (fresh_value e t (creation_code e code ts) parent d n m) db = Inr (v, db1)"
    by (rule create_checked_Inr)
  let ?v = "fresh_value e t (creation_code e code ts) parent d n m"
  have typed: "typed db ?v"
    using t may by (auto simp: typed_def list_ex_iff fresh_value_def org_may_write_def)
  have pts: "points_home db ?v"
    using parent creation_parent_home [OF may] by (auto simp: points_home_iff fresh_value_def)
  have org: "lv_org ?v = current_org e" "lv_type ?v = lt_id t" "lv_code ?v = creation_code e code ts"
    by (simp_all add: fresh_value_def)
  note ins = insert_value_edit [OF ins typed pts ok, unfolded org]
  show "org_may_write e t" by (rule may)
  show "edit (current_org e) (lt_id t) db db1" "home_id (current_org e) (lt_id t) (lv_id v) db1"
    "translations_of db1 v = []" "aliases_of db1 v = []" using ins by blast+
  show "lv_code v = creation_code e code ts" "lv_org v = current_org e" "lv_type v = lt_id t"
    by (subst ins(3); simp add: fresh_value_def)+
qed

lemma create_value_did:
  assumes ok: "lookup_ok db" and t: "t \<in> set (ld_types db)" and langs: "distinct (map ti_lang ts)"
  shows "did e t db (create_value e db t code ts d n p m als)"
proof (cases "create_checked e db t code ts d n p m")
  case (Inl x)
  then show ?thesis by (simp add: create_value_def)
next
  case (Inr out)
  obtain v db1 where out: "out = (v, db1)" by (cases out)
  note one = create_first [OF ok t Inr [unfolded out]]
  note ok1 = editD(1) [OF one(2) ok]
  obtain db2 where db2: "apply_translations v ts db1 = Inr db2"
    using fresh_labels_total [OF ok1 one(4), of "map (\<lambda>t. (ti_lang t, ti_label t, ti_short t)) ts"] langs
    by (auto simp: apply_translations_fresh [OF one(4)] comp_def)
  note ed2 = apply_translations_edit [OF ok1 one(3) db2]
  let ?db3 = "fold (\<lambda>al. insert_alias (lv_id v) (al, None)) (dedup_aliases als) db2"
  have fold: "?db3 = fold (insert_alias (lv_id v)) (map (\<lambda>al. (al, None)) (dedup_aliases als)) db2"
    by (simp add: fold_map comp_def)
  have ed3: "edit (current_org e) (lt_id t) db ?db3"
    unfolding fold
    by (rule edits.R_trans [OF one(2) edits.R_trans [OF ed2
          insert_aliases_edit [OF editD(1) [OF ed2 ok1] editD(4) [OF ed2 ok1 one(3)]]]])
  have home3: "home_id (current_org e) (lt_id t) (lv_id v) ?db3"
    unfolding fold
    using insert_aliases_edit [OF editD(1) [OF ed2 ok1] editD(4) [OF ed2 ok1 one(3)]]
      editD(4) editD(1) [OF ed2 ok1] editD(4) [OF ed2 ok1 one(3)] by blast
  have "row_by lt_id (lt_id t) (ld_types db1) = Some t"
    using row_by_distinct [OF lookup_okD(3) [OF ok] t] editD(2) [OF one(2) ok] by simp
  then have "create_value e db t code ts d n p m als = refreshed (touch_type e t ?db3) (lv_id v)"
    by (simp add: create_value_def Inr out create_second_def db2)
  then show ?thesis using did_refreshed [OF ok one(1) ed3 home3] by simp
qed

lemma get_type_Inr: "get_type db key = Inr t \<longleftrightarrow> type_by_key db key = Some t"
  by (auto simp: get_type_def split: option.splits)

lemma type_by_key_Some: "type_by_key db key = Some t \<Longrightarrow> t \<in> set (ld_types db) \<and> lt_key t = key"
  unfolding type_by_key_def by (rule row_by_Some_iff)

lemma get_or_create_moved:
  assumes ok: "lookup_ok db"
  shows "moved (current_org e) db (snd (get_or_create_value e db key label lang))"
proof (cases "get_type db key")
  case (Inl x)
  then show ?thesis by (simp add: get_or_create_value_def moves.R_refl)
next
  case (Inr t)
  then have t: "t \<in> set (ld_types db)" by (auto simp: get_type_Inr dest: type_by_key_Some)
  let ?out = "create_value e db t (Some (slugify e (py_strip label)))
                [\<lparr>ti_lang = lang, ti_label = py_strip label, ti_short = None\<rparr>] False 0 None [] []"
  have "moved (current_org e) db (snd ?out)"
    by (rule did_moved [OF ok t create_value_did [OF ok t]]) simp
  then show ?thesis
    by (cases ?out) (simp add: get_or_create_value_def Inr Let_def moves.R_refl split: option.splits)
qed


text \<open>
  The effect of \<open>seed_org_lookups\<close>: what a copied template looks like, that the copy never fails
  on a database in order, and that it is complete.
\<close>

subsection \<open>Child rows of a new value\<close>

definition label_row :: "lookup_translation \<Rightarrow> string \<times> string \<times> string option" where
  "label_row t = (ltr_lang t, ltr_label t, ltr_short t)"

definition alias_row :: "lookup_alias \<Rightarrow> string \<times> string option" where
  "alias_row a = (la_alias a, la_lang a)"

lemma label_row_simp [simp]:
  "label_row \<lparr>ltr_id = n, ltr_value = i, ltr_lang = lang, ltr_label = label, ltr_short = short\<rparr> =
     (lang, label, short)"
  "alias_row \<lparr>la_id = n, la_value = i, la_lang = al, la_alias = a\<rparr> = (a, al)"
  by (simp_all add: label_row_def alias_row_def)

lemma insert_labels_shape:
  "insert_labels i rows db = Inr db' \<Longrightarrow>
     \<exists>ts. db' = db\<lparr>ld_translations := ld_translations db @ ts\<rparr> \<and> map label_row ts = rows \<and>
          (\<forall>t\<in>set ts. ltr_value t = i)"
proof (induction rows arbitrary: db)
  case Nil
  then show ?case by (simp add: insert_labels_def)
next
  case (Cons r rows)
  obtain lang label short where r: "r = (lang, label, short)" by (cases r)
  from Cons.prems obtain db1 where db1: "insert_translation i lang label short db = Inr db1"
    and rest: "insert_labels i rows db1 = Inr db'"
    by (auto simp: insert_labels_def r rbind_Inr_iff)
  obtain n where n: "db1 = db\<lparr>ld_translations := ld_translations db @
      [\<lparr>ltr_id = n, ltr_value = i, ltr_lang = lang, ltr_label = label, ltr_short = short\<rparr>]\<rparr>"
    using db1 by (auto simp: insert_translation_def split: if_splits)
  from Cons.IH [OF rest] obtain ts where ts: "db' = db1\<lparr>ld_translations := ld_translations db1 @ ts\<rparr>"
    "map label_row ts = rows" "\<forall>t\<in>set ts. ltr_value t = i" by blast
  let ?t = "\<lparr>ltr_id = n, ltr_value = i, ltr_lang = lang, ltr_label = label, ltr_short = short\<rparr>"
  show ?case
    by (rule exI [of _ "?t # ts"]) (simp add: ts n r)
qed

lemma insert_aliases_shape:
  "\<exists>xs. fold (insert_alias i) rows db = db\<lparr>ld_aliases := ld_aliases db @ xs\<rparr> \<and>
        map alias_row xs = rows \<and> (\<forall>a\<in>set xs. la_value a = i)"
proof (induction rows arbitrary: db)
  case Nil
  then show ?case by simp
next
  case (Cons r rows)
  obtain xs where xs: "fold (insert_alias i) rows (insert_alias i r db) =
      (insert_alias i r db)\<lparr>ld_aliases := ld_aliases (insert_alias i r db) @ xs\<rparr>"
    "map alias_row xs = rows" "\<forall>a\<in>set xs. la_value a = i" using Cons.IH by blast
  let ?a = "\<lparr>la_id = new_id (map la_id (ld_aliases db)), la_value = i, la_lang = snd r, la_alias = fst r\<rparr>"
  show ?case
    by (rule exI [of _ "?a # xs"]) (simp add: xs, simp add: insert_alias_def)
qed

text \<open>A database that gained one row with children, all of them at the end of their tables.\<close>

definition gained :: "lookup_db \<Rightarrow> lookup_value \<Rightarrow> (string \<times> string \<times> string option) list
    \<Rightarrow> (string \<times> string option) list \<Rightarrow> lookup_db \<Rightarrow> bool" where
  "gained db row labels als db' =
     (\<exists>ts xs. db' = db\<lparr>ld_values := ld_values db @ [row],
                       ld_translations := ld_translations db @ ts, ld_aliases := ld_aliases db @ xs\<rparr> \<and>
        map label_row ts = labels \<and> map alias_row xs = als \<and>
        (\<forall>t\<in>set ts. ltr_value t = lv_id row) \<and> (\<forall>a\<in>set xs. la_value a = lv_id row))"

lemma gained_children:
  assumes "gained db row labels als db'" and ok: "lookup_ok db" and "lv_id row \<notin> lv_id ` set (ld_values db)"
  shows "map label_row (translations_of db' row) = labels" "map alias_row (aliases_of db' row) = als"
    "\<And>v. v \<in> set (ld_values db) \<Longrightarrow> same_children db db' v"
proof -
  from assms(1) obtain ts xs where db': "db' = db\<lparr>ld_values := ld_values db @ [row],
      ld_translations := ld_translations db @ ts, ld_aliases := ld_aliases db @ xs\<rparr>"
    and lab: "map label_row ts = labels" "map alias_row xs = als"
    and own: "\<forall>t\<in>set ts. ltr_value t = lv_id row" "\<forall>a\<in>set xs. la_value a = lv_id row"
    unfolding gained_def by blast
  have "filter (\<lambda>t. ltr_value t = lv_id row) (ld_translations db) = []"
    "filter (\<lambda>a. la_value a = lv_id row) (ld_aliases db) = []"
    using lookup_okD(5,6) [OF ok] assms(3) by (auto simp: filter_empty_conv) metis+
  moreover have "filter (\<lambda>t. ltr_value t = lv_id row) ts = ts" "filter (\<lambda>a. la_value a = lv_id row) xs = xs"
    using own by (simp_all add: filter_id_conv)
  ultimately show "map label_row (translations_of db' row) = labels" "map alias_row (aliases_of db' row) = als"
    using lab by (simp_all add: translations_of_def aliases_of_def db')
  fix v assume "v \<in> set (ld_values db)"
  with assms(3) have "lv_id v \<noteq> lv_id row" by (metis image_eqI)
  with own show "same_children db db' v"
    by (auto simp: same_children_def translations_of_def aliases_of_def db' filter_empty_conv)
qed

subsection \<open>One template\<close>

definition org_type :: "lookup_db \<Rightarrow> int \<Rightarrow> bool" where
  "org_type db ty = list_ex (\<lambda>t. lt_id t = ty \<and> lt_scope t = OrgScope) (ld_types db)"

definition label_rows_of :: "lookup_db \<Rightarrow> lookup_value \<Rightarrow> (string \<times> string \<times> string option) list" where
  "label_rows_of db v = map label_row (translations_of db v)"

definition alias_rows_of :: "lookup_db \<Rightarrow> lookup_value \<Rightarrow> (string \<times> string option) list" where
  "alias_rows_of db v = map alias_row (aliases_of db v)"

lemma distinct_langs_of:
  assumes "lookup_ok db"
  shows "distinct (map fst (label_rows_of db v))"
proof -
  have "distinct (map (\<lambda>t. (ltr_value t, ltr_lang t)) (translations_of db v))"
    unfolding translations_of_def using lookup_okD(9) [OF assms] by (rule distinct_map_filter)
  moreover have "map (\<lambda>t. (ltr_value t, ltr_lang t)) (translations_of db v) =
                 map (Pair (lv_id v)) (map ltr_lang (translations_of db v))"
    by (auto simp: translations_of_def)
  ultimately show ?thesis
    by (auto simp: label_rows_of_def label_row_def comp_def distinct_map inj_on_def)
qed

lemma template_copy_simps [simp]:
  "lv_type (template_copy e org tmpl) = lv_type tmpl" "lv_org (template_copy e org tmpl) = Some org"
  "lv_code (template_copy e org tmpl) = lv_code tmpl" "lv_parent (template_copy e org tmpl) = None"
  "lv_superseded (template_copy e org tmpl) = None"
  by (simp_all add: template_copy_def)

lemma copy_template_works:
  assumes ok: "lookup_ok db" and org: "org_type db (lv_type tmpl)"
    and free: "(lv_type tmpl, lv_code tmpl, Some org) \<notin> value_index ` set (ld_values db)"
  obtains row db' where "copy_template e org tmpl db = Inr (row, db')"
    "row = (template_copy e org tmpl)\<lparr>lv_id := lv_id row\<rparr>"
    "lv_id row \<notin> lv_id ` set (ld_values db)"
    "gained db row (label_rows_of db tmpl) (alias_rows_of db tmpl) db'"
    "edit (Some org) (lv_type tmpl) db db'"
    "home_id (Some org) (lv_type tmpl) (lv_id row) db'"
proof -
  let ?c = "template_copy e org tmpl"
  have typed: "typed db ?c" using org by (auto simp: typed_def org_type_def list_ex_iff)
  have pts: "points_home db ?c" by (simp add: points_home_def)
  have "\<not> exists_where (\<lambda>r. value_index r = value_index ?c) (ld_values db)"
    using free by (auto simp: exists_where_iff value_index_def image_iff)
  then obtain row db1 where ins: "insert_value ?c db = Inr (row, db1)"
    by (simp add: insert_value_def Let_def)
  note ins' = insert_value_edit [OF ins typed pts ok, simplified]
  note ok1 = editD(1) [OF ins'(1) ok]
  let ?labels = "map (\<lambda>t. (ltr_lang t, ltr_label t, ltr_short t)) (translations_of db tmpl)"
  let ?als = "map (\<lambda>a. (la_alias a, la_lang a)) (aliases_of db tmpl)"
  have rows: "?labels = label_rows_of db tmpl" "?als = alias_rows_of db tmpl"
    by (simp_all add: label_rows_of_def alias_rows_of_def label_row_def alias_row_def)
  obtain db2 where db2: "insert_labels (lv_id row) ?labels db1 = Inr db2"
    using fresh_labels_total [OF ok1 ins'(4), of ?labels] distinct_langs_of [OF ok, of tmpl] rows by auto
  note ed2 = insert_labels_edit [OF ok1 ins'(2) db2]
  note ok2 = editD(1) [OF ed2 ok1] and home2 = editD(4) [OF ed2 ok1 ins'(2)]
  let ?db3 = "fold (insert_alias (lv_id row)) ?als db2"
  note ed3 = insert_aliases_edit [OF ok2 home2, of ?als]
  obtain ts where ts: "db2 = db1\<lparr>ld_translations := ld_translations db1 @ ts\<rparr>"
    "map label_row ts = ?labels" "\<forall>t\<in>set ts. ltr_value t = lv_id row"
    using insert_labels_shape [OF db2] by blast
  obtain xs where xs: "?db3 = db2\<lparr>ld_aliases := ld_aliases db2 @ xs\<rparr>"
    "map alias_row xs = ?als" "\<forall>a\<in>set xs. la_value a = lv_id row"
    using insert_aliases_shape [of "lv_id row" ?als db2] by blast
  have db3: "?db3 = db\<lparr>ld_values := ld_values db @ [row],
      ld_translations := ld_translations db @ ts, ld_aliases := ld_aliases db @ xs\<rparr>"
    by (subst xs(1)) (simp add: ts(1) ins'(6))
  show thesis
  proof (rule that)
    show "copy_template e org tmpl db = Inr (row, ?db3)"
      by (simp add: copy_template_def ins db2)
    show "row = ?c\<lparr>lv_id := lv_id row\<rparr>" by (rule ins'(3))
    show "lv_id row \<notin> lv_id ` set (ld_values db)" by (rule ins'(8))
    show "gained db row (label_rows_of db tmpl) (alias_rows_of db tmpl) ?db3"
      unfolding gained_def rows [symmetric]
      using db3 ts(2,3) xs(2,3) by blast
    show "edit (Some org) (lv_type tmpl) db ?db3"
      by (rule edits.R_trans [OF ins'(1) edits.R_trans [OF ed2 ed3]])
    show "home_id (Some org) (lv_type tmpl) (lv_id row) ?db3" by (rule editD(4) [OF ed3 ok2 home2])
  qed
qed

end
