(* ===== verification/LookupOrgSeed.thy ===== *)
theory LookupOrgSeed
  imports LookupMoves
begin

text \<open>
  \<open>seed_org_lookups\<close> on a database in order: it succeeds, adds one copy for every template code
  the organisation lacks, changes no row that was there, and gives the copies their own pointers.
\<close>

subsection \<open>Growth\<close>

definition grown :: "lookup_db \<Rightarrow> lookup_db \<Rightarrow> bool" where
  "grown db db' =
     ((\<exists>vs. ld_values db' = ld_values db @ vs) \<and> (\<forall>v\<in>set (ld_values db). same_children db db' v))"

lemma grown_trans: "grown a b \<Longrightarrow> grown b c \<Longrightarrow> grown a c"
  by (auto simp: grown_def same_children_def)

interpretation grows: effect grown
  by unfold_locales (simp add: grown_def same_children_def, rule grown_trans)

lemma grown_values: "grown db db' \<Longrightarrow> v \<in> set (ld_values db) \<Longrightarrow> v \<in> set (ld_values db')"
  by (auto simp: grown_def)

lemma grown_rows_of:
  assumes "grown db db'" "v \<in> set (ld_values db)"
  shows "label_rows_of db' v = label_rows_of db v" "alias_rows_of db' v = alias_rows_of db v"
  using assms by (auto simp: grown_def same_children_def label_rows_of_def alias_rows_of_def)

lemma gained_grown:
  assumes "gained db row labels als db'" "lookup_ok db" "lv_id row \<notin> lv_id ` set (ld_values db)"
  shows "grown db db'" "ld_values db' = ld_values db @ [row]"
proof -
  show "ld_values db' = ld_values db @ [row]" using assms(1) by (auto simp: gained_def)
  with gained_children(3) [OF assms] show "grown db db'" by (simp add: grown_def)
qed

subsection \<open>The first pass\<close>

definition lacking :: "lookup_value list \<Rightarrow> lookup_value list \<Rightarrow> lookup_value list" where
  "lacking own tms = filter (\<lambda>tm. lv_code tm \<notin> set (map lv_code own)) tms"

definition copy_of :: "lookup_env \<Rightarrow> int \<Rightarrow> lookup_db \<Rightarrow> lookup_db \<Rightarrow> lookup_value \<Rightarrow> int \<Rightarrow> bool" where
  "copy_of e org db db' tm c =
     (c \<notin> lv_id ` set (ld_values db) \<and>
      (\<exists>row\<in>set (ld_values db'). row = (template_copy e org tm)\<lparr>lv_id := c\<rparr> \<and>
         label_rows_of db' row = label_rows_of db tm \<and> alias_rows_of db' row = alias_rows_of db tm))"

lemma copy_of_later:
  assumes "copy_of e org db db1 tm c" "grown db1 db2"
  shows "copy_of e org db db2 tm c"
  using assms grown_values grown_rows_of unfolding copy_of_def by metis

lemma copy_of_earlier:
  assumes "copy_of e org db1 db2 tm c" "grown db db1" "tm \<in> set (ld_values db)"
  shows "copy_of e org db db2 tm c"
  using assms grown_rows_of [OF assms(2,3)] by (auto simp: copy_of_def grown_def)

lemma copy_of_names:
  assumes "copy_of e org db db' tm c"
  shows "(c, lv_type tm, lv_code tm, Some org) \<in> row_names db'"
proof -
  let ?row = "(template_copy e org tm)\<lparr>lv_id := c\<rparr>"
  from assms have "?row \<in> set (ld_values db')" by (auto simp: copy_of_def)
  then have "(lv_id ?row, value_index ?row) \<in> row_names db'"
    unfolding row_names_def set_map by (rule rev_image_eqI) simp
  then show ?thesis by (simp add: value_index_def)
qed

definition copied ::
    "lookup_env \<Rightarrow> int \<Rightarrow> int \<Rightarrow> lookup_value list \<Rightarrow> lookup_db \<times> (int \<times> int) list
     \<Rightarrow> lookup_db \<times> (int \<times> int) list \<Rightarrow> bool" where
  "copied e org ty tms s s' =
     (edit (Some org) ty (fst s) (fst s') \<and> grown (fst s) (fst s') \<and>
      (tms = [] \<longrightarrow> fst s' = fst s) \<and>
      length (ld_values (fst s')) = length (ld_values (fst s)) + length tms \<and>
      (\<exists>cs. snd s' = snd s @ zip (map lv_id tms) cs \<and>
         list_all2 (copy_of e org (fst s) (fst s')) tms cs))"

lemma copied_Cons:
  assumes gain: "edit (Some org) ty db db1" "grown db db1" "ld_values db1 = ld_values db @ [row]"
    and one: "copy_of e org db db1 tm (lv_id row)"
    and rest: "copied e org ty tms (db1, cps @ [(lv_id tm, lv_id row)]) s'"
    and mem: "set tms \<subseteq> set (ld_values db)"
  shows "copied e org ty (tm # tms) (db, cps) s'"
proof -
  from rest obtain cs where cs: "snd s' = (cps @ [(lv_id tm, lv_id row)]) @ zip (map lv_id tms) cs"
    "list_all2 (copy_of e org db1 (fst s')) tms cs"
    and r: "edit (Some org) ty db1 (fst s')" "grown db1 (fst s')"
      "length (ld_values (fst s')) = length (ld_values db1) + length tms"
    unfolding copied_def by auto
  have "list_all2 (copy_of e org db (fst s')) tms cs"
    using cs(2) by (rule list.rel_mono_strong) (use mem copy_of_earlier [OF _ gain(2)] in blast)
  then have "list_all2 (copy_of e org db (fst s')) (tm # tms) (lv_id row # cs)"
    using copy_of_later [OF one r(2)] by simp
  moreover have "snd s' = cps @ zip (map lv_id (tm # tms)) (lv_id row # cs)" using cs(1) by simp
  ultimately have "\<exists>xs. snd s' = cps @ zip (map lv_id (tm # tms)) xs \<and>
      list_all2 (copy_of e org db (fst s')) (tm # tms) xs" by blast
  then show ?thesis
    using edits.R_trans [OF gain(1) r(1)] grown_trans [OF gain(2) r(2)] r(3) gain(3)
    unfolding copied_def by (simp del: list_all2_Cons zip_Cons_Cons list.map)
qed

lemma org_type_edit: "edit w ty db db' \<Longrightarrow> lookup_ok db \<Longrightarrow> org_type db' x = org_type db x"
  by (simp add: org_type_def editD(2))

lemma copy_loop_works:
  assumes "lookup_ok (fst s)" "org_type (fst s) ty" "set tms \<subseteq> set (ld_values (fst s))"
    "\<forall>tm\<in>set tms. lv_type tm = ty" "distinct (map lv_code tms)"
    "\<forall>tm\<in>set (lacking own tms). (ty, lv_code tm, Some org) \<notin> value_index ` set (ld_values (fst s))"
  shows "\<exists>s'. copy_loop e org own tms s = Inr s' \<and> copied e org ty (lacking own tms) s s'"
  using assms
proof (induction tms arbitrary: s)
  case Nil
  have "copied e org ty [] s s"
    using edits.R_refl grows.R_refl by (auto simp: copied_def)
  then show ?case by (simp add: lacking_def)
next
  case (Cons tm tms)
  obtain db cps where s: "s = (db, cps)" by (cases s)
  show ?case
  proof (cases "lv_code tm \<in> set (map lv_code own)")
    case True
    then have "lacking own (tm # tms) = lacking own tms" by (simp add: lacking_def)
    with Cons True show ?thesis by simp
  next
    case False
    then have lack: "lacking own (tm # tms) = tm # lacking own tms" by (simp add: lacking_def)
    have ok: "lookup_ok db" and ty: "lv_type tm = ty" using Cons.prems s by auto
    have "org_type db (lv_type tm)" "(lv_type tm, lv_code tm, Some org) \<notin> value_index ` set (ld_values db)"
      using Cons.prems s ty lack by auto
    with ok obtain row db1 where one: "copy_template e org tm db = Inr (row, db1)"
      "row = (template_copy e org tm)\<lparr>lv_id := lv_id row\<rparr>" "lv_id row \<notin> lv_id ` set (ld_values db)"
      "gained db row (label_rows_of db tm) (alias_rows_of db tm) db1" "edit (Some org) ty db db1"
      using copy_template_works [of db tm org e] ty by metis
    note g = gained_grown [OF one(4) ok one(3)]
    have idx: "value_index row = (ty, lv_code tm, Some org)"
      by (subst one(2)) (simp add: value_index_def ty)
    have "copy_of e org db db1 tm (lv_id row)"
      using one(2,3) g(2) gained_children(1,2) [OF one(4) ok one(3)]
      by (simp add: copy_of_def label_rows_of_def alias_rows_of_def)
    moreover have mem: "set (lacking own tms) \<subseteq> set (ld_values db)"
      using Cons.prems(3) s by (auto simp: lacking_def)
    moreover have "\<exists>s'. copy_loop e org own tms (db1, cps @ [(lv_id tm, lv_id row)]) = Inr s' \<and>
          copied e org ty (lacking own tms) (db1, cps @ [(lv_id tm, lv_id row)]) s'"
    proof (rule Cons.IH)
      show "lookup_ok (fst (db1, cps @ [(lv_id tm, lv_id row)]))"
        using editD(1) [OF one(5) ok] by simp
      show "org_type (fst (db1, cps @ [(lv_id tm, lv_id row)])) ty"
        using Cons.prems(2) s org_type_edit [OF one(5) ok] by simp
      show "set tms \<subseteq> set (ld_values (fst (db1, cps @ [(lv_id tm, lv_id row)])))"
        using Cons.prems(3) s g(2) by auto
      show "\<forall>tm\<in>set tms. lv_type tm = ty" "distinct (map lv_code tms)" using Cons.prems by auto
      show "\<forall>tm'\<in>set (lacking own tms). (ty, lv_code tm', Some org) \<notin>
              value_index ` set (ld_values (fst (db1, cps @ [(lv_id tm, lv_id row)])))"
        using Cons.prems(5,6) s lack g(2) idx by (auto simp: lacking_def) (metis image_eqI)
    qed
    ultimately obtain s' where "copy_loop e org own tms (db1, cps @ [(lv_id tm, lv_id row)]) = Inr s'"
      "copied e org ty (tm # lacking own tms) (db, cps) s'"
      using copied_Cons [OF one(5) g] by blast
    with False one(1) lack show ?thesis by (simp add: s)
  qed
qed

subsection \<open>The second pass\<close>

definition remap_row ::
    "lookup_value list \<Rightarrow> lookup_value list \<Rightarrow> (int \<times> int) list \<Rightarrow> lookup_value \<Rightarrow> lookup_value \<Rightarrow> lookup_value" where
  "remap_row templates own copies tm r =
     (if map_of copies (lv_id tm) = Some (lv_id r)
      then r\<lparr>lv_parent := or_held (org_row_for templates own copies (lv_parent tm)) (lv_parent r),
             lv_superseded := or_held (org_row_for templates own copies (lv_superseded tm))
                                (lv_superseded r)\<rparr>
      else r)"

lemma remap_copy_map:
  "remap_copy templates own copies tm db =
     db\<lparr>ld_values := map (remap_row templates own copies tm) (ld_values db)\<rparr>"
proof (cases "map_of copies (lv_id tm)")
  case None
  then have "remap_row templates own copies tm = (\<lambda>r. r)" by (simp add: fun_eq_iff remap_row_def)
  with None show ?thesis by (simp add: remap_copy_def)
next
  case (Some c)
  then show ?thesis by (auto simp: remap_copy_def remap_row_def update_where_def)
qed

lemma remap_fold_map:
  "fold (remap_copy templates own copies) tms db =
     db\<lparr>ld_values := map (fold (remap_row templates own copies) tms) (ld_values db)\<rparr>"
  by (induction tms arbitrary: db) (simp_all add: remap_copy_map comp_def)

lemma remap_row_id [simp]: "lv_id (remap_row templates own copies tm r) = lv_id r"
  by (simp add: remap_row_def)

lemma remap_others:
  "\<forall>tm\<in>set tms. map_of copies (lv_id tm) \<noteq> Some (lv_id r) \<Longrightarrow>
     fold (remap_row templates own copies) tms r = r"
  by (induction tms) (simp_all add: remap_row_def)

lemma remap_the_copy:
  assumes "tm \<in> set tms" "distinct tms" "map_of copies (lv_id tm) = Some (lv_id r)"
    and "\<forall>tm'\<in>set tms. map_of copies (lv_id tm') = Some (lv_id r) \<longrightarrow> tm' = tm"
  shows "fold (remap_row templates own copies) tms r = remap_row templates own copies tm r"
proof -
  from assms(1,2) obtain xs ys where tms: "tms = xs @ tm # ys" "tm \<notin> set xs" "tm \<notin> set ys"
    by (metis split_list distinct.simps(2) distinct_append not_distinct_conv_prefix)
  have "fold (remap_row templates own copies) xs r = r"
    using assms(4) tms by (intro remap_others) auto
  moreover have "fold (remap_row templates own copies) ys (remap_row templates own copies tm r) =
      remap_row templates own copies tm r"
    using assms(4) tms by (intro remap_others) auto
  ultimately show ?thesis by (simp add: tms)
qed

text \<open>The copies of the first pass, looked up by their template.\<close>

definition lack_rows :: "lookup_db \<Rightarrow> int \<Rightarrow> int \<Rightarrow> lookup_value list" where
  "lack_rows db ty org = lacking (own_rows db ty org) (template_rows db ty)"

definition first_pass ::
    "lookup_env \<Rightarrow> int \<Rightarrow> int \<Rightarrow> lookup_db \<Rightarrow> lookup_db \<Rightarrow> (int \<times> int) list \<Rightarrow> bool" where
  "first_pass e org ty db db1 copies =
     (lookup_ok db \<and> copied e org ty (lack_rows db ty org) (db, []) (db1, copies))"

lemma first_pass_facts:
  assumes fp: "first_pass e org ty db db1 copies"
  shows
  "edit (Some org) ty db db1" "grown db db1" "lookup_ok db1" "lookup_ok db"
  "lack_rows db ty org = [] \<Longrightarrow> db1 = db"
  "length (ld_values db1) = length (ld_values db) + length (lack_rows db ty org)"
  using fp editD(1) by (auto simp: copied_def first_pass_def)

lemma templates_distinct:
  assumes ok: "lookup_ok db"
  shows "distinct (map lv_id (template_rows db ty))" "distinct (map lv_code (template_rows db ty))"
proof -
  show "distinct (map lv_id (template_rows db ty))"
    using lookup_okD(1) [OF ok] by (simp add: template_rows_def distinct_map_filter)
  have "distinct (map value_index (template_rows db ty))"
    using lookup_okD(2) [OF ok] by (simp add: template_rows_def distinct_map_filter)
  then show "distinct (map lv_code (template_rows db ty))"
    by (auto simp: template_rows_def distinct_map inj_on_def value_index_def)
qed

lemma template_mem: "tm \<in> set (template_rows db ty) \<longleftrightarrow> tm \<in> set (ld_values db) \<and> lv_type tm = ty \<and> lv_org tm = None"
  by (auto simp: template_rows_def)

lemma copies_zip:
  assumes fp: "first_pass e org ty db db1 copies"
  obtains cs where "copies = zip (map lv_id (lack_rows db ty org)) cs"
    "list_all2 (copy_of e org db db1) (lack_rows db ty org) cs"
  using fp by (auto simp: copied_def first_pass_def)

lemma lack_mem: "tm \<in> set (lack_rows db ty org) \<longleftrightarrow> tm \<in> set (template_rows db ty) \<and>
     lv_code tm \<notin> lv_code ` set (own_rows db ty org)"
  by (auto simp: lack_rows_def lacking_def)

lemma lack_ids: "lookup_ok db \<Longrightarrow> distinct (map lv_id (lack_rows db ty org))"
  using templates_distinct(1) [of db ty] by (simp add: lack_rows_def lacking_def distinct_map_filter)

lemma copy_found:
  assumes fp: "first_pass e org ty db db1 copies" and tm: "tm \<in> set (lack_rows db ty org)"
  shows "\<exists>c. map_of copies (lv_id tm) = Some c \<and> copy_of e org db db1 tm c"
proof -
  obtain cs where cs: "copies = zip (map lv_id (lack_rows db ty org)) cs"
    "list_all2 (copy_of e org db db1) (lack_rows db ty org) cs"
    by (rule copies_zip [OF fp])
  from tm obtain n where n: "n < length (lack_rows db ty org)" "lack_rows db ty org ! n = tm" by (auto simp: in_set_conv_nth)
  have len: "length cs = length (lack_rows db ty org)" using cs(2) by (simp add: list_all2_lengthD)
  have "map_of copies (map lv_id (lack_rows db ty org) ! n) = Some (cs ! n)"
    unfolding cs(1) using lack_ids [OF first_pass_facts(4) [OF fp]] n(1) len by (intro map_of_zip_nth) auto
  with n len cs(2) show ?thesis by (auto simp: list_all2_conv_all_nth)
qed

lemma copies_keys:
  assumes fp: "first_pass e org ty db db1 copies"
  shows "fst ` set copies = lv_id ` set (lack_rows db ty org)"
proof -
  obtain cs where "copies = zip (map lv_id (lack_rows db ty org)) cs"
    "list_all2 (copy_of e org db db1) (lack_rows db ty org) cs"
    by (rule copies_zip [OF fp])
  then have "map fst copies = map lv_id (lack_rows db ty org)" by (simp add: list_all2_lengthD)
  then show ?thesis by (metis set_map)
qed

lemma no_copy:
  assumes fp: "first_pass e org ty db db1 copies" and "tm \<in> set (template_rows db ty)" "tm \<notin> set (lack_rows db ty org)"
  shows "map_of copies (lv_id tm) = None"
proof -
  have "lv_id tm \<notin> lv_id ` set (lack_rows db ty org)"
  proof
    assume "lv_id tm \<in> lv_id ` set (lack_rows db ty org)"
    then obtain u where u: "u \<in> set (lack_rows db ty org)" "lv_id u = lv_id tm" by auto
    with assms(2) templates_distinct(1) [OF first_pass_facts(4) [OF fp], of ty] have "u = tm" by (auto simp: lack_mem distinct_map inj_on_def)
    with u assms(3) show False by simp
  qed
  then show ?thesis by (simp add: map_of_eq_None_iff copies_keys [OF fp])
qed

lemma copy_unique:
  assumes fp: "first_pass e org ty db db1 copies" and "tm \<in> set (template_rows db ty)" "tm' \<in> set (template_rows db ty)"
    and "map_of copies (lv_id tm) = Some c" "map_of copies (lv_id tm') = Some c"
  shows "tm = tm'"
proof -
  have "tm \<in> set (lack_rows db ty org)" "tm' \<in> set (lack_rows db ty org)" using assms no_copy [OF fp] by fastforce+
  then have "copy_of e org db db1 tm c" "copy_of e org db db1 tm' c" using assms(4,5) copy_found [OF fp] by force+
  then have "lv_code tm = lv_code tm'"
    using same_id_same_row [OF first_pass_facts(3) [OF fp]] unfolding copy_of_def
    by (metis lookup_value.select_convs(1) lookup_value.surjective lookup_value.update_convs(1)
        lookup_value.ext_inject template_copy_def)
  with assms(2,3) templates_distinct(2) [OF first_pass_facts(4) [OF fp], of ty] show ?thesis by (auto simp: distinct_map inj_on_def)
qed

lemma copies_values:
  assumes fp: "first_pass e org ty db db1 copies" and c: "map_of copies i = Some c"
  shows "c \<notin> lv_id ` set (ld_values db) \<and> home_id (Some org) ty c db1"
proof -
  from c have "i \<in> lv_id ` set (lack_rows db ty org)" using copies_keys [OF fp] by (metis domI dom_map_of_conv_image_fst)
  then obtain tm where tm: "tm \<in> set (lack_rows db ty org)" "i = lv_id tm" by auto
  with c copy_found [OF fp] have cp: "copy_of e org db db1 tm c" by force
  moreover have "lv_type tm = ty" using tm by (simp add: lack_mem template_mem)
  ultimately show ?thesis using copy_of_names [OF cp] by (auto simp: copy_of_def home_id_names)
qed

subsection \<open>One type\<close>

lemma org_row_for_home:
  assumes fp: "first_pass e org ty db db1 copies"
    and r: "org_row_for (template_rows db ty) (own_rows db ty org) copies tid = Some i"
  shows "home_id (Some org) ty i db1"
proof (cases "map_of copies (the tid)")
  case None
  with r have "\<exists>code o'. row_by lv_code code (rev (own_rows db ty org)) = Some o' \<and> lv_id o' = i"
    by (fastforce simp: org_row_for_def split: option.splits)
  then have "home_id (Some org) ty i db"
    by (auto dest!: row_by_Some_iff simp: own_rows_def home_id_iff)
  then show ?thesis using editD(4) [OF first_pass_facts(1,4) [OF fp]] by blast
next
  case (Some c)
  with r have "i = c" by (auto simp: org_row_for_def split: option.splits)
  then show ?thesis using copies_values [OF fp Some] by simp
qed

text \<open>A template pointer, read in the organisation: its own row of the same code.\<close>

definition pointer_copied ::
    "lookup_db \<Rightarrow> lookup_db \<Rightarrow> int \<Rightarrow> int \<Rightarrow> int option \<Rightarrow> int option \<Rightarrow> bool" where
  "pointer_copied db db' ty org old new =
     (case old of
        None \<Rightarrow> new = None
      | Some p \<Rightarrow>
          \<exists>ref\<in>set (ld_values db). \<exists>i. lv_id ref = p \<and> new = Some i \<and>
            (i, ty, lv_code ref, Some org) \<in> row_names db')"

lemma org_row_for_copied:
  assumes fp: "first_pass e org ty db db1 copies"
    and old: "case old of None \<Rightarrow> True | Some p \<Rightarrow> home_id None ty p db"
  shows "pointer_copied db db1 ty org old
           (org_row_for (template_rows db ty) (own_rows db ty org) copies old)"
proof (cases old)
  case None
  then show ?thesis by (simp add: pointer_copied_def org_row_for_def)
next
  case (Some p)
  with old obtain ref where ref: "ref \<in> set (template_rows db ty)" "lv_id ref = p"
    by (auto simp: home_id_iff template_mem)
  let ?r = "org_row_for (template_rows db ty) (own_rows db ty org) copies old"
  have "\<exists>i. ?r = Some i \<and> (i, ty, lv_code ref, Some org) \<in> row_names db1"
  proof (cases "ref \<in> set (lack_rows db ty org)")
    case True
    from copy_found [OF fp True] obtain c where c: "map_of copies p = Some c" "copy_of e org db db1 ref c"
      using ref by auto
    then have "(c, ty, lv_code ref, Some org) \<in> row_names db1"
      using copy_of_names ref(1) by (auto simp: template_mem)
    with c(1) Some show ?thesis by (simp add: org_row_for_def)
  next
    case False
    with ref have code: "lv_code ref \<in> lv_code ` set (own_rows db ty org)"
      and no: "map_of copies p = None" using no_copy [OF fp ref(1)] by (auto simp: lack_mem)
    have row: "row_by lv_id p (template_rows db ty) = Some ref"
      using row_by_distinct [OF templates_distinct(1) [OF first_pass_facts(4) [OF fp]] ref(1)] ref(2) by simp
    from code obtain o' where o': "row_by lv_code (lv_code ref) (rev (own_rows db ty org)) = Some o'"
      by (cases "row_by lv_code (lv_code ref) (rev (own_rows db ty org))") (auto simp: row_by_None_iff)
    then have "(lv_id o', ty, lv_code ref, Some org) \<in> row_names db"
      by (auto dest!: row_by_Some_iff simp: own_rows_def row_names_def value_index_def image_iff)
    then show ?thesis
      using Some no row o' editD(5) [OF first_pass_facts(1,4) [OF fp]] by (auto simp: org_row_for_def)
  qed
  with Some ref show ?thesis by (auto simp: pointer_copied_def template_mem)
qed

lemma remap_edit:
  assumes fp: "first_pass e org ty db db1 copies"
  shows "edit (Some org) ty db1 (fold (remap_copy (template_rows db ty) (own_rows db ty org) copies) tms db1)"
proof (rule edits.fold_effect)
  fix tm s assume ed: "edit (Some org) ty db1 s"
  let ?remap = "remap_copy (template_rows db ty) (own_rows db ty org) copies tm s"
  note ok1 = first_pass_facts(3) [OF fp] and oks = editD(1) [OF ed first_pass_facts(3) [OF fp]]
  show "edit (Some org) ty s ?remap"
  proof (cases "map_of copies (lv_id tm)")
    case None
    then show ?thesis using edits.R_refl by (simp add: remap_copy_def)
  next
    case (Some c)
    show ?thesis
      unfolding remap_copy_def Some option.case
    proof (rule update_values_edit)
      fix r assume r: "r \<in> set (ld_values s)" "lv_id r = c"
      have "home_id (Some org) ty c s" using copies_values [OF fp Some] editD(4) [OF ed ok1] by blast
      with r oks have here: "lv_org r = Some org" "lv_type r = ty"
        using same_id_same_row [OF oks] by (auto simp: home_id_iff)
      let ?r = "r\<lparr>lv_parent := or_held (org_row_for (template_rows db ty) (own_rows db ty org) copies
                     (lv_parent tm)) (lv_parent r),
                   lv_superseded := or_held (org_row_for (template_rows db ty) (own_rows db ty org) copies
                     (lv_superseded tm)) (lv_superseded r)\<rparr>"
      have "points_home s ?r"
        using lookup_okD(7) [OF oks r(1)] org_row_for_home [OF fp] editD(4) [OF ed ok1] here
        by (auto simp: points_home_iff or_held_def split: option.splits)
      with here show "lv_id ?r = lv_id r \<and> value_index ?r = value_index r \<and>
          \<not> outside (Some org) ty r \<and> points_home s ?r"
        by (simp add: outside_def value_index_def)
    qed
  qed
qed

text \<open>One copied template, as it stands when the call returns.\<close>

definition seeded_copy :: "lookup_env \<Rightarrow> int \<Rightarrow> lookup_db \<Rightarrow> lookup_db \<Rightarrow> lookup_value \<Rightarrow> bool" where
  "seeded_copy e org db db' tm =
     (\<exists>row\<in>set (ld_values db'). lv_id row \<notin> lv_id ` set (ld_values db) \<and>
        row = (template_copy e org tm)\<lparr>lv_id := lv_id row, lv_parent := lv_parent row,
                 lv_superseded := lv_superseded row\<rparr> \<and>
        label_rows_of db' row = label_rows_of db tm \<and> alias_rows_of db' row = alias_rows_of db tm \<and>
        pointer_copied db db' (lv_type tm) org (lv_parent tm) (lv_parent row) \<and>
        pointer_copied db db' (lv_type tm) org (lv_superseded tm) (lv_superseded row))"

lemma second_pass:
  assumes fp: "first_pass e org ty db db1 copies"
    and db2: "db2 = fold (remap_copy (template_rows db ty) (own_rows db ty org) copies)
                      (template_rows db ty) db1"
  shows "edit (Some org) ty db db2" "grown db db2"
    "length (ld_values db2) = length (ld_values db) + length (lack_rows db ty org)"
    "\<And>tm. tm \<in> set (lack_rows db ty org) \<Longrightarrow> seeded_copy e org db db2 tm"
proof -
  let ?F = "fold (remap_row (template_rows db ty) (own_rows db ty org) copies) (template_rows db ty)"
  note facts = first_pass_facts [OF fp]
  have db2': "db2 = db1\<lparr>ld_values := map ?F (ld_values db1)\<rparr>" by (simp add: db2 remap_fold_map)
  have child: "translations_of db2 v = translations_of db1 v" "aliases_of db2 v = aliases_of db1 v" for v
    by (simp_all add: db2' translations_of_def aliases_of_def)
  have old: "?F v = v" if "v \<in> set (ld_values db)" for v
    using copies_values [OF fp] that by (intro remap_others) blast
  show "edit (Some org) ty db db2" unfolding db2 by (rule edits.R_trans [OF facts(1) remap_edit [OF fp]])
  show "length (ld_values db2) = length (ld_values db) + length (lack_rows db ty org)"
    using facts(6) by (simp add: db2')
  from facts(2) obtain vs where vs: "ld_values db1 = ld_values db @ vs" by (auto simp: grown_def)
  have "map ?F (ld_values db) = ld_values db" using old by (simp add: map_idI)
  then show "grown db db2"
    using facts(2) by (auto simp: grown_def same_children_def child db2' vs translations_of_def aliases_of_def)
  fix tm assume tm: "tm \<in> set (lack_rows db ty org)"
  then have tmt: "tm \<in> set (template_rows db ty)" by (simp add: lack_mem)
  then have tmv: "tm \<in> set (ld_values db)" "lv_type tm = ty" "lv_org tm = None" by (auto simp: template_mem)
  from copy_found [OF fp tm] obtain c where c: "map_of copies (lv_id tm) = Some c"
    and cp: "copy_of e org db db1 tm c" by blast
  let ?row = "(template_copy e org tm)\<lparr>lv_id := c\<rparr>"
  let ?new = "remap_row (template_rows db ty) (own_rows db ty org) copies tm ?row"
  from cp have row: "?row \<in> set (ld_values db1)" "c \<notin> lv_id ` set (ld_values db)"
    "label_rows_of db1 ?row = label_rows_of db tm" "alias_rows_of db1 ?row = alias_rows_of db tm"
    by (auto simp: copy_of_def)
  have "?F ?row = ?new"
  proof (rule remap_the_copy [OF tmt])
    show "distinct (template_rows db ty)"
      using templates_distinct(1) [OF facts(4), of ty] by (simp add: distinct_map)
    show "map_of copies (lv_id tm) = Some (lv_id ?row)" using c by simp
    show "\<forall>tm'\<in>set (template_rows db ty). map_of copies (lv_id tm') = Some (lv_id ?row) \<longrightarrow> tm' = tm"
      using copy_unique [OF fp _ tmt _ c] by simp
  qed
  then have mem: "?new \<in> set (ld_values db2)" using row(1) by (force simp: db2')
  have names: "row_names db1 \<subseteq> row_names db2"
    using editD(5) [OF remap_edit [OF fp] facts(3)] by (simp add: db2)
  have ptr: "pointer_copied db db2 ty org old
      (org_row_for (template_rows db ty) (own_rows db ty org) copies old)"
    if "old = lv_parent tm \<or> old = lv_superseded tm" for old
  proof -
    have "case old of None \<Rightarrow> True | Some p \<Rightarrow> home_id None ty p db"
      using lookup_okD(7) [OF facts(4) tmv(1)] tmv(2,3) that by (auto simp: points_home_iff split: option.splits)
    from org_row_for_copied [OF fp this] names show ?thesis
      by (auto simp: pointer_copied_def split: option.splits)
  qed
  have kids: "label_rows_of db2 ?new = label_rows_of db1 ?row" "alias_rows_of db2 ?new = alias_rows_of db1 ?row"
    by (simp_all add: label_rows_of_def alias_rows_of_def db2' translations_of_def aliases_of_def)
  have ptrs: "lv_parent ?new = org_row_for (template_rows db ty) (own_rows db ty org) copies (lv_parent tm)"
    "lv_superseded ?new = org_row_for (template_rows db ty) (own_rows db ty org) copies (lv_superseded tm)"
    by (simp_all add: remap_row_def c or_held_def template_copy_def split: option.splits)
  have "?new = (template_copy e org tm)\<lparr>lv_id := lv_id ?new, lv_parent := lv_parent ?new,
                 lv_superseded := lv_superseded ?new\<rparr>"
    by (simp add: remap_row_def template_copy_def)
  then show "seeded_copy e org db db2 tm"
    unfolding seeded_copy_def
    using mem row kids ptr [of "lv_parent tm"] ptr [of "lv_superseded tm"] ptrs tmv(2)
    by (intro bexI [OF _ mem]) simp
qed

end
