(* ===== verification/LookupFileSeed.thy ===== *)
theory LookupFileSeed
  imports LookupOrgSeed
begin

text \<open>\<open>seed_org_lookups\<close> over all types: total, additive, complete, idempotent.\<close>

lemma lack_rows_same:
  "same_where (\<lambda>v. lv_type v = ty) db db' \<Longrightarrow> lack_rows db' ty org = lack_rows db ty org"
proof -
  assume "same_where (\<lambda>v. lv_type v = ty) db db'"
  then have *: "filter (\<lambda>v. lv_type v = ty) (ld_values db') = filter (\<lambda>v. lv_type v = ty) (ld_values db)"
    by (simp add: same_where_def)
  have "filter (\<lambda>v. lv_type v = ty \<and> Q v) xs = filter Q (filter (\<lambda>v. lv_type v = ty) xs)" for Q xs
    by (simp add: conj_commute)
  then have "filter (\<lambda>v. lv_type v = ty \<and> Q v) (ld_values db') =
        filter (\<lambda>v. lv_type v = ty \<and> Q v) (ld_values db)" for Q
    using * by metis
  then show ?thesis by (simp add: lack_rows_def template_rows_def own_rows_def)
qed

definition type_names :: "lookup_db \<Rightarrow> (int \<times> type_scope) list" where
  "type_names db = map (\<lambda>t. (lt_id t, lt_scope t)) (ld_types db)"

lemma bump_names [simp]: "type_names (bump_version t db) = type_names db"
  by (auto simp: type_names_def bump_version_def intro: map_update_where)

lemma org_type_names: "org_type db ty \<longleftrightarrow> (ty, OrgScope) \<in> set (type_names db)"
  by (auto simp: org_type_def type_names_def list_ex_iff)

text \<open>What one type's turn does.\<close>

definition type_seeded :: "lookup_env \<Rightarrow> int \<Rightarrow> int \<Rightarrow> lookup_db \<Rightarrow> nat \<times> lookup_db \<Rightarrow> bool" where
  "type_seeded e org ty db out =
     (moved (Some org) db (snd out) \<and> grown db (snd out) \<and> type_names (snd out) = type_names db \<and>
      length (ld_values (snd out)) = length (ld_values db) + fst out \<and>
      fst out = length (lack_rows db ty org) \<and> (fst out = 0 \<longrightarrow> snd out = db) \<and>
      same_where (\<lambda>v. lv_type v \<noteq> ty) db (snd out) \<and>
      (\<forall>tm\<in>set (lack_rows db ty org). seeded_copy e org db (snd out) tm))"

lemma grown_bump [simp]: "grown db (bump_version t db') = grown db db'"
  by (simp add: grown_def bump_version_def same_children_def translations_of_def aliases_of_def)

lemma row_names_bump [simp]: "row_names (bump_version t db) = row_names db"
  by (simp add: row_names_def bump_version_def)

lemma seeded_copy_bump [simp]:
  "seeded_copy e org db (bump_version t db') tm = seeded_copy e org db db' tm"
  by (simp add: seeded_copy_def pointer_copied_def label_rows_of_def alias_rows_of_def
      translations_of_def aliases_of_def bump_version_def row_names_def cong: option.case_cong)

lemma seed_org_type_works:
  assumes ok: "lookup_ok db" and org: "org_type db (lt_id t)"
  shows "\<exists>out. seed_org_type e org t db = Inr out \<and> type_seeded e org (lt_id t) db out"
proof -
  let ?ty = "lt_id t"
  let ?tms = "template_rows db ?ty" and ?own = "own_rows db ?ty org"
  have "\<exists>s'. copy_loop e org ?own ?tms (db, []) = Inr s' \<and>
             copied e org ?ty (lacking ?own ?tms) (db, []) s'"
  proof (rule copy_loop_works)
    show "lookup_ok (fst (db, []))" "org_type (fst (db, [])) ?ty" using ok org by simp_all
    show "set ?tms \<subseteq> set (ld_values (fst (db, [])))" "\<forall>tm\<in>set ?tms. lv_type tm = ?ty"
      by (auto simp: template_rows_def)
    show "distinct (map lv_code ?tms)" by (rule templates_distinct(2) [OF ok])
    show "\<forall>tm\<in>set (lacking ?own ?tms).
        (?ty, lv_code tm, Some org) \<notin> value_index ` set (ld_values (fst (db, [])))"
      by (auto simp: lacking_def own_rows_def value_index_def image_iff)
  qed
  then obtain db1 copies where run: "copy_loop e org ?own ?tms (db, []) = Inr (db1, copies)"
    and "copied e org ?ty (lacking ?own ?tms) (db, []) (db1, copies)" by auto
  with ok have fp: "first_pass e org ?ty db db1 copies" by (simp add: first_pass_def lack_rows_def)
  define db2 where "db2 = fold (remap_copy ?tms ?own copies) ?tms db1"
  note two = second_pass [OF fp db2_def]
  have len: "length copies = length (lack_rows db ?ty org)"
    using copies_zip [OF fp] by (metis length_map length_zip list_all2_lengthD min.idem)
  have out: "seed_org_type e org t db =
      Inr (length copies, if copies \<noteq> [] then bump_version t db2 else db2)"
    by (simp add: seed_org_type_def Let_def run db2_def)
  have frame: "same_where (\<lambda>v. lv_type v \<noteq> ?ty) db db2"
    using editD(3) [OF two(1) ok] by (rule same_where_mono) (simp add: outside_def)
  show ?thesis
  proof (cases "copies = []")
    case True
    then have "lack_rows db ?ty org = []" using len by simp
    then have "db1 = db" by (rule first_pass_facts(5) [OF fp])
    moreover have "fold (remap_copy ?tms ?own []) xs db = db" for xs
      by (induction xs) (simp_all add: remap_copy_def)
    ultimately have "db2 = db" by (simp add: db2_def True)
    with True len out show ?thesis
      by (simp add: type_seeded_def moves.R_refl grows.R_refl)
  next
    case False
    have "moved (Some org) db (bump_version t db2)" by (rule bumped_moved [OF ok two(1)])
    moreover have "lack_rows db ?ty org \<noteq> []" using False len by auto
    moreover have "type_names db2 = type_names db" using editD(2) [OF two(1) ok] by (simp add: type_names_def)
    ultimately have "type_seeded e org ?ty db (length copies, bump_version t db2)"
      using two False len frame
      by (simp add: type_seeded_def) (simp add: bump_version_def)
    with False out show ?thesis by simp
  qed
qed

lemma seeded_copy_later:
  assumes "seeded_copy e org db db1 tm" "grown db1 db2" "row_names db1 \<subseteq> row_names db2"
  shows "seeded_copy e org db db2 tm"
proof -
  from assms(1) obtain row where row: "row \<in> set (ld_values db1)" "lv_id row \<notin> lv_id ` set (ld_values db)"
    "row = (template_copy e org tm)\<lparr>lv_id := lv_id row, lv_parent := lv_parent row,
                 lv_superseded := lv_superseded row\<rparr>"
    "label_rows_of db1 row = label_rows_of db tm" "alias_rows_of db1 row = alias_rows_of db tm"
    "pointer_copied db db1 (lv_type tm) org (lv_parent tm) (lv_parent row)"
    "pointer_copied db db1 (lv_type tm) org (lv_superseded tm) (lv_superseded row)"
    unfolding seeded_copy_def by blast
  have ptr: "pointer_copied db db1 ty org x y \<Longrightarrow> pointer_copied db db2 ty org x y" for ty x y
    using assms(3) by (auto simp: pointer_copied_def split: option.splits)
  show ?thesis
    unfolding seeded_copy_def
    using row grown_rows_of [OF assms(2) row(1)] grown_values [OF assms(2) row(1)] ptr
    by (intro bexI [of _ row]) auto
qed

lemma seeded_copy_earlier:
  assumes later: "seeded_copy e org db1 db2 tm" and g: "grown db db1" and ok: "lookup_ok db" "lookup_ok db1"
    and tm: "tm \<in> set (ld_values db)"
  shows "seeded_copy e org db db2 tm"
proof -
  have ptr: "pointer_copied db db2 ty org p y"
    if copied: "pointer_copied db1 db2 ty org p y" and p: "p = lv_parent tm \<or> p = lv_superseded tm"
    for ty p y
  proof (cases p)
    case None
    with copied show ?thesis by (simp add: pointer_copied_def)
  next
    case (Some i)
    then have "home_id (lv_org tm) (lv_type tm) i db"
      using lookup_okD(7) [OF ok(1) tm] p unfolding points_home_iff by metis
    then obtain ref where ref: "ref \<in> set (ld_values db)" "lv_id ref = i" by (auto simp: home_id_iff)
    then have "r = ref" if "r \<in> set (ld_values db1)" "lv_id r = i" for r
      using same_id_same_row [OF ok(2) that(1) grown_values [OF g ref(1)]] that by simp
    with copied Some ref show ?thesis by (auto simp: pointer_copied_def)
  qed
  from later obtain row where row: "row \<in> set (ld_values db2)" "lv_id row \<notin> lv_id ` set (ld_values db1)"
    "row = (template_copy e org tm)\<lparr>lv_id := lv_id row, lv_parent := lv_parent row,
                 lv_superseded := lv_superseded row\<rparr>"
    "label_rows_of db2 row = label_rows_of db1 tm" "alias_rows_of db2 row = alias_rows_of db1 tm"
    "pointer_copied db1 db2 (lv_type tm) org (lv_parent tm) (lv_parent row)"
    "pointer_copied db1 db2 (lv_type tm) org (lv_superseded tm) (lv_superseded row)"
    unfolding seeded_copy_def by blast
  moreover have "lv_id row \<notin> lv_id ` set (ld_values db)" using row(2) grown_values [OF g] by auto
  ultimately show ?thesis
    unfolding seeded_copy_def
    using grown_rows_of [OF g tm] ptr [of "lv_type tm" "lv_parent tm"] ptr [of "lv_type tm" "lv_superseded tm"]
    by (intro bexI [of _ row]) simp_all
qed

text \<open>What the whole call does, over the types it visits.\<close>

definition org_seeded ::
    "lookup_env \<Rightarrow> int \<Rightarrow> lookup_type list \<Rightarrow> lookup_db \<Rightarrow> nat \<times> lookup_db \<Rightarrow> bool" where
  "org_seeded e org ts db out =
     (moved (Some org) db (snd out) \<and> grown db (snd out) \<and> type_names (snd out) = type_names db \<and>
      length (ld_values (snd out)) = length (ld_values db) + fst out \<and>
      fst out = sum_list (map (\<lambda>t. length (lack_rows db (lt_id t) org)) ts) \<and>
      (fst out = 0 \<longrightarrow> snd out = db) \<and>
      (\<forall>t\<in>set ts. \<forall>tm\<in>set (lack_rows db (lt_id t) org). seeded_copy e org db (snd out) tm))"

lemma seed_org_loop_works:
  assumes "lookup_ok db" "\<forall>t\<in>set ts. org_type db (lt_id t)" "distinct (map lt_id ts)"
  shows "\<exists>n db'. seed_org_loop e org ts (k, db) = Inr (k + n, db') \<and> org_seeded e org ts db (n, db')"
  using assms
proof (induction ts arbitrary: k db)
  case Nil
  have "org_seeded e org [] db (0, db)" by (simp add: org_seeded_def moves.R_refl grows.R_refl)
  then show ?case by (intro exI [of _ 0] exI [of _ db]) simp
next
  case (Cons t ts)
  from Cons.prems have ok: "lookup_ok db" and "org_type db (lt_id t)" by auto
  then obtain n1 db1 where one: "seed_org_type e org t db = Inr (n1, db1)"
    "type_seeded e org (lt_id t) db (n1, db1)"
    using seed_org_type_works [OF ok, where t = t and e = e and org = org] by auto
  have s1: "moved (Some org) db db1" "grown db db1" "type_names db1 = type_names db"
    "length (ld_values db1) = length (ld_values db) + n1" "n1 = length (lack_rows db (lt_id t) org)"
    "n1 = 0 \<longrightarrow> db1 = db" "same_where (\<lambda>v. lv_type v \<noteq> lt_id t) db db1"
    "\<forall>tm\<in>set (lack_rows db (lt_id t) org). seeded_copy e org db db1 tm"
    using one(2) by (simp_all add: type_seeded_def)
  have ok1: "lookup_ok db1" by (rule movedD(1) [OF s1(1) ok])
  have lack: "lack_rows db1 (lt_id u) org = lack_rows db (lt_id u) org" if "u \<in> set ts" for u
  proof (rule lack_rows_same)
    have "lt_id u \<noteq> lt_id t" using Cons.prems(3) that by (auto simp: image_iff)
    then show "same_where (\<lambda>v. lv_type v = lt_id u) db db1"
      using s1(7) by (auto intro: same_where_mono)
  qed
  obtain n2 db2 where two: "seed_org_loop e org ts (k + n1, db1) = Inr (k + n1 + n2, db2)"
    "org_seeded e org ts db1 (n2, db2)"
    using Cons.IH [OF ok1, of "k + n1"] Cons.prems(2,3) s1(3) by (auto simp: org_type_names)
  have s2: "moved (Some org) db1 db2" "grown db1 db2" "type_names db2 = type_names db1"
    "length (ld_values db2) = length (ld_values db1) + n2"
    "n2 = sum_list (map (\<lambda>t. length (lack_rows db1 (lt_id t) org)) ts)" "n2 = 0 \<longrightarrow> db2 = db1"
    "\<forall>t\<in>set ts. \<forall>tm\<in>set (lack_rows db1 (lt_id t) org). seeded_copy e org db1 db2 tm"
    using two(2) by (simp_all add: org_seeded_def)
  have sum: "n2 = sum_list (map (\<lambda>t. length (lack_rows db (lt_id t) org)) ts)"
    unfolding s2(5) using lack by (intro arg_cong [where f = sum_list]) simp
  have copies: "seeded_copy e org db db2 tm" if "u \<in> set (t # ts)" "tm \<in> set (lack_rows db (lt_id u) org)" for u tm
  proof (cases "u \<in> set ts")
    case True
    have "tm \<in> set (ld_values db)" using that(2) by (simp add: lack_mem template_mem)
    then show ?thesis
      using seeded_copy_earlier [OF _ s1(2) ok ok1] s2(7) True that(2) lack [OF True] by auto
  next
    case False
    then show ?thesis
      using that s1(8) seeded_copy_later [OF _ s2(2) movedD(4) [OF s2(1) ok1]] by auto
  qed
  have "org_seeded e org (t # ts) db (n1 + n2, db2)"
    unfolding org_seeded_def fst_conv snd_conv
    using moves.R_trans [OF s1(1) s2(1)] grown_trans [OF s1(2) s2(2)] s1(3-6) s2(3,4,6) sum copies
    by (intro conjI) auto
  then show ?case
    by (intro exI [of _ "n1 + n2"] exI [of _ db2]) (simp add: one(1) two(1) add.assoc)
qed

definition org_types :: "lookup_db \<Rightarrow> lookup_type list" where
  "org_types db = filter (\<lambda>t. lt_scope t = OrgScope) (ld_types db)"

lemma seed_org_works:
  assumes ok: "lookup_ok db"
  obtains n db' where "seed_org_lookups e db org = (Inr n, db')" "org_seeded e org (org_types db) db (n, db')"
proof -
  have "\<forall>t\<in>set (org_types db). org_type db (lt_id t)"
    by (auto simp: org_types_def org_type_def list_ex_iff)
  moreover have "distinct (map lt_id (org_types db))"
    using lookup_okD(3) [OF ok] by (simp add: org_types_def distinct_map_filter)
  ultimately show thesis
    using seed_org_loop_works [OF ok, where ts = "org_types db" and org = org and e = e and k = 0] that
    by (auto simp: seed_org_lookups_def org_types_def)
qed

text \<open>After the call the organisation has a row for every template code, so nothing is lacking.\<close>

lemma nothing_lacking_after:
  assumes ok: "lookup_ok db" and s: "org_seeded e org ts db (n, db')" and t: "t \<in> set ts"
  shows "lack_rows db' (lt_id t) org = []"
proof -
  have m: "moved (Some org) db db'" and g: "grown db db'"
    and copies: "\<And>tm. tm \<in> set (lack_rows db (lt_id t) org) \<Longrightarrow> seeded_copy e org db db' tm"
    using s t by (auto simp: org_seeded_def)
  have "tm \<notin> set (lack_rows db' (lt_id t) org)" for tm
  proof
    assume "tm \<in> set (lack_rows db' (lt_id t) org)"
    then have tm: "tm \<in> set (ld_values db')" "lv_type tm = lt_id t" "lv_org tm = None"
      "lv_code tm \<notin> lv_code ` set (own_rows db' (lt_id t) org)"
      by (auto simp: lack_mem template_mem)
    have "filter (\<lambda>v. lv_org v \<noteq> Some org) (ld_values db') = filter (\<lambda>v. lv_org v \<noteq> Some org) (ld_values db)"
      using movedD(2) [OF m ok] by (simp add: same_where_def)
    with tm(1,3) have mem: "tm \<in> set (ld_values db)"
      by (metis (mono_tags, lifting) filter_set mem_Collect_eq option.distinct(1) set_filter)
    show False
    proof (cases "tm \<in> set (lack_rows db (lt_id t) org)")
      case True
      from copies [OF True] obtain row where row: "row \<in> set (ld_values db')"
        "row = (template_copy e org tm)\<lparr>lv_id := lv_id row, lv_parent := lv_parent row,
                 lv_superseded := lv_superseded row\<rparr>"
        unfolding seeded_copy_def by blast
      have "lv_code row = lv_code tm" "lv_type row = lt_id t" "lv_org row = Some org"
        by (subst row(2); simp add: tm(2))+
      with row(1) tm(4) show False by (auto simp: own_rows_def image_iff)
    next
      case False
      with mem tm obtain o' where "o' \<in> set (ld_values db)" "lv_type o' = lt_id t"
        "lv_org o' = Some org" "lv_code o' = lv_code tm"
        by (auto simp: lack_mem template_mem own_rows_def)
      with tm(4) grown_values [OF g] show False by (auto simp: own_rows_def image_iff)
    qed
  qed
  then show ?thesis by (metis list.set_intros(1) neq_Nil_conv)
qed


text \<open>
  Seeding a loaded file: it never fails half way, what a deployment edited survives it, and a
  second run changes nothing.
\<close>

subsection \<open>What a seed may do to a row\<close>

text \<open>
  An existing row keeps everything but absent meta keys and absent pointers; a row that has a
  label keeps all its labels and aliases.
\<close>

definition filled :: "'a option \<Rightarrow> 'a option \<Rightarrow> bool" where
  "filled old new = (old = None \<or> new = old)"

definition topped_up :: "lookup_value \<Rightarrow> lookup_value \<Rightarrow> bool" where
  "topped_up v v' =
     (v' = v\<lparr>lv_meta := lv_meta v', lv_parent := lv_parent v', lv_superseded := lv_superseded v'\<rparr> \<and>
      (\<forall>k x. dget (meta_or_empty (lv_meta v)) k = Some x \<longrightarrow>
             dget (meta_or_empty (lv_meta v')) k = Some x) \<and>
      filled (lv_parent v) (lv_parent v') \<and> filled (lv_superseded v) (lv_superseded v'))"

definition seed_keeps :: "lookup_db \<Rightarrow> lookup_db \<Rightarrow> bool" where
  "seed_keeps db db' =
     (\<forall>v\<in>set (ld_values db). \<exists>v'\<in>set (ld_values db'). topped_up v v' \<and>
        (translations_of db v \<noteq> [] \<longrightarrow> same_children db db' v))"

lemma topped_up_refl [simp]: "topped_up v v"
  by (simp add: topped_up_def filled_def)

lemma topped_up_id: "topped_up v v' \<Longrightarrow> lv_id v' = lv_id v \<and> value_index v' = value_index v"
proof -
  assume "topped_up v v'"
  then have *: "v' = v\<lparr>lv_meta := lv_meta v', lv_parent := lv_parent v', lv_superseded := lv_superseded v'\<rparr>"
    by (simp add: topped_up_def)
  show ?thesis by (subst (1 2) *) (simp add: value_index_def)
qed

lemma topped_up_trans:
  assumes "topped_up a b" "topped_up b c"
  shows "topped_up a c"
proof -
  have b: "b = a\<lparr>lv_meta := lv_meta b, lv_parent := lv_parent b, lv_superseded := lv_superseded b\<rparr>"
    and c: "c = b\<lparr>lv_meta := lv_meta c, lv_parent := lv_parent c, lv_superseded := lv_superseded c\<rparr>"
    using assms by (auto simp: topped_up_def)
  have "c = a\<lparr>lv_meta := lv_meta c, lv_parent := lv_parent c, lv_superseded := lv_superseded c\<rparr>"
    by (subst c, subst b) simp
  with assms show ?thesis by (auto simp: topped_up_def filled_def)
qed

lemma children_by_id:
  "lv_id u = lv_id v \<Longrightarrow> translations_of db u = translations_of db v \<and> aliases_of db u = aliases_of db v"
  by (simp add: translations_of_def aliases_of_def)

lemma seed_keeps_trans:
  assumes "seed_keeps a b" "seed_keeps b c"
  shows "seed_keeps a c"
  unfolding seed_keeps_def
proof
  fix v assume "v \<in> set (ld_values a)"
  then obtain v' where v': "v' \<in> set (ld_values b)" "topped_up v v'"
    "translations_of a v \<noteq> [] \<longrightarrow> same_children a b v" using assms(1) by (auto simp: seed_keeps_def)
  then obtain v'' where v'': "v'' \<in> set (ld_values c)" "topped_up v' v''"
    "translations_of b v' \<noteq> [] \<longrightarrow> same_children b c v'" using assms(2) by (auto simp: seed_keeps_def)
  have "lv_id v' = lv_id v" using topped_up_id [OF v'(2)] by simp
  then have "translations_of a v \<noteq> [] \<longrightarrow> same_children a c v"
    using v'(3) v''(3) children_by_id [of v' v] by (auto simp: same_children_def)
  with topped_up_trans [OF v'(2) v''(2)] v''(1)
  show "\<exists>v''\<in>set (ld_values c). topped_up v v'' \<and> (translations_of a v \<noteq> [] \<longrightarrow> same_children a c v)"
    by blast
qed

text \<open>A step of a seed inside type \<open>ty\<close>, with the number of changes it reports.\<close>

definition sown :: "int \<Rightarrow> nat \<times> lookup_db \<Rightarrow> nat \<times> lookup_db \<Rightarrow> bool" where
  "sown ty s s' =
     (edit None ty (snd s) (snd s') \<and> (lookup_ok (snd s) \<longrightarrow> seed_keeps (snd s) (snd s')) \<and>
      fst s \<le> fst s' \<and> (fst s' = fst s \<longrightarrow> snd s' = snd s \<or> fst s \<noteq> 0))"

lemma sown_refl: "sown ty s s"
  using edits.R_refl by (auto simp: sown_def seed_keeps_def same_children_def intro: topped_up_refl)

interpretation sows: effect "sown ty"
proof
  show "sown ty s s" for s by (rule sown_refl)
  fix a b c assume ab: "sown ty a b" and bc: "sown ty b c"
  have "edit None ty (snd a) (snd c)"
    using edits.R_trans ab bc unfolding sown_def by blast
  moreover have "seed_keeps (snd a) (snd c)" if ok: "lookup_ok (snd a)"
  proof -
    have "lookup_ok (snd b)" using ab ok editD(1) unfolding sown_def by blast
    with ab bc ok show ?thesis unfolding sown_def using seed_keeps_trans by blast
  qed
  moreover have "fst a \<le> fst c" "fst c = fst a \<longrightarrow> snd c = snd a \<or> fst a \<noteq> 0"
    using ab bc unfolding sown_def by auto
  ultimately show "sown ty a c" unfolding sown_def by blast
qed

lemma sownD:
  assumes "sown ty s s'" "lookup_ok (snd s)"
  shows "edit None ty (snd s) (snd s')" "lookup_ok (snd s')" "seed_keeps (snd s) (snd s')"
    "fst s = 0 \<Longrightarrow> fst s' = 0 \<Longrightarrow> snd s' = snd s"
  using assms editD(1) by (auto simp: sown_def)

subsection \<open>Rows of the platform\<close>

lemma platform_row_iff:
  assumes ok: "lookup_ok db"
  shows "platform_row db ty code = Some r \<longleftrightarrow>
     r \<in> set (ld_values db) \<and> value_index r = (ty, code, None)"
proof
  assume "platform_row db ty code = Some r"
  then show "r \<in> set (ld_values db) \<and> value_index r = (ty, code, None)"
    unfolding platform_row_def by (auto dest!: first_where_Some simp: value_index_def)
next
  assume r: "r \<in> set (ld_values db) \<and> value_index r = (ty, code, None)"
  then obtain q where q: "platform_row db ty code = Some q"
    by (cases "platform_row db ty code") (auto simp: platform_row_def first_where_None value_index_def)
  then have "q \<in> set (ld_values db)" "value_index q = value_index r"
    using r unfolding platform_row_def by (auto dest!: first_where_Some simp: value_index_def)
  with r lookup_okD(2) [OF ok] have "q = r" by (auto simp: distinct_map inj_on_def)
  with q show "platform_row db ty code = Some r" by simp
qed

lemma platform_row_None:
  "platform_row db ty code = None \<longleftrightarrow> (ty, code, None) \<notin> value_index ` set (ld_values db)"
  by (auto simp: platform_row_def first_where_None value_index_def image_iff) (metis not_None_eq)

lemma platform_row_kept:
  assumes "seed_keeps db db'" "lookup_ok db" "lookup_ok db'" "platform_row db ty code = Some r"
  obtains r' where "platform_row db' ty code = Some r'" "topped_up r r'"
    "translations_of db r \<noteq> [] \<Longrightarrow> translations_of db' r' \<noteq> []"
proof -
  from assms(2,4) have r: "r \<in> set (ld_values db)" "value_index r = (ty, code, None)"
    by (auto simp: platform_row_iff)
  with assms(1) obtain r' where r': "r' \<in> set (ld_values db')" "topped_up r r'"
    "translations_of db r \<noteq> [] \<longrightarrow> same_children db db' r" by (auto simp: seed_keeps_def)
  have "translations_of db r \<noteq> [] \<Longrightarrow> translations_of db' r' \<noteq> []"
    using r'(3) children_by_id [of r' r db'] topped_up_id [OF r'(2)] by (auto simp: same_children_def)
  moreover have "platform_row db' ty code = Some r'"
    using r' topped_up_id [OF r'(2)] r(2) assms(3) by (simp add: platform_row_iff)
  ultimately show thesis using r'(2) that by blast
qed

subsection \<open>One value\<close>

lemma seed_keeps_values:
  assumes "\<And>v. v \<in> set (ld_values db) \<Longrightarrow> v \<in> set (ld_values db')"
    and "\<And>v. v \<in> set (ld_values db) \<Longrightarrow> translations_of db v \<noteq> [] \<Longrightarrow> same_children db db' v"
  shows "seed_keeps db db'"
  using assms by (auto simp: seed_keeps_def intro!: bexI)

definition planted :: "lookup_db \<Rightarrow> int \<Rightarrow> seed_value \<Rightarrow> bool" where
  "planted db ty v =
     (\<exists>r. platform_row db ty (sv_code v) = Some r \<and> translations_of db r \<noteq> [] \<and>
          fst ` set (sv_meta v) \<subseteq> fst ` set (meta_or_empty (lv_meta r)))"

definition seedable :: "seed_value \<Rightarrow> bool" where
  "seedable v = (sv_translations v \<noteq> [] \<and> distinct (map ti_lang (sv_translations v)))"

lemma topped_keys:
  assumes "topped_up r r'"
  shows "fst ` set (meta_or_empty (lv_meta r)) \<subseteq> fst ` set (meta_or_empty (lv_meta r'))"
proof
  fix k assume "k \<in> fst ` set (meta_or_empty (lv_meta r))"
  then obtain x where "dget (meta_or_empty (lv_meta r)) k = Some x"
    by (cases "dget (meta_or_empty (lv_meta r)) k") (auto simp: dget_map_of map_of_eq_None_iff)
  with assms have "dget (meta_or_empty (lv_meta r')) k = Some x" by (simp add: topped_up_def)
  then show "k \<in> fst ` set (meta_or_empty (lv_meta r'))"
    by (auto simp: dget_map_of dest!: map_of_SomeD) force
qed

lemma planted_kept:
  assumes "planted db ty v" "seed_keeps db db'" "lookup_ok db" "lookup_ok db'"
  shows "planted db' ty v"
proof -
  from assms(1) obtain r where r: "platform_row db ty (sv_code v) = Some r" "translations_of db r \<noteq> []"
    "fst ` set (sv_meta v) \<subseteq> fst ` set (meta_or_empty (lv_meta r))" by (auto simp: planted_def)
  from platform_row_kept [OF assms(2-4) r(1)] obtain r' where
    r': "platform_row db' ty (sv_code v) = Some r'" "topped_up r r'" "translations_of db' r' \<noteq> []"
    using r(2) by metis
  with r(3) topped_keys [OF r'(2)] show ?thesis by (auto simp: planted_def)
qed

definition typed_id :: "lookup_db \<Rightarrow> int \<Rightarrow> bool" where
  "typed_id db ty = (ty \<in> lt_id ` set (ld_types db))"

lemma add_translations_rows:
  "map fst (map (\<lambda>(lang, label). (lang, label, dget s lang)) ts) = map fst ts"
  by (induction ts) auto

lemma children_total:
  assumes ok: "lookup_ok db" and home: "home_id w ty (lv_id v) db" and none: "translations_of db v = []"
    and langs: "distinct (map fst ts)"
  obtains db1 where "add_translations (lv_id v) ts s db = Inr db1"
    "edit w ty db (fold (insert_alias (lv_id v)) als db1)"
    "ld_values (fold (insert_alias (lv_id v)) als db1) = ld_values db"
    "ts \<noteq> [] \<Longrightarrow> translations_of (fold (insert_alias (lv_id v)) als db1) v \<noteq> []"
    "\<And>u. lv_id u \<noteq> lv_id v \<Longrightarrow> same_children db (fold (insert_alias (lv_id v)) als db1) u"
proof -
  let ?rows = "map (\<lambda>(lang, label). (lang, label, dget (case s of Some x \<Rightarrow> x | None \<Rightarrow> []) lang)) ts"
  have "distinct (map fst ?rows)" using langs by (simp only: add_translations_rows)
  then obtain db1 where run: "insert_labels (lv_id v) ?rows db = Inr db1"
    using fresh_labels_total [OF ok none] by blast
  obtain tr where tr: "db1 = db\<lparr>ld_translations := ld_translations db @ tr\<rparr>"
    "map label_row tr = ?rows" "\<forall>t\<in>set tr. ltr_value t = lv_id v"
    using insert_labels_shape [OF run] by blast
  obtain xs where xs: "fold (insert_alias (lv_id v)) als db1 = db1\<lparr>ld_aliases := ld_aliases db1 @ xs\<rparr>"
    "\<forall>a\<in>set xs. la_value a = lv_id v"
    using insert_aliases_shape by blast
  note ed1 = insert_labels_edit [OF ok home run]
  have fin: "fold (insert_alias (lv_id v)) als db1 =
      db\<lparr>ld_translations := ld_translations db @ tr, ld_aliases := ld_aliases db @ xs\<rparr>"
    by (subst xs(1)) (simp add: tr(1))
  show thesis
  proof (rule that [of db1])
    show "add_translations (lv_id v) ts s db = Inr db1" using run by (simp add: add_translations_def)
    show "edit w ty db (fold (insert_alias (lv_id v)) als db1)"
      by (rule edits.R_trans [OF ed1 insert_aliases_edit [OF editD(1) [OF ed1 ok] editD(4) [OF ed1 ok home]]])
    show "ld_values (fold (insert_alias (lv_id v)) als db1) = ld_values db" by (simp add: tr(1))
    have "tr \<noteq> []" if "ts \<noteq> []" using tr(2) that by auto
    then show "translations_of (fold (insert_alias (lv_id v)) als db1) v \<noteq> []" if "ts \<noteq> []"
      using that tr(3) unfolding fin by (cases tr) (auto simp: translations_of_def)
    show "same_children db (fold (insert_alias (lv_id v)) als db1) u" if "lv_id u \<noteq> lv_id v" for u
      using that tr(3) xs(2) unfolding fin
      by (auto simp: same_children_def translations_of_def aliases_of_def filter_empty_conv)
  qed
qed

lemma plant_value_works:
  assumes ok: "lookup_ok db" and ty: "typed_id db ty" and none: "platform_row db ty (sr_code s) = None"
    and langs: "distinct (map fst (sr_translations s))" and some: "sr_translations s \<noteq> []"
  obtains db' r where "plant_value e ty s db = Inr db'" "edit None ty db db'" "seed_keeps db db'"
    "platform_row db' ty (sr_code s) = Some r" "translations_of db' r \<noteq> []" "lv_meta r = Some (sr_meta s)"
    "value_index ` set (ld_values db') \<subseteq> insert (ty, sr_code s, None) (value_index ` set (ld_values db))"
proof -
  let ?v = "seeded_value e ty s"
  have v: "lv_org ?v = None" "lv_type ?v = ty" "lv_parent ?v = None" "lv_superseded ?v = None"
    "value_index ?v = (ty, sr_code s, None)" "lv_meta ?v = Some (sr_meta s)"
    by (simp_all add: seeded_value_def value_index_def)
  have typed: "typed db ?v" using ty by (auto simp: typed_def v list_ex_iff typed_id_def)
  have pts: "points_home db ?v" by (simp add: points_home_def v)
  have "\<not> exists_where (\<lambda>r. value_index r = value_index ?v) (ld_values db)"
    using none v(5) by (auto simp: platform_row_None exists_where_iff image_iff)
  then obtain row db1 where ins: "insert_value ?v db = Inr (row, db1)"
    by (simp add: insert_value_def Let_def)
  note one = insert_value_edit [OF ins typed pts ok, unfolded v]
  note ok1 = editD(1) [OF one(1) ok]
  let ?als = "alias_pairs (sr_aliases s)"
  obtain db2 where two: "add_translations (lv_id row) (sr_translations s) (sr_short_labels s) db1 = Inr db2"
    and ed2: "edit None ty db1 (fold (insert_alias (lv_id row)) ?als db2)"
    and vals: "ld_values (fold (insert_alias (lv_id row)) ?als db2) = ld_values db1"
    and lab: "translations_of (fold (insert_alias (lv_id row)) ?als db2) row \<noteq> []"
    and oth: "\<And>u. lv_id u \<noteq> lv_id row \<Longrightarrow> same_children db1 (fold (insert_alias (lv_id row)) ?als db2) u"
    using children_total [OF ok1 one(2) one(4) langs] some by metis
  let ?db' = "fold (insert_alias (lv_id row)) ?als db2"
  have row: "value_index row = (ty, sr_code s, None)" "lv_meta row = Some (sr_meta s)"
    by (subst one(3); simp add: seeded_value_def value_index_def)+
  note ok' = editD(1) [OF ed2 ok1]
  have "seed_keeps db ?db'"
  proof (rule seed_keeps_values)
    show "u \<in> set (ld_values ?db')" if "u \<in> set (ld_values db)" for u using that vals one(6) by simp
    fix u assume u: "u \<in> set (ld_values db)"
    with one(8) have "lv_id u \<noteq> lv_id row" by (metis image_eqI)
    moreover have "same_children db db1 u"
      by (simp add: one(6) same_children_def translations_of_def aliases_of_def)
    ultimately show "same_children db ?db' u" using oth [of u] by (simp add: same_children_def)
  qed
  moreover have "platform_row ?db' ty (sr_code s) = Some row"
    using vals one(6) row by (simp add: platform_row_iff [OF ok'])
  moreover have "value_index ` set (ld_values ?db') \<subseteq>
      insert (ty, sr_code s, None) (value_index ` set (ld_values db))"
    unfolding vals using row(1) by (auto simp: one(6))
  ultimately show thesis
    using that [of ?db' row] edits.R_trans [OF one(1) ed2] lab row(2)
    by (simp add: plant_value_def ins two)
qed

lemma heal_value_works:
  assumes ok: "lookup_ok db" and r: "platform_row db ty (sr_code s) = Some r"
    and none: "translations_of db r = []"
    and langs: "distinct (map fst (sr_translations s))" and some: "sr_translations s \<noteq> []"
  obtains db' where "heal_value r s db = Inr db'" "edit None ty db db'" "seed_keeps db db'"
    "platform_row db' ty (sr_code s) = Some r" "translations_of db' r \<noteq> []"
    "ld_values db' = ld_values db"
proof -
  have mem: "r \<in> set (ld_values db)" "value_index r = (ty, sr_code s, None)"
    using r ok by (simp_all add: platform_row_iff)
  then have home: "home_id None ty (lv_id r) db" by (auto simp: home_id_iff value_index_def)
  let ?als = "filter (\<lambda>p. fst p \<notin> set (map la_alias (aliases_of db r))) (alias_pairs (sr_aliases s))"
  obtain db1 where run: "add_translations (lv_id r) (sr_translations s) (sr_short_labels s) db = Inr db1"
    and ed: "edit None ty db (fold (insert_alias (lv_id r)) ?als db1)"
    and vals: "ld_values (fold (insert_alias (lv_id r)) ?als db1) = ld_values db"
    and lab: "translations_of (fold (insert_alias (lv_id r)) ?als db1) r \<noteq> []"
    and oth: "\<And>u. lv_id u \<noteq> lv_id r \<Longrightarrow> same_children db (fold (insert_alias (lv_id r)) ?als db1) u"
    using children_total [OF ok home none langs] some by metis
  let ?db' = "fold (insert_alias (lv_id r)) ?als db1"
  have "seed_keeps db ?db'"
  proof (rule seed_keeps_values)
    show "u \<in> set (ld_values ?db')" if "u \<in> set (ld_values db)" for u using that vals by simp
    fix u assume u: "u \<in> set (ld_values db)" "translations_of db u \<noteq> []"
    then have "lv_id u \<noteq> lv_id r" using none children_by_id [of u r db] by auto
    then show "same_children db ?db' u" by (rule oth)
  qed
  moreover have "platform_row ?db' ty (sr_code s) = Some r"
    using mem unfolding platform_row_iff [OF editD(1) [OF ed ok]] vals by blast
  ultimately show thesis
    using that [of ?db'] ed lab vals by (simp add: heal_value_def run Let_def)
qed

end
