(* ===== verification/LookupFileRun.thy ===== *)
theory LookupFileRun
  imports LookupFileSeed
begin

text \<open>A whole type of a seed file: values, meta backfill, pointers, version.\<close>

subsection \<open>The meta backfill\<close>

lemma put_value_keeps:
  assumes ok: "lookup_ok db" and u: "u \<in> set (ld_values db)" and top: "topped_up u v"
    and pts: "points_home db v" and own: "lv_org u = None" "lv_type u = ty"
  shows "edit None ty db (put_value v db)" "seed_keeps db (put_value v db)"
    "v \<in> set (ld_values (put_value v db))"
    "translations_of (put_value v db) x = translations_of db x"
    "value_index ` set (ld_values (put_value v db)) = value_index ` set (ld_values db)"
proof -
  have id: "lv_id v = lv_id u" "value_index v = value_index u" using topped_up_id [OF top] by auto
  show "edit None ty db (put_value v db)" by (rule put_value_edit [OF ok u id pts own])
  show mem: "v \<in> set (ld_values (put_value v db))"
    using u id(1) by (simp add: put_value_def set_update_where)
  show "translations_of (put_value v db) x = translations_of db x"
    by (simp add: put_value_def translations_of_def)
  have "map value_index (update_where (\<lambda>r. lv_id r = lv_id v) (\<lambda>_. v) (ld_values db)) =
        map value_index (ld_values db)"
  proof (rule map_update_where)
    fix r assume "r \<in> set (ld_values db)" "lv_id r = lv_id v"
    then have "r = u" using same_id_same_row [OF ok _ u] id by simp
    then show "value_index v = value_index r" using id by simp
  qed
  then have "map value_index (ld_values (put_value v db)) = map value_index (ld_values db)"
    by (simp add: put_value_def)
  then show "value_index ` set (ld_values (put_value v db)) = value_index ` set (ld_values db)"
    by (metis set_map)
  show "seed_keeps db (put_value v db)"
    unfolding seed_keeps_def
  proof
    fix w assume w: "w \<in> set (ld_values db)"
    have "same_children db (put_value v db) w"
      by (simp add: same_children_def put_value_def translations_of_def aliases_of_def)
    moreover have "\<exists>w'\<in>set (ld_values (put_value v db)). topped_up w w'"
    proof (cases "lv_id w = lv_id v")
      case True
      then have "w = u" using same_id_same_row [OF ok w u] id by simp
      with top mem show ?thesis by blast
    next
      case False
      then have "w \<in> set (ld_values (put_value v db))"
        using w by (simp add: put_value_def set_update_where)
      then show ?thesis using topped_up_refl by blast
    qed
    ultimately show "\<exists>w'\<in>set (ld_values (put_value v db)). topped_up w w' \<and>
        (translations_of db w \<noteq> [] \<longrightarrow> same_children db (put_value v db) w)" by blast
  qed
qed

lemma dget_dmerge_keep:
  "dget ds k = Some x \<Longrightarrow> \<forall>kv\<in>set es. fst kv \<noteq> k \<Longrightarrow> dget (dmerge ds es) k = Some x"
proof -
  assume "\<forall>kv\<in>set es. fst kv \<noteq> k"
  then have "dget (rev es) k = None" by (auto simp: dget_map_of map_of_eq_None_iff)
  moreover assume "dget ds k = Some x"
  ultimately show ?thesis by (simp add: dget_dmerge)
qed

lemma keys_dmerge: "fst ` set (dmerge ds es) = fst ` set ds \<union> fst ` set es"
proof (induction es arbitrary: ds)
  case Nil
  then show ?case by (simp add: dmerge_def)
next
  case (Cons e es)
  have "dmerge ds (e # es) = dmerge (dset ds (fst e) (snd e)) es" by (simp add: dmerge_def)
  then show ?case by (auto simp: Cons.IH keys_dset)
qed

lemma backfill_meta_works:
  assumes ok: "lookup_ok db" and r: "platform_row db ty code = Some r" and lab: "translations_of db r \<noteq> []"
  obtains n db' r' where "backfill_meta db ty code meta = (n, db')" "sown ty (0, db) (n, db')"
    "platform_row db' ty code = Some r'" "translations_of db' r' \<noteq> []"
    "fst ` set meta \<subseteq> fst ` set (meta_or_empty (lv_meta r'))"
    "fst ` set meta \<subseteq> fst ` set (meta_or_empty (lv_meta r)) \<Longrightarrow> n = 0"
    "value_index ` set (ld_values db') = value_index ` set (ld_values db)"
proof -
  let ?cur = "meta_or_empty (lv_meta r)"
  let ?miss = "missing_meta ?cur meta"
  have mem: "r \<in> set (ld_values db)" "value_index r = (ty, code, None)"
    using r ok by (simp_all add: platform_row_iff)
  show thesis
  proof (cases "?miss = []")
    case True
    then have "fst ` set meta \<subseteq> fst ` set ?cur" by (auto simp: missing_meta_def filter_empty_conv)
    with True r lab show thesis
      using that [of 0 db r] sown_refl by (simp add: backfill_meta_def)
  next
    case False
    let ?r = "r\<lparr>lv_meta := Some (dmerge ?cur ?miss)\<rparr>"
    have top: "topped_up r ?r"
      unfolding topped_up_def filled_def
      by (auto simp: meta_or_empty_def missing_meta_def dget_map_of map_of_eq_None_iff
          intro!: dget_dmerge_keep [unfolded dget_map_of] dest: map_of_SomeD) (force dest: map_of_SomeD)
    have pts: "points_home db ?r" using lookup_okD(7) [OF ok mem(1)] by (auto simp: points_home_iff)
    have own: "lv_org r = None" "lv_type r = ty" using mem(2) by (auto simp: value_index_def)
    note put = put_value_keeps [OF ok mem(1) top pts own]
    have "platform_row (put_value ?r db) ty code = Some ?r"
      using put(3) mem(2) unfolding platform_row_iff [OF editD(1) [OF put(1) ok]] by (simp add: value_index_def)
    moreover have "translations_of (put_value ?r db) ?r \<noteq> []"
      using lab unfolding put(4) by (simp add: translations_of_def)
    moreover have "fst ` set meta \<subseteq> fst ` set (meta_or_empty (lv_meta ?r))"
      by (auto simp: meta_or_empty_def keys_dmerge missing_meta_def)
    moreover have "\<not> fst ` set meta \<subseteq> fst ` set ?cur"
      using False by (auto simp: missing_meta_def filter_empty_conv)
    moreover have "sown ty (0, db) (1, put_value ?r db)" using put(1,2) by (simp add: sown_def)
    moreover have "backfill_meta db ty code meta = (1, put_value ?r db)"
      using False by (simp add: backfill_meta_def r Let_def)
    ultimately show thesis using that put(5) by blast
  qed
qed

subsection \<open>The values of a file\<close>

lemma seed_row_of_simps [simp]:
  "sr_code (seed_row_of c i v) = sv_code v"
  "sr_translations (seed_row_of c i v) = map (\<lambda>t. (ti_lang t, ti_label t)) (sv_translations v)"
  "sr_meta (seed_row_of c i v) = sv_meta v"
  by (simp_all add: seed_row_of_def)

text \<open>The row a value of the file stands for, when it exists, has a label.\<close>

definition labelled :: "lookup_db \<Rightarrow> int \<Rightarrow> seed_value \<Rightarrow> bool" where
  "labelled db ty v =
     (case platform_row db ty (sv_code v) of None \<Rightarrow> True | Some r \<Rightarrow> translations_of db r \<noteq> [])"

definition present :: "lookup_db \<Rightarrow> int \<Rightarrow> string \<Rightarrow> bool" where
  "present db ty code = (platform_row db ty code \<noteq> None)"

lemma present_kept:
  "present db ty code \<Longrightarrow> seed_keeps db db' \<Longrightarrow> lookup_ok db \<Longrightarrow> lookup_ok db' \<Longrightarrow> present db' ty code"
  unfolding present_def by (erule exE [OF iffD1 [OF not_None_eq]], erule platform_row_kept) auto

lemma labelled_kept:
  assumes "labelled db ty v" "seed_keeps db db'" "lookup_ok db" "lookup_ok db'"
    and new: "value_index ` set (ld_values db') \<subseteq> insert (ty, code, None) (value_index ` set (ld_values db))"
    and "code \<noteq> sv_code v"
  shows "labelled db' ty v"
proof (cases "platform_row db ty (sv_code v)")
  case None
  then have "platform_row db' ty (sv_code v) = None"
    using new assms(6) unfolding platform_row_None by auto
  then show ?thesis by (simp add: labelled_def)
next
  case (Some r)
  then have "translations_of db r \<noteq> []" using assms(1) by (simp add: labelled_def)
  then obtain r' where "platform_row db' ty (sv_code v) = Some r'" "translations_of db' r' \<noteq> []"
    using platform_row_kept [OF assms(2-4) Some] by blast
  then show ?thesis by (simp add: labelled_def)
qed

lemma seed_one_works:
  assumes ok: "lookup_ok db" and ty: "typed_id db ty" and v: "seedable v"
  obtains n db' where "seed_one e ty curated i v db = (Inr n, db')" "sown ty (0, db) (n, db')"
    "present db' ty (sv_code v)" "labelled db ty v \<longrightarrow> planted db' ty v" "planted db ty v \<longrightarrow> n = 0"
    "value_index ` set (ld_values db') \<subseteq>
       insert (ty, sv_code v, None) (value_index ` set (ld_values db))"
proof -
  let ?s = "seed_row_of curated i v"
  have langs: "distinct (map fst (sr_translations ?s))" "sr_translations ?s \<noteq> []"
    using v by (simp_all add: seedable_def comp_def)
  show thesis
  proof (cases "platform_row db ty (sv_code v)")
    case None
    then obtain db' r where p: "plant_value e ty ?s db = Inr db'" "edit None ty db db'" "seed_keeps db db'"
      "platform_row db' ty (sv_code v) = Some r" "translations_of db' r \<noteq> []" "lv_meta r = Some (sv_meta v)"
      "value_index ` set (ld_values db') \<subseteq> insert (ty, sv_code v, None) (value_index ` set (ld_values db))"
      using plant_value_works [OF ok ty, of ?s e] langs by auto
    then have "seed_one e ty curated i v db = (Inr 1, db')"
      by (simp add: seed_one_def ensure_value_def None commit_r_def)
    moreover have "planted db' ty v" "present db' ty (sv_code v)"
      using p by (simp_all add: planted_def present_def meta_or_empty_def)
    moreover have "\<not> planted db ty v" by (simp add: planted_def None)
    moreover have "sown ty (0, db) (1, db')" using p(2,3) by (simp add: sown_def)
    ultimately show thesis using that p(7) by blast
  next
    case (Some r)
    note old = Some
    show thesis
    proof (cases "translations_of db r = []")
      case True
      obtain db' where h: "heal_value r ?s db = Inr db'" "edit None ty db db'" "seed_keeps db db'"
        "platform_row db' ty (sv_code v) = Some r" "translations_of db' r \<noteq> []" "ld_values db' = ld_values db"
        using heal_value_works [OF ok _ True, of ty ?s] old langs by auto
      then have "seed_one e ty curated i v db = (Inr 1, db')"
        by (simp add: seed_one_def ensure_value_def old True commit_r_def)
      moreover have "\<not> labelled db ty v" "\<not> planted db ty v" "present db' ty (sv_code v)"
        using old True h(4) by (simp_all add: labelled_def planted_def present_def)
      moreover have "sown ty (0, db) (1, db')" using h(2,3) by (simp add: sown_def)
      ultimately show thesis using that h(6) by fastforce
    next
      case False
      obtain n db' r' where b: "backfill_meta db ty (sv_code v) (sv_meta v) = (n, db')"
        "sown ty (0, db) (n, db')" "platform_row db' ty (sv_code v) = Some r'"
        "translations_of db' r' \<noteq> []" "fst ` set (sv_meta v) \<subseteq> fst ` set (meta_or_empty (lv_meta r'))"
        "fst ` set (sv_meta v) \<subseteq> fst ` set (meta_or_empty (lv_meta r)) \<Longrightarrow> n = 0"
        "value_index ` set (ld_values db') = value_index ` set (ld_values db)"
        using backfill_meta_works [OF ok old False] by metis
      have none: "sv_meta v = [] \<Longrightarrow> n = 0 \<and> db' = db" using b(6) sownD(4) [OF b(2)] ok by simp
      then have "seed_one e ty curated i v db = (Inr n, db')"
        using b(1) by (auto simp: seed_one_def ensure_value_def old False)
      moreover have "planted db' ty v" "present db' ty (sv_code v)"
        using b(3-5) by (simp_all add: planted_def present_def)
      moreover have "planted db ty v \<Longrightarrow> n = 0" using b(6) old by (simp add: planted_def)
      ultimately show thesis using that b(2,7) by blast
    qed
  qed
qed

lemma sown_shift: "sown ty (0, db) (n, db') \<Longrightarrow> sown ty (k, db) (k + n, db')"
  by (auto simp: sown_def)

lemma seed_values_works:
  assumes "lookup_ok db" "typed_id db ty" "\<forall>v\<in>set vs. seedable v" "distinct (map sv_code vs)"
  shows "\<exists>n db'. seed_values e ty curated i vs k db = (Inr (k + n), db') \<and> sown ty (0, db) (n, db') \<and>
     (\<forall>v\<in>set vs. present db' ty (sv_code v)) \<and>
     ((\<forall>v\<in>set vs. labelled db ty v) \<longrightarrow> (\<forall>v\<in>set vs. planted db' ty v)) \<and>
     ((\<forall>v\<in>set vs. planted db ty v) \<longrightarrow> n = 0)"
  using assms
proof (induction vs arbitrary: db i k)
  case Nil
  then show ?case by (intro exI [of _ 0] exI [of _ db]) (simp add: sown_refl)
next
  case (Cons v vs)
  from Cons.prems have ok: "lookup_ok db" and ty: "typed_id db ty" and v: "seedable v" by auto
  obtain n1 db1 where one: "seed_one e ty curated i v db = (Inr n1, db1)" "sown ty (0, db) (n1, db1)"
    "present db1 ty (sv_code v)" "labelled db ty v \<longrightarrow> planted db1 ty v" "planted db ty v \<longrightarrow> n1 = 0"
    "value_index ` set (ld_values db1) \<subseteq>
       insert (ty, sv_code v, None) (value_index ` set (ld_values db))"
    using seed_one_works [OF ok ty v, where e = e and curated = curated and i = i] by blast
  note s1 = sownD [OF one(2), simplified, OF ok]
  have ty1: "typed_id db1 ty" using ty editD(2) [OF s1(1) ok] by (simp add: typed_id_def)
  obtain n2 db2 where two: "seed_values e ty curated (Suc i) vs (k + n1) db1 = (Inr (k + n1 + n2), db2)"
    "sown ty (0, db1) (n2, db2)" "\<forall>v\<in>set vs. present db2 ty (sv_code v)"
    "(\<forall>v\<in>set vs. labelled db1 ty v) \<longrightarrow> (\<forall>v\<in>set vs. planted db2 ty v)"
    "(\<forall>v\<in>set vs. planted db1 ty v) \<longrightarrow> n2 = 0"
    using Cons.IH [OF s1(2) ty1, of "Suc i" "k + n1"] Cons.prems by auto
  note s2 = sownD [OF two(2), simplified, OF s1(2)]
  have sown: "sown ty (0, db) (n1 + n2, db2)"
    using sows.R_trans [OF one(2) sown_shift [OF two(2)]] by simp
  have "labelled db1 ty u" if "labelled db ty u" "u \<in> set vs" for u
    using labelled_kept [OF that(1) s1(3) ok s1(2) one(6)] Cons.prems(4) that(2) by (auto simp: image_iff)
  then have "(\<forall>u\<in>set (v # vs). labelled db ty u) \<longrightarrow> (\<forall>u\<in>set (v # vs). planted db2 ty u)"
    using two(4) one(4) planted_kept [OF _ s2(3) s1(2) s2(2)] by auto
  moreover have "(\<forall>u\<in>set (v # vs). planted db ty u) \<longrightarrow> n1 + n2 = 0"
    using one(5) two(5) planted_kept [OF _ s1(3) ok s1(2)] by auto
  moreover have "\<forall>u\<in>set (v # vs). present db2 ty (sv_code u)"
    using two(3) present_kept [OF one(3) s2(3) s1(2) s2(2)] by simp
  ultimately show ?case
    using sown one(1) two(1) by (intro exI [of _ "n1 + n2"] exI [of _ db2]) (simp add: add.assoc)
qed

subsection \<open>The pointer pass\<close>

lemma dict_of_get: "dget (dict_of kvs) k = map_of (rev kvs) k"
  by (simp add: dict_of_def dget_dmerge) (simp add: dget_map_of split: option.splits)

lemma set_dset: "set (dset ds k v) \<subseteq> insert (k, v) (set ds)"
  by (induction ds k v rule: dset.induct) auto

lemma set_dict_of: "set (dict_of kvs) \<subseteq> set kvs"
proof -
  have "set (dmerge ds kvs) \<subseteq> set ds \<union> set kvs" for ds
  proof (induction kvs arbitrary: ds)
    case Nil
    then show ?case by (simp add: dmerge_def)
  next
    case (Cons e es)
    have "dmerge ds (e # es) = dmerge (dset ds (fst e) (snd e)) es" by (simp add: dmerge_def)
    then show ?case using Cons.IH [of "dset ds (fst e) (snd e)"] set_dset [of ds "fst e" "snd e"] by auto
  qed
  from this [of "[]"] show ?thesis by (simp add: dict_of_def)
qed

lemma platform_ids_get:
  assumes ok: "lookup_ok db"
  shows "dget (platform_ids db ty) code = map_option lv_id (platform_row db ty code)"
proof (cases "platform_row db ty code")
  case None
  then have "code \<notin> fst ` set (rev (map (\<lambda>v. (lv_code v, lv_id v)) (template_rows db ty)))"
    by (auto simp: platform_row_def first_where_None template_rows_def)
  then show ?thesis by (simp add: None platform_ids_def dict_of_get map_of_eq_None_iff)
next
  case (Some r)
  then have r: "r \<in> set (template_rows db ty)" "lv_code r = code"
    using ok by (auto simp: platform_row_iff template_rows_def value_index_def)
  have "distinct (map fst (rev (map (\<lambda>v. (lv_code v, lv_id v)) (template_rows db ty))))"
    using templates_distinct(2) [OF ok, of ty] by (simp add: rev_map [symmetric] comp_def)
  then have "map_of (rev (map (\<lambda>v. (lv_code v, lv_id v)) (template_rows db ty))) code = Some (lv_id r)"
    by (rule map_of_is_SomeI) (use r in auto)
  then show ?thesis by (simp add: Some platform_ids_def dict_of_get)
qed

definition pointed :: "lookup_db \<Rightarrow> int \<Rightarrow> string \<times> string option \<times> string option \<Rightarrow> bool" where
  "pointed db ty want =
     (case platform_row db ty (fst want) of
        None \<Rightarrow> False
      | Some r \<Rightarrow>
          (text_given (fst (snd want)) \<longrightarrow> lv_parent r \<noteq> None) \<and>
          (text_given (snd (snd want)) \<longrightarrow> lv_superseded r \<noteq> None))"

lemma pointed_kept:
  assumes "pointed db ty want" "seed_keeps db db'" "lookup_ok db" "lookup_ok db'"
  shows "pointed db' ty want"
proof -
  from assms(1) obtain r where r: "platform_row db ty (fst want) = Some r"
    "text_given (fst (snd want)) \<longrightarrow> lv_parent r \<noteq> None"
    "text_given (snd (snd want)) \<longrightarrow> lv_superseded r \<noteq> None"
    by (auto simp: pointed_def split: option.splits)
  obtain r' where "platform_row db' ty (fst want) = Some r'" "topped_up r r'"
    using platform_row_kept [OF assms(2-4) r(1)] by blast
  with r(2,3) show ?thesis by (auto simp: pointed_def topped_up_def filled_def)
qed

definition known_target :: "lookup_db \<Rightarrow> int \<Rightarrow> string option \<Rightarrow> bool" where
  "known_target db ty target = (text_given target \<longrightarrow> present db ty (the target))"

lemma link_target_works:
  assumes ok: "lookup_ok db" and known: "known_target db ty target"
  obtains c p where "link_target (platform_ids db ty) target held = Inr (c, p)" "filled held p"
    "text_given target \<longrightarrow> p \<noteq> None" "\<not> c \<longrightarrow> p = held" "text_given target \<and> held \<noteq> None \<longrightarrow> \<not> c"
    "\<not> text_given target \<longrightarrow> \<not> c"
    "\<forall>i. p = Some i \<and> held \<noteq> Some i \<longrightarrow> home_id None ty i db"
proof (cases "text_given target \<and> held = None")
  case False
  then have "link_target (platform_ids db ty) target held = Inr (False, held)"
    by (auto simp: link_target_def text_given_def split: option.splits)
  with False that [of False held] show thesis by (auto simp: filled_def)
next
  case True
  then obtain c where c: "target = Some c" "c \<noteq> []" by (auto simp: text_given_def split: option.splits)
  with known True obtain r where r: "platform_row db ty c = Some r"
    by (auto simp: known_target_def present_def)
  then have "link_target (platform_ids db ty) target held = Inr (True, Some (lv_id r))"
    using True c by (simp add: link_target_def platform_ids_get [OF ok])
  moreover have "home_id None ty (lv_id r) db"
    using r ok by (auto simp: platform_row_iff home_id_iff value_index_def)
  moreover have "filled held (Some (lv_id r))" using True by (simp add: filled_def)
  ultimately show thesis by (intro that [of True "Some (lv_id r)"]) (use True in simp_all)
qed

lemma link_row_works:
  assumes ok: "lookup_ok db" and sown: "sown ty (0, db) (k, s)" and k: "k \<le> 1"
    and row: "present db ty (fst want)"
    and known: "known_target db ty (fst (snd want))" "known_target db ty (snd (snd want))"
  shows "\<exists>s'. link_row (platform_ids db ty) want (k, s) = Inr s' \<and> sown ty (k, s) s' \<and> fst s' \<le> 1 \<and>
     pointed (snd s') ty want \<and> (pointed s ty want \<longrightarrow> s' = (k, s))"
proof -
  obtain code parent sup where want: "want = (code, parent, sup)" by (cases want)
  from row want obtain r0 where r0: "platform_row db ty code = Some r0" by (auto simp: present_def)
  note s = sownD [OF sown, simplified, OF ok]
  obtain r where r: "platform_row s ty code = Some r" "topped_up r0 r"
    using platform_row_kept [OF s(3) ok s(2) r0] by blast
  have id: "lv_id r0 = lv_id r" using topped_up_id [OF r(2)] by simp
  have mem: "r \<in> set (ld_values s)" "value_index r = (ty, code, None)"
    using r(1) s(2) by (simp_all add: platform_row_iff)
  have val: "value_row s (lv_id r0) = Some r"
    using row_by_distinct [OF lookup_okD(1) [OF s(2)] mem(1)] by (simp add: value_row_def id)
  obtain c1 p where p: "link_target (platform_ids db ty) parent (lv_parent r) = Inr (c1, p)"
    "filled (lv_parent r) p" "text_given parent \<longrightarrow> p \<noteq> None" "\<not> c1 \<longrightarrow> p = lv_parent r"
    "text_given parent \<and> lv_parent r \<noteq> None \<longrightarrow> \<not> c1" "\<not> text_given parent \<longrightarrow> \<not> c1"
    "\<forall>i. p = Some i \<and> lv_parent r \<noteq> Some i \<longrightarrow> home_id None ty i db"
    using link_target_works [OF ok, of ty parent "lv_parent r"] known(1) want by (metis fst_conv snd_conv)
  obtain c2 q where q: "link_target (platform_ids db ty) sup (lv_superseded r) = Inr (c2, q)"
    "filled (lv_superseded r) q" "text_given sup \<longrightarrow> q \<noteq> None" "\<not> c2 \<longrightarrow> q = lv_superseded r"
    "text_given sup \<and> lv_superseded r \<noteq> None \<longrightarrow> \<not> c2" "\<not> text_given sup \<longrightarrow> \<not> c2"
    "\<forall>i. q = Some i \<and> lv_superseded r \<noteq> Some i \<longrightarrow> home_id None ty i db"
    using link_target_works [OF ok, of ty sup "lv_superseded r"] known(2) want by (metis snd_conv)
  have step: "link_row (platform_ids db ty) want (k, s) =
      Inr (if c1 \<or> c2 then 1 else k,
           if c1 \<or> c2 then put_value (r\<lparr>lv_parent := p, lv_superseded := q\<rparr>) s else s)"
    by (simp add: link_row_def want platform_ids_get [OF ok] r0 val p(1) q(1))
  show ?thesis
  proof (cases "c1 \<or> c2")
    case False
    then have "pointed s ty want" using p(3,4) q(3,4) r(1) by (simp add: pointed_def want)
    with step False k show ?thesis by (simp add: sown_refl)
  next
    case True
    let ?r = "r\<lparr>lv_parent := p, lv_superseded := q\<rparr>"
    have top: "topped_up r ?r" using p(2) q(2) by (simp add: topped_up_def)
    have own: "lv_org r = None" "lv_type r = ty" using mem(2) by (auto simp: value_index_def)
    have pts: "points_home s ?r"
      using lookup_okD(7) [OF s(2) mem(1)] p(7) q(7) editD(4) [OF s(1) ok] own
      by (auto simp: points_home_iff)
    note put = put_value_keeps [OF s(2) mem(1) top pts own]
    have "platform_row (put_value ?r s) ty code = Some ?r"
      using put(3) mem(2) unfolding platform_row_iff [OF editD(1) [OF put(1) s(2)]]
      by (simp add: value_index_def)
    then have "pointed (put_value ?r s) ty want" using p(3) q(3) by (simp add: pointed_def want)
    moreover have "sown ty (k, s) (1, put_value ?r s)" using put(1,2) k by (auto simp: sown_def)
    moreover have "\<not> pointed s ty want" using True p(5,6) q(5,6) r(1) by (auto simp: pointed_def want)
    ultimately show ?thesis using step True by auto
  qed
qed

lemma link_fold_works:
  assumes ok: "lookup_ok db" and "sown ty (0, db) s" "fst s \<le> 1"
    and "\<forall>w\<in>set ws. present db ty (fst w) \<and> known_target db ty (fst (snd w)) \<and>
           known_target db ty (snd (snd w))"
  shows "\<exists>s'. fold_r (link_row (platform_ids db ty)) ws s = Inr s' \<and> sown ty s s' \<and> fst s' \<le> 1 \<and>
     (\<forall>w\<in>set ws. pointed (snd s') ty w) \<and> ((\<forall>w\<in>set ws. pointed (snd s) ty w) \<longrightarrow> s' = s)"
  using assms(2-4)
proof (induction ws arbitrary: s)
  case Nil
  then show ?case by (simp add: sown_refl)
next
  case (Cons w ws)
  have "fst s \<le> 1" "sown ty (0, db) (fst s, snd s)" using Cons.prems by auto
  then obtain s1 where s1: "link_row (platform_ids db ty) w s = Inr s1" "sown ty s s1" "fst s1 \<le> 1"
    "pointed (snd s1) ty w" "pointed (snd s) ty w \<longrightarrow> s1 = s"
    using link_row_works [OF ok, of ty "fst s" "snd s" w] Cons.prems(3) by auto
  have sown1: "sown ty (0, db) s1" by (rule sows.R_trans [OF Cons.prems(1) s1(2)])
  obtain s2 where s2: "fold_r (link_row (platform_ids db ty)) ws s1 = Inr s2" "sown ty s1 s2"
    "fst s2 \<le> 1" "\<forall>w\<in>set ws. pointed (snd s2) ty w" "(\<forall>w\<in>set ws. pointed (snd s1) ty w) \<longrightarrow> s2 = s1"
    using Cons.IH [OF sown1 s1(3)] Cons.prems(3) by (metis list.set_intros(2))
  have ok1: "lookup_ok (snd s1)" using sownD(2) [OF sown1] ok by simp
  have "pointed (snd s2) ty w"
    using pointed_kept [OF s1(4) sownD(3) [OF s2(2) ok1] ok1 sownD(2) [OF s2(2) ok1]] .
  moreover have "(\<forall>u\<in>set (w # ws). pointed (snd s) ty u) \<longrightarrow> s2 = s"
    using s1(5) s2(5) by auto
  ultimately show ?case
    using s1(1) s2 sows.R_trans [OF s1(2) s2(2)] by auto
qed

text \<open>What data/__init__.py guarantees of a loaded type, as far as seeding depends on it.\<close>

definition spec_ok :: "seed_type_spec \<Rightarrow> bool" where
  "spec_ok spec =
     (distinct (map sv_code (st_values spec)) \<and> list_all seedable (st_values spec) \<and>
      list_all (\<lambda>v. list_all (\<lambda>target. text_given target \<longrightarrow> the target \<in> set (map sv_code (st_values spec)))
        [sv_parent_code v, sv_superseded_by v]) (st_values spec))"

lemma wanted_mem:
  assumes "w \<in> set (wanted_pointers spec)"
  obtains v where "v \<in> set (st_values spec)" "w = (sv_code v, sv_parent_code v, sv_superseded_by v)"
  using assms set_dict_of unfolding wanted_pointers_def by fastforce

lemma link_pass_works:
  assumes ok: "lookup_ok db" and spec: "spec_ok spec"
    and here: "\<forall>v\<in>set (st_values spec). present db ty (sv_code v)"
  shows "\<exists>n db'. link_pass db ty spec = (Inr n, db') \<and> sown ty (0, db) (n, db') \<and>
     (\<forall>w\<in>set (wanted_pointers spec). pointed db' ty w) \<and>
     ((\<forall>w\<in>set (wanted_pointers spec). pointed db ty w) \<longrightarrow> n = 0)"
proof -
  have "\<forall>w\<in>set (wanted_pointers spec). present db ty (fst w) \<and> known_target db ty (fst (snd w)) \<and>
           known_target db ty (snd (snd w))"
  proof
    fix w assume "w \<in> set (wanted_pointers spec)"
    then obtain v where v: "v \<in> set (st_values spec)" "w = (sv_code v, sv_parent_code v, sv_superseded_by v)"
      by (rule wanted_mem)
    then have "known_target db ty (sv_parent_code v)" "known_target db ty (sv_superseded_by v)"
      using spec here by (auto simp: spec_ok_def list_all_iff known_target_def)
    with v here show "present db ty (fst w) \<and> known_target db ty (fst (snd w)) \<and>
           known_target db ty (snd (snd w))" by simp
  qed
  from link_fold_works [OF ok sown_refl [of ty "(0, db)"] _ this] obtain s where
    "fold_r (link_row (platform_ids db ty)) (wanted_pointers spec) (0, db) = Inr s"
    "sown ty (0, db) s" "\<forall>w\<in>set (wanted_pointers spec). pointed (snd s) ty w"
    "(\<forall>w\<in>set (wanted_pointers spec). pointed db ty w) \<longrightarrow> s = (0, db)"
    by (metis fst_conv snd_conv zero_le)
  then show ?thesis by (cases s) (simp add: link_pass_def)
qed

lemma seed_type_values_works:
  assumes ok: "lookup_ok db" and ty: "typed_id db (lt_id t)" and spec: "spec_ok spec"
  shows "\<exists>n db'. seed_type_values e t spec db = (Inr n, db') \<and> sown (lt_id t) (0, db) (n, db') \<and>
     (\<forall>w\<in>set (wanted_pointers spec). pointed db' (lt_id t) w) \<and>
     ((\<forall>v\<in>set (st_values spec). labelled db (lt_id t) v) \<longrightarrow>
        (\<forall>v\<in>set (st_values spec). planted db' (lt_id t) v)) \<and>
     ((\<forall>v\<in>set (st_values spec). planted db (lt_id t) v) \<and>
      (\<forall>w\<in>set (wanted_pointers spec). pointed db (lt_id t) w) \<longrightarrow> n = 0)"
proof -
  let ?ty = "lt_id t" and ?vs = "st_values spec"
  obtain n1 db1 where one: "seed_values e ?ty (lt_default_sort t = SortByOrder) 0 ?vs 0 db = (Inr n1, db1)"
    "sown ?ty (0, db) (n1, db1)" "\<forall>v\<in>set ?vs. present db1 ?ty (sv_code v)"
    "(\<forall>v\<in>set ?vs. labelled db ?ty v) \<longrightarrow> (\<forall>v\<in>set ?vs. planted db1 ?ty v)"
    "(\<forall>v\<in>set ?vs. planted db ?ty v) \<longrightarrow> n1 = 0"
    using seed_values_works [OF ok ty, of ?vs e "lt_default_sort t = SortByOrder" 0 0] spec
    by (auto simp: spec_ok_def list_all_iff)
  note s1 = sownD [OF one(2), simplified, OF ok]
  obtain n2 db2 where two: "link_pass db1 ?ty spec = (Inr n2, db2)" "sown ?ty (0, db1) (n2, db2)"
    "\<forall>w\<in>set (wanted_pointers spec). pointed db2 ?ty w"
    "(\<forall>w\<in>set (wanted_pointers spec). pointed db1 ?ty w) \<longrightarrow> n2 = 0"
    using link_pass_works [OF s1(2) spec one(3)] by blast
  note s2 = sownD [OF two(2), simplified, OF s1(2)]
  have "sown ?ty (0, db) (n1 + n2, db2)"
    using sows.R_trans [OF one(2) sown_shift [OF two(2)]] by simp
  moreover have "(\<forall>v\<in>set ?vs. labelled db ?ty v) \<longrightarrow> (\<forall>v\<in>set ?vs. planted db2 ?ty v)"
    using one(4) planted_kept [OF _ s2(3) s1(2) s2(2)] by blast
  moreover have "(\<forall>v\<in>set ?vs. planted db ?ty v) \<and> (\<forall>w\<in>set (wanted_pointers spec). pointed db ?ty w)
      \<longrightarrow> n1 + n2 = 0"
    using one(5) two(4) pointed_kept [OF _ s1(3) ok s1(2)] by auto
  ultimately show ?thesis
    using two(3) by (intro exI [of _ "n1 + n2"] exI [of _ db2]) (simp add: seed_type_values_def one(1) two(1))
qed

end
