(* ===== verification/LookupCalls.thy ===== *)
theory LookupCalls
  imports LookupFileRun
begin

text \<open>
  The calls of the package as one transition relation: the admin routes, the open-list helper, the
  registration of types and the two seeders.  Every call keeps the invariant and moves only what
  its writer owns; a call that raises has changed nothing.
\<close>

subsection \<open>Types\<close>

lemma insert_type_moved:
  assumes ins: "insert_type t db = Inr (t', db')" and op: "lt_is_open t \<longrightarrow> lt_scope t = OrgScope"
  shows "moved w db db'" "t' \<in> set (ld_types db')" "ld_values db' = ld_values db"
    "ld_translations db' = ld_translations db" "ld_aliases db' = ld_aliases db"
    "lt_scope t' = lt_scope t" "lt_key t' = lt_key t"
proof -
  from ins have t': "t' = t\<lparr>lt_id := new_id (map lt_id (ld_types db))\<rparr>"
    and db': "db' = db\<lparr>ld_types := ld_types db @ [t']\<rparr>"
    and key: "lt_key t \<notin> lt_key ` set (ld_types db)"
    by (auto simp: insert_type_def Let_def exists_where_iff split: if_splits)
  have id: "lt_id t' \<notin> lt_id ` set (ld_types db)"
    using new_id_notin [of "map lt_id (ld_types db)"] by (simp add: t')
  have ok': "lookup_ok db'" if "lookup_ok db"
  proof -
    have "typed db' v" if "typed db v" for v using that by (auto simp: typed_def db')
    then have "values_ok db'"
      using that by (auto simp: lookup_ok_def values_ok_def db' list_all_iff)
    moreover have "types_ok db'" using that id key op by (auto simp: lookup_ok_def types_ok_def db' t')
    ultimately show ?thesis using that by (simp add: lookup_ok_def children_ok_def db')
  qed
  have "tracked db db'" unfolding tracked_def
  proof
    fix u assume "u \<in> set (ld_types db)"
    then have "u \<in> set (ld_types db')" by (simp add: db')
    moreover have "type_after db db' u u" by (simp add: type_after_def same_type_def db')
    ultimately show "\<exists>u'\<in>set (ld_types db'). type_after db db' u u'" by blast
  qed
  with ok' show "moved w db db'" by (simp add: moved_def row_names_def db')
  show "t' \<in> set (ld_types db')" "ld_values db' = ld_values db"
    "ld_translations db' = ld_translations db" "ld_aliases db' = ld_aliases db"
    "lt_scope t' = lt_scope t" "lt_key t' = lt_key t"
    by (simp_all add: db' t')
qed

lemma create_type_moved:
  "moved w db (snd (create_type e db p)) \<and>
   (fst (create_type e db p) = Inl x \<longrightarrow> snd (create_type e db p) = db)"
  using insert_type_moved(1) [where w = w and db = db] moves.R_refl
  by (auto simp: create_type_def rbind_Inr_iff new_type_def split: sum.splits)

lemma ensure_type_cases:
  assumes "ensure_type e db key name description is_open h cs mode scope = out"
  shows "(\<exists>x. out = (Inl x, db)) \<or> (\<exists>t. out = (Inr t, db) \<and> type_by_key db key = Some t \<and>
            (is_open \<longrightarrow> effective_scope scope (Some t) = OrgScope) \<and>
            (scope \<noteq> None \<longrightarrow> lt_scope t = effective_scope scope (Some t))) \<or>
         (\<exists>t db'. out = (Inr t, db') \<and> type_by_key db key = None \<and>
            insert_type (new_type e key name description is_open h cs mode (effective_scope scope None)) db
              = Inr (t, db') \<and> (is_open \<longrightarrow> effective_scope scope None = OrgScope))"
  using assms by (auto simp: ensure_type_def Let_def split: option.splits sum.splits if_splits)

lemma new_type_simps [simp]:
  "lt_is_open (new_type e key name description is_open h cs mode scope) = is_open"
  "lt_scope (new_type e key name description is_open h cs mode scope) = scope"
  "lt_key (new_type e key name description is_open h cs mode scope) = key"
  by (simp_all add: new_type_def)

lemma ensure_type_moved:
  assumes "ensure_type e db key name description is_open h cs mode scope = (r, db')"
  shows "moved w db db'" "\<exists>x. r = Inl x \<Longrightarrow> db' = db" "\<And>t. r = Inr t \<Longrightarrow> t \<in> set (ld_types db')"
    "ld_values db' = ld_values db" "seed_keeps db db'"
proof -
  have keeps: "ld_translations db' = ld_translations db \<Longrightarrow> ld_aliases db' = ld_aliases db \<Longrightarrow>
      ld_values db' = ld_values db \<Longrightarrow> seed_keeps db db'"
    by (rule seed_keeps_values) (simp_all add: same_children_def translations_of_def aliases_of_def)
  show "moved w db db'" "\<exists>x. r = Inl x \<Longrightarrow> db' = db" "\<And>t. r = Inr t \<Longrightarrow> t \<in> set (ld_types db')"
    "ld_values db' = ld_values db" "seed_keeps db db'"
    using ensure_type_cases [OF assms] insert_type_moved moves.R_refl keeps
    by (auto dest: type_by_key_Some)
qed

subsection \<open>A type of a seed file\<close>

lemma sown_moved:
  assumes ok: "lookup_ok db" and s: "sown (lt_id t) (0, db) (n, db')"
  shows "moved None db (bump_version_if t n db')" "seed_keeps db (bump_version_if t n db')"
    "n = 0 \<Longrightarrow> bump_version_if t n db' = db"
proof -
  note s = sownD [OF s, simplified, OF ok]
  show "n = 0 \<Longrightarrow> bump_version_if t n db' = db" using s(4) by (simp add: bump_version_if_def)
  show "moved None db (bump_version_if t n db')"
    using s bumped_moved [OF ok s(1)] moves.R_refl by (auto simp: bump_version_if_def)
  show "seed_keeps db (bump_version_if t n db')"
    using s(3)
    by (simp add: bump_version_if_def bump_version_def seed_keeps_def same_children_def
        translations_of_def aliases_of_def)
qed

lemma seed_type_row_cases:
  assumes "seed_type_row e db spec = (r, db')"
  shows "moved w db db'" "\<exists>x. r = Inl x \<Longrightarrow> db' = db" "\<And>t. r = Inr t \<Longrightarrow> t \<in> set (ld_types db')"
    "ld_values db' = ld_values db" "seed_keeps db db'"
proof -
  have refl: "seed_keeps db db" using sown_refl [of ty "(0, db)"]
    by (auto simp: seed_keeps_def same_children_def intro: topped_up_refl)
  show "moved w db db'" "\<exists>x. r = Inl x \<Longrightarrow> db' = db" "\<And>t. r = Inr t \<Longrightarrow> t \<in> set (ld_types db')"
    "ld_values db' = ld_values db" "seed_keeps db db'"
    using assms ensure_type_moved moves.R_refl refl
    by (auto simp: seed_type_row_def split: sum.splits)
qed

lemma seed_type_works:
  assumes ok: "lookup_ok db" and spec: "spec_ok spec"
  shows "moved None db (snd (seed_type e db spec))" "seed_keeps db (snd (seed_type e db spec))"
    "fst (seed_type e db spec) = Inl x \<Longrightarrow> snd (seed_type e db spec) = db"
proof -
  obtain r db1 where row: "seed_type_row e db spec = (r, db1)" by fastforce
  note row' = seed_type_row_cases [OF row]
  have ok1: "lookup_ok db1" by (rule movedD(1) [OF row'(1) ok])
  show "moved None db (snd (seed_type e db spec))" "seed_keeps db (snd (seed_type e db spec))"
    "fst (seed_type e db spec) = Inl x \<Longrightarrow> snd (seed_type e db spec) = db"
  proof (atomize (full), cases r)
    case (Inl y)
    then show "moved None db (snd (seed_type e db spec)) \<and> seed_keeps db (snd (seed_type e db spec)) \<and>
        (fst (seed_type e db spec) = Inl x \<longrightarrow> snd (seed_type e db spec) = db)"
      using row row' by (simp add: seed_type_def)
  next
    case (Inr t)
    have "typed_id db1 (lt_id t)" using row'(3) [OF Inr] by (simp add: typed_id_def)
    then obtain n db2 where two: "seed_type_values e t spec db1 = (Inr n, db2)"
      "sown (lt_id t) (0, db1) (n, db2)"
      using seed_type_values_works [OF ok1 _ spec, of t e] by blast
    note s = sown_moved [OF ok1 two(2)]
    show "moved None db (snd (seed_type e db spec)) \<and> seed_keeps db (snd (seed_type e db spec)) \<and>
        (fst (seed_type e db spec) = Inl x \<longrightarrow> snd (seed_type e db spec) = db)"
      using row Inr two(1) moves.R_trans [OF row'(1) s(1)] seed_keeps_trans [OF row'(5) s(2)]
      by (simp add: seed_type_def)
  qed
qed

subsection \<open>The value routes\<close>

lemma refreshed_Inr:
  "refreshed db i = (Inr row, db') \<longleftrightarrow> db' = db \<and> value_row db i = Some row"
  by (auto simp: refreshed_def split: option.splits)

definition value_call_ok :: "value_call \<Rightarrow> bool" where
  "value_call_ok c =
     (case c of CreateValue code ts d n p m als \<Rightarrow> distinct (map ti_lang ts) | _ \<Rightarrow> True)"

lemma run_value_call_did:
  assumes "lookup_ok db" "t \<in> set (ld_types db)" "value_call_ok c"
  shows "did e t db (run_value_call e db t c)"
  using assms
  by (cases c)
    (simp_all add: run_value_call_def value_call_ok_def create_value_did update_value_did deprecate_value_did
      add_alias_did remove_alias_did merge_values_did)

text \<open>A call that returns a row returns one of the writer's own, which the caller can read back.\<close>

definition own_row :: "lookup_env \<Rightarrow> lookup_type \<Rightarrow> string \<Rightarrow> lookup_value \<Rightarrow> lookup_db \<Rightarrow> bool" where
  "own_row e t code v db =
     (org_may_write e t \<and> (lv_id v, lt_id t, code, current_org e) \<in> row_names db)"

lemma written_own:
  assumes ok: "lookup_ok db" and ok': "lookup_ok db'" and names: "row_names db \<subseteq> row_names db'"
    and v0: "value_for_write e db t code = Inr v0" and v: "value_row db' (lv_id v0) = Some v"
  shows "own_row e t code v db' \<and> lv_code v = code"
proof -
  note v0 = value_for_write_home [OF v0]
  have "(lv_id v0, lt_id t, code, current_org e) \<in> row_names db"
    using v0(1) by (force simp: row_names_def value_index_def v0(2-4))
  with names have n: "(lv_id v0, lt_id t, code, current_org e) \<in> row_names db'" by blast
  from v have v': "v \<in> set (ld_values db')" "lv_id v = lv_id v0"
    using row_by_Some_iff [of lv_id] by (auto simp: value_row_def)
  from n obtain u where u: "u \<in> set (ld_values db')" "lv_id u = lv_id v0"
    "value_index u = (lt_id t, code, current_org e)" by (auto simp: row_names_def)
  with v' same_id_same_row [OF ok'] have "u = v" by simp
  with u n v'(2) v0(5) show ?thesis by (simp add: own_row_def value_index_def)
qed

lemma did_names:
  assumes "lookup_ok db" "t \<in> set (ld_types db)" "did e t db out"
  shows "row_names db \<subseteq> row_names (snd out)" "lookup_ok (snd out)"
  using movedD(1,4) [OF did_moved [OF assms] assms(1)] by auto

lemma create_value_row:
  assumes ok: "lookup_ok db" and t: "t \<in> set (ld_types db)"
    and run: "create_value e db t code ts d n p m als = (Inr v, db')"
  shows "own_row e t (lv_code v) v db'"
proof -
  from run obtain v1 db1 where one: "create_checked e db t code ts d n p m = Inr (v1, db1)"
    and two: "create_second e t v1 ts als db1 = Inr db'"
    and v: "value_row db' (lv_id v1) = Some v"
    by (auto simp: create_value_def refreshed_Inr split: sum.splits prod.splits)
  note f = create_first [OF ok t one]
  have vals: "ld_values db' = ld_values db1"
  proof -
    from two obtain db2 where db2: "apply_translations v1 ts db1 = Inr db2"
      and db': "ld_values db' = ld_values (fold (\<lambda>al. insert_alias (lv_id v1) (al, None)) (dedup_aliases als) db2)"
      by (auto simp: create_second_def rbind_Inr_iff touch_type_def Let_def)
    have "ld_values (fold (\<lambda>al. insert_alias (lv_id v1) (al, None)) xs s) = ld_values s" for xs s
      by (induction xs arbitrary: s) (simp_all add: insert_alias_def)
    with db' apply_translations_values [OF db2] show ?thesis by simp
  qed
  from f(3) obtain u where u: "u \<in> set (ld_values db1)" "lv_id u = lv_id v1"
    "lv_org u = current_org e" "lv_type u = lt_id t" by (auto simp: home_id_iff)
  from v have v': "v \<in> set (ld_values db1)" "lv_id v = lv_id v1"
    using row_by_Some_iff [of lv_id] vals by (auto simp: value_row_def)
  with u same_id_same_row [OF editD(1) [OF f(2) ok]] have "v = u" by simp
  with u have idx: "value_index v = (lt_id t, lv_code v, current_org e)" by (simp add: value_index_def)
  have "(lv_id v, value_index v) \<in> row_names db'"
    unfolding row_names_def set_map vals using v'(1) by (rule rev_image_eqI) simp
  with idx f(1) show ?thesis by (simp add: own_row_def)
qed

lemma run_value_call_row:
  assumes ok: "lookup_ok db" and t: "t \<in> set (ld_types db)"
    and did: "did e t db (run_value_call e db t c)" and run: "run_value_call e db t c = (Inr v, db')"
  shows "own_row e t (read_back_code c v) v db'"
proof -
  have names: "row_names db \<subseteq> row_names db'" "lookup_ok db'"
    using did_names [OF ok t did] run by simp_all
  have here: "value_row db (lv_id v0) = Some v0" if "value_for_write e db t code = Inr v0" for code v0
    using row_by_distinct [OF lookup_okD(1) [OF ok] value_for_write_home(1) [OF that]]
    by (simp add: value_row_def)
  have own: "\<exists>v0. value_for_write e db t code = Inr v0 \<and> value_row db' (lv_id v0) = Some v \<Longrightarrow>
      own_row e t code v db' \<and> lv_code v = code" for code
    using written_own [OF ok names(2,1)] by blast
  show ?thesis
  proof (cases c)
    case (CreateValue code ts d n p m als)
    then show ?thesis using create_value_row [OF ok t] run by (simp add: run_value_call_def read_back_code_def)
  next
    case (UpdateValue code ts d n m)
    then show ?thesis
      using run own [of code]
      by (auto simp: run_value_call_def read_back_code_def update_value_def refreshed_Inr rbind_Inr_iff
          split: sum.splits)
  next
    case (DeprecateValue code vt s)
    then show ?thesis
      using run own [of code]
      by (auto simp: run_value_call_def read_back_code_def deprecate_value_def refreshed_Inr rbind_Inr_iff
          split: sum.splits)
  next
    case (AddAlias code al lang)
    then show ?thesis
      using run own [of code] here
      by (auto simp: run_value_call_def read_back_code_def add_alias_def refreshed_Inr Let_def
          split: sum.splits if_splits)
  next
    case (RemoveAlias code al)
    then show ?thesis
      using run own [of code] here
      by (auto simp: run_value_call_def read_back_code_def remove_alias_def refreshed_Inr Let_def
          split: sum.splits if_splits)
  next
    case (MergeValues code into)
    then show ?thesis
      using run own [of into]
      by (auto simp: run_value_call_def read_back_code_def merge_values_def refreshed_Inr Let_def rbind_Inr_iff
          split: sum.splits if_splits)
  qed
qed

lemma own_row_readable:
  assumes own: "own_row e t code v db" and t1: "lt_id t1 = lt_id t" "lt_scope t1 = lt_scope t"
  shows "\<exists>r. get_value_read e db t1 code lang follow = Inr r"
proof -
  from own obtain u where u: "u \<in> set (ld_values db)" "value_index u = (lt_id t, code, current_org e)"
    by (auto simp: own_row_def row_names_def)
  moreover have "org_may_write e t1" using own t1 by (simp add: own_row_def org_may_write_def)
  ultimately have "u \<in> set (visible_values e db t1)" "lv_code u = code"
    using t1 by (simp_all add: visible_own value_index_def)
  then have "value_by_code e db t1 code \<noteq> None" by (auto simp: value_by_code_None)
  then show ?thesis by (auto simp: get_value_read_def Let_def)
qed

lemma type_by_key_iff:
  assumes "lookup_ok db"
  shows "type_by_key db key = Some t \<longleftrightarrow> t \<in> set (ld_types db) \<and> lt_key t = key"
  using row_by_distinct [OF lookup_okD(4) [OF assms]] type_by_key_Some [of db key t]
  by (auto simp: type_by_key_def)

lemma tracked_type:
  assumes "lookup_ok db'" "tracked db db'" "type_by_key db key = Some t"
  obtains t' where "type_by_key db' key = Some t'" "type_after db db' t t'"
proof -
  from assms(3) have "t \<in> set (ld_types db)" "lt_key t = key" using type_by_key_Some by auto
  with assms(2) obtain t' where "t' \<in> set (ld_types db')" "type_after db db' t t'" by (auto simp: tracked_def)
  moreover from this \<open>lt_key t = key\<close> have "type_by_key db' key = Some t'"
    unfolding type_by_key_iff [OF assms(1)] by (simp add: type_after_def)
  ultimately show thesis using that by blast
qed

lemma admin_value_works:
  assumes ok: "lookup_ok db" and c: "value_call_ok c"
  shows "moved (current_org e) db (snd (admin_value e db key c))"
    "fst (admin_value e db key c) = Inl x \<Longrightarrow> snd (admin_value e db key c) = db"
proof -
  show "moved (current_org e) db (snd (admin_value e db key c))"
    "fst (admin_value e db key c) = Inl x \<Longrightarrow> snd (admin_value e db key c) = db"
  proof (atomize (full), cases "get_type db key")
    case (Inl y)
    then show "moved (current_org e) db (snd (admin_value e db key c)) \<and>
        (fst (admin_value e db key c) = Inl x \<longrightarrow> snd (admin_value e db key c) = db)"
      by (simp add: admin_value_def admin_route_def moves.R_refl)
  next
    case (Inr t)
    then have tk: "type_by_key db key = Some t" by (simp add: get_type_Inr)
    then have t: "t \<in> set (ld_types db)" using type_by_key_Some by blast
    note did = run_value_call_did [OF ok t c, of e]
    obtain r db1 where run: "run_value_call e db t c = (r, db1)" by fastforce
    have mv: "moved (current_org e) db db1" using did_moved [OF ok t did] run by simp
    show "moved (current_org e) db (snd (admin_value e db key c)) \<and>
        (fst (admin_value e db key c) = Inl x \<longrightarrow> snd (admin_value e db key c) = db)"
    proof (cases r)
      case (Inl y)
      then have "db1 = db" using did run by (simp add: did_def)
      with Inl Inr run mv show ?thesis by (simp add: admin_value_def admin_route_def)
    next
      case (Inr v)
      obtain t1 where t1: "type_by_key db1 key = Some t1" "type_after db db1 t t1"
        using tracked_type [OF movedD(1,3) [OF mv ok] tk] by blast
      have "own_row e t (read_back_code c v) v db1"
        using run_value_call_row [OF ok t did] run Inr by simp
      then obtain out where "get_value_read e db1 t1 (read_back_code c v) ''en'' False = Inr out"
        using own_row_readable t1(2) unfolding type_after_def by blast
      then show ?thesis
        using \<open>get_type db key = Inr t\<close> run Inr mv t1(1)
        by (simp add: admin_value_def admin_route_def get_type_Inr [THEN iffD2])
    qed
  qed
qed

end
