(* ===== verification/LookupReads.thy ===== *)
theory LookupReads
  imports LookupCalls
begin

text \<open>
  What the reads depend on: the rows a session may see of the type, with their labels and aliases.
  And what an ETag says: the encoding of the request in the tag is unambiguous.
\<close>

subsection \<open>Reads are functions of the visible rows\<close>

definition same_reads :: "lookup_env \<Rightarrow> lookup_type \<Rightarrow> lookup_db \<Rightarrow> lookup_db \<Rightarrow> bool" where
  "same_reads e t db db' = same_where (\<lambda>v. lv_type v = lt_id t \<and> org_scoped e (Some t) v) db db'"

definition like_type :: "lookup_type \<Rightarrow> lookup_type \<Rightarrow> bool" where
  "like_type t t' =
     (lt_id t' = lt_id t \<and> lt_key t' = lt_key t \<and> lt_scope t' = lt_scope t \<and>
      lt_default_sort t' = lt_default_sort t)"

lemma org_scoped_like: "like_type t t' \<Longrightarrow> org_scoped e (Some t') v = org_scoped e (Some t) v"
  by (simp add: org_scoped_def like_type_def)

lemma same_reads_visible:
  assumes "same_reads e t db db'" "like_type t t'"
  shows "visible_values e db' t' = visible_values e db t"
    "\<And>v. v \<in> set (visible_values e db t) \<Longrightarrow> same_children db db' v"
proof -
  have id: "lt_id t' = lt_id t" using assms(2) by (simp add: like_type_def)
  show "visible_values e db' t' = visible_values e db t"
    using assms(1) by (simp add: same_reads_def same_where_def visible_values_def id
        org_scoped_like [OF assms(2)])
  show "same_children db db' v" if "v \<in> set (visible_values e db t)" for v
    using assms(1) that unfolding same_reads_def same_where_def visible_values_def by blast
qed

lemma same_children_reads:
  assumes "same_children db db' v"
  shows "label_str db' v lang = label_str db v lang"
    "serialize_value db' v lang m = serialize_value db v lang m"
    "value_matches db' needle v = value_matches db needle v"
  using assms
  by (simp_all add: same_children_def label_str_def translation_for_def serialize_value_def
      value_matches_def)

lemma prefer_org_subset: "set (prefer_org vs) \<subseteq> set vs"
proof -
  have "snd ` set (prefer_loop held vs) \<subseteq> snd ` set held \<union> set vs" for held
  proof (induction vs arbitrary: held)
    case Nil
    then show ?case by simp
  next
    case (Cons v vs)
    define held' where "held' =
       (case dget held (lv_code v) of
          None \<Rightarrow> dset held (lv_code v) v
        | Some h \<Rightarrow> if lv_org h = None \<and> lv_org v \<noteq> None then dset held (lv_code v) v else held)"
    have "set held' \<subseteq> insert (lv_code v, v) (set held)"
      using set_dset [of held "lv_code v" v] by (auto simp: held'_def split: option.splits)
    then have "snd ` set held' \<subseteq> insert v (snd ` set held)" by auto
    moreover have "prefer_loop held (v # vs) = prefer_loop held' vs" by (simp add: held'_def)
    ultimately have "snd ` set (prefer_loop held (v # vs)) \<subseteq> snd ` set held' \<union> set vs"
      using Cons.IH [of held'] by simp
    also have "\<dots> \<subseteq> snd ` set held \<union> set (v # vs)"
      using \<open>snd ` set held' \<subseteq> insert v (snd ` set held)\<close> by fastforce
    finally show ?case .
  qed
  from this [of "[]"] show ?thesis by (simp add: prefer_org_def)
qed

lemma sort_key_cong_on:
  "(\<And>x. x \<in> set xs \<Longrightarrow> f x = g x) \<Longrightarrow> sort_key f xs = sort_key g xs"
proof (induction xs)
  case Nil
  then show ?case by simp
next
  case (Cons x xs)
  have "insort_key f x ys = insort_key g x ys" if "set ys \<subseteq> set xs" for ys
    using that Cons.prems by (induction ys) auto
  with Cons show ?case by simp
qed

lemma py_slice_subset: "set (py_slice xs a b) \<subseteq> set xs"
  unfolding py_slice_def Let_def by (meson dual_order.trans set_drop_subset set_take_subset)

lemma value_by_code_same:
  assumes "same_reads e t db db'" "like_type t t'"
  shows "value_by_code e db' t' code = value_by_code e db t code"
  by (simp add: value_by_code_def same_reads_visible(1) [OF assms])

lemma selected_values_subset: "set (selected_values e db t act q par) \<subseteq> set (visible_values e db t)"
proof -
  have "set (prefer_org (filter P (visible_values e db t))) \<subseteq> set (visible_values e db t)" for P
    using prefer_org_subset [of "filter P (visible_values e db t)"] by auto
  then show ?thesis by (auto simp: selected_values_def Let_def split: option.splits)
qed

lemma list_values_same:
  assumes same: "same_reads e t db db'" and t': "like_type t t'"
  shows "list_values e db' t' lang act q par page psize = list_values e db t lang act q par page psize"
proof -
  note vis = same_reads_visible [OF same t']
  have sel: "selected_values e db' t' act q par = selected_values e db t act q par"
  proof -
    have "filter (value_matches db' n) (prefer_org (filter P (visible_values e db t))) =
          filter (value_matches db n) (prefer_org (filter P (visible_values e db t)))" for n P
    proof (rule filter_cong)
      fix v assume "v \<in> set (prefer_org (filter P (visible_values e db t)))"
      then have "v \<in> set (visible_values e db t)" using prefer_org_subset by force
      then show "value_matches db' n v = value_matches db n v"
        by (rule same_children_reads(3) [OF vis(2)])
    qed simp
    moreover have "parent_filter e db' t' par = parent_filter e db t par"
      by (simp add: fun_eq_iff parent_filter_def value_by_code_same [OF same t'] split: option.splits)
    ultimately show ?thesis by (simp add: selected_values_def Let_def vis(1) split: option.splits)
  qed
  have lab: "label_str db' v lang = label_str db v lang" if "v \<in> set (selected_values e db t act q par)" for v
    using that selected_values_subset vis(2) by (blast intro: same_children_reads(1))
  have ord: "order_values db' t' lang (selected_values e db t act q par) =
        order_values db t lang (selected_values e db t act q par)"
    using lab t' by (auto simp: order_values_def like_type_def intro!: sort_key_cong_on)
  have "set (order_values db t lang (selected_values e db t act q par)) \<subseteq> set (visible_values e db t)"
    using selected_values_subset by (simp add: order_values_def)
  then have win: "set (py_slice (order_values db t lang (selected_values e db t act q par)) a b)
      \<subseteq> set (visible_values e db t)" for a b
    using py_slice_subset by (rule order_trans [rotated])
  have ser: "map (\<lambda>v. serialize_value db' v lang m) (py_slice
        (order_values db t lang (selected_values e db t act q par)) a b) =
      map (\<lambda>v. serialize_value db v lang m) (py_slice
        (order_values db t lang (selected_values e db t act q par)) a b)" for m a b
    by (rule map_cong [OF refl], rule same_children_reads(2), rule vis(2), rule subsetD [OF win])
  show ?thesis by (simp add: list_values_def Let_def sel ord ser vis(1))
qed

lemma scoped_by_id_same:
  assumes ok: "lookup_ok db" "lookup_ok db'" and same: "same_reads e t db db'" and t': "like_type t t'"
    and v: "v \<in> set (visible_values e db t)" and p: "lv_parent v = Some i \<or> lv_superseded v = Some i"
  shows "\<exists>r\<in>set (visible_values e db t). scoped_by_id e db t i = Some r \<and> scoped_by_id e db' t' i = Some r"
proof -
  have vv: "v \<in> set (ld_values db)" "lv_type v = lt_id t" "org_scoped e (Some t) v"
    using v by (auto simp: visible_values_def)
  have "home_id (lv_org v) (lv_type v) i db"
    using lookup_okD(7) [OF ok(1) vv(1)] p unfolding points_home_iff by metis
  then obtain r where r: "r \<in> set (ld_values db)" "lv_id r = i" "lv_org r = lv_org v" "lv_type r = lt_id t"
    using vv(2) by (auto simp: home_id_iff)
  then have rv: "r \<in> set (visible_values e db t)"
    using vv(3) by (auto simp: visible_values_def org_scoped_def split: if_splits)
  have found: "scoped_by_id e s u i = Some r"
    if s: "lookup_ok s" and u: "r \<in> set (visible_values e s u)" for s u
  proof -
    from u have mem: "r \<in> set (ld_values s)" "org_scoped e (Some u) r" by (auto simp: visible_values_def)
    then obtain q where q: "scoped_by_id e s u i = Some q"
      using r(2) by (cases "scoped_by_id e s u i") (auto simp: scoped_by_id_def first_where_None)
    then have "q \<in> set (ld_values s)" "lv_id q = lv_id r"
      using r(2) unfolding scoped_by_id_def by (auto dest!: first_where_Some)
    with q mem same_id_same_row [OF s] show ?thesis by simp
  qed
  have "r \<in> set (visible_values e db' t')" using rv same_reads_visible(1) [OF same t'] by simp
  with found ok rv show ?thesis by blast
qed

lemma get_value_read_same:
  assumes ok: "lookup_ok db" "lookup_ok db'" and same: "same_reads e t db db'" and t': "like_type t t'"
  shows "get_value_read e db' t' code lang follow = get_value_read e db t code lang follow"
proof (cases "value_by_code e db t code")
  case None
  then show ?thesis
    using t' by (simp add: get_value_read_def value_by_code_same [OF same t'] like_type_def)
next
  case (Some v0)
  then have v0: "v0 \<in> set (visible_values e db t)" using value_by_code_Some by blast
  have fol: "followed e db' t' follow v0 = followed e db t follow v0 \<and>
      followed e db t follow v0 \<in> set (visible_values e db t)"
    using v0 scoped_by_id_same [OF ok same t' v0] by (fastforce simp: followed_def split: option.splits)
  let ?v = "followed e db t follow v0"
  have "read_code_map e db' t' ?v = read_code_map e db t ?v"
    using scoped_by_id_same [OF ok same t' conjunct2 [OF fol]]
    by (fastforce simp: read_code_map_def split: option.splits)
  moreover have "serialize_value db' ?v lang m = serialize_value db ?v lang m" for m
    by (rule same_children_reads(2) [OF same_reads_visible(2) [OF same t' conjunct2 [OF fol]]])
  ultimately show ?thesis
    using Some fol by (simp add: get_value_read_def value_by_code_same [OF same t'] Let_def)
qed

lemma resolve_codes_same:
  assumes same: "same_reads e t db db'" and t': "like_type t t'"
  shows "resolve_codes e db' t' codes lang = resolve_codes e db t codes lang"
proof -
  have "map (\<lambda>v. (lv_code v, label_str db' v lang)) (org_last (filter P (visible_values e db t))) =
        map (\<lambda>v. (lv_code v, label_str db v lang)) (org_last (filter P (visible_values e db t)))" for P
    using same_reads_visible(2) [OF same t']
    by (auto simp: org_last_def intro: same_children_reads(1))
  note this [of "\<lambda>v. lv_code v \<in> set codes"]
  then show ?thesis by (simp only: resolve_codes_def Let_def same_reads_visible(1) [OF same t'])
qed

lemma list_values_org:
  assumes "current_org e' = current_org e"
  shows "list_values e' db t = list_values e db t"
proof -
  have vis: "visible_values e' db t = visible_values e db t"
    by (simp add: visible_values_def org_scoped_def assms)
  then have code: "value_by_code e' db t = value_by_code e db t"
    by (simp add: fun_eq_iff value_by_code_def)
  have "parent_filter e' db t = parent_filter e db t"
    by (simp add: fun_eq_iff parent_filter_def code split: option.splits)
  with vis have "selected_values e' db t = selected_values e db t"
    by (simp add: fun_eq_iff selected_values_def)
  with vis show ?thesis by (simp add: fun_eq_iff list_values_def)
qed


text \<open>
  The ETag of a listing determines the version, the language, the organisation and the digest of
  the request shape, and the shape determines every field of the request: the delimiters cannot be
  forged because \<open>repr\<close> quotes and escapes, and neither an integer nor the digest contains a dot.
\<close>

lemma hex_digit_inj:
  assumes "i < 16" "j < 16" "hex_digit i = hex_digit j"
  shows "i = j"
proof -
  have "list_all (\<lambda>i. list_all (\<lambda>j. hex_digit i = hex_digit j \<longrightarrow> i = j) [0..<16]) [0..<16]"
    by code_simp
  with assms show ?thesis by (simp add: list_all_iff)
qed

definition escape_tail :: "char \<Rightarrow> char \<Rightarrow> string option" where
  "escape_tail q c =
     (let n = of_char c :: nat in
      if c = q \<or> n = 92 then Some [c]
      else if n = 9 then Some ''t''
      else if n = 10 then Some ''n''
      else if n = 13 then Some ''r''
      else if n < 32 \<or> (127 \<le> n \<and> n \<le> 160) \<or> n = 173
      then Some [CHR ''x'', hex_digit (n div 16), hex_digit (n mod 16)]
      else None)"

lemma repr_char_escape:
  "repr_char q c = (case escape_tail q c of None \<Rightarrow> [c] | Some s \<Rightarrow> char_of (92::nat) # s)"
  by (simp add: repr_char_def escape_tail_def Let_def)

definition is_quote :: "char \<Rightarrow> bool" where
  "is_quote q = (q = char_of (39::nat) \<or> q = char_of (34::nat))"

lemma is_quote_iff: "is_quote q \<longleftrightarrow> q = CHR 0x27 \<or> q = CHR 0x22"
proof -
  have "char_of (39::nat) = CHR 0x27" "char_of (34::nat) = CHR 0x22" by code_simp+
  then show ?thesis by (simp add: is_quote_def)
qed

lemma quote_not_letter: "is_quote q \<Longrightarrow> q \<notin> set ''tnrxNTF, 0123456789-''"
  by (auto simp: is_quote_iff)

lemma escape_tail_cancel:
  assumes q: "is_quote q" and c: "escape_tail q c = Some s" and d: "escape_tail q d = Some r"
    and eq: "s @ u = r @ w"
  shows "c = d \<and> u = w"
proof -
  have letters: "of_char c \<noteq> (92::nat) \<Longrightarrow> c \<noteq> CHR 0x5C" for c by auto
  have nq: "CHR ''t'' \<noteq> q" "CHR ''n'' \<noteq> q" "CHR ''r'' \<noteq> q" "CHR ''x'' \<noteq> q"
    using quote_not_letter [OF q] by auto
  have hex: "of_char c = (of_char d :: nat)"
    if "hex_digit (of_char c div 16) = hex_digit (of_char d div 16)"
      "hex_digit (of_char c mod 16) = hex_digit (of_char d mod 16)"
  proof -
    have "(of_char c :: nat) < 16 * 16" "(of_char d :: nat) < 16 * 16" by simp_all
    then have "of_char c div 16 < (16 :: nat)" "of_char d div 16 < (16 :: nat)"
      by (simp_all only: less_mult_imp_div_less)
    then have "of_char c div 16 = (of_char d div 16 :: nat)" using that(1) hex_digit_inj by blast
    moreover have "of_char c mod 16 = (of_char d mod 16 :: nat)" using that(2) hex_digit_inj by simp
    ultimately show ?thesis by (metis div_mult_mod_eq)
  qed
  show ?thesis
    using c d eq nq hex by (auto simp: escape_tail_def Let_def split: if_splits)
qed

lemma escape_none:
  assumes "is_quote q" "escape_tail q c = None"
  shows "c \<noteq> q" "c \<noteq> char_of (92::nat)"
  using assms by (auto simp: escape_tail_def Let_def split: if_splits)

lemma quote_not_backslash: "is_quote q \<Longrightarrow> q \<noteq> char_of (92::nat)"
proof -
  have "char_of (92::nat) = CHR 0x5C" by code_simp
  then show "is_quote q \<Longrightarrow> ?thesis" by (auto simp: is_quote_iff)
qed

lemma repr_char_cancel:
  assumes q: "is_quote q" and eq: "repr_char q c @ u = repr_char q d @ w"
  shows "c = d \<and> u = w"
proof (cases "escape_tail q c")
  case c: None
  show ?thesis
  proof (cases "escape_tail q d")
    case None
    with c eq show ?thesis by (simp add: repr_char_escape)
  next
    case (Some r)
    with c eq have "c = char_of (92::nat)" by (simp add: repr_char_escape)
    with escape_none(2) [OF q c] show ?thesis by contradiction
  qed
next
  case c: (Some s)
  show ?thesis
  proof (cases "escape_tail q d")
    case None
    with c eq have "d = char_of (92::nat)" by (simp add: repr_char_escape)
    with escape_none(2) [OF q None] show ?thesis by contradiction
  next
    case (Some r)
    with c eq have "s @ u = r @ w" by (simp add: repr_char_escape)
    then show ?thesis by (rule escape_tail_cancel [OF q c Some])
  qed
qed

lemma repr_char_not_quote:
  assumes q: "is_quote q"
  shows "q # u \<noteq> repr_char q c @ w"
proof (cases "escape_tail q c")
  case None
  then show ?thesis using escape_none(1) [OF q None] by (simp add: repr_char_escape)
next
  case (Some s)
  then show ?thesis using quote_not_backslash [OF q] by (simp add: repr_char_escape)
qed

lemma repr_body_cancel:
  assumes q: "is_quote q"
  shows "concat (map (repr_char q) s) @ q # u = concat (map (repr_char q) r) @ q # w \<Longrightarrow>
         s = r \<and> u = w"
proof (induction s arbitrary: r)
  case Nil
  show ?case
  proof (cases r)
    case Nil
    with Nil.prems show ?thesis by simp
  next
    case (Cons d r')
    with Nil.prems have "q # u = repr_char q d @ (concat (map (repr_char q) r') @ q # w)" by simp
    with repr_char_not_quote [OF q] show ?thesis by blast
  qed
next
  case (Cons c s)
  show ?case
  proof (cases r)
    case Nil
    with Cons.prems have "q # w = repr_char q c @ (concat (map (repr_char q) s) @ q # u)" by simp
    with repr_char_not_quote [OF q] show ?thesis by blast
  next
    case (Cons d r')
    with Cons.prems have "repr_char q c @ (concat (map (repr_char q) s) @ q # u) =
        repr_char q d @ (concat (map (repr_char q) r') @ q # w)" by simp
    from repr_char_cancel [OF q this] Cons.IH Cons show ?thesis by simp
  qed
qed

lemma py_repr_cancel:
  assumes "py_repr s @ u = py_repr r @ w"
  shows "s = r \<and> u = w"
proof -
  define quote where "quote = (\<lambda>x :: string. char_of (if char_of (39::nat) \<in> set x \<and>
      char_of (34::nat) \<notin> set x then 34 else 39 :: nat) :: char)"
  have shape: "py_repr x = quote x # concat (map (repr_char (quote x)) x) @ [quote x]" for x
    by (simp add: py_repr_def Let_def quote_def)
  have q: "is_quote (quote s)" by (simp add: quote_def is_quote_def)
  from assms have eq: "quote s # (concat (map (repr_char (quote s)) s) @ quote s # u) =
      quote r # (concat (map (repr_char (quote r)) r) @ quote r # w)"
    by (simp only: shape append_Cons append_assoc append_Nil)
  note eq' = eq [unfolded list.inject]
  from eq' have "concat (map (repr_char (quote s)) s) @ quote s # u =
      concat (map (repr_char (quote s)) r) @ quote s # w" by metis
  then show ?thesis by (rule repr_body_cancel [OF q])
qed

lemma repr_first: "\<exists>q rest. py_repr s = q # rest \<and> is_quote q"
  by (simp add: py_repr_def Let_def is_quote_def)

lemma repr_optional_cancel:
  assumes "repr_optional a @ u = repr_optional b @ w"
  shows "a = b \<and> u = w"
proof -
  have none: "''None'' @ x \<noteq> py_repr s @ y" for x y s
  proof
    assume eq: "''None'' @ x = py_repr s @ y"
    obtain q rest where q: "py_repr s = q # rest" "is_quote q" using repr_first by blast
    with eq have "q = CHR ''N''" by simp
    with quote_not_letter [OF q(2)] show False by simp
  qed
  show ?thesis
  proof (cases a)
    case a: None
    show ?thesis
    proof (cases b)
      case None
      with a assms show ?thesis by (simp add: repr_optional_def)
    next
      case (Some s)
      with a assms have "''None'' @ u = py_repr s @ w" by (simp add: repr_optional_def)
      with none show ?thesis by blast
    qed
  next
    case a: (Some r)
    show ?thesis
    proof (cases b)
      case None
      with a assms have "''None'' @ w = py_repr r @ u" by (simp add: repr_optional_def)
      with none show ?thesis by blast
    next
      case (Some s)
      with a assms have "py_repr r @ u = py_repr s @ w" by (simp add: repr_optional_def)
      from py_repr_cancel [OF this] a Some show ?thesis by simp
    qed
  qed
qed

lemma until_cancel:
  fixes c :: char
  assumes "c \<notin> set a" "c \<notin> set b" "a @ c # u = b @ c # w"
  shows "a = b \<and> u = w"
  using assms(3) split_first_Some [of c "a @ c # u" a u] split_first_Some [of c "a @ c # u" b w] assms(1,2)
  by simp

lemma int_text_no: "\<not> int_char c \<Longrightarrow> c \<notin> set (int_text i)"
  using int_text_chars by blast

lemma comma_dot_o: "\<not> int_char (CHR '','')" "\<not> int_char (CHR ''.'')" "\<not> int_char (CHR ''o'')"
  "\<not> int_char (CHR '')'')"
  by code_simp+

lemma int_text_cancel:
  assumes "\<not> int_char c" "int_text i @ c # u = int_text j @ c # w"
  shows "i = j \<and> u = w"
  using until_cancel [OF int_text_no int_text_no, OF assms(1,1,2)] int_text_inj by blast

lemma shape_text_inj:
  assumes "shape_text r = shape_text r'"
  shows "lq_active r' = lq_active r \<and> lq_q r' = lq_q r \<and> lq_parent r' = lq_parent r \<and>
         lq_page r' = lq_page r \<and> lq_page_size r' = lq_page_size r"
proof -
  have bool: "repr_bool a @ '', '' @ u = repr_bool b @ '', '' @ w \<Longrightarrow> a = b \<and> u = w" for a b u w
    by (cases a; cases b) (auto simp: repr_bool_def)
  from assms have 1: "repr_bool (lq_active r) @ '', '' @ (repr_optional (lq_q r) @ '', '' @
        repr_optional (lq_parent r) @ '', '' @ int_text (lq_page r) @ '', '' @ int_text (lq_page_size r) @ '')'') =
      repr_bool (lq_active r') @ '', '' @ (repr_optional (lq_q r') @ '', '' @
        repr_optional (lq_parent r') @ '', '' @ int_text (lq_page r') @ '', '' @ int_text (lq_page_size r') @ '')'')"
    by (simp add: shape_text_def)
  note 2 = bool [OF 1]
  note 3 = repr_optional_cancel [OF conjunct2 [OF 2]]
  from conjunct2 [OF 3] have 4: "repr_optional (lq_parent r) @ ('', '' @ int_text (lq_page r) @ '', '' @
        int_text (lq_page_size r) @ '')'') =
      repr_optional (lq_parent r') @ ('', '' @ int_text (lq_page r') @ '', '' @ int_text (lq_page_size r') @ '')'')"
    by simp
  note 5 = repr_optional_cancel [OF 4]
  from conjunct2 [OF 5] have 6: "int_text (lq_page r) @ CHR '','' # ('' '' @ int_text (lq_page_size r) @ '')'') =
      int_text (lq_page r') @ CHR '','' # ('' '' @ int_text (lq_page_size r') @ '')'')"
    by simp
  note 7 = int_text_cancel [OF comma_dot_o(1) 6]
  from conjunct2 [OF 7] have 8: "int_text (lq_page_size r) @ CHR '')'' # [] =
      int_text (lq_page_size r') @ CHR '')'' # []" by simp
  from int_text_cancel [OF comma_dot_o(4) 8] 2 3 5 7 show ?thesis by simp
qed

definition dot_free :: "string \<Rightarrow> bool" where
  "dot_free s = (CHR ''.'' \<notin> set s)"

lemma list_etag_inj:
  assumes dots: "\<And>s. dot_free (sha256 s)"
    and eq: "list_etag sha256 e t r = list_etag sha256 e' t' r'" and key: "lt_key t' = lt_key t"
    and org: "current_org e \<noteq> Some 0" "current_org e' \<noteq> Some 0"
  shows "lt_version t' = lt_version t" "lq_lang r' = lq_lang r" "current_org e' = current_org e"
    "sha256 (shape_text r') = sha256 (shape_text r)"
proof -
  let ?o = "\<lambda>e. case current_org e of Some org \<Rightarrow> org | None \<Rightarrow> 0"
  let ?rest = "\<lambda>e r. lq_lang r @ ''.o'' @ int_text (?o e) @ ''.'' @ sha256 (shape_text r) @ [CHR 0x22]"
  from eq key have 1: "int_text (lt_version t) @ CHR ''.'' # ?rest e r =
      int_text (lt_version t') @ CHR ''.'' # ?rest e' r'"
    by (simp add: list_etag_def)
  note 2 = int_text_cancel [OF comma_dot_o(2) 1]
  from conjunct2 [OF 2] have 3: "rev (sha256 (shape_text r)) @ CHR ''.'' # (rev (int_text (?o e)) @ ''o.'' @ rev (lq_lang r)) =
      rev (sha256 (shape_text r')) @ CHR ''.'' # (rev (int_text (?o e')) @ ''o.'' @ rev (lq_lang r'))"
    by (drule_tac arg_cong [where f = rev]) simp
  have nd: "CHR ''.'' \<notin> set (rev (sha256 s))" for s using dots [of s] by (simp add: dot_free_def)
  note 4 = until_cancel [OF nd nd 3]
  from conjunct2 [OF 4] have 5: "rev (int_text (?o e)) @ CHR ''o'' # (CHR ''.'' # rev (lq_lang r)) =
      rev (int_text (?o e')) @ CHR ''o'' # (CHR ''.'' # rev (lq_lang r'))" by simp
  have no: "CHR ''o'' \<notin> set (rev (int_text i))" for i using int_text_no [OF comma_dot_o(3)] by simp
  note 6 = until_cancel [OF no no 5]
  show "lt_version t' = lt_version t" using 2 by simp
  show "lq_lang r' = lq_lang r" using conjunct2 [OF 6] by simp
  show "sha256 (shape_text r') = sha256 (shape_text r)" using conjunct1 [OF 4] by simp
  have "?o e = ?o e'" using conjunct1 [OF 6] int_text_inj by simp
  with org show "current_org e' = current_org e" by (auto split: option.splits)
qed

end
