(* ===== verification/LookupGuarantees.thy ===== *)
theory LookupGuarantees
  imports LookupReads
begin

text \<open>
  The guarantees of the lookup package: whose rows a call may touch, what the reads of everybody
  else see of it, when a 304 may be served, and what the two seeders do.
\<close>

subsection \<open>Calls\<close>

datatype lookup_call =
    AdminCall string value_call
  | OpenListCall string string string
  | CreateTypeCall type_create
  | EnsureTypeCall string "string option" "string option" bool bool "string option" sort_mode
      "type_scope option"
  | SeedOrgCall int
  | SeedFileCall seed_type_spec

definition outcome_of :: "'a lookup_op \<Rightarrow> bool \<times> lookup_db" where
  "outcome_of out = ((case fst out of Inl _ \<Rightarrow> False | Inr _ \<Rightarrow> True), snd out)"

definition call_result :: "lookup_env \<Rightarrow> lookup_db \<Rightarrow> lookup_call \<Rightarrow> bool \<times> lookup_db" where
  "call_result e db c =
     (case c of
        AdminCall key vc \<Rightarrow> outcome_of (admin_value e db key vc)
      | OpenListCall key label lang \<Rightarrow> outcome_of (get_or_create_value e db key label lang)
      | CreateTypeCall p \<Rightarrow> outcome_of (create_type e db p)
      | EnsureTypeCall key name d op h cs mode scope \<Rightarrow>
          outcome_of (ensure_type e db key name d op h cs mode scope)
      | SeedOrgCall org \<Rightarrow> outcome_of (seed_org_lookups e db org)
      | SeedFileCall spec \<Rightarrow> outcome_of (seed_type e db spec))"

text \<open>On whose behalf a call writes: the seeders ignore the session's organisation.\<close>

definition call_writer :: "lookup_env \<Rightarrow> lookup_call \<Rightarrow> int option" where
  "call_writer e c =
     (case c of SeedOrgCall org \<Rightarrow> Some org | SeedFileCall _ \<Rightarrow> None | _ \<Rightarrow> current_org e)"

text \<open>Labels of a new value in distinct languages, and files the loader accepted.\<close>

definition call_ok :: "lookup_call \<Rightarrow> bool" where
  "call_ok c =
     (case c of AdminCall _ vc \<Rightarrow> value_call_ok vc | SeedFileCall spec \<Rightarrow> spec_ok spec | _ \<Rightarrow> True)"

lemma outcome_of_False: "fst (outcome_of out) = False \<longleftrightarrow> (\<exists>x. fst out = Inl x)"
  by (auto simp: outcome_of_def split: sum.splits)

lemma outcome_of_snd [simp]: "snd (outcome_of out) = snd out"
  by (simp add: outcome_of_def)

lemma get_or_create_refused:
  assumes ok: "lookup_ok db" and ref: "fst (get_or_create_value e db key label lang) = Inl x"
  shows "snd (get_or_create_value e db key label lang) = db"
proof (cases "get_type db key")
  case (Inl y)
  then show ?thesis by (simp add: get_or_create_value_def)
next
  case (Inr t)
  then have t: "t \<in> set (ld_types db)" by (auto simp: get_type_Inr dest: type_by_key_Some)
  let ?out = "create_value e db t (Some (slugify e (py_strip label)))
                [\<lparr>ti_lang = lang, ti_label = py_strip label, ti_short = None\<rparr>] False 0 None [] []"
  have "did e t db ?out" by (rule create_value_did [OF ok t]) simp
  with ref Inr show ?thesis
    by (cases ?out) (auto simp: get_or_create_value_def Let_def did_def rbind_def split: option.splits sum.splits)
qed

lemma call_moved:
  assumes ok: "lookup_ok db" and c: "call_ok c"
  shows "moved (call_writer e c) db (snd (call_result e db c))"
    "\<not> fst (call_result e db c) \<Longrightarrow> snd (call_result e db c) = db"
proof -
  have seed: "moved (Some org) db (snd (seed_org_lookups e db org)) \<and>
      (\<exists>n. fst (seed_org_lookups e db org) = Inr n)" for org
    by (rule seed_org_works [OF ok, of e org]) (simp add: org_seeded_def)
  have ens: "moved w db (snd (ensure_type e db key name d op h cs mode scope)) \<and>
      (\<forall>x. fst (ensure_type e db key name d op h cs mode scope) = Inl x \<longrightarrow>
           snd (ensure_type e db key name d op h cs mode scope) = db)" for w key name d op h cs mode scope
    using ensure_type_moved(1,2) by (metis prod.collapse)
  show "moved (call_writer e c) db (snd (call_result e db c))"
    using c admin_value_works(1) [OF ok] get_or_create_moved [OF ok] create_type_moved ens seed
      seed_type_works(1) [OF ok]
    by (cases c) (simp_all add: call_result_def call_writer_def call_ok_def)
  show "snd (call_result e db c) = db" if no: "\<not> fst (call_result e db c)"
  proof (cases c)
    case (AdminCall key vc)
    then show ?thesis
      using c no admin_value_works(2) [OF ok]
      by (auto simp: call_result_def call_ok_def outcome_of_False [simplified])
  next
    case (OpenListCall key label lang)
    then show ?thesis
      using no get_or_create_refused [OF ok] by (auto simp: call_result_def outcome_of_False [simplified])
  next
    case (CreateTypeCall p)
    then show ?thesis
      using no create_type_moved by (auto simp: call_result_def outcome_of_False [simplified])
  next
    case (EnsureTypeCall key name d op h cs mode scope)
    then show ?thesis using no ens by (auto simp: call_result_def outcome_of_False [simplified])
  next
    case (SeedOrgCall org)
    then show ?thesis using no seed [of org] by (auto simp: call_result_def outcome_of_False [simplified])
  next
    case (SeedFileCall spec)
    then show ?thesis
      using c no seed_type_works(3) [OF ok]
      by (auto simp: call_result_def call_ok_def outcome_of_False [simplified])
  qed
qed

definition lookup_run :: "(lookup_env \<times> lookup_call) list \<Rightarrow> lookup_db \<Rightarrow> lookup_db" where
  "lookup_run cs db = fold (\<lambda>(e, c) s. snd (call_result e s c)) cs db"

lemma lookup_run_tracked:
  assumes "lookup_ok db" "list_all (\<lambda>ec. call_ok (snd ec)) cs"
  shows "lookup_ok (lookup_run cs db) \<and> tracked db (lookup_run cs db) \<and>
         row_names db \<subseteq> row_names (lookup_run cs db)"
  using assms
proof (induction cs arbitrary: db)
  case Nil
  then show ?case by (simp add: lookup_run_def tracked_refl)
next
  case (Cons ec cs)
  obtain e c where ec: "ec = (e, c)" by (cases ec)
  let ?db1 = "snd (call_result e db c)"
  have mv: "moved (call_writer e c) db ?db1" using Cons.prems call_moved(1) by (simp add: ec)
  note one = movedD [OF mv Cons.prems(1)]
  have "lookup_run (ec # cs) db = lookup_run cs ?db1" by (simp add: lookup_run_def ec)
  moreover from Cons.prems(2) have "list_all (\<lambda>ec. call_ok (snd ec)) cs" by simp
  note two = Cons.IH [OF one(1) this]
  ultimately show ?case
    using tracked_trans [OF one(3)] two subset_trans [OF one(4)] by metis
qed


text \<open>The stated properties of asas-lookups, each with a concrete instance.\<close>

subsection \<open>A small deployment\<close>

text \<open>
  A platform type with one value, and an organisation-owned type whose template has two values,
  the second below the first; organisation 7 has its own row for the first.
\<close>

definition demo_platform :: lookup_env where
  "demo_platform = \<lparr>le_resolver = None, le_now = 86400000000 * 100, le_sha1 = (\<lambda>_. ''0123456789abcdef'')\<rparr>"

definition demo_org :: lookup_env where
  "demo_org = \<lparr>le_resolver = Some (Some 7), le_now = 86400000000 * 100, le_sha1 = (\<lambda>_. ''0123456789abcdef'')\<rparr>"

definition demo_other :: lookup_env where
  "demo_other = \<lparr>le_resolver = Some (Some 8), le_now = 86400000000 * 100, le_sha1 = (\<lambda>_. ''0123456789abcdef'')\<rparr>"

definition demo_type :: "int \<Rightarrow> string \<Rightarrow> type_scope \<Rightarrow> lookup_type" where
  "demo_type i key scope =
     \<lparr>lt_id = i, lt_key = key, lt_name = key, lt_description = None, lt_is_open = False,
      lt_is_hierarchical = True, lt_code_system = None, lt_scope = scope, lt_default_sort = SortByLabel,
      lt_version = 1, lt_created_at = 0, lt_updated_at = 0\<rparr>"

definition demo_value :: "int \<Rightarrow> int \<Rightarrow> int option \<Rightarrow> string \<Rightarrow> int option \<Rightarrow> lookup_value" where
  "demo_value i ty org code parent =
     \<lparr>lv_id = i, lv_type = ty, lv_org = org, lv_code = code, lv_parent = parent, lv_status = LsActive,
      lv_is_default = False, lv_sort_order = 0, lv_valid_from = None, lv_valid_to = None,
      lv_superseded = None, lv_meta = Some [], lv_created_at = 0, lv_updated_at = 0\<rparr>"

definition demo_label :: "int \<Rightarrow> int \<Rightarrow> string \<Rightarrow> lookup_translation" where
  "demo_label i v l = \<lparr>ltr_id = i, ltr_value = v, ltr_lang = ''en'', ltr_label = l, ltr_short = None\<rparr>"

definition demo_lookups :: lookup_db where
  "demo_lookups =
     \<lparr>ld_types = [demo_type 1 ''country'' PlatformScope, demo_type 2 ''skill'' OrgScope],
      ld_values = [demo_value 1 1 None ''SA'' None, demo_value 2 2 None ''code'' None,
                   demo_value 3 2 None ''java'' (Some 2), demo_value 4 2 (Some 7) ''code'' None],
      ld_translations = [demo_label 1 1 ''Saudi Arabia'', demo_label 2 2 ''Coding'',
                         demo_label 3 3 ''Java'', demo_label 4 4 ''Programming''],
      ld_aliases = [\<lparr>la_id = 1, la_value = 3, la_lang = None, la_alias = ''JVM''\<rparr>]\<rparr>"

lemma demo_lookups_ok: "lookup_ok demo_lookups"
  by code_simp

subsection \<open>Who may write what\<close>

lemma call_effects:
  assumes "lookup_ok db" and "call_ok c" and "call_result e db c = (returned, db')"
  shows "lookup_ok db'"
    and "filter (\<lambda>v. lv_org v \<noteq> call_writer e c) (ld_values db') =
         filter (\<lambda>v. lv_org v \<noteq> call_writer e c) (ld_values db)"
    and "\<forall>v\<in>set (ld_values db). lv_org v \<noteq> call_writer e c \<longrightarrow>
           translations_of db' v = translations_of db v \<and> aliases_of db' v = aliases_of db v"
    and "row_names db \<subseteq> row_names db'"
    and "\<forall>t\<in>set (ld_types db). \<exists>t'\<in>set (ld_types db').
           lt_id t' = lt_id t \<and> lt_key t' = lt_key t \<and> lt_scope t' = lt_scope t"
    and "\<not> returned \<longrightarrow> db' = db"
proof -
  have mv: "moved (call_writer e c) db db'" and no: "\<not> returned \<longrightarrow> db' = db"
    using call_moved [OF assms(1,2), of e] assms(3) by auto
  note m = movedD [OF mv assms(1)]
  show "lookup_ok db'" "row_names db \<subseteq> row_names db'" "\<not> returned \<longrightarrow> db' = db"
    using m no by blast+
  show "\<forall>t\<in>set (ld_types db). \<exists>t'\<in>set (ld_types db').
          lt_id t' = lt_id t \<and> lt_key t' = lt_key t \<and> lt_scope t' = lt_scope t"
    using m(3) unfolding tracked_def type_after_def by blast
  show "filter (\<lambda>v. lv_org v \<noteq> call_writer e c) (ld_values db') =
        filter (\<lambda>v. lv_org v \<noteq> call_writer e c) (ld_values db)"
    "\<forall>v\<in>set (ld_values db). lv_org v \<noteq> call_writer e c \<longrightarrow>
       translations_of db' v = translations_of db v \<and> aliases_of db' v = aliases_of db v"
    using m(2) by (simp_all add: same_where_def same_children_def)
qed

text \<open>
  C5: a call of the package, whatever it is and whether it returns or raises, keeps the invariant
  of the tables: unique keys, one row per type, code and owner, one label per language, labels and
  aliases of existing rows, owned rows only under org-scoped types, open types org-scoped, and
  parent and supersede pointers inside the type and owner of their row.  Every row of another owner
  than the call's writer stays exactly as it was with its labels and aliases, no row is ever
  deleted or given another type, code or owner, no type is deleted or given another key or scope,
  and a call that raises has changed nothing.  Left out are two kinds of call, \<open>call_ok\<close>: the
  creation of a value with two labels in one language, which raises after its first transaction
  has committed, and a type of a file that the loader refuses.
\<close>

theorem calls_stay_home:
  assumes "lookup_ok db" and "call_ok c" and "call_result e db c = (returned, db')"
  shows "lookup_ok db' \<and>
    filter (\<lambda>v. lv_org v \<noteq> call_writer e c) (ld_values db') =
      filter (\<lambda>v. lv_org v \<noteq> call_writer e c) (ld_values db) \<and>
    (\<forall>v\<in>set (ld_values db). lv_org v \<noteq> call_writer e c \<longrightarrow>
       translations_of db' v = translations_of db v \<and> aliases_of db' v = aliases_of db v) \<and>
    row_names db \<subseteq> row_names db' \<and>
    (\<forall>t\<in>set (ld_types db). \<exists>t'\<in>set (ld_types db').
       lt_id t' = lt_id t \<and> lt_key t' = lt_key t \<and> lt_scope t' = lt_scope t) \<and>
    (\<not> returned \<longrightarrow> db' = db)"
  by (intro conjI call_effects [OF assms])

lemma calls_stay_home_witness:
  "\<exists>db'. call_result demo_org demo_lookups (AdminCall ''skill'' (DeprecateValue ''code'' None None)) = (True, db') \<and>
     lookup_ok db' \<and> ld_values db' \<noteq> ld_values demo_lookups \<and> row_names demo_lookups \<subseteq> row_names db'"
proof -
  let ?c = "AdminCall ''skill'' (DeprecateValue ''code'' None None)"
  obtain r db' where run: "call_result demo_org demo_lookups ?c = (r, db')" by fastforce
  have "fst (call_result demo_org demo_lookups ?c)" by code_simp
  moreover have "ld_values (snd (call_result demo_org demo_lookups ?c)) \<noteq> ld_values demo_lookups" by code_simp
  moreover have "call_ok ?c" by code_simp
  ultimately show ?thesis
    using calls_stay_home [OF demo_lookups_ok _ run] run by auto
qed

definition edits_code :: "value_call \<Rightarrow> string option" where
  "edits_code c =
     (case c of
        CreateValue _ _ _ _ _ _ _ \<Rightarrow> None
      | UpdateValue code _ _ _ _ \<Rightarrow> Some code
      | DeprecateValue code _ _ \<Rightarrow> Some code
      | AddAlias code _ _ \<Rightarrow> Some code
      | RemoveAlias code _ \<Rightarrow> Some code
      | MergeValues code into \<Rightarrow> if code = into then None else Some code)"

lemma refusals:
  assumes "type_by_key db key = Some t" and "current_org e = Some org"
  shows "lt_scope t = PlatformScope \<Longrightarrow> edits_code c \<noteq> None \<Longrightarrow>
           admin_value e db key c = (Inl (platform_write_error t), db)"
    and "lt_scope t = PlatformScope \<Longrightarrow> ts \<noteq> [] \<Longrightarrow>
           admin_value e db key (CreateValue given ts d n p m als) = (Inl (platform_write_error t), db)"
    and "lt_scope t = OrgScope \<Longrightarrow> edits_code c = Some code \<Longrightarrow>
           \<forall>v\<in>set (ld_values db). lv_type v = lt_id t \<and> lv_code v = code \<longrightarrow> lv_org v \<noteq> Some org \<Longrightarrow>
           admin_value e db key c = (Inl (unknown_code code), db)"
proof -
  have t: "get_type db key = Inr t" using assms(1) by (simp add: get_type_Inr)
  have err: "value_for_write e db t code = Inl x \<Longrightarrow> edits_code c = Some code \<Longrightarrow>
      run_value_call e db t c = (Inl x, db)" for x code c
    by (auto simp: edits_code_def run_value_call_def update_value_def deprecate_value_def add_alias_def
        remove_alias_def merge_values_def split: value_call.splits if_splits)
  have route: "run_value_call e db t c = (Inl x, db) \<Longrightarrow> admin_value e db key c = (Inl x, db)" for x c
    by (simp add: admin_value_def admin_route_def t)
  show "admin_value e db key c = (Inl (platform_write_error t), db)"
    if "lt_scope t = PlatformScope" "edits_code c \<noteq> None"
  proof -
    from that(2) obtain code where "edits_code c = Some code" by blast
    moreover have "value_for_write e db t code = Inl (platform_write_error t)"
      using that(1) assms(2) by (simp add: value_for_write_def)
    ultimately show ?thesis by (intro route err)
  qed
  show "admin_value e db key (CreateValue given ts d n p m als) = (Inl (platform_write_error t), db)"
    if "lt_scope t = PlatformScope" "ts \<noteq> []"
    using that assms(2)
    by (intro route) (simp add: run_value_call_def create_value_def create_checked_def)
  show "admin_value e db key c = (Inl (unknown_code code), db)"
    if "lt_scope t = OrgScope" "edits_code c = Some code"
      "\<forall>v\<in>set (ld_values db). lv_type v = lt_id t \<and> lv_code v = code \<longrightarrow> lv_org v \<noteq> Some org"
  proof -
    have "owned_row db t code (Some org) = None"
      using that(3) by (auto simp: owned_row_def first_where_None)
    then have "value_for_write e db t code = Inl (unknown_code code)"
      using that(1) assms(2) by (simp add: value_for_write_def)
    then show ?thesis using that(2) by (intro route err)
  qed
qed

text \<open>
  C35: an organisation is refused with 403 on every value route of a platform type, and on an
  org-scoped type a code it does not own is a 404 whose text depends on the code alone, so that
  the existence of a template never shows; both leave the database as it was.
\<close>

theorem organisations_are_refused:
  assumes "type_by_key db key = Some t" and "current_org e = Some org"
  shows "(lt_scope t = PlatformScope \<and> edits_code c \<noteq> None \<longrightarrow>
            admin_value e db key c = (Inl (platform_write_error t), db)) \<and>
    (lt_scope t = PlatformScope \<and> ts \<noteq> [] \<longrightarrow>
       admin_value e db key (CreateValue given ts d n p m als) = (Inl (platform_write_error t), db)) \<and>
    (lt_scope t = OrgScope \<and> edits_code c = Some code \<and>
       (\<forall>v\<in>set (ld_values db). lv_type v = lt_id t \<and> lv_code v = code \<longrightarrow> lv_org v \<noteq> Some org) \<longrightarrow>
       admin_value e db key c = (Inl (unknown_code code), db))"
  using refusals [OF assms] by blast

lemma organisations_are_refused_witness:
  "admin_value demo_org demo_lookups ''country'' (AddAlias ''SA'' ''KSA'' None) =
     (Inl (platform_write_error (demo_type 1 ''country'' PlatformScope)), demo_lookups) \<and>
   admin_value demo_org demo_lookups ''skill'' (AddAlias ''java'' ''jvm'' None) =
     (Inl (unknown_code ''java''), demo_lookups)"
proof
  have t: "type_by_key demo_lookups ''country'' = Some (demo_type 1 ''country'' PlatformScope)"
    "type_by_key demo_lookups ''skill'' = Some (demo_type 2 ''skill'' OrgScope)" by code_simp+
  have og: "current_org demo_org = Some 7" by code_simp
  show "admin_value demo_org demo_lookups ''country'' (AddAlias ''SA'' ''KSA'' None) =
      (Inl (platform_write_error (demo_type 1 ''country'' PlatformScope)), demo_lookups)"
    using organisations_are_refused [OF t(1) og, where c = "AddAlias ''SA'' ''KSA'' None"]
    by (simp add: demo_type_def edits_code_def)
  show "admin_value demo_org demo_lookups ''skill'' (AddAlias ''java'' ''jvm'' None) =
      (Inl (unknown_code ''java''), demo_lookups)"
    using organisations_are_refused [OF t(2) og, where c = "AddAlias ''java'' ''jvm'' None" and code = "''java''"]
    by (simp add: demo_type_def edits_code_def demo_lookups_def demo_value_def)
qed

subsection \<open>What everybody else sees\<close>

lemma moved_reads:
  assumes mv: "moved w db db'" and ok: "lookup_ok db" and t: "type_by_key db key = Some t"
  obtains t' where "type_by_key db' key = Some t'" "like_type t t'" "type_after db db' t t'"
    "lookup_ok db'"
proof -
  note m = movedD [OF mv ok]
  obtain t' where "type_by_key db' key = Some t'" "type_after db db' t t'"
    using tracked_type [OF m(1,3) t] by blast
  then show thesis using that m(1) by (simp add: like_type_def type_after_def)
qed

text \<open>
  C9: on an org-scoped type the reads of an organisation (the listing in every shape, single
  values with their supersede and parent pointers followed, bulk resolution) are the same before
  and after any call of another writer, another organisation's or the platform's.
\<close>

theorem organisations_are_isolated:
  assumes "lookup_ok db" and "call_ok c" and "call_result e db c = (returned, db')"
    and "type_by_key db key = Some t" and "lt_scope t = OrgScope"
    and "current_org e2 \<noteq> call_writer e c"
  shows "\<exists>t'. type_by_key db' key = Some t' \<and>
     (\<forall>lang act q par page psize.
        list_values e2 db' t' lang act q par page psize = list_values e2 db t lang act q par page psize) \<and>
     (\<forall>code lang follow. get_value e2 db' key code lang follow = get_value e2 db key code lang follow) \<and>
     (\<forall>codes lang. resolve e2 db' key codes lang = resolve e2 db key codes lang)"
proof -
  have mv: "moved (call_writer e c) db db'" using call_moved(1) [OF assms(1,2), of e] assms(3) by simp
  obtain t' where t': "type_by_key db' key = Some t'" "like_type t t'" "lookup_ok db'"
    using moved_reads [OF mv assms(1,4)] by blast
  have same: "same_reads e2 t db db'"
    unfolding same_reads_def
    by (rule same_where_mono [OF movedD(2) [OF mv assms(1)]])
      (use assms(5,6) in \<open>auto simp: org_scoped_def\<close>)
  have "get_type db key = Inr t" "get_type db' key = Inr t'"
    using assms(4) t'(1) by (simp_all add: get_type_Inr)
  then show ?thesis
    using t' list_values_same [OF same t'(2)] get_value_read_same [OF assms(1) t'(3) same t'(2)]
      resolve_codes_same [OF same t'(2)]
    by (simp add: get_value_def resolve_def)
qed

lemma organisations_are_isolated_witness:
  "get_value demo_other (snd (call_result demo_org demo_lookups
       (AdminCall ''skill'' (DeprecateValue ''code'' None None)))) ''skill'' ''code'' ''en'' True
   = get_value demo_other demo_lookups ''skill'' ''code'' ''en'' True \<and>
   ld_values (snd (call_result demo_org demo_lookups
       (AdminCall ''skill'' (DeprecateValue ''code'' None None)))) \<noteq> ld_values demo_lookups"
proof -
  let ?c = "AdminCall ''skill'' (DeprecateValue ''code'' None None)"
  obtain r db' where run: "call_result demo_org demo_lookups ?c = (r, db')" by fastforce
  have t: "type_by_key demo_lookups ''skill'' = Some (demo_type 2 ''skill'' OrgScope)" by code_simp
  have "call_ok ?c" "current_org demo_other \<noteq> call_writer demo_org ?c" by code_simp+
  moreover have "lt_scope (demo_type 2 ''skill'' OrgScope) = OrgScope" by (simp add: demo_type_def)
  ultimately have "get_value demo_other db' ''skill'' ''code'' ''en'' True =
      get_value demo_other demo_lookups ''skill'' ''code'' ''en'' True"
    using organisations_are_isolated [OF demo_lookups_ok _ run t] by blast
  moreover have "ld_values (snd (call_result demo_org demo_lookups ?c)) \<noteq> ld_values demo_lookups" by code_simp
  ultimately show ?thesis using run by simp
qed

text \<open>
  C16: a 304 is only served for content that has not changed.  A client that got a listing with its
  tag and, after any sequence of calls by anybody, one after the other, asks again with the tag - by
  the same or another request on the same type, in the same or another organisation - is answered
  304 only when the fresh listing is the very one it holds.  Excluded (\<open>call_ok\<close>) is the creation of a
  value with two labels in one language, which fails after it has added the value without a new
  version, and files the loader refuses; so are two writers of one type at a time, see
  \<open>versions_can_miss_a_change\<close>.  The hypotheses on SHA-256 are that a digest contains no dot and that
  the two request shapes do not collide; organisations have ids other than 0.
\<close>

theorem not_modified_is_true:
  assumes "lookup_ok db" and "list_all (\<lambda>ec. call_ok (snd ec)) calls"
    and first: "get_values sha256 e db key r None = Listing etag body"
    and second: "get_values sha256 e' (lookup_run calls db) key r' (Some etag) = NotModified etag'"
    and "\<And>s. dot_free (sha256 s)"
    and "sha256 (shape_text r') = sha256 (shape_text r) \<Longrightarrow> shape_text r' = shape_text r"
    and "current_org e \<noteq> Some 0" and "current_org e' \<noteq> Some 0"
  shows "get_values sha256 e' (lookup_run calls db) key r' None = Listing etag body"
proof -
  let ?db' = "lookup_run calls db"
  note run = lookup_run_tracked [OF assms(1,2)]
  from first obtain t where t: "type_by_key db key = Some t" "query_valid r"
    "etag = list_etag sha256 e t r" "body = list_body e db t r"
    by (auto simp: get_values_def get_type_Inr Let_def split: if_splits sum.splits)
  from second obtain t' where t': "type_by_key ?db' key = Some t'" "query_valid r'"
    "etag = list_etag sha256 e' t' r'" "etag' = etag"
    by (auto simp: get_values_def get_type_Inr Let_def split: if_splits sum.splits)
  from tracked_type [OF conjunct1 [OF run] _ t(1)] run obtain u where
    "type_by_key ?db' key = Some u" "type_after db ?db' t u" by blast
  with t'(1) have after: "type_after db ?db' t t'" by simp
  then have like: "like_type t t'" by (simp add: type_after_def like_type_def)
  have tags: "list_etag sha256 e t r = list_etag sha256 e' t' r'" using t(3) t'(3) by simp
  have key: "lt_key t' = lt_key t" using like by (simp add: like_type_def)
  note inj = list_etag_inj [OF assms(5) tags key assms(7,8)]
  have "shape_text r = shape_text r'" using assms(6) [OF inj(4)] by simp
  from shape_text_inj [OF this] inj(2) have r': "r' = r" by simp
  have "same_where (\<lambda>v. lv_type v = lt_id t) db ?db'"
    using after inj(1) by (simp add: type_after_def same_type_def)
  then have same: "same_reads e t db ?db'"
    unfolding same_reads_def by (rule same_where_mono) simp
  note orgs = list_values_org [OF inj(3)]
  have "list_body e' ?db' t' r' = body"
    using list_values_same [OF same like] inj(1) key
    by (simp add: t(4) list_body_def orgs r')
  then show ?thesis
    using t' by (simp add: get_values_def get_type_Inr [THEN iffD2])
qed

definition demo_query :: list_query where
  "demo_query = \<lparr>lq_lang = ''en'', lq_active = True, lq_q = None, lq_parent = None, lq_page = 1,
     lq_page_size = 100\<rparr>"

definition demo_digest :: "string \<Rightarrow> string" where
  "demo_digest s = concat (map (\<lambda>c. [hex_digit (of_char c div 16), hex_digit (of_char c mod 16)]) s)"

lemma demo_digest_dots: "dot_free (demo_digest s)"
proof -
  have "list_all (\<lambda>i. hex_digit i \<noteq> CHR ''.'') [0..<16]" by code_simp
  then have "i < 16 \<Longrightarrow> hex_digit i \<noteq> CHR ''.''" for i by (simp add: list_all_iff)
  moreover have "(of_char c :: nat) div 16 < 16" for c
    by (rule less_mult_imp_div_less) simp
  ultimately show ?thesis by (auto simp: dot_free_def demo_digest_def) (metis mod_less_divisor zero_less_numeral)+
qed

lemma not_modified_is_true_witness:
  "\<exists>etag body. get_values demo_digest demo_org demo_lookups ''country'' demo_query None = Listing etag body \<and>
     get_values demo_digest demo_org (lookup_run
        [(demo_org, AdminCall ''skill'' (DeprecateValue ''code'' None None))] demo_lookups)
       ''country'' demo_query None = Listing etag body"
proof -
  let ?calls = "[(demo_org, AdminCall ''skill'' (DeprecateValue ''code'' None None))]"
  let ?t = "demo_type 1 ''country'' PlatformScope"
  let ?etag = "list_etag demo_digest demo_org ?t demo_query"
  have "type_by_key demo_lookups ''country'' = Some ?t"
    "type_by_key (lookup_run ?calls demo_lookups) ''country'' = Some ?t" "query_valid demo_query"
    by code_simp+
  then have first: "get_values demo_digest demo_org demo_lookups ''country'' demo_query None =
      Listing ?etag (list_body demo_org demo_lookups ?t demo_query)"
    and second: "get_values demo_digest demo_org (lookup_run ?calls demo_lookups) ''country'' demo_query
      (Some ?etag) = NotModified ?etag"
    by (simp_all add: get_values_def get_type_Inr [THEN iffD2])
  have calls: "list_all (\<lambda>ec. call_ok (snd ec)) ?calls" and org: "current_org demo_org \<noteq> Some 0"
    by code_simp+
  show ?thesis
    using first not_modified_is_true [OF demo_lookups_ok calls first second demo_digest_dots _ org org] by blast
qed

end
