(* ===== verification/LookupSeedClaims.thy ===== *)
theory LookupSeedClaims
  imports LookupGuarantees
begin

text \<open>The stated properties of the two seeders, of merging and of the open lists.\<close>

subsection \<open>An organisation's copy of the templates\<close>

lemma nothing_lacking_anywhere:
  assumes ok: "lookup_ok db" and s: "org_seeded e org (org_types db) db (n, db')"
    and t: "t \<in> set (org_types db')"
  shows "lack_rows db' (lt_id t) org = []"
proof -
  have "type_names db' = type_names db" using s by (simp add: org_seeded_def)
  moreover have "(lt_id t, OrgScope) \<in> set (type_names db')"
    using t by (auto simp: org_types_def type_names_def image_iff intro!: bexI [of _ t])
  ultimately have "(lt_id t, OrgScope) \<in> set (type_names db)" by metis
  then obtain u where "u \<in> set (ld_types db)" "lt_id t = lt_id u" "OrgScope = lt_scope u"
    by (auto simp: type_names_def)
  then have "u \<in> set (org_types db)" "lt_id u = lt_id t" by (simp_all add: org_types_def)
  with nothing_lacking_after [OF ok s] show ?thesis by metis
qed

text \<open>
  C10: copying the starter templates into an organisation always succeeds on tables in order and
  only ever adds: every row that was there stays in place with its labels and aliases, and the
  number returned is the number of rows added.  Afterwards the organisation has a row for every
  code of every org-scoped type; for a code it lacked, that row carries the template's status,
  order, dates, meta, labels and aliases, and its parent and supersede pointers lead to the
  organisation's own row of the code the template's pointer led to.  A second call adds nothing.
\<close>

theorem organisation_gets_its_own_list:
  assumes ok: "lookup_ok db"
  shows "\<exists>n db'. seed_org_lookups e db org = (Inr n, db') \<and>
     (\<exists>vs. ld_values db' = ld_values db @ vs \<and> length vs = n) \<and>
     (\<forall>v\<in>set (ld_values db). same_children db db' v) \<and>
     (\<forall>t\<in>set (ld_types db). lt_scope t = OrgScope \<longrightarrow>
        (\<forall>tm\<in>set (template_rows db (lt_id t)).
           lv_code tm \<in> lv_code ` set (own_rows db' (lt_id t) org) \<and>
           (lv_code tm \<notin> lv_code ` set (own_rows db (lt_id t) org) \<longrightarrow> seeded_copy e org db db' tm))) \<and>
     seed_org_lookups e2 db' org = (Inr 0, db')"
proof -
  obtain n db' where run: "seed_org_lookups e db org = (Inr n, db')"
    and s: "org_seeded e org (org_types db) db (n, db')"
    by (rule seed_org_works [OF ok])
  have mv: "moved (Some org) db db'" and g: "grown db db'"
    and len: "length (ld_values db') = length (ld_values db) + n"
    using s by (auto simp: org_seeded_def)
  have ok': "lookup_ok db'" by (rule movedD(1) [OF mv ok])
  have "seed_org_lookups e2 db' org = (Inr 0, db')"
  proof (rule seed_org_works [OF ok', of e2 org])
    fix m db'' assume again: "seed_org_lookups e2 db' org = (Inr m, db'')"
      and s2: "org_seeded e2 org (org_types db') db' (m, db'')"
    have "m = sum_list (map (\<lambda>t. length (lack_rows db' (lt_id t) org)) (org_types db'))"
      using s2 by (simp add: org_seeded_def)
    also have "\<dots> = 0" using nothing_lacking_anywhere [OF ok s] by (simp add: sum_list_eq_0_iff)
    finally have "m = 0" .
    with s2 again show ?thesis by (simp add: org_seeded_def)
  qed
  moreover have "lv_code tm \<in> lv_code ` set (own_rows db' (lt_id t) org)"
    if t: "t \<in> set (ld_types db)" "lt_scope t = OrgScope" and tm: "tm \<in> set (template_rows db (lt_id t))" for t tm
  proof -
    have "lack_rows db' (lt_id t) org = []"
      using nothing_lacking_after [OF ok s] t by (simp add: org_types_def)
    moreover have "tm \<in> set (template_rows db' (lt_id t))"
      using tm grown_values [OF g] by (auto simp: template_mem)
    ultimately show ?thesis using lack_mem [of tm db' "lt_id t" org] by auto
  qed
  moreover have "seeded_copy e org db db' tm"
    if t: "t \<in> set (ld_types db)" "lt_scope t = OrgScope" and tm: "tm \<in> set (template_rows db (lt_id t))"
      "lv_code tm \<notin> lv_code ` set (own_rows db (lt_id t) org)" for t tm
  proof -
    have "t \<in> set (org_types db)" "tm \<in> set (lack_rows db (lt_id t) org)"
      using t tm by (simp_all add: org_types_def lack_mem)
    with s show ?thesis by (simp add: org_seeded_def)
  qed
  moreover have "\<exists>vs. ld_values db' = ld_values db @ vs \<and> length vs = n"
    using g len by (auto simp: grown_def)
  ultimately show ?thesis using run g by (auto simp: grown_def)
qed

lemma organisation_gets_its_own_list_witness:
  "(\<exists>db'. seed_org_lookups demo_platform demo_lookups 7 = (Inr 1, db') \<and>
      seed_org_lookups demo_platform db' 7 = (Inr 0, db'))"
proof -
  obtain n db' where run: "seed_org_lookups demo_platform demo_lookups 7 = (Inr n, db')"
    and again: "seed_org_lookups demo_platform db' 7 = (Inr 0, db')"
    using organisation_gets_its_own_list [OF demo_lookups_ok] by blast
  have "fst (seed_org_lookups demo_platform demo_lookups 7) = Inr 1" by code_simp
  with run again show ?thesis by simp
qed

text \<open>
  The report of legacy shadows lists the rows of a properly seeded organisation as well: a copy
  shares its code with its template, and the query does not look at the scope of the type.
\<close>

lemma seeded_rows_reported_as_shadows:
  "find_org_shadows (snd (seed_org_lookups demo_platform demo_lookups 9)) =
     [(''skill'', ''code'', 7), (''skill'', ''code'', 9), (''skill'', ''java'', 9)]"
  by code_simp

subsection \<open>Seed files\<close>

lemma planted_bump [simp]: "planted (bump_version_if t n db) ty v = planted db ty v"
  by (simp add: planted_def bump_version_if_def bump_version_def platform_row_def translations_of_def)

lemma pointed_bump [simp]: "pointed (bump_version_if t n db) ty w = pointed db ty w"
  by (simp add: pointed_def bump_version_if_def bump_version_def platform_row_def)

lemma typed_member: "t \<in> set (ld_types db) \<Longrightarrow> typed_id db (lt_id t)"
  by (simp add: typed_id_def)

text \<open>A second registration of a type that a first one accepted finds it and changes nothing.\<close>

lemma seed_type_row_again:
  assumes first: "seed_type_row e db spec = (Inr t, db1)"
    and later: "type_by_key db2 (st_key spec) = Some t2" "lt_scope t2 = lt_scope t"
  shows "seed_type_row e2 db2 spec = (Inr t2, db2)"
proof -
  from first obtain mode scope where m: "sort_mode_of_text (st_default_sort spec) = Inr mode"
    "declared_scope (st_scope spec) = Inr scope"
    "ensure_type e db (st_key spec) (Some (st_name spec)) (st_description spec) (st_is_open spec)
       (st_is_hierarchical spec) (st_code_system spec) mode scope = (Inr t, db1)"
    by (auto simp: seed_type_row_def rbind_Inr_iff split: sum.splits)
  from ensure_type_cases [OF m(3)]
  have "(st_is_open spec \<longrightarrow> effective_scope scope (Some t2) = OrgScope) \<and>
        (scope \<noteq> None \<longrightarrow> lt_scope t2 = effective_scope scope (Some t2))"
    using later(2) insert_type_moved(6) by (auto simp: effective_scope_def split: option.splits)
  then show ?thesis
    using m later(1) by (auto simp: seed_type_row_def ensure_type_def Let_def)
qed

lemma seeding_effects:
  assumes ok: "lookup_ok db" and spec: "spec_ok spec" and run: "seed_type e db spec = (r, db')"
  shows "seed_keeps db db'"
    and "r = Inl x \<Longrightarrow> db' = db"
    and "r = Inr () \<Longrightarrow> \<forall>v\<in>set (ld_values db). lv_org v = None \<longrightarrow> translations_of db v \<noteq> [] \<Longrightarrow>
         seed_type e2 db' spec = (Inr (), db')"
proof -
  note works = seed_type_works [OF ok spec, of e, unfolded run fst_conv snd_conv]
  show "seed_keeps db db'" by (rule works(2))
  show "r = Inl x \<Longrightarrow> db' = db" by (rule works(3))
  assume r: "r = Inr ()" and lab: "\<forall>v\<in>set (ld_values db). lv_org v = None \<longrightarrow> translations_of db v \<noteq> []"
  from run r obtain t db1 n db2 where row: "seed_type_row e db spec = (Inr t, db1)"
    and vals: "seed_type_values e t spec db1 = (Inr n, db2)" and db': "db' = bump_version_if t n db2"
    by (auto simp: seed_type_def split: sum.splits prod.splits)
  note row' = seed_type_row_cases [OF row]
  have ok1: "lookup_ok db1" by (rule movedD(1) [OF row'(1) ok])
  have t: "t \<in> set (ld_types db1)" using row'(3) by simp
  have "labelled db1 (lt_id t) v" for v
  proof (cases "platform_row db1 (lt_id t) (sv_code v)")
    case None
    then show ?thesis by (simp add: labelled_def)
  next
    case (Some q)
    then have q: "q \<in> set (ld_values db)" "lv_org q = None"
      using ok1 row'(4) by (auto simp: platform_row_iff value_index_def)
    with row'(5) lab have "same_children db db1 q"
      using children_by_id topped_up_id unfolding seed_keeps_def by blast
    with q lab Some show ?thesis by (simp add: labelled_def same_children_def)
  qed
  then obtain m db3 where again: "seed_type_values e t spec db1 = (Inr m, db3)" "sown (lt_id t) (0, db1) (m, db3)"
    "\<forall>w\<in>set (wanted_pointers spec). pointed db3 (lt_id t) w"
    "\<forall>v\<in>set (st_values spec). planted db3 (lt_id t) v"
    using seed_type_values_works [OF ok1 typed_member [OF t] spec, of e] by blast
  with vals have same: "m = n" "db3 = db2" by simp_all
  have mv: "moved None db1 db'" using sown_moved(1) [OF ok1 again(2)] by (simp add: db' same)
  have ok': "lookup_ok db'" by (rule movedD(1) [OF mv ok1])
  have key: "type_by_key db1 (st_key spec) = Some t"
    using row t ok1 insert_type_moved(7) type_by_key_Some
    by (auto simp: seed_type_row_def type_by_key_iff split: sum.splits dest!: ensure_type_cases)
  obtain t2 where t2: "type_by_key db' (st_key spec) = Some t2" "type_after db1 db' t t2"
    using tracked_type [OF ok' movedD(3) [OF mv ok1] key] by blast
  then have id: "lt_id t2 = lt_id t" "lt_scope t2 = lt_scope t" by (auto simp: type_after_def)
  have row2: "seed_type_row e2 db' spec = (Inr t2, db')"
    by (rule seed_type_row_again [OF row t2(1) id(2)])
  have "typed_id db' (lt_id t2)" using type_by_key_Some [OF t2(1)] by (simp add: typed_member)
  from seed_type_values_works [OF ok' this spec, of e2] obtain k db4 where
    k: "seed_type_values e2 t2 spec db' = (Inr k, db4)" "sown (lt_id t2) (0, db') (k, db4)"
    "(\<forall>v\<in>set (st_values spec). planted db' (lt_id t2) v) \<and>
      (\<forall>w\<in>set (wanted_pointers spec). pointed db' (lt_id t2) w) \<longrightarrow> k = 0" by blast
  have "k = 0" using k(3) again(3,4) id(1) by (simp add: db' same)
  then have "db4 = db'" using sownD(4) [OF k(2)] ok' by simp
  with k(1) \<open>k = 0\<close> row2 show "seed_type e2 db' spec = (Inr (), db')"
    by (simp add: seed_type_def bump_version_if_def)
qed

definition demo_seed_spec :: seed_type_spec where
  "demo_seed_spec =
     \<lparr>st_key = ''skill'', st_name = ''Skill'', st_description = None, st_is_open = False,
      st_is_hierarchical = True, st_code_system = None, st_scope = Some ''org'', st_default_sort = None,
      st_values =
        [\<lparr>sv_code = ''rust'', sv_translations = [\<lparr>ti_lang = ''en'', ti_label = ''Rust'', ti_short = None\<rparr>],
          sv_aliases = [(''rs'', None)], sv_meta = [(''tone'', PStr ''warm'')], sv_status = None,
          sv_is_default = False, sv_sort_order = None, sv_valid_from = None, sv_valid_to = None,
          sv_parent_code = Some ''code'', sv_superseded_by = None\<rparr>,
         \<lparr>sv_code = ''code'', sv_translations = [\<lparr>ti_lang = ''en'', ti_label = ''Code'', ti_short = None\<rparr>],
          sv_aliases = [], sv_meta = [(''tone'', PStr ''cold'')], sv_status = None,
          sv_is_default = False, sv_sort_order = None, sv_valid_from = None, sv_valid_to = None,
          sv_parent_code = None, sv_superseded_by = None\<rparr>]\<rparr>"

text \<open>
  C36: seeding one type of a file, of a shape the loader accepts (\<open>spec_ok\<close>), never fails half way,
  keeps what a deployment edited, and repeats as a no-op.  (A file of several types is seeded type by
  type, each in transactions of its own, so a later type that raises leaves the earlier ones seeded.)  Every row that existed keeps everything except meta keys it did
  not have and parent or supersede pointers it did not have, and a row with a label keeps all its
  labels and aliases; a run of the type that raises has changed nothing; and once it has returned on a
  database whose platform rows all carry labels, a second run leaves the database as it is, versions
  included.
\<close>

theorem seeding_is_safe_to_repeat:
  assumes "lookup_ok db" and "spec_ok spec" and "seed_type e db spec = (r, db')"
  shows "seed_keeps db db' \<and> (\<forall>x. r = Inl x \<longrightarrow> db' = db) \<and>
    (r = Inr () \<and> (\<forall>v\<in>set (ld_values db). lv_org v = None \<longrightarrow> translations_of db v \<noteq> []) \<longrightarrow>
       seed_type e2 db' spec = (Inr (), db'))"
  using seeding_effects [OF assms] by blast

lemma seeding_is_safe_to_repeat_witness:
  "\<exists>db'. seed_type demo_platform demo_lookups demo_seed_spec = (Inr (), db') \<and> db' \<noteq> demo_lookups \<and>
     seed_keeps demo_lookups db' \<and> seed_type demo_platform db' demo_seed_spec = (Inr (), db')"
proof -
  obtain r db' where run: "seed_type demo_platform demo_lookups demo_seed_spec = (r, db')" by fastforce
  have spec: "spec_ok demo_seed_spec" by code_simp
  have "fst (seed_type demo_platform demo_lookups demo_seed_spec) = Inr ()" by code_simp
  with run have r: "r = Inr ()" by simp
  have "length (ld_values (snd (seed_type demo_platform demo_lookups demo_seed_spec))) \<noteq>
        length (ld_values demo_lookups)" by code_simp
  with run have "db' \<noteq> demo_lookups" by auto
  moreover have "list_all (\<lambda>v. lv_org v = None \<longrightarrow> translations_of demo_lookups v \<noteq> []) (ld_values demo_lookups)"
    by code_simp
  ultimately show ?thesis
    using run r seeding_is_safe_to_repeat [OF demo_lookups_ok spec run] by (auto simp: list_all_iff)
qed

subsection \<open>Versions that miss a change\<close>

definition two_english :: "translation_in list" where
  "two_english = [\<lparr>ti_lang = ''en'', ti_label = ''Qatar'', ti_short = None\<rparr>,
                  \<lparr>ti_lang = ''en'', ti_label = ''State of Qatar'', ti_short = None\<rparr>]"

definition stranded :: lookup_db where
  "stranded = snd (admin_value demo_platform demo_lookups ''country''
     (CreateValue (Some ''QA'') two_english False 0 None [] []))"

definition country_read :: lookup_type where
  "country_read = demo_type 1 ''country'' PlatformScope"

definition after_one :: lookup_db where
  "after_one = snd (update_value demo_platform demo_lookups country_read ''SA'' None (Some True) None None)"

definition after_both :: lookup_db where
  "after_both = snd (update_value demo_platform after_one country_read ''SA'' None None (Some 5) None)"

definition tag_and_body :: "lookup_db \<Rightarrow> string \<times> value_list" where
  "tag_and_body db =
     (case type_by_key db ''country'' of
        Some t \<Rightarrow> (list_etag demo_digest demo_other t demo_query, list_body demo_other db t demo_query)
      | None \<Rightarrow> ([], list_body demo_other db country_read demo_query))"

text \<open>
  two ways past the version that the ETag is keyed on.  Creating a value with two labels in one
  language commits the value first and fails on the labels: the value stays, visible to every
  session of its owner, without a label and without a version bump, and the same call again is a
  409.  And \<open>_touch_type\<close> writes the version its own session read: of two writers that read the type
  at the same version, the second commits the version the first already used, so a listing taken
  between the two commits carries the tag of the listing after both, with different content.
\<close>

theorem versions_can_miss_a_change:
  shows "fst (admin_value demo_platform demo_lookups ''country''
           (CreateValue (Some ''QA'') two_english False 0 None [] [])) = Inl IntegrityError \<and>
    fst (tag_and_body stranded) = fst (tag_and_body demo_lookups) \<and>
    map vr_code (vl_items (snd (tag_and_body demo_lookups))) = [''SA''] \<and>
    map vr_code (vl_items (snd (tag_and_body stranded))) = [''QA'', ''SA''] \<and>
    fst (admin_value demo_platform stranded ''country''
           (CreateValue (Some ''QA'') [hd two_english] False 0 None [] [])) =
         Inl (HTTPException 409 (''code '' @ quoted ''QA'' @ '' already exists in '' @ quoted ''country'')) \<and>
    fst (tag_and_body after_one) = fst (tag_and_body after_both) \<and>
    map vr_sort_order (vl_items (snd (tag_and_body after_one))) \<noteq>
         map vr_sort_order (vl_items (snd (tag_and_body after_both)))"
  by (intro conjI; code_simp)

end
