(* ===== verification/ValidateDates.thy ===== *)
theory ValidateDates
  imports PyText
begin

text \<open>
  Dates as asas-validation handles them (src/packages/asas-validation/src/asas_validation/clock.py
  and the date half of checks.py): a date is its proleptic Gregorian ordinal, as Python's
  \<open>date.toordinal\<close> counts it (1 is the first of January of year 1), between 1 and the ordinal of the
  last day of 9999.  \<open>replace\<close>, the addition of a \<open>timedelta\<close>, \<open>weekday\<close>, \<open>isoformat\<close> and
  \<open>fromisoformat\<close> follow the standard library, with its \<open>ValueError\<close> and \<open>OverflowError\<close>.
\<close>

subsection \<open>The calendar\<close>

definition leap_year :: "int \<Rightarrow> bool" where
  "leap_year y = (y mod 4 = 0 \<and> (y mod 100 \<noteq> 0 \<or> y mod 400 = 0))"

definition days_before_year :: "int \<Rightarrow> int" where
  "days_before_year y = 365 * (y - 1) + (y - 1) div 4 - (y - 1) div 100 + (y - 1) div 400"

definition days_before_month :: "int \<Rightarrow> int \<Rightarrow> int" where
  "days_before_month y m =
     [0, 31, 59, 90, 120, 151, 181, 212, 243, 273, 304, 334] ! nat (m - 1) +
     (if 2 < m \<and> leap_year y then 1 else 0)"

definition month_days :: "int \<Rightarrow> int \<Rightarrow> int" where
  "month_days y m =
     (if m = 2 then (if leap_year y then 29 else 28)
      else if m \<in> {4, 6, 9, 11} then 30 else 31)"

definition valid_date :: "int \<Rightarrow> int \<Rightarrow> int \<Rightarrow> bool" where
  "valid_date y m d = (1 \<le> y \<and> y \<le> 9999 \<and> 1 \<le> m \<and> m \<le> 12 \<and> 1 \<le> d \<and> d \<le> month_days y m)"

definition to_ordinal :: "int \<Rightarrow> int \<Rightarrow> int \<Rightarrow> int" where
  "to_ordinal y m d = days_before_year y + days_before_month y m + d"

definition max_ordinal :: int where
  "max_ordinal = 3652059"

text \<open>\<open>date(y, m, d)\<close>; \<open>None\<close> is its \<open>ValueError\<close>.\<close>

definition make_date :: "int \<Rightarrow> int \<Rightarrow> int \<Rightarrow> int option" where
  "make_date y m d = (if valid_date y m d then Some (to_ordinal y m d) else None)"

definition year_of :: "int \<Rightarrow> int" where
  "year_of n =
     (let a = (n - 1) div 146097; r = (n - 1) mod 146097;
          b = r div 36524; r = r mod 36524;
          c = r div 1461; r = r mod 1461;
          d = r div 365;
          y = 400 * a + 100 * b + 4 * c + d + 1
      in if d = 4 \<or> b = 4 then y - 1 else y)"

text \<open>The month a day of the year falls in: the last one that starts before it.\<close>

definition month_of :: "int \<Rightarrow> int \<Rightarrow> int" where
  "month_of y doy =
     last (1 # filter (\<lambda>m. days_before_month y m < doy) [2, 3, 4, 5, 6, 7, 8, 9, 10, 11, 12])"

definition civil :: "int \<Rightarrow> int \<times> int \<times> int" where
  "civil n =
     (let y = year_of n; doy = n - days_before_year y; m = month_of y doy
      in (y, m, doy - days_before_month y m))"

text \<open>Monday is 0.\<close>

definition weekday :: "int \<Rightarrow> int" where
  "weekday n = (n + 6) mod 7"

definition max_days :: int where
  "max_days = 999999999"

definition overflow :: py_exn where
  "overflow = HostExn ''OverflowError'' ''date value out of range''"

text \<open>\<open>n + timedelta(days=k)\<close>.\<close>

definition add_days :: "int \<Rightarrow> int \<Rightarrow> int result" where
  "add_days n k =
     (if abs k \<le> max_days \<and> 1 \<le> n + k \<and> n + k \<le> max_ordinal then Inr (n + k) else Inl overflow)"

subsection \<open>The clock seam\<close>

datatype clock_answer = AnswerDate int | AnswerDateTime int int

definition date_of :: "clock_answer \<Rightarrow> int" where
  "date_of v = (case v of AnswerDate d \<Rightarrow> d | AnswerDateTime d secs \<Rightarrow> d)"

definition clock_today :: "clock_answer option \<Rightarrow> int \<Rightarrow> int" where
  "clock_today configured server = (case configured of Some v \<Rightarrow> date_of v | None \<Rightarrow> server)"

definition year_error :: py_exn where
  "year_error = ValueError ''year is out of range''"

definition shift_year :: "int \<Rightarrow> int \<Rightarrow> int result" where
  "shift_year anchor k =
     (case civil anchor of (y, m, d) \<Rightarrow>
        (case make_date (y + k) m d of
           Some n \<Rightarrow> Inr n
         | None \<Rightarrow>
             (case make_date (y + k) 2 28 of Some n \<Rightarrow> Inr n | None \<Rightarrow> Inl year_error)))"

definition years_ago :: "int \<Rightarrow> int \<Rightarrow> int result" where
  "years_ago anchor years = shift_year anchor (- years)"

definition years_ahead :: "int \<Rightarrow> int \<Rightarrow> int result" where
  "years_ahead anchor years = shift_year anchor years"

subsection \<open>ISO text\<close>

definition pad :: "nat \<Rightarrow> string \<Rightarrow> string" where
  "pad n s = replicate (n - length s) (CHR ''0'') @ s"

definition iso_text :: "int \<Rightarrow> string" where
  "iso_text n =
     (case civil n of (y, m, d) \<Rightarrow>
        pad 4 (int_text y) @ ''-'' @ pad 2 (int_text m) @ ''-'' @ pad 2 (int_text d))"

definition iso_digit :: "char \<Rightarrow> bool" where
  "iso_digit c = (c \<in> set ''0123456789'')"

definition read_nat :: "string \<Rightarrow> int option" where
  "read_nat s = (if s \<noteq> [] \<and> list_all iso_digit s then Some (int (digits_val s)) else None)"

text \<open>The Monday of ISO week 1: the week with the first Thursday.\<close>

definition week1_monday :: "int \<Rightarrow> int" where
  "week1_monday y =
     (let first = to_ordinal y 1 1; w = weekday first
      in if 3 < w then first - w + 7 else first - w)"

definition iso_weeks :: "int \<Rightarrow> int" where
  "iso_weeks y = (week1_monday (y + 1) - week1_monday y) div 7"

definition week_date :: "int \<Rightarrow> int \<Rightarrow> int \<Rightarrow> int option" where
  "week_date y w d =
     (let n = week1_monday y + 7 * (w - 1) + d - 1
      in if 1 \<le> y \<and> y \<le> 9999 \<and> 1 \<le> w \<and> w \<le> iso_weeks y \<and> 1 \<le> d \<and> d \<le> 7 \<and>
            1 \<le> n \<and> n \<le> max_ordinal
         then Some n else None)"

definition obind3 :: "int option \<Rightarrow> int option \<Rightarrow> int option \<Rightarrow> (int \<Rightarrow> int \<Rightarrow> int \<Rightarrow> int option) \<Rightarrow> int option" where
  "obind3 a b c f =
     (case (a, b, c) of (Some x, Some y, Some z) \<Rightarrow> f x y z | _ \<Rightarrow> None)"

text \<open>
  \<open>date.fromisoformat\<close>: \<open>YYYY-MM-DD\<close>, \<open>YYYYMMDD\<close>, \<open>YYYY-Www\<close>, \<open>YYYYWww\<close>, \<open>YYYY-Www-D\<close> and
  \<open>YYYYWwwD\<close>, told apart by the dashes and the W.
\<close>

definition from_iso :: "string \<Rightarrow> int option" where
  "from_iso s =
     (let y = read_nat (take 4 s); dash = (take 1 (drop 4 s) = ''-'');
          r = drop (if dash then 5 else 4) s
      in if take 1 r = ''W''
         then (let w = read_nat (take 2 (drop 1 r)); t = drop 3 r in
               if length r < 3 then None
               else if t = [] then obind3 y w (Some 1) week_date
               else if dash
               then (if length t = 2 \<and> take 1 t = ''-'' then obind3 y w (read_nat (drop 1 t)) week_date
                     else None)
               else if length t = 1 then obind3 y w (read_nat t) week_date else None)
         else if dash
         then (if length s = 10 \<and> take 1 (drop 2 r) = ''-''
               then obind3 y (read_nat (take 2 r)) (read_nat (drop 3 r)) make_date else None)
         else (if length s = 8
               then obind3 y (read_nat (take 2 r)) (read_nat (drop 2 r)) make_date else None))"

end
