(* ===== verification/ValidateNumbers.thy ===== *)
theory ValidateNumbers
  imports ValidateDates
begin

text \<open>
  The values a check may be handed, and the numbers it reads from them.  A value is a JSON value, a
  non-finite float, a date or a naive datetime.  Floats are IEEE doubles: a finite one is the exact
  rational it stands for, and every operation whose exact result is not a double is rounded to the
  nearest one (ties to even) by \<open>to_double\<close>, as Python's floats are.
\<close>

subsection \<open>Values\<close>

datatype field_value =
    FJson pyval
  | FInf bool   \<comment> \<open>positive?\<close>
  | FNan
  | FDate int
  | FDateTime int int   \<comment> \<open>the day and the second of the day\<close>

datatype number = NumInt int | NumFlt flt

subsection \<open>Doubles\<close>

definition pow2 :: "int \<Rightarrow> rat" where
  "pow2 k = (if 0 \<le> k then 2 ^ nat k else 1 / 2 ^ nat (- k))"

definition pow10 :: "int \<Rightarrow> rat" where
  "pow10 k = (if 0 \<le> k then 10 ^ nat k else 1 / 10 ^ nat (- k))"

text \<open>The number of binary digits.\<close>

fun bits :: "nat \<Rightarrow> nat" where
  "bits n = (if n = 0 then 0 else Suc (bits (n div 2)))"

declare bits.simps [simp del]

definition round_even :: "rat \<Rightarrow> int" where
  "round_even q =
     (let f = \<lfloor>q\<rfloor>; r = q - of_int f in
      if r < 1 / 2 then f else if 1 / 2 < r then f + 1 else if even f then f else f + 1)"

definition log2_floor :: "rat \<Rightarrow> int" where
  "log2_floor q =
     (case quotient_of q of (a, b) \<Rightarrow>
        let k = int (bits (nat \<bar>a\<bar>)) - int (bits (nat b))
        in if pow2 k \<le> \<bar>q\<bar> then k else k - 1)"

text \<open>A significand of 53 bits and an exponent from -1074 to 971; larger results are infinite.\<close>

definition to_double :: "rat \<Rightarrow> flt" where
  "to_double q =
     (if q = 0 then Fin 0
      else let e = max (- 1074) (log2_floor q - 52); m = round_even (q / pow2 e)
           in if 971 < e + (if \<bar>m\<bar> = 9007199254740992 then 1 else 0)
              then (if 0 < q then PInf else NInf)
              else Fin (of_int m * pow2 e))"

definition int_too_large :: py_exn where
  "int_too_large = HostExn ''OverflowError'' ''int too large to convert to float''"

definition int_double :: "int \<Rightarrow> flt result" where
  "int_double i = (case to_double (of_int i) of Fin q \<Rightarrow> Inr (Fin q) | _ \<Rightarrow> Inl int_too_large)"

definition as_double :: "number \<Rightarrow> flt result" where
  "as_double x = (case x of NumInt i \<Rightarrow> int_double i | NumFlt f \<Rightarrow> Inr f)"

definition flt_neg :: "flt \<Rightarrow> flt" where
  "flt_neg x = (case x of Fin q \<Rightarrow> Fin (- q) | PInf \<Rightarrow> NInf | NInf \<Rightarrow> PInf | NaN \<Rightarrow> NaN)"

definition flt_abs :: "flt \<Rightarrow> flt" where
  "flt_abs x = (case x of Fin q \<Rightarrow> Fin \<bar>q\<bar> | PInf \<Rightarrow> PInf | NInf \<Rightarrow> PInf | NaN \<Rightarrow> NaN)"

definition flt_add :: "flt \<Rightarrow> flt \<Rightarrow> flt" where
  "flt_add x y =
     (case (x, y) of
        (NaN, _) \<Rightarrow> NaN
      | (_, NaN) \<Rightarrow> NaN
      | (Fin a, Fin b) \<Rightarrow> to_double (a + b)
      | (Fin a, z) \<Rightarrow> z
      | (z, Fin b) \<Rightarrow> z
      | (PInf, PInf) \<Rightarrow> PInf
      | (NInf, NInf) \<Rightarrow> NInf
      | _ \<Rightarrow> NaN)"

definition flt_sign :: "flt \<Rightarrow> int" where
  "flt_sign x = (case x of Fin q \<Rightarrow> if 0 < q then 1 else if q < 0 then - 1 else 0
                         | PInf \<Rightarrow> 1 | NInf \<Rightarrow> - 1 | NaN \<Rightarrow> 0)"

definition flt_mul :: "flt \<Rightarrow> flt \<Rightarrow> flt" where
  "flt_mul x y =
     (case (x, y) of
        (NaN, _) \<Rightarrow> NaN
      | (_, NaN) \<Rightarrow> NaN
      | (Fin a, Fin b) \<Rightarrow> to_double (a * b)
      | _ \<Rightarrow> (let s = flt_sign x * flt_sign y
              in if s = 0 then NaN else if 0 < s then PInf else NInf))"

subsection \<open>Comparing numbers\<close>

text \<open>Python compares an int with a float exactly; every comparison with NaN is false.\<close>

definition num_flt :: "number \<Rightarrow> flt" where
  "num_flt x = (case x of NumInt i \<Rightarrow> Fin (of_int i) | NumFlt f \<Rightarrow> f)"

definition flt_less :: "flt \<Rightarrow> flt \<Rightarrow> bool" where
  "flt_less x y =
     (case (x, y) of
        (Fin a, Fin b) \<Rightarrow> a < b
      | (Fin _, PInf) \<Rightarrow> True
      | (NInf, Fin _) \<Rightarrow> True
      | (NInf, PInf) \<Rightarrow> True
      | _ \<Rightarrow> False)"

definition flt_eq :: "flt \<Rightarrow> flt \<Rightarrow> bool" where
  "flt_eq x y = (x = y \<and> x \<noteq> NaN)"

definition num_less :: "number \<Rightarrow> number \<Rightarrow> bool" where
  "num_less x y = flt_less (num_flt x) (num_flt y)"

definition num_leq :: "number \<Rightarrow> number \<Rightarrow> bool" where
  "num_leq x y = (flt_less (num_flt x) (num_flt y) \<or> flt_eq (num_flt x) (num_flt y))"

subsection \<open>Reading a number\<close>

text \<open>
  \<open>float(text)\<close>: an optional sign, then inf, infinity or nan in any case, or decimal digits with an
  optional point and an optional exponent; underscores may stand between two digits.
\<close>

definition to_lower :: "char \<Rightarrow> char" where
  "to_lower c = (let n = of_char c :: nat in if 65 \<le> n \<and> n \<le> 90 then char_of (n + 32) else c)"

fun drop_underscores :: "bool \<Rightarrow> string \<Rightarrow> string option" where
  "drop_underscores after_digit [] = Some []"
| "drop_underscores after_digit (c # cs) =
     (if c = CHR ''_''
      then (case cs of
              d # _ \<Rightarrow> if after_digit \<and> iso_digit d then drop_underscores False cs else None
            | [] \<Rightarrow> None)
      else map_option ((#) c) (drop_underscores (iso_digit c) cs))"

definition split_sign :: "string \<Rightarrow> bool \<times> string" where
  "split_sign s =
     (case s of
        c # cs \<Rightarrow> if c = CHR ''-'' then (True, cs) else if c = CHR ''+'' then (False, cs) else (False, s)
      | [] \<Rightarrow> (False, []))"

definition signed_nat :: "string \<Rightarrow> int option" where
  "signed_nat s =
     (case split_sign s of (neg, ds) \<Rightarrow> map_option (\<lambda>n. if neg then - n else n) (read_nat ds))"

definition is_exponent_mark :: "char \<Rightarrow> bool" where
  "is_exponent_mark c = (to_lower c = CHR ''e'')"

definition read_decimal :: "string \<Rightarrow> rat option" where
  "read_decimal s =
     (let mant = takeWhile (\<lambda>c. \<not> is_exponent_mark c) s;
          tail = dropWhile (\<lambda>c. \<not> is_exponent_mark c) s;
          whole = takeWhile (\<lambda>c. c \<noteq> CHR ''.'') mant;
          frac = drop 1 (dropWhile (\<lambda>c. c \<noteq> CHR ''.'') mant)
      in case (read_nat (whole @ frac), if tail = [] then Some 0 else signed_nat (drop 1 tail)) of
           (Some n, Some k) \<Rightarrow> Some (of_int n * pow10 (k - int (length frac)))
         | _ \<Rightarrow> None)"

definition read_float :: "string \<Rightarrow> flt option" where
  "read_float text =
     (case drop_underscores False (py_strip text) of
        None \<Rightarrow> None
      | Some s \<Rightarrow>
          (case split_sign s of (neg, body) \<Rightarrow>
             let word = map to_lower body; signed = (if neg then flt_neg else (\<lambda>x. x)) in
             if word = ''inf'' \<or> word = ''infinity'' then Some (signed PInf)
             else if word = ''nan'' then Some NaN
             else map_option (\<lambda>q. signed (to_double q)) (read_decimal body)))"

subsection \<open>round, sum and isclose\<close>

definition round_places :: "rat \<Rightarrow> int \<Rightarrow> rat" where
  "round_places q p = of_int (round_even (q * pow10 p)) * pow10 (- p)"

text \<open>\<open>value - round(value, places)\<close>.\<close>

definition rounding_gap :: "number \<Rightarrow> int \<Rightarrow> number result" where
  "rounding_gap x p =
     (case x of
        NumInt i \<Rightarrow> Inr (NumInt (i - (if 0 \<le> p then i else \<lfloor>round_places (of_int i) p\<rfloor>)))
      | NumFlt (Fin q) \<Rightarrow>
          (case to_double (round_places q p) of
             Fin r \<Rightarrow> Inr (NumFlt (to_double (q - r)))
           | _ \<Rightarrow> Inl (HostExn ''OverflowError'' ''rounded value too large to represent''))
      | NumFlt _ \<Rightarrow> Inr (NumFlt NaN))"

definition num_abs :: "number \<Rightarrow> number" where
  "num_abs x = (case x of NumInt i \<Rightarrow> NumInt \<bar>i\<bar> | NumFlt f \<Rightarrow> NumFlt (flt_abs f))"

definition num_add :: "number \<Rightarrow> number \<Rightarrow> number result" where
  "num_add x y =
     (case (x, y) of
        (NumInt i, NumInt j) \<Rightarrow> Inr (NumInt (i + j))
      | _ \<Rightarrow> rbind (as_double x) (\<lambda>a. rbind (as_double y) (\<lambda>b. Inr (NumFlt (flt_add a b)))))"

definition num_mul :: "number \<Rightarrow> number \<Rightarrow> number result" where
  "num_mul x y =
     (case (x, y) of
        (NumInt i, NumInt j) \<Rightarrow> Inr (NumInt (i * j))
      | _ \<Rightarrow> rbind (as_double x) (\<lambda>a. rbind (as_double y) (\<lambda>b. Inr (NumFlt (flt_mul a b)))))"

definition fits_long :: "int \<Rightarrow> bool" where
  "fits_long i = (- (2 ^ 63) \<le> i \<and> i < 2 ^ 63)"

text \<open>
  \<open>sum\<close> of Python 3.12: machine integers, then doubles with a running compensation, and additions
  one by one as soon as an integer leaves the machine's range.
\<close>

fun sum_plain :: "number \<Rightarrow> number list \<Rightarrow> number result" where
  "sum_plain acc [] = Inr acc"
| "sum_plain acc (x # xs) = rbind (num_add acc x) (\<lambda>s. sum_plain s xs)"

definition compensated :: "flt \<Rightarrow> flt \<Rightarrow> flt" where
  "compensated s c =
     (case c of Fin q \<Rightarrow> if q = 0 then s else flt_add s c | _ \<Rightarrow> s)"

definition error_term :: "flt \<Rightarrow> flt \<Rightarrow> flt \<Rightarrow> flt" where
  "error_term s x t =
     (if flt_less (flt_abs s) (flt_abs x)
      then flt_add (flt_add x (flt_neg t)) s
      else flt_add (flt_add s (flt_neg t)) x)"

fun sum_floats :: "flt \<Rightarrow> flt \<Rightarrow> number list \<Rightarrow> number result" where
  "sum_floats s c [] = Inr (NumFlt (compensated s c))"
| "sum_floats s c (NumFlt x # xs) =
     (let t = flt_add s x in sum_floats t (flt_add c (error_term s x t)) xs)"
| "sum_floats s c (NumInt i # xs) =
     (if fits_long i then sum_floats (flt_add s (to_double (of_int i))) c xs
      else sum_plain (NumFlt (compensated s c)) (NumInt i # xs))"

fun sum_ints :: "int \<Rightarrow> number list \<Rightarrow> number result" where
  "sum_ints acc [] = Inr (NumInt acc)"
| "sum_ints acc (NumInt i # xs) =
     (if fits_long i \<and> fits_long (acc + i) then sum_ints (acc + i) xs
      else sum_plain (NumInt (acc + i)) xs)"
| "sum_ints acc (NumFlt x # xs) = sum_floats (flt_add (to_double (of_int acc)) x) (Fin 0) xs"

definition py_sum :: "number list \<Rightarrow> number result" where
  "py_sum xs = sum_ints 0 xs"

definition billionth :: flt where
  "billionth = to_double (1 / 1000000000)"

definition flt_leq :: "flt \<Rightarrow> flt \<Rightarrow> bool" where
  "flt_leq x y = (flt_less x y \<or> flt_eq x y)"

definition infinite_flt :: "flt \<Rightarrow> bool" where
  "infinite_flt x = (x = PInf \<or> x = NInf)"

text \<open>\<open>math.isclose(a, b, rel_tol=1e-9, abs_tol=1e-9)\<close>.\<close>

definition isclose :: "number \<Rightarrow> number \<Rightarrow> bool result" where
  "isclose x y =
     rbind (as_double x) (\<lambda>a. rbind (as_double y) (\<lambda>b.
       Inr (if flt_eq a b then True
            else if infinite_flt a \<or> infinite_flt b then False
            else let gap = flt_abs (flt_add b (flt_neg a)) in
              flt_leq gap (flt_abs (flt_mul billionth b)) \<or>
              flt_leq gap (flt_abs (flt_mul billionth a)) \<or> flt_leq gap billionth)))"

end
