(* ===== verification/ValidateText.thy ===== *)
theory ValidateText
  imports ValidateNumbers
begin

text \<open>
  The texts of asas-validation: how a value prints, and the formats of checks.py (addresses, phone
  numbers, IBANs, UUIDs, slugs, tags) written out as functions on strings.  A regular expression
  of the source is the function that decides it; \<open>re.match\<close> with a final \<open>$\<close> also matches before a
  last newline, and so does \<open>email_shape\<close>.
\<close>

subsection \<open>Printing\<close>

fun json_repr :: "(rat \<Rightarrow> string) \<Rightarrow> pyval \<Rightarrow> string" where
  "json_repr ft PNone = ''None''"
| "json_repr ft (PBool b) = (if b then ''True'' else ''False'')"
| "json_repr ft (PInt i) = int_text i"
| "json_repr ft (PFloat q) = ft q"
| "json_repr ft (PStr s) = py_repr s"
| "json_repr ft (PList xs) =
     ''['' @ concat (map (\<lambda>(i, x). (if i = 0 then [] else '', '') @ x)
                     (enumerate 0 (map (json_repr ft) xs))) @ '']''"
| "json_repr ft (PDict ds) =
     ''{'' @ concat (map (\<lambda>(i, x). (if i = 0 then [] else '', '') @ x)
                     (enumerate 0 (map (\<lambda>kv. py_repr (fst kv) @ '': '' @ json_repr ft (snd kv)) ds))) @ ''}''"

definition json_str :: "(rat \<Rightarrow> string) \<Rightarrow> pyval \<Rightarrow> string" where
  "json_str ft v = (case v of PStr s \<Rightarrow> s | _ \<Rightarrow> json_repr ft v)"

definition clock_text :: "int \<Rightarrow> string" where
  "clock_text secs =
     pad 2 (int_text (secs div 3600)) @ '':'' @ pad 2 (int_text (secs div 60 mod 60)) @ '':'' @
     pad 2 (int_text (secs mod 60))"

definition value_text :: "(rat \<Rightarrow> string) \<Rightarrow> field_value \<Rightarrow> string" where
  "value_text ft v =
     (case v of
        FJson j \<Rightarrow> json_str ft j
      | FInf pos \<Rightarrow> if pos then ''inf'' else ''-inf''
      | FNan \<Rightarrow> ''nan''
      | FDate d \<Rightarrow> iso_text d
      | FDateTime d secs \<Rightarrow> iso_text d @ '' '' @ clock_text secs)"

definition flt_value :: "flt \<Rightarrow> field_value" where
  "flt_value x =
     (case x of Fin q \<Rightarrow> FJson (PFloat q) | PInf \<Rightarrow> FInf True | NInf \<Rightarrow> FInf False | NaN \<Rightarrow> FNan)"

definition number_value :: "number \<Rightarrow> field_value" where
  "number_value x = (case x of NumInt i \<Rightarrow> FJson (PInt i) | NumFlt f \<Rightarrow> flt_value f)"

definition lower_text :: "string \<Rightarrow> string" where
  "lower_text s =
     map (\<lambda>c. let n = of_char c :: nat in
            if (65 \<le> n \<and> n \<le> 90) \<or> (192 \<le> n \<and> n \<le> 222 \<and> n \<noteq> 215) then char_of (n + 32) else c) s"

text \<open>\<open>s.upper()\<close>: the sharp s becomes two letters; the capitals of two letters lie beyond 255.\<close>

definition upper_char :: "char \<Rightarrow> string" where
  "upper_char c =
     (let n = of_char c :: nat in
      if (97 \<le> n \<and> n \<le> 122) \<or> (224 \<le> n \<and> n \<le> 254 \<and> n \<noteq> 247) then [char_of (n - 32)]
      else if n = 223 then ''SS'' else [c])"

definition upper_text :: "string \<Rightarrow> string" where
  "upper_text s = concat (map upper_char s)"

subsection \<open>Character classes\<close>

definition ascii_upper :: "char \<Rightarrow> bool" where
  "ascii_upper c = (let n = of_char c :: nat in 65 \<le> n \<and> n \<le> 90)"

definition latin_letter :: "char \<Rightarrow> bool" where
  "latin_letter c = (let n = of_char c :: nat in (65 \<le> n \<and> n \<le> 90) \<or> (97 \<le> n \<and> n \<le> 122))"

definition ascii_alnum :: "char \<Rightarrow> bool" where
  "ascii_alnum c = (latin_letter c \<or> iso_digit c)"

text \<open>\<open>str.isdigit\<close>: the three superscript digits count.\<close>

definition unicode_digit :: "char \<Rightarrow> bool" where
  "unicode_digit c = (iso_digit c \<or> of_char c \<in> {178, 179, 185 :: nat})"

definition is_digit_text :: "string \<Rightarrow> bool" where
  "is_digit_text s = (s \<noteq> [] \<and> list_all unicode_digit s)"

subsection \<open>Checksums\<close>

definition digit_of :: "char \<Rightarrow> nat" where
  "digit_of c = of_char c - 48"

definition luhn_digits :: "string \<Rightarrow> string" where
  "luhn_digits s = filter (\<lambda>c. c \<noteq> CHR '' '' \<and> c \<noteq> CHR ''-'') s"

definition luhn_double :: "nat \<Rightarrow> nat" where
  "luhn_double d = (if 9 < 2 * d then 2 * d - 9 else 2 * d)"

definition int_literal_error :: "char \<Rightarrow> py_exn" where
  "int_literal_error c = ValueError (''invalid literal for int() with base 10: '' @ py_repr [c])"

fun luhn_total :: "nat \<Rightarrow> nat \<Rightarrow> string \<Rightarrow> nat \<Rightarrow> nat result" where
  "luhn_total parity i [] acc = Inr acc"
| "luhn_total parity i (c # cs) acc =
     (if \<not> iso_digit c then Inl (int_literal_error c)
      else luhn_total parity (Suc i) cs
             (acc + (if i mod 2 = parity then luhn_double (digit_of c) else digit_of c)))"

definition iban_compact :: "string \<Rightarrow> string" where
  "iban_compact s = upper_text (filter (\<lambda>c. \<not> py_space c) s)"

definition iban_shape :: "string \<Rightarrow> bool" where
  "iban_shape s =
     (15 \<le> length s \<and> length s \<le> 34 \<and> list_all ascii_upper (take 2 s) \<and>
      list_all iso_digit (take 2 (drop 2 s)) \<and>
      list_all (\<lambda>c. ascii_upper c \<or> iso_digit c) (drop 4 s))"

definition base36 :: "char \<Rightarrow> nat" where
  "base36 c = (if iso_digit c then digit_of c else of_char c - 55)"

definition iban_number :: "string \<Rightarrow> nat" where
  "iban_number s = digits_val (concat (map (\<lambda>c. nat_text (base36 c)) (drop 4 s @ take 4 s)))"

subsection \<open>Addresses\<close>

definition local_char :: "char \<Rightarrow> bool" where
  "local_char c = (ascii_alnum c \<or> c \<in> set ''._%+-'')"

definition host_char :: "char \<Rightarrow> bool" where
  "host_char c = (ascii_alnum c \<or> c \<in> set ''.-'')"

definition email_body :: "string \<Rightarrow> bool" where
  "email_body s =
     (case split_first (CHR ''@'') s of
        None \<Rightarrow> False
      | Some (name, host) \<Rightarrow>
          name \<noteq> [] \<and> list_all local_char name \<and>
          (case split_first (CHR ''.'') (rev host) of
             None \<Rightarrow> False
           | Some (tld, rest) \<Rightarrow>
               2 \<le> length tld \<and> list_all latin_letter tld \<and> rest \<noteq> [] \<and> list_all host_char rest))"

definition newline :: char where
  "newline = char_of (10 :: nat)"

definition email_shape :: "string \<Rightarrow> bool" where
  "email_shape s = (email_body s \<or> (s \<noteq> [] \<and> last s = newline \<and> email_body (butlast s)))"

definition after_last_at :: "string \<Rightarrow> string" where
  "after_last_at s = rev (takeWhile (\<lambda>c. c \<noteq> CHR ''@'') (rev s))"

text \<open>\<open>urlparse\<close>: scheme and network location; \<open>None\<close> is its \<open>ValueError\<close>.\<close>

definition url_clean :: "string \<Rightarrow> string" where
  "url_clean s =
     filter (\<lambda>c. of_char c \<notin> {9, 10, 13 :: nat}) (dropWhile (\<lambda>c. (of_char c :: nat) \<le> 32) s)"

definition scheme_char :: "char \<Rightarrow> bool" where
  "scheme_char c = (ascii_alnum c \<or> c \<in> set ''+-.'')"

definition split_scheme :: "string \<Rightarrow> string \<times> string" where
  "split_scheme s =
     (case split_first (CHR '':'') s of
        Some (a, rest) \<Rightarrow>
          if a \<noteq> [] \<and> latin_letter (hd a) \<and> list_all scheme_char a then (lower_text a, rest) else ([], s)
      | None \<Rightarrow> ([], s))"

definition netloc :: "string \<Rightarrow> string" where
  "netloc rest =
     (if take 2 rest = ''//'' then takeWhile (\<lambda>c. c \<notin> set ''/?#'') (drop 2 rest) else [])"

definition url_parts :: "(string \<Rightarrow> bool) \<Rightarrow> string \<Rightarrow> (string \<times> string) option" where
  "url_parts bracketed_ok s =
     (case split_scheme (url_clean s) of (scheme, rest) \<Rightarrow>
        let n = netloc rest; l = (CHR ''['' \<in> set n); r = (CHR '']'' \<in> set n)
        in if l \<noteq> r then None
           else if l \<and> \<not> bracketed_ok n then None
           else Some (scheme, n))"

definition phone_digits :: "string \<Rightarrow> string" where
  "phone_digits s = filter (\<lambda>c. c \<notin> set '' -().'') s"

definition phone_shape :: "string \<Rightarrow> bool" where
  "phone_shape s =
     (let ds = (if take 1 s = ''+'' then drop 1 s else s)
      in 7 \<le> length ds \<and> length ds \<le> 15 \<and> list_all iso_digit ds)"

subsection \<open>UUIDs, slugs, tags\<close>

function remove_all :: "string \<Rightarrow> string \<Rightarrow> string" where
  "remove_all t [] = []"
| "remove_all t (c # cs) =
     (if t \<noteq> [] \<and> take (length t) (c # cs) = t then remove_all t (drop (length t) (c # cs))
      else c # remove_all t cs)"
  by pat_completeness auto

termination
  by (relation "measure (length o snd)") (auto simp: Suc_le_eq)

definition strip_braces :: "string \<Rightarrow> string" where
  "strip_braces s =
     (let brace = (\<lambda>c. c \<in> set ''{}'') in rev (dropWhile brace (rev (dropWhile brace s))))"

definition hex_char :: "char \<Rightarrow> bool" where
  "hex_char c = (c \<in> set ''0123456789abcdefABCDEF'')"

fun hex_run :: "bool \<Rightarrow> string \<Rightarrow> bool" where
  "hex_run after_digit [] = after_digit"
| "hex_run after_digit (c # cs) =
     (if c = CHR ''_'' then after_digit \<and> hex_run False cs else hex_char c \<and> hex_run True cs)"

text \<open>
  \<open>int(s, 16)\<close> returns: white space around, a sign, a prefix \<open>0x\<close> and single underscores between
  digits (one may follow the prefix) are accepted.
\<close>

definition hex_literal :: "string \<Rightarrow> bool" where
  "hex_literal s =
     (let body = snd (split_sign (py_strip s)) in
      if map to_lower (take 2 body) = ''0x''
      then hex_run True (drop 2 body) \<and> drop 2 body \<noteq> []
      else hex_run False body)"

definition uuid_shape :: "string \<Rightarrow> bool" where
  "uuid_shape s =
     (let h = filter (\<lambda>c. c \<noteq> CHR ''-'') (strip_braces (remove_all ''uuid:'' (remove_all ''urn:'' s)))
      in length h = 32 \<and> hex_literal h)"

definition slug_shape :: "string \<Rightarrow> bool" where
  "slug_shape s = list_all (\<lambda>p. p \<noteq> [] \<and> list_all ascii_alnum p) (split_on (CHR ''-'') s)"

definition opens_tag :: "string \<Rightarrow> bool" where
  "opens_tag s =
     (let r = (if take 1 s = ''/'' then drop 1 s else s)
      in r \<noteq> [] \<and> latin_letter (hd r) \<and> CHR ''>'' \<in> set (tl r))"

fun has_tag :: "string \<Rightarrow> bool" where
  "has_tag [] = False"
| "has_tag (c # cs) = ((c = CHR ''<'' \<and> opens_tag cs) \<or> has_tag cs)"

end
