(* ===== verification/ValidateChecks.thy ===== *)
theory ValidateChecks
  imports ValidateText
begin

text \<open>
  The shipped checks of asas-validation, checks.py, one definition per function in the order of the
  file.  A check answers \<open>Inr None\<close> (valid), \<open>Inr (Some violation)\<close> or \<open>Inl e\<close> (it raised).  The
  environment holds the clock seam and what the file calls of the standard library beyond the
  theories below it: the text of a float, the date of \<open>datetime.fromisoformat\<close>, \<open>re.fullmatch\<close>
  with a host's pattern and the check of a bracketed network location.  \<open>f\<close> is \<open>field\<close> and \<open>k\<close> is
  \<open>message_key\<close>.
\<close>

record check_env =
  ce_clock :: "clock_answer option"
  ce_server_today :: int
  ce_float_text :: "rat \<Rightarrow> string"
  ce_iso_datetime :: "string \<Rightarrow> int option"
  ce_fullmatch :: "string \<Rightarrow> string \<Rightarrow> bool result"
  ce_bracketed :: "string \<Rightarrow> bool"

record violation =
  vi_field :: string
  vi_code :: string
  vi_message :: string
  vi_params :: "(string \<times> field_value) list"
  vi_key :: string

type_synonym check_result = "violation option result"

subsection \<open>Reading values\<close>

definition today_of :: "check_env \<Rightarrow> int" where
  "today_of e = clock_today (ce_clock e) (ce_server_today e)"

definition text_of :: "check_env \<Rightarrow> field_value \<Rightarrow> string" where
  "text_of e v = value_text (ce_float_text e) v"

definition violates ::
    "string \<Rightarrow> string \<Rightarrow> string \<Rightarrow> string option \<Rightarrow> (string \<times> field_value) list \<Rightarrow> check_result" where
  "violates f code message k params =
     Inr (Some \<lparr>vi_field = f, vi_code = code, vi_message = message, vi_params = params,
       vi_key = (case k of
                   Some key \<Rightarrow> if key = [] then ''validation.'' @ code else key
                 | None \<Rightarrow> ''validation.'' @ code)\<rparr>)"

definition valid :: check_result where
  "valid = Inr None"

definition absent :: "field_value \<Rightarrow> bool" where
  "absent v = (case v of FJson PNone \<Rightarrow> True | FJson (PStr s) \<Rightarrow> blank s | _ \<Rightarrow> False)"

text \<open>\<open>_to_date\<close> and \<open>_to_num\<close>; \<open>None\<close> is the sentinel \<open>_Invalid\<close>.\<close>

definition to_date :: "check_env \<Rightarrow> field_value \<Rightarrow> int option" where
  "to_date e v =
     (case v of
        FDateTime d secs \<Rightarrow> Some d
      | FDate d \<Rightarrow> Some d
      | FJson (PStr s) \<Rightarrow>
          (case from_iso (py_strip s) of
             Some d \<Rightarrow> Some d
           | None \<Rightarrow> ce_iso_datetime e (py_strip s))
      | _ \<Rightarrow> None)"

definition to_num :: "field_value \<Rightarrow> number option" where
  "to_num v =
     (case v of
        FJson (PInt i) \<Rightarrow> Some (NumInt i)
      | FJson (PFloat q) \<Rightarrow> Some (NumFlt (Fin q))
      | FInf pos \<Rightarrow> Some (NumFlt (if pos then PInf else NInf))
      | FNan \<Rightarrow> Some (NumFlt NaN)
      | FJson (PStr s) \<Rightarrow> map_option NumFlt (read_float (py_strip s))
      | _ \<Rightarrow> None)"

definition invalid_date :: "string \<Rightarrow> string option \<Rightarrow> check_result" where
  "invalid_date f k = violates f ''invalid_date'' ''Must be a valid date'' k []"

definition invalid_number :: "string \<Rightarrow> string option \<Rightarrow> check_result" where
  "invalid_number f k = violates f ''invalid_number'' ''Must be a valid number'' k []"

definition provided :: "field_value \<Rightarrow> bool" where
  "provided v = (v \<noteq> FJson PNone \<and> v \<noteq> FJson (PStr []))"

definition text_value :: "string \<Rightarrow> field_value" where
  "text_value s = FJson (PStr s)"

definition int_value :: "int \<Rightarrow> field_value" where
  "int_value i = FJson (PInt i)"

definition texts_value :: "string list \<Rightarrow> field_value" where
  "texts_value xs = FJson (PList (map PStr xs))"

text \<open>What every check does first with the values under test.\<close>

definition on_date ::
    "check_env \<Rightarrow> field_value \<Rightarrow> string \<Rightarrow> string option \<Rightarrow> (int \<Rightarrow> check_result) \<Rightarrow> check_result" where
  "on_date e v f k body =
     (if absent v then valid
      else case to_date e v of None \<Rightarrow> invalid_date f k | Some d \<Rightarrow> body d)"

definition on_dates ::
    "check_env \<Rightarrow> field_value list \<Rightarrow> string \<Rightarrow> string option \<Rightarrow> (int list \<Rightarrow> check_result) \<Rightarrow> check_result" where
  "on_dates e vs f k body =
     (if list_ex absent vs then valid
      else if list_ex (\<lambda>v. to_date e v = None) vs then invalid_date f k
      else body (map (\<lambda>v. the (to_date e v)) vs))"

definition on_num ::
    "field_value \<Rightarrow> string \<Rightarrow> string option \<Rightarrow> (number \<Rightarrow> check_result) \<Rightarrow> check_result" where
  "on_num v f k body =
     (if absent v then valid
      else case to_num v of None \<Rightarrow> invalid_number f k | Some x \<Rightarrow> body x)"

definition on_nums ::
    "field_value \<Rightarrow> field_value \<Rightarrow> string \<Rightarrow> string option \<Rightarrow> (number \<Rightarrow> number \<Rightarrow> check_result)
     \<Rightarrow> check_result" where
  "on_nums v w f k body =
     (if absent v \<or> absent w then valid
      else case (to_num v, to_num w) of
        (Some x, Some y) \<Rightarrow> body x y
      | _ \<Rightarrow> invalid_number f k)"

subsection \<open>Dates and time\<close>

definition not_in_future :: "check_env \<Rightarrow> field_value \<Rightarrow> string \<Rightarrow> string option \<Rightarrow> check_result" where
  "not_in_future e v f k =
     on_date e v f k (\<lambda>d.
       if today_of e < d then violates f ''not_in_future'' ''Must not be in the future'' k []
       else valid)"

definition not_in_past :: "check_env \<Rightarrow> field_value \<Rightarrow> string \<Rightarrow> string option \<Rightarrow> check_result" where
  "not_in_past e v f k =
     on_date e v f k (\<lambda>d.
       if d < today_of e then violates f ''not_in_past'' ''Must not be in the past'' k []
       else valid)"

definition gap_params :: "int \<Rightarrow> int \<Rightarrow> (string \<times> field_value) list" where
  "gap_params days r = [(''days'', int_value days), (''reference'', text_value (iso_text r))]"

definition after ::
    "check_env \<Rightarrow> field_value \<Rightarrow> field_value \<Rightarrow> int \<Rightarrow> string \<Rightarrow> string option \<Rightarrow> check_result" where
  "after e v reference days f k =
     (if absent v \<or> absent reference then valid
      else case (to_date e v, to_date e reference) of
        (Some d, Some r) \<Rightarrow>
          rbind (add_days r days) (\<lambda>limit.
            if d < limit \<or> (days = 0 \<and> d = limit)
            then violates f ''after''
                   (if days = 0 then ''Must be after '' @ iso_text r
                    else ''Must be at least '' @ int_text days @ '' day(s) after '' @ iso_text r)
                   k (gap_params days r)
            else valid)
      | _ \<Rightarrow> invalid_date f k)"

definition before ::
    "check_env \<Rightarrow> field_value \<Rightarrow> field_value \<Rightarrow> int \<Rightarrow> string \<Rightarrow> string option \<Rightarrow> check_result" where
  "before e v reference days f k =
     (if absent v \<or> absent reference then valid
      else case (to_date e v, to_date e reference) of
        (Some d, Some r) \<Rightarrow>
          rbind (add_days r (- days)) (\<lambda>limit.
            if limit < d \<or> (days = 0 \<and> d = limit)
            then violates f ''before''
                   (if days = 0 then ''Must be before '' @ iso_text r
                    else ''Must be at least '' @ int_text days @ '' day(s) before '' @ iso_text r)
                   k (gap_params days r)
            else valid)
      | _ \<Rightarrow> invalid_date f k)"

definition between ::
    "check_env \<Rightarrow> field_value \<Rightarrow> field_value \<Rightarrow> field_value \<Rightarrow> string \<Rightarrow> string option \<Rightarrow> check_result" where
  "between e v start finish f k =
     on_dates e [v, start, finish] f k (\<lambda>ds.
       let d = ds ! 0; a = ds ! 1; b = ds ! 2 in
       if \<not> (a \<le> d \<and> d \<le> b)
       then violates f ''between'' (''Must fall between '' @ iso_text a @ '' and '' @ iso_text b) k
              [(''start'', text_value (iso_text a)), (''end'', text_value (iso_text b))]
       else valid)"

definition one_window_error :: py_exn where
  "one_window_error = TypeErrorExn ''pass exactly one of years= or days=''"

definition age_window :: "check_env \<Rightarrow> int option \<Rightarrow> int option \<Rightarrow> int result" where
  "age_window e years days =
     (case (years, days) of
        (Some y, None) \<Rightarrow> years_ago (today_of e) y
      | (None, Some n) \<Rightarrow> add_days (today_of e) (- n)
      | _ \<Rightarrow> Inl one_window_error)"

definition ahead_window :: "check_env \<Rightarrow> int option \<Rightarrow> int option \<Rightarrow> int result" where
  "ahead_window e years days =
     (case (years, days) of
        (Some y, None) \<Rightarrow> years_ahead (today_of e) y
      | (None, Some n) \<Rightarrow> add_days (today_of e) n
      | _ \<Rightarrow> Inl one_window_error)"

definition window_text :: "int option \<Rightarrow> int option \<Rightarrow> string" where
  "window_text years days =
     (case years of
        Some y \<Rightarrow> int_text y @ '' year(s)''
      | None \<Rightarrow> (case days of Some n \<Rightarrow> int_text n @ '' day(s)'' | None \<Rightarrow> ''None day(s)''))"

definition not_older_than ::
    "check_env \<Rightarrow> field_value \<Rightarrow> int option \<Rightarrow> int option \<Rightarrow> string \<Rightarrow> string option \<Rightarrow> check_result" where
  "not_older_than e v years days f k =
     on_date e v f k (\<lambda>d.
       rbind (age_window e years days) (\<lambda>limit.
         if d < limit
         then violates f ''not_older_than'' (''Must be no older than '' @ window_text years days) k
                [(''limit'', text_value (window_text years days))]
         else valid))"

definition not_beyond ::
    "check_env \<Rightarrow> field_value \<Rightarrow> int option \<Rightarrow> int option \<Rightarrow> string \<Rightarrow> string option \<Rightarrow> check_result" where
  "not_beyond e v years days f k =
     on_date e v f k (\<lambda>d.
       rbind (ahead_window e years days) (\<lambda>limit.
         if limit < d
         then violates f ''not_beyond''
                (''Must be at most '' @ window_text years days @ '' ahead of today'') k
                [(''limit'', text_value (window_text years days))]
         else valid))"

definition age_at_least ::
    "check_env \<Rightarrow> field_value \<Rightarrow> int \<Rightarrow> string \<Rightarrow> string option \<Rightarrow> check_result" where
  "age_at_least e v years f k =
     on_date e v f k (\<lambda>d.
       rbind (years_ago (today_of e) years) (\<lambda>limit.
         if limit < d
         then violates f ''age_at_least'' (''Must imply an age of at least '' @ int_text years) k
                [(''years'', int_value years)]
         else valid))"

definition age_at_most ::
    "check_env \<Rightarrow> field_value \<Rightarrow> int \<Rightarrow> string \<Rightarrow> string option \<Rightarrow> check_result" where
  "age_at_most e v years f k =
     on_date e v f k (\<lambda>d.
       rbind (years_ago (today_of e) (years + 1)) (\<lambda>n.
       rbind (add_days n 1) (\<lambda>limit.
         if d < limit
         then violates f ''age_at_most'' (''Must imply an age of at most '' @ int_text years) k
                [(''years'', int_value years)]
         else valid)))"

definition on_weekday ::
    "check_env \<Rightarrow> field_value \<Rightarrow> int list \<Rightarrow> string \<Rightarrow> string option \<Rightarrow> check_result" where
  "on_weekday e v allowed f k =
     on_date e v f k (\<lambda>d.
       if weekday d \<notin> set allowed
       then violates f ''on_weekday'' ''Must fall on an allowed weekday'' k
              [(''allowed'', FJson (PList (map PInt allowed)))]
       else valid)"

definition within_period ::
    "check_env \<Rightarrow> field_value \<Rightarrow> field_value \<Rightarrow> field_value \<Rightarrow> field_value \<Rightarrow> string \<Rightarrow> string option
     \<Rightarrow> check_result" where
  "within_period e start finish period_start period_end f k =
     on_dates e [start, finish, period_start, period_end] f k (\<lambda>ds.
       let a = ds ! 0; b = ds ! 1; p = ds ! 2; q = ds ! 3 in
       if \<not> (p \<le> a \<and> b \<le> q)
       then violates f ''within_period''
              (''Must lie inside '' @ iso_text p @ '' to '' @ iso_text q) k
              [(''period_start'', text_value (iso_text p)), (''period_end'', text_value (iso_text q))]
       else valid)"

definition no_overlap ::
    "check_env \<Rightarrow> field_value \<Rightarrow> field_value \<Rightarrow> field_value \<Rightarrow> field_value \<Rightarrow> string \<Rightarrow> string option
     \<Rightarrow> check_result" where
  "no_overlap e start finish other_start other_end f k =
     on_dates e [start, finish, other_start, other_end] f k (\<lambda>ds.
       let a = ds ! 0; b = ds ! 1; p = ds ! 2; q = ds ! 3 in
       if a \<le> q \<and> p \<le> b
       then violates f ''no_overlap'' (''Must not overlap '' @ iso_text p @ '' to '' @ iso_text q) k
              [(''other_start'', text_value (iso_text p)), (''other_end'', text_value (iso_text q))]
       else valid)"

subsection \<open>Numbers\<close>

definition number_text :: "check_env \<Rightarrow> number \<Rightarrow> string" where
  "number_text e x = text_of e (number_value x)"

definition at_least ::
    "check_env \<Rightarrow> field_value \<Rightarrow> field_value \<Rightarrow> string \<Rightarrow> string option \<Rightarrow> check_result" where
  "at_least e v minimum f k =
     on_nums v minimum f k (\<lambda>x m.
       if num_less x m
       then violates f ''at_least'' (''Must be at least '' @ number_text e m) k
              [(''minimum'', number_value m)]
       else valid)"

definition at_most ::
    "check_env \<Rightarrow> field_value \<Rightarrow> field_value \<Rightarrow> string \<Rightarrow> string option \<Rightarrow> check_result" where
  "at_most e v maximum f k =
     on_nums v maximum f k (\<lambda>x m.
       if num_less m x
       then violates f ''at_most'' (''Must be at most '' @ number_text e m) k
              [(''maximum'', number_value m)]
       else valid)"

definition positive :: "field_value \<Rightarrow> string \<Rightarrow> string option \<Rightarrow> check_result" where
  "positive v f k =
     on_num v f k (\<lambda>x.
       if \<not> num_less (NumInt 0) x then violates f ''positive'' ''Must be greater than zero'' k []
       else valid)"

definition non_negative :: "field_value \<Rightarrow> string \<Rightarrow> string option \<Rightarrow> check_result" where
  "non_negative v f k =
     on_num v f k (\<lambda>x.
       if num_less x (NumInt 0) then violates f ''non_negative'' ''Must be zero or greater'' k []
       else valid)"

text \<open>\<open>Decimal(str(x))\<close>: infinities and NaN stay, a float is the decimal its text shows.\<close>

definition decimal_of :: "check_env \<Rightarrow> number \<Rightarrow> flt" where
  "decimal_of e x =
     (case x of
        NumInt i \<Rightarrow> Fin (of_int i)
      | NumFlt (Fin q) \<Rightarrow>
          (case split_sign (ce_float_text e q) of (neg, body) \<Rightarrow>
             (case read_decimal body of Some r \<Rightarrow> Fin (if neg then - r else r) | None \<Rightarrow> NaN))
      | NumFlt y \<Rightarrow> y)"

text \<open>
  \<open>a % b == 0\<close> on decimals of 28 digits: a quotient that needs more digits, a zero divisor and an
  infinite dividend raise \<open>InvalidOperation\<close>, which the check reads as "not a multiple".
\<close>

definition decimal_divides :: "flt \<Rightarrow> flt \<Rightarrow> bool" where
  "decimal_divides a b =
     (case (a, b) of
        (Fin x, Fin y) \<Rightarrow> y \<noteq> 0 \<and> \<bar>x / y\<bar> < 10 ^ 28 \<and> of_int \<lfloor>x / y\<rfloor> = x / y
      | (Fin x, PInf) \<Rightarrow> x = 0
      | (Fin x, NInf) \<Rightarrow> x = 0
      | _ \<Rightarrow> False)"

definition multiple_of ::
    "check_env \<Rightarrow> field_value \<Rightarrow> field_value \<Rightarrow> string \<Rightarrow> string option \<Rightarrow> check_result" where
  "multiple_of e v step f k =
     on_nums v step f k (\<lambda>x s.
       if \<not> decimal_divides (decimal_of e x) (decimal_of e s)
       then violates f ''multiple_of'' (''Must be a multiple of '' @ number_text e s) k
              [(''step'', number_value s)]
       else valid)"

definition max_decimals :: "field_value \<Rightarrow> int \<Rightarrow> string \<Rightarrow> string option \<Rightarrow> check_result" where
  "max_decimals v places f k =
     on_num v f k (\<lambda>x.
       rbind (rounding_gap x places) (\<lambda>gap.
         if num_less (NumFlt billionth) (num_abs gap)
         then violates f ''max_decimals''
                (''Must have at most '' @ int_text places @ '' decimal place(s)'') k
                [(''places'', int_value places)]
         else valid))"

definition percent :: "field_value \<Rightarrow> string \<Rightarrow> string option \<Rightarrow> check_result" where
  "percent v f k =
     on_num v f k (\<lambda>x.
       if \<not> (num_leq (NumInt 0) x \<and> num_leq x (NumInt 100))
       then violates f ''percent'' ''Must be between 0 and 100'' k []
       else valid)"

definition luhn :: "check_env \<Rightarrow> field_value \<Rightarrow> string \<Rightarrow> string option \<Rightarrow> check_result" where
  "luhn e v f k =
     (if absent v then valid
      else let digits = luhn_digits (text_of e v) in
        if \<not> is_digit_text digits then violates f ''luhn'' ''Must contain digits only'' k []
        else rbind (luhn_total (length digits mod 2) 0 digits 0) (\<lambda>sum.
          if sum mod 10 \<noteq> 0 then violates f ''luhn'' ''Must carry a valid checksum'' k []
          else valid))"

end
