(* ===== verification/ValidateForms.thy ===== *)
theory ValidateForms
  imports ValidateChecks
begin

text \<open>
  The second half of checks.py: comparing fields, presence, formats and lists.  The collections a
  host passes as settings (\<open>allowed\<close>, \<open>forbidden\<close>, \<open>terms\<close>, \<open>schemes\<close>, \<open>domains\<close>) are lists; the
  items of a list under test are JSON values.
\<close>

subsection \<open>Equality and order of values\<close>

definition value_flt :: "field_value \<Rightarrow> flt option" where
  "value_flt v =
     (case v of
        FJson j \<Rightarrow> map_option Fin (py_num j)
      | FInf pos \<Rightarrow> Some (if pos then PInf else NInf)
      | FNan \<Rightarrow> Some NaN
      | _ \<Rightarrow> None)"

definition value_eq :: "field_value \<Rightarrow> field_value \<Rightarrow> bool" where
  "value_eq v w =
     (case (value_flt v, value_flt w) of
        (Some a, Some b) \<Rightarrow> flt_eq a b
      | _ \<Rightarrow>
          (case (v, w) of
             (FJson i, FJson j) \<Rightarrow> py_eq i j
           | (FDate a, FDate b) \<Rightarrow> a = b
           | (FDateTime a s, FDateTime b t) \<Rightarrow> a = b \<and> s = t
           | _ \<Rightarrow> False))"

text \<open>\<open>v < w\<close>; \<open>None\<close> is the \<open>TypeError\<close>, also of a date compared with a datetime.\<close>

definition value_less :: "field_value \<Rightarrow> field_value \<Rightarrow> bool option" where
  "value_less v w =
     (case (value_flt v, value_flt w) of
        (Some a, Some b) \<Rightarrow> Some (flt_less a b)
      | _ \<Rightarrow>
          (case (v, w) of
             (FJson i, FJson j) \<Rightarrow> py_lt i j
           | (FDate a, FDate b) \<Rightarrow> Some (a < b)
           | (FDateTime a s, FDateTime b t) \<Rightarrow> Some (a < b \<or> (a = b \<and> s < t))
           | _ \<Rightarrow> None))"

subsection \<open>Comparing fields\<close>

definition not_comparable :: "string \<Rightarrow> string option \<Rightarrow> check_result" where
  "not_comparable f k = violates f ''invalid_value'' ''Values are not comparable'' k []"

definition greater_than ::
    "check_env \<Rightarrow> field_value \<Rightarrow> field_value \<Rightarrow> string \<Rightarrow> string option \<Rightarrow> check_result" where
  "greater_than e v reference f k =
     (if absent v \<or> absent reference then valid
      else case value_less reference v of
        None \<Rightarrow> not_comparable f k
      | Some True \<Rightarrow> valid
      | Some False \<Rightarrow>
          violates f ''greater_than'' (''Must be greater than '' @ text_of e reference) k
            [(''reference'', reference)])"

definition less_than ::
    "check_env \<Rightarrow> field_value \<Rightarrow> field_value \<Rightarrow> string \<Rightarrow> string option \<Rightarrow> check_result" where
  "less_than e v reference f k =
     (if absent v \<or> absent reference then valid
      else case value_less v reference of
        None \<Rightarrow> not_comparable f k
      | Some True \<Rightarrow> valid
      | Some False \<Rightarrow>
          violates f ''less_than'' (''Must be less than '' @ text_of e reference) k
            [(''reference'', reference)])"

definition equal_to :: "field_value \<Rightarrow> field_value \<Rightarrow> string \<Rightarrow> string option \<Rightarrow> check_result" where
  "equal_to v reference f k =
     (if absent v \<or> absent reference then valid
      else if \<not> value_eq v reference then violates f ''equal_to'' ''Must match'' k []
      else valid)"

definition different_from :: "field_value \<Rightarrow> field_value \<Rightarrow> string \<Rightarrow> string option \<Rightarrow> check_result" where
  "different_from v reference f k =
     (if absent v \<or> absent reference then valid
      else if value_eq v reference then violates f ''different_from'' ''Must be different'' k []
      else valid)"

definition sums_to ::
    "check_env \<Rightarrow> field_value list \<Rightarrow> field_value \<Rightarrow> string \<Rightarrow> string option \<Rightarrow> check_result" where
  "sums_to e parts target f k =
     (if list_ex absent parts \<or> target = FJson PNone \<or> parts = [] then valid
      else case (if list_ex (\<lambda>p. to_num p = None) parts then None
                 else Some (map (\<lambda>p. the (to_num p)) parts), to_num target) of
        (Some nums, Some t) \<Rightarrow>
          rbind (py_sum nums) (\<lambda>s. rbind (isclose s t) (\<lambda>close.
            if \<not> close
            then violates f ''sums_to'' (''Must add up to '' @ number_text e t) k
                   [(''total'', number_value t)]
            else valid))
      | _ \<Rightarrow> invalid_number f k)"

definition ratio_at_least ::
    "check_env \<Rightarrow> field_value \<Rightarrow> field_value \<Rightarrow> number \<Rightarrow> string \<Rightarrow> string option \<Rightarrow> check_result" where
  "ratio_at_least e v reference ratio f k =
     on_nums v reference f k (\<lambda>x r.
       rbind (num_mul r ratio) (\<lambda>limit.
         if num_less x limit
         then violates f ''ratio_at_least''
                (''Must be at least '' @ number_text e ratio @ '' times '' @ number_text e r) k
                [(''ratio'', number_value ratio), (''reference'', number_value r)]
         else valid))"

subsection \<open>Present or absent\<close>

definition required_when :: "field_value \<Rightarrow> bool \<Rightarrow> string \<Rightarrow> string option \<Rightarrow> check_result" where
  "required_when v cond f k =
     (if cond \<and> \<not> provided v then violates f ''required_when'' ''Required'' k [] else valid)"

definition forbidden_when :: "field_value \<Rightarrow> bool \<Rightarrow> string \<Rightarrow> string option \<Rightarrow> check_result" where
  "forbidden_when v cond f k =
     (if cond \<and> provided v then violates f ''forbidden_when'' ''Must be left empty'' k [] else valid)"

definition required_together :: "field_value list \<Rightarrow> string \<Rightarrow> string option \<Rightarrow> check_result" where
  "required_together vs f k =
     (if list_ex provided vs \<and> \<not> list_all provided vs
      then violates f ''required_together'' ''These fields go together: fill all or none'' k []
      else valid)"

definition at_least_one :: "field_value list \<Rightarrow> string \<Rightarrow> string option \<Rightarrow> check_result" where
  "at_least_one vs f k =
     (if \<not> list_ex provided vs
      then violates f ''at_least_one'' ''At least one of these is required'' k [] else valid)"

definition exactly_one :: "field_value list \<Rightarrow> string \<Rightarrow> string option \<Rightarrow> check_result" where
  "exactly_one vs f k =
     (if length (filter provided vs) \<noteq> 1
      then violates f ''exactly_one'' ''Provide exactly one of these'' k [] else valid)"

subsection \<open>Formats\<close>

definition email ::
    "check_env \<Rightarrow> field_value \<Rightarrow> string list option \<Rightarrow> string \<Rightarrow> string option \<Rightarrow> check_result" where
  "email e v domains f k =
     (if absent v then valid
      else if \<not> email_shape (text_of e v)
      then violates f ''email'' ''Must be a valid email address'' k []
      else case domains of
        None \<Rightarrow> valid
      | Some ds \<Rightarrow>
          if ds \<noteq> [] \<and> lower_text (after_last_at (text_of e v)) \<notin> set (map lower_text ds)
          then violates f ''email'' ''Email must be in an allowed domain'' k
                 [(''domains'', texts_value ds)]
          else valid)"

definition url_error :: py_exn where
  "url_error = ValueError ''Invalid IPv6 URL''"

definition url ::
    "check_env \<Rightarrow> field_value \<Rightarrow> string list \<Rightarrow> string \<Rightarrow> string option \<Rightarrow> check_result" where
  "url e v schemes f k =
     (if absent v then valid
      else case url_parts (ce_bracketed e) (text_of e v) of
        None \<Rightarrow> Inl url_error
      | Some (scheme, host) \<Rightarrow>
          if scheme \<notin> set schemes \<or> host = []
          then violates f ''url''
                 (''Must be a valid web address ('' @
                  json_repr (ce_float_text e) (PList (map PStr schemes)) @ '')'') k
                 [(''schemes'', texts_value schemes)]
          else valid)"

definition phone :: "check_env \<Rightarrow> field_value \<Rightarrow> string \<Rightarrow> string option \<Rightarrow> check_result" where
  "phone e v f k =
     (if absent v then valid
      else if \<not> phone_shape (phone_digits (text_of e v))
      then violates f ''phone'' ''Must be a valid phone number'' k [] else valid)"

definition iban :: "check_env \<Rightarrow> field_value \<Rightarrow> string \<Rightarrow> string option \<Rightarrow> check_result" where
  "iban e v f k =
     (if absent v then valid
      else let compact = iban_compact (text_of e v) in
        if \<not> iban_shape compact then violates f ''iban'' ''Must be a valid IBAN'' k []
        else if iban_number compact mod 97 \<noteq> 1 then violates f ''iban'' ''Must be a valid IBAN'' k []
        else valid)"

definition uuid :: "check_env \<Rightarrow> field_value \<Rightarrow> string \<Rightarrow> string option \<Rightarrow> check_result" where
  "uuid e v f k =
     (if absent v then valid
      else if \<not> uuid_shape (text_of e v)
      then violates f ''uuid'' ''Must be a well-formed UUID'' k [] else valid)"

definition slug :: "check_env \<Rightarrow> field_value \<Rightarrow> string \<Rightarrow> string option \<Rightarrow> check_result" where
  "slug e v f k =
     (if absent v then valid
      else if \<not> slug_shape (text_of e v)
      then violates f ''slug'' ''Must contain only letters, digits, and dashes'' k [] else valid)"

definition matches ::
    "check_env \<Rightarrow> field_value \<Rightarrow> string option \<Rightarrow> string \<Rightarrow> string option \<Rightarrow> check_result" where
  "matches e v pattern f k =
     (case pattern of
        None \<Rightarrow> valid
      | Some p \<Rightarrow>
          if absent v then valid
          else rbind (ce_fullmatch e p (text_of e v)) (\<lambda>hit.
            if \<not> hit then violates f ''matches'' ''Must match the required format'' k [] else valid))"

definition no_html :: "check_env \<Rightarrow> field_value \<Rightarrow> string \<Rightarrow> string option \<Rightarrow> check_result" where
  "no_html e v f k =
     (if absent v then valid
      else if has_tag (text_of e v)
      then violates f ''no_html'' ''Must contain no HTML'' k [] else valid)"

definition one_of ::
    "field_value \<Rightarrow> field_value list option \<Rightarrow> string \<Rightarrow> string option \<Rightarrow> check_result" where
  "one_of v allowed f k =
     (case allowed of
        None \<Rightarrow> valid
      | Some as \<Rightarrow>
          if absent v then valid
          else if \<not> list_ex (value_eq v) as
          then violates f ''one_of'' ''Must be one of the allowed values'' k [] else valid)"

definition not_in ::
    "field_value \<Rightarrow> field_value list option \<Rightarrow> string \<Rightarrow> string option \<Rightarrow> check_result" where
  "not_in v forbidden f k =
     (case forbidden of
        None \<Rightarrow> valid
      | Some bs \<Rightarrow>
          if absent v then valid
          else if list_ex (value_eq v) bs
          then violates f ''not_in'' ''This value is not allowed'' k [] else valid)"

subsection \<open>Lists\<close>

definition not_iterable :: py_exn where
  "not_iterable = TypeErrorExn ''object is not iterable''"

text \<open>\<open>for item in values\<close>: a string gives its characters, a dict its keys.\<close>

definition items_of :: "field_value \<Rightarrow> pyval list result" where
  "items_of v =
     (case v of
        FJson (PList xs) \<Rightarrow> Inr xs
      | FJson (PDict ds) \<Rightarrow> Inr (map (\<lambda>kv. PStr (fst kv)) ds)
      | FJson (PStr s) \<Rightarrow> Inr (map (\<lambda>c. PStr [c]) s)
      | _ \<Rightarrow> Inl not_iterable)"

definition is_text :: "field_value \<Rightarrow> bool" where
  "is_text v = (case v of FJson (PStr s) \<Rightarrow> True | _ \<Rightarrow> False)"

fun has_duplicate :: "pyval list \<Rightarrow> pyval list \<Rightarrow> bool" where
  "has_duplicate seen [] = False"
| "has_duplicate seen (x # xs) =
     (if list_ex (\<lambda>y. py_eq x y) seen then True else has_duplicate (seen @ [x]) xs)"

definition unique_items :: "field_value \<Rightarrow> string \<Rightarrow> string option \<Rightarrow> check_result" where
  "unique_items v f k =
     (if absent v \<or> is_text v then valid
      else rbind (items_of v) (\<lambda>xs.
        if has_duplicate [] xs then violates f ''unique_items'' ''Must contain no duplicates'' k []
        else valid))"

definition subset_of ::
    "field_value \<Rightarrow> pyval list option \<Rightarrow> string \<Rightarrow> string option \<Rightarrow> check_result" where
  "subset_of v allowed f k =
     (case allowed of
        None \<Rightarrow> valid
      | Some as \<Rightarrow>
          if absent v then valid
          else rbind (items_of v) (\<lambda>xs.
            let stray = filter (\<lambda>x. \<not> list_ex (py_eq x) as) xs in
            if stray \<noteq> []
            then violates f ''subset_of'' ''Contains values that are not allowed'' k
                   [(''stray'', FJson (PList stray))]
            else valid))"

definition contains_none ::
    "check_env \<Rightarrow> field_value \<Rightarrow> string list option \<Rightarrow> string \<Rightarrow> string option \<Rightarrow> check_result" where
  "contains_none e v terms f k =
     (case terms of
        None \<Rightarrow> valid
      | Some ts \<Rightarrow>
          if absent v then valid
          else rbind (if is_text v then Inr [lower_text (text_of e v)]
                      else rbind (items_of v) (\<lambda>xs.
                        Inr (map (\<lambda>x. lower_text (json_str (ce_float_text e) x)) xs))) (\<lambda>items.
            let wanted = map lower_text (filter (\<lambda>t. t \<noteq> []) ts);
                found = sort (remdups (filter (\<lambda>t. list_ex (is_infix t) items) wanted))
            in if found \<noteq> []
               then violates f ''contains_none'' ''Contains terms that are not allowed'' k
                      [(''found'', texts_value found)]
               else valid))"

end
