(* ===== verification/ValidateEngine.thy ===== *)
theory ValidateEngine
  imports ValidateForms
begin

text \<open>
  The rest of asas-validation: the declared rules (rules.py, fields.py) and the engine that evaluates
  them for an edit (engine.py), the 422 envelope (errors.py), the namespace of checks and its
  catalog (library.py) and the read router (router.py).  A record is the association list of its
  attributes, module globals are arguments.
\<close>

subsection \<open>Rules and known fields\<close>

record vrule =
  vu_entity :: string
  vu_kind :: string
  vu_fields :: "string list"
  vu_message :: string
  vu_code :: string
  vu_params :: "(string \<times> field_value) list"

definition namespaced :: "string \<Rightarrow> bool" where
  "namespaced f = (CHR ''.'' \<in> set f)"

definition rule_target :: "vrule \<Rightarrow> string" where
  "rule_target r =
     (let own = filter (\<lambda>f. \<not> namespaced f) (vu_fields r)
      in if own \<noteq> [] then last own else last (vu_fields r))"

definition rules_for :: "vrule list \<Rightarrow> string \<Rightarrow> vrule list" where
  "rules_for rules entity = filter (\<lambda>r. vu_entity r = entity) rules"

type_synonym field_registry = "(string \<times> string list) list"

definition vf_register_fields :: "string \<Rightarrow> string list \<Rightarrow> field_registry \<Rightarrow> field_registry" where
  "vf_register_fields entity names reg =
     dset reg entity (remdups ((case dget reg entity of Some fs \<Rightarrow> fs | None \<Rightarrow> []) @ names))"

definition known_fields :: "field_registry \<Rightarrow> string \<Rightarrow> string list" where
  "known_fields reg entity = (case dget reg entity of Some fs \<Rightarrow> fs | None \<Rightarrow> [])"

definition vf_is_known :: "field_registry \<Rightarrow> string \<Rightarrow> string \<Rightarrow> bool" where
  "vf_is_known reg entity field =
     (case dget reg entity of None \<Rightarrow> True | Some fs \<Rightarrow> field \<in> set fs)"

subsection \<open>The engine\<close>

type_synonym attributes = "(string \<times> field_value) list"

definition absent_value :: field_value where
  "absent_value = FJson PNone"

definition get_or_none :: "attributes \<Rightarrow> string \<Rightarrow> field_value" where
  "get_or_none attrs f = (case dget attrs f of Some v \<Rightarrow> v | None \<Rightarrow> absent_value)"

definition effective ::
    "attributes option \<Rightarrow> attributes \<Rightarrow> attributes option \<Rightarrow> string \<Rightarrow> field_value" where
  "effective rec changes context f =
     (case dget changes f of
        Some v \<Rightarrow> v
      | None \<Rightarrow>
          (case (case context of Some c \<Rightarrow> dget c f | None \<Rightarrow> None) of
             Some v \<Rightarrow> v
           | None \<Rightarrow>
               if namespaced f then absent_value
               else (case rec of Some attrs \<Rightarrow> get_or_none attrs f | None \<Rightarrow> absent_value)))"

definition day_value :: "field_value \<Rightarrow> field_value" where
  "day_value v = (case v of FDateTime d secs \<Rightarrow> FDate d | _ \<Rightarrow> v)"

definition not_orderable :: py_exn where
  "not_orderable = TypeErrorExn ''comparison not supported''"

text \<open>\<open>v <= w\<close> of two values.\<close>

definition value_leq :: "field_value \<Rightarrow> field_value \<Rightarrow> bool result" where
  "value_leq v w =
     (case value_less v w of
        Some b \<Rightarrow> Inr (b \<or> value_eq v w)
      | None \<Rightarrow> Inl not_orderable)"

definition index_error :: py_exn where
  "index_error = HostExn ''IndexError'' ''list index out of range''"

definition val_at :: "field_value list \<Rightarrow> nat \<Rightarrow> field_value result" where
  "val_at vals i = (if i < length vals then Inr (day_value (vals ! i)) else Inl index_error)"

definition kind_not_future :: "field_value list \<Rightarrow> int \<Rightarrow> vrule \<Rightarrow> bool result" where
  "kind_not_future vals today r = rbind (val_at vals 0) (\<lambda>v. value_leq v (FDate today))"

definition kind_not_past :: "field_value list \<Rightarrow> int \<Rightarrow> vrule \<Rightarrow> bool result" where
  "kind_not_past vals today r = rbind (val_at vals 0) (\<lambda>v. value_leq (FDate today) v)"

definition kind_order :: "field_value list \<Rightarrow> int \<Rightarrow> vrule \<Rightarrow> bool result" where
  "kind_order vals today r =
     rbind (val_at vals 0) (\<lambda>v. rbind (val_at vals 1) (\<lambda>w. value_leq v w))"

definition rule_years :: "vrule \<Rightarrow> int result" where
  "rule_years r =
     (case dget (vu_params r) ''years'' of
        None \<Rightarrow> Inl (KeyErrorExn ''years'')
      | Some (FJson (PInt n)) \<Rightarrow> Inr n
      | Some _ \<Rightarrow> Inl (TypeErrorExn ''years''))"

definition kind_max_age :: "field_value list \<Rightarrow> int \<Rightarrow> vrule \<Rightarrow> bool result" where
  "kind_max_age vals today r =
     rbind (val_at vals 0) (\<lambda>v.
     rbind (rule_years r) (\<lambda>years.
     rbind (years_ago today years) (\<lambda>limit. value_leq (FDate limit) v)))"

definition kinds :: "(string \<times> (field_value list \<Rightarrow> int \<Rightarrow> vrule \<Rightarrow> bool result)) list" where
  "kinds = [(''not_future'', kind_not_future), (''not_past'', kind_not_past),
            (''order'', kind_order), (''max_age'', kind_max_age)]"

definition rule_holds :: "vrule \<Rightarrow> field_value list \<Rightarrow> int \<Rightarrow> bool result" where
  "rule_holds r vals today =
     (case dget kinds (vu_kind r) of
        None \<Rightarrow> Inl (KeyErrorExn (vu_kind r))
      | Some test \<Rightarrow> test vals today r)"

definition touched :: "attributes \<Rightarrow> vrule \<Rightarrow> bool" where
  "touched changes r = list_ex (\<lambda>f. dget changes f \<noteq> None) (vu_fields r)"

definition rule_values ::
    "attributes option \<Rightarrow> attributes \<Rightarrow> attributes option \<Rightarrow> vrule \<Rightarrow> field_value list" where
  "rule_values rec changes context r = map (effective rec changes context) (vu_fields r)"

definition rule_violation :: "vrule \<Rightarrow> violation" where
  "rule_violation r =
     \<lparr>vi_field = rule_target r, vi_code = vu_code r, vi_message = vu_message r, vi_params = [],
      vi_key = []\<rparr>"

fun evaluate_loop ::
    "int \<Rightarrow> attributes option \<Rightarrow> attributes \<Rightarrow> attributes option \<Rightarrow> vrule list \<Rightarrow> violation list
     \<Rightarrow> violation list result" where
  "evaluate_loop today rec changes context [] acc = Inr acc"
| "evaluate_loop today rec changes context (r # rs) acc =
     (let vals = rule_values rec changes context r in
      if \<not> touched changes r then evaluate_loop today rec changes context rs acc
      else if absent_value \<in> set vals then evaluate_loop today rec changes context rs acc
      else rbind (rule_holds r vals today) (\<lambda>ok.
        evaluate_loop today rec changes context rs (if ok then acc else acc @ [rule_violation r])))"

definition evaluate ::
    "vrule list \<Rightarrow> int \<Rightarrow> string \<Rightarrow> attributes option \<Rightarrow> attributes \<Rightarrow> attributes option
     \<Rightarrow> violation list result" where
  "evaluate rules today entity rec changes context =
     evaluate_loop today rec changes context (rules_for rules entity) []"

definition field_owner :: "vrule \<Rightarrow> string \<Rightarrow> string \<times> string" where
  "field_owner r f =
     (case split_first (CHR ''.'') f of Some (entity, field) \<Rightarrow> (entity, field) | None \<Rightarrow> (vu_entity r, f))"

definition unknown_field :: "vrule \<Rightarrow> string \<Rightarrow> py_exn" where
  "unknown_field r f =
     (case field_owner r f of (entity, field) \<Rightarrow>
        ValueError (''validation rule '' @ quoted (vu_code r) @ '' references unknown field '' @
          quoted (entity @ ''.'' @ field)))"

definition rule_known :: "field_registry \<Rightarrow> vrule \<Rightarrow> string \<Rightarrow> bool" where
  "rule_known reg r f = (case field_owner r f of (entity, field) \<Rightarrow> vf_is_known reg entity field)"

definition check_rule :: "field_registry \<Rightarrow> vrule \<Rightarrow> unit result" where
  "check_rule reg r =
     (case first_where (\<lambda>f. \<not> rule_known reg r f) (vu_fields r) of
        Some f \<Rightarrow> Inl (unknown_field r f)
      | None \<Rightarrow>
          if dget kinds (vu_kind r) = None
          then Inl (ValueError (''validation rule '' @ quoted (vu_code r) @ '' has unknown kind '' @
                 quoted (vu_kind r)))
          else Inr ())"

fun assert_rules_known :: "field_registry \<Rightarrow> vrule list \<Rightarrow> unit result" where
  "assert_rules_known reg [] = Inr ()"
| "assert_rules_known reg (r # rs) = rbind (check_rule reg r) (\<lambda>_. assert_rules_known reg rs)"

subsection \<open>The 422 envelope\<close>

record error_entry =
  ee_loc :: "string list"
  ee_msg :: string
  ee_type :: string
  ee_key :: "string option"
  ee_params :: "(string \<times> field_value) list option"

definition error_entry_of :: "violation \<Rightarrow> error_entry" where
  "error_entry_of v =
     \<lparr>ee_loc = [''body'', vi_field v], ee_msg = vi_message v,
      ee_type = ''value_error.'' @ vi_code v,
      ee_key = (if vi_key v = [] then None else Some (vi_key v)),
      ee_params = (if vi_params v = [] then None else Some (vi_params v))\<rparr>"

text \<open>What a router does next: go on, answer 422 with the entries, or fail with an exception.\<close>

datatype verdict_of_edit = Proceed | Unprocessable "error_entry list" | Failed py_exn

definition to_http :: "violation list \<Rightarrow> verdict_of_edit" where
  "to_http vs = Unprocessable (map error_entry_of vs)"

definition enforce :: "violation option list \<Rightarrow> verdict_of_edit" where
  "enforce results =
     (let problems = map the (filter (\<lambda>r. r \<noteq> None) results)
      in if problems \<noteq> [] then to_http problems else Proceed)"

definition raise_if_invalid ::
    "vrule list \<Rightarrow> int \<Rightarrow> string \<Rightarrow> attributes option \<Rightarrow> attributes \<Rightarrow> attributes option \<Rightarrow> verdict_of_edit" where
  "raise_if_invalid rules today entity rec changes context =
     (case evaluate rules today entity rec changes context of
        Inl x \<Rightarrow> Failed x
      | Inr vs \<Rightarrow> if vs \<noteq> [] then to_http vs else Proceed)"

subsection \<open>The namespace and its catalog\<close>

datatype parameter = VarArgs | Mandatory | Setting field_value

record check_fn =
  cf_id :: int   \<comment> \<open>the identity of the function object\<close>
  cf_module :: string
  cf_params :: "(string \<times> parameter) list"
  cf_doc :: "string option"

record check_module =
  cm_name :: string
  cm_members :: "(string \<times> check_fn) list"   \<comment> \<open>its functions, in the order of their names\<close>

record check_library =
  cl_names :: "(string \<times> check_fn) list"
  cl_modules :: "(string \<times> check_module) list"

definition private_name :: "string \<Rightarrow> bool" where
  "private_name n = (take 1 n = ''_'')"

definition check_functions :: "check_module \<Rightarrow> (string \<times> check_fn) list" where
  "check_functions m =
     filter (\<lambda>(n, fn). \<not> private_name n \<and> cf_module fn = cm_name m) (cm_members m)"

definition collides :: "check_library \<Rightarrow> string \<times> check_fn \<Rightarrow> bool" where
  "collides lib nf =
     (case dget (cl_names lib) (fst nf) of
        None \<Rightarrow> False
      | Some held \<Rightarrow> cf_id held \<noteq> cf_id (snd nf) \<and> cf_module held \<noteq> cf_module (snd nf))"

definition include_checks :: "check_module \<Rightarrow> check_library \<Rightarrow> unit result \<times> check_library" where
  "include_checks m lib =
     (let fns = check_functions m in
      case first_where (collides lib) fns of
        Some (n, fn) \<Rightarrow>
          (Inl (ValueError (''check '' @ py_repr n @ '' already exists; rename the function in '' @
                  cm_name m)), lib)
      | None \<Rightarrow>
          (Inr (), lib\<lparr>cl_names := dmerge (cl_names lib) fns,
                       cl_modules := dset (cl_modules lib) (cm_name m) m\<rparr>))"

definition find_check :: "check_library \<Rightarrow> string \<Rightarrow> check_fn result" where
  "find_check lib n =
     (case dget (cl_names lib) n of
        Some fn \<Rightarrow> if private_name n then Inl (LookupErrorExn (''unknown check '' @ py_repr n)) else Inr fn
      | None \<Rightarrow> Inl (LookupErrorExn (''unknown check '' @ py_repr n)))"

record catalog_entry =
  cg_name :: string
  cg_takes :: "string list"
  cg_settings :: "(string \<times> field_value) list"
  cg_sentence :: string

definition first_line :: "string \<Rightarrow> string" where
  "first_line s = takeWhile (\<lambda>c. of_char c \<notin> {10, 11, 12, 13, 28, 29, 30, 133 :: nat}) (py_strip s)"

definition entry_of :: "string \<times> check_fn \<Rightarrow> catalog_entry" where
  "entry_of nf =
     (let ps = filter (\<lambda>p. fst p \<notin> {''field'', ''message_key''}) (cf_params (snd nf)) in
      \<lparr>cg_name = fst nf,
       cg_takes = concat (map (\<lambda>(p, kind). case kind of VarArgs \<Rightarrow> [p @ ''...''] | Mandatory \<Rightarrow> [p]
                                              | Setting d \<Rightarrow> []) ps),
       cg_settings = concat (map (\<lambda>(p, kind). case kind of Setting d \<Rightarrow> [(p, d)] | _ \<Rightarrow> []) ps),
       cg_sentence = (case cf_doc (snd nf) of Some d \<Rightarrow> first_line d | None \<Rightarrow> [])\<rparr>)"

definition catalog_functions :: "check_library \<Rightarrow> (string \<times> check_fn) list" where
  "catalog_functions lib = concat (map (\<lambda>(n, m). check_functions m) (cl_modules lib))"

definition check_catalog :: "check_library \<Rightarrow> catalog_entry list" where
  "check_catalog lib = sort_key cg_name (map entry_of (catalog_functions lib))"

subsection \<open>The read router\<close>

record served_rule =
  sv_kind :: string
  sv_fields :: "string list"
  sv_field :: string
  sv_rule_code :: string
  sv_message :: string
  sv_params :: "(string \<times> field_value) list"

definition serve_rule :: "vrule \<Rightarrow> served_rule" where
  "serve_rule r =
     \<lparr>sv_kind = vu_kind r, sv_fields = vu_fields r, sv_field = rule_target r,
      sv_rule_code = vu_code r, sv_message = vu_message r, sv_params = vu_params r\<rparr>"

text \<open>\<open>json.dumps(_serialize(rules), sort_keys=True)\<close> and MD5 are functions of their input.\<close>

definition rules_etag :: "(served_rule list \<Rightarrow> string) \<Rightarrow> (string \<Rightarrow> string) \<Rightarrow> vrule list \<Rightarrow> string" where
  "rules_etag dump md5 rules =
     ''W/'' @ [CHR 0x22] @ md5 (dump (map serve_rule rules)) @ [CHR 0x22]"

datatype rules_reply = RulesUnchanged string | RulesServed string "served_rule list"

definition get_rules ::
    "(served_rule list \<Rightarrow> string) \<Rightarrow> (string \<Rightarrow> string) \<Rightarrow> vrule list \<Rightarrow> string option \<Rightarrow> string option
     \<Rightarrow> rules_reply" where
  "get_rules dump md5 declared entity if_none_match =
     (let rules = (case entity of
                     Some en \<Rightarrow> if en = [] then declared else rules_for declared en
                   | None \<Rightarrow> declared);
          etag = rules_etag dump md5 rules
      in if if_none_match = Some etag then RulesUnchanged etag
         else RulesServed etag (map serve_rule rules))"

end
