(* ===== verification/ValidateCalendar.thy ===== *)
theory ValidateCalendar
  imports ValidateDates
begin

text \<open>
  Facts about the calendar of \<open>ValidateDates\<close>: ordinals and civil dates are the same thing, in the
  same order, and what shifting a date by years gives.
\<close>

subsection \<open>Years\<close>

lemma div_pred: "0 < k \<Longrightarrow> (y::int) div k = (y - 1) div k + (if y mod k = 0 then 1 else 0)"
proof -
  assume k: "0 < k"
  have y: "y = k * (y div k) + y mod k" by simp
  have m: "0 \<le> y mod k" "y mod k < k" using k by simp_all
  show ?thesis
  proof (cases "y mod k = 0")
    case True
    have "(y - 1) div k = y div k - 1"
    proof (rule int_div_pos_eq)
      show "y - 1 = k * (y div k - 1) + (k - 1)" using y True by (simp add: algebra_simps)
    qed (use k in auto)
    with True show ?thesis by simp
  next
    case False
    have "(y - 1) div k = y div k"
    proof (rule int_div_pos_eq)
      show "y - 1 = k * (y div k) + (y mod k - 1)" using y by linarith
    qed (use m False in auto)
    with False show ?thesis by simp
  qed
qed

lemma mod_400: "(y::int) mod 400 = 0 \<Longrightarrow> y mod 100 = 0 \<and> y mod 4 = 0"
proof -
  assume "y mod 400 = 0"
  then have "400 dvd y" by auto
  then obtain k where "y = 400 * k" by (rule dvdE)
  then have "y = 100 * (4 * k)" "y = 4 * (100 * k)" by simp_all
  then show ?thesis by (metis mod_mult_self1_is_0)
qed

lemma mod_100: "(y::int) mod 100 = 0 \<Longrightarrow> y mod 4 = 0"
proof -
  assume "y mod 100 = 0"
  then have "100 dvd y" by auto
  then obtain k where "y = 100 * k" by (rule dvdE)
  then have "y = 4 * (25 * k)" by simp
  then show ?thesis by (metis mod_mult_self1_is_0)
qed

lemma mod_top: "1 \<le> (x::int) \<Longrightarrow> x \<le> k \<Longrightarrow> x mod k = 0 \<longleftrightarrow> x = k"
  by (cases "x = k") auto

lemma leap_flags:
  assumes "r \<longrightarrow> q \<and> p" and "q \<longrightarrow> p"
  shows "(if p then 1 else 0) - (if q then 1 else 0) + (if r then 1 else 0) =
     (if p \<and> (\<not> q \<or> r) then 1 else (0::int))"
  using assms by (cases p; cases q; cases r) simp_all

lemma days_before_year_step:
  "days_before_year (y + 1) = days_before_year y + 365 + (if leap_year y then 1 else 0)"
proof -
  define p q r :: int where "p = (if y mod 4 = 0 then 1 else 0)"
    and "q = (if y mod 100 = 0 then 1 else 0)" and "r = (if y mod 400 = 0 then 1 else 0)"
  have "p - q + r = (if leap_year y then 1 else 0)"
    unfolding p_def q_def r_def leap_year_def
    by (rule leap_flags) (use mod_400 [of y] mod_100 [of y] in blast)+
  moreover have "y div 4 = (y - 1) div 4 + p" "y div 100 = (y - 1) div 100 + q"
    "y div 400 = (y - 1) div 400 + r"
    unfolding p_def q_def r_def by (rule div_pred; simp)+
  ultimately show ?thesis by (simp add: days_before_year_def)
qed

lemma days_before_year_mono: "y < z \<Longrightarrow> days_before_year y + 365 \<le> days_before_year z"
proof (induction "nat (z - y)" arbitrary: z)
  case 0
  then show ?case by simp
next
  case (Suc n)
  have s: "days_before_year z = days_before_year (z - 1) + 365 + (if leap_year (z - 1) then 1 else 0)"
    using days_before_year_step [of "z - 1"] by simp
  show ?case
  proof (cases "z = y + 1")
    case True
    with s show ?thesis by simp
  next
    case False
    with Suc have "days_before_year y + 365 \<le> days_before_year (z - 1)" by simp
    with s show ?thesis by (simp split: if_splits)
  qed
qed

lemma days_before_year_le: "y \<le> z \<Longrightarrow> days_before_year y \<le> days_before_year z"
  using days_before_year_mono [of y z] by (cases "y = z") auto

text \<open>The algorithm's quotients, one cycle at a time.\<close>

lemma divide_out: "0 < k \<Longrightarrow> 0 \<le> (r::int) \<Longrightarrow> r \<le> k * j + i \<Longrightarrow> i < k \<Longrightarrow>
   0 \<le> r div k \<and> r div k \<le> j \<and> 0 \<le> r mod k \<and> r mod k < k \<and> (r div k = j \<longrightarrow> r mod k \<le> i)"
proof -
  assume a: "0 < k" "0 \<le> r" "r \<le> k * j + i" "i < k"
  have r: "r = k * (r div k) + r mod k" by simp
  have m: "0 \<le> r mod k" "r mod k < k" using a by simp_all
  have q: "r div k < j + 1"
  proof (rule ccontr)
    assume "\<not> r div k < j + 1"
    then have "k * (j + 1) \<le> k * (r div k)" using a by simp
    then have "k * j + k \<le> k * (r div k)" by (simp add: distrib_left)
    with r m a show False by linarith
  qed
  from a have "0 \<le> r div k" by (simp add: pos_imp_zdiv_nonneg_iff)
  moreover have "r div k = j \<longrightarrow> r mod k \<le> i"
  proof
    assume "r div k = j"
    with r have "r = k * j + r mod k" by simp
    with a show "r mod k \<le> i" by linarith
  qed
  ultimately show ?thesis using q m by simp
qed

lemma cycle_start:
  assumes "0 \<le> b" "b \<le> 3" "0 \<le> c" "c \<le> 24" "0 \<le> d" "d \<le> (3::int)"
  shows "days_before_year (400 * a + 100 * b + 4 * c + d + 1) =
         146097 * a + 36524 * b + 1461 * c + 365 * d"
proof -
  have f: "(400 * a + 100 * b + 4 * c + d) div 4 = 100 * a + 25 * b + c"
    by (rule int_div_pos_eq [where r = "d"]) (use assms in auto)
  have h: "(400 * a + 100 * b + 4 * c + d) div 100 = 4 * a + b"
    by (rule int_div_pos_eq [where r = "4 * c + d"]) (use assms in auto)
  have g: "(400 * a + 100 * b + 4 * c + d) div 400 = a"
    by (rule int_div_pos_eq [where r = "100 * b + 4 * c + d"]) (use assms in auto)
  show ?thesis by (simp add: days_before_year_def f g h)
qed

lemma cycle_leap:
  assumes "0 \<le> b" "b \<le> 3" "0 \<le> c" "c \<le> 24" "0 \<le> d" "d \<le> (3::int)"
  shows "leap_year (400 * a + 100 * b + 4 * c + d + 1) \<longleftrightarrow> d = 3 \<and> (c \<noteq> 24 \<or> b = 3)"
proof -
  have "(400 * a + 100 * b + 4 * c + d + 1) = (d + 1) + 4 * (100 * a + 25 * b + c)" by simp
  then have f: "(400 * a + 100 * b + 4 * c + d + 1) mod 4 = (d + 1) mod 4" by (metis mod_mult_self2)
  have d: "(d + 1) mod 4 = 0 \<longleftrightarrow> d = 3" using mod_top [of "d + 1" 4] assms by auto
  have "(400 * a + 100 * b + 4 * c + d + 1) = (4 * c + d + 1) + 100 * (4 * a + b)" by simp
  then have h: "(400 * a + 100 * b + 4 * c + d + 1) mod 100 = (4 * c + d + 1) mod 100"
    by (metis mod_mult_self2)
  have c: "(4 * c + d + 1) mod 100 = 0 \<longleftrightarrow> c = 24 \<and> d = 3"
    proof -
    have "4 * c + d + 1 = 100 \<longleftrightarrow> c = 24 \<and> d = 3" using assms by (intro iffI conjI; linarith)
    with mod_top [of "4 * c + d + 1" 100] assms show ?thesis by linarith
  qed
  have "(400 * a + 100 * b + 4 * c + d + 1) = (100 * b + 4 * c + d + 1) + 400 * a" by simp
  then have g: "(400 * a + 100 * b + 4 * c + d + 1) mod 400 = (100 * b + 4 * c + d + 1) mod 400"
    by (metis mod_mult_self2)
  have b: "(100 * b + 4 * c + d + 1) mod 400 = 0 \<longleftrightarrow> b = 3 \<and> c = 24 \<and> d = 3"
    proof -
    have "100 * b + 4 * c + d + 1 = 400 \<longleftrightarrow> b = 3 \<and> c = 24 \<and> d = 3"
      using assms by (intro iffI conjI; linarith)
    with mod_top [of "100 * b + 4 * c + d + 1" 400] assms show ?thesis by linarith
  qed
  show ?thesis unfolding leap_year_def f h g d c b by auto
qed

lemma year_of_bounds:
  "days_before_year (year_of n) < n \<and> n \<le> days_before_year (year_of n + 1)"
proof -
  define a where "a = (n - 1) div 146097"
  define r1 where "r1 = (n - 1) mod 146097"
  define b where "b = r1 div 36524"
  define r2 where "r2 = r1 mod 36524"
  define c where "c = r2 div 1461"
  define r3 where "r3 = r2 mod 1461"
  define d where "d = r3 div 365"
  define r4 where "r4 = r3 mod 365"
  have n: "n = 146097 * a + r1 + 1" by (simp add: a_def r1_def)
  have r1: "0 \<le> r1" "r1 \<le> 36524 * 4 + 0" by (simp_all add: r1_def)
  have b: "0 \<le> b \<and> b \<le> 4 \<and> 0 \<le> r2 \<and> r2 < 36524 \<and> (b = 4 \<longrightarrow> r2 \<le> 0)"
    unfolding b_def r2_def by (rule divide_out) (use r1 in auto)
  then have r2: "0 \<le> r2" "r2 \<le> 1461 * 24 + 1459" by auto
  have c: "0 \<le> c \<and> c \<le> 24 \<and> 0 \<le> r3 \<and> r3 < 1461 \<and> (c = 24 \<longrightarrow> r3 \<le> 1459)"
    unfolding c_def r3_def by (rule divide_out) (use r2 in auto)
  then have r3: "0 \<le> r3" "r3 \<le> 365 * 4 + 0" by auto
  have d: "0 \<le> d \<and> d \<le> 4 \<and> 0 \<le> r4 \<and> r4 < 365 \<and> (d = 4 \<longrightarrow> r4 \<le> 0)"
    unfolding d_def r4_def by (rule divide_out) (use r3 in auto)
  have sum: "r1 = 36524 * b + r2" "r2 = 1461 * c + r3" "r3 = 365 * d + r4"
    by (simp_all add: b_def r2_def c_def r3_def d_def r4_def)
  have y: "year_of n = (if d = 4 \<or> b = 4 then 400 * a + 100 * b + 4 * c + d
                        else 400 * a + 100 * b + 4 * c + d + 1)"
    by (simp add: year_of_def Let_def a_def r1_def b_def r2_def c_def r3_def d_def)
  show ?thesis
  proof (cases "b = 4")
    case True
    with b have r2: "r2 = 0" by auto
    then have z: "c = 0" "r3 = 0" by (simp_all add: c_def r3_def)
    then have "d = 0" "r4 = 0" by (simp_all add: d_def r4_def)
    with y True z have "year_of n = 400 * a + 100 * 3 + 4 * 24 + 3 + 1" by simp
    moreover have "days_before_year (400 * a + 100 * 3 + 4 * 24 + 3 + 1) = 146097 * a + 146096 - 365"
      using cycle_start [of 3 24 3 a] by simp
    moreover have "leap_year (400 * a + 100 * 3 + 4 * 24 + 3 + 1)" using cycle_leap [of 3 24 3 a] by simp
    moreover have "n = 146097 * a + 146096 + 1" using n sum True r2 by simp
    ultimately show ?thesis using days_before_year_step [of "year_of n"] by simp
  next
    case nb: False
    show ?thesis
    proof (cases "d = 4")
      case True
      with d have r4: "r4 = 0" by auto
      have "c \<noteq> 24" using c sum True r4 by auto
      have "year_of n = 400 * a + 100 * b + 4 * c + 3 + 1" using y True by simp
      moreover have "days_before_year (400 * a + 100 * b + 4 * c + 3 + 1) =
          146097 * a + 36524 * b + 1461 * c + 365 * 3"
        using cycle_start [of b c 3 a] b c nb by simp
      moreover have "leap_year (400 * a + 100 * b + 4 * c + 3 + 1)"
        using cycle_leap [of b c 3 a] b c nb \<open>c \<noteq> 24\<close> by simp
      ultimately show ?thesis using days_before_year_step [of "year_of n"] n sum True r4 by simp
    next
      case False
      have "year_of n = 400 * a + 100 * b + 4 * c + d + 1" using y nb False by simp
      moreover have "days_before_year (400 * a + 100 * b + 4 * c + d + 1) =
          146097 * a + 36524 * b + 1461 * c + 365 * d"
        using cycle_start [of b c d a] b c d nb False by simp
      ultimately show ?thesis using days_before_year_step [of "year_of n"] n sum d by simp
    qed
  qed
qed

lemma year_of_unique:
  assumes "days_before_year y < n" and "n \<le> days_before_year (y + 1)"
  shows "year_of n = y"
proof (rule ccontr)
  assume "year_of n \<noteq> y"
  then consider "year_of n + 1 \<le> y" | "y + 1 \<le> year_of n" by linarith
  then show False
    using days_before_year_le [of "year_of n + 1" y] days_before_year_le [of "y + 1" "year_of n"]
      year_of_bounds [of n] assms by cases auto
qed

subsection \<open>Months\<close>

lemma month_cases:
  assumes "1 \<le> m" and "m \<le> (12::int)"
  shows "m = 1 \<or> m = 2 \<or> m = 3 \<or> m = 4 \<or> m = 5 \<or> m = 6 \<or> m = 7 \<or> m = 8 \<or> m = 9 \<or> m = 10 \<or> m = 11 \<or> m = 12"
  using assms by presburger

lemma months_before:
  "days_before_month y 1 = 0" "days_before_month y 2 = 31"
  "days_before_month y 3 = 59 + (if leap_year y then 1 else 0)"
  "days_before_month y 4 = 90 + (if leap_year y then 1 else 0)"
  "days_before_month y 5 = 120 + (if leap_year y then 1 else 0)"
  "days_before_month y 6 = 151 + (if leap_year y then 1 else 0)"
  "days_before_month y 7 = 181 + (if leap_year y then 1 else 0)"
  "days_before_month y 8 = 212 + (if leap_year y then 1 else 0)"
  "days_before_month y 9 = 243 + (if leap_year y then 1 else 0)"
  "days_before_month y 10 = 273 + (if leap_year y then 1 else 0)"
  "days_before_month y 11 = 304 + (if leap_year y then 1 else 0)"
  "days_before_month y 12 = 334 + (if leap_year y then 1 else 0)"
  by (simp_all add: days_before_month_def nth_Cons')

lemma month_step:
  assumes "1 \<le> m" and "m < 12"
  shows "days_before_month y (m + 1) = days_before_month y m + month_days y m"
proof -
  from month_cases [of m] assms
  have "m = 1 \<or> m = 2 \<or> m = 3 \<or> m = 4 \<or> m = 5 \<or> m = 6 \<or> m = 7 \<or> m = 8 \<or> m = 9 \<or> m = 10 \<or> m = 11"
    by auto
  then show ?thesis by (elim disjE) (simp_all add: months_before month_days_def)
qed

lemma year_length: "days_before_month y 12 + month_days y 12 = 365 + (if leap_year y then 1 else 0)"
  by (simp add: months_before month_days_def)

lemma month_days_pos: "28 \<le> month_days y m"
  by (simp add: month_days_def)

lemma days_before_month_mono:
  assumes "1 \<le> m" "m < k" "k \<le> 12"
  shows "days_before_month y m + month_days y m \<le> days_before_month y k"
  using assms(2,3)
proof (induction "nat (k - m)" arbitrary: k)
  case 0
  then show ?case by simp
next
  case (Suc n)
  show ?case
  proof (cases "k = m + 1")
    case True
    with month_step [of m y] assms Suc.prems show ?thesis by simp
  next
    case False
    with Suc have "days_before_month y m + month_days y m \<le> days_before_month y (k - 1)" by simp
    moreover have "days_before_month y k = days_before_month y (k - 1) + month_days y (k - 1)"
      using month_step [of "k - 1" y] assms Suc.prems False by simp
    ultimately show ?thesis using month_days_pos [of y "k - 1"] by simp
  qed
qed

lemma month_of_unique:
  assumes m: "1 \<le> m" "m \<le> 12" and "days_before_month y m < doy"
    and "doy \<le> days_before_month y m + month_days y m"
  shows "month_of y doy = m"
proof -
  have low: "days_before_month y k < doy" if "1 \<le> k" "k \<le> m" for k
    using days_before_month_mono [of k m y] month_days_pos [of y k] that assms by (cases "k = m") auto
  have high: "\<not> days_before_month y k < doy" if "m < k" "k \<le> 12" for k
    using days_before_month_mono [of m k y] that assms by auto
  from month_cases [OF m] show ?thesis
    by (elim disjE) (simp_all add: month_of_def low high)
qed

lemma month_of_bounds:
  assumes "1 \<le> doy" and "doy \<le> 365 + (if leap_year y then 1 else 0)"
  shows "1 \<le> month_of y doy \<and> month_of y doy \<le> 12 \<and> days_before_month y (month_of y doy) < doy \<and>
         doy \<le> days_before_month y (month_of y doy) + month_days y (month_of y doy)"
proof -
  have "\<exists>m. 1 \<le> m \<and> m \<le> 12 \<and> days_before_month y m < doy \<and> doy \<le> days_before_month y m + month_days y m"
  proof (rule ccontr)
    assume no: "\<not> ?thesis"
    have "days_before_month y m < doy" if "1 \<le> m" "m \<le> 12" for m
      using that
    proof (induction "nat (m - 1)" arbitrary: m)
      case 0
      then show ?case using assms by (simp add: months_before)
    next
      case (Suc n)
      have "days_before_month y (m - 1) < doy" using Suc by simp
      with no Suc have "days_before_month y (m - 1) + month_days y (m - 1) < doy"
        by (force dest!: spec [of _ "m - 1"])
      then show ?case using month_step [of "m - 1" y] Suc by simp
    qed
    from this [of 12] no year_length [of y] assms show False by (force dest!: spec [of _ 12])
  qed
  then show ?thesis using month_of_unique by blast
qed

subsection \<open>Ordinals and civil dates\<close>

lemma ordinal_in_year:
  assumes "1 \<le> m" "m \<le> 12" "1 \<le> d" "d \<le> month_days y m"
  shows "days_before_year y < to_ordinal y m d \<and> to_ordinal y m d \<le> days_before_year (y + 1)"
proof -
  have "0 \<le> days_before_month y m"
    using days_before_month_mono [of 1 m y] month_days_pos [of y 1] assms
    by (cases "m = 1") (simp_all add: months_before)
  moreover have "days_before_month y m + month_days y m \<le> 365 + (if leap_year y then 1 else 0)"
    using days_before_month_mono [of m 12 y] year_length [of y] month_days_pos [of y 12] assms
    by (cases "m = 12") (auto split: if_splits)
  ultimately show ?thesis using assms days_before_year_step [of y] by (simp add: to_ordinal_def)
qed

lemma civil_to_ordinal:
  assumes "1 \<le> m" "m \<le> 12" "1 \<le> d" "d \<le> month_days y m"
  shows "civil (to_ordinal y m d) = (y, m, d)"
proof -
  have y: "year_of (to_ordinal y m d) = y" using ordinal_in_year [OF assms] year_of_unique by blast
  have "month_of y (days_before_month y m + d) = m" using assms by (intro month_of_unique) auto
  with y show ?thesis by (simp add: civil_def Let_def to_ordinal_def)
qed

lemma civil_valid:
  assumes "civil n = (y, m, d)"
  shows "to_ordinal y m d = n \<and> 1 \<le> m \<and> m \<le> 12 \<and> 1 \<le> d \<and> d \<le> month_days y m \<and> year_of n = y"
proof -
  have y: "y = year_of n" and m: "m = month_of y (n - days_before_year y)"
    and d: "d = n - days_before_year y - days_before_month y m"
    using assms by (auto simp: civil_def Let_def)
  have "1 \<le> n - days_before_year y" "n - days_before_year y \<le> 365 + (if leap_year y then 1 else 0)"
    using year_of_bounds [of n] days_before_year_step [of y] y by auto
  from month_of_bounds [OF this] m d y show ?thesis by (auto simp: to_ordinal_def)
qed

lemma year_of_range: "1 \<le> n \<Longrightarrow> n \<le> max_ordinal \<Longrightarrow> 1 \<le> year_of n \<and> year_of n \<le> 9999"
proof -
  assume n: "1 \<le> n" "n \<le> max_ordinal"
  have one: "days_before_year 1 = 0" and top: "days_before_year 10000 = max_ordinal"
    by (simp_all add: days_before_year_def max_ordinal_def)
  have "\<not> year_of n + 1 \<le> 1"
    using days_before_year_le [of "year_of n + 1" 1] year_of_bounds [of n] n one by auto
  moreover have "\<not> 10000 \<le> year_of n"
    using days_before_year_le [of 10000 "year_of n"] year_of_bounds [of n] n top by auto
  ultimately show ?thesis by auto
qed

lemma valid_ordinal_range:
  assumes "valid_date y m d"
  shows "1 \<le> to_ordinal y m d \<and> to_ordinal y m d \<le> max_ordinal"
proof -
  have one: "days_before_year 1 = 0" and top: "days_before_year 10000 = max_ordinal"
    by (simp_all add: days_before_year_def max_ordinal_def)
  from assms have "days_before_year y < to_ordinal y m d \<and> to_ordinal y m d \<le> days_before_year (y + 1)"
    by (intro ordinal_in_year) (auto simp: valid_date_def)
  moreover have "days_before_year 1 \<le> days_before_year y" "days_before_year (y + 1) \<le> days_before_year 10000"
    using assms by (auto intro!: days_before_year_le simp: valid_date_def)
  ultimately show ?thesis using one top by auto
qed

lemma ordinal_less:
  assumes "civil n = (y, m, d)" and "civil k = (y', m', d')"
  shows "n < k \<longleftrightarrow> y < y' \<or> (y = y' \<and> (m < m' \<or> (m = m' \<and> d < d')))"
proof -
  have lt: "a < b"
    if ca: "civil a = (y, m, d)" and cb: "civil b = (y', m', d')"
      and less: "y < y' \<or> (y = y' \<and> (m < m' \<or> (m = m' \<and> d < d')))" for a b y m d y' m' d'
  proof -
    note va = civil_valid [OF ca] and vb = civil_valid [OF cb]
    from less consider "y < y'" | "y = y'" "m < m'" | "y = y'" "m = m'" "d < d'" by blast
    then show ?thesis
    proof cases
      case 1
      then have "days_before_year (y + 1) \<le> days_before_year y'" by (intro days_before_year_le) auto
      then show ?thesis using year_of_bounds [of a] year_of_bounds [of b] va vb by auto
    next
      case 2
      then show ?thesis using days_before_month_mono [of m m' y] va vb by (auto simp: to_ordinal_def)
    next
      case 3
      then show ?thesis using va vb by (auto simp: to_ordinal_def)
    qed
  qed
  show ?thesis
  proof
    assume "n < k"
    show "y < y' \<or> (y = y' \<and> (m < m' \<or> (m = m' \<and> d < d')))"
    proof (rule ccontr)
      assume "\<not> ?thesis"
      then consider "(y', m', d') = (y, m, d)" | "y' < y \<or> (y' = y \<and> (m' < m \<or> (m' = m \<and> d' < d)))"
        by fastforce
      then show False
      proof cases
        case 1
        with civil_valid [OF assms(1)] civil_valid [OF assms(2)] \<open>n < k\<close> show ?thesis by auto
      next
        case 2
        with lt [OF assms(2,1)] \<open>n < k\<close> show ?thesis by auto
      qed
    qed
  next
    assume "y < y' \<or> (y = y' \<and> (m < m' \<or> (m = m' \<and> d < d')))"
    with lt [OF assms] show "n < k" by blast
  qed
qed

subsection \<open>Shifting by years\<close>

text \<open>The same day of another year, or the 28th of February where that day does not exist.\<close>

definition clamped_day :: "int \<Rightarrow> int \<Rightarrow> int \<Rightarrow> int" where
  "clamped_day y m d = (if m = 2 \<and> d = 29 \<and> \<not> leap_year y then 28 else d)"

lemma shift_year_Inr:
  assumes c: "civil anchor = (y, m, d)" and r: "1 \<le> y + k" "y + k \<le> 9999"
  shows "\<exists>n. shift_year anchor k = Inr n \<and> civil n = (y + k, m, clamped_day (y + k) m d) \<and>
             1 \<le> n \<and> n \<le> max_ordinal"
proof -
  note v = civil_valid [OF c]
  let ?d = "clamped_day (y + k) m d"
  have ok: "valid_date (y + k) m ?d"
    using v r by (auto simp: valid_date_def clamped_day_def month_days_def split: if_splits)
  have "shift_year anchor k = Inr (to_ordinal (y + k) m ?d)"
  proof (cases "valid_date (y + k) m d")
    case True
    then have "?d = d" by (auto simp: clamped_day_def valid_date_def month_days_def split: if_splits)
    with True c show ?thesis by (simp add: shift_year_def make_date_def)
  next
    case False
    have "m = 2 \<and> d = 29 \<and> \<not> leap_year (y + k)"
    proof -
      from False v r have "month_days (y + k) m < d" by (auto simp: valid_date_def)
      with v show ?thesis by (auto simp: month_days_def split: if_splits)
    qed
    then have "?d = 28" "m = 2" by (simp_all add: clamped_day_def)
    with False ok c show ?thesis by (simp add: shift_year_def make_date_def)
  qed
  moreover have "civil (to_ordinal (y + k) m ?d) = (y + k, m, ?d)"
    using ok by (intro civil_to_ordinal) (auto simp: valid_date_def)
  ultimately show ?thesis using valid_ordinal_range [OF ok] by blast
qed

lemma shift_year_Inl:
  assumes c: "civil anchor = (y, m, d)" and "\<not> (1 \<le> y + k \<and> y + k \<le> 9999)"
  shows "shift_year anchor k = Inl year_error"
  using assms by (auto simp: shift_year_def make_date_def valid_date_def)

end
