(* ===== verification/ValidateCalls.thy ===== *)
theory ValidateCalls
  imports ValidateEngine ValidateCalendar
begin

text \<open>
  Every shipped check as one value: \<open>check_call\<close> is a call of \<open>validate.<name>\<close> with its arguments, and
  \<open>run_check\<close> is what it returns.
\<close>

datatype check_call =
    NotInFuture field_value
  | NotInPast field_value
  | After field_value field_value int
  | Before field_value field_value int
  | Between field_value field_value field_value
  | NotOlderThan field_value "int option" "int option"
  | NotBeyond field_value "int option" "int option"
  | AgeAtLeast field_value int
  | AgeAtMost field_value int
  | OnWeekday field_value "int list"
  | WithinPeriod field_value field_value field_value field_value
  | NoOverlap field_value field_value field_value field_value
  | AtLeast field_value field_value
  | AtMost field_value field_value
  | Positive field_value
  | NonNegative field_value
  | MultipleOf field_value field_value
  | MaxDecimals field_value int
  | Percent field_value
  | Luhn field_value
  | GreaterThan field_value field_value
  | LessThan field_value field_value
  | EqualTo field_value field_value
  | DifferentFrom field_value field_value
  | SumsTo "field_value list" field_value
  | RatioAtLeast field_value field_value number
  | RequiredWhen field_value bool
  | ForbiddenWhen field_value bool
  | RequiredTogether "field_value list"
  | AtLeastOne "field_value list"
  | ExactlyOne "field_value list"
  | Email field_value "string list option"
  | Url field_value "string list"
  | Phone field_value
  | Iban field_value
  | Uuid field_value
  | Slug field_value
  | Matches field_value "string option"
  | NoHtml field_value
  | OneOf field_value "field_value list option"
  | NotIn field_value "field_value list option"
  | UniqueItems field_value
  | SubsetOf field_value "pyval list option"
  | ContainsNone field_value "string list option"

definition run_check :: "check_env \<Rightarrow> string \<Rightarrow> string option \<Rightarrow> check_call \<Rightarrow> check_result" where
  "run_check e f k c =
     (case c of
        NotInFuture v \<Rightarrow> not_in_future e v f k
      | NotInPast v \<Rightarrow> not_in_past e v f k
      | After v r n \<Rightarrow> after e v r n f k
      | Before v r n \<Rightarrow> before e v r n f k
      | Between v a b \<Rightarrow> between e v a b f k
      | NotOlderThan v y n \<Rightarrow> not_older_than e v y n f k
      | NotBeyond v y n \<Rightarrow> not_beyond e v y n f k
      | AgeAtLeast v y \<Rightarrow> age_at_least e v y f k
      | AgeAtMost v y \<Rightarrow> age_at_most e v y f k
      | OnWeekday v ds \<Rightarrow> on_weekday e v ds f k
      | WithinPeriod a b p q \<Rightarrow> within_period e a b p q f k
      | NoOverlap a b p q \<Rightarrow> no_overlap e a b p q f k
      | AtLeast v m \<Rightarrow> at_least e v m f k
      | AtMost v m \<Rightarrow> at_most e v m f k
      | Positive v \<Rightarrow> positive v f k
      | NonNegative v \<Rightarrow> non_negative v f k
      | MultipleOf v s \<Rightarrow> multiple_of e v s f k
      | MaxDecimals v n \<Rightarrow> max_decimals v n f k
      | Percent v \<Rightarrow> percent v f k
      | Luhn v \<Rightarrow> luhn e v f k
      | GreaterThan v r \<Rightarrow> greater_than e v r f k
      | LessThan v r \<Rightarrow> less_than e v r f k
      | EqualTo v r \<Rightarrow> equal_to v r f k
      | DifferentFrom v r \<Rightarrow> different_from v r f k
      | SumsTo vs t \<Rightarrow> sums_to e vs t f k
      | RatioAtLeast v r q \<Rightarrow> ratio_at_least e v r q f k
      | RequiredWhen v w \<Rightarrow> required_when v w f k
      | ForbiddenWhen v w \<Rightarrow> forbidden_when v w f k
      | RequiredTogether vs \<Rightarrow> required_together vs f k
      | AtLeastOne vs \<Rightarrow> at_least_one vs f k
      | ExactlyOne vs \<Rightarrow> exactly_one vs f k
      | Email v ds \<Rightarrow> email e v ds f k
      | Url v ss \<Rightarrow> url e v ss f k
      | Phone v \<Rightarrow> phone e v f k
      | Iban v \<Rightarrow> iban e v f k
      | Uuid v \<Rightarrow> uuid e v f k
      | Slug v \<Rightarrow> slug e v f k
      | Matches v p \<Rightarrow> matches e v p f k
      | NoHtml v \<Rightarrow> no_html e v f k
      | OneOf v xs \<Rightarrow> one_of v xs f k
      | NotIn v xs \<Rightarrow> not_in v xs f k
      | UniqueItems v \<Rightarrow> unique_items v f k
      | SubsetOf v xs \<Rightarrow> subset_of v xs f k
      | ContainsNone v ts \<Rightarrow> contains_none e v ts f k)"

subsection \<open>What a call is about\<close>

definition tested_values :: "check_call \<Rightarrow> field_value list" where
  "tested_values c =
     (case c of
        NotInFuture v \<Rightarrow> [v]
      | NotInPast v \<Rightarrow> [v]
      | After v r n \<Rightarrow> [v, r]
      | Before v r n \<Rightarrow> [v, r]
      | Between v a b \<Rightarrow> [v, a, b]
      | NotOlderThan v y n \<Rightarrow> [v]
      | NotBeyond v y n \<Rightarrow> [v]
      | AgeAtLeast v y \<Rightarrow> [v]
      | AgeAtMost v y \<Rightarrow> [v]
      | OnWeekday v ds \<Rightarrow> [v]
      | WithinPeriod a b p q \<Rightarrow> [a, b, p, q]
      | NoOverlap a b p q \<Rightarrow> [a, b, p, q]
      | AtLeast v m \<Rightarrow> [v, m]
      | AtMost v m \<Rightarrow> [v, m]
      | Positive v \<Rightarrow> [v]
      | NonNegative v \<Rightarrow> [v]
      | MultipleOf v s \<Rightarrow> [v, s]
      | MaxDecimals v n \<Rightarrow> [v]
      | Percent v \<Rightarrow> [v]
      | Luhn v \<Rightarrow> [v]
      | GreaterThan v r \<Rightarrow> [v, r]
      | LessThan v r \<Rightarrow> [v, r]
      | EqualTo v r \<Rightarrow> [v, r]
      | DifferentFrom v r \<Rightarrow> [v, r]
      | SumsTo vs t \<Rightarrow> vs
      | RatioAtLeast v r q \<Rightarrow> [v, r]
      | RequiredWhen v w \<Rightarrow> []
      | ForbiddenWhen v w \<Rightarrow> []
      | RequiredTogether vs \<Rightarrow> []
      | AtLeastOne vs \<Rightarrow> []
      | ExactlyOne vs \<Rightarrow> []
      | Email v ds \<Rightarrow> [v]
      | Url v ss \<Rightarrow> [v]
      | Phone v \<Rightarrow> [v]
      | Iban v \<Rightarrow> [v]
      | Uuid v \<Rightarrow> [v]
      | Slug v \<Rightarrow> [v]
      | Matches v p \<Rightarrow> [v]
      | NoHtml v \<Rightarrow> [v]
      | OneOf v xs \<Rightarrow> [v]
      | NotIn v xs \<Rightarrow> [v]
      | UniqueItems v \<Rightarrow> [v]
      | SubsetOf v xs \<Rightarrow> [v]
      | ContainsNone v ts \<Rightarrow> [v])"

definition codes_of :: "check_call \<Rightarrow> string list" where
  "codes_of c =
     (case c of
        NotInFuture _ \<Rightarrow> [''not_in_future'', ''invalid_date'']
      | NotInPast _ \<Rightarrow> [''not_in_past'', ''invalid_date'']
      | After _ _ _ \<Rightarrow> [''after'', ''invalid_date'']
      | Before _ _ _ \<Rightarrow> [''before'', ''invalid_date'']
      | Between _ _ _ \<Rightarrow> [''between'', ''invalid_date'']
      | NotOlderThan _ _ _ \<Rightarrow> [''not_older_than'', ''invalid_date'']
      | NotBeyond _ _ _ \<Rightarrow> [''not_beyond'', ''invalid_date'']
      | AgeAtLeast _ _ \<Rightarrow> [''age_at_least'', ''invalid_date'']
      | AgeAtMost _ _ \<Rightarrow> [''age_at_most'', ''invalid_date'']
      | OnWeekday _ _ \<Rightarrow> [''on_weekday'', ''invalid_date'']
      | WithinPeriod _ _ _ _ \<Rightarrow> [''within_period'', ''invalid_date'']
      | NoOverlap _ _ _ _ \<Rightarrow> [''no_overlap'', ''invalid_date'']
      | AtLeast _ _ \<Rightarrow> [''at_least'', ''invalid_number'']
      | AtMost _ _ \<Rightarrow> [''at_most'', ''invalid_number'']
      | Positive _ \<Rightarrow> [''positive'', ''invalid_number'']
      | NonNegative _ \<Rightarrow> [''non_negative'', ''invalid_number'']
      | MultipleOf _ _ \<Rightarrow> [''multiple_of'', ''invalid_number'']
      | MaxDecimals _ _ \<Rightarrow> [''max_decimals'', ''invalid_number'']
      | Percent _ \<Rightarrow> [''percent'', ''invalid_number'']
      | Luhn _ \<Rightarrow> [''luhn'']
      | GreaterThan _ _ \<Rightarrow> [''greater_than'', ''invalid_value'']
      | LessThan _ _ \<Rightarrow> [''less_than'', ''invalid_value'']
      | EqualTo _ _ \<Rightarrow> [''equal_to'']
      | DifferentFrom _ _ \<Rightarrow> [''different_from'']
      | SumsTo _ _ \<Rightarrow> [''sums_to'', ''invalid_number'']
      | RatioAtLeast _ _ _ \<Rightarrow> [''ratio_at_least'', ''invalid_number'']
      | RequiredWhen _ _ \<Rightarrow> [''required_when'']
      | ForbiddenWhen _ _ \<Rightarrow> [''forbidden_when'']
      | RequiredTogether _ \<Rightarrow> [''required_together'']
      | AtLeastOne _ \<Rightarrow> [''at_least_one'']
      | ExactlyOne _ \<Rightarrow> [''exactly_one'']
      | Email _ _ \<Rightarrow> [''email'']
      | Url _ _ \<Rightarrow> [''url'']
      | Phone _ \<Rightarrow> [''phone'']
      | Iban _ \<Rightarrow> [''iban'']
      | Uuid _ \<Rightarrow> [''uuid'']
      | Slug _ \<Rightarrow> [''slug'']
      | Matches _ _ \<Rightarrow> [''matches'']
      | NoHtml _ \<Rightarrow> [''no_html'']
      | OneOf _ _ \<Rightarrow> [''one_of'']
      | NotIn _ _ \<Rightarrow> [''not_in'']
      | UniqueItems _ \<Rightarrow> [''unique_items'']
      | SubsetOf _ _ \<Rightarrow> [''subset_of'']
      | ContainsNone _ _ \<Rightarrow> [''contains_none''])"

subsection \<open>Calls that cannot raise\<close>

text \<open>
  The conditions under which a call returns: dates stay inside the calendar, exactly one of
  \<open>years=\<close> and \<open>days=\<close> is given, numbers stay clear of the largest double, a list is expected where a
  list is, the pattern compiles, a checksum text has no superscript digits and a web address no
  square brackets.
\<close>

definition gap_fits :: "check_env \<Rightarrow> field_value \<Rightarrow> int \<Rightarrow> bool" where
  "gap_fits e r n =
     (case to_date e r of
        None \<Rightarrow> True
      | Some d \<Rightarrow> \<bar>n\<bar> \<le> max_days \<and> 1 \<le> d + n \<and> d + n \<le> max_ordinal)"

definition year_fits :: "int \<Rightarrow> int \<Rightarrow> bool" where
  "year_fits day k = (1 \<le> year_of day + k \<and> year_of day + k \<le> 9998)"

definition window_fits :: "int \<Rightarrow> int option \<Rightarrow> int option \<Rightarrow> bool" where
  "window_fits day y n =
     (case (y, n) of
        (Some k, None) \<Rightarrow> year_fits day k
      | (None, Some k) \<Rightarrow> \<bar>k\<bar> \<le> max_days \<and> 1 \<le> day + k \<and> day + k \<le> max_ordinal
      | _ \<Rightarrow> False)"

definition safe_size :: int where
  "safe_size = 2 ^ 1022"

definition int_size :: "field_value \<Rightarrow> int" where
  "int_size v = (case to_num v of Some (NumInt i) \<Rightarrow> \<bar>i\<bar> | _ \<Rightarrow> 0)"

definition small_number :: "number \<Rightarrow> bool" where
  "small_number x =
     (case x of NumInt i \<Rightarrow> \<bar>i\<bar> \<le> safe_size | NumFlt (Fin q) \<Rightarrow> \<bar>q\<bar> \<le> of_int safe_size | _ \<Rightarrow> True)"

definition small_value :: "field_value \<Rightarrow> bool" where
  "small_value v = (case to_num v of None \<Rightarrow> True | Some x \<Rightarrow> small_number x)"

definition small_total :: "field_value list \<Rightarrow> bool" where
  "small_total vs = (sum_list (map int_size vs) \<le> safe_size)"

definition plain_digits :: "string \<Rightarrow> bool" where
  "plain_digits s = list_all (\<lambda>c. of_char c \<notin> {178, 179, 185 :: nat}) s"

definition no_brackets :: "string \<Rightarrow> bool" where
  "no_brackets s = (CHR ''['' \<notin> set s \<and> CHR '']'' \<notin> set s)"

definition pattern_compiles :: "check_env \<Rightarrow> string option \<Rightarrow> string \<Rightarrow> bool" where
  "pattern_compiles e p txt =
     (case p of None \<Rightarrow> True
      | Some re \<Rightarrow> (case ce_fullmatch e re txt of Inr hit \<Rightarrow> True | Inl x \<Rightarrow> False))"

definition iterable :: "field_value \<Rightarrow> bool" where
  "iterable v = (absent v \<or> is_text v \<or>
     (case v of FJson (PList xs) \<Rightarrow> True | FJson (PDict ds) \<Rightarrow> True | _ \<Rightarrow> False))"

definition well_used :: "check_env \<Rightarrow> check_call \<Rightarrow> bool" where
  "well_used e c =
     (case c of
        After v r n \<Rightarrow> gap_fits e r n
      | Before v r n \<Rightarrow> gap_fits e r (- n)
      | NotOlderThan v y n \<Rightarrow> window_fits (today_of e) (map_option uminus y) (map_option uminus n)
      | NotBeyond v y n \<Rightarrow> window_fits (today_of e) y n
      | AgeAtLeast v y \<Rightarrow> year_fits (today_of e) (- y)
      | AgeAtMost v y \<Rightarrow> year_fits (today_of e) (- y - 1)
      | MaxDecimals v n \<Rightarrow> 0 \<le> n \<and> small_value v
      | Luhn v \<Rightarrow> plain_digits (text_of e v)
      | SumsTo vs t \<Rightarrow> small_total vs \<and> small_value t
      | RatioAtLeast v r q \<Rightarrow> small_value r \<and> small_number q
      | Url v ss \<Rightarrow> no_brackets (text_of e v)
      | Matches v p \<Rightarrow> pattern_compiles e p (text_of e v)
      | UniqueItems v \<Rightarrow> iterable v
      | SubsetOf v xs \<Rightarrow> iterable v
      | ContainsNone v ts \<Rightarrow> iterable v
      | _ \<Rightarrow> True)"

end
