(* ===== verification/ValidateSound.thy ===== *)
theory ValidateSound
  imports ValidateCalls
begin

text \<open>Doubles, sums and the shape of every answer.\<close>

subsection \<open>Doubles do not overflow below the largest\<close>

lemma bits_bounds: "0 < n \<Longrightarrow> 2 ^ (bits n - 1) \<le> n \<and> n < 2 ^ bits n \<and> 1 \<le> bits n"
proof (induction n rule: bits.induct)
  case (1 n)
  show ?case
  proof (cases "n < 2")
    case True
    with 1 have "n = 1" by simp
    then show ?thesis by (simp add: bits.simps [of "Suc 0"] bits.simps [of 0])
  next
    case False
    with 1 have IH: "2 ^ (bits (n div 2) - 1) \<le> n div 2 \<and> n div 2 < 2 ^ bits (n div 2) \<and> 1 \<le> bits (n div 2)"
      by simp
    have b: "bits n = Suc (bits (n div 2))" using 1 by (subst bits.simps) simp
    obtain k where k: "bits (n div 2) = Suc k" using IH by (cases "bits (n div 2)") auto
    from IH k b show ?thesis by (auto simp: less_mult_imp_div_less)
  qed
qed

lemma pow2_nat: "pow2 (int n) = 2 ^ n"
  by (simp add: pow2_def)

lemma pow2_pos [simp]: "0 < pow2 k"
  by (simp add: pow2_def)

lemma pow2_eq: "pow2 k = 2 powi k"
  by (simp add: pow2_def power_int_def inverse_eq_divide power_one_over)

lemma pow2_add: "pow2 (a + b) = pow2 a * pow2 b"
  by (simp add: pow2_eq power_int_add)

lemma pow2_less_iff: "pow2 a < pow2 b \<longleftrightarrow> a < b"
proof -
  have lt: "pow2 a < pow2 b" if "a < b" for a b
  proof -
    have "pow2 b = pow2 a * pow2 (b - a)" using pow2_add [of a "b - a"] by simp
    moreover have "1 < pow2 (b - a)" using that by (simp add: pow2_def one_less_power)
    ultimately show ?thesis using mult_strict_left_mono [of 1 "pow2 (b - a)" "pow2 a"] by simp
  qed
  show ?thesis
  proof
    assume "pow2 a < pow2 b"
    with lt [of b a] show "a < b" by (metis less_asym linorder_neqE_linordered_idom)
  qed (rule lt)
qed

lemma log2_floor_less:
  assumes q: "q \<noteq> 0" and "\<bar>q\<bar> < pow2 n"
  shows "log2_floor q < n"
proof -
  obtain a b where ab: "quotient_of q = (a, b)" by fastforce
  have b: "0 < b" and qab: "q = of_int a / of_int b"
    using quotient_of_denom_pos [OF ab] quotient_of_div [OF ab] by auto
  define k where "k = int (bits (nat \<bar>a\<bar>)) - int (bits (nat b))"
  have lf: "log2_floor q = (if pow2 k \<le> \<bar>q\<bar> then k else k - 1)"
    by (simp add: log2_floor_def ab k_def)
  show ?thesis
  proof (cases "pow2 k \<le> \<bar>q\<bar>")
    case True
    with assms(2) have "pow2 k < pow2 n" by simp
    with True lf show ?thesis by (simp add: pow2_less_iff)
  next
    case False
    have "a \<noteq> 0" using q qab by auto
    then have ba: "2 ^ (bits (nat \<bar>a\<bar>) - 1) \<le> nat \<bar>a\<bar> \<and> 1 \<le> bits (nat \<bar>a\<bar>)"
      using bits_bounds [of "nat \<bar>a\<bar>"] by simp
    have bb: "nat b < 2 ^ bits (nat b)" using bits_bounds [of "nat b"] b by simp
    have "pow2 (k - 1) \<le> \<bar>q\<bar>"
    proof -
      have "(2::int) ^ (bits (nat \<bar>a\<bar>) - 1) \<le> \<bar>a\<bar>"
        using ba by (metis abs_ge_zero int_nat_eq of_nat_le_iff of_nat_numeral of_nat_power)
      then have "(of_int (2 ^ (bits (nat \<bar>a\<bar>) - 1)) :: rat) \<le> of_int \<bar>a\<bar>" by (simp only: of_int_le_iff)
      then have A: "pow2 (int (bits (nat \<bar>a\<bar>)) - 1) \<le> \<bar>of_int a\<bar>"
        using ba pow2_nat [of "bits (nat \<bar>a\<bar>) - 1"] by (simp add: of_nat_diff)
      have "b < (2::int) ^ bits (nat b)"
        using bb b by (metis int_nat_eq less_imp_le of_nat_less_iff of_nat_numeral of_nat_power)
      then have "(of_int b :: rat) < of_int (2 ^ bits (nat b))" by (simp only: of_int_less_iff)
      then have B: "of_int b < pow2 (int (bits (nat b)))" by (simp add: pow2_nat)
      have "pow2 (k - 1) * of_int b \<le> pow2 (k - 1) * pow2 (int (bits (nat b)))"
        using B by simp
      also have "\<dots> = pow2 (int (bits (nat \<bar>a\<bar>)) - 1)"
        by (simp add: pow2_add [symmetric] k_def)
      also have "\<dots> \<le> \<bar>of_int a\<bar>" by (rule A)
      finally show ?thesis using b by (simp add: qab abs_divide pos_le_divide_eq)
    qed
    with assms(2) have "pow2 (k - 1) < pow2 n" by simp
    with False lf show ?thesis by (simp add: pow2_less_iff)
  qed
qed

lemma to_double_finite:
  assumes "\<bar>q\<bar> < pow2 1023"
  shows "\<exists>r. to_double q = Fin r"
proof (cases "q = 0")
  case False
  then have "log2_floor q < 1023" using log2_floor_less assms by blast
  then have "\<not> 971 < max (- 1074) (log2_floor q - 52) + (if b then 1 else 0)" for b
    by (cases b) auto
  then show ?thesis by (simp only: to_double_def Let_def if_False False) blast
qed (simp add: to_double_def)

lemma int_double_small: "\<bar>i\<bar> \<le> safe_size \<Longrightarrow> \<exists>r. int_double i = Inr r"
proof -
  assume i: "\<bar>i\<bar> \<le> safe_size"
  have "(of_int \<bar>i\<bar> :: rat) \<le> of_int (2 ^ 1022)" using i by (simp only: of_int_le_iff safe_size_def)
  then have "\<bar>of_int i :: rat\<bar> \<le> pow2 1022" using pow2_nat [of 1022] by simp
  also have "pow2 1022 < pow2 1023" by (simp add: pow2_less_iff)
  finally show ?thesis using to_double_finite [of "of_int i"] by (auto simp: int_double_def)
qed

lemma as_double_small: "small_number x \<Longrightarrow> \<exists>r. as_double x = Inr r"
  using int_double_small by (auto simp: small_number_def as_double_def split: number.splits)

lemma num_mul_small: "small_number x \<Longrightarrow> small_number y \<Longrightarrow> \<exists>r. num_mul x y = Inr r"
  using as_double_small [of x] as_double_small [of y] by (auto simp: num_mul_def split: number.splits)

lemma isclose_total: "as_double x = Inr a \<Longrightarrow> small_number y \<Longrightarrow> \<exists>b. isclose x y = Inr b"
  using as_double_small [of y] by (auto simp: isclose_def)

subsection \<open>Sums\<close>

lemma num_add_ints: "num_add (NumInt i) (NumInt j) = Inr (NumInt (i + j))"
  by (simp add: num_add_def)

definition num_size :: "number \<Rightarrow> int" where
  "num_size x = (case x of NumInt i \<Rightarrow> \<bar>i\<bar> | NumFlt f \<Rightarrow> 0)"

lemma num_size_simps [simp]: "num_size (NumInt i) = \<bar>i\<bar>" "num_size (NumFlt f) = 0"
  by (simp_all add: num_size_def)

lemma num_size_nonneg [simp]: "0 \<le> num_size x" "0 \<le> sum_list (map num_size xs)"
  by (auto simp: num_size_def intro!: sum_list_nonneg split: number.splits)

lemma as_double_size: "num_size x \<le> safe_size \<Longrightarrow> \<exists>r. as_double x = Inr r"
  using int_double_small by (auto simp: num_size_def as_double_def split: number.splits)

lemma num_add_size:
  assumes "num_size x \<le> safe_size" and "num_size y \<le> safe_size"
  shows "\<exists>s. num_add x y = Inr s \<and> num_size s \<le> num_size x + num_size y"
  using as_double_size [OF assms(1)] as_double_size [OF assms(2)]
  by (auto simp: num_add_def num_size_def split: number.splits)

lemma sum_plain_total:
  "num_size acc + sum_list (map num_size xs) \<le> safe_size \<Longrightarrow>
   \<exists>s. sum_plain acc xs = Inr s \<and> num_size s \<le> safe_size"
proof (induction xs arbitrary: acc)
  case Nil
  then show ?case by simp
next
  case (Cons x xs)
  have "num_size acc \<le> safe_size" "num_size x \<le> safe_size"
    using Cons.prems num_size_nonneg(1) [of acc] num_size_nonneg(1) [of x] num_size_nonneg(2) [of xs]
    by (simp_all del: num_size_nonneg)
  from num_add_size [OF this] obtain s where s: "num_add acc x = Inr s" "num_size s \<le> num_size acc + num_size x"
    by blast
  from s(2) Cons.prems have "num_size s + sum_list (map num_size xs) \<le> safe_size" by simp
  from Cons.IH [OF this] s(1) show ?case by simp
qed

lemma sum_floats_total:
  "sum_list (map num_size xs) \<le> safe_size \<Longrightarrow>
   \<exists>s. sum_floats t c xs = Inr s \<and> num_size s \<le> safe_size"
proof (induction t c xs rule: sum_floats.induct)
  case (1 s c)
  then show ?case by (simp add: safe_size_def)
next
  case (2 s c x xs)
  then show ?case by (simp add: Let_def)
next
  case (3 s c i xs)
  show ?case
  proof (cases "fits_long i")
    case True
    then show ?thesis using 3 by (simp add: safe_size_def)
  next
    case False
    then show ?thesis
      using sum_plain_total [of "NumFlt (compensated s c)" "NumInt i # xs"] 3 by (simp add: safe_size_def)
  qed
qed

lemma sum_ints_total:
  "\<bar>acc\<bar> + sum_list (map num_size xs) \<le> safe_size \<Longrightarrow>
   \<exists>s. sum_ints acc xs = Inr s \<and> num_size s \<le> safe_size"
proof (induction acc xs rule: sum_ints.induct)
  case (1 acc)
  then show ?case by (simp add: safe_size_def)
next
  case (2 acc i xs)
  have b: "\<bar>acc + i\<bar> + sum_list (map num_size xs) \<le> safe_size"
    using 2(2) abs_triangle_ineq [of acc i] by (simp add: safe_size_def)
  show ?case
  proof (cases "fits_long i \<and> fits_long (acc + i)")
    case True
    then show ?thesis using 2(1) b by simp
  next
    case False
    then show ?thesis using sum_plain_total [of "NumInt (acc + i)" xs] b by auto
  qed
next
  case (3 acc x xs)
  have "sum_list (map num_size xs) \<le> safe_size"
    using 3 abs_ge_zero [of acc] by (simp del: abs_ge_zero)
  then show ?case using sum_floats_total by simp
qed

lemma py_sum_total:
  assumes "small_total vs" and "\<forall>v\<in>set vs. to_num v \<noteq> None"
  shows "\<exists>s a. py_sum (map (\<lambda>p. the (to_num p)) vs) = Inr s \<and> as_double s = Inr a"
proof -
  have "map num_size (map (\<lambda>p. the (to_num p)) vs) = map int_size vs"
    using assms(2) by (auto simp: int_size_def num_size_def split: number.splits)
  then have "sum_list (map num_size (map (\<lambda>p. the (to_num p)) vs)) = sum_list (map int_size vs)"
    by (rule arg_cong)
  then have "\<bar>0\<bar> + sum_list (map num_size (map (\<lambda>p. the (to_num p)) vs)) \<le> safe_size"
    using assms(1) by (simp add: small_total_def)
  from sum_ints_total [OF this] obtain s where s: "py_sum (map (\<lambda>p. the (to_num p)) vs) = Inr s"
    "num_size s \<le> safe_size" unfolding py_sum_def by blast
  with as_double_size [OF s(2)] show ?thesis by blast
qed

subsection \<open>Rounding\<close>

lemma round_even_near: "\<bar>of_int (round_even q) - q\<bar> \<le> (1::rat)"
proof -
  have "of_int \<lfloor>q\<rfloor> \<le> q" "q < of_int \<lfloor>q\<rfloor> + 1" by (rule of_int_floor_le, rule floor_correct [THEN conjunct2, simplified])
  then show ?thesis by (auto simp: round_even_def Let_def)
qed

lemma pow10_inverse: "pow10 p * pow10 (- p) = 1"
  by (simp add: pow10_def)

lemma rounding_gap_total:
  assumes "small_number x" and "0 \<le> p"
  shows "\<exists>g. rounding_gap x p = Inr g"
proof (cases x)
  case (NumInt i)
  then show ?thesis by (simp add: rounding_gap_def)
next
  case (NumFlt f)
  show ?thesis
  proof (cases f)
    case (Fin q)
    have q: "\<bar>q\<bar> \<le> 2 ^ 1022" using assms(1) NumFlt Fin by (simp add: small_number_def safe_size_def)
    have p10: "1 \<le> pow10 p" using assms(2) by (simp add: pow10_def)
    then have p10': "0 \<le> pow10 (- p)" "pow10 (- p) \<le> 1"
      using assms(2) by (auto simp: pow10_def)
    have "\<bar>round_places q p - q\<bar> \<le> 1"
    proof -
      have "round_places q p - q = (of_int (round_even (q * pow10 p)) - q * pow10 p) * pow10 (- p)"
        using pow10_inverse [of p] by (simp add: round_places_def left_diff_distrib mult.assoc)
      then have "\<bar>round_places q p - q\<bar> = \<bar>of_int (round_even (q * pow10 p)) - q * pow10 p\<bar> * pow10 (- p)"
        using p10' by (simp add: abs_mult)
      also have "\<dots> \<le> 1 * 1" by (rule mult_mono [OF round_even_near]) (use p10' in auto)
      finally show ?thesis by simp
    qed
    then have "\<bar>round_places q p\<bar> \<le> 2 ^ 1022 + 1" using q by linarith
    also have "\<dots> < pow2 1023"
    proof -
      have "(2::rat) ^ 1023 = 2 ^ 1022 + 2 ^ 1022" by simp
      moreover have "(1::rat) < 2 ^ 1022" by (rule one_less_power) simp_all
      ultimately show ?thesis using pow2_nat [of 1023] by simp
    qed
    finally obtain r where "to_double (round_places q p) = Fin r" using to_double_finite by blast
    then show ?thesis using NumFlt Fin by (simp add: rounding_gap_def)
  qed (use NumFlt in \<open>simp_all add: rounding_gap_def\<close>)
qed


text \<open>Every check answers: valid, or one violation of the promised shape.\<close>

definition key_or_default :: "string option \<Rightarrow> string \<Rightarrow> string" where
  "key_or_default k code =
     (case k of Some key \<Rightarrow> if key = [] then ''validation.'' @ code else key
      | None \<Rightarrow> ''validation.'' @ code)"

definition answers :: "string \<Rightarrow> string option \<Rightarrow> string list \<Rightarrow> check_result \<Rightarrow> bool" where
  "answers f k codes r =
     (case r of
        Inl x \<Rightarrow> False
      | Inr None \<Rightarrow> True
      | Inr (Some v) \<Rightarrow> vi_field v = f \<and> vi_code v \<in> set codes \<and> vi_key v = key_or_default k (vi_code v))"

named_theorems answer_intros

lemma answers_valid [answer_intros]: "answers f k codes valid"
  by (simp add: answers_def valid_def)

lemma answers_violates [answer_intros]:
  "code \<in> set codes \<Longrightarrow> answers f k codes (violates f code message k params)"
  by (simp add: answers_def violates_def key_or_default_def)

lemma answers_if [answer_intros]:
  "(b \<Longrightarrow> answers f k codes r) \<Longrightarrow> (\<not> b \<Longrightarrow> answers f k codes s) \<Longrightarrow> answers f k codes (if b then r else s)"
  by simp

lemma answers_rbind:
  "\<exists>x. r = Inr x \<Longrightarrow> (\<And>x. r = Inr x \<Longrightarrow> answers f k codes (g x)) \<Longrightarrow> answers f k codes (rbind r g)"
  by auto

lemma answers_on_date:
  assumes "''invalid_date'' \<in> set codes"
    and "\<And>d. to_date e v = Some d \<Longrightarrow> answers f k codes (g d)"
  shows "answers f k codes (on_date e v f k g)"
  using assms by (auto simp: on_date_def invalid_date_def intro!: answer_intros split: option.splits)

lemma answers_on_dates:
  assumes "''invalid_date'' \<in> set codes" and "\<And>ds. answers f k codes (g ds)"
  shows "answers f k codes (on_dates e vs f k g)"
  using assms by (auto simp: on_dates_def invalid_date_def intro!: answer_intros)

lemma answers_on_num:
  assumes "''invalid_number'' \<in> set codes"
    and "\<And>x. to_num v = Some x \<Longrightarrow> answers f k codes (g x)"
  shows "answers f k codes (on_num v f k g)"
  using assms by (auto simp: on_num_def invalid_number_def intro!: answer_intros split: option.splits)

lemma answers_on_nums:
  assumes "''invalid_number'' \<in> set codes"
    and "\<And>x y. to_num v = Some x \<Longrightarrow> to_num w = Some y \<Longrightarrow> answers f k codes (g x y)"
  shows "answers f k codes (on_nums v w f k g)"
  using assms by (auto simp: on_nums_def invalid_number_def intro!: answer_intros split: option.splits)

subsection \<open>The dates that raise\<close>

lemma add_days_fits: "\<bar>n\<bar> \<le> max_days \<Longrightarrow> 1 \<le> d + n \<Longrightarrow> d + n \<le> max_ordinal \<Longrightarrow> add_days d n = Inr (d + n)"
  by (simp add: add_days_def)

lemma shift_year_fits:
  assumes "year_fits day k"
  shows "\<exists>n. shift_year day k = Inr n \<and> 1 \<le> n \<and> n < max_ordinal"
proof -
  obtain y m d where c: "civil day = (y, m, d)" by (cases "civil day")
  have y: "y = year_of day" using civil_valid [OF c] by simp
  with assms have r: "1 \<le> y + k" "y + k \<le> 9998" by (simp_all add: year_fits_def)
  from shift_year_Inr [OF c] r obtain n where n: "shift_year day k = Inr n"
    "civil n = (y + k, m, clamped_day (y + k) m d)" "1 \<le> n" "n \<le> max_ordinal" by force
  have "civil max_ordinal = (9999, 12, 31)" by code_simp
  with n r have "n \<noteq> max_ordinal" by auto
  with n show ?thesis by auto
qed

lemma age_window_fits:
  "window_fits (today_of e) (map_option uminus y) (map_option uminus n) \<Longrightarrow> \<exists>l. age_window e y n = Inr l"
  using shift_year_fits by (fastforce simp: window_fits_def age_window_def years_ago_def add_days_def
      split: option.splits)

lemma ahead_window_fits:
  "window_fits (today_of e) y n \<Longrightarrow> \<exists>l. ahead_window e y n = Inr l"
  using shift_year_fits by (fastforce simp: window_fits_def ahead_window_def years_ahead_def add_days_def
      split: option.splits)

lemma luhn_total_plain:
  "list_all iso_digit cs \<Longrightarrow> \<exists>s. luhn_total p i cs t = Inr s"
  by (induction cs arbitrary: i t) auto

lemma plain_digit_text:
  assumes "plain_digits s" and "is_digit_text (luhn_digits s)"
  shows "list_all iso_digit (luhn_digits s)"
  using assms by (auto simp: plain_digits_def is_digit_text_def luhn_digits_def unicode_digit_def list_all_iff)

lemma set_url_clean: "set (url_clean s) \<subseteq> set s"
  by (auto simp: url_clean_def dest: set_dropWhileD)

lemma split_first_tail: "split_first c s = Some (a, b) \<Longrightarrow> set b \<subseteq> set s"
  by (auto simp: split_first_Some)

lemma url_parts_no_brackets: "no_brackets s \<Longrightarrow> url_parts ok s \<noteq> None"
proof -
  assume nb: "no_brackets s"
  obtain scheme rest where r: "split_scheme (url_clean s) = (scheme, rest)" by fastforce
  have "set rest \<subseteq> set (url_clean s)"
    using r by (auto simp: split_scheme_def split: option.splits if_splits dest!: split_first_tail)
  then have "set (netloc rest) \<subseteq> set s"
    using set_url_clean by (auto simp: netloc_def dest!: set_takeWhileD in_set_dropD split: if_splits)
  with nb r show ?thesis by (auto simp: url_parts_def no_brackets_def Let_def)
qed

lemma items_of_iterable: "iterable v \<Longrightarrow> \<not> absent v \<Longrightarrow> \<exists>xs. items_of v = Inr xs"
  by (auto simp: iterable_def items_of_def is_text_def split: field_value.splits pyval.splits)

lemmas check_defs =
  not_in_future_def not_in_past_def after_def before_def between_def not_older_than_def
  not_beyond_def age_at_least_def age_at_most_def on_weekday_def within_period_def no_overlap_def
  at_least_def at_most_def positive_def non_negative_def multiple_of_def max_decimals_def percent_def
  luhn_def greater_than_def less_than_def equal_to_def different_from_def sums_to_def
  ratio_at_least_def required_when_def forbidden_when_def required_together_def at_least_one_def
  exactly_one_def email_def url_def phone_def iban_def uuid_def slug_def matches_def no_html_def
  one_of_def not_in_def unique_items_def subset_of_def contains_none_def

lemmas answer_rules =
  answers_on_date answers_on_dates answers_on_num answers_on_nums answers_rbind answer_intros

lemma run_check_answers:
  assumes "well_used e c"
  shows "answers f k (codes_of c) (run_check e f k c)"
proof (cases c)
  case (After v r n)
  with assms show ?thesis
    by (auto simp: run_check_def codes_of_def well_used_def after_def gap_fits_def invalid_date_def
        add_days_fits intro!: answer_rules split: option.splits)
next
  case (Before v r n)
  with assms show ?thesis
    by (auto simp: run_check_def codes_of_def well_used_def before_def gap_fits_def invalid_date_def
        add_days_fits intro!: answer_rules split: option.splits)
next
  case (NotOlderThan v y n)
  with assms age_window_fits [of e y n] show ?thesis
    by (auto simp: run_check_def codes_of_def well_used_def not_older_than_def intro!: answer_rules)
next
  case (NotBeyond v y n)
  with assms ahead_window_fits [of e y n] show ?thesis
    by (auto simp: run_check_def codes_of_def well_used_def not_beyond_def intro!: answer_rules)
next
  case (AgeAtLeast v y)
  with assms obtain n where "years_ago (today_of e) y = Inr n"
    using shift_year_fits [of "today_of e" "- y"] by (auto simp: well_used_def years_ago_def)
  with AgeAtLeast show ?thesis
    by (auto simp: run_check_def codes_of_def age_at_least_def intro!: answer_rules)
next
  case (AgeAtMost v y)
  with assms obtain n where "years_ago (today_of e) (y + 1) = Inr n" "1 \<le> n" "n < max_ordinal"
    using shift_year_fits [of "today_of e" "- y - 1"] by (auto simp: well_used_def years_ago_def)
  moreover from this have "add_days n 1 = Inr (n + 1)" by (simp add: add_days_def max_days_def)
  ultimately show ?thesis using AgeAtMost
    by (auto simp: run_check_def codes_of_def age_at_most_def intro!: answer_rules)
next
  case (MaxDecimals v n)
  with assms rounding_gap_total show ?thesis
    by (auto simp: run_check_def codes_of_def max_decimals_def well_used_def small_value_def
        intro!: answer_rules)
next
  case (Luhn v)
  with assms plain_digit_text [of "text_of e v"] luhn_total_plain show ?thesis
    by (auto simp: run_check_def codes_of_def luhn_def well_used_def Let_def intro!: answer_rules)
next
  case (SumsTo vs t)
  have w: "small_total vs" "small_value t" using assms SumsTo by (simp_all add: well_used_def)
  show ?thesis
  proof (cases "list_ex (\<lambda>p. to_num p = None) vs \<or> to_num t = None")
    case True
    then show ?thesis using SumsTo
      by (auto simp: run_check_def codes_of_def sums_to_def invalid_number_def intro!: answer_rules
          split: option.splits)
  next
    case False
    then obtain n where n: "to_num t = Some n" and all: "\<forall>v\<in>set vs. to_num v \<noteq> None"
      by (auto simp: list_ex_iff)
    from py_sum_total [OF w(1) all] obtain s a where s: "py_sum (map (\<lambda>p. the (to_num p)) vs) = Inr s"
      "as_double s = Inr a" by blast
    have "small_number n" using w(2) n by (simp add: small_value_def)
    from isclose_total [OF s(2) this] obtain b where "isclose s n = Inr b" by blast
    with False n s(1) SumsTo show ?thesis
      by (simp add: run_check_def codes_of_def sums_to_def) (auto intro!: answer_rules)
  qed
next
  case (RatioAtLeast v r q)
  with assms num_mul_small show ?thesis
    by (auto simp: run_check_def codes_of_def ratio_at_least_def well_used_def small_value_def
        intro!: answer_rules)
next
  case (Url v ss)
  with assms url_parts_no_brackets [of "text_of e v" "ce_bracketed e"] show ?thesis
    by (auto simp: run_check_def codes_of_def url_def well_used_def intro!: answer_rules
        split: option.splits)
next
  case (Matches v p)
  with assms show ?thesis
    by (auto simp: run_check_def codes_of_def matches_def well_used_def pattern_compiles_def
        intro!: answer_rules split: option.splits sum.splits)
next
  case (UniqueItems v)
  with assms items_of_iterable show ?thesis
    by (auto simp: run_check_def codes_of_def unique_items_def well_used_def intro!: answer_rules)
next
  case (SubsetOf v xs)
  with assms items_of_iterable show ?thesis
    by (auto simp: run_check_def codes_of_def subset_of_def well_used_def Let_def
        intro!: answer_rules split: option.splits)
next
  case (ContainsNone v ts)
  show ?thesis
  proof (cases "absent v")
    case True
    with ContainsNone show ?thesis
      by (auto simp: run_check_def contains_none_def intro!: answer_rules split: option.splits)
  next
    case False
    with assms ContainsNone items_of_iterable [of v] obtain xs where "items_of v = Inr xs"
      by (auto simp: well_used_def)
    with ContainsNone False show ?thesis
      by (auto simp: run_check_def codes_of_def contains_none_def Let_def intro!: answer_rules
          split: option.splits)
  qed
qed (auto simp: run_check_def codes_of_def check_defs Let_def not_comparable_def
       intro!: answer_rules split: option.splits bool.splits)

end
