(* ===== verification/ValidateProps.thy ===== *)
theory ValidateProps
  imports ValidateSound
begin

text \<open>The properties of the check library and of the declared rules.\<close>

subsection \<open>Answers\<close>

definition demo_env :: check_env where
  "demo_env =
     \<lparr>ce_clock = Some (AnswerDateTime 739871 3600), ce_server_today = 739870,
      ce_float_text = (\<lambda>q. ''0.5''), ce_iso_datetime = (\<lambda>s. None),
      ce_fullmatch = (\<lambda>p s. Inr (p = s)), ce_bracketed = (\<lambda>n. True)\<rparr>"

definition entered :: "string \<Rightarrow> field_value" where
  "entered s = FJson (PStr s)"

text \<open>
  C22: Every call of a shipped check whose dates stay in the calendar and whose settings are usable
  returns, whatever value it is handed: nothing or one violation, on the field it was given, with
  one of the codes the check documents, and with the caller's message key or the default key of
  that code.
\<close>

theorem checks_answer:
  assumes "well_used e c"
  shows "\<exists>r. run_check e f k c = Inr r \<and>
     (\<forall>v. r = Some v \<longrightarrow> vi_field v = f \<and> vi_code v \<in> set (codes_of c) \<and>
        vi_key v = (if k = None \<or> k = Some [] then ''validation.'' @ vi_code v else the k))"
  using run_check_answers [OF assms, of f k]
  by (auto simp: answers_def key_or_default_def split: sum.splits option.splits if_splits)

lemma checks_answer_witness:
  "\<exists>r. run_check demo_env ''dob'' None (AgeAtLeast (entered ''2010-02-29'') 18) = Inr r \<and> r \<noteq> None \<and>
       vi_code (the r) = ''invalid_date'' \<and> vi_key (the r) = ''validation.invalid_date''"
proof -
  let ?c = "AgeAtLeast (entered ''2010-02-29'') 18"
  have "well_used demo_env ?c" by code_simp
  from checks_answer [OF this, of "''dob''" None] obtain r where
    r: "run_check demo_env ''dob'' None ?c = Inr r"
      "\<forall>v. r = Some v \<longrightarrow> vi_key v = ''validation.'' @ vi_code v" by auto
  have "run_check demo_env ''dob'' None ?c = invalid_date ''dob'' None" by code_simp
  with r have "r = Some \<lparr>vi_field = ''dob'', vi_code = ''invalid_date'', vi_message = ''Must be a valid date'',
    vi_params = [], vi_key = ''validation.invalid_date''\<rparr>" by (simp add: invalid_date_def violates_def)
  with r show ?thesis by auto
qed

text \<open>
  A value that was not provided is never judged: a check outside the presence family is valid as
  soon as one of the values it tests is \<open>None\<close> or blank, whatever its other arguments and settings
  are, and so it never blocks a partial edit.
\<close>

theorem absent_values_skip:
  assumes "v \<in> set (tested_values c)" and "absent v"
  shows "run_check e f k c = Inr None"
  using assms
  by (cases c) (auto simp: run_check_def tested_values_def check_defs on_date_def on_dates_def
      on_num_def on_nums_def valid_def list_ex_iff split: option.splits)

lemma absent_values_skip_witness:
  "run_check demo_env ''d'' None (NotOlderThan (entered ''  '') None None) = Inr None"
  by (rule absent_values_skip [of "entered ''  ''"]) (simp add: tested_values_def, code_simp)

subsection \<open>Ages\<close>

text \<open>The number of years completed on a day, the 29th of February counting in leap years only.\<close>

definition completed_years :: "int \<Rightarrow> int \<Rightarrow> int" where
  "completed_years birth day =
     (case civil birth of (by, bm, bd) \<Rightarrow> case civil day of (ty, tm, td) \<Rightarrow>
        ty - by - (if tm < bm \<or> (tm = bm \<and> td < bd) then 1 else 0))"

lemma years_ago_completed:
  assumes "civil day = (ty, tm, td)" and "1 \<le> ty - y" and "ty - y \<le> 9999"
  shows "\<exists>n. years_ago day y = Inr n \<and> (\<forall>birth. birth \<le> n \<longleftrightarrow> y \<le> completed_years birth day)"
proof -
  from shift_year_Inr [OF assms(1), of "- y"] assms(2,3) obtain n where
    n: "years_ago day y = Inr n" "civil n = (ty - y, tm, clamped_day (ty - y) tm td)"
    by (auto simp: years_ago_def)
  have "birth \<le> n \<longleftrightarrow> y \<le> completed_years birth day" for birth
  proof -
    obtain b m d where b: "civil birth = (b, m, d)" by (cases "civil birth")
    have late: "d \<le> 28" if "m = 2" "\<not> leap_year b"
      using civil_valid [OF b] that by (simp add: month_days_def)
    have "n < birth \<longleftrightarrow> ty - y < b \<or> (ty - y = b \<and> (tm < m \<or> (tm = m \<and> clamped_day (ty - y) tm td < d)))"
      by (rule ordinal_less [OF n(2) b])
    also have "\<dots> \<longleftrightarrow> ty - y < b \<or> (ty - y = b \<and> (tm < m \<or> (tm = m \<and> td < d)))"
      using late by (auto simp: clamped_day_def)
    also have "\<dots> \<longleftrightarrow> \<not> y \<le> completed_years birth day"
      using assms(1) b by (auto simp: completed_years_def)
    finally show ?thesis by auto
  qed
  with n show ?thesis by blast
qed

text \<open>
  C24: The two age checks count completed years, also for birthdays on the 29th of February and on a
  29th of February: for a readable date of birth, \<open>age_at_least\<close> is valid exactly when the years
  completed today reach the limit, and \<open>age_at_most\<close> exactly when they do not exceed it.
\<close>

theorem ages_are_completed_years:
  assumes "\<not> absent v" and "to_date e v = Some birth"
    and "civil (today_of e) = (ty, tm, td)" and "1 \<le> ty - years - 1" and "ty - years \<le> 9999"
  shows "(age_at_least e v years f k = Inr None \<longleftrightarrow> years \<le> completed_years birth (today_of e)) \<and>
         (age_at_most e v years f k = Inr None \<longleftrightarrow> completed_years birth (today_of e) \<le> years)"
proof -
  from years_ago_completed [OF assms(3), of years] assms(4,5) obtain n where
    n: "years_ago (today_of e) years = Inr n"
      "\<forall>birth. birth \<le> n \<longleftrightarrow> years \<le> completed_years birth (today_of e)" by auto
  from shift_year_Inr [OF assms(3), of "- years - 1"] assms(4,5)
  obtain k' where k': "years_ago (today_of e) (years + 1) = Inr k'"
      "civil k' = (ty + (- years - 1), tm, clamped_day (ty + (- years - 1)) tm td)" "1 \<le> k'" "k' \<le> max_ordinal"
    by (auto simp: years_ago_def)
  have "civil max_ordinal = (9999, 12, 31)" by code_simp
  with k' assms(5) have "k' \<noteq> max_ordinal" by auto
  with k' have next_day: "add_days k' 1 = Inr (k' + 1)" by (simp add: add_days_def max_days_def)
  from years_ago_completed [OF assms(3), of "years + 1"] assms(4,5) k'(1)
  have old: "birth \<le> k' \<longleftrightarrow> years + 1 \<le> completed_years birth (today_of e)" by auto
  from n(2) have young: "birth \<le> n \<longleftrightarrow> years \<le> completed_years birth (today_of e)" by blast
  have "age_at_least e v years f k = Inr None \<longleftrightarrow> birth \<le> n"
    using assms(1,2) n(1) by (simp add: age_at_least_def on_date_def violates_def valid_def not_less)
  moreover have "age_at_most e v years f k = Inr None \<longleftrightarrow> \<not> birth \<le> k'"
    using assms(1,2) k'(1) next_day by (auto simp: age_at_most_def on_date_def violates_def valid_def)
  ultimately show ?thesis using young old by linarith
qed

lemma ages_are_completed_years_witness:
  "age_at_least demo_env (entered ''2008-09-12'') 18 ''dob'' None = Inr None \<and>
   age_at_most demo_env (entered ''2008-09-12'') 17 ''dob'' None \<noteq> Inr None"
proof -
  have a: "\<not> absent (entered ''2008-09-12'')" "to_date demo_env (entered ''2008-09-12'') = Some 733297"
    "civil (today_of demo_env) = (2026, 9, 12)" by code_simp+
  have "completed_years 733297 (today_of demo_env) = 18" by code_simp
  then show ?thesis
    using ages_are_completed_years [OF a, of 18 "''dob''" None] ages_are_completed_years [OF a, of 17 "''dob''" None]
    by simp
qed

subsection \<open>Dates as text\<close>

lemma read_nat_replicate:
  assumes "s \<noteq> []" and "list_all iso_digit s"
  shows "read_nat (replicate k (CHR ''0'') @ s) = Some (int (digits_val s))"
proof -
  have "digits_val (replicate k (CHR ''0'') @ s) = digits_val s"
    by (induction k) (simp_all add: digits_val_def)
  moreover have "list_all iso_digit (replicate k (CHR ''0'') @ s)"
    using assms(2) by (induction k) (simp_all add: iso_digit_def)
  ultimately show ?thesis using assms(1) by (simp add: read_nat_def)
qed

lemma int_char_digit: "int_char c \<Longrightarrow> c \<noteq> CHR ''-'' \<Longrightarrow> iso_digit c"
  by (simp add: int_char_def iso_digit_def)

lemma int_char_not_space: "int_char c \<Longrightarrow> \<not> py_space c"
  unfolding int_char_def by (simp, elim disjE) (simp_all add: py_space_def)

lemma py_strip_id: "\<forall>c\<in>set s. \<not> py_space c \<Longrightarrow> py_strip s = s"
proof -
  assume s: "\<forall>c\<in>set s. \<not> py_space c"
  have d: "dropWhile py_space xs = xs" if "\<forall>c\<in>set xs. \<not> py_space c" for xs
    using that by (cases xs) simp_all
  from s have "dropWhile py_space s = s" "dropWhile py_space (rev s) = rev s" by (auto intro!: d)
  then show ?thesis by (simp add: py_strip_def)
qed

lemma read_nat_pad:
  assumes "0 \<le> i"
  shows "read_nat (pad n (int_text i)) = Some i"
proof -
  have t: "int_text i = nat_text (nat i)" using assms by (simp add: int_text_def)
  have "list_all iso_digit (nat_text (nat i))"
    unfolding list_all_iff using nat_text_chars int_char_digit by blast
  from read_nat_replicate [OF nat_text_nonempty this, of "n - length (int_text i)"] assms
  show ?thesis by (simp add: pad_def t digits_val_nat_text)
qed

lemma length_nat_text: "n < 10 ^ k \<Longrightarrow> 1 \<le> k \<Longrightarrow> length (nat_text n) \<le> k"
proof (induction k arbitrary: n)
  case (Suc k)
  show ?case
  proof (cases "n < 10")
    case True
    then show ?thesis by (simp add: nat_text.simps [of n])
  next
    case False
    with Suc.prems have "n div 10 < 10 ^ k" "1 \<le> k" by (auto simp: less_mult_imp_div_less Suc_le_eq intro: gr0I)
    with Suc.IH False show ?thesis by (simp add: nat_text.simps [of n])
  qed
qed simp

lemma length_pad:
  assumes "0 \<le> i" and "i < 10 ^ k" and "1 \<le> k"
  shows "length (pad k (int_text i)) = k"
proof -
  have "int (nat i) < int (10 ^ k)" using assms by simp
  then have "nat i < 10 ^ k" by (simp only: of_nat_less_iff)
  from length_nat_text [OF this assms(3)] assms(1) show ?thesis by (simp add: pad_def int_text_def)
qed

lemma pad_no_W:
  assumes "0 \<le> i" and "1 \<le> n"
  shows "take 1 (pad n (int_text i) @ s) \<noteq> ''W''"
proof -
  have "\<forall>c\<in>set (pad n (int_text i)). c \<noteq> CHR ''W''"
    using int_text_chars [of _ i] by (auto simp: pad_def int_char_def)
  moreover have "pad n (int_text i) \<noteq> []" using int_text_nonempty by (simp add: pad_def)
  ultimately show ?thesis by (cases "pad n (int_text i)") auto
qed

text \<open>
  Every date prints as ISO text that reads back as the same date, and a date that is handed to a
  check as that text is the date itself.
\<close>

theorem dates_print_and_parse:
  assumes "1 \<le> n" and "n \<le> max_ordinal"
  shows "from_iso (iso_text n) = Some n \<and> to_date e (FJson (PStr (iso_text n))) = to_date e (FDate n)"
proof -
  obtain y m d where c: "civil n = (y, m, d)" by (cases "civil n")
  note v = civil_valid [OF c]
  have y: "1 \<le> y" "y \<le> 9999" using year_of_range [OF assms] v by auto
  have d: "d \<le> 31" using v by (auto simp: month_days_def split: if_splits)
  let ?y = "pad 4 (int_text y)" and ?m = "pad 2 (int_text m)" and ?d = "pad 2 (int_text d)"
  have l: "length ?y = 4" "length ?m = 2" "length ?d = 2"
    using y v d by (auto intro!: length_pad)
  have r: "read_nat ?y = Some y" "read_nat ?m = Some m" "read_nat ?d = Some d"
    using y v by (auto intro!: read_nat_pad)
  have iso: "iso_text n = ?y @ ''-'' @ ?m @ ''-'' @ ?d" by (simp add: iso_text_def c)
  have w: "take 1 (?m @ ''-'' @ ?d) \<noteq> ''W''" using v by (intro pad_no_W) auto
  have "valid_date y m d" using v y by (simp add: valid_date_def)
  with v have "make_date y m d = Some n" by (simp add: make_date_def)
  with r l w have p: "from_iso (iso_text n) = Some n"
    unfolding iso by (simp add: from_iso_def Let_def obind3_def)
  have "\<not> py_space c" if "c \<in> set (iso_text n)" for c
  proof -
    have "int_char (CHR ''0'')" "int_char (CHR ''-'')" by (simp_all add: int_char_def)
    moreover have "c \<in> set (int_text y) \<or> c \<in> set (int_text m) \<or> c \<in> set (int_text d) \<or>
        c = CHR ''0'' \<or> c = CHR ''-''"
      using that by (simp add: iso pad_def) blast
    ultimately have "int_char c" using int_text_chars by blast
    then show ?thesis by (rule int_char_not_space)
  qed
  then have "py_strip (iso_text n) = iso_text n" by (intro py_strip_id) blast
  with p show ?thesis by (simp add: to_date_def)
qed

lemma dates_print_and_parse_witness:
  "from_iso (iso_text 738945) = Some 738945 \<and> iso_text 738945 = ''2024-02-29''"
proof -
  have "iso_text 738945 = ''2024-02-29''" by code_simp
  then show ?thesis using dates_print_and_parse [of 738945] by (simp add: max_ordinal_def)
qed


text \<open>Checksums that catch typing errors, values that slip through, and the declared rules.\<close>

subsection \<open>Luhn\<close>

definition luhn_weight :: "nat \<Rightarrow> nat \<Rightarrow> char \<Rightarrow> nat" where
  "luhn_weight p i c = (if i mod 2 = p then luhn_double (digit_of c) else digit_of c)"

lemma luhn_total_sum:
  "list_all iso_digit cs \<Longrightarrow>
   luhn_total p i cs t = Inr (t + (\<Sum>j<length cs. luhn_weight p (i + j) (cs ! j)))"
proof (induction cs arbitrary: i t)
  case (Cons c cs)
  have "luhn_total p i (c # cs) t = luhn_total p (Suc i) cs (t + luhn_weight p i c)"
    using Cons.prems by (simp add: luhn_weight_def)
  also have "\<dots> = Inr (t + luhn_weight p i c + (\<Sum>j<length cs. luhn_weight p (Suc i + j) (cs ! j)))"
    using Cons by (simp del: luhn_total.simps)
  also have "t + luhn_weight p i c + (\<Sum>j<length cs. luhn_weight p (Suc i + j) (cs ! j)) =
      t + (\<Sum>j<length (c # cs). luhn_weight p (i + j) ((c # cs) ! j))"
    by (simp add: sum.lessThan_Suc_shift del: sum.lessThan_Suc)
  finally show ?case .
qed simp

definition luhn_sum :: "string \<Rightarrow> nat" where
  "luhn_sum s = (\<Sum>j<length s. luhn_weight (length s mod 2) j (s ! j))"

lemma digit_cases: "iso_digit c \<Longrightarrow> digit_of c < 10 \<and> c = char_of (48 + digit_of c)"
proof -
  assume "iso_digit c"
  then have "48 \<le> (of_char c :: nat) \<and> (of_char c :: nat) < 58"
    unfolding iso_digit_def by (simp, elim disjE) simp_all
  moreover from this have "of_char c - 48 < (10::nat)" by arith
  ultimately show ?thesis by (simp add: digit_of_def)
qed

lemma list_all_upt: "list_all P [0..<n] \<longleftrightarrow> (\<forall>i<n. P i)"
  by (auto simp: list_all_iff)

lemma zero_nine: "CHR ''0'' = char_of (48 :: nat)" "CHR ''9'' = char_of (57 :: nat)"
  by code_simp+

lemma digit_plain: "iso_digit c \<Longrightarrow> c \<noteq> CHR '' '' \<and> c \<noteq> CHR ''-'' \<and> \<not> py_space c \<and> unicode_digit c"
  unfolding iso_digit_def by (simp, elim disjE) (simp_all add: py_space_def unicode_digit_def iso_digit_def)

lemma luhn_of_digits:
  assumes "list_all iso_digit s" and "s \<noteq> []"
  shows "luhn e (FJson (PStr s)) f k = Inr None \<longleftrightarrow> luhn_sum s mod 10 = 0"
proof -
  have d: "\<forall>c\<in>set s. c \<noteq> CHR '' '' \<and> c \<noteq> CHR ''-'' \<and> \<not> py_space c \<and> unicode_digit c"
    using assms(1) digit_plain by (simp add: list_all_iff)
  then have "luhn_digits s = s" by (simp add: luhn_digits_def)
  moreover have "\<not> absent (FJson (PStr s))"
    using d assms(2) by (cases s) (auto simp: absent_def blank_iff)
  moreover have "is_digit_text s" using d assms(2) by (simp add: is_digit_text_def list_all_iff)
  moreover have "text_of e (FJson (PStr s)) = s" by (simp add: text_of_def value_text_def json_str_def)
  ultimately show ?thesis using luhn_total_sum [OF assms(1), of "length s mod 2" 0 0]
    by (simp add: luhn_def luhn_sum_def valid_def violates_def)
qed

lemma luhn_weight_inj:
  assumes "iso_digit c" and "iso_digit d" and "luhn_weight p i c mod 10 = luhn_weight p i d mod 10"
  shows "c = d"
proof -
  have tab: "list_all (\<lambda>a. list_all (\<lambda>b. luhn_double a mod 10 = luhn_double b mod 10 \<longrightarrow> a = b) [0..<10]) [0..<10]"
    by code_simp
  have "digit_of c = digit_of d"
  proof (cases "i mod 2 = p")
    case True
    with assms(3) have "luhn_double (digit_of c) mod 10 = luhn_double (digit_of d) mod 10"
      by (simp add: luhn_weight_def)
    with tab digit_cases [OF assms(1)] digit_cases [OF assms(2)] show ?thesis
      unfolding list_all_upt by blast
  next
    case False
    with assms(3) digit_cases [OF assms(1)] digit_cases [OF assms(2)] show ?thesis
      by (simp add: luhn_weight_def)
  qed
  with digit_cases [OF assms(1)] digit_cases [OF assms(2)] show ?thesis by metis
qed

lemma luhn_swap_table:
  assumes "a < 10" "b < 10" "(luhn_double a + b) mod 10 = (luhn_double b + a) mod 10"
  shows "a = b \<or> (a = 0 \<and> b = 9) \<or> (a = 9 \<and> b = 0)"
proof -
  have tab: "list_all (\<lambda>a. list_all (\<lambda>b. (luhn_double a + b) mod 10 = (luhn_double b + a) mod 10 \<longrightarrow>
      a = b \<or> (a = 0 \<and> b = 9) \<or> (a = 9 \<and> b = 0)) [0..<10]) [0..<10]"
    by code_simp
  with assms show ?thesis unfolding list_all_upt by blast
qed

lemma add_mod_cancel: "((x::nat) + r) mod 10 = 0 \<Longrightarrow> (y + r) mod 10 = 0 \<Longrightarrow> x mod 10 = y mod 10"
proof (induction x y rule: linorder_wlog)
  case (le x y)
  then have "10 dvd x + r" "10 dvd y + r" by (simp_all add: mod_eq_0_iff_dvd)
  then have "10 dvd (y + r) - (x + r)" by (rule dvd_diff_nat [rotated])
  then have "10 dvd y - x" by simp
  with le show ?case using mod_eq_dvd_iff_nat [of x y 10] by metis
qed metis

lemma luhn_sum_update:
  assumes "i < length s"
  shows "\<exists>r. luhn_sum s = luhn_weight (length s mod 2) i (s ! i) + r \<and>
             (\<forall>c. luhn_sum (s[i := c]) = luhn_weight (length s mod 2) i c + r)"
proof -
  let ?w = "\<lambda>s j. luhn_weight (length s mod 2) j (s ! j)"
  have "luhn_sum (s[i := c]) = luhn_weight (length s mod 2) i c + (\<Sum>j\<in>{..<length s} - {i}. ?w s j)" for c
  proof -
    have "luhn_sum (s[i := c]) = ?w (s[i := c]) i + (\<Sum>j\<in>{..<length s} - {i}. ?w (s[i := c]) j)"
      using assms by (simp add: luhn_sum_def sum.remove [of _ i])
    moreover have "(\<Sum>j\<in>{..<length s} - {i}. ?w (s[i := c]) j) = (\<Sum>j\<in>{..<length s} - {i}. ?w s j)"
      by (rule sum.cong) auto
    ultimately show ?thesis using assms by simp
  qed
  from this [of "s ! i"] this show ?thesis by auto
qed

lemma luhn_sum_swap:
  assumes "Suc i < length s"
  shows "\<exists>r. luhn_sum s = luhn_weight (length s mod 2) i (s ! i) + luhn_weight (length s mod 2) (Suc i) (s ! Suc i) + r \<and>
             luhn_sum (s[i := s ! Suc i, Suc i := s ! i]) =
               luhn_weight (length s mod 2) i (s ! Suc i) + luhn_weight (length s mod 2) (Suc i) (s ! i) + r"
proof -
  let ?p = "length s mod 2"
  let ?s = "s[i := s ! Suc i]"
  obtain r where r: "luhn_sum s = luhn_weight ?p i (s ! i) + r" "luhn_sum ?s = luhn_weight ?p i (s ! Suc i) + r"
    using luhn_sum_update [of i s] assms by auto
  obtain q where q: "luhn_sum ?s = luhn_weight ?p (Suc i) (?s ! Suc i) + q"
    "luhn_sum (?s[Suc i := s ! i]) = luhn_weight ?p (Suc i) (s ! i) + q"
    using luhn_sum_update [of "Suc i" ?s] assms by auto
  obtain t where t: "r = luhn_weight ?p (Suc i) (s ! Suc i) + t"
  proof -
    obtain u where u: "luhn_sum s = luhn_weight ?p (Suc i) (s ! Suc i) + u" using luhn_sum_update [of "Suc i" s] assms by auto
    have "luhn_sum s = luhn_weight ?p i (s ! i) + luhn_weight ?p (Suc i) (s ! Suc i) +
        (\<Sum>j\<in>{..<length s} - {i} - {Suc i}. luhn_weight ?p j (s ! j))"
      using assms by (simp add: luhn_sum_def sum.remove [of _ i] sum.remove [of "{..<length s} - {i}" "Suc i"])
    with r(1) that show ?thesis by auto
  qed
  have "?s ! Suc i = s ! Suc i" by simp
  with r q t show ?thesis by auto
qed

text \<open>
  C37: The Luhn check catches the two commonest typing errors: of a number it accepts, no number that
  differs in exactly one digit is accepted, and none that has two neighbouring digits exchanged,
  unless they are a 0 and a 9.
\<close>

theorem luhn_catches_typos:
  assumes "list_all iso_digit s" and "luhn e (FJson (PStr s)) f k = Inr None" and "i < length s"
  shows "(iso_digit c \<and> c \<noteq> s ! i \<longrightarrow> luhn e (FJson (PStr (s[i := c]))) f k \<noteq> Inr None) \<and>
    (Suc i < length s \<and> s ! i \<noteq> s ! Suc i \<and> {s ! i, s ! Suc i} \<noteq> {CHR ''0'', CHR ''9''} \<longrightarrow>
       luhn e (FJson (PStr (s[i := s ! Suc i, Suc i := s ! i]))) f k \<noteq> Inr None)"
proof (intro conjI impI)
  let ?p = "length s mod 2"
  have ne: "s \<noteq> []" using assms(3) by auto
  have ok: "luhn_sum s mod 10 = 0" using luhn_of_digits [OF assms(1) ne, of e f k] assms(2) by blast
  have dig: "iso_digit (s ! j)" if "j < length s" for j using assms(1) that by (simp add: list_all_length)
  {
    assume c: "iso_digit c \<and> c \<noteq> s ! i"
    have "list_all iso_digit (s[i := c])"
      using assms(1) c set_update_subset_insert [of s i c] by (auto simp: list_all_iff)
    with luhn_of_digits [of "s[i := c]" e f k] ne
    have v: "luhn e (FJson (PStr (s[i := c]))) f k = Inr None \<longleftrightarrow> luhn_sum (s[i := c]) mod 10 = 0" by simp
    obtain r where r: "luhn_sum s = luhn_weight ?p i (s ! i) + r" "luhn_sum (s[i := c]) = luhn_weight ?p i c + r"
      using luhn_sum_update [OF assms(3)] by blast
    show "luhn e (FJson (PStr (s[i := c]))) f k \<noteq> Inr None"
    proof
      assume "luhn e (FJson (PStr (s[i := c]))) f k = Inr None"
      with v r ok have "luhn_weight ?p i (s ! i) mod 10 = luhn_weight ?p i c mod 10"
        using add_mod_cancel by metis
      from luhn_weight_inj [OF dig [OF assms(3)] _ this] c show False by auto
    qed
  }
  {
    assume sw: "Suc i < length s \<and> s ! i \<noteq> s ! Suc i \<and> {s ! i, s ! Suc i} \<noteq> {CHR ''0'', CHR ''9''}"
    let ?t = "s[i := s ! Suc i, Suc i := s ! i]"
    let ?a = "digit_of (s ! i)" and ?b = "digit_of (s ! Suc i)"
    note da = digit_cases [OF dig [OF assms(3)]] and db = digit_cases [OF dig [of "Suc i"]]
    have "set ?t \<subseteq> set s"
      using set_update_subset_insert [of "s[i := s ! Suc i]" "Suc i" "s ! i"]
        set_update_subset_insert [of s i "s ! Suc i"] sw assms(3) nth_mem by (auto 4 4)
    then have "list_all iso_digit ?t" using assms(1) by (auto simp: list_all_iff)
    with luhn_of_digits [of ?t e f k] ne
    have v: "luhn e (FJson (PStr ?t)) f k = Inr None \<longleftrightarrow> luhn_sum ?t mod 10 = 0" by simp
    obtain r where r: "luhn_sum s = luhn_weight ?p i (s ! i) + luhn_weight ?p (Suc i) (s ! Suc i) + r"
      "luhn_sum ?t = luhn_weight ?p i (s ! Suc i) + luhn_weight ?p (Suc i) (s ! i) + r"
      using luhn_sum_swap sw by blast
    show "luhn e (FJson (PStr ?t)) f k \<noteq> Inr None"
    proof
      assume "luhn e (FJson (PStr ?t)) f k = Inr None"
      with v r ok have "(luhn_weight ?p i (s ! i) + luhn_weight ?p (Suc i) (s ! Suc i)) mod 10 =
          (luhn_weight ?p i (s ! Suc i) + luhn_weight ?p (Suc i) (s ! i)) mod 10"
        using add_mod_cancel by metis
      moreover have "i mod 2 = ?p \<longleftrightarrow> \<not> Suc i mod 2 = ?p" by presburger
      ultimately have "(luhn_double ?a + ?b) mod 10 = (luhn_double ?b + ?a) mod 10"
        by (cases "i mod 2 = ?p") (simp_all add: luhn_weight_def add.commute)
      from luhn_swap_table [OF _ _ this] da db sw
      have "?a = ?b \<or> (?a = 0 \<and> ?b = 9) \<or> (?a = 9 \<and> ?b = 0)" by blast
      with da db sw show False unfolding zero_nine by (elim disjE) (auto simp: insert_commute)
    qed
  }
qed

lemma luhn_catches_typos_witness:
  "luhn demo_env (entered ''4539148803436467'') ''card'' None = Inr None \<and>
   luhn demo_env (entered ''4539148803436461'') ''card'' None \<noteq> Inr None \<and>
   luhn demo_env (entered ''5439148803436467'') ''card'' None \<noteq> Inr None"
proof -
  have ok: "list_all iso_digit ''4539148803436467''"
    "luhn demo_env (FJson (PStr ''4539148803436467'')) ''card'' None = Inr None" by code_simp+
  have "luhn demo_env (FJson (PStr (''4539148803436467''[15 := CHR ''1'']))) ''card'' None \<noteq> Inr None"
    using luhn_catches_typos [OF ok, of 15 "CHR ''1''"] by (simp add: iso_digit_def)
  moreover have "luhn demo_env (FJson (PStr (''4539148803436467''[0 := CHR ''5'', Suc 0 := CHR ''4'']))) ''card'' None \<noteq> Inr None"
    using luhn_catches_typos [OF ok, of 0 "CHR ''0''"] by (simp add: doubleton_eq_iff)
  ultimately show ?thesis using ok(2) by (simp add: entered_def)
qed

end
