(* ===== verification/ValidateClaims.thy ===== *)
theory ValidateClaims
  imports ValidateProps
begin

text \<open>What slips through or raises, the declared rules, and the catalog.\<close>

subsection \<open>Values that slip through\<close>

lemma nan_number: "to_num (entered ''nan'') = Some (NumFlt NaN)" "\<not> absent (entered ''nan'')"
  by code_simp+

lemma nan_less [simp]: "\<not> num_less (NumFlt NaN) x" "\<not> num_less x (NumFlt NaN)"
  by (auto simp: num_less_def num_flt_def flt_less_def split: flt.splits number.splits)

text \<open>
  The text \<open>nan\<close> (a cell of an import, a field of a form) passes every bound that is tested with
  \<open>value < limit\<close> or \<open>value > limit\<close>, whatever the limit: at least, at most, zero or greater, at
  most so many decimals; only the two checks written with \<open>not\<close> refuse it.
\<close>

theorem nan_passes_bounds:
  "(to_num m \<noteq> None \<longrightarrow> at_least e (entered ''nan'') m f k = Inr None \<and>
      at_most e (entered ''nan'') m f k = Inr None) \<and>
   non_negative (entered ''nan'') f k = Inr None \<and>
   max_decimals (entered ''nan'') places f k = Inr None \<and>
   positive (entered ''nan'') f k \<noteq> Inr None \<and> percent (entered ''nan'') f k \<noteq> Inr None"
  by (auto simp: at_least_def at_most_def non_negative_def max_decimals_def positive_def percent_def
      on_num_def on_nums_def nan_number valid_def violates_def rounding_gap_def num_abs_def flt_abs_def
      num_leq_def num_flt_def flt_less_def flt_eq_def split: option.splits)

lemma nan_passes_bounds_witness:
  "at_least demo_env (entered ''nan'') (FJson (PInt 18)) ''age'' None = Inr None"
  using nan_passes_bounds [of "FJson (PInt 18)"] by (simp add: to_num_def)

text \<open>
  Provided values on which a shipped check raises instead of answering, so that the request ends
  as a server error: a superscript digit in a checksum, an unbalanced bracket in a web address, a
  scalar where a list is expected, a gap that leaves the calendar, a year before the first one; and
  a blank text is absent for every check but present for \<open>required_when\<close>, so that a required field
  filled with blanks passes both.
\<close>

theorem checks_can_raise:
  "luhn demo_env (entered [char_of (178 :: nat)]) f None =
     Inl (int_literal_error (char_of (178 :: nat))) \<and>
   url demo_env (entered ''https://['') [''https''] f None = Inl url_error \<and>
   unique_items (FJson (PInt 5)) f None = Inl not_iterable \<and>
   subset_of (FJson (PInt 5)) (Some []) f None = Inl not_iterable \<and>
   after demo_env (entered ''2026-01-01'') (entered ''9999-12-31'') 1 f None = Inl overflow \<and>
   age_at_least demo_env (entered ''2026-01-01'') 2026 f None = Inl year_error \<and>
   required_when (entered '' '') True f None = Inr None \<and>
   email demo_env (entered '' '') None f None = Inr None"
  by (intro conjI; code_simp)

subsection \<open>Declared rules\<close>

definition day_of :: "field_value \<Rightarrow> int" where
  "day_of v = (case v of FDate d \<Rightarrow> d | FDateTime d secs \<Rightarrow> d | _ \<Rightarrow> 0)"

definition dated :: "field_value \<Rightarrow> bool" where
  "dated v = (case v of FDate d \<Rightarrow> True | FDateTime d secs \<Rightarrow> True | _ \<Rightarrow> v = absent_value)"

text \<open>
  The fields as they would be after the edit: the record's own, over them what the caller knows of
  related records, over those the submitted ones; a dotted name is never a field of the record.
\<close>

definition value_after ::
    "attributes option \<Rightarrow> attributes \<Rightarrow> attributes option \<Rightarrow> string \<Rightarrow> field_value" where
  "value_after rec changes context f =
     (let own = (\<lambda>g. if CHR ''.'' \<in> set g then None else map_of (case rec of None \<Rightarrow> [] | Some r \<Rightarrow> r) g);
          related = map_of (case context of None \<Rightarrow> [] | Some c \<Rightarrow> c)
      in case (own ++ related ++ map_of changes) f of Some v \<Rightarrow> v | None \<Rightarrow> FJson PNone)"

lemma effective_after: "effective = value_after"
  by (intro ext)
    (auto simp: effective_def value_after_def Let_def map_add_def dget_map_of get_or_none_def
      absent_value_def namespaced_def split: option.splits)

text \<open>The \<open>years=\<close> of a rule, when it declares a number of them.\<close>

definition declared_years :: "vrule \<Rightarrow> int option" where
  "declared_years r = (case map_of (vu_params r) ''years'' of Some (FJson (PInt n)) \<Rightarrow> Some n | _ \<Rightarrow> None)"

lemma rule_years_declared: "rule_years r = Inr n \<longleftrightarrow> declared_years r = Some n"
  by (auto simp: rule_years_def declared_years_def dget_map_of
      split: option.splits field_value.splits pyval.splits)

definition rule_shaped :: "int \<Rightarrow> vrule \<Rightarrow> bool" where
  "rule_shaped today r =
     (vu_fields r \<noteq> [] \<and> (vu_kind r = ''order'' \<longrightarrow> 2 \<le> length (vu_fields r)) \<and>
      (vu_kind r = ''max_age'' \<longrightarrow>
         (case declared_years r of
            Some n \<Rightarrow> 1 \<le> year_of today - n \<and> year_of today - n \<le> 9999
          | None \<Rightarrow> False)))"

text \<open>What a rule of each kind says about the days its fields would have.\<close>

definition rule_met :: "int \<Rightarrow> vrule \<Rightarrow> int list \<Rightarrow> bool" where
  "rule_met today r days =
     (if vu_kind r = ''not_future'' then days ! 0 \<le> today
      else if vu_kind r = ''not_past'' then today \<le> days ! 0
      else if vu_kind r = ''order'' then days ! 0 \<le> days ! 1
      else completed_years (days ! 0 + 1) today < (case declared_years r of Some n \<Rightarrow> n | None \<Rightarrow> 0))"

text \<open>The entry of the 422 for a broken rule, on the last of its fields that is not of a parent.\<close>

definition broken_entry :: "vrule \<Rightarrow> error_entry" where
  "broken_entry r =
     \<lparr>ee_loc = [''body'', last (if \<exists>f\<in>set (vu_fields r). CHR ''.'' \<notin> set f
                            then filter (\<lambda>f. CHR ''.'' \<notin> set f) (vu_fields r) else vu_fields r)],
      ee_msg = vu_message r, ee_type = ''value_error.'' @ vu_code r, ee_key = None, ee_params = None\<rparr>"

lemma broken_entry_sent: "error_entry_of (rule_violation r) = broken_entry r"
  by (simp add: broken_entry_def error_entry_of_def rule_violation_def rule_target_def namespaced_def
      Let_def filter_empty_conv)

definition broken_rules ::
    "int \<Rightarrow> attributes option \<Rightarrow> attributes \<Rightarrow> attributes option \<Rightarrow> vrule list \<Rightarrow> vrule list" where
  "broken_rules today rec changes context rules =
     filter (\<lambda>r. (\<exists>f\<in>set (vu_fields r). f \<in> fst ` set changes) \<and>
        (\<forall>f\<in>set (vu_fields r). value_after rec changes context f \<noteq> FJson PNone) \<and>
        \<not> rule_met today r (map (\<lambda>f. day_of (value_after rec changes context f)) (vu_fields r))) rules"

lemma value_leq_dates: "value_leq (FDate a) (FDate b) = Inr (a \<le> b)"
  by (auto simp: value_leq_def value_less_def value_eq_def value_flt_def)

lemma day_value_dated: "dated v \<Longrightarrow> v \<noteq> absent_value \<Longrightarrow> day_value v = FDate (day_of v)"
  by (auto simp: dated_def day_value_def day_of_def split: field_value.splits)

lemma assert_rules_known_iff:
  "assert_rules_known reg rules = Inr () \<longleftrightarrow>
     (\<forall>r\<in>set rules. (\<forall>f\<in>set (vu_fields r). rule_known reg r f) \<and> dget kinds (vu_kind r) \<noteq> None)"
proof (induction rules)
  case Nil
  then show ?case by simp
next
  case (Cons r rs)
  have "check_rule reg r = Inr () \<longleftrightarrow>
      (\<forall>f\<in>set (vu_fields r). rule_known reg r f) \<and> dget kinds (vu_kind r) \<noteq> None"
    by (auto simp: check_rule_def first_where_None split: option.splits dest: first_where_Some)
  with Cons show ?case by (auto simp: rbind_Inr_iff)
qed

lemma rule_holds_met:
  assumes kind: "dget kinds (vu_kind r) \<noteq> None" and shape: "rule_shaped today r"
    and len: "length vals = length (vu_fields r)"
    and dates: "\<forall>v\<in>set vals. dated v \<and> v \<noteq> absent_value"
  shows "rule_holds r vals today = Inr (rule_met today r (map day_of vals))"
proof -
  have at: "val_at vals i = Inr (FDate (map day_of vals ! i))" if "i < length vals" for i
    using that dates day_value_dated [of "vals ! i"] by (simp add: val_at_def)
  have zero: "0 < length vals" using shape len by (simp add: rule_shaped_def)
  from kind consider "vu_kind r = ''not_future''" | "vu_kind r = ''not_past''"
    | "vu_kind r = ''order''" | "vu_kind r = ''max_age''"
    by (auto simp: kinds_def split: if_splits)
  then show ?thesis
  proof cases
    case 1
    with at [OF zero] show ?thesis
      by (simp add: rule_holds_def kinds_def kind_not_future_def rule_met_def value_leq_dates)
  next
    case 2
    with at [OF zero] show ?thesis
      by (simp add: rule_holds_def kinds_def kind_not_past_def rule_met_def value_leq_dates)
  next
    case 3
    with shape len have "1 < length vals" by (simp add: rule_shaped_def)
    with 3 at [OF zero] at [of 1] show ?thesis
      by (simp add: rule_holds_def kinds_def kind_order_def rule_met_def value_leq_dates)
  next
    case 4
    with shape obtain n where y: "declared_years r = Some n"
      and n: "1 \<le> year_of today - n" "year_of today - n \<le> 9999"
      by (auto simp: rule_shaped_def split: option.splits)
    from y have yrs: "rule_years r = Inr n" by (simp add: rule_years_declared)
    obtain y m d where c: "civil today = (y, m, d)" by (cases "civil today")
    with civil_valid [OF c] n years_ago_completed [OF c, of n] obtain l where
      l: "years_ago today n = Inr l" "\<forall>b. b \<le> l \<longleftrightarrow> n \<le> completed_years b today" by auto
    have "l \<le> x \<longleftrightarrow> completed_years (x + 1) today < n" for x
      using l(2) [rule_format, of "x + 1"] by linarith
    with 4 at [OF zero] y yrs l(1) show ?thesis
      by (simp add: rule_holds_def kinds_def kind_max_age_def rule_met_def value_leq_dates)
  qed
qed

lemma touched_iff: "touched changes r \<longleftrightarrow> (\<exists>f\<in>set (vu_fields r). f \<in> fst ` set changes)"
  by (auto simp: touched_def list_ex_iff dget_map_of map_of_eq_None_iff)

lemma evaluate_loop_broken:
  assumes "\<forall>r\<in>set rules. dget kinds (vu_kind r) \<noteq> None \<and> rule_shaped today r"
    and "\<forall>r\<in>set rules. \<forall>f\<in>set (vu_fields r). dated (value_after rec changes context f)"
  shows "evaluate_loop today rec changes context rules acc =
     Inr (acc @ map rule_violation (broken_rules today rec changes context rules))"
  using assms
proof (induction rules arbitrary: acc)
  case Nil
  then show ?case by (simp add: broken_rules_def)
next
  case (Cons r rs)
  let ?vals = "rule_values rec changes context r"
  show ?case
  proof (cases "touched changes r \<and> absent_value \<notin> set ?vals")
    case False
    then have "broken_rules today rec changes context (r # rs) = broken_rules today rec changes context rs"
      by (auto simp: broken_rules_def touched_iff rule_values_def effective_after absent_value_def image_iff)
    with False Cons show ?thesis by (auto simp: Let_def)
  next
    case True
    have "rule_holds r ?vals today = Inr (rule_met today r (map day_of ?vals))"
      by (rule rule_holds_met) (use Cons.prems True in \<open>auto simp: rule_values_def effective_after intro: rev_image_eqI\<close>)
    moreover have "broken_rules today rec changes context (r # rs) =
        (if rule_met today r (map day_of ?vals) then [] else [r]) @ broken_rules today rec changes context rs"
      using True by (auto simp: broken_rules_def touched_iff rule_values_def effective_after absent_value_def image_iff comp_def)
    ultimately show ?thesis using True Cons by (simp add: Let_def)
  qed
qed

text \<open>
  C21: Once the start-up check of the rules has passed, an edit is judged by exactly the rules of its
  entity that it touches and whose fields all have a value after the edit (submitted, else of a
  related record, else stored): the reply is "go on" when every one of them is met, and otherwise one
  422 with one entry for each broken rule, in the order of declaration, on the rule's own last field.
  The rules of the entity name the fields their kind reads, with a \<open>years=\<close> that stays in the
  calendar where the kind is \<open>max_age\<close>, and their fields hold dates, date-times or nothing; outside of
  that the engine may raise.
\<close>

theorem declared_rules_apply:
  assumes "assert_rules_known reg rules = Inr ()"
    and "\<forall>r\<in>set rules. vu_entity r = entity \<longrightarrow> rule_shaped today r"
    and "\<forall>r\<in>set rules. vu_entity r = entity \<longrightarrow>
           (\<forall>f\<in>set (vu_fields r). dated (value_after rec changes context f))"
  shows "raise_if_invalid rules today entity rec changes context =
     (let broken = broken_rules today rec changes context (filter (\<lambda>r. vu_entity r = entity) rules)
      in if broken = [] then Proceed
         else Unprocessable (map broken_entry broken))"
proof -
  have "\<forall>r\<in>set (rules_for rules entity). dget kinds (vu_kind r) \<noteq> None \<and> rule_shaped today r"
    "\<forall>r\<in>set (rules_for rules entity). \<forall>f\<in>set (vu_fields r). dated (value_after rec changes context f)"
    using assms by (auto simp: assert_rules_known_iff rules_for_def)
  from evaluate_loop_broken [OF this, of "[]"] show ?thesis
    by (simp add: raise_if_invalid_def evaluate_def to_http_def Let_def comp_def broken_entry_sent rules_for_def)
qed

definition demo_rules :: "vrule list" where
  "demo_rules =
     [\<lparr>vu_entity = ''member'', vu_kind = ''order'', vu_fields = [''hired'', ''left''],
        vu_message = ''Must not leave before joining'', vu_code = ''dates'', vu_params = []\<rparr>,
      \<lparr>vu_entity = ''member'', vu_kind = ''max_age'', vu_fields = [''born''],
        vu_message = ''Too old'', vu_code = ''age'', vu_params = [(''years'', FJson (PInt 100))]\<rparr>]"

lemma declared_rules_apply_witness:
  "raise_if_invalid demo_rules 739871 ''member'' (Some [(''hired'', FDate 739000), (''left'', FDate 739500), (''born'', FDate 1)])
     [(''left'', FDateTime 738000 60)] None =
   Unprocessable [broken_entry (hd demo_rules)]"
proof -
  let ?rec = "Some [(''hired'', FDate 739000), (''left'', FDate 739500), (''born'', FDate 1)]"
  let ?ch = "[(''left'', FDateTime 738000 60)]"
  let ?mine = "filter (\<lambda>r. vu_entity r = ''member'') demo_rules"
  have "assert_rules_known [] demo_rules = Inr ()" by code_simp
  moreover have "list_all (rule_shaped 739871) demo_rules" by code_simp
  moreover have "list_all (\<lambda>r. list_all (\<lambda>f. dated (value_after ?rec ?ch None f)) (vu_fields r)) demo_rules"
    by code_simp
  moreover have "broken_rules 739871 ?rec ?ch None ?mine = [hd demo_rules]" by code_simp
  ultimately show ?thesis
    using declared_rules_apply [of "[]" demo_rules "''member''" 739871 ?rec ?ch None]
    by (simp add: list_all_iff)
qed

text \<open>The start-up check does not look at the parameters: a rule without its years passes it.\<close>

lemma max_age_without_years:
  "assert_rules_known [] [(demo_rules ! 1)\<lparr>vu_params := []\<rparr>] = Inr () \<and>
   raise_if_invalid [(demo_rules ! 1)\<lparr>vu_params := []\<rparr>] 739871 ''member'' None [(''born'', FDate 739000)] None =
     Failed (KeyErrorExn ''years'')"
  by code_simp


text \<open>The namespace and its catalog, the two ways to state a rule about dates, and IBANs.\<close>

subsection \<open>The namespace and the catalog\<close>

definition module_functions :: "check_module list \<Rightarrow> check_fn set" where
  "module_functions ms = (\<Union>m\<in>set ms. snd ` set (cm_members m))"

text \<open>Names are the keys of a module's dict, and an identity is one function object.\<close>

definition modules_ok :: "check_module list \<Rightarrow> bool" where
  "modules_ok ms =
     ((\<forall>m\<in>set ms. distinct (map fst (cm_members m))) \<and>
      (\<forall>a\<in>module_functions ms. \<forall>b\<in>module_functions ms. cf_id a = cf_id b \<longrightarrow> a = b))"

definition empty_library :: check_library where
  "empty_library = \<lparr>cl_names = [], cl_modules = []\<rparr>"

definition include_all :: "check_module list \<Rightarrow> check_library" where
  "include_all ms = fold (\<lambda>m lib. snd (include_checks m lib)) ms empty_library"

definition library_inv :: "check_module list \<Rightarrow> check_library \<Rightarrow> bool" where
  "library_inv ms lib =
     (distinct (map fst (cl_modules lib)) \<and>
      (\<forall>(n, m)\<in>set (cl_modules lib). n = cm_name m \<and> m \<in> set ms \<and>
         (\<forall>(name, fn)\<in>set (check_functions m). dget (cl_names lib) name = Some fn)) \<and>
      (\<forall>(name, fn)\<in>set (cl_names lib). fn \<in> module_functions ms))"

lemma check_functions_D:
  "(name, fn) \<in> set (check_functions m) \<Longrightarrow>
     \<not> private_name name \<and> cf_module fn = cm_name m \<and> fn \<in> module_functions [m]"
  by (force simp: check_functions_def module_functions_def)

lemma distinct_check_functions:
  "distinct (map fst (cm_members m)) \<Longrightarrow> distinct (map fst (check_functions m))"
  by (simp add: check_functions_def distinct_map_filter)

lemma dget_distinct: "distinct (map fst ds) \<Longrightarrow> (k, v) \<in> set ds \<Longrightarrow> dget ds k = Some v"
  by (simp add: dget_map_of)

lemma dget_member: "dget ds k = Some v \<Longrightarrow> (k, v) \<in> set ds"
  by (simp add: dget_map_of map_of_SomeD)

lemma dget_absent: "k \<notin> fst ` set ds \<Longrightarrow> dget ds k = None"
  by (simp add: dget_map_of map_of_eq_None_iff)

lemma set_dset_subset: "set (dset ds k v) \<subseteq> insert (k, v) (set ds)"
  by (induction ds k v rule: dset.induct) auto

lemma dset_member:
  "distinct (map fst ds) \<Longrightarrow> (j, w) \<in> set (dset ds k v) \<Longrightarrow> (j = k \<and> w = v) \<or> (j \<noteq> k \<and> (j, w) \<in> set ds)"
  by (induction ds k v rule: dset.induct) (auto split: if_splits dest: set_dset_subset [THEN subsetD] simp: image_iff)

lemma set_dmerge: "set (dmerge ds es) \<subseteq> set ds \<union> set es"
proof (induction es arbitrary: ds)
  case (Cons e es)
  have "dmerge ds (e # es) = dmerge (dset ds (fst e) (snd e)) es" by (simp add: dmerge_def)
  with Cons [of "dset ds (fst e) (snd e)"] set_dset_subset [of ds "fst e" "snd e"] show ?case by auto
qed (simp add: dmerge_def)

lemma dget_dmerge_distinct:
  assumes "distinct (map fst es)"
  shows "dget (dmerge ds es) k = (case dget es k of None \<Rightarrow> dget ds k | Some v \<Rightarrow> Some v)"
proof -
  have "dget (rev es) k = dget es k"
    unfolding dget_map_of
  proof (cases "map_of es k")
    case None
    then have "map_of (rev es) k = None" by (simp add: map_of_eq_None_iff)
    with None show "map_of (rev es) k = map_of es k" by simp
  next
    case (Some v)
    then have "(k, v) \<in> set (rev es)" by (simp add: map_of_SomeD)
    with Some assms show "map_of (rev es) k = map_of es k"
      by (simp add: map_of_is_SomeI rev_map flip: rev_map)
  qed
  then show ?thesis by (simp add: dget_dmerge)
qed

lemma include_keeps:
  assumes inv: "library_inv ms lib" and ok: "modules_ok ms" and m: "m \<in> set ms"
  shows "library_inv ms (snd (include_checks m lib))"
proof (cases "first_where (collides lib) (check_functions m)")
  case (Some nf)
  with inv show ?thesis by (cases nf) (simp add: include_checks_def Let_def)
next
  case None
  let ?fns = "check_functions m"
  let ?lib = "lib\<lparr>cl_names := dmerge (cl_names lib) ?fns, cl_modules := dset (cl_modules lib) (cm_name m) m\<rparr>"
  have df: "distinct (map fst ?fns)" using ok m by (simp add: modules_ok_def distinct_check_functions)
  have dm: "distinct (map fst (cl_modules lib))" using inv by (simp add: library_inv_def)
  have fm: "\<And>name fn. (name, fn) \<in> set ?fns \<Longrightarrow> fn \<in> module_functions ms"
    using check_functions_D m by (fastforce simp: module_functions_def)
  have new: "dget (cl_names ?lib) name = Some fn" if "(name, fn) \<in> set ?fns" for name fn
    using dget_distinct [OF df that] by (simp add: dget_dmerge_distinct [OF df])
  have old: "dget (cl_names ?lib) name = Some fn"
    if n: "(cm_name m', m') \<in> set (cl_modules lib)" and f: "(name, fn) \<in> set (check_functions m')"
      and ne: "cm_name m' \<noteq> cm_name m" for m' name fn
  proof -
    have held: "dget (cl_names lib) name = Some fn" using inv n f by (fastforce simp: library_inv_def)
    have "name \<notin> fst ` set ?fns"
    proof
      assume "name \<in> fst ` set ?fns"
      then obtain g where g: "(name, g) \<in> set ?fns" by auto
      with None have "\<not> collides lib (name, g)" by (simp add: first_where_None)
      with held have "cf_id fn = cf_id g \<or> cf_module fn = cf_module g" by (auto simp: collides_def)
      moreover have "fn \<in> module_functions ms"
        using inv dget_member [OF held] by (fastforce simp: library_inv_def)
      ultimately have "cf_module fn = cf_module g"
        using ok fm [OF g] by (auto simp: modules_ok_def)
      with check_functions_D [OF f] check_functions_D [OF g] ne show False by simp
    qed
    with held show ?thesis by (simp add: dget_dmerge_distinct [OF df] dget_absent)
  qed
  have "library_inv ms ?lib"
    unfolding library_inv_def
  proof (intro conjI ballI)
    show "distinct (map fst (cl_modules ?lib))" using dm by (simp add: distinct_dset)
  next
    fix nm assume "nm \<in> set (cl_modules ?lib)"
    moreover obtain j w where "nm = (j, w)" by fastforce
    ultimately have nm: "nm = (j, w)" "(j, w) \<in> set (dset (cl_modules lib) (cm_name m) m)" by simp_all
    from dset_member [OF dm nm(2)]
    show "case nm of (n, m') \<Rightarrow> n = cm_name m' \<and> m' \<in> set ms \<and>
        (\<forall>(name, fn)\<in>set (check_functions m'). dget (cl_names ?lib) name = Some fn)"
    proof
      assume "j = cm_name m \<and> w = m"
      with nm(1) m new show ?thesis by auto
    next
      assume a: "j \<noteq> cm_name m \<and> (j, w) \<in> set (cl_modules lib)"
      with inv have "j = cm_name w" "w \<in> set ms" by (auto simp: library_inv_def)
      with a nm(1) old show ?thesis by auto
    qed
  next
    fix nf assume "nf \<in> set (cl_names ?lib)"
    then have "nf \<in> set (cl_names lib) \<union> set ?fns" using set_dmerge by fastforce
    with inv fm show "case nf of (name, fn) \<Rightarrow> fn \<in> module_functions ms"
      by (cases nf) (auto simp: library_inv_def)
  qed
  with None show ?thesis by (simp add: include_checks_def Let_def)
qed

lemma include_all_inv:
  assumes "modules_ok ms"
  shows "library_inv ms (include_all ms)"
proof -
  have "library_inv ms (fold (\<lambda>m lib. snd (include_checks m lib)) xs lib)"
    if "library_inv ms lib" "set xs \<subseteq> set ms" for xs lib
    using that by (induction xs arbitrary: lib) (auto intro: include_keeps assms)
  moreover have "library_inv ms empty_library" by (simp add: library_inv_def empty_library_def)
  ultimately show ?thesis by (simp add: include_all_def)
qed

lemma catalog_names_distinct:
  assumes inv: "library_inv ms lib" and ok: "modules_ok ms"
  shows "distinct (map fst (catalog_functions lib))"
proof -
  have step: "distinct (map fst (concat (map (\<lambda>(n, m). check_functions m) xs)))"
    if "distinct (map fst xs)" "set xs \<subseteq> set (cl_modules lib)" for xs
    using that
  proof (induction xs)
    case (Cons nm xs)
    obtain n m where nm: "nm = (n, m)" by (cases nm)
    have mem: "(n, m) \<in> set (cl_modules lib)" using Cons.prems nm by auto
    with inv have n: "n = cm_name m" "m \<in> set ms" by (auto simp: library_inv_def)
    have "distinct (map fst (check_functions m))"
      using ok n by (simp add: modules_ok_def distinct_check_functions)
    moreover have "fst ` set (check_functions m) \<inter>
        fst ` set (concat (map (\<lambda>(n, m). check_functions m) xs)) = {}"
    proof (rule ccontr)
      assume "\<not> ?thesis"
      then obtain name f g n' m' where f: "(name, f) \<in> set (check_functions m)"
        and n': "(n', m') \<in> set xs" and g: "(name, g) \<in> set (check_functions m')" by fastforce
      have mem': "(n', m') \<in> set (cl_modules lib)" using n' Cons.prems by auto
      with inv have n'': "n' = cm_name m'" by (auto simp: library_inv_def)
      from inv mem f mem' g have "dget (cl_names lib) name = Some f" "dget (cl_names lib) name = Some g"
        by (fastforce simp: library_inv_def)+
      then have "f = g" by simp
      with check_functions_D [OF f] check_functions_D [OF g] n n'' have "n = n'" by simp
      with Cons.prems(1) nm n' show False by (force simp: image_iff)
    qed
    ultimately show ?case using Cons nm by simp
  qed simp
  show ?thesis unfolding catalog_functions_def
    by (rule step) (use inv in \<open>auto simp: library_inv_def\<close>)
qed

text \<open>
  C23: The namespace and the catalog agree after any sequence of \<open>include_checks\<close>, refused ones and
  reloads included: the catalog lists every name once, calling a listed name reaches exactly the
  function whose signature and sentence are listed, that function belongs to the module that
  declares it, and a call that is refused has changed neither.
\<close>

theorem catalog_is_callable:
  assumes "modules_ok (ms @ [m])"
  shows "distinct (map cg_name (check_catalog (include_all ms))) \<and>
    (\<forall>entry\<in>set (check_catalog (include_all ms)).
       \<exists>fn. find_check (include_all ms) (cg_name entry) = Inr fn \<and> entry = entry_of (cg_name entry, fn)) \<and>
    (\<forall>x. fst (include_checks m (include_all ms)) = Inl x \<longrightarrow>
       snd (include_checks m (include_all ms)) = include_all ms)"
proof (intro conjI)
  let ?lib = "include_all ms"
  have "module_functions ms \<subseteq> module_functions (ms @ [m])" by (auto simp: module_functions_def)
  moreover have "set ms \<subseteq> set (ms @ [m])" by auto
  ultimately have ok: "modules_ok ms" using assms unfolding modules_ok_def by (meson subsetD)
  note inv = include_all_inv [OF ok]
  have names: "map cg_name (map entry_of (catalog_functions ?lib)) = map fst (catalog_functions ?lib)"
    by (simp add: entry_of_def Let_def)
  have "distinct (map cg_name (map entry_of (catalog_functions ?lib)))"
    unfolding names by (rule catalog_names_distinct [OF inv ok])
  then show "distinct (map cg_name (check_catalog ?lib))"
    unfolding check_catalog_def distinct_map [of cg_name] by simp
  show "\<forall>entry\<in>set (check_catalog ?lib). \<exists>fn. find_check ?lib (cg_name entry) = Inr fn \<and>
      entry = entry_of (cg_name entry, fn)"
  proof
    fix entry assume "entry \<in> set (check_catalog ?lib)"
    then obtain name fn where e: "entry = entry_of (name, fn)" and "(name, fn) \<in> set (catalog_functions ?lib)"
      by (auto simp: check_catalog_def)
    then obtain n m' where m': "(n, m') \<in> set (cl_modules ?lib)" "(name, fn) \<in> set (check_functions m')"
      by (auto simp: catalog_functions_def)
    with inv have "dget (cl_names ?lib) name = Some fn" by (fastforce simp: library_inv_def)
    with check_functions_D [OF m'(2)] have "find_check ?lib name = Inr fn" by (simp add: find_check_def)
    moreover have "cg_name entry = name" by (simp add: e entry_of_def Let_def)
    ultimately show "\<exists>fn. find_check ?lib (cg_name entry) = Inr fn \<and> entry = entry_of (cg_name entry, fn)"
      using e by auto
  qed
  show "\<forall>x. fst (include_checks m ?lib) = Inl x \<longrightarrow> snd (include_checks m ?lib) = ?lib"
    by (auto simp: include_checks_def Let_def split: option.splits)
qed

definition demo_check :: "int \<Rightarrow> string \<Rightarrow> check_fn" where
  "demo_check i m = \<lparr>cf_id = i, cf_module = m, cf_params = [(''value'', Mandatory), (''days'', Setting (FJson (PInt 0))),
     (''field'', Setting (entered []))], cf_doc = Some ''{field} must hold''\<rparr>"

lemma demo_id: "cf_id (demo_check i m) = i"
  by (simp add: demo_check_def)

definition demo_modules :: "check_module list" where
  "demo_modules =
     [\<lparr>cm_name = ''checks'', cm_members = [(''_v'', demo_check 1 ''checks''), (''after'', demo_check 2 ''checks'')]\<rparr>,
      \<lparr>cm_name = ''host'', cm_members = [(''after'', demo_check 2 ''checks''), (''iqama'', demo_check 3 ''host'')]\<rparr>]"

definition rival_module :: check_module where
  "rival_module = \<lparr>cm_name = ''rival'', cm_members = [(''after'', demo_check 4 ''rival''), (''other'', demo_check 5 ''rival'')]\<rparr>"

lemma catalog_is_callable_witness:
  "map cg_name (check_catalog (include_all demo_modules)) = [''after'', ''iqama''] \<and>
   distinct (map cg_name (check_catalog (include_all demo_modules))) \<and>
   snd (include_checks rival_module (include_all demo_modules)) = include_all demo_modules"
proof -
  have l: "list_all (\<lambda>m. distinct (map fst (cm_members m))) (demo_modules @ [rival_module])" by code_simp
  have fs: "module_functions (demo_modules @ [rival_module]) =
      {demo_check 1 ''checks'', demo_check 2 ''checks'', demo_check 3 ''host'', demo_check 4 ''rival'', demo_check 5 ''rival''}"
    by (auto simp: module_functions_def demo_modules_def rival_module_def)
  have "modules_ok (demo_modules @ [rival_module])"
    unfolding modules_ok_def fs
  proof
    show "\<forall>m\<in>set (demo_modules @ [rival_module]). distinct (map fst (cm_members m))"
      using l by (simp only: list_all_iff)
  qed (simp add: demo_id)
  note c = catalog_is_callable [OF this]
  have "fst (include_checks rival_module (include_all demo_modules)) \<noteq> Inr ()" by code_simp
  then obtain x where "fst (include_checks rival_module (include_all demo_modules)) = Inl x"
    by (cases "fst (include_checks rival_module (include_all demo_modules))") auto
  moreover have "map cg_name (check_catalog (include_all demo_modules)) = [''after'', ''iqama'']" by code_simp
  ultimately show ?thesis using c by blast
qed

text \<open>
  A reload of a module that has lost a function leaves the old function callable although the
  catalog no longer lists it.
\<close>

lemma reload_leaves_a_phantom:
  "let lib = include_all [demo_modules ! 0, (demo_modules ! 0)\<lparr>cm_members := []\<rparr>]
   in check_catalog lib = [] \<and> find_check lib ''after'' = Inr (demo_check 2 ''checks'')"
  by code_simp

end
