(* ===== verification/ValidateForeign.thy ===== *)
theory ValidateForeign
  imports ValidateClaims
begin

text \<open>Two statements of one rule about dates, and the IBAN checksum.\<close>

subsection \<open>Checks and kinds\<close>

text \<open>
  C39: The ways to state a rule about two dates agree.  A date is at least so many days after another
  exactly when the other is as many days before it, as long as both limits are in the calendar; and
  the kinds \<open>not_future\<close>, \<open>not_past\<close> and \<open>max_age\<close> of a declared rule hold of a date exactly when
  the shipped checks \<open>not_in_future\<close>, \<open>not_in_past\<close> and \<open>not_older_than\<close> accept it.
\<close>

theorem date_rules_agree:
  assumes "\<not> absent v" and "\<not> absent w" and "to_date e v = Some a" and "to_date e w = Some b"
    and "\<bar>days\<bar> \<le> max_days" and "1 \<le> b + days" and "b + days \<le> max_ordinal"
    and "1 \<le> a - days" and "a - days \<le> max_ordinal"
  shows "(after e v w days f k = Inr None \<longleftrightarrow> before e w v days f' k' = Inr None) \<and>
    (kind_not_future [FDate a] (today_of e) r = Inr True \<longleftrightarrow> not_in_future e v f k = Inr None) \<and>
    (kind_not_past [FDate a] (today_of e) r = Inr True \<longleftrightarrow> not_in_past e v f k = Inr None) \<and>
    (rule_years r = Inr n \<longrightarrow>
       (kind_max_age [FDate a] (today_of e) r = Inr True \<longleftrightarrow>
        not_older_than e v (Some n) None f k = Inr None))"
proof (intro conjI)
  have "add_days b days = Inr (b + days)" "add_days a (- days) = Inr (a - days)"
    using assms(5-9) by (simp_all add: add_days_def)
  then show "after e v w days f k = Inr None \<longleftrightarrow> before e w v days f' k' = Inr None"
    using assms(1-4) by (auto simp: after_def before_def valid_def violates_def)
  have at: "val_at [FDate a] 0 = Inr (FDate a)" by (simp add: val_at_def day_value_def)
  show "kind_not_future [FDate a] (today_of e) r = Inr True \<longleftrightarrow> not_in_future e v f k = Inr None"
    using assms(1,3) at
    by (auto simp: kind_not_future_def value_leq_dates not_in_future_def on_date_def valid_def violates_def)
  show "kind_not_past [FDate a] (today_of e) r = Inr True \<longleftrightarrow> not_in_past e v f k = Inr None"
    using assms(1,3) at
    by (auto simp: kind_not_past_def value_leq_dates not_in_past_def on_date_def valid_def violates_def)
  show "rule_years r = Inr n \<longrightarrow> (kind_max_age [FDate a] (today_of e) r = Inr True \<longleftrightarrow>
      not_older_than e v (Some n) None f k = Inr None)"
    using assms(1,3) at
    by (cases "years_ago (today_of e) n")
      (auto simp: kind_max_age_def value_leq_dates not_older_than_def on_date_def age_window_def
        valid_def violates_def)
qed

lemma date_rules_agree_witness:
  "after demo_env (entered ''2026-01-04'') (entered ''2026-01-01'') 3 ''end'' None = Inr None \<and>
   before demo_env (entered ''2026-01-01'') (entered ''2026-01-04'') 3 ''start'' None = Inr None"
proof -
  have d: "\<not> absent (entered ''2026-01-04'')" "\<not> absent (entered ''2026-01-01'')"
    "to_date demo_env (entered ''2026-01-04'') = Some 739620"
    "to_date demo_env (entered ''2026-01-01'') = Some 739617" by code_simp+
  have "after demo_env (entered ''2026-01-04'') (entered ''2026-01-01'') 3 ''end'' None = Inr None" by code_simp
  moreover have "after demo_env (entered ''2026-01-04'') (entered ''2026-01-01'') 3 ''end'' None = Inr None \<longleftrightarrow>
      before demo_env (entered ''2026-01-01'') (entered ''2026-01-04'') 3 ''start'' None = Inr None"
    using date_rules_agree [OF d, where days = 3 and f = "''end''" and k = None and f' = "''start''" and k' = None]
    by (simp add: max_days_def max_ordinal_def)
  ultimately show ?thesis by blast
qed

subsection \<open>IBAN\<close>

definition iban_text :: "char \<Rightarrow> bool" where
  "iban_text c = (ascii_upper c \<or> iso_digit c)"

lemma digits_val_append: "digits_val (s @ t) = digits_val s * 10 ^ length t + digits_val t"
proof (induction t rule: rev_induct)
  case (snoc c t)
  have "digits_val ((s @ t) @ [c]) = 10 * digits_val (s @ t) + (of_char c - 48)"
    by (simp add: digits_val_def)
  moreover have "digits_val (t @ [c]) = 10 * digits_val t + (of_char c - 48)"
    by (simp add: digits_val_def)
  ultimately show ?case using snoc by (simp add: algebra_simps)
qed (simp add: digits_val_def)

lemma upper_code: "ascii_upper c \<Longrightarrow> 65 \<le> (of_char c :: nat) \<and> (of_char c :: nat) \<le> 90"
  by (simp add: ascii_upper_def Let_def)

lemma digit_code: "iso_digit c \<Longrightarrow> 48 \<le> (of_char c :: nat) \<and> (of_char c :: nat) \<le> 57"
  unfolding iso_digit_def by (simp, elim disjE) simp_all

lemma digit_not_upper: "iso_digit c \<Longrightarrow> \<not> ascii_upper c"
  using upper_code [of c] digit_code [of c] by auto

lemma length_nat_text_base36:
  "ascii_upper c \<Longrightarrow> length (nat_text (base36 c)) = 2" "iso_digit c \<Longrightarrow> length (nat_text (base36 c)) = 1"
proof -
  assume c: "ascii_upper c"
  with digit_not_upper have "base36 c = of_char c - 55" by (auto simp: base36_def)
  with upper_code [OF c] have "10 \<le> base36 c" "base36 c div 10 < 10" by auto
  then show "length (nat_text (base36 c)) = 2"
    by (simp add: nat_text.simps [of "base36 c"] nat_text.simps [of "base36 c div 10"])
next
  assume c: "iso_digit c"
  with digit_code [OF c] have "base36 c < 10" by (auto simp: base36_def digit_of_def)
  then show "length (nat_text (base36 c)) = 1" by (simp add: nat_text.simps [of "base36 c"])
qed

lemma base36_inj:
  assumes "(ascii_upper c \<and> ascii_upper d) \<or> (iso_digit c \<and> iso_digit d)" and "base36 c = base36 d"
  shows "c = d"
proof -
  have "(of_char c :: nat) = of_char d"
  proof (cases "ascii_upper c")
    case True
    with assms(1) digit_not_upper have d: "ascii_upper d" by blast
    have "base36 c = of_char c - 55" "base36 d = of_char d - 55"
      using True d digit_not_upper by (auto simp: base36_def)
    with assms(2) upper_code [OF True] upper_code [OF d] show ?thesis by linarith
  next
    case False
    with assms(1) have cd: "iso_digit c" "iso_digit d" by blast+
    then have "base36 c = of_char c - 48" "base36 d = of_char d - 48"
      by (simp_all add: base36_def digit_of_def)
    with assms(2) digit_code [OF cd(1)] digit_code [OF cd(2)] show ?thesis by linarith
  qed
  then show ?thesis by (metis char_of_char)
qed

lemma base36_less: "iban_text c \<Longrightarrow> base36 c < 36"
  using upper_code [of c] digit_code [of c] digit_not_upper [of c]
  by (auto simp: iban_text_def base36_def digit_of_def)

lemma coprime_97: "coprime (97::int) (10 ^ n)"
proof -
  have "gcd (97::int) 10 = 1" by code_simp
  then have "coprime (97::int) 10" by (simp add: coprime_iff_gcd_eq_1)
  then show ?thesis by simp
qed

text \<open>The number of two texts that differ in one character of one class.\<close>

lemma iban_numbers_differ:
  assumes cls: "(ascii_upper c \<and> ascii_upper d) \<or> (iso_digit c \<and> iso_digit d)" and ne: "c \<noteq> d"
    and m: "digits_val (concat (map (\<lambda>c. nat_text (base36 c)) (us @ c # vs))) mod 97 = 1"
  shows "digits_val (concat (map (\<lambda>c. nat_text (base36 c)) (us @ d # vs))) mod 97 \<noteq> 1"
proof
  let ?T = "\<lambda>s. concat (map (\<lambda>c. nat_text (base36 c)) s)"
  assume d: "digits_val (?T (us @ d # vs)) mod 97 = 1"
  let ?w = "length (nat_text (base36 c))"
  have w: "length (nat_text (base36 d)) = ?w" using cls length_nat_text_base36 by auto
  have val: "digits_val (?T (us @ x # vs)) =
      (digits_val (?T us) * 10 ^ length (nat_text (base36 x)) + base36 x) * 10 ^ length (?T vs) + digits_val (?T vs)" for x
    by (simp add: digits_val_append digits_val_nat_text algebra_simps power_add)
  have "int (digits_val (?T (us @ c # vs))) mod 97 = int (digits_val (?T (us @ d # vs))) mod 97"
    using m d by (metis of_nat_mod of_nat_numeral)
  then have "97 dvd int (digits_val (?T (us @ c # vs))) - int (digits_val (?T (us @ d # vs)))"
    by (rule mod_eq_dvd_iff [THEN iffD1])
  also have "int (digits_val (?T (us @ c # vs))) - int (digits_val (?T (us @ d # vs))) =
      (int (base36 c) - int (base36 d)) * 10 ^ length (?T vs)"
    unfolding val w by (simp add: algebra_simps)
  finally have "97 dvd int (base36 c) - int (base36 d)"
    using coprime_97 coprime_dvd_mult_left_iff by blast
  moreover have "\<bar>int (base36 c) - int (base36 d)\<bar> < 97"
    using base36_less [of c] base36_less [of d] cls by (auto simp: iban_text_def)
  ultimately have "int (base36 c) - int (base36 d) = 0"
    using dvd_imp_le_int [of "int (base36 c) - int (base36 d)" 97] by linarith
  with base36_inj [OF cls] ne show False by simp
qed

lemma iban_char_plain: "iban_text c \<Longrightarrow> \<not> py_space c \<and> upper_char c = [c]"
  using upper_code [of c] digit_code [of c]
  by (auto simp: iban_text_def py_space_def upper_char_def Let_def)

lemma iban_of_compact:
  assumes "list_all iban_text s" and "s \<noteq> []"
  shows "iban e (FJson (PStr s)) f k = Inr None \<longleftrightarrow> iban_shape s \<and> iban_number s mod 97 = 1"
proof -
  have p: "\<forall>c\<in>set s. \<not> py_space c \<and> upper_char c = [c]"
    using assms(1) iban_char_plain by (simp add: list_all_iff)
  have "upper_text s = s" using p by (induction s) (auto simp: upper_text_def)
  moreover have "filter (\<lambda>c. \<not> py_space c) s = s" using p by simp
  moreover have "\<not> absent (FJson (PStr s))" using p assms(2) by (cases s) (auto simp: absent_def blank_iff)
  moreover have "text_of e (FJson (PStr s)) = s" by (simp add: text_of_def value_text_def json_str_def)
  ultimately show ?thesis by (auto simp: iban_def iban_compact_def valid_def violates_def Let_def)
qed

lemma take_4_split: "length us < 4 \<Longrightarrow> take 4 (us @ x # vs) = us @ x # take (3 - length us) vs"
  by (simp add: take_Cons')

text \<open>
  C38: The IBAN check catches every single wrong character: of an accepted IBAN written without spaces
  in capitals, no text that has one letter replaced by another letter, or one digit by another
  digit, is accepted.
\<close>

theorem iban_catches_a_wrong_character:
  assumes "list_all iban_text s" and "iban e (FJson (PStr s)) f k = Inr None" and "i < length s"
    and "(ascii_upper (s ! i) \<and> ascii_upper c) \<or> (iso_digit (s ! i) \<and> iso_digit c)" and "s ! i \<noteq> c"
  shows "iban e (FJson (PStr (s[i := c]))) f k \<noteq> Inr None"
proof -
  have ne: "s \<noteq> []" using assms(3) by auto
  have ok: "iban_number s mod 97 = 1" using iban_of_compact [OF assms(1) ne] assms(2) by blast
  have split: "s = take i s @ s ! i # drop (Suc i) s" using assms(3) by (rule id_take_nth_drop)
  have upd: "s[i := c] = take i s @ c # drop (Suc i) s" using assms(3) by (rule upd_conv_take_nth_drop)
  have "\<exists>us vs. drop 4 s @ take 4 s = us @ s ! i # vs \<and> drop 4 (s[i := c]) @ take 4 (s[i := c]) = us @ c # vs"
  proof (cases "i < 4")
    case True
    have i: "length (take i s) < 4" using True assms(3) by simp
    have "take 4 s = take i s @ s ! i # take (3 - length (take i s)) (drop (Suc i) s)"
      using take_4_split [OF i, of "s ! i" "drop (Suc i) s"] split by metis
    moreover have "take 4 (s[i := c]) = take i s @ c # take (3 - length (take i s)) (drop (Suc i) s)"
      unfolding upd by (rule take_4_split [OF i])
    moreover have "drop 4 (s[i := c]) = drop 4 s" using True by (simp add: drop_update_cancel)
    ultimately show ?thesis by (metis append.assoc)
  next
    case False
    then have "take 4 (s[i := c]) = take 4 s" by simp
    moreover have "drop 4 s = take (i - 4) (drop 4 s) @ s ! i # drop (Suc (i - 4)) (drop 4 s)"
      using id_take_nth_drop [of "i - 4" "drop 4 s"] assms(3) False by simp
    moreover have "drop 4 (s[i := c]) = take (i - 4) (drop 4 s) @ c # drop (Suc (i - 4)) (drop 4 s)"
      using upd_conv_take_nth_drop [of "i - 4" "drop 4 s" c] assms(3) False by (simp add: drop_update_swap)
    ultimately show ?thesis by (metis append.assoc append_Cons)
  qed
  then obtain us vs where r: "drop 4 s @ take 4 s = us @ s ! i # vs"
    "drop 4 (s[i := c]) @ take 4 (s[i := c]) = us @ c # vs" by blast
  have "iban_number (s[i := c]) mod 97 \<noteq> 1"
    using iban_numbers_differ [OF assms(4,5), of us vs] ok unfolding iban_number_def r by simp
  moreover have "list_all iban_text (s[i := c])"
    using assms(1,4) set_update_subset_insert [of s i c] by (auto simp: list_all_iff iban_text_def)
  ultimately show ?thesis using iban_of_compact [of "s[i := c]" e f k] ne by simp
qed

lemma iban_catches_a_wrong_character_witness:
  "iban demo_env (FJson (PStr ''GB82WEST12345698765432'')) ''iban'' None = Inr None \<and>
   iban demo_env (FJson (PStr ''GB82WEST12345698765332'')) ''iban'' None \<noteq> Inr None"
proof -
  have l: "list_all iban_text ''GB82WEST12345698765432''" by code_simp
  have t: "concat (map (\<lambda>c. nat_text (base36 c)) (drop 4 ''GB82WEST12345698765432'' @ take 4 ''GB82WEST12345698765432'')) =
      ''3214282912345698765432161182''" by code_simp
  have "digits_val ''3214282912345698765432161182'' = 3214282912345698765432161182" by (simp add: digits_val_def)
  then have "iban_number ''GB82WEST12345698765432'' mod 97 = 1" unfolding iban_number_def t by simp
  moreover have "iban_shape ''GB82WEST12345698765432''" by code_simp
  ultimately have ok: "iban demo_env (FJson (PStr ''GB82WEST12345698765432'')) ''iban'' None = Inr None"
    using iban_of_compact [OF l, of demo_env "''iban''" None] by simp
  show ?thesis
    using ok iban_catches_a_wrong_character [OF l ok, where i = 19 and c = "CHR ''3''"]
    by (simp add: iso_digit_def)
qed

end
