(* ===== verification/AgentLoop.thy ===== *)
theory AgentLoop
  imports AuditJson "HOL-Library.AList"
begin

text \<open>
  asas-agent, loop.py and seams.py: one run of an agent.  The model (the SDK's loop) issues tool
  calls; each call is a coroutine that takes its index and its place at once, waits for the calls
  it must not run beside, and then runs in its turn, where it may be suspended once, in the host's
  dispatcher or ask handler.  A step of the model is what a coroutine does between two suspensions,
  so the interleavings are those of an event loop.  A set \<open>asyncio.Event\<close> is the index of the call
  that set it; the coroutines are the frames of the state.  \<open>json.loads\<close> and the renderer's methods
  are fields of the configuration.
\<close>

subsection \<open>Releases and what the model reads\<close>

type_synonym py_dict = "(string \<times> pyval) list"

record skill =
  sk_description :: string
  sk_instructions :: string
  sk_clauses :: "string option"
  sk_tools :: "string list"

record agent_release =
  ar_id :: string
  ar_name :: string
  ar_model :: string
  ar_instructions :: string
  ar_skills :: "(string \<times> skill) list"
  ar_max_turns :: int
  ar_max_tools :: int
  ar_settings :: "py_dict option"

record tool_desc =
  td_name :: string
  td_description :: string
  td_schema :: py_dict
  td_read_only :: bool

record agent_snapshot =
  sn_release :: agent_release
  sn_tools :: "tool_desc list"
  sn_history :: "py_dict list"
  sn_active_skill :: "string option"
  sn_record :: "string option"

record renderer =
  re_always :: "string list"
  re_ask_tool :: string
  re_activate_skill :: string
  re_no_skill :: string
  re_head :: "agent_snapshot \<Rightarrow> string list"
  re_tail :: "agent_snapshot \<Rightarrow> string list"
  re_record :: "py_dict \<Rightarrow> string option"
  re_opening :: "string \<Rightarrow> py_dict list"

fun join_text :: "string \<Rightarrow> string list \<Rightarrow> string" where
  "join_text sep [] = []"
| "join_text sep [x] = x"
| "join_text sep (x # xs) = x @ sep @ join_text sep xs"

definition line_break :: string where
  "line_break = [char_of (10 :: nat)]"

definition skill_catalogue :: "(string \<times> skill) list \<Rightarrow> string" where
  "skill_catalogue skills =
     join_text line_break (map (\<lambda>(key, s). ''- '' @ key @ '': '' @ sk_description s) skills)"

definition active_words :: "(string \<times> skill) list \<Rightarrow> string option \<Rightarrow> renderer \<Rightarrow> string \<times> string" where
  "active_words skills active r =
     (case active of
        None \<Rightarrow> (re_no_skill r, [])
      | Some name \<Rightarrow>
          (case (if name = [] then None else dget skills name) of
             None \<Rightarrow> (re_no_skill r, [])
           | Some skill \<Rightarrow>
               (''Skill '' @ name @ '' is active. Follow these instructions.'' @ line_break @ line_break @
                  sk_instructions skill,
                case sk_clauses skill of None \<Rightarrow> [] | Some c \<Rightarrow> c)))"

definition instructions_for :: "agent_snapshot \<Rightarrow> string option \<Rightarrow> renderer \<Rightarrow> string" where
  "instructions_for sn active r =
     (let rel = sn_release sn; words = active_words (ar_skills rel) active r
      in join_text (line_break @ line_break)
           ([ar_instructions rel] @ re_head r sn @
            [''## Skills'' @ line_break @ skill_catalogue (ar_skills rel),
             ''## Active skill'' @ line_break @ fst words] @
            (if snd words = [] then []
             else [''## The policy clauses this skill applies'' @ line_break @ snd words]) @
            re_tail r sn))"

definition activate_name :: string where
  "activate_name = ''activate_skill''"

definition activate_skill_tool :: "renderer \<Rightarrow> tool_desc" where
  "activate_skill_tool r =
     \<lparr>td_name = activate_name, td_description = re_activate_skill r,
      td_schema = [(''type'', PStr ''object''),
        (''properties'', PDict [(''name'', PDict [(''type'', PStr ''string'')])]),
        (''required'', PList [PStr ''name'']), (''additionalProperties'', PBool False)],
      td_read_only = False\<rparr>"

definition holders :: "(string \<times> skill) list \<Rightarrow> string \<Rightarrow> string list" where
  "holders skills name = sort (map fst (filter (\<lambda>(k, s). name \<in> set (sk_tools s)) skills))"

definition described :: "agent_snapshot \<Rightarrow> renderer \<Rightarrow> tool_desc \<Rightarrow> string" where
  "described sn r d =
     (let hs = holders (ar_skills (sn_release sn)) (td_name d)
      in if td_name d \<in> set (re_always r) \<or> hs = [] then td_description d
         else ''['' @ join_text '', '' hs @ ''] '' @ td_description d)"

definition described_tools :: "agent_snapshot \<Rightarrow> renderer \<Rightarrow> tool_desc list" where
  "described_tools sn r =
     activate_skill_tool r # map (\<lambda>d. d\<lparr>td_description := described sn r d\<rparr>) (sn_tools sn)"

record model_settings =
  ms_parallel :: bool
  ms_store :: bool
  ms_include :: "string list option"

definition base_settings :: "string option \<Rightarrow> model_settings" where
  "base_settings conversation =
     (let stored = (case conversation of None \<Rightarrow> False | Some c \<Rightarrow> c \<noteq> [])
      in \<lparr>ms_parallel = True, ms_store = stored,
          ms_include = (if stored then None else Some [''reasoning.encrypted_content''])\<rparr>)"

definition configured_model :: "agent_release option \<Rightarrow> pyval" where
  "configured_model rel =
     (case rel of
        None \<Rightarrow> PNone
      | Some r \<Rightarrow>
          (case ar_settings r of
             None \<Rightarrow> PNone
           | Some d \<Rightarrow> (case dget d ''model'' of None \<Rightarrow> PNone | Some v \<Rightarrow> v)))"

definition model_settings_for ::
    "(model_settings \<Rightarrow> pyval \<Rightarrow> 'm) \<Rightarrow> (model_settings \<Rightarrow> 'm) \<Rightarrow> string option \<Rightarrow> agent_release option \<Rightarrow> 'm" where
  "model_settings_for resolve plain conversation rel =
     (let base = base_settings conversation; v = configured_model rel
      in if truthy v then resolve base v else plain base)"

subsection \<open>The state of a run\<close>

text \<open>What a tool call can raise; \<open>PyError\<close> is any exception that is not an \<open>AgentsException\<close>.\<close>

datatype run_error = AskPending | ToolBudgetExceeded | SdkError string | PyError string

datatype host_outcome = Returned py_dict | RaisedError run_error

record tool_call =
  tc_id :: string
  tc_tool :: string
  tc_arguments :: string

record trace_event =
  te_index :: nat
  te_call_id :: string
  te_name :: string
  te_before :: "string option"
  te_after :: "string option"
  te_arguments :: pyval
  te_ok :: bool
  te_code :: pyval
  te_version :: pyval

datatype turn =
    Waits "nat list"
  | Asks pyval "string option"
  | Dispatches pyval "string option"

datatype host_call =
    Asked nat string pyval
  | Dispatched nat string string pyval "string option"

datatype reply = Replied py_dict | RepliedError run_error | CallCancelled

record run_config =
  rc_skills :: "(string \<times> skill) list"
  rc_always :: "string list"
  rc_ask_tool :: string
  rc_max_tools :: int
  rc_read_only :: "string list"
  rc_record :: "py_dict \<Rightarrow> string option"
  rc_loads :: "string \<Rightarrow> run_error + pyval"

record loop_state =
  lo_active :: "string option"
  lo_calls :: nat
  lo_record :: string
  lo_trace :: "trace_event list"
  lo_alone :: "nat option"
  lo_beside :: "nat list"
  lo_set :: "nat list"
  lo_held :: "(nat \<times> trace_event option) list"
  lo_traced :: nat
  lo_sink :: "trace_event list"
  lo_frames :: "(nat \<times> tool_call \<times> turn) list"
  lo_host :: "host_call list"
  lo_replies :: "(nat \<times> reply) list"

definition config_of :: "agent_snapshot \<Rightarrow> renderer \<Rightarrow> (string \<Rightarrow> run_error + pyval) \<Rightarrow> run_config" where
  "config_of sn r loads =
     \<lparr>rc_skills = ar_skills (sn_release sn), rc_always = re_always r, rc_ask_tool = re_ask_tool r,
      rc_max_tools = ar_max_tools (sn_release sn),
      rc_read_only = map td_name (filter td_read_only (sn_tools sn)),
      rc_record = re_record r, rc_loads = loads\<rparr>"

definition run_start :: "run_config \<Rightarrow> string option \<Rightarrow> string \<Rightarrow> loop_state" where
  "run_start cfg active rec =
     \<lparr>lo_active = (case active of
                    None \<Rightarrow> None
                  | Some a \<Rightarrow> if dget (rc_skills cfg) a = None then None else Some a),
      lo_calls = 0, lo_record = rec, lo_trace = [], lo_alone = None, lo_beside = [], lo_set = [],
      lo_held = [], lo_traced = 0, lo_sink = [], lo_frames = [], lo_host = [], lo_replies = []\<rparr>"

subsection \<open>The trace\<close>

lemma length_delete_less: "map_of held k = Some e \<Longrightarrow> length (AList.delete k held) < length held"
proof -
  assume "map_of held k = Some e"
  then have "(k, e) \<in> set held" by (rule map_of_SomeD)
  then show ?thesis unfolding AList.delete_eq by (rule length_filter_less) simp
qed

function release_loop ::
    "(nat \<times> trace_event option) list \<Rightarrow> nat \<Rightarrow> trace_event list
     \<Rightarrow> (nat \<times> trace_event option) list \<times> nat \<times> trace_event list" where
  "release_loop held n out =
     (case map_of held (Suc n) of
        None \<Rightarrow> (held, n, out)
      | Some e \<Rightarrow>
          release_loop (AList.delete (Suc n) held) (Suc n)
            (case e of None \<Rightarrow> out | Some ev \<Rightarrow> out @ [ev]))"
  by pat_completeness auto

termination
  by (relation "measure (\<lambda>(held, n, out). length held)") (simp_all add: length_delete_less)

declare release_loop.simps [simp del]

definition release_trace :: "loop_state \<Rightarrow> loop_state" where
  "release_trace s =
     (let r = release_loop (lo_held s) (lo_traced s) []
      in s\<lparr>lo_held := fst r, lo_traced := fst (snd r),
            lo_trace := lo_trace s @ snd (snd r), lo_sink := lo_sink s @ snd (snd r)\<rparr>)"

definition observed :: "trace_event \<Rightarrow> loop_state \<Rightarrow> loop_state" where
  "observed ev s = release_trace (s\<lparr>lo_held := AList.update (te_index ev) (Some ev) (lo_held s)\<rparr>)"

definition ended :: "nat \<Rightarrow> loop_state \<Rightarrow> loop_state" where
  "ended i s =
     release_trace
       (s\<lparr>lo_held := (if map_of (lo_held s) i = None then AList.update i None (lo_held s)
                      else lo_held s)\<rparr>)"

text \<open>The end of a call: its coroutine returns or raises, its event is set.\<close>

definition end_call :: "nat \<Rightarrow> reply \<Rightarrow> loop_state \<Rightarrow> loop_state" where
  "end_call i r s =
     ended i (s\<lparr>lo_set := i # lo_set s, lo_frames := AList.delete i (lo_frames s),
                lo_replies := (i, r) # lo_replies s\<rparr>)"

subsection \<open>A call in its turn\<close>

definition enabled :: "run_config \<Rightarrow> string option \<Rightarrow> string \<Rightarrow> bool" where
  "enabled cfg active name =
     (name = activate_name \<or> name \<in> set (rc_always cfg) \<or>
      (case active of
         None \<Rightarrow> False
       | Some a \<Rightarrow> (case dget (rc_skills cfg) a of None \<Rightarrow> False | Some s \<Rightarrow> name \<in> set (sk_tools s))))"

definition load_arguments :: "run_config \<Rightarrow> string \<Rightarrow> run_error + pyval" where
  "load_arguments cfg text = (if text = [] then Inr (PDict []) else rc_loads cfg text)"

definition denied_result :: "run_config \<Rightarrow> string \<Rightarrow> py_dict" where
  "denied_result cfg name =
     (let hs = holders (rc_skills cfg) name
      in [(''ok'', PBool False), (''code'', PStr ''denied''),
          (''message'', PStr (name @ '' is not a tool of the active skill'' @
             (if hs = [] then ''.'' else ''; activate '' @ join_text '' or '' hs @ '' first.'')))])"

definition failed_result :: "string \<Rightarrow> string \<Rightarrow> py_dict" where
  "failed_result name error =
     [(''ok'', PBool False), (''code'', PStr ''tool_failed''),
      (''message'', PStr (name @ '' could not be run ('' @ error @
         ''); say so if it blocks you, or go on without it.''))]"

definition get_or_PNone :: "py_dict \<Rightarrow> string \<Rightarrow> pyval" where
  "get_or_PNone d k = (case dget d k of None \<Rightarrow> PNone | Some v \<Rightarrow> v)"

definition result_version :: "py_dict \<Rightarrow> pyval" where
  "result_version d =
     (case get_or_PNone d ''data'' of PDict data \<Rightarrow> get_or_PNone data ''revision'' | _ \<Rightarrow> PNone)"

definition call_event ::
    "nat \<Rightarrow> tool_call \<Rightarrow> string option \<Rightarrow> string option \<Rightarrow> pyval \<Rightarrow> bool \<Rightarrow> pyval \<Rightarrow> pyval \<Rightarrow> trace_event" where
  "call_event i c b a args ok code version =
     \<lparr>te_index = i, te_call_id = tc_id c, te_name = tc_tool c, te_before = b, te_after = a,
      te_arguments = args, te_ok = ok, te_code = code, te_version = version\<rparr>"

definition result_event ::
    "nat \<Rightarrow> tool_call \<Rightarrow> string option \<Rightarrow> string option \<Rightarrow> pyval \<Rightarrow> py_dict \<Rightarrow> trace_event" where
  "result_event i c b a args result =
     call_event i c b a args (truthy (get_or_PNone result ''ok'')) (get_or_PNone result ''code'')
       (result_version result)"

text \<open>\<open>activate_skill\<close>: the result and the skill that is active after it.\<close>

definition activate ::
    "run_config \<Rightarrow> string option \<Rightarrow> pyval \<Rightarrow> run_error + py_dict \<times> string option" where
  "activate cfg active args =
     (case args of
        PDict d \<Rightarrow>
          (case get_or_PNone d ''name'' of
             PList xs \<Rightarrow> Inl (PyError ''TypeError'')
           | PDict ds \<Rightarrow> Inl (PyError ''TypeError'')
           | v \<Rightarrow>
               (case (case v of PStr n \<Rightarrow> map_option (Pair n) (dget (rc_skills cfg) n) | _ \<Rightarrow> None) of
                  None \<Rightarrow>
                    Inr ([(''ok'', PBool False), (''code'', PStr ''unknown_skill''),
                          (''skills'', PList (map PStr (sort (map fst (rc_skills cfg)))))], active)
                | Some (n, skill) \<Rightarrow>
                    Inr ([(''ok'', PBool True), (''active_skill'', PStr n),
                          (''tools'', PList (map PStr (sort (sk_tools skill))))], Some n)))
      | _ \<Rightarrow> Inl (PyError ''AttributeError''))"

definition finish_call ::
    "nat \<Rightarrow> tool_call \<Rightarrow> string option \<Rightarrow> pyval \<Rightarrow> py_dict \<Rightarrow> loop_state \<Rightarrow> loop_state" where
  "finish_call i c b args result s =
     end_call i (Replied result) (observed (result_event i c b (lo_active s) args result) s)"

definition suspend :: "nat \<Rightarrow> tool_call \<Rightarrow> turn \<Rightarrow> host_call \<Rightarrow> loop_state \<Rightarrow> loop_state" where
  "suspend i c t h s =
     s\<lparr>lo_frames := AList.update i (c, t) (lo_frames s), lo_host := lo_host s @ [h]\<rparr>"

definition invoke_in_turn :: "run_config \<Rightarrow> nat \<Rightarrow> tool_call \<Rightarrow> loop_state \<Rightarrow> loop_state" where
  "invoke_in_turn cfg i c s =
     (let name = tc_tool c; before = lo_active s in
      case load_arguments cfg (tc_arguments c) of
        Inl e \<Rightarrow> end_call i (RepliedError e) s
      | Inr args \<Rightarrow>
          if \<not> enabled cfg before name
          then end_call i (Replied (denied_result cfg name))
                 (observed (call_event i c before before args False (PStr ''denied'') PNone) s)
          else if name = activate_name
          then (case activate cfg before args of
                  Inl e \<Rightarrow> end_call i (RepliedError e) s
                | Inr (result, active) \<Rightarrow> finish_call i c before args result (s\<lparr>lo_active := active\<rparr>))
          else if name = rc_ask_tool cfg
          then suspend i c (Asks args before) (Asked i (tc_id c) args) s
          else suspend i c (Dispatches args before) (Dispatched i (tc_id c) name args before) s)"

text \<open>The handler's answer, or the dispatcher's.\<close>

definition keep_record :: "run_config \<Rightarrow> py_dict \<Rightarrow> loop_state \<Rightarrow> loop_state" where
  "keep_record cfg result s =
     (case rc_record cfg result of
        None \<Rightarrow> s
      | Some r \<Rightarrow> if r = [] then s else s\<lparr>lo_record := r\<rparr>)"

definition asked ::
    "nat \<Rightarrow> tool_call \<Rightarrow> pyval \<Rightarrow> string option \<Rightarrow> host_outcome \<Rightarrow> loop_state \<Rightarrow> loop_state" where
  "asked i c args before out s =
     (case out of
        Returned result \<Rightarrow> finish_call i c before args result s
      | RaisedError AskPending \<Rightarrow>
          end_call i (RepliedError AskPending)
            (observed (call_event i c before (lo_active s) args True (PStr ''asked'') PNone) s)
      | RaisedError e \<Rightarrow> end_call i (RepliedError e) s)"

definition dispatched ::
    "run_config \<Rightarrow> nat \<Rightarrow> tool_call \<Rightarrow> pyval \<Rightarrow> string option \<Rightarrow> host_outcome \<Rightarrow> loop_state \<Rightarrow> loop_state" where
  "dispatched cfg i c args before out s =
     (case out of
        Returned result \<Rightarrow> finish_call i c before args result (keep_record cfg result s)
      | RaisedError (PyError error) \<Rightarrow>
          (let result = failed_result (tc_tool c) error
           in finish_call i c before args result (keep_record cfg result s))
      | RaisedError e \<Rightarrow> end_call i (RepliedError e) s)"

subsection \<open>Steps\<close>

text \<open>
  \<open>Begin\<close>: the SDK starts the coroutine of a call, which takes its index and its place before it
  awaits anything.  \<open>Enter\<close>: the events it waits for are set.  \<open>Answer\<close>: the handler or the
  dispatcher it is suspended in returns or raises.  \<open>Cancel\<close> and \<open>Abandon\<close>: the SDK cancels a call
  in its turn, or one that still waits.
\<close>

datatype loop_event =
    Begin tool_call
  | Enter nat
  | Answer nat host_outcome
  | Cancel nat
  | Abandon nat

definition waits_for :: "loop_state \<Rightarrow> nat list" where
  "waits_for s = (case lo_alone s of None \<Rightarrow> [] | Some a \<Rightarrow> [a])"

definition begin_call :: "run_config \<Rightarrow> tool_call \<Rightarrow> loop_state \<Rightarrow> loop_state" where
  "begin_call cfg c s =
     (let i = Suc (lo_calls s);
          beside = filter (\<lambda>j. j \<notin> set (lo_set s)) (lo_beside s);
          waits = (if tc_tool c \<in> set (rc_read_only cfg) then waits_for s
                   else waits_for s @ lo_beside s);
          s = (if tc_tool c \<in> set (rc_read_only cfg)
               then s\<lparr>lo_calls := i, lo_beside := beside @ [i]\<rparr>
               else s\<lparr>lo_calls := i, lo_alone := Some i, lo_beside := []\<rparr>)
      in if rc_max_tools cfg < int i then end_call i (RepliedError ToolBudgetExceeded) s
         else s\<lparr>lo_frames := AList.update i (c, Waits waits) (lo_frames s)\<rparr>)"

definition loop_step :: "run_config \<Rightarrow> loop_event \<Rightarrow> loop_state \<Rightarrow> loop_state option" where
  "loop_step cfg ev s =
     (case ev of
        Begin c \<Rightarrow> Some (begin_call cfg c s)
      | Enter i \<Rightarrow>
          (case map_of (lo_frames s) i of
             Some (c, Waits ws) \<Rightarrow>
               if set ws \<subseteq> set (lo_set s) then Some (invoke_in_turn cfg i c s) else None
           | _ \<Rightarrow> None)
      | Answer i out \<Rightarrow>
          (case map_of (lo_frames s) i of
             Some (c, Asks args before) \<Rightarrow> Some (asked i c args before out s)
           | Some (c, Dispatches args before) \<Rightarrow> Some (dispatched cfg i c args before out s)
           | _ \<Rightarrow> None)
      | Cancel i \<Rightarrow>
          (case map_of (lo_frames s) i of
             Some (c, Waits ws) \<Rightarrow> None
           | Some _ \<Rightarrow> Some (end_call i CallCancelled s)
           | None \<Rightarrow> None)
      | Abandon i \<Rightarrow>
          (case map_of (lo_frames s) i of
             Some (c, Waits ws) \<Rightarrow> Some (end_call i CallCancelled s)
           | _ \<Rightarrow> None))"

fun loop_run :: "run_config \<Rightarrow> loop_event list \<Rightarrow> loop_state \<Rightarrow> loop_state option" where
  "loop_run cfg [] s = Some s"
| "loop_run cfg (ev # evs) s = Option.bind (loop_step cfg ev s) (loop_run cfg evs)"

subsection \<open>The result of a run\<close>

record run_result =
  rr_answer :: string
  rr_history :: "py_dict list"
  rr_active_skill :: "string option"
  rr_tool_trace :: "trace_event list"
  rr_record :: string
  rr_usage :: "(string \<times> int) list \<times> (string \<times> int) list list"
  rr_ended :: string
  rr_output :: "pyval option"

definition token_keys :: "string list" where
  "token_keys = [''input_tokens'', ''cached_tokens'', ''output_tokens'', ''reasoning_tokens'']"

text \<open>The usage objects of a provider, \<open>None\<close> where an attribute is missing, null or zero.\<close>

record provider_usage =
  pu_input :: "int option"
  pu_cached :: "int option"
  pu_output :: "int option"
  pu_reasoning :: "int option"

definition int_or_zero :: "int option \<Rightarrow> int" where
  "int_or_zero v = (case v of None \<Rightarrow> 0 | Some n \<Rightarrow> n)"

definition usage_of :: "provider_usage option \<Rightarrow> (string \<times> int) list" where
  "usage_of u =
     (case u of
        None \<Rightarrow> map (\<lambda>k. (k, 0)) token_keys
      | Some p \<Rightarrow> [(''input_tokens'', int_or_zero (pu_input p)), (''cached_tokens'', int_or_zero (pu_cached p)),
                   (''output_tokens'', int_or_zero (pu_output p)),
                   (''reasoning_tokens'', int_or_zero (pu_reasoning p))])"

definition run_usage :: "provider_usage option list \<Rightarrow> (string \<times> int) list \<times> (string \<times> int) list list" where
  "run_usage responses =
     (let calls = map usage_of responses
      in ((''model_calls'', int (length calls)) #
          map (\<lambda>k. (k, sum_list (map (\<lambda>c. the (dget c k)) calls))) token_keys, calls))"

definition empty_usage :: "(string \<times> int) list \<times> (string \<times> int) list list" where
  "empty_usage =
     ([(''model_calls'', 0), (''input_tokens'', 0), (''cached_tokens'', 0), (''output_tokens'', 0),
       (''reasoning_tokens'', 0)], [])"

text \<open>How the SDK's runner ended: with its final output and items, or with an exception.\<close>

datatype runner_end = Final pyval "py_dict list" "provider_usage option list" | RunnerRaised run_error

definition run_input :: "agent_snapshot \<Rightarrow> renderer \<Rightarrow> loop_state \<Rightarrow> py_dict list" where
  "run_input sn r s = re_opening r (lo_record s) @ sn_history sn"

definition run_agent_result :: "bool \<Rightarrow> loop_state \<Rightarrow> runner_end \<Rightarrow> run_error + run_result" where
  "run_agent_result typed s e =
     (case e of
        RunnerRaised AskPending \<Rightarrow>
          Inr \<lparr>rr_answer = [], rr_history = [], rr_active_skill = lo_active s, rr_tool_trace = lo_trace s,
               rr_record = lo_record s, rr_usage = empty_usage, rr_ended = ''asked'', rr_output = None\<rparr>
      | RunnerRaised x \<Rightarrow> Inl x
      | Final out items responses \<Rightarrow>
          Inr \<lparr>rr_answer = (case out of PStr t \<Rightarrow> py_strip t | _ \<Rightarrow> []), rr_history = items,
               rr_active_skill = lo_active s, rr_tool_trace = lo_trace s, rr_record = lo_record s,
               rr_usage = run_usage responses, rr_ended = ''answered'',
               rr_output = (if typed then Some out else None)\<rparr>)"

end
