(* ===== verification/AgentTurns.thy ===== *)
theory AgentTurns
  imports AgentLoop
begin

text \<open>
  The order of the calls of a run: who waits for whom, who may be in its turn beside whom, and what
  the trace says, as invariants of \<open>loop_run\<close>.
\<close>

subsection \<open>What an operation leaves alone\<close>

lemma release_trace_keeps [simp]:
  "lo_active (release_trace s) = lo_active s" "lo_calls (release_trace s) = lo_calls s"
  "lo_record (release_trace s) = lo_record s" "lo_alone (release_trace s) = lo_alone s"
  "lo_beside (release_trace s) = lo_beside s" "lo_set (release_trace s) = lo_set s"
  "lo_frames (release_trace s) = lo_frames s" "lo_host (release_trace s) = lo_host s"
  "lo_replies (release_trace s) = lo_replies s"
  by (simp_all add: release_trace_def Let_def)

lemma observed_keeps [simp]:
  "lo_active (observed e s) = lo_active s" "lo_calls (observed e s) = lo_calls s"
  "lo_record (observed e s) = lo_record s" "lo_alone (observed e s) = lo_alone s"
  "lo_beside (observed e s) = lo_beside s" "lo_set (observed e s) = lo_set s"
  "lo_frames (observed e s) = lo_frames s" "lo_host (observed e s) = lo_host s"
  "lo_replies (observed e s) = lo_replies s"
  by (simp_all add: observed_def)

lemma end_call_keeps [simp]:
  "lo_active (end_call i r s) = lo_active s" "lo_calls (end_call i r s) = lo_calls s"
  "lo_record (end_call i r s) = lo_record s" "lo_alone (end_call i r s) = lo_alone s"
  "lo_beside (end_call i r s) = lo_beside s" "lo_host (end_call i r s) = lo_host s"
  "lo_set (end_call i r s) = i # lo_set s" "lo_frames (end_call i r s) = AList.delete i (lo_frames s)"
  by (simp_all add: end_call_def ended_def)

lemma keep_record_keeps [simp]:
  "lo_active (keep_record cfg d s) = lo_active s" "lo_calls (keep_record cfg d s) = lo_calls s"
  "lo_alone (keep_record cfg d s) = lo_alone s" "lo_beside (keep_record cfg d s) = lo_beside s"
  "lo_set (keep_record cfg d s) = lo_set s" "lo_frames (keep_record cfg d s) = lo_frames s"
  "lo_host (keep_record cfg d s) = lo_host s" "lo_held (keep_record cfg d s) = lo_held s"
  "lo_traced (keep_record cfg d s) = lo_traced s" "lo_trace (keep_record cfg d s) = lo_trace s"
  "lo_sink (keep_record cfg d s) = lo_sink s"
  by (simp_all add: keep_record_def split: option.splits)

subsection \<open>The control part of a step\<close>

text \<open>
  Who has begun, who has ended and who is where: a call ends, or is suspended in its turn, and
  nothing else of the control part changes.
\<close>

definition call_ends :: "nat \<Rightarrow> loop_state \<Rightarrow> loop_state \<Rightarrow> bool" where
  "call_ends i s t =
     (lo_calls t = lo_calls s \<and> lo_alone t = lo_alone s \<and> lo_beside t = lo_beside s \<and>
      lo_set t = i # lo_set s \<and> lo_frames t = AList.delete i (lo_frames s) \<and> lo_host t = lo_host s)"

definition call_suspends :: "nat \<Rightarrow> tool_call \<Rightarrow> loop_state \<Rightarrow> loop_state \<Rightarrow> bool" where
  "call_suspends i c s t =
     (lo_calls t = lo_calls s \<and> lo_alone t = lo_alone s \<and> lo_beside t = lo_beside s \<and>
      lo_set t = lo_set s \<and>
      (\<exists>u h. (\<forall>ws. u \<noteq> Waits ws) \<and> lo_frames t = AList.update i (c, u) (lo_frames s) \<and>
             lo_host t = lo_host s @ [h]))"

lemma ends_end_call:
  "lo_calls s' = lo_calls s \<Longrightarrow> lo_alone s' = lo_alone s \<Longrightarrow> lo_beside s' = lo_beside s \<Longrightarrow>
   lo_set s' = lo_set s \<Longrightarrow> lo_frames s' = lo_frames s \<Longrightarrow> lo_host s' = lo_host s \<Longrightarrow>
   call_ends i s (end_call i r s')"
  by (simp add: call_ends_def)

lemma ends_finish:
  "lo_calls s' = lo_calls s \<Longrightarrow> lo_alone s' = lo_alone s \<Longrightarrow> lo_beside s' = lo_beside s \<Longrightarrow>
   lo_set s' = lo_set s \<Longrightarrow> lo_frames s' = lo_frames s \<Longrightarrow> lo_host s' = lo_host s \<Longrightarrow>
   call_ends i s (finish_call i c b a d s')"
  by (simp add: finish_call_def ends_end_call)

lemma invoke_control:
  "call_ends i s (invoke_in_turn cfg i c s) \<or> call_suspends i c s (invoke_in_turn cfg i c s)"
proof (cases "load_arguments cfg (tc_arguments c)")
  case (Inl e)
  then show ?thesis by (simp add: invoke_in_turn_def ends_end_call)
next
  case (Inr args)
  have "call_suspends i c s (suspend i c t h s)" if "\<forall>ws. t \<noteq> Waits ws" for t h
    using that by (auto simp: suspend_def call_suspends_def)
  then show ?thesis using Inr
    by (auto simp: invoke_in_turn_def Let_def ends_end_call ends_finish split: sum.splits)
qed

lemma asked_ends: "call_ends i s (asked i c args b out s)"
  by (auto simp: asked_def ends_end_call ends_finish split: host_outcome.splits run_error.splits)

lemma dispatched_ends: "call_ends i s (dispatched cfg i c args b out s)"
  by (auto simp: dispatched_def Let_def ends_end_call ends_finish split: host_outcome.splits run_error.splits)

text \<open>The steps, by what they do to the control part.\<close>

lemma loop_step_cases [consumes 1, case_names Begin Enter End]:
  assumes "loop_step cfg ev s = Some t"
  obtains (Begin) c where "ev = Begin c" "t = begin_call cfg c s"
    | (Enter) i c ws where "ev = Enter i" "map_of (lo_frames s) i = Some (c, Waits ws)"
        "set ws \<subseteq> set (lo_set s)" "t = invoke_in_turn cfg i c s"
        "call_ends i s t \<or> call_suspends i c s t"
    | (End) i c u where "(\<exists>out. ev = Answer i out) \<or> ev = Cancel i \<or> ev = Abandon i"
        "map_of (lo_frames s) i = Some (c, u)" "(\<exists>ws. u = Waits ws) \<longleftrightarrow> ev = Abandon i" "call_ends i s t"
proof (cases ev)
  case (Begin c)
  with assms show ?thesis by (intro that(1)) (auto simp: loop_step_def)
next
  case (Enter i)
  with assms obtain c ws where "map_of (lo_frames s) i = Some (c, Waits ws)" "set ws \<subseteq> set (lo_set s)"
    "t = invoke_in_turn cfg i c s"
    by (auto simp: loop_step_def split: option.splits turn.splits if_splits)
  then show ?thesis using Enter invoke_control [of i s cfg c] by (intro that(2)) auto
next
  case (Answer i out)
  with assms obtain c u where "map_of (lo_frames s) i = Some (c, u)" "\<forall>ws. u \<noteq> Waits ws" "call_ends i s t"
    by (auto simp: loop_step_def asked_ends dispatched_ends split: option.splits turn.splits)
  then show ?thesis using Answer by (intro that(3)) auto
next
  case (Cancel i)
  with assms obtain c u where "map_of (lo_frames s) i = Some (c, u)" "\<forall>ws. u \<noteq> Waits ws" "call_ends i s t"
    by (auto simp: loop_step_def ends_end_call split: option.splits turn.splits)
  then show ?thesis using Cancel by (intro that(3)) auto
next
  case (Abandon i)
  with assms obtain c ws where "map_of (lo_frames s) i = Some (c, Waits ws)" "call_ends i s t"
    by (auto simp: loop_step_def ends_end_call split: option.splits turn.splits)
  then show ?thesis using Abandon by (intro that(3)) auto
qed

subsection \<open>Who waits for whom\<close>

definition nth_call :: "tool_call list \<Rightarrow> nat \<Rightarrow> tool_call" where
  "nth_call cs i = cs ! (i - 1)"

definition changes_record :: "run_config \<Rightarrow> tool_call list \<Rightarrow> nat \<Rightarrow> bool" where
  "changes_record cfg cs i = (tc_tool (nth_call cs i) \<notin> set (rc_read_only cfg))"

definition in_turn :: "loop_state \<Rightarrow> nat \<Rightarrow> bool" where
  "in_turn s i = (\<exists>c u. map_of (lo_frames s) i = Some (c, u) \<and> (\<forall>ws. u \<noteq> Waits ws))"

lemma nth_call_append [simp]:
  "1 \<le> i \<Longrightarrow> i \<le> length cs \<Longrightarrow> nth_call (cs @ ds) i = nth_call cs i"
  "nth_call (cs @ [c]) (Suc (length cs)) = c"
  by (auto simp: nth_call_def nth_append)

lemma writer_append [simp]:
  "1 \<le> i \<Longrightarrow> i \<le> length cs \<Longrightarrow> changes_record cfg (cs @ ds) i = changes_record cfg cs i"
  "changes_record cfg (cs @ [c]) (Suc (length cs)) = (tc_tool c \<notin> set (rc_read_only cfg))"
  by (simp_all add: changes_record_def)

text \<open>Where every call is: ended, or in a frame of its own.\<close>

definition placed :: "run_config \<Rightarrow> tool_call list \<Rightarrow> loop_state \<Rightarrow> bool" where
  "placed cfg cs s =
     (lo_calls s = length cs \<and>
      (\<forall>i. i \<in> set (lo_set s) \<longleftrightarrow> 1 \<le> i \<and> i \<le> length cs \<and> map_of (lo_frames s) i = None) \<and>
      (\<forall>i c u. map_of (lo_frames s) i = Some (c, u) \<longrightarrow>
         1 \<le> i \<and> i \<le> length cs \<and> c = nth_call cs i \<and> int i \<le> rc_max_tools cfg))"

lemma placedD:
  assumes "placed cfg cs s"
  shows "lo_calls s = length cs"
    and "i \<in> set (lo_set s) \<longleftrightarrow> 1 \<le> i \<and> i \<le> length cs \<and> map_of (lo_frames s) i = None"
    and "map_of (lo_frames s) i = Some (c, u) \<Longrightarrow>
           1 \<le> i \<and> i \<le> length cs \<and> c = nth_call cs i \<and> int i \<le> rc_max_tools cfg"
  using assms unfolding placed_def by blast+

text \<open>What a call that begins next would wait for, and what the waiting calls wait for.\<close>

definition covered :: "run_config \<Rightarrow> tool_call list \<Rightarrow> loop_state \<Rightarrow> bool" where
  "covered cfg cs s =
     (let before_alone = (\<lambda>j. \<exists>a. lo_alone s = Some a \<and> j \<le> a); calls = {1..length cs} in
      (\<forall>j\<in>calls. changes_record cfg cs j \<longrightarrow> before_alone j) \<and>
      (\<forall>a. lo_alone s = Some a \<longrightarrow> a \<in> calls \<and> changes_record cfg cs a) \<and>
      (\<forall>j\<in>calls. j \<in> set (lo_set s) \<or> j \<in> set (lo_beside s) \<or> before_alone j) \<and>
      set (lo_beside s) \<subseteq> calls)"

definition must_follow :: "run_config \<Rightarrow> tool_call list \<Rightarrow> nat \<Rightarrow> nat \<Rightarrow> bool" where
  "must_follow cfg cs j i = (1 \<le> j \<and> j < i \<and> (changes_record cfg cs j \<or> changes_record cfg cs i))"

definition waiting_covered :: "run_config \<Rightarrow> tool_call list \<Rightarrow> loop_state \<Rightarrow> bool" where
  "waiting_covered cfg cs s =
     (\<forall>i c ws. map_of (lo_frames s) i = Some (c, Waits ws) \<longrightarrow>
        set ws \<subseteq> {1..<i} \<and>
        (\<forall>j. must_follow cfg cs j i \<longrightarrow>
           j \<in> set (lo_set s) \<or> j \<in> set ws \<or> (\<exists>a\<in>set ws. j < a \<and> changes_record cfg cs a)))"

text \<open>A call that has had its turn, or has it, had every call it must not run beside behind it.\<close>

definition ordered :: "run_config \<Rightarrow> tool_call list \<Rightarrow> loop_state \<Rightarrow> bool" where
  "ordered cfg cs s =
     (\<forall>i j. (in_turn s i \<or> i \<in> set (lo_set s) \<and> int i \<le> rc_max_tools cfg) \<and> must_follow cfg cs j i
            \<longrightarrow> j \<in> set (lo_set s))"

definition calls_begun :: "loop_event list \<Rightarrow> tool_call list" where
  "calls_begun evs = concat (map (\<lambda>ev. case ev of Begin c \<Rightarrow> [c] | _ \<Rightarrow> []) evs)"

lemma calls_begun_simps [simp]:
  "calls_begun [] = []" "calls_begun (evs @ evs') = calls_begun evs @ calls_begun evs'"
  "calls_begun [ev] = (case ev of Begin c \<Rightarrow> [c] | _ \<Rightarrow> [])"
  by (simp_all add: calls_begun_def)

lemma loop_run_snoc:
  "loop_run cfg (evs @ [ev]) s = Option.bind (loop_run cfg evs s) (loop_step cfg ev)"
  by (induction evs arbitrary: s) (auto simp: Option.bind_assoc split: bind_splits)

subsection \<open>The invariants are kept\<close>

lemma begin_keeps [simp]:
  "lo_calls (begin_call cfg c s) = Suc (lo_calls s)"
  "lo_set (begin_call cfg c s) =
     (if rc_max_tools cfg < int (Suc (lo_calls s)) then Suc (lo_calls s) # lo_set s else lo_set s)"
  "lo_alone (begin_call cfg c s) =
     (if tc_tool c \<in> set (rc_read_only cfg) then lo_alone s else Some (Suc (lo_calls s)))"
  "lo_beside (begin_call cfg c s) =
     (if tc_tool c \<in> set (rc_read_only cfg)
      then filter (\<lambda>j. j \<notin> set (lo_set s)) (lo_beside s) @ [Suc (lo_calls s)] else [])"
  "lo_host (begin_call cfg c s) = lo_host s" "lo_active (begin_call cfg c s) = lo_active s"
  by (simp_all add: begin_call_def Let_def)

lemma begin_frames:
  "map_of (lo_frames (begin_call cfg c s)) =
     (if rc_max_tools cfg < int (Suc (lo_calls s)) then (map_of (lo_frames s))(Suc (lo_calls s) := None)
      else (map_of (lo_frames s))(Suc (lo_calls s) \<mapsto>
        (c, Waits (if tc_tool c \<in> set (rc_read_only cfg) then waits_for s
                   else waits_for s @ lo_beside s))))"
  by (simp add: begin_call_def Let_def AList.update_conv' AList.delete_conv')

lemma placed_new: "placed cfg cs s \<Longrightarrow> map_of (lo_frames s) (Suc (length cs)) = None"
  by (cases "map_of (lo_frames s) (Suc (length cs))") (auto dest: placedD(3))

lemma placed_begin:
  assumes "placed cfg cs s"
  shows "placed cfg (cs @ [c]) (begin_call cfg c s)"
proof -
  note D = placedD [OF assms]
  have "nth_call (cs @ [c]) i = nth_call cs i" if "1 \<le> i \<and> i \<le> length cs" for i using that by simp
  moreover have "1 \<le> i \<and> i \<le> Suc (length cs) \<longleftrightarrow> 1 \<le> i \<and> i \<le> length cs \<or> i = Suc (length cs)" for i by auto
  ultimately show ?thesis unfolding placed_def begin_frames
    using D(1) D(2) D(3) placed_new [OF assms] by (simp del: nth_call_append(1)) fastforce
qed

lemma placed_ends:
  assumes "placed cfg cs s" and "call_ends i s t" and "map_of (lo_frames s) i \<noteq> None"
  shows "placed cfg cs t"
proof -
  from assms(2) have t: "lo_calls t = lo_calls s" "lo_set t = i # lo_set s"
    "map_of (lo_frames t) = (map_of (lo_frames s))(i := None)"
    by (simp_all add: call_ends_def AList.delete_conv')
  note D = placedD [OF assms(1)]
  from assms(3) D(3) have "1 \<le> i \<and> i \<le> length cs" by fastforce
  then show ?thesis unfolding placed_def t using D by auto
qed

lemma placed_suspends:
  assumes "placed cfg cs s" and "call_suspends i c s t" and "map_of (lo_frames s) i = Some (c, u)"
  shows "placed cfg cs t"
proof -
  from assms(2) obtain u' where t: "map_of (lo_frames t) = (map_of (lo_frames s))(i \<mapsto> (c, u'))"
    "lo_set t = lo_set s" "lo_calls t = lo_calls s"
    by (auto simp: call_suspends_def AList.update_conv')
  note D = placedD [OF assms(1)]
  show ?thesis unfolding placed_def t using D assms(3) by auto
qed

lemma calls_snoc: "{1..length (cs @ [c])} = insert (Suc (length cs)) {1..length cs}"
  by auto

lemma writer_snoc: "j \<in> {1..length cs} \<Longrightarrow> changes_record cfg (cs @ [c]) j = changes_record cfg cs j"
  by simp

lemma covered_begin:
  assumes "covered cfg cs s" and "lo_calls s = length cs"
  shows "covered cfg (cs @ [c]) (begin_call cfg c s)"
proof (cases "tc_tool c \<in> set (rc_read_only cfg)")
  case True
  with assms show ?thesis
    unfolding covered_def Let_def calls_snoc by (auto simp: writer_snoc)
next
  case False
  with assms show ?thesis
    unfolding covered_def Let_def calls_snoc by (auto simp: writer_snoc)
qed

lemma covered_more:
  assumes "covered cfg cs s" and "lo_alone t = lo_alone s" "lo_beside t = lo_beside s"
    and "set (lo_set s) \<subseteq> set (lo_set t)"
  shows "covered cfg cs t"
  using assms(1,4) unfolding covered_def Let_def assms(2,3) by blast

lemma must_follow_snoc:
  "i \<le> length cs \<Longrightarrow> must_follow cfg (cs @ [c]) j i = must_follow cfg cs j i"
  by (auto simp: must_follow_def)

lemma waiting_begin:
  assumes p: "placed cfg cs s" and cov: "covered cfg cs s" and w: "waiting_covered cfg cs s"
  shows "waiting_covered cfg (cs @ [c]) (begin_call cfg c s)"
  unfolding waiting_covered_def
proof (intro allI impI)
  fix i c' ws
  assume f: "map_of (lo_frames (begin_call cfg c s)) i = Some (c', Waits ws)"
  note calls = placedD(1) [OF p]
  show "set ws \<subseteq> {1..<i} \<and>
      (\<forall>j. must_follow cfg (cs @ [c]) j i \<longrightarrow> j \<in> set (lo_set (begin_call cfg c s)) \<or> j \<in> set ws \<or>
        (\<exists>a\<in>set ws. j < a \<and> changes_record cfg (cs @ [c]) a))"
  proof (cases "i = Suc (length cs)")
    case False
    with f calls have old: "map_of (lo_frames s) i = Some (c', Waits ws)"
      by (auto simp: begin_frames split: if_splits)
    with placedD(3) [OF p] have i: "i \<le> length cs" by blast
    from w old have W: "set ws \<subseteq> {1..<i}" "\<And>j. must_follow cfg cs j i \<Longrightarrow>
        j \<in> set (lo_set s) \<or> j \<in> set ws \<or> (\<exists>a\<in>set ws. j < a \<and> changes_record cfg cs a)"
      unfolding waiting_covered_def by blast+
    have "changes_record cfg (cs @ [c]) a = changes_record cfg cs a" if "a \<in> set ws" for a
      using that W(1) i by (intro writer_append(1)) auto
    with W show ?thesis by (auto simp: must_follow_snoc [OF i])
  next
    case True
    with f calls have ws: "ws = (if tc_tool c \<in> set (rc_read_only cfg) then waits_for s
        else waits_for s @ lo_beside s)"
      by (auto simp: begin_frames split: if_splits)
    have alone: "a \<in> {1..length cs}" "changes_record cfg cs a" if "lo_alone s = Some a" for a
      using that cov unfolding covered_def Let_def by blast+
    have "set (lo_beside s) \<subseteq> {1..length cs}" using cov unfolding covered_def Let_def by blast
    moreover have "set (waits_for s) \<subseteq> {1..length cs}"
      using alone(1) by (cases "lo_alone s") (simp_all add: waits_for_def)
    ultimately have "set ws \<subseteq> {1..length cs}" by (simp add: ws)
    then have "set ws \<subseteq> {1..<i}" using True by auto
    moreover have "j \<in> set (lo_set (begin_call cfg c s)) \<or> j \<in> set ws \<or>
        (\<exists>a\<in>set ws. j < a \<and> changes_record cfg (cs @ [c]) a)" if j: "must_follow cfg (cs @ [c]) j i" for j
    proof (cases "\<exists>a. lo_alone s = Some a \<and> j \<le> a")
      case True
      then obtain a where a: "lo_alone s = Some a" "j \<le> a" by blast
      then have "a \<in> set ws" by (simp add: ws waits_for_def)
      moreover have "changes_record cfg (cs @ [c]) a" using alone [OF a(1)] writer_snoc by blast
      ultimately show ?thesis using a(2) by (cases "j = a") auto
    next
      case False
      from j True have jn: "j \<in> {1..length cs}" by (auto simp: must_follow_def)
      with cov False have "\<not> changes_record cfg cs j" and place: "j \<in> set (lo_set s) \<or> j \<in> set (lo_beside s)"
        unfolding covered_def Let_def by blast+
      with j jn True have "tc_tool c \<notin> set (rc_read_only cfg)"
        unfolding must_follow_def by (auto simp: writer_snoc)
      with place show ?thesis by (auto simp: ws)
    qed
    ultimately show ?thesis by blast
  qed
qed

lemma entering:
  assumes p: "placed cfg cs s" and w: "waiting_covered cfg cs s" and o: "ordered cfg cs s"
    and f: "map_of (lo_frames s) i = Some (c, Waits ws)" and ready: "set ws \<subseteq> set (lo_set s)"
    and j: "must_follow cfg cs j i"
  shows "j \<in> set (lo_set s)"
proof -
  from w f j have "set ws \<subseteq> {1..<i}"
    and "j \<in> set (lo_set s) \<or> j \<in> set ws \<or> (\<exists>a\<in>set ws. j < a \<and> changes_record cfg cs a)"
    unfolding waiting_covered_def by blast+
  then consider "j \<in> set (lo_set s)" | a where "a \<in> set ws" "j < a" "changes_record cfg cs a" "a < i"
    using ready by auto
  then show ?thesis
  proof cases
    case 2
    have "int i \<le> rc_max_tools cfg" using placedD(3) [OF p f] by blast
    with 2 ready have "a \<in> set (lo_set s) \<and> int a \<le> rc_max_tools cfg" by auto
    moreover have "must_follow cfg cs j a" using 2 j by (simp add: must_follow_def)
    ultimately show ?thesis using o unfolding ordered_def by blast
  qed
qed

definition turns_ok :: "run_config \<Rightarrow> tool_call list \<Rightarrow> loop_state \<Rightarrow> bool" where
  "turns_ok cfg cs s =
     (placed cfg cs s \<and> covered cfg cs s \<and> waiting_covered cfg cs s \<and> ordered cfg cs s)"

lemma turns_ok_start: "turns_ok cfg [] (run_start cfg a r)"
  by (simp add: turns_ok_def placed_def covered_def waiting_covered_def ordered_def run_start_def
      in_turn_def Let_def)

lemma turns_ok_begin:
  assumes "turns_ok cfg cs s"
  shows "turns_ok cfg (cs @ [c]) (begin_call cfg c s)"
proof -
  from assms have p: "placed cfg cs s" and cov: "covered cfg cs s" and w: "waiting_covered cfg cs s"
    and o: "ordered cfg cs s" by (simp_all add: turns_ok_def)
  note calls = placedD(1) [OF p]
  have "ordered cfg (cs @ [c]) (begin_call cfg c s)" unfolding ordered_def
  proof (intro allI impI)
    fix i j
    assume a: "(in_turn (begin_call cfg c s) i \<or> i \<in> set (lo_set (begin_call cfg c s)) \<and>
        int i \<le> rc_max_tools cfg) \<and> must_follow cfg (cs @ [c]) j i"
    have "in_turn s i \<or> i \<in> set (lo_set s) \<and> int i \<le> rc_max_tools cfg"
      using a calls by (auto simp: in_turn_def begin_frames split: if_splits)
    moreover then have "i \<le> length cs"
      using placedD(2,3) [OF p] by (auto simp: in_turn_def)
    ultimately show "j \<in> set (lo_set (begin_call cfg c s))"
      using a o must_follow_snoc unfolding ordered_def by auto
  qed
  then show ?thesis
    using placed_begin [OF p] covered_begin [OF cov calls] waiting_begin [OF p cov w]
    by (simp add: turns_ok_def)
qed

lemma turns_ok_ends:
  assumes "turns_ok cfg cs s" and e: "call_ends i s t" and f: "map_of (lo_frames s) i \<noteq> None"
    and ready: "\<And>j. must_follow cfg cs j i \<Longrightarrow> j \<in> set (lo_set s)"
  shows "turns_ok cfg cs t"
proof -
  from assms(1) have p: "placed cfg cs s" and cov: "covered cfg cs s" and w: "waiting_covered cfg cs s"
    and o: "ordered cfg cs s" by (simp_all add: turns_ok_def)
  from e have t: "lo_alone t = lo_alone s" "lo_beside t = lo_beside s" "set (lo_set t) = insert i (set (lo_set s))"
    "map_of (lo_frames t) = (map_of (lo_frames s))(i := None)"
    by (simp_all add: call_ends_def AList.delete_conv')
  have "waiting_covered cfg cs t" using w unfolding waiting_covered_def t by (auto split: if_splits)
  moreover have "ordered cfg cs t" using o ready unfolding ordered_def in_turn_def t
    by (auto split: if_splits)
  moreover have "covered cfg cs t" using covered_more [OF cov t(1,2)] t(3) by auto
  ultimately show ?thesis using placed_ends [OF p e f] by (simp add: turns_ok_def)
qed

lemma turns_ok_suspends:
  assumes "turns_ok cfg cs s" and e: "call_suspends i c s t" and f: "map_of (lo_frames s) i = Some (c, u)"
    and ready: "\<And>j. must_follow cfg cs j i \<Longrightarrow> j \<in> set (lo_set s)"
  shows "turns_ok cfg cs t"
proof -
  from assms(1) have p: "placed cfg cs s" and cov: "covered cfg cs s" and w: "waiting_covered cfg cs s"
    and o: "ordered cfg cs s" by (simp_all add: turns_ok_def)
  from e obtain u' where u': "\<forall>ws. u' \<noteq> Waits ws" and t: "lo_alone t = lo_alone s"
    "lo_beside t = lo_beside s" "lo_set t = lo_set s"
    "map_of (lo_frames t) = (map_of (lo_frames s))(i \<mapsto> (c, u'))"
    by (auto simp: call_suspends_def AList.update_conv')
  have "waiting_covered cfg cs t" using w u' unfolding waiting_covered_def t by (auto split: if_splits)
  moreover have "ordered cfg cs t" unfolding ordered_def
  proof (intro allI impI)
    fix k j assume a: "(in_turn t k \<or> k \<in> set (lo_set t) \<and> int k \<le> rc_max_tools cfg) \<and> must_follow cfg cs j k"
    show "j \<in> set (lo_set t)"
    proof (cases "k = i")
      case True with a ready show ?thesis by (simp add: t)
    next
      case False
      with a have "in_turn s k \<or> k \<in> set (lo_set s) \<and> int k \<le> rc_max_tools cfg"
        by (auto simp: in_turn_def t)
      with a o show ?thesis unfolding ordered_def t by blast
    qed
  qed
  moreover have "covered cfg cs t" using covered_more [OF cov t(1,2)] t(3) by auto
  ultimately show ?thesis using placed_suspends [OF p e f] by (simp add: turns_ok_def)
qed

lemma turns_ok_step:
  assumes ok: "turns_ok cfg cs s" and step: "loop_step cfg ev s = Some t" and na: "\<forall>i. ev \<noteq> Abandon i"
  shows "turns_ok cfg (cs @ calls_begun [ev]) t"
  using step
proof (cases rule: loop_step_cases)
  case (Begin c)
  then show ?thesis using turns_ok_begin [OF ok] by simp
next
  case (Enter i c ws)
  have "\<And>j. must_follow cfg cs j i \<Longrightarrow> j \<in> set (lo_set s)"
    using entering [OF _ _ _ Enter(2,3)] ok unfolding turns_ok_def by blast
  with Enter show ?thesis
    using turns_ok_ends [OF ok, of i t] turns_ok_suspends [OF ok, of i c t] by auto
next
  case (End i c u)
  then have "in_turn s i" using na by (auto simp: in_turn_def)
  then have "\<And>j. must_follow cfg cs j i \<Longrightarrow> j \<in> set (lo_set s)"
    using ok unfolding turns_ok_def ordered_def by blast
  with End show ?thesis using turns_ok_ends [OF ok, of i t] by auto
qed

lemma turns_ok_run:
  "loop_run cfg evs (run_start cfg a r) = Some s \<Longrightarrow> \<forall>i. Abandon i \<notin> set evs \<Longrightarrow>
   turns_ok cfg (calls_begun evs) s"
proof (induction evs arbitrary: s rule: rev_induct)
  case Nil
  then have "s = run_start cfg a r" by simp
  then show ?case by (simp add: turns_ok_start)
next
  case (snoc ev evs)
  then obtain s' where "loop_run cfg evs (run_start cfg a r) = Some s'" "loop_step cfg ev s' = Some s"
    by (auto simp: loop_run_snoc split: bind_splits)
  with snoc show ?case using turns_ok_step [of cfg "calls_begun evs" s' ev s] by fastforce
qed

end
