(* ===== verification/AgentTrace.thy ===== *)
theory AgentTrace
  imports AgentTurns
begin

text \<open>
  What holds of every run of the loop: exclusion of the calls, progress, what reaches the host, and
  that the trace is the one of a run that takes the calls one at a time.
\<close>

subsection \<open>Exclusion\<close>

definition turns_ordered :: "run_config \<Rightarrow> tool_call list \<Rightarrow> loop_state \<Rightarrow> bool" where
  "turns_ordered cfg cs s =
     (\<forall>i j. in_turn s i \<and> must_follow cfg cs j i \<longrightarrow> j \<in> set (lo_set s))"

lemma turns_ok_ordered: "turns_ok cfg cs s \<Longrightarrow> turns_ordered cfg cs s"
  unfolding turns_ok_def ordered_def turns_ordered_def by blast

lemma placed_step:
  assumes "placed cfg cs s" and "loop_step cfg ev s = Some t"
  shows "placed cfg (cs @ calls_begun [ev]) t"
  using assms(2)
proof (cases rule: loop_step_cases)
  case (Begin c)
  then show ?thesis using placed_begin [OF assms(1)] by simp
next
  case (Enter i c ws)
  then show ?thesis using placed_ends [OF assms(1), of i t] placed_suspends [OF assms(1), of i c t] by auto
next
  case (End i c u)
  then show ?thesis using placed_ends [OF assms(1), of i t] by auto
qed

lemma turns_ordered_step:
  assumes p: "placed cfg cs s" and o: "turns_ordered cfg cs s" and step: "loop_step cfg ev s = Some t"
    and ne: "\<forall>i. ev \<noteq> Enter i"
  shows "turns_ordered cfg (cs @ calls_begun [ev]) t"
  using step
proof (cases rule: loop_step_cases)
  case (Begin c)
  have "in_turn s i \<and> i \<le> length cs" if "in_turn t i" for i
    using that Begin placedD(1,3) [OF p] by (auto simp: in_turn_def begin_frames split: if_splits)
  then have "j \<in> set (lo_set s)" if "in_turn t i" "must_follow cfg (cs @ [c]) j i" for i j
    using that o must_follow_snoc unfolding turns_ordered_def by blast
  with Begin show ?thesis by (auto simp: turns_ordered_def)
next
  case (Enter i c ws)
  with ne show ?thesis by blast
next
  case (End i c u)
  then have "in_turn t k \<Longrightarrow> in_turn s k" "set (lo_set s) \<subseteq> set (lo_set t)" for k
    by (auto simp: call_ends_def in_turn_def AList.delete_conv' split: if_splits)
  moreover have "calls_begun [ev] = []" using End by auto
  ultimately show ?thesis using o unfolding turns_ordered_def by auto
qed

text \<open>Once the SDK has abandoned a waiting call, no other call enters (it cancels them together).\<close>

fun no_late_entry :: "loop_event list \<Rightarrow> bool" where
  "no_late_entry [] = True"
| "no_late_entry (Abandon i # evs) = list_all (\<lambda>ev. case ev of Enter k \<Rightarrow> False | _ \<Rightarrow> True) evs"
| "no_late_entry (_ # evs) = no_late_entry evs"

lemma no_late_entry_snoc:
  "no_late_entry (evs @ [ev]) \<Longrightarrow>
     no_late_entry evs \<and> ((\<exists>k. ev = Enter k) \<longrightarrow> (\<forall>i. Abandon i \<notin> set evs))"
  by (induction evs rule: no_late_entry.induct) auto

lemma turns_ordered_run:
  "loop_run cfg evs (run_start cfg a r) = Some s \<Longrightarrow> no_late_entry evs \<Longrightarrow>
   placed cfg (calls_begun evs) s \<and> turns_ordered cfg (calls_begun evs) s"
proof (induction evs arbitrary: s rule: rev_induct)
  case Nil
  then have "s = run_start cfg a r" by simp
  then show ?case using turns_ok_start [of cfg a r] turns_ok_ordered by (auto simp: turns_ok_def)
next
  case (snoc ev evs)
  then obtain s' where s': "loop_run cfg evs (run_start cfg a r) = Some s'" "loop_step cfg ev s' = Some s"
    by (auto simp: loop_run_snoc split: bind_splits)
  note late = no_late_entry_snoc [OF snoc.prems(2)]
  have IH: "placed cfg (calls_begun evs) s'" "turns_ordered cfg (calls_begun evs) s'"
    using snoc.IH s'(1) late by blast+
  have "turns_ordered cfg (calls_begun evs @ calls_begun [ev]) s"
  proof (cases "\<exists>k. ev = Enter k")
    case True
    with late have "\<forall>i. Abandon i \<notin> set evs" by blast
    with s'(1) have "turns_ok cfg (calls_begun evs) s'" by (rule turns_ok_run)
    with s'(2) True show ?thesis using turns_ok_step turns_ok_ordered by blast
  next
    case False
    with turns_ordered_step [OF IH s'(2)] show ?thesis by blast
  qed
  then show ?case using placed_step [OF IH(1) s'(2)] by simp
qed

text \<open>
  C40: A write never runs beside another call.  Whatever the model calls and however the host's answers
  and the cancellations interleave: a call in its turn has every earlier call behind it that is not
  declared read-only, and when it is not read-only itself, every earlier call; so two calls in their
  turn at one time are both declared read-only.  Excluded are runs in which a call enters after the
  SDK has abandoned one that waits (it cancels the calls of a turn together).
\<close>

theorem writes_run_alone:
  assumes "loop_run cfg evs (run_start cfg active rec) = Some s" and "no_late_entry evs"
    and "in_turn s i"
  shows "(\<forall>j. 1 \<le> j \<and> j < i \<and> (changes_record cfg (calls_begun evs) j \<or> changes_record cfg (calls_begun evs) i) \<longrightarrow>
            j \<in> set (lo_set s) \<and> \<not> in_turn s j) \<and>
    (\<forall>j. in_turn s j \<and> j \<noteq> i \<longrightarrow>
       \<not> changes_record cfg (calls_begun evs) i \<and> \<not> changes_record cfg (calls_begun evs) j)"
proof -
  let ?cs = "calls_begun evs"
  have p: "placed cfg ?cs s" and o: "turns_ordered cfg ?cs s"
    using turns_ordered_run [OF assms(1,2)] by blast+
  have gone: "j \<in> set (lo_set s) \<and> \<not> in_turn s j" if "in_turn s k" "must_follow cfg ?cs j k" for j k
    using o that placedD(2) [OF p, of j] unfolding turns_ordered_def in_turn_def by auto
  have pos: "1 \<le> k" if "in_turn s k" for k
    using that placedD(3) [OF p] unfolding in_turn_def by blast
  have "\<not> changes_record cfg ?cs i \<and> \<not> changes_record cfg ?cs j" if j: "in_turn s j" "j \<noteq> i" for j
  proof (cases "i < j")
    case True
    then show ?thesis using gone [OF j(1), of i] assms(3) pos unfolding must_follow_def by blast
  next
    case False
    then show ?thesis using gone [OF assms(3), of j] j pos unfolding must_follow_def
      by (metis linorder_neqE_nat)
  qed
  then show ?thesis using gone [OF assms(3)] unfolding must_follow_def by blast
qed

subsection \<open>Progress\<close>

definition waits_below :: "tool_call list \<Rightarrow> loop_state \<Rightarrow> bool" where
  "waits_below cs s = (\<forall>i c ws. map_of (lo_frames s) i = Some (c, Waits ws) \<longrightarrow> set ws \<subseteq> {1..<i})"

definition base_ok :: "run_config \<Rightarrow> tool_call list \<Rightarrow> loop_state \<Rightarrow> bool" where
  "base_ok cfg cs s = (placed cfg cs s \<and> covered cfg cs s \<and> waits_below cs s)"

lemma waits_below_begin:
  assumes p: "placed cfg cs s" and cov: "covered cfg cs s" and w: "waits_below cs s"
  shows "waits_below (cs @ [c]) (begin_call cfg c s)"
proof -
  have "set (waits_for s) \<subseteq> {1..length cs}"
    using cov unfolding covered_def Let_def by (cases "lo_alone s") (auto simp: waits_for_def)
  moreover have "set (lo_beside s) \<subseteq> {1..length cs}" using cov unfolding covered_def Let_def by blast
  ultimately have "set (waits_for s @ lo_beside s) \<subseteq> {1..<Suc (length cs)}"
    "set (waits_for s) \<subseteq> {1..<Suc (length cs)}" by auto
  then show ?thesis using w placedD(1) [OF p]
    unfolding waits_below_def by (auto simp: begin_frames split: if_splits)
qed

lemma covered_control:
  assumes cov: "covered cfg cs s" and w: "waits_below cs s"
    and t: "call_ends i s t \<or> call_suspends i c s t"
  shows "covered cfg cs t" and "waits_below cs t"
proof -
  have "map_of (lo_frames s) k = Some (c', Waits ws)" if "map_of (lo_frames t) k = Some (c', Waits ws)" for k c' ws
    using t that by (auto simp: call_ends_def call_suspends_def AList.delete_conv' AList.update_conv' split: if_splits)
  with w show "waits_below cs t" unfolding waits_below_def by blast
  have "lo_alone t = lo_alone s" "lo_beside t = lo_beside s" "set (lo_set s) \<subseteq> set (lo_set t)"
    using t by (auto simp: call_ends_def call_suspends_def)
  with cov show "covered cfg cs t" by (rule covered_more)
qed

lemma base_ok_step:
  assumes b: "base_ok cfg cs s" and step: "loop_step cfg ev s = Some t"
  shows "base_ok cfg (cs @ calls_begun [ev]) t"
proof -
  from b have p: "placed cfg cs s" and cov: "covered cfg cs s" and w: "waits_below cs s"
    by (simp_all add: base_ok_def)
  show ?thesis using step
  proof (cases rule: loop_step_cases)
    case (Begin c)
    then show ?thesis using placed_begin [OF p] covered_begin [OF cov placedD(1) [OF p]] waits_below_begin [OF p cov w]
      by (simp add: base_ok_def)
  next
    case (Enter i c ws)
    then show ?thesis using placed_step [OF p step] covered_control [OF cov w Enter(5)]
      by (simp add: base_ok_def)
  next
    case (End i c u)
    then have "calls_begun [ev] = []" by auto
    then show ?thesis using placed_step [OF p step] covered_control [OF cov w disjI1 [OF End(4)]]
      by (simp add: base_ok_def)
  qed
qed

lemma base_ok_run: "loop_run cfg evs (run_start cfg a r) = Some s \<Longrightarrow> base_ok cfg (calls_begun evs) s"
proof (induction evs arbitrary: s rule: rev_induct)
  case Nil
  then have "s = run_start cfg a r" by simp
  then show ?case using turns_ok_start [of cfg a r]
    by (simp add: base_ok_def turns_ok_def waits_below_def run_start_def)
next
  case (snoc ev evs)
  then obtain s' where "loop_run cfg evs (run_start cfg a r) = Some s'" "loop_step cfg ev s' = Some s"
    by (auto simp: loop_run_snoc split: bind_splits)
  with snoc.IH show ?case using base_ok_step by fastforce
qed

lemma can_enter:
  assumes b: "base_ok cfg cs s" and f: "map_of (lo_frames s) k \<noteq> None" and idle: "\<forall>i. \<not> in_turn s i"
  shows "\<exists>i. loop_step cfg (Enter i) s \<noteq> None"
proof -
  let ?i = "LEAST i. map_of (lo_frames s) i \<noteq> None"
  from f have here: "map_of (lo_frames s) ?i \<noteq> None" by (rule LeastI)
  then obtain c ws where i: "map_of (lo_frames s) ?i = Some (c, Waits ws)"
    using idle unfolding in_turn_def by fastforce
  have p: "placed cfg cs s" using b by (simp add: base_ok_def)
  have "set ws \<subseteq> set (lo_set s)"
  proof
    fix j assume "j \<in> set ws"
    with b i have j: "1 \<le> j" "j < ?i" unfolding base_ok_def waits_below_def by fastforce+
    then have "map_of (lo_frames s) j = None" using not_less_Least by blast
    with j i show "j \<in> set (lo_set s)" using placedD(2) [OF p, of j] placedD(3) [OF p i] by auto
  qed
  with i have "loop_step cfg (Enter ?i) s \<noteq> None" by (simp add: loop_step_def)
  then show ?thesis by blast
qed

text \<open>What is left to do: two steps for a waiting call, one for a call in its turn.\<close>

definition turns_left :: "(tool_call \<times> turn) option \<Rightarrow> nat" where
  "turns_left f = (case f of None \<Rightarrow> 0 | Some (c, Waits ws) \<Rightarrow> 2 | Some (c, _) \<Rightarrow> 1)"

definition steps_left :: "loop_state \<Rightarrow> nat" where
  "steps_left s = (\<Sum>i\<in>{1..lo_calls s}. turns_left (map_of (lo_frames s) i))"

definition is_begin :: "loop_event \<Rightarrow> bool" where
  "is_begin ev = (case ev of Begin c \<Rightarrow> True | _ \<Rightarrow> False)"

lemma steps_left_at:
  assumes "lo_calls t = lo_calls s" and k: "k \<in> {1..lo_calls s}"
    and rest: "\<And>i. i \<noteq> k \<Longrightarrow> map_of (lo_frames t) i = map_of (lo_frames s) i"
  shows "steps_left t + turns_left (map_of (lo_frames s) k) = steps_left s + turns_left (map_of (lo_frames t) k)"
proof -
  let ?A = "{1..lo_calls s}"
  have "(\<Sum>i\<in>?A - {k}. turns_left (map_of (lo_frames t) i)) = (\<Sum>i\<in>?A - {k}. turns_left (map_of (lo_frames s) i))"
    by (rule sum.cong) (simp_all add: rest)
  then show ?thesis unfolding steps_left_def assms(1)
    using sum.remove [OF finite_atLeastAtMost k, of "\<lambda>i. turns_left (map_of (lo_frames t) i)"]
      sum.remove [OF finite_atLeastAtMost k, of "\<lambda>i. turns_left (map_of (lo_frames s) i)"] by simp
qed

lemma steps_left_step:
  assumes p: "placed cfg cs s" and step: "loop_step cfg ev s = Some t"
  shows "(if is_begin ev then steps_left t \<le> steps_left s + 2 else steps_left t < steps_left s)"
  using step
proof (cases rule: loop_step_cases)
  case (Begin c)
  have "{1..Suc (lo_calls s)} = insert (Suc (lo_calls s)) {1..lo_calls s}" by auto
  then show ?thesis using Begin placedD(1) [OF p]
    by (auto simp: steps_left_def turns_left_def is_begin_def begin_frames intro!: sum_mono)
next
  case (Enter i c ws)
  then have i: "i \<in> {1..lo_calls s}" using placedD(1,3) [OF p] by auto
  have "lo_calls t = lo_calls s" and rest: "\<And>k. k \<noteq> i \<Longrightarrow> map_of (lo_frames t) k = map_of (lo_frames s) k"
    using Enter(5) by (auto simp: call_ends_def call_suspends_def AList.delete_conv' AList.update_conv')
  from steps_left_at [OF this(1) i rest] Enter show ?thesis
    by (auto simp: turns_left_def is_begin_def call_ends_def call_suspends_def AList.delete_conv' AList.update_conv'
        split: turn.splits)
next
  case (End i c u)
  then have i: "i \<in> {1..lo_calls s}" using placedD(1,3) [OF p] by auto
  have "lo_calls t = lo_calls s" and rest: "\<And>k. k \<noteq> i \<Longrightarrow> map_of (lo_frames t) k = map_of (lo_frames s) k"
    using End by (auto simp: call_ends_def AList.delete_conv')
  from steps_left_at [OF this(1) i rest] End show ?thesis
    by (auto simp: turns_left_def is_begin_def call_ends_def AList.delete_conv' split: turn.splits)
qed

lemma steps_bound:
  "loop_run cfg evs (run_start cfg a r) = Some s \<Longrightarrow>
   length (filter (\<lambda>ev. \<not> is_begin ev) evs) + steps_left s \<le> 2 * length (calls_begun evs)"
proof (induction evs arbitrary: s rule: rev_induct)
  case Nil
  then have "s = run_start cfg a r" by simp
  then show ?case by (simp add: steps_left_def run_start_def)
next
  case (snoc ev evs)
  then obtain s' where s': "loop_run cfg evs (run_start cfg a r) = Some s'" "loop_step cfg ev s' = Some s"
    by (auto simp: loop_run_snoc split: bind_splits)
  have "placed cfg (calls_begun evs) s'" using base_ok_run [OF s'(1)] by (simp add: base_ok_def)
  from steps_left_step [OF this s'(2)] snoc.IH [OF s'(1)] show ?case
    by (auto simp: is_begin_def split: loop_event.splits if_splits)
qed

text \<open>
  No call is stuck: in every state of every run, when calls are unfinished, one of them is in the
  hands of the host or one that waits may enter; and after its start a call takes at most two
  steps, so a run of finitely many calls whose handlers answer comes to an end.
\<close>

theorem calls_come_to_an_end:
  assumes "loop_run cfg evs (run_start cfg active rec) = Some s"
  shows "(lo_frames s \<noteq> [] \<longrightarrow> (\<exists>i. in_turn s i) \<or> (\<exists>i. loop_step cfg (Enter i) s \<noteq> None)) \<and>
    length (filter (\<lambda>ev. \<not> is_begin ev) evs) \<le> 2 * length (calls_begun evs)"
proof
  show "lo_frames s \<noteq> [] \<longrightarrow> (\<exists>i. in_turn s i) \<or> (\<exists>i. loop_step cfg (Enter i) s \<noteq> None)"
  proof
    assume "lo_frames s \<noteq> []"
    then have "map_of (lo_frames s) (fst (hd (lo_frames s))) \<noteq> None" by (cases "lo_frames s") auto
    with can_enter [OF base_ok_run [OF assms]] show "(\<exists>i. in_turn s i) \<or> (\<exists>i. loop_step cfg (Enter i) s \<noteq> None)"
      by blast
  qed
  show "length (filter (\<lambda>ev. \<not> is_begin ev) evs) \<le> 2 * length (calls_begun evs)"
    using steps_bound [OF assms] by linarith
qed

end
