(* ===== verification/AgentProps.thy ===== *)
theory AgentProps
  imports AgentTrace
begin

text \<open>What reaches the host, and the trace of a run as the trace of its calls one at a time.\<close>

subsection \<open>Calls of the host\<close>

definition host_index :: "host_call \<Rightarrow> nat" where
  "host_index h = (case h of Asked i _ _ \<Rightarrow> i | Dispatched i _ _ _ _ \<Rightarrow> i)"

text \<open>The call of a seam that the code makes for a tool call, under the skill active then.\<close>

definition host_matches :: "run_config \<Rightarrow> tool_call \<Rightarrow> host_call \<Rightarrow> bool" where
  "host_matches cfg c h =
     (case h of
        Asked i cid args \<Rightarrow>
          cid = tc_id c \<and> tc_tool c = rc_ask_tool cfg \<and> load_arguments cfg (tc_arguments c) = Inr args
      | Dispatched i cid name args active \<Rightarrow>
          cid = tc_id c \<and> name = tc_tool c \<and> load_arguments cfg (tc_arguments c) = Inr args \<and>
          name \<noteq> activate_name \<and> name \<noteq> rc_ask_tool cfg \<and>
          (name \<in> set (rc_always cfg) \<or>
           (\<exists>a s. active = Some a \<and> dget (rc_skills cfg) a = Some s \<and> name \<in> set (sk_tools s))))"

lemma invoke_host:
  "lo_host (invoke_in_turn cfg i c s) = lo_host s \<or>
   (\<exists>h. lo_host (invoke_in_turn cfg i c s) = lo_host s @ [h] \<and> host_index h = i \<and> host_matches cfg c h)"
  by (auto simp: invoke_in_turn_def Let_def finish_call_def suspend_def host_index_def host_matches_def enabled_def
      split: sum.splits option.splits)

definition host_ok :: "run_config \<Rightarrow> tool_call list \<Rightarrow> loop_state \<Rightarrow> bool" where
  "host_ok cfg cs s =
     (distinct (map host_index (lo_host s)) \<and>
      (\<forall>h\<in>set (lo_host s).
         1 \<le> host_index h \<and> host_index h \<le> length cs \<and> int (host_index h) \<le> rc_max_tools cfg \<and>
         (\<forall>c ws. map_of (lo_frames s) (host_index h) \<noteq> Some (c, Waits ws)) \<and>
         host_matches cfg (nth_call cs (host_index h)) h))"

lemma host_ok_step:
  assumes p: "placed cfg cs s" and h: "host_ok cfg cs s" and step: "loop_step cfg ev s = Some t"
  shows "host_ok cfg (cs @ calls_begun [ev]) t"
  using step
proof (cases rule: loop_step_cases)
  case (Begin c)
  have "map_of (lo_frames t) k = map_of (lo_frames s) k \<and> nth_call (cs @ [c]) k = nth_call cs k"
    if "1 \<le> k" "k \<le> length cs" for k
    using that Begin placedD(1) [OF p] by (simp add: begin_frames)
  with Begin h show ?thesis by (auto simp: host_ok_def)
next
  case (Enter i c ws)
  have frames: "map_of (lo_frames t) k = map_of (lo_frames s) k" if "k \<noteq> i" for k
    using Enter(5) that by (auto simp: call_ends_def call_suspends_def AList.delete_conv' AList.update_conv')
  have here: "map_of (lo_frames t) i \<noteq> Some (c', Waits ws')" for c' ws'
    using Enter(5) by (auto simp: call_ends_def call_suspends_def AList.delete_conv' AList.update_conv')
  have i: "1 \<le> i" "i \<le> length cs" "c = nth_call cs i" "int i \<le> rc_max_tools cfg"
    using placedD(3) [OF p Enter(2)] by blast+
  have fresh: "\<forall>h\<in>set (lo_host s). host_index h \<noteq> i" using h Enter(2) unfolding host_ok_def by metis
  have old: "\<forall>h\<in>set (lo_host s). 1 \<le> host_index h \<and> host_index h \<le> length cs \<and>
      int (host_index h) \<le> rc_max_tools cfg \<and>
      (\<forall>c ws. map_of (lo_frames t) (host_index h) \<noteq> Some (c, Waits ws)) \<and>
      host_matches cfg (nth_call cs (host_index h)) h"
    using h fresh frames unfolding host_ok_def by simp
  show ?thesis
  proof (cases "lo_host t = lo_host s")
    case True
    then show ?thesis using h old Enter(1) by (simp add: host_ok_def)
  next
    case False
    then obtain x where "lo_host t = lo_host s @ [x]" "host_index x = i" "host_matches cfg c x"
      using invoke_host [of cfg i c s] Enter(4) by auto
    then show ?thesis using h old here i fresh Enter(1) by (auto simp: host_ok_def)
  qed
next
  case (End i c u)
  then have "lo_host t = lo_host s" "map_of (lo_frames t) = (map_of (lo_frames s))(i := None)"
    by (simp_all add: call_ends_def AList.delete_conv')
  moreover have "calls_begun [ev] = []" using End by auto
  ultimately show ?thesis using h by (simp add: host_ok_def)
qed

lemma host_ok_run: "loop_run cfg evs (run_start cfg a r) = Some s \<Longrightarrow> host_ok cfg (calls_begun evs) s"
proof (induction evs arbitrary: s rule: rev_induct)
  case Nil
  then have "s = run_start cfg a r" by simp
  then show ?case by (simp add: host_ok_def run_start_def)
next
  case (snoc ev evs)
  then obtain s' where s': "loop_run cfg evs (run_start cfg a r) = Some s'" "loop_step cfg ev s' = Some s"
    by (auto simp: loop_run_snoc split: bind_splits)
  have "placed cfg (calls_begun evs) s'" using base_ok_run [OF s'(1)] by (simp add: base_ok_def)
  from host_ok_step [OF this snoc.IH [OF s'(1)] s'(2)] show ?case by simp
qed

text \<open>
  The gates of the host's seams.  However the calls interleave, the dispatcher and the ask handler
  are called at most \<open>max_tools\<close> times in a run, at most once for each call of the model and with
  that call's own id and arguments, and the dispatcher only for a tool that every skill holds or
  that the skill active at that moment holds.
\<close>

theorem seams_are_gated:
  assumes "loop_run cfg evs (run_start cfg active rec) = Some s"
  shows "length (lo_host s) \<le> nat (rc_max_tools cfg) \<and> distinct (map host_index (lo_host s)) \<and>
    (\<forall>h\<in>set (lo_host s). host_matches cfg (nth_call (calls_begun evs) (host_index h)) h)"
proof -
  note h = host_ok_run [OF assms]
  then have "set (map host_index (lo_host s)) \<subseteq> {1..nat (rc_max_tools cfg)}"
    by (auto simp: host_ok_def)
  from card_mono [OF _ this] have "length (lo_host s) \<le> nat (rc_max_tools cfg)"
    using h distinct_card [of "map host_index (lo_host s)"] by (simp add: host_ok_def)
  with h show ?thesis by (simp add: host_ok_def)
qed

subsection \<open>One call at a time\<close>

text \<open>
  A call that runs alone, from the active skill before it and what the host answers to it: the
  active skill after it and its entry in the trace, if it leaves one.
\<close>

definition asked_event ::
    "nat \<Rightarrow> tool_call \<Rightarrow> string option \<Rightarrow> pyval \<Rightarrow> host_outcome option \<Rightarrow> trace_event option" where
  "asked_event i c active args out =
     (case out of
        Some (Returned result) \<Rightarrow> Some (result_event i c active active args result)
      | Some (RaisedError AskPending) \<Rightarrow> Some (call_event i c active active args True (PStr ''asked'') PNone)
      | _ \<Rightarrow> None)"

definition dispatched_event ::
    "nat \<Rightarrow> tool_call \<Rightarrow> string option \<Rightarrow> pyval \<Rightarrow> host_outcome option \<Rightarrow> trace_event option" where
  "dispatched_event i c active args out =
     (case out of
        Some (Returned result) \<Rightarrow> Some (result_event i c active active args result)
      | Some (RaisedError (PyError error)) \<Rightarrow>
          Some (result_event i c active active args (failed_result (tc_tool c) error))
      | _ \<Rightarrow> None)"

definition turn_alone ::
    "run_config \<Rightarrow> nat \<Rightarrow> string option \<Rightarrow> tool_call \<Rightarrow> host_outcome option
     \<Rightarrow> string option \<times> trace_event option" where
  "turn_alone cfg i active c out =
     (if rc_max_tools cfg < int i then (active, None)
      else case load_arguments cfg (tc_arguments c) of
        Inl e \<Rightarrow> (active, None)
      | Inr args \<Rightarrow>
          if \<not> enabled cfg active (tc_tool c)
          then (active, Some (call_event i c active active args False (PStr ''denied'') PNone))
          else if tc_tool c = activate_name
          then (case activate cfg active args of
                  Inl e \<Rightarrow> (active, None)
                | Inr (result, a) \<Rightarrow> (a, Some (result_event i c active a args result)))
          else if tc_tool c = rc_ask_tool cfg then (active, asked_event i c active args out)
          else (active, dispatched_event i c active args out))"

fun one_at_a_time ::
    "run_config \<Rightarrow> (nat \<Rightarrow> host_outcome option) \<Rightarrow> nat \<Rightarrow> string option \<Rightarrow> tool_call list
     \<Rightarrow> trace_event list \<times> string option" where
  "one_at_a_time cfg outs i active [] = ([], active)"
| "one_at_a_time cfg outs i active (c # cs) =
     (let r = turn_alone cfg i active c (outs i);
          rest = one_at_a_time cfg outs (Suc i) (fst r) cs
      in ((case snd r of None \<Rightarrow> [] | Some ev \<Rightarrow> [ev]) @ fst rest, snd rest))"

definition event_list :: "trace_event option \<Rightarrow> trace_event list" where
  "event_list e = (case e of None \<Rightarrow> [] | Some ev \<Rightarrow> [ev])"

definition skill_at ::
    "run_config \<Rightarrow> (nat \<Rightarrow> host_outcome option) \<Rightarrow> string option \<Rightarrow> tool_call list \<Rightarrow> nat \<Rightarrow> string option" where
  "skill_at cfg outs a cs i = snd (one_at_a_time cfg outs 1 a (take (i - 1) cs))"

definition event_at ::
    "run_config \<Rightarrow> (nat \<Rightarrow> host_outcome option) \<Rightarrow> string option \<Rightarrow> tool_call list \<Rightarrow> nat \<Rightarrow> trace_event option" where
  "event_at cfg outs a cs i = snd (turn_alone cfg i (skill_at cfg outs a cs i) (nth_call cs i) (outs i))"

lemma one_at_a_time_snoc:
  "one_at_a_time cfg outs i a (cs @ [c]) =
     (let r = one_at_a_time cfg outs i a cs;
          q = turn_alone cfg (i + length cs) (snd r) c (outs (i + length cs))
      in (fst r @ event_list (snd q), fst q))"
  by (induction cs arbitrary: i a) (simp_all add: Let_def event_list_def)

lemma skill_at_1 [simp]: "skill_at cfg outs a cs (Suc 0) = a"
  by (simp add: skill_at_def)

lemma skill_at_Suc:
  assumes "1 \<le> i" "i \<le> length cs"
  shows "skill_at cfg outs a cs (Suc i) =
    fst (turn_alone cfg i (skill_at cfg outs a cs i) (nth_call cs i) (outs i))"
proof -
  have "take i cs = take (i - 1) cs @ [nth_call cs i]"
    using assms take_Suc_conv_app_nth [of "i - 1" cs] by (simp add: nth_call_def)
  then show ?thesis using assms
    by (simp add: skill_at_def one_at_a_time_snoc Let_def del: one_at_a_time.simps)
qed

lemma skill_at_append: "i \<le> Suc (length cs) \<Longrightarrow> skill_at cfg outs a (cs @ ds) i = skill_at cfg outs a cs i"
  by (simp add: skill_at_def)

lemma event_at_append:
  "1 \<le> i \<Longrightarrow> i \<le> length cs \<Longrightarrow> event_at cfg outs a (cs @ ds) i = event_at cfg outs a cs i"
  by (simp add: event_at_def skill_at_append)

definition events_upto :: "(nat \<Rightarrow> trace_event option) \<Rightarrow> nat \<Rightarrow> trace_event list" where
  "events_upto E n = concat (map (\<lambda>i. event_list (E i)) [1..<Suc n])"

lemma events_upto_simps [simp]:
  "events_upto E 0 = []" "events_upto E (Suc n) = events_upto E n @ event_list (E (Suc n))"
  by (simp_all add: events_upto_def)

lemma events_upto_cong: "(\<And>i. 1 \<le> i \<Longrightarrow> i \<le> n \<Longrightarrow> E i = E' i) \<Longrightarrow> events_upto E n = events_upto E' n"
  by (induction n) simp_all

lemma one_at_a_time_events:
  "one_at_a_time cfg outs 1 a cs =
     (events_upto (event_at cfg outs a cs) (length cs), skill_at cfg outs a cs (Suc (length cs)))"
proof (induction cs rule: rev_induct)
  case Nil
  then show ?case by (simp add: skill_at_def)
next
  case (snoc c cs)
  let ?n = "Suc (length cs)"
  have "events_upto (event_at cfg outs a (cs @ [c])) (length cs) = events_upto (event_at cfg outs a cs) (length cs)"
    by (rule events_upto_cong) (simp add: event_at_append)
  moreover have "event_at cfg outs a (cs @ [c]) ?n = snd (turn_alone cfg ?n (skill_at cfg outs a cs ?n) c (outs ?n))"
    by (simp add: event_at_def skill_at_append)
  moreover have "skill_at cfg outs a (cs @ [c]) (Suc ?n) = fst (turn_alone cfg ?n (skill_at cfg outs a cs ?n) c (outs ?n))"
    by (simp add: skill_at_Suc skill_at_append)
  ultimately show ?case using snoc by (simp add: one_at_a_time_snoc Let_def)
qed

subsection \<open>The held events\<close>

definition trace_held_ok :: "nat set \<Rightarrow> (nat \<Rightarrow> trace_event option) \<Rightarrow> loop_state \<Rightarrow> bool" where
  "trace_held_ok D E s =
     ({1..lo_traced s} \<subseteq> D \<and>
      (\<forall>i>lo_traced s. map_of (lo_held s) i = (if i \<in> D then Some (E i) else None)) \<and>
      lo_trace s = events_upto E (lo_traced s) \<and> lo_sink s = lo_trace s)"

lemma release_loop_spec:
  assumes "\<forall>i>n. map_of held i = (if i \<in> D then Some (E i) else None)"
    and "release_loop held n out = (held', n', out')"
  shows "n \<le> n' \<and> {Suc n..n'} \<subseteq> D \<and> Suc n' \<notin> D \<and> (\<forall>i>n'. map_of held' i = map_of held i) \<and>
    (\<exists>new. out' = out @ new \<and> events_upto E n' = events_upto E n @ new)"
  using assms
proof (induction held n out rule: release_loop.induct)
  case (1 held n out)
  show ?case
  proof (cases "map_of held (Suc n)")
    case None
    with "1.prems" show ?thesis by (auto simp: release_loop.simps [of held n out] split: if_splits)
  next
    case (Some e)
    with "1.prems"(1) have e: "Suc n \<in> D" "e = E (Suc n)" by (auto split: if_splits)
    have run: "release_loop (AList.delete (Suc n) held) (Suc n) (out @ event_list e) = (held', n', out')"
      using Some "1.prems"(2) by (cases e) (simp_all add: release_loop.simps [of held n out] event_list_def)
    have "\<forall>i>Suc n. map_of (AList.delete (Suc n) held) i = (if i \<in> D then Some (E i) else None)"
      using "1.prems"(1) by (auto simp: AList.delete_conv')
    then have IH: "Suc n \<le> n' \<and> {Suc (Suc n)..n'} \<subseteq> D \<and> Suc n' \<notin> D \<and>
        (\<forall>i>n'. map_of held' i = map_of (AList.delete (Suc n) held) i) \<and>
        (\<exists>new. out' = (out @ event_list e) @ new \<and> events_upto E n' = events_upto E (Suc n) @ new)"
      using "1.IH" [OF Some] run by (cases e) (simp_all add: event_list_def)
    moreover have "{Suc n..n'} \<subseteq> insert (Suc n) {Suc (Suc n)..n'}" by auto
    ultimately show ?thesis using e by (auto simp: AList.delete_conv')
  qed
qed

lemma release_trace_ok:
  assumes "trace_held_ok D E s"
  shows "trace_held_ok D E (release_trace s) \<and> Suc (lo_traced (release_trace s)) \<notin> D"
proof -
  obtain held' n' out' where r: "release_loop (lo_held s) (lo_traced s) [] = (held', n', out')"
    by (metis prod_cases3)
  from assms have held: "\<forall>i>lo_traced s. map_of (lo_held s) i = (if i \<in> D then Some (E i) else None)"
    by (simp add: trace_held_ok_def)
  note spec = release_loop_spec [OF held r]
  have "{1..n'} \<subseteq> {1..lo_traced s} \<union> {Suc (lo_traced s)..n'}" by auto
  with spec assms show ?thesis
    by (auto simp: trace_held_ok_def release_trace_def r Let_def)
qed

lemma held_ok_update:
  assumes "trace_held_ok D E s" and "i \<notin> D" and "1 \<le> i"
  shows "trace_held_ok (insert i D) E (s\<lparr>lo_held := AList.update i (E i) (lo_held s)\<rparr>)"
  using assms by (auto simp: trace_held_ok_def AList.update_conv')

lemma observed_ok:
  assumes "trace_held_ok D E s" and "i \<notin> D" and "1 \<le> i" and "E i = Some ev" and "te_index ev = i"
  shows "trace_held_ok (insert i D) E (observed ev s) \<and> Suc (lo_traced (observed ev s)) \<notin> insert i D"
  using release_trace_ok [OF held_ok_update [OF assms(1-3)]] assms(4,5) by (simp add: observed_def)

lemma ended_new:
  assumes "trace_held_ok D E s" and "i \<notin> D" and "1 \<le> i" and "E i = None"
  shows "trace_held_ok (insert i D) E (ended i s) \<and> Suc (lo_traced (ended i s)) \<notin> insert i D"
proof -
  have "\<not> i \<le> lo_traced s" using assms(1-3) by (auto simp: trace_held_ok_def)
  then have "map_of (lo_held s) i = None" using assms(1,2) by (simp add: trace_held_ok_def)
  then show ?thesis using release_trace_ok [OF held_ok_update [OF assms(1-3)]] assms(4) by (simp add: ended_def)
qed

lemma ended_again:
  assumes "trace_held_ok D E s" and "i \<in> D"
  shows "trace_held_ok D E (ended i s) \<and> Suc (lo_traced (ended i s)) \<notin> D"
proof -
  have "trace_held_ok D E (s\<lparr>lo_held := (if map_of (lo_held s) i = None then AList.update i None (lo_held s)
      else lo_held s)\<rparr>)"
    using assms by (auto simp: trace_held_ok_def AList.update_conv')
  then show ?thesis unfolding ended_def by (rule release_trace_ok)
qed

lemma held_ok_cong:
  assumes "\<And>i. i \<in> D \<Longrightarrow> E i = E' i" and "lo_held t = lo_held s" "lo_traced t = lo_traced s"
    "lo_trace t = lo_trace s" "lo_sink t = lo_sink s" and "trace_held_ok D E s"
  shows "trace_held_ok D E' t"
proof -
  have "{1..lo_traced s} \<subseteq> D" using assms(6) by (simp add: trace_held_ok_def)
  then have "events_upto E (lo_traced s) = events_upto E' (lo_traced s)"
    using assms(1) by (intro events_upto_cong) (simp add: subset_iff)
  then show ?thesis using assms by (simp add: trace_held_ok_def)
qed

subsection \<open>Ends of calls\<close>

lemma end_with_event:
  assumes "trace_held_ok D E s" and "i \<notin> D" and "1 \<le> i" and "E i = Some ev" and "te_index ev = i"
  shows "trace_held_ok (insert i D) E (end_call i r (observed ev s)) \<and>
    Suc (lo_traced (end_call i r (observed ev s))) \<notin> insert i D"
  unfolding end_call_def
  by (rule ended_again) (rule held_ok_cong [OF _ _ _ _ _ observed_ok [OF assms, THEN conjunct1]], simp_all)

lemma end_silent:
  assumes "trace_held_ok D E s" and "i \<notin> D" and "1 \<le> i" and "E i = None"
  shows "trace_held_ok (insert i D) E (end_call i r s) \<and> Suc (lo_traced (end_call i r s)) \<notin> insert i D"
  unfolding end_call_def
  by (rule ended_new) (rule held_ok_cong [OF _ _ _ _ _ assms(1)], insert assms, simp_all)

lemma event_index [simp]:
  "te_index (call_event i c b a args ok code v) = i" "te_index (result_event i c b a args d) = i"
  by (simp_all add: result_event_def call_event_def)

lemma held_ok_record:
  "trace_held_ok D E s \<Longrightarrow> trace_held_ok D E (keep_record cfg d s)" "trace_held_ok D E s \<Longrightarrow> trace_held_ok D E (s\<lparr>lo_active := x\<rparr>)"
  by (rule held_ok_cong [rotated -1], assumption, simp_all)+

text \<open>A turn that ends leaves the event and the active skill that it leaves when it runs alone.\<close>

definition turn_recorded ::
    "run_config \<Rightarrow> nat set \<Rightarrow> (nat \<Rightarrow> trace_event option) \<Rightarrow> nat \<Rightarrow> string option \<Rightarrow> loop_state \<Rightarrow> bool" where
  "turn_recorded cfg D E i after t =
     (trace_held_ok (insert i D) E t \<and> Suc (lo_traced t) \<notin> insert i D \<and> lo_active t = after)"

lemma finish_recorded:
  assumes "trace_held_ok D E s" and "i \<notin> D" and "1 \<le> i"
    and "E i = Some (result_event i c b (lo_active s) args d)"
  shows "turn_recorded cfg D E i (lo_active s) (finish_call i c b args d s)"
  using end_with_event [OF assms(1-4)] by (simp add: turn_recorded_def finish_call_def)

lemma invoke_recorded:
  assumes h: "trace_held_ok D E s" and i: "i \<notin> D" "1 \<le> i" "int i \<le> rc_max_tools cfg"
    and E: "E i = snd (turn_alone cfg i (lo_active s) c out)"
    and t: "t = invoke_in_turn cfg i c s"
  shows "call_ends i s t \<and> turn_recorded cfg D E i (fst (turn_alone cfg i (lo_active s) c out)) t \<or>
    (\<exists>args u h. load_arguments cfg (tc_arguments c) = Inr args \<and> enabled cfg (lo_active s) (tc_tool c) \<and>
       tc_tool c \<noteq> activate_name \<and> t = suspend i c u h s \<and>
       u = (if tc_tool c = rc_ask_tool cfg then Asks args (lo_active s) else Dispatches args (lo_active s)))"
proof (cases "load_arguments cfg (tc_arguments c)")
  case (Inl e)
  with i E have "E i = None" "fst (turn_alone cfg i (lo_active s) c out) = lo_active s"
    by (simp_all add: turn_alone_def)
  with end_silent [OF h i(1,2)] Inl show ?thesis by (simp add: t invoke_in_turn_def turn_recorded_def ends_end_call)
next
  case (Inr args)
  note budget = i(3)
  show ?thesis
  proof (cases "enabled cfg (lo_active s) (tc_tool c)")
    case False
    with Inr budget E have ev: "E i = Some (call_event i c (lo_active s) (lo_active s) args False (PStr ''denied'') PNone)"
      "fst (turn_alone cfg i (lo_active s) c out) = lo_active s"
      by (simp_all add: turn_alone_def)
    from end_with_event [OF h i(1,2) ev(1)] ev(2) False Inr show ?thesis
      by (simp add: t invoke_in_turn_def turn_recorded_def Let_def ends_end_call)
  next
    case on: True
    show ?thesis
    proof (cases "tc_tool c = activate_name")
      case act: True
      show ?thesis
      proof (cases "activate cfg (lo_active s) args")
        case (Inl e)
        with on Inr budget act E have "E i = None" "fst (turn_alone cfg i (lo_active s) c out) = lo_active s"
          by (simp_all add: turn_alone_def)
        with end_silent [OF h i(1,2)] Inl Inr on act show ?thesis
          by (simp add: t invoke_in_turn_def turn_recorded_def ends_end_call)
      next
        case (Inr q)
        then obtain d x where q: "activate cfg (lo_active s) args = Inr (d, x)" by (cases q) auto
        with on \<open>load_arguments _ _ = Inr args\<close> budget act E
        have ev: "E i = Some (result_event i c (lo_active s) x args d)" "fst (turn_alone cfg i (lo_active s) c out) = x"
          by (simp_all add: turn_alone_def)
        have "turn_recorded cfg D E i x (finish_call i c (lo_active s) args d (s\<lparr>lo_active := x\<rparr>))"
          using finish_recorded [OF held_ok_record(2) [OF h], of i c "lo_active s" x] i ev(1) by simp
        then show ?thesis using q on \<open>load_arguments _ _ = Inr args\<close> act ev(2)
          by (simp add: t invoke_in_turn_def ends_finish)
      qed
    next
      case False
      with on Inr show ?thesis by (auto simp: t invoke_in_turn_def Let_def)
    qed
  qed
qed

lemma asked_recorded:
  assumes h: "trace_held_ok D E s" and i: "i \<notin> D" "1 \<le> i" and E: "E i = asked_event i c (lo_active s) args (Some out)"
  shows "turn_recorded cfg D E i (lo_active s) (asked i c args (lo_active s) out s)"
proof (cases out)
  case (Returned d)
  with finish_recorded [OF h i] E show ?thesis by (simp add: asked_def asked_event_def)
next
  case (RaisedError e)
  with end_silent [OF h i] end_with_event [OF h i] E show ?thesis
    by (cases e) (auto simp: asked_def asked_event_def turn_recorded_def)
qed

lemma dispatched_recorded:
  assumes h: "trace_held_ok D E s" and i: "i \<notin> D" "1 \<le> i"
    and E: "E i = dispatched_event i c (lo_active s) args (Some out)"
  shows "turn_recorded cfg D E i (lo_active s) (dispatched cfg i c args (lo_active s) out s)"
proof (cases out)
  case (Returned d)
  with finish_recorded [OF held_ok_record(1) [OF h] i, of c "lo_active s" cfg d args d] E show ?thesis
    by (simp add: dispatched_def dispatched_event_def)
next
  case (RaisedError e)
  have "turn_recorded cfg D E i (lo_active s) (finish_call i c (lo_active s) args d (keep_record cfg d s))"
    if "E i = Some (result_event i c (lo_active s) (lo_active s) args d)" for d
    using finish_recorded [OF held_ok_record(1) [OF h] i, of c "lo_active s" cfg d args d] that by simp
  with RaisedError end_silent [OF h i] E show ?thesis
    by (cases e) (auto simp: dispatched_def dispatched_event_def turn_recorded_def Let_def)
qed

subsection \<open>The active skill\<close>

definition eff_writer :: "run_config \<Rightarrow> tool_call list \<Rightarrow> nat \<Rightarrow> bool" where
  "eff_writer cfg cs i = (changes_record cfg cs i \<and> int i \<le> rc_max_tools cfg)"

definition skills_ok ::
    "run_config \<Rightarrow> (nat \<Rightarrow> host_outcome option) \<Rightarrow> string option \<Rightarrow> tool_call list \<Rightarrow> loop_state \<Rightarrow> bool" where
  "skills_ok cfg outs a cs s =
     (\<forall>k\<in>{1..Suc (length cs)}.
        (\<forall>j\<in>{1..<k}. eff_writer cfg cs j \<longrightarrow> j \<in> set (lo_set s)) \<and>
        (\<forall>j\<in>{k..length cs}. eff_writer cfg cs j \<longrightarrow> j \<notin> set (lo_set s)) \<longrightarrow>
        lo_active s = skill_at cfg outs a cs k)"

lemma turn_alone_reader:
  assumes "tc_tool c \<noteq> activate_name \<or> rc_max_tools cfg < int i"
  shows "fst (turn_alone cfg i active c out) = active"
  using assms by (auto simp: turn_alone_def split: sum.splits)

lemma skill_at_const:
  assumes nr: "activate_name \<notin> set (rc_read_only cfg)" and "1 \<le> i" "i \<le> k" "k \<le> Suc (length cs)"
    and none: "\<forall>j\<in>{i..<k}. \<not> eff_writer cfg cs j"
  shows "skill_at cfg outs a cs k = skill_at cfg outs a cs i"
  using assms(3,4) none
proof (induction k rule: dec_induct)
  case (step k)
  then have "\<not> eff_writer cfg cs k" by simp
  then have "tc_tool (nth_call cs k) \<noteq> activate_name \<or> rc_max_tools cfg < int k"
    using nr by (auto simp: eff_writer_def changes_record_def)
  with step assms(2) show ?case using turn_alone_reader by (simp add: skill_at_Suc)
qed simp

lemma skill_now:
  assumes ok: "turns_ok cfg cs s" and sk: "skills_ok cfg outs a cs s"
    and f: "map_of (lo_frames s) i = Some (c, u)"
    and ready: "\<And>j. must_follow cfg cs j i \<Longrightarrow> j \<in> set (lo_set s)"
  shows "lo_active s = skill_at cfg outs a cs i"
proof -
  from ok have p: "placed cfg cs s" and o: "ordered cfg cs s" by (simp_all add: turns_ok_def)
  have i: "1 \<le> i" "i \<le> length cs" and notin: "i \<notin> set (lo_set s)"
    using placedD(3) [OF p f] placedD(2) [OF p, of i] f by auto
  have "\<forall>j\<in>{1..<i}. eff_writer cfg cs j \<longrightarrow> j \<in> set (lo_set s)"
    using ready by (auto simp: must_follow_def eff_writer_def)
  moreover have "\<forall>j\<in>{i..length cs}. eff_writer cfg cs j \<longrightarrow> j \<notin> set (lo_set s)"
  proof (intro ballI impI notI)
    fix j assume j: "j \<in> {i..length cs}" "eff_writer cfg cs j" "j \<in> set (lo_set s)"
    with notin have "must_follow cfg cs i j"
      using i(1) by (cases "i = j") (auto simp: must_follow_def eff_writer_def)
    with o j have "i \<in> set (lo_set s)" unfolding ordered_def eff_writer_def by blast
    with notin show False by blast
  qed
  ultimately show ?thesis using sk i unfolding skills_ok_def by fastforce
qed

lemma skills_after:
  assumes ok: "turns_ok cfg cs s" and sk: "skills_ok cfg outs a cs s"
    and nr: "activate_name \<notin> set (rc_read_only cfg)"
    and f: "map_of (lo_frames s) i = Some (c, u)" and set: "lo_set t = i # lo_set s"
    and act: "lo_active t = skill_at cfg outs a cs (Suc i)" and now: "lo_active s = skill_at cfg outs a cs i"
  shows "skills_ok cfg outs a cs t"
  unfolding skills_ok_def
proof (intro ballI impI)
  fix k assume k: "k \<in> {1..Suc (length cs)}"
    and cond: "(\<forall>j\<in>{1..<k}. eff_writer cfg cs j \<longrightarrow> j \<in> set (lo_set t)) \<and>
      (\<forall>j\<in>{k..length cs}. eff_writer cfg cs j \<longrightarrow> j \<notin> set (lo_set t))"
  from ok have p: "placed cfg cs s" and o: "ordered cfg cs s" by (simp_all add: turns_ok_def)
  have i: "1 \<le> i" "i \<le> length cs" and notin: "i \<notin> set (lo_set s)"
    using placedD(3) [OF p f] placedD(2) [OF p, of i] f by auto
  show "lo_active t = skill_at cfg outs a cs k"
  proof (cases "eff_writer cfg cs i")
    case False
    have "skill_at cfg outs a cs (Suc i) = skill_at cfg outs a cs i"
      using skill_at_const [OF nr, of i "Suc i"] i False by simp
    moreover have "lo_active s = skill_at cfg outs a cs k"
    proof -
      have "(\<forall>j\<in>{1..<k}. eff_writer cfg cs j \<longrightarrow> j \<in> set (lo_set s)) \<and>
          (\<forall>j\<in>{k..length cs}. eff_writer cfg cs j \<longrightarrow> j \<notin> set (lo_set s))"
        using cond False unfolding set by auto
      with sk k show ?thesis unfolding skills_ok_def by blast
    qed
    ultimately show ?thesis using act now by simp
  next
    case True
    have ik: "i < k"
    proof (rule ccontr)
      assume "\<not> i < k"
      with cond True i have "i \<notin> set (lo_set t)" by auto
      then show False by (simp add: set)
    qed
    have "\<forall>j\<in>{Suc i..<k}. \<not> eff_writer cfg cs j"
    proof (intro ballI notI)
      fix j assume j: "j \<in> {Suc i..<k}" "eff_writer cfg cs j"
      with cond have "j \<in> set (lo_set s)" by (auto simp: set)
      moreover have "must_follow cfg cs i j" using j i by (auto simp: must_follow_def eff_writer_def)
      ultimately have "i \<in> set (lo_set s)" using o j(2) unfolding ordered_def eff_writer_def by blast
      with notin show False by blast
    qed
    with ik k have "skill_at cfg outs a cs k = skill_at cfg outs a cs (Suc i)"
      by (intro skill_at_const [OF nr]) auto
    with act show ?thesis by simp
  qed
qed

lemma eff_writer_snoc: "j \<in> {1..length cs} \<Longrightarrow> eff_writer cfg (cs @ [c]) j = eff_writer cfg cs j"
  by (simp add: eff_writer_def)

lemma skills_begin:
  assumes p: "placed cfg cs s" and sk: "skills_ok cfg outs a cs s"
    and nr: "activate_name \<notin> set (rc_read_only cfg)"
  shows "skills_ok cfg outs a (cs @ [c]) (begin_call cfg c s)"
  unfolding skills_ok_def
proof (intro ballI impI)
  fix k assume k: "k \<in> {1..Suc (length (cs @ [c]))}"
  let ?t = "begin_call cfg c s" and ?n = "Suc (length cs)"
  assume cond: "(\<forall>j\<in>{1..<k}. eff_writer cfg (cs @ [c]) j \<longrightarrow> j \<in> set (lo_set ?t)) \<and>
      (\<forall>j\<in>{k..length (cs @ [c])}. eff_writer cfg (cs @ [c]) j \<longrightarrow> j \<notin> set (lo_set ?t))"
  note calls = placedD(1) [OF p]
  have same: "j \<in> set (lo_set ?t) \<longleftrightarrow> j \<in> set (lo_set s)" if "j \<in> {1..length cs}" for j
    using that calls by auto
  have old: "lo_active s = skill_at cfg outs a cs m"
    if m: "m \<in> {1..?n}" "m = k \<or> m = ?n \<and> k = Suc ?n" for m
  proof -
    have "\<forall>j\<in>{1..<m}. eff_writer cfg cs j \<longrightarrow> j \<in> set (lo_set s)"
    proof (intro ballI impI)
      fix j assume j: "j \<in> {1..<m}" "eff_writer cfg cs j"
      with m have jn: "j \<in> {1..length cs}" and "j \<in> {1..<k}" by auto
      then have "j \<in> set (lo_set ?t)" using cond j(2) eff_writer_snoc [OF jn, of cfg c] by blast
      with same [OF jn] show "j \<in> set (lo_set s)" by blast
    qed
    moreover have "\<forall>j\<in>{m..length cs}. eff_writer cfg cs j \<longrightarrow> j \<notin> set (lo_set s)"
    proof (intro ballI impI)
      fix j assume j: "j \<in> {m..length cs}" "eff_writer cfg cs j"
      with m have jn: "j \<in> {1..length cs}" and "j \<in> {k..length (cs @ [c])}" by auto
      then have "j \<notin> set (lo_set ?t)" using cond j(2) eff_writer_snoc [OF jn, of cfg c] by blast
      with same [OF jn] show "j \<notin> set (lo_set s)" by blast
    qed
    ultimately show ?thesis using sk m(1) unfolding skills_ok_def by blast
  qed
  show "lo_active ?t = skill_at cfg outs a (cs @ [c]) k"
  proof (cases "k = Suc ?n")
    case False
    with k have "k \<in> {1..?n}" by auto
    with old [of k] show ?thesis by (simp add: skill_at_append)
  next
    case True
    have "?n \<notin> set (lo_set s)" using placedD(2) [OF p] by simp
    then have "\<not> eff_writer cfg (cs @ [c]) ?n"
      using cond True calls by (auto simp: eff_writer_def)
    then have "skill_at cfg outs a (cs @ [c]) (Suc ?n) = skill_at cfg outs a (cs @ [c]) ?n"
      by (intro skill_at_const [OF nr]) auto
    with old [of ?n] True show ?thesis by (simp add: skill_at_append)
  qed
qed

subsection \<open>The trace\<close>

definition frames_known ::
    "run_config \<Rightarrow> (nat \<Rightarrow> host_outcome option) \<Rightarrow> string option \<Rightarrow> tool_call list \<Rightarrow> loop_state \<Rightarrow> bool" where
  "frames_known cfg outs a cs s =
     (\<forall>i c u. map_of (lo_frames s) i = Some (c, u) \<longrightarrow>
        (\<forall>args b. u = Asks args b \<or> u = Dispatches args b \<longrightarrow>
           b = skill_at cfg outs a cs i \<and> load_arguments cfg (tc_arguments c) = Inr args \<and>
           enabled cfg b (tc_tool c) \<and> tc_tool c \<noteq> activate_name \<and>
           (tc_tool c = rc_ask_tool cfg \<longleftrightarrow> u = Asks args b)))"

definition serial_ok ::
    "run_config \<Rightarrow> (nat \<Rightarrow> host_outcome option) \<Rightarrow> string option \<Rightarrow> tool_call list \<Rightarrow> loop_state \<Rightarrow> bool" where
  "serial_ok cfg outs a cs s =
     (turns_ok cfg cs s \<and> skills_ok cfg outs a cs s \<and> frames_known cfg outs a cs s \<and>
      trace_held_ok (set (lo_set s)) (event_at cfg outs a cs) s \<and> Suc (lo_traced s) \<notin> set (lo_set s))"

lemma serial_ok_ends:
  assumes s: "serial_ok cfg outs a cs s" and nr: "activate_name \<notin> set (rc_read_only cfg)"
    and f: "map_of (lo_frames s) i = Some (c, u)" and e: "call_ends i s t"
    and ok: "turns_ok cfg cs t" and now: "lo_active s = skill_at cfg outs a cs i"
    and r: "turn_recorded cfg (set (lo_set s)) (event_at cfg outs a cs) i
      (fst (turn_alone cfg i (lo_active s) c (outs i))) t"
  shows "serial_ok cfg outs a cs t"
proof -
  from s have "turns_ok cfg cs s" and sk: "skills_ok cfg outs a cs s" and fk: "frames_known cfg outs a cs s"
    by (simp_all add: serial_ok_def)
  then have p: "placed cfg cs s" by (simp add: turns_ok_def)
  have set: "lo_set t = i # lo_set s" and frames: "map_of (lo_frames t) = (map_of (lo_frames s))(i := None)"
    using e by (simp_all add: call_ends_def AList.delete_conv')
  have i: "1 \<le> i" "i \<le> length cs" "c = nth_call cs i" using placedD(3) [OF p f] by auto
  with r now have act: "lo_active t = skill_at cfg outs a cs (Suc i)"
    by (simp add: turn_recorded_def skill_at_Suc)
  have "skills_ok cfg outs a cs t"
    by (rule skills_after [OF \<open>turns_ok cfg cs s\<close> sk nr f set act now])
  moreover have "frames_known cfg outs a cs t" using fk unfolding frames_known_def frames
    by (metis fun_upd_apply option.distinct(1))
  ultimately show ?thesis using ok r by (simp add: serial_ok_def turn_recorded_def set)
qed

lemma serial_ok_begin:
  assumes s: "serial_ok cfg outs a cs s" and nr: "activate_name \<notin> set (rc_read_only cfg)"
  shows "serial_ok cfg outs a (cs @ [c]) (begin_call cfg c s)"
proof -
  let ?t = "begin_call cfg c s" and ?n = "Suc (length cs)" and ?E = "event_at cfg outs a (cs @ [c])"
  from s have ok: "turns_ok cfg cs s" and sk: "skills_ok cfg outs a cs s" and fk: "frames_known cfg outs a cs s"
    and h: "trace_held_ok (set (lo_set s)) (event_at cfg outs a cs) s" and cl: "Suc (lo_traced s) \<notin> set (lo_set s)"
    by (simp_all add: serial_ok_def)
  then have p: "placed cfg cs s" by (simp add: turns_ok_def)
  note calls = placedD(1) [OF p]
  have D: "1 \<le> j \<and> j \<le> length cs" if "j \<in> set (lo_set s)" for j using that placedD(2) [OF p] by blast
  then have E: "event_at cfg outs a cs j = ?E j" if "j \<in> set (lo_set s)" for j
    using that event_at_append by metis
  have h': "trace_held_ok (set (lo_set s)) ?E s'" if "lo_held s' = lo_held s" "lo_traced s' = lo_traced s"
      "lo_trace s' = lo_trace s" "lo_sink s' = lo_sink s" for s'
    by (rule held_ok_cong [OF E that h])
  have held: "trace_held_ok (set (lo_set ?t)) ?E ?t \<and> Suc (lo_traced ?t) \<notin> set (lo_set ?t)"
  proof (cases "rc_max_tools cfg < int ?n")
    case True
    have "?E ?n = None" using True by (simp add: event_at_def turn_alone_def)
    moreover have "?n \<notin> set (lo_set s)" using D by fastforce
    ultimately have "trace_held_ok (insert ?n (set (lo_set s))) ?E (end_call ?n r s') \<and>
        Suc (lo_traced (end_call ?n r s')) \<notin> insert ?n (set (lo_set s))"
      if "lo_held s' = lo_held s" "lo_traced s' = lo_traced s" "lo_trace s' = lo_trace s" "lo_sink s' = lo_sink s" for r s'
      using end_silent [OF h' [OF that], of ?n] by simp
    with True calls show ?thesis by (simp add: begin_call_def Let_def)
  next
    case False
    with h' cl calls show ?thesis by (simp add: begin_call_def Let_def)
  qed
  have "frames_known cfg outs a (cs @ [c]) ?t" unfolding frames_known_def
  proof (intro allI impI)
    fix i c' u args b
    assume f: "map_of (lo_frames ?t) i = Some (c', u)" and u: "u = Asks args b \<or> u = Dispatches args b"
    then have old: "map_of (lo_frames s) i = Some (c', u)" using calls by (auto simp: begin_frames split: if_splits)
    then have "i \<le> length cs" using placedD(3) [OF p] by blast
    then have "skill_at cfg outs a (cs @ [c]) i = skill_at cfg outs a cs i" by (simp add: skill_at_append)
    with fk old u show "b = skill_at cfg outs a (cs @ [c]) i \<and> load_arguments cfg (tc_arguments c') = Inr args \<and>
        enabled cfg b (tc_tool c') \<and> tc_tool c' \<noteq> activate_name \<and>
        (tc_tool c' = rc_ask_tool cfg \<longleftrightarrow> u = Asks args b)"
      unfolding frames_known_def by metis
  qed
  with held turns_ok_begin [OF ok] skills_begin [OF p sk nr] show ?thesis by (simp add: serial_ok_def)
qed

text \<open>What the host answers to each call: nothing to a call that the SDK cancels.\<close>

definition answers_as :: "(nat \<Rightarrow> host_outcome option) \<Rightarrow> loop_event list \<Rightarrow> bool" where
  "answers_as outs evs =
     list_all (\<lambda>ev. case ev of Answer i out \<Rightarrow> outs i = Some out | Cancel i \<Rightarrow> outs i = None
                | Abandon i \<Rightarrow> False | _ \<Rightarrow> True) evs"

lemma serial_ok_step:
  assumes s: "serial_ok cfg outs a cs s" and nr: "activate_name \<notin> set (rc_read_only cfg)"
    and step: "loop_step cfg ev s = Some t" and ans: "answers_as outs [ev]"
  shows "serial_ok cfg outs a (cs @ calls_begun [ev]) t"
proof -
  let ?E = "event_at cfg outs a cs" and ?D = "set (lo_set s)"
  from s have ok: "turns_ok cfg cs s" and sk: "skills_ok cfg outs a cs s" and fk: "frames_known cfg outs a cs s"
    and h: "trace_held_ok ?D ?E s" by (simp_all add: serial_ok_def)
  then have p: "placed cfg cs s" and o: "ordered cfg cs s" by (simp_all add: turns_ok_def)
  have "\<forall>i. ev \<noteq> Abandon i" using ans by (auto simp: answers_as_def)
  then have ok': "turns_ok cfg (cs @ calls_begun [ev]) t" by (rule turns_ok_step [OF ok step])
  show ?thesis using step
  proof (cases rule: loop_step_cases)
    case (Begin c)
    then show ?thesis using serial_ok_begin [OF s nr] by simp
  next
    case (Enter i c ws)
    have ready: "\<And>j. must_follow cfg cs j i \<Longrightarrow> j \<in> ?D"
      using entering [OF _ _ _ Enter(2,3)] ok unfolding turns_ok_def by blast
    note now = skill_now [OF ok sk Enter(2) ready]
    have i: "1 \<le> i" "i \<le> length cs" "c = nth_call cs i" "int i \<le> rc_max_tools cfg" "i \<notin> ?D"
      using placedD(3) [OF p Enter(2)] placedD(2) [OF p, of i] Enter(2) by auto
    have E: "?E i = snd (turn_alone cfg i (lo_active s) c (outs i))" by (simp add: event_at_def now i(3))
    from invoke_recorded [OF h i(5,1,4) E Enter(4)] show ?thesis
    proof
      assume "call_ends i s t \<and> turn_recorded cfg ?D ?E i (fst (turn_alone cfg i (lo_active s) c (outs i))) t"
      then show ?thesis using serial_ok_ends [OF s nr Enter(2) _ _ now] ok' Enter(1) by simp
    next
      assume "\<exists>args u h. load_arguments cfg (tc_arguments c) = Inr args \<and> enabled cfg (lo_active s) (tc_tool c) \<and>
        tc_tool c \<noteq> activate_name \<and> t = suspend i c u h s \<and>
        u = (if tc_tool c = rc_ask_tool cfg then Asks args (lo_active s) else Dispatches args (lo_active s))"
      then obtain args u x where q: "load_arguments cfg (tc_arguments c) = Inr args"
        "enabled cfg (lo_active s) (tc_tool c)" "tc_tool c \<noteq> activate_name" "t = suspend i c u x s"
        "u = (if tc_tool c = rc_ask_tool cfg then Asks args (lo_active s) else Dispatches args (lo_active s))"
        by blast
      then have t: "lo_active t = lo_active s" "lo_set t = lo_set s" "lo_held t = lo_held s"
        "lo_traced t = lo_traced s" "lo_trace t = lo_trace s" "lo_sink t = lo_sink s"
        "map_of (lo_frames t) = (map_of (lo_frames s))(i \<mapsto> (c, u))"
        by (simp_all add: suspend_def AList.update_conv')
      have "skills_ok cfg outs a cs t" using sk unfolding skills_ok_def t .
      moreover have "trace_held_ok (set (lo_set t)) ?E t" unfolding t(2) by (rule held_ok_cong [OF refl t(3-6) h])
      moreover have "Suc (lo_traced t) \<notin> set (lo_set t)" using s by (simp add: serial_ok_def t)
      moreover have "frames_known cfg outs a cs t" unfolding frames_known_def t
      proof (intro allI impI)
        fix k c' u' args' b
        assume f: "((map_of (lo_frames s))(i \<mapsto> (c, u))) k = Some (c', u')"
          and u': "u' = Asks args' b \<or> u' = Dispatches args' b"
        show "b = skill_at cfg outs a cs k \<and> load_arguments cfg (tc_arguments c') = Inr args' \<and>
            enabled cfg b (tc_tool c') \<and> tc_tool c' \<noteq> activate_name \<and>
            (tc_tool c' = rc_ask_tool cfg \<longleftrightarrow> u' = Asks args' b)"
        proof (cases "k = i")
          case True
          with f have "c' = c" "u' = u" by simp_all
          with True q u' now show ?thesis by (auto split: if_splits)
        next
          case False
          with f have "map_of (lo_frames s) k = Some (c', u')" by simp
          with fk u' show ?thesis unfolding frames_known_def by metis
        qed
      qed
      ultimately show ?thesis using ok' Enter(1) by (simp add: serial_ok_def)
    qed
  next
    case (End i c u)
    have i: "1 \<le> i" "i \<le> length cs" "c = nth_call cs i" "int i \<le> rc_max_tools cfg" "i \<notin> ?D"
      using placedD(3) [OF p End(2)] placedD(2) [OF p, of i] End(2) by auto
    from End(1) ans have ev: "(\<exists>out. ev = Answer i out \<and> outs i = Some out) \<or> ev = Cancel i \<and> outs i = None"
      by (auto simp: answers_as_def)
    with End(3) have turn: "\<forall>ws. u \<noteq> Waits ws" by auto
    then have "in_turn s i" using End(2) by (auto simp: in_turn_def)
    then have "\<And>j. must_follow cfg cs j i \<Longrightarrow> j \<in> ?D" using o unfolding ordered_def by blast
    note now = skill_now [OF ok sk End(2) this]
    obtain args where u: "u = Asks args (lo_active s) \<or> u = Dispatches args (lo_active s)"
      and k: "load_arguments cfg (tc_arguments c) = Inr args" "enabled cfg (lo_active s) (tc_tool c)"
        "tc_tool c \<noteq> activate_name" "tc_tool c = rc_ask_tool cfg \<longleftrightarrow> u = Asks args (lo_active s)"
      using fk End(2) turn now unfolding frames_known_def by (metis turn.exhaust)
    have alone: "turn_alone cfg i (lo_active s) c (outs i) =
        (lo_active s, if u = Asks args (lo_active s) then asked_event i c (lo_active s) args (outs i)
                      else dispatched_event i c (lo_active s) args (outs i))"
      using i(4) k by (simp add: turn_alone_def)
    have E: "?E i = snd (turn_alone cfg i (lo_active s) c (outs i))" by (simp add: event_at_def now i(3))
    have "turn_recorded cfg ?D ?E i (lo_active s) t"
    proof (cases "outs i")
      case None
      with ev step End(2) turn have "t = end_call i CallCancelled s"
        by (auto simp: loop_step_def split: turn.splits)
      moreover have "?E i = None" using E alone None by (simp add: asked_event_def dispatched_event_def)
      ultimately show ?thesis using end_silent [OF h i(5,1)] by (simp add: turn_recorded_def)
    next
      case (Some out)
      with ev have "ev = Answer i out" by auto
      with step End(2) u have "t = (if u = Asks args (lo_active s) then asked i c args (lo_active s) out s
          else dispatched cfg i c args (lo_active s) out s)"
        by (auto simp: loop_step_def)
      then show ?thesis using asked_recorded [OF h i(5,1), of c args out] dispatched_recorded [OF h i(5,1), of c args out cfg]
          E alone Some by simp
    qed
    moreover have "calls_begun [ev] = []" using End(1) by auto
    ultimately show ?thesis using serial_ok_ends [OF s nr End(2,4) _ now] ok' alone by simp
  qed
qed

lemma serial_ok_run:
  "loop_run cfg evs (run_start cfg x r) = Some s \<Longrightarrow> answers_as outs evs \<Longrightarrow>
   activate_name \<notin> set (rc_read_only cfg) \<Longrightarrow>
   serial_ok cfg outs (lo_active (run_start cfg x r)) (calls_begun evs) s"
proof (induction evs arbitrary: s rule: rev_induct)
  case Nil
  then have "s = run_start cfg x r" by simp
  moreover have "serial_ok cfg outs (lo_active (run_start cfg x r)) [] (run_start cfg x r)"
    unfolding serial_ok_def
    by (intro conjI turns_ok_start) (simp_all add: skills_ok_def frames_known_def trace_held_ok_def run_start_def)
  ultimately show ?case by simp
next
  case (snoc ev evs)
  then obtain s' where s': "loop_run cfg evs (run_start cfg x r) = Some s'" "loop_step cfg ev s' = Some s"
    by (auto simp: loop_run_snoc split: bind_splits)
  have "answers_as outs evs" "answers_as outs [ev]" using snoc.prems(2) by (simp_all add: answers_as_def)
  with serial_ok_step [OF snoc.IH [OF s'(1)] _ s'(2)] snoc.prems(3) show ?case by simp
qed

text \<open>
  The trace of a run is that of its calls taken one at a time.  Read-only calls run beside each
  other and their handlers answer in any order; when every call has ended, the trace, what the
  sink has seen of it and the active skill are those of a run that takes the calls singly, in the
  order the model issued them, with the same answers of the host: skills are switched, tools
  denied and the budget cut at the same calls.
\<close>

theorem trace_is_serial:
  assumes "loop_run cfg evs (run_start cfg active rec) = Some s" and "answers_as outs evs"
    and "activate_name \<notin> set (rc_read_only cfg)" and "lo_frames s = []"
  shows "(lo_trace s, lo_active s) =
      one_at_a_time cfg outs 1 (lo_active (run_start cfg active rec)) (calls_begun evs) \<and>
    lo_sink s = lo_trace s"
proof -
  let ?cs = "calls_begun evs" and ?a = "lo_active (run_start cfg active rec)"
  note ok = serial_ok_run [OF assms(1-3)]
  then have p: "placed cfg ?cs s" and h: "trace_held_ok (set (lo_set s)) (event_at cfg outs ?a ?cs) s"
    and cl: "Suc (lo_traced s) \<notin> set (lo_set s)" and sk: "skills_ok cfg outs ?a ?cs s"
    by (simp_all add: serial_ok_def turns_ok_def)
  have D: "j \<in> set (lo_set s) \<longleftrightarrow> j \<in> {1..length ?cs}" for j
    using placedD(2) [OF p, of j] assms(4) by simp
  have "lo_traced s = length ?cs"
  proof -
    have "{1..lo_traced s} \<subseteq> {1..length ?cs}" using h D by (auto simp: trace_held_ok_def)
    then have "lo_traced s \<le> length ?cs" by (cases "lo_traced s") (simp_all add: subset_iff)
    with cl D show ?thesis by fastforce
  qed
  moreover have "lo_active s = skill_at cfg outs ?a ?cs (Suc (length ?cs))"
    using bspec [OF sk [unfolded skills_ok_def], of "Suc (length ?cs)"] D by simp
  ultimately show ?thesis using h one_at_a_time_events [of cfg outs ?a ?cs] by (simp add: trace_held_ok_def)
qed

subsection \<open>A run\<close>

definition demo_cfg :: run_config where
  "demo_cfg =
     \<lparr>rc_skills = [(''triage'', \<lparr>sk_description = ''d'', sk_instructions = ''i'', sk_clauses = None,
        sk_tools = [''read'', ''update'']\<rparr>)],
      rc_always = [''ask''], rc_ask_tool = ''ask'', rc_max_tools = 4, rc_read_only = [''read''],
      rc_record = (\<lambda>d. None),
      rc_loads = (\<lambda>t. if t = ''triage'' then Inr (PDict [(''name'', PStr ''triage'')]) else Inr (PDict []))\<rparr>"

definition demo_call :: "string \<Rightarrow> string \<Rightarrow> tool_call" where
  "demo_call name text = \<lparr>tc_id = ''call'', tc_tool = name, tc_arguments = text\<rparr>"

definition demo_result :: py_dict where
  "demo_result = [(''ok'', PBool True)]"

text \<open>A denied write, the activation of the skill, two reads side by side, and one call too many.\<close>

definition demo_events :: "loop_event list" where
  "demo_events =
     [Begin (demo_call ''update'' []), Enter 1, Begin (demo_call ''activate_skill'' ''triage''),
      Begin (demo_call ''read'' []), Begin (demo_call ''read'' []), Begin (demo_call ''update'' []),
      Enter 2, Enter 3, Enter 4]"

definition demo_state :: "loop_event list \<Rightarrow> loop_state" where
  "demo_state evs = the (loop_run demo_cfg evs (run_start demo_cfg None []))"

lemma agent_demo_runs:
  "loop_run demo_cfg demo_events (run_start demo_cfg None []) \<noteq> None"
  "loop_run demo_cfg (demo_events @ [Answer 4 (Returned demo_result), Answer 3 (Returned demo_result)])
     (run_start demo_cfg None []) \<noteq> None"
  by code_simp+

lemma demo_state_runs:
  "loop_run demo_cfg demo_events (run_start demo_cfg None []) = Some (demo_state demo_events)"
  "loop_run demo_cfg (demo_events @ [Answer 4 (Returned demo_result), Answer 3 (Returned demo_result)])
     (run_start demo_cfg None []) =
   Some (demo_state (demo_events @ [Answer 4 (Returned demo_result), Answer 3 (Returned demo_result)]))"
  using agent_demo_runs by (auto simp: demo_state_def)

lemma writes_run_alone_witness:
  "in_turn (demo_state demo_events) 3 \<and> in_turn (demo_state demo_events) 4 \<and>
   \<not> changes_record demo_cfg (calls_begun demo_events) 3 \<and> \<not> changes_record demo_cfg (calls_begun demo_events) 4"
proof -
  have late: "no_late_entry demo_events" by code_simp
  have "map_of (lo_frames (demo_state demo_events)) 3 =
      Some (demo_call ''read'' [], Dispatches (PDict []) (Some ''triage''))"
    "map_of (lo_frames (demo_state demo_events)) 4 =
      Some (demo_call ''read'' [], Dispatches (PDict []) (Some ''triage''))" by code_simp+
  then have turns: "in_turn (demo_state demo_events) 3" "in_turn (demo_state demo_events) 4"
    by (auto simp: in_turn_def)
  have "\<forall>j. in_turn (demo_state demo_events) j \<and> j \<noteq> 3 \<longrightarrow>
      \<not> changes_record demo_cfg (calls_begun demo_events) 3 \<and> \<not> changes_record demo_cfg (calls_begun demo_events) j"
    using writes_run_alone [OF demo_state_runs(1) late turns(1)] by (rule conjunct2)
  moreover have "(4::nat) \<noteq> 3" by simp
  ultimately show ?thesis using turns by blast
qed

lemma calls_come_to_an_end_witness:
  "lo_frames (demo_state demo_events) \<noteq> [] \<and>
   ((\<exists>i. in_turn (demo_state demo_events) i) \<or> (\<exists>i. loop_step demo_cfg (Enter i) (demo_state demo_events) \<noteq> None))"
proof -
  have "lo_frames (demo_state demo_events) \<noteq> []" by code_simp
  with calls_come_to_an_end [OF demo_state_runs(1)] show ?thesis by blast
qed

lemma seams_are_gated_witness:
  "lo_host (demo_state demo_events) =
     [Dispatched 3 ''call'' ''read'' (PDict []) (Some ''triage''),
      Dispatched 4 ''call'' ''read'' (PDict []) (Some ''triage'')] \<and>
   length (lo_host (demo_state demo_events)) \<le> 4"
proof -
  have "lo_host (demo_state demo_events) =
     [Dispatched 3 ''call'' ''read'' (PDict []) (Some ''triage''),
      Dispatched 4 ''call'' ''read'' (PDict []) (Some ''triage'')]" by code_simp
  moreover have "nat (rc_max_tools demo_cfg) = 4" by code_simp
  ultimately show ?thesis using seams_are_gated [OF demo_state_runs(1)] by auto
qed

lemma trace_is_serial_witness:
  "map te_index (lo_trace (demo_state (demo_events @ [Answer 4 (Returned demo_result), Answer 3 (Returned demo_result)])))
     = [1, 2, 3, 4] \<and>
   lo_trace (demo_state (demo_events @ [Answer 4 (Returned demo_result), Answer 3 (Returned demo_result)])) =
     fst (one_at_a_time demo_cfg (\<lambda>i. Some (Returned demo_result)) 1 None
       (map (\<lambda>(n, t). demo_call n t) [(''update'', []), (''activate_skill'', ''triage''), (''read'', []),
          (''read'', []), (''update'', [])]))"
proof -
  let ?evs = "demo_events @ [Answer 4 (Returned demo_result), Answer 3 (Returned demo_result)]"
  have a: "answers_as (\<lambda>i. Some (Returned demo_result)) ?evs" by code_simp
  have n: "activate_name \<notin> set (rc_read_only demo_cfg)" by code_simp
  have f: "lo_frames (demo_state ?evs) = []" by code_simp
  have "calls_begun ?evs = map (\<lambda>(n, t). demo_call n t) [(''update'', []), (''activate_skill'', ''triage''),
      (''read'', []), (''read'', []), (''update'', [])]" by code_simp
  moreover have "lo_active (run_start demo_cfg None []) = None" by code_simp
  moreover have "map te_index (lo_trace (demo_state ?evs)) = [1, 2, 3, 4]" by code_simp
  ultimately show ?thesis
    using trace_is_serial [OF demo_state_runs(2) a n f] by (metis fst_conv)
qed

text \<open>
  The exclusion rests on the SDK cancelling the calls of a turn together: once a waiting write is
  abandoned alone, the next call runs beside the write before it.
\<close>

lemma abandoned_wait_lets_writes_meet:
  "let s = demo_state [Begin (demo_call ''activate_skill'' ''triage''), Enter 1, Begin (demo_call ''update'' []),
       Begin (demo_call ''update'' []), Begin (demo_call ''update'' []), Enter 2, Abandon 3, Enter 4]
   in map fst (lo_frames s) = [2, 4] \<and> lo_set s = [3, 1]"
  by code_simp

end
