(* ===== verification/Spec2Isabelle.thy ===== *)
theory Spec2Isabelle
  imports JobsProps WfTheorems WfGuarantees AccessProps AuditProps AuditModel RateProps TenancyProps NotifyOutbox LookupSeedClaims ValidateForeign AgentProps
begin

text \<open>
  \<^bold>\<open>Asas: a model of the package family and what it guarantees.\<close>

  Asas is a family of Python packages (under \<^verbatim>\<open>src/packages\<close>) that a FastAPI/SQLModel application
  installs into itself: each keeps its state in tables of the host's database, registers the host's
  hooks in module globals, and exposes functions that run in the host's session.  This development
  models the packages one by one, in the order below, and proves what makes each correct.  A table
  is the list of its rows in insertion order, a module global is a field of a record, an operation
  maps the state before to the state after and to a result; an exception is the left summand of
  \<open>result\<close> (\<open>py_exn\<close>), on which the host rolls the session back.

  \<^bold>\<open>Shared theories.\<close>
  \<^item> \<open>Prelude\<close>: results, the SQL shapes (SELECT, guarded UPDATE, COUNT, ORDER BY LIMIT 1) and their
    lemmas, and three interfaces as locales: \<open>row_update\<close> (an UPDATE that keeps the key),
    \<open>cas_update\<close> (a compare-and-set UPDATE that disarms its own guard) and \<open>invariant_system\<close>
    (a transition system with an inductive invariant).
  \<^item> \<open>PyValue\<close>: the values of JSON columns with Python's truth, equality and ordering, strings
    (code points below 256), dicts as association lists.  \<open>PyText\<close>: the decimal text of integers.

  \<^bold>\<open>asas-jobs\<close> (\<^verbatim>\<open>queue.py\<close>, \<^verbatim>\<open>scheduler.py\<close>, \<^verbatim>\<open>runner.py\<close>, \<^verbatim>\<open>registry.py\<close>, \<^verbatim>\<open>models.py\<close>): a queue and
  an interval scheduler without a broker.
  \<^item> \<open>JobsModel\<close>: the rows, the unique indexes, the invariant \<open>jobs_inv\<close>.
  \<^item> \<open>JobsQueue\<close>: enqueue, claim, settle, backoff, lease reclaim.  The argument \<open>env\<close> is what other
    workers commit between two statements of one operation.
  \<^item> \<open>JobsScheduler\<close>, \<open>JobsRunner\<close>: the tick and the worker pass; the claim loop has the source's own
    bound of five tries, a pass its bound of fifty jobs.
  \<^item> \<open>JobsProps\<close>: the transition system of any number of workers and its invariant; deliveries are
    bounded; one claim wins; a dedupe key has one active job; a tick enqueues at most once; a pass
    refines a sequence of atomic transactions.

  \<^bold>\<open>asas-workflow\<close> (\<^verbatim>\<open>engine.py\<close>, \<^verbatim>\<open>definitions.py\<close>, \<^verbatim>\<open>conditions.py\<close>, \<^verbatim>\<open>registry.py\<close>, \<^verbatim>\<open>events.py\<close>,
  \<^verbatim>\<open>models.py\<close>): versioned approval processes.
  \<^item> \<open>WfModel\<close>, \<open>WfDefinitions\<close>, \<open>WfValidate\<close>, \<open>WfCatalog\<close>: tables, conditions, the host's registry,
    validation of specs, publishing and binding.  The digest of a spec is a parameter.
  \<^item> \<open>WfEngine\<close>, \<open>WfOps\<close>: the executor and the operations.  The walk over automatic nodes may not
    return (a published loop of automatic nodes), so it has fuel and \<open>None\<close> is not returning;
    \<open>WfFlow\<close> gives the fuel that is enough when the nodes are ranked, and \<open>WfGuarantees\<close> exhibits a
    validated definition for which no fuel is.
  \<^item> \<open>WfInvariant\<close>, \<open>WfWalk\<close>, \<open>WfConsistent\<close>, \<open>WfHistory\<close>: the consistency invariant of
    the instance tables, kept by every operation, and the growth of the audit trail.
  \<^item> \<open>WfTheorems\<close>, \<open>WfGuarantees\<close>: the transition system, and the properties: authority,
    four-eyes, quorum and veto, validation as graph reachability, publishing, and the two corners
    where an instance errs or stalls.

  \<^bold>\<open>asas-access\<close> (\<^verbatim>\<open>policy.py\<close>, \<^verbatim>\<open>actions.py\<close>, \<^verbatim>\<open>mac.py\<close>, \<^verbatim>\<open>visibility.py\<close>, \<^verbatim>\<open>principals.py\<close>,
  \<^verbatim>\<open>groups.py\<close>, \<^verbatim>\<open>seeding.py\<close>): grants, clearances, redaction.
  \<^item> \<open>AccessModel\<close>: tables, the host's wiring as a record, the process caches; the locale
    \<open>read_through\<close> is the contract of a cache that is filled on read and dropped on write, with one
    interpretation for each of the three caches.
  \<^item> \<open>AccessPolicy\<close>, \<open>AccessMac\<close>, \<open>AccessProps\<close>: decisions, and their properties against
    specifications read off the tables: who is hidden from a field (\<open>hidden_from\<close>), which rows stamp a
    record and how its level ranks (\<open>stamps\<close>, \<open>outranked\<close>), whose grants count.

  \<^bold>\<open>asas-audit\<close> (\<^verbatim>\<open>chain.py\<close>, \<^verbatim>\<open>service.py\<close>, \<^verbatim>\<open>models.py\<close>, \<^verbatim>\<open>router.py\<close>): a hash-chained log.
  \<^item> \<open>AuditJson\<close>: the canonical JSON text, and a proof that it determines the value.  The text of a
    float is a parameter with the properties of \<open>repr\<close> as the hypothesis \<open>float_text_ok\<close>.
  \<^item> \<open>AuditModel\<close>: rows, the chain arithmetic, the read routes, and appends by concurrent sessions
    (transactions with the advisory lock of PostgreSQL, or the mutex and the single writer of
    SQLite).  SHA-256 and \<open>isoformat\<close> are parameters; nothing is assumed of SHA-256, results name the
    colliding rows instead.
  \<^item> \<open>AuditChain\<close>, \<open>AuditProps\<close>: the invariants under interleaving, tamper evidence, and its limits.

  \<^bold>\<open>asas-ratelimit\<close> (\<^verbatim>\<open>__init__.py\<close>): \<open>RateLimit\<close> models the token buckets (floats as exact rationals
  with infinities and NaN), \<open>RateProps\<close> proves the rate bound over any span of a run, that pruning is unobservable and that
  \<open>Retry-After\<close> is honest.

  \<^bold>\<open>asas-tenancy\<close> (\<^verbatim>\<open>context.py\<close>, \<^verbatim>\<open>guc.py\<close>, \<^verbatim>\<open>policy.py\<close>, \<^verbatim>\<open>engine.py\<close>, \<^verbatim>\<open>conformance.py\<close>): isolation
  by row-level security.
  \<^item> \<open>TenancyModel\<close>, \<open>TenancyPolicy\<close>, \<open>TenancyConformance\<close>: the helpers over a model of what PostgreSQL
    documents of settings, transactions, row security and exempt roles.
  \<^item> \<open>TenancyProps\<close>: isolation of reads and writes, the gap of shared rows, the pinned pool (for
    work that does not set the variable for the session itself), the conformance checks.

  \<^bold>\<open>asas-notifications\<close> (\<^verbatim>\<open>service.py\<close>, \<^verbatim>\<open>models.py\<close>, \<^verbatim>\<open>channels.py\<close>, \<^verbatim>\<open>router.py\<close>, \<^verbatim>\<open>aio.py\<close>): emits, a
  feed, and an outbox for external channels.
  \<^item> \<open>NotifyModel\<close>: rows, identities, the host's seams, the caches of the configuration tables with
    their time to live.  \<open>NotifyRoute\<close>: the routing matrix and \<open>notify\<close>.  \<open>NotifyFeed\<close>: the feed, the
    read and archive marks, the routes; \<open>env\<close> is what others commit between a read and its write.
  \<^item> \<open>NotifyDispatch\<close>: the statements of a dispatch pass and the whole pass, sync and async, over
    connections that see some organisations' rows.  \<open>NotifyPasses\<close>: any number of concurrent passes,
    with crashes and the clock, as a step function on events; the bounds that always hold.
    \<open>NotifyLive\<close>: the invariants that need sends to end within the stale-claim window, and the system
    without a crash between an acceptance and its mark.
  \<^item> \<open>NotifyTables\<close>: routing and emitting as specifications, the invariant of the tables
    under every operation.  \<open>NotifyProps\<close>, \<open>NotifyOutbox\<close>: the properties.

  \<^bold>\<open>asas-lookups\<close> (\<^verbatim>\<open>service.py\<close>, \<^verbatim>\<open>seeding.py\<close>, \<^verbatim>\<open>router.py\<close>, \<^verbatim>\<open>models.py\<close>, \<^verbatim>\<open>schemas.py\<close>): lists of codes with
  labels, for the platform or for each organisation.
  \<^item> \<open>LookupModel\<close>, \<open>LookupWrite\<close>, \<open>LookupSeed\<close>, \<open>LookupRouter\<close>: tables and reads, the mutations with
    their two transactions, seeding of organisations and of loaded files, the routes with their
    ETags.  SHA-1 and SHA-256 are parameters.
  \<^item> \<open>LookupInv\<close>, \<open>LookupOps\<close>, \<open>LookupMoves\<close>, \<open>LookupOrgSeed\<close>, \<open>LookupFileSeed\<close>, \<open>LookupFileRun\<close>,
    \<open>LookupCalls\<close>, \<open>LookupReads\<close>: the table invariant and what each kind of write may change; the locale \<open>effect\<close>
    is the contract of a write (it keeps the invariant and stays within its kind), interpreted
    for edits, relabelings, moves, growth and sowing.
  \<^item> \<open>LookupGuarantees\<close>, \<open>LookupSeedClaims\<close>: isolation of organisations, truth of a 304, seeding.

  \<^bold>\<open>asas-validation\<close> (\<^verbatim>\<open>checks.py\<close>, \<^verbatim>\<open>clock.py\<close>, \<^verbatim>\<open>rules.py\<close>, \<^verbatim>\<open>fields.py\<close>, \<^verbatim>\<open>engine.py\<close>, \<^verbatim>\<open>errors.py\<close>,
  \<^verbatim>\<open>library.py\<close>, \<^verbatim>\<open>router.py\<close>): checks of one value, declared rules over a record, a catalog of both.
  \<^item> \<open>ValidateDates\<close>, \<open>ValidateNumbers\<close>, \<open>ValidateText\<close>: what the checks use of Python: dates as
    ordinals, doubles with their rounding, texts, and the regular expressions of the file.
  \<^item> \<open>ValidateChecks\<close>, \<open>ValidateForms\<close>, \<open>ValidateEngine\<close>, \<open>ValidateCalls\<close>: one definition per check, the
    engine of the declared rules, the 422 envelope, the namespace and the route.  The text of a
    float, the date of a datetime text, a host's regular expression and the check of a bracketed
    host name are parameters (\<open>check_env\<close>).
  \<^item> \<open>ValidateCalendar\<close>, \<open>ValidateSound\<close>: the calendar, and that every check used
    within its limits answers.  \<open>ValidateProps\<close>, \<open>ValidateClaims\<close>,
    \<open>ValidateForeign\<close>: the properties: ages, dates, checksums, declared rules,
    the catalog, and the values that slip through or raise.

  \<^bold>\<open>asas-agent\<close> (\<^verbatim>\<open>loop.py\<close>, \<^verbatim>\<open>seams.py\<close>, \<^verbatim>\<open>usage_of\<close> of \<^verbatim>\<open>models.py\<close>): the tool calls of one run of an agent.
  \<^item> \<open>AgentLoop\<close>: what the model reads, and the loop as steps of coroutines between two suspensions:
    a call begins (index, place, events to wait for), enters its turn, is answered by the host, or
    is cancelled.  The SDK's runner, the host's dispatcher and ask handler, the renderer and
    \<open>json.loads\<close> are parameters; the loop over the held trace events ends with the list.
  \<^item> \<open>AgentTurns\<close>, \<open>AgentTrace\<close>, \<open>AgentProps\<close>: who waits for whom as invariants of every run; writes
    run alone, no call is stuck, the host is called within the budget and under the active skill,
    and the trace is that of a run that takes the calls one at a time.

  \<^bold>\<open>Not modelled.\<close>  Rounding of the floats of asas-ratelimit (asas-validation has it); code points
  above 255; aware datetimes and Decimal values in checks; the wording of some messages; the packages
  asas-search, asas-storage, asas-graph, asas-llm, asas-oracle, asas-mcp, asas-cli
  (clients of services, adapters, prompts and command-line code, or not reached yet); of asas-agent
  the releases, the guard, evaluation and tracing; in asas-lookups
  the seeding of hand-made schemas (\<^verbatim>\<open>orm_seeding.py\<close>), the reading and checking of the data files and
  the country generator; Alembic migrations, examples, scripts and tests.
\<close>

end
